(* ===== verification/Prelude.thy ===== *)
theory Prelude
  imports Main "HOL-Library.Word" "HOL-Library.Char_ord" "HOL-Library.List_Lexorder"
    "HOL-Library.Product_Lexorder" "HOL-Library.Multiset"
begin

text \<open>
  Shared vocabulary of the development: Rust strings as their UTF-8 bytes, the \<open>?\<close> operator on
  results, ordered maps, and the small calculus (\<open>spec\<close>) in which the operations of the
  components are specified.

  A Rust \<open>String\<close> is a list of bytes, written as an Isabelle \<open>string\<close> (a \<open>char\<close> is one byte), and
  \<open>len\<close>, equality and the derived ordering of Rust work on those bytes. A Rust \<open>char\<close> is the
  group of one to four bytes that encodes it. What depends on Unicode's case and category tables
  is collected in the record \<open>unicode\<close>, which the definitions take as an argument.
\<close>

section \<open>Collections of facts\<close>

named_theorems spec_intros "rules that prove a specification of one operation"
named_theorems frame "what an operation leaves unchanged"

section \<open>Results and the question-mark operator\<close>

text \<open>
  A fallible operation returns \<open>'e + 'a\<close>, \<open>Inl\<close> being Rust's \<open>Err\<close>. \<open>try_op\<close> is \<open>?\<close>: an error
  returns at once, a value goes on to the rest of the function. Recursions that follow indices
  rather than the structure of data carry fuel; running out of it is \<open>Diverged\<close>, a value no
  code path of Rust produces, so that a proof has to show that it never occurs.
\<close>

definition try_op :: "'e + 'a \<Rightarrow> ('a \<Rightarrow> 'e + 'b) \<Rightarrow> 'e + 'b" where
  "try_op r k = (case r of Inl e \<Rightarrow> Inl e | Inr x \<Rightarrow> k x)"

lemma try_op_simps [simp]:
  "try_op (Inl e) k = Inl e"
  "try_op (Inr x) k = k x"
  by (simp_all add: try_op_def)

lemma try_op_Inr_iff: "try_op r k = Inr y \<longleftrightarrow> (\<exists>x. r = Inr x \<and> k x = Inr y)"
  by (cases r) auto

lemma try_op_cong [fundef_cong]:
  "r = r' \<Longrightarrow> (\<And>x. r' = Inr x \<Longrightarrow> k x = k' x) \<Longrightarrow> try_op r k = try_op r' k'"
  by (cases r') auto

datatype 'e fail = Diverged | Failed 'e

text \<open>
  \<open>spec S r P\<close>: the result \<open>r\<close> never diverges, fails only when the side condition \<open>S\<close> does not
  hold, and every value it returns satisfies \<open>P\<close>. With \<open>S = True\<close> it is total correctness, with
  \<open>S = False\<close> the partial correctness of an operation that may fail.
\<close>

definition spec :: "bool \<Rightarrow> 'e fail + 'a \<Rightarrow> ('a \<Rightarrow> bool) \<Rightarrow> bool" where
  "spec S r P =
     (case r of Inl f \<Rightarrow> (case f of Diverged \<Rightarrow> False | Failed e \<Rightarrow> \<not> S) | Inr x \<Rightarrow> P x)"

lemma spec_Inr [simp]: "spec S (Inr x) P \<longleftrightarrow> P x"
  by (simp add: spec_def)

lemma spec_Failed [simp]: "spec S (Inl (Failed e)) P \<longleftrightarrow> \<not> S"
  by (simp add: spec_def)

lemma spec_Diverged [simp]: "\<not> spec S (Inl Diverged) P"
  by (simp add: spec_def)

lemma spec_try:
  assumes "spec S r P" and "\<And>x. P x \<Longrightarrow> spec S (k x) Q"
  shows "spec S (try_op r k) Q"
proof (cases r)
  case (Inl f)
  with assms(1) show ?thesis by (cases f) auto
next
  case (Inr x)
  with assms show ?thesis by simp
qed

lemma spec_mono: "spec S r P \<Longrightarrow> (\<And>x. P x \<Longrightarrow> Q x) \<Longrightarrow> spec S r Q"
  by (cases r) (auto simp: spec_def split: fail.splits)

lemma spec_if:
  "(c \<Longrightarrow> spec S r P) \<Longrightarrow> (\<not> c \<Longrightarrow> spec S r' P) \<Longrightarrow> spec S (if c then r else r') P"
  by simp

lemma spec_True_iff: "spec True r P \<longleftrightarrow> (\<exists>x. r = Inr x \<and> P x)"
  by (cases r) (auto simp: spec_def split: fail.splits)

lemma spec_ok: "spec S r P \<Longrightarrow> S \<Longrightarrow> \<exists>x. r = Inr x \<and> P x"
  by (cases r) (auto simp: spec_def split: fail.splits)

lemma spec_value: "spec S r P \<Longrightarrow> r = Inr x \<Longrightarrow> P x"
  by simp

section \<open>Characters and Unicode tables\<close>

type_synonym rchar = string

abbreviation byte_of :: "char \<Rightarrow> nat" where
  "byte_of c \<equiv> of_char c"

definition is_continuation :: "char \<Rightarrow> bool" where
  "is_continuation c \<longleftrightarrow> 128 \<le> byte_of c \<and> byte_of c < 192"

text \<open>\<open>str::chars\<close>: a lead byte and the continuation bytes after it form one character.\<close>

function chars :: "string \<Rightarrow> rchar list" where
  "chars [] = []"
| "chars (b # bs) =
     (b # takeWhile is_continuation bs) # chars (dropWhile is_continuation bs)"
  by pat_completeness auto
termination
  by (relation "measure length") (auto simp: length_dropWhile_le le_imp_less_Suc)

lemma concat_chars [simp]: "concat (chars s) = s"
  by (induction s rule: chars.induct) auto

lemma chars_nonempty: "c \<in> set (chars s) \<Longrightarrow> c \<noteq> []"
  by (induction s rule: chars.induct) auto

text \<open>
  \<open>char::is_whitespace\<close>: the property White\_Space of Unicode, a fixed set of 25 code points, each
  given by its UTF-8 bytes.
\<close>

definition whitespace_chars :: "rchar list" where
  "whitespace_chars =
     [[CHR 0x09], [CHR 0x0A], [CHR 0x0B], [CHR 0x0C], [CHR 0x0D], [CHR 0x20],
      [CHR 0xC2, CHR 0x85], [CHR 0xC2, CHR 0xA0], [CHR 0xE1, CHR 0x9A, CHR 0x80],
      [CHR 0xE2, CHR 0x80, CHR 0x80], [CHR 0xE2, CHR 0x80, CHR 0x81],
      [CHR 0xE2, CHR 0x80, CHR 0x82], [CHR 0xE2, CHR 0x80, CHR 0x83],
      [CHR 0xE2, CHR 0x80, CHR 0x84], [CHR 0xE2, CHR 0x80, CHR 0x85],
      [CHR 0xE2, CHR 0x80, CHR 0x86], [CHR 0xE2, CHR 0x80, CHR 0x87],
      [CHR 0xE2, CHR 0x80, CHR 0x88], [CHR 0xE2, CHR 0x80, CHR 0x89],
      [CHR 0xE2, CHR 0x80, CHR 0x8A], [CHR 0xE2, CHR 0x80, CHR 0xA8],
      [CHR 0xE2, CHR 0x80, CHR 0xA9], [CHR 0xE2, CHR 0x80, CHR 0xAF],
      [CHR 0xE2, CHR 0x81, CHR 0x9F], [CHR 0xE3, CHR 0x80, CHR 0x80]]"

definition is_whitespace :: "rchar \<Rightarrow> bool" where
  "is_whitespace c \<longleftrightarrow> c \<in> set whitespace_chars"

definition trim :: "string \<Rightarrow> string" where
  "trim s = concat (rev (dropWhile is_whitespace (rev (dropWhile is_whitespace (chars s)))))"

lemma trim_Nil [simp]: "trim [] = []"
  by (simp add: trim_def)

text \<open>The case and category tables of the standard library that the sources consult.\<close>

record unicode =
  str_lowercase :: "string \<Rightarrow> string"
  char_lowercase :: "rchar \<Rightarrow> rchar list"
  char_is_alphabetic :: "rchar \<Rightarrow> bool"
  char_is_uppercase :: "rchar \<Rightarrow> bool"
  char_is_alphanumeric :: "rchar \<Rightarrow> bool"

text \<open>\<open>char::to_ascii_lowercase\<close> and the ASCII character classes, exact for every byte.\<close>

definition ascii_lower :: "char \<Rightarrow> char" where
  "ascii_lower c = (if 65 \<le> byte_of c \<and> byte_of c \<le> 90 then char_of (byte_of c + 32) else c)"

definition ascii_upper_letter :: "char \<Rightarrow> bool" where
  "ascii_upper_letter c \<longleftrightarrow> 65 \<le> byte_of c \<and> byte_of c \<le> 90"

definition ascii_lower_letter :: "char \<Rightarrow> bool" where
  "ascii_lower_letter c \<longleftrightarrow> 97 \<le> byte_of c \<and> byte_of c \<le> 122"

definition ascii_digit :: "char \<Rightarrow> bool" where
  "ascii_digit c \<longleftrightarrow> 48 \<le> byte_of c \<and> byte_of c \<le> 57"

definition ascii_alphanumeric :: "char \<Rightarrow> bool" where
  "ascii_alphanumeric c \<longleftrightarrow> ascii_upper_letter c \<or> ascii_lower_letter c \<or> ascii_digit c"

text \<open>
  The restriction of the tables to ASCII, which agrees with the standard library on every ASCII
  string: the instance at which the concrete examples are evaluated.
\<close>

definition ascii_tables :: unicode where
  "ascii_tables =
     \<lparr>str_lowercase = map ascii_lower,
      char_lowercase = (\<lambda>c. [map ascii_lower c]),
      char_is_alphabetic = (\<lambda>c. length c = 1 \<and> list_all (\<lambda>b. ascii_upper_letter b \<or> ascii_lower_letter b) c),
      char_is_uppercase = (\<lambda>c. length c = 1 \<and> list_all ascii_upper_letter c),
      char_is_alphanumeric = (\<lambda>c. length c = 1 \<and> list_all ascii_alphanumeric c)\<rparr>"

section \<open>String operations of the standard library\<close>

fun join :: "string \<Rightarrow> string list \<Rightarrow> string" where
  "join sep [] = []"
| "join sep [s] = s"
| "join sep (s # t # ts) = s @ sep @ join sep (t # ts)"

definition starts_with :: "string \<Rightarrow> string \<Rightarrow> bool" where
  "starts_with p s \<longleftrightarrow> take (length p) s = p"

definition strip_prefix :: "string \<Rightarrow> string \<Rightarrow> string option" where
  "strip_prefix p s = (if starts_with p s then Some (drop (length p) s) else None)"

text \<open>\<open>split_once\<close> and \<open>rsplit_once\<close> at an ASCII separator: the first, and the last, occurrence.\<close>

fun split_once :: "char \<Rightarrow> string \<Rightarrow> (string \<times> string) option" where
  "split_once c [] = None"
| "split_once c (b # bs) =
     (if b = c then Some ([], bs)
      else map_option (\<lambda>(l, r). (b # l, r)) (split_once c bs))"

definition rsplit_once :: "char \<Rightarrow> string \<Rightarrow> (string \<times> string) option" where
  "rsplit_once c s = map_option (\<lambda>(l, r). (rev r, rev l)) (split_once c (rev s))"

text \<open>\<open>s.rsplit(c).next()\<close>: what follows the last separator, the whole string without one.\<close>

definition rsplit_first :: "char \<Rightarrow> string \<Rightarrow> string" where
  "rsplit_first c s = (case rsplit_once c s of Some (_, r) \<Rightarrow> r | None \<Rightarrow> s)"

definition replace_char :: "char \<Rightarrow> char \<Rightarrow> string \<Rightarrow> string" where
  "replace_char a b s = map (\<lambda>c. if c = a then b else c) s"

definition trim_start_char :: "char \<Rightarrow> string \<Rightarrow> string" where
  "trim_start_char c s = dropWhile (\<lambda>b. b = c) s"

definition trim_matches_char :: "char \<Rightarrow> string \<Rightarrow> string" where
  "trim_matches_char c s = rev (dropWhile (\<lambda>b. b = c) (rev (dropWhile (\<lambda>b. b = c) s)))"

text \<open>Decimal printing, as \<open>to_string\<close> does for unsigned and signed integers.\<close>

definition digit_char :: "nat \<Rightarrow> char" where
  "digit_char d = char_of (48 + d)"

fun string_of_nat :: "nat \<Rightarrow> string" where
  "string_of_nat n =
     (if n < 10 then [digit_char n] else string_of_nat (n div 10) @ [digit_char (n mod 10)])"

declare string_of_nat.simps [simp del]

definition string_of_int :: "int \<Rightarrow> string" where
  "string_of_int i = (if i < 0 then CHR ''-'' # string_of_nat (nat (- i)) else string_of_nat (nat i))"

lemma split_once_Some: "split_once c s = Some (l, r) \<Longrightarrow> s = l @ c # r \<and> c \<notin> set l"
  by (induction s arbitrary: l r) (auto split: if_splits)

lemma split_once_None: "split_once c s = None \<longleftrightarrow> c \<notin> set s"
  by (induction s) auto

lemma append_sep_eq:
  assumes "c \<notin> set xs" and "c \<notin> set ys" and "xs @ c # us = ys @ c # vs"
  shows "xs = ys \<and> us = vs"
  using assms by (induction xs arbitrary: ys) (auto simp: Cons_eq_append_conv)

text \<open>\<open>{n:0width$}\<close>: the decimal digits after as many zeros as fill the width.\<close>

definition zero_padded :: "nat \<Rightarrow> nat \<Rightarrow> string" where
  "zero_padded width n = replicate (width - length (string_of_nat n)) (CHR ''0'') @ string_of_nat n"

lemma string_of_nat_rec:
  "string_of_nat n = (if n < 10 then [] else string_of_nat (n div 10)) @ [digit_char (n mod 10)]"
  by (subst string_of_nat.simps) simp

lemma string_of_nat_nonempty: "string_of_nat n \<noteq> []"
  by (subst string_of_nat_rec) simp

lemma string_of_nat_digits: "c \<in> set (string_of_nat n) \<Longrightarrow> ascii_digit c"
proof (induction n rule: string_of_nat.induct)
  case (1 n)
  have "ascii_digit (digit_char (n mod 10))" by (simp add: ascii_digit_def digit_char_def)
  with 1 show ?case by (subst (asm) string_of_nat_rec) (auto split: if_splits)
qed

definition decimal_value :: "string \<Rightarrow> nat" where
  "decimal_value s = foldl (\<lambda>n c. 10 * n + (byte_of c - 48)) 0 s"

lemma decimal_value_digits: "decimal_value (string_of_nat n) = n"
proof (induction n rule: string_of_nat.induct)
  case (1 n)
  have "decimal_value (string_of_nat n) = 10 * decimal_value (if n < 10 then [] else string_of_nat (n div 10)) + n mod 10"
    by (subst string_of_nat_rec) (simp add: decimal_value_def digit_char_def)
  with 1 show ?case by (cases "n < 10") (auto simp: decimal_value_def)
qed

lemma string_of_nat_inject: "string_of_nat a = string_of_nat b \<Longrightarrow> a = b"
  by (metis decimal_value_digits)

lemma decimal_value_zero_padded: "decimal_value (zero_padded width n) = n"
proof -
  have "decimal_value (replicate k (CHR ''0'') @ s) = decimal_value s" for k s
    by (induction k) (auto simp: decimal_value_def)
  then show ?thesis by (simp add: zero_padded_def decimal_value_digits)
qed

lemma zero_padded_inject [simp]: "zero_padded width a = zero_padded width b \<longleftrightarrow> a = b"
  by (metis decimal_value_zero_padded)

lemma zero_padded_digits: "c \<in> set (zero_padded width n) \<Longrightarrow> ascii_digit c"
  by (auto simp: zero_padded_def ascii_digit_def dest: string_of_nat_digits)

section \<open>Slices\<close>

text \<open>\<open>slice::chunks(n)\<close>: consecutive pieces of \<open>n\<close> elements, the last one possibly shorter.\<close>

function chunks :: "nat \<Rightarrow> 'a list \<Rightarrow> 'a list list" where
  "chunks n xs = (if n = 0 \<or> xs = [] then [] else take n xs # chunks n (drop n xs))"
  by pat_completeness auto
termination
  by (relation "measure (\<lambda>(_, xs). length xs)") auto

declare chunks.simps [simp del]

lemma chunks_empty: "n = 0 \<or> xs = [] \<Longrightarrow> chunks n xs = []"
  by (subst chunks.simps) simp

lemma chunks_step: "n \<noteq> 0 \<Longrightarrow> xs \<noteq> [] \<Longrightarrow> chunks n xs = take n xs # chunks n (drop n xs)"
  by (subst chunks.simps) simp

lemma concat_chunks: "0 < n \<Longrightarrow> concat (chunks n xs) = xs"
proof (induction n xs rule: chunks.induct)
  case (1 n xs)
  then show ?case by (cases "xs = []") (auto simp: chunks_empty chunks_step)
qed

lemma chunks_nonempty: "g \<in> set (chunks n xs) \<Longrightarrow> g \<noteq> []"
proof (induction n xs rule: chunks.induct)
  case (1 n xs)
  then show ?case by (cases "n = 0 \<or> xs = []") (auto simp: chunks_empty chunks_step)
qed

lemma chunks_bound: "g \<in> set (chunks n xs) \<Longrightarrow> length g \<le> n"
proof (induction n xs rule: chunks.induct)
  case (1 n xs)
  then show ?case by (cases "n = 0 \<or> xs = []") (auto simp: chunks_empty chunks_step)
qed

lemma length_chunks: "1 < n \<Longrightarrow> 2 * length (chunks n xs) \<le> length xs + 1"
proof (induction n xs rule: chunks.induct)
  case (1 n xs)
  show ?case
  proof (cases "xs = []")
    case False
    have "2 * length (chunks n (drop n xs)) \<le> length (drop n xs) + 1" using 1 False by (intro 1(1)) auto
    with 1(2) False show ?thesis by (cases "length xs \<le> n") (auto simp: chunks_step chunks_empty Suc_le_eq)
  qed (simp add: chunks_empty)
qed

lemma chunks_same_shape:
  "length xs = length ys \<Longrightarrow> list_all2 (\<lambda>a b. length a = length b) (chunks n xs) (chunks n ys)"
proof (induction n xs arbitrary: ys rule: chunks.induct)
  case (1 n xs)
  show ?case
  proof (cases "n = 0 \<or> xs = []")
    case True
    then show ?thesis using 1(2) by (auto simp: chunks_empty)
  next
    case False
    then have "ys \<noteq> []" using 1(2) by auto
    with False 1(1) [OF False, of "drop n ys"] 1(2) show ?thesis by (simp add: chunks_step)
  qed
qed

lemma in_set_tlD: "x \<in> set (tl xs) \<Longrightarrow> x \<in> set xs"
  by (cases xs) auto

section \<open>Ordered maps\<close>

text \<open>
  \<open>BTreeMap<K, V>\<close> as the list of its entries in key order. \<open>btree_insert\<close> replaces the value of
  a key that is present.
\<close>

type_synonym ('k, 'v) btree_map = "('k \<times> 'v) list"

fun btree_insert :: "'k::linorder \<Rightarrow> 'v \<Rightarrow> ('k, 'v) btree_map \<Rightarrow> ('k, 'v) btree_map" where
  "btree_insert k v [] = [(k, v)]"
| "btree_insert k v ((k', v') # m) =
     (if k < k' then (k, v) # (k', v') # m
      else if k = k' then (k, v) # m
      else (k', v') # btree_insert k v m)"

definition btree_of_list :: "('k::linorder \<times> 'v) list \<Rightarrow> ('k, 'v) btree_map" where
  "btree_of_list kvs = fold (\<lambda>(k, v) m. btree_insert k v m) kvs []"

definition btree_inv :: "('k::linorder, 'v) btree_map \<Rightarrow> bool" where
  "btree_inv m \<longleftrightarrow> sorted_wrt (<) (map fst m)"

lemma map_of_btree_insert [simp]: "map_of (btree_insert k v m) = (map_of m)(k \<mapsto> v)"
  by (induction k v m rule: btree_insert.induct) (auto simp: fun_eq_iff)

lemma keys_btree_insert [simp]: "fst ` set (btree_insert k v m) = insert k (fst ` set m)"
  by (induction k v m rule: btree_insert.induct) auto

lemma set_btree_insert: "set (btree_insert k v m) \<subseteq> insert (k, v) (set m)"
  by (induction k v m rule: btree_insert.induct) auto

lemma btree_inv_insert: "btree_inv m \<Longrightarrow> btree_inv (btree_insert k v m)"
  unfolding btree_inv_def
proof (induction k v m rule: btree_insert.induct)
  case (2 k v k' v' m)
  have keys: "set (map fst (btree_insert k v m)) = insert k (set (map fst m))"
    using keys_btree_insert [of k v m] by simp
  from 2 keys show ?case by (auto simp: less_le_trans)
qed simp

lemma btree_inv_Nil [simp]: "btree_inv []"
  by (simp add: btree_inv_def)

text \<open>An ordered map is determined by its lookups: equality of \<open>BTreeMap\<close>s is equality of maps.\<close>

lemma btree_ext:
  assumes "btree_inv m" and "btree_inv m'" and "map_of m = map_of m'"
  shows "m = m'"
proof -
  have d: "distinct (map fst m)" "distinct (map fst m')"
    using assms(1,2) by (auto simp: btree_inv_def strict_sorted_iff)
  have s: "sorted (map fst m)" "sorted (map fst m')"
    using assms(1,2) by (auto simp: btree_inv_def strict_sorted_iff)
  from assms(3) have "dom (map_of m) = dom (map_of m')" by simp
  then have "set (map fst m) = set (map fst m')"
    by (simp add: dom_map_of_conv_image_fst)
  from s(1) d(1) s(2) d(2) this have keys: "map fst m = map fst m'"
    by (rule sorted_distinct_set_unique)
  have vals: "map snd m = map (\<lambda>k. the (map_of m k)) (map fst m)"
    if "distinct (map fst m)" for m :: "('a \<times> 'b) list"
    using that by (auto simp: map_of_is_SomeI)
  have "map snd m = map snd m'"
    unfolding vals [OF d(1)] vals [OF d(2)] keys assms(3) ..
  with keys show ?thesis by (rule pair_list_eqI)
qed

lemma btree_of_list_snoc:
  "btree_of_list (kvs @ [(k, v)]) = btree_insert k v (btree_of_list kvs)"
  by (simp add: btree_of_list_def)

lemma btree_inv_of_list: "btree_inv (btree_of_list kvs)"
  by (induction kvs rule: rev_induct)
    (auto simp: btree_of_list_def btree_inv_insert split: prod.splits)

lemma map_of_btree_of_list: "map_of (btree_of_list kvs) = map_of (rev kvs)"
  by (induction kvs rule: rev_induct) (auto simp: btree_of_list_def split: prod.splits)

section \<open>Hash maps\<close>

text \<open>
  \<open>HashMap<K, V>\<close> as an association list without repeated keys. Its order carries no meaning in
  Rust; \<open>entry_or_insert\<close> keeps the value that is already there.
\<close>

type_synonym ('k, 'v) hash_map = "('k \<times> 'v) list"

definition entry_or_insert :: "'k \<Rightarrow> 'v \<Rightarrow> ('k, 'v) hash_map \<Rightarrow> ('k, 'v) hash_map" where
  "entry_or_insert k v m = (case map_of m k of None \<Rightarrow> m @ [(k, v)] | Some _ \<Rightarrow> m)"

fun hash_update :: "'k \<Rightarrow> ('v \<Rightarrow> 'v) \<Rightarrow> ('k, 'v) hash_map \<Rightarrow> ('k, 'v) hash_map" where
  "hash_update k f [] = []"
| "hash_update k f ((k', v) # m) =
     (if k = k' then (k', f v) # m else (k', v) # hash_update k f m)"

lemma map_of_entry_or_insert [simp]:
  "map_of (entry_or_insert k v m) =
     (case map_of m k of None \<Rightarrow> (map_of m)(k \<mapsto> v) | Some _ \<Rightarrow> map_of m)"
  by (auto simp: entry_or_insert_def fun_eq_iff map_add_def split: option.splits)

lemma distinct_entry_or_insert:
  "distinct (map fst m) \<Longrightarrow> distinct (map fst (entry_or_insert k v m))"
  by (auto simp: entry_or_insert_def map_of_eq_None_iff split: option.splits)

lemma map_of_hash_update:
  "map_of (hash_update k f m) = (map_of m)(k := map_option f (map_of m k))"
  by (induction m) (auto simp: fun_eq_iff)

lemma keys_hash_update [simp]: "map fst (hash_update k f m) = map fst m"
  by (induction m) auto

end
