(* ===== verification/SyntaxTree.thy ===== *)
theory SyntaxTree
  imports Prelude
begin

text \<open>
  The normalised syntax tree (\<^verbatim>\<open>src/normalize.rs\<close>), the choice of a capture mapping for a node,
  the pass that names the captures of a tree (\<^verbatim>\<open>src/parser/captures.rs\<close>) and the arena in which
  the materializer walks the tree (\<^verbatim>\<open>src/syntax_materializer/arena.rs\<close>).

  JSON values are those of \<open>serde_json\<close>: an object is its ordered list of entries, a number is the
  text it prints as. A tree is a recursive datatype with the fields of \<open>SyntaxNode\<close>; the arena is
  the vector the code builds, with node identifiers as indices.
\<close>

section \<open>JSON values\<close>

datatype json =
    JNull
  | JBool bool
  | JNumber string
  | JString string
  | JArray "json list"
  | JObject "(string \<times> json) list"

type_synonym json_object = "(string \<times> json) list"

definition as_str :: "json \<Rightarrow> string option" where
  "as_str v = (case v of JString s \<Rightarrow> Some s | _ \<Rightarrow> None)"

definition as_object :: "json \<Rightarrow> json_object option" where
  "as_object v = (case v of JObject m \<Rightarrow> Some m | _ \<Rightarrow> None)"

definition as_array :: "json \<Rightarrow> json list option" where
  "as_array v = (case v of JArray xs \<Rightarrow> Some xs | _ \<Rightarrow> None)"

section \<open>Syntax nodes\<close>

datatype syntax_node = SyntaxNode
  (sn_node_type: string)
  (sn_text: string)
  (sn_line_start: "int option")
  (sn_line_end: "int option")
  (sn_byte_start: "int option")
  (sn_byte_end: "int option")
  (sn_capture_name: string)
  (sn_field_name: "string option")
  (sn_children: "syntax_node list")
  (sn_fields: json_object)

record capture_mapping =
  cm_capture_name :: string
  cm_parser_node_types :: "string list"
  cm_target_node_type :: string
  cm_relation_types :: "string list"
  cm_context_rule :: string
  cm_construct :: string

section \<open>Capture mappings\<close>

definition context_name_matches :: "string \<Rightarrow> string \<Rightarrow> bool" where
  "context_name_matches node_type expected =
     (if expected = ''impl'' then node_type = ''impl_item''
      else if expected = ''class'' then node_type \<in> {''class_specifier'', ''struct_specifier''}
      else node_type = expected)"

definition field_type_matches :: "syntax_node \<Rightarrow> string \<Rightarrow> string \<Rightarrow> bool" where
  "field_type_matches node field_name expected_type =
     (case Option.bind (Option.bind (Option.bind (map_of (sn_fields node) ''_field_types'')
             as_object) (\<lambda>values. map_of values field_name)) as_str of
        None \<Rightarrow> False
      | Some v \<Rightarrow> v = expected_type)"

definition field_descendant_has :: "syntax_node \<Rightarrow> string \<Rightarrow> string \<Rightarrow> bool" where
  "field_descendant_has node field_name expected_type =
     (case Option.bind (Option.bind (Option.bind (map_of (sn_fields node) ''_field_descendant_types'')
             as_object) (\<lambda>values. map_of values field_name)) as_array of
        None \<Rightarrow> False
      | Some values \<Rightarrow> list_ex (\<lambda>v. v = expected_type) (List.map_filter as_str values))"

definition context_rule_matches ::
  "unicode \<Rightarrow> string \<Rightarrow> syntax_node \<Rightarrow> string list \<Rightarrow> bool" where
  "context_rule_matches U rule node ancestors =
     (let normalized = str_lowercase U (trim rule) in
      case strip_prefix ''inside '' normalized of
        Some expected \<Rightarrow> list_ex (\<lambda>a. context_name_matches a expected) ancestors
      | None \<Rightarrow>
     (case strip_prefix ''type is '' normalized of
        Some expected_type \<Rightarrow> field_type_matches node ''type'' expected_type
      | None \<Rightarrow>
     (case strip_prefix ''has '' normalized of
        Some field_name \<Rightarrow>
          (case Option.bind (map_of (sn_fields node) field_name) as_str of
             None \<Rightarrow> False
           | Some v \<Rightarrow> v \<noteq> [])
      | None \<Rightarrow>
        if normalized = ''qualified declarator'' then
          field_descendant_has node ''declarator'' ''qualified_identifier''
        else if normalized = ''function declarator'' then
          field_type_matches node ''declarator'' ''function_declarator''
            \<or> field_descendant_has node ''declarator'' ''function_declarator''
        else False)))"

definition mapping_candidates :: "syntax_node \<Rightarrow> capture_mapping list \<Rightarrow> capture_mapping list" where
  "mapping_candidates node mappings =
     filter (\<lambda>m. list_ex (\<lambda>t. t = sn_node_type node) (cm_parser_node_types m)) mappings"

definition mapping_for_syntax_node ::
  "unicode \<Rightarrow> syntax_node \<Rightarrow> capture_mapping list \<Rightarrow> string list \<Rightarrow> capture_mapping option" where
  "mapping_for_syntax_node U node mappings ancestors =
     (let candidates = mapping_candidates node mappings in
      case find (\<lambda>m. cm_context_rule m \<noteq> []
                  \<and> context_rule_matches U (cm_context_rule m) node ancestors) candidates of
        Some m \<Rightarrow> Some m
      | None \<Rightarrow> find (\<lambda>m. cm_context_rule m = []) candidates)"

lemma size_sn_children [termination_simp]:
  "size_list size (sn_children node) < size node"
  by (cases node) simp

lemma size_sn_child [termination_simp]: "c \<in> set (sn_children node) \<Longrightarrow> size c < size node"
  using size_sn_children [of node] size_list_estimation' [of c "sn_children node" "size c" size]
  by simp

section \<open>Naming captures\<close>

text \<open>
  \<open>mark_captures\<close> names the children first, with the node's own type pushed on the ancestors, and
  then the node, with the ancestors it was given.
\<close>

definition set_capture_name :: "string \<Rightarrow> syntax_node \<Rightarrow> syntax_node" where
  "set_capture_name name node =
     SyntaxNode (sn_node_type node) (sn_text node) (sn_line_start node) (sn_line_end node)
       (sn_byte_start node) (sn_byte_end node) name (sn_field_name node) (sn_children node)
       (sn_fields node)"

definition set_children :: "syntax_node list \<Rightarrow> syntax_node \<Rightarrow> syntax_node" where
  "set_children children node =
     SyntaxNode (sn_node_type node) (sn_text node) (sn_line_start node) (sn_line_end node)
       (sn_byte_start node) (sn_byte_end node) (sn_capture_name node) (sn_field_name node) children
       (sn_fields node)"

fun mark_captures :: "unicode \<Rightarrow> capture_mapping list \<Rightarrow> string list \<Rightarrow> syntax_node \<Rightarrow> syntax_node" where
  "mark_captures U mappings ancestors node =
     (let marked = set_children
            (map (mark_captures U mappings (ancestors @ [sn_node_type node])) (sn_children node)) node
      in case mapping_for_syntax_node U marked mappings ancestors of
           Some mapping \<Rightarrow> set_capture_name (cm_capture_name mapping) marked
         | None \<Rightarrow> marked)"

declare mark_captures.simps [simp del]

definition mapping_for_capture_name :: "capture_mapping list \<Rightarrow> string \<Rightarrow> capture_mapping option" where
  "mapping_for_capture_name mappings name = find (\<lambda>m. cm_capture_name m = name) mappings"

section \<open>The arena\<close>

record arena_node =
  an_parent_id :: "nat option"
  an_node :: syntax_node
  an_children :: "nat list"

type_synonym arena_nodes = "arena_node list"

text \<open>
  \<open>append\<close> pushes the node with an empty child list, appends the children in order, and then
  stores their identifiers. The vector is the state that is passed along.
\<close>

fun arena_append :: "syntax_node \<Rightarrow> nat option \<Rightarrow> arena_nodes \<Rightarrow> nat \<times> arena_nodes"
  and arena_append_all :: "syntax_node list \<Rightarrow> nat \<Rightarrow> arena_nodes \<Rightarrow> nat list \<times> arena_nodes" where
  "arena_append node parent_id nodes =
     (let node_id = length nodes;
          pushed = nodes @ [\<lparr>an_parent_id = parent_id, an_node = node, an_children = []\<rparr>];
          (children, nodes') = arena_append_all (sn_children node) node_id pushed
      in (node_id, nodes'[node_id := (nodes' ! node_id)\<lparr>an_children := children\<rparr>]))"
| "arena_append_all [] parent nodes = ([], nodes)"
| "arena_append_all (child # rest) parent nodes =
     (let (child_id, nodes1) = arena_append child (Some parent) nodes;
          (ids, nodes2) = arena_append_all rest parent nodes1
      in (child_id # ids, nodes2))"


declare arena_append.simps [simp del]

definition arena_new :: "syntax_node \<Rightarrow> nat \<times> arena_nodes" where
  "arena_new root = arena_append root None []"

definition get_node :: "arena_nodes \<Rightarrow> nat \<Rightarrow> arena_node option" where
  "get_node nodes i = (if i < length nodes then Some (nodes ! i) else None)"

section \<open>The arena is the tree\<close>

text \<open>
  \<open>represents nodes i p node\<close>: below identifier \<open>i\<close> the arena holds exactly the tree \<open>node\<close>, with
  the parent link \<open>p\<close> at the top, and child identifiers larger than their parent's.
  \<open>arena_ok\<close> is what the walks over identifiers rely on to end.
\<close>

fun represents :: "arena_nodes \<Rightarrow> nat \<Rightarrow> nat option \<Rightarrow> syntax_node \<Rightarrow> bool"
  and represents_all :: "arena_nodes \<Rightarrow> nat list \<Rightarrow> nat \<Rightarrow> syntax_node list \<Rightarrow> bool" where
  "represents nodes i p node =
     (i < length nodes \<and> an_parent_id (nodes ! i) = p \<and> an_node (nodes ! i) = node
      \<and> represents_all nodes (an_children (nodes ! i)) i (sn_children node))"
| "represents_all nodes [] i [] = True"
| "represents_all nodes (c # cs) i (n # ns) =
     (i < c \<and> represents nodes c (Some i) n \<and> represents_all nodes cs i ns)"
| "represents_all nodes _ i _ = False"

declare represents.simps [simp del]

definition child_ids_ok :: "arena_nodes \<Rightarrow> nat \<Rightarrow> bool" where
  "child_ids_ok nodes i \<longleftrightarrow> (\<forall>c \<in> set (an_children (nodes ! i)). i < c \<and> c < length nodes)"

definition arena_ok :: "arena_nodes \<Rightarrow> bool" where
  "arena_ok nodes \<longleftrightarrow> (\<forall>i < length nodes. child_ids_ok nodes i)"

lemma represents_frame:
  "represents nodes i p node \<Longrightarrow>
     (\<And>j. i \<le> j \<Longrightarrow> j < length nodes \<Longrightarrow> j < length nodes' \<and> nodes' ! j = nodes ! j) \<Longrightarrow>
     represents nodes' i p node"
  and represents_all_frame:
  "represents_all nodes cs i ns \<Longrightarrow>
     (\<And>j. i < j \<Longrightarrow> j < length nodes \<Longrightarrow> j < length nodes' \<and> nodes' ! j = nodes ! j) \<Longrightarrow>
     represents_all nodes' cs i ns"
proof (induction nodes i p node and nodes cs i ns rule: represents_represents_all.induct)
  case (1 nodes i p node)
  then have "nodes' ! i = nodes ! i" and "i < length nodes'" by (auto simp: represents.simps)
  with 1 show ?case by (auto simp: represents.simps)
qed auto

lemma represents_ids:
  "represents nodes i p node \<Longrightarrow> i < length nodes"
  by (simp add: represents.simps)

lemma represents_all_ids:
  "represents_all nodes cs i ns \<Longrightarrow> c \<in> set cs \<Longrightarrow> i < c \<and> c < length nodes"
proof (induction cs arbitrary: ns)
  case (Cons d ds)
  then show ?case by (cases ns) (auto dest: represents_ids)
qed simp

text \<open>What one call of \<open>append\<close> establishes: it only extends the vector, behind its old end.\<close>

definition appended :: "arena_nodes \<Rightarrow> arena_nodes \<Rightarrow> bool" where
  "appended nodes nodes' \<longleftrightarrow> length nodes \<le> length nodes'
     \<and> (\<forall>j < length nodes. nodes' ! j = nodes ! j)
     \<and> (\<forall>j. length nodes \<le> j \<and> j < length nodes' \<longrightarrow> child_ids_ok nodes' j)"

lemma appended_refl: "appended nodes nodes"
  by (auto simp: appended_def)

lemma appended_nth: "appended nodes nodes' \<Longrightarrow> j < length nodes \<Longrightarrow> nodes' ! j = nodes ! j"
  by (simp add: appended_def)

lemma appended_trans:
  assumes "appended a b" and "appended b c"
  shows "appended a c"
proof -
  have len: "length a \<le> length b" "length b \<le> length c" using assms by (auto simp: appended_def)
  have "\<forall>j < length a. c ! j = a ! j" using assms len by (simp add: appended_nth)
  moreover have "child_ids_ok c j"
    if "length a \<le> j" "j < length c" for j
  proof (cases "j < length b")
    case True
    then have "c ! j = b ! j" using assms(2) by (rule appended_nth [rotated])
    moreover have "child_ids_ok b j" using True that assms(1) by (simp add: appended_def)
    ultimately show ?thesis using len(2) by (fastforce simp: child_ids_ok_def)
  next
    case False
    with that assms(2) show ?thesis by (auto simp: appended_def)
  qed
  ultimately show ?thesis using len by (auto simp: appended_def)
qed

lemma arena_append_spec:
  "arena_append node p nodes = (i, nodes') \<Longrightarrow>
     i = length nodes \<and> appended nodes nodes' \<and> represents nodes' i p node"
  and arena_append_all_spec:
  "arena_append_all ns par nodes = (ids, nodes') \<Longrightarrow> par < length nodes \<Longrightarrow>
     appended nodes nodes' \<and> represents_all nodes' ids par ns"
proof (induction node p nodes and ns par nodes arbitrary: i nodes' and ids nodes'
    rule: arena_append_arena_append_all.induct)
  case (1 node p nodes)
  define pushed where "pushed = nodes @ [\<lparr>an_parent_id = p, an_node = node, an_children = []\<rparr>]"
  obtain cs ns' where app: "arena_append_all (sn_children node) (length nodes) pushed = (cs, ns')"
    by fastforce
  from 1(2) app have i: "i = length nodes"
    and nodes': "nodes' = ns'[length nodes := (ns' ! length nodes)\<lparr>an_children := cs\<rparr>]"
    by (auto simp: arena_append.simps pushed_def Let_def)
  from 1(1) [OF refl pushed_def app] have ap: "appended pushed ns'"
    and rep: "represents_all ns' cs (length nodes) (sn_children node)"
    by (auto simp: pushed_def)
  have top: "ns' ! length nodes = \<lparr>an_parent_id = p, an_node = node, an_children = []\<rparr>"
    using appended_nth [OF ap, of "length nodes"] by (simp add: pushed_def)
  have len: "length nodes < length ns'" using ap by (auto simp: appended_def pushed_def)
  have "represents_all nodes' cs (length nodes) (sn_children node)"
    by (rule represents_all_frame [OF rep]) (simp add: nodes')
  then have "represents nodes' i p node"
    using len top by (simp add: represents.simps i nodes')
  moreover have "appended nodes nodes'"
  proof -
    have tk: "\<forall>j < length nodes. nodes' ! j = nodes ! j"
      using appended_nth [OF ap] by (simp add: nodes' pushed_def nth_append)
    have "child_ids_ok nodes' j"
      if "length nodes \<le> j" "j < length nodes'" for j
    proof (cases "j = length nodes")
      case True
      with len show ?thesis using represents_all_ids [OF rep] by (auto simp: nodes' child_ids_ok_def)
    next
      case False
      with that ap have "child_ids_ok ns' j" by (simp add: nodes' appended_def pushed_def)
      with False show ?thesis by (simp add: nodes' child_ids_ok_def)
    qed
    with tk len show ?thesis by (simp add: appended_def nodes')
  qed
  ultimately show ?case using i by simp
next
  case (3 child rest par nodes)
  obtain cid n1 where a1: "arena_append child (Some par) nodes = (cid, n1)" by fastforce
  obtain ids2 n2 where a2: "arena_append_all rest par n1 = (ids2, n2)" by fastforce
  from 3(3) a1 a2 have ids: "ids = cid # ids2" and n2: "nodes' = n2" by (auto simp: Let_def)
  from 3(1) [OF a1] have c: "cid = length nodes" "appended nodes n1"
    "represents n1 cid (Some par) child" by auto
  have par1: "par < length n1" using 3(4) c(2) by (auto simp: appended_def)
  from 3(2) [OF a1 [symmetric] refl a2 par1] have r: "appended n1 n2" "represents_all n2 ids2 par rest"
    by auto
  have "represents n2 cid (Some par) child"
    by (rule represents_frame [OF c(3)])
      (use r(1) in \<open>auto simp: appended_nth [OF r(1)] appended_def\<close>)
  with 3(4) c r show ?case by (auto simp: ids n2 intro: appended_trans)
qed (auto simp: appended_refl)

lemma arena_new_spec:
  assumes "arena_new root = (i, nodes)"
  shows "i = 0" "represents nodes 0 None root" "arena_ok nodes"
proof -
  from arena_append_spec [OF assms [unfolded arena_new_def]]
  show "i = 0" "represents nodes 0 None root" "arena_ok nodes"
    by (auto simp: appended_def arena_ok_def)
qed

end
