(* ===== verification/Captures.thy ===== *)
theory Captures
  imports SyntaxTree
begin

text \<open>
  What the materializer reads off one syntax node (\<^verbatim>\<open>src/syntax_materializer/capture.rs\<close> and the
  name helpers of \<^verbatim>\<open>ids.rs\<close>): labels, the children to traverse, the table a node belongs to,
  parameters, annotations and return types. A \<open>TreeNodeRef\<close> of the code is the arena entry.
  Two facts matter later: the tables named here form the fixed set \<open>semantic_tables\<close>, and
  \<open>semantic_child_ids\<close>, which inlines blocks by following identifiers, ends on every arena and
  only returns identifiers above the parent's.
\<close>

section \<open>Owners and captures\<close>

record owner =
  ow_node_id :: string
  ow_table :: string
  ow_qualified_name :: string
  ow_scope_id :: string

record capture =
  cap_capture_name :: string
  cap_node_type :: string
  cap_label :: string
  cap_text :: string
  cap_line_start :: "int option"
  cap_line_end :: "int option"
  cap_byte_start :: "int option"
  cap_byte_end :: "int option"
  cap_fields :: "string list"

section \<open>Accessors of a tree node\<close>

abbreviation node_type :: "arena_node \<Rightarrow> string" where
  "node_type n \<equiv> sn_node_type (an_node n)"

abbreviation text_of :: "arena_node \<Rightarrow> string" where
  "text_of n \<equiv> sn_text (an_node n)"

definition field_keys :: "arena_node \<Rightarrow> string list" where
  "field_keys n = map fst (sn_fields (an_node n))"

definition field_value :: "arena_node \<Rightarrow> string \<Rightarrow> json option" where
  "field_value n field = map_of (sn_fields (an_node n)) field"

section \<open>Labels\<close>

definition bool_to_string :: "bool \<Rightarrow> string" where
  "bool_to_string b = (if b then ''true'' else ''false'')"

lemma size_map_of [termination_simp]:
  "map_of m k = Some v \<Longrightarrow> size v < size_list (\<lambda>p. size (snd p)) m"
  by (induction m) (auto split: if_splits)

text \<open>
  \<open>json_value_label\<close>: the loop over the keys of an object returns \<open>None\<close> at once when the value of
  the first key present has no label (the \<open>?\<close> in its body), and goes on past empty labels.
\<close>

fun json_value_label :: "json \<Rightarrow> string option"
  and json_object_label :: "json_object \<Rightarrow> string list \<Rightarrow> string option" where
  "json_value_label (JString text) = Some (trim text)"
| "json_value_label (JNumber number) = Some number"
| "json_value_label (JBool boolean) = Some (bool_to_string boolean)"
| "json_value_label (JObject object) =
     json_object_label object [''id'', ''name'', ''arg'', ''attr'', ''value'']"
| "json_value_label JNull = None"
| "json_value_label (JArray items) = None"
| "json_object_label object [] = None"
| "json_object_label object (key # keys) =
     (case map_of object key of
        None \<Rightarrow> json_object_label object keys
      | Some v \<Rightarrow>
          (case json_value_label v of
             None \<Rightarrow> None
           | Some label \<Rightarrow>
               if label \<noteq> [] then Some label else json_object_label object keys))"

definition field_label :: "arena_node \<Rightarrow> string \<Rightarrow> string option" where
  "field_label n field = Option.bind (field_value n field) json_value_label"

abbreviation json_field_label :: "arena_node \<Rightarrow> string \<Rightarrow> string option" where
  "json_field_label \<equiv> field_label"

definition nonempty_label :: "string option \<Rightarrow> string option" where
  "nonempty_label l = (case l of Some s \<Rightarrow> if s \<noteq> [] then Some s else None | None \<Rightarrow> None)"

fun first_label :: "(string \<Rightarrow> string option) \<Rightarrow> string list \<Rightarrow> string option" where
  "first_label get [] = None"
| "first_label get (key # keys) =
     (case nonempty_label (get key) of Some l \<Rightarrow> Some l | None \<Rightarrow> first_label get keys)"

definition tree_label :: "arena_node \<Rightarrow> string" where
  "tree_label n =
     (case first_label (field_label n)
             [''name'', ''id'', ''arg'', ''attr'', ''module'', ''path'', ''function''] of
        Some l \<Rightarrow> l
      | None \<Rightarrow>
     (case nonempty_label (field_label n ''value'') of
        Some l \<Rightarrow> l
      | None \<Rightarrow>
        (let t = trim (text_of n) in if t = [] then node_type n else t)))"

definition tree_capture :: "arena_node \<Rightarrow> capture" where
  "tree_capture n =
     \<lparr>cap_capture_name = sn_capture_name (an_node n),
      cap_node_type = node_type n,
      cap_label = tree_label n,
      cap_text = text_of n,
      cap_line_start = sn_line_start (an_node n),
      cap_line_end = sn_line_end (an_node n),
      cap_byte_start = sn_byte_start (an_node n),
      cap_byte_end = sn_byte_end (an_node n),
      cap_fields = field_keys n\<rparr>"

definition should_derive_root_module :: "string \<Rightarrow> string \<Rightarrow> bool" where
  "should_derive_root_module language root_node_type \<longleftrightarrow>
     \<not> (root_node_type = ''source_file''
        \<or> (language = ''python'' \<and> root_node_type = ''module'')
        \<or> (language = ''markdown'' \<and> root_node_type = ''Module''))"

section \<open>Children to traverse\<close>

definition should_inline_child :: "arena_node \<Rightarrow> string \<Rightarrow> bool" where
  "should_inline_child child language \<longleftrightarrow>
     (language = ''python'' \<and> node_type child = ''block'')
     \<or> (language = ''fortran'' \<and> node_type child = ''variable_declaration'')"

definition import_statement_types :: "string list" where
  "import_statement_types =
     [''import_statement'', ''import_from_statement'', ''import_declaration'', ''use_declaration'']"

definition import_part_types :: "string list" where
  "import_part_types =
     [''identifier'', ''dotted_name'', ''aliased_import'', ''import_list'', ''string'',
      ''interpreted_string_literal'', ''raw_string_literal'', ''string_literal'']"

definition should_traverse_after_python :: "arena_node \<Rightarrow> arena_node \<Rightarrow> string \<Rightarrow> bool" where
  "should_traverse_after_python parent child language =
     (if node_type child = ''block'' then True
      else if node_type parent \<in> set import_statement_types
              \<and> node_type child \<in> set import_part_types
      then language = ''python'' \<and> node_type child = ''dotted_name''
      else True)"

definition should_traverse_child :: "arena_node \<Rightarrow> arena_node \<Rightarrow> string \<Rightarrow> bool" where
  "should_traverse_child parent child language =
     (if language = ''python'' \<and> node_type parent = ''attribute'' then
        (case field_label parent ''value'' of
           None \<Rightarrow> False
         | Some label \<Rightarrow> label = tree_label child)
      else if language = ''python'' \<and> node_type child \<in> {''parameters'', ''decorator''} then False
      else if language = ''python''
              \<and> node_type parent \<in> {''class_definition'', ''function_definition''}
              \<and> node_type child \<in> {''identifier'', ''type'', ''type_identifier''} then False
      else if language = ''python''
              \<and> node_type child \<in> {''identifier'', ''type_identifier''}
              \<and> node_type parent \<notin> {''assignment'', ''call'', ''attribute''} then False
      else should_traverse_after_python parent child language)"

text \<open>
  \<open>semantic_child_ids\<close> recurses into the children it inlines. The recursion follows identifiers,
  so it carries fuel; \<open>semantic_child_ids_spec\<close> below shows that the length of the arena is enough.
\<close>

fun semantic_child_ids ::
  "nat \<Rightarrow> arena_nodes \<Rightarrow> arena_node \<Rightarrow> string \<Rightarrow> string fail + nat list"
  and semantic_child_ids_of ::
  "nat \<Rightarrow> arena_nodes \<Rightarrow> arena_node \<Rightarrow> string \<Rightarrow> nat list \<Rightarrow> string fail + nat list" where
  "semantic_child_ids 0 nodes parent language = Inl Diverged"
| "semantic_child_ids (Suc fuel) nodes parent language =
     semantic_child_ids_of fuel nodes parent language (an_children parent)"
| "semantic_child_ids_of fuel nodes parent language [] = Inr []"
| "semantic_child_ids_of fuel nodes parent language (child_id # rest) =
     (case get_node nodes child_id of
        None \<Rightarrow> semantic_child_ids_of fuel nodes parent language rest
      | Some child \<Rightarrow>
          if should_inline_child child language then
            try_op (semantic_child_ids fuel nodes child language) (\<lambda>inlined.
            try_op (semantic_child_ids_of fuel nodes parent language rest) (\<lambda>ids.
            Inr (inlined @ ids)))
          else if should_traverse_child parent child language then
            try_op (semantic_child_ids_of fuel nodes parent language rest) (\<lambda>ids.
            Inr (child_id # ids))
          else semantic_child_ids_of fuel nodes parent language rest)"

section \<open>Tables\<close>

definition callable_table :: "owner \<Rightarrow> string" where
  "callable_table owner =
     (if ow_table owner \<in> {''Class'', ''Component''} then ''Method'' else ''Function'')"

definition table_for_node_type :: "string \<Rightarrow> owner \<Rightarrow> string option" where
  "table_for_node_type t owner =
     (if t \<in> {''import_statement'', ''import_from_statement'', ''import_declaration'',
               ''use_declaration'', ''preproc_include'', ''use_statement''}
      then Some ''ImportDeclaration''
      else if t \<in> {''export_statement'', ''export_clause'', ''export_declaration''}
      then Some ''ExportDeclaration''
      else if t \<in> {''class_definition'', ''class_declaration'', ''struct_item'',
               ''interface_declaration'', ''struct_specifier'', ''union_specifier'',
               ''enum_specifier'', ''class_specifier'', ''type_declaration''}
      then Some ''Class''
      else if t \<in> {''function_definition'', ''function_declaration'', ''method_definition'',
               ''method_declaration'', ''function_item'', ''subroutine'', ''function''}
      then Some (callable_table owner)
      else if t = ''arg'' then Some ''Parameter''
      else if t \<in> {''return_type'', ''returns''} then Some ''ReturnType''
      else if t \<in> {''type'', ''type_identifier'', ''qualified_type'', ''type_annotation'',
               ''annotation''}
      then Some ''TypeAnnotation''
      else if t \<in> {''assignment'', ''assignment_expression''} then Some ''Assignment''
      else if t \<in> {''call'', ''call_expression'', ''invocation_expression'', ''call_statement'',
               ''subroutine_call''}
      then Some ''CallExpression''
      else if t \<in> {''identifier'', ''field_identifier'', ''attribute''} then Some ''Reference''
      else if t \<in> {''string'', ''integer'', ''float'', ''true'', ''false'', ''null'', ''none'',
               ''intrinsic_type''}
      then Some ''Literal''
      else if t \<in> {''if_statement'', ''for_statement'', ''while_statement'', ''match_statement'',
               ''switch_statement''}
      then Some ''ControlFlowBlock''
      else if t \<in> {''try_statement'', ''except_clause'', ''catch_clause'', ''raise_statement'',
               ''throw_statement''}
      then Some ''ExceptionFlow''
      else None)"

definition table_for_capture :: "string \<Rightarrow> owner \<Rightarrow> string option" where
  "table_for_capture capture owner =
     (let v = trim_start_char (CHR ''@'') capture in
      if v \<in> {''definition.class'', ''definition.struct'', ''definition.interface'',
               ''definition.enum'', ''definition.union''}
      then Some ''Class''
      else if v \<in> {''definition.module'', ''definition.namespace'', ''definition.package''}
      then Some ''Module''
      else if v \<in> {''definition.component'', ''component''} then Some ''Component''
      else if v = ''definition.method'' then Some ''Method''
      else if v = ''definition.function'' then Some (callable_table owner)
      else if v \<in> {''definition.parameter'', ''parameter''} then Some ''Parameter''
      else if v \<in> {''type.return'', ''return_type''} then Some ''ReturnType''
      else if v \<in> {''type'', ''type.annotation'', ''reference.type''} then Some ''TypeAnnotation''
      else if v = ''definition.type_alias'' then Some ''TypeAlias''
      else if v = ''definition.macro'' then Some ''Symbol''
      else if v = ''definition.constant'' then Some ''Constant''
      else if v = ''definition.variable'' then Some ''Variable''
      else if v \<in> {''decorator'', ''definition.decorator''} then Some ''Decorator''
      else if v \<in> {''reference.import'', ''reference.include'', ''reference.require'',
               ''reference.use'', ''import''}
      then Some ''ImportDeclaration''
      else if v \<in> {''export'', ''definition.export''} then Some ''ExportDeclaration''
      else if v \<in> {''reference.call'', ''call''} then Some ''CallExpression''
      else if v = ''entrypoint.api'' then Some ''APIEndpoint''
      else if v = ''endpoint'' then Some ''APIEndpoint''
      else if v = ''route'' then Some ''Route''
      else if v = ''doc.source'' then Some ''DocumentationSource''
      else if v \<in> {''literal'', ''string'', ''number''} then Some ''Literal''
      else if v = ''control_flow'' then Some ''ControlFlowBlock''
      else if v \<in> {''exception'', ''raises'', ''handles''} then Some ''ExceptionFlow''
      else if starts_with ''query.'' v then Some ''Query''
      else if starts_with ''secret.'' v then Some ''SecretRef''
      else if starts_with ''doc'' v then Some ''DocumentationChunk''
      else if starts_with ''reference'' v then Some ''Reference''
      else None)"

section \<open>Imports and assignments\<close>

definition import_label :: "arena_node \<Rightarrow> string option" where
  "import_label n =
     (let module = (case field_label n ''module'' of Some m \<Rightarrow> m | None \<Rightarrow> []);
          items = (case Option.bind (field_value n ''names'') as_array of Some xs \<Rightarrow> xs | None \<Rightarrow> []);
          names = filter (\<lambda>l. l \<noteq> []) (List.map_filter json_value_label items)
      in if module \<noteq> [] \<and> names \<noteq> [] then Some (join '', '' (map (\<lambda>name. module @ ''.'' @ name) names))
         else if module \<noteq> [] then Some module
         else if names \<noteq> [] then Some (join '', '' names)
         else None)"

definition child_nodes :: "arena_nodes \<Rightarrow> arena_node \<Rightarrow> arena_node list" where
  "child_nodes nodes n = List.map_filter (get_node nodes) (an_children n)"

definition assignment_target_label :: "arena_nodes \<Rightarrow> arena_node \<Rightarrow> string option" where
  "assignment_target_label nodes n =
     (case field_label n ''target'' of
        Some l \<Rightarrow> Some l
      | None \<Rightarrow>
          nonempty_label (map_option tree_label
            (find (\<lambda>child. node_type child \<notin> {''call'', ''call_expression''}) (child_nodes nodes n))))"

definition assignment_target_table :: "unicode \<Rightarrow> string \<Rightarrow> owner \<Rightarrow> string \<Rightarrow> string" where
  "assignment_target_table U label owner nt =
     (if list_ex (char_is_alphabetic U) (chars label)
         \<and> list_all (char_is_uppercase U) (filter (char_is_alphabetic U) (chars label))
      then ''Constant''
      else if ow_table owner = ''Class'' then ''ClassAttribute''
      else if CHR ''.'' \<in> set label then ''InstanceAttribute''
      else if nt = ''AnnAssign'' \<and> ow_table owner = ''Class'' then ''ClassAttribute''
      else ''Variable'')"

definition call_value_child :: "arena_nodes \<Rightarrow> arena_node \<Rightarrow> nat option" where
  "call_value_child nodes n =
     find (\<lambda>child_id. case get_node nodes child_id of
             None \<Rightarrow> False
           | Some child \<Rightarrow> node_type child \<in> {''call'', ''call_expression''}) (an_children n)"

section \<open>Parameters and types\<close>

definition parameter_child_ids :: "arena_nodes \<Rightarrow> arena_node \<Rightarrow> nat list" where
  "parameter_child_ids nodes function_node =
     filter (\<lambda>child_id. case get_node nodes child_id of
               None \<Rightarrow> False
             | Some child \<Rightarrow>
                 node_type child \<in> {''identifier'', ''typed_parameter'', ''default_parameter'', ''parameter''})
       (concat (map an_children
          (filter (\<lambda>child. node_type child = ''parameters'') (child_nodes nodes function_node))))"

definition before_char :: "char \<Rightarrow> string \<Rightarrow> string" where
  "before_char c s = (case split_once c s of Some (l, _) \<Rightarrow> l | None \<Rightarrow> s)"

definition parameter_label :: "arena_node \<Rightarrow> string" where
  "parameter_label n =
     trim_start_char (CHR ''*'')
       (trim (before_char (CHR ''='') (before_char (CHR '':'') (tree_label n))))"

text \<open>A capture that takes the position and the text of a node, with a label of its own.\<close>

definition capture_at :: "arena_node \<Rightarrow> string \<Rightarrow> string \<Rightarrow> string \<Rightarrow> string list \<Rightarrow> capture" where
  "capture_at n name type label fs =
     \<lparr>cap_capture_name = name, cap_node_type = type, cap_label = label, cap_text = text_of n,
      cap_line_start = sn_line_start (an_node n), cap_line_end = sn_line_end (an_node n),
      cap_byte_start = sn_byte_start (an_node n), cap_byte_end = sn_byte_end (an_node n),
      cap_fields = fs\<rparr>"

definition parameter_capture :: "arena_node \<Rightarrow> string \<Rightarrow> capture" where
  "parameter_capture n language =
     (if language \<noteq> ''python''
      then (tree_capture n)\<lparr>cap_capture_name := ''parameter'', cap_label := parameter_label n\<rparr>
      else capture_at n [] ''arg'' (parameter_label n) [''arg''])"

definition parameter_annotation_label :: "arena_nodes \<Rightarrow> arena_node \<Rightarrow> string option" where
  "parameter_annotation_label nodes n =
     (case field_label n ''annotation'' of
        Some l \<Rightarrow> Some l
      | None \<Rightarrow>
          nonempty_label (map_option tree_label
            (find (\<lambda>child. node_type child \<in> {''type'', ''type_identifier'', ''qualified_type'', ''annotation''})
               (child_nodes nodes n))))"

definition first_child_with_type :: "arena_nodes \<Rightarrow> arena_node \<Rightarrow> string list \<Rightarrow> arena_node option" where
  "first_child_with_type nodes n types =
     find (\<lambda>child. node_type child \<in> set types) (child_nodes nodes n)"

definition parameter_annotation_capture :: "arena_nodes \<Rightarrow> arena_node \<Rightarrow> string \<Rightarrow> capture option" where
  "parameter_annotation_capture nodes n language =
     (if language = ''python'' then
        (case first_child_with_type nodes n [''type'', ''type_identifier''] of
           Some type_child \<Rightarrow> Some (tree_capture type_child)
         | None \<Rightarrow>
             map_option (\<lambda>label. capture_at n [] ''type'' label [''id'']) (field_label n ''annotation''))
      else
        map_option (\<lambda>label. capture_at n [] ''type_annotation'' label [])
          (parameter_annotation_label nodes n))"

definition return_type_capture :: "arena_nodes \<Rightarrow> arena_node \<Rightarrow> string \<Rightarrow> capture option" where
  "return_type_capture nodes function_node language =
     (if language = ''python'' then
        map_option tree_capture (first_child_with_type nodes function_node [''type'', ''type_identifier''])
      else
        map_option (\<lambda>label. capture_at function_node ''return_type'' ''return_type'' label [])
          (case field_label function_node ''return_type'' of
             Some l \<Rightarrow> Some l
           | None \<Rightarrow> field_label function_node ''returns''))"

definition fortran_literal_capture :: "arena_nodes \<Rightarrow> arena_node \<Rightarrow> capture option" where
  "fortran_literal_capture nodes n =
     (if node_type n \<noteq> ''intrinsic_type'' then None
      else case Option.bind (an_parent_id n) (get_node nodes) of
             None \<Rightarrow> None
           | Some parent \<Rightarrow>
               if node_type parent \<noteq> ''variable_declaration'' then None
               else Some ((capture_at n [] ''integer'' (text_of parent) [])\<lparr>cap_text := text_of parent\<rparr>))"

section \<open>Parser metadata\<close>

text \<open>
  \<open>metadata_object_label\<close> tries three groups of keys one after the other, each group taking the
  first key whose value has a non-empty label; here the groups are one list of keys.
\<close>

definition metadata_label_keys :: "string list" where
  "metadata_label_keys =
     [''name'', ''id'', ''arg'', ''attr'', ''module''] @ [''value''] @
     [''name'', ''module'', ''path'', ''function'', ''type'', ''return_type'', ''declarator'']"

fun metadata_value_label :: "json \<Rightarrow> string option"
  and metadata_item_labels :: "json list \<Rightarrow> string list"
  and metadata_keys_label :: "json_object \<Rightarrow> string list \<Rightarrow> string option" where
  "metadata_value_label (JString text) = Some text"
| "metadata_value_label (JNumber number) = Some number"
| "metadata_value_label (JBool boolean) = Some (bool_to_string boolean)"
| "metadata_value_label (JArray items) =
     Some (''['' @ join '', '' (map (\<lambda>item. [CHR 0x27] @ item @ [CHR 0x27]) (metadata_item_labels items)) @ '']'')"
| "metadata_value_label (JObject object) = metadata_keys_label object metadata_label_keys"
| "metadata_value_label JNull = None"
| "metadata_item_labels [] = []"
| "metadata_item_labels (v # vs) =
     (case metadata_value_label v of
        None \<Rightarrow> metadata_item_labels vs
      | Some l \<Rightarrow> l # metadata_item_labels vs)"
| "metadata_keys_label object [] = None"
| "metadata_keys_label object (key # keys) =
     (case map_of object key of
        None \<Rightarrow> metadata_keys_label object keys
      | Some v \<Rightarrow>
          (case nonempty_label (metadata_value_label v) of
             Some l \<Rightarrow> Some l
           | None \<Rightarrow> metadata_keys_label object keys))"

definition metadata_object_label :: "json_object \<Rightarrow> string option" where
  "metadata_object_label object = metadata_keys_label object metadata_label_keys"

definition parser_like_metadata_capture :: "arena_node \<Rightarrow> string \<Rightarrow> capture option" where
  "parser_like_metadata_capture n field_name =
     (case Option.bind (field_value n field_name) as_object of
        None \<Rightarrow> None
      | Some object \<Rightarrow>
     (case Option.bind (map_of object ''type'') metadata_value_label of
        None \<Rightarrow> None
      | Some type \<Rightarrow>
          if type = [] then None
          else let label = (case metadata_object_label object of Some l \<Rightarrow> l | None \<Rightarrow> type) in
            Some \<lparr>cap_capture_name = [], cap_node_type = type, cap_label = label, cap_text = label,
                  cap_line_start = None, cap_line_end = None, cap_byte_start = None,
                  cap_byte_end = None, cap_fields = map fst object\<rparr>))"

section \<open>Facts the builder uses\<close>

text \<open>The tables a semantic node can have, and those whose nodes open a scope and own others.\<close>

definition semantic_tables :: "string set" where
  "semantic_tables =
     {''ImportDeclaration'', ''ExportDeclaration'', ''Class'', ''Function'', ''Method'', ''Module'',
      ''Component'', ''Parameter'', ''ReturnType'', ''TypeAnnotation'', ''TypeAlias'', ''Symbol'',
      ''Constant'', ''Variable'', ''ClassAttribute'', ''InstanceAttribute'', ''Decorator'',
      ''Assignment'', ''CallExpression'', ''APIEndpoint'', ''Route'', ''DocumentationSource'',
      ''DocumentationChunk'', ''Literal'', ''ControlFlowBlock'', ''ExceptionFlow'', ''Query'',
      ''SecretRef'', ''Reference''}"

definition owner_tables :: "string set" where
  "owner_tables = {''File'', ''Module'', ''Class'', ''Function'', ''Method'', ''Component''}"

lemma callable_table_cases: "callable_table owner = ''Method'' \<or> callable_table owner = ''Function''"
  by (simp add: callable_table_def)

lemma table_for_node_type_semantic:
  "table_for_node_type t owner = Some table \<Longrightarrow> table \<in> semantic_tables"
  using callable_table_cases [of owner]
  by (auto simp: table_for_node_type_def semantic_tables_def split: if_splits)

lemma table_for_capture_semantic:
  "table_for_capture c owner = Some table \<Longrightarrow> table \<in> semantic_tables"
  using callable_table_cases [of owner]
  by (auto simp: table_for_capture_def semantic_tables_def Let_def split: if_splits)

lemma assignment_target_table_semantic: "assignment_target_table U l owner t \<in> semantic_tables"
  by (auto simp: assignment_target_table_def semantic_tables_def)

lemma get_node_Some: "get_node nodes i = Some n \<longleftrightarrow> i < length nodes \<and> n = nodes ! i"
  by (auto simp: get_node_def)

lemma arena_okD:
  "arena_ok nodes \<Longrightarrow> i < length nodes \<Longrightarrow> c \<in> set (an_children (nodes ! i)) \<Longrightarrow> i < c \<and> c < length nodes"
  unfolding arena_ok_def child_ids_ok_def by blast

text \<open>
  On a well-formed arena \<open>semantic_child_ids\<close> returns, and every identifier it returns is in
  range and above any bound that the parent's children are above.
\<close>

lemma semantic_child_ids_spec:
  "arena_ok nodes \<Longrightarrow> 0 < fuel \<Longrightarrow>
     (\<forall>c \<in> set (an_children parent). b < c \<and> c < length nodes \<and> length nodes < fuel + c) \<Longrightarrow>
     spec True (semantic_child_ids fuel nodes parent language)
       (\<lambda>ids. \<forall>c \<in> set ids. b < c \<and> c < length nodes)"
  and semantic_child_ids_of_spec:
  "arena_ok nodes \<Longrightarrow>
     (\<forall>c \<in> set cs. b < c \<and> c < length nodes \<and> length nodes < Suc fuel + c) \<Longrightarrow>
     spec True (semantic_child_ids_of fuel nodes parent language cs)
       (\<lambda>ids. \<forall>c \<in> set ids. b < c \<and> c < length nodes)"
proof (induction fuel nodes parent language and fuel nodes parent language cs
    rule: semantic_child_ids_semantic_child_ids_of.induct)
  case (4 fuel nodes parent language c rest)
  from "4.prems" have c: "b < c" "c < length nodes" "length nodes < Suc fuel + c" by auto
  then have node: "get_node nodes c = Some (nodes ! c)" by (simp add: get_node_def)
  have kids: "\<forall>d \<in> set (an_children (nodes ! c)). b < d \<and> d < length nodes \<and> length nodes < fuel + d"
  proof
    fix d
    assume "d \<in> set (an_children (nodes ! c))"
    with arena_okD [OF "4.prems"(1) c(2)] have "c < d" "d < length nodes" by auto
    with c show "b < d \<and> d < length nodes \<and> length nodes < fuel + d" by simp
  qed
  have pos: "0 < fuel" using c by simp
  show ?case
  proof (cases "should_inline_child (nodes ! c) language")
    case True
    obtain xs where xs: "semantic_child_ids fuel nodes (nodes ! c) language = Inr xs"
      "\<forall>c \<in> set xs. b < c \<and> c < length nodes"
      using "4.IH"(2) [OF node True "4.prems"(1) pos kids] by (auto simp: spec_True_iff)
    obtain ys where ys: "semantic_child_ids_of fuel nodes parent language rest = Inr ys"
      "\<forall>c \<in> set ys. b < c \<and> c < length nodes"
      using "4.IH"(3) [OF node True xs(1)] "4.prems" by (auto simp: spec_True_iff)
    show ?thesis using True xs ys by (auto simp: node)
  next
    case False
    then show ?thesis
      using "4.IH"(4,5) [OF node False] "4.prems" c
      by (auto simp: node intro!: spec_try)
  qed
qed auto

end
