(* ===== verification/Profiles.thy ===== *)
theory Profiles
  imports Captures
begin

text \<open>
  The language profiles (\<^verbatim>\<open>src/profiles.rs\<close> and the types of \<^verbatim>\<open>src/protocol.rs\<close> it uses):
  which file suffix belongs to which language, and which syntax node types of a language are
  captured under which name. The built-in profiles are transcribed; a profile of the request is
  inserted after them and so replaces the built-in one of its language.
\<close>

section \<open>Profiles and mappings\<close>

record language_profile =
  lp_language :: string
  lp_suffixes :: "string list"
  lp_grammar_package :: string
  lp_grammar_version :: string
  lp_root_node_types :: "string list"
  lp_capture_mappings :: "capture_mapping list"

definition mapping_with_context :: "string \<Rightarrow> string list \<Rightarrow> string \<Rightarrow> string \<Rightarrow> capture_mapping" where
  "mapping_with_context capture_name parser_node_types target_node_type context_rule =
     \<lparr>cm_capture_name = capture_name, cm_parser_node_types = parser_node_types,
      cm_target_node_type = target_node_type, cm_relation_types = [],
      cm_context_rule = context_rule, cm_construct = []\<rparr>"

definition mapping :: "string \<Rightarrow> string list \<Rightarrow> string \<Rightarrow> capture_mapping" where
  "mapping capture_name parser_node_types target_node_type =
     mapping_with_context capture_name parser_node_types target_node_type []"

section \<open>The built-in profiles\<close>

definition typescript_mappings :: "capture_mapping list" where
  "typescript_mappings =
     [mapping ''definition.class'' [''class_declaration'', ''abstract_class_declaration''] ''Class'',
      mapping ''definition.interface'' [''interface_declaration''] ''Class'',
      mapping ''definition.enum'' [''enum_declaration''] ''Class'',
      mapping ''definition.type_alias'' [''type_alias_declaration''] ''TypeAlias'',
      mapping ''definition.function'' [''function_declaration'', ''generator_function_declaration''] ''Function'',
      mapping ''definition.method'' [''method_definition'', ''method_signature'', ''abstract_method_signature''] ''Method'',
      mapping ''reference.import'' [''import_statement''] ''ImportDeclaration'',
      mapping ''reference.call'' [''call_expression''] ''CallExpression'']"

definition javascript_mappings :: "capture_mapping list" where
  "javascript_mappings =
     [mapping ''definition.class'' [''class_declaration''] ''Class'',
      mapping ''definition.function'' [''function_declaration'', ''generator_function_declaration''] ''Function'',
      mapping ''definition.method'' [''method_definition''] ''Method'',
      mapping ''reference.import'' [''import_statement''] ''ImportDeclaration'',
      mapping ''reference.call'' [''call_expression''] ''CallExpression'']"

definition webassembly_mappings :: "capture_mapping list" where
  "webassembly_mappings =
     [mapping_with_context ''definition.module'' [''module''] ''Module'' ''has name'',
      mapping_with_context ''definition.function'' [''module_field_func''] ''Function'' ''has name'',
      mapping_with_context ''definition.type_alias'' [''type_def''] ''TypeAlias'' ''has name'',
      mapping ''reference.import'' [''module_field_import''] ''ImportDeclaration'',
      mapping ''definition.export'' [''module_field_export'', ''export''] ''ExportDeclaration'',
      mapping_with_context ''reference.call'' [''plain_instr''] ''CallExpression'' ''has function'']"

definition c_family_mappings :: "capture_mapping list" where
  "c_family_mappings =
     [mapping ''definition.function'' [''function_definition''] ''Function'',
      mapping_with_context ''definition.function'' [''declaration''] ''Function'' ''function declarator'',
      mapping ''definition.struct'' [''struct_specifier''] ''Class'',
      mapping ''definition.union'' [''union_specifier''] ''Class'',
      mapping ''definition.enum'' [''enum_specifier''] ''Class'',
      mapping ''definition.class'' [''class_specifier''] ''Class'',
      mapping ''reference.include'' [''preproc_include''] ''ImportDeclaration'',
      mapping ''reference.call'' [''call_expression''] ''CallExpression'']"

definition python_profile :: language_profile where
  "python_profile =
     \<lparr>lp_language = ''python'',
      lp_suffixes = [''.py''],
      lp_grammar_package = ''tree_sitter_python'',
      lp_grammar_version = ''tree_sitter_python@0.25.0'',
      lp_root_node_types = [''module''],
      lp_capture_mappings =
       [mapping ''definition.class'' [''class_definition''] ''Class'',
        mapping ''definition.function'' [''function_definition''] ''Function'',
        mapping ''reference.import'' [''import_statement'', ''import_from_statement''] ''ImportDeclaration'',
        mapping ''reference.call'' [''call''] ''CallExpression'']\<rparr>"

definition markdown_profile :: language_profile where
  "markdown_profile =
     \<lparr>lp_language = ''markdown'',
      lp_suffixes = [''.md'', ''.mdx''],
      lp_grammar_package = '''',
      lp_grammar_version = ''builtin-markdown@1'',
      lp_root_node_types = [''Module''],
      lp_capture_mappings =
       [mapping ''doc.source'' [''DocumentationSource''] ''DocumentationSource'',
        mapping ''doc.chunk'' [''DocumentationChunk''] ''DocumentationChunk'']\<rparr>"

definition css_profile :: language_profile where
  "css_profile =
     \<lparr>lp_language = ''css'',
      lp_suffixes = [''.css''],
      lp_grammar_package = ''tree_sitter_css'',
      lp_grammar_version = ''tree_sitter_css@0.25.0'',
      lp_root_node_types = [''stylesheet''],
      lp_capture_mappings =
       []\<rparr>"

definition typescript_profile :: language_profile where
  "typescript_profile =
     \<lparr>lp_language = ''typescript'',
      lp_suffixes = [''.ts'', ''.mts'', ''.cts''],
      lp_grammar_package = ''tree_sitter_typescript'',
      lp_grammar_version = ''tree_sitter_typescript@0.23.2'',
      lp_root_node_types = [''program''],
      lp_capture_mappings =
       typescript_mappings\<rparr>"

definition tsx_profile :: language_profile where
  "tsx_profile =
     \<lparr>lp_language = ''tsx'',
      lp_suffixes = [''.tsx''],
      lp_grammar_package = ''tree_sitter_typescript'',
      lp_grammar_version = ''tree_sitter_typescript@0.23.2'',
      lp_root_node_types = [''program''],
      lp_capture_mappings =
       typescript_mappings\<rparr>"

definition javascript_profile :: language_profile where
  "javascript_profile =
     \<lparr>lp_language = ''javascript'',
      lp_suffixes = [''.js'', ''.jsx'', ''.mjs'', ''.cjs''],
      lp_grammar_package = ''tree_sitter_javascript'',
      lp_grammar_version = ''tree_sitter_javascript@0.25.0'',
      lp_root_node_types = [''program''],
      lp_capture_mappings =
       javascript_mappings\<rparr>"

definition html_profile :: language_profile where
  "html_profile =
     \<lparr>lp_language = ''html'',
      lp_suffixes = [''.html'', ''.htm''],
      lp_grammar_package = ''tree_sitter_html'',
      lp_grammar_version = ''tree_sitter_html@0.23.2'',
      lp_root_node_types = [''document''],
      lp_capture_mappings =
       []\<rparr>"

definition webassembly_profile :: language_profile where
  "webassembly_profile =
     \<lparr>lp_language = ''webassembly'',
      lp_suffixes = [''.wat''],
      lp_grammar_package = ''tree_sitter_wat'',
      lp_grammar_version = ''tree_sitter_wat@0.1.0+e3769473'',
      lp_root_node_types = [''root''],
      lp_capture_mappings =
       webassembly_mappings\<rparr>"

definition rust_profile :: language_profile where
  "rust_profile =
     \<lparr>lp_language = ''rust'',
      lp_suffixes = [''.rs''],
      lp_grammar_package = ''tree_sitter_rust'',
      lp_grammar_version = ''tree_sitter_rust@0.24.2'',
      lp_root_node_types = [''source_file''],
      lp_capture_mappings =
       [mapping ''definition.struct'' [''struct_item''] ''Class'',
        mapping_with_context ''definition.method'' [''function_item''] ''Method'' ''inside impl'',
        mapping ''definition.function'' [''function_item''] ''Function'',
        mapping ''reference.use'' [''use_declaration''] ''ImportDeclaration'',
        mapping ''reference.call'' [''call_expression''] ''CallExpression'',
        mapping ''reference.call'' [''macro_invocation''] ''CallExpression'']\<rparr>"

definition go_profile :: language_profile where
  "go_profile =
     \<lparr>lp_language = ''go'',
      lp_suffixes = [''.go''],
      lp_grammar_package = ''tree_sitter_go'',
      lp_grammar_version = ''tree_sitter_go@0.25.0'',
      lp_root_node_types = [''source_file''],
      lp_capture_mappings =
       [mapping ''definition.package'' [''package_clause''] ''Module'',
        mapping ''definition.function'' [''function_declaration''] ''Function'',
        mapping ''definition.method'' [''method_declaration''] ''Method'',
        mapping ''reference.import'' [''import_declaration''] ''ImportDeclaration'',
        mapping ''reference.call'' [''call_expression''] ''CallExpression'']\<rparr>"

definition c_profile :: language_profile where
  "c_profile =
     \<lparr>lp_language = ''c'',
      lp_suffixes = [''.c'', ''.h''],
      lp_grammar_package = ''tree_sitter_c'',
      lp_grammar_version = ''tree_sitter_c@0.24.2'',
      lp_root_node_types = [''translation_unit''],
      lp_capture_mappings =
       c_family_mappings\<rparr>"

definition cpp_profile :: language_profile where
  "cpp_profile =
     \<lparr>lp_language = ''cpp'',
      lp_suffixes = [''.cc'', ''.cpp'', ''.cxx'', ''.hpp'', ''.hh''],
      lp_grammar_package = ''tree_sitter_cpp'',
      lp_grammar_version = ''tree_sitter_cpp@0.23.4'',
      lp_root_node_types = [''translation_unit''],
      lp_capture_mappings =
       c_family_mappings\<rparr>"

definition fortran_profile :: language_profile where
  "fortran_profile =
     \<lparr>lp_language = ''fortran'',
      lp_suffixes = [''.f'', ''.f90'', ''.f95'', ''.for''],
      lp_grammar_package = ''tree_sitter_fortran'',
      lp_grammar_version = ''tree_sitter_fortran@0.6.0'',
      lp_root_node_types = [''translation_unit''],
      lp_capture_mappings =
       [mapping ''definition.module'' [''module''] ''Module'',
        mapping ''definition.function'' [''program''] ''Function'',
        mapping ''definition.function'' [''subroutine''] ''Function'',
        mapping ''definition.function'' [''function''] ''Function'',
        mapping ''reference.use'' [''use_statement''] ''ImportDeclaration'',
        mapping ''reference.call'' [''subroutine_call''] ''CallExpression'',
        mapping ''reference.call'' [''call_expression''] ''CallExpression'']\<rparr>"

definition built_in_profiles :: "language_profile list" where
  "built_in_profiles =
     [python_profile,
      markdown_profile,
      css_profile,
      typescript_profile,
      tsx_profile,
      javascript_profile,
      html_profile,
      webassembly_profile,
      rust_profile,
      go_profile,
      c_profile,
      cpp_profile,
      fortran_profile]"

section \<open>Profile sets\<close>

record profile_set =
  ps_by_language :: "(string, language_profile) btree_map"
  ps_suffix_to_language :: "(string, string) btree_map"

definition add_profile :: "unicode \<Rightarrow> language_profile \<Rightarrow> profile_set \<Rightarrow> profile_set" where
  "add_profile U profile ps =
     \<lparr>ps_by_language = btree_insert (lp_language profile) profile (ps_by_language ps),
      ps_suffix_to_language =
        fold (\<lambda>suffix m. btree_insert (str_lowercase U suffix) (lp_language profile) m)
          (lp_suffixes profile) (ps_suffix_to_language ps)\<rparr>"

definition profile_set_new :: "unicode \<Rightarrow> language_profile list \<Rightarrow> profile_set" where
  "profile_set_new U profiles =
     fold (add_profile U) (built_in_profiles @ profiles)
       \<lparr>ps_by_language = [], ps_suffix_to_language = []\<rparr>"

text \<open>
  \<open>Path::extension\<close>: of the last component, what follows its last dot, unless the component has
  no dot, or only a leading one, or is \<open>..\<close>.
\<close>

fun split_char :: "char \<Rightarrow> string \<Rightarrow> string list" where
  "split_char c [] = [[]]"
| "split_char c (b # bs) =
     (if b = c then [] # split_char c bs
      else case split_char c bs of [] \<Rightarrow> [[b]] | p # ps \<Rightarrow> (b # p) # ps)"

definition file_name :: "string \<Rightarrow> string option" where
  "file_name path =
     (case rev (filter (\<lambda>p. p \<noteq> [] \<and> p \<noteq> ''.'') (split_char (CHR ''/'') path)) of
        [] \<Rightarrow> None
      | p # _ \<Rightarrow> if p = ''..'' then None else Some p)"

definition path_extension :: "string \<Rightarrow> string option" where
  "path_extension path =
     (case Option.bind (file_name path) (rsplit_once (CHR ''.'')) of
        None \<Rightarrow> None
      | Some (before, after) \<Rightarrow> if before = [] then None else Some after)"

definition language_for_path :: "unicode \<Rightarrow> profile_set \<Rightarrow> string \<Rightarrow> string option" where
  "language_for_path U ps path =
     (case path_extension path of
        None \<Rightarrow> None
      | Some extension \<Rightarrow> map_of (ps_suffix_to_language ps) (CHR ''.'' # str_lowercase U extension))"

definition profile_for_language :: "profile_set \<Rightarrow> string \<Rightarrow> language_profile option" where
  "profile_for_language ps language = map_of (ps_by_language ps) language"

definition selected_profiles :: "profile_set \<Rightarrow> string list \<Rightarrow> language_profile list" where
  "selected_profiles ps languages = List.map_filter (map_of (ps_by_language ps)) languages"

section \<open>Lookups\<close>

definition last_with :: "('a \<Rightarrow> bool) \<Rightarrow> 'a list \<Rightarrow> 'a option" where
  "last_with P xs = find P (rev xs)"

lemma by_language_fold:
  "map_of (ps_by_language (fold (add_profile U) profiles ps)) l =
     (case last_with (\<lambda>p. lp_language p = l) profiles of
        Some p \<Rightarrow> Some p | None \<Rightarrow> map_of (ps_by_language ps) l)"
proof (induction profiles rule: rev_induct)
  case (snoc p profiles)
  then show ?case by (simp add: last_with_def add_profile_def)
qed (simp add: last_with_def)

definition suffix_pairs :: "unicode \<Rightarrow> language_profile list \<Rightarrow> (string \<times> string) list" where
  "suffix_pairs U profiles =
     concat (map (\<lambda>p. map (\<lambda>s. (str_lowercase U s, lp_language p)) (lp_suffixes p)) profiles)"

lemma suffix_fold_one:
  "map_of (fold (\<lambda>s m. btree_insert (f s) l m) ss m) =
     map_of (rev (map (\<lambda>s. (f s, l)) ss) @ m)"
  by (induction ss arbitrary: m) (auto simp: fun_eq_iff map_add_def split: option.splits)

lemma suffix_fold:
  "map_of (ps_suffix_to_language (fold (add_profile U) profiles ps)) =
     map_of (rev (suffix_pairs U profiles) @ ps_suffix_to_language ps)"
proof (induction profiles arbitrary: ps)
  case (Cons p profiles)
  have "map_of (ps_suffix_to_language (add_profile U p ps)) =
      map_of (rev (map (\<lambda>s. (str_lowercase U s, lp_language p)) (lp_suffixes p)) @ ps_suffix_to_language ps)"
    by (simp add: add_profile_def suffix_fold_one)
  then show ?case using Cons by (simp add: suffix_pairs_def map_add_assoc)
qed (simp add: suffix_pairs_def)

lemma map_of_rev_distinct: "distinct (map fst xs) \<Longrightarrow> (k, v) \<in> set xs \<Longrightarrow> map_of (rev xs) k = Some v"
  by (rule map_of_is_SomeI) (simp_all flip: rev_map)

definition plain_suffix :: "string \<Rightarrow> bool" where
  "plain_suffix s \<longleftrightarrow> (case s of [] \<Rightarrow> False
     | d # e \<Rightarrow> d = CHR ''.'' \<and> e \<noteq> [] \<and> CHR ''.'' \<notin> set e \<and> CHR ''/'' \<notin> set e \<and> map ascii_lower s = s)"

lemma built_in_suffixes_ok:
  "distinct (map fst (suffix_pairs ascii_tables built_in_profiles))"
  "list_all (\<lambda>p. list_all plain_suffix (lp_suffixes p)) built_in_profiles"
  by code_simp+

lemma split_char_last: "c \<notin> set b \<Longrightarrow> split_char c (a @ c # b) = split_char c a @ [b]"
proof (induction a)
  case Nil
  have "c \<notin> set b \<Longrightarrow> split_char c b = [b]" by (induction b) auto
  with Nil show ?case by simp
next
  case (Cons x a)
  have "split_char c a \<noteq> []" by (induction a) (auto split: list.splits)
  with Cons show ?case by (auto split: list.splits simp: Cons_eq_append_conv)
qed

lemma rsplit_once_last: "c \<notin> set b \<Longrightarrow> rsplit_once c (a @ c # b) = Some (a, b)"
proof -
  assume b: "c \<notin> set b"
  have "split_once c (xs @ c # ys) = Some (xs, ys)" if "c \<notin> set xs" for xs ys
    using that by (induction xs) auto
  with b show ?thesis by (simp add: rsplit_once_def)
qed

lemma path_extension_plain:
  assumes "stem \<noteq> []" and "CHR ''/'' \<notin> set stem" and "plain_suffix s"
  shows "path_extension (dir @ ''/'' @ stem @ s) = Some (tl s)"
proof -
  obtain e where s: "s = CHR ''.'' # e" "e \<noteq> []" and e: "CHR ''.'' \<notin> set e" "CHR ''/'' \<notin> set e"
    using assms(3) by (auto simp: plain_suffix_def split: list.splits)
  let ?f = "stem @ s"
  have "CHR ''/'' \<notin> set ?f" using assms(2) e by (simp add: s)
  then have split: "split_char (CHR ''/'') (dir @ ''/'' @ ?f) = split_char (CHR ''/'') dir @ [?f]"
    by (simp add: split_char_last)
  have len: "?f \<noteq> []" "?f \<noteq> ''.''" using assms(1) by (auto simp: s append_eq_Cons_conv)
  show ?thesis
  proof (cases "?f = ''..''")
    case True
    then have False using assms(1) e by (auto simp: s append_eq_Cons_conv)
    then show ?thesis ..
  next
    case False
    with split len have "file_name (dir @ ''/'' @ ?f) = Some ?f" by (simp add: file_name_def)
    then show ?thesis using assms(1) rsplit_once_last [OF e(1), of stem] by (simp add: path_extension_def s)
  qed
qed

section \<open>Properties\<close>

text \<open>
  Every built-in profile claims its suffixes for itself: with the built-in profiles, a file
  whose name is a non-empty stem followed by a suffix of a built-in profile is of that profile's
  language, whatever its directory.
\<close>

lemma built_in_suffix_language:
  assumes "p \<in> set built_in_profiles" and "s \<in> set (lp_suffixes p)"
    and "stem \<noteq> []" and "CHR ''/'' \<notin> set stem"
  shows "language_for_path ascii_tables (profile_set_new ascii_tables []) (dir @ ''/'' @ stem @ s)
     = Some (lp_language p)"
proof -
  have plain: "plain_suffix s" using built_in_suffixes_ok(2) assms(1,2) by (auto simp: list_all_iff)
  then obtain e where s: "s = CHR ''.'' # e" and low: "str_lowercase ascii_tables s = s"
    by (auto simp: plain_suffix_def ascii_tables_def split: list.splits)
  have e: "str_lowercase ascii_tables e = e" using low by (simp add: s ascii_tables_def)
  have "(str_lowercase ascii_tables s, lp_language p) \<in> set (suffix_pairs ascii_tables built_in_profiles)"
    using assms(1,2) by (auto simp: suffix_pairs_def)
  then have "(s, lp_language p) \<in> set (suffix_pairs ascii_tables built_in_profiles)" by (simp only: low)
  then have "map_of (rev (suffix_pairs ascii_tables built_in_profiles)) s = Some (lp_language p)"
    by (rule map_of_rev_distinct [OF built_in_suffixes_ok(1)])
  then show ?thesis
    using path_extension_plain [OF assms(3,4) plain, of dir] e
    by (simp add: language_for_path_def profile_set_new_def suffix_fold s)
qed


text \<open>
  A profile of the request replaces the built-in profile of its language, the last one of the
  request winning; languages the request does not name keep the built-in profile.
\<close>

lemma profile_override:
  "profile_for_language (profile_set_new U profiles) language =
     (case last_with (\<lambda>p. lp_language p = language) profiles of
        Some p \<Rightarrow> Some p
      | None \<Rightarrow> last_with (\<lambda>p. lp_language p = language) built_in_profiles)"
  by (simp add: profile_for_language_def profile_set_new_def by_language_fold split: option.splits)

end
