(* ===== verification/Relations.thy ===== *)
theory Relations
  imports Captures
begin

text \<open>
  Which relations the graph may hold (\<^verbatim>\<open>src/syntax_materializer/relations.rs\<close> and the table
  classes of \<^verbatim>\<open>ids.rs\<close>): the built-in rules, and the allowlist read from the ontology.
  Decoding the ontology's JSON is \<open>serde_json\<close>'s; the decoder is an argument.
  \<open>allows_from_specs\<close> states what the allowlist means, and \<open>policy_covers\<close> names the
  relations the builder relies on; the built-in rules cover them.
\<close>

section \<open>Table classes\<close>

definition is_symbol_target :: "string \<Rightarrow> bool" where
  "is_symbol_target t \<longleftrightarrow>
     t \<in> {''Symbol'', ''Class'', ''Function'', ''Method'', ''Variable'', ''Constant'',
           ''ClassAttribute'', ''InstanceAttribute'', ''Property'', ''Parameter''}"

definition is_declaration :: "string \<Rightarrow> bool" where
  "is_declaration t \<longleftrightarrow>
     t \<in> {''Symbol'', ''Class'', ''Function'', ''Method'', ''Parameter'', ''ReturnType'',
           ''TypeAnnotation'', ''TypeAlias'', ''Variable'', ''Constant'', ''ClassAttribute'',
           ''InstanceAttribute'', ''Property'', ''Decorator'', ''Assignment'', ''APIEndpoint'',
           ''Component'', ''Route'', ''Query'', ''SecretRef''}"

definition is_expression :: "string \<Rightarrow> bool" where
  "is_expression t \<longleftrightarrow>
     t \<in> {''CallExpression'', ''Assignment'', ''Reference'', ''Literal'', ''Expression'',
           ''ControlFlowBlock'', ''ExceptionFlow'', ''Query'', ''SecretRef''}"

definition is_documentation :: "string \<Rightarrow> bool" where
  "is_documentation t \<longleftrightarrow> t \<in> {''DocumentationSource'', ''DocumentationChunk''}"

section \<open>Built-in rules\<close>

definition default_relation_allowed :: "string \<Rightarrow> string \<Rightarrow> string \<Rightarrow> bool" where
  "default_relation_allowed edge_type source target =
     (if edge_type = ''Imports'' then
        source \<in> {''File'', ''Module'', ''Scope''}
        \<and> target \<in> {''ImportDeclaration'', ''Dependency'', ''Module'', ''Symbol''}
      else if edge_type = ''References'' then
        source \<in> {''Reference'', ''Expression'', ''CallExpression'', ''Assignment'',
                   ''ControlFlowBlock'', ''TypeAnnotation'', ''Decorator'', ''Query'', ''SecretRef''}
        \<and> (is_symbol_target target \<or> target \<in> {''Module'', ''Dependency''})
      else if edge_type = ''Calls'' then
        source \<in> {''Function'', ''Method'', ''CallExpression'', ''Decorator'', ''APIEndpoint'',
                   ''Route'', ''Component''}
        \<and> target \<in> {''CallExpression'', ''Function'', ''Method'', ''Class'', ''APIEndpoint''}
      else if edge_type = ''ResolvesTo'' then
        source \<in> {''Reference'', ''ImportDeclaration'', ''CallExpression'', ''TypeAnnotation'',
                   ''Decorator''}
        \<and> (is_symbol_target target \<or> target \<in> {''Module'', ''Dependency''})
      else if edge_type = ''Documents'' then
        source \<in> {''DocumentationSource'', ''DocumentationChunk'', ''Literal''}
        \<and> (target \<in> {''Repository'', ''File'', ''Module''} \<or> is_declaration target)
      else if edge_type = ''EvidencedBy'' then
        (source \<in> {''Repository'', ''File'', ''Module'', ''Dependency''}
         \<or> is_declaration source \<or> is_expression source \<or> is_documentation source)
        \<and> target \<in> {''SyntaxCapture'', ''File'', ''DocumentationChunk''}
      else True)"

section \<open>The allowlist\<close>

record relation_spec =
  rs_name :: string
  rs_source_types :: "string list"
  rs_target_types :: "string list"

record relation_allowlist =
  al_enabled :: bool
  al_pairs_by_relation :: "(string, (string \<times> string) set) hash_map"

definition default_allowlist :: relation_allowlist where
  "default_allowlist = \<lparr>al_enabled = False, al_pairs_by_relation = []\<rparr>"

definition add_relation_spec ::
  "relation_spec \<Rightarrow> (string, (string \<times> string) set) hash_map \<Rightarrow> (string, (string \<times> string) set) hash_map" where
  "add_relation_spec relation m =
     (if rs_name relation = [] then m
      else hash_update (rs_name relation)
             (\<lambda>pairs. pairs \<union> set (List.product (rs_source_types relation) (rs_target_types relation)))
             (entry_or_insert (rs_name relation) {} m))"

definition allowlist_of_specs :: "relation_spec list \<Rightarrow> relation_allowlist" where
  "allowlist_of_specs specs =
     \<lparr>al_enabled = True, al_pairs_by_relation = fold add_relation_spec specs []\<rparr>"

definition allowlist_from_meta ::
  "(string \<Rightarrow> string + relation_spec list) \<Rightarrow> (string, string) btree_map
     \<Rightarrow> string fail + relation_allowlist" where
  "allowlist_from_meta decode meta =
     (case map_of meta ''ontology_relations'' of
        None \<Rightarrow> Inr default_allowlist
      | Some encoded \<Rightarrow>
          (case decode encoded of
             Inl error \<Rightarrow> Inl (Failed (''invalid ontology_relations metadata: '' @ error))
           | Inr specs \<Rightarrow> Inr (allowlist_of_specs specs)))"

definition allows :: "relation_allowlist \<Rightarrow> string \<Rightarrow> string \<Rightarrow> string \<Rightarrow> bool" where
  "allows al edge_type source target =
     (if \<not> al_enabled al then default_relation_allowed edge_type source target
      else case map_of (al_pairs_by_relation al) edge_type of
             None \<Rightarrow> False
           | Some pairs \<Rightarrow> (source, target) \<in> pairs)"

section \<open>What the allowlist means\<close>

definition declared_pairs :: "relation_spec list \<Rightarrow> string \<Rightarrow> (string \<times> string) set" where
  "declared_pairs specs name =
     {(s, t). \<exists>r \<in> set specs. rs_name r = name \<and> s \<in> set (rs_source_types r) \<and> t \<in> set (rs_target_types r)}"

definition pairs_of :: "(string, (string \<times> string) set) hash_map \<Rightarrow> string \<Rightarrow> (string \<times> string) set" where
  "pairs_of m name = (case map_of m name of None \<Rightarrow> {} | Some ps \<Rightarrow> ps)"

lemma pairs_of_Nil [simp]: "pairs_of [] name = {}"
  by (simp add: pairs_of_def)

lemma pairs_of_add_relation_spec:
  "pairs_of (add_relation_spec r m) name =
     pairs_of m name \<union> (if rs_name r = name \<and> name \<noteq> [] then declared_pairs [r] name else {})"
  by (auto simp: pairs_of_def add_relation_spec_def map_of_hash_update declared_pairs_def
      split: option.splits if_splits)

lemma pairs_of_fold:
  "pairs_of (fold add_relation_spec specs m) name =
     pairs_of m name \<union> (if name \<noteq> [] then declared_pairs specs name else {})"
proof (induction specs arbitrary: m)
  case Nil
  then show ?case by (auto simp: declared_pairs_def)
next
  case (Cons r specs)
  have "declared_pairs (r # specs) name =
      (if rs_name r = name then declared_pairs [r] name else {}) \<union> declared_pairs specs name"
    by (auto simp: declared_pairs_def)
  with Cons show ?case by (auto simp: pairs_of_add_relation_spec)
qed

lemma allows_from_specs:
  "allows (allowlist_of_specs specs) edge_type source target \<longleftrightarrow>
     edge_type \<noteq> [] \<and> (source, target) \<in> declared_pairs specs edge_type"
proof -
  have "allows (allowlist_of_specs specs) edge_type source target \<longleftrightarrow>
      (source, target) \<in> pairs_of (fold add_relation_spec specs []) edge_type"
    by (auto simp: allows_def allowlist_of_specs_def pairs_of_def split: option.splits)
  also have "\<dots> \<longleftrightarrow> edge_type \<noteq> [] \<and> (source, target) \<in> declared_pairs specs edge_type"
    by (simp add: pairs_of_fold)
  finally show ?thesis .
qed

section \<open>The relations the builder needs\<close>

text \<open>
  The builder turns a refused relation into a build error wherever it calls \<open>edge\<close> rather than
  \<open>edge_if_allowed\<close>. \<open>policy_covers\<close> lists the triples that occur there.
\<close>

definition scope_tables :: "string set" where
  "scope_tables = owner_tables \<union> {''Scope''}"

definition declared_tables :: "string set" where
  "declared_tables = {''Class'', ''Function'', ''Method''}"

definition policy_covers :: "(string \<Rightarrow> string \<Rightarrow> string \<Rightarrow> bool) \<Rightarrow> bool" where
  "policy_covers allow \<longleftrightarrow>
     allow ''Contains'' ''Repository'' ''SourceRoot''
     \<and> allow ''Contains'' ''SourceRoot'' ''File''
     \<and> allow ''Contains'' ''File'' ''Module''
     \<and> (\<forall>s \<in> scope_tables. \<forall>t \<in> semantic_tables. allow ''Contains'' s t)
     \<and> (\<forall>s \<in> owner_tables. allow ''Contains'' s ''Scope'')
     \<and> (\<forall>s \<in> owner_tables. allow ''HasScope'' s ''Scope'')
     \<and> (\<forall>s \<in> owner_tables. \<forall>t \<in> declared_tables. allow ''Defines'' s t)
     \<and> (\<forall>s \<in> owner_tables - {''File'', ''Component''}. \<forall>t \<in> declared_tables. allow ''Declares'' s t)
     \<and> (\<forall>s \<in> semantic_tables. allow ''DerivedFrom'' s ''SyntaxCapture'')
     \<and> allow ''DependsOn'' ''ImportDeclaration'' ''Dependency''
     \<and> allow ''EvidencedBy'' ''Dependency'' ''SyntaxCapture''
     \<and> allow ''EvidencedBy'' ''File'' ''SyntaxCapture''
     \<and> allow ''SyntaxChild'' ''SyntaxCapture'' ''SyntaxCapture''"

lemma default_policy_covers: "policy_covers default_relation_allowed"
  by (simp add: policy_covers_def default_relation_allowed_def)

lemma allows_default: "allows default_allowlist = default_relation_allowed"
  by (simp add: fun_eq_iff allows_def default_allowlist_def)

end
