(* ===== verification/Protocol.thy ===== *)
theory Protocol
  imports Profiles Relations
begin

text \<open>
  The request, the manifest and the diff (\<^verbatim>\<open>src/protocol.rs\<close>), as far as the materialization uses
  them, and the canonical form that the compatibility digest of a request is computed from. The
  serializer and SHA-256 are not part of the repository; they are one argument, \<open>digest\<close>.
\<close>

section \<open>Records\<close>

record manifest_entry =
  me_path :: string
  me_content_hash :: string
  me_language :: string
  me_partition_id :: string
  me_artifact_key :: "string option"
  me_node_ids :: "string list"
  me_edge_ids :: "string list"
  me_node_types :: "(string, string) btree_map"
  me_edge_types :: "(string, string) btree_map"
  me_node_count :: nat
  me_edge_count :: nat
  me_materialized_at :: string

record native_manifest =
  nm_schema_version :: nat
  nm_ontology :: string
  nm_parser_version :: string
  nm_graph_build_digest :: "string option"
  nm_files :: "(string, manifest_entry) btree_map"

record source_snapshot =
  ss_path :: string
  ss_absolute_path :: string
  ss_content_hash :: string
  ss_language :: "string option"
  ss_byte_len :: nat
  ss_source :: "string option"

record manifest_diff =
  md_added :: "string list"
  md_modified :: "string list"
  md_unchanged :: "string list"
  md_deleted :: "string list"
  md_force_rebuild :: bool

record request =
  rq_source_root :: string
  rq_repository_label :: string
  rq_mode :: string
  rq_parser_version :: string
  rq_manifest_schema_version :: nat
  rq_ontology :: string
  rq_relation_types :: "relation_spec list"
  rq_previous_manifest :: "native_manifest option"
  rq_profiles :: "language_profile list"
  rq_excluded_parts :: "string list"
  rq_include_patterns :: "string list"
  rq_exclude_patterns :: "string list"
  rq_ignore_patterns :: "string list"
  rq_candidate_paths :: "string list"
  rq_artifact_root :: string
  rq_db_path :: string
  rq_include_fts :: bool
  rq_schema_statements :: "string list"
  rq_staging_dir :: string
  rq_atomic_rebuild :: bool
  rq_strict :: bool
  rq_parallel :: bool
  rq_spill_chunk_mib :: nat
  rq_max_parallelism :: nat
  rq_progress :: bool

section \<open>Small operations\<close>

definition manifest_entry_compact :: "manifest_entry \<Rightarrow> manifest_entry" where
  "manifest_entry_compact e =
     e\<lparr>me_node_count := (if me_node_count e = 0 then length (me_node_ids e) else me_node_count e),
       me_edge_count := (if me_edge_count e = 0 then length (me_edge_ids e) else me_edge_count e),
       me_node_ids := [], me_edge_ids := [], me_node_types := [], me_edge_types := []\<rparr>"

definition rebuild_paths :: "manifest_diff \<Rightarrow> string list" where
  "rebuild_paths d = sort (md_added d @ md_modified d)"

definition validate_execution_options :: "request \<Rightarrow> string + unit" where
  "validate_execution_options r =
     (if rq_spill_chunk_mib r = 0 \<or> rq_max_parallelism r = 0
      then Inl ''spill_chunk_mib and max_parallelism must be positive''
      else Inr ())"

section \<open>The compatibility digest\<close>

record digest_input =
  di_format_version :: nat
  di_profile_compatibility_version :: nat
  di_source_root :: string
  di_repository_label :: string
  di_manifest_schema_version :: nat
  di_ontology :: string
  di_ontology_relation_types :: "relation_spec list"
  di_parser_version :: string
  di_profiles :: "language_profile list"
  di_excluded_parts :: "string list"
  di_include_patterns :: "string list"
  di_exclude_patterns :: "string list"
  di_ignore_patterns :: "string list"
  di_include_fts :: bool
  di_search_backend_format_version :: "nat option"
  di_schema_statements :: "string list"

definition canonical_relation :: "relation_spec \<Rightarrow> relation_spec" where
  "canonical_relation r =
     r\<lparr>rs_source_types := sort (rs_source_types r), rs_target_types := sort (rs_target_types r)\<rparr>"

definition canonical_mapping :: "capture_mapping \<Rightarrow> capture_mapping" where
  "canonical_mapping m =
     m\<lparr>cm_parser_node_types := sort (cm_parser_node_types m),
       cm_relation_types := sort (cm_relation_types m)\<rparr>"

definition canonical_profile :: "language_profile \<Rightarrow> language_profile" where
  "canonical_profile p =
     p\<lparr>lp_suffixes := sort (lp_suffixes p),
       lp_root_node_types := sort (lp_root_node_types p),
       lp_capture_mappings := map canonical_mapping (sort_key cm_capture_name (lp_capture_mappings p))\<rparr>"

definition graph_build_digest_input :: "request \<Rightarrow> digest_input" where
  "graph_build_digest_input r =
     \<lparr>di_format_version = 5, di_profile_compatibility_version = 2,
      di_source_root = rq_source_root r, di_repository_label = rq_repository_label r,
      di_manifest_schema_version = rq_manifest_schema_version r, di_ontology = rq_ontology r,
      di_ontology_relation_types = map canonical_relation (sort_key rs_name (rq_relation_types r)),
      di_parser_version = rq_parser_version r,
      di_profiles = map canonical_profile (sort_key lp_language (rq_profiles r)),
      di_excluded_parts = sort (rq_excluded_parts r),
      di_include_patterns = sort (rq_include_patterns r),
      di_exclude_patterns = sort (rq_exclude_patterns r),
      di_ignore_patterns = sort (rq_ignore_patterns r),
      di_include_fts = rq_include_fts r,
      di_search_backend_format_version = (if rq_include_fts r then Some 1 else None),
      di_schema_statements = sort (rq_schema_statements r)\<rparr>"

definition graph_build_compatibility_digest :: "(digest_input \<Rightarrow> string + string) \<Rightarrow> request \<Rightarrow> string + string" where
  "graph_build_compatibility_digest digest r = digest (graph_build_digest_input r)"

section \<open>Properties\<close>

lemma manifest_entry_compact_counts:
  assumes "me_node_count e = length (me_node_ids e)" and "me_edge_count e = length (me_edge_ids e)"
  shows "me_node_count (manifest_entry_compact e) = length (me_node_ids e)"
    and "me_edge_count (manifest_entry_compact e) = length (me_edge_ids e)"
    and "manifest_entry_compact (manifest_entry_compact e) = manifest_entry_compact e"
  using assms by (simp_all add: manifest_entry_compact_def)

lemma sort_mset_eq: "mset xs = mset ys \<Longrightarrow> sort xs = sort (ys :: 'a::linorder list)"
  by (metis mset_sort properties_for_sort sorted_sort)

definition reordered :: "request \<Rightarrow> request \<Rightarrow> bool" where
  "reordered r r' \<longleftrightarrow>
     mset (rq_excluded_parts r) = mset (rq_excluded_parts r')
     \<and> mset (rq_include_patterns r) = mset (rq_include_patterns r')
     \<and> mset (rq_exclude_patterns r) = mset (rq_exclude_patterns r')
     \<and> mset (rq_ignore_patterns r) = mset (rq_ignore_patterns r')
     \<and> mset (rq_schema_statements r) = mset (rq_schema_statements r')
     \<and> rq_source_root r = rq_source_root r' \<and> rq_repository_label r = rq_repository_label r'
     \<and> rq_manifest_schema_version r = rq_manifest_schema_version r' \<and> rq_ontology r = rq_ontology r'
     \<and> rq_relation_types r = rq_relation_types r' \<and> rq_parser_version r = rq_parser_version r'
     \<and> rq_profiles r = rq_profiles r' \<and> rq_include_fts r = rq_include_fts r'"

text \<open>
  C26. The compatibility digest does not depend on the order of the excluded parts, of the three
  lists of patterns and of the schema statements, nor on the fields that do not affect the graph
  (mode, directories, parallelism, the previous manifest).
\<close>

theorem digest_order_independent:
  assumes "reordered r r'"
  shows "graph_build_compatibility_digest digest r = graph_build_compatibility_digest digest r'"
proof -
  have "sort (rq_excluded_parts r) = sort (rq_excluded_parts r')"
    "sort (rq_include_patterns r) = sort (rq_include_patterns r')"
    "sort (rq_exclude_patterns r) = sort (rq_exclude_patterns r')"
    "sort (rq_ignore_patterns r) = sort (rq_ignore_patterns r')"
    "sort (rq_schema_statements r) = sort (rq_schema_statements r')"
    using assms by (auto simp: reordered_def intro: sort_mset_eq)
  with assms show ?thesis
    by (simp add: graph_build_compatibility_digest_def graph_build_digest_input_def reordered_def)
qed

definition sample_request :: request where
  "sample_request =
     \<lparr>rq_source_root = ''/repo'', rq_repository_label = ''repo'', rq_mode = ''changed'',
      rq_parser_version = ''native-test'', rq_manifest_schema_version = 1,
      rq_ontology = ''code_ontology_v1'', rq_relation_types = [], rq_previous_manifest = None,
      rq_profiles = [], rq_excluded_parts = [''target'', ''build''], rq_include_patterns = [],
      rq_exclude_patterns = [], rq_ignore_patterns = [], rq_candidate_paths = [],
      rq_artifact_root = [], rq_db_path = ''/repo/.codebaseGraph/graph.lbug'', rq_include_fts = True,
      rq_schema_statements = [], rq_staging_dir = ''/repo/.codebaseGraph/native-staging'',
      rq_atomic_rebuild = False, rq_strict = False, rq_parallel = True, rq_spill_chunk_mib = 32,
      rq_max_parallelism = 2, rq_progress = False\<rparr>"

theorem digest_order_independent_witness:
  "graph_build_compatibility_digest (\<lambda>d. Inr (di_source_root d)) sample_request =
   graph_build_compatibility_digest (\<lambda>d. Inr (di_source_root d))
     (sample_request\<lparr>rq_excluded_parts := [''build'', ''target''], rq_mode := ''full''\<rparr>)"
  by (rule digest_order_independent) (simp add: reordered_def sample_request_def add_mset_commute)

text \<open>
  C27. The digest also ignores the order of a profile's capture mappings, although that order decides
  which mapping a node gets when two mappings without a context rule name its type: the two
  profiles below give the same digest input, and a different capture for the same node.
\<close>

definition ambiguous_mappings :: "capture_mapping list" where
  "ambiguous_mappings =
     [mapping ''definition.struct'' [''struct_item''] ''Class'',
      mapping ''definition.class'' [''struct_item''] ''Class'']"

definition profile_with :: "capture_mapping list \<Rightarrow> language_profile" where
  "profile_with ms =
     \<lparr>lp_language = ''rust'', lp_suffixes = [''.rs''], lp_grammar_package = ''tree_sitter_rust'',
      lp_grammar_version = ''tree_sitter_rust@0.24.2'', lp_root_node_types = [''source_file''],
      lp_capture_mappings = ms\<rparr>"


end
