(* ===== verification/Schema.thy ===== *)
theory Schema
  imports Relations
begin

text \<open>
  The relation types of the ontology shipped with the program
  (\<^verbatim>\<open>assets/graph_schema.json\<close>, entry \<open>relation_types\<close>), transcribed, and the proof that this
  policy covers every relation the builder insists on.
\<close>

section \<open>The shipped relations\<close>

definition schema_Contains :: relation_spec where
  "schema_Contains =
     \<lparr>rs_name = ''Contains'',
      rs_source_types =
        [''Repository'', ''SourceRoot'', ''File'', ''Module'', ''Scope'', ''Class'',
         ''Function'', ''Method'', ''Component''],
      rs_target_types =
        [''SourceRoot'', ''File'', ''Module'', ''Scope'', ''ImportDeclaration'',
         ''ExportDeclaration'', ''Symbol'', ''Class'', ''Function'', ''Method'', ''Parameter'',
         ''ReturnType'', ''TypeAnnotation'', ''TypeAlias'', ''Variable'', ''Constant'',
         ''ClassAttribute'', ''InstanceAttribute'', ''Property'', ''Decorator'',
         ''Assignment'', ''APIEndpoint'', ''Component'', ''Route'', ''Query'', ''SecretRef'',
         ''CallExpression'', ''Assignment'', ''Reference'', ''Literal'', ''Expression'',
         ''ControlFlowBlock'', ''ExceptionFlow'', ''Query'', ''SecretRef'',
         ''DocumentationSource'', ''DocumentationChunk'']\<rparr>"

definition schema_Defines :: relation_spec where
  "schema_Defines =
     \<lparr>rs_name = ''Defines'',
      rs_source_types =
        [''File'', ''Module'', ''Scope'', ''Class'', ''Function'', ''Method'', ''Component''],
      rs_target_types =
        [''Symbol'', ''Class'', ''Function'', ''Method'', ''Parameter'', ''ReturnType'',
         ''TypeAnnotation'', ''TypeAlias'', ''Variable'', ''Constant'', ''ClassAttribute'',
         ''InstanceAttribute'', ''Property'', ''Decorator'', ''Assignment'', ''APIEndpoint'',
         ''Component'', ''Route'', ''Query'', ''SecretRef'']\<rparr>"

definition schema_Imports :: relation_spec where
  "schema_Imports =
     \<lparr>rs_name = ''Imports'',
      rs_source_types =
        [''File'', ''Module'', ''Scope''],
      rs_target_types =
        [''ImportDeclaration'', ''Dependency'', ''Module'', ''Symbol'']\<rparr>"

definition schema_Exports :: relation_spec where
  "schema_Exports =
     \<lparr>rs_name = ''Exports'',
      rs_source_types =
        [''File'', ''Module'', ''Scope'', ''Component''],
      rs_target_types =
        [''ExportDeclaration'', ''Symbol'', ''Class'', ''Function'', ''Method'', ''Parameter'',
         ''ReturnType'', ''TypeAnnotation'', ''TypeAlias'', ''Variable'', ''Constant'',
         ''ClassAttribute'', ''InstanceAttribute'', ''Property'', ''Decorator'',
         ''Assignment'', ''APIEndpoint'', ''Component'', ''Route'', ''Query'', ''SecretRef'']\<rparr>"

definition schema_Declares :: relation_spec where
  "schema_Declares =
     \<lparr>rs_name = ''Declares'',
      rs_source_types =
        [''Module'', ''Scope'', ''Class'', ''Function'', ''Method'', ''Assignment''],
      rs_target_types =
        [''Symbol'', ''Class'', ''Function'', ''Method'', ''Parameter'', ''ReturnType'',
         ''TypeAnnotation'', ''TypeAlias'', ''Variable'', ''Constant'', ''ClassAttribute'',
         ''InstanceAttribute'', ''Property'', ''Decorator'', ''Assignment'', ''APIEndpoint'',
         ''Component'', ''Route'', ''Query'', ''SecretRef'']\<rparr>"

definition schema_HasScope :: relation_spec where
  "schema_HasScope =
     \<lparr>rs_name = ''HasScope'',
      rs_source_types =
        [''File'', ''Module'', ''Symbol'', ''Class'', ''Function'', ''Method'', ''Parameter'',
         ''ReturnType'', ''TypeAnnotation'', ''TypeAlias'', ''Variable'', ''Constant'',
         ''ClassAttribute'', ''InstanceAttribute'', ''Property'', ''Decorator'',
         ''Assignment'', ''APIEndpoint'', ''Component'', ''Route'', ''Query'', ''SecretRef'',
         ''CallExpression'', ''Assignment'', ''Reference'', ''Literal'', ''Expression'',
         ''ControlFlowBlock'', ''ExceptionFlow'', ''Query'', ''SecretRef''],
      rs_target_types =
        [''Scope'']\<rparr>"

definition schema_HasParameter :: relation_spec where
  "schema_HasParameter =
     \<lparr>rs_name = ''HasParameter'',
      rs_source_types =
        [''Function'', ''Method'', ''APIEndpoint'', ''Route'', ''CallExpression''],
      rs_target_types =
        [''Parameter'']\<rparr>"

definition schema_HasReturnType :: relation_spec where
  "schema_HasReturnType =
     \<lparr>rs_name = ''HasReturnType'',
      rs_source_types =
        [''Function'', ''Method'', ''APIEndpoint''],
      rs_target_types =
        [''ReturnType'']\<rparr>"

definition schema_HasTypeAnnotation :: relation_spec where
  "schema_HasTypeAnnotation =
     \<lparr>rs_name = ''HasTypeAnnotation'',
      rs_source_types =
        [''Symbol'', ''Parameter'', ''ReturnType'', ''TypeAlias'', ''Variable'', ''Constant'',
         ''ClassAttribute'', ''InstanceAttribute''],
      rs_target_types =
        [''TypeAnnotation'', ''Reference'', ''Literal'']\<rparr>"

definition schema_Assigns :: relation_spec where
  "schema_Assigns =
     \<lparr>rs_name = ''Assigns'',
      rs_source_types =
        [''Assignment'', ''Variable'', ''Constant'', ''ClassAttribute'', ''InstanceAttribute'',
         ''Property''],
      rs_target_types =
        [''Variable'', ''Constant'', ''ClassAttribute'', ''InstanceAttribute'', ''Property'',
         ''Literal'', ''Expression'', ''CallExpression'']\<rparr>"

definition schema_References :: relation_spec where
  "schema_References =
     \<lparr>rs_name = ''References'',
      rs_source_types =
        [''Reference'', ''Expression'', ''CallExpression'', ''Assignment'',
         ''ControlFlowBlock'', ''TypeAnnotation'', ''Decorator'', ''Query'', ''SecretRef''],
      rs_target_types =
        [''Symbol'', ''Class'', ''Function'', ''Method'', ''Variable'', ''Constant'',
         ''ClassAttribute'', ''InstanceAttribute'', ''Property'', ''Parameter'', ''Module'',
         ''Dependency'']\<rparr>"

definition schema_Calls :: relation_spec where
  "schema_Calls =
     \<lparr>rs_name = ''Calls'',
      rs_source_types =
        [''Function'', ''Method'', ''CallExpression'', ''Decorator'', ''APIEndpoint'',
         ''Route'', ''Component''],
      rs_target_types =
        [''CallExpression'', ''Function'', ''Method'', ''Class'', ''APIEndpoint'']\<rparr>"

definition schema_DecoratedBy :: relation_spec where
  "schema_DecoratedBy =
     \<lparr>rs_name = ''DecoratedBy'',
      rs_source_types =
        [''Class'', ''Function'', ''Method'', ''Property'', ''APIEndpoint'', ''Route'',
         ''Component''],
      rs_target_types =
        [''Decorator'', ''CallExpression'', ''Reference'']\<rparr>"

definition schema_ResolvesTo :: relation_spec where
  "schema_ResolvesTo =
     \<lparr>rs_name = ''ResolvesTo'',
      rs_source_types =
        [''Reference'', ''ImportDeclaration'', ''CallExpression'', ''TypeAnnotation'',
         ''Decorator''],
      rs_target_types =
        [''Symbol'', ''Module'', ''Class'', ''Function'', ''Method'', ''Variable'',
         ''Constant'', ''Dependency'', ''Parameter'']\<rparr>"

definition schema_DependsOn :: relation_spec where
  "schema_DependsOn =
     \<lparr>rs_name = ''DependsOn'',
      rs_source_types =
        [''Repository'', ''SourceRoot'', ''File'', ''Module'', ''ImportDeclaration'',
         ''Dependency'', ''Component''],
      rs_target_types =
        [''Dependency'', ''Module'', ''Component'', ''SecretRef'']\<rparr>"

definition schema_Documents :: relation_spec where
  "schema_Documents =
     \<lparr>rs_name = ''Documents'',
      rs_source_types =
        [''DocumentationSource'', ''DocumentationChunk'', ''Literal''],
      rs_target_types =
        [''Repository'', ''File'', ''Module'', ''Symbol'', ''Class'', ''Function'', ''Method'',
         ''Parameter'', ''ReturnType'', ''TypeAnnotation'', ''TypeAlias'', ''Variable'',
         ''Constant'', ''ClassAttribute'', ''InstanceAttribute'', ''Property'', ''Decorator'',
         ''Assignment'', ''APIEndpoint'', ''Component'', ''Route'', ''Query'', ''SecretRef'']\<rparr>"

definition schema_RoutesTo :: relation_spec where
  "schema_RoutesTo =
     \<lparr>rs_name = ''RoutesTo'',
      rs_source_types =
        [''Route'', ''APIEndpoint'', ''Component''],
      rs_target_types =
        [''APIEndpoint'', ''Function'', ''Method'', ''Component'']\<rparr>"

definition schema_Exposes :: relation_spec where
  "schema_Exposes =
     \<lparr>rs_name = ''Exposes'',
      rs_source_types =
        [''Repository'', ''Module'', ''Component'', ''APIEndpoint'', ''Route''],
      rs_target_types =
        [''APIEndpoint'', ''Route'', ''Function'', ''Method'', ''Component'',
         ''ExportDeclaration'']\<rparr>"

definition schema_ExecutesQuery :: relation_spec where
  "schema_ExecutesQuery =
     \<lparr>rs_name = ''ExecutesQuery'',
      rs_source_types =
        [''Function'', ''Method'', ''CallExpression'', ''APIEndpoint'', ''Component''],
      rs_target_types =
        [''Query'']\<rparr>"

definition schema_UsesSecret :: relation_spec where
  "schema_UsesSecret =
     \<lparr>rs_name = ''UsesSecret'',
      rs_source_types =
        [''Function'', ''Method'', ''CallExpression'', ''Component'', ''APIEndpoint'',
         ''Dependency''],
      rs_target_types =
        [''SecretRef'']\<rparr>"

definition schema_Raises :: relation_spec where
  "schema_Raises =
     \<lparr>rs_name = ''Raises'',
      rs_source_types =
        [''Function'', ''Method'', ''CallExpression'', ''ControlFlowBlock''],
      rs_target_types =
        [''ExceptionFlow'']\<rparr>"

definition schema_Handles :: relation_spec where
  "schema_Handles =
     \<lparr>rs_name = ''Handles'',
      rs_source_types =
        [''Function'', ''Method'', ''ControlFlowBlock'', ''ExceptionFlow''],
      rs_target_types =
        [''ExceptionFlow'']\<rparr>"

definition schema_SyntaxChild :: relation_spec where
  "schema_SyntaxChild =
     \<lparr>rs_name = ''SyntaxChild'',
      rs_source_types =
        [''SyntaxCapture''],
      rs_target_types =
        [''SyntaxCapture'']\<rparr>"

definition schema_DerivedFrom :: relation_spec where
  "schema_DerivedFrom =
     \<lparr>rs_name = ''DerivedFrom'',
      rs_source_types =
        [''Symbol'', ''Class'', ''Function'', ''Method'', ''Parameter'', ''ReturnType'',
         ''TypeAnnotation'', ''TypeAlias'', ''Variable'', ''Constant'', ''ClassAttribute'',
         ''InstanceAttribute'', ''Property'', ''Decorator'', ''Assignment'', ''APIEndpoint'',
         ''Component'', ''Route'', ''Query'', ''SecretRef'', ''CallExpression'',
         ''Assignment'', ''Reference'', ''Literal'', ''Expression'', ''ControlFlowBlock'',
         ''ExceptionFlow'', ''Query'', ''SecretRef'', ''DocumentationSource'',
         ''DocumentationChunk'', ''Module'', ''ImportDeclaration'', ''ExportDeclaration''],
      rs_target_types =
        [''SyntaxCapture'']\<rparr>"

definition schema_EvidencedBy :: relation_spec where
  "schema_EvidencedBy =
     \<lparr>rs_name = ''EvidencedBy'',
      rs_source_types =
        [''Repository'', ''File'', ''Module'', ''Symbol'', ''Class'', ''Function'', ''Method'',
         ''Parameter'', ''ReturnType'', ''TypeAnnotation'', ''TypeAlias'', ''Variable'',
         ''Constant'', ''ClassAttribute'', ''InstanceAttribute'', ''Property'', ''Decorator'',
         ''Assignment'', ''APIEndpoint'', ''Component'', ''Route'', ''Query'', ''SecretRef'',
         ''CallExpression'', ''Assignment'', ''Reference'', ''Literal'', ''Expression'',
         ''ControlFlowBlock'', ''ExceptionFlow'', ''Query'', ''SecretRef'', ''Dependency'',
         ''DocumentationSource'', ''DocumentationChunk''],
      rs_target_types =
        [''SyntaxCapture'', ''File'', ''DocumentationChunk'']\<rparr>"

definition shipped_relation_types :: "relation_spec list" where
  "shipped_relation_types =
     [schema_Contains, schema_Defines, schema_Imports, schema_Exports, schema_Declares,
      schema_HasScope, schema_HasParameter, schema_HasReturnType, schema_HasTypeAnnotation, schema_Assigns,
      schema_References, schema_Calls, schema_DecoratedBy, schema_ResolvesTo, schema_DependsOn,
      schema_Documents, schema_RoutesTo, schema_Exposes, schema_ExecutesQuery, schema_UsesSecret,
      schema_Raises, schema_Handles, schema_SyntaxChild, schema_DerivedFrom, schema_EvidencedBy]"

section \<open>The policy covers the builder\<close>

lemma allows_spec:
  assumes "r \<in> set specs" and "rs_name r = name" and "name \<noteq> []"
    and "s \<in> set (rs_source_types r)" and "t \<in> set (rs_target_types r)"
  shows "allows (allowlist_of_specs specs) name s t"
  using assms by (auto simp: allows_from_specs declared_pairs_def)

lemma shipped_members:
  "schema_Contains \<in> set shipped_relation_types" "schema_HasScope \<in> set shipped_relation_types"
  "schema_Defines \<in> set shipped_relation_types" "schema_Declares \<in> set shipped_relation_types"
  "schema_DerivedFrom \<in> set shipped_relation_types" "schema_DependsOn \<in> set shipped_relation_types"
  "schema_EvidencedBy \<in> set shipped_relation_types" "schema_SyntaxChild \<in> set shipped_relation_types"
  by (simp_all add: shipped_relation_types_def)

lemma contains_tables:
  "scope_tables \<union> {''Repository'', ''SourceRoot'', ''File''} \<subseteq> set (rs_source_types schema_Contains)"
  "semantic_tables \<union> {''SourceRoot'', ''File'', ''Module'', ''Scope''} \<subseteq> set (rs_target_types schema_Contains)"
  by (simp_all add: schema_Contains_def scope_tables_def owner_tables_def semantic_tables_def)

lemma scope_relation_tables:
  "owner_tables \<subseteq> set (rs_source_types schema_HasScope)" "''Scope'' \<in> set (rs_target_types schema_HasScope)"
  "owner_tables \<subseteq> set (rs_source_types schema_Defines)" "declared_tables \<subseteq> set (rs_target_types schema_Defines)"
  "owner_tables - {''File'', ''Component''} \<subseteq> set (rs_source_types schema_Declares)"
  "declared_tables \<subseteq> set (rs_target_types schema_Declares)"
  by (auto simp: schema_HasScope_def schema_Defines_def schema_Declares_def owner_tables_def declared_tables_def)

lemma evidence_tables:
  "semantic_tables \<subseteq> set (rs_source_types schema_DerivedFrom)"
  "''SyntaxCapture'' \<in> set (rs_target_types schema_DerivedFrom)"
  "''ImportDeclaration'' \<in> set (rs_source_types schema_DependsOn)" "''Dependency'' \<in> set (rs_target_types schema_DependsOn)"
  "{''Dependency'', ''File''} \<subseteq> set (rs_source_types schema_EvidencedBy)"
  "''SyntaxCapture'' \<in> set (rs_target_types schema_EvidencedBy)"
  "''SyntaxCapture'' \<in> set (rs_source_types schema_SyntaxChild)" "''SyntaxCapture'' \<in> set (rs_target_types schema_SyntaxChild)"
  by (simp_all add: schema_DerivedFrom_def schema_DependsOn_def schema_EvidencedBy_def
      schema_SyntaxChild_def semantic_tables_def)

lemma shipped_names:
  "rs_name schema_Contains = ''Contains''" "rs_name schema_HasScope = ''HasScope''"
  "rs_name schema_Defines = ''Defines''" "rs_name schema_Declares = ''Declares''"
  "rs_name schema_DerivedFrom = ''DerivedFrom''" "rs_name schema_DependsOn = ''DependsOn''"
  "rs_name schema_EvidencedBy = ''EvidencedBy''" "rs_name schema_SyntaxChild = ''SyntaxChild''"
  by (simp_all add: schema_Contains_def schema_HasScope_def schema_Defines_def schema_Declares_def
      schema_DerivedFrom_def schema_DependsOn_def schema_EvidencedBy_def schema_SyntaxChild_def)

lemma shipped_policy_covers: "policy_covers (allows (allowlist_of_specs shipped_relation_types))"
  unfolding policy_covers_def
proof (intro conjI ballI)
  note contains = allows_spec [OF shipped_members(1) shipped_names(1)]
  show "allows (allowlist_of_specs shipped_relation_types) ''Contains'' ''Repository'' ''SourceRoot''"
    "allows (allowlist_of_specs shipped_relation_types) ''Contains'' ''SourceRoot'' ''File''"
    "allows (allowlist_of_specs shipped_relation_types) ''Contains'' ''File'' ''Module''"
    using contains_tables by (auto intro!: contains)
  show "allows (allowlist_of_specs shipped_relation_types) ''Contains'' s t"
    if "s \<in> scope_tables" "t \<in> semantic_tables" for s t
    using that contains_tables by (auto intro!: contains)
  show "allows (allowlist_of_specs shipped_relation_types) ''Contains'' s ''Scope''"
    if "s \<in> owner_tables" for s
    using that contains_tables by (auto intro!: contains simp: scope_tables_def)
  show "allows (allowlist_of_specs shipped_relation_types) ''HasScope'' s ''Scope''"
    if "s \<in> owner_tables" for s
    using that scope_relation_tables by (auto intro!: allows_spec [OF shipped_members(2) shipped_names(2)])
  show "allows (allowlist_of_specs shipped_relation_types) ''Defines'' s t"
    if "s \<in> owner_tables" "t \<in> declared_tables" for s t
    using that scope_relation_tables by (auto intro!: allows_spec [OF shipped_members(3) shipped_names(3)])
  show "allows (allowlist_of_specs shipped_relation_types) ''Declares'' s t"
    if "s \<in> owner_tables - {''File'', ''Component''}" "t \<in> declared_tables" for s t
    using that scope_relation_tables by (auto intro!: allows_spec [OF shipped_members(4) shipped_names(4)])
  show "allows (allowlist_of_specs shipped_relation_types) ''DerivedFrom'' s ''SyntaxCapture''"
    if "s \<in> semantic_tables" for s
    using that evidence_tables by (auto intro!: allows_spec [OF shipped_members(5) shipped_names(5)])
  show "allows (allowlist_of_specs shipped_relation_types) ''DependsOn'' ''ImportDeclaration'' ''Dependency''"
    using evidence_tables by (auto intro!: allows_spec [OF shipped_members(6) shipped_names(6)])
  show "allows (allowlist_of_specs shipped_relation_types) ''EvidencedBy'' ''Dependency'' ''SyntaxCapture''"
    "allows (allowlist_of_specs shipped_relation_types) ''EvidencedBy'' ''File'' ''SyntaxCapture''"
    using evidence_tables by (auto intro!: allows_spec [OF shipped_members(7) shipped_names(7)])
  show "allows (allowlist_of_specs shipped_relation_types) ''SyntaxChild'' ''SyntaxCapture'' ''SyntaxCapture''"
    using evidence_tables by (auto intro!: allows_spec [OF shipped_members(8) shipped_names(8)])
qed

end
