(* ===== verification/Hash.thy ===== *)
theory Hash
  imports Prelude
begin

text \<open>
  The stable identifiers of the graph (\<^verbatim>\<open>src/hash.rs\<close> and the copy of the same routines in
  \<^verbatim>\<open>src/syntax_materializer/ids.rs\<close>): SHA-1 over bytes, truncated to ten bytes and printed in
  hexadecimal. Words are \<open>32 word\<close>, so \<open>wrapping_add\<close> is \<open>+\<close>; the byte loops are folds over the
  ranges the code iterates, and the array of 80 words is updated in place as in the code.
  The lemmas bound every index the code uses (the padded message is a multiple of 64 bytes, a
  schedule has 80 words) and the shape of the printed identifiers.
\<close>

unbundle bit_operations_syntax

type_synonym u32 = "32 word"
type_synonym u64 = "64 word"

section \<open>Byte order\<close>

definition u32_from_be_bytes :: "char \<Rightarrow> char \<Rightarrow> char \<Rightarrow> char \<Rightarrow> u32" where
  "u32_from_be_bytes a b c d =
     push_bit 24 (of_char a) OR push_bit 16 (of_char b) OR push_bit 8 (of_char c) OR of_char d"

definition to_be_bytes :: "nat \<Rightarrow> 'a::len word \<Rightarrow> string" where
  "to_be_bytes k w = map (\<lambda>i. char_of (uint (drop_bit (8 * i) w))) (rev [0..<k])"

definition u32_to_be_bytes :: "u32 \<Rightarrow> string" where
  "u32_to_be_bytes w = to_be_bytes 4 w"

definition u64_to_be_bytes :: "u64 \<Rightarrow> string" where
  "u64_to_be_bytes w = to_be_bytes 8 w"

definition rotate_left :: "nat \<Rightarrow> u32 \<Rightarrow> u32" where
  "rotate_left n x = push_bit n x OR drop_bit (32 - n) x"

lemma length_to_be_bytes_gen [simp]: "length (to_be_bytes k w) = k"
  by (simp add: to_be_bytes_def)

lemma length_to_be_bytes [simp]:
  "length (u32_to_be_bytes w) = 4" "length (u64_to_be_bytes v) = 8"
  by (simp_all add: u32_to_be_bytes_def u64_to_be_bytes_def)

section \<open>Padding\<close>

text \<open>The loop \<open>while message.len() % 64 != 56 { message.push(0); }\<close>.\<close>

function pad_zeros :: "string \<Rightarrow> string" where
  "pad_zeros m = (if length m mod 64 = 56 then m else pad_zeros (m @ [CHR 0x00]))"
  by pat_completeness auto
termination
  by (relation "measure (\<lambda>m. if length m mod 64 \<le> 56 then 56 - length m mod 64
                             else 120 - length m mod 64)")
    (auto simp: mod_Suc)

declare pad_zeros.simps [simp del]

lemma length_pad_zeros: "length (pad_zeros m) mod 64 = 56"
  by (induction m rule: pad_zeros.induct) (metis pad_zeros.simps)

lemma pad_zeros_prefix: "\<exists>k. pad_zeros m = m @ replicate k (CHR 0x00)"
proof (induction m rule: pad_zeros.induct)
  case (1 m)
  show ?case
  proof (cases "length m mod 64 = 56")
    case True
    then show ?thesis by (intro exI [of _ 0]) (simp add: pad_zeros.simps)
  next
    case False
    then obtain k where "pad_zeros (m @ [CHR 0x00]) = (m @ [CHR 0x00]) @ replicate k (CHR 0x00)"
      using 1 by blast
    with False show ?thesis
      by (intro exI [of _ "Suc k"]) (simp add: pad_zeros.simps [of m])
  qed
qed

definition pad_message :: "string \<Rightarrow> string" where
  "pad_message input =
     pad_zeros (input @ [CHR 0x80]) @ u64_to_be_bytes (word_of_nat (length input) * 8)"

lemma length_pad_message: "64 dvd length (pad_message input)"
proof -
  define n where "n = length (pad_zeros (input @ [CHR 0x80]))"
  have "n mod 64 = 56" unfolding n_def by (rule length_pad_zeros)
  then have "64 dvd n + 8" by presburger
  then show ?thesis by (simp add: pad_message_def n_def)
qed

section \<open>One block\<close>

lemma length_chunks_dvd:
  "n dvd length xs \<Longrightarrow> c \<in> set (chunks n xs) \<Longrightarrow> length c = n"
proof (induction n xs rule: chunks.induct)
  case (1 n xs)
  show ?case
  proof (cases "n = 0 \<or> xs = []")
    case True
    with "1.prems" show ?thesis by (simp add: chunks_empty)
  next
    case False
    from "1.prems"(1) False have ge: "n \<le> length xs" by (intro dvd_imp_le) auto
    from "1.prems"(1) ge have dv: "n dvd length (drop n xs)" by simp
    from "1.prems"(2) False have "c = take n xs \<or> c \<in> set (chunks n (drop n xs))"
      by (simp add: chunks_step [of n xs])
    then show ?thesis using "1.IH" [OF False dv] ge by auto
  qed
qed

definition load_words :: "string \<Rightarrow> u32 list" where
  "load_words chunk =
     fold (\<lambda>index words. words[index :=
              u32_from_be_bytes (chunk ! (index * 4)) (chunk ! (index * 4 + 1))
                (chunk ! (index * 4 + 2)) (chunk ! (index * 4 + 3))])
       [0..<16] (replicate 80 0)"

definition extend_words :: "u32 list \<Rightarrow> u32 list" where
  "extend_words words =
     fold (\<lambda>index words. words[index :=
              rotate_left 1 (words ! (index - 3) XOR words ! (index - 8)
                             XOR words ! (index - 14) XOR words ! (index - 16))])
       [16..<80] words"

type_synonym sha1_state = "u32 \<times> u32 \<times> u32 \<times> u32 \<times> u32"

definition round_constants :: "nat \<Rightarrow> u32 \<Rightarrow> u32 \<Rightarrow> u32 \<Rightarrow> u32 \<times> u32" where
  "round_constants index b c d =
     (if index \<le> 19 then ((b AND c) OR (NOT b AND d), 0x5a827999)
      else if index \<le> 39 then (b XOR c XOR d, 0x6ed9eba1)
      else if index \<le> 59 then ((b AND c) OR (b AND d) OR (c AND d), 0x8f1bbcdc)
      else (b XOR c XOR d, 0xca62c1d6))"

fun sha1_round :: "nat \<times> u32 \<Rightarrow> sha1_state \<Rightarrow> sha1_state" where
  "sha1_round (index, word) (a, b, c, d, e) =
     (let (f, k) = round_constants index b c d;
          temp = rotate_left 5 a + f + e + k + word
      in (temp, a, rotate_left 30 b, c, d))"

fun sha1_chunk :: "string \<Rightarrow> sha1_state \<Rightarrow> sha1_state" where
  "sha1_chunk chunk (h0, h1, h2, h3, h4) =
     (let words = extend_words (load_words chunk);
          (a, b, c, d, e) = fold sha1_round (enumerate 0 words) (h0, h1, h2, h3, h4)
      in (h0 + a, h1 + b, h2 + c, h3 + d, h4 + e))"

definition sha1_init :: sha1_state where
  "sha1_init = (0x67452301, 0xefcdab89, 0x98badcfe, 0x10325476, 0xc3d2e1f0)"

definition sha1 :: "string \<Rightarrow> string" where
  "sha1 input =
     (let (h0, h1, h2, h3, h4) = fold sha1_chunk (chunks 64 (pad_message input)) sha1_init
      in u32_to_be_bytes h0 @ u32_to_be_bytes h1 @ u32_to_be_bytes h2
         @ u32_to_be_bytes h3 @ u32_to_be_bytes h4)"

lemma length_fold_update [simp]:
  "length (fold (\<lambda>i ws. ws[i := f i ws]) is xs) = length xs"
  by (induction "is" arbitrary: xs) auto

lemma length_sha1 [simp]: "length (sha1 input) = 20"
  by (simp add: sha1_def split: prod.splits)

section \<open>Printing\<close>

definition hex_chars :: string where
  "hex_chars = ''0123456789abcdef''"

definition hex_digit :: "nat \<Rightarrow> char" where
  "hex_digit d = hex_chars ! d"

definition hex_lower :: "string \<Rightarrow> string" where
  "hex_lower bytes =
     concat (map (\<lambda>b. [hex_digit (byte_of b div 16), hex_digit (byte_of b mod 16)]) bytes)"

definition sha1_hex :: "string \<Rightarrow> string" where
  "sha1_hex bytes = hex_lower (take 10 (sha1 bytes))"

definition partition_id :: "string \<Rightarrow> string" where
  "partition_id path = sha1_hex path"

text \<open>\<open>graph_id\<close> of \<^verbatim>\<open>ids.rs\<close>: the table, a colon, and the digest of the canonical key.\<close>

definition graph_id :: "string \<Rightarrow> string \<Rightarrow> string" where
  "graph_id prefix val = prefix @ '':'' @ sha1_hex val"

lemma length_hex_lower [simp]: "length (hex_lower bs) = 2 * length bs"
  by (induction bs) (auto simp: hex_lower_def)

lemma length_sha1_hex: "length (sha1_hex bs) = 20"
  by (simp add: sha1_hex_def)

lemma byte_of_lt: "byte_of c < 256"
  using nat_of_char_less_256 [of c] by simp

lemma nibbles_lt: "byte_of c div 16 < 16" "byte_of c mod 16 < 16"
  using byte_of_lt [of c] by (simp_all add: less_mult_imp_div_less)

lemma hex_digit_range: "d < 16 \<Longrightarrow> hex_digit d \<in> set hex_chars"
  unfolding hex_digit_def by (rule nth_mem) (simp add: hex_chars_def)

lemma set_hex_lower: "set (hex_lower bs) \<subseteq> set hex_chars"
  by (auto simp: hex_lower_def intro!: hex_digit_range nibbles_lt)

text \<open>An identifier determines the table it was made for: table names have no colon.\<close>

lemma graph_id_table:
  "CHR '':'' \<notin> set p \<Longrightarrow> CHR '':'' \<notin> set p' \<Longrightarrow> graph_id p v = graph_id p' v' \<Longrightarrow> p = p'"
  using append_sep_eq [of "CHR '':''" p p' "sha1_hex v" "sha1_hex v'"]
  by (simp add: graph_id_def)

end
