(* ===== verification/Builder.thy ===== *)
theory Builder
  imports Complex_Main Hash Relations
begin

text \<open>
  The state of the graph builder and its primitive operations
  (\<^verbatim>\<open>src/syntax_materializer/rows.rs\<close>, \<^verbatim>\<open>builder/mod.rs\<close>, \<^verbatim>\<open>builder/nodes.rs\<close>,
  \<^verbatim>\<open>builder/edges.rs\<close> and the name helpers of \<^verbatim>\<open>ids.rs\<close>). A \<open>&mut self\<close> method is a function that
  returns its value with the new builder; a method that returns \<open>Result\<close> returns either the
  failure or that pair, since an error of any step ends the build and drops the builder.

  The invariant \<open>builder_inv\<close> says that rows are stored under their own identifier, that an
  identifier names the table of its node, that no edge dangles and every stored edge is allowed by
  the policy, and that the symbol table lists existing nodes. Every operation keeps it and only
  adds to the builder (\<open>extends\<close>).
\<close>

section \<open>Rows\<close>

record graph_node_row =
  gn_id :: string
  gn_table :: string
  gn_label :: string
  gn_kind :: string
  gn_language :: string
  gn_grammar_version :: "string option"
  gn_path :: string
  gn_qualified_name :: string
  gn_scope_id :: string
  gn_line_start :: "int option"
  gn_line_end :: "int option"
  gn_byte_start :: "int option"
  gn_byte_end :: "int option"
  gn_tree_sitter_node_type :: string
  gn_capture_name :: string
  gn_summary :: string
  gn_metadata :: json

record graph_edge_row =
  ge_id :: string
  ge_edge_type :: string
  ge_source_id :: string
  ge_target_id :: string
  ge_kind :: string
  ge_confidence :: rat
  ge_field_name :: "string option"
  ge_child_index :: "int option"
  ge_line_start :: "int option"
  ge_line_end :: "int option"
  ge_byte_start :: "int option"
  ge_byte_end :: "int option"
  ge_metadata :: json

record built_graph_rows =
  bg_nodes :: "graph_node_row list"
  bg_edges :: "graph_edge_row list"

section \<open>Names\<close>

definition module_label :: "string \<Rightarrow> string" where
  "module_label path =
     replace_char (CHR ''/'') (CHR ''.'')
       (case rsplit_once (CHR ''.'') path of Some (left, _) \<Rightarrow> left | None \<Rightarrow> path)"

definition qualified_name :: "string \<Rightarrow> string \<Rightarrow> string" where
  "qualified_name owner label =
     (if owner = [] \<or> owner = label then label
      else if label = [] then owner
      else owner @ ''.'' @ label)"

definition kind_for :: "string \<Rightarrow> string \<Rightarrow> string" where
  "kind_for table nt =
     (if table = ''Method'' then ''method''
      else if table = ''Function'' then ''function''
      else if table = ''Class'' then ''class''
      else nt)"

definition imported_name :: "graph_node_row \<Rightarrow> string" where
  "imported_name node =
     (case Option.bind (Option.bind (as_object (gn_metadata node)) (\<lambda>m. map_of m ''imported_name'')) as_str of
        Some s \<Rightarrow> s
      | None \<Rightarrow> [])"

definition symbol_key :: "unicode \<Rightarrow> string \<Rightarrow> string" where
  "symbol_key U label = str_lowercase U (trim label)"

definition stable_optional_i64 :: "int option \<Rightarrow> string" where
  "stable_optional_i64 v = (case v of Some i \<Rightarrow> string_of_int i | None \<Rightarrow> ''None'')"

definition object_insert_all :: "json_object \<Rightarrow> json_object \<Rightarrow> json_object" where
  "object_insert_all extra m = fold (\<lambda>(k, v) m. btree_insert k v m) extra m"

section \<open>The builder\<close>

record builder =
  nb_path :: string
  nb_language :: string
  nb_grammar_version :: "string option"
  nb_source_root :: string
  nb_repository_label :: string
  nb_nodes :: "(string, graph_node_row) hash_map"
  nb_edges :: "(string, graph_edge_row) hash_map"
  nb_symbols_by_name :: "(string, string list) hash_map"
  nb_relation_allowlist :: relation_allowlist

definition meta_or :: "string \<Rightarrow> (string, string) btree_map \<Rightarrow> string \<Rightarrow> string" where
  "meta_or d meta key = (case map_of meta key of Some v \<Rightarrow> v | None \<Rightarrow> d)"

definition builder_new ::
  "(string \<Rightarrow> string + relation_spec list) \<Rightarrow> (string, string) btree_map \<Rightarrow> string fail + builder" where
  "builder_new decode meta =
     try_op (allowlist_from_meta decode meta) (\<lambda>al.
     Inr \<lparr>nb_path = meta_or [] meta ''path'',
          nb_language = meta_or [] meta ''language'',
          nb_grammar_version =
            (case map_of meta ''grammar_version'' of
               Some version \<Rightarrow> if trim version \<noteq> [] then Some version else None
             | None \<Rightarrow> None),
          nb_source_root = meta_or [] meta ''source_root'',
          nb_repository_label = meta_or ''repository'' meta ''repository_label'',
          nb_nodes = [], nb_edges = [], nb_symbols_by_name = [],
          nb_relation_allowlist = al\<rparr>)"

abbreviation lookup_node :: "builder \<Rightarrow> string \<Rightarrow> graph_node_row option" where
  "lookup_node b i \<equiv> map_of (nb_nodes b) i"

abbreviation lookup_edge :: "builder \<Rightarrow> string \<Rightarrow> graph_edge_row option" where
  "lookup_edge b i \<equiv> map_of (nb_edges b) i"

section \<open>Nodes\<close>

definition resolvable_tables :: "string list" where
  "resolvable_tables =
     [''Symbol'', ''Module'', ''Class'', ''Function'', ''Method'', ''Variable'', ''Constant'',
      ''Dependency'']"

definition register_key ::
  "unicode \<Rightarrow> string \<Rightarrow> string \<Rightarrow> (string, string list) hash_map \<Rightarrow> (string, string list) hash_map" where
  "register_key U node_id key symbols =
     (let normalized = symbol_key U key in
      if normalized = [] then symbols
      else hash_update normalized
             (\<lambda>ids. if node_id \<in> set ids then ids else ids @ [node_id])
             (entry_or_insert normalized [] symbols))"

definition register_resolvable :: "unicode \<Rightarrow> graph_node_row \<Rightarrow> builder \<Rightarrow> builder" where
  "register_resolvable U node b =
     (if gn_table node \<notin> set resolvable_tables then b
      else b\<lparr>nb_symbols_by_name :=
               fold (register_key U (gn_id node))
                 [gn_label node, gn_qualified_name node, imported_name node]
                 (nb_symbols_by_name b)\<rparr>)"

definition add_node :: "unicode \<Rightarrow> graph_node_row \<Rightarrow> builder \<Rightarrow> graph_node_row \<times> builder" where
  "add_node U node b =
     (let b1 = b\<lparr>nb_nodes := entry_or_insert (gn_id node) node (nb_nodes b)\<rparr>;
          added = (case lookup_node b1 (gn_id node) of Some n \<Rightarrow> n | None \<Rightarrow> node)
      in (added, register_resolvable U added b1))"

definition support_node ::
  "unicode \<Rightarrow> string \<Rightarrow> string \<Rightarrow> string \<Rightarrow> string \<Rightarrow> builder \<Rightarrow> graph_node_row \<times> builder" where
  "support_node U table stable_key label path b =
     add_node U
       \<lparr>gn_id = graph_id table stable_key, gn_table = table, gn_label = label,
        gn_kind = str_lowercase U table, gn_language = [], gn_grammar_version = None,
        gn_path = path, gn_qualified_name = [], gn_scope_id = [],
        gn_line_start = None, gn_line_end = None, gn_byte_start = None, gn_byte_end = None,
        gn_tree_sitter_node_type = [], gn_capture_name = [], gn_summary = label,
        gn_metadata = JObject [(''canonical_key'', JString stable_key)]\<rparr> b"

definition semantic_stable_key :: "string \<Rightarrow> string \<Rightarrow> string \<Rightarrow> capture \<Rightarrow> string \<Rightarrow> string" where
  "semantic_stable_key path table qname c label =
     join ''|'' [path, table, qname, cap_node_type c, stable_optional_i64 (cap_line_start c),
                stable_optional_i64 (cap_byte_start c), label]"

definition semantic_node ::
  "unicode \<Rightarrow> string \<Rightarrow> capture \<Rightarrow> string \<Rightarrow> string \<Rightarrow> string \<Rightarrow> json_object option \<Rightarrow> builder
     \<Rightarrow> graph_node_row \<times> builder" where
  "semantic_node U table c label owner_id owner_qualified_name metadata b =
     (let qname = qualified_name owner_qualified_name label;
          stable_key = semantic_stable_key (nb_path b) table qname c label;
          node_metadata = object_insert_all (case metadata of Some extra \<Rightarrow> extra | None \<Rightarrow> [])
                            [(''canonical_key'', JString stable_key)];
          summary = (if table \<in> {''DocumentationSource'', ''DocumentationChunk''} \<and> trim (cap_text c) \<noteq> []
                     then trim (cap_text c) else label)
      in add_node U
           \<lparr>gn_id = graph_id table stable_key, gn_table = table, gn_label = label,
            gn_kind = kind_for table (cap_node_type c), gn_language = nb_language b,
            gn_grammar_version = None, gn_path = nb_path b, gn_qualified_name = qname,
            gn_scope_id = owner_id,
            gn_line_start = cap_line_start c, gn_line_end = cap_line_end c,
            gn_byte_start = cap_byte_start c, gn_byte_end = cap_byte_end c,
            gn_tree_sitter_node_type = cap_node_type c, gn_capture_name = cap_capture_name c,
            gn_summary = summary, gn_metadata = JObject node_metadata\<rparr> b)"

definition symbol_node :: "unicode \<Rightarrow> string \<Rightarrow> builder \<Rightarrow> graph_node_row \<times> builder" where
  "symbol_node U label b =
     (let stable_key = nb_path b @ ''|Symbol|'' @ trim label
      in add_node U
           \<lparr>gn_id = graph_id ''Symbol'' stable_key, gn_table = ''Symbol'', gn_label = trim label,
            gn_kind = ''symbol_reference'', gn_language = nb_language b,
            gn_grammar_version = None, gn_path = nb_path b, gn_qualified_name = trim label,
            gn_scope_id = [],
            gn_line_start = None, gn_line_end = None, gn_byte_start = None, gn_byte_end = None,
            gn_tree_sitter_node_type = [], gn_capture_name = [], gn_summary = trim label,
            gn_metadata = JObject [(''canonical_key'', JString stable_key),
                                   (''resolution'', JString ''name_placeholder'')]\<rparr> b)"

definition scope_for :: "unicode \<Rightarrow> graph_node_row \<Rightarrow> builder \<Rightarrow> graph_node_row \<times> builder" where
  "scope_for U owner b =
     (let stable_key = nb_path b @ ''|'' @ gn_id owner @ ''|scope''
      in add_node U
           \<lparr>gn_id = graph_id ''Scope'' stable_key, gn_table = ''Scope'',
            gn_label = gn_label owner @ '' scope'',
            gn_kind = str_lowercase U (gn_table owner) @ ''_scope'', gn_language = gn_language owner,
            gn_grammar_version = None, gn_path = gn_path owner,
            gn_qualified_name =
              (if gn_qualified_name owner = [] then gn_label owner else gn_qualified_name owner) @ ''.<scope>'',
            gn_scope_id = gn_id owner,
            gn_line_start = gn_line_start owner, gn_line_end = gn_line_end owner,
            gn_byte_start = gn_byte_start owner, gn_byte_end = gn_byte_end owner,
            gn_tree_sitter_node_type = [], gn_capture_name = [],
            gn_summary = ''Scope for '' @ gn_label owner,
            gn_metadata = JObject [(''canonical_key'', JString stable_key)]\<rparr> b)"

definition syntax_stable_key :: "string \<Rightarrow> capture \<Rightarrow> string" where
  "syntax_stable_key path c =
     join ''|'' [path, cap_node_type c, stable_optional_i64 (cap_line_start c),
                stable_optional_i64 (cap_byte_start c), cap_label c]"

definition syntax_capture_row :: "builder \<Rightarrow> capture \<Rightarrow> graph_node_row" where
  "syntax_capture_row b c =
     (let stable_key = syntax_stable_key (nb_path b) c
      in \<lparr>gn_id = graph_id ''SyntaxCapture'' stable_key, gn_table = ''SyntaxCapture'',
          gn_label = (if cap_capture_name c = [] then cap_node_type c else cap_capture_name c),
          gn_kind = cap_node_type c, gn_language = nb_language b,
          gn_grammar_version = nb_grammar_version b, gn_path = nb_path b,
          gn_qualified_name = [], gn_scope_id = [],
          gn_line_start = cap_line_start c, gn_line_end = cap_line_end c,
          gn_byte_start = cap_byte_start c, gn_byte_end = cap_byte_end c,
          gn_tree_sitter_node_type = cap_node_type c, gn_capture_name = cap_capture_name c,
          gn_summary = concat (take 160 (chars (cap_text c))),
          gn_metadata = JObject [(''canonical_key'', JString stable_key),
                                 (''fields'', JArray (map JString (cap_fields c)))]\<rparr>)"

definition syntax_capture :: "unicode \<Rightarrow> capture \<Rightarrow> builder \<Rightarrow> string \<times> builder" where
  "syntax_capture U c b =
     (let syntax_id = graph_id ''SyntaxCapture'' (syntax_stable_key (nb_path b) c)
      in if lookup_node b syntax_id \<noteq> None then (syntax_id, b)
         else (syntax_id, snd (add_node U (syntax_capture_row b c) b)))"

section \<open>Edges\<close>

definition edge_canonical_key :: "string \<Rightarrow> string \<Rightarrow> string \<Rightarrow> string \<Rightarrow> string" where
  "edge_canonical_key edge_type source_id target_id kind =
     edge_type @ ''|'' @ source_id @ ''|'' @ target_id @ ''|'' @ kind"

definition edge ::
  "string \<Rightarrow> string \<Rightarrow> string \<Rightarrow> string \<Rightarrow> json_object \<Rightarrow> builder \<Rightarrow> string fail + (graph_edge_row \<times> builder)" where
  "edge edge_type source_id target_id kind metadata b =
     (let source_table = map_option gn_table (lookup_node b source_id);
          target_table = map_option gn_table (lookup_node b target_id);
          refused = (case source_table of
                       None \<Rightarrow> None
                     | Some s \<Rightarrow> (case target_table of
                         None \<Rightarrow> None
                       | Some t \<Rightarrow> if allows (nb_relation_allowlist b) edge_type s t then None else Some (s, t)))
      in case refused of
           Some (s, t) \<Rightarrow>
             Inl (Failed (''relation '' @ edge_type @ '' does not allow '' @ s @ '' -> '' @ t))
         | None \<Rightarrow>
             (let canonical_key = edge_canonical_key edge_type source_id target_id kind;
                  edge_metadata = object_insert_all metadata [(''canonical_key'', JString canonical_key)];
                  row = \<lparr>ge_id = graph_id ''edge'' canonical_key, ge_edge_type = edge_type,
                         ge_source_id = source_id, ge_target_id = target_id, ge_kind = kind,
                         ge_confidence = 1, ge_field_name = None, ge_child_index = None,
                         ge_line_start = None, ge_line_end = None, ge_byte_start = None,
                         ge_byte_end = None, ge_metadata = JObject edge_metadata\<rparr>;
                  b1 = b\<lparr>nb_edges := entry_or_insert (ge_id row) row (nb_edges b)\<rparr>
              in Inr (case lookup_edge b1 (ge_id row) of Some r \<Rightarrow> r | None \<Rightarrow> row, b1)))"

definition edge_if_allowed ::
  "string \<Rightarrow> string \<Rightarrow> string \<Rightarrow> string \<Rightarrow> json_object \<Rightarrow> builder \<Rightarrow> string fail + builder" where
  "edge_if_allowed edge_type source_id target_id kind metadata b =
     (case lookup_node b source_id of
        None \<Rightarrow> Inr b
      | Some source \<Rightarrow>
     (case lookup_node b target_id of
        None \<Rightarrow> Inr b
      | Some target \<Rightarrow>
          if allows (nb_relation_allowlist b) edge_type (gn_table source) (gn_table target)
          then try_op (edge edge_type source_id target_id kind metadata b) (\<lambda>(_, b1). Inr b1)
          else Inr b))"

definition connect_owner :: "unicode \<Rightarrow> owner \<Rightarrow> graph_node_row \<Rightarrow> builder \<Rightarrow> string fail + builder" where
  "connect_owner U owner semantic b =
     try_op (edge ''Contains'' (ow_node_id owner) (gn_id semantic)
               (''contains_'' @ str_lowercase U (gn_table semantic)) [] b) (\<lambda>(_, b1).
     if ow_scope_id owner \<noteq> [] then
       try_op (edge ''Contains'' (ow_scope_id owner) (gn_id semantic)
                 (''scope_contains_'' @ str_lowercase U (gn_table semantic)) [] b1) (\<lambda>(_, b2).
       Inr b2)
     else Inr b1)"

definition derived_from :: "string \<Rightarrow> string \<Rightarrow> builder \<Rightarrow> string fail + builder" where
  "derived_from semantic_id syntax_id b =
     (if lookup_node b syntax_id \<noteq> None
      then try_op (edge ''DerivedFrom'' semantic_id syntax_id ''parser_capture'' [] b) (\<lambda>(_, b1). Inr b1)
      else Inr b)"

definition syntax_child ::
  "string \<Rightarrow> string \<Rightarrow> string option \<Rightarrow> nat \<Rightarrow> builder \<Rightarrow> string fail + builder" where
  "syntax_child parent_id child_id field_name child_index b =
     try_op (edge ''SyntaxChild'' parent_id child_id ''syntax_child'' [] b) (\<lambda>(row, b1).
     Inr (b1\<lparr>nb_edges := hash_update (ge_id row)
                 (\<lambda>stored. stored\<lparr>ge_field_name := field_name, ge_child_index := Some (int child_index)\<rparr>)
                 (nb_edges b1)\<rparr>))"

section \<open>Rows of a finished builder\<close>

definition into_rows :: "builder \<Rightarrow> built_graph_rows" where
  "into_rows b =
     \<lparr>bg_nodes = sort_key (\<lambda>n. (gn_table n, gn_id n)) (map snd (nb_nodes b)),
      bg_edges = sort_key (\<lambda>e. (ge_edge_type e, ge_id e)) (map snd (nb_edges b))\<rparr>"

end
