(* ===== verification/BuilderInv.thy ===== *)
theory BuilderInv
  imports Builder
begin

text \<open>
  The invariant of the graph builder, the order in which a builder only grows, and the
  specification of the primitive operations in terms of both. \<open>good S b\<close> is the invariant
  together with the hypothesis (under the condition \<open>S\<close>) that the policy covers the relations
  the builder needs, so that one lemma per operation states both that it keeps the invariant and
  that it only fails when the policy is too narrow.
\<close>

section \<open>The invariant\<close>

definition node_ok :: "string \<Rightarrow> graph_node_row \<Rightarrow> bool" where
  "node_ok i n \<longleftrightarrow> gn_id n = i \<and> CHR '':'' \<notin> set (gn_table n) \<and> (\<exists>key. i = graph_id (gn_table n) key)"

definition has_table :: "builder \<Rightarrow> string \<Rightarrow> string \<Rightarrow> bool" where
  "has_table b i t \<longleftrightarrow> (\<exists>n. lookup_node b i = Some n \<and> gn_table n = t)"

definition edge_ok :: "builder \<Rightarrow> string \<Rightarrow> graph_edge_row \<Rightarrow> bool" where
  "edge_ok b i e \<longleftrightarrow> ge_id e = i
     \<and> (\<exists>s t. has_table b (ge_source_id e) s \<and> has_table b (ge_target_id e) t
           \<and> allows (nb_relation_allowlist b) (ge_edge_type e) s t)"

definition ids_ok :: "(string \<Rightarrow> bool) \<Rightarrow> string list \<Rightarrow> bool" where
  "ids_ok P ids \<longleftrightarrow> distinct ids \<and> list_all P ids"

definition symbols_ok :: "builder \<Rightarrow> bool" where
  "symbols_ok b \<longleftrightarrow>
     (\<forall>k ids. map_of (nb_symbols_by_name b) k = Some ids \<longrightarrow>
        ids_ok (\<lambda>i. lookup_node b i \<noteq> None) ids)"

definition builder_inv :: "builder \<Rightarrow> bool" where
  "builder_inv b \<longleftrightarrow>
     distinct (map fst (nb_nodes b)) \<and> distinct (map fst (nb_edges b))
     \<and> (\<forall>i n. lookup_node b i = Some n \<longrightarrow> node_ok i n)
     \<and> (\<forall>i e. lookup_edge b i = Some e \<longrightarrow> edge_ok b i e)
     \<and> symbols_ok b"

definition same_edge :: "graph_edge_row \<Rightarrow> graph_edge_row \<Rightarrow> bool" where
  "same_edge e e' \<longleftrightarrow> ge_id e' = ge_id e \<and> ge_edge_type e' = ge_edge_type e
     \<and> ge_source_id e' = ge_source_id e \<and> ge_target_id e' = ge_target_id e \<and> ge_kind e' = ge_kind e"

definition edges_kept :: "builder \<Rightarrow> builder \<Rightarrow> bool" where
  "edges_kept b b' \<longleftrightarrow>
     (\<forall>i e. lookup_edge b i = Some e \<longrightarrow> (\<exists>e'. lookup_edge b' i = Some e' \<and> same_edge e e'))"

definition nodes_kept :: "builder \<Rightarrow> builder \<Rightarrow> bool" where
  "nodes_kept b b' \<longleftrightarrow> (\<forall>i n. lookup_node b i = Some n \<longrightarrow> lookup_node b' i = Some n)"

definition extends :: "builder \<Rightarrow> builder \<Rightarrow> bool" where
  "extends b b' \<longleftrightarrow>
     nb_path b' = nb_path b \<and> nb_language b' = nb_language b
     \<and> nb_grammar_version b' = nb_grammar_version b
     \<and> nb_source_root b' = nb_source_root b \<and> nb_repository_label b' = nb_repository_label b
     \<and> nb_relation_allowlist b' = nb_relation_allowlist b
     \<and> nodes_kept b b' \<and> edges_kept b b'"

definition good :: "bool \<Rightarrow> builder \<Rightarrow> bool" where
  "good S b \<longleftrightarrow> builder_inv b \<and> (S \<longrightarrow> policy_covers (allows (nb_relation_allowlist b)))"

definition is_node :: "builder \<Rightarrow> graph_node_row \<Rightarrow> string \<Rightarrow> bool" where
  "is_node b n t \<longleftrightarrow> lookup_node b (gn_id n) = Some n \<and> gn_table n = t"

definition grown :: "bool \<Rightarrow> builder \<Rightarrow> builder \<Rightarrow> bool" where
  "grown S b b' \<longleftrightarrow> good S b' \<and> extends b b'"

section \<open>Growth\<close>

lemma same_edge_refl [simp]: "same_edge e e"
  by (simp add: same_edge_def)

lemma same_edge_trans: "same_edge e f \<Longrightarrow> same_edge f g \<Longrightarrow> same_edge e g"
  by (simp add: same_edge_def)

lemma edges_kept_trans: "edges_kept a b \<Longrightarrow> edges_kept b c \<Longrightarrow> edges_kept a c"
  unfolding edges_kept_def by (meson same_edge_trans)

lemma extends_refl [simp]: "extends b b"
  by (simp add: extends_def edges_kept_def nodes_kept_def)

lemma extends_trans: "extends a b \<Longrightarrow> extends b c \<Longrightarrow> extends a c"
  by (auto simp: extends_def nodes_kept_def intro: edges_kept_trans)

lemma extends_node: "extends b b' \<Longrightarrow> lookup_node b i = Some n \<Longrightarrow> lookup_node b' i = Some n"
  by (simp add: extends_def nodes_kept_def)

lemma grown_refl: "good S b \<Longrightarrow> grown S b b"
  by (simp add: grown_def)

lemma grown_trans: "grown S a b \<Longrightarrow> grown S b c \<Longrightarrow> grown S a c"
  by (auto simp: grown_def intro: extends_trans)

lemma grown_good: "grown S a b \<Longrightarrow> good S b"
  by (simp add: grown_def)

lemma has_table_mono: "grown S b b' \<Longrightarrow> has_table b i t \<Longrightarrow> has_table b' i t"
  unfolding has_table_def grown_def using extends_node by blast

lemma is_node_mono: "grown S b b' \<Longrightarrow> is_node b n t \<Longrightarrow> is_node b' n t"
  unfolding is_node_def grown_def using extends_node by blast

lemma is_node_table: "is_node b n t \<Longrightarrow> has_table b (gn_id n) t"
  by (auto simp: is_node_def has_table_def)

lemma lookup_mono: "grown S b b' \<Longrightarrow> lookup_node b i \<noteq> None \<Longrightarrow> lookup_node b' i \<noteq> None"
  unfolding grown_def using extends_node by blast

lemma grown_language: "grown S b b' \<Longrightarrow> nb_language b' = nb_language b"
  by (simp add: grown_def extends_def)

lemmas growth = has_table_mono is_node_mono is_node_table lookup_mono grown_good

lemma edge_ok_mono:
  assumes "edge_ok b i e" and "nb_relation_allowlist b' = nb_relation_allowlist b"
    and "\<And>i t. has_table b i t \<Longrightarrow> has_table b' i t"
  shows "edge_ok b' i e"
  using assms unfolding edge_ok_def by metis

section \<open>Adding a node\<close>

lemma register_key_ok:
  assumes m: "\<And>k ids. map_of m k = Some ids \<Longrightarrow> ids_ok P ids" and "P x"
    and eq: "map_of (register_key U x key m) k = Some ids"
  shows "ids_ok P ids"
proof (cases "symbol_key U key = [] \<or> k \<noteq> symbol_key U key")
  case True
  with eq have "map_of m k = Some ids"
    by (auto simp: register_key_def Let_def map_of_hash_update split: if_splits option.splits)
  then show ?thesis by (rule m)
next
  case False
  then have k: "k = symbol_key U key" "symbol_key U key \<noteq> []" by auto
  define old where "old = (case map_of m k of None \<Rightarrow> [] | Some ids \<Rightarrow> ids)"
  have "ids_ok P old"
    by (cases "map_of m k") (simp_all add: old_def m, simp add: ids_ok_def)
  moreover have "map_of (register_key U x key m) k = Some (if x \<in> set old then old else old @ [x])"
  proof -
    have "register_key U x key m =
        hash_update k (\<lambda>ids. if x \<in> set ids then ids else ids @ [x]) (entry_or_insert k [] m)"
      using k by (simp add: register_key_def Let_def)
    then show ?thesis
      by (cases "map_of m k") (simp_all add: map_of_hash_update old_def)
  qed
  then have "ids = (if x \<in> set old then old else old @ [x])" using eq by simp
  ultimately show ?thesis using \<open>P x\<close> by (auto simp: ids_ok_def)
qed

lemma register_keys_ok:
  assumes "\<And>k ids. map_of m k = Some ids \<Longrightarrow> ids_ok P ids" and "P x"
    and "map_of (fold (register_key U x) ks m) k = Some ids"
  shows "ids_ok P ids"
  using assms(1,3)
proof (induction ks arbitrary: m)
  case (Cons key ks)
  have "\<And>k ids. map_of (register_key U x key m) k = Some ids \<Longrightarrow> ids_ok P ids"
    by (rule register_key_ok [OF Cons.prems(1) assms(2)])
  then show ?case using Cons.prems(2) by (intro Cons.IH) auto
qed simp

lemma register_resolvable_frame [simp]:
  "nb_path (register_resolvable U n b) = nb_path b"
  "nb_language (register_resolvable U n b) = nb_language b"
  "nb_grammar_version (register_resolvable U n b) = nb_grammar_version b"
  "nb_source_root (register_resolvable U n b) = nb_source_root b"
  "nb_repository_label (register_resolvable U n b) = nb_repository_label b"
  "nb_nodes (register_resolvable U n b) = nb_nodes b"
  "nb_edges (register_resolvable U n b) = nb_edges b"
  "nb_relation_allowlist (register_resolvable U n b) = nb_relation_allowlist b"
  by (simp_all add: register_resolvable_def)

lemma symbols_ok_register:
  assumes "symbols_ok b" and "lookup_node b (gn_id n) \<noteq> None"
  shows "symbols_ok (register_resolvable U n b)"
proof (cases "gn_table n \<in> set resolvable_tables")
  case True
  show ?thesis
    unfolding symbols_ok_def
  proof (intro allI impI)
    fix k ids
    assume "map_of (nb_symbols_by_name (register_resolvable U n b)) k = Some ids"
    then have *: "map_of (fold (register_key U (gn_id n))
        [gn_label n, gn_qualified_name n, imported_name n] (nb_symbols_by_name b)) k = Some ids"
      using True by (simp only: register_resolvable_def) simp
    have "ids_ok (\<lambda>i. lookup_node b i \<noteq> None) ids"
      by (rule register_keys_ok [OF _ _ *]) (use assms in \<open>auto simp: symbols_ok_def\<close>)
    then show "ids_ok (\<lambda>i. lookup_node (register_resolvable U n b) i \<noteq> None) ids" by simp
  qed
next
  case False
  with assms(1) show ?thesis by (simp add: register_resolvable_def)
qed

lemma ids_ok_mono: "ids_ok P ids \<Longrightarrow> (\<And>i. P i \<Longrightarrow> Q i) \<Longrightarrow> ids_ok Q ids"
  by (auto simp: ids_ok_def list_all_iff)

lemma insert_node_inv:
  assumes inv: "builder_inv b" and node: "node_ok (gn_id node) node"
    and b1: "b1 = b\<lparr>nb_nodes := entry_or_insert (gn_id node) node (nb_nodes b)\<rparr>"
  shows "builder_inv b1" "extends b b1"
    "\<exists>n. lookup_node b1 (gn_id node) = Some n"
proof -
  have look: "lookup_node b1 i =
      (case lookup_node b i of None \<Rightarrow> if i = gn_id node then Some node else None | Some n \<Rightarrow> Some n)" for i
    by (simp add: b1 split: option.splits)
  have kept: "lookup_node b1 i = Some m" if "lookup_node b i = Some m" for i m
    using that by (simp add: look)
  then show ext: "extends b b1"
    by (simp add: extends_def nodes_kept_def edges_kept_def b1)
  show "\<exists>n. lookup_node b1 (gn_id node) = Some n"
    by (cases "lookup_node b (gn_id node)") (simp_all add: look)
  have "node_ok i m" if "lookup_node b1 i = Some m" for i m
    using that inv node by (cases "lookup_node b i") (auto simp: look builder_inv_def split: if_splits)
  moreover have "edge_ok b1 i e" if "lookup_edge b1 i = Some e" for i e
  proof (rule edge_ok_mono)
    show "edge_ok b i e" using that inv by (simp add: b1 builder_inv_def)
    show "nb_relation_allowlist b1 = nb_relation_allowlist b" by (simp add: b1)
    show "has_table b1 j t" if "has_table b j t" for j t
      using that kept unfolding has_table_def by blast
  qed
  moreover have "symbols_ok b1"
    unfolding symbols_ok_def
  proof (intro allI impI)
    fix k ids
    assume *: "map_of (nb_symbols_by_name b1) k = Some ids"
    have "symbols_ok b" using inv by (simp add: builder_inv_def)
    with * have "ids_ok (\<lambda>i. lookup_node b i \<noteq> None) ids"
      by (simp add: b1 symbols_ok_def)
    then show "ids_ok (\<lambda>i. lookup_node b1 i \<noteq> None) ids"
      by (rule ids_ok_mono) (use kept in blast)
  qed
  moreover have "distinct (map fst (nb_nodes b1))" "distinct (map fst (nb_edges b1))"
    using inv by (simp_all add: b1 builder_inv_def distinct_entry_or_insert)
  ultimately show "builder_inv b1" by (simp add: builder_inv_def)
qed

lemma register_inv:
  assumes "builder_inv b" and "lookup_node b (gn_id n) \<noteq> None"
  shows "builder_inv (register_resolvable U n b)" "extends b (register_resolvable U n b)"
proof -
  have "edge_ok (register_resolvable U n b) i e = edge_ok b i e" for i e
    by (simp add: edge_ok_def has_table_def)
  with assms symbols_ok_register [of b n U] show "builder_inv (register_resolvable U n b)"
    by (simp add: builder_inv_def)
  show "extends b (register_resolvable U n b)"
    by (simp add: extends_def nodes_kept_def edges_kept_def)
qed

lemma add_node_ok:
  assumes good: "good S b" and node: "node_ok (gn_id node) node"
    and eq: "add_node U node b = (n, b')"
  shows "grown S b b' \<and> is_node b' n (gn_table node) \<and> gn_id n = gn_id node"
proof -
  define b1 where "b1 = b\<lparr>nb_nodes := entry_or_insert (gn_id node) node (nb_nodes b)\<rparr>"
  have inv: "builder_inv b" using good by (simp add: good_def)
  note b1 = insert_node_inv [OF inv node b1_def]
  then obtain n' where n': "lookup_node b1 (gn_id node) = Some n'" by blast
  have "add_node U node b = (n', register_resolvable U n' b1)"
    unfolding add_node_def Let_def b1_def [symmetric] n' by simp
  with eq have n: "n = n'" and b': "b' = register_resolvable U n b1" by auto
  have n_ok: "node_ok (gn_id node) n" using n' n b1(1) by (simp add: builder_inv_def)
  then have id: "gn_id n = gn_id node" by (simp add: node_ok_def)
  have tab: "gn_table n = gn_table node"
    using n_ok node unfolding node_ok_def by (metis graph_id_table)
  have reg: "builder_inv b'" "extends b1 b'"
    unfolding b' using register_inv [OF b1(1), of n U] n' n id by simp_all
  have "extends b b'" by (rule extends_trans [OF b1(2) reg(2)])
  then have "grown S b b'"
    using good reg(1) by (simp add: grown_def good_def extends_def)
  moreover have "is_node b' n (gn_table node)"
    using extends_node [OF reg(2) n'] n id tab by (simp add: is_node_def)
  ultimately show ?thesis using id by simp
qed

section \<open>The node makers\<close>

text \<open>
  \<open>makes S f T\<close>: run on a good builder, \<open>f\<close> grows it and returns a stored node of table \<open>T\<close>.
\<close>

definition makes :: "bool \<Rightarrow> (builder \<Rightarrow> graph_node_row \<times> builder) \<Rightarrow> string \<Rightarrow> bool" where
  "makes S f T \<longleftrightarrow>
     (\<forall>b n b'. good S b \<longrightarrow> f b = (n, b') \<longrightarrow> grown S b b' \<and> is_node b' n T)"

lemma makesD:
  "makes S f T \<Longrightarrow> good S b \<Longrightarrow> f b = (n, b') \<Longrightarrow> grown S b b' \<and> is_node b' n T"
  by (simp add: makes_def)

lemma spec_makes:
  assumes "makes S f T" and "good S b"
    and "\<And>n b'. grown S b b' \<Longrightarrow> is_node b' n T \<Longrightarrow> spec S (k n b') Q"
  shows "spec S (case f b of (n, b') \<Rightarrow> k n b') Q"
  using makesD [OF assms(1,2)] assms(3) by (cases "f b") simp

lemma node_ok_graph_id: "CHR '':'' \<notin> set (gn_table n) \<Longrightarrow> gn_id n = graph_id (gn_table n) key \<Longrightarrow> node_ok (gn_id n) n"
  by (auto simp: node_ok_def)

lemma support_node_makes: "CHR '':'' \<notin> set T \<Longrightarrow> makes S (support_node U T key label path) T"
  unfolding makes_def support_node_def
  by (auto dest!: add_node_ok [rotated 2] intro!: node_ok_graph_id)

lemma semantic_node_makes:
  "CHR '':'' \<notin> set T \<Longrightarrow> makes S (semantic_node U T c label oid oqn md) T"
  unfolding makes_def semantic_node_def Let_def
  by (auto dest!: add_node_ok [rotated 2] intro!: node_ok_graph_id)

lemma symbol_node_makes: "makes S (symbol_node U label) ''Symbol''"
  unfolding makes_def symbol_node_def Let_def
  by (auto dest!: add_node_ok [rotated 2] intro!: node_ok_graph_id)

lemma scope_for_makes: "makes S (scope_for U owner) ''Scope''"
  unfolding makes_def scope_for_def Let_def
  by (auto dest!: add_node_ok [rotated 2] intro!: node_ok_graph_id)

lemma builder_inv_node: "builder_inv b \<Longrightarrow> lookup_node b i = Some n \<Longrightarrow> node_ok i n"
  by (simp add: builder_inv_def)

lemma syntax_capture_ok:
  assumes "good S b" and "syntax_capture U c b = (i, b')"
  shows "grown S b b' \<and> has_table b' i ''SyntaxCapture''"
proof (cases "lookup_node b i")
  case None
  let ?row = "syntax_capture_row b c"
  obtain n b1 where add: "add_node U ?row b = (n, b1)" by fastforce
  have row: "gn_table ?row = ''SyntaxCapture''"
    "gn_id ?row = graph_id ''SyntaxCapture'' (syntax_stable_key (nb_path b) c)"
    by (simp_all add: syntax_capture_row_def Let_def)
  from None assms(2) add have i: "i = gn_id ?row" and b': "b' = b1"
    by (auto simp: syntax_capture_def Let_def row split: if_splits)
  have "node_ok (gn_id ?row) ?row" by (rule node_ok_graph_id) (simp_all add: row)
  from add_node_ok [OF assms(1) this add] have "grown S b b1" "is_node b1 n ''SyntaxCapture''" "gn_id n = i"
    by (simp_all add: row(1) i)
  then show ?thesis using is_node_table [of b1 n] by (simp add: b')
next
  case (Some n)
  then have i: "i = graph_id ''SyntaxCapture'' (syntax_stable_key (nb_path b) c)" and "b' = b"
    using assms(2) by (auto simp: syntax_capture_def Let_def split: if_splits)
  have "node_ok i n" using assms(1) Some by (auto simp: good_def intro: builder_inv_node)
  then obtain k where "CHR '':'' \<notin> set (gn_table n)" "i = graph_id (gn_table n) k"
    unfolding node_ok_def by blast
  then have "gn_table n = ''SyntaxCapture''"
    using i graph_id_table [of "gn_table n" "''SyntaxCapture''" k "syntax_stable_key (nb_path b) c"]
    by simp
  then show ?thesis using assms(1) Some \<open>b' = b\<close> by (auto simp: has_table_def grown_refl)
qed

lemma spec_syntax_capture:
  assumes "good S b"
    and "\<And>i b'. grown S b b' \<Longrightarrow> has_table b' i ''SyntaxCapture'' \<Longrightarrow> spec S (k i b') Q"
  shows "spec S (case syntax_capture U c b of (i, b') \<Rightarrow> k i b') Q"
  using syntax_capture_ok [OF assms(1)] assms(2) by (cases "syntax_capture U c b") simp

section \<open>Edges\<close>

lemma edge_update_inv:
  assumes good: "good S b"
    and edges: "distinct (map fst es)"
    and ok: "\<And>i e. map_of es i = Some e \<Longrightarrow> edge_ok b i e"
    and kept: "\<And>i e. lookup_edge b i = Some e \<Longrightarrow> \<exists>e'. map_of es i = Some e' \<and> same_edge e e'"
  shows "grown S b (b\<lparr>nb_edges := es\<rparr>)"
proof -
  let ?b = "b\<lparr>nb_edges := es\<rparr>"
  have inv: "builder_inv b" using good by (simp add: good_def)
  have same: "edge_ok ?b i e = edge_ok b i e" for i e by (simp add: edge_ok_def has_table_def)
  have "symbols_ok ?b = symbols_ok b" by (simp add: symbols_ok_def)
  with inv edges ok same have "builder_inv ?b" by (simp add: builder_inv_def)
  moreover have "extends b ?b" using kept by (simp add: extends_def nodes_kept_def edges_kept_def)
  ultimately show ?thesis using good by (simp add: grown_def good_def)
qed

lemma edge_spec:
  assumes good: "good S b" and s: "has_table b s sT" and t: "has_table b t tT"
    and al: "S \<Longrightarrow> allows (nb_relation_allowlist b) ty sT tT"
  shows "spec S (edge ty s t k m b) (\<lambda>(row, b'). grown S b b' \<and> lookup_edge b' (ge_id row) = Some row)"
proof (cases "allows (nb_relation_allowlist b) ty sT tT")
  case False
  from s t obtain sn tn where "lookup_node b s = Some sn" "gn_table sn = sT"
    "lookup_node b t = Some tn" "gn_table tn = tT" by (auto simp: has_table_def)
  with False al show ?thesis by (auto simp: edge_def Let_def)
next
  case True
  from s t obtain sn tn where st: "lookup_node b s = Some sn" "gn_table sn = sT"
    "lookup_node b t = Some tn" "gn_table tn = tT" by (auto simp: has_table_def)
  define key where "key = edge_canonical_key ty s t k"
  define row where "row = \<lparr>ge_id = graph_id ''edge'' key, ge_edge_type = ty, ge_source_id = s,
    ge_target_id = t, ge_kind = k, ge_confidence = 1, ge_field_name = None, ge_child_index = None,
    ge_line_start = None, ge_line_end = None, ge_byte_start = None, ge_byte_end = None,
    ge_metadata = JObject (object_insert_all m [(''canonical_key'', JString key)])\<rparr>"
  define b1 where "b1 = b\<lparr>nb_edges := entry_or_insert (ge_id row) row (nb_edges b)\<rparr>"
  have inv: "builder_inv b" using good by (simp add: good_def)
  have look: "lookup_edge b1 i = (case lookup_edge b i of
      None \<Rightarrow> if i = ge_id row then Some row else None | Some e \<Rightarrow> Some e)" for i
    by (simp add: b1_def split: option.splits)
  have row_ok: "edge_ok b (ge_id row) row"
    using s t True by (auto simp: edge_ok_def row_def)
  have "grown S b b1"
    unfolding b1_def
  proof (rule edge_update_inv [OF good])
    show "distinct (map fst (entry_or_insert (ge_id row) row (nb_edges b)))"
      using inv by (simp add: builder_inv_def distinct_entry_or_insert)
    show "edge_ok b i e" if "map_of (entry_or_insert (ge_id row) row (nb_edges b)) i = Some e" for i e
      using that inv row_ok by (auto simp: builder_inv_def split: option.splits if_splits)
    show "\<exists>e'. map_of (entry_or_insert (ge_id row) row (nb_edges b)) i = Some e' \<and> same_edge e e'"
      if "lookup_edge b i = Some e" for i e
      using that by (auto split: option.splits)
  qed
  moreover obtain r where r: "lookup_edge b1 (ge_id row) = Some r"
    by (cases "lookup_edge b (ge_id row)") (simp_all add: look)
  moreover have "ge_id r = ge_id row"
  proof -
    have "builder_inv b1" using \<open>grown S b b1\<close> by (simp add: grown_def good_def)
    then have "edge_ok b1 (ge_id row) r" using r by (simp add: builder_inv_def)
    then show ?thesis by (simp add: edge_ok_def)
  qed
  moreover have "edge ty s t k m b = Inr (r, b1)"
    using st True r unfolding edge_def Let_def row_def b1_def key_def by simp
  ultimately show ?thesis by simp
qed

lemma edge_if_allowed_spec:
  assumes "good S b"
  shows "spec S (edge_if_allowed ty s t k m b) (grown S b)"
proof (cases "lookup_node b s = None \<or> lookup_node b t = None")
  case True
  with assms show ?thesis
    by (auto simp: edge_if_allowed_def grown_refl split: option.splits)
next
  case False
  then obtain sn tn where st: "lookup_node b s = Some sn" "lookup_node b t = Some tn" by auto
  show ?thesis
  proof (cases "allows (nb_relation_allowlist b) ty (gn_table sn) (gn_table tn)")
    case True
    have "spec S (edge ty s t k m b) (\<lambda>(row, b'). grown S b b' \<and> lookup_edge b' (ge_id row) = Some row)"
      by (rule edge_spec [OF assms, of _ "gn_table sn" _ "gn_table tn"])
        (use st True in \<open>auto simp: has_table_def\<close>)
    with st True show ?thesis
      by (auto simp: edge_if_allowed_def intro!: spec_try)
  next
    case False
    with st assms show ?thesis by (simp add: edge_if_allowed_def grown_refl)
  qed
qed

text \<open>The policy facts, one rule per kind of edge the builder insists on.\<close>

lemma covers_good: "good S b \<Longrightarrow> S \<Longrightarrow> policy_covers (allows (nb_relation_allowlist b))"
  by (simp add: good_def)

lemma covers_contains:
  "policy_covers allow \<Longrightarrow> s \<in> owner_tables \<or> s = ''Scope'' \<Longrightarrow> t \<in> semantic_tables \<Longrightarrow> allow ''Contains'' s t"
  unfolding policy_covers_def scope_tables_def by blast

lemma covers_scope:
  "policy_covers allow \<Longrightarrow> s \<in> owner_tables \<Longrightarrow> allow ''Contains'' s ''Scope''"
  "policy_covers allow \<Longrightarrow> s \<in> owner_tables \<Longrightarrow> allow ''HasScope'' s ''Scope''"
  unfolding policy_covers_def by blast+

lemma covers_derived: "policy_covers allow \<Longrightarrow> s \<in> semantic_tables \<Longrightarrow> allow ''DerivedFrom'' s ''SyntaxCapture''"
  unfolding policy_covers_def by blast

lemma covers_defines:
  "policy_covers allow \<Longrightarrow> s \<in> owner_tables \<Longrightarrow> t \<in> declared_tables \<Longrightarrow> allow ''Defines'' s t"
  "policy_covers allow \<Longrightarrow> s \<in> owner_tables - {''File'', ''Component''} \<Longrightarrow> t \<in> declared_tables
     \<Longrightarrow> allow ''Declares'' s t"
  unfolding policy_covers_def by blast+

lemma covers_fixed:
  "policy_covers allow \<Longrightarrow> allow ''Contains'' ''Repository'' ''SourceRoot''"
  "policy_covers allow \<Longrightarrow> allow ''Contains'' ''SourceRoot'' ''File''"
  "policy_covers allow \<Longrightarrow> allow ''Contains'' ''File'' ''Module''"
  "policy_covers allow \<Longrightarrow> allow ''DependsOn'' ''ImportDeclaration'' ''Dependency''"
  "policy_covers allow \<Longrightarrow> allow ''EvidencedBy'' ''Dependency'' ''SyntaxCapture''"
  "policy_covers allow \<Longrightarrow> allow ''EvidencedBy'' ''File'' ''SyntaxCapture''"
  "policy_covers allow \<Longrightarrow> allow ''SyntaxChild'' ''SyntaxCapture'' ''SyntaxCapture''"
  unfolding policy_covers_def by blast+

section \<open>Owners\<close>

definition owner_ok :: "builder \<Rightarrow> owner \<Rightarrow> bool" where
  "owner_ok b w \<longleftrightarrow> ow_table w \<in> owner_tables \<and> has_table b (ow_node_id w) (ow_table w)
     \<and> (ow_scope_id w \<noteq> [] \<longrightarrow> has_table b (ow_scope_id w) ''Scope'')"

lemma owner_ok_mono: "grown S b b' \<Longrightarrow> owner_ok b w \<Longrightarrow> owner_ok b' w"
  by (auto simp: owner_ok_def intro: has_table_mono)

lemma edge_try:
  assumes "good S b" and "has_table b s sT" and "has_table b t tT"
    and "S \<Longrightarrow> allows (nb_relation_allowlist b) ty sT tT"
    and "\<And>row b'. grown S b b' \<Longrightarrow> lookup_edge b' (ge_id row) = Some row \<Longrightarrow> spec S (k (row, b')) Q"
  shows "spec S (try_op (edge ty s t kd m b) k) Q"
  using edge_spec [OF assms(1-4)] assms(5) by (auto intro!: spec_try)

lemma edge_if_allowed_try:
  assumes "good S b" and "\<And>b'. grown S b b' \<Longrightarrow> spec S (k b') Q"
  shows "spec S (try_op (edge_if_allowed ty s t kd m b) k) Q"
  by (rule spec_try [OF edge_if_allowed_spec [OF assms(1)]]) (rule assms(2))

lemma connect_owner_spec:
  assumes good: "good S b" and w: "owner_ok b w" and n: "is_node b n T" and T: "T \<in> semantic_tables"
  shows "spec S (connect_owner U w n b) (grown S b)"
  unfolding connect_owner_def
proof (rule edge_try [OF good, of _ "ow_table w" _ T])
  show "has_table b (ow_node_id w) (ow_table w)" using w by (simp add: owner_ok_def)
  show "has_table b (gn_id n) T" using n by (rule is_node_table)
  show "allows (nb_relation_allowlist b) ''Contains'' (ow_table w) T" if S
    using covers_contains [OF covers_good [OF good that]] w T by (simp add: owner_ok_def)
  fix row b1
  assume g: "grown S b b1"
  have "spec S (try_op (edge ''Contains'' (ow_scope_id w) (gn_id n)
      (''scope_contains_'' @ str_lowercase U (gn_table n)) [] b1) (\<lambda>(_, b2). Inr b2)) (grown S b)"
    if ne: "ow_scope_id w \<noteq> []"
  proof (rule edge_try [OF grown_good [OF g], of _ "''Scope''" _ T])
    show "has_table b1 (ow_scope_id w) ''Scope''"
      using w ne g by (auto simp: owner_ok_def intro: has_table_mono)
    show "has_table b1 (gn_id n) T" using is_node_table [OF n] g by (rule has_table_mono [rotated])
    show "allows (nb_relation_allowlist b1) ''Contains'' ''Scope'' T" if S
      using covers_contains [OF covers_good [OF grown_good [OF g] that]] T by simp
    show "spec S (case (row, b2) of (_, b2) \<Rightarrow> Inr b2) (grown S b)" if "grown S b1 b2" for row b2
      using grown_trans [OF g that] by simp
  qed
  then show "spec S (case (row, b1) of (_, b1) \<Rightarrow>
      if ow_scope_id w \<noteq> [] then try_op (edge ''Contains'' (ow_scope_id w) (gn_id n)
        (''scope_contains_'' @ str_lowercase U (gn_table n)) [] b1) (\<lambda>(_, b2). Inr b2) else Inr b1)
      (grown S b)"
    using g by simp
qed

lemma derived_from_spec:
  assumes good: "good S b" and n: "has_table b i T" and T: "T \<in> semantic_tables"
    and syn: "has_table b j ''SyntaxCapture''"
  shows "spec S (derived_from i j b) (grown S b)"
proof -
  have "lookup_node b j \<noteq> None" using syn by (auto simp: has_table_def)
  moreover have "spec S (try_op (edge ''DerivedFrom'' i j ''parser_capture'' [] b) (\<lambda>(_, b1). Inr b1)) (grown S b)"
    by (rule edge_try [OF good n syn]) (use covers_derived [OF covers_good [OF good]] T in auto)
  ultimately show ?thesis by (simp add: derived_from_def)
qed

lemma syntax_child_spec:
  assumes good: "good S b" and p: "has_table b i ''SyntaxCapture''" and c: "has_table b j ''SyntaxCapture''"
  shows "spec S (syntax_child i j fld idx b) (grown S b)"
  unfolding syntax_child_def
proof (rule edge_try [OF good p c])
  show "allows (nb_relation_allowlist b) ''SyntaxChild'' ''SyntaxCapture'' ''SyntaxCapture''" if S
    using covers_fixed(7) [OF covers_good [OF good that]] .
  fix row b1
  assume g: "grown S b b1"
  let ?f = "\<lambda>stored. stored\<lparr>ge_field_name := fld, ge_child_index := Some (int idx)\<rparr>"
  have inv: "builder_inv b1" using g by (simp add: grown_def good_def)
  have "grown S b1 (b1\<lparr>nb_edges := hash_update (ge_id row) ?f (nb_edges b1)\<rparr>)"
  proof (rule edge_update_inv [OF grown_good [OF g]])
    show "distinct (map fst (hash_update (ge_id row) ?f (nb_edges b1)))"
      using inv by (simp add: builder_inv_def)
    show "edge_ok b1 i e" if "map_of (hash_update (ge_id row) ?f (nb_edges b1)) i = Some e" for i e
    proof -
      from that obtain e0 where "lookup_edge b1 i = Some e0" and "same_edge e0 e"
        by (auto simp: map_of_hash_update same_edge_def split: if_splits)
      then show ?thesis using inv by (auto simp: builder_inv_def edge_ok_def same_edge_def)
    qed
    show "\<exists>e'. map_of (hash_update (ge_id row) ?f (nb_edges b1)) i = Some e' \<and> same_edge e e'"
      if "lookup_edge b1 i = Some e" for i e
      using that by (auto simp: map_of_hash_update same_edge_def)
  qed
  then show "spec S (case (row, b1) of (row, b1) \<Rightarrow> Inr (b1\<lparr>nb_edges := hash_update (ge_id row) ?f (nb_edges b1)\<rparr>))
      (grown S b)"
    using grown_trans [OF g] by simp
qed

end
