(* ===== verification/Semantic.thy ===== *)
theory Semantic
  imports BuilderInv
begin

text \<open>
  What the builder emits for one node of the syntax tree
  (\<^verbatim>\<open>src/syntax_materializer/builder/semantic.rs\<close>): imports, assignments, parameters, return
  types, type annotations, declarations, calls, references and the rest, each with its edges to the
  owner, to the syntax capture it derives from and to the nodes its label resolves to. One
  specification per operation: on a good builder, with an owner that exists, it only adds to the
  builder, keeps the invariant, returns a stored node of the table it names, and cannot fail when
  the policy covers the relations of \<open>policy_covers\<close>.
\<close>

section \<open>References\<close>

definition symbols_for :: "unicode \<Rightarrow> builder \<Rightarrow> string \<Rightarrow> graph_node_row option" where
  "symbols_for U b candidate =
     (case map_of (nb_symbols_by_name b) (symbol_key U candidate) of
        None \<Rightarrow> None
      | Some ids \<Rightarrow>
          (case List.map_filter (lookup_node b) (rev ids) of
             [] \<Rightarrow> None
           | node # _ \<Rightarrow> Some node))"

definition resolve_reference_target ::
  "unicode \<Rightarrow> string \<Rightarrow> builder \<Rightarrow> graph_node_row option \<times> builder" where
  "resolve_reference_target U label b =
     (let reference_label = trim label;
          short = rsplit_first (CHR ''.'') reference_label
      in if reference_label = [] then (None, b)
         else case symbols_for U b reference_label of
                Some node \<Rightarrow> (Some node, b)
              | None \<Rightarrow>
             (case symbols_for U b short of
                Some node \<Rightarrow> (Some node, b)
              | None \<Rightarrow> (case symbol_node U reference_label b of (node, b1) \<Rightarrow> (Some node, b1))))"

definition reference_metadata :: "string \<Rightarrow> json_object" where
  "reference_metadata label =
     btree_of_list [(''label'', JString label), (''resolver'', JString ''label'')]"

definition emit_reference_edges ::
  "unicode \<Rightarrow> graph_node_row \<Rightarrow> string \<Rightarrow> string \<Rightarrow> builder
     \<Rightarrow> string fail + (graph_node_row option \<times> builder)" where
  "emit_reference_edges U source label kind_prefix b =
     (case resolve_reference_target U label b of
        (None, b1) \<Rightarrow> Inr (None, b1)
      | (Some target, b1) \<Rightarrow>
          if gn_id target = gn_id source then Inr (None, b1)
          else
            try_op (edge_if_allowed ''References'' (gn_id source) (gn_id target)
                      (kind_prefix @ ''_reference'') (reference_metadata label) b1) (\<lambda>b2.
            try_op (edge_if_allowed ''ResolvesTo'' (gn_id source) (gn_id target)
                      (kind_prefix @ ''_resolution'') (reference_metadata label) b2) (\<lambda>b3.
            Inr (Some target, b3))))"

section \<open>Type annotations\<close>

definition emit_type_annotation_capture ::
  "unicode \<Rightarrow> capture \<Rightarrow> string \<Rightarrow> string \<Rightarrow> builder \<Rightarrow> string fail + (graph_node_row \<times> builder)" where
  "emit_type_annotation_capture U c owner_id owner_qualified_name b =
     (case syntax_capture U c b of (syntax_id, b1) \<Rightarrow>
      case semantic_node U ''TypeAnnotation'' c (cap_label c) owner_id owner_qualified_name None b1 of
        (type_node, b2) \<Rightarrow>
      try_op (emit_reference_edges U type_node (gn_label type_node) ''type_annotation'' b2) (\<lambda>(_, b3).
      try_op (derived_from (gn_id type_node) syntax_id b3) (\<lambda>b4.
      Inr (type_node, b4))))"

definition annotation_capture :: "string \<Rightarrow> capture \<Rightarrow> capture" where
  "annotation_capture label source_capture =
     \<lparr>cap_capture_name = ''type.annotation'', cap_node_type = ''type'', cap_label = label,
      cap_text = label,
      cap_line_start = cap_line_start source_capture, cap_line_end = cap_line_end source_capture,
      cap_byte_start = cap_byte_start source_capture, cap_byte_end = cap_byte_end source_capture,
      cap_fields = []\<rparr>"

definition emit_type_annotation_label ::
  "unicode \<Rightarrow> string \<Rightarrow> capture \<Rightarrow> string \<Rightarrow> string \<Rightarrow> builder
     \<Rightarrow> string fail + (graph_node_row \<times> builder)" where
  "emit_type_annotation_label U label source_capture owner_id owner_qualified_name b =
     (let c = annotation_capture label source_capture in
      case syntax_capture U c b of (syntax_id, b1) \<Rightarrow>
      case semantic_node U ''TypeAnnotation'' c (cap_label c) owner_id owner_qualified_name None b1 of
        (type_node, b2) \<Rightarrow>
      try_op (emit_reference_edges U type_node (gn_label type_node) ''type_annotation'' b2) (\<lambda>(_, b3).
      try_op (derived_from (gn_id type_node) syntax_id b3) (\<lambda>b4.
      Inr (type_node, b4))))"

section \<open>Imports, declarations, calls, references\<close>

definition import_source_id :: "owner \<Rightarrow> string" where
  "import_source_id owner =
     (if ow_table owner \<in> {''Repository'', ''SourceRoot'', ''File'', ''Module'', ''Class'',
           ''Function'', ''Method'', ''Component''}
      then ow_node_id owner else ow_scope_id owner)"

definition emit_import ::
  "unicode \<Rightarrow> capture \<Rightarrow> owner \<Rightarrow> string \<Rightarrow> builder \<Rightarrow> string fail + (graph_node_row \<times> builder)" where
  "emit_import U c owner syntax_id b =
     (let imported = cap_label c in
      case semantic_node U ''ImportDeclaration'' c imported (ow_node_id owner) []
             (Some [(''imported_name'', JString imported)]) b of (semantic, b1) \<Rightarrow>
      try_op (connect_owner U owner semantic b1) (\<lambda>b2.
      try_op (edge_if_allowed ''Imports'' (import_source_id owner) (gn_id semantic)
                ''declares_import'' [] b2) (\<lambda>b3.
      try_op (derived_from (gn_id semantic) syntax_id b3) (\<lambda>b4.
      if imported = [] then Inr (semantic, b4)
      else
        case support_node U ''Dependency'' imported imported (nb_path b4) b4 of (dependency, b5) \<Rightarrow>
        try_op (edge ''DependsOn'' (gn_id semantic) (gn_id dependency) ''import_dependency'' [] b5) (\<lambda>(_, b6).
        try_op (edge ''EvidencedBy'' (gn_id dependency) syntax_id ''parser_evidence'' [] b6) (\<lambda>(_, b7).
        Inr (semantic, b7)))))))"

definition emit_tree_import ::
  "unicode \<Rightarrow> arena_node \<Rightarrow> owner \<Rightarrow> string \<Rightarrow> builder \<Rightarrow> string fail + (graph_node_row \<times> builder)" where
  "emit_tree_import U node owner syntax_id b =
     (let c = tree_capture node;
          c1 = (if nb_language b = ''python'' then c\<lparr>cap_capture_name := []\<rparr> else c);
          c2 = (case import_label node of Some label \<Rightarrow> c1\<lparr>cap_label := label\<rparr> | None \<Rightarrow> c1)
      in emit_import U c2 owner syntax_id b)"

definition emit_declaration ::
  "unicode \<Rightarrow> string \<Rightarrow> capture \<Rightarrow> owner \<Rightarrow> string \<Rightarrow> builder \<Rightarrow> string fail + (graph_node_row \<times> builder)" where
  "emit_declaration U table c owner syntax_id b =
     (case semantic_node U table c (cap_label c) (ow_node_id owner) (ow_qualified_name owner) None b of
        (semantic, b1) \<Rightarrow>
      try_op (connect_owner U owner semantic b1) (\<lambda>b2.
      try_op (edge ''Defines'' (ow_node_id owner) (gn_id semantic)
                (''defines_'' @ str_lowercase U table) [] b2) (\<lambda>(_, b3).
      try_op (if ow_table owner \<in> {''Module'', ''Scope'', ''Class'', ''Function'', ''Method''} then
                try_op (edge ''Declares'' (ow_node_id owner) (gn_id semantic)
                          (''declares_'' @ str_lowercase U table) [] b3) (\<lambda>(_, b4). Inr b4)
              else Inr b3) (\<lambda>b4.
      try_op (derived_from (gn_id semantic) syntax_id b4) (\<lambda>b5.
      Inr (semantic, b5))))))"

definition emit_call ::
  "unicode \<Rightarrow> capture \<Rightarrow> owner \<Rightarrow> string \<Rightarrow> builder \<Rightarrow> string fail + (graph_node_row \<times> builder)" where
  "emit_call U c owner syntax_id b =
     (case semantic_node U ''CallExpression'' c (cap_label c) (ow_node_id owner)
             (ow_qualified_name owner) None b of (call, b1) \<Rightarrow>
      try_op (connect_owner U owner call b1) (\<lambda>b2.
      try_op (if ow_table owner \<in> {''Function'', ''Method'', ''APIEndpoint'', ''Route'', ''Component''} then
                edge_if_allowed ''Calls'' (ow_node_id owner) (gn_id call) ''body_call'' [] b2
              else Inr b2) (\<lambda>b3.
      try_op (emit_reference_edges U call (gn_label call) ''call'' b3) (\<lambda>(resolved, b4).
      try_op (case resolved of
                Some target \<Rightarrow> edge_if_allowed ''Calls'' (gn_id call) (gn_id target) ''call_target'' [] b4
              | None \<Rightarrow> Inr b4) (\<lambda>b5.
      try_op (derived_from (gn_id call) syntax_id b5) (\<lambda>b6.
      Inr (call, b6)))))))"

definition emit_reference ::
  "unicode \<Rightarrow> capture \<Rightarrow> owner \<Rightarrow> string \<Rightarrow> builder \<Rightarrow> string fail + (graph_node_row \<times> builder)" where
  "emit_reference U c owner syntax_id b =
     (case semantic_node U ''Reference'' c (cap_label c) (ow_node_id owner)
             (ow_qualified_name owner) None b of (reference, b1) \<Rightarrow>
      try_op (connect_owner U owner reference b1) (\<lambda>b2.
      try_op (emit_reference_edges U reference (gn_label reference) ''reference'' b2) (\<lambda>(_, b3).
      try_op (derived_from (gn_id reference) syntax_id b3) (\<lambda>b4.
      Inr (reference, b4)))))"

definition emit_simple_semantic ::
  "unicode \<Rightarrow> string \<Rightarrow> capture \<Rightarrow> owner \<Rightarrow> string \<Rightarrow> builder \<Rightarrow> string fail + (graph_node_row \<times> builder)" where
  "emit_simple_semantic U table c owner syntax_id b =
     (case semantic_node U table c (cap_label c) (ow_node_id owner) (ow_qualified_name owner) None b of
        (semantic, b1) \<Rightarrow>
      try_op (connect_owner U owner semantic b1) (\<lambda>b2.
      try_op (if table = ''Parameter'' then
                edge_if_allowed ''HasParameter'' (ow_node_id owner) (gn_id semantic)
                  ''captured_parameter'' [] b2
              else Inr b2) (\<lambda>b3.
      try_op (if table = ''ReturnType'' then
                try_op (edge_if_allowed ''HasReturnType'' (ow_node_id owner) (gn_id semantic)
                          ''captured_return_type'' [] b3) (\<lambda>b4.
                try_op (emit_type_annotation_label U (gn_label semantic) c (gn_id semantic)
                          (gn_qualified_name semantic) b4) (\<lambda>(type_node, b5).
                edge_if_allowed ''HasTypeAnnotation'' (gn_id semantic) (gn_id type_node)
                  ''return_type_annotation'' [] b5))
              else Inr b3) (\<lambda>b6.
      try_op (if table = ''TypeAnnotation'' then
                try_op (edge_if_allowed ''HasTypeAnnotation'' (ow_node_id owner) (gn_id semantic)
                          ''captured_type_annotation'' [] b6) (\<lambda>b7.
                try_op (emit_reference_edges U semantic (gn_label semantic) ''type_annotation'' b7)
                  (\<lambda>(_, b8). Inr b8))
              else Inr b6) (\<lambda>b9.
      try_op (if table \<in> {''DocumentationSource'', ''DocumentationChunk''} then
                try_op (edge_if_allowed ''Documents'' (gn_id semantic) (ow_node_id owner)
                          ''documents_owner'' [] b9) (\<lambda>b10.
                edge_if_allowed ''EvidencedBy'' (gn_id semantic) syntax_id ''parser_evidence'' [] b10)
              else Inr b9) (\<lambda>b11.
      try_op (derived_from (gn_id semantic) syntax_id b11) (\<lambda>b12.
      Inr (semantic, b12))))))))"

section \<open>Assignments, parameters, return types\<close>

definition emit_assignment_target ::
  "unicode \<Rightarrow> arena_nodes \<Rightarrow> arena_node \<Rightarrow> owner \<Rightarrow> string \<Rightarrow> graph_node_row \<Rightarrow> string \<Rightarrow> builder
     \<Rightarrow> string fail + builder" where
  "emit_assignment_target U nodes node owner syntax_id assignment target_label b =
     (let c = tree_capture node;
          target_table = assignment_target_table U target_label owner (cap_node_type c)
      in case semantic_node U target_table c target_label (ow_node_id owner) (ow_qualified_name owner) None b of
           (target, b1) \<Rightarrow>
         try_op (connect_owner U owner target b1) (\<lambda>b2.
         try_op (edge_if_allowed ''Defines'' (ow_node_id owner) (gn_id target)
                   (''defines_'' @ str_lowercase U target_table) [] b2) (\<lambda>b3.
         try_op (edge_if_allowed ''Assigns'' (gn_id assignment) (gn_id target)
                   ''assignment_target'' [] b3) (\<lambda>b4.
         try_op (derived_from (gn_id target) syntax_id b4) (\<lambda>b5.
         case json_field_label node ''annotation'' of
           None \<Rightarrow> Inr b5
         | Some annotation \<Rightarrow>
             try_op (emit_type_annotation_label U annotation c (gn_id target)
                       (gn_qualified_name target) b5) (\<lambda>(type_node, b6).
             edge_if_allowed ''HasTypeAnnotation'' (gn_id target) (gn_id type_node)
               ''assignment_annotation'' [] b6))))))"

definition emit_assignment_call ::
  "unicode \<Rightarrow> arena_node \<Rightarrow> owner \<Rightarrow> graph_node_row \<Rightarrow> builder \<Rightarrow> string fail + builder" where
  "emit_assignment_call U value_node owner assignment b =
     (let call_capture = tree_capture value_node in
      case syntax_capture U call_capture b of (call_syntax_id, b1) \<Rightarrow>
      try_op (emit_call U call_capture owner call_syntax_id b1) (\<lambda>(call, b2).
      edge_if_allowed ''Assigns'' (gn_id assignment) (gn_id call) ''assignment_value'' [] b2))"

definition emit_tree_assignment ::
  "unicode \<Rightarrow> arena_nodes \<Rightarrow> arena_node \<Rightarrow> owner \<Rightarrow> string \<Rightarrow> builder
     \<Rightarrow> string fail + (graph_node_row \<times> builder)" where
  "emit_tree_assignment U nodes node owner syntax_id b =
     (let c = tree_capture node;
          label = (if nb_language b = ''python'' then ''Assignment'' else cap_label c)
      in case semantic_node U ''Assignment'' c label (ow_node_id owner) (ow_qualified_name owner) None b of
           (assignment, b1) \<Rightarrow>
         try_op (connect_owner U owner assignment b1) (\<lambda>b2.
         try_op (derived_from (gn_id assignment) syntax_id b2) (\<lambda>b3.
         try_op (case assignment_target_label nodes node of
                   None \<Rightarrow> Inr b3
                 | Some target_label \<Rightarrow>
                     emit_assignment_target U nodes node owner syntax_id assignment target_label b3) (\<lambda>b4.
         try_op (case Option.bind (call_value_child nodes node) (get_node nodes) of
                   None \<Rightarrow> Inr b4
                 | Some value_node \<Rightarrow> emit_assignment_call U value_node owner assignment b4) (\<lambda>b5.
         Inr (assignment, b5))))))"

definition parameter_capture_at :: "arena_node \<Rightarrow> string \<Rightarrow> nat \<Rightarrow> capture" where
  "parameter_capture_at parameter_node language index =
     (let c = parameter_capture parameter_node language
      in if cap_label c = [] then c\<lparr>cap_label := ''param_'' @ string_of_nat index\<rparr> else c)"

definition emit_tree_parameter ::
  "unicode \<Rightarrow> arena_nodes \<Rightarrow> graph_node_row \<Rightarrow> nat \<Rightarrow> arena_node \<Rightarrow> builder \<Rightarrow> string fail + builder" where
  "emit_tree_parameter U nodes callable index parameter_node b =
     (let c = parameter_capture_at parameter_node (nb_language b) index in
      case syntax_capture U c b of (syntax_id, b1) \<Rightarrow>
      case semantic_node U ''Parameter'' c (cap_label c) (gn_id callable) (gn_qualified_name callable) None b1 of
        (parameter, b2) \<Rightarrow>
      try_op (edge_if_allowed ''HasParameter'' (gn_id callable) (gn_id parameter)
                ''callable_parameter'' [] b2) (\<lambda>b3.
      try_op (derived_from (gn_id parameter) syntax_id b3) (\<lambda>b4.
      case parameter_annotation_capture nodes parameter_node (nb_language b4) of
        None \<Rightarrow> Inr b4
      | Some annotation \<Rightarrow>
          try_op (emit_type_annotation_capture U annotation (gn_id parameter)
                    (gn_qualified_name parameter) b4) (\<lambda>(type_node, b5).
          edge_if_allowed ''HasTypeAnnotation'' (gn_id parameter) (gn_id type_node)
            ''parameter_annotation'' [] b5))))"

fun emit_parameters_from ::
  "unicode \<Rightarrow> arena_nodes \<Rightarrow> graph_node_row \<Rightarrow> nat \<Rightarrow> nat list \<Rightarrow> builder \<Rightarrow> string fail + builder" where
  "emit_parameters_from U nodes callable index [] b = Inr b"
| "emit_parameters_from U nodes callable index (parameter_id # rest) b =
     try_op (case get_node nodes parameter_id of
               None \<Rightarrow> Inr b
             | Some parameter_node \<Rightarrow> emit_tree_parameter U nodes callable index parameter_node b)
       (emit_parameters_from U nodes callable (Suc index) rest)"

definition emit_tree_parameters ::
  "unicode \<Rightarrow> arena_nodes \<Rightarrow> arena_node \<Rightarrow> graph_node_row \<Rightarrow> builder \<Rightarrow> string fail + builder" where
  "emit_tree_parameters U nodes function_node callable b =
     emit_parameters_from U nodes callable 0 (parameter_child_ids nodes function_node) b"

definition emit_tree_return_type ::
  "unicode \<Rightarrow> arena_nodes \<Rightarrow> arena_node \<Rightarrow> graph_node_row \<Rightarrow> builder \<Rightarrow> string fail + builder" where
  "emit_tree_return_type U nodes function_node callable b =
     (case return_type_capture nodes function_node (nb_language b) of
        None \<Rightarrow> Inr b
      | Some c \<Rightarrow>
          case syntax_capture U c b of (syntax_id, b1) \<Rightarrow>
          case semantic_node U ''ReturnType'' c (cap_label c) (gn_id callable) (gn_qualified_name callable) None b1 of
            (return_node, b2) \<Rightarrow>
          try_op (edge_if_allowed ''HasReturnType'' (gn_id callable) (gn_id return_node)
                    ''callable_return_type'' [] b2) (\<lambda>b3.
          try_op (emit_type_annotation_capture U c (gn_id return_node) (gn_qualified_name return_node) b3)
            (\<lambda>(type_node, b4).
          try_op (edge_if_allowed ''HasTypeAnnotation'' (gn_id return_node) (gn_id type_node)
                    ''return_type_annotation'' [] b4) (\<lambda>b5.
          derived_from (gn_id return_node) syntax_id b5))))"

section \<open>Metadata left by other parsers\<close>

definition emit_metadata_field :: "unicode \<Rightarrow> arena_node \<Rightarrow> owner \<Rightarrow> string \<Rightarrow> builder \<Rightarrow> string fail + builder" where
  "emit_metadata_field U node owner field_name b =
     (case parser_like_metadata_capture node field_name of
        None \<Rightarrow> Inr b
      | Some c \<Rightarrow>
          case syntax_capture U c b of (syntax_id, b1) \<Rightarrow>
          case table_for_node_type (cap_node_type c) owner of
            None \<Rightarrow> Inr b1
          | Some table \<Rightarrow>
              try_op (emit_simple_semantic U table c owner syntax_id b1) (\<lambda>(_, b2). Inr b2))"

definition emit_parser_like_metadata_fields ::
  "unicode \<Rightarrow> arena_node \<Rightarrow> owner \<Rightarrow> builder \<Rightarrow> string fail + builder" where
  "emit_parser_like_metadata_fields U node owner b =
     (if nb_language b = ''python'' then Inr b
      else try_op (emit_metadata_field U node owner ''_field_types'' b)
             (emit_metadata_field U node owner ''_field_descendant_types''))"

section \<open>One rule per step\<close>

text \<open>
  Each rule consumes the next call of an operation and hands the facts about the grown builder to
  the rest. The facts about earlier builders are carried over by the rules of \<open>carry\<close>, one
  growth step at a time.
\<close>

definition returns :: "bool \<Rightarrow> builder \<Rightarrow> string fail + (graph_node_row \<times> builder) \<Rightarrow> string \<Rightarrow> bool" where
  "returns S b r T \<longleftrightarrow> spec S r (\<lambda>(n, b'). grown S b b' \<and> is_node b' n T)"

lemma carry_grown: "grown S b c \<Longrightarrow> grown S a b \<Longrightarrow> grown S a c"
  by (rule grown_trans)

lemmas carry = carry_grown has_table_mono is_node_mono owner_ok_mono

lemma step_semantic:
  assumes "good S b" and "T \<in> semantic_tables"
    and "\<And>n b'. grown S b b' \<Longrightarrow> is_node b' n T \<Longrightarrow> has_table b' (gn_id n) T \<Longrightarrow> spec S (k n b') Q"
  shows "spec S (case semantic_node U T c label oid oqn md b of (n, b') \<Rightarrow> k n b') Q"
proof (rule spec_makes [OF semantic_node_makes assms(1)])
  show "CHR '':'' \<notin> set T" using assms(2) by (auto simp: semantic_tables_def)
qed (auto intro: assms(3) is_node_table)

lemma step_support:
  assumes "good S b" and "CHR '':'' \<notin> set T"
    and "\<And>n b'. grown S b b' \<Longrightarrow> is_node b' n T \<Longrightarrow> has_table b' (gn_id n) T \<Longrightarrow> spec S (k n b') Q"
  shows "spec S (case support_node U T key label path b of (n, b') \<Rightarrow> k n b') Q"
  by (rule spec_makes [OF support_node_makes [OF assms(2)] assms(1)]) (auto intro: assms(3) is_node_table)

lemma step_scope:
  assumes "good S b"
    and "\<And>n b'. grown S b b' \<Longrightarrow> is_node b' n ''Scope'' \<Longrightarrow> has_table b' (gn_id n) ''Scope'' \<Longrightarrow> spec S (k n b') Q"
  shows "spec S (case scope_for U owner b of (n, b') \<Rightarrow> k n b') Q"
  by (rule spec_makes [OF scope_for_makes assms(1)]) (auto intro: assms(2) is_node_table)

lemma step_connect:
  assumes "good S b" and "is_node b n T" and "owner_ok b w" and "T \<in> semantic_tables"
    and "\<And>b'. grown S b b' \<Longrightarrow> spec S (k b') Q"
  shows "spec S (try_op (connect_owner U w n b) k) Q"
  by (rule spec_try [OF connect_owner_spec [OF assms(1,3,2,4)]]) (rule assms(5))

lemma step_derived:
  assumes "good S b" and "has_table b i T" and "T \<in> semantic_tables" and "has_table b j ''SyntaxCapture''"
    and "\<And>b'. grown S b b' \<Longrightarrow> spec S (k b') Q"
  shows "spec S (try_op (derived_from i j b) k) Q"
  by (rule spec_try [OF derived_from_spec [OF assms(1-4)]]) (rule assms(5))

lemma step_edge:
  assumes "good S b" and "has_table b s sT" and "has_table b t tT"
    and "policy_covers (allows (nb_relation_allowlist b)) \<Longrightarrow> allows (nb_relation_allowlist b) ty sT tT"
    and "\<And>row b'. grown S b b' \<Longrightarrow> spec S (k row b') Q"
  shows "spec S (try_op (edge ty s t kd m b) (\<lambda>(row, b'). k row b')) Q"
  by (rule edge_try [OF assms(1-3)]) (use assms(4,5) covers_good [OF assms(1)] in auto)

lemma step_if:
  assumes "spec S (if c then r else Inr b) (grown S b)" and "\<And>b'. grown S b b' \<Longrightarrow> spec S (k b') Q"
  shows "spec S (try_op (if c then r else Inr b) k) Q"
  by (rule spec_try [OF assms(1)]) (rule assms(2))

lemma step_case:
  assumes "spec S (case x of None \<Rightarrow> Inr b | Some y \<Rightarrow> r y) (grown S b)"
    and "\<And>b'. grown S b b' \<Longrightarrow> spec S (k b') Q"
  shows "spec S (try_op (case x of None \<Rightarrow> Inr b | Some y \<Rightarrow> r y) k) Q"
  by (rule spec_try [OF assms(1)]) (rule assms(2))

lemma branch_if:
  assumes "grown S a b" and "c \<Longrightarrow> spec S r (grown S a)"
  shows "spec S (if c then r else Inr b) (grown S a)"
  using assms by simp

lemma branch_case:
  assumes "grown S a b" and "\<And>y. x = Some y \<Longrightarrow> spec S (r y) (grown S a)"
  shows "spec S (case x of None \<Rightarrow> Inr b | Some y \<Rightarrow> r y) (grown S a)"
  using assms by (cases x) simp_all

lemma step_returns:
  assumes "returns S b r T"
    and "\<And>n b'. grown S b b' \<Longrightarrow> is_node b' n T \<Longrightarrow> has_table b' (gn_id n) T \<Longrightarrow> spec S (k n b') Q"
  shows "spec S (try_op r (\<lambda>(n, b'). k n b')) Q"
  using assms(1) unfolding returns_def
  by (rule spec_try) (auto intro: assms(2) is_node_table)

lemma final_pair:
  assumes "grown S a b" and "is_node b n T"
  shows "spec S (Inr (n, b)) (\<lambda>(n, b'). grown S a b' \<and> is_node b' n T)"
  using assms by simp

lemma final_builder: "grown S a b \<Longrightarrow> spec S (Inr b) (grown S a)"
  by simp

lemma final_edge:
  assumes "good S b" and "grown S a b"
  shows "spec S (edge_if_allowed ty s t kd m b) (grown S a)"
  by (rule spec_mono [OF edge_if_allowed_spec [OF assms(1)]]) (rule grown_trans [OF assms(2)])

lemma final_derived:
  assumes "good S b" and "has_table b i T" and "T \<in> semantic_tables" and "has_table b j ''SyntaxCapture''"
    and "grown S a b"
  shows "spec S (derived_from i j b) (grown S a)"
  by (rule spec_mono [OF derived_from_spec [OF assms(1-4)]]) (rule grown_trans [OF assms(5)])

lemmas steps = step_semantic step_connect step_derived spec_syntax_capture edge_if_allowed_try
  final_pair final_edge final_derived final_builder

section \<open>Specifications\<close>

lemma symbols_for_node:
  assumes "good S b" and "symbols_for U b l = Some n"
  shows "lookup_node b (gn_id n) = Some n"
proof -
  from assms(2) obtain ids ns where "List.map_filter (lookup_node b) (rev ids) = n # ns"
    by (auto simp: symbols_for_def split: option.splits list.splits)
  then have "n \<in> set (List.map_filter (lookup_node b) (rev ids))" by simp
  then obtain i where i: "lookup_node b i = Some n" by (auto simp: List.map_filter_def)
  moreover have "node_ok i n" by (rule builder_inv_node [OF _ i]) (use assms(1) in \<open>simp add: good_def\<close>)
  ultimately show ?thesis by (simp add: node_ok_def)
qed

lemma resolve_reference_target_spec:
  assumes "good S b" and "resolve_reference_target U label b = (r, b')"
  shows "grown S b b' \<and> (\<forall>n. r = Some n \<longrightarrow> lookup_node b' (gn_id n) = Some n)"
proof (cases "trim label = [] \<or> symbols_for U b (trim label) \<noteq> None
    \<or> symbols_for U b (rsplit_first (CHR ''.'') (trim label)) \<noteq> None")
  case True
  then have "b' = b" and "r = None \<or> (\<exists>l. r = symbols_for U b l)"
    using assms(2) by (auto simp: resolve_reference_target_def Let_def split: option.splits if_splits)
  then show ?thesis using assms(1) symbols_for_node [OF assms(1)] by (auto simp: grown_refl)
next
  case False
  obtain n b1 where sym: "symbol_node U (trim label) b = (n, b1)" by fastforce
  with False assms(2) have "r = Some n" and "b' = b1"
    by (auto simp: resolve_reference_target_def Let_def)
  with makesD [OF symbol_node_makes assms(1) sym] show ?thesis by (simp add: is_node_def)
qed

lemma step_reference_edges:
  assumes good: "good S b"
    and k: "\<And>r b'. grown S b b' \<Longrightarrow> spec S (k r b') Q"
  shows "spec S (try_op (emit_reference_edges U src label kd b) (\<lambda>(r, b'). k r b')) Q"
proof (rule spec_try [of _ _ "\<lambda>(r, b'). grown S b b'"])
  obtain r b1 where r: "resolve_reference_target U label b = (r, b1)" by fastforce
  have g: "grown S b b1" using resolve_reference_target_spec [OF good r] by simp
  show "spec S (emit_reference_edges U src label kd b) (\<lambda>(r, b'). grown S b b')"
  proof (cases "r = None \<or> (\<exists>n. r = Some n \<and> gn_id n = gn_id src)")
    case True
    then show ?thesis using r g by (auto simp: emit_reference_edges_def)
  next
    case False
    then obtain n where n: "r = Some n" "gn_id n \<noteq> gn_id src" by auto
    have "spec S (try_op (edge_if_allowed ''References'' (gn_id src) (gn_id n)
                    (kd @ ''_reference'') (reference_metadata label) b1) (\<lambda>b2.
            try_op (edge_if_allowed ''ResolvesTo'' (gn_id src) (gn_id n)
                      (kd @ ''_resolution'') (reference_metadata label) b2) (\<lambda>b3.
            Inr (Some n, b3)))) (\<lambda>(r, b'). grown S b b')"
      by (intro edge_if_allowed_try; (erule grown_good)?)
        (use g in \<open>auto intro: grown_good grown_trans\<close>)
    with n r show ?thesis by (simp add: emit_reference_edges_def)
  qed
qed (auto intro: k)

lemma emit_type_annotation_capture_spec:
  assumes "good S b"
  shows "returns S b (emit_type_annotation_capture U c oid oqn b) ''TypeAnnotation''"
  unfolding returns_def emit_type_annotation_capture_def using assms
  by - (assumption | rule steps step_reference_edges | (rule carry, assumption)
      | (rule grown_good, assumption) | (simp add: semantic_tables_def; fail))+

lemma emit_type_annotation_label_spec:
  assumes "good S b"
  shows "returns S b (emit_type_annotation_label U label c oid oqn b) ''TypeAnnotation''"
  using emit_type_annotation_capture_spec [OF assms, of U "annotation_capture label c" oid oqn]
  by (simp add: Let_def emit_type_annotation_capture_def emit_type_annotation_label_def)

lemmas step_annotation = step_returns [OF emit_type_annotation_capture_spec]
  step_returns [OF emit_type_annotation_label_spec]

lemmas emit_steps = steps step_reference_edges step_annotation step_if step_case branch_if branch_case
  grown_refl

lemma emit_reference_spec:
  assumes "good S b" and "owner_ok b w" and "has_table b i ''SyntaxCapture''"
  shows "returns S b (emit_reference U c w i b) ''Reference''"
  unfolding returns_def emit_reference_def using assms
  by - (assumption | rule emit_steps | (rule carry, assumption)
      | (rule grown_good, assumption) | (simp add: semantic_tables_def; fail))+

lemma emit_call_spec:
  assumes "good S b" and "owner_ok b w" and "has_table b i ''SyntaxCapture''"
  shows "returns S b (emit_call U c w i b) ''CallExpression''"
  unfolding returns_def emit_call_def using assms
  by - (assumption | rule emit_steps | (rule carry, assumption)
      | (rule grown_good, assumption) | (simp add: semantic_tables_def; fail))+

lemma emit_simple_semantic_spec:
  assumes "good S b" and "owner_ok b w" and "has_table b i ''SyntaxCapture''"
    and "T \<in> semantic_tables"
  shows "returns S b (emit_simple_semantic U T c w i b) T"
  unfolding returns_def emit_simple_semantic_def using assms
  by - (assumption | rule emit_steps | (rule carry, assumption)
      | (rule grown_good, assumption) | (simp add: semantic_tables_def; fail))+

lemma declares_owner:
  "owner_ok b w \<Longrightarrow> ow_table w \<in> {''Module'', ''Scope'', ''Class'', ''Function'', ''Method''}
     \<Longrightarrow> ow_table w \<in> owner_tables - {''File'', ''Component''}"
  by (auto simp: owner_ok_def owner_tables_def)

lemma owner_ok_node:
  "owner_ok b w \<Longrightarrow> has_table b (ow_node_id w) (ow_table w)"
  "owner_ok b w \<Longrightarrow> ow_table w \<in> owner_tables"
  by (simp_all add: owner_ok_def)

lemma emit_declaration_spec:
  assumes "good S b" and "owner_ok b w" and "has_table b i ''SyntaxCapture''"
    and "T \<in> declared_tables"
  shows "returns S b (emit_declaration U T c w i b) T"
proof -
  have T: "T \<in> semantic_tables" using assms(4) by (auto simp: declared_tables_def semantic_tables_def)
  note w = owner_ok_node [OF assms(2)]
  show ?thesis
    unfolding returns_def emit_declaration_def using assms w T
    by - (assumption | rule emit_steps step_edge
        | (rule carry, assumption) | (rule grown_good, assumption)
        | (erule covers_defines) | (rule declares_owner [OF assms(2)], assumption))+
qed

lemma emit_import_spec:
  assumes "good S b" and "owner_ok b w" and "has_table b i ''SyntaxCapture''"
  shows "returns S b (emit_import U c w i b) ''ImportDeclaration''"
  unfolding returns_def emit_import_def Let_def using assms
  by - (assumption | rule emit_steps step_support step_edge spec_if | (rule carry, assumption)
      | (rule grown_good, assumption) | (erule covers_fixed) | (simp add: semantic_tables_def; fail))+

lemma emit_tree_import_spec:
  assumes "good S b" and "owner_ok b w" and "has_table b i ''SyntaxCapture''"
  shows "returns S b (emit_tree_import U n w i b) ''ImportDeclaration''"
  unfolding emit_tree_import_def Let_def by (rule emit_import_spec [OF assms])

lemma emit_assignment_target_spec:
  assumes "good S b" and "owner_ok b w" and "has_table b i ''SyntaxCapture''"
  shows "spec S (emit_assignment_target U nodes n w i a l b) (grown S b)"
  unfolding emit_assignment_target_def Let_def using assms assignment_target_table_semantic
  by - (assumption | rule emit_steps | (rule carry, assumption)
      | (rule grown_good, assumption) | (simp add: semantic_tables_def; fail))+

lemma emit_assignment_call_spec:
  assumes "good S b" and "owner_ok b w"
  shows "spec S (emit_assignment_call U v w a b) (grown S b)"
  unfolding emit_assignment_call_def Let_def using assms
  by - (assumption | rule emit_steps step_returns [OF emit_call_spec] | (rule carry, assumption)
      | (rule grown_good, assumption) | (simp add: semantic_tables_def; fail))+

lemma emit_tree_assignment_spec:
  assumes "good S b" and "owner_ok b w" and "has_table b i ''SyntaxCapture''"
  shows "returns S b (emit_tree_assignment U nodes n w i b) ''Assignment''"
  unfolding returns_def emit_tree_assignment_def Let_def using assms
  by - (assumption | rule emit_steps emit_assignment_target_spec emit_assignment_call_spec | (rule carry, assumption)
      | (rule grown_good, assumption) | (simp add: semantic_tables_def; fail))+

lemma emit_tree_parameter_spec:
  assumes "good S b"
  shows "spec S (emit_tree_parameter U nodes f ix n b) (grown S b)"
  unfolding emit_tree_parameter_def Let_def using assms
  by - (assumption | rule emit_steps | (rule carry, assumption)
      | (rule grown_good, assumption) | (simp add: semantic_tables_def; fail))+

lemma emit_parameters_from_spec:
  "good S b \<Longrightarrow> spec S (emit_parameters_from U nodes f ix ids b) (grown S b)"
proof (induction ids arbitrary: ix b)
  case (Cons i ids)
  have "spec S (case get_node nodes i of None \<Rightarrow> Inr b
      | Some n \<Rightarrow> emit_tree_parameter U nodes f ix n b) (grown S b)"
    by (rule branch_case [OF grown_refl [OF Cons.prems]]) (rule emit_tree_parameter_spec [OF Cons.prems])
  moreover have "spec S (emit_parameters_from U nodes f (Suc ix) ids b') (grown S b)" if "grown S b b'" for b'
    by (rule spec_mono [OF Cons.IH [OF grown_good [OF that]]]) (rule grown_trans [OF that])
  ultimately show ?case by (auto intro: spec_try)
qed (simp add: grown_refl)

lemma emit_tree_return_type_spec:
  assumes "good S b"
  shows "spec S (emit_tree_return_type U nodes fn f b) (grown S b)"
  unfolding emit_tree_return_type_def using assms
  by - (assumption | rule emit_steps | (rule carry, assumption)
      | (rule grown_good, assumption) | (simp add: semantic_tables_def; fail))+

lemma emit_metadata_field_spec:
  assumes "good S b" and "owner_ok b w"
  shows "spec S (emit_metadata_field U n w f b) (grown S b)"
  unfolding emit_metadata_field_def using assms
  by - (assumption | rule emit_steps step_returns [OF emit_simple_semantic_spec] | (rule carry, assumption)
      | (rule grown_good, assumption) | (erule table_for_node_type_semantic) | (simp add: semantic_tables_def; fail))+

lemma emit_parser_like_metadata_fields_spec:
  assumes "good S b" and "owner_ok b w"
  shows "spec S (emit_parser_like_metadata_fields U n w b) (grown S b)"
proof (cases "nb_language b = ''python''")
  case True
  with assms show ?thesis by (simp add: emit_parser_like_metadata_fields_def grown_refl)
next
  case False
  have "spec S (try_op (emit_metadata_field U n w ''_field_types'' b)
      (emit_metadata_field U n w ''_field_descendant_types'')) (grown S b)"
    by (rule spec_try [OF emit_metadata_field_spec [OF assms]])
      (auto intro: spec_mono [OF emit_metadata_field_spec] grown_good owner_ok_mono [OF _ assms(2)]
        elim: grown_trans)
  with False show ?thesis by (simp add: emit_parser_like_metadata_fields_def)
qed

end
