(* ===== verification/Traversal.thy ===== *)
theory Traversal
  imports Semantic
begin

text \<open>
  The walk over the syntax tree (\<^verbatim>\<open>src/syntax_materializer/builder/traversal.rs\<close>) and the entry
  point of the materializer, \<open>build_syntax_tree_graph_rows\<close>
  (\<^verbatim>\<open>src/syntax_materializer/mod.rs\<close>). The recursions follow arena identifiers, so they carry
  fuel: one more than the number of nodes of the arena. The theorems at the end say that the fuel
  is never exhausted, that the build never fails under a policy that covers the builder's
  relations, and what holds of the rows it returns.
\<close>

section \<open>Syntax captures\<close>

fun materialize_syntax_children ::
  "unicode \<Rightarrow> nat \<Rightarrow> arena_nodes \<Rightarrow> arena_node \<Rightarrow> string \<Rightarrow> builder \<Rightarrow> string fail + builder"
  and materialize_children_from ::
  "unicode \<Rightarrow> nat \<Rightarrow> arena_nodes \<Rightarrow> string \<Rightarrow> nat \<Rightarrow> nat list \<Rightarrow> builder \<Rightarrow> string fail + builder" where
  "materialize_syntax_children U 0 nodes parent parent_syntax_id b = Inl Diverged"
| "materialize_syntax_children U (Suc fuel) nodes parent parent_syntax_id b =
     materialize_children_from U fuel nodes parent_syntax_id 0 (an_children parent) b"
| "materialize_children_from U fuel nodes parent_syntax_id child_index [] b = Inr b"
| "materialize_children_from U fuel nodes parent_syntax_id child_index (child_id # rest) b =
     (case get_node nodes child_id of
        None \<Rightarrow> Inl (Failed (''tree graph node '' @ string_of_nat child_id @ '' is missing''))
      | Some child \<Rightarrow>
          case syntax_capture U (tree_capture child) b of (child_syntax_id, b1) \<Rightarrow>
          try_op (syntax_child parent_syntax_id child_syntax_id (sn_field_name (an_node child))
                    child_index b1) (\<lambda>b2.
          try_op (materialize_syntax_children U fuel nodes child child_syntax_id b2)
            (materialize_children_from U fuel nodes parent_syntax_id (Suc child_index) rest)))"

definition materialize_syntax_tree ::
  "unicode \<Rightarrow> nat \<Rightarrow> arena_nodes \<Rightarrow> nat \<Rightarrow> string \<Rightarrow> builder \<Rightarrow> string fail + builder" where
  "materialize_syntax_tree U fuel nodes root_id file_id b =
     (case get_node nodes root_id of
        None \<Rightarrow> Inl (Failed ''tree graph root node is missing'')
      | Some root_node \<Rightarrow>
          case syntax_capture U (tree_capture root_node) b of (root_syntax_id, b1) \<Rightarrow>
          try_op (edge ''EvidencedBy'' file_id root_syntax_id ''syntax_root'' [] b1) (\<lambda>(_, b2).
          materialize_syntax_children U fuel nodes root_node root_syntax_id b2))"

section \<open>Semantic nodes\<close>

definition emit_for_table ::
  "unicode \<Rightarrow> arena_nodes \<Rightarrow> arena_node \<Rightarrow> capture \<Rightarrow> owner \<Rightarrow> string \<Rightarrow> string \<Rightarrow> builder
     \<Rightarrow> string fail + (graph_node_row \<times> builder)" where
  "emit_for_table U nodes node c owner syntax_id table b =
     (if table = ''ImportDeclaration'' then emit_tree_import U node owner syntax_id b
      else if table \<in> {''Class'', ''Function'', ''Method''} then emit_declaration U table c owner syntax_id b
      else if table = ''Assignment'' then emit_tree_assignment U nodes node owner syntax_id b
      else if table = ''CallExpression'' then emit_call U c owner syntax_id b
      else if table = ''Reference'' then emit_reference U c owner syntax_id b
      else if table = ''Literal'' then
        emit_simple_semantic U ''Literal''
          (if nb_language b = ''fortran'' then
             (case fortran_literal_capture nodes node of Some l \<Rightarrow> l | None \<Rightarrow> c)
           else c) owner syntax_id b
      else emit_simple_semantic U table c owner syntax_id b)"

definition emit_callable_parts ::
  "unicode \<Rightarrow> arena_nodes \<Rightarrow> arena_node \<Rightarrow> graph_node_row \<Rightarrow> builder \<Rightarrow> string fail + builder" where
  "emit_callable_parts U nodes node semantic b =
     try_op (emit_tree_parameters U nodes node semantic b) (emit_tree_return_type U nodes node semantic)"

definition emit_tree_node ::
  "unicode \<Rightarrow> arena_nodes \<Rightarrow> arena_node \<Rightarrow> owner \<Rightarrow> builder \<Rightarrow> string fail + (owner option \<times> builder)" where
  "emit_tree_node U nodes node owner b =
     (let c = (if nb_language b = ''python'' then (tree_capture node)\<lparr>cap_capture_name := []\<rparr>
               else tree_capture node)
      in case syntax_capture U c b of (syntax_id, b1) \<Rightarrow>
         let capture_table = table_for_capture (cap_capture_name c) owner;
             from_capture = (capture_table \<noteq> None)
         in case (case capture_table of
                    Some t \<Rightarrow> Some t
                  | None \<Rightarrow> table_for_node_type (cap_node_type c) owner) of
              None \<Rightarrow> Inr (None, b1)
            | Some table \<Rightarrow>
                try_op (emit_for_table U nodes node c owner syntax_id table b1) (\<lambda>(semantic, b2).
                if table \<in> {''Class'', ''Function'', ''Method'', ''Component''} then
                  case scope_for U semantic b2 of (scope, b3) \<Rightarrow>
                  try_op (edge ''Contains'' (gn_id semantic) (gn_id scope)
                            (str_lowercase U table @ ''_contains_scope'') [] b3) (\<lambda>(_, b4).
                  try_op (edge ''HasScope'' (gn_id semantic) (gn_id scope)
                            (str_lowercase U table @ ''_scope'') [] b4) (\<lambda>(_, b5).
                  try_op (if table \<in> {''Function'', ''Method''} \<and> (nb_language b5 = ''python'' \<or> \<not> from_capture)
                          then emit_callable_parts U nodes node semantic b5 else Inr b5) (\<lambda>b6.
                  Inr (Some \<lparr>ow_node_id = gn_id semantic, ow_table = table,
                             ow_qualified_name = gn_qualified_name semantic,
                             ow_scope_id = gn_id scope\<rparr>, b6))))
                else Inr (None, b2)))"

fun traverse_tree_node ::
  "unicode \<Rightarrow> nat \<Rightarrow> arena_nodes \<Rightarrow> nat \<Rightarrow> owner \<Rightarrow> builder \<Rightarrow> string fail + builder"
  and traverse_all ::
  "unicode \<Rightarrow> nat \<Rightarrow> arena_nodes \<Rightarrow> nat list \<Rightarrow> owner \<Rightarrow> builder \<Rightarrow> string fail + builder" where
  "traverse_tree_node U 0 nodes node_id owner b = Inl Diverged"
| "traverse_tree_node U (Suc fuel) nodes node_id owner b =
     (case get_node nodes node_id of
        None \<Rightarrow> Inl (Failed (''tree graph node '' @ string_of_nat node_id @ '' is missing''))
      | Some node \<Rightarrow>
          try_op (emit_tree_node U nodes node owner b) (\<lambda>(next_owner, b1).
          let child_owner = (case next_owner of Some w \<Rightarrow> w | None \<Rightarrow> owner)
          in try_op (semantic_child_ids (Suc (length nodes)) nodes node (nb_language b1)) (\<lambda>ids.
             try_op (traverse_all U fuel nodes ids child_owner b1)
               (emit_parser_like_metadata_fields U node child_owner))))"
| "traverse_all U fuel nodes [] owner b = Inr b"
| "traverse_all U fuel nodes (child_id # rest) owner b =
     try_op (traverse_tree_node U fuel nodes child_id owner b) (traverse_all U fuel nodes rest owner)"

section \<open>The whole tree\<close>

definition root_module_types :: "string list" where
  "root_module_types = [''Module'', ''module'', ''program'', ''source_file'']"

definition build_module_tree ::
  "unicode \<Rightarrow> nat \<Rightarrow> arena_nodes \<Rightarrow> arena_node \<Rightarrow> graph_node_row \<Rightarrow> builder \<Rightarrow> string fail + builder" where
  "build_module_tree U fuel nodes root_node file b =
     (let root_capture = tree_capture root_node in
      case syntax_capture U root_capture b of (syntax_id, b1) \<Rightarrow>
      case semantic_node U ''Module'' root_capture (module_label (nb_path b1)) (gn_id file) [] None b1 of
        (module_node, b2) \<Rightarrow>
      case scope_for U module_node b2 of (module_scope, b3) \<Rightarrow>
      try_op (edge ''Contains'' (gn_id file) (gn_id module_node) ''file_module'' [] b3) (\<lambda>(_, b4).
      try_op (edge ''Contains'' (gn_id module_node) (gn_id module_scope) ''module_contains_scope'' [] b4) (\<lambda>(_, b5).
      try_op (edge ''HasScope'' (gn_id module_node) (gn_id module_scope) ''module_scope'' [] b5) (\<lambda>(_, b6).
      try_op (if should_derive_root_module (nb_language b6) (node_type root_node)
              then derived_from (gn_id module_node) syntax_id b6 else Inr b6) (\<lambda>b7.
      traverse_all U fuel nodes (an_children root_node)
        \<lparr>ow_node_id = gn_id module_node, ow_table = ''Module'',
         ow_qualified_name = gn_qualified_name module_node, ow_scope_id = gn_id module_scope\<rparr> b7)))))"

definition build_file_tree ::
  "unicode \<Rightarrow> nat \<Rightarrow> arena_nodes \<Rightarrow> nat \<Rightarrow> graph_node_row \<Rightarrow> builder \<Rightarrow> string fail + builder" where
  "build_file_tree U fuel nodes root_id file b =
     (case scope_for U file b of (file_scope, b1) \<Rightarrow>
      try_op (edge ''HasScope'' (gn_id file) (gn_id file_scope) ''file_scope'' [] b1) (\<lambda>(_, b2).
      traverse_tree_node U fuel nodes root_id
        \<lparr>ow_node_id = gn_id file, ow_table = ''File'', ow_qualified_name = gn_qualified_name file,
         ow_scope_id = gn_id file_scope\<rparr> b2))"

definition build_tree :: "unicode \<Rightarrow> arena_nodes \<Rightarrow> nat \<Rightarrow> builder \<Rightarrow> string fail + builder" where
  "build_tree U nodes root_id b =
     (let fuel = Suc (length nodes) in
      case get_node nodes root_id of
        None \<Rightarrow> Inl (Failed ''tree graph root node is missing'')
      | Some root_node \<Rightarrow>
          case support_node U ''Repository'' (nb_repository_label b) (nb_repository_label b) [] b of
            (repository, b1) \<Rightarrow>
          case support_node U ''SourceRoot'' (nb_source_root b) (nb_source_root b) (nb_source_root b) b1 of
            (source, b2) \<Rightarrow>
          case support_node U ''File'' (nb_path b) (rsplit_first (CHR ''/'') (nb_path b)) (nb_path b) b2 of
            (file, b3) \<Rightarrow>
          try_op (edge ''Contains'' (gn_id repository) (gn_id source) ''repository_source_root'' [] b3) (\<lambda>(_, b4).
          try_op (edge ''Contains'' (gn_id source) (gn_id file) ''source_root_file'' [] b4) (\<lambda>(_, b5).
          try_op (materialize_syntax_tree U fuel nodes root_id (gn_id file) b5) (\<lambda>b6.
          if node_type root_node \<in> set root_module_types
          then build_module_tree U fuel nodes root_node file b6
          else build_file_tree U fuel nodes root_id file b6))))"

definition build_syntax_tree_graph_rows ::
  "unicode \<Rightarrow> (string \<Rightarrow> string + relation_spec list) \<Rightarrow> (string, string) btree_map \<Rightarrow> syntax_node
     \<Rightarrow> string fail + built_graph_rows" where
  "build_syntax_tree_graph_rows U decode meta tree =
     try_op (builder_new decode meta) (\<lambda>b.
     case arena_new tree of (root_id, nodes) \<Rightarrow>
     try_op (build_tree U nodes root_id b) (\<lambda>b'.
     Inr (into_rows b')))"

section \<open>Specifications\<close>

lemma step_syntax_child:
  assumes "good S b" and "has_table b i ''SyntaxCapture''" and "has_table b j ''SyntaxCapture''"
    and "\<And>b'. grown S b b' \<Longrightarrow> spec S (k b') Q"
  shows "spec S (try_op (syntax_child i j fld ix b) k) Q"
  by (rule spec_try [OF syntax_child_spec [OF assms(1-3)]]) (rule assms(4))

text \<open>Enough fuel for a node: more than the number of identifiers above it.\<close>

definition enough :: "nat \<Rightarrow> arena_nodes \<Rightarrow> nat list \<Rightarrow> bool" where
  "enough fuel nodes ids \<longleftrightarrow> (\<forall>c \<in> set ids. c < length nodes \<and> length nodes \<le> fuel + c)"

lemma enough_simps [simp]:
  "enough fuel nodes []"
  "enough fuel nodes (c # cs) \<longleftrightarrow> c < length nodes \<and> length nodes \<le> fuel + c \<and> enough fuel nodes cs"
  by (auto simp: enough_def)

lemma enough_children:
  assumes "arena_ok nodes" and "i < length nodes" and "length nodes \<le> Suc fuel + i"
  shows "enough fuel nodes (an_children (nodes ! i))"
  using arena_okD [OF assms(1,2)] assms(3) by (fastforce simp: enough_def)

lemma materialize_children_from_spec:
  assumes kids: "\<And>c j b. c \<in> set ids \<Longrightarrow> good S b \<Longrightarrow> has_table b j ''SyntaxCapture'' \<Longrightarrow>
      spec S (materialize_syntax_children U fuel nodes (nodes ! c) j b) (grown S b)"
    and "good S b" and "has_table b i ''SyntaxCapture''" and "enough fuel nodes ids"
  shows "spec S (materialize_children_from U fuel nodes i ix ids b) (grown S b)"
  using assms
proof (induction ids arbitrary: ix b)
  case (Cons c rest)
  then have node: "get_node nodes c = Some (nodes ! c)" by (simp add: get_node_def)
  have "spec S (case syntax_capture U (tree_capture (nodes ! c)) b of (j, b1) \<Rightarrow>
      try_op (syntax_child i j (sn_field_name (an_node (nodes ! c))) ix b1) (\<lambda>b2.
      try_op (materialize_syntax_children U fuel nodes (nodes ! c) j b2)
        (materialize_children_from U fuel nodes i (Suc ix) rest))) (grown S b)"
  proof (rule spec_syntax_capture [OF Cons.prems(2)], rule step_syntax_child)
    fix j b1 b2
    assume g1: "grown S b b1" and j: "has_table b1 j ''SyntaxCapture''"
    then show "good S b1" "has_table b1 i ''SyntaxCapture''" "has_table b1 j ''SyntaxCapture''"
      using Cons.prems(3) by (auto intro: grown_good has_table_mono)
    assume g2: "grown S b1 b2"
    have "spec S (materialize_syntax_children U fuel nodes (nodes ! c) j b2) (grown S b2)"
      by (rule Cons.prems(1)) (use g2 j in \<open>auto intro: grown_good has_table_mono\<close>)
    then show "spec S (try_op (materialize_syntax_children U fuel nodes (nodes ! c) j b2)
        (materialize_children_from U fuel nodes i (Suc ix) rest)) (grown S b)"
    proof (rule spec_try)
      fix b3
      assume "grown S b2 b3"
      then have g: "grown S b b3" using g1 g2 by (blast intro: grown_trans)
      have "spec S (materialize_children_from U fuel nodes i (Suc ix) rest b3) (grown S b3)"
        by (rule Cons.IH) (use Cons.prems g in \<open>auto intro: grown_good has_table_mono\<close>)
      then show "spec S (materialize_children_from U fuel nodes i (Suc ix) rest b3) (grown S b)"
        by (rule spec_mono) (rule grown_trans [OF g])
    qed
  qed
  then show ?case by (simp add: node)
qed (simp add: grown_refl)

lemma materialize_syntax_children_spec:
  "arena_ok nodes \<Longrightarrow> i < length nodes \<Longrightarrow> length nodes \<le> fuel + i \<Longrightarrow> good S b \<Longrightarrow>
     has_table b j ''SyntaxCapture'' \<Longrightarrow>
     spec S (materialize_syntax_children U fuel nodes (nodes ! i) j b) (grown S b)"
proof (induction fuel arbitrary: i j b)
  case (Suc fuel)
  have kids: "enough fuel nodes (an_children (nodes ! i))"
    by (rule enough_children) (use Suc.prems in auto)
  have "spec S (materialize_children_from U fuel nodes j 0 (an_children (nodes ! i)) b) (grown S b)"
    by (rule materialize_children_from_spec)
      (use Suc kids in \<open>auto simp: enough_def\<close>)
  then show ?case by simp
qed simp

lemma materialize_syntax_tree_spec:
  assumes "arena_ok nodes" and "i < length nodes" and "length nodes \<le> fuel + i" and "good S b"
    and "has_table b f ''File''"
  shows "spec S (materialize_syntax_tree U fuel nodes i f b) (grown S b)"
proof -
  have node: "get_node nodes i = Some (nodes ! i)" using assms(2) by (simp add: get_node_def)
  have final: "spec S (materialize_syntax_children U fuel nodes (nodes ! i) j b2) (grown S b)"
    if "good S b2" "has_table b2 j ''SyntaxCapture''" "grown S b b2" for j b2
    by (rule spec_mono [OF materialize_syntax_children_spec [OF assms(1-3) that(1,2)]])
      (rule grown_trans [OF that(3)])
  show ?thesis
    unfolding materialize_syntax_tree_def node option.case using assms(4,5)
    by - (assumption | rule spec_syntax_capture step_edge final | (rule carry, assumption)
        | (rule grown_good, assumption) | (erule covers_fixed))+
qed

section \<open>The traversal\<close>

lemma emit_for_table_spec:
  assumes "good S b" and "owner_ok b w" and "has_table b i ''SyntaxCapture''" and "T \<in> semantic_tables"
  shows "returns S b (emit_for_table U nodes n c w i T b) T"
proof -
  have lit: "''Literal'' \<in> semantic_tables" by (simp add: semantic_tables_def)
  show ?thesis
    unfolding emit_for_table_def
    using emit_tree_import_spec [OF assms(1-3)] emit_tree_assignment_spec [OF assms(1-3)]
      emit_call_spec [OF assms(1-3)] emit_reference_spec [OF assms(1-3)]
      emit_simple_semantic_spec [OF assms] emit_simple_semantic_spec [OF assms(1-3) lit]
      emit_declaration_spec [OF assms(1-3)]
    by (simp add: declared_tables_def)
qed

lemma emit_callable_parts_spec:
  assumes "good S b"
  shows "spec S (emit_callable_parts U nodes n f b) (grown S b)"
  unfolding emit_callable_parts_def emit_tree_parameters_def
  by (rule spec_try [OF emit_parameters_from_spec [OF assms]])
    (auto intro: spec_mono [OF emit_tree_return_type_spec] grown_good elim: grown_trans)

definition emitted :: "bool \<Rightarrow> builder \<Rightarrow> owner option \<times> builder \<Rightarrow> bool" where
  "emitted S b r \<longleftrightarrow> (case r of (w, b') \<Rightarrow> grown S b b' \<and> (\<forall>o'. w = Some o' \<longrightarrow> owner_ok b' o'))"

lemma emitted_None: "grown S b b' \<Longrightarrow> spec S (Inr (None, b')) (emitted S b)"
  by (simp add: emitted_def)

lemma emitted_Some:
  assumes "grown S b b'" and "T \<in> {''Class'', ''Function'', ''Method'', ''Component''}"
    and "has_table b' i T" and "has_table b' j ''Scope''"
  shows "spec S (Inr (Some \<lparr>ow_node_id = i, ow_table = T, ow_qualified_name = q, ow_scope_id = j\<rparr>, b')) (emitted S b)"
  using assms by (auto simp: emitted_def owner_ok_def owner_tables_def)

lemma step_emit:
  assumes "good S b" and "owner_ok b w" and "has_table b i ''SyntaxCapture''" and "T \<in> semantic_tables"
    and "\<And>n b'. grown S b b' \<Longrightarrow> is_node b' n T \<Longrightarrow> has_table b' (gn_id n) T \<Longrightarrow> spec S (k n b') Q"
  shows "spec S (try_op (emit_for_table U nodes nd c w i T b) (\<lambda>(n, b'). k n b')) Q"
  by (rule step_returns [OF emit_for_table_spec [OF assms(1-4)]]) (rule assms(5))

lemma scope_owner_tables: "T \<in> {''Class'', ''Function'', ''Method'', ''Component''} \<Longrightarrow> T \<in> owner_tables"
  by (auto simp: owner_tables_def)

lemma spec_case_option:
  assumes "x = None \<Longrightarrow> spec S n Q" and "\<And>y. x = Some y \<Longrightarrow> spec S (s y) Q"
  shows "spec S (case x of None \<Rightarrow> n | Some y \<Rightarrow> s y) Q"
  using assms by (cases x) auto

lemma table_semantic:
  "(case table_for_capture cn w of Some t \<Rightarrow> Some t | None \<Rightarrow> table_for_node_type nt w) = Some T
     \<Longrightarrow> T \<in> semantic_tables"
  by (auto split: option.splits dest: table_for_capture_semantic table_for_node_type_semantic)

lemma emit_tree_node_spec:
  assumes "good S b" and "owner_ok b w"
  shows "spec S (emit_tree_node U nodes n w b) (emitted S b)"
  unfolding emit_tree_node_def Let_def using assms
  by - (assumption | rule spec_syntax_capture spec_case_option step_emit step_scope step_edge step_if
        branch_if emit_callable_parts_spec spec_if emitted_None emitted_Some grown_refl
      | (rule carry, assumption) | (rule grown_good, assumption) | (erule table_semantic)
      | (erule covers_scope, erule scope_owner_tables))+

lemma child_ids_spec:
  assumes "arena_ok nodes" and "i < length nodes" and "length nodes \<le> Suc fuel + i"
  shows "\<exists>ids. semantic_child_ids (Suc (length nodes)) nodes (nodes ! i) language = Inr ids
     \<and> enough fuel nodes ids"
proof -
  have "spec True (semantic_child_ids (Suc (length nodes)) nodes (nodes ! i) language)
      (\<lambda>ids. \<forall>c \<in> set ids. i < c \<and> c < length nodes)"
    by (rule semantic_child_ids_spec [OF assms(1)]) (use arena_okD [OF assms(1,2)] in auto)
  then obtain ids where "semantic_child_ids (Suc (length nodes)) nodes (nodes ! i) language = Inr ids"
    and "\<forall>c \<in> set ids. i < c \<and> c < length nodes" by (auto simp: spec_True_iff)
  with assms(3) show ?thesis by (fastforce simp: enough_def)
qed

lemma traverse_all_spec:
  assumes "\<And>c b. c \<in> set ids \<Longrightarrow> good S b \<Longrightarrow> owner_ok b w \<Longrightarrow>
      spec S (traverse_tree_node U fuel nodes c w b) (grown S b)"
    and "good S b" and "owner_ok b w"
  shows "spec S (traverse_all U fuel nodes ids w b) (grown S b)"
  using assms
proof (induction ids arbitrary: b)
  case (Cons c ids)
  have "spec S (traverse_tree_node U fuel nodes c w b) (grown S b)" using Cons.prems by simp
  moreover have "spec S (traverse_all U fuel nodes ids w b') (grown S b)" if g: "grown S b b'" for b'
    by (rule spec_mono [OF Cons.IH])
      (use Cons.prems g in \<open>auto intro: grown_good owner_ok_mono grown_trans\<close>)
  ultimately show ?case by (auto intro: spec_try)
qed (simp add: grown_refl)

lemma traverse_tree_node_spec:
  "arena_ok nodes \<Longrightarrow> i < length nodes \<Longrightarrow> length nodes \<le> fuel + i \<Longrightarrow> good S b \<Longrightarrow> owner_ok b w \<Longrightarrow>
     spec S (traverse_tree_node U fuel nodes i w b) (grown S b)"
proof (induction fuel arbitrary: i w b)
  case (Suc fuel)
  have node: "get_node nodes i = Some (nodes ! i)" using Suc.prems(2) by (simp add: get_node_def)
  have "spec S (try_op (emit_tree_node U nodes (nodes ! i) w b) (\<lambda>(next_owner, b1).
          let child_owner = (case next_owner of Some w \<Rightarrow> w | None \<Rightarrow> w)
          in try_op (semantic_child_ids (Suc (length nodes)) nodes (nodes ! i) (nb_language b1)) (\<lambda>ids.
             try_op (traverse_all U fuel nodes ids child_owner b1)
               (emit_parser_like_metadata_fields U (nodes ! i) child_owner)))) (grown S b)"
  proof (rule spec_try [OF emit_tree_node_spec [OF Suc.prems(4,5)]])
    fix r
    assume "emitted S b r"
    then obtain nw b1 where r: "r = (nw, b1)" and g: "grown S b b1"
      and nw: "\<And>w'. nw = Some w' \<Longrightarrow> owner_ok b1 w'" by (auto simp: emitted_def split: prod.splits)
    define cw where "cw = (case nw of Some w' \<Rightarrow> w' | None \<Rightarrow> w)"
    have cw: "owner_ok b1 cw"
      using nw owner_ok_mono [OF g Suc.prems(5)] by (auto simp: cw_def split: option.splits)
    obtain ids where ids: "semantic_child_ids (Suc (length nodes)) nodes (nodes ! i) (nb_language b1) = Inr ids"
      and kids: "enough fuel nodes ids"
      using child_ids_spec [OF Suc.prems(1,2), of fuel "nb_language b1"] Suc.prems(3) by auto
    have "spec S (traverse_all U fuel nodes ids cw b1) (grown S b1)"
      by (rule traverse_all_spec) (use Suc.IH Suc.prems(1) kids cw g in \<open>auto simp: enough_def intro: grown_good\<close>)
    moreover have "spec S (emit_parser_like_metadata_fields U (nodes ! i) cw b2) (grown S b)" if "grown S b1 b2" for b2
      by (rule spec_mono [OF emit_parser_like_metadata_fields_spec])
        (use that g cw in \<open>auto intro: grown_good owner_ok_mono grown_trans\<close>)
    ultimately have "spec S (try_op (traverse_all U fuel nodes ids cw b1)
        (emit_parser_like_metadata_fields U (nodes ! i) cw)) (grown S b)"
      by (rule spec_try)
    then show "spec S (case r of (next_owner, b1) \<Rightarrow>
          let child_owner = (case next_owner of Some w \<Rightarrow> w | None \<Rightarrow> w)
          in try_op (semantic_child_ids (Suc (length nodes)) nodes (nodes ! i) (nb_language b1)) (\<lambda>ids.
             try_op (traverse_all U fuel nodes ids child_owner b1)
               (emit_parser_like_metadata_fields U (nodes ! i) child_owner))) (grown S b)"
      by (simp add: r Let_def ids cw_def del: semantic_child_ids.simps)
  qed
  then show ?case by (simp add: node)
qed simp

section \<open>The whole build\<close>

lemma owner_ok_intro:
  "has_table b i T \<Longrightarrow> T \<in> owner_tables \<Longrightarrow> has_table b j ''Scope'' \<Longrightarrow>
     owner_ok b \<lparr>ow_node_id = i, ow_table = T, ow_qualified_name = q, ow_scope_id = j\<rparr>"
  by (simp add: owner_ok_def)

lemma in_owner_tables: "''Module'' \<in> owner_tables" "''File'' \<in> owner_tables"
  by (simp_all add: owner_tables_def)

lemma final_traverse_all:
  assumes "arena_ok nodes" and "enough fuel nodes ids" and "good S b" and "owner_ok b w" and "grown S a b"
  shows "spec S (traverse_all U fuel nodes ids w b) (grown S a)"
proof -
  have "spec S (traverse_all U fuel nodes ids w b) (grown S b)"
    by (rule traverse_all_spec [OF traverse_tree_node_spec [OF assms(1)] assms(3,4)])
      (use assms(2) in \<open>auto simp: enough_def\<close>)
  then show ?thesis by (rule spec_mono) (rule grown_trans [OF assms(5)])
qed

lemma final_traverse:
  assumes "arena_ok nodes" and "i < length nodes" and "length nodes \<le> fuel + i" and "good S b"
    and "owner_ok b w" and "grown S a b"
  shows "spec S (traverse_tree_node U fuel nodes i w b) (grown S a)"
  by (rule spec_mono [OF traverse_tree_node_spec [OF assms(1-5)]]) (rule grown_trans [OF assms(6)])

lemma build_module_tree_spec:
  assumes "arena_ok nodes" and "enough fuel nodes (an_children nd)" and "good S b"
    and "has_table b (gn_id file) ''File''"
  shows "spec S (build_module_tree U fuel nodes nd file b) (grown S b)"
  unfolding build_module_tree_def Let_def using assms
  by - (assumption | rule emit_steps step_scope step_edge owner_ok_intro in_owner_tables final_traverse_all
      | (rule carry, assumption) | (rule grown_good, assumption)
      | (erule covers_fixed) | (erule covers_scope, rule in_owner_tables)
      | (simp add: semantic_tables_def; fail))+

lemma build_file_tree_spec:
  assumes "arena_ok nodes" and "i < length nodes" and "length nodes \<le> fuel + i" and "good S b"
    and "has_table b (gn_id file) ''File''"
  shows "spec S (build_file_tree U fuel nodes i file b) (grown S b)"
  unfolding build_file_tree_def using assms
  by - (assumption | rule step_scope step_edge owner_ok_intro in_owner_tables final_traverse
      | (rule carry, assumption) | (rule grown_good, assumption)
      | (erule covers_scope, rule in_owner_tables))+

lemma step_materialize:
  assumes "arena_ok nodes" and "i < length nodes" and "length nodes \<le> fuel + i" and "good S b"
    and "has_table b f ''File''" and "\<And>b'. grown S b b' \<Longrightarrow> spec S (k b') Q"
  shows "spec S (try_op (materialize_syntax_tree U fuel nodes i f b) k) Q"
  by (rule spec_try [OF materialize_syntax_tree_spec [OF assms(1-5)]]) (rule assms(6))

lemma final_module_tree:
  assumes "arena_ok nodes" and "enough fuel nodes (an_children nd)" and "good S b"
    and "has_table b (gn_id file) ''File''" and "grown S a b"
  shows "spec S (build_module_tree U fuel nodes nd file b) (grown S a)"
  by (rule spec_mono [OF build_module_tree_spec [OF assms(1-4)]]) (rule grown_trans [OF assms(5)])

lemma final_file_tree:
  assumes "arena_ok nodes" and "i < length nodes" and "length nodes \<le> fuel + i" and "good S b"
    and "has_table b (gn_id file) ''File''" and "grown S a b"
  shows "spec S (build_file_tree U fuel nodes i file b) (grown S a)"
  by (rule spec_mono [OF build_file_tree_spec [OF assms(1-5)]]) (rule grown_trans [OF assms(6)])

lemma build_tree_spec:
  assumes "arena_ok nodes" and "i < length nodes" and "good S b"
  shows "spec S (build_tree U nodes i b) (grown S b)"
proof -
  have node: "get_node nodes i = Some (nodes ! i)" using assms(2) by (simp add: get_node_def)
  have fuel: "length nodes \<le> Suc (length nodes) + i" by simp
  have kids: "enough (Suc (length nodes)) nodes (an_children (nodes ! i))"
    by (rule enough_children [OF assms(1,2)]) simp
  show ?thesis
    unfolding build_tree_def Let_def node option.case using assms fuel kids
    by - (assumption | rule step_support step_edge step_materialize spec_if final_module_tree final_file_tree
        | (rule carry, assumption) | (rule grown_good, assumption) | (erule covers_fixed) | (simp; fail))+
qed

section \<open>The mirror of the syntax tree\<close>

text \<open>
  \<open>mirrored b node\<close>: the builder holds a syntax capture for every node of the tree, and a
  \<open>SyntaxChild\<close> edge from every parent's capture to each child's.
\<close>

definition entry_of :: "syntax_node \<Rightarrow> arena_node" where
  "entry_of node = \<lparr>an_parent_id = None, an_node = node, an_children = []\<rparr>"

definition capture_id :: "string \<Rightarrow> syntax_node \<Rightarrow> string" where
  "capture_id path node = graph_id ''SyntaxCapture'' (syntax_stable_key path (tree_capture (entry_of node)))"

definition child_edge_id :: "string \<Rightarrow> string \<Rightarrow> string" where
  "child_edge_id parent child = graph_id ''edge'' (edge_canonical_key ''SyntaxChild'' parent child ''syntax_child'')"

definition has_child_edge :: "builder \<Rightarrow> string \<Rightarrow> string \<Rightarrow> bool" where
  "has_child_edge b i j \<longleftrightarrow> (\<exists>e. lookup_edge b (child_edge_id i j) = Some e)"

fun mirrored :: "builder \<Rightarrow> syntax_node \<Rightarrow> bool" where
  "mirrored b node \<longleftrightarrow> has_table b (capture_id (nb_path b) node) ''SyntaxCapture''
     \<and> (\<forall>c \<in> set (sn_children node).
          has_child_edge b (capture_id (nb_path b) node) (capture_id (nb_path b) c) \<and> mirrored b c)"

declare mirrored.simps [simp del]

lemma tree_label_entry: "tree_label n = tree_label (entry_of (an_node n))"
proof -
  have eq: "field_label (entry_of (an_node n)) = field_label n" "an_node (entry_of (an_node n)) = an_node n"
    by (simp_all add: fun_eq_iff field_label_def field_value_def entry_of_def)
  show ?thesis unfolding tree_label_def eq ..
qed

lemma tree_capture_entry: "tree_capture n = tree_capture (entry_of (an_node n))"
  unfolding tree_capture_def tree_label_entry [of n] by (simp add: field_keys_def entry_of_def)

lemma has_child_edge_mono: "grown S b b' \<Longrightarrow> has_child_edge b i j \<Longrightarrow> has_child_edge b' i j"
  unfolding has_child_edge_def grown_def extends_def edges_kept_def by blast

lemma grown_path: "grown S b b' \<Longrightarrow> nb_path b' = nb_path b"
  by (simp add: grown_def extends_def)

lemma mirrored_mono: "grown S b b' \<Longrightarrow> mirrored b node \<Longrightarrow> mirrored b' node"
  by (induction node rule: mirrored.induct)
    (subst mirrored.simps, subst (asm) (3) mirrored.simps,
     auto simp: grown_path intro: has_table_mono has_child_edge_mono)

lemma syntax_capture_id:
  "syntax_capture U (tree_capture n) b = (i, b') \<Longrightarrow> i = capture_id (nb_path b) (an_node n)"
  using tree_capture_entry [of n]
  by (auto simp: syntax_capture_def capture_id_def Let_def split: if_splits)

lemma edge_stored:
  assumes "edge ty s t k m b = Inr (row, b')"
  shows "lookup_edge b' (graph_id ''edge'' (edge_canonical_key ty s t k)) \<noteq> None"
  using assms unfolding edge_def Let_def
  by (cases "lookup_edge b (graph_id ''edge'' (edge_canonical_key ty s t k))")
    (auto simp: map_of_entry_or_insert split: option.splits if_splits)

lemma syntax_child_stored: "syntax_child i j f ix b = Inr b' \<Longrightarrow> has_child_edge b' i j"
  unfolding syntax_child_def has_child_edge_def child_edge_id_def
  by (auto simp: try_op_Inr_iff map_of_hash_update dest!: edge_stored)

lemma materialize_children_from_mirror:
  assumes kids: "\<And>c node j b b'. c \<in> set ids \<Longrightarrow> represents nodes c (Some p) node \<Longrightarrow> good False b \<Longrightarrow>
      j = capture_id (nb_path b) node \<Longrightarrow> has_table b j ''SyntaxCapture'' \<Longrightarrow>
      materialize_syntax_children U fuel nodes (nodes ! c) j b = Inr b' \<Longrightarrow>
      grown False b b' \<and> mirrored b' node"
    and "good False b" and "has_table b i ''SyntaxCapture''"
    and "represents_all nodes ids p ns"
    and "materialize_children_from U fuel nodes i ix ids b = Inr b'"
  shows "grown False b b' \<and> (\<forall>n \<in> set ns. has_child_edge b' i (capture_id (nb_path b') n) \<and> mirrored b' n)"
  using assms
proof (induction ids arbitrary: ix b ns)
  case Nil
  then show ?case by (cases ns) (auto simp: grown_refl)
next
  case (Cons c rest)
  obtain n ns' where ns: "ns = n # ns'" using Cons.prems(4) by (cases ns) auto
  have rep: "represents nodes c (Some p) n" and reps: "represents_all nodes rest p ns'"
    using Cons.prems(4) by (auto simp: ns)
  have c: "c < length nodes" and an: "an_node (nodes ! c) = n" using rep by (auto simp: represents.simps)
  then have node: "get_node nodes c = Some (nodes ! c)" by (simp add: get_node_def)
  obtain j b1 where cap: "syntax_capture U (tree_capture (nodes ! c)) b = (j, b1)" by fastforce
  note sc = syntax_capture_ok [OF Cons.prems(2) cap]
  obtain b2 b3 where b2: "syntax_child i j (sn_field_name (an_node (nodes ! c))) ix b1 = Inr b2"
    and b3: "materialize_syntax_children U fuel nodes (nodes ! c) j b2 = Inr b3"
    and rest: "materialize_children_from U fuel nodes i (Suc ix) rest b3 = Inr b'"
    using Cons.prems(5) node cap by (auto simp: try_op_Inr_iff)
  have g2: "grown False b1 b2"
    by (rule spec_value [OF syntax_child_spec b2])
      (use sc has_table_mono [OF _ Cons.prems(3)] in \<open>auto intro: grown_good\<close>)
  have j: "j = capture_id (nb_path b2) n" and jt: "has_table b2 j ''SyntaxCapture''"
    using syntax_capture_id [OF cap] sc g2 an by (auto simp: grown_path intro: has_table_mono)
  have b3': "grown False b2 b3 \<and> mirrored b3 n"
    by (rule Cons.prems(1) [OF _ rep grown_good [OF g2] j jt b3]) simp
  have gb: "grown False b b3" using sc g2 b3' by (blast intro: grown_trans)
  have IH: "grown False b3 b' \<and>
      (\<forall>n \<in> set ns'. has_child_edge b' i (capture_id (nb_path b') n) \<and> mirrored b' n)"
    by (rule Cons.IH [OF _ grown_good [OF gb] has_table_mono [OF gb Cons.prems(3)] reps rest])
      (rule Cons.prems(1), simp_all)
  have g3: "grown False b2 b'" using b3' IH by (blast intro: grown_trans)
  have "has_child_edge b' i (capture_id (nb_path b') n)"
    using has_child_edge_mono [OF g3 syntax_child_stored [OF b2]] j grown_path [OF g3] by simp
  moreover have "mirrored b' n" using mirrored_mono [of False b3 b' n] b3' IH by blast
  moreover have "grown False b b'" using gb IH by (blast intro: grown_trans)
  ultimately show ?case using IH by (simp add: ns)
qed

lemma materialize_syntax_children_mirror:
  "represents nodes i p node \<Longrightarrow> good False b \<Longrightarrow> j = capture_id (nb_path b) node \<Longrightarrow>
     has_table b j ''SyntaxCapture'' \<Longrightarrow>
     materialize_syntax_children U fuel nodes (nodes ! i) j b = Inr b' \<Longrightarrow>
     grown False b b' \<and> mirrored b' node"
proof (induction fuel arbitrary: i p node j b b')
  case (Suc fuel)
  have rep: "represents_all nodes (an_children (nodes ! i)) i (sn_children node)"
    using Suc.prems(1) by (simp add: represents.simps)
  have eq: "materialize_children_from U fuel nodes j 0 (an_children (nodes ! i)) b = Inr b'"
    using Suc.prems(5) by simp
  have kids: "grown False b b' \<and>
      (\<forall>n \<in> set (sn_children node). has_child_edge b' j (capture_id (nb_path b') n) \<and> mirrored b' n)"
    by (rule materialize_children_from_mirror [OF _ Suc.prems(2,4) rep eq]) (erule Suc.IH, assumption+)
  then have g: "grown False b b'" by simp
  with kids Suc.prems(3,4) show ?case
    by (subst mirrored.simps) (auto simp: grown_path intro: has_table_mono)
qed simp

lemma materialize_syntax_tree_mirror:
  assumes rep: "represents nodes i p node" and good: "good False b" and fl: "has_table b f ''File''"
    and eq: "materialize_syntax_tree U fuel nodes i f b = Inr b'"
  shows "mirrored b' node"
proof -
  have i: "i < length nodes" and an: "an_node (nodes ! i) = node" using rep by (auto simp: represents.simps)
  obtain j b1 where cap: "syntax_capture U (tree_capture (nodes ! i)) b = (j, b1)" by fastforce
  obtain row b2 where b2: "edge ''EvidencedBy'' f j ''syntax_root'' [] b1 = Inr (row, b2)"
    and b': "materialize_syntax_children U fuel nodes (nodes ! i) j b2 = Inr b'"
    using eq i cap by (auto simp: materialize_syntax_tree_def get_node_def try_op_Inr_iff)
  note sc = syntax_capture_ok [OF good cap]
  have "good False b1" "has_table b1 f ''File''" "has_table b1 j ''SyntaxCapture''"
    using sc has_table_mono [OF _ fl] by (auto intro: grown_good)
  from spec_value [OF edge_spec [OF this] b2] have g2: "grown False b1 b2" by simp
  have "j = capture_id (nb_path b2) node"
    using syntax_capture_id [OF cap] sc g2 an by (auto simp: grown_path)
  moreover have "has_table b2 j ''SyntaxCapture''" using sc g2 by (auto intro: has_table_mono)
  ultimately show ?thesis
    using materialize_syntax_children_mirror [OF rep grown_good [OF g2] _ _ b'] by blast
qed

lemma spec_and: "spec S r P \<Longrightarrow> spec S r Q \<Longrightarrow> spec S r (\<lambda>x. P x \<and> Q x)"
  by (cases r) (auto simp: spec_def split: fail.splits)

lemma spec_False_weaken: "spec S r P \<Longrightarrow> spec False r Q \<Longrightarrow> spec S r Q"
  by (cases r) (auto simp: spec_def split: fail.splits)

text \<open>The steps after the mirror is in place keep it.\<close>

lemma spec_mirrored: "spec False r (grown False b) \<Longrightarrow> mirrored b node \<Longrightarrow> spec False r (\<lambda>b'. mirrored b' node)"
  by (erule spec_mono) (erule mirrored_mono)

lemma step_materialize_mirror:
  assumes "arena_ok nodes" and "represents nodes i p node" and "length nodes \<le> fuel + i" and "good False b"
    and "has_table b f ''File''"
    and "\<And>b'. grown False b b' \<Longrightarrow> mirrored b' node \<Longrightarrow> spec False (k b') Q"
  shows "spec False (try_op (materialize_syntax_tree U fuel nodes i f b) k) Q"
proof (rule spec_try)
  show "spec False (materialize_syntax_tree U fuel nodes i f b) (\<lambda>b'. grown False b b' \<and> mirrored b' node)"
  proof (rule spec_and)
    have "i < length nodes" using assms(2) by (rule represents_ids)
    then show *: "spec False (materialize_syntax_tree U fuel nodes i f b) (grown False b)"
      using materialize_syntax_tree_spec assms by blast
    then show "spec False (materialize_syntax_tree U fuel nodes i f b) (\<lambda>b'. mirrored b' node)"
      using materialize_syntax_tree_mirror [OF assms(2,4,5)]
      by (cases "materialize_syntax_tree U fuel nodes i f b") (auto simp: spec_def)
  qed
qed (use assms(6) in blast)

lemma build_tree_mirror:
  assumes "arena_ok nodes" and "represents nodes i p node" and "good False b"
  shows "spec False (build_tree U nodes i b) (\<lambda>b'. mirrored b' node)"
proof -
  have i: "i < length nodes" using assms(2) by (rule represents_ids)
  have node: "get_node nodes i = Some (nodes ! i)" using i by (simp add: get_node_def)
  have fuel: "length nodes \<le> Suc (length nodes) + i" by simp
  have kids: "enough (Suc (length nodes)) nodes (an_children (nodes ! i))"
    by (rule enough_children [OF assms(1) i]) simp
  show ?thesis
    unfolding build_tree_def Let_def node option.case using assms fuel kids i
    by - (assumption | rule step_support step_edge step_materialize_mirror spec_if
          spec_mirrored [OF build_module_tree_spec] spec_mirrored [OF build_file_tree_spec]
        | (rule carry, assumption) | (rule grown_good, assumption) | (erule covers_fixed) | (simp; fail))+
qed

section \<open>What is true of the rows\<close>

definition well_built :: "string \<Rightarrow> relation_allowlist \<Rightarrow> syntax_node \<Rightarrow> builder \<Rightarrow> bool" where
  "well_built path al tree b \<longleftrightarrow> builder_inv b \<and> nb_relation_allowlist b = al \<and> nb_path b = path \<and> mirrored b tree"

lemma builder_new_good:
  assumes "allowlist_from_meta decode meta = Inr al"
  shows "\<exists>b. builder_new decode meta = Inr b \<and> good (policy_covers (allows al)) b
     \<and> nb_relation_allowlist b = al \<and> nb_path b = meta_or [] meta ''path''"
  using assms by (auto simp: builder_new_def good_def builder_inv_def symbols_ok_def)

lemma good_False: "good S b \<Longrightarrow> good False b"
  by (simp add: good_def)

lemma build_rows_spec:
  assumes "allowlist_from_meta decode meta = Inr al"
  shows "spec (policy_covers (allows al)) (build_syntax_tree_graph_rows U decode meta tree)
     (\<lambda>rows. \<exists>b. rows = into_rows b \<and> well_built (meta_or [] meta ''path'') al tree b)"
proof -
  let ?S = "policy_covers (allows al)"
  obtain b where b: "builder_new decode meta = Inr b" "good ?S b" "nb_relation_allowlist b = al"
    "nb_path b = meta_or [] meta ''path''" using builder_new_good [OF assms] by blast
  obtain i nodes where ar: "arena_new tree = (i, nodes)" by fastforce
  note arena = arena_new_spec [OF ar]
  have rep: "represents nodes i None tree" using arena(1,2) by simp
  have "spec ?S (build_tree U nodes i b) (\<lambda>b'. grown ?S b b' \<and> mirrored b' tree)"
    by (rule spec_and [OF build_tree_spec spec_False_weaken [OF build_tree_spec build_tree_mirror]])
      (rule arena(3) represents_ids [OF rep] b(2) rep good_False [OF b(2)])+
  then have "spec ?S (build_tree U nodes i b) (well_built (meta_or [] meta ''path'') al tree)"
    by (rule spec_mono) (use b in \<open>auto simp: well_built_def grown_def good_def extends_def\<close>)
  then have "spec ?S (try_op (build_tree U nodes i b) (\<lambda>b'. Inr (into_rows b')))
      (\<lambda>rows. \<exists>b. rows = into_rows b \<and> well_built (meta_or [] meta ''path'') al tree b)"
    by (rule spec_try) auto
  then show ?thesis by (simp add: build_syntax_tree_graph_rows_def b(1) ar)
qed

end
