(* ===== verification/Partition.thy ===== *)
theory Partition
  imports Protocol Schema Traversal
begin

text \<open>
  The partition of one source file (\<^verbatim>\<open>src/partition_builder.rs\<close>): the metadata handed to the
  materializer, the manifest entry computed from its rows, and the check that a stored partition
  still agrees with its entry. \<open>serde_json\<close>'s encoding of the ontology relations is the argument
  \<open>encode\<close>, its decoder the argument \<open>decode\<close>.
\<close>

section \<open>Definitions\<close>

record graph_partition =
  gp_entry :: manifest_entry
  gp_nodes :: "graph_node_row list"
  gp_edges :: "graph_edge_row list"

definition set_artifact_key :: "string \<Rightarrow> graph_partition \<Rightarrow> graph_partition" where
  "set_artifact_key key p = p\<lparr>gp_entry := (gp_entry p)\<lparr>me_artifact_key := Some key\<rparr>\<rparr>"

definition node_types_of :: "graph_node_row list \<Rightarrow> (string, string) btree_map" where
  "node_types_of nodes = btree_of_list (map (\<lambda>n. (gn_id n, gn_table n)) nodes)"

definition edge_types_of :: "graph_edge_row list \<Rightarrow> (string, string) btree_map" where
  "edge_types_of edges = btree_of_list (map (\<lambda>e. (ge_id e, ge_edge_type e)) edges)"

definition validate_raw_rows :: "graph_partition \<Rightarrow> string + unit" where
  "validate_raw_rows p =
     (let entry = gp_entry p in
      if me_partition_id entry \<noteq> partition_id (me_path entry)
      then Inl (''partition '' @ me_partition_id entry @ '' does not match path '' @ me_path entry)
      else if me_node_ids entry \<noteq> sort (map gn_id (gp_nodes p))
      then Inl ''entry node_ids do not match raw node rows''
      else if me_edge_ids entry \<noteq> sort (map ge_id (gp_edges p))
      then Inl ''entry edge_ids do not match raw edge rows''
      else if me_node_types entry \<noteq> node_types_of (gp_nodes p)
      then Inl ''entry node_types do not match raw node rows''
      else if me_edge_types entry \<noteq> edge_types_of (gp_edges p)
      then Inl ''entry edge_types do not match raw edge rows''
      else if me_node_count entry \<noteq> length (gp_nodes p)
      then Inl ''entry node_count does not match raw node rows''
      else if me_edge_count entry \<noteq> length (gp_edges p)
      then Inl ''entry edge_count does not match raw edge rows''
      else Inr ())"

definition option_default :: "string option \<Rightarrow> string" where
  "option_default x = (case x of Some s \<Rightarrow> s | None \<Rightarrow> [])"

definition graph_meta ::
  "unicode \<Rightarrow> (relation_spec list \<Rightarrow> string) \<Rightarrow> request \<Rightarrow> source_snapshot \<Rightarrow> (string, string) btree_map" where
  "graph_meta U encode request snapshot =
     (let m1 = btree_insert ''path'' (ss_path snapshot) [];
          m2 = btree_insert ''language'' (option_default (ss_language snapshot)) m1;
          m3 = (case Option.bind (ss_language snapshot)
                       (profile_for_language (profile_set_new U (rq_profiles request))) of
                  Some profile \<Rightarrow> btree_insert ''grammar_version'' (lp_grammar_version profile) m2
                | None \<Rightarrow> m2);
          m4 = btree_insert ''source_root'' (rq_source_root request) m3;
          m5 = btree_insert ''repository_label'' (rq_repository_label request) m4
      in if rq_relation_types request \<noteq> []
         then btree_insert ''ontology_relations'' (encode (rq_relation_types request)) m5
         else m5)"

definition manifest_entry_of ::
  "source_snapshot \<Rightarrow> graph_node_row list \<Rightarrow> graph_edge_row list \<Rightarrow> manifest_entry" where
  "manifest_entry_of snapshot nodes edges =
     \<lparr>me_path = ss_path snapshot, me_content_hash = ss_content_hash snapshot,
      me_language = option_default (ss_language snapshot),
      me_partition_id = partition_id (ss_path snapshot), me_artifact_key = None,
      me_node_ids = sort (map gn_id nodes), me_edge_ids = sort (map ge_id edges),
      me_node_types = node_types_of nodes, me_edge_types = edge_types_of edges,
      me_node_count = length nodes, me_edge_count = length edges,
      me_materialized_at = ''unix:0''\<rparr>"

definition build_partition ::
  "unicode \<Rightarrow> (relation_spec list \<Rightarrow> string) \<Rightarrow> (string \<Rightarrow> string + relation_spec list) \<Rightarrow> request
     \<Rightarrow> source_snapshot \<Rightarrow> syntax_node \<Rightarrow> string fail + graph_partition" where
  "build_partition U encode decode request snapshot parse_root =
     try_op (build_syntax_tree_graph_rows U decode (graph_meta U encode request snapshot) parse_root) (\<lambda>rows.
     Inr \<lparr>gp_entry = manifest_entry_of snapshot (bg_nodes rows) (bg_edges rows),
          gp_nodes = bg_nodes rows, gp_edges = bg_edges rows\<rparr>)"

section \<open>The policy of a request\<close>

definition request_allowlist :: "request \<Rightarrow> relation_allowlist" where
  "request_allowlist request =
     (if rq_relation_types request = [] then default_allowlist
      else allowlist_of_specs (rq_relation_types request))"

lemma graph_meta_lookup:
  "map_of (graph_meta U encode request snapshot) ''path'' = Some (ss_path snapshot)"
  "map_of (graph_meta U encode request snapshot) ''ontology_relations'' =
     (if rq_relation_types request = [] then None else Some (encode (rq_relation_types request)))"
  by (simp_all add: graph_meta_def Let_def split: option.splits)

lemma graph_meta_allowlist:
  assumes "decode (encode (rq_relation_types request)) = Inr (rq_relation_types request)"
  shows "allowlist_from_meta decode (graph_meta U encode request snapshot) = Inr (request_allowlist request)"
  using assms by (simp add: allowlist_from_meta_def graph_meta_lookup request_allowlist_def)

lemma build_partition_spec:
  assumes "decode (encode (rq_relation_types request)) = Inr (rq_relation_types request)"
  shows "spec (policy_covers (allows (request_allowlist request)))
     (build_partition U encode decode request snapshot tree)
     (\<lambda>p. \<exists>b. gp_nodes p = bg_nodes (into_rows b) \<and> gp_edges p = bg_edges (into_rows b)
        \<and> gp_entry p = manifest_entry_of snapshot (gp_nodes p) (gp_edges p)
        \<and> well_built (ss_path snapshot) (request_allowlist request) tree b)"
  unfolding build_partition_def
  by (rule spec_try [OF build_rows_spec [OF graph_meta_allowlist [of decode encode request, OF assms]]])
    (auto simp: meta_or_def graph_meta_lookup)

section \<open>What is true of the rows of a partition\<close>

definition row_table :: "graph_node_row list \<Rightarrow> string \<Rightarrow> string option" where
  "row_table nodes i = map_option gn_table (find (\<lambda>n. gn_id n = i) nodes)"

definition edge_row_ok :: "relation_allowlist \<Rightarrow> graph_node_row list \<Rightarrow> graph_edge_row \<Rightarrow> bool" where
  "edge_row_ok al nodes e =
     (case row_table nodes (ge_source_id e) of
        None \<Rightarrow> False
      | Some s \<Rightarrow>
     (case row_table nodes (ge_target_id e) of
        None \<Rightarrow> False
      | Some t \<Rightarrow> allows al (ge_edge_type e) s t))"

definition rows_closed :: "relation_allowlist \<Rightarrow> graph_partition \<Rightarrow> bool" where
  "rows_closed al p \<longleftrightarrow> list_all (edge_row_ok al (gp_nodes p)) (gp_edges p)"

definition rows_keyed :: "graph_partition \<Rightarrow> bool" where
  "rows_keyed p \<longleftrightarrow>
     distinct (map gn_id (gp_nodes p)) \<and> distinct (map ge_id (gp_edges p))
     \<and> sorted (map (\<lambda>n. (gn_table n, gn_id n)) (gp_nodes p))
     \<and> sorted (map (\<lambda>e. (ge_edge_type e, ge_id e)) (gp_edges p))"

fun rows_mirror :: "string \<Rightarrow> graph_partition \<Rightarrow> syntax_node \<Rightarrow> bool" where
  "rows_mirror path p node \<longleftrightarrow>
     row_table (gp_nodes p) (capture_id path node) = Some ''SyntaxCapture''
     \<and> list_all (\<lambda>c. child_edge_id (capture_id path node) (capture_id path c) \<in> set (map ge_id (gp_edges p))
                    \<and> rows_mirror path p c) (sn_children node)"

declare rows_mirror.simps [simp del]

definition rows_of :: "builder \<Rightarrow> graph_partition \<Rightarrow> bool" where
  "rows_of b p \<longleftrightarrow> gp_nodes p = bg_nodes (into_rows b) \<and> gp_edges p = bg_edges (into_rows b)"

lemma set_rows:
  "rows_of b p \<Longrightarrow> set (gp_nodes p) = snd ` set (nb_nodes b)"
  "rows_of b p \<Longrightarrow> set (gp_edges p) = snd ` set (nb_edges b)"
  by (simp_all add: rows_of_def into_rows_def)

lemma mset_row_ids:
  "rows_of b p \<Longrightarrow> mset (map gn_id (gp_nodes p)) = mset (map (\<lambda>kv. gn_id (snd kv)) (nb_nodes b))"
  "rows_of b p \<Longrightarrow> mset (map ge_id (gp_edges p)) = mset (map (\<lambda>kv. ge_id (snd kv)) (nb_edges b))"
  by (simp_all add: rows_of_def into_rows_def image_mset.compositionality comp_def)

lemma stored_keys:
  assumes "builder_inv b"
  shows "(i, n) \<in> set (nb_nodes b) \<Longrightarrow> gn_id n = i \<and> lookup_node b i = Some n"
    and "(i, e) \<in> set (nb_edges b) \<Longrightarrow> ge_id e = i \<and> lookup_edge b i = Some e"
proof -
  have d: "distinct (map fst (nb_nodes b))" "distinct (map fst (nb_edges b))"
    using assms by (simp_all add: builder_inv_def)
  show "gn_id n = i \<and> lookup_node b i = Some n" if "(i, n) \<in> set (nb_nodes b)"
  proof
    show l: "lookup_node b i = Some n" by (rule map_of_is_SomeI [OF d(1) that])
    show "gn_id n = i" using builder_inv_node [OF assms l] by (simp add: node_ok_def)
  qed
  show "ge_id e = i \<and> lookup_edge b i = Some e" if "(i, e) \<in> set (nb_edges b)"
  proof
    show l: "lookup_edge b i = Some e" by (rule map_of_is_SomeI [OF d(2) that])
    have "edge_ok b i e" using assms l unfolding builder_inv_def by blast
    then show "ge_id e = i" by (simp add: edge_ok_def)
  qed
qed

lemma row_table_lookup:
  assumes "builder_inv b" and "rows_of b p"
  shows "row_table (gp_nodes p) i = map_option gn_table (lookup_node b i)"
proof (cases "find (\<lambda>n. gn_id n = i) (gp_nodes p)")
  case None
  then have "\<forall>n \<in> set (gp_nodes p). gn_id n \<noteq> i" by (simp add: find_None_iff)
  then have "\<forall>j n. (j, n) \<in> set (nb_nodes b) \<longrightarrow> gn_id n \<noteq> i"
    unfolding set_rows(1) [OF assms(2)] by force
  then have "lookup_node b i = None"
    using stored_keys(1) [OF assms(1)] by (metis map_of_SomeD not_None_eq)
  with None show ?thesis by (simp add: row_table_def)
next
  case (Some n)
  then have "n \<in> set (gp_nodes p)" and id: "gn_id n = i" by (auto simp: find_Some_iff)
  then obtain j where "(j, n) \<in> set (nb_nodes b)" unfolding set_rows(1) [OF assms(2)] by force
  then have "lookup_node b i = Some n" using stored_keys(1) [OF assms(1), of j n] id by simp
  with Some show ?thesis by (simp add: row_table_def)
qed

lemma rows_closed_built:
  assumes inv: "builder_inv b" and rows: "rows_of b p"
  shows "rows_closed (nb_relation_allowlist b) p"
  unfolding rows_closed_def list_all_iff
proof
  fix e
  assume "e \<in> set (gp_edges p)"
  then obtain i where "(i, e) \<in> set (nb_edges b)" unfolding set_rows(2) [OF rows] by force
  then have "lookup_edge b i = Some e" using stored_keys(2) [OF inv] by blast
  then have "edge_ok b i e" using inv unfolding builder_inv_def by blast
  then show "edge_row_ok (nb_relation_allowlist b) (gp_nodes p) e"
    by (auto simp: edge_ok_def has_table_def edge_row_ok_def row_table_lookup [OF inv rows])
qed

lemma rows_keyed_built:
  assumes inv: "builder_inv b" and rows: "rows_of b p"
  shows "rows_keyed p"
proof -
  have n: "map (\<lambda>kv. gn_id (snd kv)) (nb_nodes b) = map fst (nb_nodes b)"
    and e: "map (\<lambda>kv. ge_id (snd kv)) (nb_edges b) = map fst (nb_edges b)"
    using stored_keys [OF inv] by auto
  have "distinct (map gn_id (gp_nodes p))" "distinct (map ge_id (gp_edges p))"
    using inv mset_eq_imp_distinct_iff [OF mset_row_ids(1) [OF rows]]
      mset_eq_imp_distinct_iff [OF mset_row_ids(2) [OF rows]]
    by (simp_all add: n e builder_inv_def)
  then show ?thesis using rows by (simp add: rows_keyed_def rows_of_def into_rows_def)
qed

lemma stored_edge_id:
  assumes "builder_inv b" and "rows_of b p" and "lookup_edge b i = Some e"
  shows "i \<in> set (map ge_id (gp_edges p))"
proof -
  have *: "(i, e) \<in> set (nb_edges b)" using assms(3) by (rule map_of_SomeD)
  then have "e \<in> set (gp_edges p)" unfolding set_rows(2) [OF assms(2)] by force
  moreover have "ge_id e = i" using stored_keys(2) [OF assms(1) *] by simp
  ultimately show ?thesis by auto
qed

lemma rows_mirror_built:
  "builder_inv b \<Longrightarrow> rows_of b p \<Longrightarrow> mirrored b node \<Longrightarrow> rows_mirror (nb_path b) p node"
proof (induction b node rule: mirrored.induct)
  case (1 b node)
  show ?case
    using "1.prems"(3) "1.IH" [OF _ "1.prems"(1,2)]
    by (subst rows_mirror.simps, subst (asm) mirrored.simps)
      (auto simp: list_all_iff row_table_lookup [OF "1.prems"(1,2)] has_table_def has_child_edge_def
        dest: stored_edge_id [OF "1.prems"(1,2)] simp del: set_map)
qed

lemma build_partition_rows:
  assumes "decode (encode (rq_relation_types request)) = Inr (rq_relation_types request)"
    and "build_partition U encode decode request snapshot tree = Inr p"
  shows "rows_closed (request_allowlist request) p" "rows_keyed p" "rows_mirror (ss_path snapshot) p tree"
proof -
  from spec_value [OF build_partition_spec [of decode encode request, OF assms(1)] assms(2)]
  obtain b where rows: "rows_of b p" and wb: "well_built (ss_path snapshot) (request_allowlist request) tree b"
    by (auto simp: rows_of_def)
  then have inv: "builder_inv b" "nb_relation_allowlist b = request_allowlist request"
    "nb_path b = ss_path snapshot" "mirrored b tree" by (simp_all add: well_built_def)
  show "rows_closed (request_allowlist request) p" using rows_closed_built [OF inv(1) rows] inv(2) by simp
  show "rows_keyed p" by (rule rows_keyed_built [OF inv(1) rows])
  show "rows_mirror (ss_path snapshot) p tree" using rows_mirror_built [OF inv(1) rows inv(4)] inv(3) by simp
qed

text \<open>A small input for the concrete instances: a file with one function.\<close>

definition sample_snapshot :: source_snapshot where
  "sample_snapshot =
     \<lparr>ss_path = ''src/lib.rs'', ss_absolute_path = ''/repo/src/lib.rs'', ss_content_hash = ''hash'',
      ss_language = Some ''rust'', ss_byte_len = 9, ss_source = None\<rparr>"

definition sample_tree :: syntax_node where
  "sample_tree =
     SyntaxNode ''source_file'' ''fn f() {}'' (Some 1) (Some 1) (Some 0) (Some 9) [] None
       [SyntaxNode ''function_item'' ''fn f() {}'' (Some 1) (Some 1) (Some 0) (Some 9)
          ''definition.function'' None [] [(''name'', JString ''f'')]] []"

lemma sample_partition_exists:
  "\<exists>p. build_partition ascii_tables (\<lambda>_. []) (\<lambda>_. Inr []) sample_request sample_snapshot sample_tree = Inr p"
proof -
  have rt: "rq_relation_types sample_request = []" by (simp add: sample_request_def)
  have "spec (policy_covers (allows (request_allowlist sample_request)))
     (build_partition ascii_tables (\<lambda>_. []) (\<lambda>_. Inr []) sample_request sample_snapshot sample_tree) (\<lambda>_. True)"
    by (rule spec_mono [OF build_partition_spec]) (simp_all add: rt)
  moreover have "policy_covers (allows (request_allowlist sample_request))"
    by (simp add: request_allowlist_def rt allows_default default_policy_covers)
  ultimately show ?thesis using spec_ok by blast
qed

section \<open>Properties\<close>

text \<open>
  C8. The materialization of a parsed file succeeds on every syntax tree whenever the policy of the
  request allows the relations the builder insists on: it neither runs out of the fuel of its
  recursions nor meets a missing node or a refused edge.
\<close>

theorem build_partition_total:
  assumes "decode (encode (rq_relation_types request)) = Inr (rq_relation_types request)"
    and "policy_covers (allows (request_allowlist request))"
  shows "\<exists>p. build_partition U encode decode request snapshot tree = Inr p"
  using spec_ok [OF build_partition_spec [of decode encode request, OF assms(1)] assms(2)] by blast

theorem build_partition_total_witness:
  "\<exists>p. build_partition ascii_tables (\<lambda>_. []) (\<lambda>_. Inr []) sample_request sample_snapshot sample_tree = Inr p"
  by (rule build_partition_total)
    (simp_all add: sample_request_def request_allowlist_def allows_default default_policy_covers)

text \<open>
  C21. With the ontology that is shipped with the program, or with none, no parsed file can make the
  materialization fail.
\<close>

theorem shipped_ontology_never_refuses:
  assumes "decode (encode (rq_relation_types request)) = Inr (rq_relation_types request)"
    and "rq_relation_types request = shipped_relation_types \<or> rq_relation_types request = []"
  shows "\<exists>p. build_partition U encode decode request snapshot tree = Inr p"
proof -
  have "policy_covers (allows (request_allowlist request))"
    using assms(2) shipped_policy_covers default_policy_covers
    by (auto simp: request_allowlist_def allows_default)
  with spec_ok [OF build_partition_spec [of decode encode request, OF assms(1)]] show ?thesis by blast
qed

theorem shipped_ontology_never_refuses_witness:
  "\<exists>p. build_partition ascii_tables (\<lambda>_. ''schema'') (\<lambda>_. Inr shipped_relation_types)
     (sample_request\<lparr>rq_relation_types := shipped_relation_types\<rparr>) sample_snapshot sample_tree = Inr p"
  by (rule shipped_ontology_never_refuses) simp_all

text \<open>
  C22. The materialization always returns, with a partition or with an error of the code, whatever
  the tree, the metadata and the ontology: the recursions over arena identifiers end.
\<close>

theorem build_partition_terminates:
  "build_partition U encode decode request snapshot tree \<noteq> Inl Diverged"
proof (cases "allowlist_from_meta decode (graph_meta U encode request snapshot)")
  case (Inl f)
  then show ?thesis
    by (cases f) (auto simp: build_partition_def build_syntax_tree_graph_rows_def builder_new_def
        allowlist_from_meta_def split: option.splits sum.splits)
next
  case (Inr al)
  from build_rows_spec [OF this, of U tree]
  have "build_syntax_tree_graph_rows U decode (graph_meta U encode request snapshot) tree \<noteq> Inl Diverged"
    by (auto simp: spec_def)
  then show ?thesis
    unfolding build_partition_def
    by (cases "build_syntax_tree_graph_rows U decode (graph_meta U encode request snapshot) tree") auto
qed

text \<open>
  C6. No edge of a partition dangles: both ends of every edge are nodes of the same partition, and
  the policy of the request allows the edge between the tables of its ends.
\<close>

theorem build_partition_closed:
  assumes "decode (encode (rq_relation_types request)) = Inr (rq_relation_types request)"
    and "build_partition U encode decode request snapshot tree = Inr p"
  shows "rows_closed (request_allowlist request) p"
  using build_partition_rows(1) [of decode encode request, OF assms] .

theorem build_partition_closed_witness:
  "\<exists>p. build_partition ascii_tables (\<lambda>_. []) (\<lambda>_. Inr []) sample_request sample_snapshot sample_tree = Inr p
     \<and> rows_closed default_allowlist p"
proof -
  obtain p where p: "build_partition ascii_tables (\<lambda>_. []) (\<lambda>_. Inr []) sample_request sample_snapshot sample_tree = Inr p"
    using sample_partition_exists by blast
  from build_partition_closed [OF _ p] have "rows_closed default_allowlist p"
    by (simp add: request_allowlist_def sample_request_def)
  with p show ?thesis by blast
qed

text \<open>
  C23. The rows of a partition are keyed and ordered: no two nodes and no two edges share an
  identifier, nodes are sorted by table and identifier, edges by type and identifier.
\<close>

theorem build_partition_keyed:
  assumes "decode (encode (rq_relation_types request)) = Inr (rq_relation_types request)"
    and "build_partition U encode decode request snapshot tree = Inr p"
  shows "rows_keyed p"
  using build_partition_rows(2) [of decode encode request, OF assms] .

theorem build_partition_keyed_witness:
  "\<exists>p. build_partition ascii_tables (\<lambda>_. []) (\<lambda>_. Inr []) sample_request sample_snapshot sample_tree = Inr p
     \<and> rows_keyed p"
proof -
  obtain p where p: "build_partition ascii_tables (\<lambda>_. []) (\<lambda>_. Inr []) sample_request sample_snapshot sample_tree = Inr p"
    using sample_partition_exists by blast
  from build_partition_keyed [OF _ p] have "rows_keyed p" by (simp add: sample_request_def)
  with p show ?thesis by blast
qed



text \<open>
  A freshly built partition passes the check that is run on stored partitions, also after it has
  been given its artifact key.
\<close>

lemma build_partition_validates:
  assumes "build_partition U encode decode request snapshot tree = Inr p"
  shows "validate_raw_rows p = Inr () \<and> validate_raw_rows (set_artifact_key key p) = Inr ()"
  using assms
  by (auto simp: build_partition_def try_op_Inr_iff validate_raw_rows_def manifest_entry_of_def
      set_artifact_key_def Let_def)

lemma sort_key_inj: "mset xs = mset ys \<Longrightarrow> inj_on f (set xs) \<Longrightarrow> sort_key f xs = sort_key f ys"
  by (rule sort_key_inj_key_eq) simp_all

lemma stored_inj:
  assumes "builder_inv b"
  shows "inj_on (\<lambda>n. (gn_table n, gn_id n)) (set (map snd (nb_nodes b)))"
    and "inj_on (\<lambda>e. (ge_edge_type e, ge_id e)) (set (map snd (nb_edges b)))"
proof -
  have n: "lookup_node b (gn_id n) = Some n" if "n \<in> set (map snd (nb_nodes b))" for n
    using that stored_keys(1) [OF assms] by auto
  have e: "lookup_edge b (ge_id e) = Some e" if "e \<in> set (map snd (nb_edges b))" for e
    using that stored_keys(2) [OF assms] by auto
  show "inj_on (\<lambda>n. (gn_table n, gn_id n)) (set (map snd (nb_nodes b)))"
    by (rule inj_onI) (metis n option.inject prod.inject)
  show "inj_on (\<lambda>e. (ge_edge_type e, ge_id e)) (set (map snd (nb_edges b)))"
    by (rule inj_onI) (metis e option.inject prod.inject)
qed

text \<open>
  C24. The rows do not depend on the iteration order of the builder's hash maps: two builders that
  store the same entries in a different order give the same list of rows.
\<close>

theorem into_rows_order_independent:
  assumes "builder_inv b" and "mset (nb_nodes b) = mset (nb_nodes b')" and "mset (nb_edges b) = mset (nb_edges b')"
  shows "into_rows b = into_rows b'"
proof -
  have "mset (map snd (nb_nodes b)) = mset (map snd (nb_nodes b'))"
    "mset (map snd (nb_edges b)) = mset (map snd (nb_edges b'))"
    using assms(2,3) by simp_all
  with sort_key_inj stored_inj [OF assms(1)] show ?thesis
    unfolding into_rows_def by (metis (no_types, lifting))
qed

definition empty_builder :: builder where
  "empty_builder =
     \<lparr>nb_path = [], nb_language = [], nb_grammar_version = None, nb_source_root = [],
      nb_repository_label = [], nb_nodes = [], nb_edges = [], nb_symbols_by_name = [],
      nb_relation_allowlist = default_allowlist\<rparr>"

lemma two_nodes_inv:
  assumes "support_node ascii_tables ''File'' k l p empty_builder = (n1, b1)"
    and "support_node ascii_tables ''SourceRoot'' k l p b1 = (n2, b2)"
  shows "builder_inv b2"
proof -
  have "good True empty_builder"
    by (simp add: good_def builder_inv_def empty_builder_def symbols_ok_def allows_default default_policy_covers)
  from makesD [OF support_node_makes this assms(1)] have "good True b1" by (auto intro: grown_good)
  from makesD [OF support_node_makes this assms(2)] show ?thesis by (simp add: grown_def good_def)
qed

theorem into_rows_order_independent_witness:
  "\<exists>b. into_rows b = into_rows (b\<lparr>nb_nodes := rev (nb_nodes b)\<rparr>) \<and> length (nb_nodes b) = 2"
proof -
  obtain n1 b1 where 1: "support_node ascii_tables ''File'' ''k'' ''l'' ''p'' empty_builder = (n1, b1)" by fastforce
  obtain n2 b2 where 2: "support_node ascii_tables ''SourceRoot'' ''k'' ''l'' ''p'' b1 = (n2, b2)" by fastforce
  have "length (nb_nodes b2) = 2"
    using 1 2 by (auto simp: support_node_def add_node_def empty_builder_def Let_def register_resolvable_def
        resolvable_tables_def entry_or_insert_def graph_id_def)
  moreover have "into_rows b2 = into_rows (b2\<lparr>nb_nodes := rev (nb_nodes b2)\<rparr>)"
    by (rule into_rows_order_independent [OF two_nodes_inv [OF 1 2]]) simp_all
  ultimately show ?thesis by blast
qed

end
