(* ===== verification/Selection.thy ===== *)
theory Selection
  imports Profiles
begin

text \<open>
  Which files of the source tree are scanned (\<^verbatim>\<open>src/source_selection.rs\<close>): path normalisation,
  glob patterns, generated and excluded parts, and the pruning of directories. The matcher is the
  index loop of the code; since nothing in its shape bounds the number of iterations it is a
  partial function whose value \<open>None\<close> means that it runs forever, and \<open>wildcard_match_glob\<close>
  shows that it always returns, with the answer of the recursive definition \<open>glob\<close> of the pattern
  language whenever the text has no star of its own.
\<close>

section \<open>Normalisation\<close>

text \<open>\<open>str::trim_start_matches(p)\<close> for a string: the prefix is removed as often as it occurs.\<close>

function trim_start_str :: "string \<Rightarrow> string \<Rightarrow> string" where
  "trim_start_str p s =
     (if p \<noteq> [] \<and> starts_with p s then trim_start_str p (drop (length p) s) else s)"
  by pat_completeness auto
termination
  by (relation "measure (\<lambda>(p, s). length s)") (auto simp: starts_with_def, metis diff_less length_greater_0_conv take_eq_Nil)

declare trim_start_str.simps [simp del]

definition trim_end_char :: "char \<Rightarrow> string \<Rightarrow> string" where
  "trim_end_char c s = rev (dropWhile (\<lambda>b. b = c) (rev s))"

definition ends_with_char :: "char \<Rightarrow> string \<Rightarrow> bool" where
  "ends_with_char c s \<longleftrightarrow> s \<noteq> [] \<and> last s = c"

definition strip_suffix :: "string \<Rightarrow> string \<Rightarrow> string option" where
  "strip_suffix p s = map_option rev (strip_prefix (rev p) (rev s))"

definition normalize_relative_pattern :: "string \<Rightarrow> string" where
  "normalize_relative_pattern pattern =
     replace_char (CHR 0x5C) (CHR ''/'') (trim_start_str ''./'' (trim pattern))"

definition normalize_relative_path :: "string \<Rightarrow> string" where
  "normalize_relative_path path =
     trim_matches_char (CHR ''/'') (replace_char (CHR 0x5C) (CHR ''/'') (trim_start_str ''./'' (trim path)))"

section \<open>Wildcards\<close>

partial_function (option) wildcard_loop ::
  "string \<Rightarrow> string \<Rightarrow> nat \<Rightarrow> nat \<Rightarrow> nat option \<Rightarrow> nat \<Rightarrow> bool option" where
  "wildcard_loop text pattern text_index pattern_index star_index match_index =
     (if text_index < length text then
        if pattern_index < length pattern
           \<and> (pattern ! pattern_index = CHR ''?'' \<or> pattern ! pattern_index = text ! text_index)
        then wildcard_loop text pattern (text_index + 1) (pattern_index + 1) star_index match_index
        else if pattern_index < length pattern \<and> pattern ! pattern_index = CHR ''*''
        then wildcard_loop text pattern text_index (pattern_index + 1) (Some pattern_index) text_index
        else case star_index of
               Some star \<Rightarrow>
                 wildcard_loop text pattern (match_index + 1) (star + 1) star_index (match_index + 1)
             | None \<Rightarrow> Some False
      else Some (dropWhile (\<lambda>c. c = CHR ''*'') (drop pattern_index pattern) = []))"

definition wildcard_match_bytes :: "string \<Rightarrow> string \<Rightarrow> bool option" where
  "wildcard_match_bytes text pattern = wildcard_loop text pattern 0 0 None 0"

text \<open>The pattern language: a star stands for any text, separators included.\<close>

fun glob :: "string \<Rightarrow> string \<Rightarrow> bool" where
  "glob [] t \<longleftrightarrow> t = []"
| "glob (c # p) [] \<longleftrightarrow> c = CHR ''*'' \<and> glob p []"
| "glob (c # p) (x # t) \<longleftrightarrow>
     (if c = CHR ''*'' then glob p (x # t) \<or> glob (c # p) t
      else (c = CHR ''?'' \<or> c = x) \<and> glob p t)"

lemma glob_star: "glob (CHR ''*'' # p) t \<longleftrightarrow> glob p t \<or> (t \<noteq> [] \<and> glob (CHR ''*'' # p) (tl t))"
  by (cases t) auto

lemma glob_star_iff: "glob (CHR ''*'' # p) t \<longleftrightarrow> (\<exists>k. glob p (drop k t))"
proof (induction t)
  case Nil
  then show ?case by simp
next
  case (Cons x t)
  have "(\<exists>k. glob p (drop k (x # t))) \<longleftrightarrow> glob p (x # t) \<or> (\<exists>k. glob p (drop k t))"
    by (metis drop0 drop_Suc_Cons not0_implies_Suc)
  with Cons show ?case by simp
qed

lemma glob_star_drop: "glob (CHR ''*'' # p) (drop k t) \<Longrightarrow> glob (CHR ''*'' # p) t"
  by (auto simp: glob_star_iff)

lemma glob_literal_length:
  "CHR ''*'' \<notin> set seg \<Longrightarrow> glob (seg @ p) t \<Longrightarrow> length seg \<le> length t \<and> glob p (drop (length seg) t)"
proof (induction seg arbitrary: t)
  case (Cons c seg)
  then show ?case by (cases t) auto
qed simp

lemma glob_stars_only: "glob p [] \<longleftrightarrow> dropWhile (\<lambda>c. c = CHR ''*'') p = []"
  by (induction p) auto

text \<open>
  The loop invariant: since the last star the code has matched, character by character, the piece
  of the pattern behind the star with the piece of the text behind \<open>match_index\<close>.
\<close>

definition loop_inv :: "string \<Rightarrow> string \<Rightarrow> nat \<Rightarrow> nat \<Rightarrow> nat option \<Rightarrow> nat \<Rightarrow> bool" where
  "loop_inv text pattern ti pi star mi \<longleftrightarrow>
     ti \<le> length text \<and> pi \<le> length pattern
     \<and> (case star of None \<Rightarrow> True
        | Some s \<Rightarrow> s < pi \<and> pattern ! s = CHR ''*'' \<and> mi \<le> ti \<and> ti - mi = pi - (s + 1)
            \<and> CHR ''*'' \<notin> set (take (pi - (s + 1)) (drop (s + 1) pattern)))"

definition retry :: "string \<Rightarrow> string \<Rightarrow> nat option \<Rightarrow> nat \<Rightarrow> bool" where
  "retry text pattern star mi =
     (case star of None \<Rightarrow> False
      | Some s \<Rightarrow> mi < length text \<and> glob (CHR ''*'' # drop (s + 1) pattern) (drop (mi + 1) text))"

definition accepts :: "string \<Rightarrow> string \<Rightarrow> nat \<Rightarrow> nat \<Rightarrow> nat option \<Rightarrow> nat \<Rightarrow> bool" where
  "accepts text pattern ti pi star mi \<longleftrightarrow>
     glob (drop pi pattern) (drop ti text) \<or> retry text pattern star mi"

text \<open>A retry needs the piece once more, strictly later in the text.\<close>

lemma retry_later:
  assumes "loop_inv text pattern ti pi star mi" and "retry text pattern star mi"
  shows "ti < length text \<and> (\<exists>k. glob (drop pi pattern) (drop (ti + 1 + k) text))"
proof -
  obtain s where s: "star = Some s" using assms(2) by (cases star) (auto simp: retry_def)
  define seg where "seg = take (pi - (s + 1)) (drop (s + 1) pattern)"
  have inv: "s < pi" "pi \<le> length pattern" "ti \<le> length text" "mi \<le> ti" "ti - mi = pi - (s + 1)"
    "CHR ''*'' \<notin> set seg" using assms(1) by (auto simp: loop_inv_def s seg_def)
  have seg: "drop (s + 1) pattern = seg @ drop pi pattern"
    using inv(1) by (simp add: seg_def) (metis Suc_leI append_take_drop_id drop_drop le_add_diff_inverse2)
  have len: "length seg = ti - mi" using inv by (simp add: seg_def)
  have "mi < length text" "glob (CHR ''*'' # seg @ drop pi pattern) (drop (mi + 1) text)"
    using assms(2) by (simp_all add: retry_def s flip: seg)
  then obtain k where k: "glob (seg @ drop pi pattern) (drop k (drop (mi + 1) text))"
    by (auto simp: glob_star_iff)
  from glob_literal_length [OF inv(6) k]
  have le: "length seg \<le> length (drop k (drop (mi + 1) text))"
    and g: "glob (drop pi pattern) (drop (length seg) (drop k (drop (mi + 1) text)))" by auto
  have "length seg + (k + (mi + 1)) = ti + 1 + k" using len inv(4) by simp
  then have "drop (length seg) (drop k (drop (mi + 1) text)) = drop (ti + 1 + k) text"
    by (metis add.assoc add.commute drop_drop)
  moreover have "ti < length text" using le len inv(3,4) \<open>mi < length text\<close> by auto
  ultimately show ?thesis using g by metis
qed

lemma retry_end: "loop_inv text pattern ti pi star mi \<Longrightarrow> ti = length text \<Longrightarrow> \<not> retry text pattern star mi"
  using retry_later by blast

lemma retry_star:
  assumes "loop_inv text pattern ti pi star mi" and "retry text pattern star mi"
    and "drop pi pattern = CHR ''*'' # q"
  shows "glob (drop pi pattern) (drop ti text)"
proof -
  obtain k where "glob (CHR ''*'' # q) (drop (ti + 1 + k) text)"
    using retry_later [OF assms(1,2)] assms(3) by auto
  then have "glob (CHR ''*'' # q) (drop (1 + k) (drop ti text))" by (simp add: ac_simps)
  then show ?thesis unfolding assms(3) by (rule glob_star_drop)
qed

definition loop_measure :: "string \<Rightarrow> string \<Rightarrow> nat \<Rightarrow> nat option \<Rightarrow> nat \<Rightarrow> nat \<times> nat \<times> nat" where
  "loop_measure text pattern ti star mi =
     (case star of None \<Rightarrow> (Suc (length text), 0, length text - ti)
      | Some s \<Rightarrow> (length text - mi, length pattern - s, length text - ti))"

lemma wildcard_loop_correct:
  assumes "CHR ''*'' \<notin> set text" and "loop_inv text pattern ti pi star mi"
  shows "wildcard_loop text pattern ti pi star mi = Some (accepts text pattern ti pi star mi)"
  using assms(2)
proof (induction "loop_measure text pattern ti star mi" arbitrary: ti pi star mi
    rule: wf_induct_rule [OF wf_lex_prod [OF wf_less_than wf_lex_prod [OF wf_less_than wf_less_than]]])
  case (1 ti star mi pi)
  note inv = "1.prems"
  let ?p = "drop pi pattern" and ?t = "drop ti text"
  have ti: "ti \<le> length text" and pi: "pi \<le> length pattern" using inv by (simp_all add: loop_inv_def)
  show ?case
  proof (cases "ti < length text")
    case False
    then have "ti = length text" using ti by simp
    then show ?thesis
      using retry_end [OF inv] by (subst wildcard_loop.simps) (simp add: accepts_def glob_stars_only)
  next
    case ti': True
    then obtain x t where t: "?t = x # t" and x: "x = text ! ti" "t = drop (ti + 1) text"
      by (metis Cons_nth_drop_Suc Suc_eq_plus1)
    have nostar: "x \<noteq> CHR ''*''" using assms(1) ti' x(1) by (metis nth_mem)
    consider (char) "pi < length pattern \<and> (pattern ! pi = CHR ''?'' \<or> pattern ! pi = text ! ti)"
      | (star) "pi < length pattern" "pattern ! pi = CHR ''*''"
      | (mismatch) "\<not> (pi < length pattern \<and> (pattern ! pi = CHR ''?'' \<or> pattern ! pi = text ! ti))"
          "\<not> (pi < length pattern \<and> pattern ! pi = CHR ''*'')"
      by blast
    then show ?thesis
    proof cases
      case char
      then have p: "?p = pattern ! pi # drop (pi + 1) pattern" by (simp add: Cons_nth_drop_Suc)
      have ns: "pattern ! pi \<noteq> CHR ''*''" using char nostar x by auto
      have inv': "loop_inv text pattern (ti + 1) (pi + 1) star mi"
      proof (cases star)
        case None
        then show ?thesis using inv ti' char by (simp add: loop_inv_def)
      next
        case (Some s)
        then have s: "s < pi" "ti - mi = pi - (s + 1)" "mi \<le> ti" "pattern ! s = CHR ''*''"
          "CHR ''*'' \<notin> set (take (pi - (s + 1)) (drop (s + 1) pattern))" using inv by (simp_all add: loop_inv_def)
        have "pi + 1 - (s + 1) = Suc (pi - (s + 1))" using s(1) by simp
        moreover have "drop (s + 1) pattern ! (pi - (s + 1)) = pattern ! pi" using s(1) char by simp
        moreover have "pi - (s + 1) < length (drop (s + 1) pattern)" using s(1) char by auto
        ultimately have "CHR ''*'' \<notin> set (take (pi + 1 - (s + 1)) (drop (s + 1) pattern))"
          using s(5) ns by (simp add: take_Suc_conv_app_nth)
        then show ?thesis using s ti' char Some by (simp add: loop_inv_def)
      qed
      have "wildcard_loop text pattern (ti + 1) (pi + 1) star mi =
          Some (accepts text pattern (ti + 1) (pi + 1) star mi)"
        by (rule "1.hyps" [OF _ inv']) (use ti' in \<open>auto simp: loop_measure_def split: option.splits\<close>)
      moreover have "accepts text pattern (ti + 1) (pi + 1) star mi = accepts text pattern ti pi star mi"
        unfolding accepts_def p t x(2) using char ns x(1) by auto
      ultimately show ?thesis using ti' char by (subst wildcard_loop.simps) simp
    next
      case star
      then have p: "?p = CHR ''*'' # drop (pi + 1) pattern" by (metis Cons_nth_drop_Suc Suc_eq_plus1)
      have ns: "\<not> (pattern ! pi = CHR ''?'' \<or> pattern ! pi = text ! ti)" using star nostar x(1) by auto
      have inv': "loop_inv text pattern ti (pi + 1) (Some pi) ti"
        using ti pi star by (simp add: loop_inv_def)
      have "wildcard_loop text pattern ti (pi + 1) (Some pi) ti =
          Some (accepts text pattern ti (pi + 1) (Some pi) ti)"
        by (rule "1.hyps" [OF _ inv'])
          (use ti' star(1) inv in \<open>auto simp: loop_measure_def loop_inv_def split: option.splits\<close>)
      moreover have "accepts text pattern ti (pi + 1) (Some pi) ti = glob ?p ?t"
        using ti' t x(2) by (auto simp: accepts_def retry_def p glob_star [of _ "drop ti text"])
      moreover have "accepts text pattern ti pi star mi = glob ?p ?t"
        using retry_star [OF inv _ p] by (auto simp: accepts_def)
      ultimately show ?thesis using ti' star ns by (subst wildcard_loop.simps) simp
    next
      case mismatch
      have no: "\<not> glob ?p ?t"
      proof (cases "pi < length pattern")
        case True
        then have "?p = pattern ! pi # drop (pi + 1) pattern" by (metis Cons_nth_drop_Suc Suc_eq_plus1)
        then show ?thesis using mismatch True by (auto simp: t x(1))
      qed (simp add: t)
      show ?thesis
      proof (cases star)
        case None
        then show ?thesis using ti' mismatch no
          by (subst wildcard_loop.simps) (auto simp: accepts_def retry_def)
      next
        case (Some s)
        then have s: "s < pi" "mi \<le> ti" "pattern ! s = CHR ''*''" using inv by (simp_all add: loop_inv_def)
        have inv': "loop_inv text pattern (mi + 1) (s + 1) (Some s) (mi + 1)"
          using s pi ti' by (simp add: loop_inv_def)
        have "wildcard_loop text pattern (mi + 1) (s + 1) (Some s) (mi + 1) =
            Some (accepts text pattern (mi + 1) (s + 1) (Some s) (mi + 1))"
          by (rule "1.hyps" [OF _ inv']) (use ti' s Some in \<open>auto simp: loop_measure_def\<close>)
        moreover have "accepts text pattern (mi + 1) (s + 1) (Some s) (mi + 1) =
            glob (CHR ''*'' # drop (s + 1) pattern) (drop (mi + 1) text)"
          using glob_star [of "drop (s + 1) pattern" "drop (mi + 1) text"]
          by (auto simp: accepts_def retry_def tl_drop drop_Suc)
        moreover have "accepts text pattern ti pi star mi =
            glob (CHR ''*'' # drop (s + 1) pattern) (drop (mi + 1) text)"
          using no ti' s(2) by (simp add: accepts_def retry_def Some)
        ultimately show ?thesis using ti' mismatch Some by (subst wildcard_loop.simps) auto
      qed
    qed
  qed
qed

lemma wildcard_match_glob:
  "CHR ''*'' \<notin> set text \<Longrightarrow> wildcard_match_bytes text pattern = Some (glob pattern text)"
  using wildcard_loop_correct [of "text" pattern 0 0 None 0]
  by (simp add: wildcard_match_bytes_def loop_inv_def accepts_def retry_def)

text \<open>The loop returns on every text, also where its answer is not that of \<open>glob\<close>.\<close>

definition loop_bounds :: "string \<Rightarrow> nat \<Rightarrow> nat \<Rightarrow> nat option \<Rightarrow> nat \<Rightarrow> bool" where
  "loop_bounds pattern ti pi star mi \<longleftrightarrow>
     (case star of None \<Rightarrow> True | Some s \<Rightarrow> s < pi \<and> s < length pattern \<and> mi \<le> ti)"

lemma wildcard_loop_returns:
  assumes "loop_bounds pattern ti pi star mi"
  shows "\<exists>r. wildcard_loop text pattern ti pi star mi = Some r"
  using assms
proof (induction "loop_measure text pattern ti star mi" arbitrary: ti pi star mi
    rule: wf_induct_rule [OF wf_lex_prod [OF wf_less_than wf_lex_prod [OF wf_less_than wf_less_than]]])
  case (1 ti star mi pi)
  note inv = "1.prems"
  show ?case
  proof (cases "ti < length text")
    case True
    have char: "\<exists>r. wildcard_loop text pattern (ti + 1) (pi + 1) star mi = Some r"
      by (rule "1.hyps")
        (use True inv in \<open>auto simp: loop_measure_def loop_bounds_def split: option.splits\<close>)
    have star: "\<exists>r. wildcard_loop text pattern ti (pi + 1) (Some pi) ti = Some r" if "pi < length pattern"
      by (rule "1.hyps")
        (use True that inv in \<open>auto simp: loop_measure_def loop_bounds_def split: option.splits\<close>)
    have retried: "\<exists>r. wildcard_loop text pattern (mi + 1) (s + 1) (Some s) (mi + 1) = Some r"
      if "star = Some s" for s
      by (rule "1.hyps") (use True that inv in \<open>auto simp: loop_measure_def loop_bounds_def\<close>)
    show ?thesis
      using char star retried by (subst wildcard_loop.simps) (auto split: option.splits)
  next
    case False
    then show ?thesis by (subst wildcard_loop.simps) simp
  qed
qed

definition wildcard_match :: "string \<Rightarrow> string \<Rightarrow> bool" where
  "wildcard_match text pattern \<longleftrightarrow> wildcard_match_bytes text pattern = Some True"

section \<open>Patterns\<close>

definition has_char :: "char \<Rightarrow> string \<Rightarrow> bool" where
  "has_char c s \<longleftrightarrow> c \<in> set s"

definition glob_matches :: "string \<Rightarrow> string \<Rightarrow> bool" where
  "glob_matches path raw_pattern =
     (let pattern = normalize_relative_pattern raw_pattern in
      if ends_with_char (CHR ''/'') pattern then
        (let directory = trim_end_char (CHR ''/'') pattern
         in path = directory \<or> starts_with (directory @ ''/'') path)
      else if \<not> has_char (CHR ''/'') pattern \<and> wildcard_match (rsplit_first (CHR ''/'') path) pattern
      then True
      else wildcard_match path pattern)"

definition live_pattern :: "string \<Rightarrow> bool" where
  "live_pattern pattern \<longleftrightarrow> pattern \<noteq> [] \<and> \<not> starts_with ''#'' pattern"

definition matches_any_pattern :: "string \<Rightarrow> string list \<Rightarrow> bool" where
  "matches_any_pattern path patterns =
     list_ex (glob_matches path) (filter live_pattern (map trim patterns))"

definition pattern_may_match_descendant :: "string \<Rightarrow> string \<Rightarrow> bool" where
  "pattern_may_match_descendant directory raw_pattern =
     (let pattern = normalize_relative_pattern raw_pattern in
      if \<not> live_pattern pattern then False
      else if ends_with_char (CHR ''/'') pattern then
        (let base = trim_end_char (CHR ''/'') pattern
         in base = directory \<or> starts_with (directory @ ''/'') base \<or> starts_with (base @ ''/'') directory)
      else if \<not> has_char (CHR ''/'') pattern then True
      else
        let literal_prefix = takeWhile (\<lambda>c. c \<noteq> CHR ''*'' \<and> c \<noteq> CHR ''?'') pattern;
            wildcard = has_char (CHR ''*'') pattern \<or> has_char (CHR ''?'') pattern
        in if literal_prefix = [] then True
           else let prefix = trim_end_char (CHR ''/'') literal_prefix in
             if wildcard \<and> starts_with prefix directory then True
             else prefix = directory \<or> starts_with (directory @ ''/'') prefix
                  \<or> starts_with (prefix @ ''/'') directory)"

definition pattern_proves_directory_excluded :: "string \<Rightarrow> string \<Rightarrow> bool" where
  "pattern_proves_directory_excluded directory pattern =
     (if \<not> live_pattern pattern then False
      else let normalized = normalize_relative_pattern pattern in
        if ends_with_char (CHR ''/'') normalized then directory = trim_end_char (CHR ''/'') normalized
        else case strip_suffix ''/**'' normalized of
               Some base \<Rightarrow> directory = base
             | None \<Rightarrow> False)"

definition patterns_prove_directory_excluded :: "string \<Rightarrow> string list \<Rightarrow> bool" where
  "patterns_prove_directory_excluded directory patterns =
     list_ex (pattern_proves_directory_excluded directory) (map trim patterns)"

section \<open>Selection\<close>

record source_selection =
  sel_excluded_parts :: "string list"
  sel_include_patterns :: "string list"
  sel_exclude_patterns :: "string list"
  sel_ignore_patterns :: "string list"

definition generated_parts :: "string list" where
  "generated_parts = [''.astro'', ''.kwiki'', ''.scryer'']"

definition is_generated_path :: "string \<Rightarrow> bool" where
  "is_generated_path relative =
     (let parts = split_char (CHR ''/'') relative in
      list_ex (\<lambda>(index, part). part \<in> set generated_parts
                 \<or> (starts_with ''dist-'' part \<and> index + 1 < length parts)) (enumerate 0 parts))"

definition is_generated_directory :: "string \<Rightarrow> bool" where
  "is_generated_directory relative =
     list_ex (\<lambda>part. part \<in> set generated_parts \<or> starts_with ''dist-'' part)
       (split_char (CHR ''/'') relative)"

definition has_hard_excluded_part :: "source_selection \<Rightarrow> string \<Rightarrow> bool" where
  "has_hard_excluded_part sel relative =
     list_ex (\<lambda>part. part \<in> set (sel_excluded_parts sel)) (split_char (CHR ''/'') relative)"

definition includes_file :: "source_selection \<Rightarrow> string \<Rightarrow> bool" where
  "includes_file sel raw_relative =
     (let relative = normalize_relative_path raw_relative in
      if relative = [] \<or> has_hard_excluded_part sel relative then False
      else
        let explicitly_included = matches_any_pattern relative (sel_include_patterns sel) in
        if sel_include_patterns sel \<noteq> [] \<and> \<not> explicitly_included then False
        else if is_generated_path relative \<and> \<not> explicitly_included then False
        else \<not> matches_any_pattern relative (sel_ignore_patterns sel)
             \<and> \<not> matches_any_pattern relative (sel_exclude_patterns sel))"

definition should_descend :: "source_selection \<Rightarrow> string \<Rightarrow> bool" where
  "should_descend sel raw_relative =
     (let relative = normalize_relative_path raw_relative;
          may_match = list_ex (pattern_may_match_descendant relative) (sel_include_patterns sel)
      in if relative = [] \<or> has_hard_excluded_part sel relative then False
         else if is_generated_directory relative \<and> (sel_include_patterns sel = [] \<or> \<not> may_match) then False
         else if sel_include_patterns sel \<noteq> [] \<and> \<not> may_match then False
         else if patterns_prove_directory_excluded relative (sel_ignore_patterns sel)
                 \<or> patterns_prove_directory_excluded relative (sel_exclude_patterns sel) then False
         else True)"

section \<open>Facts about trimming and splitting\<close>

definition grouped :: "rchar list \<Rightarrow> bool" where
  "grouped gs \<longleftrightarrow> list_all (\<lambda>g. g \<noteq> [] \<and> list_all is_continuation (tl g)) gs
     \<and> list_all (\<lambda>g. \<not> is_continuation (hd g)) (tl gs)"

lemma grouped_chars: "grouped (chars s)"
proof (induction s rule: chars.induct)
  case (2 b bs)
  let ?r = "dropWhile is_continuation bs"
  have "list_all is_continuation (takeWhile is_continuation bs)"
    by (auto simp: list_all_iff dest: set_takeWhileD)
  moreover have "list_all (\<lambda>g. \<not> is_continuation (hd g)) (chars ?r)"
  proof (cases ?r)
    case (Cons c cs)
    then have "\<not> is_continuation c" by (metis dropWhile_eq_Cons_conv)
    then show ?thesis using 2 Cons by (auto simp: grouped_def)
  next
    case Nil
    show ?thesis unfolding Nil by simp
  qed
  ultimately show ?case using 2 by (auto simp: grouped_def)
qed (simp add: grouped_def)

lemma while_hd: "xs = [] \<or> \<not> P (hd xs) \<Longrightarrow> takeWhile P xs = [] \<and> dropWhile P xs = xs"
  by (cases xs) auto

lemma chars_concat: "grouped gs \<Longrightarrow> chars (concat gs) = gs"
proof (induction gs)
  case (Cons g gs)
  then obtain b cs where g: "g = b # cs" "list_all is_continuation cs"
    by (cases g) (auto simp: grouped_def)
  have gs: "grouped gs" using Cons.prems by (cases gs) (auto simp: grouped_def)
  have hd: "concat gs = [] \<or> \<not> is_continuation (hd (concat gs))"
    using Cons.prems by (cases gs) (auto simp: grouped_def)
  have "takeWhile is_continuation (concat gs) = []" "dropWhile is_continuation (concat gs) = concat gs"
    using while_hd [of "concat gs" is_continuation] hd by blast+
  then have "takeWhile is_continuation (cs @ concat gs) = cs"
    "dropWhile is_continuation (cs @ concat gs) = concat gs"
    using g(2) by (simp_all add: list_all_iff takeWhile_append2 dropWhile_append2)
  then show ?case using Cons.IH [OF gs] by (simp add: g(1))
qed simp

lemma grouped_dropWhile: "grouped gs \<Longrightarrow> grouped (dropWhile P gs)"
proof (induction gs)
  case (Cons g gs)
  then have "grouped gs" by (cases gs) (auto simp: grouped_def)
  with Cons show ?case by auto
qed simp

lemma grouped_take: "grouped gs \<Longrightarrow> grouped (take n gs)"
  by (auto simp: grouped_def list_all_iff tl_take dest: in_set_takeD)

definition strip_groups :: "rchar list \<Rightarrow> rchar list" where
  "strip_groups gs = rev (dropWhile is_whitespace (rev (dropWhile is_whitespace gs)))"

lemma rev_dropWhile_rev: "\<exists>n. rev (dropWhile P (rev gs)) = take n gs"
  by (metis dropWhile_eq_drop rev_drop rev_rev_ident)

lemma dropWhile_idem: "dropWhile P (rev (dropWhile P (rev (dropWhile P xs)))) = rev (dropWhile P (rev (dropWhile P xs)))"
proof (cases "dropWhile P xs")
  case (Cons y ys)
  then have y: "\<not> P y" by (metis dropWhile_eq_Cons_conv)
  have "rev (dropWhile P (rev (y # ys))) = y # rev (dropWhile P (rev ys))"
    using y by (simp add: dropWhile_append)
  with Cons y show ?thesis by simp
next
  case Nil
  show ?thesis unfolding Nil by simp
qed

lemma strip_groups_idem: "strip_groups (strip_groups gs) = strip_groups gs"
  unfolding strip_groups_def dropWhile_idem by simp

lemma trim_idem [simp]: "trim (trim s) = trim s"
proof -
  have "grouped (strip_groups (chars s))"
    unfolding strip_groups_def
    using rev_dropWhile_rev [of is_whitespace "dropWhile is_whitespace (chars s)"]
      grouped_take [OF grouped_dropWhile [OF grouped_chars]] by metis
  then have "chars (trim s) = strip_groups (chars s)"
    by (simp add: trim_def chars_concat flip: strip_groups_def)
  then show ?thesis by (simp add: trim_def strip_groups_idem flip: strip_groups_def)
qed

lemma normalize_trim [simp]: "normalize_relative_pattern (trim q) = normalize_relative_pattern q"
  by (simp add: normalize_relative_pattern_def)

lemma split_char_nonempty [simp]: "split_char c s \<noteq> []"
  by (induction s) (auto split: list.splits)

lemma split_char_append: "split_char c (a @ c # b) = split_char c a @ split_char c b"
proof (induction a)
  case (Cons x a)
  then show ?case by (auto split: list.splits simp: Cons_eq_append_conv append_eq_Cons_conv)
qed simp

lemma trim_end_char_prefix: "\<exists>n. s = trim_end_char c s @ replicate n c"
proof -
  let ?w = "takeWhile (\<lambda>b. b = c) (rev s)"
  have "rev s = ?w @ dropWhile (\<lambda>b. b = c) (rev s)" by simp
  then have "s = trim_end_char c s @ rev ?w" by (metis rev_append rev_rev_ident trim_end_char_def)
  moreover have "?w = replicate (length ?w) c" by (rule replicate_eqI) (auto dest: set_takeWhileD)
  then have "rev ?w = replicate (length ?w) c" by (metis rev_replicate)
  ultimately show ?thesis by metis
qed

lemma starts_with_iff: "starts_with p s \<longleftrightarrow> (\<exists>r. s = p @ r)"
  unfolding starts_with_def by (metis append_eq_conv_conj)

lemma starts_with_refl [simp]: "starts_with p (p @ r)"
  by (auto simp: starts_with_iff)

lemma strip_suffix_Some: "strip_suffix p s = Some b \<Longrightarrow> s = b @ p"
  by (auto simp: strip_suffix_def strip_prefix_def starts_with_iff split: if_splits)
    (metis rev_append rev_rev_ident)

lemma rsplit_first_Nil: "rsplit_first c s = [] \<Longrightarrow> s = [] \<or> last s = c"
proof -
  assume *: "rsplit_first c s = []"
  show ?thesis
  proof (cases "rsplit_once c s")
    case None
    with * show ?thesis by (simp add: rsplit_first_def)
  next
    case (Some lr)
    then obtain l r where lr: "split_once c (rev s) = Some (r, l)" "lr = (rev l, rev r)"
      by (auto simp: rsplit_once_def)
    with * Some have "r = []" by (simp add: rsplit_first_def)
    with split_once_Some [OF lr(1)] have "rev s = c # l" by simp
    then have "s = rev l @ [c]" by (metis rev.simps(2) rev_rev_ident)
    then show ?thesis by simp
  qed
qed

lemma normalized_last: "normalize_relative_path f = f \<Longrightarrow> f \<noteq> [] \<Longrightarrow> last f \<noteq> CHR ''/''"
proof
  assume f: "normalize_relative_path f = f" "f \<noteq> []" "last f = CHR ''/''"
  obtain g where "f = rev (dropWhile (\<lambda>b. b = CHR ''/'') g)"
    using f(1) unfolding normalize_relative_path_def trim_matches_char_def by metis
  with f(2,3) show False
    by (metis (mono_tags, lifting) hd_dropWhile last_rev rev_is_Nil_conv)
qed

section \<open>Pruning is sound\<close>

lemma wildcard_match_iff: "CHR ''*'' \<notin> set text \<Longrightarrow> wildcard_match text pattern \<longleftrightarrow> glob pattern text"
  by (simp add: wildcard_match_def wildcard_match_glob)

lemma glob_prefix:
  "CHR ''*'' \<notin> set l \<Longrightarrow> CHR ''?'' \<notin> set l \<Longrightarrow> glob (l @ p) t \<Longrightarrow> \<exists>r. t = l @ r \<and> glob p r"
proof (induction l arbitrary: t)
  case (Cons c l)
  then show ?case by (cases t) auto
qed simp

lemma glob_same: "CHR ''*'' \<notin> set l \<Longrightarrow> glob p t \<Longrightarrow> glob (l @ p) (l @ t)"
  by (induction l) auto

lemma prefixes_of_path:
  assumes "d @ CHR ''/'' # rest = p @ r"
  shows "starts_with p d \<or> starts_with (d @ ''/'') p"
proof (cases "length p \<le> length d")
  case True
  then have "take (length p) (d @ CHR ''/'' # rest) = take (length p) d" by simp
  then show ?thesis by (simp add: assms starts_with_def)
next
  case False
  then have "take (length (d @ ''/'')) (p @ r) = take (length (d @ ''/'')) p" by simp
  moreover have "take (length (d @ ''/'')) (d @ CHR ''/'' # rest) = d @ ''/''" by simp
  ultimately show ?thesis by (simp only: assms starts_with_def simp_thms)
qed

lemma literal_prefix_split:
  fixes pattern :: string
  defines "l \<equiv> takeWhile (\<lambda>c. c \<noteq> CHR ''*'' \<and> c \<noteq> CHR ''?'') pattern"
  shows "CHR ''*'' \<notin> set l \<and> CHR ''?'' \<notin> set l
     \<and> pattern = l @ dropWhile (\<lambda>c. c \<noteq> CHR ''*'' \<and> c \<noteq> CHR ''?'') pattern"
  unfolding l_def by (auto dest: set_takeWhileD)

lemma may_match_sound:
  assumes f: "f = d @ CHR ''/'' # rest" and star: "CHR ''*'' \<notin> set f" and nf: "normalize_relative_path f = f"
    and live: "\<not> starts_with ''#'' (normalize_relative_pattern q)" and "glob_matches f q"
  shows "pattern_may_match_descendant d q"
proof -
  define pat where "pat = normalize_relative_pattern q"
  have base: "CHR ''*'' \<notin> set (rsplit_first (CHR ''/'') f)"
  proof -
    have "set (rsplit_first (CHR ''/'') f) \<subseteq> set f"
    proof (cases "rsplit_once (CHR ''/'') f")
      case (Some lr)
      then obtain l r where "split_once (CHR ''/'') (rev f) = Some (r, l)" "lr = (rev l, rev r)"
        by (auto simp: rsplit_once_def)
      with split_once_Some Some show ?thesis
        by (metis (no_types, lifting) Un_upper1 case_prod_conv option.case(2) rsplit_first_def set_append set_rev)
    qed (simp add: rsplit_first_def)
    with star show ?thesis by blast
  qed
  have "f \<noteq> []" by (simp add: f)
  then have base_ne: "rsplit_first (CHR ''/'') f \<noteq> []"
    using rsplit_first_Nil normalized_last [OF nf] by blast
  have ne: "pat \<noteq> []"
    using assms(5) base_ne \<open>f \<noteq> []\<close>
    by (auto simp: glob_matches_def Let_def pat_def [symmetric] ends_with_char_def wildcard_match_iff [OF base]
        wildcard_match_iff [OF star] split: if_splits)
  consider (dir) "ends_with_char (CHR ''/'') pat" | (base) "\<not> has_char (CHR ''/'') pat"
    | (deep) "\<not> ends_with_char (CHR ''/'') pat" "has_char (CHR ''/'') pat" by blast
  then show ?thesis
  proof cases
    case dir
    let ?b = "trim_end_char (CHR ''/'') pat"
    have "f = ?b \<or> starts_with (?b @ ''/'') f"
      using assms(5) dir by (simp add: glob_matches_def Let_def flip: pat_def)
    then obtain r where "d @ CHR ''/'' # rest = ?b @ r" and r: "r = [] \<or> (\<exists>r'. r = CHR ''/'' # r')"
      using f by (auto simp: starts_with_iff)
    moreover have "?b = d \<or> starts_with (?b @ ''/'') d" if "starts_with ?b d"
    proof -
      from that obtain u where u: "d = ?b @ u" by (auto simp: starts_with_iff)
      with calculation(1) have "u @ CHR ''/'' # rest = r" by simp
      with r have "u = [] \<or> (\<exists>u'. u = CHR ''/'' # u')" by (cases u) auto
      with u show ?thesis by (auto simp: starts_with_iff)
    qed
    ultimately have "?b = d \<or> starts_with (d @ ''/'') ?b \<or> starts_with (?b @ ''/'') d"
      using prefixes_of_path by blast
    with dir ne live show ?thesis
      by (simp add: pattern_may_match_descendant_def Let_def live_pattern_def flip: pat_def)
  next
    case base
    then have "\<not> ends_with_char (CHR ''/'') pat" using ne by (metis ends_with_char_def has_char_def last_in_set)
    with base ne live show ?thesis
      by (simp add: pattern_may_match_descendant_def Let_def live_pattern_def flip: pat_def)
  next
    case deep
    define l where "l = takeWhile (\<lambda>c. c \<noteq> CHR ''*'' \<and> c \<noteq> CHR ''?'') pat"
    define q' where "q' = dropWhile (\<lambda>c. c \<noteq> CHR ''*'' \<and> c \<noteq> CHR ''?'') pat"
    define pp where "pp = trim_end_char (CHR ''/'') l"
    have l: "CHR ''*'' \<notin> set l" "CHR ''?'' \<notin> set l" "pat = l @ q'"
      using literal_prefix_split [of pat] by (auto simp: l_def q'_def)
    have "glob pat f"
      using assms(5) deep by (simp add: glob_matches_def Let_def wildcard_match_iff [OF star] flip: pat_def)
    then obtain r where r: "f = l @ r" "glob q' r" using glob_prefix [OF l(1,2)] l(3) by metis
    obtain n where n: "l = pp @ replicate n (CHR ''/'')" using trim_end_char_prefix pp_def by blast
    have "d @ CHR ''/'' # rest = pp @ (replicate n (CHR ''/'') @ r)" using f r(1) n by simp
    then have pre: "starts_with pp d \<or> starts_with (d @ ''/'') pp" by (rule prefixes_of_path)
    have lit: "starts_with (d @ ''/'') pp" if "\<not> (has_char (CHR ''*'') pat \<or> has_char (CHR ''?'') pat)"
    proof -
      have "q' = []" using that by (auto simp: has_char_def q'_def)
      then have "f = pat" "l = pat" using r l(3) by auto
      moreover have "pp = pat"
        using deep(1) ne \<open>l = pat\<close>
        by (cases pat rule: rev_cases) (auto simp: pp_def trim_end_char_def ends_with_char_def)
      ultimately show ?thesis using f by (auto simp: starts_with_iff)
    qed
    have "pattern_may_match_descendant d q \<longleftrightarrow> (l = [] \<or>
        (has_char (CHR ''*'') pat \<or> has_char (CHR ''?'') pat) \<and> starts_with pp d
        \<or> pp = d \<or> starts_with (d @ ''/'') pp \<or> starts_with (pp @ ''/'') d)"
      using deep ne live
      by (simp add: pattern_may_match_descendant_def Let_def live_pattern_def l_def pp_def flip: pat_def)
    with pre lit show ?thesis by blast
  qed
qed

lemma excluded_sound:
  assumes "CHR ''*'' \<notin> set (d @ CHR ''/'' # rest)" and "pattern_proves_directory_excluded d q"
  shows "live_pattern q \<and> glob_matches (d @ CHR ''/'' # rest) q"
proof -
  define pat where "pat = normalize_relative_pattern q"
  have live: "live_pattern q" using assms(2) by (simp add: pattern_proves_directory_excluded_def split: if_splits)
  show ?thesis
  proof (cases "ends_with_char (CHR ''/'') pat")
    case True
    then have "d = trim_end_char (CHR ''/'') pat"
      using assms(2) live by (simp add: pattern_proves_directory_excluded_def Let_def flip: pat_def)
    with True live show ?thesis
      by (simp add: glob_matches_def Let_def starts_with_iff flip: pat_def)
  next
    case False
    then have "strip_suffix ''/**'' pat = Some d"
      using assms(2) live
      by (auto simp: pattern_proves_directory_excluded_def Let_def split: option.splits simp flip: pat_def)
    then have pat: "pat = d @ ''/**''" by (rule strip_suffix_Some)
    have "glob (d @ ''/**'') (d @ CHR ''/'' # rest)"
      using assms(1) by (intro glob_same) (auto simp: glob_star_iff intro: exI [of _ "length rest"])
    then show ?thesis
      using False live
      by (simp add: glob_matches_def Let_def has_char_def wildcard_match_iff [OF assms(1)] pat flip: pat_def)
  qed
qed

lemma parts_of_path: "split_char (CHR ''/'') (d @ CHR ''/'' # rest) = split_char (CHR ''/'') d @ split_char (CHR ''/'') rest"
  by (rule split_char_append)

lemma generated_path:
  assumes "is_generated_directory d"
  shows "is_generated_path (d @ CHR ''/'' # rest)"
proof -
  let ?ps = "split_char (CHR ''/'') d" and ?rs = "split_char (CHR ''/'') rest"
  obtain i where i: "i < length ?ps" "?ps ! i \<in> set generated_parts \<or> starts_with ''dist-'' (?ps ! i)"
    using assms by (auto simp: is_generated_directory_def list_ex_iff simp del: in_set_conv_nth) (metis in_set_conv_nth)+
  have "(i, ?ps ! i) \<in> set (enumerate 0 (?ps @ ?rs))"
    using i(1) by (auto simp: in_set_enumerate_eq nth_append)
  moreover have "i + 1 < length (?ps @ ?rs)" using i(1) by (cases ?rs) auto
  ultimately show ?thesis
    using i(2) unfolding is_generated_path_def Let_def parts_of_path list_ex_iff by blast
qed

section \<open>Properties\<close>

text \<open>
  C28. The wildcard matcher, an index loop that backtracks to the last star only, returns on every
  text and pattern; on a text without a star of its own its answer is that of the pattern
  language, where a star stands for any text and a question mark for any byte.
\<close>

theorem wildcard_match_correct:
  "(\<exists>r. wildcard_match_bytes text pattern = Some r)
   \<and> (CHR ''*'' \<notin> set text \<longrightarrow> wildcard_match_bytes text pattern = Some (glob pattern text))"
  using wildcard_loop_returns [of pattern 0 0 None 0 "text"]
  by (simp add: wildcard_match_glob wildcard_match_bytes_def loop_bounds_def flip: wildcard_match_bytes_def)

theorem wildcard_match_correct_witness:
  "wildcard_match_bytes ''src/main.rs'' ''s*/m??n.*'' = Some True"
proof -
  have "glob ''s*/m??n.*'' ''src/main.rs''" by simp
  then show ?thesis using wildcard_match_correct [of "''src/main.rs''" "''s*/m??n.*''"] by simp
qed



definition rust_sources :: source_selection where
  "rust_sources =
     \<lparr>sel_excluded_parts = [''target''], sel_include_patterns = [''src/*.rs''],
      sel_exclude_patterns = [''src/generated/''], sel_ignore_patterns = []\<rparr>"

lemma rust_sources_include: "includes_file rust_sources ''src/foo/a.rs''"
proof -
  have "glob ''src/*.rs'' ''src/foo/a.rs''" by simp
  then have "wildcard_match ''src/foo/a.rs'' ''src/*.rs''" by (simp add: wildcard_match_iff)
  moreover have "normalize_relative_path ''src/foo/a.rs'' = ''src/foo/a.rs''"
    "normalize_relative_pattern ''src/*.rs'' = ''src/*.rs''"
    "normalize_relative_pattern ''src/generated/'' = ''src/generated/''"
    "trim ''src/*.rs'' = ''src/*.rs''" "trim ''src/generated/'' = ''src/generated/''"
    by code_simp+
  ultimately show ?thesis
    by (simp add: includes_file_def rust_sources_def Let_def has_hard_excluded_part_def matches_any_pattern_def
        live_pattern_def glob_matches_def ends_with_char_def has_char_def starts_with_def
        is_generated_path_def generated_parts_def trim_end_char_def)
qed


definition hash_sources :: source_selection where
  "hash_sources =
     \<lparr>sel_excluded_parts = [], sel_include_patterns = [''./#a''],
      sel_exclude_patterns = [], sel_ignore_patterns = []\<rparr>"

text \<open>
  C31. The condition on include patterns is needed: with the include pattern \<open>./#a\<close> the file \<open>d/#a\<close>
  is selected, and yet its directory \<open>d\<close> is not descended into.
\<close>

theorem should_descend_hash_refuted:
  "includes_file hash_sources ''d/#a'' \<and> \<not> should_descend hash_sources ''d''"
proof -
  have "glob ''#a'' ''#a''" by simp
  then have "wildcard_match ''#a'' ''#a''" by (simp add: wildcard_match_iff)
  moreover have "normalize_relative_path ''d/#a'' = ''d/#a''" "normalize_relative_path ''d'' = ''d''"
    "normalize_relative_pattern ''./#a'' = ''#a''" "trim ''./#a'' = ''./#a''"
    "rsplit_first (CHR ''/'') ''d/#a'' = ''#a''"
    by code_simp+
  ultimately show ?thesis
    by (simp add: includes_file_def should_descend_def hash_sources_def Let_def has_hard_excluded_part_def
        matches_any_pattern_def live_pattern_def glob_matches_def ends_with_char_def has_char_def
        starts_with_def is_generated_path_def generated_parts_def pattern_may_match_descendant_def)
qed

end
