(* ===== verification/NativeErrors.thy ===== *)
theory NativeErrors
  imports Prelude
begin

text \<open>
  The error type of the crate (\<^verbatim>\<open>src/error.rs\<close>). An I/O error is represented by the kinds the code
  distinguishes, a JSON error by its message.
\<close>

datatype io_error = NotFound | UnexpectedEof | OtherIo string

datatype native_error =
    Io io_error
  | Json string
  | Database string
  | InvalidInput string
  | SourceChanged string
  | Unsupported string

text \<open>\<open>Result<_, NativeError>\<close> of a total function, and of one with fuel.\<close>

type_synonym 'a result = "native_error + 'a"
type_synonym 'a run = "native_error fail + 'a"

text \<open>A result inside a function with fuel: an error of the code stays an error of the code.\<close>

definition lift_result :: "'e + 'a \<Rightarrow> 'e fail + 'a" where
  "lift_result r = (case r of Inl e \<Rightarrow> Inl (Failed e) | Inr x \<Rightarrow> Inr x)"

lemma lift_result_simps [simp]:
  "lift_result (Inl e) = Inl (Failed e)"
  "lift_result (Inr x) = Inr x"
  by (simp_all add: lift_result_def)

lemma lift_result_Inr_iff: "lift_result r = Inr x \<longleftrightarrow> r = Inr x"
  by (cases r) simp_all

lemma lift_result_try: "lift_result (try_op r k) = try_op (lift_result r) (\<lambda>x. lift_result (k x))"
  by (cases r) auto

text \<open>\<open>for x in xs { body(x)?; }\<close>\<close>

fun try_fold :: "('a \<Rightarrow> 's \<Rightarrow> 'e + 's) \<Rightarrow> 'a list \<Rightarrow> 's \<Rightarrow> 'e + 's" where
  "try_fold body [] s = Inr s"
| "try_fold body (x # xs) s = try_op (body x s) (try_fold body xs)"

lemma lift_try_fold: "lift_result (try_fold body xs s) = try_fold (\<lambda>x s. lift_result (body x s)) xs s"
  by (induction xs arbitrary: s) (simp_all add: lift_result_try)

lemma spec_try_fold:
  assumes "P [] s" and "\<And>pre x post s. \<lbrakk>xs = pre @ x # post; P pre s\<rbrakk> \<Longrightarrow> spec S (body x s) (P (pre @ [x]))"
  shows "spec S (try_fold body xs s) (P xs)"
proof -
  have "P pre s \<Longrightarrow> xs = pre @ ys \<Longrightarrow> spec S (try_fold body ys s) (P xs)" for pre ys s
  proof (induction ys arbitrary: pre s)
    case (Cons y ys)
    from assms(2) [OF Cons.prems(2,1)] have "spec S (body y s) (P (pre @ [y]))" .
    then have "spec S (try_op (body y s) (try_fold body ys)) (P xs)"
      by (rule spec_try) (rule Cons.IH, use Cons.prems in simp_all)
    then show ?case by simp
  qed simp
  from this [of "[]" s xs] assms(1) show ?thesis by simp
qed

text \<open>\<open>checked_add\<close>, \<open>checked_mul\<close>, \<open>saturating_add\<close> and \<open>saturating_sub\<close> on unsigned words.\<close>

type_synonym u32 = "32 word"
type_synonym u64 = "64 word"

definition checked_add :: "'a::len word \<Rightarrow> 'a word \<Rightarrow> 'a word option" where
  "checked_add a b = (if unat a + unat b < 2 ^ LENGTH('a) then Some (a + b) else None)"

definition checked_mul :: "'a::len word \<Rightarrow> 'a word \<Rightarrow> 'a word option" where
  "checked_mul a b = (if unat a * unat b < 2 ^ LENGTH('a) then Some (a * b) else None)"

definition saturating_add :: "'a::len word \<Rightarrow> 'a word \<Rightarrow> 'a word" where
  "saturating_add a b = (case checked_add a b of Some c \<Rightarrow> c | None \<Rightarrow> - 1)"

definition saturating_mul :: "'a::len word \<Rightarrow> 'a word \<Rightarrow> 'a word" where
  "saturating_mul a b = (case checked_mul a b of Some c \<Rightarrow> c | None \<Rightarrow> - 1)"

definition saturating_sub :: "'a::len word \<Rightarrow> 'a word \<Rightarrow> 'a word" where
  "saturating_sub a b = (if b \<le> a then a - b else 0)"

lemma checked_add_Some:
  fixes a b c :: "'a::len word"
  shows "checked_add a b = Some c \<longleftrightarrow> unat a + unat b < 2 ^ LENGTH('a) \<and> unat c = unat a + unat b"
proof -
  have "unat (a + b) = unat a + unat b" if "unat a + unat b < 2 ^ LENGTH('a)"
    using that by (simp add: unat_word_ariths)
  then show ?thesis by (auto simp: checked_add_def word_unat_eq_iff)
qed

lemma checked_add_None:
  fixes a b :: "'a::len word"
  shows "checked_add a b = None \<longleftrightarrow> 2 ^ LENGTH('a) \<le> unat a + unat b"
  by (auto simp: checked_add_def)

lemma checked_mul_Some:
  fixes a b c :: "'a::len word"
  shows "checked_mul a b = Some c \<longleftrightarrow> unat a * unat b < 2 ^ LENGTH('a) \<and> unat c = unat a * unat b"
proof -
  have "unat (a * b) = unat a * unat b" if "unat a * unat b < 2 ^ LENGTH('a)"
    using that by (simp add: unat_word_ariths)
  then show ?thesis by (auto simp: checked_mul_def word_unat_eq_iff)
qed

lemma unat_saturating_add:
  fixes a b :: "'a::len word"
  shows "unat (saturating_add a b) = min (unat a + unat b) (2 ^ LENGTH('a) - 1)"
proof (cases "checked_add a b")
  case None
  then have "2 ^ LENGTH('a) \<le> unat a + unat b" by (simp add: checked_add_None)
  then have "2 ^ LENGTH('a) - 1 \<le> unat a + unat b" by (meson diff_le_self le_trans)
  then show ?thesis
    by (simp add: saturating_add_def None unsigned_minus_1_eq_mask mask_eq_exp_minus_1 min_absorb2)
next
  case (Some c)
  then have "unat a + unat b \<le> 2 ^ LENGTH('a) - 1" "unat c = unat a + unat b"
    by (auto simp: checked_add_Some)
  then show ?thesis by (simp add: saturating_add_def Some min_absorb1)
qed

lemma unat_saturating_sub: "unat (saturating_sub a b) = unat a - unat b"
  by (auto simp: saturating_sub_def unat_sub word_le_nat_alt)

text \<open>\<open>checked_\<dots>().ok_or_else(\<dots>)?\<close>: the arithmetic error as an error of the function.\<close>

definition or_invalid :: "string \<Rightarrow> 'a option \<Rightarrow> 'a result" where
  "or_invalid message r = (case r of None \<Rightarrow> Inl (InvalidInput message) | Some x \<Rightarrow> Inr x)"

lemma or_invalid_simps [simp]:
  "or_invalid message None = Inl (InvalidInput message)"
  "or_invalid message (Some x) = Inr x"
  by (simp_all add: or_invalid_def)

lemma or_invalid_Inr_iff: "or_invalid message r = Inr x \<longleftrightarrow> r = Some x"
  by (cases r) auto

text \<open>The same for a counter of 64 bits that is kept as a natural number.\<close>

definition max_u64 :: nat where
  "max_u64 = 2 ^ 64 - 1"

definition add_u64 :: "nat \<Rightarrow> nat \<Rightarrow> nat option" where
  "add_u64 a b = (if a + b \<le> max_u64 then Some (a + b) else None)"

end
