(* ===== verification/Scan.thy ===== *)
theory Scan
  imports Protocol Selection NativeErrors
begin

text \<open>
  The scan of the source tree and the diff against the previous manifest (\<^verbatim>\<open>src/scan.rs\<close>). The
  directory walk, file hashing and file lengths are the operating system's: the walk is the list
  of entries it yields, in its order, and hashing and lengths are functions of the entry that may
  fail. The whole scan, with the spool that copies sources into the staging directory, is in Snapshot.
\<close>

section \<open>The walk\<close>

record walk_entry =
  we_relative :: string
  we_absolute :: string
  we_is_file :: bool

record scan_state =
  sc_snapshots :: "(string, source_snapshot) btree_map"
  sc_supported :: "(string, source_snapshot) btree_map"
  sc_diagnostics :: "string list"

definition source_error :: "string \<Rightarrow> io_error \<Rightarrow> native_error" where
  "source_error path error = (case error of NotFound \<Rightarrow> SourceChanged path | _ \<Rightarrow> Io error)"

definition map_source_error :: "string \<Rightarrow> io_error + 'a \<Rightarrow> native_error + 'a" where
  "map_source_error path r = (case r of Inl error \<Rightarrow> Inl (source_error path error) | Inr x \<Rightarrow> Inr x)"

definition scan_entry ::
  "unicode \<Rightarrow> (string \<Rightarrow> io_error + string) \<Rightarrow> (string \<Rightarrow> io_error + nat) \<Rightarrow> profile_set \<Rightarrow> source_selection
     \<Rightarrow> walk_entry \<Rightarrow> scan_state \<Rightarrow> native_error + scan_state" where
  "scan_entry U hash_file file_len profiles sel entry st =
     (if \<not> we_is_file entry then Inr st
      else if \<not> includes_file sel (we_relative entry)
      then Inr (st\<lparr>sc_diagnostics := sc_diagnostics st @ [''Ignored file: '' @ we_relative entry]\<rparr>)
      else
        let path = we_relative entry;
            language = language_for_path U profiles (we_absolute entry)
        in case language of
             None \<Rightarrow>
               Inr (st\<lparr>sc_snapshots := btree_insert path
                         \<lparr>ss_path = path, ss_absolute_path = we_absolute entry, ss_content_hash = [],
                          ss_language = None, ss_byte_len = 0, ss_source = None\<rparr> (sc_snapshots st),
                       sc_diagnostics := sc_diagnostics st @ [''Skipped unsupported file: '' @ path]\<rparr>)
           | Some l \<Rightarrow>
               try_op (map_source_error path (hash_file (we_absolute entry))) (\<lambda>content_hash.
               try_op (map_source_error path (file_len (we_absolute entry))) (\<lambda>byte_len.
               let snapshot = \<lparr>ss_path = path, ss_absolute_path = we_absolute entry,
                               ss_content_hash = content_hash, ss_language = Some l,
                               ss_byte_len = byte_len, ss_source = None\<rparr>
               in Inr (st\<lparr>sc_snapshots := btree_insert path snapshot (sc_snapshots st),
                          sc_supported := btree_insert path snapshot (sc_supported st)\<rparr>))))"

fun scan_entries ::
  "unicode \<Rightarrow> (string \<Rightarrow> io_error + string) \<Rightarrow> (string \<Rightarrow> io_error + nat) \<Rightarrow> profile_set \<Rightarrow> source_selection
     \<Rightarrow> walk_entry list \<Rightarrow> scan_state \<Rightarrow> native_error + scan_state" where
  "scan_entries U hash_file file_len profiles sel [] st = Inr st"
| "scan_entries U hash_file file_len profiles sel (entry # entries) st =
     try_op (scan_entry U hash_file file_len profiles sel entry st)
       (scan_entries U hash_file file_len profiles sel entries)"

definition validate_profile_grammar_versions :: "language_profile list \<Rightarrow> native_error + unit" where
  "validate_profile_grammar_versions profiles =
     (case find (\<lambda>p. trim (lp_grammar_version p) = []) profiles of
        Some p \<Rightarrow> Inl (InvalidInput (''language profile '' @ lp_language p @ '' requires grammar_version''))
      | None \<Rightarrow> Inr ())"

section \<open>The diff\<close>

definition artifact_key_missing :: "manifest_entry \<Rightarrow> bool" where
  "artifact_key_missing entry \<longleftrightarrow> (case me_artifact_key entry of None \<Rightarrow> True | Some k \<Rightarrow> k = [])"

definition requires_full_source_rebuild :: "(digest_input \<Rightarrow> string + string) \<Rightarrow> request \<Rightarrow> bool" where
  "requires_full_source_rebuild digest request =
     (case rq_previous_manifest request of
        None \<Rightarrow> True
      | Some previous \<Rightarrow>
          nm_graph_build_digest previous \<noteq>
            (case graph_build_compatibility_digest digest request of Inl _ \<Rightarrow> None | Inr d \<Rightarrow> Some d)
          \<or> list_ex (\<lambda>(path, entry). artifact_key_missing entry) (nm_files previous))"

definition deleted_paths ::
  "native_manifest \<Rightarrow> (string, source_snapshot) btree_map \<Rightarrow> string list" where
  "deleted_paths previous supported =
     filter (\<lambda>path. map_of supported path = None) (map fst (nm_files previous))"

datatype change = Added | Modified | Unchanged

definition classify :: "native_manifest \<Rightarrow> string \<times> source_snapshot \<Rightarrow> change" where
  "classify previous = (\<lambda>(path, snapshot).
     case map_of (nm_files previous) path of
       None \<Rightarrow> Added
     | Some entry \<Rightarrow>
         if me_content_hash entry \<noteq> ss_content_hash snapshot
            \<or> me_language entry \<noteq> (case ss_language snapshot of Some l \<Rightarrow> l | None \<Rightarrow> [])
         then Modified else Unchanged)"

definition compute_diff :: "request \<Rightarrow> (string, source_snapshot) btree_map \<Rightarrow> bool \<Rightarrow> manifest_diff" where
  "compute_diff request supported full_rebuild =
     (case rq_previous_manifest request of
        None \<Rightarrow>
          \<lparr>md_added = map fst supported, md_modified = [], md_unchanged = [], md_deleted = [],
           md_force_rebuild = True\<rparr>
      | Some previous \<Rightarrow>
          let incompatible = nm_schema_version previous \<noteq> rq_manifest_schema_version request
                \<or> nm_ontology previous \<noteq> rq_ontology request
                \<or> nm_parser_version previous \<noteq> rq_parser_version request
          in if rq_mode request = ''full'' \<or> incompatible \<or> full_rebuild
             then \<lparr>md_added = map fst supported, md_modified = [], md_unchanged = [],
                   md_deleted = deleted_paths previous supported, md_force_rebuild = True\<rparr>
             else \<lparr>md_added = map fst (filter (\<lambda>e. classify previous e = Added) supported),
                   md_modified = map fst (filter (\<lambda>e. classify previous e = Modified) supported),
                   md_unchanged = map fst (filter (\<lambda>e. classify previous e = Unchanged) supported),
                   md_deleted = deleted_paths previous supported, md_force_rebuild = False\<rparr>)"

definition previous_files :: "request \<Rightarrow> (string, manifest_entry) btree_map" where
  "previous_files request = (case rq_previous_manifest request of None \<Rightarrow> [] | Some m \<Rightarrow> nm_files m)"

section \<open>Facts\<close>

lemma mset_filter_change:
  "mset (filter (\<lambda>e. f e = Added) xs) + mset (filter (\<lambda>e. f e = Modified) xs)
     + mset (filter (\<lambda>e. f e = Unchanged) xs) = mset xs"
proof (induction xs)
  case (Cons x xs)
  then show ?case by (cases "f x") (simp_all add: ac_simps)
qed simp

lemma diff_covers:
  "mset (md_added (compute_diff rq supported full) @ md_modified (compute_diff rq supported full)
      @ md_unchanged (compute_diff rq supported full)) = mset (map fst supported)"
proof (cases "rq_previous_manifest rq")
  case None
  then show ?thesis by (simp add: compute_diff_def)
next
  case (Some m)
  have "image_mset fst (mset (filter (\<lambda>e. classify m e = Added) supported)
      + mset (filter (\<lambda>e. classify m e = Modified) supported)
      + mset (filter (\<lambda>e. classify m e = Unchanged) supported)) = image_mset fst (mset supported)"
    by (simp only: mset_filter_change)
  with Some show ?thesis by (simp add: compute_diff_def Let_def ac_simps)
qed

lemma diff_unchanged:
  assumes "path \<in> set (md_unchanged (compute_diff rq supported full))"
  shows "\<exists>m e s. rq_previous_manifest rq = Some m \<and> map_of (nm_files m) path = Some e \<and> (path, s) \<in> set supported
     \<and> me_content_hash e = ss_content_hash s
     \<and> me_language e = (case ss_language s of Some l \<Rightarrow> l | None \<Rightarrow> [])
     \<and> \<not> full \<and> rq_mode rq \<noteq> ''full'' \<and> nm_schema_version m = rq_manifest_schema_version rq
     \<and> nm_ontology m = rq_ontology rq \<and> nm_parser_version m = rq_parser_version rq"
proof -
  obtain m where m: "rq_previous_manifest rq = Some m"
    using assms by (cases "rq_previous_manifest rq") (auto simp: compute_diff_def)
  then obtain s where s: "(path, s) \<in> set supported" "classify m (path, s) = Unchanged"
    and comp: "\<not> full" "rq_mode rq \<noteq> ''full''" "nm_schema_version m = rq_manifest_schema_version rq"
      "nm_ontology m = rq_ontology rq" "nm_parser_version m = rq_parser_version rq"
    using assms by (auto simp: compute_diff_def Let_def split: if_splits)
  from s(2) obtain e where "map_of (nm_files m) path = Some e" "me_content_hash e = ss_content_hash s"
    "me_language e = (case ss_language s of Some l \<Rightarrow> l | None \<Rightarrow> [])"
    by (auto simp: classify_def split: option.splits if_splits)
  with m s(1) comp show ?thesis by blast
qed

lemma diff_deleted:
  "set (md_deleted (compute_diff rq supported full)) = fst ` set (previous_files rq) - fst ` set supported"
  by (auto simp: compute_diff_def previous_files_def deleted_paths_def Let_def map_of_eq_None_iff split: option.splits)

section \<open>Properties\<close>

definition reusable :: "request \<Rightarrow> (string, source_snapshot) btree_map \<Rightarrow> string \<Rightarrow> bool" where
  "reusable rq supported path \<longleftrightarrow>
     (\<exists>e s. map_of (previous_files rq) path = Some e \<and> (path, s) \<in> set supported
        \<and> me_content_hash e = ss_content_hash s
        \<and> me_language e = (case ss_language s of Some l \<Rightarrow> l | None \<Rightarrow> []))"


definition two_snapshots :: "(string, source_snapshot) btree_map" where
  "two_snapshots =
     [(''a.rs'', \<lparr>ss_path = ''a.rs'', ss_absolute_path = ''/repo/a.rs'', ss_content_hash = ''h1'',
                  ss_language = Some ''rust'', ss_byte_len = 1, ss_source = None\<rparr>),
      (''b.rs'', \<lparr>ss_path = ''b.rs'', ss_absolute_path = ''/repo/b.rs'', ss_content_hash = ''h2'',
                  ss_language = Some ''rust'', ss_byte_len = 1, ss_source = None\<rparr>)]"

definition old_entry :: "string \<Rightarrow> string \<Rightarrow> manifest_entry" where
  "old_entry path content =
     \<lparr>me_path = path, me_content_hash = content, me_language = ''rust'', me_partition_id = [],
      me_artifact_key = Some ''k'', me_node_ids = [], me_edge_ids = [], me_node_types = [],
      me_edge_types = [], me_node_count = 0, me_edge_count = 0, me_materialized_at = ''unix:0''\<rparr>"

definition incremental_request :: request where
  "incremental_request = sample_request\<lparr>rq_previous_manifest := Some
     \<lparr>nm_schema_version = 1, nm_ontology = ''code_ontology_v1'', nm_parser_version = ''native-test'',
      nm_graph_build_digest = Some ''d'',
      nm_files = [(''a.rs'', old_entry ''a.rs'' ''h1''), (''c.rs'', old_entry ''c.rs'' ''h3'')]\<rparr>\<rparr>"


definition selected_snapshot :: "source_selection \<Rightarrow> string \<times> source_snapshot \<Rightarrow> bool" where
  "selected_snapshot sel = (\<lambda>(path, snapshot).
     ss_path snapshot = path \<and> includes_file sel path \<and> ss_language snapshot \<noteq> None)"

lemma btree_insert_all: "list_all P m \<Longrightarrow> P (k, v) \<Longrightarrow> list_all P (btree_insert k v m)"
  by (induction k v m rule: btree_insert.induct) auto

lemma scan_entry_selected:
  assumes "scan_entry U h l ps sel e st = Inr st'"
    and "list_all (selected_snapshot sel) (sc_supported st)" and "btree_inv (sc_supported st)"
  shows "list_all (selected_snapshot sel) (sc_supported st') \<and> btree_inv (sc_supported st')"
  using assms
  by (auto simp: scan_entry_def Let_def try_op_Inr_iff selected_snapshot_def btree_inv_insert
      intro!: btree_insert_all split: if_splits option.splits)


definition empty_scan :: scan_state where
  "empty_scan = \<lparr>sc_snapshots = [], sc_supported = [], sc_diagnostics = []\<rparr>"


end
