(* ===== verification/Bytes.thy ===== *)
theory Bytes
  imports NativeErrors
begin

text \<open>
  Binary files (\<^verbatim>\<open>src/search_index/io.rs\<close>): little-endian integers, magic headers, reads that fall
  short, and UTF-8. A file is the list of its bytes, an open reader the bytes that are still ahead
  of it, a writer the bytes written so far. Failures of the operating system (a full disk, a
  permission) are not modelled; a read past the end, which depends on the bytes, is.

  The locale \<open>record_format\<close> is the contract between the writers and the readers of a file that is
  a sequence of records. It is interpreted on the occurrence runs of the search index, on its
  lexicon and its postings, and on the length-prefixed records of the staging spool.
\<close>

section \<open>Little-endian integers\<close>

fun le_bytes :: "nat \<Rightarrow> nat \<Rightarrow> string" where
  "le_bytes 0 n = []"
| "le_bytes (Suc k) n = char_of (n mod 256) # le_bytes k (n div 256)"

fun le_value :: "string \<Rightarrow> nat" where
  "le_value [] = 0"
| "le_value (b # bs) = byte_of b + 256 * le_value bs"

lemma length_le_bytes [simp]: "length (le_bytes k n) = k"
  by (induction k arbitrary: n) auto

lemma le_value_le_bytes: "le_value (le_bytes k n) = n mod 256 ^ k"
proof (induction k arbitrary: n)
  case (Suc k)
  then show ?case by (simp add: mod_mult2_eq add.commute)
qed simp

lemma le_value_bound: "le_value bs < 256 ^ length bs"
proof (induction bs)
  case (Cons b bs)
  have "byte_of b < (256 :: nat)" by simp
  with Cons show ?case by (simp add: nat_less_le)
qed simp

text \<open>The four readers and writers of unsigned integers.\<close>

definition write_u32 :: "u32 \<Rightarrow> string" where
  "write_u32 v = le_bytes 4 (unat v)"

definition write_u64 :: "u64 \<Rightarrow> string" where
  "write_u64 v = le_bytes 8 (unat v)"

definition read_exact :: "nat \<Rightarrow> string \<Rightarrow> (string \<times> string) result" where
  "read_exact n reader =
     (if length reader < n then Inl (Io UnexpectedEof) else Inr (take n reader, drop n reader))"

definition read_u32 :: "string \<Rightarrow> (u32 \<times> string) result" where
  "read_u32 reader = try_op (read_exact 4 reader) (\<lambda>(bytes, rest). Inr (word_of_nat (le_value bytes), rest))"

definition read_u64 :: "string \<Rightarrow> (u64 \<times> string) result" where
  "read_u64 reader = try_op (read_exact 8 reader) (\<lambda>(bytes, rest). Inr (word_of_nat (le_value bytes), rest))"

definition read_optional_u32 :: "string \<Rightarrow> (u32 \<times> string) option result" where
  "read_optional_u32 reader =
     (case read_exact 4 reader of
        Inr (bytes, rest) \<Rightarrow> Inr (Some (word_of_nat (le_value bytes), rest))
      | Inl (Io UnexpectedEof) \<Rightarrow> Inr None
      | Inl error \<Rightarrow> Inl error)"

lemma length_write_u32 [simp]: "length (write_u32 v) = 4"
  by (simp add: write_u32_def)

lemma length_write_u64 [simp]: "length (write_u64 v) = 8"
  by (simp add: write_u64_def)

lemma read_exact_append [simp]: "length bs = n \<Longrightarrow> read_exact n (bs @ rest) = Inr (bs, rest)"
  by (simp add: read_exact_def)

lemma word_of_le_value:
  fixes v :: "'a::len word"
  assumes "LENGTH('a) = 8 * k"
  shows "word_of_nat (le_value (le_bytes k (unat v))) = v"
proof -
  have "unat v < 256 ^ k"
    using assms unsigned_less [of v] by (simp add: power_mult)
  then show ?thesis by (simp add: le_value_le_bytes)
qed

lemma read_u32_write [simp]: "read_u32 (write_u32 v @ rest) = Inr (v, rest)"
  by (simp add: read_u32_def write_u32_def word_of_le_value)

lemma read_u64_write [simp]: "read_u64 (write_u64 v @ rest) = Inr (v, rest)"
  by (simp add: read_u64_def write_u64_def word_of_le_value)

lemma read_optional_u32_write [simp]: "read_optional_u32 (write_u32 v @ rest) = Inr (Some (v, rest))"
  by (simp add: read_optional_u32_def write_u32_def word_of_le_value)

lemma read_optional_u32_Nil [simp]: "read_optional_u32 [] = Inr None"
  by (simp add: read_optional_u32_def read_exact_def)

section \<open>UTF-8\<close>

text \<open>
  \<open>utf8_head\<close> looks at the bytes at the front of a string as \<open>core::str\<close> does: \<open>Inr n\<close> when they
  begin with a well-formed character of \<open>n\<close> bytes, otherwise \<open>Inl\<close> the length of the longest prefix
  of one, together with whether the string ends there.
\<close>

definition utf8_width :: "char \<Rightarrow> nat" where
  "utf8_width c =
     (let b = byte_of c in
      if b < 128 then 1
      else if 194 \<le> b \<and> b \<le> 223 then 2
      else if 224 \<le> b \<and> b \<le> 239 then 3
      else if 240 \<le> b \<and> b \<le> 244 then 4
      else (0 :: nat))"

definition utf8_second :: "char \<Rightarrow> char \<Rightarrow> bool" where
  "utf8_second first c =
     (let b = byte_of first in
      if b = 224 then 160 \<le> byte_of c \<and> byte_of c < 192
      else if b = 237 then 128 \<le> byte_of c \<and> byte_of c < 160
      else if b = 240 then 144 \<le> byte_of c \<and> byte_of c < 192
      else if b = 244 then 128 \<le> byte_of c \<and> byte_of c < (144 :: nat)
      else is_continuation c)"

fun utf8_tail :: "nat \<Rightarrow> nat \<Rightarrow> string \<Rightarrow> nat \<times> bool + nat" where
  "utf8_tail seen 0 bs = Inr seen"
| "utf8_tail seen (Suc k) [] = Inl (seen, True)"
| "utf8_tail seen (Suc k) (b # bs) =
     (if is_continuation b then utf8_tail (Suc seen) k bs else Inl (seen, False))"

definition utf8_head :: "string \<Rightarrow> nat \<times> bool + nat" where
  "utf8_head s =
     (case s of
        [] \<Rightarrow> Inr 0
      | b # bs \<Rightarrow>
          if utf8_width b = 0 then Inl (1, False)
          else if utf8_width b = 1 then Inr 1
          else case bs of
                 [] \<Rightarrow> Inl (1, True)
               | c # cs \<Rightarrow> if utf8_second b c then utf8_tail 2 (utf8_width b - 2) cs else Inl (1, False))"

lemma utf8_tail_Inr: "utf8_tail seen k bs = Inr n \<longleftrightarrow> n = seen + k \<and> k \<le> length bs \<and> list_all is_continuation (take k bs)"
  by (induction seen k bs rule: utf8_tail.induct) auto

lemma utf8_tail_Inl: "utf8_tail seen k bs = Inl (n, e) \<Longrightarrow> 0 < seen \<Longrightarrow> 0 < n"
  by (induction seen k bs rule: utf8_tail.induct) (auto split: if_splits)

lemma utf8_head_Inr_pos: "utf8_head (b # bs) = Inr n \<Longrightarrow> 0 < n \<and> n \<le> length (b # bs)"
  by (auto simp: utf8_head_def utf8_tail_Inr utf8_width_def Let_def split: if_splits list.splits)

lemma utf8_head_Inl_pos: "utf8_head (b # bs) = Inl (n, e) \<Longrightarrow> 0 < n"
  by (auto simp: utf8_head_def dest: utf8_tail_Inl split: if_splits list.splits)

text \<open>\<open>str::from_utf8\<close>: the index of the first error and its length, \<open>None\<close> at the end of the bytes.\<close>

function utf8_error :: "nat \<Rightarrow> string \<Rightarrow> (nat \<times> nat option) option" where
  "utf8_error index [] = None"
| "utf8_error index (b # bs) =
     (case utf8_head (b # bs) of
        Inr n \<Rightarrow> utf8_error (index + n) (drop n (b # bs))
      | Inl (n, incomplete) \<Rightarrow> Some (index, if incomplete then None else Some n))"
  by pat_completeness auto
termination
  by (relation "measure (\<lambda>(_, s). length s)") (auto dest: utf8_head_Inr_pos)

definition utf8_valid :: "string \<Rightarrow> bool" where
  "utf8_valid s \<longleftrightarrow> utf8_error 0 s = None"

definition utf8_error_message :: "nat \<times> nat option \<Rightarrow> string" where
  "utf8_error_message = (\<lambda>(index, len).
     case len of
       Some n \<Rightarrow> ''invalid utf-8 sequence of '' @ string_of_nat n @ '' bytes from index '' @ string_of_nat index
     | None \<Rightarrow> ''incomplete utf-8 byte sequence from index '' @ string_of_nat index)"

text \<open>\<open>String::from_utf8_lossy\<close>: every maximal ill-formed piece becomes U+FFFD.\<close>

function from_utf8_lossy :: "string \<Rightarrow> string" where
  "from_utf8_lossy [] = []"
| "from_utf8_lossy (b # bs) =
     (case utf8_head (b # bs) of
        Inr n \<Rightarrow> take n (b # bs) @ from_utf8_lossy (drop n (b # bs))
      | Inl (n, _) \<Rightarrow> [CHR 0xEF, CHR 0xBF, CHR 0xBD] @ from_utf8_lossy (drop n (b # bs)))"
  by pat_completeness auto
termination
  by (relation "measure length") (auto dest: utf8_head_Inr_pos utf8_head_Inl_pos)

declare utf8_error.simps(2) [simp del] from_utf8_lossy.simps(2) [simp del]

lemma utf8_error_index: "utf8_error i s = None \<longleftrightarrow> utf8_error j s = None"
proof (induction i s arbitrary: j rule: utf8_error.induct)
  case (2 i b bs)
  show ?case
  proof (cases "utf8_head (b # bs)")
    case (Inl f)
    then show ?thesis by (cases f) (simp add: utf8_error.simps(2))
  next
    case (Inr n)
    with 2 [of n] show ?thesis by (simp add: utf8_error.simps(2))
  qed
qed simp

lemma utf8_head_append:
  assumes "utf8_head (b # bs) = Inr n"
  shows "utf8_head (b # bs @ t) = Inr n"
proof -
  have take: "k \<le> length cs \<Longrightarrow> take k (cs @ t) = take k cs" for k and cs :: string by simp
  show ?thesis
    using assms by (auto simp: utf8_head_def utf8_tail_Inr utf8_width_def Let_def take split: if_splits list.splits)
qed

lemma utf8_valid_append: "utf8_valid s \<Longrightarrow> utf8_valid t \<Longrightarrow> utf8_valid (s @ t)"
proof -
  have "utf8_error i s = None \<Longrightarrow> utf8_error j t = None \<Longrightarrow> utf8_error i (s @ t) = None" for i j
  proof (induction i s arbitrary: j rule: utf8_error.induct)
    case (1 i)
    then show ?case using utf8_error_index by auto
  next
    case (2 i b bs)
    from 2(2) obtain n where n: "utf8_head (b # bs) = Inr n"
      by (auto simp: utf8_error.simps(2) split: sum.splits)
    with 2(2) have "utf8_error (i + n) (drop n (b # bs)) = None" by (simp add: utf8_error.simps(2))
    from 2(1) [OF n this 2(3)] have "utf8_error (i + n) (drop n (b # bs) @ t) = None" .
    moreover from utf8_head_Inr_pos [OF n] have "drop n (b # bs @ t) = drop n (b # bs) @ t"
      by (metis Cons_eq_appendI diff_is_0_eq drop0 drop_append)
    ultimately show ?case using utf8_head_append [OF n] by (simp add: utf8_error.simps(2))
  qed
  then show "utf8_valid s \<Longrightarrow> utf8_valid t \<Longrightarrow> utf8_valid (s @ t)" by (simp add: utf8_valid_def)
qed

lemma utf8_valid_Nil [simp]: "utf8_valid []"
  by (simp add: utf8_valid_def)

lemma utf8_valid_concat: "list_all utf8_valid cs \<Longrightarrow> utf8_valid (concat cs)"
  by (induction cs) (auto intro: utf8_valid_append)

lemma from_utf8_lossy_valid: "utf8_valid s \<Longrightarrow> from_utf8_lossy s = s"
proof -
  have "utf8_error i s = None \<Longrightarrow> from_utf8_lossy s = s" for i
  proof (induction i s rule: utf8_error.induct)
    case (2 i b bs)
    from 2(2) obtain n where n: "utf8_head (b # bs) = Inr n"
      by (auto simp: utf8_error.simps(2) split: sum.splits)
    with 2(2) have "utf8_error (i + n) (drop n (b # bs)) = None" by (simp add: utf8_error.simps(2))
    from 2(1) [OF n this] n show ?case by (simp add: from_utf8_lossy.simps(2))
  qed simp
  then show "utf8_valid s \<Longrightarrow> from_utf8_lossy s = s" by (simp add: utf8_valid_def)
qed

section \<open>Directories\<close>

text \<open>A directory is a map from the names of its files to their contents.\<close>

type_synonym file_map = "string \<rightharpoonup> string"

definition open_file :: "file_map \<Rightarrow> string \<Rightarrow> string result" where
  "open_file files path = (case files path of None \<Rightarrow> Inl (Io NotFound) | Some bytes \<Rightarrow> Inr bytes)"

definition remove_file :: "string \<Rightarrow> file_map \<Rightarrow> file_map result" where
  "remove_file path files = (case files path of None \<Rightarrow> Inl (Io NotFound) | Some _ \<Rightarrow> Inr (files(path := None)))"

fun remove_files :: "string list \<Rightarrow> file_map \<Rightarrow> file_map result" where
  "remove_files [] files = Inr files"
| "remove_files (path # paths) files = try_op (remove_file path files) (remove_files paths)"

lemma remove_files_present:
  "distinct paths \<Longrightarrow> \<forall>path\<in>set paths. files path \<noteq> None \<Longrightarrow>
     remove_files paths files = Inr (\<lambda>path. if path \<in> set paths then None else files path)"
proof (induction paths arbitrary: files)
  case (Cons path paths)
  then have "remove_files paths (files(path := None)) =
      Inr (\<lambda>p. if p \<in> set paths then None else (files(path := None)) p)"
    by (intro Cons.IH) auto
  with Cons show ?case by (auto simp: remove_file_def fun_eq_iff)
qed simp

section \<open>Headers\<close>

definition read_magic :: "string \<Rightarrow> string \<Rightarrow> string result" where
  "read_magic reader expected =
     try_op (read_exact 8 reader) (\<lambda>(actual, rest).
       if actual \<noteq> expected
       then Inl (InvalidInput (''search sidecar has invalid file header: expected '' @ from_utf8_lossy expected
              @ '', found '' @ from_utf8_lossy actual))
       else Inr rest)"

lemma read_magic_append [simp]: "length expected = 8 \<Longrightarrow> read_magic (expected @ rest) expected = Inr rest"
  by (simp add: read_magic_def)

section \<open>Files of records\<close>

text \<open>
  A record format: \<open>encode\<close> writes one record, \<open>read_next\<close> is the loop body that reads the next one
  and tells the end of the file from a record. Reading back what was written, record by record,
  gives the records.
\<close>

fun read_all :: "('r \<Rightarrow> ('a \<times> 'r) option result) \<Rightarrow> nat \<Rightarrow> 'r \<Rightarrow> 'a list run" where
  "read_all read_next 0 reader = Inl Diverged"
| "read_all read_next (Suc fuel) reader =
     try_op (lift_result (read_next reader)) (\<lambda>item.
       case item of
         None \<Rightarrow> Inr []
       | Some (x, rest) \<Rightarrow> try_op (read_all read_next fuel rest) (\<lambda>xs. Inr (x # xs)))"

locale record_format =
  fixes encode :: "'a \<Rightarrow> string"
    and read_next :: "string \<Rightarrow> ('a \<times> string) option result"
    and writable :: "'a \<Rightarrow> bool"
  assumes read_next_record: "writable x \<Longrightarrow> read_next (encode x @ rest) = Inr (Some (x, rest))"
    and read_next_end: "read_next [] = Inr None"
begin

lemma encode_nonempty: "writable x \<Longrightarrow> encode x \<noteq> []"
  using read_next_record [of x "[]"] read_next_end by auto

lemma encode_inject: "writable x \<Longrightarrow> writable y \<Longrightarrow> encode x @ s = encode y @ t \<Longrightarrow> x = y \<and> s = t"
  by (metis Inr_inject option.inject prod.inject read_next_record)

lemma length_records: "list_all writable xs \<Longrightarrow> length xs \<le> length (concat (map encode xs))"
proof (induction xs)
  case (Cons x xs)
  then have "1 \<le> length (encode x)" using encode_nonempty by (simp add: Suc_le_eq)
  with Cons show ?case by simp
qed simp

lemma read_all_records:
  "list_all writable xs \<Longrightarrow> length xs < fuel \<Longrightarrow> read_all read_next fuel (concat (map encode xs)) = Inr xs"
proof (induction xs arbitrary: fuel)
  case Nil
  then show ?case by (cases fuel) (auto simp: read_next_end)
next
  case (Cons x xs)
  then show ?case by (cases fuel) (auto simp: read_next_record)
qed

lemma records_inject:
  "list_all writable xs \<Longrightarrow> list_all writable ys \<Longrightarrow> concat (map encode xs) = concat (map encode ys) \<Longrightarrow> xs = ys"
  using read_all_records [of xs "Suc (length xs + length ys)"] read_all_records [of ys "Suc (length xs + length ys)"]
  by simp

end

end
