(* ===== verification/Snapshot.thy ===== *)
theory Snapshot
  imports Scan Bytes Hash
begin

text \<open>
  The whole scan (\<^verbatim>\<open>src/scan.rs\<close>): the walk, the diff, and the spool that copies the sources to be
  rebuilt into the staging directory before they are parsed.

  The sources belong to somebody else and may change at any moment, so a source is a sequence of
  observations, \<open>reads path k\<close> being what the \<open>k\<close>-th access to \<open>path\<close> sees. The files that the run
  itself writes are cells of its disk: artifacts, by key, and files under the staging directory, by
  path. SHA-256, the walker and the text of an I/O error are arguments. Provenance records and leases of
  the storage layer are not modelled.
\<close>

section \<open>The disk of a run\<close>

datatype cell = Artifact string | Staged string

type_synonym disk = "cell \<rightharpoonup> string"

record scan_env =
  se_sha256 :: "string \<Rightarrow> string"
  se_describe :: "io_error \<Rightarrow> string"
  se_process_id :: nat
  se_walk :: "(string \<Rightarrow> bool) \<Rightarrow> (string + walk_entry) list"
  se_reads :: "string \<Rightarrow> nat \<Rightarrow> io_error + string"

definition sha256_hex :: "scan_env \<Rightarrow> string \<Rightarrow> string" where
  "sha256_hex env bytes = hex_lower (se_sha256 env bytes)"

definition sha256_file :: "scan_env \<Rightarrow> string \<Rightarrow> nat \<Rightarrow> io_error + string" where
  "sha256_file env path k = try_op (se_reads env path k) (\<lambda>bytes. Inr (sha256_hex env bytes))"

section \<open>The spool\<close>

definition source_snapshot_attempts :: nat where
  "source_snapshot_attempts = 3"

definition snapshot_root :: "request \<Rightarrow> string" where
  "snapshot_root request = rq_staging_dir request @ ''/source-snapshots''"

definition temporary_path :: "scan_env \<Rightarrow> string \<Rightarrow> string \<Rightarrow> nat \<Rightarrow> string" where
  "temporary_path env shard ident attempt =
     shard @ ''/.'' @ ident @ ''.'' @ string_of_nat (se_process_id env) @ ''.'' @ string_of_nat attempt @ ''.snapshot''"

definition final_path :: "string \<Rightarrow> string \<Rightarrow> string \<Rightarrow> string" where
  "final_path shard ident expected_hash = shard @ ''/'' @ ident @ ''-'' @ expected_hash @ ''.snapshot''"

text \<open>
  The attempts of \<open>spool_stable_source\<close>: each copies the source, reads it again, and publishes the
  copy when both observations have the expected hash. \<open>base\<close> numbers the first observation.
\<close>

fun spool_attempts ::
  "scan_env \<Rightarrow> string \<Rightarrow> nat \<Rightarrow> string \<Rightarrow> string \<Rightarrow> string \<Rightarrow> string \<Rightarrow> nat list \<Rightarrow> bool \<Rightarrow> string option \<Rightarrow> disk
     \<Rightarrow> (string \<times> nat) result \<times> disk" where
  "spool_attempts env source_path base shard ident relative expected_hash [] source_changed last_error d =
     ((if source_changed then Inl (SourceChanged relative)
       else Inl (InvalidInput (''source remained unstable after '' @ string_of_nat source_snapshot_attempts
              @ '' snapshot attempts: '' @ relative @ '': ''
              @ (case last_error of Some m \<Rightarrow> m | None \<Rightarrow> ''unknown snapshot failure'')))), d)"
| "spool_attempts env source_path base shard ident relative expected_hash (attempt # attempts) source_changed last_error d =
     (let temporary = temporary_path env shard ident attempt;
          final = final_path shard ident expected_hash;
          again = spool_attempts env source_path base shard ident relative expected_hash attempts
      in case se_reads env source_path (base + 2 * attempt) of
           Inl e \<Rightarrow> again (source_changed \<or> e = NotFound) (Some (se_describe env e)) (d(Staged temporary := None))
         | Inr copied \<Rightarrow>
        (case sha256_file env source_path (base + 2 * attempt + 1) of
           Inl e \<Rightarrow> again (source_changed \<or> e = NotFound) (Some (se_describe env e)) (d(Staged temporary := None))
         | Inr current_hash \<Rightarrow>
             if sha256_hex env copied \<noteq> expected_hash \<or> current_hash \<noteq> expected_hash
             then again True (Some ''source changed after its scan metadata was captured'') (d(Staged temporary := None))
             else case d (Staged final) of
                    Some existing \<Rightarrow>
                      if sha256_hex env existing = sha256_hex env copied
                      then (Inr (final, length copied), d(Staged temporary := None))
                      else (Inl (InvalidInput (''source snapshot collision for '' @ relative)),
                            d(Staged temporary \<mapsto> copied))
                  | None \<Rightarrow> (Inr (final, length copied), d(Staged temporary := None, Staged final \<mapsto> copied))))"

definition spool_stable_source ::
  "scan_env \<Rightarrow> string \<Rightarrow> nat \<Rightarrow> string \<Rightarrow> string \<Rightarrow> string \<Rightarrow> disk \<Rightarrow> (string \<times> nat) result \<times> disk" where
  "spool_stable_source env source_path base root relative expected_hash d =
     (let ident = partition_id relative;
          shard = root @ ''/'' @ take 2 ident
      in spool_attempts env source_path base shard ident relative expected_hash
           [0..<source_snapshot_attempts] False None d)"

definition respool :: "source_snapshot \<Rightarrow> string \<times> nat \<Rightarrow> source_snapshot" where
  "respool snapshot = (\<lambda>(path, byte_len). snapshot\<lparr>ss_absolute_path := path, ss_byte_len := byte_len\<rparr>)"

text \<open>\<open>Path::starts_with\<close> on normalized paths.\<close>

definition path_under :: "string \<Rightarrow> string \<Rightarrow> bool" where
  "path_under root path \<longleftrightarrow> path = root \<or> starts_with (root @ ''/'') path"

definition spool_snapshot_for_build ::
  "scan_env \<Rightarrow> request \<Rightarrow> source_snapshot \<Rightarrow> disk \<Rightarrow> source_snapshot result \<times> disk" where
  "spool_snapshot_for_build env request snapshot d =
     (if path_under (snapshot_root request) (ss_absolute_path snapshot) then (Inr snapshot, d)
      else case spool_stable_source env (ss_absolute_path snapshot) 8 (snapshot_root request)
                  (ss_path snapshot) (ss_content_hash snapshot) d of
             (Inl e, d) \<Rightarrow> (Inl e, d)
           | (Inr spooled, d) \<Rightarrow> (Inr (respool snapshot spooled), d))"

text \<open>\<open>for snapshot in supported.values_mut()\<close>: the entries not yet seen, and the two maps so far.\<close>

fun spool_each ::
  "scan_env \<Rightarrow> request \<Rightarrow> string list \<Rightarrow> (string \<times> source_snapshot) list
     \<Rightarrow> (string, source_snapshot) btree_map \<times> (string, source_snapshot) btree_map \<times> disk
     \<Rightarrow> ((string, source_snapshot) btree_map \<times> (string, source_snapshot) btree_map) result \<times> disk" where
  "spool_each env request required [] (snapshots, supported, d) = (Inr (snapshots, supported), d)"
| "spool_each env request required ((path, snapshot) # rest) (snapshots, supported, d) =
     (if ss_path snapshot \<notin> set required
      then spool_each env request required rest (snapshots, supported @ [(path, snapshot)], d)
      else case spool_stable_source env (ss_absolute_path snapshot) 2 (snapshot_root request)
                  (ss_path snapshot) (ss_content_hash snapshot) d of
             (Inl e, d) \<Rightarrow> (Inl e, d)
           | (Inr spooled, d) \<Rightarrow>
               let snapshot = respool snapshot spooled
               in spool_each env request required rest
                    (btree_insert (ss_path snapshot) snapshot snapshots, supported @ [(path, snapshot)], d))"

definition spool_supported_snapshots ::
  "scan_env \<Rightarrow> request \<Rightarrow> string list \<Rightarrow> (string, source_snapshot) btree_map \<Rightarrow> (string, source_snapshot) btree_map
     \<Rightarrow> disk \<Rightarrow> ((string, source_snapshot) btree_map \<times> (string, source_snapshot) btree_map) result \<times> disk" where
  "spool_supported_snapshots env request required snapshots supported d =
     (if required = [] then (Inr (snapshots, supported), d)
      else spool_each env request required supported (snapshots, [], d))"

section \<open>The scan\<close>

record source_scan =
  sn_input :: request
  sn_profiles :: "language_profile list"
  sn_snapshots :: "(string, source_snapshot) btree_map"
  sn_supported :: "(string, source_snapshot) btree_map"
  sn_diagnostics :: "string list"
  sn_diff :: manifest_diff

fun scan_walk ::
  "unicode \<Rightarrow> scan_env \<Rightarrow> profile_set \<Rightarrow> source_selection \<Rightarrow> (string + walk_entry) list \<Rightarrow> scan_state \<Rightarrow> scan_state result" where
  "scan_walk U env profiles sel [] st = Inr st"
| "scan_walk U env profiles sel (Inl message # entries) st = Inl (InvalidInput message)"
| "scan_walk U env profiles sel (Inr entry # entries) st =
     try_op (scan_entry U (\<lambda>path. sha256_file env path 0) (\<lambda>path. try_op (se_reads env path 1) (\<lambda>bytes. Inr (length bytes)))
               profiles sel entry st)
       (scan_walk U env profiles sel entries)"

definition request_selection :: "request \<Rightarrow> source_selection" where
  "request_selection request =
     \<lparr>sel_excluded_parts = sort (remdups (rq_excluded_parts request)),
      sel_include_patterns = rq_include_patterns request,
      sel_exclude_patterns = rq_exclude_patterns request,
      sel_ignore_patterns = rq_ignore_patterns request\<rparr>"

definition selected_languages :: "(string, source_snapshot) btree_map \<Rightarrow> string list" where
  "selected_languages supported = sort (remdups (List.map_filter (\<lambda>(path, s). ss_language s) supported))"

definition scan_sources ::
  "unicode \<Rightarrow> (digest_input \<Rightarrow> string + string) \<Rightarrow> scan_env \<Rightarrow> request \<Rightarrow> disk \<Rightarrow> source_scan result \<times> disk" where
  "scan_sources U digest env request d =
     (case validate_execution_options request of
        Inl m \<Rightarrow> (Inl (InvalidInput m), d)
      | Inr _ \<Rightarrow>
     (case validate_profile_grammar_versions (rq_profiles request) of
        Inl e \<Rightarrow> (Inl e, d)
      | Inr _ \<Rightarrow>
          let profiles = profile_set_new U (rq_profiles request);
              selection = request_selection request;
              full_rebuild = requires_full_source_rebuild digest request
          in case scan_walk U env profiles selection (se_walk env (should_descend selection))
                    \<lparr>sc_snapshots = [], sc_supported = [], sc_diagnostics = []\<rparr> of
               Inl e \<Rightarrow> (Inl e, d)
             | Inr st \<Rightarrow>
                 let diff = compute_diff request (sc_supported st) full_rebuild
                 in case spool_supported_snapshots env request (rebuild_paths diff) (sc_snapshots st) (sc_supported st) d of
                      (Inl e, d) \<Rightarrow> (Inl e, d)
                    | (Inr (snapshots, supported), d) \<Rightarrow>
                        (Inr \<lparr>sn_input = request, sn_profiles = selected_profiles profiles (selected_languages supported),
                              sn_snapshots = snapshots, sn_supported = supported,
                              sn_diagnostics = sc_diagnostics st, sn_diff = diff\<rparr>, d)))"

section \<open>Footprints\<close>

text \<open>
  An operation on the disk is local to a set of cells when it changes no other cell and what it
  returns and writes depends on no other cell. Operations with disjoint footprints do not interfere.
\<close>

definition local_to :: "'c set \<Rightarrow> (('c \<rightharpoonup> 'v) \<Rightarrow> 'r \<times> ('c \<rightharpoonup> 'v)) \<Rightarrow> bool" where
  "local_to F f \<longleftrightarrow>
     (\<forall>d c. c \<notin> F \<longrightarrow> snd (f d) c = d c)
     \<and> (\<forall>d d'. (\<forall>c\<in>F. d c = d' c) \<longrightarrow> fst (f d) = fst (f d') \<and> (\<forall>c\<in>F. snd (f d) c = snd (f d') c))"

lemma local_return: "local_to F (\<lambda>d. (x, d))"
  by (simp add: local_to_def)

lemma local_frame: "local_to F f \<Longrightarrow> c \<notin> F \<Longrightarrow> snd (f d) c = d c"
  by (simp add: local_to_def)

lemma local_result: "local_to F f \<Longrightarrow> \<forall>c\<in>F. d c = d' c \<Longrightarrow> fst (f d) = fst (f d')"
  by (simp add: local_to_def)

lemma local_cells: "local_to F f \<Longrightarrow> \<forall>c\<in>F. d c = d' c \<Longrightarrow> \<forall>c\<in>F. snd (f d) c = snd (f d') c"
  by (simp add: local_to_def)

lemma local_update: "c \<in> F \<Longrightarrow> local_to F f \<Longrightarrow> local_to F (\<lambda>d. f (d(c := v)))"
  unfolding local_to_def by auto

lemma local_read:
  assumes "c \<in> F" and "\<And>v. local_to F (g v)"
  shows "local_to F (\<lambda>d. g (d c) d)"
  using assms unfolding local_to_def by (metis (no_types, lifting))

lemma local_bind_result:
  assumes f: "local_to F f" and g: "\<And>d. local_to F (g (fst (f d)))"
  shows "local_to F (\<lambda>d. case f d of (r, d') \<Rightarrow> g r d')"
  unfolding local_to_def case_prod_beta
proof (intro conjI allI impI)
  fix d d' :: "'a \<rightharpoonup> 'b"
  assume same: "\<forall>c\<in>F. d c = d' c"
  note r = local_result [OF f same] and after = local_cells [OF f same]
  from local_result [OF g after, of d]
  show "fst (g (fst (f d)) (snd (f d))) = fst (g (fst (f d')) (snd (f d')))" by (simp add: r)
  from local_cells [OF g after, of d]
  show "\<forall>c\<in>F. snd (g (fst (f d)) (snd (f d))) c = snd (g (fst (f d')) (snd (f d'))) c" by (simp add: r)
qed (simp add: local_frame [OF g] local_frame [OF f])

lemma local_map: "local_to F f \<Longrightarrow> local_to F (\<lambda>d. case f d of (r, d') \<Rightarrow> (h r, d'))"
  by (rule local_bind_result) (simp_all add: local_return)

lemma local_depends:
  assumes k: "\<And>d d'. \<forall>c\<in>F. d c = d' c \<Longrightarrow> k d = k d'" and g: "\<And>r. local_to F (g r)"
  shows "local_to F (\<lambda>d. g (k d) d)"
  unfolding local_to_def
proof (intro conjI allI impI)
  fix d d' :: "'a \<rightharpoonup> 'b"
  assume same: "\<forall>c\<in>F. d c = d' c"
  show "fst (g (k d) d) = fst (g (k d') d')" using local_result [OF g same] by (simp add: k [OF same])
  show "\<forall>c\<in>F. snd (g (k d) d) c = snd (g (k d') d') c" using local_cells [OF g same] by (simp add: k [OF same])
qed (simp add: local_frame [OF g])

lemma local_mono:
  assumes f: "local_to F f" and FG: "F \<subseteq> G"
  shows "local_to G f"
  unfolding local_to_def
proof (intro conjI allI impI ballI)
  fix d d' :: "'a \<rightharpoonup> 'b"
  assume same: "\<forall>c\<in>G. d c = d' c"
  then have same': "\<forall>c\<in>F. d c = d' c" using FG by blast
  show "fst (f d) = fst (f d')" by (rule local_result [OF f same'])
  fix c
  assume "c \<in> G"
  then show "snd (f d) c = snd (f d') c"
    using local_cells [OF f same'] local_frame [OF f] same by (cases "c \<in> F") simp_all
qed (use FG in \<open>auto intro: local_frame [OF f]\<close>)

lemma local_disjoint:
  assumes f: "local_to F f" and g: "local_to G g" and "F \<inter> G = {}"
  shows "fst (f (snd (g d))) = fst (f d)" and "snd (f (snd (g d))) = snd (g (snd (f d)))"
proof -
  have F: "\<forall>c\<in>F. snd (g d) c = d c" using local_frame [OF g] assms(3) by blast
  have G: "\<forall>c\<in>G. snd (f d) c = d c" using local_frame [OF f] assms(3) by blast
  show "fst (f (snd (g d))) = fst (f d)" by (rule local_result [OF f F])
  show "snd (f (snd (g d))) = snd (g (snd (f d)))"
  proof
    fix c
    consider "c \<in> F" "c \<notin> G" | "c \<in> G" "c \<notin> F" | "c \<notin> F" "c \<notin> G" using assms(3) by blast
    then show "snd (f (snd (g d))) c = snd (g (snd (f d))) c"
      using local_cells [OF f F] local_cells [OF g G] local_frame [OF f] local_frame [OF g] by cases simp_all
  qed
qed

section \<open>What the spool does\<close>

definition shard_of :: "string \<Rightarrow> string \<Rightarrow> string" where
  "shard_of root relative = root @ ''/'' @ take 2 (partition_id relative)"

definition spooled_path :: "string \<Rightarrow> string \<Rightarrow> string \<Rightarrow> string" where
  "spooled_path root relative hash = final_path (shard_of root relative) (partition_id relative) hash"

definition spool_cells :: "scan_env \<Rightarrow> string \<Rightarrow> string \<Rightarrow> string \<Rightarrow> cell set" where
  "spool_cells env root relative hash =
     insert (Staged (spooled_path root relative hash))
       (range (\<lambda>attempt. Staged (temporary_path env (shard_of root relative) (partition_id relative) attempt)))"

lemma partition_id_plain:
  "CHR ''/'' \<notin> set (partition_id path)" "CHR ''.'' \<notin> set (partition_id path)" "length (partition_id path) = 20"
  using set_hex_lower [of "take 10 (sha1 path)"]
  by (auto simp: partition_id_def sha1_hex_def hex_chars_def)

text \<open>The last component of a path decides whether it is a temporary name.\<close>

lemma last_component_eq:
  assumes "dir @ ''/'' @ name = dir' @ ''/'' @ name'" and "CHR ''/'' \<notin> set name" "CHR ''/'' \<notin> set name'"
  shows "name = name'" and "dir = dir'"
proof -
  have "rev name @ CHR ''/'' # rev dir = rev name' @ CHR ''/'' # rev dir'"
    using arg_cong [OF assms(1), of rev] by simp
  then show "name = name'" "dir = dir'"
    using append_sep_eq [of "CHR ''/''" "rev name" "rev name'"] assms(2,3) by auto
qed

lemma digits_plain: "CHR ''/'' \<notin> set (string_of_nat k)"
  using string_of_nat_digits [of "CHR ''/''" k] by (auto simp: ascii_digit_def)

lemma temporary_not_final:
  assumes "CHR ''/'' \<notin> set hash"
  shows "temporary_path env shard (partition_id relative) attempt \<noteq> final_path shard' (partition_id relative') hash"
proof
  let ?t = "CHR ''.'' # partition_id relative @ ''.'' @ string_of_nat (se_process_id env) @ ''.'' @ string_of_nat attempt @ ''.snapshot''"
  let ?f = "partition_id relative' @ ''-'' @ hash @ ''.snapshot''"
  assume "temporary_path env shard (partition_id relative) attempt = final_path shard' (partition_id relative') hash"
  then have "shard @ ''/'' @ ?t = shard' @ ''/'' @ ?f" by (simp add: temporary_path_def final_path_def)
  moreover have "CHR ''/'' \<notin> set ?t" "CHR ''/'' \<notin> set ?f" using assms by (simp_all add: partition_id_plain digits_plain)
  ultimately have "?t = ?f" by (rule last_component_eq)
  then have "hd (partition_id relative' @ ''-'' @ hash @ ''.snapshot'') = CHR ''.''" by (metis list.sel(1))
  moreover have "partition_id relative' \<noteq> []" using partition_id_plain(3) [of relative'] by auto
  ultimately have "CHR ''.'' \<in> set (partition_id relative')" using hd_in_set [of "partition_id relative'"] by simp
  with partition_id_plain(2) show False by metis
qed

lemma spool_cells_disjoint:
  assumes "partition_id relative \<noteq> partition_id relative'"
    and "CHR ''/'' \<notin> set hash" "CHR ''/'' \<notin> set hash'"
  shows "spool_cells env dir relative hash \<inter> spool_cells env dir' relative' hash' = {}"
proof -
  have final: "spooled_path dir relative hash \<noteq> spooled_path dir' relative' hash'"
  proof
    assume "spooled_path dir relative hash = spooled_path dir' relative' hash'"
    then have "shard_of dir relative @ ''/'' @ (partition_id relative @ ''-'' @ hash @ ''.snapshot'')
        = shard_of dir' relative' @ ''/'' @ (partition_id relative' @ ''-'' @ hash' @ ''.snapshot'')"
      by (simp add: spooled_path_def final_path_def)
    then have "partition_id relative @ ''-'' @ hash @ ''.snapshot'' = partition_id relative' @ ''-'' @ hash' @ ''.snapshot''"
      by (rule last_component_eq) (use assms(2,3) in \<open>simp_all add: partition_id_plain\<close>)
    with assms(1) show False using partition_id_plain(3) by (metis append_eq_append_conv)
  qed
  have temporary: "temporary_path env (shard_of dir relative) (partition_id relative) a
      \<noteq> temporary_path env (shard_of dir' relative') (partition_id relative') b" for a b
  proof
    let ?rest = "\<lambda>k. ''.'' @ string_of_nat (se_process_id env) @ ''.'' @ string_of_nat k @ ''.snapshot''"
    assume "temporary_path env (shard_of dir relative) (partition_id relative) a
      = temporary_path env (shard_of dir' relative') (partition_id relative') b"
    then have "shard_of dir relative @ ''/'' @ (''.'' @ partition_id relative @ ?rest a)
        = shard_of dir' relative' @ ''/'' @ (''.'' @ partition_id relative' @ ?rest b)"
      by (simp add: temporary_path_def)
    then have "''.'' @ partition_id relative @ ?rest a = ''.'' @ partition_id relative' @ ?rest b"
      by (rule last_component_eq) (simp_all add: partition_id_plain digits_plain)
    then have "partition_id relative @ ?rest a = partition_id relative' @ ?rest b" by simp
    with assms(1) show False using partition_id_plain(3) by (metis append_eq_append_conv)
  qed
  have mixed: "temporary_path env shard (partition_id r) a \<noteq> spooled_path d r' h" if "CHR ''/'' \<notin> set h" for shard r a d r' h
    using temporary_not_final [OF that] by (simp add: spooled_path_def)
  show ?thesis
    using final temporary mixed [OF assms(2)] mixed [OF assms(3)] by (auto simp: spool_cells_def) metis+
qed

lemma local_attempts:
  assumes "Staged (final_path shard ident hash) \<in> F"
    and "\<And>attempt. Staged (temporary_path env shard ident attempt) \<in> F"
  shows "local_to F (spool_attempts env source_path base shard ident relative hash attempts source_changed last_error)"
proof (induction attempts arbitrary: source_changed last_error)
  case Nil
  then show ?case by (simp add: local_return)
next
  case (Cons attempt attempts)
  let ?t = "Staged (temporary_path env shard ident attempt)" and ?f = "Staged (final_path shard ident hash)"
  have again: "local_to F (\<lambda>d. spool_attempts env source_path base shard ident relative hash attempts ch le (d(?t := None)))"
    for ch le by (rule local_update [OF assms(2) Cons.IH])
  have publish: "local_to F (\<lambda>d. (x, d(?t := None, ?f \<mapsto> copied)))" "local_to F (\<lambda>d. (x, d(?t := v)))" for x v copied
    by (rule local_update [OF assms(2) local_update [OF assms(1) local_return]], rule local_update [OF assms(2) local_return])
  have final: "local_to F (\<lambda>d. case d ?f of
          Some existing \<Rightarrow> if sha256_hex env existing = sha256_hex env copied
            then (Inr (final_path shard ident hash, length copied), d(?t := None))
            else (Inl (InvalidInput (''source snapshot collision for '' @ relative)), d(?t \<mapsto> copied))
        | None \<Rightarrow> (Inr (final_path shard ident hash, length copied), d(?t := None, ?f \<mapsto> copied)))" for copied
    by (rule local_read [OF assms(1), where g = "\<lambda>v d. case v of
          Some existing \<Rightarrow> if sha256_hex env existing = sha256_hex env copied
            then (Inr (final_path shard ident hash, length copied), d(?t := None))
            else (Inl (InvalidInput (''source snapshot collision for '' @ relative)), d(?t \<mapsto> copied))
        | None \<Rightarrow> (Inr (final_path shard ident hash, length copied), d(?t := None, ?f \<mapsto> copied))"])
      (rename_tac v, case_tac v; case_tac "sha256_hex env (the v) = sha256_hex env copied"; simp add: publish)
  show ?case
  proof (cases "se_reads env source_path (base + 2 * attempt)")
    case (Inl e)
    with again show ?thesis by (simp add: Let_def)
  next
    case copied: (Inr copied)
    show ?thesis
    proof (cases "sha256_file env source_path (base + 2 * attempt + 1)")
      case (Inl e)
      with again copied show ?thesis by (simp add: Let_def)
    next
      case (Inr current)
      with again final copied show ?thesis
        by (cases "sha256_hex env copied \<noteq> hash \<or> current \<noteq> hash") (simp_all add: Let_def)
    qed
  qed
qed

lemma local_spool: "local_to (spool_cells env root relative hash) (spool_stable_source env source_path base root relative hash)"
  unfolding spool_stable_source_def Let_def
  by (rule local_attempts) (auto simp: spool_cells_def spooled_path_def shard_of_def)

text \<open>Whatever the source does in the meantime, what is published has the expected hash.\<close>

lemma spool_attempts_exact:
  assumes "spool_attempts env source_path base shard ident relative hash attempts source_changed last_error d = (Inr (path, byte_len), d')"
    and "\<And>attempt. temporary_path env shard ident attempt \<noteq> final_path shard ident hash"
  shows "path = final_path shard ident hash"
    and "\<exists>content. d' (Staged path) = Some content \<and> sha256_hex env content = hash"
    and "\<exists>k copied. se_reads env source_path k = Inr copied \<and> sha256_hex env copied = hash \<and> length copied = byte_len"
proof -
  have "path = final_path shard ident hash
      \<and> (\<exists>content. d' (Staged path) = Some content \<and> sha256_hex env content = hash)
      \<and> (\<exists>k copied. se_reads env source_path k = Inr copied \<and> sha256_hex env copied = hash \<and> length copied = byte_len)"
    using assms(1)
  proof (induction attempts arbitrary: source_changed last_error d)
    case (Cons attempt attempts)
    have ne: "final_path shard ident hash \<noteq> temporary_path env shard ident attempt" using assms(2) by metis
    show ?case
      using Cons.prems ne by (auto simp: Let_def split: sum.splits if_splits option.splits dest: Cons.IH)
  qed (auto split: if_splits)
  then show "path = final_path shard ident hash"
    "\<exists>content. d' (Staged path) = Some content \<and> sha256_hex env content = hash"
    "\<exists>k copied. se_reads env source_path k = Inr copied \<and> sha256_hex env copied = hash \<and> length copied = byte_len"
    by blast+
qed

lemma spool_exact:
  assumes "spool_stable_source env source_path base root relative hash d = (Inr (path, byte_len), d')"
    and "CHR ''/'' \<notin> set hash"
  shows "path = spooled_path root relative hash"
    and "\<exists>content. d' (Staged path) = Some content \<and> sha256_hex env content = hash"
    and "\<exists>k copied. se_reads env source_path k = Inr copied \<and> sha256_hex env copied = hash \<and> length copied = byte_len"
  using spool_attempts_exact [OF assms(1) [unfolded spool_stable_source_def Let_def] temporary_not_final [OF assms(2)]]
  by (simp_all add: spooled_path_def shard_of_def)

text \<open>A source that does not change is published at the first attempt.\<close>

lemma spool_stable:
  assumes "\<And>k. se_reads env source_path k = Inr content" and "sha256_hex env content = hash"
    and "CHR ''/'' \<notin> set hash"
    and "\<forall>existing. d (Staged (spooled_path root relative hash)) = Some existing \<longrightarrow> existing = content"
  shows "\<exists>d'. spool_stable_source env source_path base root relative hash d =
       (Inr (spooled_path root relative hash, length content), d')
     \<and> d' (Staged (spooled_path root relative hash)) = Some content"
proof -
  have "[0..<source_snapshot_attempts] = 0 # [1, 2]" by (simp add: source_snapshot_attempts_def upt_rec)
  moreover have "final_path shard (partition_id relative) hash \<noteq> temporary_path env shard (partition_id relative) 0" for shard
    using temporary_not_final [OF assms(3)] by metis
  ultimately show ?thesis
    using assms by (auto simp: spool_stable_source_def Let_def sha256_file_def spooled_path_def shard_of_def split: option.split)
qed

text \<open>Nothing that has been published is overwritten or removed.\<close>

lemma attempts_keep:
  assumes "d (Staged p) = Some content" and "\<And>attempt. temporary_path env shard ident attempt \<noteq> p"
  shows "snd (spool_attempts env source_path base shard ident relative hash attempts source_changed last_error d) (Staged p)
    = Some content"
  using assms(1)
proof (induction attempts arbitrary: source_changed last_error d)
  case (Cons attempt attempts)
  have "temporary_path env shard ident attempt \<noteq> p" by (rule assms(2))
  with Cons show ?case by (auto simp: Let_def split: sum.split option.split)
qed simp

lemma spool_keeps:
  assumes "d (Staged (spooled_path root relative hash)) = Some content" and "CHR ''/'' \<notin> set hash"
  shows "snd (spool_stable_source env source_path base root' relative' hash' d) (Staged (spooled_path root relative hash))
    = Some content"
  unfolding spool_stable_source_def Let_def
  by (rule attempts_keep [where d = d, OF assms(1)]) (simp add: spooled_path_def temporary_not_final [OF assms(2)])

definition spooled :: "scan_env \<Rightarrow> request \<Rightarrow> disk \<Rightarrow> source_snapshot \<Rightarrow> bool" where
  "spooled env request d s \<longleftrightarrow>
     ss_absolute_path s = spooled_path (snapshot_root request) (ss_path s) (ss_content_hash s)
     \<and> (\<exists>content. d (Staged (ss_absolute_path s)) = Some content \<and> sha256_hex env content = ss_content_hash s)"

definition scanned :: "string \<times> source_snapshot \<Rightarrow> bool" where
  "scanned = (\<lambda>(path, s). ss_path s = path \<and> CHR ''/'' \<notin> set (ss_content_hash s) \<and> ss_language s \<noteq> None)"

lemma respool_simps [simp]:
  "ss_path (respool s x) = ss_path s" "ss_content_hash (respool s x) = ss_content_hash s"
  "ss_language (respool s x) = ss_language s" "ss_source (respool s x) = ss_source s"
  "ss_absolute_path (respool s (path, n)) = path" "ss_byte_len (respool s (path, n)) = n"
  by (simp_all add: respool_def split: prod.split)

lemma spool_each_spooled:
  assumes "spool_each env request required rest (snapshots, supported, d) = (Inr (snapshots', supported'), d')"
    and "list_all scanned (supported @ rest)"
    and "\<forall>(path, s) \<in> set supported. path \<in> set required \<longrightarrow> spooled env request d s"
  shows "list_all scanned supported' \<and> map fst supported' = map fst (supported @ rest)
     \<and> (\<forall>(path, s) \<in> set supported'. path \<in> set required \<longrightarrow> spooled env request d' s)"
  using assms
proof (induction rest arbitrary: snapshots supported d)
  case (Cons x rest)
  obtain path s where x: "x = (path, s)" by fastforce
  have path: "ss_path s = path" and hash: "CHR ''/'' \<notin> set (ss_content_hash s)"
    using Cons.prems(2) x by (simp_all add: scanned_def)
  show ?case
  proof (cases "path \<in> set required")
    case False
    with Cons.IH [of snapshots "supported @ [x]" d] Cons.prems x path show ?thesis by (auto simp: scanned_def)
  next
    case True
    with Cons.prems(1) x path obtain p n d1 where
      sp: "spool_stable_source env (ss_absolute_path s) 2 (snapshot_root request) (ss_path s) (ss_content_hash s) d
        = (Inr (p, n), d1)"
      and rest: "spool_each env request required rest
        (btree_insert path (respool s (p, n)) snapshots, supported @ [(path, respool s (p, n))], d1) = (Inr (snapshots', supported'), d')"
      by (auto simp: Let_def split: prod.splits sum.splits)
    note ex = spool_exact [OF sp hash]
    have "spooled env request d1 (respool s (p, n))" using ex(1,2) by (simp add: spooled_def)
    moreover have "spooled env request d1 t" if "(q, t) \<in> set supported" "q \<in> set required" for q t
    proof -
      have t: "spooled env request d t" "CHR ''/'' \<notin> set (ss_content_hash t)"
        using Cons.prems(2,3) that by (auto simp: list_all_iff scanned_def)
      then obtain content where c: "d (Staged (spooled_path (snapshot_root request) (ss_path t) (ss_content_hash t))) = Some content"
        "sha256_hex env content = ss_content_hash t" by (auto simp: spooled_def)
      from spool_keeps [where d = d, OF c(1) t(2), of env "ss_absolute_path s" 2 "snapshot_root request" "ss_path s" "ss_content_hash s"] sp c(2) t(1)
      show ?thesis by (auto simp: spooled_def)
    qed
    ultimately have inv: "\<forall>(q, t) \<in> set (supported @ [(path, respool s (p, n))]). q \<in> set required \<longrightarrow> spooled env request d1 t"
      by auto
    have "list_all scanned ((supported @ [(path, respool s (p, n))]) @ rest)"
      using Cons.prems(2) x by (simp add: scanned_def)
    from Cons.IH [OF rest this inv] x show ?thesis by simp
  qed
qed auto

lemma sha256_hex_plain: "CHR ''/'' \<notin> set (sha256_hex env bytes)"
  using set_hex_lower [of "se_sha256 env bytes"] by (auto simp: sha256_hex_def hex_chars_def)

lemma scanned_pair:
  "scanned (path, s) \<longleftrightarrow> ss_path s = path \<and> CHR ''/'' \<notin> set (ss_content_hash s) \<and> ss_language s \<noteq> None"
  by (simp add: scanned_def)

lemma scanned_insert: "list_all scanned m \<Longrightarrow> scanned (k, v) \<Longrightarrow> list_all scanned (btree_insert k v m)"
  by (induction m) auto

lemma scan_entry_scanned:
  assumes "scan_entry U (\<lambda>path. sha256_file env path 0) file_len profiles sel entry st = Inr st'"
    and "list_all scanned (sc_supported st)"
  shows "list_all scanned (sc_supported st')"
proof -
  have "CHR ''/'' \<notin> set h" if "map_source_error path (sha256_file env abs 0) = Inr h" for path abs h
    using that sha256_hex_plain by (auto simp: map_source_error_def sha256_file_def try_op_Inr_iff split: sum.splits)
  with assms show ?thesis
    by (auto simp: scan_entry_def Let_def try_op_Inr_iff scanned_pair split: if_splits option.splits intro!: scanned_insert)
qed

lemma scan_walk_scanned:
  "scan_walk U env profiles sel entries st = Inr st' \<Longrightarrow> list_all scanned (sc_supported st)
     \<Longrightarrow> list_all scanned (sc_supported st')"
  by (induction U env profiles sel entries st rule: scan_walk.induct)
    (auto simp: try_op_Inr_iff dest: scan_entry_scanned)

section \<open>Properties\<close>

text \<open>
  C11. The sources to be parsed are frozen. However the sources change while they are scanned, hashed
  and copied, a scan that returns has, for every file that has to be rebuilt, a copy in the staging
  directory whose SHA-256 is the hash recorded in the file's snapshot, and the snapshot names that copy.
\<close>

theorem scan_freezes_sources:
  assumes "scan_sources U digest env request d = (Inr scan, d')"
    and "(path, s) \<in> set (sn_supported scan)" and "path \<in> set (rebuild_paths (sn_diff scan))"
  shows "(\<exists>content. d' (Staged (ss_absolute_path s)) = Some content \<and> sha256_hex env content = ss_content_hash s)
       \<and> path_under (snapshot_root request) (ss_absolute_path s)"
proof -
  from assms(1) obtain st where
    walk: "scan_walk U env (profile_set_new U (rq_profiles request)) (request_selection request)
        (se_walk env (should_descend (request_selection request))) \<lparr>sc_snapshots = [], sc_supported = [], sc_diagnostics = []\<rparr> = Inr st"
    and spool: "spool_supported_snapshots env request (rebuild_paths (sn_diff scan)) (sc_snapshots st) (sc_supported st) d
        = (Inr (sn_snapshots scan, sn_supported scan), d')"
    by (auto simp: scan_sources_def Let_def split: sum.splits prod.splits)
  have "list_all scanned (sc_supported st)" using scan_walk_scanned [OF walk] by simp
  moreover have "spool_each env request (rebuild_paths (sn_diff scan)) (sc_supported st) (sc_snapshots st, [], d)
      = (Inr (sn_snapshots scan, sn_supported scan), d')"
    using spool assms(3) by (auto simp: spool_supported_snapshots_def split: if_splits)
  ultimately have sp: "spooled env request d' s" using spool_each_spooled assms(2,3) by fastforce
  then have "\<exists>content. d' (Staged (ss_absolute_path s)) = Some content \<and> sha256_hex env content = ss_content_hash s"
    unfolding spooled_def by blast
  with sp show ?thesis
    by (auto simp: spooled_def spooled_path_def final_path_def shard_of_def path_under_def starts_with_def)
qed

text \<open>A repository with one file that does not change.\<close>

definition sample_source :: string where
  "sample_source = ''fn f() {}''"

definition sample_scan_env :: scan_env where
  "sample_scan_env =
     \<lparr>se_sha256 = sha1, se_describe = (\<lambda>_. []), se_process_id = 7,
      se_walk = (\<lambda>_. [Inr \<lparr>we_relative = ''src/lib.rs'', we_absolute = ''src/lib.rs'', we_is_file = True\<rparr>]),
      se_reads = (\<lambda>_ _. Inr sample_source)\<rparr>"

definition scanned_sample :: source_snapshot where
  "scanned_sample =
     \<lparr>ss_path = ''src/lib.rs'', ss_absolute_path = ''src/lib.rs'', ss_content_hash = sha256_hex sample_scan_env sample_source,
      ss_language = Some ''rust'', ss_byte_len = length sample_source, ss_source = None\<rparr>"

lemma sample_scan_walk:
  "scan_walk ascii_tables sample_scan_env (profile_set_new ascii_tables []) (request_selection sample_request)
     (se_walk sample_scan_env (should_descend (request_selection sample_request))) \<lparr>sc_snapshots = [], sc_supported = [], sc_diagnostics = []\<rparr>
   = Inr \<lparr>sc_snapshots = [(''src/lib.rs'', scanned_sample)], sc_supported = [(''src/lib.rs'', scanned_sample)], sc_diagnostics = []\<rparr>"
proof -
  have "includes_file (request_selection sample_request) ''src/lib.rs''" by code_simp
  moreover have "language_for_path ascii_tables (profile_set_new ascii_tables []) ''src/lib.rs'' = Some ''rust''" by code_simp
  ultimately show ?thesis
    by (simp add: sample_scan_env_def scan_entry_def Let_def sha256_file_def map_source_error_def scanned_sample_def)
qed

lemma sample_scan:
  assumes "\<forall>p. d (Staged p) = None"
  shows "\<exists>scan d'. scan_sources ascii_tables (\<lambda>_. Inr []) sample_scan_env sample_request d = (Inr scan, d')
     \<and> sn_input scan = sample_request
     \<and> sn_supported scan = [(''src/lib.rs'', respool scanned_sample
          (spooled_path (snapshot_root sample_request) ''src/lib.rs'' (ss_content_hash scanned_sample), length sample_source))]
     \<and> rebuild_paths (sn_diff scan) = [''src/lib.rs'']
     \<and> d' (Staged (spooled_path (snapshot_root sample_request) ''src/lib.rs'' (ss_content_hash scanned_sample))) = Some sample_source"
proof -
  have diff: "compute_diff sample_request [(''src/lib.rs'', scanned_sample)] full =
      \<lparr>md_added = [''src/lib.rs''], md_modified = [], md_unchanged = [], md_deleted = [], md_force_rebuild = True\<rparr>" for full
    by (simp add: compute_diff_def sample_request_def)
  have valid: "validate_execution_options sample_request = Inr ()" "validate_profile_grammar_versions (rq_profiles sample_request) = Inr ()"
    "rq_profiles sample_request = []"
    by (simp_all add: validate_execution_options_def validate_profile_grammar_versions_def sample_request_def)
  have h: "sha256_hex sample_scan_env sample_source = ss_content_hash scanned_sample"
    "ss_path scanned_sample = ''src/lib.rs''" "ss_absolute_path scanned_sample = ''src/lib.rs''"
    by (simp_all add: scanned_sample_def)
  have "se_reads sample_scan_env p k = Inr sample_source" for p k by (simp add: sample_scan_env_def)
  from spool_stable [where d = d, OF this h(1), of "snapshot_root sample_request" "''src/lib.rs''" "''src/lib.rs''" 2] assms
    sha256_hex_plain [of sample_scan_env sample_source] h
  obtain d' where "spool_stable_source sample_scan_env ''src/lib.rs'' 2 (snapshot_root sample_request) ''src/lib.rs''
      (ss_content_hash scanned_sample) d =
      (Inr (spooled_path (snapshot_root sample_request) ''src/lib.rs'' (ss_content_hash scanned_sample), length sample_source), d')"
    "d' (Staged (spooled_path (snapshot_root sample_request) ''src/lib.rs'' (ss_content_hash scanned_sample))) = Some sample_source"
    by auto
  then show ?thesis
    using valid sample_scan_walk
    by (simp add: scan_sources_def Let_def diff rebuild_paths_def spool_supported_snapshots_def h)
qed

theorem scan_freezes_sources_witness:
  "\<exists>scan d' s content. scan_sources ascii_tables (\<lambda>_. Inr []) sample_scan_env sample_request Map.empty = (Inr scan, d')
     \<and> (''src/lib.rs'', s) \<in> set (sn_supported scan)
     \<and> d' (Staged (ss_absolute_path s)) = Some content \<and> sha256_hex sample_scan_env content = ss_content_hash s
     \<and> path_under (snapshot_root sample_request) (ss_absolute_path s)"
proof -
  from sample_scan [of Map.empty] obtain scan d' s where
    *: "scan_sources ascii_tables (\<lambda>_. Inr []) sample_scan_env sample_request Map.empty = (Inr scan, d')"
    "(''src/lib.rs'', s) \<in> set (sn_supported scan)" "''src/lib.rs'' \<in> set (rebuild_paths (sn_diff scan))"
    by fastforce
  from scan_freezes_sources [OF *] * show ?thesis by blast
qed

end
