(* ===== verification/ArtifactStore.thy ===== *)
theory ArtifactStore
  imports Partition Snapshot
begin

text \<open>
  The artifact store (\<^verbatim>\<open>src/artifact_store.rs\<close>): one JSON envelope per built partition, filed under the
  SHA-256 of everything the partition depends on. \<open>serde_json\<close> and SHA-256 are arguments. A cell
  \<open>Artifact key\<close> of the disk is the payload file of that key; the leases, receipts and identity checks of the
  storage layer around it, which can only turn a publication into an error, are not modelled.
\<close>

section \<open>Keys\<close>

definition artifact_format_version :: nat where
  "artifact_format_version = 2"

definition profile_compatibility_version :: nat where
  "profile_compatibility_version = 2"

definition artifact_key_bytes :: nat where
  "artifact_key_bytes = 32"

definition artifact_key_hex_len :: nat where
  "artifact_key_hex_len = artifact_key_bytes * 2"

record key_material =
  km_artifact_format_version :: nat
  km_profile_compatibility_version :: nat
  km_source_root :: string
  km_repository_label :: string
  km_relative_path :: string
  km_content_hash :: string
  km_language :: string
  km_parser_version :: string
  km_profile :: "language_profile option"
  km_ontology :: string
  km_ontology_schema :: "relation_spec list"

record envelope =
  en_format_version :: nat
  en_artifact_key :: string
  en_partition_payload_sha256 :: string
  en_partition :: graph_partition

record artifact_env =
  ae_sha256 :: "string \<Rightarrow> string"
  ae_encode_material :: "key_material \<Rightarrow> string + string"
  ae_encode_partition :: "graph_partition \<Rightarrow> string + string"
  ae_encode_envelope :: "envelope \<Rightarrow> string + string"
  ae_decode_envelope :: "string \<Rightarrow> string + envelope"

text \<open>\<open>?\<close> on a \<open>serde_json\<close> result.\<close>

definition json_result :: "string + 'a \<Rightarrow> 'a result" where
  "json_result r = (case r of Inl message \<Rightarrow> Inl (Json message) | Inr x \<Rightarrow> Inr x)"

definition artifact_key :: "artifact_env \<Rightarrow> key_material \<Rightarrow> string result" where
  "artifact_key env material =
     try_op (json_result (ae_encode_material env material)) (\<lambda>encoded.
     Inr (hex_lower (ae_sha256 env encoded)))"

definition material_for_request :: "request \<Rightarrow> source_snapshot \<Rightarrow> language_profile option \<Rightarrow> key_material" where
  "material_for_request request snapshot profile =
     \<lparr>km_artifact_format_version = artifact_format_version,
      km_profile_compatibility_version = profile_compatibility_version,
      km_source_root = rq_source_root request, km_repository_label = rq_repository_label request,
      km_relative_path = ss_path snapshot, km_content_hash = ss_content_hash snapshot,
      km_language = option_default (ss_language snapshot), km_parser_version = rq_parser_version request,
      km_profile = profile, km_ontology = rq_ontology request,
      km_ontology_schema = rq_relation_types request\<rparr>"

definition key_for_request ::
  "artifact_env \<Rightarrow> request \<Rightarrow> source_snapshot \<Rightarrow> language_profile option \<Rightarrow> string result" where
  "key_for_request env request snapshot profile = artifact_key env (material_for_request request snapshot profile)"

definition is_key_byte :: "char \<Rightarrow> bool" where
  "is_key_byte c \<longleftrightarrow> (48 \<le> byte_of c \<and> byte_of c \<le> 57) \<or> (97 \<le> byte_of c \<and> byte_of c \<le> 102)"

definition validate_artifact_key :: "string \<Rightarrow> unit result" where
  "validate_artifact_key key =
     (if length key \<noteq> artifact_key_hex_len
      then Inl (InvalidInput (''artifact key must be '' @ string_of_nat artifact_key_hex_len @ '' hex characters''))
      else if \<not> list_all is_key_byte key
      then Inl (InvalidInput ''artifact key must be lowercase hexadecimal'')
      else Inr ())"

definition is_valid_artifact_prefix :: "string \<Rightarrow> bool" where
  "is_valid_artifact_prefix prefix \<longleftrightarrow> length prefix = 2 \<and> list_all is_key_byte prefix"

definition key_digit :: "char \<Rightarrow> nat" where
  "key_digit b = (if byte_of b \<le> 57 then byte_of b - 48 else byte_of b - 97 + 10)"

fun decode_pairs :: "string \<Rightarrow> string" where
  "decode_pairs (a # b # rest) = char_of (key_digit a * 16 + key_digit b) # decode_pairs rest"
| "decode_pairs rest = []"

definition decode_key :: "string \<Rightarrow> string" where
  "decode_key key = take artifact_key_bytes (decode_pairs key @ replicate artifact_key_bytes (char_of (0 :: nat)))"

section \<open>Envelopes\<close>

definition partition_payload_sha256 :: "artifact_env \<Rightarrow> graph_partition \<Rightarrow> string result" where
  "partition_payload_sha256 env p =
     try_op (json_result (ae_encode_partition env p)) (\<lambda>encoded.
     Inr (hex_lower (ae_sha256 env encoded)))"

definition write_envelope :: "artifact_env \<Rightarrow> string \<Rightarrow> string \<Rightarrow> graph_partition \<Rightarrow> string result" where
  "write_envelope env key digest p =
     json_result (ae_encode_envelope env
       \<lparr>en_format_version = artifact_format_version, en_artifact_key = key,
        en_partition_payload_sha256 = digest, en_partition = p\<rparr>)"

record expectations =
  ex_path :: string
  ex_content_hash :: string
  ex_language :: string

definition load_partition_file :: "artifact_env \<Rightarrow> string \<Rightarrow> string \<Rightarrow> expectations \<Rightarrow> graph_partition option" where
  "load_partition_file env bytes key expected =
     (case ae_decode_envelope env bytes of
        Inl _ \<Rightarrow> None
      | Inr envelope \<Rightarrow>
          let p = en_partition envelope; entry = gp_entry p in
          if en_format_version envelope \<noteq> artifact_format_version \<or> en_artifact_key envelope \<noteq> key then None
          else if me_path entry \<noteq> ex_path expected \<or> me_content_hash entry \<noteq> ex_content_hash expected
                  \<or> me_language entry \<noteq> ex_language expected then None
          else if me_artifact_key entry \<noteq> Some key then None
          else case partition_payload_sha256 env p of
                 Inl _ \<Rightarrow> None
               | Inr payload_sha256 \<Rightarrow>
                   if en_partition_payload_sha256 envelope \<noteq> payload_sha256 then None
                   else if isl (validate_raw_rows p) then None
                   else Some p)"

section \<open>The store\<close>

datatype write_outcome = Written | Reused

definition payload_conflict :: native_error where
  "payload_conflict = InvalidInput ''artifact_existing_payload_differs_or_unproven''"

definition is_canonical_payload_conflict :: "native_error \<Rightarrow> bool" where
  "is_canonical_payload_conflict e \<longleftrightarrow> e = payload_conflict"

definition envelope_bytes :: "artifact_env \<Rightarrow> string \<Rightarrow> graph_partition \<Rightarrow> string result" where
  "envelope_bytes env key p =
     try_op (partition_payload_sha256 env p) (\<lambda>digest. write_envelope env key digest p)"

text \<open>The checks of \<open>store_partition\<close> and the bytes of the temporary payload file.\<close>

definition checked_envelope :: "artifact_env \<Rightarrow> string \<Rightarrow> graph_partition \<Rightarrow> string result" where
  "checked_envelope env key p =
     try_op (validate_artifact_key key) (\<lambda>_.
     try_op (case validate_raw_rows p of Inl m \<Rightarrow> Inl (InvalidInput m) | Inr _ \<Rightarrow> Inr ()) (\<lambda>_.
     if me_artifact_key (gp_entry p) \<noteq> Some key
     then Inl (InvalidInput (''partition artifact key does not match store key for '' @ me_path (gp_entry p)))
     else envelope_bytes env key p))"

definition store_partition ::
  "artifact_env \<Rightarrow> string \<Rightarrow> graph_partition \<Rightarrow> disk \<Rightarrow> write_outcome result \<times> disk" where
  "store_partition env key p d =
     (case checked_envelope env key p of
        Inl e \<Rightarrow> (Inl e, d)
      | Inr bytes \<Rightarrow>
     (case d (Artifact key) of
        None \<Rightarrow> (Inr Written, d(Artifact key \<mapsto> bytes))
      | Some existing \<Rightarrow>
          if existing \<noteq> bytes then (Inl payload_conflict, d) else (Inr Reused, d)))"

definition load_partition :: "artifact_env \<Rightarrow> string \<Rightarrow> expectations \<Rightarrow> disk \<Rightarrow> graph_partition option" where
  "load_partition env key expected d =
     (if isl (validate_artifact_key key) then None
      else case d (Artifact key) of
             None \<Rightarrow> None
           | Some bytes \<Rightarrow> load_partition_file env bytes key expected)"

text \<open>A per-run copy of a partition whose key is taken by other bytes. Its file is its owner's alone.\<close>

record transient_partition =
  tp_key :: string
  tp_bytes :: string

definition transient_create :: "artifact_env \<Rightarrow> string \<Rightarrow> graph_partition \<Rightarrow> transient_partition result" where
  "transient_create env key p =
     try_op (validate_artifact_key key) (\<lambda>_.
     try_op (envelope_bytes env key p) (\<lambda>bytes.
     Inr \<lparr>tp_key = key, tp_bytes = bytes\<rparr>))"

definition transient_load :: "artifact_env \<Rightarrow> expectations \<Rightarrow> transient_partition \<Rightarrow> graph_partition result" where
  "transient_load env expected t =
     or_invalid ''transient_artifact_invalid'' (load_partition_file env (tp_bytes t) (tp_key t) expected)"

text \<open>
  \<open>plan_bytes\<close>: the memory reserved for transient owners; the two sizes are \<open>size_of\<close> of the slot and of the
  vector.
\<close>

definition plan_bytes :: "u64 \<Rightarrow> u64 \<Rightarrow> string \<Rightarrow> string list \<Rightarrow> u64" where
  "plan_bytes slot_size vec_size staging paths =
     (let fixed = saturating_add (saturating_add slot_size
                    (saturating_mul (saturating_add (of_nat (length staging)) 80) 2)) 512
      in fold (\<lambda>path bytes. saturating_add (saturating_add bytes fixed) (saturating_mul (of_nat (length path)) 2))
           paths vec_size)"

section \<open>The listing of keys\<close>

datatype entry_type = Directory | Symlink | OtherEntry

fun list_prefix :: "string \<Rightarrow> string \<Rightarrow> (string \<times> entry_type) list \<Rightarrow> string list result" where
  "list_prefix dir prefix [] = Inr []"
| "list_prefix dir prefix ((name, kind) # entries) =
     (case kind of
        Symlink \<Rightarrow> Inl (InvalidInput (''refusing to inspect symlinked artifact path '' @ dir @ ''/'' @ prefix @ ''/'' @ name))
      | OtherEntry \<Rightarrow> list_prefix dir prefix entries
      | Directory \<Rightarrow>
          try_op (list_prefix dir prefix entries) (\<lambda>keys.
          Inr (if \<not> isl (validate_artifact_key name) \<and> starts_with prefix name then name # keys else keys)))"

fun list_prefixes :: "string \<Rightarrow> (string \<times> entry_type \<times> (string \<times> entry_type) list) list \<Rightarrow> string list result" where
  "list_prefixes dir [] = Inr []"
| "list_prefixes dir ((name, kind, children) # entries) =
     (case kind of
        Symlink \<Rightarrow> Inl (InvalidInput (''refusing to inspect symlinked artifact path '' @ dir @ ''/'' @ name))
      | OtherEntry \<Rightarrow> list_prefixes dir entries
      | Directory \<Rightarrow>
          if starts_with ''.tmp-'' name \<or> \<not> is_valid_artifact_prefix name then list_prefixes dir entries
          else try_op (list_prefix dir name children) (\<lambda>keys.
               try_op (list_prefixes dir entries) (\<lambda>rest. Inr (keys @ rest))))"

definition list_keys :: "string \<Rightarrow> (string \<times> entry_type \<times> (string \<times> entry_type) list) list option \<Rightarrow> string list result" where
  "list_keys dir listing =
     (case listing of None \<Rightarrow> Inr [] | Some entries \<Rightarrow> try_op (list_prefixes dir entries) (\<lambda>keys. Inr (sort keys)))"

section \<open>What the store promises\<close>

text \<open>What is assumed of \<open>serde_json\<close> and SHA-256: an envelope that was written reads back, a digest has 32 bytes.\<close>

definition artifact_codec :: "artifact_env \<Rightarrow> bool" where
  "artifact_codec env \<longleftrightarrow>
     (\<forall>e bytes. ae_encode_envelope env e = Inr bytes \<longrightarrow> ae_decode_envelope env bytes = Inr e)
     \<and> (\<forall>bytes. length (ae_sha256 env bytes) = artifact_key_bytes)"

lemma is_key_byte_hex: "c \<in> set hex_chars \<Longrightarrow> is_key_byte c"
  by (auto simp: hex_chars_def is_key_byte_def)

lemma hex_key_valid: "length bytes = artifact_key_bytes \<Longrightarrow> validate_artifact_key (hex_lower bytes) = Inr ()"
  using set_hex_lower [of bytes] is_key_byte_hex
  by (auto simp: validate_artifact_key_def artifact_key_hex_len_def list_all_iff)

lemma artifact_key_valid:
  assumes "artifact_codec env" and "artifact_key env material = Inr key"
  shows "validate_artifact_key key = Inr ()"
  using assms hex_key_valid by (auto simp: artifact_key_def artifact_codec_def try_op_Inr_iff)

lemma key_digit_hex: "d < 16 \<Longrightarrow> key_digit (hex_digit d) = d"
  by (auto simp: key_digit_def hex_digit_def hex_chars_def less_Suc_eq numeral_eq_Suc)

lemma decode_pairs_hex: "decode_pairs (hex_lower bytes) = bytes"
  by (induction bytes) (simp_all add: hex_lower_def key_digit_hex nibbles_lt)

definition expects :: "expectations \<Rightarrow> graph_partition \<Rightarrow> bool" where
  "expects x p \<longleftrightarrow>
     ex_path x = me_path (gp_entry p) \<and> ex_content_hash x = me_content_hash (gp_entry p)
     \<and> ex_language x = me_language (gp_entry p)"

definition storable :: "artifact_env \<Rightarrow> string \<Rightarrow> graph_partition \<Rightarrow> string \<Rightarrow> bool" where
  "storable env key p bytes \<longleftrightarrow>
     validate_artifact_key key = Inr () \<and> validate_raw_rows p = Inr ()
     \<and> me_artifact_key (gp_entry p) = Some key \<and> envelope_bytes env key p = Inr bytes"

lemma storable_checked: "storable env key p bytes \<longleftrightarrow> checked_envelope env key p = Inr bytes"
  by (cases "validate_artifact_key key"; cases "validate_raw_rows p")
    (auto simp: checked_envelope_def storable_def)

lemma store_storable:
  assumes "storable env key p bytes"
  shows "store_partition env key p d =
     (case d (Artifact key) of
        None \<Rightarrow> (Inr Written, d(Artifact key \<mapsto> bytes))
      | Some existing \<Rightarrow> if existing \<noteq> bytes then (Inl payload_conflict, d) else (Inr Reused, d))"
  using assms by (simp add: store_partition_def storable_checked)

lemma store_cases:
  "store_partition env key p d = (Inr outcome, d') \<longleftrightarrow>
     (\<exists>bytes. storable env key p bytes
        \<and> (d (Artifact key) = None \<and> outcome = Written \<and> d' = d(Artifact key \<mapsto> bytes)
           \<or> d (Artifact key) = Some bytes \<and> outcome = Reused \<and> d' = d))"
  unfolding storable_checked by (cases "checked_envelope env key p") (auto simp: store_partition_def split: option.splits if_splits)

lemma local_store: "local_to {Artifact key} (store_partition env key p)"
proof (cases "checked_envelope env key p")
  case (Inl e)
  then show ?thesis by (simp add: store_partition_def local_to_def)
next
  case (Inr bytes)
  then show ?thesis by (simp add: store_partition_def local_to_def split: option.split)
qed

lemma json_result_Inr_iff: "json_result r = Inr x \<longleftrightarrow> r = Inr x"
  by (cases r) (simp_all add: json_result_def)

lemma load_stored:
  assumes "artifact_codec env" and "storable env key p bytes" and "expects x p"
  shows "load_partition_file env bytes key x = Some p"
proof -
  obtain digest where "partition_payload_sha256 env p = Inr digest"
    and "ae_encode_envelope env \<lparr>en_format_version = artifact_format_version, en_artifact_key = key,
        en_partition_payload_sha256 = digest, en_partition = p\<rparr> = Inr bytes"
    using assms(2) by (auto simp: storable_def envelope_bytes_def write_envelope_def try_op_Inr_iff json_result_Inr_iff)
  with assms show ?thesis
    by (auto simp: load_partition_file_def artifact_codec_def storable_def expects_def Let_def)
qed

lemma loaded_valid:
  assumes "load_partition_file env bytes key x = Some p"
  shows "expects x p" "me_artifact_key (gp_entry p) = Some key" "validate_raw_rows p = Inr ()"
  using assms by (auto simp: load_partition_file_def expects_def Let_def isl_def split: sum.splits if_splits)
    (metis old.unit.exhaust sum.exhaust)

section \<open>Properties\<close>


text \<open>An environment that can encode one envelope, and an empty partition in it.\<close>

definition sample_key :: string where
  "sample_key = hex_lower (replicate 32 (CHR ''k''))"

definition empty_partition :: graph_partition where
  "empty_partition = set_artifact_key sample_key
     \<lparr>gp_entry = manifest_entry_of sample_snapshot [] [], gp_nodes = [], gp_edges = []\<rparr>"

definition sample_envelope :: envelope where
  "sample_envelope = \<lparr>en_format_version = 2, en_artifact_key = sample_key,
     en_partition_payload_sha256 = sample_key, en_partition = empty_partition\<rparr>"

definition sample_artifact_env :: artifact_env where
  "sample_artifact_env =
     \<lparr>ae_sha256 = (\<lambda>_. replicate 32 (CHR ''k'')), ae_encode_material = (\<lambda>_. Inr []), ae_encode_partition = (\<lambda>_. Inr []),
      ae_encode_envelope = (\<lambda>e. if e = sample_envelope then Inr ''E'' else Inl ''unsupported''),
      ae_decode_envelope = (\<lambda>bytes. if bytes = ''E'' then Inr sample_envelope else Inl ''invalid'')\<rparr>"

definition sample_expectations :: expectations where
  "sample_expectations = \<lparr>ex_path = ''src/lib.rs'', ex_content_hash = ''hash'', ex_language = ''rust''\<rparr>"

lemma sample_artifact:
  "artifact_codec sample_artifact_env" "storable sample_artifact_env sample_key empty_partition ''E''"
  "expects sample_expectations empty_partition"
proof -
  show "artifact_codec sample_artifact_env"
    by (simp add: artifact_codec_def sample_artifact_env_def artifact_key_bytes_def)
  have "validate_artifact_key sample_key = Inr ()"
    unfolding sample_key_def by (rule hex_key_valid) (simp add: artifact_key_bytes_def)
  moreover have "validate_raw_rows empty_partition = Inr ()"
    by (simp add: validate_raw_rows_def empty_partition_def set_artifact_key_def manifest_entry_of_def node_types_of_def
        edge_types_of_def btree_of_list_def Let_def)
  moreover have "envelope_bytes sample_artifact_env sample_key empty_partition = Inr ''E''"
    by (simp add: envelope_bytes_def partition_payload_sha256_def write_envelope_def sample_artifact_env_def json_result_def
        sample_envelope_def artifact_format_version_def sample_key_def)
  ultimately show "storable sample_artifact_env sample_key empty_partition ''E''"
    by (simp add: storable_def empty_partition_def set_artifact_key_def)
  show "expects sample_expectations empty_partition"
    by (simp add: expects_def sample_expectations_def empty_partition_def set_artifact_key_def manifest_entry_of_def
        sample_snapshot_def option_default_def)
qed


text \<open>
  C38. The keys and their bytes: the key of a request is 64 lowercase hexadecimal digits, so that it
  passes the store's own check and names a file in the directory of its first two digits; and
  \<open>decode_key\<close> recovers the digest that a key prints.
\<close>

theorem artifact_key_roundtrip:
  assumes "artifact_codec env" and "key_for_request env request snapshot profile = Inr key"
  shows "(\<exists>encoded. ae_encode_material env (material_for_request request snapshot profile) = Inr encoded
             \<and> decode_key key = ae_sha256 env encoded)
       \<and> validate_artifact_key key = Inr () \<and> is_valid_artifact_prefix (take 2 key)"
proof -
  obtain encoded where e: "ae_encode_material env (material_for_request request snapshot profile) = Inr encoded"
    "key = hex_lower (ae_sha256 env encoded)"
    using assms(2) by (auto simp: key_for_request_def artifact_key_def try_op_Inr_iff json_result_Inr_iff)
  have len: "length (ae_sha256 env encoded) = artifact_key_bytes" using assms(1) by (simp add: artifact_codec_def)
  then have "decode_key key = ae_sha256 env encoded" by (simp add: decode_key_def e(2) decode_pairs_hex)
  moreover have valid: "validate_artifact_key key = Inr ()" unfolding e(2) by (rule hex_key_valid [OF len])
  moreover from valid have "is_valid_artifact_prefix (take 2 key)"
    by (auto simp: validate_artifact_key_def is_valid_artifact_prefix_def artifact_key_hex_len_def artifact_key_bytes_def
        list_all_iff dest: in_set_takeD split: if_splits)
  ultimately show ?thesis using e(1) by blast
qed

theorem artifact_key_roundtrip_witness:
  "\<exists>key. key_for_request sample_artifact_env sample_request sample_snapshot None = Inr key
     \<and> validate_artifact_key key = Inr () \<and> decode_key key = replicate 32 (CHR ''k'')"
proof -
  have "key_for_request sample_artifact_env sample_request sample_snapshot None = Inr sample_key"
    by (simp add: key_for_request_def artifact_key_def json_result_def sample_artifact_env_def sample_key_def)
  with artifact_key_roundtrip [OF sample_artifact(1) this] show ?thesis by (auto simp: sample_artifact_env_def)
qed

end
