(* ===== verification/WorkerPool.thy ===== *)
theory WorkerPool
  imports NativeErrors
begin

text \<open>
  The parallel execution plan (\<^verbatim>\<open>src/execution/parallel.rs\<close>, \<open>build_execution_plan\<close>): parser workers take
  indices from a bounded job channel and put results on a bounded result channel, the calling
  thread keeps a window of result slots indexed modulo the number of workers, consumes the results in
  order and sends one more job for every result it consumes. The sequential plan is the reference.

  Work on an index is an argument: \<open>build i\<close> changes the state that the workers share (the artifact
  store) and returns a result; it is one step, because the builds of different files touch different
  artifacts (the laws of \<open>independent_work\<close>). The job channel's receiver and the result channel's
  receiver outlive the scope of the threads, so that sending never fails and only waits for room.
\<close>

section \<open>The sequential plan\<close>

definition visit ::
  "(nat \<Rightarrow> 'r \<Rightarrow> 'a \<Rightarrow> 'a run) \<Rightarrow> ('r \<Rightarrow> u64) \<Rightarrow> u64 \<Rightarrow> nat \<Rightarrow> nat \<Rightarrow> 'r \<Rightarrow> 'a \<times> u64 \<Rightarrow> ('a \<times> u64) run" where
  "visit consume accounted transient worker_count i r s =
     (let high = max (snd s) (saturating_add (saturating_mul (accounted r) (of_nat worker_count)) transient)
      in try_op (consume i r (fst s)) (\<lambda>a. Inr (a, high)))"

fun plan_loop ::
  "(nat \<Rightarrow> 'w \<Rightarrow> 'r run \<times> 'w) \<Rightarrow> (nat \<Rightarrow> 'r \<Rightarrow> 's \<Rightarrow> 's run) \<Rightarrow> nat list \<Rightarrow> 's \<Rightarrow> 'w \<Rightarrow> 's run \<times> 'w" where
  "plan_loop build vis [] s w = (Inr s, w)"
| "plan_loop build vis (i # is) s w =
     (case build i w of
        (Inl e, w') \<Rightarrow> (Inl e, w')
      | (Inr r, w') \<Rightarrow>
     (case vis i r s of
        Inl e \<Rightarrow> (Inl e, w')
      | Inr s' \<Rightarrow> plan_loop build vis is s' w'))"

section \<open>The pool\<close>

datatype 'r parser_worker = Ready | Building nat | Sending nat "'r run" | Exited

datatype 's main_thread = Dispatching | Receiving | Draining | Refilling | Closing "'s run" | Returned "'s run"

record ('r, 's, 'w) pool =
  pl_jobs :: "nat list"
  pl_jobs_open :: bool
  pl_results :: "(nat \<times> 'r run) list"
  pl_workers :: "'r parser_worker list"
  pl_slots :: "'r run option list"
  pl_next_dispatch :: nat
  pl_next_consume :: nat
  pl_main :: "'s main_thread"
  pl_state :: 's
  pl_world :: 'w

definition pool_start :: "nat \<Rightarrow> 's \<Rightarrow> 'w \<Rightarrow> ('r, 's, 'w) pool" where
  "pool_start worker_count s w =
     \<lparr>pl_jobs = [], pl_jobs_open = True, pl_results = [], pl_workers = replicate worker_count Ready,
      pl_slots = replicate worker_count None, pl_next_dispatch = 0, pl_next_consume = 0,
      pl_main = Dispatching, pl_state = s, pl_world = w\<rparr>"

text \<open>The calling thread returns from the closure: \<open>job_tx\<close> is dropped, the threads are joined.\<close>

definition close_pool :: "'s run \<Rightarrow> ('r, 's, 'w) pool \<Rightarrow> ('r, 's, 'w) pool" where
  "close_pool out p = p\<lparr>pl_jobs_open := False, pl_main := Closing out\<rparr>"

text \<open>The end of the body of the inner loop, after \<open>next_consume\<close> has been advanced.\<close>

definition after_consume :: "nat \<Rightarrow> ('r, 's, 'w) pool \<Rightarrow> ('r, 's, 'w) pool" where
  "after_consume n p =
     (if pl_next_consume p = n then close_pool (Inr (pl_state p)) p else p\<lparr>pl_main := Draining\<rparr>)"

definition send_job :: "('r, 's, 'w) pool \<Rightarrow> ('r, 's, 'w) pool" where
  "send_job p = p\<lparr>pl_jobs := pl_jobs p @ [pl_next_dispatch p], pl_next_dispatch := Suc (pl_next_dispatch p)\<rparr>"

definition receive_result :: "nat \<Rightarrow> nat \<Rightarrow> 'r run \<Rightarrow> ('r, 's, 'w) pool \<Rightarrow> ('r, 's, 'w) pool" where
  "receive_result worker_count i r p =
     (let slot = i mod worker_count in
      if pl_slots p ! slot \<noteq> None
      then close_pool (Inl (Failed (InvalidInput ''parallel parser result window overflowed''))) p
      else p\<lparr>pl_slots := (pl_slots p)[slot := Some r], pl_main := Draining\<rparr>)"

definition consume_slot ::
  "(nat \<Rightarrow> 'r \<Rightarrow> 's \<Rightarrow> 's run) \<Rightarrow> nat \<Rightarrow> nat \<Rightarrow> ('r, 's, 'w) pool \<Rightarrow> ('r, 's, 'w) pool" where
  "consume_slot vis n worker_count p =
     (let slot = pl_next_consume p mod worker_count;
          p' = p\<lparr>pl_slots := (pl_slots p)[slot := None]\<rparr>
      in case pl_slots p ! slot of
           None \<Rightarrow> p\<lparr>pl_main := Receiving\<rparr>
         | Some (Inl e) \<Rightarrow> close_pool (Inl e) p'
         | Some (Inr r) \<Rightarrow>
             (case vis (pl_next_consume p) r (pl_state p) of
                Inl e \<Rightarrow> close_pool (Inl e) p'
              | Inr s \<Rightarrow>
                  let p'' = p'\<lparr>pl_state := s, pl_next_consume := Suc (pl_next_consume p)\<rparr>
                  in if pl_next_dispatch p < n then p''\<lparr>pl_main := Refilling\<rparr> else after_consume n p''))"

inductive pool_step ::
  "(nat \<Rightarrow> 'w \<Rightarrow> 'r run \<times> 'w) \<Rightarrow> (nat \<Rightarrow> 'r \<Rightarrow> 's \<Rightarrow> 's run) \<Rightarrow> nat \<Rightarrow> nat
     \<Rightarrow> ('r, 's, 'w) pool \<Rightarrow> ('r, 's, 'w) pool \<Rightarrow> bool"
  for build vis n wc where
  dispatches:
    "pl_main p = Dispatching \<Longrightarrow> pl_next_dispatch p < min wc n \<Longrightarrow> length (pl_jobs p) < wc
     \<Longrightarrow> pool_step build vis n wc p (send_job p)"
| dispatched:
    "pl_main p = Dispatching \<Longrightarrow> \<not> pl_next_dispatch p < min wc n
     \<Longrightarrow> pool_step build vis n wc p (p\<lparr>pl_main := Receiving\<rparr>)"
| receives:
    "pl_main p = Receiving \<Longrightarrow> pl_results p = (i, r) # rest
     \<Longrightarrow> pool_step build vis n wc p (receive_result wc i r (p\<lparr>pl_results := rest\<rparr>))"
| result_queue_closed:
    "pl_main p = Receiving \<Longrightarrow> pl_results p = [] \<Longrightarrow> set (pl_workers p) \<subseteq> {Exited}
     \<Longrightarrow> pool_step build vis n wc p
           (close_pool (Inl (Failed (InvalidInput ''parallel parser result queue closed''))) p)"
| drains:
    "pl_main p = Draining \<Longrightarrow> pool_step build vis n wc p (consume_slot vis n wc p)"
| refills:
    "pl_main p = Refilling \<Longrightarrow> length (pl_jobs p) < wc
     \<Longrightarrow> pool_step build vis n wc p (after_consume n (send_job p))"
| joins:
    "pl_main p = Closing out \<Longrightarrow> set (pl_workers p) \<subseteq> {Exited}
     \<Longrightarrow> pool_step build vis n wc p (p\<lparr>pl_main := Returned out\<rparr>)"
| worker_takes_job:
    "k < length (pl_workers p) \<Longrightarrow> pl_workers p ! k = Ready \<Longrightarrow> pl_jobs p = i # rest
     \<Longrightarrow> pool_step build vis n wc p (p\<lparr>pl_jobs := rest, pl_workers := (pl_workers p)[k := Building i]\<rparr>)"
| worker_stops:
    "k < length (pl_workers p) \<Longrightarrow> pl_workers p ! k = Ready \<Longrightarrow> pl_jobs p = [] \<Longrightarrow> \<not> pl_jobs_open p
     \<Longrightarrow> pool_step build vis n wc p (p\<lparr>pl_workers := (pl_workers p)[k := Exited]\<rparr>)"
| worker_builds:
    "k < length (pl_workers p) \<Longrightarrow> pl_workers p ! k = Building i \<Longrightarrow> build i (pl_world p) = (r, w)
     \<Longrightarrow> pool_step build vis n wc p (p\<lparr>pl_world := w, pl_workers := (pl_workers p)[k := Sending i r]\<rparr>)"
| worker_sends:
    "k < length (pl_workers p) \<Longrightarrow> pl_workers p ! k = Sending i r \<Longrightarrow> length (pl_results p) < wc
     \<Longrightarrow> pool_step build vis n wc p
           (p\<lparr>pl_results := pl_results p @ [(i, r)], pl_workers := (pl_workers p)[k := Ready]\<rparr>)"

inductive pool_reaches ::
  "(nat \<Rightarrow> 'w \<Rightarrow> 'r run \<times> 'w) \<Rightarrow> (nat \<Rightarrow> 'r \<Rightarrow> 's \<Rightarrow> 's run) \<Rightarrow> nat \<Rightarrow> nat \<Rightarrow> 's \<Rightarrow> 'w
     \<Rightarrow> ('r, 's, 'w) pool \<Rightarrow> bool"
  for build vis n wc s w where
  pool_starts: "pool_reaches build vis n wc s w (pool_start wc s w)"
| pool_steps: "pool_reaches build vis n wc s w p \<Longrightarrow> pool_step build vis n wc p p'
     \<Longrightarrow> pool_reaches build vis n wc s w p'"

section \<open>Work that does not interfere\<close>

text \<open>The sequential plan as a function of the results alone.\<close>

fun visits :: "(nat \<Rightarrow> 'r \<Rightarrow> 's \<Rightarrow> 's run) \<Rightarrow> (nat \<Rightarrow> 'r run) \<Rightarrow> nat list \<Rightarrow> 's \<Rightarrow> 's run" where
  "visits vis res [] s = Inr s"
| "visits vis res (i # is) s = try_op (res i) (\<lambda>r. try_op (vis i r s) (visits vis res is))"

lemma visits_cong: "(\<And>i. i \<in> set is \<Longrightarrow> res i = res' i) \<Longrightarrow> visits vis res is s = visits vis res' is s"
  by (induction "is" arbitrary: s) (auto intro: try_op_cong)

lemma visits_append: "visits vis res (is @ js) s = try_op (visits vis res is s) (visits vis res js)"
proof (induction "is" arbitrary: s)
  case (Cons i "is")
  then show ?case by (cases "res i"; simp) (metis sum.exhaust try_op_simps)
qed simp

definition runs :: "(nat \<Rightarrow> 'w \<Rightarrow> 'r run \<times> 'w) \<Rightarrow> nat list \<Rightarrow> 'w \<Rightarrow> 'w" where
  "runs build order w = fold (\<lambda>i w. snd (build i w)) order w"

lemma runs_simps [simp]:
  "runs build [] w = w"
  "runs build (i # is) w = runs build is (snd (build i w))"
  "runs build (is @ js) w = runs build js (runs build is w)"
  by (simp_all add: runs_def)

locale independent_work =
  fixes build :: "nat \<Rightarrow> 'w \<Rightarrow> 'r run \<times> 'w" and n :: nat
  assumes result_independent: "\<lbrakk>i < n; j < n; i \<noteq> j\<rbrakk> \<Longrightarrow> fst (build i (snd (build j w))) = fst (build i w)"
    and world_commutes: "\<lbrakk>i < n; j < n; i \<noteq> j\<rbrakk>
      \<Longrightarrow> snd (build i (snd (build j w))) = snd (build j (snd (build i w)))"
begin

lemma result_after_runs:
  "\<lbrakk>i < n; i \<notin> set order; set order \<subseteq> {..<n}\<rbrakk> \<Longrightarrow> fst (build i (runs build order w)) = fst (build i w)"
  by (induction order arbitrary: w) (auto simp: result_independent)

lemma runs_permuted:
  assumes "mset order = mset order'" and "set order \<subseteq> {..<n}"
  shows "runs build order w = runs build order' w"
proof -
  have "(\<lambda>w. snd (build i w)) \<circ> (\<lambda>w. snd (build j w)) = (\<lambda>w. snd (build j w)) \<circ> (\<lambda>w. snd (build i w))"
    if "i \<in> set order" "j \<in> set order" for i j
  proof (cases "i = j")
    case False
    moreover have "i < n" "j < n" using that assms(2) by auto
    ultimately show ?thesis using world_commutes by (simp add: fun_eq_iff)
  qed simp
  then have "fold (\<lambda>i w. snd (build i w)) order = fold (\<lambda>i w. snd (build i w)) order'"
    using assms(1) by (intro fold_multiset_equiv) (auto simp: fun_eq_iff)
  then show ?thesis by (simp add: runs_def)
qed

lemma plan_loop_visits:
  "\<lbrakk>distinct is; set is \<subseteq> {..<n}\<rbrakk>
   \<Longrightarrow> fst (plan_loop build vis is s w) = visits vis (\<lambda>i. fst (build i w)) is s"
proof (induction "is" arbitrary: s w)
  case (Cons i "is")
  obtain r w' where b: "build i w = (r, w')" by fastforce
  have "visits vis (\<lambda>i. fst (build i w')) is t = visits vis (\<lambda>i. fst (build i w)) is t" for t
  proof (rule visits_cong)
    fix k
    assume "k \<in> set is"
    with Cons.prems have "k < n" "i < n" "k \<noteq> i" by auto
    from result_independent [OF this, of w] b show "fst (build k w') = fst (build k w)" by simp
  qed
  with Cons b show ?case by (auto split: sum.splits)
qed simp

lemma plan_loop_world:
  "fst (plan_loop build vis is s w) = Inr t \<Longrightarrow> snd (plan_loop build vis is s w) = runs build is w"
  by (induction "is" arbitrary: s w) (auto split: sum.splits prod.splits)

end

section \<open>The invariant of the pool\<close>

definition in_worker :: "'r parser_worker \<Rightarrow> nat multiset" where
  "in_worker x = (case x of Building i \<Rightarrow> {#i#} | Sending i r \<Rightarrow> {#i#} | _ \<Rightarrow> {#})"

definition unbuilt :: "'r parser_worker \<Rightarrow> nat multiset" where
  "unbuilt x = (case x of Building i \<Rightarrow> {#i#} | _ \<Rightarrow> {#})"

lemma worker_simps [simp]:
  "in_worker Ready = {#}" "in_worker (Building i) = {#i#}" "in_worker (Sending i r) = {#i#}" "in_worker Exited = {#}"
  "unbuilt Ready = {#}" "unbuilt (Building i) = {#i#}" "unbuilt (Sending i r) = {#}" "unbuilt Exited = {#}"
  by (simp_all add: in_worker_def unbuilt_def)

lemma sum_list_update_eq:
  fixes f :: "'x \<Rightarrow> 'm::comm_monoid_add"
  shows "k < length xs \<Longrightarrow> sum_list (map f (xs[k := x])) + f (xs ! k) = sum_list (map f xs) + f x"
  by (induction xs arbitrary: k) (auto simp: ac_simps less_Suc_eq_0_disj nth_Cons')

definition in_flight :: "('r, 's, 'w) pool \<Rightarrow> nat multiset" where
  "in_flight p = mset (pl_jobs p) + sum_list (map in_worker (pl_workers p)) + mset (map fst (pl_results p))"

definition held :: "nat \<Rightarrow> ('r, 's, 'w) pool \<Rightarrow> nat set" where
  "held wc p = {i \<in> {pl_next_consume p..<pl_next_dispatch p}. pl_slots p ! (i mod wc) \<noteq> None}"

text \<open>What holds at every moment: sizes, the values of results, which builds have run, the room in the channels.\<close>

definition pool_common :: "(nat \<Rightarrow> 'w \<Rightarrow> 'r run \<times> 'w) \<Rightarrow> nat \<Rightarrow> nat \<Rightarrow> 'w \<Rightarrow> ('r, 's, 'w) pool \<Rightarrow> bool" where
  "pool_common build n wc w p \<longleftrightarrow>
     length (pl_slots p) = wc \<and> length (pl_workers p) = wc
     \<and> pl_next_dispatch p \<le> n \<and> size (in_flight p) \<le> wc
     \<and> (\<forall>i r. (i, r) \<in> set (pl_results p) \<longrightarrow> r = fst (build i w))
     \<and> (\<forall>i r. Sending i r \<in> set (pl_workers p) \<longrightarrow> r = fst (build i w))
     \<and> (\<exists>order. mset order + mset (pl_jobs p) + sum_list (map unbuilt (pl_workers p)) = mset [0..<pl_next_dispatch p]
          \<and> pl_world p = runs build order w)"

text \<open>What holds while the calling thread dispatches and consumes.\<close>

definition pool_window :: "(nat \<Rightarrow> 'w \<Rightarrow> 'r run \<times> 'w) \<Rightarrow> (nat \<Rightarrow> 'r \<Rightarrow> 's \<Rightarrow> 's run) \<Rightarrow> nat \<Rightarrow> 's \<Rightarrow> 'w \<Rightarrow> ('r, 's, 'w) pool \<Rightarrow> bool" where
  "pool_window build vis wc s w p \<longleftrightarrow>
     pl_jobs_open p \<and> Exited \<notin> set (pl_workers p)
     \<and> pl_next_consume p \<le> pl_next_dispatch p \<and> pl_next_dispatch p \<le> pl_next_consume p + wc
     \<and> in_flight p + mset_set (held wc p) = mset_set {pl_next_consume p..<pl_next_dispatch p}
     \<and> (\<forall>q<wc. pl_slots p ! q \<noteq> None \<longrightarrow> (\<exists>i \<in> held wc p. i mod wc = q))
     \<and> (\<forall>i \<in> held wc p. pl_slots p ! (i mod wc) = Some (fst (build i w)))
     \<and> visits vis (\<lambda>i. fst (build i w)) [0..<pl_next_consume p] s = Inr (pl_state p)"

definition pool_done :: "(nat \<Rightarrow> 'w \<Rightarrow> 'r run \<times> 'w) \<Rightarrow> (nat \<Rightarrow> 'r \<Rightarrow> 's \<Rightarrow> 's run) \<Rightarrow> nat \<Rightarrow> 's \<Rightarrow> 'w \<Rightarrow> 's run \<Rightarrow> ('r, 's, 'w) pool \<Rightarrow> bool" where
  "pool_done build vis n s w out p \<longleftrightarrow>
     \<not> pl_jobs_open p \<and> out = visits vis (\<lambda>i. fst (build i w)) [0..<n] s
     \<and> (isl out \<or> in_flight p = {#} \<and> pl_next_dispatch p = n)"

definition pool_inv :: "(nat \<Rightarrow> 'w \<Rightarrow> 'r run \<times> 'w) \<Rightarrow> (nat \<Rightarrow> 'r \<Rightarrow> 's \<Rightarrow> 's run) \<Rightarrow> nat \<Rightarrow> nat \<Rightarrow> 's \<Rightarrow> 'w \<Rightarrow> ('r, 's, 'w) pool \<Rightarrow> bool" where
  "pool_inv build vis n wc s w p \<longleftrightarrow>
     pool_common build n wc w p
     \<and> (case pl_main p of
          Dispatching \<Rightarrow> pool_window build vis wc s w p \<and> pl_next_consume p = 0 \<and> held wc p = {}
        | Receiving \<Rightarrow> pool_window build vis wc s w p \<and> pl_next_dispatch p = min n (pl_next_consume p + wc)
            \<and> pl_next_consume p < n \<and> pl_slots p ! (pl_next_consume p mod wc) = None
        | Draining \<Rightarrow> pool_window build vis wc s w p \<and> pl_next_dispatch p = min n (pl_next_consume p + wc)
            \<and> pl_next_consume p < n
        | Refilling \<Rightarrow> pool_window build vis wc s w p \<and> Suc (pl_next_dispatch p) = pl_next_consume p + wc
            \<and> pl_next_dispatch p < n
        | Closing out \<Rightarrow> pool_done build vis n s w out p
        | Returned out \<Rightarrow> pool_done build vis n s w out p)"

lemmas pool_inv_defs = pool_inv_def pool_common_def pool_window_def pool_done_def

subsection \<open>The window\<close>

lemma residue_inj:
  assumes "i mod wc = j mod wc" and "c \<le> i" "i < c + wc" "c \<le> j" "j < c + wc"
  shows "i = (j :: nat)"
proof -
  have "i = j" if "i mod wc = j mod wc" "i \<le> j" "j < i + wc" for i j :: nat
    using that by (metis add.right_neutral add_diff_cancel_left' le_add_diff_inverse less_diff_conv2
        mod_eq_dvd_iff_nat nat_dvd_not_less not_gr_zero add.commute)
  from this [of i j] this [of j i] assms show ?thesis by (cases "i \<le> j") simp_all
qed

lemma window_unique:
  assumes "pool_window build vis wc s w p" and "i \<in># in_flight p"
  shows "pl_next_consume p \<le> i" "i < pl_next_dispatch p" "i \<notin> held wc p"
proof -
  let ?r = "{pl_next_consume p..<pl_next_dispatch p}"
  have eq: "in_flight p + mset_set (held wc p) = mset_set ?r"
    using assms(1) by (simp add: pool_window_def)
  have "i \<in># in_flight p + mset_set (held wc p)" using assms(2) by simp
  then have i: "i \<in> ?r" unfolding eq by simp
  then show "pl_next_consume p \<le> i" "i < pl_next_dispatch p" by simp_all
  have "count (in_flight p) i + count (mset_set (held wc p)) i = 1"
    using arg_cong [OF eq, of "\<lambda>m. count m i"] i by simp
  moreover have "0 < count (in_flight p) i" using assms(2) by simp
  ultimately have "count (mset_set (held wc p)) i = 0" by linarith
  moreover have "finite (held wc p)" by (simp add: held_def)
  ultimately show "i \<notin> held wc p" by (simp add: count_mset_set' split: if_splits)
qed

text \<open>The slot of an index that is still in flight is free: the window never overflows.\<close>

lemma window_slot_free:
  assumes "pool_window build vis wc s w p" and "i \<in># in_flight p" and "0 < wc"
  shows "pl_slots p ! (i mod wc) = None"
proof (rule ccontr)
  assume "pl_slots p ! (i mod wc) \<noteq> None"
  moreover have "i mod wc < wc" using assms(3) by simp
  ultimately obtain j where j: "j \<in> held wc p" "j mod wc = i mod wc"
    using assms(1) unfolding pool_window_def by blast
  have "j = i"
    using residue_inj [OF j(2), of "pl_next_consume p"] window_unique(1,2) [OF assms(1,2)] j(1) assms(1)
    by (auto simp: held_def pool_window_def)
  with j window_unique(3) [OF assms(1,2)] show False by simp
qed

lemma held_receive:
  assumes "pool_window build vis wc s w p" and "i \<in># in_flight p" and "0 < wc" and "length (pl_slots p) = wc"
  shows "held wc (p\<lparr>pl_slots := (pl_slots p)[i mod wc := Some r]\<rparr>) = insert i (held wc p)"
proof -
  have "j = i" if "j \<in> {pl_next_consume p..<pl_next_dispatch p}" "j mod wc = i mod wc" for j
    using residue_inj [OF that(2), of "pl_next_consume p"] that(1) window_unique(1,2) [OF assms(1,2)] assms(1)
    by (auto simp: pool_window_def)
  then show ?thesis
    using window_unique(1,2) [OF assms(1,2)] assms(3,4)
    by (auto simp: held_def nth_list_update split: if_splits)
qed

lemma held_consume:
  assumes "pl_next_dispatch p \<le> pl_next_consume p + wc" and "0 < wc" and "length (pl_slots p) = wc"
  shows "held wc (p\<lparr>pl_slots := (pl_slots p)[pl_next_consume p mod wc := None], pl_state := t,
             pl_next_consume := Suc (pl_next_consume p)\<rparr>) = held wc p - {pl_next_consume p}"
proof -
  let ?c = "pl_next_consume p"
  have "j = ?c" if "?c \<le> j" "j < pl_next_dispatch p" "j mod wc = ?c mod wc" for j
    using residue_inj [OF that(3), of ?c] that assms by auto
  then show ?thesis using assms by (auto simp: held_def nth_list_update split: if_splits)
qed

lemma held_main [simp]:
  "held wc (p\<lparr>pl_main := m\<rparr>) = held wc p" "in_flight (p\<lparr>pl_main := m\<rparr>) = in_flight p"
  by (simp_all add: held_def in_flight_def)

lemma window_main [simp]:
  "pool_window build vis wc s w (p\<lparr>pl_main := m\<rparr>) = pool_window build vis wc s w p"
  "pool_common build n wc w (p\<lparr>pl_main := m\<rparr>) = pool_common build n wc w p"
  by (simp_all add: pool_window_def pool_common_def)

text \<open>Sending a job keeps the window as long as it is not full.\<close>

lemma in_flight_send: "in_flight (send_job p) = in_flight p + {#pl_next_dispatch p#}"
  by (simp add: in_flight_def send_job_def ac_simps)

lemma held_send:
  assumes "pool_window build vis wc s w p" and "pl_next_dispatch p < pl_next_consume p + wc" and "0 < wc"
  shows "held wc (send_job p) = held wc p" and "pl_slots p ! (pl_next_dispatch p mod wc) = None"
proof -
  let ?d = "pl_next_dispatch p"
  show free: "pl_slots p ! (?d mod wc) = None"
  proof (rule ccontr)
    assume "pl_slots p ! (?d mod wc) \<noteq> None"
    moreover have "?d mod wc < wc" using assms(3) by simp
    ultimately obtain j where j: "j \<in> held wc p" "j mod wc = ?d mod wc"
      using assms(1) unfolding pool_window_def by blast
    then have "j = ?d"
      using residue_inj [OF j(2), of "pl_next_consume p"] assms(1,2) by (auto simp: held_def pool_window_def)
    with j(1) show False by (simp add: held_def)
  qed
  then show "held wc (send_job p) = held wc p" by (auto simp: held_def send_job_def less_Suc_eq)
qed

lemma window_send:
  assumes "pool_window build vis wc s w p" and "pl_next_dispatch p < pl_next_consume p + wc" and "0 < wc"
  shows "pool_window build vis wc s w (send_job p)"
proof -
  let ?c = "pl_next_consume p" and ?d = "pl_next_dispatch p"
  have "{?c..<Suc ?d} = insert ?d {?c..<?d}" using assms(1) by (auto simp: pool_window_def)
  then have "mset_set {?c..<Suc ?d} = mset_set {?c..<?d} + {#?d#}" by simp
  moreover have "in_flight p + mset_set (held wc p) = mset_set {?c..<?d}" using assms(1) by (simp add: pool_window_def)
  ultimately have "in_flight (send_job p) + mset_set (held wc (send_job p)) = mset_set {?c..<Suc ?d}"
    by (simp add: in_flight_send held_send [OF assms] ac_simps)
  then show ?thesis using assms by (simp add: pool_window_def held_send [OF assms]) (simp add: send_job_def)
qed

lemma window_size:
  assumes "pool_window build vis wc s w p"
  shows "size (in_flight p) + card (held wc p) = pl_next_dispatch p - pl_next_consume p"
proof -
  have "size (in_flight p + mset_set (held wc p)) = pl_next_dispatch p - pl_next_consume p"
    using assms by (simp add: pool_window_def)
  then show ?thesis by simp
qed

lemma common_send:
  assumes "pool_common build n wc w p" and "pool_window build vis wc s w p"
    and "pl_next_dispatch p < pl_next_consume p + wc" and "pl_next_dispatch p < n"
  shows "pool_common build n wc w (send_job p)"
proof -
  obtain order where o: "mset order + mset (pl_jobs p) + sum_list (map unbuilt (pl_workers p)) = mset [0..<pl_next_dispatch p]"
    "pl_world p = runs build order w" using assms(1) by (auto simp: pool_common_def)
  then have "\<exists>order. mset order + mset (pl_jobs (send_job p)) + sum_list (map unbuilt (pl_workers (send_job p)))
       = mset [0..<pl_next_dispatch (send_job p)] \<and> pl_world (send_job p) = runs build order w"
    by (intro exI [of _ order]) (simp add: send_job_def ac_simps)
  moreover have "pl_next_consume p \<le> pl_next_dispatch p" using assms(2) by (simp add: pool_window_def)
  then have "size (in_flight p) < wc" using window_size [OF assms(2)] assms(3) by linarith
  ultimately show ?thesis using assms(1,4)
    unfolding pool_common_def by (simp add: in_flight_send) (simp add: send_job_def)
qed

subsection \<open>Every step keeps the invariant\<close>

lemma in_flight_update:
  assumes "k < length (pl_workers p)"
  shows "sum_list (map in_worker ((pl_workers p)[k := x])) + in_worker (pl_workers p ! k)
       = sum_list (map in_worker (pl_workers p)) + in_worker x"
    and "sum_list (map unbuilt ((pl_workers p)[k := x])) + unbuilt (pl_workers p ! k)
       = sum_list (map unbuilt (pl_workers p)) + unbuilt x"
  using assms by (rule sum_list_update_eq)+

text \<open>A step of a worker moves an index along, and changes nothing of the calling thread.\<close>

lemma inv_worker_step:
  assumes "pool_inv build vis n wc s w p" and "pool_common build n wc w p'" and "in_flight p' = in_flight p"
    and "pl_main p' = pl_main p" "pl_slots p' = pl_slots p" "pl_next_dispatch p' = pl_next_dispatch p"
      "pl_next_consume p' = pl_next_consume p" "pl_state p' = pl_state p" "pl_jobs_open p' = pl_jobs_open p"
    and "Exited \<in> set (pl_workers p') \<longrightarrow> Exited \<in> set (pl_workers p) \<or> \<not> pl_jobs_open p"
  shows "pool_inv build vis n wc s w p'"
proof -
  have "held wc p' = held wc p" using assms(5-7) by (simp add: held_def)
  then have "pool_window build vis wc s w p \<Longrightarrow> pool_window build vis wc s w p'"
    and "pool_done build vis n s w out p \<Longrightarrow> pool_done build vis n s w out p'" for out
    using assms(3-10) by (auto simp: pool_window_def pool_done_def)
  then show ?thesis using assms(1,2,4-8) \<open>held wc p' = held wc p\<close>
    by (auto simp: pool_inv_def split: main_thread.splits)
qed

lemma inv_takes:
  assumes inv: "pool_inv build vis n wc s w p"
    and k: "k < length (pl_workers p)" "pl_workers p ! k = Ready" and jobs: "pl_jobs p = i # rest"
  shows "pool_inv build vis n wc s w (p\<lparr>pl_jobs := rest, pl_workers := (pl_workers p)[k := Building i]\<rparr>)"
proof -
  let ?p = "p\<lparr>pl_jobs := rest, pl_workers := (pl_workers p)[k := Building i]\<rparr>"
  note up = in_flight_update [OF k(1), of "Building i", unfolded k(2)]
  have fl: "in_flight ?p = in_flight p" using up(1) by (simp add: in_flight_def jobs ac_simps)
  have "pool_common build n wc w ?p"
    using inv up(2) unfolding pool_inv_def pool_common_def fl
    by (auto simp: jobs ac_simps dest!: set_update_subset_insert [THEN subsetD])
  then show ?thesis
    by (rule inv_worker_step [OF inv]) (auto simp: fl dest!: set_update_subset_insert [THEN subsetD])
qed

lemma inv_stops:
  assumes inv: "pool_inv build vis n wc s w p"
    and k: "k < length (pl_workers p)" "pl_workers p ! k = Ready" and closed: "\<not> pl_jobs_open p"
  shows "pool_inv build vis n wc s w (p\<lparr>pl_workers := (pl_workers p)[k := Exited]\<rparr>)"
proof -
  let ?p = "p\<lparr>pl_workers := (pl_workers p)[k := Exited]\<rparr>"
  note up = in_flight_update [OF k(1), of "Exited", unfolded k(2)]
  have fl: "in_flight ?p = in_flight p" using up(1) by (simp add: in_flight_def)
  have "pool_common build n wc w ?p"
    using inv up(2) unfolding pool_inv_def pool_common_def fl
    by (auto dest!: set_update_subset_insert [THEN subsetD])
  then show ?thesis by (rule inv_worker_step [OF inv]) (auto simp: fl closed)
qed

lemma inv_sends:
  assumes inv: "pool_inv build vis n wc s w p"
    and k: "k < length (pl_workers p)" "pl_workers p ! k = Sending i r"
  shows "pool_inv build vis n wc s w (p\<lparr>pl_results := pl_results p @ [(i, r)], pl_workers := (pl_workers p)[k := Ready]\<rparr>)"
proof -
  let ?p = "p\<lparr>pl_results := pl_results p @ [(i, r)], pl_workers := (pl_workers p)[k := Ready]\<rparr>"
  note up = in_flight_update [OF k(1), of "Ready", unfolded k(2)]
  have fl: "in_flight ?p = in_flight p" using up(1) by (simp add: in_flight_def ac_simps)
  have "Sending i r \<in> set (pl_workers p)" using k by (metis nth_mem)
  then have "pool_common build n wc w ?p"
    using inv up(2) unfolding pool_inv_def pool_common_def fl
    by (auto dest!: set_update_subset_insert [THEN subsetD])
  then show ?thesis
    by (rule inv_worker_step [OF inv]) (auto simp: fl dest!: set_update_subset_insert [THEN subsetD])
qed

context independent_work
begin

lemma inv_builds:
  assumes inv: "pool_inv build vis n wc s w p"
    and k: "k < length (pl_workers p)" "pl_workers p ! k = Building i" and b: "build i (pl_world p) = (r, w')"
  shows "pool_inv build vis n wc s w (p\<lparr>pl_world := w', pl_workers := (pl_workers p)[k := Sending i r]\<rparr>)"
proof -
  let ?p = "p\<lparr>pl_world := w', pl_workers := (pl_workers p)[k := Sending i r]\<rparr>"
  note up = in_flight_update [OF k(1), of "Sending i r", unfolded k(2)]
  have fl: "in_flight ?p = in_flight p" using up(1) by (simp add: in_flight_def)
  obtain order where o: "mset order + mset (pl_jobs p) + sum_list (map unbuilt (pl_workers p)) = mset [0..<pl_next_dispatch p]"
    "pl_world p = runs build order w" using inv by (auto simp: pool_inv_def pool_common_def)
  have nd: "pl_next_dispatch p \<le> n" using inv by (simp add: pool_inv_def pool_common_def)
  let ?rest = "mset (pl_jobs p) + sum_list (map unbuilt ((pl_workers p)[k := Sending i r]))"
  have all: "add_mset i (mset order + ?rest) = mset_set {0..<pl_next_dispatch p}"
    using o(1) by (simp add: up(2) [simplified, symmetric] ac_simps)
  have sub: "set (i # order) \<subseteq> {..<n}"
  proof
    fix j
    assume "j \<in> set (i # order)"
    then have "j \<in># add_mset i (mset order + ?rest)" by auto
    then show "j \<in> {..<n}" unfolding all using nd by simp
  qed
  have "i \<notin> set order"
  proof
    assume "i \<in> set order"
    then have "2 \<le> count (add_mset i (mset order + ?rest)) i" by (simp add: Suc_le_eq)
    then show False unfolding all by (simp add: count_mset_set' split: if_splits)
  qed
  then have r: "r = fst (build i w)" "w' = runs build (order @ [i]) w"
    using result_after_runs [of i order w] sub b by (simp_all add: o(2))
  have "pool_common build n wc w ?p"
    using inv all r unfolding pool_inv_def pool_common_def fl
    by (auto simp: ac_simps intro!: exI [of _ "order @ [i]"] dest!: set_update_subset_insert [THEN subsetD])
  then show ?thesis
    by (rule inv_worker_step [OF inv]) (auto simp: fl dest!: set_update_subset_insert [THEN subsetD])
qed

end

text \<open>The calling thread receives a result.\<close>

lemma inv_receives:
  assumes inv: "pool_inv build vis n wc s w p" and main: "pl_main p = Receiving"
    and res: "pl_results p = (i, r) # rest" and wc: "0 < wc"
  shows "pool_inv build vis n wc s w (receive_result wc i r (p\<lparr>pl_results := rest\<rparr>))"
proof -
  let ?q = "p\<lparr>pl_results := rest, pl_slots := (pl_slots p)[i mod wc := Some r]\<rparr>"
  have win: "pool_window build vis wc s w p" and com: "pool_common build n wc w p"
    and nd: "pl_next_dispatch p = min n (pl_next_consume p + wc)" "pl_next_consume p < n"
    using inv main by (simp_all add: pool_inv_def)
  have fl: "in_flight p = add_mset i (in_flight ?q)" by (simp add: in_flight_def res)
  then have i: "i \<in># in_flight p" by simp
  have len: "length (pl_slots p) = wc" and r: "r = fst (build i w)" using com res by (auto simp: pool_common_def)
  note free = window_slot_free [OF win i wc] and uniq = window_unique [OF win i]
  have held: "held wc ?q = insert i (held wc p)"
    using held_receive [OF win i wc len, of r] by (simp add: held_def)
  have "in_flight ?q + mset_set (held wc ?q) = in_flight p + mset_set (held wc p)"
    unfolding held fl using uniq(3) by (subst mset_set.insert) (simp_all add: held_def)
  then have "in_flight ?q + mset_set (held wc ?q) = mset_set {pl_next_consume p..<pl_next_dispatch p}"
    using win by (simp add: pool_window_def)
  moreover have "(pl_slots p)[i mod wc := Some r] ! (j mod wc) = Some (fst (build j w))" if "j \<in> insert i (held wc p)" for j
  proof (cases "j = i")
    case False
    then have "j \<in> held wc p" using that by simp
    moreover from this free have "j mod wc \<noteq> i mod wc" by (auto simp: held_def)
    ultimately show ?thesis using win by (simp add: pool_window_def)
  qed (use wc len r in simp)
  moreover have "\<exists>j \<in> insert i (held wc p). j mod wc = q" if "q < wc" "(pl_slots p)[i mod wc := Some r] ! q \<noteq> None" for q
    using that win len by (cases "q = i mod wc") (auto simp: pool_window_def)
  ultimately have "pool_window build vis wc s w ?q"
    using win unfolding pool_window_def held by simp
  moreover have "pool_common build n wc w ?q"
    using com res fl by (auto simp: pool_common_def)
  ultimately show ?thesis using free nd by (simp add: receive_result_def pool_inv_def)
qed

text \<open>The calling thread looks at the slot of the next index.\<close>

lemma window_head:
  assumes win: "pool_window build vis wc s w p" and wc: "0 < wc"
    and slot: "pl_slots p ! (pl_next_consume p mod wc) = Some x"
  shows "pl_next_consume p \<in> held wc p" and "x = fst (build (pl_next_consume p) w)"
proof -
  let ?c = "pl_next_consume p"
  have "?c mod wc < wc" "pl_slots p ! (?c mod wc) \<noteq> None" using wc slot by simp_all
  then obtain j where j: "j \<in> held wc p" "j mod wc = ?c mod wc" using win unfolding pool_window_def by blast
  then have "j = ?c" using residue_inj [OF j(2), of ?c] win wc by (auto simp: held_def pool_window_def)
  with j(1) show "?c \<in> held wc p" by simp
  with win have "pl_slots p ! (?c mod wc) = Some (fst (build ?c w))" by (simp add: pool_window_def)
  with slot show "x = fst (build ?c w)" by simp
qed

lemma visits_at:
  assumes "visits vis res [0..<c] s = Inr t" and "c < n"
  shows "visits vis res [0..<n] s = try_op (res c) (\<lambda>r. try_op (vis c r t) (visits vis res [Suc c..<n]))"
    and "visits vis res [0..<Suc c] s = try_op (res c) (\<lambda>r. vis c r t)"
proof -
  have "[0..<n] = [0..<c] @ c # [Suc c..<n]"
    using assms(2) by (metis less_imp_le_nat upt_add_eq_append upt_conv_Cons le_add_diff_inverse zero_le)
  then show "visits vis res [0..<n] s = try_op (res c) (\<lambda>r. try_op (vis c r t) (visits vis res [Suc c..<n]))"
    using assms(1) by (simp add: visits_append)
  show "visits vis res [0..<Suc c] s = try_op (res c) (\<lambda>r. vis c r t)"
    using assms(1) by (auto simp: visits_append try_op_def split: sum.splits)
qed

lemma window_consume:
  assumes win: "pool_window build vis wc s w p" and wc: "0 < wc" and len: "length (pl_slots p) = wc"
    and slot: "pl_slots p ! (pl_next_consume p mod wc) = Some (Inr r)"
    and v: "vis (pl_next_consume p) r (pl_state p) = Inr t" and c: "pl_next_consume p < n"
  shows "pool_window build vis wc s w
     (p\<lparr>pl_slots := (pl_slots p)[pl_next_consume p mod wc := None], pl_state := t,
        pl_next_consume := Suc (pl_next_consume p)\<rparr>)" (is "pool_window _ _ _ _ _ ?q")
proof -
  let ?c = "pl_next_consume p" and ?d = "pl_next_dispatch p"
  note head = window_head [OF win wc slot]
  have nd: "?d \<le> ?c + wc" and eq: "in_flight p + mset_set (held wc p) = mset_set {?c..<?d}"
    and st: "visits vis (\<lambda>i. fst (build i w)) [0..<?c] s = Inr (pl_state p)"
    using win by (simp_all add: pool_window_def)
  have held: "held wc ?q = held wc p - {?c}" by (rule held_consume [OF nd wc len])
  have cd: "?c < ?d" using head(1) by (simp add: held_def)
  then have "{?c..<?d} = insert ?c {Suc ?c..<?d}" by auto
  then have "mset_set {?c..<?d} = add_mset ?c (mset_set {Suc ?c..<?d})" by simp
  moreover have "mset_set (held wc p) = add_mset ?c (mset_set (held wc ?q))"
    unfolding held using head(1) by (subst mset_set.insert_remove [symmetric]) (auto simp: held_def insert_absorb)
  moreover have "in_flight ?q = in_flight p" by (simp add: in_flight_def)
  ultimately have "in_flight ?q + mset_set (held wc ?q) = mset_set {Suc ?c..<?d}" using eq by simp
  moreover have "(pl_slots p)[?c mod wc := None] ! (j mod wc) = Some (fst (build j w))" if "j \<in> held wc p - {?c}" for j
  proof -
    have "j mod wc \<noteq> ?c mod wc" using residue_inj [of j wc ?c ?c] that nd wc by (auto simp: held_def)
    then show ?thesis using that win by (simp add: pool_window_def)
  qed
  moreover have "visits vis (\<lambda>i. fst (build i w)) [0..<Suc ?c] s = Inr t"
    unfolding visits_at(2) [OF st c] using head(2) v by (metis try_op_simps(2))
  moreover have "\<exists>j \<in> held wc p - {?c}. j mod wc = q" if "q < wc" "(pl_slots p)[?c mod wc := None] ! q \<noteq> None" for q
    using that win len by (cases "q = ?c mod wc") (auto simp: pool_window_def)
  ultimately show ?thesis using win cd nd unfolding pool_window_def held
    by (simp del: upt_Suc)
qed

lemma inv_closes:
  assumes "pool_common build n wc w p" and "pl_slots q = pl_slots p \<or> length (pl_slots q) = wc"
    and "pl_jobs q = pl_jobs p" "pl_results q = pl_results p" "pl_workers q = pl_workers p"
      "pl_next_dispatch q = pl_next_dispatch p" "pl_world q = pl_world p"
    and "out = visits vis (\<lambda>i. fst (build i w)) [0..<n] s"
    and "isl out \<or> in_flight p = {#} \<and> pl_next_dispatch p = n"
  shows "pool_inv build vis n wc s w (close_pool out q)"
proof -
  have fl: "in_flight (close_pool out q) = in_flight p" using assms(3-5) by (simp add: in_flight_def close_pool_def)
  then have "pool_common build n wc w (close_pool out q)"
    using assms(1-7) by (auto simp: pool_common_def close_pool_def)
  with fl assms(6,8,9) show ?thesis by (simp add: pool_inv_def pool_done_def close_pool_def)
qed

lemma inv_drains:
  assumes inv: "pool_inv build vis n wc s w p" and main: "pl_main p = Draining" and wc: "0 < wc"
  shows "pool_inv build vis n wc s w (consume_slot vis n wc p)"
proof -
  let ?c = "pl_next_consume p" and ?d = "pl_next_dispatch p"
  let ?p = "p\<lparr>pl_slots := (pl_slots p)[?c mod wc := None]\<rparr>"
  have win: "pool_window build vis wc s w p" and com: "pool_common build n wc w p"
    and nd: "?d = min n (?c + wc)" and c: "?c < n"
    using inv main by (simp_all add: pool_inv_def)
  have len: "length (pl_slots p) = wc" using com by (simp add: pool_common_def)
  have st: "visits vis (\<lambda>i. fst (build i w)) [0..<?c] s = Inr (pl_state p)" using win by (simp add: pool_window_def)
  have stop: "pool_inv build vis n wc s w (close_pool (Inl e) ?p)"
    if "Inl e = visits vis (\<lambda>i. fst (build i w)) [0..<n] s" for e
    by (rule inv_closes [OF com]) (use that len in \<open>simp_all flip: that\<close>)
  show ?thesis
  proof (cases "pl_slots p ! (?c mod wc)")
    case None
    then show ?thesis using win com nd c by (simp add: consume_slot_def pool_inv_def)
  next
    case (Some x)
    note x = window_head(2) [OF win wc Some]
    show ?thesis
    proof (cases x)
      case (Inl e)
      have "visits vis (\<lambda>i. fst (build i w)) [0..<n] s = Inl e"
        unfolding visits_at(1) [OF st c] x [symmetric] Inl by simp
      with stop Some Inl show ?thesis by (simp add: consume_slot_def Let_def)
    next
      case (Inr r)
      note all = visits_at(1) [OF st c, unfolded x [symmetric] Inr try_op_simps(2)]
      show ?thesis
      proof (cases "vis ?c r (pl_state p)")
        case (Inl e)
        with stop all Some Inr show ?thesis by (simp add: consume_slot_def Let_def)
      next
        case v: (Inr t)
        let ?q = "?p\<lparr>pl_state := t, pl_next_consume := Suc ?c\<rparr>"
        have win': "pool_window build vis wc s w ?q"
          by (rule window_consume [OF win wc len Some [unfolded Inr] v c])
        have com': "pool_common build n wc w ?q" using com by (simp add: pool_common_def in_flight_def)
        have "pool_inv build vis n wc s w (close_pool (Inr t) ?q)" if "Suc ?c = n" "?d = n"
        proof (rule inv_closes [OF com'])
          show "Inr t = visits vis (\<lambda>i. fst (build i w)) [0..<n] s" using all v that(1) by simp
          have "size (in_flight ?q) = 0" using window_size [OF win'] that by simp
          then show "isl (Inr t) \<or> in_flight ?q = {#} \<and> pl_next_dispatch ?q = n" using that(2) by simp
        qed simp_all
        moreover have "pool_inv build vis n wc s w (?q\<lparr>pl_main := Refilling\<rparr>)" if "?d < n"
          using win' com' nd that by (simp add: pool_inv_def)
        moreover have "pool_inv build vis n wc s w (?q\<lparr>pl_main := Draining\<rparr>)" if "?d = n" "Suc ?c \<noteq> n"
          using win' com' nd c that by (simp add: pool_inv_def)
        moreover have "?d < n \<or> ?d = n" using nd by auto
        ultimately show ?thesis using Some Inr v by (auto simp: consume_slot_def after_consume_def Let_def)
      qed
    qed
  qed
qed

lemma inv_refills:
  assumes inv: "pool_inv build vis n wc s w p" and main: "pl_main p = Refilling" and wc: "0 < wc"
  shows "pool_inv build vis n wc s w (after_consume n (send_job p))"
proof -
  have win: "pool_window build vis wc s w p" and com: "pool_common build n wc w p"
    and nd: "Suc (pl_next_dispatch p) = pl_next_consume p + wc" "pl_next_dispatch p < n"
    using inv main by (simp_all add: pool_inv_def)
  have lt: "pl_next_dispatch p < pl_next_consume p + wc" using nd by simp
  have "pl_next_consume p < n" using win nd by (simp add: pool_window_def)
  with window_send [OF win lt wc] common_send [OF com win lt nd(2)] nd show ?thesis
    by (simp add: after_consume_def pool_inv_def) (simp add: send_job_def)
qed

lemma inv_dispatch:
  assumes inv: "pool_inv build vis n wc s w p" and main: "pl_main p = Dispatching" and wc: "0 < wc" "wc \<le> n"
  shows "pl_next_dispatch p < min wc n \<Longrightarrow> pool_inv build vis n wc s w (send_job p)"
    and "\<not> pl_next_dispatch p < min wc n \<Longrightarrow> pool_inv build vis n wc s w (p\<lparr>pl_main := Receiving\<rparr>)"
proof -
  have win: "pool_window build vis wc s w p" and com: "pool_common build n wc w p"
    and c: "pl_next_consume p = 0" and none: "held wc p = {}"
    using inv main by (simp_all add: pool_inv_def)
  show "pool_inv build vis n wc s w (send_job p)" if d: "pl_next_dispatch p < min wc n"
  proof -
    have lt: "pl_next_dispatch p < pl_next_consume p + wc" "pl_next_dispatch p < n" using d c by simp_all
    show ?thesis
      using window_send [OF win lt(1) wc(1)] common_send [OF com win lt] held_send(1) [OF win lt(1) wc(1)] none c main
      by (simp add: pool_inv_def) (simp add: send_job_def)
  qed
  show "pool_inv build vis n wc s w (p\<lparr>pl_main := Receiving\<rparr>)" if d: "\<not> pl_next_dispatch p < min wc n"
  proof -
    have "pl_next_dispatch p = min n wc" using d c win com by (auto simp: pool_window_def pool_common_def)
    moreover have "pl_slots p ! 0 = None" using win none wc(1) by (auto simp: pool_window_def)
    ultimately show ?thesis using win com c wc by (simp add: pool_inv_def)
  qed
qed

lemma window_not_exited:
  assumes "pool_inv build vis n wc s w p" and "pl_main p = Receiving" and "0 < wc"
  shows "\<not> set (pl_workers p) \<subseteq> {Exited}"
proof -
  have "Exited \<notin> set (pl_workers p)" "pl_workers p \<noteq> []"
    using assms by (auto simp: pool_inv_def pool_window_def pool_common_def)
  then show ?thesis by (cases "pl_workers p") auto
qed

context independent_work
begin

lemma inv_step:
  assumes "pool_step build vis n wc p p'" and "pool_inv build vis n wc s w p" and "0 < wc" "wc \<le> n"
  shows "pool_inv build vis n wc s w p'"
  using assms(1)
proof cases
  case result_queue_closed
  with window_not_exited [OF assms(2) _ assms(3)] show ?thesis by blast
next
  case (joins out)
  then show ?thesis using assms(2) by (auto simp: pool_inv_def pool_done_def)
qed (simp_all add: inv_dispatch [OF assms(2) _ assms(3,4)] inv_receives [OF assms(2) _ _ assms(3)]
    inv_drains [OF assms(2) _ assms(3)] inv_refills [OF assms(2) _ assms(3)] inv_takes [OF assms(2)]
    inv_stops [OF assms(2)] inv_builds [OF assms(2)] inv_sends [OF assms(2)])

lemma inv_start: "pool_inv build vis n wc s w (pool_start wc s w)"
proof -
  have "sum_list (replicate k {#}) = ({#} :: nat multiset)" for k by (induction k) simp_all
  then show ?thesis by (auto simp: pool_inv_defs pool_start_def in_flight_def held_def)
qed

lemma inv_reaches:
  assumes "pool_reaches build vis n wc s w p" and "0 < wc" "wc \<le> n"
  shows "pool_inv build vis n wc s w p"
  using assms(1) by induction (auto intro: inv_start inv_step [OF _ _ assms(2,3)])

text \<open>What the calling thread returns.\<close>

lemma pool_outcome:
  assumes "pool_reaches build vis n wc s w p" and "0 < wc" "wc \<le> n" and "pl_main p = Returned out"
  shows "out = fst (plan_loop build vis [0..<n] s w)"
    and "\<not> isl out \<Longrightarrow> pl_world p = snd (plan_loop build vis [0..<n] s w)"
proof -
  from inv_reaches [OF assms(1-3)] assms(4)
  have out: "out = visits vis (\<lambda>i. fst (build i w)) [0..<n] s"
    and fin: "isl out \<or> in_flight p = {#} \<and> pl_next_dispatch p = n" and com: "pool_common build n wc w p"
    by (auto simp: pool_inv_def pool_done_def)
  show loop: "out = fst (plan_loop build vis [0..<n] s w)" using plan_loop_visits [of "[0..<n]" vis s w] out by (auto simp: subset_iff)
  assume ok: "\<not> isl out"
  have "unbuilt x \<subseteq># in_worker x" for x :: "'r parser_worker" by (cases x) simp_all
  then have "sum_list (map unbuilt xs) \<subseteq># sum_list (map in_worker xs)" for xs :: "'r parser_worker list"
    by (induction xs) (auto intro: subset_mset.add_mono)
  with fin ok have "sum_list (map unbuilt (pl_workers p)) = {#}" "pl_jobs p = []"
    by (auto simp: in_flight_def) (metis subset_mset.le_zero_eq)
  with com fin ok obtain order where "mset order = mset [0..<n]" "pl_world p = runs build order w"
    by (auto simp: pool_common_def)
  moreover from this(1) have "set order \<subseteq> {..<n}" by (metis atLeast_upt mset_eq_setD subset_refl lessThan_atLeast0 set_upt)
  ultimately have "pl_world p = runs build [0..<n] w" using runs_permuted by metis
  moreover obtain t where "fst (plan_loop build vis [0..<n] s w) = Inr t" using ok loop by (metis sum.collapse(2))
  ultimately show "pl_world p = snd (plan_loop build vis [0..<n] s w)" using plan_loop_world by metis
qed

end

section \<open>Progress and termination\<close>

lemma worker_moves:
  assumes com: "pool_common build n wc w p" and k: "k < length (pl_workers p)" "pl_workers p ! k \<noteq> Exited"
    and ready: "pl_workers p ! k = Ready \<longrightarrow> pl_jobs p \<noteq> [] \<or> \<not> pl_jobs_open p"
  shows "\<exists>p'. pool_step build vis n wc p p'"
proof (cases "pl_workers p ! k")
  case Ready
  then show ?thesis
    using pool_step.worker_takes_job [OF k(1) Ready] pool_step.worker_stops [OF k(1) Ready] ready
    by (cases "pl_jobs p") blast+
next
  case (Building i)
  obtain r w' where b: "build i (pl_world p) = (r, w')" by fastforce
  show ?thesis by (rule exI, rule pool_step.worker_builds, rule k(1), rule Building, rule b)
next
  case (Sending i r)
  have "sum_list (map in_worker ((pl_workers p)[k := Ready])) + {#i#} = sum_list (map in_worker (pl_workers p))"
    using in_flight_update(1) [OF k(1), of Ready] Sending by simp
  then have "sum_list (map in_worker (pl_workers p)) \<noteq> {#}" by auto
  then have "0 < size (sum_list (map in_worker (pl_workers p)))" by (simp add: nonempty_has_size)
  moreover have "size (in_flight p) \<le> wc" using com by (simp add: pool_common_def)
  ultimately have "length (pl_results p) < wc" by (simp add: in_flight_def)
  from pool_step.worker_sends [OF k(1) Sending this] show ?thesis by blast
next
  case Exited
  with k show ?thesis by simp
qed

lemma ready_workers: "set xs \<subseteq> {Ready} \<Longrightarrow> sum_list (map in_worker xs) = {#}"
  by (induction xs) auto

lemma pool_progress:
  assumes inv: "pool_inv build vis n wc s w p" and wc: "0 < wc" and main: "\<forall>out. pl_main p \<noteq> Returned out"
  shows "\<exists>p'. pool_step build vis n wc p p'"
proof -
  have com: "pool_common build n wc w p" using inv by (simp add: pool_inv_def)
  have jobs: "length (pl_jobs p) \<le> size (in_flight p)" by (simp add: in_flight_def)
  show ?thesis
  proof (cases "pl_main p")
    case Dispatching
    then have win: "pool_window build vis wc s w p" "pl_next_consume p = 0" using inv by (simp_all add: pool_inv_def)
    with window_size [OF win(1)] jobs have "pl_next_dispatch p < min wc n \<Longrightarrow> length (pl_jobs p) < wc" by simp
    then show ?thesis using pool_step.dispatches [OF Dispatching] pool_step.dispatched [OF Dispatching] by blast
  next
    case Receiving
    then have win: "pool_window build vis wc s w p" and c: "pl_next_consume p < pl_next_dispatch p"
      and none: "pl_slots p ! (pl_next_consume p mod wc) = None"
      using inv wc by (auto simp: pool_inv_def)
    have "pl_next_consume p \<in># in_flight p + mset_set (held wc p)" using win c by (simp add: pool_window_def)
    then have c': "pl_next_consume p \<in># in_flight p" using none by (auto simp: held_def)
    show ?thesis
    proof (cases "pl_results p")
      case Nil
      show ?thesis
      proof (cases "set (pl_workers p) \<subseteq> {Ready}")
        case True
        then have "sum_list (map in_worker (pl_workers p)) = {#}" by (rule ready_workers)
        then have "pl_jobs p \<noteq> []" using c' Nil by (auto simp: in_flight_def)
        moreover have "0 < length (pl_workers p)" using com wc by (simp add: pool_common_def)
        moreover from nth_mem [OF this] True have "pl_workers p ! 0 = Ready" by blast
        ultimately show ?thesis by (intro worker_moves [OF com, of 0]) auto
      next
        case False
        then obtain x where "x \<in> set (pl_workers p)" "x \<noteq> Ready" by blast
        then obtain k where k: "k < length (pl_workers p)" "pl_workers p ! k \<noteq> Ready" by (auto simp: in_set_conv_nth)
        moreover have "Exited \<notin> set (pl_workers p)" using win by (simp add: pool_window_def)
        then have "pl_workers p ! k \<noteq> Exited" using k(1) by (metis nth_mem)
        ultimately show ?thesis by (intro worker_moves [OF com k(1)]) auto
      qed
    qed (use pool_step.receives [OF Receiving] in fastforce)
  next
    case Refilling
    then have win: "pool_window build vis wc s w p" and d: "Suc (pl_next_dispatch p) = pl_next_consume p + wc"
      using inv by (simp_all add: pool_inv_def)
    have "length (pl_jobs p) < wc" using window_size [OF win] jobs d wc by linarith
    from pool_step.refills [OF Refilling this] show ?thesis by blast
  next
    case (Closing out)
    show ?thesis
    proof (cases "set (pl_workers p) \<subseteq> {Exited}")
      case False
      then obtain x where "x \<in> set (pl_workers p)" "x \<noteq> Exited" by blast
      then obtain k where "k < length (pl_workers p)" "pl_workers p ! k \<noteq> Exited" by (auto simp: in_set_conv_nth)
      moreover have "\<not> pl_jobs_open p" using inv Closing by (simp add: pool_inv_def pool_done_def)
      ultimately show ?thesis by (intro worker_moves [OF com]) auto
    qed (use pool_step.joins [OF Closing] in blast)
  qed (use main pool_step.drains in blast)+
qed

definition worker_weight :: "'r parser_worker \<Rightarrow> nat" where
  "worker_weight x = (case x of Ready \<Rightarrow> 1 | Building i \<Rightarrow> 41 | Sending i r \<Rightarrow> 31 | Exited \<Rightarrow> 0)"

definition main_weight :: "'s main_thread \<Rightarrow> nat" where
  "main_weight m =
     (case m of Dispatching \<Rightarrow> 5 | Receiving \<Rightarrow> 2 | Draining \<Rightarrow> 3 | Refilling \<Rightarrow> 4 | Closing out \<Rightarrow> 1 | Returned out \<Rightarrow> 0)"

definition pool_weight :: "nat \<Rightarrow> ('r, 's, 'w) pool \<Rightarrow> nat" where
  "pool_weight n p =
     60 * (n - pl_next_dispatch p) + 50 * length (pl_jobs p) + sum_list (map worker_weight (pl_workers p))
     + 20 * length (pl_results p) + sum_list (map (\<lambda>x. if x = None then 0 else 10) (pl_slots p))
     + main_weight (pl_main p)"

lemma weight_update:
  assumes "k < length (pl_workers p)"
  shows "sum_list (map worker_weight ((pl_workers p)[k := x])) + worker_weight (pl_workers p ! k)
       = sum_list (map worker_weight (pl_workers p)) + worker_weight x"
  using assms by (rule sum_list_update_eq)

lemma slot_update:
  fixes slots :: "'x option list"
  assumes "k < length slots"
  shows "sum_list (map (\<lambda>x. if x = None then 0 else 10) (slots[k := x])) + (if slots ! k = None then 0 else 10)
       = sum_list (map (\<lambda>x. if x = None then 0 else 10) slots) + (if x = None then 0 else (10 :: nat))"
  using assms by (rule sum_list_update_eq)

lemma pool_step_decreases:
  assumes "pool_step build vis n wc p p'" and "pool_inv build vis n wc s w p" and wc: "0 < wc"
  shows "pool_weight n p' < pool_weight n p"
proof -
  have len: "i mod wc < length (pl_slots p)" for i using assms(2) wc by (simp add: pool_inv_def pool_common_def)
  from assms(1) show ?thesis
  proof cases
    case (receives i r rest)
    with slot_update [OF len [of i], of "Some r"] show ?thesis
      by (auto simp: receive_result_def Let_def close_pool_def pool_weight_def main_weight_def)
  next
    case drains
    with slot_update [OF len [of "pl_next_consume p"], of None] show ?thesis
      by (auto simp: consume_slot_def after_consume_def close_pool_def pool_weight_def main_weight_def Let_def
          split: option.splits sum.splits)
  next
    case refills
    then have "pl_next_dispatch p < n" using assms(2) by (simp add: pool_inv_def)
    with refills show ?thesis
      by (auto simp: after_consume_def send_job_def close_pool_def pool_weight_def main_weight_def)
  next
    case (worker_takes_job k i rest)
    with weight_update [OF this(2), of "Building i"] show ?thesis by (simp add: pool_weight_def worker_weight_def)
  next
    case (worker_stops k)
    with weight_update [OF this(2), of "Exited"] show ?thesis by (simp add: pool_weight_def worker_weight_def)
  next
    case (worker_builds k i r w')
    with weight_update [OF this(2), of "Sending i r"] show ?thesis by (simp add: pool_weight_def worker_weight_def)
  next
    case (worker_sends k i r)
    with weight_update [OF this(2), of "Ready"] show ?thesis by (simp add: pool_weight_def worker_weight_def)
  qed (auto simp: send_job_def close_pool_def pool_weight_def main_weight_def)
qed

text \<open>The pool always gets to its end, and every step brings it closer.\<close>

lemma pool_ends:
  assumes "independent_work work n" and "0 < wc" "wc \<le> n" and "pool_reaches work vis n wc s w p"
  shows "\<exists>p' out. pool_reaches work vis n wc s w p' \<and> pl_main p' = Returned out"
  using assms(4)
proof (induction "pool_weight n p" arbitrary: p rule: less_induct)
  case less
  note inv = independent_work.inv_reaches [OF assms(1) less.prems assms(2,3)]
  show ?case
  proof (cases "\<exists>out. pl_main p = Returned out")
    case False
    then obtain p' where step: "pool_step work vis n wc p p'" using pool_progress [OF inv assms(2)] by blast
    from less.hyps [OF pool_step_decreases [OF step inv assms(2)] pool_steps [OF less.prems step]] show ?thesis .
  qed (use less.prems in blast)
qed

end
