(* ===== verification/StagingRows.thy ===== *)
theory StagingRows
  imports Builder
begin

text \<open>
  Staged rows and their merge (\<^verbatim>\<open>src/staging_writer/rows.rs\<close>, \<^verbatim>\<open>merge.rs\<close>) and the text formats of
  \<^verbatim>\<open>files.rs\<close>: quoting of CSV fields, file stems, paths in COPY statements. When several partitions
  stage the same node or edge, the rows are merged field by field; the lemmas show that a merged
  field is the first informative value, so that the result does not depend on how the rows are
  bracketed. The quoting is inverse to reading a row by the grammar of RFC 4180.
\<close>

section \<open>Rows\<close>

record node_staged_row =
  ns_id :: string
  ns_label :: string
  ns_kind :: string
  ns_language :: string
  ns_grammar_version :: "string option"
  ns_path :: string
  ns_qualified_name :: string
  ns_scope_id :: string
  ns_line_start :: "int option"
  ns_line_end :: "int option"
  ns_byte_start :: "int option"
  ns_byte_end :: "int option"
  ns_tree_sitter_node_type :: string
  ns_capture_name :: string
  ns_summary :: string
  ns_text :: string
  ns_metadata :: json
  ns_content_hash :: "string option"

record edge_staged_row =
  es_id :: string
  es_kind :: string
  es_source_id :: string
  es_target_id :: string
  es_confidence :: rat
  es_field_name :: "string option"
  es_child_index :: "int option"
  es_line_start :: "int option"
  es_line_end :: "int option"
  es_byte_start :: "int option"
  es_byte_end :: "int option"
  es_metadata :: json

definition node_fields :: "graph_node_row \<Rightarrow> string option \<Rightarrow> node_staged_row" where
  "node_fields node content_hash =
     \<lparr>ns_id = gn_id node, ns_label = gn_label node, ns_kind = gn_kind node, ns_language = gn_language node,
      ns_grammar_version = gn_grammar_version node, ns_path = gn_path node,
      ns_qualified_name = gn_qualified_name node, ns_scope_id = gn_scope_id node,
      ns_line_start = gn_line_start node, ns_line_end = gn_line_end node,
      ns_byte_start = gn_byte_start node, ns_byte_end = gn_byte_end node,
      ns_tree_sitter_node_type = gn_tree_sitter_node_type node, ns_capture_name = gn_capture_name node,
      ns_summary = gn_summary node, ns_text = gn_summary node, ns_metadata = gn_metadata node,
      ns_content_hash = content_hash\<rparr>"

definition edge_fields :: "graph_edge_row \<Rightarrow> edge_staged_row" where
  "edge_fields row =
     \<lparr>es_id = ge_id row, es_kind = ge_kind row, es_source_id = ge_source_id row, es_target_id = ge_target_id row,
      es_confidence = ge_confidence row, es_field_name = ge_field_name row, es_child_index = ge_child_index row,
      es_line_start = ge_line_start row, es_line_end = ge_line_end row,
      es_byte_start = ge_byte_start row, es_byte_end = ge_byte_end row, es_metadata = ge_metadata row\<rparr>"

section \<open>Merging rows\<close>

definition json_value_is_empty :: "json \<Rightarrow> bool" where
  "json_value_is_empty v =
     (case v of
        JNull \<Rightarrow> True
      | JString s \<Rightarrow> s = []
      | JArray xs \<Rightarrow> xs = []
      | JObject m \<Rightarrow> m = []
      | JBool _ \<Rightarrow> False
      | JNumber _ \<Rightarrow> False)"

definition merge_string :: "string \<Rightarrow> string \<Rightarrow> string" where
  "merge_string existing incoming = (if existing = [] \<and> incoming \<noteq> [] then incoming else existing)"

definition merge_optional_string :: "string option \<Rightarrow> string option \<Rightarrow> string option" where
  "merge_optional_string existing incoming =
     (case incoming of
        None \<Rightarrow> existing
      | Some s \<Rightarrow> if s \<noteq> [] \<and> (case existing of None \<Rightarrow> True | Some current \<Rightarrow> current = []) then Some s else existing)"

definition merge_optional_i64 :: "int option \<Rightarrow> int option \<Rightarrow> int option" where
  "merge_optional_i64 existing incoming = (if existing = None \<and> incoming \<noteq> None then incoming else existing)"

definition merge_value :: "json \<Rightarrow> json \<Rightarrow> json" where
  "merge_value existing incoming =
     (if json_value_is_empty existing \<and> \<not> json_value_is_empty incoming then incoming else existing)"

text \<open>\<open>f64::EPSILON\<close>. The subtraction next to 1 is exact in floating point, so that the test is the same on rationals.\<close>

definition epsilon :: rat where
  "epsilon = 1 / 2 ^ 52"

definition full_confidence :: "rat \<Rightarrow> bool" where
  "full_confidence c \<longleftrightarrow> \<bar>c - 1\<bar> < epsilon"

definition merge_node_value :: "node_staged_row \<Rightarrow> node_staged_row \<Rightarrow> node_staged_row" where
  "merge_node_value existing incoming =
     existing\<lparr>ns_id := merge_string (ns_id existing) (ns_id incoming),
       ns_label := merge_string (ns_label existing) (ns_label incoming),
       ns_kind := merge_string (ns_kind existing) (ns_kind incoming),
       ns_language := merge_string (ns_language existing) (ns_language incoming),
       ns_grammar_version := merge_optional_string (ns_grammar_version existing) (ns_grammar_version incoming),
       ns_path := merge_string (ns_path existing) (ns_path incoming),
       ns_qualified_name := merge_string (ns_qualified_name existing) (ns_qualified_name incoming),
       ns_scope_id := merge_string (ns_scope_id existing) (ns_scope_id incoming),
       ns_line_start := merge_optional_i64 (ns_line_start existing) (ns_line_start incoming),
       ns_line_end := merge_optional_i64 (ns_line_end existing) (ns_line_end incoming),
       ns_byte_start := merge_optional_i64 (ns_byte_start existing) (ns_byte_start incoming),
       ns_byte_end := merge_optional_i64 (ns_byte_end existing) (ns_byte_end incoming),
       ns_tree_sitter_node_type := merge_string (ns_tree_sitter_node_type existing) (ns_tree_sitter_node_type incoming),
       ns_capture_name := merge_string (ns_capture_name existing) (ns_capture_name incoming),
       ns_summary := merge_string (ns_summary existing) (ns_summary incoming),
       ns_metadata := merge_value (ns_metadata existing) (ns_metadata incoming),
       ns_content_hash := merge_optional_string (ns_content_hash existing) (ns_content_hash incoming)\<rparr>"

definition merge_edge_value :: "edge_staged_row \<Rightarrow> edge_staged_row \<Rightarrow> edge_staged_row" where
  "merge_edge_value existing incoming =
     existing\<lparr>es_id := merge_string (es_id existing) (es_id incoming),
       es_kind := merge_string (es_kind existing) (es_kind incoming),
       es_source_id := merge_string (es_source_id existing) (es_source_id incoming),
       es_target_id := merge_string (es_target_id existing) (es_target_id incoming),
       es_confidence :=
         (if full_confidence (es_confidence existing) \<and> \<not> full_confidence (es_confidence incoming)
          then es_confidence incoming else es_confidence existing),
       es_field_name := merge_optional_string (es_field_name existing) (es_field_name incoming),
       es_child_index := merge_optional_i64 (es_child_index existing) (es_child_index incoming),
       es_line_start := merge_optional_i64 (es_line_start existing) (es_line_start incoming),
       es_line_end := merge_optional_i64 (es_line_end existing) (es_line_end incoming),
       es_byte_start := merge_optional_i64 (es_byte_start existing) (es_byte_start incoming),
       es_byte_end := merge_optional_i64 (es_byte_end existing) (es_byte_end incoming),
       es_metadata := merge_value (es_metadata existing) (es_metadata incoming)\<rparr>"

section \<open>Text formats\<close>

abbreviation quote_char :: char where
  "quote_char \<equiv> CHR 0x22"

definition needs_quotes :: "string \<Rightarrow> bool" where
  "needs_quotes v \<longleftrightarrow> list_ex (\<lambda>b. b \<in> {CHR '','', quote_char, CHR 0x0A, CHR 0x0D}) v"

text \<open>
  The loop over the bytes of the field: up to each quote the piece since the last one is copied,
  and the quote is doubled.
\<close>

fun csv_pieces :: "string \<Rightarrow> nat \<Rightarrow> nat \<Rightarrow> string \<Rightarrow> string" where
  "csv_pieces v start index [] = drop start v"
| "csv_pieces v start index (b # bs) =
     (if b \<noteq> quote_char then csv_pieces v start (index + 1) bs
      else take (index - start) (drop start v) @ [quote_char, quote_char] @ csv_pieces v (index + 1) (index + 1) bs)"

definition write_csv_field :: "string \<Rightarrow> string" where
  "write_csv_field v =
     (if \<not> needs_quotes v then v
      else [quote_char] @ csv_pieces v 0 0 v @ [quote_char])"

definition output_file_stem :: "string \<Rightarrow> string" where
  "output_file_stem name =
     (let stem = trim_matches_char (CHR ''_'')
            (concat (map (\<lambda>c. case c of
                                [b] \<Rightarrow> if ascii_alphanumeric b then [ascii_lower b] else ''_''
                              | _ \<Rightarrow> ''_'') (chars name)))
      in if stem = [] then ''table'' else stem)"

definition copy_path :: "string \<Rightarrow> string" where
  "copy_path path =
     (let p = replace_char (CHR 0x5C) (CHR ''/'') path;
          q = (case strip_prefix ''//?/UNC/'' p of
                 Some stripped \<Rightarrow> ''//'' @ stripped
               | None \<Rightarrow> (case strip_prefix ''//?/'' p of Some stripped \<Rightarrow> stripped | None \<Rightarrow> p))
      in concat (map (\<lambda>b. if b = quote_char then [CHR 0x5C, quote_char] else [b]) q))"

definition chunked_output_path :: "string \<Rightarrow> string \<Rightarrow> string \<Rightarrow> nat \<Rightarrow> string" where
  "chunked_output_path base stem extension index =
     base @ ''/'' @ (if index = 0 then stem @ ''.'' @ extension
                     else stem @ ''__'' @ zero_padded 6 index @ ''.'' @ extension)"

section \<open>Facts: merging\<close>

text \<open>The first value of a list that carries information, the first of all when none does.\<close>

definition first_informative :: "('a \<Rightarrow> bool) \<Rightarrow> 'a list \<Rightarrow> 'a" where
  "first_informative vacuous xs = (case dropWhile vacuous xs of [] \<Rightarrow> hd xs | x # _ \<Rightarrow> x)"

definition keep_first :: "('a \<Rightarrow> bool) \<Rightarrow> 'a \<Rightarrow> 'a \<Rightarrow> 'a" where
  "keep_first vacuous existing incoming = (if vacuous existing \<and> \<not> vacuous incoming then incoming else existing)"

lemma foldl_keep_first: "foldl (keep_first vacuous) x xs = first_informative vacuous (x # xs)"
proof (induction xs arbitrary: x)
  case (Cons y ys)
  then have "foldl (keep_first vacuous) x (y # ys) = first_informative vacuous (keep_first vacuous x y # ys)" by simp
  also have "\<dots> = first_informative vacuous (x # y # ys)"
    by (cases "dropWhile vacuous ys") (auto simp: first_informative_def keep_first_def simp del: dropWhile_eq_Nil_conv)
  finally show ?case .
qed (simp add: first_informative_def)

definition empty_option :: "string option \<Rightarrow> bool" where
  "empty_option v \<longleftrightarrow> v = None \<or> v = Some []"

lemma merges_keep_first:
  "merge_string = keep_first (\<lambda>s. s = [])"
  "merge_optional_string = keep_first empty_option"
  "merge_optional_i64 = keep_first (\<lambda>v. v = None)"
  "merge_value = keep_first json_value_is_empty"
  by (auto simp: fun_eq_iff merge_string_def merge_optional_string_def merge_optional_i64_def merge_value_def
      keep_first_def empty_option_def split: option.splits)

text \<open>All rows of one group, in the order of their sources.\<close>

fun merge_all :: "('a \<Rightarrow> 'a \<Rightarrow> 'a) \<Rightarrow> 'a list \<Rightarrow> 'a" where
  "merge_all merge [] = undefined"
| "merge_all merge (x # xs) = foldl merge x xs"

lemma foldl_field:
  assumes "\<And>a b. f (merge a b) = keep_first vacuous (f a) (f b)"
  shows "f (foldl merge x xs) = first_informative vacuous (map f (x # xs))"
proof -
  have "f (foldl merge x xs) = foldl (keep_first vacuous) (f x) (map f xs)"
    by (induction xs arbitrary: x) (simp_all add: assms)
  then show ?thesis by (simp add: foldl_keep_first)
qed

lemma merge_all_field:
  assumes "rows \<noteq> []" and "\<And>a b. f (merge a b) = keep_first vacuous (f a) (f b)"
  shows "f (merge_all merge rows) = first_informative vacuous (map f rows)"
  using assms foldl_field [of f merge vacuous] by (cases rows) auto

lemma merge_node_fields [simp]:
  "ns_id (merge_node_value a b) = keep_first (\<lambda>s. s = []) (ns_id a) (ns_id b)"
  "ns_label (merge_node_value a b) = keep_first (\<lambda>s. s = []) (ns_label a) (ns_label b)"
  "ns_kind (merge_node_value a b) = keep_first (\<lambda>s. s = []) (ns_kind a) (ns_kind b)"
  "ns_language (merge_node_value a b) = keep_first (\<lambda>s. s = []) (ns_language a) (ns_language b)"
  "ns_grammar_version (merge_node_value a b) = keep_first empty_option (ns_grammar_version a) (ns_grammar_version b)"
  "ns_path (merge_node_value a b) = keep_first (\<lambda>s. s = []) (ns_path a) (ns_path b)"
  "ns_qualified_name (merge_node_value a b) = keep_first (\<lambda>s. s = []) (ns_qualified_name a) (ns_qualified_name b)"
  "ns_scope_id (merge_node_value a b) = keep_first (\<lambda>s. s = []) (ns_scope_id a) (ns_scope_id b)"
  "ns_line_start (merge_node_value a b) = keep_first (\<lambda>v. v = None) (ns_line_start a) (ns_line_start b)"
  "ns_line_end (merge_node_value a b) = keep_first (\<lambda>v. v = None) (ns_line_end a) (ns_line_end b)"
  "ns_byte_start (merge_node_value a b) = keep_first (\<lambda>v. v = None) (ns_byte_start a) (ns_byte_start b)"
  "ns_byte_end (merge_node_value a b) = keep_first (\<lambda>v. v = None) (ns_byte_end a) (ns_byte_end b)"
  "ns_tree_sitter_node_type (merge_node_value a b) = keep_first (\<lambda>s. s = []) (ns_tree_sitter_node_type a) (ns_tree_sitter_node_type b)"
  "ns_capture_name (merge_node_value a b) = keep_first (\<lambda>s. s = []) (ns_capture_name a) (ns_capture_name b)"
  "ns_summary (merge_node_value a b) = keep_first (\<lambda>s. s = []) (ns_summary a) (ns_summary b)"
  "ns_text (merge_node_value a b) = keep_first (\<lambda>_. False) (ns_text a) (ns_text b)"
  "ns_metadata (merge_node_value a b) = keep_first json_value_is_empty (ns_metadata a) (ns_metadata b)"
  "ns_content_hash (merge_node_value a b) = keep_first empty_option (ns_content_hash a) (ns_content_hash b)"
  by (simp_all add: merge_node_value_def merges_keep_first keep_first_def)

lemma merge_edge_fields [simp]:
  "es_id (merge_edge_value a b) = keep_first (\<lambda>s. s = []) (es_id a) (es_id b)"
  "es_kind (merge_edge_value a b) = keep_first (\<lambda>s. s = []) (es_kind a) (es_kind b)"
  "es_source_id (merge_edge_value a b) = keep_first (\<lambda>s. s = []) (es_source_id a) (es_source_id b)"
  "es_target_id (merge_edge_value a b) = keep_first (\<lambda>s. s = []) (es_target_id a) (es_target_id b)"
  "es_confidence (merge_edge_value a b) = keep_first full_confidence (es_confidence a) (es_confidence b)"
  "es_field_name (merge_edge_value a b) = keep_first empty_option (es_field_name a) (es_field_name b)"
  "es_child_index (merge_edge_value a b) = keep_first (\<lambda>v. v = None) (es_child_index a) (es_child_index b)"
  "es_line_start (merge_edge_value a b) = keep_first (\<lambda>v. v = None) (es_line_start a) (es_line_start b)"
  "es_line_end (merge_edge_value a b) = keep_first (\<lambda>v. v = None) (es_line_end a) (es_line_end b)"
  "es_byte_start (merge_edge_value a b) = keep_first (\<lambda>v. v = None) (es_byte_start a) (es_byte_start b)"
  "es_byte_end (merge_edge_value a b) = keep_first (\<lambda>v. v = None) (es_byte_end a) (es_byte_end b)"
  "es_metadata (merge_edge_value a b) = keep_first json_value_is_empty (es_metadata a) (es_metadata b)"
  by (simp_all add: merge_edge_value_def merges_keep_first keep_first_def)

lemma keep_first_assoc: "keep_first vacuous (keep_first vacuous a b) c = keep_first vacuous a (keep_first vacuous b c)"
  by (auto simp: keep_first_def)

text \<open>How the rows of a group are bracketed does not matter.\<close>

lemma merge_node_assoc: "merge_node_value (merge_node_value a b) c = merge_node_value a (merge_node_value b c)"
  by (rule node_staged_row.equality) (simp_all add: keep_first_assoc)

lemma merge_edge_assoc: "merge_edge_value (merge_edge_value a b) c = merge_edge_value a (merge_edge_value b c)"
  by (rule edge_staged_row.equality) (simp_all add: keep_first_assoc)

section \<open>Facts: CSV\<close>

text \<open>The grammar of RFC 4180: a quoted field ends at the first quote that is not doubled.\<close>

fun csv_unquote :: "string \<Rightarrow> (string \<times> string) option" where
  "csv_unquote [] = None"
| "csv_unquote [b] = (if b = quote_char then Some ([], []) else None)"
| "csv_unquote (b # c # bs) =
     (if b \<noteq> quote_char then map_option (\<lambda>(v, rest). (b # v, rest)) (csv_unquote (c # bs))
      else if c = quote_char then map_option (\<lambda>(v, rest). (quote_char # v, rest)) (csv_unquote bs)
      else Some ([], c # bs))"

definition csv_delimiter :: "char \<Rightarrow> bool" where
  "csv_delimiter b \<longleftrightarrow> b \<in> {CHR '','', CHR 0x0A, CHR 0x0D}"

definition read_csv_field :: "string \<Rightarrow> (string \<times> string) option" where
  "read_csv_field s =
     (if s \<noteq> [] \<and> hd s = quote_char then csv_unquote (tl s)
      else Some (takeWhile (\<lambda>b. \<not> csv_delimiter b) s, dropWhile (\<lambda>b. \<not> csv_delimiter b) s))"

text \<open>A row of a given number of fields, ended by a carriage return and a line feed.\<close>

fun read_csv_row :: "nat \<Rightarrow> string \<Rightarrow> (string list \<times> string) option" where
  "read_csv_row 0 s = None"
| "read_csv_row (Suc n) s =
     Option.bind (read_csv_field s) (\<lambda>(v, rest).
       if n = 0
       then map_option (\<lambda>rest'. ([v], rest')) (strip_prefix [CHR 0x0D, CHR 0x0A] rest)
       else Option.bind (strip_prefix '','' rest) (\<lambda>rest'.
            map_option (\<lambda>(vs, rest''). (v # vs, rest'')) (read_csv_row n rest')))"

definition csv_escaped :: "string \<Rightarrow> string" where
  "csv_escaped v = concat (map (\<lambda>b. if b = quote_char then [quote_char, quote_char] else [b]) v)"

lemma csv_pieces_escaped:
  assumes "bs = drop index v" and "start \<le> index"
  shows "csv_pieces v start index bs = take (index - start) (drop start v) @ csv_escaped bs"
  using assms
proof (induction bs arbitrary: start index)
  case Nil
  then show ?case by (simp add: csv_escaped_def)
next
  case (Cons b bs)
  from Cons.prems(1) have bs: "bs = drop (index + 1) v" and b: "index < length v" "v ! index = b"
    by (metis Suc_eq_plus1 drop_Suc list.sel(3) tl_drop, metis drop_eq_Nil leI list.distinct(1), metis hd_drop_conv_nth drop_eq_Nil leI list.distinct(1) list.sel(1))
  show ?case
  proof (cases "b = quote_char")
    case True
    have "csv_pieces v (index + 1) (index + 1) bs = csv_escaped bs" using Cons.IH [OF bs] by simp
    with True show ?thesis by (simp add: csv_escaped_def)
  next
    case False
    have "take (index + 1 - start) (drop start v) = take (index - start) (drop start v) @ [b]"
      using Cons.prems(2) b by (simp add: Suc_diff_le take_Suc_conv_app_nth)
    with False Cons.IH [OF bs, of start] Cons.prems(2) show ?thesis by (simp add: csv_escaped_def)
  qed
qed

lemma csv_unquote_escaped:
  assumes "rest = [] \<or> hd rest \<noteq> quote_char"
  shows "csv_unquote (csv_escaped v @ quote_char # rest) = Some (v, rest)"
proof (induction v)
  case Nil
  then show ?case using assms by (cases rest) (auto simp: csv_escaped_def)
next
  case (Cons b v)
  show ?case
  proof (cases "b = quote_char")
    case True
    with Cons show ?thesis by (simp add: csv_escaped_def)
  next
    case False
    obtain c cs where "csv_escaped v @ quote_char # rest = c # cs" by (cases "csv_escaped v @ quote_char # rest") auto
    with False Cons show ?thesis by (simp add: csv_escaped_def)
  qed
qed

lemma read_csv_field_write:
  assumes "csv_delimiter c"
  shows "read_csv_field (write_csv_field v @ c # rest) = Some (v, c # rest)"
proof (cases "needs_quotes v")
  case True
  have "csv_pieces v 0 0 v = csv_escaped v" using csv_pieces_escaped [of v 0 v 0] by simp
  moreover have "c \<noteq> quote_char" using assms by (auto simp: csv_delimiter_def)
  ultimately show ?thesis using True csv_unquote_escaped [of "c # rest" v] by (simp add: write_csv_field_def read_csv_field_def)
next
  case False
  then have plain: "\<forall>b\<in>set v. \<not> csv_delimiter b \<and> b \<noteq> quote_char"
    by (auto simp: needs_quotes_def csv_delimiter_def list_ex_iff)
  have "hd (v @ c # rest) \<noteq> quote_char" using plain assms by (cases v) (auto simp: csv_delimiter_def)
  moreover have "takeWhile (\<lambda>b. \<not> csv_delimiter b) (v @ c # rest) = v" "dropWhile (\<lambda>b. \<not> csv_delimiter b) (v @ c # rest) = c # rest"
    using plain assms by (simp_all add: takeWhile_append dropWhile_append)
  ultimately show ?thesis using False by (simp add: write_csv_field_def read_csv_field_def)
qed

section \<open>Properties\<close>


definition sample_node :: "string \<Rightarrow> string \<Rightarrow> graph_node_row" where
  "sample_node label summary =
     \<lparr>gn_id = ''n1'', gn_table = ''Function'', gn_label = label, gn_kind = ''function'', gn_language = ''rust'',
      gn_grammar_version = None, gn_path = ''a.rs'', gn_qualified_name = [], gn_scope_id = [], gn_line_start = None,
      gn_line_end = None, gn_byte_start = None, gn_byte_end = None, gn_tree_sitter_node_type = [],
      gn_capture_name = [], gn_summary = summary, gn_metadata = JNull\<rparr>"

lemma sample_node_summary [simp]: "gn_summary (sample_node label summary) = summary"
  by (simp add: sample_node_def)

definition sample_rows :: "node_staged_row list" where
  "sample_rows = [node_fields (sample_node [] []) None, node_fields (sample_node ''map'' ''maps'') (Some ''h1''),
                  node_fields (sample_node ''fold'' ''folds'') None]"


text \<open>
  C35. The column \<open>text\<close> is the exception: it starts as a copy of the summary, but a merge fills an
  empty summary from a later row and leaves \<open>text\<close> empty, so that the copy is lost to the full-text
  index that reads \<open>text\<close>.
\<close>

theorem merged_text_left_behind:
  assumes "gn_summary first = []" and "gn_summary later \<noteq> []"
  shows "ns_text (node_fields later hash') = ns_summary (node_fields later hash')
    \<and> ns_summary (merge_node_value (node_fields first hash) (node_fields later hash')) = gn_summary later
    \<and> ns_text (merge_node_value (node_fields first hash) (node_fields later hash')) = []"
  using assms by (simp add: node_fields_def keep_first_def)

theorem merged_text_left_behind_witness:
  "ns_summary (merge_node_value (node_fields (sample_node ''map'' []) None) (node_fields (sample_node ''map'' ''maps'') None)) = ''maps''
   \<and> ns_text (merge_node_value (node_fields (sample_node ''map'' []) None) (node_fields (sample_node ''map'' ''maps'') None)) = []"
  using merged_text_left_behind [of "sample_node ''map'' []" "sample_node ''map'' ''maps''" None None]
  by (simp del: merge_node_fields)

end
