(* ===== verification/RunMerge.thy ===== *)
theory RunMerge
  imports Bytes
begin

text \<open>
  Merging sorted runs through a heap of their heads, the scheme both external sorts of the program
  use (\<^verbatim>\<open>src/search_index/build.rs\<close> and \<^verbatim>\<open>src/staging_writer/spill.rs\<close>). A \<open>BinaryHeap\<close> is the list of
  its elements in no particular order; \<open>pop\<close> removes the one the reversed \<open>Ord\<close> of the code calls
  greatest, the least by key and then by reader. The locale \<open>run_merge\<close> shows once what every step
  of such a merge does to the items that are still to come: it takes the first of their stable sort.
  Files of records are readers it applies to (\<open>record_merge\<close>), the posting cursors of a search others.
\<close>

section \<open>Heaps\<close>

fun least_by :: "('h \<Rightarrow> 'o::linorder) \<Rightarrow> 'h \<Rightarrow> 'h list \<Rightarrow> 'h" where
  "least_by ord x [] = x"
| "least_by ord x (y # ys) = least_by ord (if ord y < ord x then y else x) ys"

definition heap_pop :: "('h \<Rightarrow> 'o::linorder) \<Rightarrow> 'h list \<Rightarrow> ('h \<times> 'h list) option" where
  "heap_pop ord heap =
     (case heap of
        [] \<Rightarrow> None
      | x # xs \<Rightarrow> let least = least_by ord x xs in Some (least, remove1 least heap))"

lemma least_by_in: "least_by ord x xs \<in> set (x # xs)"
  by (induction ord x xs rule: least_by.induct) auto

lemma least_by_le: "y \<in> set (x # xs) \<Longrightarrow> ord (least_by ord x xs) \<le> ord y"
proof (induction ord x xs arbitrary: y rule: least_by.induct)
  case (2 ord x z zs)
  from 2(2) have "y \<in> set zs \<or> y = x \<or> y = z" by auto
  moreover have "ord (least_by ord x (z # zs)) \<le> ord (if ord z < ord x then z else x)"
    using 2(1) [of "if ord z < ord x then z else x"] by simp
  moreover have "ord (if ord z < ord x then z else x) \<le> ord x" "ord (if ord z < ord x then z else x) \<le> ord z"
    by auto
  ultimately show ?case using 2(1) [of y] by (auto intro: order_trans simp del: if_split)
qed simp

lemma heap_pop_None [simp]: "heap_pop ord heap = None \<longleftrightarrow> heap = []"
  by (auto simp: heap_pop_def Let_def split: list.splits)

lemma heap_pop_Some:
  assumes "heap_pop ord heap = Some (x, rest)"
  shows "x \<in> set heap" and "rest = remove1 x heap" and "\<forall>y\<in>set heap. ord x \<le> ord y"
  using assms least_by_in [of ord] least_by_le [where ord = ord]
  by (auto simp: heap_pop_def Let_def split: list.splits)

section \<open>The heads of the runs\<close>

fun load_heads ::
  "('r \<Rightarrow> ('a \<times> 'r) option result) \<Rightarrow> nat \<Rightarrow> 'r list \<Rightarrow> ('a \<times> nat) list \<Rightarrow> ('r list \<times> ('a \<times> nat) list) result" where
  "load_heads read_next index [] heap = Inr ([], heap)"
| "load_heads read_next index (reader # readers) heap =
     try_op (read_next reader) (\<lambda>item.
       case item of
         None \<Rightarrow>
           try_op (load_heads read_next (Suc index) readers heap) (\<lambda>(readers', heap'). Inr (reader # readers', heap'))
       | Some (x, reader') \<Rightarrow>
           try_op (load_heads read_next (Suc index) readers (heap @ [(x, index)])) (\<lambda>(readers', heap').
             Inr (reader' # readers', heap')))"

fun heads :: "nat \<Rightarrow> 'a list list \<Rightarrow> ('a \<times> nat) list" where
  "heads index [] = []"
| "heads index ([] # runs) = heads (Suc index) runs"
| "heads index ((x # xs) # runs) = (x, index) # heads (Suc index) runs"

lemma heads_iff:
  "(x, j) \<in> set (heads index runs) \<longleftrightarrow>
     index \<le> j \<and> j < index + length runs \<and> runs ! (j - index) \<noteq> [] \<and> x = hd (runs ! (j - index))"
proof (induction index runs rule: heads.induct)
  case (2 index runs)
  then show ?case by (cases "j = index") (auto simp: nth_Cons')
next
  case (3 index y ys runs)
  then show ?case by (cases "j = index") (auto simp: nth_Cons')
qed simp

lemma distinct_heads: "distinct (heads index runs)"
  by (induction index runs rule: heads.induct) (auto simp: heads_iff)

section \<open>Stable sorting and its first element\<close>

lemma sort_key_unique:
  fixes key :: "'a \<Rightarrow> 'k::linorder"
  assumes "mset ys = mset xs" and "sorted (map key ys)"
    and "\<And>k. filter (\<lambda>x. key x = k) ys = filter (\<lambda>x. key x = k) xs"
  shows "sort_key key xs = ys"
proof (rule properties_for_sort_key [OF assms(1) _ assms(2)])
  have "(\<lambda>x. k = key x) = (\<lambda>x. key x = k)" for k by auto
  then show "filter (\<lambda>x. key k = key x) ys = filter (\<lambda>x. key k = key x) xs" for k
    by (simp add: assms(3))
qed

lemma sort_key_first:
  fixes key :: "'a \<Rightarrow> 'k::linorder"
  assumes "\<forall>a\<in>set xs. key x < key a" and "\<forall>b\<in>set ys. key x \<le> key b"
  shows "sort_key key (xs @ x # ys) = x # sort_key key (xs @ ys)"
proof (rule sort_key_unique)
  show "mset (x # sort_key key (xs @ ys)) = mset (xs @ x # ys)" by simp
  show "sorted (map key (x # sort_key key (xs @ ys)))" using assms by (auto simp: less_imp_le)
  show "filter (\<lambda>y. key y = k) (x # sort_key key (xs @ ys)) = filter (\<lambda>y. key y = k) (xs @ x # ys)" for k
  proof (cases "k = key x")
    case True
    then have "filter (\<lambda>y. key y = k) xs = []" using assms(1) by (auto simp: filter_empty_conv)
    with True show ?thesis by (simp add: sort_key_stable)
  next
    case False
    then show ?thesis by (simp add: sort_key_stable)
  qed
qed

lemma sort_key_sorted_pieces: "sort_key key (concat (map (sort_key key) xss)) = sort_key key (concat xss)"
proof (rule sort_key_unique)
  have m: "mset (concat (map (sort_key key) xss)) = mset (concat xss)" by (induction xss) auto
  have f: "filter (\<lambda>y. key y = k) (concat (map (sort_key key) xss)) = filter (\<lambda>y. key y = k) (concat xss)" for k
    by (induction xss) (auto simp: sort_key_stable)
  show "mset (sort_key key (concat xss)) = mset (concat (map (sort_key key) xss))" by (simp add: m)
  show "sorted (map key (sort_key key (concat xss)))" by simp
  show "filter (\<lambda>x. key x = k) (sort_key key (concat xss)) = filter (\<lambda>x. key x = k) (concat (map (sort_key key) xss))" for k
    by (simp add: f sort_key_stable)
qed

text \<open>Sorting a piece of a list does not change its stable sort.\<close>

lemma sort_key_inner: "sort_key key (xs @ sort_key key ys @ zs) = sort_key key (xs @ ys @ zs)"
  by (rule sort_key_unique) (simp_all add: sort_key_stable)

lemma map_insort_key: "insort_key f (g x) (map g xs) = map g (insort_key (\<lambda>x. f (g x)) x xs)"
  by (induction xs) auto

lemma sort_key_map: "sort_key f (map g xs) = map g (sort_key (\<lambda>x. f (g x)) xs)"
  by (induction xs) (auto simp: map_insort_key)

section \<open>One step of a merge\<close>

text \<open>
  What a merge needs of its readers: \<open>delivers r xs\<close> says that the reader \<open>r\<close> hands out exactly the
  items \<open>xs\<close> and then the end.
\<close>

locale run_merge =
  fixes read_next :: "'r \<Rightarrow> ('a \<times> 'r) option result"
    and delivers :: "'r \<Rightarrow> 'a list \<Rightarrow> bool"
    and key :: "'a \<Rightarrow> 'k::linorder"
  assumes delivers_end: "delivers r [] \<Longrightarrow> read_next r = Inr None"
    and delivers_item: "delivers r (x # xs) \<Longrightarrow> \<exists>r'. read_next r = Inr (Some (x, r')) \<and> delivers r' xs"
begin

text \<open>
  \<open>holds P heap readers runs\<close>: \<open>runs\<close> are the items each reader still has to deliver, the first
  of each being in the heap already, unless the reader is one of \<open>P\<close>, which waits to be read.
\<close>

definition holds :: "nat set \<Rightarrow> ('a \<times> nat) list \<Rightarrow> 'r list \<Rightarrow> 'a list list \<Rightarrow> bool" where
  "holds P heap readers runs \<longleftrightarrow>
     length readers = length runs
     \<and> (\<forall>i<length runs. sorted (map key (runs ! i)) \<and> delivers (readers ! i) (if i \<in> P then runs ! i else tl (runs ! i)))
     \<and> distinct heap
     \<and> (\<forall>x i. (x, i) \<in> set heap \<longleftrightarrow> i < length runs \<and> i \<notin> P \<and> runs ! i \<noteq> [] \<and> x = hd (runs ! i))"

definition item_order :: "'a \<times> nat \<Rightarrow> 'k \<times> nat" where
  "item_order = (\<lambda>(x, i). (key x, i))"

lemma load_heads_delivers:
  assumes "list_all2 delivers readers runs"
  shows "\<exists>readers'. load_heads read_next index readers heap = Inr (readers', heap @ heads index runs)
     \<and> list_all2 (\<lambda>r run. delivers r (tl run)) readers' runs"
  using assms
proof (induction readers runs arbitrary: index heap rule: list_all2_induct)
  case (Cons r readers run runs)
  show ?case
  proof (cases run)
    case Nil
    with Cons.hyps(1) have "read_next r = Inr None" by (simp add: delivers_end)
    with Cons.IH [of "Suc index" heap] Cons.hyps(1) Nil show ?thesis by auto
  next
    case run: (Cons x xs)
    with Cons.hyps(1) obtain r' where "read_next r = Inr (Some (x, r'))" "delivers r' xs" by (auto dest: delivers_item)
    with Cons.IH [of "Suc index" "heap @ [(x, index)]"] run show ?thesis by auto
  qed
qed simp

lemma holds_heads:
  assumes "list_all2 (\<lambda>r run. delivers r (tl run)) readers runs" and "list_all (\<lambda>run. sorted (map key run)) runs"
  shows "holds {} (heads 0 runs) readers runs"
  using assms by (auto simp: holds_def heads_iff distinct_heads list_all_length list_all2_conv_all_nth)

lemma holds_refill:
  assumes "holds (insert i P) heap readers runs" and "i < length runs" and "i \<notin> P"
  shows "(runs ! i = [] \<and> read_next (readers ! i) = Inr None \<and> holds P heap readers runs)
       \<or> (\<exists>x xs r. runs ! i = x # xs \<and> read_next (readers ! i) = Inr (Some (x, r))
            \<and> holds P (heap @ [(x, i)]) (readers[i := r]) runs)"
proof -
  have r: "delivers (readers ! i) (runs ! i)" using assms unfolding holds_def by (metis insertI1)
  show ?thesis
  proof (cases "runs ! i")
    case Nil
    have "holds P heap readers runs"
      unfolding holds_def
    proof (intro conjI allI impI)
      show "delivers (readers ! j) (if j \<in> P then runs ! j else tl (runs ! j))" if "j < length runs" for j
        using that assms Nil by (cases "j = i") (auto simp: holds_def)
    qed (use assms Nil in \<open>auto simp: holds_def\<close>)
    with Nil r show ?thesis by (simp add: delivers_end)
  next
    case (Cons x xs)
    with r obtain r' where r': "read_next (readers ! i) = Inr (Some (x, r'))" "delivers r' xs" by (auto dest: delivers_item)
    have "holds P (heap @ [(x, i)]) (readers[i := r']) runs"
      unfolding holds_def
    proof (intro conjI allI impI)
      show "delivers (readers[i := r'] ! j) (if j \<in> P then runs ! j else tl (runs ! j))" if "j < length runs" for j
        using that assms Cons r'(2) by (cases "j = i") (auto simp: holds_def)
    qed (use assms Cons in \<open>auto simp: holds_def\<close>)
    with Cons r' show ?thesis by blast
  qed
qed

text \<open>Taking an item off the heap leaves its reader waiting.\<close>

lemma holds_remove:
  assumes "holds P heap readers runs" and "(x, i) \<in> set heap"
  obtains xs where "i < length runs" "i \<notin> P" "runs ! i = x # xs" "holds (insert i P) (remove1 (x, i) heap) readers (runs[i := xs])"
proof -
  from assms have i: "i < length runs" "i \<notin> P" "runs ! i \<noteq> []" "x = hd (runs ! i)"
    by (auto simp: holds_def)
  then obtain xs where xs: "runs ! i = x # xs" by (cases "runs ! i") auto
  let ?heap = "remove1 (x, i) heap"
  have other: "(y, j) \<in> set ?heap \<longleftrightarrow> (y, j) \<in> set heap \<and> j \<noteq> i" for y j
    using assms i(4) by (auto simp: holds_def)
  have run: "sorted (map key ((runs[i := xs]) ! j))
      \<and> delivers (readers ! j) (if j \<in> insert i P then (runs[i := xs]) ! j else tl ((runs[i := xs]) ! j))"
    if "j < length runs" for j
  proof -
    have "sorted (map key (runs ! j))" "delivers (readers ! j) (if j \<in> P then runs ! j else tl (runs ! j))"
      using assms(1) that by (simp_all add: holds_def)
    then show ?thesis using xs i(2) that by (cases "j = i") auto
  qed
  have "(y, j) \<in> set ?heap \<longleftrightarrow> j < length (runs[i := xs]) \<and> j \<notin> insert i P \<and> (runs[i := xs]) ! j \<noteq> [] \<and> y = hd ((runs[i := xs]) ! j)"
    for y j
    using assms(1) i(4) by (cases "j = i") (auto simp: holds_def other)
  with run have "holds (insert i P) ?heap readers (runs[i := xs])"
    using assms(1) unfolding holds_def by simp
  then show thesis by (rule that [OF i(1,2) xs])
qed

text \<open>The least item of the heap is the first of the stable sort of everything still to come.\<close>

lemma holds_least:
  assumes "holds {} heap readers runs" and "\<forall>y\<in>set heap. item_order (x, i) \<le> item_order y"
    and i: "i < length runs" and xs: "runs ! i = x # xs"
  shows "sort_key key (concat runs) = x # sort_key key (concat (runs[i := xs]))"
proof -
  have srt: "sorted (map key (runs ! j))" if "j < length runs" for j
    using assms(1) that by (simp add: holds_def)
  have least: "(key x, i) \<le> (key (hd (runs ! j)), j)" if "j < length runs" "runs ! j \<noteq> []" for j
  proof -
    have "(hd (runs ! j), j) \<in> set heap" using assms(1) that by (simp add: holds_def)
    with assms(2) have "item_order (x, i) \<le> item_order (hd (runs ! j), j)" by blast
    then show ?thesis by (simp add: item_order_def)
  qed
  have head: "key (hd (runs ! j)) \<le> key a" if "j < length runs" "a \<in> set (runs ! j)" for j a
    using srt [OF that(1)] that(2) by (cases "runs ! j") auto
  have before: "\<forall>a\<in>set (concat (take i runs)). key x < key a"
  proof
    fix a assume "a \<in> set (concat (take i runs))"
    then obtain run where "run \<in> set (take i runs)" "a \<in> set run" by auto
    then obtain j where j: "j < i" "a \<in> set (runs ! j)"
      by (auto simp: in_set_conv_nth [of run])
    with i have "j < length runs" "runs ! j \<noteq> []" by auto
    with least [of j] head [of j a] j show "key x < key a" by auto
  qed
  have after: "\<forall>b\<in>set (xs @ concat (drop (Suc i) runs)). key x \<le> key b"
  proof
    fix b assume "b \<in> set (xs @ concat (drop (Suc i) runs))"
    then consider "b \<in> set xs" | run where "run \<in> set runs" "b \<in> set run"
      by (auto dest: in_set_dropD)
    then consider "b \<in> set xs" | j where "j < length runs" "b \<in> set (runs ! j)"
      by (metis in_set_conv_nth)
    then show "key x \<le> key b"
    proof cases
      case 1
      with srt [OF i] xs show ?thesis by simp
    next
      case 2
      then have "runs ! j \<noteq> []" by auto
      with least [of j] head [of j b] 2 show ?thesis by auto
    qed
  qed
  have "runs = take i runs @ (x # xs) # drop (Suc i) runs"
    using i xs by (metis id_take_nth_drop)
  then have split: "concat runs = concat (take i runs) @ x # xs @ concat (drop (Suc i) runs)"
    by (metis concat.simps(2) concat_append append_Cons append.assoc)
  have "concat (runs[i := xs]) = concat (take i runs) @ xs @ concat (drop (Suc i) runs)"
    using i by (simp add: upd_conv_take_nth_drop)
  with sort_key_first [OF before after] split show ?thesis by simp
qed

lemma holds_pop:
  assumes "holds {} heap readers runs" and "heap_pop item_order heap = Some ((x, i), heap')"
  obtains xs where "i < length runs" "runs ! i = x # xs"
    "sort_key key (concat runs) = x # sort_key key (concat (runs[i := xs]))"
    "holds {i} heap' readers (runs[i := xs])"
proof -
  note pop = heap_pop_Some [OF assms(2)]
  from holds_remove [OF assms(1) pop(1)] obtain xs where xs: "i < length runs" "runs ! i = x # xs"
    "holds {i} heap' readers (runs[i := xs])" by (auto simp: pop(2))
  from that [OF xs(1,2) holds_least [OF assms(1) pop(3) xs(1,2)] xs(3)] show thesis .
qed

lemma holds_empty: "holds {} heap readers runs \<Longrightarrow> heap_pop item_order heap = None \<Longrightarrow> concat runs = []"
proof -
  assume h: "holds {} heap readers runs" and "heap_pop item_order heap = None"
  then have "heap = []" by simp
  have "runs ! i = []" if "i < length runs" for i
    using h that \<open>heap = []\<close> by (auto simp: holds_def)
  then show "concat runs = []" by (simp add: list_all_length flip: list_all_iff)
qed

lemma holds_length:
  assumes "holds P heap readers runs"
  shows "length heap \<le> length runs"
proof -
  have "inj_on snd (set heap)" "snd ` set heap \<subseteq> {..<length runs}" "distinct heap"
    using assms by (auto simp: holds_def inj_on_def)
  then have "length heap = card (snd ` set heap)" by (simp add: card_image distinct_card)
  also have "\<dots> \<le> card {..<length runs}" using \<open>snd ` set heap \<subseteq> _\<close> by (intro card_mono) auto
  finally show ?thesis by simp
qed

lemma length_pop: "runs ! i = x # xs \<Longrightarrow> i < length runs \<Longrightarrow> length (concat runs) = Suc (length (concat (runs[i := xs])))"
proof -
  assume i: "i < length runs" "runs ! i = x # xs"
  then have "runs = take i runs @ (x # xs) # drop (Suc i) runs" by (metis id_take_nth_drop)
  then have "length (concat runs) = length (concat (take i runs @ (x # xs) # drop (Suc i) runs))" by simp
  then show "length (concat runs) = Suc (length (concat (runs[i := xs])))"
    using i(1) by (simp add: upd_conv_take_nth_drop)
qed

end

text \<open>Files of records are such readers.\<close>

locale record_merge = record_format encode read_next writable
  for encode :: "'a \<Rightarrow> string"
    and read_next :: "string \<Rightarrow> ('a \<times> string) option result"
    and writable :: "'a \<Rightarrow> bool" +
  fixes key :: "'a \<Rightarrow> 'k::linorder"
begin

definition bytes_of :: "'a list \<Rightarrow> string" where
  "bytes_of xs = concat (map encode xs)"

definition file_delivers :: "string \<Rightarrow> 'a list \<Rightarrow> bool" where
  "file_delivers r xs \<longleftrightarrow> list_all writable xs \<and> r = bytes_of xs"

lemma files_deliver: "list_all (list_all writable) runs \<Longrightarrow> list_all2 file_delivers (map bytes_of runs) runs"
  by (auto simp: file_delivers_def list_all2_conv_all_nth list_all_length)

end

sublocale record_merge \<subseteq> run_merge read_next file_delivers key
  by unfold_locales (auto simp: file_delivers_def bytes_of_def read_next_end read_next_record)

end
