(* ===== verification/Spill.thy ===== *)
theory Spill
  imports RunMerge
begin

text \<open>
  The spool that sorts staged records outside memory (\<^verbatim>\<open>src/staging_writer/spill.rs\<close>): records are
  encoded, buffered, written to sorted run files, and the runs merged into one sorted stream. The
  trait \<open>SpillRecord\<close> is a record of its operations, so that one model serves every record type.
  Its JSON codec, the layout of its structs and the answers of the allocator are parameters.

  The workspace is what the spools of one staging run share: the files and the metrics. The
  compare-and-swap loops of the metrics run on one thread here and are plain updates. After an
  error the staging run is abandoned, so what a failed operation leaves in the workspace (with the
  guards that release its memory charge) is not modelled.
\<close>

section \<open>Metrics\<close>

record spill_metrics =
  sm_bytes_written :: nat
  sm_current_bytes :: nat
  sm_high_water_bytes :: nat

definition saturating_u64 :: "nat \<Rightarrow> nat \<Rightarrow> nat" where
  "saturating_u64 a b = min (a + b) max_u64"

definition mul_u64 :: "nat \<Rightarrow> nat \<Rightarrow> nat option" where
  "mul_u64 a b = (if a * b \<le> max_u64 then Some (a * b) else None)"

definition empty_metrics :: spill_metrics where
  "empty_metrics = \<lparr>sm_bytes_written = 0, sm_current_bytes = 0, sm_high_water_bytes = 0\<rparr>"

definition add_live :: "nat \<Rightarrow> spill_metrics \<Rightarrow> spill_metrics" where
  "add_live bytes m =
     (let current = saturating_u64 (sm_current_bytes m) bytes
      in m\<lparr>sm_current_bytes := current, sm_high_water_bytes := max (sm_high_water_bytes m) current\<rparr>)"

definition release_live :: "nat \<Rightarrow> spill_metrics \<Rightarrow> spill_metrics" where
  "release_live bytes m = m\<lparr>sm_current_bytes := sm_current_bytes m - bytes\<rparr>"

definition add_written :: "nat \<Rightarrow> spill_metrics \<Rightarrow> spill_metrics" where
  "add_written bytes m = m\<lparr>sm_bytes_written := saturating_u64 (sm_bytes_written m) bytes\<rparr>"

definition snapshot :: "spill_metrics \<Rightarrow> nat \<times> nat" where
  "snapshot m = (sm_bytes_written m, sm_high_water_bytes m)"

record workspace =
  ws_files :: file_map
  ws_metrics :: spill_metrics

section \<open>Records\<close>

record 'a row_codec =
  rc_encode :: "'a \<Rightarrow> string result"
  rc_capacity :: "'a \<Rightarrow> nat"

record ('a, 'k) spill_record = "'a row_codec" +
  sr_decode :: "string \<Rightarrow> 'a result"
  sr_sort_key :: "'a \<Rightarrow> 'k"
  sr_key_bytes :: "'k \<Rightarrow> nat"
  sr_buffered_size :: nat
  sr_heap_item_size :: nat
  sr_reserve :: "nat \<Rightarrow> bool"

definition length_prefix_bytes :: nat where
  "length_prefix_bytes = 4"

definition max_spill_fan_in :: nat where
  "max_spill_fan_in = 32"

definition write_encoded :: "string \<Rightarrow> string \<times> spill_metrics \<Rightarrow> (string \<times> spill_metrics) result" where
  "write_encoded encoded = (\<lambda>(writer, metrics).
     if 2 ^ 32 \<le> length encoded then Inl (InvalidInput ''spill record exceeds u32 encoding length'')
     else Inr (writer @ write_u32 (word_of_nat (length encoded)) @ encoded,
               add_written (length_prefix_bytes + length encoded) metrics))"

definition read_record :: "(nat \<Rightarrow> bool) \<Rightarrow> string \<Rightarrow> (string \<times> string) option result" where
  "read_record reserve reader =
     (case reader of
        [] \<Rightarrow> Inr None
      | first # reader1 \<Rightarrow>
          try_op (read_exact 3 reader1) (\<lambda>(more, reader2).
          let len = le_value (first # more) in
          if \<not> reserve len then Inl (Io (OtherIo ''spill record allocation failed''))
          else try_op (read_exact len reader2) (\<lambda>(encoded, reader3). Inr (Some (encoded, reader3)))))"

text \<open>\<open>RecordFileWriter\<close> and \<open>RecordFileReader\<close>: a file of records in the order they were written.\<close>

definition record_file_push ::
  "('a, 'z) row_codec_scheme \<Rightarrow> 'a \<Rightarrow> string \<times> spill_metrics \<Rightarrow> (string \<times> spill_metrics) result" where
  "record_file_push sr rec out = try_op (rc_encode sr rec) (\<lambda>encoded. write_encoded encoded out)"

definition record_file_next :: "('a, 'k) spill_record \<Rightarrow> string \<Rightarrow> ('a \<times> string) option result" where
  "record_file_next sr reader =
     try_op (read_record (sr_reserve sr) reader) (\<lambda>item.
     case item of
       None \<Rightarrow> Inr None
     | Some (encoded, rest) \<Rightarrow> try_op (sr_decode sr encoded) (\<lambda>rec. Inr (Some (rec, rest))))"

section \<open>The spool\<close>

record 'k spool =
  sl_root :: string
  sl_prefix :: string
  sl_chunk_limit :: nat
  sl_buffered :: "('k \<times> string) list"
  sl_buffered_bytes :: nat
  sl_runs :: "string list"
  sl_next_run :: nat

definition spool_new :: "string \<Rightarrow> string \<Rightarrow> nat \<Rightarrow> 'k spool result" where
  "spool_new base prefix chunk_limit =
     (if chunk_limit = 0 then Inl (InvalidInput ''spill chunk target must be positive'')
      else Inr \<lparr>sl_root = base, sl_prefix = prefix, sl_chunk_limit = chunk_limit, sl_buffered = [],
                sl_buffered_bytes = 0, sl_runs = [], sl_next_run = 0\<rparr>)"

definition run_path :: "string \<Rightarrow> string \<Rightarrow> string \<Rightarrow> nat \<Rightarrow> string" where
  "run_path base prefix kind index = base @ ''/'' @ prefix @ ''-'' @ kind @ ''-'' @ zero_padded 8 index @ ''.bin''"

definition next_path :: "string \<Rightarrow> 'k spool \<Rightarrow> string \<times> 'k spool" where
  "next_path kind s =
     (run_path (sl_root s) (sl_prefix s) kind (sl_next_run s),
      s\<lparr>sl_next_run := saturating_u64 (sl_next_run s) 1\<rparr>)"

definition spool_flush :: "'k::linorder spool \<Rightarrow> workspace \<Rightarrow> ('k spool \<times> workspace) result" where
  "spool_flush s w =
     (if sl_buffered s = [] then Inr (s, w)
      else
        let buffered = sort_key fst (sl_buffered s);
            (path, s1) = next_path ''run'' s
        in try_op (try_fold (\<lambda>(key, encoded). write_encoded encoded) buffered ([], ws_metrics w)) (\<lambda>(writer, metrics).
           Inr (s1\<lparr>sl_buffered := [], sl_buffered_bytes := 0, sl_runs := sl_runs s @ [path]\<rparr>,
                \<lparr>ws_files = (ws_files w)(path \<mapsto> writer), ws_metrics = release_live (sl_buffered_bytes s) metrics\<rparr>)))"

definition spool_push ::
  "('a, 'k::linorder) spill_record \<Rightarrow> 'a \<Rightarrow> 'k spool \<times> workspace \<Rightarrow> ('k spool \<times> workspace) result" where
  "spool_push sr rec = (\<lambda>(s, w).
     try_op (rc_encode sr rec) (\<lambda>encoded.
     let key = sr_sort_key sr rec in
     try_op (or_invalid ''spill record size overflow''
               (Option.bind (add_u64 (rc_capacity sr rec) (sr_key_bytes sr key)) (\<lambda>bytes.
                Option.bind (add_u64 bytes length_prefix_bytes) (\<lambda>bytes.
                add_u64 bytes (sr_buffered_size sr))))) (\<lambda>record_bytes.
     try_op (or_invalid ''spill record size overflow'' (add_u64 (sl_buffered_bytes s) record_bytes)) (\<lambda>next_bytes.
     let w1 = w\<lparr>ws_metrics := add_live record_bytes (ws_metrics w)\<rparr> in
     try_op (if sl_buffered s \<noteq> [] \<and> next_bytes > sl_chunk_limit s then spool_flush s w1 else Inr (s, w1)) (\<lambda>(s1, w2).
     if \<not> sr_reserve sr (Suc (length (sl_buffered s1)))
     then Inl (Io (OtherIo ''spill buffer allocation failed''))
     else
       try_op (or_invalid ''spill record size overflow'' (add_u64 (sl_buffered_bytes s1) record_bytes)) (\<lambda>buffered_bytes.
       let s2 = s1\<lparr>sl_buffered := sl_buffered s1 @ [(key, encoded)], sl_buffered_bytes := buffered_bytes\<rparr> in
       if sl_buffered_bytes s2 \<ge> sl_chunk_limit s2 then spool_flush s2 w2 else Inr (s2, w2)))))))"

section \<open>The sorted stream\<close>

record ('a, 'k) heap_item =
  hi_key :: 'k
  hi_encoded :: string
  hi_record :: 'a
  hi_accounted_bytes :: nat

record ('a, 'k) sorted_stream =
  sq_readers :: "string list"
  sq_heap :: "(('a, 'k) heap_item \<times> nat) list"
  sq_heap_bytes :: nat
  sq_outstanding_bytes :: nat
  sq_pending_reader :: "nat option"
  sq_input_paths :: "string list"
  sq_cleanup_when_exhausted :: bool

definition heap_item_bytes :: "('a, 'k) spill_record \<Rightarrow> 'k \<Rightarrow> string \<Rightarrow> nat result" where
  "heap_item_bytes sr key encoded =
     or_invalid ''merge record size overflow''
       (Option.bind (mul_u64 (length encoded) 2) (\<lambda>bytes.
        Option.bind (add_u64 bytes (sr_key_bytes sr key)) (\<lambda>bytes.
        add_u64 bytes (sr_heap_item_size sr))))"

text \<open>\<open>Ord for HeapItem\<close>: by key, then by reader; \<open>BinaryHeap::pop\<close> takes the least.\<close>

definition heap_item_order :: "('a, 'k) heap_item \<times> nat \<Rightarrow> 'k \<times> nat" where
  "heap_item_order = (\<lambda>(item, reader_index). (hi_key item, reader_index))"

text \<open>Reading the next record of a run, decoded and accounted for.\<close>

definition read_item ::
  "('a, 'k) spill_record \<Rightarrow> string \<Rightarrow> (('a, 'k) heap_item \<times> string) option result" where
  "read_item sr reader =
     try_op (read_record (sr_reserve sr) reader) (\<lambda>item.
     case item of
       None \<Rightarrow> Inr None
     | Some (encoded, rest) \<Rightarrow>
         try_op (sr_decode sr encoded) (\<lambda>rec.
         let key = sr_sort_key sr rec in
         try_op (heap_item_bytes sr key encoded) (\<lambda>accounted_bytes.
         Inr (Some (\<lparr>hi_key = key, hi_encoded = encoded, hi_record = rec, hi_accounted_bytes = accounted_bytes\<rparr>, rest)))))"

text \<open>Pushing it onto the heap.\<close>

definition push_item ::
  "('a, 'k) spill_record \<Rightarrow> ('a, 'k) heap_item \<Rightarrow> nat
    \<Rightarrow> (('a, 'k) heap_item \<times> nat) list \<times> nat \<times> spill_metrics
    \<Rightarrow> ((('a, 'k) heap_item \<times> nat) list \<times> nat \<times> spill_metrics) result" where
  "push_item sr item reader_index = (\<lambda>(heap, heap_bytes, metrics).
     try_op (or_invalid ''merge accounting overflow'' (add_u64 heap_bytes (hi_accounted_bytes item))) (\<lambda>next_heap_bytes.
     if \<not> sr_reserve sr (Suc (length heap)) then Inl (Io (OtherIo ''merge heap allocation failed''))
     else Inr (heap @ [(item, reader_index)], next_heap_bytes, add_live (hi_accounted_bytes item) metrics)))"

fun open_runs ::
  "('a, 'k) spill_record \<Rightarrow> file_map \<Rightarrow> nat \<Rightarrow> string list
    \<Rightarrow> (('a, 'k) heap_item \<times> nat) list \<times> nat \<times> spill_metrics
    \<Rightarrow> (string list \<times> (('a, 'k) heap_item \<times> nat) list \<times> nat \<times> spill_metrics) result" where
  "open_runs sr files reader_index [] st = Inr ([], st)"
| "open_runs sr files reader_index (path # paths) st =
     try_op (open_file files path) (\<lambda>reader.
     try_op (read_item sr reader) (\<lambda>item.
     case item of
       None \<Rightarrow>
         try_op (open_runs sr files (Suc reader_index) paths st) (\<lambda>(readers, st'). Inr (reader # readers, st'))
     | Some (x, reader') \<Rightarrow>
         try_op (push_item sr x reader_index st) (\<lambda>st1.
         try_op (open_runs sr files (Suc reader_index) paths st1) (\<lambda>(readers, st'). Inr (reader' # readers, st')))))"

definition stream_open ::
  "('a, 'k) spill_record \<Rightarrow> string list \<Rightarrow> bool \<Rightarrow> workspace
    \<Rightarrow> (('a, 'k) sorted_stream \<times> workspace) result" where
  "stream_open sr descriptors cleanup w =
     (if \<not> sr_reserve sr (length descriptors) then Inl (Io (OtherIo ''merge reader allocation failed''))
      else
        try_op (open_runs sr (ws_files w) 0 descriptors ([], 0, ws_metrics w)) (\<lambda>(readers, heap, heap_bytes, metrics).
        Inr (\<lparr>sq_readers = readers, sq_heap = heap, sq_heap_bytes = heap_bytes, sq_outstanding_bytes = 0,
              sq_pending_reader = None, sq_input_paths = descriptors, sq_cleanup_when_exhausted = cleanup\<rparr>,
             w\<lparr>ws_metrics := metrics\<rparr>)))"

definition remove_existing :: "string list \<Rightarrow> file_map \<Rightarrow> file_map" where
  "remove_existing paths files = fold (\<lambda>path files. if files path \<noteq> None then files(path := None) else files) paths files"

definition cleanup_inputs ::
  "('a, 'k) sorted_stream \<times> workspace \<Rightarrow> ('a, 'k) sorted_stream \<times> workspace" where
  "cleanup_inputs = (\<lambda>(q, w).
     (q\<lparr>sq_readers := [], sq_input_paths := []\<rparr>,
      w\<lparr>ws_files := remove_existing (sq_input_paths q) (ws_files w)\<rparr>))"

text \<open>The reader whose record was handed out last is read again before the next one is chosen.\<close>

definition refill ::
  "('a, 'k) spill_record \<Rightarrow> ('a, 'k) sorted_stream \<times> workspace
    \<Rightarrow> (('a, 'k) sorted_stream \<times> workspace) result" where
  "refill sr = (\<lambda>(q, w).
     case sq_pending_reader q of
       None \<Rightarrow> Inr (q, w)
     | Some reader_index \<Rightarrow>
         let q1 = q\<lparr>sq_pending_reader := None\<rparr> in
         try_op (read_item sr (sq_readers q ! reader_index)) (\<lambda>item.
         case item of
           None \<Rightarrow> Inr (q1, w)
         | Some (x, reader') \<Rightarrow>
             try_op (push_item sr x reader_index (sq_heap q, sq_heap_bytes q, ws_metrics w))
               (\<lambda>(heap, heap_bytes, metrics).
             Inr (q1\<lparr>sq_readers := (sq_readers q)[reader_index := reader'], sq_heap := heap,
                     sq_heap_bytes := heap_bytes\<rparr>,
                  w\<lparr>ws_metrics := metrics\<rparr>))))"

definition next_encoded ::
  "('a, 'k::linorder) spill_record \<Rightarrow> ('a, 'k) sorted_stream \<times> workspace
    \<Rightarrow> (('a, 'k) heap_item option \<times> ('a, 'k) sorted_stream \<times> workspace) result" where
  "next_encoded sr = (\<lambda>(q, w).
     let w1 = (if sq_outstanding_bytes q > 0
               then w\<lparr>ws_metrics := release_live (sq_outstanding_bytes q) (ws_metrics w)\<rparr> else w) in
     try_op (refill sr (q\<lparr>sq_outstanding_bytes := 0\<rparr>, w1)) (\<lambda>(q1, w2).
     case heap_pop heap_item_order (sq_heap q1) of
       None \<Rightarrow> Inr (None, if sq_cleanup_when_exhausted q1 then cleanup_inputs (q1, w2) else (q1, w2))
     | Some ((item, reader_index), heap) \<Rightarrow>
         Inr (Some item,
              q1\<lparr>sq_heap := heap, sq_heap_bytes := sq_heap_bytes q1 - hi_accounted_bytes item,
                 sq_outstanding_bytes := hi_accounted_bytes item, sq_pending_reader := Some reader_index\<rparr>,
              w2)))"

definition stream_next ::
  "('a, 'k::linorder) spill_record \<Rightarrow> ('a, 'k) sorted_stream \<times> workspace
    \<Rightarrow> ('a option \<times> ('a, 'k) sorted_stream \<times> workspace) result" where
  "stream_next sr qw = try_op (next_encoded sr qw) (\<lambda>(item, qw'). Inr (map_option hi_record item, qw'))"

text \<open>\<open>Drop for SortedStream\<close>\<close>

definition stream_drop :: "('a, 'k) sorted_stream \<Rightarrow> workspace \<Rightarrow> workspace" where
  "stream_drop q w =
     w\<lparr>ws_metrics := release_live (saturating_u64 (sq_heap_bytes q) (sq_outstanding_bytes q)) (ws_metrics w),
       ws_files := (if sq_cleanup_when_exhausted q then remove_existing (sq_input_paths q) (ws_files w) else ws_files w)\<rparr>"

section \<open>Merging and finishing\<close>

text \<open>The number of steps left in a stream is bounded by what its readers and its heap hold.\<close>

definition stream_fuel :: "('a, 'k) sorted_stream \<Rightarrow> nat" where
  "stream_fuel q = Suc (length (sq_heap q) + sum_list (map length (sq_readers q)))"

fun merge_stream ::
  "('a, 'k::linorder) spill_record \<Rightarrow> nat \<Rightarrow> ('a, 'k) sorted_stream \<times> workspace \<Rightarrow> string
    \<Rightarrow> (string \<times> ('a, 'k) sorted_stream \<times> workspace) run" where
  "merge_stream sr 0 qw writer = Inl Diverged"
| "merge_stream sr (Suc fuel) qw writer =
     try_op (lift_result (next_encoded sr qw)) (\<lambda>(item, q, w).
     case item of
       None \<Rightarrow> Inr (writer, q, w)
     | Some x \<Rightarrow>
         try_op (lift_result (write_encoded (hi_encoded x) (writer, ws_metrics w))) (\<lambda>(writer', metrics).
         merge_stream sr fuel (q, w\<lparr>ws_metrics := metrics\<rparr>) writer'))"

definition merge_run_group ::
  "('a, 'k::linorder) spill_record \<Rightarrow> string list \<Rightarrow> string \<Rightarrow> workspace \<Rightarrow> workspace run" where
  "merge_run_group sr inputs output w =
     try_op (lift_result (stream_open sr inputs False w)) (\<lambda>(q, w1).
     try_op (merge_stream sr (stream_fuel q) (q, w1) []) (\<lambda>(writer, q1, w2).
     let w3 = stream_drop q1 (w2\<lparr>ws_files := (ws_files w2)(output \<mapsto> writer)\<rparr>) in
     try_op (lift_result (remove_files inputs (ws_files w3))) (\<lambda>files. Inr (w3\<lparr>ws_files := files\<rparr>))))"

fun merge_level_groups ::
  "('a, 'k::linorder) spill_record \<Rightarrow> string list list \<Rightarrow> string list \<Rightarrow> 'k spool \<Rightarrow> workspace
    \<Rightarrow> (string list \<times> 'k spool \<times> workspace) run" where
  "merge_level_groups sr [] merged s w = Inr (merged, s, w)"
| "merge_level_groups sr (grp # groups) merged s w =
     (if length grp = 1 then merge_level_groups sr groups (merged @ [grp ! 0]) s w
      else
        let (output, s1) = next_path ''merge'' s in
        try_op (merge_run_group sr grp output w) (merge_level_groups sr groups (merged @ [output]) s1))"

definition merge_level ::
  "('a, 'k::linorder) spill_record \<Rightarrow> string list \<Rightarrow> 'k spool \<Rightarrow> workspace
    \<Rightarrow> (string list \<times> 'k spool \<times> workspace) run" where
  "merge_level sr runs = merge_level_groups sr (chunks max_spill_fan_in runs) []"

fun merge_runs ::
  "('a, 'k::linorder) spill_record \<Rightarrow> nat \<Rightarrow> string list \<Rightarrow> 'k spool \<Rightarrow> workspace
    \<Rightarrow> (string list \<times> 'k spool \<times> workspace) run" where
  "merge_runs sr fuel runs s w =
     (if length runs \<le> max_spill_fan_in then Inr (runs, s, w)
      else case fuel of
             0 \<Rightarrow> Inl Diverged
           | Suc fuel' \<Rightarrow>
               try_op (merge_level sr runs s w) (\<lambda>(merged, s1, w1). merge_runs sr fuel' merged s1 w1))"

declare merge_runs.simps [simp del]

definition spool_finish ::
  "('a, 'k::linorder) spill_record \<Rightarrow> 'k spool \<Rightarrow> workspace
    \<Rightarrow> (('a, 'k) sorted_stream \<times> workspace) run" where
  "spool_finish sr s w =
     try_op (lift_result (spool_flush s w)) (\<lambda>(s1, w1).
     try_op (merge_runs sr (length (sl_runs s1)) (sl_runs s1) (s1\<lparr>sl_runs := []\<rparr>) w1) (\<lambda>(runs, s2, w2).
     lift_result (stream_open sr runs True w2)))"

section \<open>Loops over streams and files\<close>

text \<open>\<open>while let Some(x) = source.next()? { body }\<close>\<close>

fun while_some ::
  "('q \<times> 'w \<Rightarrow> ('a option \<times> 'q \<times> 'w) result) \<Rightarrow> ('a \<Rightarrow> 'w \<times> 's \<Rightarrow> ('w \<times> 's) run) \<Rightarrow> nat \<Rightarrow> 'q \<times> 'w \<Rightarrow> 's
    \<Rightarrow> ('q \<times> 'w \<times> 's) run" where
  "while_some next_item body 0 qw s = Inl Diverged"
| "while_some next_item body (Suc fuel) qw s =
     try_op (lift_result (next_item qw)) (\<lambda>(item, q, w).
     case item of
       None \<Rightarrow> Inr (q, w, s)
     | Some x \<Rightarrow> try_op (body x (w, s)) (\<lambda>(w', s'). while_some next_item body fuel (q, w') s'))"

text \<open>
  The contract of what such a loop reads from: \<open>yields q xs\<close> says that \<open>xs\<close> are the items to come,
  and every step changes the rest of the world only as \<open>keeps\<close> allows.
\<close>

locale record_source =
  fixes next_item :: "'q \<times> 'w \<Rightarrow> ('a option \<times> 'q \<times> 'w) result"
    and yields :: "'q \<Rightarrow> 'a list \<Rightarrow> bool"
    and keeps :: "'w \<Rightarrow> 'w \<Rightarrow> bool"
  assumes yields_item: "yields q (x # xs) \<Longrightarrow> \<exists>q' w'. next_item (q, w) = Inr (Some x, q', w') \<and> yields q' xs \<and> keeps w w'"
    and yields_end: "yields q [] \<Longrightarrow> \<exists>q' w'. next_item (q, w) = Inr (None, q', w') \<and> keeps w w'"
begin

lemma while_some_spec:
  assumes "yields q xs" and "length xs < fuel" and "P [] w s"
    and stable: "\<And>pre w w' s. P pre w s \<Longrightarrow> keeps w w' \<Longrightarrow> P pre w' s"
    and body: "\<And>pre x post w s. xs = pre @ x # post \<Longrightarrow> P pre w s \<Longrightarrow> spec S (body x (w, s)) (\<lambda>(w', s'). P (pre @ [x]) w' s')"
  shows "spec S (while_some next_item body fuel (q, w) s) (\<lambda>(q', w', s'). P xs w' s')"
proof -
  have "spec S (while_some next_item body fuel (q, w) s) (\<lambda>(q', w', s'). P xs w' s')"
    if "yields q post" "length post < fuel" "P pre w s" "xs = pre @ post" for pre post fuel q w s
    using that
  proof (induction post arbitrary: pre fuel q w s)
    case Nil
    from yields_end [OF Nil(1), of w] obtain q' w' where "next_item (q, w) = Inr (None, q', w')" "keeps w w'" by blast
    with Nil stable show ?case by (cases fuel) auto
  next
    case (Cons x post)
    from yields_item [OF Cons(2), of w] obtain q' w' where step: "next_item (q, w) = Inr (Some x, q', w')" "yields q' post" "keeps w w'"
      by blast
    from Cons(3) obtain fuel' where fuel: "fuel = Suc fuel'" "length post < fuel'" by (cases fuel) auto
    have "spec S (body x (w', s)) (\<lambda>(w2, s2). P (pre @ [x]) w2 s2)"
      using body [OF Cons(5)] stable [OF Cons(4) step(3)] by blast
    then have "spec S (try_op (body x (w', s)) (\<lambda>(w2, s2). while_some next_item body fuel' (q', w2) s2)) (\<lambda>(q', w', s'). P xs w' s')"
    proof (rule spec_try, clarify)
      fix w2 s2 assume "P (pre @ [x]) w2 s2"
      then show "spec S (while_some next_item body fuel' (q', w2) s2) (\<lambda>(q', w', s'). P xs w' s')"
        using Cons(1) [OF step(2) fuel(2)] Cons(5) by simp
    qed
    then show ?case by (simp add: fuel(1) step(1))
  qed
  from this [OF assms(1,2,3)] show ?thesis by simp
qed

text \<open>A loop that meets an item its body refuses ends with the error of the body.\<close>

lemma while_some_fails:
  assumes "yields q (pre @ x # post)" and "length pre < fuel" and "P [] w s"
    and stable: "\<And>pre w w' s. P pre w s \<Longrightarrow> keeps w w' \<Longrightarrow> P pre w' s"
    and body: "\<And>before y rest w s. pre = before @ y # rest \<Longrightarrow> P before w s \<Longrightarrow> spec True (body y (w, s)) (\<lambda>(w', s'). P (before @ [y]) w' s')"
    and refuse: "\<And>w s. P pre w s \<Longrightarrow> body x (w, s) = Inl e"
  shows "while_some next_item body fuel (q, w) s = Inl e"
proof -
  have "while_some next_item body fuel (q, w) s = Inl e"
    if "yields q (rest @ x # post)" "length rest < fuel" "P before w s" "pre = before @ rest" for before rest fuel q w s
    using that
  proof (induction rest arbitrary: before fuel q w s)
    case Nil
    then obtain fuel' where "fuel = Suc fuel'" by (cases fuel) auto
    moreover from yields_item [of q x post w] Nil(1) obtain q' w' where "next_item (q, w) = Inr (Some x, q', w')" "keeps w w'" by auto
    moreover from this(2) have "body x (w', s) = Inl e" using Nil(3,4) stable refuse by simp
    ultimately show ?case by simp
  next
    case (Cons y rest)
    from yields_item [of q y "rest @ x # post" w] Cons(2) obtain q' w' where
      step: "next_item (q, w) = Inr (Some y, q', w')" "yields q' (rest @ x # post)" "keeps w w'" by auto
    from Cons(3) obtain fuel' where fuel: "fuel = Suc fuel'" "length rest < fuel'" by (cases fuel) auto
    from body [OF Cons(5) stable [OF Cons(4) step(3)]] obtain w2 s2 where "body y (w', s) = Inr (w2, s2)" "P (before @ [y]) w2 s2"
      unfolding spec_True_iff by auto
    then show ?case using Cons(1) [OF step(2) fuel(2), of "before @ [y]"] Cons(5) by (simp add: fuel(1) step(1))
  qed
  from this [OF assms(1,2,3)] show ?thesis by simp
qed

end

section \<open>Facts: records in files\<close>

definition framed :: "string \<Rightarrow> string" where
  "framed encoded = write_u32 (word_of_nat (length encoded)) @ encoded"

definition u32_length :: "string \<Rightarrow> bool" where
  "u32_length encoded \<longleftrightarrow> length encoded < 2 ^ 32"

lemma write_encoded_framed:
  "u32_length encoded \<Longrightarrow>
     write_encoded encoded (writer, m) = Inr (writer @ framed encoded, add_written (length_prefix_bytes + length encoded) m)"
  by (simp add: write_encoded_def framed_def u32_length_def)

lemma read_record_end: "read_record reserve [] = Inr None"
  by (simp add: read_record_def)

lemma read_record_framed:
  assumes "u32_length encoded" and "reserve (length encoded)"
  shows "read_record reserve (framed encoded @ rest) = Inr (Some (encoded, rest))"
proof -
  let ?n = "length encoded"
  obtain b more where bytes: "write_u32 (word_of_nat ?n) = b # more" "length more = 3"
    using length_write_u32 [of "word_of_nat ?n"] by (cases "write_u32 (word_of_nat ?n)") auto
  have "le_value (write_u32 (word_of_nat ?n)) = ?n"
    using assms(1) by (simp add: u32_length_def write_u32_def le_value_le_bytes unat_of_nat take_bit_nat_eq_self)
  then have val: "le_value (b # more) = ?n" by (simp only: bytes)
  have "framed encoded @ rest = b # more @ encoded @ rest" by (simp add: framed_def bytes)
  then show ?thesis
    using assms(2) bytes(2) val by (simp add: read_record_def del: le_value.simps)
qed

text \<open>
  What a record has to satisfy to be spooled: the codec takes it there and back, its encoding fits
  the length prefix, and its memory accounting is far from 64 bits.
\<close>

definition modest :: "('a, 'k) spill_record \<Rightarrow> bool" where
  "modest sr \<longleftrightarrow> (\<forall>n. sr_reserve sr n) \<and> sr_buffered_size sr \<le> 2 ^ 20 \<and> sr_heap_item_size sr \<le> 2 ^ 20"

definition spillable :: "('a, 'k) spill_record \<Rightarrow> 'a \<Rightarrow> bool" where
  "spillable sr rec \<longleftrightarrow>
     (case rc_encode sr rec of Inl _ \<Rightarrow> False | Inr encoded \<Rightarrow> u32_length encoded \<and> sr_decode sr encoded = Inr rec)
     \<and> rc_capacity sr rec \<le> 2 ^ 33 \<and> sr_key_bytes sr (sr_sort_key sr rec) \<le> 2 ^ 33"

definition encoding :: "('a, 'z) row_codec_scheme \<Rightarrow> 'a \<Rightarrow> string" where
  "encoding sr rec = (case rc_encode sr rec of Inl _ \<Rightarrow> [] | Inr encoded \<Rightarrow> encoded)"

definition item_of :: "('a, 'k) spill_record \<Rightarrow> 'a \<Rightarrow> ('a, 'k) heap_item" where
  "item_of sr rec =
     \<lparr>hi_key = sr_sort_key sr rec, hi_encoded = encoding sr rec, hi_record = rec,
      hi_accounted_bytes = length (encoding sr rec) * 2 + sr_key_bytes sr (sr_sort_key sr rec) + sr_heap_item_size sr\<rparr>"

lemma item_of_simps [simp]:
  "hi_key (item_of sr rec) = sr_sort_key sr rec" "hi_record (item_of sr rec) = rec"
  "hi_encoded (item_of sr rec) = encoding sr rec"
  by (simp_all add: item_of_def)

lemma spillable_encoding:
  assumes "spillable sr rec"
  shows "rc_encode sr rec = Inr (encoding sr rec)" "u32_length (encoding sr rec)" "sr_decode sr (encoding sr rec) = Inr rec"
  using assms by (auto simp: spillable_def encoding_def split: sum.splits)

definition item_ok :: "('a, 'k) spill_record \<Rightarrow> ('a, 'k) heap_item \<Rightarrow> bool" where
  "item_ok sr x \<longleftrightarrow>
     u32_length (hi_encoded x) \<and> sr_reserve sr (length (hi_encoded x))
     \<and> sr_decode sr (hi_encoded x) = Inr (hi_record x) \<and> hi_key x = sr_sort_key sr (hi_record x)
     \<and> heap_item_bytes sr (hi_key x) (hi_encoded x) = Inr (hi_accounted_bytes x) \<and> hi_accounted_bytes x \<le> 2 ^ 35"

lemma item_ok_of:
  assumes "modest sr" and "spillable sr rec"
  shows "item_ok sr (item_of sr rec)"
proof -
  have "length (encoding sr rec) < 2 ^ 32" "sr_key_bytes sr (sr_sort_key sr rec) \<le> 2 ^ 33" "sr_heap_item_size sr \<le> 2 ^ 20"
    using assms spillable_encoding(2) [OF assms(2)] by (simp_all add: modest_def spillable_def u32_length_def)
  with assms show ?thesis
    by (auto simp: item_ok_def modest_def spillable_encoding heap_item_bytes_def item_of_def mul_u64_def add_u64_def max_u64_def)
qed

lemma item_ok_accounted: "item_ok sr x \<Longrightarrow> hi_accounted_bytes x \<le> 2 ^ 35"
  by (simp add: item_ok_def)

definition item_bytes :: "('a, 'k) heap_item \<Rightarrow> string" where
  "item_bytes x = framed (hi_encoded x)"

lemma read_item_bytes: "item_ok sr x \<Longrightarrow> read_item sr (item_bytes x @ rest) = Inr (Some (x, rest))"
  by (auto simp: read_item_def item_ok_def item_bytes_def read_record_framed intro!: heap_item.equality)

lemma read_item_end: "read_item sr [] = Inr None"
  by (simp add: read_item_def read_record_end)

interpretation spl: record_merge item_bytes "read_item sr" "item_ok sr" hi_key
  for sr :: "('a, 'k::linorder) spill_record"
  by unfold_locales (rule read_item_bytes read_item_end; assumption?)+

text \<open>Files written by \<open>RecordFileWriter\<close> read back as the records that were written.\<close>

definition record_bytes :: "('a, 'z) row_codec_scheme \<Rightarrow> 'a \<Rightarrow> string" where
  "record_bytes sr rec = framed (encoding sr rec)"

definition rereadable :: "('a, 'k) spill_record \<Rightarrow> 'a \<Rightarrow> bool" where
  "rereadable sr rec \<longleftrightarrow> modest sr \<and> spillable sr rec"

interpretation recs: record_format "record_bytes sr" "record_file_next sr" "rereadable sr"
  for sr :: "('a, 'k) spill_record"
  by unfold_locales
    (auto simp: record_bytes_def record_file_next_def rereadable_def modest_def spillable_encoding read_record_framed read_record_end)

lemma record_file_push_ok:
  "spillable sr rec \<Longrightarrow> \<exists>m'. record_file_push sr rec (writer, m) = Inr (writer @ record_bytes sr rec, m')"
  by (simp add: record_file_push_def spillable_encoding write_encoded_framed record_bytes_def)

lemma item_bytes_of_Cons: "spl.bytes_of (x # xs) = framed (hi_encoded x) @ spl.bytes_of xs"
  by (simp add: spl.bytes_of_def item_bytes_def)

section \<open>Facts: the sorted stream\<close>

lemma heap_item_order_eq: "heap_item_order = spl.item_order"
  by (simp add: heap_item_order_def spl.item_order_def)

definition heap_weight :: "(('a, 'k) heap_item \<times> nat) list \<Rightarrow> nat" where
  "heap_weight heap = sum_list (map (\<lambda>(x, i). hi_accounted_bytes x) heap)"

lemma heap_weight_le:
  "\<forall>(x, i)\<in>set heap. hi_accounted_bytes x \<le> 2 ^ 35 \<Longrightarrow> heap_weight heap \<le> 2 ^ 35 * length heap"
  by (induction heap) (auto simp: heap_weight_def)

lemma heap_weight_remove1: "y \<in> set heap \<Longrightarrow> heap_weight (remove1 y heap) = heap_weight heap - hi_accounted_bytes (fst y)"
  by (simp add: heap_weight_def sum_list_map_remove1 [of y heap] case_prod_unfold)

text \<open>
  \<open>stream_inv sr q items\<close>: the stream still has to deliver exactly \<open>items\<close>. Its open readers hold
  sorted runs whose stable merge they are, and its accounting is exact.
\<close>

definition stream_inv :: "('a, 'k::linorder) spill_record \<Rightarrow> ('a, 'k) sorted_stream \<Rightarrow> ('a, 'k) heap_item list \<Rightarrow> bool" where
  "stream_inv sr q items \<longleftrightarrow> modest sr \<and>
     (\<exists>runs. spl.holds sr (set_option (sq_pending_reader q)) (sq_heap q) (sq_readers q) runs
        \<and> (\<forall>i. sq_pending_reader q = Some i \<longrightarrow> i < length runs)
        \<and> length runs \<le> max_spill_fan_in
        \<and> (\<forall>x\<in>set (concat runs). item_ok sr x)
        \<and> items = sort_key hi_key (concat runs))
     \<and> sq_heap_bytes q = heap_weight (sq_heap q)"

lemma push_item_ok:
  assumes "modest sr" and "hi_accounted_bytes x \<le> 2 ^ 35" and "heap_bytes \<le> 2 ^ 35 * n" and "n < 2 ^ 20"
  shows "push_item sr x i (heap, heap_bytes, m) =
     Inr (heap @ [(x, i)], heap_bytes + hi_accounted_bytes x, add_live (hi_accounted_bytes x) m)"
proof -
  have "heap_bytes \<le> 2 ^ 35 * 2 ^ 20" using assms(3,4) by (meson le_trans less_imp_le mult_le_mono2)
  with assms show ?thesis by (simp add: push_item_def modest_def add_u64_def max_u64_def)
qed

lemma stream_invI:
  assumes "modest sr" and "spl.holds sr {} (sq_heap q) (sq_readers q) runs" and "sq_pending_reader q = None"
    and "length runs \<le> max_spill_fan_in" and "\<forall>x\<in>set (concat runs). item_ok sr x"
    and "items = sort_key hi_key (concat runs)" and "sq_heap_bytes q = heap_weight (sq_heap q)"
  shows "stream_inv sr q items"
  unfolding stream_inv_def using assms by (intro conjI exI [of _ runs]) simp_all

lemma refill_inv:
  assumes "stream_inv sr q items"
  shows "\<exists>q' w'. refill sr (q, w) = Inr (q', w') \<and> stream_inv sr q' items \<and> sq_pending_reader q' = None
     \<and> ws_files w' = ws_files w \<and> sq_input_paths q' = sq_input_paths q
     \<and> sq_cleanup_when_exhausted q' = sq_cleanup_when_exhausted q"
proof (cases "sq_pending_reader q")
  case None
  then show ?thesis using assms by (auto simp: refill_def)
next
  case (Some i)
  from assms obtain runs where runs: "spl.holds sr (set_option (sq_pending_reader q)) (sq_heap q) (sq_readers q) runs"
    "length runs \<le> max_spill_fan_in" "\<forall>x\<in>set (concat runs). item_ok sr x" "items = sort_key hi_key (concat runs)"
    "i < length runs" and sr: "modest sr" and bytes: "sq_heap_bytes q = heap_weight (sq_heap q)"
    unfolding stream_inv_def using Some by blast
  have h: "spl.holds sr {i} (sq_heap q) (sq_readers q) runs" using runs(1) Some by simp
  have ok: "\<forall>(x, j)\<in>set (sq_heap q). hi_accounted_bytes x \<le> 2 ^ 35"
  proof clarify
    fix x j assume "(x, j) \<in> set (sq_heap q)"
    with h have "x \<in> set (concat runs)" by (auto simp: spl.holds_def) (metis hd_in_set nth_mem)
    with runs(3) show "hi_accounted_bytes x \<le> 2 ^ 35" by (blast intro: item_ok_accounted)
  qed
  have weight: "sq_heap_bytes q \<le> 2 ^ 35 * length (sq_heap q)" using heap_weight_le [OF ok] bytes by simp
  have len: "length (sq_heap q) < 2 ^ 20"
    using spl.holds_length [OF h] runs(2) by (simp add: max_spill_fan_in_def)
  have "i \<notin> {}" by simp
  with spl.holds_refill [OF h runs(5)] consider
      "read_item sr (sq_readers q ! i) = Inr None" "spl.holds sr {} (sq_heap q) (sq_readers q) runs"
    | x xs r where "runs ! i = x # xs" "read_item sr (sq_readers q ! i) = Inr (Some (x, r))"
        "spl.holds sr {} (sq_heap q @ [(x, i)]) ((sq_readers q)[i := r]) runs" by blast
  then show ?thesis
  proof cases
    case 1
    have "stream_inv sr (q\<lparr>sq_pending_reader := None\<rparr>) items"
      using 1(2) runs(2,3,4) sr bytes by (intro stream_invI [of _ _ runs]) simp_all
    with 1 Some show ?thesis by (simp add: refill_def)
  next
    case (2 x xs r)
    let ?q = "q\<lparr>sq_pending_reader := None, sq_readers := (sq_readers q)[i := r], sq_heap := sq_heap q @ [(x, i)],
                sq_heap_bytes := sq_heap_bytes q + hi_accounted_bytes x\<rparr>"
    have "runs ! i \<in> set runs" using runs(5) by simp
    with 2(1) have "x \<in> set (concat runs)" by (auto intro!: bexI [of _ "x # xs"])
    then have "hi_accounted_bytes x \<le> 2 ^ 35" using runs(3) by (blast intro: item_ok_accounted)
    note push = push_item_ok [OF sr this weight len]
    have "stream_inv sr ?q items"
      using 2(3) runs(2,3,4) sr bytes by (intro stream_invI [of _ _ runs]) (simp_all add: heap_weight_def)
    with 2(2) Some show ?thesis by (simp add: refill_def push)
  qed
qed

lemma next_encoded_item:
  assumes "stream_inv sr q (y # ys)"
  shows "\<exists>q' w'. next_encoded sr (q, w) = Inr (Some y, q', w') \<and> stream_inv sr q' ys
     \<and> ws_files w' = ws_files w \<and> sq_input_paths q' = sq_input_paths q
     \<and> sq_cleanup_when_exhausted q' = sq_cleanup_when_exhausted q \<and> item_ok sr y"
proof -
  let ?w = "if sq_outstanding_bytes q > 0 then w\<lparr>ws_metrics := release_live (sq_outstanding_bytes q) (ws_metrics w)\<rparr> else w"
  have "stream_inv sr (q\<lparr>sq_outstanding_bytes := 0\<rparr>) (y # ys)" using assms by (simp add: stream_inv_def)
  from refill_inv [OF this, of ?w] obtain q1 w2 where q1:
    "refill sr (q\<lparr>sq_outstanding_bytes := 0\<rparr>, ?w) = Inr (q1, w2)" "stream_inv sr q1 (y # ys)" "sq_pending_reader q1 = None"
    "ws_files w2 = ws_files w" "sq_input_paths q1 = sq_input_paths q"
    "sq_cleanup_when_exhausted q1 = sq_cleanup_when_exhausted q" by (auto split: if_splits)
  from q1(2,3) obtain runs where runs: "spl.holds sr {} (sq_heap q1) (sq_readers q1) runs"
    "length runs \<le> max_spill_fan_in" "\<forall>x\<in>set (concat runs). item_ok sr x" "y # ys = sort_key hi_key (concat runs)"
    and sr: "modest sr" and bytes: "sq_heap_bytes q1 = heap_weight (sq_heap q1)"
    by (auto simp: stream_inv_def)
  have "concat runs \<noteq> []" using runs(4) by (metis list.distinct(1) sort_key_simps(1))
  then have "heap_pop heap_item_order (sq_heap q1) \<noteq> None"
    unfolding heap_item_order_eq using spl.holds_empty [OF runs(1)] by blast
  then obtain x i heap where pop: "heap_pop heap_item_order (sq_heap q1) = Some ((x, i), heap)"
    by (metis not_None_eq prod.exhaust)
  then have pop': "heap_pop spl.item_order (sq_heap q1) = Some ((x, i), heap)" by (simp add: heap_item_order_eq)
  from spl.holds_pop [OF runs(1) pop'] obtain xs where xs: "i < length runs" "runs ! i = x # xs"
    "sort_key hi_key (concat runs) = x # sort_key hi_key (concat (runs[i := xs]))"
    "spl.holds sr {i} heap (sq_readers q1) (runs[i := xs])" .
  then have y: "y = x" "ys = sort_key hi_key (concat (runs[i := xs]))" using runs(4) by auto
  have "set (concat runs) = insert x (set (concat (runs[i := xs])))" by (metis list.simps(15) set_sort xs(3))
  with runs(3) have ok: "item_ok sr x" "\<forall>x\<in>set (concat (runs[i := xs])). item_ok sr x" by blast+
  have "heap = remove1 (x, i) (sq_heap q1)" "(x, i) \<in> set (sq_heap q1)" using heap_pop_Some [OF pop] by auto
  then have weight: "heap_weight heap = sq_heap_bytes q1 - hi_accounted_bytes x" using bytes by (simp add: heap_weight_remove1)
  let ?q = "q1\<lparr>sq_heap := heap, sq_heap_bytes := sq_heap_bytes q1 - hi_accounted_bytes x,
                 sq_outstanding_bytes := hi_accounted_bytes x, sq_pending_reader := Some i\<rparr>"
  have "stream_inv sr ?q ys"
    unfolding stream_inv_def using xs(1,4) runs(2) ok(2) y(2) sr weight by (auto intro!: exI [of _ "runs[i := xs]"])
  moreover have "next_encoded sr (q, w) = Inr (Some y, ?q, w2)" using q1(1) pop y(1) by (simp add: next_encoded_def Let_def)
  ultimately show ?thesis using q1(4-6) ok(1) y(1) by auto
qed

lemma next_encoded_end:
  assumes "stream_inv sr q []"
  shows "\<exists>q' w'. next_encoded sr (q, w) = Inr (None, q', w')
     \<and> ws_files w' = (if sq_cleanup_when_exhausted q then remove_existing (sq_input_paths q) (ws_files w) else ws_files w)
     \<and> sq_cleanup_when_exhausted q' = sq_cleanup_when_exhausted q"
proof -
  let ?w = "if sq_outstanding_bytes q > 0 then w\<lparr>ws_metrics := release_live (sq_outstanding_bytes q) (ws_metrics w)\<rparr> else w"
  have "stream_inv sr (q\<lparr>sq_outstanding_bytes := 0\<rparr>) []" using assms by (simp add: stream_inv_def)
  from refill_inv [OF this, of ?w] obtain q1 w2 where q1:
    "refill sr (q\<lparr>sq_outstanding_bytes := 0\<rparr>, ?w) = Inr (q1, w2)" "stream_inv sr q1 []" "sq_pending_reader q1 = None"
    "ws_files w2 = ws_files w" "sq_input_paths q1 = sq_input_paths q"
    "sq_cleanup_when_exhausted q1 = sq_cleanup_when_exhausted q" by (auto split: if_splits)
  from q1(2,3) obtain runs where runs: "spl.holds sr {} (sq_heap q1) (sq_readers q1) runs"
    "[] = sort_key hi_key (concat runs)" by (auto simp: stream_inv_def)
  have "concat runs = []" by (metis runs(2) length_0_conv length_sort)
  have "sq_heap q1 = []"
  proof (rule ccontr)
    assume "sq_heap q1 \<noteq> []"
    then obtain x i where "(x, i) \<in> set (sq_heap q1)" by (cases "sq_heap q1") auto
    with runs(1) have "runs ! i \<noteq> []" "i < length runs" by (auto simp: spl.holds_def)
    with \<open>concat runs = []\<close> show False by (metis concat_eq_Nil_conv nth_mem)
  qed
  with q1 show ?thesis by (auto simp: next_encoded_def heap_pop_def cleanup_inputs_def Let_def)
qed

section \<open>Facts: run files\<close>

definition run_file_of :: "string \<Rightarrow> string \<Rightarrow> nat \<Rightarrow> string \<Rightarrow> bool" where
  "run_file_of base prefix limit path \<longleftrightarrow> (\<exists>n<limit. path = run_path base prefix ''run'' n \<or> path = run_path base prefix ''merge'' n)"

text \<open>What a spool may change of the files: those that carry its prefix.\<close>

definition touches :: "string \<Rightarrow> string \<Rightarrow> workspace \<Rightarrow> workspace \<Rightarrow> bool" where
  "touches base prefix w w' \<longleftrightarrow> (\<forall>path. (\<forall>n. \<not> run_file_of base prefix n path) \<longrightarrow> ws_files w' path = ws_files w path)"

lemma touches_refl [simp]: "ws_files w' = ws_files w \<Longrightarrow> touches base prefix w w'"
  by (simp add: touches_def)

lemma touches_trans: "touches base prefix w w' \<Longrightarrow> touches base prefix w' w'' \<Longrightarrow> touches base prefix w w''"
  by (simp add: touches_def)

lemma run_path_inject: "run_path base prefix kind a = run_path base prefix kind b \<longleftrightarrow> a = b"
  by (simp add: run_path_def)

lemma run_path_kinds: "run_path base prefix ''run'' a \<noteq> run_path base prefix ''merge'' b"
  by (simp add: run_path_def)

lemma run_file_fresh: "\<not> run_file_of base prefix n (run_path base prefix ''run'' n)" "\<not> run_file_of base prefix n (run_path base prefix ''merge'' n)"
  using run_path_kinds [of base prefix] run_path_kinds [of base prefix, symmetric]
  by (auto simp: run_file_of_def run_path_inject)

lemma run_file_new: "run_file_of base prefix (Suc n) (run_path base prefix ''run'' n)" "run_file_of base prefix (Suc n) (run_path base prefix ''merge'' n)"
  by (auto simp: run_file_of_def)

lemma run_file_mono: "run_file_of base prefix m path \<Longrightarrow> m \<le> n \<Longrightarrow> run_file_of base prefix n path"
  unfolding run_file_of_def using less_le_trans by metis

text \<open>The files \<open>paths\<close> hold the sorted runs \<open>runs\<close>.\<close>

definition spooled :: "('a, 'k::linorder) spill_record \<Rightarrow> file_map \<Rightarrow> string list \<Rightarrow> ('a, 'k) heap_item list list \<Rightarrow> bool" where
  "spooled sr files paths runs \<longleftrightarrow> distinct paths \<and>
     list_all2 (\<lambda>path run. files path = Some (spl.bytes_of run) \<and> list_all (item_ok sr) run \<and> sorted (map hi_key run)) paths runs"

lemma spooled_lengths: "spooled sr files paths runs \<Longrightarrow> length paths = length runs"
  by (auto simp: spooled_def dest: list_all2_lengthD)

lemma spooled_sorted: "spooled sr files paths runs \<Longrightarrow> list_all (\<lambda>run. sorted (map hi_key run)) runs"
  by (auto simp: spooled_def list_all2_conv_all_nth list_all_length)

lemma spooled_ok: "spooled sr files paths runs \<Longrightarrow> list_all (list_all (item_ok sr)) runs"
  by (auto simp: spooled_def list_all2_conv_all_nth list_all_length)

lemma spooled_ok_items: "spooled sr files paths runs \<Longrightarrow> \<forall>x\<in>set (concat runs). item_ok sr x"
  by (auto dest!: spooled_ok simp: list_all_iff)

lemma spooled_Nil [simp]: "spooled sr files [] []"
  by (simp add: spooled_def)

lemma spooled_append:
  assumes "length paths = length runs"
  shows "spooled sr files (paths @ paths') (runs @ runs') \<longleftrightarrow>
     spooled sr files paths runs \<and> spooled sr files paths' runs' \<and> set paths \<inter> set paths' = {}"
  using assms by (auto simp: spooled_def list_all2_append)

lemma spooled_Cons:
  "spooled sr files (path # paths) (run # runs) \<longleftrightarrow>
     spooled sr files [path] [run] \<and> spooled sr files paths runs \<and> path \<notin> set paths"
  by (auto simp: spooled_def)

lemma spooled_cong:
  assumes "spooled sr files paths runs" and "\<forall>path\<in>set paths. files' path = files path"
  shows "spooled sr files' paths runs"
  using assms by (auto simp: spooled_def list_all2_conv_all_nth)

section \<open>Facts: opening and merging runs\<close>

lemma heads_weight: "list_all (list_all (item_ok sr)) runs \<Longrightarrow> heap_weight (heads index runs) \<le> 2 ^ 35 * length runs"
  by (induction index runs rule: heads.induct) (auto simp: heap_weight_def dest: item_ok_accounted)

lemma open_runs_spooled:
  assumes "modest sr"
    and "list_all2 (\<lambda>path run. files path = Some (spl.bytes_of run) \<and> list_all (item_ok sr) run) paths runs"
    and "heap_bytes \<le> 2 ^ 35 * n" and "n + length paths < 2 ^ 20"
  shows "\<exists>m'. open_runs sr files index paths (heap, heap_bytes, m) =
     Inr (map (\<lambda>run. spl.bytes_of (tl run)) runs, heap @ heads index runs, heap_bytes + heap_weight (heads index runs), m')"
  using assms(2-)
proof (induction paths arbitrary: runs index heap heap_bytes m n)
  case (Cons path paths)
  then obtain run runs' where runs: "runs = run # runs'" "files path = Some (spl.bytes_of run)" "list_all (item_ok sr) run"
    "list_all2 (\<lambda>path run. files path = Some (spl.bytes_of run) \<and> list_all (item_ok sr) run) paths runs'"
    by (auto simp: list_all2_Cons1)
  show ?case
  proof (cases run)
    case Nil
    have "heap_bytes \<le> 2 ^ 35 * n" "n + length paths < 2 ^ 20" using Cons.prems by auto
    from Cons.IH [OF runs(4) this, of "Suc index" heap m] runs Nil show ?thesis
      by (auto simp: open_file_def spl.bytes_of_def read_item_end)
  next
    case run: (Cons x xs)
    have x: "item_ok sr x" using runs(3) run by simp
    note acc = item_ok_accounted [OF x]
    have rd: "read_item sr (spl.bytes_of run) = Inr (Some (x, spl.bytes_of xs))"
      using x by (simp add: run spl.bytes_of_def read_item_bytes)
    have "n < 2 ^ 20" using Cons.prems(3) by simp
    note push = push_item_ok [OF assms(1) acc Cons.prems(2) this]
    have "heap_bytes + hi_accounted_bytes x \<le> 2 ^ 35 * Suc n" "Suc n + length paths < 2 ^ 20"
      using Cons.prems(2,3) acc by auto
    from Cons.IH [OF runs(4) this, of "Suc index" "heap @ [(x, index)]" "add_live (hi_accounted_bytes x) m"] show ?thesis
      by (auto simp: runs(1,2) run open_file_def rd [unfolded run] push heap_weight_def)
  qed
qed (simp add: heap_weight_def)

lemma stream_fuel_heads:
  assumes "list_all (list_all (item_ok sr)) runs"
  shows "length (concat runs) \<le> length (heads index runs) + sum_list (map (\<lambda>run. length (spl.bytes_of (tl run))) runs)"
  using assms
proof (induction index runs rule: heads.induct)
  case (3 index x xs runs)
  then have "length xs \<le> length (spl.bytes_of xs)" unfolding spl.bytes_of_def by (intro spl.length_records [of sr]) simp
  with 3 show ?case by simp
qed (auto simp: spl.bytes_of_def)

lemma stream_open_spooled:
  assumes sr: "modest sr" and sp: "spooled sr (ws_files w) paths runs" and len: "length paths \<le> max_spill_fan_in"
  shows "\<exists>q w'. stream_open sr paths cleanup w = Inr (q, w') \<and> stream_inv sr q (sort_key hi_key (concat runs))
     \<and> ws_files w' = ws_files w \<and> sq_input_paths q = paths \<and> sq_cleanup_when_exhausted q = cleanup
     \<and> length (concat runs) < stream_fuel q"
proof -
  have all: "list_all2 (\<lambda>path run. ws_files w path = Some (spl.bytes_of run) \<and> list_all (item_ok sr) run) paths runs"
    using sp by (auto simp: spooled_def elim: list_all2_mono)
  have "(0 :: nat) + length paths < 2 ^ 20" using len by (simp add: max_spill_fan_in_def)
  from open_runs_spooled [OF sr all _ this, of 0 0 "[]" "ws_metrics w"] obtain m' where
    op: "open_runs sr (ws_files w) 0 paths ([], 0, ws_metrics w) =
      Inr (map (\<lambda>run. spl.bytes_of (tl run)) runs, heads 0 runs, heap_weight (heads 0 runs), m')" by auto
  let ?q = "\<lparr>sq_readers = map (\<lambda>run. spl.bytes_of (tl run)) runs, sq_heap = heads 0 runs,
      sq_heap_bytes = heap_weight (heads 0 runs), sq_outstanding_bytes = 0, sq_pending_reader = None,
      sq_input_paths = paths, sq_cleanup_when_exhausted = cleanup\<rparr>"
  have "list_all2 (\<lambda>r run. spl.file_delivers sr r (tl run)) (map (\<lambda>run. spl.bytes_of (tl run)) runs) runs"
    using spooled_ok [OF sp]
    by (auto simp: list_all2_map1 list_all2_same list_all_iff spl.file_delivers_def dest: in_set_tlD)
  then have "spl.holds sr {} (heads 0 runs) (map (\<lambda>run. spl.bytes_of (tl run)) runs) runs"
    by (rule spl.holds_heads) (rule spooled_sorted [OF sp])
  then have "stream_inv sr ?q (sort_key hi_key (concat runs))"
    using sr spooled_ok_items [OF sp] len spooled_lengths [OF sp] by (intro stream_invI [of _ _ runs]) simp_all
  moreover have "length (concat runs) < stream_fuel ?q"
    using stream_fuel_heads [OF spooled_ok [OF sp], of 0] by (simp add: stream_fuel_def comp_def)
  ultimately show ?thesis using sr by (auto simp: stream_open_def op modest_def)
qed

lemma merge_stream_writes:
  assumes "stream_inv sr q items" and "length items < fuel" and "\<not> sq_cleanup_when_exhausted q"
  shows "\<exists>q' w'. merge_stream sr fuel (q, w) writer = Inr (writer @ spl.bytes_of items, q', w')
     \<and> ws_files w' = ws_files w \<and> \<not> sq_cleanup_when_exhausted q'"
  using assms
proof (induction items arbitrary: fuel q w writer)
  case Nil
  from next_encoded_end [OF Nil(1), of w] obtain q' w' where "next_encoded sr (q, w) = Inr (None, q', w')"
    "ws_files w' = ws_files w" "\<not> sq_cleanup_when_exhausted q'" using Nil(3) by auto
  with Nil(2) show ?case by (cases fuel) (auto simp: spl.bytes_of_def)
next
  case (Cons x xs)
  from next_encoded_item [OF Cons(2), of w] obtain q1 w1 where q1: "next_encoded sr (q, w) = Inr (Some x, q1, w1)"
    "stream_inv sr q1 xs" "ws_files w1 = ws_files w" "\<not> sq_cleanup_when_exhausted q1" "item_ok sr x" using Cons(4) by auto
  have "u32_length (hi_encoded x)" using q1(5) by (simp add: item_ok_def)
  note wr = write_encoded_framed [OF this, of writer "ws_metrics w1"]
  from Cons(3) obtain fuel' where fuel: "fuel = Suc fuel'" "length xs < fuel'" by (cases fuel) auto
  let ?m = "add_written (length_prefix_bytes + length (hi_encoded x)) (ws_metrics w1)"
  from Cons.IH [OF q1(2) fuel(2) q1(4), of "w1\<lparr>ws_metrics := ?m\<rparr>" "writer @ framed (hi_encoded x)"] show ?case
    using q1(3) by (auto simp: fuel(1) q1(1) wr item_bytes_of_Cons)
qed

lemma merge_run_group_spooled:
  assumes sr: "modest sr" and sp: "spooled sr (ws_files w) inputs runs" and len: "length inputs \<le> max_spill_fan_in"
    and fresh: "output \<notin> set inputs"
  shows "\<exists>w'. merge_run_group sr inputs output w = Inr w'
     \<and> ws_files w' = (\<lambda>path. if path \<in> set inputs then None
          else if path = output then Some (spl.bytes_of (sort_key hi_key (concat runs))) else ws_files w path)"
proof -
  from stream_open_spooled [OF sr sp len, of False] obtain q w1 where q: "stream_open sr inputs False w = Inr (q, w1)"
    "stream_inv sr q (sort_key hi_key (concat runs))" "ws_files w1 = ws_files w" "\<not> sq_cleanup_when_exhausted q"
    "length (concat runs) < stream_fuel q" by auto
  have "length (sort_key hi_key (concat runs)) < stream_fuel q" using q(5) by (simp only: length_sort)
  from merge_stream_writes [OF q(2) this q(4), of w1 "[]"] obtain q' w2 where
    m: "merge_stream sr (stream_fuel q) (q, w1) [] = Inr (spl.bytes_of (sort_key hi_key (concat runs)), q', w2)"
      "ws_files w2 = ws_files w1" "\<not> sq_cleanup_when_exhausted q'" by auto
  let ?files = "(ws_files w)(output \<mapsto> spl.bytes_of (sort_key hi_key (concat runs)))"
  have "distinct inputs" "\<forall>path\<in>set inputs. ?files path \<noteq> None"
    using sp fresh by (auto simp: spooled_def list_all2_conv_all_nth in_set_conv_nth)
  note rm = remove_files_present [OF this]
  have "ws_files w2 = ws_files w" using q(3) m(2) by simp
  then show ?thesis using q(1) m(1,3) by (simp add: merge_run_group_def stream_drop_def Let_def rm) (simp add: fun_eq_iff)
qed

definition runs_of :: "'k spool \<Rightarrow> string list \<Rightarrow> bool" where
  "runs_of s paths \<longleftrightarrow> list_all (run_file_of (sl_root s) (sl_prefix s) (sl_next_run s)) paths"

lemma runs_of_Suc: "runs_of s paths \<Longrightarrow> runs_of (s\<lparr>sl_next_run := Suc (sl_next_run s)\<rparr>) paths"
  by (auto simp: runs_of_def list_all_iff intro: run_file_mono [OF _ le_SucI [OF order_refl]])

definition same_spool :: "'k spool \<Rightarrow> 'k spool \<Rightarrow> bool" where
  "same_spool s s' \<longleftrightarrow> sl_root s' = sl_root s \<and> sl_prefix s' = sl_prefix s \<and> sl_chunk_limit s' = sl_chunk_limit s
     \<and> sl_next_run s \<le> sl_next_run s'"

lemma next_path_simps:
  assumes "sl_next_run s < max_u64"
  shows "next_path kind s = (run_path (sl_root s) (sl_prefix s) kind (sl_next_run s), s\<lparr>sl_next_run := Suc (sl_next_run s)\<rparr>)"
  using assms by (simp add: next_path_def saturating_u64_def)

lemma merge_level_groups_spooled:
  assumes "modest sr" and "spooled sr (ws_files w) (merged @ concat groups) (mruns @ concat rss)"
    and "length merged = length mruns" and "list_all2 (\<lambda>grp rs. length grp = length rs) groups rss"
    and "\<forall>grp\<in>set groups. grp \<noteq> [] \<and> length grp \<le> max_spill_fan_in" and "runs_of s (merged @ concat groups)"
    and "sl_next_run s + length groups \<le> max_u64"
  shows "\<exists>paths s' w' runs. merge_level_groups sr groups merged s w = Inr (paths, s', w')
     \<and> spooled sr (ws_files w') paths runs
     \<and> sort_key hi_key (concat runs) = sort_key hi_key (concat (mruns @ concat rss))
     \<and> length paths = length merged + length groups \<and> runs_of s' paths \<and> same_spool s s'
     \<and> sl_next_run s' \<le> sl_next_run s + length groups \<and> touches (sl_root s) (sl_prefix s) w w'"
  using assms(2-)
proof (induction groups arbitrary: merged mruns rss s w)
  case Nil
  then show ?case by (auto simp: same_spool_def)
next
  case (Cons grp groups)
  from Cons.prems(3) obtain rs rss' where rss: "rss = rs # rss'" "length grp = length rs"
    "list_all2 (\<lambda>grp rs. length grp = length rs) groups rss'" by (auto simp: list_all2_Cons1)
  show ?case
  proof (cases "length grp = 1")
    case True
    then obtain path run where one: "grp = [path]" "rs = [run]" using rss(2) by (auto simp: length_Suc_conv)
    have "\<exists>paths s' w' runs. merge_level_groups sr groups (merged @ [path]) s w = Inr (paths, s', w')
     \<and> spooled sr (ws_files w') paths runs
     \<and> sort_key hi_key (concat runs) = sort_key hi_key (concat ((mruns @ [run]) @ concat rss'))
     \<and> length paths = length (merged @ [path]) + length groups \<and> runs_of s' paths \<and> same_spool s s'
     \<and> sl_next_run s' \<le> sl_next_run s + length groups \<and> touches (sl_root s) (sl_prefix s) w w'"
      by (rule Cons.IH) (use Cons.prems rss one in auto)
    then show ?thesis using True by (fastforce simp: one rss)
  next
    case False
    let ?out = "run_path (sl_root s) (sl_prefix s) ''merge'' (sl_next_run s)" and ?s = "s\<lparr>sl_next_run := Suc (sl_next_run s)\<rparr>"
      and ?run = "sort_key hi_key (concat rs)"
    have room: "sl_next_run s < max_u64" using Cons.prems(6) by simp
    have len: "length (concat groups) = length (concat rss')"
      using rss(3) by (induction groups rss' rule: list_all2_induct) auto
    have sp: "spooled sr (ws_files w) merged mruns" "spooled sr (ws_files w) grp rs" "spooled sr (ws_files w) (concat groups) (concat rss')"
      and disj: "set merged \<inter> set grp = {}" "set merged \<inter> set (concat groups) = {}" "set grp \<inter> set (concat groups) = {}"
      using Cons.prems(1) rss(2) len by (auto simp: rss(1) spooled_append Cons.prems(2))
    have fresh: "?out \<notin> set merged" "?out \<notin> set grp" "?out \<notin> set (concat groups)"
      using Cons.prems(5) run_file_fresh(2) by (fastforce simp: runs_of_def list_all_iff)+
    have "length grp \<le> max_spill_fan_in" using Cons.prems(4) by simp
    from merge_run_group_spooled [OF assms(1) sp(2) this fresh(2)] obtain w1 where
      w1: "merge_run_group sr grp ?out w = Inr w1"
        "ws_files w1 = (\<lambda>path. if path \<in> set grp then None else if path = ?out then Some (spl.bytes_of ?run) else ws_files w path)"
      by blast
    have keep: "spooled sr (ws_files w1) merged mruns" "spooled sr (ws_files w1) (concat groups) (concat rss')"
      using disj fresh by (auto intro!: spooled_cong [OF sp(1)] spooled_cong [OF sp(3)] simp: w1(2) disjoint_iff simp del: set_concat)
    have "list_all (item_ok sr) ?run" using spooled_ok_items [OF sp(2)] by (simp add: list_all_iff)
    then have "spooled sr (ws_files w1) [?out] [?run]" using fresh(2) by (simp add: spooled_def w1(2))
    with keep have "spooled sr (ws_files w1) ((merged @ [?out]) @ concat groups) ((mruns @ [?run]) @ concat rss')"
      using fresh disj(2) Cons.prems(2) by (simp add: spooled_append spooled_Cons [of sr "ws_files w1" ?out "concat groups"])
    moreover have "runs_of ?s ((merged @ [?out]) @ concat groups)"
      using runs_of_Suc [OF Cons.prems(5)] run_file_new(2) by (simp add: runs_of_def)
    ultimately have "\<exists>paths s' w' runs. merge_level_groups sr groups (merged @ [?out]) ?s w1 = Inr (paths, s', w')
     \<and> spooled sr (ws_files w') paths runs
     \<and> sort_key hi_key (concat runs) = sort_key hi_key (concat ((mruns @ [?run]) @ concat rss'))
     \<and> length paths = length (merged @ [?out]) + length groups \<and> runs_of s' paths \<and> same_spool ?s s'
     \<and> sl_next_run s' \<le> sl_next_run ?s + length groups \<and> touches (sl_root ?s) (sl_prefix ?s) w1 w'"
      by (intro Cons.IH) (use Cons.prems rss in auto)
    then obtain paths s' w' runs where rest: "merge_level_groups sr groups (merged @ [?out]) ?s w1 = Inr (paths, s', w')"
      "spooled sr (ws_files w') paths runs"
      "sort_key hi_key (concat runs) = sort_key hi_key (concat ((mruns @ [?run]) @ concat rss'))"
      "length paths = length (merged @ [?out]) + length groups" "runs_of s' paths" "same_spool ?s s'"
      "sl_next_run s' \<le> sl_next_run ?s + length groups" "touches (sl_root s) (sl_prefix s) w1 w'" by auto
    have "touches (sl_root s) (sl_prefix s) w w1"
      using Cons.prems(5) run_file_new(2) [of "sl_root s" "sl_prefix s" "sl_next_run s"]
      by (auto simp: touches_def w1(2) runs_of_def list_all_iff)
    then have "touches (sl_root s) (sl_prefix s) w w'" using rest(8) by (rule touches_trans)
    moreover have "merge_level_groups sr (grp # groups) merged s w = Inr (paths, s', w')"
      using False rest(1) w1(1) by (simp add: next_path_simps [OF room] Let_def)
    moreover have "sort_key hi_key (concat runs) = sort_key hi_key (concat (mruns @ concat rss))"
      unfolding rest(3) by (simp add: rss(1) sort_key_inner)
    ultimately show ?thesis using rest by (fastforce simp: same_spool_def)
  qed
qed

lemma merge_runs_spooled:
  assumes "modest sr" and "spooled sr (ws_files w) paths runs" and "runs_of s paths" and "length paths \<le> fuel"
    and "sl_next_run s + fuel * length paths \<le> max_u64"
  shows "\<exists>paths' s' w' runs'. merge_runs sr fuel paths s w = Inr (paths', s', w')
     \<and> spooled sr (ws_files w') paths' runs' \<and> sort_key hi_key (concat runs') = sort_key hi_key (concat runs)
     \<and> length paths' \<le> max_spill_fan_in \<and> runs_of s' paths' \<and> same_spool s s' \<and> touches (sl_root s) (sl_prefix s) w w'"
  using assms(2-)
proof (induction fuel arbitrary: paths runs s w)
  case 0
  then have "paths = []" "runs = []" using spooled_lengths [OF 0(1)] by auto
  with 0 show ?case by (auto simp: merge_runs.simps same_spool_def intro!: exI [of _ "[]"])
next
  case (Suc fuel)
  show ?case
  proof (cases "length paths \<le> max_spill_fan_in")
    case True
    then show ?thesis using Suc.prems by (auto simp: merge_runs.simps same_spool_def)
  next
    case False
    let ?n = max_spill_fan_in
    have n: "0 < ?n" "1 < ?n" by (simp_all add: max_spill_fan_in_def)
    have len: "length paths = length runs" using Suc.prems(1) by (rule spooled_lengths)
    have short: "2 * length (chunks ?n paths) \<le> length paths + 1" by (rule length_chunks [OF n(2)])
    then have fewer: "length (chunks ?n paths) < length paths" using False by (simp add: max_spill_fan_in_def)
    have "\<forall>grp\<in>set (chunks ?n paths). grp \<noteq> [] \<and> length grp \<le> ?n"
      using chunks_nonempty chunks_bound by blast
    moreover have "sl_next_run s + length (chunks ?n paths) \<le> max_u64" using Suc.prems(4) fewer by simp
    moreover have "spooled sr (ws_files w) ([] @ concat (chunks ?n paths)) ([] @ concat (chunks ?n runs))"
      using Suc.prems(1) n by (simp add: concat_chunks)
    ultimately have "\<exists>paths1 s1 w1 runs1. merge_level_groups sr (chunks ?n paths) [] s w = Inr (paths1, s1, w1)
     \<and> spooled sr (ws_files w1) paths1 runs1
     \<and> sort_key hi_key (concat runs1) = sort_key hi_key (concat ([] @ concat (chunks ?n runs)))
     \<and> length paths1 = length ([] :: string list) + length (chunks ?n paths) \<and> runs_of s1 paths1 \<and> same_spool s s1
     \<and> sl_next_run s1 \<le> sl_next_run s + length (chunks ?n paths) \<and> touches (sl_root s) (sl_prefix s) w w1"
      by (intro merge_level_groups_spooled assms(1) chunks_same_shape len) (use Suc.prems n in \<open>simp_all add: concat_chunks\<close>)
    then obtain paths1 s1 w1 runs1 where one: "merge_level sr paths s w = Inr (paths1, s1, w1)"
      "spooled sr (ws_files w1) paths1 runs1" "sort_key hi_key (concat runs1) = sort_key hi_key (concat runs)"
      "length paths1 = length (chunks ?n paths)" "runs_of s1 paths1" "same_spool s s1"
      "sl_next_run s1 \<le> sl_next_run s + length (chunks ?n paths)" "touches (sl_root s) (sl_prefix s) w w1"
      using n by (auto simp: merge_level_def concat_chunks)
    have fuel: "length paths1 \<le> fuel" using one(4) fewer Suc.prems(3) by simp
    have "fuel * length paths1 \<le> fuel * length paths" using one(4) fewer by simp
    then have "sl_next_run s1 + fuel * length paths1 \<le> max_u64" using one(7) fewer Suc.prems(4) [unfolded mult_Suc] by linarith
    from Suc.IH [OF one(2,5) fuel this] obtain paths' s' w' runs' where
      rest: "merge_runs sr fuel paths1 s1 w1 = Inr (paths', s', w')"
        "spooled sr (ws_files w') paths' runs'" "sort_key hi_key (concat runs') = sort_key hi_key (concat runs1)"
        "length paths' \<le> ?n" "runs_of s' paths'" "same_spool s1 s'" "touches (sl_root s1) (sl_prefix s1) w1 w'" by blast
    have "touches (sl_root s) (sl_prefix s) w w'"
      using touches_trans [OF one(8)] rest(7) one(6) by (simp add: same_spool_def)
    moreover have "same_spool s s'" using one(6) rest(6) by (simp add: same_spool_def)
    moreover have "merge_runs sr (Suc fuel) paths s w = Inr (paths', s', w')"
      using False by (subst merge_runs.simps) (simp add: one(1) rest(1))
    ultimately show ?thesis using rest one(3) by auto
  qed
qed

section \<open>Facts: the spool\<close>

definition sorted_items :: "('a, 'k::linorder) spill_record \<Rightarrow> 'a list \<Rightarrow> ('a, 'k) heap_item list" where
  "sorted_items sr xs = map (item_of sr) (sort_key (sr_sort_key sr) xs)"

lemma sorted_items_alt: "sorted_items sr xs = sort_key hi_key (map (item_of sr) xs)"
  by (simp add: sorted_items_def sort_key_map)

lemma sorted_sorted_items: "sorted (map hi_key (sorted_items sr xs))"
  by (simp add: sorted_items_alt)

text \<open>
  \<open>spool_inv sr s w xs\<close>: the records \<open>xs\<close> were pushed. They are the pieces that went into the run
  files, each sorted there, followed by the records still in the buffer.
\<close>

definition spool_inv :: "('a, 'k::linorder) spill_record \<Rightarrow> 'k spool \<Rightarrow> workspace \<Rightarrow> 'a list \<Rightarrow> bool" where
  "spool_inv sr s w xs \<longleftrightarrow>
     modest sr \<and> list_all (spillable sr) xs \<and> 0 < sl_chunk_limit s \<and> sl_chunk_limit s \<le> 2 ^ 62
     \<and> sl_buffered_bytes s \<le> 2 ^ 62 + 2 ^ 35
     \<and> (\<exists>pieces buffered. xs = concat pieces @ buffered \<and> [] \<notin> set pieces
          \<and> sl_buffered s = map (\<lambda>rec. (sr_sort_key sr rec, encoding sr rec)) buffered
          \<and> spooled sr (ws_files w) (sl_runs s) (map (sorted_items sr) pieces)
          \<and> sl_next_run s = length pieces)
     \<and> runs_of s (sl_runs s)"

lemma write_all_encoded:
  assumes "list_all (\<lambda>(key, encoded). u32_length encoded) xs"
  shows "\<exists>m'. try_fold (\<lambda>(key, encoded). write_encoded encoded) xs (writer, m) =
     Inr (writer @ concat (map (\<lambda>(key, encoded). framed encoded) xs), m')"
  using assms
proof (induction xs arbitrary: writer m)
  case (Cons x xs)
  obtain key encoded where x: "x = (key, encoded)" by (cases x)
  with Cons.prems have "u32_length encoded" by simp
  note wr = write_encoded_framed [OF this]
  from Cons.IH [of "writer @ framed encoded" "add_written (length_prefix_bytes + length encoded) m"] Cons.prems
  show ?case by (auto simp: x wr)
qed simp

lemma length_pieces: "[] \<notin> set pieces \<Longrightarrow> length pieces \<le> length (concat pieces)"
proof (induction pieces)
  case (Cons p pieces)
  then have "1 \<le> length p" by (cases p) auto
  with Cons show ?case by simp
qed simp

lemma spool_flush_inv:
  assumes inv: "spool_inv sr s w xs" and room: "length xs < 2 ^ 20"
  shows "\<exists>s' w'. spool_flush s w = Inr (s', w') \<and> spool_inv sr s' w' xs \<and> sl_buffered s' = []
     \<and> sl_buffered_bytes s' \<le> (if sl_buffered s = [] then sl_buffered_bytes s else 0)
     \<and> same_spool s s' \<and> touches (sl_root s) (sl_prefix s) w w'"
proof (cases "sl_buffered s = []")
  case True
  then show ?thesis using inv by (auto simp: spool_flush_def same_spool_def)
next
  case False
  from inv obtain pieces buffered where pieces: "xs = concat pieces @ buffered" "[] \<notin> set pieces"
    "sl_buffered s = map (\<lambda>rec. (sr_sort_key sr rec, encoding sr rec)) buffered"
    "spooled sr (ws_files w) (sl_runs s) (map (sorted_items sr) pieces)" "sl_next_run s = length pieces"
    and sr: "modest sr" "list_all (spillable sr) xs" and runs: "runs_of s (sl_runs s)"
    unfolding spool_inv_def by blast
  let ?path = "run_path (sl_root s) (sl_prefix s) ''run'' (sl_next_run s)" and ?s = "s\<lparr>sl_next_run := Suc (sl_next_run s)\<rparr>"
  have "sl_next_run s < max_u64" using length_pieces [OF pieces(2)] pieces(1,5) room by (simp add: max_u64_def)
  note path = next_path_simps [OF this]
  have ok: "list_all (spillable sr) buffered" using sr(2) pieces(1) by simp
  let ?xs = "map (\<lambda>rec. (sr_sort_key sr rec, encoding sr rec)) (sort_key (sr_sort_key sr) buffered)"
  have sorted: "sort_key fst (sl_buffered s) = ?xs" by (simp add: pieces(3) sort_key_map)
  have "list_all (\<lambda>(key, encoded). u32_length encoded) ?xs" using ok by (auto simp: list_all_iff spillable_encoding)
  from write_all_encoded [OF this, of "[]" "ws_metrics w"] obtain m' where
    wr: "try_fold (\<lambda>(key, encoded). write_encoded encoded) ?xs ([], ws_metrics w) =
      Inr (concat (map (\<lambda>(key, encoded). framed encoded) ?xs), m')" by auto
  have bytes: "concat (map (\<lambda>(key, encoded). framed encoded) ?xs) = spl.bytes_of (sorted_items sr buffered)"
    by (simp add: spl.bytes_of_def sorted_items_def comp_def item_bytes_def)
  let ?s' = "?s\<lparr>sl_buffered := [], sl_buffered_bytes := 0, sl_runs := sl_runs s @ [?path]\<rparr>"
    and ?w' = "\<lparr>ws_files = (ws_files w)(?path \<mapsto> spl.bytes_of (sorted_items sr buffered)),
               ws_metrics = release_live (sl_buffered_bytes s) m'\<rparr>"
  have fresh: "?path \<notin> set (sl_runs s)" using runs run_file_fresh(1) by (auto simp: runs_of_def list_all_iff)
  have "list_all (item_ok sr) (sorted_items sr buffered)"
    using ok sr(1) by (auto simp: sorted_items_def list_all_iff item_ok_of)
  then have "spooled sr (ws_files ?w') [?path] [sorted_items sr buffered]"
    by (simp add: spooled_def sorted_sorted_items)
  moreover have "spooled sr (ws_files ?w') (sl_runs s) (map (sorted_items sr) pieces)"
    using fresh by (intro spooled_cong [OF pieces(4)]) auto
  ultimately have "spooled sr (ws_files ?w') (sl_runs ?s') (map (sorted_items sr) (pieces @ [buffered]))"
    using fresh spooled_lengths [OF pieces(4)] by (simp add: spooled_append)
  moreover have "buffered \<noteq> []" using False pieces(3) by auto
  ultimately have "spool_inv sr ?s' ?w' xs"
    using inv runs_of_Suc [OF runs] run_file_new(1) pieces
    unfolding spool_inv_def by (auto simp: runs_of_def intro!: exI [of _ "pieces @ [buffered]"])
  moreover have "spool_flush s w = Inr (?s', ?w')"
    using False by (simp add: spool_flush_def sorted wr [unfolded bytes] path Let_def)
  moreover have "touches (sl_root s) (sl_prefix s) w ?w'"
    using run_file_new(1) [of "sl_root s" "sl_prefix s" "sl_next_run s"] by (auto simp: touches_def)
  ultimately show ?thesis by (auto simp: same_spool_def)
qed

definition spool_ready :: "('a, 'k::linorder) spill_record \<Rightarrow> 'k spool \<Rightarrow> workspace \<Rightarrow> 'a list \<Rightarrow> bool" where
  "spool_ready sr s w xs \<longleftrightarrow> spool_inv sr s w xs \<and> sl_buffered_bytes s \<le> sl_chunk_limit s"

lemma spool_buffer_inv:
  assumes "spool_inv sr s w xs" and "spillable sr rec" and "bytes \<le> 2 ^ 62 + 2 ^ 35"
  shows "spool_inv sr (s\<lparr>sl_buffered := sl_buffered s @ [(sr_sort_key sr rec, encoding sr rec)], sl_buffered_bytes := bytes\<rparr>) w (xs @ [rec])"
proof -
  from assms(1) obtain pieces buffered where pieces: "xs = concat pieces @ buffered" "[] \<notin> set pieces"
    "sl_buffered s = map (\<lambda>rec. (sr_sort_key sr rec, encoding sr rec)) buffered"
    "spooled sr (ws_files w) (sl_runs s) (map (sorted_items sr) pieces)" "sl_next_run s = length pieces"
    unfolding spool_inv_def by blast
  have "xs @ [rec] = concat pieces @ (buffered @ [rec])" using pieces(1) by simp
  with assms pieces(2-) show ?thesis
    unfolding spool_inv_def runs_of_def by (intro conjI exI [of _ pieces] exI [of _ "buffered @ [rec]"]) simp_all
qed

lemma spool_push_ready:
  assumes ready: "spool_ready sr s w xs" and rec: "spillable sr rec" and room: "length xs + 1 < 2 ^ 20"
  shows "\<exists>s' w'. spool_push sr rec (s, w) = Inr (s', w') \<and> spool_ready sr s' w' (xs @ [rec])
     \<and> same_spool s s' \<and> touches (sl_root s) (sl_prefix s) w w'"
proof -
  have sr: "modest sr" and inv: "spool_inv sr s w xs" and limit: "sl_chunk_limit s \<le> 2 ^ 62" "sl_buffered_bytes s \<le> sl_chunk_limit s"
    using ready by (auto simp: spool_ready_def spool_inv_def)
  let ?key = "sr_sort_key sr rec"
  let ?bytes = "rc_capacity sr rec + sr_key_bytes sr ?key + length_prefix_bytes + sr_buffered_size sr"
  have small: "?bytes \<le> 2 ^ 35" and caps: "rc_capacity sr rec \<le> 2 ^ 33" "sr_key_bytes sr ?key \<le> 2 ^ 33" "sr_buffered_size sr \<le> 2 ^ 20"
    using rec sr by (simp_all add: spillable_def modest_def length_prefix_bytes_def)
  have fits: "n + ?bytes \<le> max_u64" if "n \<le> 2 ^ 62" for n using small that by (simp add: max_u64_def)
  have total: "Option.bind (add_u64 (rc_capacity sr rec) (sr_key_bytes sr ?key)) (\<lambda>bytes.
                Option.bind (add_u64 bytes length_prefix_bytes) (\<lambda>bytes. add_u64 bytes (sr_buffered_size sr))) = Some ?bytes"
    using caps by (simp add: add_u64_def max_u64_def length_prefix_bytes_def)
  let ?w1 = "w\<lparr>ws_metrics := add_live ?bytes (ws_metrics w)\<rparr>"
  have inv1: "spool_inv sr s ?w1 xs" using inv by (simp add: spool_inv_def)
  have flushed: "\<exists>s1 w2. (if sl_buffered s \<noteq> [] \<and> sl_buffered_bytes s + ?bytes > sl_chunk_limit s then spool_flush s ?w1 else Inr (s, ?w1)) = Inr (s1, w2)
     \<and> spool_inv sr s1 w2 xs \<and> sl_buffered_bytes s1 \<le> sl_chunk_limit s1 \<and> same_spool s s1 \<and> touches (sl_root s) (sl_prefix s) ?w1 w2"
  proof (cases "sl_buffered s \<noteq> [] \<and> sl_buffered_bytes s + ?bytes > sl_chunk_limit s")
    case True
    from spool_flush_inv [OF inv1] room True obtain s1 w2 where "spool_flush s ?w1 = Inr (s1, w2)" "spool_inv sr s1 w2 xs"
      "sl_buffered_bytes s1 = 0" "same_spool s s1" "touches (sl_root s) (sl_prefix s) ?w1 w2" by auto
    with True show ?thesis by simp
  next
    case False
    with inv1 limit(2) show ?thesis by (auto simp: same_spool_def)
  qed
  then obtain s1 w2 where s1: "(if sl_buffered s \<noteq> [] \<and> sl_buffered_bytes s + ?bytes > sl_chunk_limit s then spool_flush s ?w1 else Inr (s, ?w1)) = Inr (s1, w2)"
    "spool_inv sr s1 w2 xs" "sl_buffered_bytes s1 \<le> sl_chunk_limit s1" "same_spool s s1" "touches (sl_root s) (sl_prefix s) ?w1 w2"
    by blast
  have limit1: "sl_buffered_bytes s1 \<le> 2 ^ 62" using s1(2,3) by (simp add: spool_inv_def)
  let ?s2 = "s1\<lparr>sl_buffered := sl_buffered s1 @ [(?key, encoding sr rec)], sl_buffered_bytes := sl_buffered_bytes s1 + ?bytes\<rparr>"
  have inv2: "spool_inv sr ?s2 w2 (xs @ [rec])"
    using limit1 small by (intro spool_buffer_inv [OF s1(2) rec]) simp
  have last: "\<exists>s' w'. (if sl_buffered_bytes ?s2 \<ge> sl_chunk_limit ?s2 then spool_flush ?s2 w2 else Inr (?s2, w2)) = Inr (s', w')
     \<and> spool_ready sr s' w' (xs @ [rec]) \<and> same_spool ?s2 s' \<and> touches (sl_root ?s2) (sl_prefix ?s2) w2 w'"
  proof (cases "sl_buffered_bytes ?s2 \<ge> sl_chunk_limit ?s2")
    case True
    from spool_flush_inv [OF inv2] room show ?thesis using True by (auto simp: spool_ready_def)
  next
    case False
    with inv2 show ?thesis by (auto simp: spool_ready_def same_spool_def)
  qed
  then obtain s' w' where s': "(if sl_buffered_bytes ?s2 \<ge> sl_chunk_limit ?s2 then spool_flush ?s2 w2 else Inr (?s2, w2)) = Inr (s', w')"
    "spool_ready sr s' w' (xs @ [rec])" "same_spool ?s2 s'" "touches (sl_root ?s2) (sl_prefix ?s2) w2 w'" by blast
  have "spool_push sr rec (s, w) = Inr (s', w')"
    using sr limit fits [of "sl_buffered_bytes s"] fits [OF limit1] s1(1) s'(1)
    unfolding spool_push_def
    by (simp add: spillable_encoding [OF rec] total add_u64_def [of "sl_buffered_bytes s"] add_u64_def [of "sl_buffered_bytes s1"] modest_def Let_def)
  moreover have "same_spool s s'" using s1(4) s'(3) by (auto simp: same_spool_def)
  moreover have "touches (sl_root s) (sl_prefix s) w w'"
    using s1(4,5) s'(4) by (auto simp: same_spool_def touches_def)
  ultimately show ?thesis using s'(2) by blast
qed

lemma spool_new_ready:
  assumes "modest sr" and "0 < chunk_limit" and "chunk_limit \<le> 2 ^ 62"
  shows "\<exists>s. spool_new base prefix chunk_limit = Inr s \<and> spool_ready sr s w [] \<and> sl_root s = base \<and> sl_prefix s = prefix"
  using assms by (auto simp: spool_new_def spool_ready_def spool_inv_def runs_of_def intro!: exI [of _ "[]"])

text \<open>A spool survives whatever happens to files that are not its own.\<close>

lemma spool_ready_frame:
  assumes "spool_ready sr s w xs" and "\<And>path n. run_file_of (sl_root s) (sl_prefix s) n path \<Longrightarrow> ws_files w' path = ws_files w path"
  shows "spool_ready sr s w' xs"
proof -
  from assms(1) have "runs_of s (sl_runs s)" by (simp add: spool_ready_def spool_inv_def)
  then have "\<forall>path\<in>set (sl_runs s). ws_files w' path = ws_files w path"
    using assms(2) by (auto simp: runs_of_def list_all_iff)
  then have "spooled sr (ws_files w') (sl_runs s) runs" if "spooled sr (ws_files w) (sl_runs s) runs" for runs
    using spooled_cong [OF that] by blast
  then show ?thesis using assms(1) unfolding spool_ready_def spool_inv_def by blast
qed

lemma run_file_prefix:
  assumes "run_file_of base prefix n path" and "prefix \<noteq> []"
  shows "path ! Suc (length base) = hd prefix"
  using assms by (cases prefix) (auto simp: run_file_of_def run_path_def nth_append)

lemma touches_other:
  assumes "spool_ready sr s w xs" and "touches (sl_root s) prefix w w'" and "prefix \<noteq> []" and "sl_prefix s \<noteq> []"
    and "hd prefix \<noteq> hd (sl_prefix s)"
  shows "spool_ready sr s w' xs"
  using assms(1)
proof (rule spool_ready_frame)
  fix path n assume "run_file_of (sl_root s) (sl_prefix s) n path"
  then have "\<forall>m. \<not> run_file_of (sl_root s) prefix m path"
    using run_file_prefix assms(3-) by metis
  with assms(2) show "ws_files w' path = ws_files w path" by (simp add: touches_def)
qed

text \<open>A stream of the spool with this root and prefix that has the records \<open>xs\<close> left.\<close>

definition stream_yields :: "('a, 'k::linorder) spill_record \<Rightarrow> string \<Rightarrow> string \<Rightarrow> ('a, 'k) sorted_stream \<Rightarrow> 'a list \<Rightarrow> bool" where
  "stream_yields sr base prefix q xs \<longleftrightarrow> stream_inv sr q (map (item_of sr) xs)
     \<and> sq_cleanup_when_exhausted q \<and> (\<forall>path\<in>set (sq_input_paths q). \<exists>n. run_file_of base prefix n path)"

lemma remove_existing_apply: "remove_existing paths files path = (if path \<in> set paths then None else files path)"
  by (induction paths arbitrary: files) (auto simp: remove_existing_def)

lemma stream_next_item:
  assumes "stream_yields sr base prefix q (x # xs)"
  shows "\<exists>q' w'. stream_next sr (q, w) = Inr (Some x, q', w') \<and> stream_yields sr base prefix q' xs
     \<and> ws_files w' = ws_files w"
proof -
  have "stream_inv sr q (item_of sr x # map (item_of sr) xs)" using assms by (simp add: stream_yields_def)
  from next_encoded_item [OF this, of w] show ?thesis
    using assms by (auto simp: stream_next_def stream_yields_def)
qed

lemma stream_next_end:
  assumes "stream_yields sr base prefix q []"
  shows "\<exists>q' w'. stream_next sr (q, w) = Inr (None, q', w') \<and> touches base prefix w w'
     \<and> ws_files w' = remove_existing (sq_input_paths q) (ws_files w)"
proof -
  have "stream_inv sr q []" "sq_cleanup_when_exhausted q" using assms by (simp_all add: stream_yields_def)
  with next_encoded_end [OF this(1), of w] obtain q' w' where step: "next_encoded sr (q, w) = Inr (None, q', w')"
    "ws_files w' = remove_existing (sq_input_paths q) (ws_files w)" by auto
  have "touches base prefix w w'"
    using assms unfolding touches_def step(2) remove_existing_apply stream_yields_def by auto
  with step show ?thesis by (auto simp: stream_next_def)
qed

interpretation sorted: record_source "stream_next sr" "stream_yields sr base prefix" "touches base prefix"
  for sr :: "('a, 'k::linorder) spill_record" and base prefix
proof unfold_locales
  show "\<exists>q' w'. stream_next sr (q, w) = Inr (Some x, q', w') \<and> stream_yields sr base prefix q' xs \<and> touches base prefix w w'"
    if "stream_yields sr base prefix q (x # xs)" for q x xs w
    using stream_next_item [OF that, of w] by auto
  show "\<exists>q' w'. stream_next sr (q, w) = Inr (None, q', w') \<and> touches base prefix w w'"
    if "stream_yields sr base prefix q []" for q w
    using stream_next_end [OF that, of w] by auto
qed

lemma spool_finish_yields:
  assumes ready: "spool_ready sr s w xs" and room: "length xs < 2 ^ 20"
  shows "\<exists>q w'. spool_finish sr s w = Inr (q, w') \<and> stream_yields sr (sl_root s) (sl_prefix s) q (sort_key (sr_sort_key sr) xs)
     \<and> length xs < stream_fuel q \<and> touches (sl_root s) (sl_prefix s) w w'"
proof -
  have inv: "spool_inv sr s w xs" and sr: "modest sr" using ready by (auto simp: spool_ready_def spool_inv_def)
  from spool_flush_inv [OF inv room] obtain s1 w1 where s1: "spool_flush s w = Inr (s1, w1)" "spool_inv sr s1 w1 xs"
    "sl_buffered s1 = []" "same_spool s s1" "touches (sl_root s) (sl_prefix s) w w1" by blast
  from s1(2,3) obtain pieces where pieces: "xs = concat pieces" "[] \<notin> set pieces" "sl_next_run s1 = length pieces"
    "spooled sr (ws_files w1) (sl_runs s1) (map (sorted_items sr) pieces)" and runs: "runs_of s1 (sl_runs s1)"
    unfolding spool_inv_def by auto
  let ?s = "s1\<lparr>sl_runs := []\<rparr>" and ?n = "length (sl_runs s1)"
  have n: "?n = length pieces" "?n \<le> length xs" using spooled_lengths [OF pieces(4)] length_pieces [OF pieces(2)] pieces(1) by auto
  then have "?n \<le> 2 ^ 20" using room by simp
  then have "?n * ?n \<le> 2 ^ 20 * 2 ^ 20" by (intro mult_le_mono)
  then have "sl_next_run ?s + ?n * ?n \<le> max_u64" using n room pieces(3) by (simp add: max_u64_def)
  with merge_runs_spooled [OF sr pieces(4), of ?s ?n] runs obtain paths s' w' runs' where
    merged: "merge_runs sr ?n (sl_runs s1) ?s w1 = Inr (paths, s', w')" "spooled sr (ws_files w') paths runs'"
      "sort_key hi_key (concat runs') = sort_key hi_key (concat (map (sorted_items sr) pieces))"
      "length paths \<le> max_spill_fan_in" "runs_of s' paths" "same_spool ?s s'" "touches (sl_root ?s) (sl_prefix ?s) w1 w'"
    by (auto simp: runs_of_def)
  from stream_open_spooled [OF sr merged(2,4), of True] obtain q w2 where q: "stream_open sr paths True w' = Inr (q, w2)"
    "stream_inv sr q (sort_key hi_key (concat runs'))" "ws_files w2 = ws_files w'" "sq_input_paths q = paths"
    "sq_cleanup_when_exhausted q" "length (concat runs') < stream_fuel q" by blast
  have "concat (map (sorted_items sr) pieces) = concat (map (sort_key hi_key) (map (map (item_of sr)) pieces))"
    by (simp add: sorted_items_alt [abs_def] comp_def)
  then have "sort_key hi_key (concat runs') = sort_key hi_key (map (item_of sr) xs)"
    unfolding merged(3) by (simp only: sort_key_sorted_pieces pieces(1) map_concat)
  then have items: "sort_key hi_key (concat runs') = map (item_of sr) (sort_key (sr_sort_key sr) xs)"
    by (simp add: sort_key_map)
  then have "length (concat runs') = length xs" by (metis length_map length_sort)
  moreover have "sl_root s' = sl_root s" "sl_prefix s' = sl_prefix s" using merged(6) s1(4) by (auto simp: same_spool_def)
  ultimately have "stream_yields sr (sl_root s) (sl_prefix s) q (sort_key (sr_sort_key sr) xs)" "length xs < stream_fuel q"
    using q merged(5) items by (auto simp: stream_yields_def runs_of_def list_all_iff)
  moreover have "touches (sl_root s) (sl_prefix s) w w2"
    using s1(4,5) merged(7) q(3) by (auto simp: touches_def same_spool_def)
  moreover have "spool_finish sr s w = Inr (q, w2)" by (simp add: spool_finish_def s1(1) merged(1) q(1))
  ultimately show ?thesis by blast
qed

lemma spool_push_all:
  assumes "spool_ready sr s w xs" and "list_all (spillable sr) recs" and "length xs + length recs < 2 ^ 20"
  shows "\<exists>s' w'. try_fold (spool_push sr) recs (s, w) = Inr (s', w') \<and> spool_ready sr s' w' (xs @ recs)
     \<and> same_spool s s' \<and> touches (sl_root s) (sl_prefix s) w w'"
  using assms
proof (induction recs arbitrary: s w xs)
  case (Cons rec recs)
  then have "spillable sr rec" "length xs + 1 < 2 ^ 20" by auto
  from spool_push_ready [OF Cons.prems(1) this] obtain s1 w1 where
    step: "spool_push sr rec (s, w) = Inr (s1, w1)" "spool_ready sr s1 w1 (xs @ [rec])" "same_spool s s1"
      "touches (sl_root s) (sl_prefix s) w w1" by blast
  from Cons.IH [OF step(2)] Cons.prems obtain s' w' where
    rest: "try_fold (spool_push sr) recs (s1, w1) = Inr (s', w')" "spool_ready sr s' w' (xs @ rec # recs)" "same_spool s1 s'"
      "touches (sl_root s1) (sl_prefix s1) w1 w'" by auto
  then show ?case using step by (auto simp: same_spool_def intro: touches_trans)
qed (auto simp: same_spool_def)

text \<open>
  C15. The spool is a stable sort outside memory: whatever the chunk limit and however many runs it
  cuts and merges, it accepts the records and its stream hands out exactly the records that were
  pushed, ordered by their sort key, records with equal keys in the order they were pushed. No file
  without the prefix of the spool is touched.
\<close>

theorem spool_sorts:
  assumes "modest sr" and "list_all (spillable sr) records" and "0 < chunk_limit" and "chunk_limit \<le> 2 ^ 62"
    and "length records < 2 ^ 20"
  shows "\<exists>s0 s w q w1 q' w2.
     spool_new base prefix chunk_limit = Inr s0
     \<and> try_fold (spool_push sr) records (s0, w0) = Inr (s, w)
     \<and> spool_finish sr s w = Inr (q, w1)
     \<and> while_some (stream_next sr) (\<lambda>rec (w, seen). Inr (w, seen @ [rec])) (stream_fuel q) (q, w1) [] =
         Inr (q', w2, sort_key (sr_sort_key sr) records)
     \<and> touches base prefix w0 w2"
proof -
  obtain s0 where s0: "spool_new base prefix chunk_limit = Inr s0" "spool_ready sr s0 w0 []" "sl_root s0 = base" "sl_prefix s0 = prefix"
    using spool_new_ready [OF assms(1,3,4)] by blast
  from spool_push_all [OF s0(2) assms(2)] assms(5) obtain s w where
    s: "try_fold (spool_push sr) records (s0, w0) = Inr (s, w)" "spool_ready sr s w records" "same_spool s0 s" "touches base prefix w0 w"
    using s0(3,4) by auto
  then have names: "sl_root s = base" "sl_prefix s = prefix" using s0(3,4) by (auto simp: same_spool_def)
  from spool_finish_yields [OF s(2) assms(5)] obtain q w1 where q: "spool_finish sr s w = Inr (q, w1)"
    "stream_yields sr base prefix q (sort_key (sr_sort_key sr) records)" "length records < stream_fuel q" "touches base prefix w w1"
    unfolding names by blast
  have "spec True (while_some (stream_next sr) (\<lambda>rec (w, seen). Inr (w, seen @ [rec])) (stream_fuel q) (q, w1) [])
     (\<lambda>(q', w2, seen). seen = sort_key (sr_sort_key sr) records \<and> touches base prefix w0 w2)"
    by (rule sorted.while_some_spec [OF q(2), where P = "\<lambda>pre w seen. seen = pre \<and> touches base prefix w0 w"])
      (use q(3,4) s(4) in \<open>auto intro: touches_trans\<close>)
  then show ?thesis using s0(1) s(1) q(1) by (auto simp: spec_True_iff)
qed

definition sample_spill :: "(string, string) spill_record" where
  "sample_spill =
     \<lparr>rc_encode = Inr, rc_capacity = length, sr_decode = Inr, sr_sort_key = take 1, sr_key_bytes = length,
      sr_buffered_size = 48, sr_heap_item_size = 96, sr_reserve = (\<lambda>_. True)\<rparr>"

definition sample_records :: "string list" where
  "sample_records = [''b2'', ''a1'', ''b1'', ''a0'']"

lemma sample_spillable: "modest sample_spill" "list_all (spillable sample_spill) sample_records"
  by (simp_all add: modest_def spillable_def sample_spill_def sample_records_def u32_length_def)

lemma sample_sorted: "sort_key (sr_sort_key sample_spill) sample_records = [''a1'', ''a0'', ''b2'', ''b1'']"
  by code_simp

theorem spool_sorts_witness:
  "modest sample_spill \<and> list_all (spillable sample_spill) sample_records \<and>
   (\<exists>s0 s w q w1 q' w2.
     spool_new ''run'' ''staged'' 60 = Inr s0
     \<and> try_fold (spool_push sample_spill) sample_records (s0, \<lparr>ws_files = Map.empty, ws_metrics = empty_metrics\<rparr>) = Inr (s, w)
     \<and> spool_finish sample_spill s w = Inr (q, w1)
     \<and> while_some (stream_next sample_spill) (\<lambda>rec (w, seen). Inr (w, seen @ [rec])) (stream_fuel q) (q, w1) [] =
         Inr (q', w2, [''a1'', ''a0'', ''b2'', ''b1''])
     \<and> touches ''run'' ''staged'' \<lparr>ws_files = Map.empty, ws_metrics = empty_metrics\<rparr> w2)"
  using spool_sorts [OF sample_spillable, of 60 "''run''" "''staged''" "\<lparr>ws_files = Map.empty, ws_metrics = empty_metrics\<rparr>"]
    sample_spillable
  by (simp add: sample_sorted) (simp add: sample_records_def)

end
