(* ===== verification/StagingSinks.thy ===== *)
theory StagingSinks
  imports StagingRows Spill
begin

text \<open>
  The two sinks of staging (\<^verbatim>\<open>src/staging_writer/accumulator.rs\<close>): \<open>JsonTableSink\<close> writes the rows of
  one table after the other into JSON arrays, \<open>ConnectorSink\<close> the connector rows into CSV files, both
  in files of bounded size, with one COPY statement for each. An open writer is the path and the
  bytes so far; the file appears in the directory when it is finished.

  Both refine one abstract operation, \<open>place\<close>, which adds a row to a list of chunks, and the facts
  about the contents and the sizes of the files are proved once for it.
\<close>

section \<open>JSON tables\<close>

record json_sink =
  js_staging_dir :: string
  js_chunk_limit :: nat
  js_current_table :: "string option"
  js_chunk_index :: nat
  js_writer :: "(string \<times> string) option"
  js_first_row :: bool
  js_current_bytes :: nat
  js_copy_statements :: "string list"
  js_row_count :: nat

definition json_sink_new :: "string \<Rightarrow> nat \<Rightarrow> json_sink" where
  "json_sink_new staging_dir chunk_limit =
     \<lparr>js_staging_dir = staging_dir, js_chunk_limit = chunk_limit, js_current_table = None, js_chunk_index = 0,
      js_writer = None, js_first_row = True, js_current_bytes = 0, js_copy_statements = [], js_row_count = 0\<rparr>"

definition json_close_chunk :: "json_sink \<times> workspace \<Rightarrow> json_sink \<times> workspace" where
  "json_close_chunk = (\<lambda>(j, w).
     case js_writer j of
       Some (path, bytes) \<Rightarrow>
         (j\<lparr>js_writer := None, js_current_bytes := 0\<rparr>,
          w\<lparr>ws_files := (ws_files w)(path \<mapsto> bytes @ '']'' @ [CHR 0x0A])\<rparr>)
     | None \<Rightarrow> (j\<lparr>js_current_bytes := 0\<rparr>, w))"

definition json_copy_statement :: "string \<Rightarrow> string \<Rightarrow> string" where
  "json_copy_statement table path =
     ''COPY `'' @ table @ ''` FROM '' @ [quote_char] @ copy_path path @ [quote_char] @ '';''"

definition json_open_chunk :: "json_sink \<Rightarrow> json_sink result" where
  "json_open_chunk j =
     (case js_current_table j of
        None \<Rightarrow> Inl (InvalidInput ''staging JSON table is not selected'')
      | Some table \<Rightarrow>
          let path = chunked_output_path (js_staging_dir j) (output_file_stem table) ''json'' (js_chunk_index j) in
          Inr (j\<lparr>js_copy_statements := js_copy_statements j @ [json_copy_statement table path],
                 js_writer := Some (path, ''[''), js_first_row := True, js_current_bytes := 1\<rparr>))"

definition json_select_table :: "string \<Rightarrow> json_sink \<times> workspace \<Rightarrow> (json_sink \<times> workspace) result" where
  "json_select_table table = (\<lambda>(j, w).
     if js_current_table j \<noteq> Some table
     then
       let (j1, w1) = json_close_chunk (j, w) in
       try_op (json_open_chunk (j1\<lparr>js_current_table := Some table, js_chunk_index := 0\<rparr>)) (\<lambda>j2. Inr (j2, w1))
     else Inr (j, w))"

definition json_rotate :: "nat \<Rightarrow> json_sink \<times> workspace \<Rightarrow> (json_sink \<times> workspace) result" where
  "json_rotate projected_bytes = (\<lambda>(j, w).
     if \<not> js_first_row j \<and> projected_bytes > js_chunk_limit j
     then
       let (j1, w1) = json_close_chunk (j, w) in
       try_op (or_invalid ''staging JSON chunk index overflow'' (add_u64 (js_chunk_index j1) 1)) (\<lambda>index.
       try_op (json_open_chunk (j1\<lparr>js_chunk_index := index\<rparr>)) (\<lambda>j2. Inr (j2, w1)))
     else Inr (j, w))"

definition json_write_row :: "string \<Rightarrow> json_sink \<Rightarrow> json_sink result" where
  "json_write_row encoded j =
     (case js_writer j of
        None \<Rightarrow> Inl (InvalidInput ''staging JSON writer is not open'')
      | Some (path, bytes) \<Rightarrow>
          try_op (if \<not> js_first_row j
                  then try_op (or_invalid ''staging JSON byte count overflow'' (add_u64 (js_current_bytes j) 1))
                         (\<lambda>current. Inr (bytes @ '','', current))
                  else Inr (bytes, js_current_bytes j)) (\<lambda>(bytes1, current1).
          try_op (or_invalid ''staging JSON byte count overflow'' (add_u64 current1 (length encoded))) (\<lambda>current2.
          try_op (or_invalid ''staging row count overflow'' (add_u64 (js_row_count j) 1)) (\<lambda>row_count.
          Inr (j\<lparr>js_writer := Some (path, bytes1 @ encoded), js_current_bytes := current2, js_first_row := False,
                 js_row_count := row_count\<rparr>)))))"

text \<open>The charge for the encoded row lasts until the end of the function.\<close>

definition json_push ::
  "('a, 'z) row_codec_scheme \<Rightarrow> string \<Rightarrow> 'a \<Rightarrow> json_sink \<times> workspace \<Rightarrow> (json_sink \<times> workspace) result" where
  "json_push codec table row = (\<lambda>(j, w).
     try_op (rc_encode codec row) (\<lambda>encoded.
     let w1 = w\<lparr>ws_metrics := add_live (rc_capacity codec row) (ws_metrics w)\<rparr> in
     try_op (json_select_table table (j, w1)) (\<lambda>(j2, w2).
     let separator_bytes = (if js_first_row j2 then 0 else 1) in
     try_op (or_invalid ''staging JSON size overflow''
               (Option.bind (add_u64 (js_current_bytes j2) separator_bytes) (\<lambda>bytes.
                Option.bind (add_u64 bytes (length encoded)) (\<lambda>bytes. add_u64 bytes 2)))) (\<lambda>projected_bytes.
     try_op (json_rotate projected_bytes (j2, w2)) (\<lambda>(j3, w3).
     try_op (json_write_row encoded j3) (\<lambda>j4.
     Inr (j4, w3\<lparr>ws_metrics := release_live (rc_capacity codec row) (ws_metrics w3)\<rparr>)))))))"

definition json_finish :: "json_sink \<times> workspace \<Rightarrow> string list \<times> nat \<times> workspace" where
  "json_finish jw =
     (let (j, w) = json_close_chunk jw in (js_copy_statements j, js_row_count j, w))"

section \<open>Connectors\<close>

datatype endpoint_side = SourceSide | TargetSide

definition side_str :: "endpoint_side \<Rightarrow> string" where
  "side_str side = (case side of SourceSide \<Rightarrow> ''source'' | TargetSide \<Rightarrow> ''target'')"

instantiation endpoint_side :: linorder
begin

definition less_eq_endpoint_side :: "endpoint_side \<Rightarrow> endpoint_side \<Rightarrow> bool" where
  "less_eq_endpoint_side a b \<longleftrightarrow> a = SourceSide \<or> b = TargetSide"

definition less_endpoint_side :: "endpoint_side \<Rightarrow> endpoint_side \<Rightarrow> bool" where
  "less_endpoint_side a b \<longleftrightarrow> a = SourceSide \<and> b = TargetSide"

instance
  by standard (auto simp: less_eq_endpoint_side_def less_endpoint_side_def intro: endpoint_side.exhaust)

end

record connector_record =
  cr_relation :: string
  cr_side :: endpoint_side
  cr_from_type :: string
  cr_to_type :: string
  cr_from_id :: string
  cr_to_id :: string
  cr_role :: string

type_synonym connector_group = "string \<times> endpoint_side \<times> string \<times> string"

record connector_sink =
  cs_staging_dir :: string
  cs_chunk_limit :: nat
  cs_current_group :: "connector_group option"
  cs_chunk_index :: nat
  cs_writer :: "(string \<times> string) option"
  cs_current_bytes :: nat
  cs_rows_in_chunk :: nat
  cs_copy_statements :: "string list"
  cs_row_count :: nat

definition connector_header :: string where
  "connector_header = ''from_id,to_id,role'' @ [CHR 0x0D, CHR 0x0A]"

definition connector_sink_new :: "string \<Rightarrow> nat \<Rightarrow> connector_sink" where
  "connector_sink_new staging_dir chunk_limit =
     \<lparr>cs_staging_dir = staging_dir, cs_chunk_limit = chunk_limit, cs_current_group = None, cs_chunk_index = 0,
      cs_writer = None, cs_current_bytes = 0, cs_rows_in_chunk = 0, cs_copy_statements = [], cs_row_count = 0\<rparr>"

definition connector_close_chunk :: "connector_sink \<times> workspace \<Rightarrow> connector_sink \<times> workspace" where
  "connector_close_chunk = (\<lambda>(c, w).
     (c\<lparr>cs_writer := None, cs_current_bytes := 0, cs_rows_in_chunk := 0\<rparr>,
      case cs_writer c of
        Some (path, bytes) \<Rightarrow> w\<lparr>ws_files := (ws_files w)(path \<mapsto> bytes)\<rparr>
      | None \<Rightarrow> w))"

definition connector_table :: "connector_group \<Rightarrow> string" where
  "connector_table = (\<lambda>(relation, side, from_type, to_type).
     case side of SourceSide \<Rightarrow> ''FROM_'' @ relation | TargetSide \<Rightarrow> ''TO_'' @ relation)"

definition connector_path :: "string \<Rightarrow> connector_group \<Rightarrow> nat \<Rightarrow> string" where
  "connector_path staging_dir grp index =
     (case grp of (relation, side, from_type, to_type) \<Rightarrow>
        chunked_output_path staging_dir
          (output_file_stem (connector_table grp) @ ''__'' @ output_file_stem from_type @ ''__'' @ output_file_stem to_type)
          ''csv'' index)"

definition connector_copy_statement :: "connector_group \<Rightarrow> string \<Rightarrow> string" where
  "connector_copy_statement grp path =
     (case grp of (relation, side, from_type, to_type) \<Rightarrow>
        ''COPY `'' @ connector_table grp @ ''` FROM '' @ [quote_char] @ copy_path path @ [quote_char]
        @ '' (header=true, from='' @ [quote_char] @ from_type @ [quote_char]
        @ '', to='' @ [quote_char] @ to_type @ [quote_char] @ '');'')"

definition connector_open_chunk :: "connector_sink \<Rightarrow> connector_sink result" where
  "connector_open_chunk c =
     (case cs_current_group c of
        None \<Rightarrow> Inl (InvalidInput ''staging connector group is not selected'')
      | Some grp \<Rightarrow>
          let path = connector_path (cs_staging_dir c) grp (cs_chunk_index c) in
          Inr (c\<lparr>cs_copy_statements := cs_copy_statements c @ [connector_copy_statement grp path],
                 cs_writer := Some (path, connector_header), cs_current_bytes := length connector_header,
                 cs_rows_in_chunk := 0\<rparr>))"

definition connector_line :: "connector_record \<Rightarrow> string" where
  "connector_line r =
     write_csv_field (cr_from_id r) @ '','' @ write_csv_field (cr_to_id r) @ '','' @ write_csv_field (cr_role r)
     @ [CHR 0x0D, CHR 0x0A]"

definition connector_group_of :: "connector_record \<Rightarrow> connector_group" where
  "connector_group_of r = (cr_relation r, cr_side r, cr_from_type r, cr_to_type r)"

definition connector_select :: "connector_group \<Rightarrow> connector_sink \<times> workspace \<Rightarrow> (connector_sink \<times> workspace) result" where
  "connector_select grp = (\<lambda>(c, w).
     if cs_current_group c \<noteq> Some grp
     then
       let (c1, w1) = connector_close_chunk (c, w) in
       try_op (connector_open_chunk (c1\<lparr>cs_current_group := Some grp, cs_chunk_index := 0\<rparr>)) (\<lambda>c2. Inr (c2, w1))
     else Inr (c, w))"

definition connector_rotate :: "nat \<Rightarrow> connector_sink \<times> workspace \<Rightarrow> (connector_sink \<times> workspace) result" where
  "connector_rotate projected_bytes = (\<lambda>(c, w).
     if cs_rows_in_chunk c > 0 \<and> projected_bytes > cs_chunk_limit c
     then
       let (c1, w1) = connector_close_chunk (c, w) in
       try_op (or_invalid ''staging connector chunk index overflow'' (add_u64 (cs_chunk_index c1) 1)) (\<lambda>index.
       try_op (connector_open_chunk (c1\<lparr>cs_chunk_index := index\<rparr>)) (\<lambda>c2. Inr (c2, w1)))
     else Inr (c, w))"

definition connector_write_row :: "string \<Rightarrow> connector_sink \<Rightarrow> connector_sink result" where
  "connector_write_row encoded c =
     (case cs_writer c of
        None \<Rightarrow> Inl (InvalidInput ''staging connector writer is not open'')
      | Some (path, bytes) \<Rightarrow>
          try_op (or_invalid ''staging connector byte count overflow'' (add_u64 (cs_current_bytes c) (length encoded)))
            (\<lambda>current.
          try_op (or_invalid ''staging connector chunk row count overflow'' (add_u64 (cs_rows_in_chunk c) 1)) (\<lambda>rows.
          try_op (or_invalid ''staging connector row count overflow'' (add_u64 (cs_row_count c) 1)) (\<lambda>row_count.
          Inr (c\<lparr>cs_writer := Some (path, bytes @ encoded), cs_current_bytes := current, cs_rows_in_chunk := rows,
                 cs_row_count := row_count\<rparr>)))))"

definition connector_push ::
  "(string \<Rightarrow> nat) \<Rightarrow> connector_record \<Rightarrow> connector_sink \<times> workspace \<Rightarrow> (connector_sink \<times> workspace) result" where
  "connector_push capacity r = (\<lambda>(c, w).
     try_op (connector_select (connector_group_of r) (c, w)) (\<lambda>(c1, w1).
     let encoded = connector_line r;
         w2 = w1\<lparr>ws_metrics := add_live (capacity encoded) (ws_metrics w1)\<rparr>
     in try_op (or_invalid ''staging connector size overflow'' (add_u64 (cs_current_bytes c1) (length encoded)))
          (\<lambda>projected_bytes.
        try_op (connector_rotate projected_bytes (c1, w2)) (\<lambda>(c2, w3).
        try_op (connector_write_row encoded c2) (\<lambda>c3.
        Inr (c3, w3\<lparr>ws_metrics := release_live (capacity encoded) (ws_metrics w3)\<rparr>))))))"

definition connector_finish :: "connector_sink \<times> workspace \<Rightarrow> string list \<times> nat \<times> workspace" where
  "connector_finish cw =
     (let (c, w) = connector_close_chunk cw in (cs_copy_statements c, cs_row_count c, w))"

section \<open>Chunks of rows\<close>

text \<open>
  A chunk is a group, its index within the group and its encoded rows. Its file is a head, the rows
  with separators between them, and a foot.
\<close>

type_synonym 'g chunk = "'g \<times> nat \<times> string list"

record 'g chunk_format =
  cf_path :: "'g \<Rightarrow> nat \<Rightarrow> string"
  cf_head :: string
  cf_separator :: string
  cf_foot :: string
  cf_statement :: "'g \<Rightarrow> string \<Rightarrow> string"

definition open_text :: "'g chunk_format \<Rightarrow> string list \<Rightarrow> string" where
  "open_text fmt rows = cf_head fmt @ join (cf_separator fmt) rows"

definition chunk_text :: "'g chunk_format \<Rightarrow> string list \<Rightarrow> string" where
  "chunk_text fmt rows = open_text fmt rows @ cf_foot fmt"

definition chunk_file :: "'g chunk_format \<Rightarrow> 'g chunk \<Rightarrow> string" where
  "chunk_file fmt = (\<lambda>(grp, index, rows). cf_path fmt grp index)"

lemma chunk_file_simps [simp]: "chunk_file fmt (grp, index, rows) = cf_path fmt grp index"
  by (simp add: chunk_file_def)

definition chunk_statement :: "'g chunk_format \<Rightarrow> 'g chunk \<Rightarrow> string" where
  "chunk_statement fmt = (\<lambda>(grp, index, rows). cf_statement fmt grp (cf_path fmt grp index))"

definition chunk_rows :: "'g chunk \<Rightarrow> ('g \<times> string) list" where
  "chunk_rows = (\<lambda>(grp, index, rows). map (Pair grp) rows)"

text \<open>
  The abstract sink: a row goes into the last chunk when that has the same group and room for it,
  into the next chunk of the group when it has not, and into the first chunk of its group otherwise.
\<close>

definition place :: "'g chunk_format \<Rightarrow> nat \<Rightarrow> 'g \<times> string \<Rightarrow> 'g chunk list \<Rightarrow> 'g chunk list" where
  "place fmt limit = (\<lambda>(grp, row) ks.
     if ks = [] then [(grp, 0, [row])]
     else case last ks of (grp', index, rows) \<Rightarrow>
       if grp' \<noteq> grp then ks @ [(grp, 0, [row])]
       else if length (chunk_text fmt (rows @ [row])) > limit then ks @ [(grp, Suc index, [row])]
       else butlast ks @ [(grp, index, rows @ [row])])"

definition chunked :: "'g chunk_format \<Rightarrow> nat \<Rightarrow> ('g \<times> string) list \<Rightarrow> 'g chunk list" where
  "chunked fmt limit rows = fold (place fmt limit) rows []"

lemma chunked_Nil [simp]: "chunked fmt limit [] = []"
  by (simp add: chunked_def)

lemma chunked_snoc: "chunked fmt limit (rows @ [r]) = place fmt limit r (chunked fmt limit rows)"
  by (simp add: chunked_def)

lemma place_nonempty: "place fmt limit r ks \<noteq> []"
  by (auto simp: place_def split: prod.splits)

text \<open>The chunks hold the rows, all of them and in their order.\<close>

lemma place_rows: "concat (map chunk_rows (place fmt limit r ks)) = concat (map chunk_rows ks) @ [r]"
proof (cases ks rule: rev_cases)
  case (snoc front c)
  then show ?thesis by (cases r; cases c) (auto simp: place_def chunk_rows_def)
qed (cases r, auto simp: place_def chunk_rows_def)

lemma chunked_rows: "concat (map chunk_rows (chunked fmt limit rows)) = rows"
  by (induction rows rule: rev_induct) (simp_all add: chunked_snoc place_rows)

definition chunk_ok :: "'g chunk_format \<Rightarrow> nat \<Rightarrow> 'g chunk \<Rightarrow> bool" where
  "chunk_ok fmt limit = (\<lambda>(grp, index, rows). rows \<noteq> [] \<and> (length (chunk_text fmt rows) \<le> limit \<or> length rows = 1))"

lemma place_ok:
  assumes "list_all (chunk_ok fmt limit) ks"
  shows "list_all (chunk_ok fmt limit) (place fmt limit r ks)"
proof (cases ks rule: rev_cases)
  case (snoc front c)
  with assms show ?thesis by (cases c; cases r) (auto simp: place_def chunk_ok_def)
qed (cases r, auto simp: place_def chunk_ok_def)

lemma chunked_ok: "list_all (chunk_ok fmt limit) (chunked fmt limit rows)"
  by (induction rows rule: rev_induct) (auto simp: chunked_snoc place_ok)

text \<open>
  When the rows come sorted by group, a chunk is determined by its group and its index, and the
  indices of a group count up from 0.
\<close>

definition chunk_name :: "'g chunk \<Rightarrow> 'g \<times> nat" where
  "chunk_name = (\<lambda>(grp, index, rows). (grp, index))"

lemma chunk_name_simps [simp]: "chunk_name (grp, index, rows) = (grp, index)"
  by (simp add: chunk_name_def)

definition names_increase :: "('g::linorder \<times> nat) list \<Rightarrow> bool" where
  "names_increase names \<longleftrightarrow> sorted_wrt (<) names \<and> (\<forall>grp index. (grp, Suc index) \<in> set names \<longrightarrow> (grp, index) \<in> set names)"

lemma names_increase_snoc:
  assumes "names_increase names" and "\<forall>n\<in>set names. n < (grp, index)" and "index = 0 \<or> (grp, index - 1) \<in> set names"
  shows "names_increase (names @ [(grp, index)])"
  unfolding names_increase_def
proof (intro conjI allI impI)
  show "sorted_wrt (<) (names @ [(grp, index)])" using assms(1,2) by (simp add: names_increase_def sorted_wrt_append)
  fix g i assume "(g, Suc i) \<in> set (names @ [(grp, index)])"
  then have "(g, Suc i) \<in> set names \<or> grp = g \<and> index = Suc i" by auto
  then show "(g, i) \<in> set (names @ [(grp, index)])"
  proof
    assume "(g, Suc i) \<in> set names"
    then show ?thesis using assms(1) unfolding names_increase_def by auto
  next
    assume "grp = g \<and> index = Suc i"
    then show ?thesis using assms(3) by auto
  qed
qed

lemma chunk_rows_group: "chunk_ok fmt limit k \<Longrightarrow> fst ` set (chunk_rows k) = {fst (chunk_name k)}"
  by (cases k) (auto simp: chunk_ok_def chunk_rows_def image_iff ex_in_conv)

lemma chunked_groups:
  "set (map fst (map chunk_name (chunked fmt limit rows))) = set (map fst rows)"
proof -
  let ?ks = "chunked fmt limit rows"
  have "set (map fst rows) = set (map fst (concat (map chunk_rows ?ks)))" by (simp only: chunked_rows)
  also have "\<dots> = (\<Union>k\<in>set ?ks. fst ` set (chunk_rows k))" by auto
  also have "\<dots> = (\<Union>k\<in>set ?ks. {fst (chunk_name k)})"
    using chunked_ok [of fmt limit rows] by (intro SUP_cong refl chunk_rows_group) (auto simp: list_all_iff)
  finally show ?thesis by auto
qed

lemma names_increase_place:
  fixes ks :: "'g::linorder chunk list"
  assumes "names_increase (map chunk_name ks)" and "\<forall>g\<in>set (map fst (map chunk_name ks)). g \<le> fst r"
  shows "names_increase (map chunk_name (place fmt limit r ks))"
proof (cases ks rule: rev_cases)
  case Nil
  then show ?thesis by (cases r) (auto simp: place_def names_increase_def)
next
  case (snoc front c)
  obtain grp row where r: "r = (grp, row)" by (cases r)
  obtain grp' index rows where c: "c = (grp', index, rows)" by (cases c)
  have below: "\<forall>n\<in>set (map chunk_name ks). n \<le> (grp', index)"
    using assms(1) by (auto simp: names_increase_def snoc c sorted_wrt_append simp del: less_prod_simp less_eq_prod_simp)
  have member: "(grp', index) \<in> set (map chunk_name ks)" by (simp add: snoc c)
  have le: "grp' \<le> grp" using assms(2) by (simp add: snoc c r)
  consider "grp' \<noteq> grp" | "grp' = grp" "length (chunk_text fmt (rows @ [row])) > limit"
    | "grp' = grp" "\<not> length (chunk_text fmt (rows @ [row])) > limit" by blast
  then show ?thesis
  proof cases
    case 1
    with le have "(grp', index) < (grp, 0)" by simp
    with below have "\<forall>n\<in>set (map chunk_name ks). n < (grp, 0)" by (meson le_less_trans)
    from names_increase_snoc [OF assms(1) this] 1 show ?thesis by (simp add: place_def snoc c r)
  next
    case 2
    then have "(grp', index) < (grp, Suc index)" by simp
    with below have "\<forall>n\<in>set (map chunk_name ks). n < (grp, Suc index)" by (meson le_less_trans)
    from names_increase_snoc [OF assms(1) this] 2 member show ?thesis by (simp add: place_def snoc c r)
  next
    case 3
    then have "map chunk_name (place fmt limit r ks) = map chunk_name ks" by (simp add: place_def snoc c r)
    with assms(1) show ?thesis by simp
  qed
qed

lemma chunked_names:
  fixes rows :: "('g::linorder \<times> string) list"
  assumes "sorted (map fst rows)"
  shows "names_increase (map chunk_name (chunked fmt limit rows))"
  using assms
proof (induction rows rule: rev_induct)
  case Nil
  then show ?case by (simp add: names_increase_def)
next
  case (snoc r rows)
  have "\<forall>g\<in>set (map fst (map chunk_name (chunked fmt limit rows))). g \<le> fst r"
    using snoc.prems unfolding chunked_groups by (simp add: sorted_append)
  with snoc show ?case unfolding chunked_snoc by (intro names_increase_place) (simp_all add: sorted_append)
qed

lemma names_increase_distinct: "names_increase names \<Longrightarrow> distinct names"
  unfolding names_increase_def by (metis strict_sorted_iff)

text \<open>What a sink keeps of its chunks: all but the last are files, the last one is being written.\<close>

definition sink_view ::
  "'g chunk_format \<Rightarrow> 'g chunk list \<Rightarrow> 'g option \<Rightarrow> nat \<Rightarrow> (string \<times> string) option \<Rightarrow> string list \<Rightarrow> nat \<Rightarrow> file_map \<Rightarrow> bool" where
  "sink_view fmt ks current index writer statements row_total files \<longleftrightarrow>
     statements = map (chunk_statement fmt) ks
     \<and> row_total = length (concat (map chunk_rows ks))
     \<and> (if ks = [] then current = None \<and> writer = None
         else case last ks of (grp, i, rows) \<Rightarrow> current = Some grp \<and> index = i \<and> writer = Some (cf_path fmt grp i, open_text fmt rows))
     \<and> (\<forall>(grp, i, rows)\<in>set (butlast ks). files (cf_path fmt grp i) = Some (chunk_text fmt rows))"

text \<open>The numbers stay far from 64 bits.\<close>

definition sink_small :: "'g chunk_format \<Rightarrow> 'g chunk list \<Rightarrow> bool" where
  "sink_small fmt ks \<longleftrightarrow> length (concat (map chunk_rows ks)) < 2 ^ 21
     \<and> (\<forall>(grp, i, rows)\<in>set ks. rows \<noteq> [] \<and> i < 2 ^ 21 \<and> length (open_text fmt rows) \<le> 2 ^ 62 + 2 ^ 35)"

lemma distinct_chunk_files:
  assumes "distinct (map (chunk_file fmt) (front @ [(grp, index, rows)]))" and "(g, i, rs) \<in> set front"
  shows "cf_path fmt g i \<noteq> cf_path fmt grp index"
proof -
  have "cf_path fmt g i \<in> chunk_file fmt ` set front" using assms(2) by (metis chunk_file_simps imageI)
  moreover have "cf_path fmt grp index \<notin> chunk_file fmt ` set front" using assms(1) by simp
  ultimately show ?thesis by metis
qed

lemma join_snoc: "join sep (rows @ [row]) = (if rows = [] then row else join sep rows @ sep @ row)"
  by (induction sep rows rule: join.induct) auto

definition json_format :: "string \<Rightarrow> string chunk_format" where
  "json_format dir =
     \<lparr>cf_path = (\<lambda>table index. chunked_output_path dir (output_file_stem table) ''json'' index), cf_head = ''['',
      cf_separator = '','', cf_foot = '']'' @ [CHR 0x0A], cf_statement = json_copy_statement\<rparr>"

lemma json_format_simps [simp]:
  "cf_path (json_format dir) table index = chunked_output_path dir (output_file_stem table) ''json'' index"
  "cf_head (json_format dir) = ''[''" "cf_separator (json_format dir) = '',''" "cf_foot (json_format dir) = '']'' @ [CHR 0x0A]"
  "cf_statement (json_format dir) = json_copy_statement"
  by (simp_all add: json_format_def)

definition json_inv :: "string \<Rightarrow> nat \<Rightarrow> json_sink \<Rightarrow> workspace \<Rightarrow> string chunk list \<Rightarrow> bool" where
  "json_inv dir limit j w ks \<longleftrightarrow>
     js_staging_dir j = dir \<and> js_chunk_limit j = limit
     \<and> sink_view (json_format dir) ks (js_current_table j) (js_chunk_index j) (js_writer j) (js_copy_statements j)
          (js_row_count j) (ws_files w)
     \<and> (if ks = [] then js_current_bytes j = 0
         else \<not> js_first_row j \<and> js_current_bytes j = length (open_text (json_format dir) (snd (snd (last ks)))))"

lemma json_inv_new: "json_inv dir limit (json_sink_new dir limit) w []"
  by (simp add: json_inv_def json_sink_new_def sink_view_def)

text \<open>A sink only writes the files of its chunks.\<close>

definition writes :: "'g chunk_format \<Rightarrow> 'g chunk list \<Rightarrow> workspace \<Rightarrow> workspace \<Rightarrow> bool" where
  "writes fmt ks w w' \<longleftrightarrow> (\<forall>path. path \<notin> chunk_file fmt ` set ks \<longrightarrow> ws_files w' path = ws_files w path)"

lemma json_write_first:
  assumes "js_writer j = Some (path, bytes)" and "js_first_row j" and "js_current_bytes j + length encoded \<le> max_u64"
    and "js_row_count j < max_u64"
  shows "json_write_row encoded j = Inr (j\<lparr>js_writer := Some (path, bytes @ encoded),
     js_current_bytes := js_current_bytes j + length encoded, js_first_row := False, js_row_count := Suc (js_row_count j)\<rparr>)"
  using assms by (simp add: json_write_row_def add_u64_def)

lemma json_write_next:
  assumes "js_writer j = Some (path, bytes)" and "\<not> js_first_row j" and "js_current_bytes j + 1 + length encoded \<le> max_u64"
    and "js_row_count j < max_u64"
  shows "json_write_row encoded j = Inr (j\<lparr>js_writer := Some (path, bytes @ '','' @ encoded),
     js_current_bytes := js_current_bytes j + 1 + length encoded, js_first_row := False, js_row_count := Suc (js_row_count j)\<rparr>)"
  using assms by (simp add: json_write_row_def add_u64_def)

text \<open>The four cases of a push.\<close>

lemma json_push_place:
  assumes inv: "json_inv dir limit j w ks" and small: "sink_small (json_format dir) ks"
    and names: "distinct (map (chunk_file (json_format dir)) ks)"
    and enc: "rc_encode codec row = Inr encoded" "length encoded \<le> 2 ^ 33"
  shows "\<exists>j' w'. json_push codec table row (j, w) = Inr (j', w')
     \<and> json_inv dir limit j' w' (place (json_format dir) limit (table, encoded) ks) \<and> writes (json_format dir) ks w w'"
proof (cases ks rule: rev_cases)
  case Nil
  then have "js_current_table j = None" "js_writer j = None" "js_row_count j = 0" "js_copy_statements j = []"
    "js_staging_dir j = dir" "js_chunk_limit j = limit"
    using inv by (auto simp: json_inv_def sink_view_def)
  then show ?thesis using enc Nil
    by (simp add: json_push_def json_select_table_def json_close_chunk_def json_open_chunk_def json_rotate_def
        json_write_first Let_def add_u64_def max_u64_def json_inv_def sink_view_def place_def writes_def open_text_def
        chunk_statement_def chunk_rows_def)
next
  case (snoc front c)
  obtain grp index rows where c: "c = (grp, index, rows)" by (cases c)
  let ?fmt = "json_format dir"
  let ?path = "cf_path ?fmt grp index" and ?bytes = "open_text ?fmt rows"
  have ks: "ks \<noteq> []" "last ks = (grp, index, rows)" "butlast ks = front" using snoc c by auto
  have view: "js_current_table j = Some grp" "js_chunk_index j = index" "js_writer j = Some (?path, ?bytes)"
    "js_copy_statements j = map (chunk_statement ?fmt) ks" "js_row_count j = length (concat (map chunk_rows ks))"
    "\<not> js_first_row j" "js_current_bytes j = length ?bytes" "js_staging_dir j = dir" "js_chunk_limit j = limit"
    and front: "\<forall>(grp, i, rows)\<in>set front. ws_files w (cf_path ?fmt grp i) = Some (chunk_text ?fmt rows)"
    using inv ks by (auto simp: json_inv_def sink_view_def)
  have bounds: "length (concat (map chunk_rows ks)) < 2 ^ 21" "rows \<noteq> []" "index < 2 ^ 21" "length ?bytes \<le> 2 ^ 62 + 2 ^ 35"
    using small by (auto simp: sink_small_def snoc c)
  have other: "cf_path ?fmt g i \<noteq> ?path" if "(g, i, rs) \<in> set front" for g i rs
    using distinct_chunk_files [OF names [unfolded snoc c] that] by simp
  have closed: "\<forall>(grp, i, rows)\<in>set ks. ((ws_files w)(?path \<mapsto> chunk_text ?fmt rows')) (cf_path ?fmt grp i) = Some (chunk_text ?fmt rows)"
    if "rows' = rows" for rows'
    using front other that by (auto simp: snoc c)
  have grown: "length (chunk_text ?fmt (rows @ [encoded])) = length ?bytes + 1 + length encoded + 2"
    using bounds(2) by (simp add: chunk_text_def open_text_def join_snoc)
  consider "grp \<noteq> table" | "grp = table" "length (chunk_text ?fmt (rows @ [encoded])) > limit"
    | "grp = table" "\<not> length (chunk_text ?fmt (rows @ [encoded])) > limit" by blast
  then show ?thesis
  proof cases
    case 1
    let ?w = "w\<lparr>ws_files := (ws_files w)(?path \<mapsto> chunk_text ?fmt rows),
        ws_metrics := release_live (rc_capacity codec row) (add_live (rc_capacity codec row) (ws_metrics w))\<rparr>"
    let ?j = "j\<lparr>js_writer := Some (cf_path ?fmt table 0, ''['' @ encoded), js_current_bytes := 1 + length encoded,
        js_current_table := Some table, js_chunk_index := 0, js_first_row := False,
        js_copy_statements := js_copy_statements j @ [json_copy_statement table (cf_path ?fmt table 0)],
        js_row_count := Suc (js_row_count j)\<rparr>"
    have "json_push codec table row (j, w) = Inr (?j, ?w)"
      using 1 view enc bounds
      by (simp add: json_push_def json_select_table_def json_close_chunk_def json_open_chunk_def json_rotate_def
          json_write_first Let_def add_u64_def max_u64_def chunk_text_def)
    moreover have "place ?fmt limit (table, encoded) ks = ks @ [(table, 0, [encoded])]"
      using 1 ks by (simp add: place_def)
    moreover have "json_inv dir limit ?j ?w (ks @ [(table, 0, [encoded])])"
      using view closed by (simp add: json_inv_def sink_view_def open_text_def chunk_statement_def chunk_rows_def)
    moreover have "writes ?fmt ks w ?w" by (auto simp: writes_def snoc c chunk_file_def)
    ultimately show ?thesis by metis
  next
    case 2
    let ?w = "w\<lparr>ws_files := (ws_files w)(?path \<mapsto> chunk_text ?fmt rows),
        ws_metrics := release_live (rc_capacity codec row) (add_live (rc_capacity codec row) (ws_metrics w))\<rparr>"
    let ?j = "j\<lparr>js_writer := Some (cf_path ?fmt table (Suc index), ''['' @ encoded), js_current_bytes := 1 + length encoded,
        js_chunk_index := Suc index, js_first_row := False,
        js_copy_statements := js_copy_statements j @ [json_copy_statement table (cf_path ?fmt table (Suc index))],
        js_row_count := Suc (js_row_count j)\<rparr>"
    have "json_push codec table row (j, w) = Inr (?j, ?w)"
      using 2 view enc bounds grown
      by (simp add: json_push_def json_select_table_def json_close_chunk_def json_open_chunk_def json_rotate_def
          json_write_first Let_def add_u64_def max_u64_def chunk_text_def)
    moreover have "place ?fmt limit (table, encoded) ks = ks @ [(table, Suc index, [encoded])]"
      using 2 ks by (simp add: place_def)
    moreover have "json_inv dir limit ?j ?w (ks @ [(table, Suc index, [encoded])])"
      using 2 view closed by (simp add: json_inv_def sink_view_def open_text_def chunk_statement_def chunk_rows_def)
    moreover have "writes ?fmt ks w ?w" by (auto simp: writes_def snoc c chunk_file_def)
    ultimately show ?thesis by metis
  next
    case 3
    let ?w = "w\<lparr>ws_metrics := release_live (rc_capacity codec row) (add_live (rc_capacity codec row) (ws_metrics w))\<rparr>"
    let ?j = "j\<lparr>js_writer := Some (?path, ?bytes @ '','' @ encoded), js_current_bytes := length ?bytes + 1 + length encoded,
        js_first_row := False, js_row_count := Suc (js_row_count j)\<rparr>"
    have "json_push codec table row (j, w) = Inr (?j, ?w)"
      using 3 view enc bounds grown
      by (simp add: json_push_def json_select_table_def json_rotate_def json_write_next Let_def add_u64_def max_u64_def)
    moreover have "place ?fmt limit (table, encoded) ks = front @ [(table, index, rows @ [encoded])]"
      using 3 ks by (simp add: place_def)
    moreover have "json_inv dir limit ?j ?w (front @ [(table, index, rows @ [encoded])])"
      using 3 view front bounds(2)
      by (simp add: json_inv_def sink_view_def open_text_def chunk_statement_def chunk_rows_def join_snoc snoc c)
    moreover have "writes ?fmt ks w ?w" by (simp add: writes_def)
    ultimately show ?thesis by metis
  qed
qed

lemma json_finish_inv:
  assumes inv: "json_inv dir limit j w ks" and names: "distinct (map (chunk_file (json_format dir)) ks)"
  shows "\<exists>w'. json_finish (j, w) = (map (chunk_statement (json_format dir)) ks, length (concat (map chunk_rows ks)), w')
     \<and> (\<forall>(grp, i, rows)\<in>set ks. ws_files w' (cf_path (json_format dir) grp i) = Some (chunk_text (json_format dir) rows))
     \<and> writes (json_format dir) ks w w'"
proof (cases ks rule: rev_cases)
  case Nil
  with inv show ?thesis by (auto simp: json_inv_def sink_view_def json_finish_def json_close_chunk_def writes_def)
next
  case (snoc front c)
  obtain grp index rows where c: "c = (grp, index, rows)" by (cases c)
  let ?fmt = "json_format dir"
  let ?path = "cf_path ?fmt grp index"
  have other: "cf_path ?fmt g i \<noteq> ?path" if "(g, i, rs) \<in> set front" for g i rs
    using distinct_chunk_files [OF names [unfolded snoc c] that] by simp
  have "js_writer j = Some (?path, open_text ?fmt rows)" "js_copy_statements j = map (chunk_statement ?fmt) ks"
    "js_row_count j = length (concat (map chunk_rows ks))"
    and front: "\<forall>(grp, i, rows)\<in>set front. ws_files w (cf_path ?fmt grp i) = Some (chunk_text ?fmt rows)"
    using inv by (auto simp: json_inv_def sink_view_def snoc c)
  then have "json_finish (j, w) = (map (chunk_statement ?fmt) ks, length (concat (map chunk_rows ks)),
      w\<lparr>ws_files := (ws_files w)(?path \<mapsto> chunk_text ?fmt rows)\<rparr>)"
    by (simp add: json_finish_def json_close_chunk_def chunk_text_def)
  then show ?thesis using front other by (auto simp: writes_def snoc c)
qed

section \<open>Facts: connectors\<close>

definition connector_format :: "string \<Rightarrow> connector_group chunk_format" where
  "connector_format dir =
     \<lparr>cf_path = connector_path dir, cf_head = connector_header, cf_separator = [], cf_foot = [],
      cf_statement = connector_copy_statement\<rparr>"

lemma connector_format_simps [simp]:
  "cf_path (connector_format dir) = connector_path dir" "cf_head (connector_format dir) = connector_header"
  "cf_separator (connector_format dir) = []" "cf_foot (connector_format dir) = []"
  "cf_statement (connector_format dir) = connector_copy_statement"
  by (simp_all add: connector_format_def)

definition connector_inv :: "string \<Rightarrow> nat \<Rightarrow> connector_sink \<Rightarrow> workspace \<Rightarrow> connector_group chunk list \<Rightarrow> bool" where
  "connector_inv dir limit c w ks \<longleftrightarrow>
     cs_staging_dir c = dir \<and> cs_chunk_limit c = limit
     \<and> sink_view (connector_format dir) ks (cs_current_group c) (cs_chunk_index c) (cs_writer c) (cs_copy_statements c)
          (cs_row_count c) (ws_files w)
     \<and> (ks \<noteq> [] \<longrightarrow> cs_rows_in_chunk c = length (snd (snd (last ks)))
          \<and> cs_current_bytes c = length (open_text (connector_format dir) (snd (snd (last ks)))))"

lemma connector_inv_new: "connector_inv dir limit (connector_sink_new dir limit) w []"
  by (simp add: connector_inv_def connector_sink_new_def sink_view_def)

lemma join_Nil_snoc: "join [] (rows @ [row]) = join [] rows @ row"
  by (simp add: join_snoc)

lemma connector_push_place:
  assumes inv: "connector_inv dir limit s w ks" and small: "sink_small (connector_format dir) ks"
    and names: "distinct (map (chunk_file (connector_format dir)) ks)" and enc: "length (connector_line r) \<le> 2 ^ 35"
  shows "\<exists>s' w'. connector_push capacity r (s, w) = Inr (s', w')
     \<and> connector_inv dir limit s' w' (place (connector_format dir) limit (connector_group_of r, connector_line r) ks)
     \<and> writes (connector_format dir) ks w w'"
proof (cases ks rule: rev_cases)
  case Nil
  then have "cs_current_group s = None" "cs_writer s = None" "cs_row_count s = 0" "cs_copy_statements s = []"
    "cs_staging_dir s = dir" "cs_chunk_limit s = limit"
    using inv by (auto simp: connector_inv_def sink_view_def)
  then show ?thesis using enc Nil
    by (simp add: connector_push_def connector_select_def connector_close_chunk_def connector_open_chunk_def connector_rotate_def
        connector_write_row_def Let_def add_u64_def max_u64_def connector_inv_def sink_view_def place_def writes_def open_text_def
        chunk_statement_def chunk_rows_def connector_header_def)
next
  case (snoc front c)
  obtain grp index rows where c: "c = (grp, index, rows)" by (cases c)
  let ?fmt = "connector_format dir" and ?grp = "connector_group_of r" and ?row = "connector_line r"
  let ?path = "connector_path dir grp index" and ?bytes = "open_text ?fmt rows"
  let ?m = "release_live (capacity ?row) (add_live (capacity ?row) (ws_metrics w))"
  have ks: "ks \<noteq> []" "last ks = (grp, index, rows)" "butlast ks = front" using snoc c by auto
  have view: "cs_current_group s = Some grp" "cs_chunk_index s = index" "cs_writer s = Some (?path, ?bytes)"
    "cs_copy_statements s = map (chunk_statement ?fmt) ks" "cs_row_count s = length (concat (map chunk_rows ks))"
    "cs_rows_in_chunk s = length rows" "cs_current_bytes s = length ?bytes" "cs_staging_dir s = dir" "cs_chunk_limit s = limit"
    and front: "\<forall>(grp, i, rows)\<in>set front. ws_files w (connector_path dir grp i) = Some (chunk_text ?fmt rows)"
    using inv ks by (auto simp: connector_inv_def sink_view_def)
  have bounds: "length (concat (map chunk_rows ks)) < 2 ^ 21" "rows \<noteq> []" "index < 2 ^ 21" "length ?bytes \<le> 2 ^ 62 + 2 ^ 35"
    using small by (auto simp: sink_small_def snoc c)
  have "length rows \<le> length (concat (map chunk_rows ks))" by (simp add: snoc c chunk_rows_def)
  with bounds(1) have few: "length rows < 2 ^ 21" by (rule le_less_trans [rotated])
  have other: "connector_path dir g i \<noteq> ?path" if "(g, i, rs) \<in> set front" for g i rs
    using distinct_chunk_files [OF names [unfolded snoc c] that] by simp
  have closed: "\<forall>(grp, i, rows)\<in>set ks. ((ws_files w)(?path \<mapsto> ?bytes)) (connector_path dir grp i) = Some (chunk_text ?fmt rows)"
    using front other by (auto simp: snoc c chunk_text_def)
  have grown: "length (chunk_text ?fmt (rows @ [?row])) = length ?bytes + length ?row"
    by (simp add: chunk_text_def open_text_def join_Nil_snoc)
  consider "grp \<noteq> ?grp" | "grp = ?grp" "length (chunk_text ?fmt (rows @ [?row])) > limit"
    | "grp = ?grp" "\<not> length (chunk_text ?fmt (rows @ [?row])) > limit" by blast
  then show ?thesis
  proof cases
    case 1
    let ?w = "w\<lparr>ws_files := (ws_files w)(?path \<mapsto> ?bytes), ws_metrics := ?m\<rparr>"
    let ?s = "s\<lparr>cs_writer := Some (connector_path dir ?grp 0, connector_header @ ?row),
        cs_current_bytes := length connector_header + length ?row, cs_rows_in_chunk := 1,
        cs_current_group := Some ?grp, cs_chunk_index := 0,
        cs_copy_statements := cs_copy_statements s @ [connector_copy_statement ?grp (connector_path dir ?grp 0)],
        cs_row_count := Suc (cs_row_count s)\<rparr>"
    have "connector_push capacity r (s, w) = Inr (?s, ?w)"
      using 1 view enc bounds
      by (simp add: connector_push_def connector_select_def connector_close_chunk_def connector_open_chunk_def
          connector_rotate_def connector_write_row_def Let_def add_u64_def max_u64_def connector_header_def)
    moreover have "place ?fmt limit (?grp, ?row) ks = ks @ [(?grp, 0, [?row])]" using 1 ks by (simp add: place_def)
    moreover have "connector_inv dir limit ?s ?w (ks @ [(?grp, 0, [?row])])"
      using view closed by (simp add: connector_inv_def sink_view_def open_text_def chunk_statement_def chunk_rows_def)
    moreover have "writes ?fmt ks w ?w" by (auto simp: writes_def snoc c)
    ultimately show ?thesis by metis
  next
    case 2
    let ?w = "w\<lparr>ws_files := (ws_files w)(?path \<mapsto> ?bytes), ws_metrics := ?m\<rparr>"
    let ?s = "s\<lparr>cs_writer := Some (connector_path dir ?grp (Suc index), connector_header @ ?row),
        cs_current_bytes := length connector_header + length ?row, cs_rows_in_chunk := 1, cs_chunk_index := Suc index,
        cs_copy_statements := cs_copy_statements s @ [connector_copy_statement ?grp (connector_path dir ?grp (Suc index))],
        cs_row_count := Suc (cs_row_count s)\<rparr>"
    have "connector_push capacity r (s, w) = Inr (?s, ?w)"
      using 2 view enc bounds grown
      by (simp add: connector_push_def connector_select_def connector_close_chunk_def connector_open_chunk_def
          connector_rotate_def connector_write_row_def Let_def add_u64_def max_u64_def connector_header_def)
    moreover have "place ?fmt limit (?grp, ?row) ks = ks @ [(?grp, Suc index, [?row])]" using 2 ks by (simp add: place_def)
    moreover have "connector_inv dir limit ?s ?w (ks @ [(?grp, Suc index, [?row])])"
      using 2 view closed by (simp add: connector_inv_def sink_view_def open_text_def chunk_statement_def chunk_rows_def)
    moreover have "writes ?fmt ks w ?w" by (auto simp: writes_def snoc c)
    ultimately show ?thesis by metis
  next
    case 3
    let ?s = "s\<lparr>cs_writer := Some (?path, ?bytes @ ?row), cs_current_bytes := length ?bytes + length ?row,
        cs_rows_in_chunk := Suc (length rows), cs_row_count := Suc (cs_row_count s)\<rparr>"
    have "connector_push capacity r (s, w) = Inr (?s, w\<lparr>ws_metrics := ?m\<rparr>)"
      using 3 view enc bounds grown few
      by (simp add: connector_push_def connector_select_def connector_rotate_def connector_write_row_def Let_def add_u64_def max_u64_def)
    moreover have "place ?fmt limit (?grp, ?row) ks = front @ [(?grp, index, rows @ [?row])]" using 3 ks by (simp add: place_def)
    moreover have "connector_inv dir limit ?s (w\<lparr>ws_metrics := ?m\<rparr>) (front @ [(?grp, index, rows @ [?row])])"
      using 3 view front
      by (simp add: connector_inv_def sink_view_def open_text_def chunk_statement_def chunk_rows_def join_Nil_snoc snoc c)
    moreover have "writes ?fmt ks w (w\<lparr>ws_metrics := ?m\<rparr>)" by (simp add: writes_def)
    ultimately show ?thesis by metis
  qed
qed

lemma connector_finish_inv:
  assumes inv: "connector_inv dir limit s w ks" and names: "distinct (map (chunk_file (connector_format dir)) ks)"
  shows "\<exists>w'. connector_finish (s, w) = (map (chunk_statement (connector_format dir)) ks, length (concat (map chunk_rows ks)), w')
     \<and> (\<forall>(grp, i, rows)\<in>set ks. ws_files w' (connector_path dir grp i) = Some (chunk_text (connector_format dir) rows))
     \<and> writes (connector_format dir) ks w w'"
proof (cases ks rule: rev_cases)
  case Nil
  with inv show ?thesis by (auto simp: connector_inv_def sink_view_def connector_finish_def connector_close_chunk_def writes_def)
next
  case (snoc front c)
  obtain grp index rows where c: "c = (grp, index, rows)" by (cases c)
  let ?fmt = "connector_format dir"
  let ?path = "connector_path dir grp index"
  have other: "connector_path dir g i \<noteq> ?path" if "(g, i, rs) \<in> set front" for g i rs
    using distinct_chunk_files [OF names [unfolded snoc c] that] by simp
  have "cs_writer s = Some (?path, open_text ?fmt rows)" "cs_copy_statements s = map (chunk_statement ?fmt) ks"
    "cs_row_count s = length (concat (map chunk_rows ks))"
    and front: "\<forall>(grp, i, rows)\<in>set front. ws_files w (connector_path dir grp i) = Some (chunk_text ?fmt rows)"
    using inv by (auto simp: connector_inv_def sink_view_def snoc c)
  then have "connector_finish (s, w) = (map (chunk_statement ?fmt) ks, length (concat (map chunk_rows ks)),
      w\<lparr>ws_files := (ws_files w)(?path \<mapsto> chunk_text ?fmt rows)\<rparr>)"
    by (simp add: connector_finish_def connector_close_chunk_def chunk_text_def)
  then show ?thesis using front other by (auto simp: writes_def snoc c)
qed

section \<open>Facts: sizes and names\<close>

lemma place_index:
  assumes "\<forall>(grp, i, rows)\<in>set ks. i < length ks"
  shows "\<forall>(grp, i, rows)\<in>set (place fmt limit r ks). i < length (place fmt limit r ks)"
proof (cases ks rule: rev_cases)
  case (snoc front c)
  then show ?thesis using assms by (cases r; cases c) (fastforce simp: place_def less_Suc_eq)
qed (cases r, auto simp: place_def)

lemma chunked_index: "\<forall>(grp, i, rows)\<in>set (chunked fmt limit rs). i < length (chunked fmt limit rs)"
proof (induction rs rule: rev_induct)
  case (snoc r rs)
  then show ?case unfolding chunked_snoc by (rule place_index)
qed simp

lemma chunked_length: "length (chunked fmt limit rs) \<le> length rs"
proof (induction rs rule: rev_induct)
  case (snoc r rs)
  have "length (place fmt limit r ks) \<le> Suc (length ks)" for ks :: "'a chunk list"
    by (cases ks rule: rev_cases; cases r) (auto simp: place_def split: prod.splits)
  with snoc show ?case unfolding chunked_snoc by (metis Suc_le_mono le_trans length_append_singleton)
qed simp

lemma chunked_small:
  assumes "length rs < 2 ^ 21" and "\<forall>(grp, row)\<in>set rs. length row \<le> 2 ^ 34" and "limit \<le> 2 ^ 62"
    and "length (cf_head fmt) \<le> 2 ^ 10"
  shows "sink_small fmt (chunked fmt limit rs)"
proof -
  let ?ks = "chunked fmt limit rs"
  have "rows \<noteq> [] \<and> i < 2 ^ 21 \<and> length (open_text fmt rows) \<le> 2 ^ 62 + 2 ^ 35" if k: "(grp, i, rows) \<in> set ?ks" for grp i rows
  proof -
    have "chunk_ok fmt limit (grp, i, rows)" using k chunked_ok [of fmt limit rs] by (auto simp: list_all_iff)
    then have ok: "rows \<noteq> []" "length (chunk_text fmt rows) \<le> limit \<or> length rows = 1" by (auto simp: chunk_ok_def)
    have i: "i < length ?ks" using k chunked_index [of fmt limit rs] by auto
    have "length ?ks < 2 ^ 21" using chunked_length [of fmt limit rs] assms(1) by simp
    with i have "i < 2 ^ 21" by (rule less_trans)
    moreover have "length (open_text fmt rows) \<le> 2 ^ 62 + 2 ^ 35"
    proof (cases "length rows = 1")
      case True
      then obtain row where row: "rows = [row]" by (auto simp: length_Suc_conv)
      have "(grp, row) \<in> set (concat (map chunk_rows ?ks))" using k row by (force simp: chunk_rows_def)
      then have "(grp, row) \<in> set rs" by (simp only: chunked_rows)
      with assms(2) have "length row \<le> 2 ^ 34" by auto
      with assms(4) show ?thesis by (simp add: row open_text_def)
    next
      case False
      with ok(2) assms(3) show ?thesis by (simp add: chunk_text_def)
    qed
    ultimately show ?thesis using ok(1) by blast
  qed
  then show ?thesis unfolding sink_small_def using assms(1) by (auto simp: chunked_rows simp del: length_concat)
qed

text \<open>
  Tables and relations of the schema are words of ASCII letters and digits. The file of a chunk then
  tells its group and its index, up to the case of the letters.
\<close>

definition plain_name :: "string \<Rightarrow> bool" where
  "plain_name name \<longleftrightarrow> name \<noteq> [] \<and> list_all ascii_alphanumeric name"

definition lower_name :: "string \<Rightarrow> string" where
  "lower_name name = map ascii_lower name"

lemma not_alnum: "\<not> ascii_alphanumeric (CHR ''.'')" "\<not> ascii_alphanumeric (CHR ''_'')" "\<not> ascii_alphanumeric (CHR ''/'')"
  by code_simp+

lemma alphanumeric_ascii:
  assumes "ascii_alphanumeric b"
  shows "\<not> is_continuation b" "ascii_alphanumeric (ascii_lower b)" "b \<noteq> CHR ''_''" "ascii_lower b \<noteq> CHR ''_''"
proof -
  show "\<not> is_continuation b" "ascii_alphanumeric (ascii_lower b)"
    using assms by (auto simp: ascii_alphanumeric_def ascii_upper_letter_def ascii_lower_letter_def ascii_digit_def
        is_continuation_def ascii_lower_def)
  then show "b \<noteq> CHR ''_''" "ascii_lower b \<noteq> CHR ''_''" using assms not_alnum by metis+
qed

lemma chars_ascii: "list_all (\<lambda>b. \<not> is_continuation b) s \<Longrightarrow> chars s = map (\<lambda>b. [b]) s"
proof (induction s)
  case (Cons b s)
  then have "takeWhile is_continuation s = []" "dropWhile is_continuation s = s" by (cases s; simp)+
  with Cons show ?case by simp
qed simp

lemma dropWhile_hd: "s = [] \<or> hd s \<noteq> c \<Longrightarrow> dropWhile (\<lambda>b. b = c) s = s"
  by (cases s) auto

lemma output_file_stem_plain:
  assumes "plain_name name"
  shows "output_file_stem name = lower_name name"
proof -
  have alnum: "list_all ascii_alphanumeric name" "name \<noteq> []" using assms by (auto simp: plain_name_def)
  then have "chars name = map (\<lambda>b. [b]) name" by (intro chars_ascii) (auto simp: list_all_iff alphanumeric_ascii)
  moreover have "concat (map (\<lambda>b. if ascii_alphanumeric b then [ascii_lower b] else ''_'') name) = lower_name name"
    using alnum(1) by (induction name) (auto simp: lower_name_def)
  ultimately have low: "concat (map (\<lambda>c. case c of [b] \<Rightarrow> if ascii_alphanumeric b then [ascii_lower b] else ''_'' | _ \<Rightarrow> ''_'') (chars name)) =
      lower_name name" by (simp add: comp_def)
  have "hd (lower_name name) \<noteq> CHR ''_''" "last (lower_name name) \<noteq> CHR ''_''" "lower_name name \<noteq> []"
    using alnum by (auto simp: lower_name_def hd_map last_map list_all_iff alphanumeric_ascii)
  then have "trim_matches_char (CHR ''_'') (lower_name name) = lower_name name"
    by (simp add: trim_matches_char_def dropWhile_hd hd_rev)
  with low \<open>lower_name name \<noteq> []\<close> show ?thesis by (simp add: output_file_stem_def)
qed

lemma alnum_prefix_eq:
  assumes "list_all ascii_alphanumeric xs" and "list_all ascii_alphanumeric ys" and "xs @ u = ys @ v"
    and "u \<noteq> []" and "v \<noteq> []" and "\<not> ascii_alphanumeric (hd u)" and "\<not> ascii_alphanumeric (hd v)"
  shows "xs = ys \<and> u = v"
proof -
  have "takeWhile ascii_alphanumeric (xs @ u) = xs" "takeWhile ascii_alphanumeric (ys @ v) = ys"
    using assms(1,2,4-) by (simp_all add: list_all_iff takeWhile_append takeWhile_eq_Nil_iff)
  with assms(3) show ?thesis by simp
qed

lemma lower_name_alnum: "plain_name name \<Longrightarrow> list_all ascii_alphanumeric (lower_name name)"
  by (auto simp: plain_name_def lower_name_def list_all_iff alphanumeric_ascii)

definition chunk_suffix :: "string \<Rightarrow> nat \<Rightarrow> string" where
  "chunk_suffix extension index = (if index = 0 then ''.'' @ extension else ''__'' @ zero_padded 6 index @ ''.'' @ extension)"

lemma chunked_output_path_suffix: "chunked_output_path base stem extension index = base @ ''/'' @ stem @ chunk_suffix extension index"
  by (simp add: chunked_output_path_def chunk_suffix_def)

lemma chunk_suffix_head: "chunk_suffix extension index \<noteq> []" "\<not> ascii_alphanumeric (hd (chunk_suffix extension index))"
  by (auto simp: chunk_suffix_def not_alnum)

lemma chunk_suffix_inject: "chunk_suffix extension i = chunk_suffix extension j \<Longrightarrow> i = j"
  by (auto simp: chunk_suffix_def split: if_splits)

lemma json_path_inject:
  assumes "plain_name t" and "plain_name t'"
    and "cf_path (json_format dir) t i = cf_path (json_format dir) t' i'"
  shows "lower_name t = lower_name t' \<and> i = i'"
proof -
  have "lower_name t @ chunk_suffix ''json'' i = lower_name t' @ chunk_suffix ''json'' i'"
    using assms by (simp add: chunked_output_path_suffix output_file_stem_plain)
  from alnum_prefix_eq [OF lower_name_alnum [OF assms(1)] lower_name_alnum [OF assms(2)] this] chunk_suffix_head chunk_suffix_inject
  show ?thesis by blast
qed

definition side_word :: "endpoint_side \<Rightarrow> string" where
  "side_word side = (case side of SourceSide \<Rightarrow> ''from'' | TargetSide \<Rightarrow> ''to'')"

definition plain_group :: "connector_group \<Rightarrow> bool" where
  "plain_group = (\<lambda>(relation, side, from_type, to_type). plain_name relation \<and> plain_name from_type \<and> plain_name to_type)"

lemma side_word_alnum: "list_all ascii_alphanumeric (side_word side)"
  by (cases side) (simp_all add: side_word_def, code_simp+)

lemma ascii_lower_letters: "map ascii_lower ''FROM_'' = ''from_''" "map ascii_lower ''TO_'' = ''to_''"
  by code_simp+

lemma connector_stem:
  assumes "plain_name relation"
  shows "output_file_stem (connector_table (relation, side, from_type, to_type)) = side_word side @ ''_'' @ lower_name relation"
proof -
  let ?word = "case side of SourceSide \<Rightarrow> ''FROM'' | TargetSide \<Rightarrow> ''TO''"
  let ?name = "?word @ ''_'' @ relation"
  have rel: "list_all ascii_alphanumeric relation" "relation \<noteq> []" using assms by (auto simp: plain_name_def)
  have word: "list_all ascii_alphanumeric ?word" "map ascii_lower ?word = side_word side"
    by (cases side; simp add: side_word_def; code_simp)+
  have "\<not> is_continuation (CHR ''_'')" by code_simp
  then have "list_all (\<lambda>b. \<not> is_continuation b) ?name" using rel word(1) by (auto simp: list_all_iff alphanumeric_ascii)
  then have "chars ?name = map (\<lambda>b. [b]) ?name" by (rule chars_ascii)
  moreover have low: "concat (map (\<lambda>b. if ascii_alphanumeric b then [ascii_lower b] else ''_'') xs) = map ascii_lower xs"
    if "list_all ascii_alphanumeric xs" for xs
    using that by (induction xs) auto
  ultimately have stem: "concat (map (\<lambda>c. case c of [b] \<Rightarrow> if ascii_alphanumeric b then [ascii_lower b] else ''_'' | _ \<Rightarrow> ''_'') (chars ?name)) =
      side_word side @ ''_'' @ lower_name relation"
    using low [OF word(1)] low [OF rel(1)] word(2) by (simp add: comp_def not_alnum lower_name_def)
  have "hd (side_word side) \<noteq> CHR ''_''" "side_word side \<noteq> []" by (cases side; simp add: side_word_def)+
  moreover have "last (lower_name relation) \<noteq> CHR ''_''" "lower_name relation \<noteq> []"
    using rel by (auto simp: lower_name_def last_map list_all_iff alphanumeric_ascii)
  ultimately have "trim_matches_char (CHR ''_'') (side_word side @ ''_'' @ lower_name relation) = side_word side @ ''_'' @ lower_name relation"
    by (simp add: trim_matches_char_def dropWhile_hd hd_append hd_rev)
  moreover have "connector_table (relation, side, from_type, to_type) = ?name" by (cases side) (simp_all add: connector_table_def)
  ultimately show ?thesis using stem by (simp add: output_file_stem_def)
qed

lemma connector_path_plain:
  assumes "plain_group (relation, side, from_type, to_type)"
  shows "connector_path dir (relation, side, from_type, to_type) i =
     dir @ ''/'' @ side_word side @ ''_'' @ lower_name relation @ ''__'' @ lower_name from_type @ ''__'' @ lower_name to_type @ chunk_suffix ''csv'' i"
  using assms by (simp add: connector_path_def connector_stem output_file_stem_plain plain_group_def chunked_output_path_suffix)

definition lower_group :: "connector_group \<Rightarrow> connector_group" where
  "lower_group = (\<lambda>(relation, side, from_type, to_type). (lower_name relation, side, lower_name from_type, lower_name to_type))"

lemma connector_path_inject:
  assumes "plain_group g" and "plain_group g'" and "connector_path dir g i = connector_path dir g' i'"
  shows "lower_group g = lower_group g' \<and> i = i'"
proof -
  obtain r s f t where g: "g = (r, s, f, t)" by (cases g)
  obtain r' s' f' t' where g': "g' = (r', s', f', t')" by (cases g')
  note plain = assms(1) [unfolded g] assms(2) [unfolded g']
  have alnum: "list_all ascii_alphanumeric (lower_name r)" "list_all ascii_alphanumeric (lower_name f)" "list_all ascii_alphanumeric (lower_name t)"
    "list_all ascii_alphanumeric (lower_name r')" "list_all ascii_alphanumeric (lower_name f')" "list_all ascii_alphanumeric (lower_name t')"
    using plain by (auto simp: plain_group_def lower_name_alnum)
  let ?c = "\<lambda>t i. lower_name t @ chunk_suffix ''csv'' i"
  let ?b = "\<lambda>f t i. lower_name f @ ''__'' @ ?c t i"
  let ?a = "\<lambda>r f t i. lower_name r @ ''__'' @ ?b f t i"
  have eq: "side_word s @ ''_'' @ ?a r f t i = side_word s' @ ''_'' @ ?a r' f' t' i'"
    using assms(3) unfolding g g' connector_path_plain [OF plain(1)] connector_path_plain [OF plain(2)] by simp
  from alnum_prefix_eq [OF side_word_alnum side_word_alnum eq] have side: "side_word s = side_word s'" and a: "?a r f t i = ?a r' f' t' i'"
    by (auto simp: not_alnum)
  from alnum_prefix_eq [OF alnum(1,4) a] have rel: "lower_name r = lower_name r'" and b: "?b f t i = ?b f' t' i'"
    by (auto simp: not_alnum)
  from alnum_prefix_eq [OF alnum(2,5) b] have src: "lower_name f = lower_name f'" and c: "?c t i = ?c t' i'"
    by (auto simp: not_alnum)
  from alnum_prefix_eq [OF alnum(3,6) c] chunk_suffix_head chunk_suffix_inject have "lower_name t = lower_name t'" "i = i'" by blast+
  moreover have "s = s'" using side by (cases s; cases s') (simp_all add: side_word_def)
  ultimately show ?thesis using rel src by (simp add: g g' lower_group_def)
qed

lemma distinct_files:
  assumes "distinct (map chunk_name ks)" and "\<And>g i g' i'. (g, i) \<in> chunk_name ` set ks \<Longrightarrow> (g', i') \<in> chunk_name ` set ks \<Longrightarrow>
      cf_path fmt g i = cf_path fmt g' i' \<Longrightarrow> g = g' \<and> i = i'"
  shows "distinct (map (chunk_file fmt) ks)"
proof -
  have "inj_on (\<lambda>(g, i). cf_path fmt g i) (chunk_name ` set ks)"
  proof (rule inj_onI)
    fix x y assume "x \<in> chunk_name ` set ks" "y \<in> chunk_name ` set ks" "(case x of (g, i) \<Rightarrow> cf_path fmt g i) = (case y of (g, i) \<Rightarrow> cf_path fmt g i)"
    then show "x = y" using assms(2) [of "fst x" "snd x" "fst y" "snd y"] by (cases x; cases y) simp
  qed
  with assms(1) have "distinct (map (\<lambda>(g, i). cf_path fmt g i) (map chunk_name ks))" by (simp add: distinct_map comp_inj_on)
  moreover have "(\<lambda>(g, i). cf_path fmt g i) \<circ> chunk_name = chunk_file fmt" by (auto simp: fun_eq_iff chunk_name_def chunk_file_def)
  ultimately show ?thesis by simp
qed

lemma chunked_names_subset: "(g, i) \<in> chunk_name ` set (chunked fmt limit rows) \<Longrightarrow> g \<in> fst ` set rows"
  using chunked_groups [of fmt limit rows] by (metis (no_types, lifting) fst_conv image_eqI list.set_map)

text \<open>The names of one sink: words that differ in more than the case of their letters.\<close>

definition names_ok :: "string set \<Rightarrow> bool" where
  "names_ok names \<longleftrightarrow> (\<forall>name\<in>names. plain_name name) \<and> inj_on lower_name names"

lemma names_ok_subset: "names_ok names \<Longrightarrow> names' \<subseteq> names \<Longrightarrow> names_ok names'"
  by (auto simp: names_ok_def inj_on_def)

lemma json_files_distinct:
  assumes "sorted (map fst rows)" and "names_ok (fst ` set rows)"
  shows "distinct (map (chunk_file (json_format dir)) (chunked (json_format dir) limit rows))"
proof (rule distinct_files)
  show "distinct (map chunk_name (chunked (json_format dir) limit rows))"
    by (rule names_increase_distinct [OF chunked_names [OF assms(1)]])
  fix t i t' i'
  assume mem: "(t, i) \<in> chunk_name ` set (chunked (json_format dir) limit rows)" "(t', i') \<in> chunk_name ` set (chunked (json_format dir) limit rows)"
    and eq: "cf_path (json_format dir) t i = cf_path (json_format dir) t' i'"
  have t: "t \<in> fst ` set rows" "t' \<in> fst ` set rows" using mem by (blast intro: chunked_names_subset)+
  with json_path_inject [OF _ _ eq] assms(2) show "t = t' \<and> i = i'" by (auto simp: names_ok_def inj_on_def)
qed

lemma connector_files_distinct:
  assumes "sorted (map fst rows)" and "\<forall>(r, s, f, t)\<in>fst ` set rows. {r, f, t} \<subseteq> names" and "names_ok names"
  shows "distinct (map (chunk_file (connector_format dir)) (chunked (connector_format dir) limit rows))"
proof (rule distinct_files)
  show "distinct (map chunk_name (chunked (connector_format dir) limit rows))"
    by (rule names_increase_distinct [OF chunked_names [OF assms(1)]])
  fix g i g' i'
  assume mem: "(g, i) \<in> chunk_name ` set (chunked (connector_format dir) limit rows)" "(g', i') \<in> chunk_name ` set (chunked (connector_format dir) limit rows)"
    and eq: "cf_path (connector_format dir) g i = cf_path (connector_format dir) g' i'"
  obtain r s f t where g: "g = (r, s, f, t)" by (cases g)
  obtain r' s' f' t' where g': "g' = (r', s', f', t')" by (cases g')
  have "g \<in> fst ` set rows" "g' \<in> fst ` set rows" using mem by (blast intro: chunked_names_subset)+
  with assms(2) have sub: "{r, f, t} \<subseteq> names" "{r', f', t'} \<subseteq> names" unfolding g g' by (blast dest: bspec)+
  with assms(3) have "plain_group g" "plain_group g'" by (auto simp: names_ok_def plain_group_def g g')
  with connector_path_inject [of g g' dir i i'] eq have "lower_group g = lower_group g'" "i = i'" by auto
  with sub assms(3) show "g = g' \<and> i = i'" by (auto simp: g g' lower_group_def names_ok_def inj_on_def)
qed

section \<open>Properties\<close>

text \<open>Reading a CSV file of connector rows: a given number of rows, and nothing after them.\<close>

fun read_csv_rows :: "nat \<Rightarrow> string \<Rightarrow> string list list option" where
  "read_csv_rows 0 s = (if s = [] then Some [] else None)"
| "read_csv_rows (Suc n) s =
     Option.bind (read_csv_row 3 s) (\<lambda>(row, rest). map_option (\<lambda>rows. row # rows) (read_csv_rows n rest))"

lemma read_connector_line:
  "read_csv_row 3 (connector_line r @ rest) = Some ([cr_from_id r, cr_to_id r, cr_role r], rest)"
proof -
  have delims: "csv_delimiter (CHR '','')" "csv_delimiter (CHR 0x0D)" by (simp_all add: csv_delimiter_def)
  show ?thesis
    by (simp add: connector_line_def numeral_3_eq_3 read_csv_field_write delims strip_prefix_def starts_with_def)
qed

lemma read_connector_lines:
  "read_csv_rows (length rs) (concat (map connector_line rs)) = Some (map (\<lambda>r. [cr_from_id r, cr_to_id r, cr_role r]) rs)"
  by (induction rs) (simp_all add: read_connector_line)

lemma join_Nil_concat: "join [] rows = concat rows"
  by (induction "[] :: string" rows rule: join.induct) auto

text \<open>
  C36. A connector file is a CSV file: whatever bytes the identifiers contain, commas, quotes and
  line breaks included, reading it by the grammar of RFC 4180 gives back the header and exactly the
  connectors that were written, in their order.
\<close>

theorem connector_file_roundtrip:
  "read_csv_rows (Suc (length rs)) (chunk_text (connector_format dir) (map connector_line rs)) =
     Some ([''from_id'', ''to_id'', ''role''] # map (\<lambda>r. [cr_from_id r, cr_to_id r, cr_role r]) rs)"
proof -
  let ?header = "\<lparr>cr_relation = [], cr_side = SourceSide, cr_from_type = [], cr_to_type = [],
      cr_from_id = ''from_id'', cr_to_id = ''to_id'', cr_role = ''role''\<rparr>"
  have "connector_header = connector_line ?header"
    by (simp add: connector_header_def connector_line_def write_csv_field_def needs_quotes_def)
  then show ?thesis
    using read_connector_lines [of "?header # rs"] by (simp add: chunk_text_def open_text_def join_Nil_concat)
qed

lemma fst_encoded:
  "map fst (map (\<lambda>(table, row). (table, encoding codec row)) rows) = map fst rows"
  "fst ` set (map (\<lambda>(table, row). (table, encoding codec row)) rows) = fst ` set rows"
  by (induction rows) auto

lemma json_push_all:
  assumes "sorted (map fst rows)" and "names_ok (fst ` set rows)" and "length rows < 2 ^ 21" and "limit \<le> 2 ^ 62"
    and enc: "\<forall>(table, row)\<in>set rows. rc_encode codec row = Inr (encoding codec row) \<and> length (encoding codec row) \<le> 2 ^ 33"
  shows "\<exists>j w'. try_fold (\<lambda>(table, row). json_push codec table row) rows (json_sink_new dir limit, w) = Inr (j, w')
     \<and> json_inv dir limit j w' (chunked (json_format dir) limit (map (\<lambda>(table, row). (table, encoding codec row)) rows))"
proof -
  let ?enc = "\<lambda>rows. map (\<lambda>(table, row). (table, encoding codec row)) rows"
  let ?ks = "\<lambda>rows. chunked (json_format dir) limit (?enc rows)"
  have "spec True (try_fold (\<lambda>x s. lift_result ((\<lambda>(table, row). json_push codec table row) x s)) rows (json_sink_new dir limit, w))
     (\<lambda>(j, w'). json_inv dir limit j w' (?ks rows))"
  proof (rule spec_try_fold [where P = "\<lambda>pre (j, w'). json_inv dir limit j w' (?ks pre)"])
    show "case (json_sink_new dir limit, w) of (j, w') \<Rightarrow> json_inv dir limit j w' (?ks [])" by (simp add: json_inv_new)
    fix pre x post and s :: "json_sink \<times> workspace"
    assume rows: "rows = pre @ x # post" and inv: "case s of (j, w') \<Rightarrow> json_inv dir limit j w' (?ks pre)"
    obtain table row where x: "x = (table, row)" by (cases x)
    obtain j w1 where s: "s = (j, w1)" by (cases s)
    have "sorted (map fst (?enc pre))" using assms(1) unfolding fst_encoded(1) by (simp add: rows sorted_append)
    moreover have "names_ok (fst ` set (?enc pre))" unfolding fst_encoded(2) by (intro names_ok_subset [OF assms(2)]) (auto simp: rows)
    ultimately have names: "distinct (map (chunk_file (json_format dir)) (?ks pre))" by (rule json_files_distinct)
    have len: "length (encoding codec b) \<le> 2 ^ 34" if "(a, b) \<in> set rows" for a b
    proof -
      from enc that have "length (encoding codec b) \<le> 2 ^ 33" by auto
      then show ?thesis by simp
    qed
    have small: "sink_small (json_format dir) (?ks pre)"
      using assms(3,4) len by (intro chunked_small) (auto simp: rows)
    have row: "rc_encode codec row = Inr (encoding codec row)" "length (encoding codec row) \<le> 2 ^ 33"
      using enc by (auto simp: rows x)
    from json_push_place [OF inv [unfolded s prod.case] small names row, of table] show
      "spec True (lift_result ((\<lambda>(table, row). json_push codec table row) x s)) (\<lambda>(j, w'). json_inv dir limit j w' (?ks (pre @ [x])))"
      by (auto simp: x s chunked_snoc)
  qed
  then show ?thesis unfolding lift_try_fold [symmetric] spec_True_iff by (auto simp: lift_result_Inr_iff)
qed

text \<open>
  C37. The JSON sink splits the rows of its tables into files of bounded size: pushed sorted by
  table, all rows are written, in their order, as JSON arrays with one COPY statement for each file;
  no file is longer than the limit unless it holds a single row, and none is empty.
\<close>

theorem json_sink_bounded:
  assumes "sorted (map fst rows)" and "names_ok (fst ` set rows)" and "length rows < 2 ^ 21" and "limit \<le> 2 ^ 62"
    and "\<forall>(table, row)\<in>set rows. rc_encode codec row = Inr (encoding codec row) \<and> length (encoding codec row) \<le> 2 ^ 33"
  shows "\<exists>j w1 w2 ks. try_fold (\<lambda>(table, row). json_push codec table row) rows (json_sink_new dir limit, w) = Inr (j, w1)
     \<and> json_finish (j, w1) = (map (chunk_statement (json_format dir)) ks, length rows, w2)
     \<and> concat (map chunk_rows ks) = map (\<lambda>(table, row). (table, encoding codec row)) rows
     \<and> (\<forall>(table, index, encs)\<in>set ks. encs \<noteq> []
          \<and> ws_files w2 (chunked_output_path dir (output_file_stem table) ''json'' index) =
              Some (''['' @ join '','' encs @ '']'' @ [CHR 0x0A])
          \<and> (length (''['' @ join '','' encs @ '']'' @ [CHR 0x0A]) \<le> limit \<or> length encs = 1))"
proof -
  let ?enc = "map (\<lambda>(table, row). (table, encoding codec row)) rows"
  let ?ks = "chunked (json_format dir) limit ?enc"
  obtain j w1 where j: "try_fold (\<lambda>(table, row). json_push codec table row) rows (json_sink_new dir limit, w) = Inr (j, w1)"
    "json_inv dir limit j w1 ?ks"
    using json_push_all [OF assms] by blast
  have "distinct (map (chunk_file (json_format dir)) ?ks)"
    by (intro json_files_distinct) (simp_all only: fst_encoded assms(1,2))
  from json_finish_inv [OF j(2) this] obtain w2 where
    fin: "json_finish (j, w1) = (map (chunk_statement (json_format dir)) ?ks, length (concat (map chunk_rows ?ks)), w2)"
      "\<forall>(grp, i, rows)\<in>set ?ks. ws_files w2 (cf_path (json_format dir) grp i) = Some (chunk_text (json_format dir) rows)" by blast
  have "\<forall>(table, index, encs)\<in>set ?ks. encs \<noteq> []
          \<and> ws_files w2 (chunked_output_path dir (output_file_stem table) ''json'' index) =
              Some (''['' @ join '','' encs @ '']'' @ [CHR 0x0A])
          \<and> (length (''['' @ join '','' encs @ '']'' @ [CHR 0x0A]) \<le> limit \<or> length encs = 1)"
    using fin(2) chunked_ok [of "json_format dir" limit ?enc]
    by (fastforce simp: list_all_iff chunk_ok_def chunk_text_def open_text_def)
  then show ?thesis using j(1) fin(1) chunked_rows [of "json_format dir" limit ?enc] by (metis (no_types, lifting) length_map)
qed

definition sample_codec :: "string row_codec" where
  "sample_codec = \<lparr>rc_encode = Inr, rc_capacity = length\<rparr>"

definition sample_table_rows :: "(string \<times> string) list" where
  "sample_table_rows = [(''Class'', ''{1}''), (''Function'', ''{2}''), (''Function'', ''{3}'')]"

lemma sample_table_rows_ok:
  "sorted (map fst sample_table_rows)" "names_ok (fst ` set sample_table_rows)" "length sample_table_rows < 2 ^ 21"
  "\<forall>(table, row)\<in>set sample_table_rows. rc_encode sample_codec row = Inr (encoding sample_codec row)
     \<and> length (encoding sample_codec row) \<le> 2 ^ 33"
proof -
  show "sorted (map fst sample_table_rows)" by code_simp
  have "plain_name ''Class''" "plain_name ''Function''" "lower_name ''Class'' \<noteq> lower_name ''Function''" by code_simp+
  then show "names_ok (fst ` set sample_table_rows)" by (simp add: names_ok_def sample_table_rows_def)
qed (simp_all add: sample_table_rows_def sample_codec_def encoding_def)

theorem json_sink_bounded_witness:
  "\<exists>j w1 w2 ks. try_fold (\<lambda>(table, row). json_push sample_codec table row) sample_table_rows
        (json_sink_new ''stage'' 8, \<lparr>ws_files = Map.empty, ws_metrics = empty_metrics\<rparr>) = Inr (j, w1)
     \<and> json_finish (j, w1) = (map (chunk_statement (json_format ''stage'')) ks, 3, w2)
     \<and> concat (map chunk_rows ks) = sample_table_rows
     \<and> (\<forall>(table, index, encs)\<in>set ks. encs \<noteq> []
          \<and> ws_files w2 (chunked_output_path ''stage'' (output_file_stem table) ''json'' index) =
              Some (''['' @ join '','' encs @ '']'' @ [CHR 0x0A])
          \<and> (length (''['' @ join '','' encs @ '']'' @ [CHR 0x0A]) \<le> 8 \<or> length encs = 1))"
proof -
  have "map (\<lambda>(table, row). (table, encoding sample_codec row)) sample_table_rows = sample_table_rows" "length sample_table_rows = 3"
    by (simp_all add: sample_table_rows_def sample_codec_def encoding_def)
  with json_sink_bounded [OF sample_table_rows_ok(1-3) _ sample_table_rows_ok(4), of 8 "''stage''" "\<lparr>ws_files = Map.empty, ws_metrics = empty_metrics\<rparr>"]
  show ?thesis by simp
qed

end
