(* ===== verification/Staging.thy ===== *)
theory Staging
  imports StagingSinks Partition
begin

text \<open>
  The staging accumulator (\<^verbatim>\<open>src/staging_writer/accumulator.rs\<close>): partitions add their rows to a spool of
  raw records; \<open>finish\<close> reads the spool sorted, merges the rows of each node and each edge, resolves
  the endpoints of the edges by a merge join with the node identifiers, drops the edges the schema
  does not allow, and writes nodes, edges and connectors into the staging directory.

  A failed push leaves the accumulator with a pending error that \<open>finish\<close> reports; the spool is not
  used again, so its state after the failure is not modelled. The guards of the storage layer
  (admission of the producer, origin receipts of the files) are outside the model: they do not
  change what is written.
\<close>

section \<open>Records\<close>

datatype raw_record =
    RawNode (rr_table: string) (rr_id: string) (rr_source_order: nat) node_staged_row
  | RawEdge (rr_table: string) (rr_id: string) (rr_source_order: nat) edge_staged_row
  | RawNodeType (rr_id: string) (rr_table: string) (rr_source_order: nat)

datatype raw_key = NodeKey string string nat | EdgeKey string string nat | NodeTypeKey string nat

text \<open>The derived order: by variant, then by the fields from left to right.\<close>

definition raw_key_rank :: "raw_key \<Rightarrow> nat \<times> string \<times> string \<times> nat" where
  "raw_key_rank key =
     (case key of
        NodeKey table ident order \<Rightarrow> (0, table, ident, order)
      | EdgeKey table ident order \<Rightarrow> (1, table, ident, order)
      | NodeTypeKey ident order \<Rightarrow> (2, ident, [], order))"

lemma raw_key_rank_inject: "raw_key_rank a = raw_key_rank b \<longleftrightarrow> a = b"
  by (auto simp: raw_key_rank_def split: raw_key.splits)

instantiation raw_key :: linorder
begin

definition less_eq_raw_key :: "raw_key \<Rightarrow> raw_key \<Rightarrow> bool" where
  "less_eq_raw_key a b \<longleftrightarrow> raw_key_rank a \<le> raw_key_rank b"

definition less_raw_key :: "raw_key \<Rightarrow> raw_key \<Rightarrow> bool" where
  "less_raw_key a b \<longleftrightarrow> raw_key_rank a < raw_key_rank b"

instance
  by standard (auto simp: less_eq_raw_key_def less_raw_key_def raw_key_rank_inject [symmetric])

end

definition raw_sort_key :: "raw_record \<Rightarrow> raw_key" where
  "raw_sort_key r =
     (case r of
        RawNode table ident order row \<Rightarrow> NodeKey table ident order
      | RawEdge table ident order row \<Rightarrow> EdgeKey table ident order
      | RawNodeType ident table order \<Rightarrow> NodeTypeKey ident order)"

record merged_edge =
  mg_table :: string
  mg_id :: string
  mg_row :: edge_staged_row

record resolved_node_type =
  nt_id :: string
  nt_table :: string

record endpoint_request =
  ep_node_id :: string
  ep_relation :: string
  ep_edge_id :: string
  ep_side :: endpoint_side

record resolved_endpoint =
  re_relation :: string
  re_edge_id :: string
  re_side :: endpoint_side
  re_node_type :: string

type_synonym endpoint_key = "string \<times> string \<times> string \<times> endpoint_side"
type_synonym resolved_key = "string \<times> string \<times> endpoint_side"
type_synonym connector_key = "string \<times> endpoint_side \<times> string \<times> string \<times> string \<times> string \<times> string"

definition endpoint_sort_key :: "endpoint_request \<Rightarrow> endpoint_key" where
  "endpoint_sort_key e = (ep_node_id e, ep_relation e, ep_edge_id e, ep_side e)"

definition resolved_sort_key :: "resolved_endpoint \<Rightarrow> resolved_key" where
  "resolved_sort_key e = (re_relation e, re_edge_id e, re_side e)"

definition connector_sort_key :: "connector_record \<Rightarrow> connector_key" where
  "connector_sort_key c =
     (cr_relation c, cr_side c, cr_from_type c, cr_to_type c, cr_from_id c, cr_to_id c, cr_role c)"

definition missing_error :: "endpoint_request \<Rightarrow> native_error" where
  "missing_error e =
     InvalidInput (''edge '' @ ep_edge_id e @ '' references missing '' @ side_str (ep_side e) @ '' node '' @ ep_node_id e)"

text \<open>
  The codecs of the record types. \<open>sort_key\<close> is the code's; how records are encoded, sized and
  counted comes with the codec.
\<close>

record staging_env =
  sv_raw :: "(raw_record, raw_key) spill_record"
  sv_endpoint :: "(endpoint_request, endpoint_key) spill_record"
  sv_resolved :: "(resolved_endpoint, resolved_key) spill_record"
  sv_connector :: "(connector_record, connector_key) spill_record"
  sv_edge_id :: "(string, string) spill_record"
  sv_merged_edge :: "(merged_edge, unit) spill_record"
  sv_node_type :: "(resolved_node_type, unit) spill_record"
  sv_node_row :: "node_staged_row row_codec"
  sv_edge_row :: "edge_staged_row row_codec"
  sv_csv_capacity :: "string \<Rightarrow> nat"

section \<open>The relation constraints\<close>

text \<open>\<open>RelationConstraints::allows\<close>: a relation the schema declares with both type lists is checked.\<close>

definition pairs_by_relation :: "relation_spec list \<Rightarrow> (string, string list \<times> string list) btree_map" where
  "pairs_by_relation specs =
     btree_of_list (map (\<lambda>s. (rs_name s, (rs_source_types s, rs_target_types s)))
       (filter (\<lambda>s. rs_source_types s \<noteq> [] \<and> rs_target_types s \<noteq> []) specs))"

definition constraints_allow :: "relation_spec list \<Rightarrow> string \<Rightarrow> string \<Rightarrow> string \<Rightarrow> bool" where
  "constraints_allow specs relation source_type target_type =
     (case map_of (pairs_by_relation specs) relation of
        None \<Rightarrow> True
      | Some (sources, targets) \<Rightarrow> source_type \<in> set sources \<and> target_type \<in> set targets)"

section \<open>The accumulator\<close>

record accumulator =
  ac_staging_dir :: string
  ac_run_root :: string
  ac_defer_disposal :: bool
  ac_chunk_limit :: nat
  ac_output_chunk_limit :: nat
  ac_raw_records :: "raw_key spool option"
  ac_next_source_order :: nat
  ac_pending_error :: "native_error option"
  ac_relation_types :: "relation_spec list"

definition run_root_path :: "string \<Rightarrow> nat \<Rightarrow> nat \<Rightarrow> string" where
  "run_root_path staging_dir process_id sequence =
     staging_dir @ ''/'' @ ''.runs-'' @ string_of_nat process_id @ ''-'' @ string_of_nat sequence"

definition with_limits ::
  "relation_spec list \<Rightarrow> bool \<Rightarrow> nat \<Rightarrow> nat \<Rightarrow> string \<Rightarrow> nat \<Rightarrow> nat \<Rightarrow> accumulator result" where
  "with_limits specs defer_disposal process_id sequence staging_dir chunk_limit output_chunk_limit =
     (let run_root = run_root_path staging_dir process_id sequence in
      try_op (spool_new run_root ''staged'' chunk_limit) (\<lambda>raw_records.
      Inr \<lparr>ac_staging_dir = staging_dir, ac_run_root = run_root, ac_defer_disposal = defer_disposal,
           ac_chunk_limit = chunk_limit, ac_output_chunk_limit = output_chunk_limit,
           ac_raw_records = Some raw_records, ac_next_source_order = 0, ac_pending_error = None,
           ac_relation_types = specs\<rparr>))"

definition take_source_order :: "accumulator \<Rightarrow> (nat \<times> accumulator) result" where
  "take_source_order a =
     try_op (or_invalid ''staging source order overflow'' (add_u64 (ac_next_source_order a) 1)) (\<lambda>next_order.
     Inr (ac_next_source_order a, a\<lparr>ac_next_source_order := next_order\<rparr>))"

definition push_raw :: "staging_env \<Rightarrow> raw_record \<Rightarrow> accumulator \<times> workspace \<Rightarrow> (accumulator \<times> workspace) result" where
  "push_raw env r = (\<lambda>(a, w).
     case ac_raw_records a of
       None \<Rightarrow> Inl (InvalidInput ''staging record spool was not initialized'')
     | Some s \<Rightarrow>
         try_op (spool_push (sv_raw env) r (s, w)) (\<lambda>(s', w'). Inr (a\<lparr>ac_raw_records := Some s'\<rparr>, w')))"

definition add_node_row ::
  "staging_env \<Rightarrow> graph_partition \<Rightarrow> string set \<Rightarrow> graph_node_row \<Rightarrow> accumulator \<times> workspace
    \<Rightarrow> (accumulator \<times> workspace) result" where
  "add_node_row env p retained_nodes node = (\<lambda>(a, w).
     try_op (take_source_order a) (\<lambda>(source_order, a1).
     try_op (push_raw env (RawNodeType (gn_id node) (gn_table node) source_order) (a1, w)) (\<lambda>(a2, w2).
     if gn_id node \<in> retained_nodes then Inr (a2, w2)
     else
       push_raw env
         (RawNode (gn_table node) (gn_id node) source_order
           (node_fields node (if gn_table node = ''File'' then Some (me_content_hash (gp_entry p)) else None)))
         (a2, w2))))"

definition add_edge_row ::
  "staging_env \<Rightarrow> string set \<Rightarrow> graph_edge_row \<Rightarrow> accumulator \<times> workspace \<Rightarrow> (accumulator \<times> workspace) result" where
  "add_edge_row env retained_edges row = (\<lambda>(a, w).
     if ge_id row \<in> retained_edges then Inr (a, w)
     else
       try_op (take_source_order a) (\<lambda>(source_order, a1).
       push_raw env (RawEdge (ge_edge_type row) (ge_id row) source_order (edge_fields row)) (a1, w)))"

definition add_partition_filtered ::
  "staging_env \<Rightarrow> graph_partition \<Rightarrow> string set \<Rightarrow> string set \<Rightarrow> accumulator \<times> workspace \<Rightarrow> accumulator \<times> workspace" where
  "add_partition_filtered env p retained_nodes retained_edges = (\<lambda>(a, w).
     if ac_pending_error a \<noteq> None then (a, w)
     else
       case try_op (try_fold (add_node_row env p retained_nodes) (gp_nodes p) (a, w))
              (try_fold (add_edge_row env retained_edges) (gp_edges p)) of
         Inl error \<Rightarrow> (a\<lparr>ac_raw_records := None, ac_pending_error := Some error\<rparr>, w)
       | Inr aw \<Rightarrow> aw)"

definition add_partition :: "staging_env \<Rightarrow> graph_partition \<Rightarrow> accumulator \<times> workspace \<Rightarrow> accumulator \<times> workspace" where
  "add_partition env p = add_partition_filtered env p {} {}"

section \<open>Finishing: grouping the raw records\<close>

record group_state =
  gs_nodes :: json_sink
  gs_merged_edges :: string
  gs_node_types :: string
  gs_endpoints :: "endpoint_key spool"
  gs_node_group :: "(string \<times> string \<times> node_staged_row) option"
  gs_edge_group :: "(string \<times> string \<times> edge_staged_row) option"
  gs_type_group :: "(string \<times> string) option"
  gs_unique_node_count :: nat

definition flush_node_group :: "staging_env \<Rightarrow> workspace \<times> group_state \<Rightarrow> (workspace \<times> group_state) result" where
  "flush_node_group env = (\<lambda>(w, g).
     case gs_node_group g of
       None \<Rightarrow> Inr (w, g)
     | Some (table, ident, row) \<Rightarrow>
         try_op (json_push (sv_node_row env) table row (gs_nodes g, w)) (\<lambda>(nodes, w').
         Inr (w', g\<lparr>gs_nodes := nodes, gs_node_group := None\<rparr>)))"

definition write_merged_edge ::
  "staging_env \<Rightarrow> string \<Rightarrow> string \<Rightarrow> edge_staged_row \<Rightarrow> workspace \<times> group_state \<Rightarrow> (workspace \<times> group_state) result" where
  "write_merged_edge env table ident row = (\<lambda>(w, g).
     try_op (spool_push (sv_endpoint env)
               \<lparr>ep_node_id = es_source_id row, ep_relation = table, ep_edge_id = ident, ep_side = SourceSide\<rparr>
               (gs_endpoints g, w)) (\<lambda>(endpoints1, w1).
     try_op (spool_push (sv_endpoint env)
               \<lparr>ep_node_id = es_target_id row, ep_relation = table, ep_edge_id = ident, ep_side = TargetSide\<rparr>
               (endpoints1, w1)) (\<lambda>(endpoints2, w2).
     try_op (record_file_push (sv_merged_edge env) \<lparr>mg_table = table, mg_id = ident, mg_row = row\<rparr>
               (gs_merged_edges g, ws_metrics w2)) (\<lambda>(merged_edges, metrics).
     Inr (w2\<lparr>ws_metrics := metrics\<rparr>, g\<lparr>gs_endpoints := endpoints2, gs_merged_edges := merged_edges\<rparr>)))))"

definition flush_edge_group :: "staging_env \<Rightarrow> workspace \<times> group_state \<Rightarrow> (workspace \<times> group_state) result" where
  "flush_edge_group env = (\<lambda>(w, g).
     case gs_edge_group g of
       None \<Rightarrow> Inr (w, g)
     | Some (table, ident, row) \<Rightarrow> write_merged_edge env table ident row (w, g\<lparr>gs_edge_group := None\<rparr>))"

definition flush_type_group :: "staging_env \<Rightarrow> workspace \<times> group_state \<Rightarrow> (workspace \<times> group_state) result" where
  "flush_type_group env = (\<lambda>(w, g).
     case gs_type_group g of
       None \<Rightarrow> Inr (w, g)
     | Some (ident, table) \<Rightarrow>
         try_op (record_file_push (sv_node_type env) \<lparr>nt_id = ident, nt_table = table\<rparr> (gs_node_types g, ws_metrics w))
           (\<lambda>(node_types, metrics).
         try_op (or_invalid ''unique node count overflow'' (add_u64 (gs_unique_node_count g) 1)) (\<lambda>unique_node_count.
         Inr (w\<lparr>ws_metrics := metrics\<rparr>,
              g\<lparr>gs_node_types := node_types, gs_unique_node_count := unique_node_count, gs_type_group := None\<rparr>))))"

definition group_record :: "staging_env \<Rightarrow> raw_record \<Rightarrow> workspace \<times> group_state \<Rightarrow> (workspace \<times> group_state) result" where
  "group_record env r = (\<lambda>(w, g).
     case r of
       RawNode table ident order row \<Rightarrow>
         (case gs_node_group g of
            Some (current_table, current_id, current_row) \<Rightarrow>
              if current_table = table \<and> current_id = ident
              then Inr (w, g\<lparr>gs_node_group := Some (current_table, current_id, merge_node_value current_row row)\<rparr>)
              else
                try_op (flush_node_group env (w, g)) (\<lambda>(w1, g1).
                Inr (w1, g1\<lparr>gs_node_group := Some (table, ident, row)\<rparr>))
          | None \<Rightarrow> Inr (w, g\<lparr>gs_node_group := Some (table, ident, row)\<rparr>))
     | RawEdge table ident order row \<Rightarrow>
         try_op (flush_node_group env (w, g)) (\<lambda>(w1, g1).
         case gs_edge_group g1 of
           Some (current_table, current_id, current_row) \<Rightarrow>
             if current_table = table \<and> current_id = ident
             then Inr (w1, g1\<lparr>gs_edge_group := Some (current_table, current_id, merge_edge_value current_row row)\<rparr>)
             else
               try_op (flush_edge_group env (w1, g1)) (\<lambda>(w2, g2).
               Inr (w2, g2\<lparr>gs_edge_group := Some (table, ident, row)\<rparr>))
         | None \<Rightarrow> Inr (w1, g1\<lparr>gs_edge_group := Some (table, ident, row)\<rparr>))
     | RawNodeType ident table order \<Rightarrow>
         try_op (flush_edge_group env (w, g)) (\<lambda>(w1, g1).
         if (case gs_type_group g1 of Some (current_id, _) \<Rightarrow> current_id = ident | None \<Rightarrow> False) then Inr (w1, g1)
         else
           try_op (flush_type_group env (w1, g1)) (\<lambda>(w2, g2).
           Inr (w2, g2\<lparr>gs_type_group := Some (ident, table)\<rparr>))))"

definition flush_groups :: "staging_env \<Rightarrow> workspace \<times> group_state \<Rightarrow> (workspace \<times> group_state) result" where
  "flush_groups env wg =
     try_op (flush_node_group env wg) (\<lambda>wg1.
     try_op (flush_edge_group env wg1) (flush_type_group env))"

section \<open>Finishing: endpoints and edges\<close>

text \<open>The file of node types is read in step with the sorted endpoint requests.\<close>

fun advance_node_type ::
  "staging_env \<Rightarrow> nat \<Rightarrow> string \<Rightarrow> resolved_node_type option \<times> string \<Rightarrow> (resolved_node_type option \<times> string) run" where
  "advance_node_type env 0 node_id st = Inl Diverged"
| "advance_node_type env (Suc fuel) node_id (current, reader) =
     (case current of
        None \<Rightarrow> Inr (None, reader)
      | Some found \<Rightarrow>
          if nt_id found < node_id
          then
            try_op (lift_result (record_file_next (sv_node_type env) reader)) (\<lambda>item.
            case item of
              None \<Rightarrow> advance_node_type env fuel node_id (None, reader)
            | Some (x, reader') \<Rightarrow> advance_node_type env fuel node_id (Some x, reader'))
          else Inr (Some found, reader))"

type_synonym resolve_state = "(resolved_node_type option \<times> string) \<times> resolved_key spool"

definition resolve_endpoint :: "staging_env \<Rightarrow> endpoint_request \<Rightarrow> workspace \<times> resolve_state \<Rightarrow> (workspace \<times> resolve_state) run" where
  "resolve_endpoint env endpoint = (\<lambda>(w, (types, resolved)).
     try_op (advance_node_type env (Suc (Suc (length (snd types)))) (ep_node_id endpoint) types) (\<lambda>types1.
     case fst types1 of
       None \<Rightarrow> Inl (Failed (missing_error endpoint))
     | Some found \<Rightarrow>
         if nt_id found \<noteq> ep_node_id endpoint then Inl (Failed (missing_error endpoint))
         else
           try_op (lift_result (spool_push (sv_resolved env)
                     \<lparr>re_relation = ep_relation endpoint, re_edge_id = ep_edge_id endpoint, re_side = ep_side endpoint,
                      re_node_type = nt_table found\<rparr> (resolved, w))) (\<lambda>(resolved', w').
           Inr (w', (types1, resolved')))))"

definition take_resolved_endpoint ::
  "staging_env \<Rightarrow> string \<Rightarrow> string \<Rightarrow> endpoint_side \<Rightarrow> (resolved_endpoint, resolved_key) sorted_stream \<times> workspace
    \<Rightarrow> (resolved_endpoint \<times> (resolved_endpoint, resolved_key) sorted_stream \<times> workspace) result" where
  "take_resolved_endpoint env relation edge_id side qw =
     try_op (stream_next (sv_resolved env) qw) (\<lambda>(item, qw').
     case item of
       None \<Rightarrow> Inl (InvalidInput (''edge '' @ edge_id @ '' is missing its '' @ side_str side @ '' endpoint resolution''))
     | Some endpoint \<Rightarrow>
         if re_relation endpoint \<noteq> relation \<or> re_edge_id endpoint \<noteq> edge_id \<or> re_side endpoint \<noteq> side
         then Inl (InvalidInput (''edge '' @ edge_id @ '' has inconsistent '' @ side_str side @ '' endpoint resolution''))
         else Inr (endpoint, qw'))"

record edge_state =
  dg_resolved :: "(resolved_endpoint, resolved_key) sorted_stream"
  dg_edges :: json_sink
  dg_accepted :: "string spool"
  dg_connectors :: "connector_key spool"

definition source_connector :: "merged_edge \<Rightarrow> resolved_endpoint \<Rightarrow> connector_record" where
  "source_connector m source =
     \<lparr>cr_relation = mg_table m, cr_side = SourceSide, cr_from_type = re_node_type source, cr_to_type = mg_table m,
      cr_from_id = es_source_id (mg_row m), cr_to_id = mg_id m, cr_role = ''source''\<rparr>"

definition target_connector :: "merged_edge \<Rightarrow> resolved_endpoint \<Rightarrow> connector_record" where
  "target_connector m target =
     \<lparr>cr_relation = mg_table m, cr_side = TargetSide, cr_from_type = mg_table m, cr_to_type = re_node_type target,
      cr_from_id = mg_id m, cr_to_id = es_target_id (mg_row m), cr_role = ''target''\<rparr>"

definition emit_edge :: "staging_env \<Rightarrow> relation_spec list \<Rightarrow> merged_edge \<Rightarrow> workspace \<times> edge_state \<Rightarrow> (workspace \<times> edge_state) result" where
  "emit_edge env specs m = (\<lambda>(w, d).
     try_op (take_resolved_endpoint env (mg_table m) (mg_id m) SourceSide (dg_resolved d, w)) (\<lambda>(source, q1, w1).
     try_op (take_resolved_endpoint env (mg_table m) (mg_id m) TargetSide (q1, w1)) (\<lambda>(target, q2, w2).
     let d1 = d\<lparr>dg_resolved := q2\<rparr> in
     if \<not> constraints_allow specs (mg_table m) (re_node_type source) (re_node_type target) then Inr (w2, d1)
     else
       try_op (json_push (sv_edge_row env) (mg_table m) (mg_row m) (dg_edges d1, w2)) (\<lambda>(edges, w3).
       try_op (spool_push (sv_edge_id env) (mg_id m) (dg_accepted d1, w3)) (\<lambda>(accepted, w4).
       try_op (spool_push (sv_connector env) (source_connector m source) (dg_connectors d1, w4)) (\<lambda>(connectors1, w5).
       try_op (spool_push (sv_connector env) (target_connector m target) (connectors1, w5)) (\<lambda>(connectors2, w6).
       Inr (w6, d1\<lparr>dg_edges := edges, dg_accepted := accepted, dg_connectors := connectors2\<rparr>))))))))"

text \<open>\<open>RecordFileReader\<close> as the source of a loop.\<close>

definition reader_next ::
  "('a, 'k) spill_record \<Rightarrow> string \<times> workspace \<Rightarrow> ('a option \<times> string \<times> workspace) result" where
  "reader_next sr = (\<lambda>(reader, w).
     try_op (record_file_next sr reader) (\<lambda>item.
     case item of None \<Rightarrow> Inr (None, reader, w) | Some (x, reader') \<Rightarrow> Inr (Some x, reader', w)))"

text \<open>The streams of accepted edge identifiers and of connectors skip repetitions.\<close>

definition count_edge_id :: "string \<Rightarrow> workspace \<times> (string option \<times> nat) \<Rightarrow> (workspace \<times> (string option \<times> nat)) result" where
  "count_edge_id ident = (\<lambda>(w, (previous, n)).
     if previous = Some ident then Inr (w, (previous, n))
     else try_op (or_invalid ''unique edge count overflow'' (add_u64 n 1)) (\<lambda>n'. Inr (w, (Some ident, n'))))"

definition emit_connector ::
  "staging_env \<Rightarrow> connector_record \<Rightarrow> workspace \<times> (connector_key option \<times> connector_sink)
    \<Rightarrow> (workspace \<times> (connector_key option \<times> connector_sink)) result" where
  "emit_connector env connector = (\<lambda>(w, (previous, sink)).
     let key = connector_sort_key connector in
     if previous = Some key then Inr (w, (previous, sink))
     else
       try_op (connector_push (sv_csv_capacity env) connector (sink, w)) (\<lambda>(sink', w').
       Inr (w', (Some key, sink'))))"

section \<open>Finishing\<close>

record staging_result =
  stg_copy_statements :: "string list"
  stg_node_rows :: nat
  stg_edge_rows :: nat
  stg_connector_rows :: nat
  stg_copy_calls :: nat
  stg_unique_node_count :: nat
  stg_unique_edge_count :: nat
  stg_spill_bytes :: nat
  stg_high_water_bytes :: nat

definition merged_edges_path :: "accumulator \<Rightarrow> string" where
  "merged_edges_path a = ac_run_root a @ ''/merged-edges.bin''"

definition node_types_path :: "accumulator \<Rightarrow> string" where
  "node_types_path a = ac_run_root a @ ''/node-types.bin''"

definition group_start :: "accumulator \<Rightarrow> endpoint_key spool \<Rightarrow> group_state" where
  "group_start a endpoints =
     \<lparr>gs_nodes = json_sink_new (ac_staging_dir a) (ac_output_chunk_limit a), gs_merged_edges = [], gs_node_types = [],
      gs_endpoints = endpoints, gs_node_group = None, gs_edge_group = None, gs_type_group = None, gs_unique_node_count = 0\<rparr>"

text \<open>First pass: merge the rows, write the nodes, and keep edges, endpoints and node types for later.\<close>

definition finish_groups ::
  "staging_env \<Rightarrow> accumulator \<Rightarrow> raw_key spool \<Rightarrow> workspace \<Rightarrow> ((string list \<times> nat) \<times> group_state \<times> workspace) run" where
  "finish_groups env a raw_records w =
     try_op (spool_finish (sv_raw env) raw_records w) (\<lambda>(raw_stream, w1).
     try_op (lift_result (spool_new (ac_run_root a) ''endpoints'' (ac_chunk_limit a))) (\<lambda>endpoints.
     try_op (while_some (stream_next (sv_raw env)) (\<lambda>r wg. lift_result (group_record env r wg)) (stream_fuel raw_stream)
               (raw_stream, w1) (group_start a endpoints)) (\<lambda>(_, w2, g).
     try_op (lift_result (flush_groups env (w2, g))) (\<lambda>(w3, g1).
     let (statements, rows, w4) = json_finish (gs_nodes g1, w3) in
     Inr ((statements, rows), g1,
          w4\<lparr>ws_files := (ws_files w4)(merged_edges_path a \<mapsto> gs_merged_edges g1, node_types_path a \<mapsto> gs_node_types g1)\<rparr>)))))"

text \<open>Second pass: the type of every endpoint.\<close>

definition finish_endpoints ::
  "staging_env \<Rightarrow> accumulator \<Rightarrow> endpoint_key spool \<Rightarrow> workspace \<Rightarrow> (resolved_key spool \<times> workspace) run" where
  "finish_endpoints env a endpoints w =
     try_op (spool_finish (sv_endpoint env) endpoints w) (\<lambda>(endpoint_stream, w1).
     try_op (lift_result (open_file (ws_files w1) (node_types_path a))) (\<lambda>reader.
     try_op (lift_result (record_file_next (sv_node_type env) reader)) (\<lambda>first.
     let types = (case first of None \<Rightarrow> (None, reader) | Some (x, reader') \<Rightarrow> (Some x, reader')) in
     try_op (lift_result (spool_new (ac_run_root a) ''resolved-endpoints'' (ac_chunk_limit a))) (\<lambda>resolved.
     try_op (while_some (stream_next (sv_endpoint env)) (resolve_endpoint env) (stream_fuel endpoint_stream)
               (endpoint_stream, w1) (types, resolved)) (\<lambda>(_, w2, (_, resolved')).
     try_op (lift_result (remove_file (node_types_path a) (ws_files w2))) (\<lambda>files.
     Inr (resolved', w2\<lparr>ws_files := files\<rparr>)))))))"

text \<open>Third pass: the edges the schema allows, and their connectors.\<close>

definition finish_edges ::
  "staging_env \<Rightarrow> accumulator \<Rightarrow> resolved_key spool \<Rightarrow> workspace
    \<Rightarrow> ((string list \<times> nat) \<times> (resolved_endpoint, resolved_key) sorted_stream \<times> string spool
          \<times> connector_key spool \<times> workspace) run" where
  "finish_edges env a resolved w =
     try_op (spool_finish (sv_resolved env) resolved w) (\<lambda>(resolved_stream, w1).
     try_op (lift_result (open_file (ws_files w1) (merged_edges_path a))) (\<lambda>reader.
     try_op (lift_result (spool_new (ac_run_root a) ''connectors'' (ac_chunk_limit a))) (\<lambda>connectors.
     try_op (lift_result (spool_new (ac_run_root a) ''accepted-edge-ids'' (ac_chunk_limit a))) (\<lambda>accepted.
     try_op (while_some (reader_next (sv_merged_edge env))
               (\<lambda>m wd. lift_result (emit_edge env (ac_relation_types a) m wd)) (Suc (length reader)) (reader, w1)
               \<lparr>dg_resolved = resolved_stream, dg_edges = json_sink_new (ac_staging_dir a) (ac_output_chunk_limit a),
                dg_accepted = accepted, dg_connectors = connectors\<rparr>) (\<lambda>(_, w2, d).
     try_op (lift_result (remove_file (merged_edges_path a) (ws_files w2))) (\<lambda>files.
     let (statements, rows, w3) = json_finish (dg_edges d, w2\<lparr>ws_files := files\<rparr>) in
     Inr ((statements, rows), dg_resolved d, dg_accepted d, dg_connectors d, w3)))))))"

text \<open>Last pass: the number of different edges, and the connector files.\<close>

definition finish_connectors ::
  "staging_env \<Rightarrow> accumulator \<Rightarrow> string spool \<Rightarrow> connector_key spool \<Rightarrow> workspace
    \<Rightarrow> (nat \<times> (string list \<times> nat) \<times> workspace) run" where
  "finish_connectors env a accepted connectors w =
     try_op (spool_finish (sv_edge_id env) accepted w) (\<lambda>(accepted_stream, w1).
     try_op (while_some (stream_next (sv_edge_id env)) (\<lambda>ident ws. lift_result (count_edge_id ident ws))
               (stream_fuel accepted_stream) (accepted_stream, w1) (None, 0)) (\<lambda>(_, w2, (_, unique_edge_count)).
     try_op (spool_finish (sv_connector env) connectors w2) (\<lambda>(connector_stream, w3).
     try_op (while_some (stream_next (sv_connector env)) (\<lambda>c ws. lift_result (emit_connector env c ws))
               (stream_fuel connector_stream) (connector_stream, w3)
               (None, connector_sink_new (ac_staging_dir a) (ac_output_chunk_limit a))) (\<lambda>(_, w4, (_, sink)).
     let (statements, rows, w5) = connector_finish (sink, w4) in
     Inr (unique_edge_count, (statements, rows), w5)))))"

text \<open>\<open>Drop for RunWorkspace\<close>: the run directory goes with everything in it, unless disposal is deferred.\<close>

definition run_workspace_drop :: "accumulator \<Rightarrow> workspace \<Rightarrow> workspace" where
  "run_workspace_drop a w =
     (if ac_defer_disposal a then w
      else w\<lparr>ws_files := (\<lambda>path. if starts_with (ac_run_root a @ ''/'') path then None else ws_files w path)\<rparr>)"

text \<open>
  When \<open>finish\<close> returns, its streams are dropped and then the run directory. Only the stream of
  resolved endpoints still owns files then: the others have been read to their end.
\<close>

definition finish :: "staging_env \<Rightarrow> accumulator \<times> workspace \<Rightarrow> (staging_result \<times> workspace) run" where
  "finish env = (\<lambda>(a, w).
     case ac_pending_error a of
       Some error \<Rightarrow> Inl (Failed error)
     | None \<Rightarrow>
         (case ac_raw_records a of
            None \<Rightarrow> Inl (Failed (InvalidInput ''staging record spool was not initialized''))
          | Some raw_records \<Rightarrow>
              try_op (finish_groups env a raw_records w) (\<lambda>((node_statements, node_rows), g, w1).
              try_op (finish_endpoints env a (gs_endpoints g) w1) (\<lambda>(resolved, w2).
              try_op (finish_edges env a resolved w2) (\<lambda>((edge_statements, edge_rows), resolved_stream, accepted, connectors, w3).
              try_op (finish_connectors env a accepted connectors w3)
                (\<lambda>(unique_edge_count, (connector_statements, connector_rows), w4).
              let copy_statements = node_statements @ edge_statements @ connector_statements;
                  (spill_bytes, high_water_bytes) = snapshot (ws_metrics w4)
              in Inr (\<lparr>stg_copy_statements = copy_statements, stg_node_rows = node_rows, stg_edge_rows = edge_rows,
                        stg_connector_rows = connector_rows, stg_copy_calls = length copy_statements,
                        stg_unique_node_count = gs_unique_node_count g, stg_unique_edge_count = unique_edge_count,
                        stg_spill_bytes = spill_bytes, stg_high_water_bytes = high_water_bytes\<rparr>,
                      run_workspace_drop a (stream_drop resolved_stream w4))))))))"

end
