(* ===== verification/StagingGroups.thy ===== *)
theory StagingGroups
  imports Staging
begin

text \<open>
  What the staging accumulator computes, without spools and files: the rows of each node and each
  edge merged in the order of arrival, the type of each node, the edges whose endpoints the schema
  allows, and their connectors. The facts of this theory connect these references with what the
  grouping loop of \<open>finish\<close> does to the sorted raw records.
\<close>

section \<open>Merging groups\<close>

text \<open>Reference: the items of each key, merged in their order, by ascending key.\<close>

definition grouped :: "('a \<Rightarrow> 'k::linorder) \<Rightarrow> ('a \<Rightarrow> 'a \<Rightarrow> 'a) \<Rightarrow> 'a list \<Rightarrow> 'a list" where
  "grouped key merge xs = map (\<lambda>k. merge_all merge (filter (\<lambda>x. key x = k) xs)) (sort (remdups (map key xs)))"

text \<open>What a single pass over the items does: neighbours with the same key are merged.\<close>

fun collapse :: "('a \<Rightarrow> 'k) \<Rightarrow> ('a \<Rightarrow> 'a \<Rightarrow> 'a) \<Rightarrow> 'a list \<Rightarrow> 'a list" where
  "collapse key merge [] = []"
| "collapse key merge [x] = [x]"
| "collapse key merge (x # y # zs) =
     (if key x = key y then collapse key merge (merge x y # zs) else x # collapse key merge (y # zs))"

lemma collapse_flush:
  "xs = [] \<or> key (hd xs) \<noteq> key x \<Longrightarrow> collapse key merge (x # xs) = x # collapse key merge xs"
  by (cases xs) auto

lemma grouped_merge:
  assumes "key x = key y" and "key (merge x y) = key x"
  shows "grouped key merge (merge x y # zs) = grouped key merge (x # y # zs)"
proof -
  have "merge_all merge (filter (\<lambda>z. key z = k) (merge x y # zs)) = merge_all merge (filter (\<lambda>z. key z = k) (x # y # zs))" for k
    using assms by simp
  then show ?thesis using assms unfolding grouped_def by simp
qed

lemma sort_remdups_Cons:
  assumes "\<forall>k\<in>set ks. (k0::'k::linorder) < k"
  shows "sort (remdups (k0 # ks)) = k0 # sort (remdups ks)"
proof -
  have "insort k0 (sort (remdups ks)) = k0 # sort (remdups ks)" using assms by (intro insort_is_Cons) auto
  with assms show ?thesis by auto
qed

lemma grouped_less:
  assumes "\<forall>y\<in>set ys. key x < (key y :: 'k::linorder)"
  shows "grouped key merge (x # ys) = x # grouped key merge ys"
proof -
  have "sort (remdups (key x # map key ys)) = key x # sort (remdups (map key ys))"
    using assms by (intro sort_remdups_Cons) auto
  moreover have "filter (\<lambda>y. key y = key x) ys = []" using assms by (auto simp: filter_empty_conv)
  moreover have "k \<noteq> key x" if "k \<in> set (sort (remdups (map key ys)))" for k using that assms by auto
  ultimately show ?thesis unfolding grouped_def by auto
qed

lemma collapse_grouped:
  fixes key :: "'a \<Rightarrow> 'k::linorder"
  assumes "sorted (map key xs)" and "\<And>x y. key x = key y \<Longrightarrow> key (merge x y) = key x"
  shows "collapse key merge xs = grouped key merge xs"
  using assms
proof (induction key merge xs rule: collapse.induct)
  case (3 key merge x y zs)
  show ?case
  proof (cases "key x = key y")
    case True
    with 3 have "collapse key merge (merge x y # zs) = grouped key merge (merge x y # zs)" by simp
    with True 3(4) show ?thesis by (simp add: grouped_merge)
  next
    case False
    with 3 have "collapse key merge (y # zs) = grouped key merge (y # zs)" "\<forall>z\<in>set (y # zs). key x < key z"
      by (auto simp: less_le)
    with False show ?thesis by (simp add: grouped_less)
  qed
qed (simp_all add: grouped_def)

text \<open>The reference only depends on the items of each key in their order.\<close>

lemma grouped_cong:
  assumes "set xs = set ys" and "\<And>k. filter (\<lambda>x. key x = k) xs = filter (\<lambda>x. key x = k) ys"
  shows "grouped key merge xs = grouped key merge ys"
proof -
  have "sort (remdups (map key xs)) = sort (remdups (map key ys))"
    using assms(1) by (simp add: sorted_list_of_set_sort_remdups [symmetric])
  then show ?thesis by (simp add: grouped_def assms(2))
qed

lemma grouped_keys:
  assumes "\<And>x y. key x = key y \<Longrightarrow> key (merge x y) = key x"
  shows "map key (grouped key merge xs) = sort (remdups (map key xs))"
proof -
  have fold: "key (foldl merge x ys) = key x" if "\<forall>y\<in>set ys. key y = key x" for x ys
    using that by (induction ys arbitrary: x) (simp_all add: assms)
  have "key (merge_all merge (filter (\<lambda>x. key x = k) xs)) = k" if "k \<in> set (map key xs)" for k
  proof -
    from that have "filter (\<lambda>x. key x = k) xs \<noteq> []" by (auto simp: filter_empty_conv)
    then obtain x ys where ys: "filter (\<lambda>x. key x = k) xs = x # ys" by (cases "filter (\<lambda>x. key x = k) xs") auto
    then have "set (x # ys) = {y \<in> set xs. key y = k}" by (metis set_filter)
    then have "\<forall>y\<in>set (x # ys). key y = k" by blast
    with ys fold [of ys x] show ?thesis by simp
  qed
  then have "map (\<lambda>k. key (merge_all merge (filter (\<lambda>x. key x = k) xs))) (sort (remdups (map key xs))) = map (\<lambda>k. k) (sort (remdups (map key xs)))"
    by (intro map_cong) auto
  then show ?thesis by (simp add: grouped_def comp_def)
qed

lemma grouped_length: "length (grouped key merge xs) \<le> length xs"
  unfolding grouped_def by (simp, metis length_map length_remdups_leq)

section \<open>The raw records\<close>

definition node_group_of :: "raw_record \<Rightarrow> (string \<times> string \<times> node_staged_row) option" where
  "node_group_of r = (case r of RawNode table ident order row \<Rightarrow> Some (table, ident, row) | _ \<Rightarrow> None)"

definition edge_group_of :: "raw_record \<Rightarrow> (string \<times> string \<times> edge_staged_row) option" where
  "edge_group_of r = (case r of RawEdge table ident order row \<Rightarrow> Some (table, ident, row) | _ \<Rightarrow> None)"

definition type_group_of :: "raw_record \<Rightarrow> (string \<times> string) option" where
  "type_group_of r = (case r of RawNodeType ident table order \<Rightarrow> Some (ident, table) | _ \<Rightarrow> None)"

definition row_key :: "string \<times> string \<times> 'r \<Rightarrow> string \<times> string" where
  "row_key = (\<lambda>(table, ident, row). (table, ident))"

definition merge_rows :: "('r \<Rightarrow> 'r \<Rightarrow> 'r) \<Rightarrow> string \<times> string \<times> 'r \<Rightarrow> string \<times> string \<times> 'r \<Rightarrow> string \<times> string \<times> 'r" where
  "merge_rows merge = (\<lambda>(table, ident, row) (_, _, row'). (table, ident, merge row row'))"

lemma row_key_merge [simp]: "row_key (merge_rows merge x y) = row_key x"
  by (simp add: row_key_def merge_rows_def split: prod.split)

text \<open>References: the merged nodes and edges of a list of raw records, and the types of the nodes.\<close>

definition merged_nodes :: "raw_record list \<Rightarrow> (string \<times> string \<times> node_staged_row) list" where
  "merged_nodes raw = grouped row_key (merge_rows merge_node_value) (List.map_filter node_group_of raw)"

definition merged_edge_rows :: "raw_record list \<Rightarrow> (string \<times> string \<times> edge_staged_row) list" where
  "merged_edge_rows raw = grouped row_key (merge_rows merge_edge_value) (List.map_filter edge_group_of raw)"

definition known_types :: "raw_record list \<Rightarrow> (string \<times> string) list" where
  "known_types raw = grouped fst (\<lambda>a b. a) (List.map_filter type_group_of raw)"

text \<open>The sorted raw records have the rows of each group next to each other and in the order of arrival.\<close>

lemma map_filter_Cons: "List.map_filter f (x # xs) = (case f x of None \<Rightarrow> List.map_filter f xs | Some y \<Rightarrow> y # List.map_filter f xs)"
  by (simp add: List.map_filter_simps)

lemma filter_map_filter:
  "filter P (List.map_filter f xs) = List.map_filter f (filter (\<lambda>x. case f x of None \<Rightarrow> True | Some y \<Rightarrow> P y) xs)"
  by (induction xs) (auto simp: List.map_filter_simps split: option.split)

lemma set_map_filter: "set (List.map_filter f xs) = {y. \<exists>x\<in>set xs. f x = Some y}"
  by (induction xs) (auto simp: List.map_filter_simps split: option.split)

lemma collapse_sorted_raw:
  fixes key :: "'a \<Rightarrow> 'k::linorder"
  assumes ordered: "sorted (map rr_source_order raw)"
    and mono: "\<And>r r' x x'. pick r = Some x \<Longrightarrow> pick r' = Some x' \<Longrightarrow> raw_sort_key r \<le> raw_sort_key r' \<Longrightarrow> key x \<le> key x'"
    and arrival: "\<And>r r' x x'. pick r = Some x \<Longrightarrow> pick r' = Some x' \<Longrightarrow> key x = key x' \<Longrightarrow>
        rr_source_order r \<le> rr_source_order r' \<Longrightarrow> raw_sort_key r \<le> raw_sort_key r'"
    and merge: "\<And>x y. key x = key y \<Longrightarrow> key (merge x y) = key x"
  shows "collapse key merge (List.map_filter pick (sort_key raw_sort_key raw)) = grouped key merge (List.map_filter pick raw)"
proof -
  let ?rs = "sort_key raw_sort_key raw"
  have "sorted (map key (List.map_filter pick rs))" if "sorted (map raw_sort_key rs)" for rs
    using that by (induction rs) (auto simp: List.map_filter_simps set_map_filter mono split: option.split)
  then have "collapse key merge (List.map_filter pick ?rs) = grouped key merge (List.map_filter pick ?rs)"
    by (intro collapse_grouped merge) simp_all
  also have "\<dots> = grouped key merge (List.map_filter pick raw)"
  proof (rule grouped_cong)
    fix k
    let ?mem = "\<lambda>r. \<exists>x. pick r = Some x \<and> key x = k"
    have pick: "filter (\<lambda>x. key x = k) (List.map_filter pick rs) = List.map_filter pick (filter ?mem rs)" for rs
      by (induction rs) (auto simp: List.map_filter_simps split: option.split)
    have "sorted (map rr_source_order (filter ?mem raw))" using ordered by (rule sorted_filter)
    then have "sorted_wrt (\<lambda>r r'. rr_source_order r \<le> rr_source_order r') (filter ?mem raw)" by (simp add: sorted_map)
    then have "sorted_wrt (\<lambda>r r'. raw_sort_key r \<le> raw_sort_key r') (filter ?mem raw)"
      by (rule sorted_wrt_mono_rel [rotated]) (use arrival in auto)
    then have "sort_key raw_sort_key (filter ?mem raw) = filter ?mem raw" by (intro sort_key_id_if_sorted) (simp add: sorted_map)
    then show "filter (\<lambda>x. key x = k) (List.map_filter pick ?rs) = filter (\<lambda>x. key x = k) (List.map_filter pick raw)"
      unfolding pick filter_sort by simp
  qed (simp add: set_map_filter)
  finally show ?thesis .
qed

lemmas raw_groups = node_group_of_def edge_group_of_def type_group_of_def raw_sort_key_def raw_key_rank_def
  less_eq_raw_key_def less_raw_key_def row_key_def

lemma collapse_raw:
  assumes "sorted (map rr_source_order raw)"
  shows "collapse row_key (merge_rows merge_node_value) (List.map_filter node_group_of (sort_key raw_sort_key raw)) = merged_nodes raw"
    and "collapse row_key (merge_rows merge_edge_value) (List.map_filter edge_group_of (sort_key raw_sort_key raw)) = merged_edge_rows raw"
    and "collapse fst (\<lambda>a b. a) (List.map_filter type_group_of (sort_key raw_sort_key raw)) = known_types raw"
proof -
  note groups = collapse_sorted_raw [OF assms]
  show "collapse row_key (merge_rows merge_node_value) (List.map_filter node_group_of (sort_key raw_sort_key raw)) = merged_nodes raw"
    unfolding merged_nodes_def
    by (rule groups) (auto simp: raw_groups merge_rows_def split: raw_record.splits)
  show "collapse row_key (merge_rows merge_edge_value) (List.map_filter edge_group_of (sort_key raw_sort_key raw)) = merged_edge_rows raw"
    unfolding merged_edge_rows_def
    by (rule groups) (auto simp: raw_groups merge_rows_def split: raw_record.splits)
  show "collapse fst (\<lambda>a b. a) (List.map_filter type_group_of (sort_key raw_sort_key raw)) = known_types raw"
    unfolding known_types_def
    by (rule groups) (auto simp: raw_groups split: raw_record.splits)
qed

text \<open>The first type of a node is the one that is known.\<close>

lemma merge_all_first: "xs \<noteq> [] \<Longrightarrow> merge_all (\<lambda>a b. a) xs = hd xs"
proof -
  have "foldl (\<lambda>a b. a) x ys = x" for x :: 'a and ys :: "'a list" by (induction ys) auto
  then show "xs \<noteq> [] \<Longrightarrow> merge_all (\<lambda>a b. a) xs = hd xs" by (cases xs) auto
qed

lemma hd_filter_map_of: "map_of xs k = Some v \<Longrightarrow> filter (\<lambda>x. fst x = k) xs \<noteq> [] \<and> hd (filter (\<lambda>x. fst x = k) xs) = (k, v)"
  by (induction xs) (auto split: if_splits)

lemma map_of_grouped_first: "map_of (grouped fst (\<lambda>a b. a) xs) = map_of (xs :: ('k::linorder \<times> 'v) list)"
proof
  fix k
  let ?g = "grouped fst (\<lambda>a b. a) xs"
  have keys: "map fst ?g = sort (remdups (map fst xs))" by (rule grouped_keys) simp
  show "map_of ?g k = map_of xs k"
  proof (cases "map_of xs k")
    case None
    then have "k \<notin> set (map fst ?g)" unfolding keys by (simp add: map_of_eq_None_iff)
    then show ?thesis unfolding None by (simp add: map_of_eq_None_iff)
  next
    case (Some v)
    then have "k \<in> set (sort (remdups (map fst xs)))" by (force dest: map_of_SomeD)
    moreover have "merge_all (\<lambda>a b. a) (filter (\<lambda>x. fst x = k) xs) = (k, v)"
      using hd_filter_map_of [OF Some] by (simp add: merge_all_first)
    ultimately have "(k, v) \<in> set ?g" unfolding grouped_def by (metis (mono_tags, lifting) image_eqI list.set_map)
    moreover have "distinct (map fst ?g)" unfolding keys by simp
    ultimately show ?thesis unfolding Some by (simp add: map_of_is_SomeI)
  qed
qed

lemma known_types_keys: "sorted (map fst (known_types raw))" "distinct (map fst (known_types raw))"
  by (simp_all add: known_types_def grouped_keys)

lemma merged_keys:
  "sorted (map row_key (merged_nodes raw))" "distinct (map row_key (merged_nodes raw))"
  "sorted (map row_key (merged_edge_rows raw))" "distinct (map row_key (merged_edge_rows raw))"
  by (simp_all add: merged_nodes_def merged_edge_rows_def grouped_keys)

section \<open>Endpoints and connectors\<close>

definition edge_requests :: "string \<times> string \<times> edge_staged_row \<Rightarrow> endpoint_request list" where
  "edge_requests = (\<lambda>(table, ident, row).
     [\<lparr>ep_node_id = es_source_id row, ep_relation = table, ep_edge_id = ident, ep_side = SourceSide\<rparr>,
      \<lparr>ep_node_id = es_target_id row, ep_relation = table, ep_edge_id = ident, ep_side = TargetSide\<rparr>])"

definition resolution :: "(string \<times> string) list \<Rightarrow> endpoint_request \<Rightarrow> resolved_endpoint" where
  "resolution types e =
     \<lparr>re_relation = ep_relation e, re_edge_id = ep_edge_id e, re_side = ep_side e, re_node_type = the (map_of types (ep_node_id e))\<rparr>"

definition merged_edge_of :: "string \<times> string \<times> edge_staged_row \<Rightarrow> merged_edge" where
  "merged_edge_of = (\<lambda>(table, ident, row). \<lparr>mg_table = table, mg_id = ident, mg_row = row\<rparr>)"

definition edge_accepted :: "relation_spec list \<Rightarrow> (string \<times> string) list \<Rightarrow> string \<times> string \<times> edge_staged_row \<Rightarrow> bool" where
  "edge_accepted specs types = (\<lambda>(table, ident, row).
     constraints_allow specs table (the (map_of types (es_source_id row))) (the (map_of types (es_target_id row))))"

definition edge_connectors :: "(string \<times> string) list \<Rightarrow> string \<times> string \<times> edge_staged_row \<Rightarrow> connector_record list" where
  "edge_connectors types = (\<lambda>(table, ident, row).
     [\<lparr>cr_relation = table, cr_side = SourceSide, cr_from_type = the (map_of types (es_source_id row)), cr_to_type = table,
       cr_from_id = es_source_id row, cr_to_id = ident, cr_role = ''source''\<rparr>,
      \<lparr>cr_relation = table, cr_side = TargetSide, cr_from_type = table, cr_to_type = the (map_of types (es_target_id row)),
       cr_from_id = ident, cr_to_id = es_target_id row, cr_role = ''target''\<rparr>])"

lemma sort_key_distinct:
  assumes "mset ys = mset xs" and "sorted (map f ys)" and "distinct (map f ys)"
  shows "sort_key f xs = ys"
proof (rule map_sorted_distinct_set_unique)
  have set: "set (sort_key f xs) = set ys" using assms(1) by (metis mset_eq_setD set_sort)
  have "mset (map f (sort_key f xs)) = mset (map f ys)" using assms(1) by simp
  with assms(3) show "distinct (map f (sort_key f xs))" by (metis mset_eq_imp_distinct_iff)
  show "inj_on f (set (sort_key f xs) \<union> set ys)" using assms(3) unfolding set by (simp add: distinct_map)
qed (use assms in \<open>auto dest: mset_eq_setD\<close>)

text \<open>Sorted by edge and side, the resolved endpoints come in the order in which the edges need them.\<close>

lemma side_keys_sorted:
  assumes "sorted (map row_key edges)" and "distinct (map row_key edges)"
  shows "sorted (concat (map (\<lambda>e. [(fst e, fst (snd e), SourceSide), (fst e, fst (snd e), TargetSide)]) edges))"
    and "distinct (concat (map (\<lambda>e. [(fst e, fst (snd e), SourceSide), (fst e, fst (snd e), TargetSide)]) edges))"
  using assms
  by (induction edges)
    (fastforce simp: row_key_def less_eq_endpoint_side_def less_le split: prod.splits)+

lemma requests_resolve:
  "map resolved_sort_key (map (resolution types) (concat (map edge_requests edges))) =
     concat (map (\<lambda>e. [(fst e, fst (snd e), SourceSide), (fst e, fst (snd e), TargetSide)]) edges)"
  by (induction edges) (simp_all add: edge_requests_def resolution_def resolved_sort_key_def split: prod.split)

lemma resolved_in_order:
  assumes "sorted (map row_key edges)" and "distinct (map row_key edges)"
  shows "sort_key resolved_sort_key (map (resolution types) (sort_key endpoint_sort_key (concat (map edge_requests edges)))) =
     map (resolution types) (concat (map edge_requests edges))"
  using side_keys_sorted [OF assms] by (intro sort_key_distinct) (simp_all add: requests_resolve del: map_map)

text \<open>No two connectors are the same: an edge has one for each side.\<close>

definition connector_edge :: "connector_record \<Rightarrow> string \<times> string \<times> endpoint_side" where
  "connector_edge c = (cr_relation c, (case cr_side c of SourceSide \<Rightarrow> cr_to_id c | TargetSide \<Rightarrow> cr_from_id c), cr_side c)"

lemma connector_keys_distinct:
  assumes "sorted (map row_key edges)" and "distinct (map row_key edges)"
  shows "distinct (map connector_sort_key (concat (map (edge_connectors types) edges)))"
proof -
  have "map connector_edge (concat (map (edge_connectors types) edges)) =
     concat (map (\<lambda>e. [(fst e, fst (snd e), SourceSide), (fst e, fst (snd e), TargetSide)]) edges)"
    by (induction edges) (simp_all add: edge_connectors_def connector_edge_def split: prod.split)
  with side_keys_sorted(2) [OF assms] have "distinct (map connector_edge (concat (map (edge_connectors types) edges)))" by simp
  moreover have "connector_edge c = connector_edge d" if "connector_sort_key c = connector_sort_key d" for c d
    using that by (auto simp: connector_sort_key_def connector_edge_def split: endpoint_side.split)
  ultimately show ?thesis unfolding distinct_map inj_on_def by blast
qed

end
