(* ===== verification/StagingFinish.thy ===== *)
theory StagingFinish
  imports StagingGroups
begin

text \<open>
  The four passes of \<open>finish\<close> and what they leave in the staging directory, against the references of
  the previous theory.
\<close>

section \<open>What has to fit\<close>

text \<open>
  The sort keys are the code's, the allocator grants what is asked for, every record that is
  spilled encodes into less than four gigabytes and decodes to itself, and the names of tables and
  relations are words that differ in more than case.
\<close>

definition codecs_ok :: "staging_env \<Rightarrow> bool" where
  "codecs_ok env \<longleftrightarrow>
     sr_sort_key (sv_raw env) = raw_sort_key \<and> sr_sort_key (sv_endpoint env) = endpoint_sort_key
     \<and> sr_sort_key (sv_resolved env) = resolved_sort_key \<and> sr_sort_key (sv_connector env) = connector_sort_key
     \<and> sr_sort_key (sv_edge_id env) = (\<lambda>ident. ident)
     \<and> modest (sv_raw env) \<and> modest (sv_endpoint env) \<and> modest (sv_resolved env) \<and> modest (sv_connector env)
     \<and> modest (sv_edge_id env) \<and> modest (sv_merged_edge env) \<and> modest (sv_node_type env)"

definition row_fits :: "('r, 'z) row_codec_scheme \<Rightarrow> 'r \<Rightarrow> bool" where
  "row_fits codec row \<longleftrightarrow> rc_encode codec row = Inr (encoding codec row) \<and> length (encoding codec row) \<le> 2 ^ 33"

definition node_type_of :: "string \<times> string \<Rightarrow> resolved_node_type" where
  "node_type_of = (\<lambda>(ident, table). \<lparr>nt_id = ident, nt_table = table\<rparr>)"

definition records_fit ::
  "staging_env \<Rightarrow> (string \<times> string \<times> node_staged_row) list \<Rightarrow> (string \<times> string \<times> edge_staged_row) list \<Rightarrow> (string \<times> string) list \<Rightarrow> bool" where
  "records_fit env nodes edges types \<longleftrightarrow>
     list_all (\<lambda>(table, ident, row). row_fits (sv_node_row env) row) nodes
     \<and> list_all (\<lambda>(table, ident, row). row_fits (sv_edge_row env) row \<and> spillable (sv_edge_id env) ident) edges
     \<and> list_all (\<lambda>e. spillable (sv_merged_edge env) (merged_edge_of e)) edges
     \<and> list_all (spillable (sv_endpoint env)) (concat (map edge_requests edges))
     \<and> list_all (\<lambda>r. spillable (sv_resolved env) (resolution types r)) (concat (map edge_requests edges))
     \<and> list_all (\<lambda>c. spillable (sv_connector env) c \<and> length (connector_line c) \<le> 2 ^ 34) (concat (map (edge_connectors types) edges))
     \<and> list_all (\<lambda>t. spillable (sv_node_type env) (node_type_of t)) types"

definition names_fit ::
  "(string \<times> string \<times> node_staged_row) list \<Rightarrow> (string \<times> string \<times> edge_staged_row) list \<Rightarrow> (string \<times> string) list \<Rightarrow> bool" where
  "names_fit nodes edges types \<longleftrightarrow>
     names_ok (fst ` set nodes \<union> fst ` set edges \<union> snd ` set types) \<and> fst ` set nodes \<inter> fst ` set edges = {}"

definition accumulator_ok :: "accumulator \<Rightarrow> bool" where
  "accumulator_ok a \<longleftrightarrow> (\<exists>process_id sequence. ac_run_root a = run_root_path (ac_staging_dir a) process_id sequence)
     \<and> 0 < ac_chunk_limit a \<and> ac_chunk_limit a \<le> 2 ^ 62 \<and> ac_output_chunk_limit a \<le> 2 ^ 62"

section \<open>Inside and outside the run directory\<close>

definition same_outside :: "string \<Rightarrow> workspace \<Rightarrow> workspace \<Rightarrow> bool" where
  "same_outside base w w' \<longleftrightarrow> (\<forall>path. \<not> starts_with (base @ ''/'') path \<longrightarrow> ws_files w' path = ws_files w path)"

definition same_inside :: "string \<Rightarrow> workspace \<Rightarrow> workspace \<Rightarrow> bool" where
  "same_inside base w w' \<longleftrightarrow> (\<forall>path. starts_with (base @ ''/'') path \<longrightarrow> ws_files w' path = ws_files w path)"

lemma same_outside_trans: "same_outside base w w' \<Longrightarrow> same_outside base w' w'' \<Longrightarrow> same_outside base w w''"
  by (simp add: same_outside_def)

lemma same_outside_refl [simp]: "ws_files w' = ws_files w \<Longrightarrow> same_outside base w w'"
  by (simp add: same_outside_def)

lemma run_file_inside: "run_file_of base prefix n path \<Longrightarrow> starts_with (base @ ''/'') path"
  by (auto simp: run_file_of_def run_path_def starts_with_def)

lemma touches_inside: "touches base prefix w w' \<Longrightarrow> same_outside base w w'"
  using run_file_inside by (fastforce simp: touches_def same_outside_def)

definition all_outside :: "string \<Rightarrow> 'g chunk_format \<Rightarrow> 'g chunk list \<Rightarrow> bool" where
  "all_outside base fmt ks \<longleftrightarrow> (\<forall>k\<in>set ks. \<not> starts_with (base @ ''/'') (chunk_file fmt k))"

lemma writes_outside: "writes fmt ks w w' \<Longrightarrow> all_outside base fmt ks \<Longrightarrow> same_inside base w w'"
  unfolding writes_def all_outside_def same_inside_def by (metis imageE)

lemma spool_ready_inside: "spool_ready sr s w xs \<Longrightarrow> same_inside (sl_root s) w w' \<Longrightarrow> spool_ready sr s w' xs"
  by (erule spool_ready_frame) (auto simp: same_inside_def dest: run_file_inside)

lemma sink_view_outside:
  assumes "sink_view fmt ks c index wr st n (ws_files w)" and "all_outside base fmt ks" and "same_outside base w w'"
  shows "sink_view fmt ks c index wr st n (ws_files w')"
proof -
  have "ws_files w' (cf_path fmt t i) = ws_files w (cf_path fmt t i)" if "(t, i, rows) \<in> set (butlast ks)" for t i rows
    using in_set_butlastD [OF that] assms(2,3) by (fastforce simp: all_outside_def same_outside_def)
  with assms(1) show ?thesis unfolding sink_view_def by fastforce
qed

lemma connector_inv_outside:
  assumes "connector_inv dir limit c w ks" and "all_outside base (connector_format dir) ks" and "same_outside base w w'"
  shows "connector_inv dir limit c w' ks"
  using assms(1) sink_view_outside [OF _ assms(2,3)] unfolding connector_inv_def by blast

lemma json_inv_outside:
  assumes "json_inv dir limit j w ks" and "all_outside base (json_format dir) ks" and "same_outside base w w'"
  shows "json_inv dir limit j w' ks"
proof -
  show ?thesis using assms(1) sink_view_outside [OF _ assms(2,3)] unfolding json_inv_def by blast
qed

lemma starts_with_prefix: "starts_with p s \<longleftrightarrow> (\<exists>t. s = p @ t)"
  unfolding starts_with_def by (metis append_eq_conv_conj append_take_drop_id)

lemma outside_head: "c \<noteq> CHR ''.'' \<Longrightarrow> \<not> starts_with (run_root_path dir process_id sequence @ ''/'') (dir @ CHR ''/'' # c # cs)"
  by (auto simp: starts_with_prefix run_root_path_def)

lemma json_chunks_outside:
  assumes "accumulator_ok a" and "names_ok (fst ` set rows)"
  shows "all_outside (ac_run_root a) (json_format (ac_staging_dir a)) (chunked (json_format (ac_staging_dir a)) limit rows)"
proof -
  obtain process_id sequence where base: "ac_run_root a = run_root_path (ac_staging_dir a) process_id sequence"
    using assms(1) by (auto simp: accumulator_ok_def)
  have "\<not> starts_with (ac_run_root a @ ''/'') (cf_path (json_format (ac_staging_dir a)) t i)"
    if "(t, i, encs) \<in> set (chunked (json_format (ac_staging_dir a)) limit rows)" for t i encs
  proof -
    have "(t, i) \<in> chunk_name ` set (chunked (json_format (ac_staging_dir a)) limit rows)" using that by force
    then have plain: "plain_name t" using chunked_names_subset assms(2) by (fastforce simp: names_ok_def)
    then obtain c cs where c: "lower_name t = c # cs" "ascii_alphanumeric c"
      using lower_name_alnum [OF plain] by (cases t) (auto simp: plain_name_def lower_name_def)
    then have "c \<noteq> CHR ''.''" using not_alnum by auto
    from outside_head [OF this] show ?thesis using c plain
      by (simp add: base chunked_output_path_suffix output_file_stem_plain)
  qed
  then show ?thesis by (auto simp: all_outside_def)
qed

section \<open>First pass: the groups\<close>

abbreviation node_bytes :: "staging_env \<Rightarrow> (string \<times> string) list \<Rightarrow> string" where
  "node_bytes env types \<equiv> concat (map (record_bytes (sv_node_type env)) (map node_type_of types))"

abbreviation edge_bytes :: "staging_env \<Rightarrow> (string \<times> string \<times> edge_staged_row) list \<Rightarrow> string" where
  "edge_bytes env edges \<equiv> concat (map (record_bytes (sv_merged_edge env)) (map merged_edge_of edges))"

definition table_rows :: "('r, 'z) row_codec_scheme \<Rightarrow> (string \<times> string \<times> 'r) list \<Rightarrow> (string \<times> string) list" where
  "table_rows codec items = map (\<lambda>(table, ident, row). (table, encoding codec row)) items"

definition table_chunks :: "accumulator \<Rightarrow> ('r, 'z) row_codec_scheme \<Rightarrow> (string \<times> string \<times> 'r) list \<Rightarrow> string chunk list" where
  "table_chunks a codec items = chunked (json_format (ac_staging_dir a)) (ac_output_chunk_limit a) (table_rows codec items)"

lemma table_rows_fst: "map fst (table_rows codec items) = map fst items" "fst ` set (table_rows codec items) = fst ` set items"
  by (induction items) (auto simp: table_rows_def)

lemma table_rows_append: "table_rows codec (xs @ ys) = table_rows codec xs @ table_rows codec ys"
  by (simp add: table_rows_def)

text \<open>Items that can be written as table files: sorted, with names and sizes that fit.\<close>

definition table_items :: "accumulator \<Rightarrow> ('r, 'z) row_codec_scheme \<Rightarrow> (string \<times> string \<times> 'r) list \<Rightarrow> bool" where
  "table_items a codec items \<longleftrightarrow> accumulator_ok a \<and> sorted (map fst items) \<and> names_ok (fst ` set items) \<and> length items < 2 ^ 21
     \<and> list_all (\<lambda>(table, ident, row). row_fits codec row) items"

lemma table_items_prefix: "table_items a codec (xs @ ys) \<Longrightarrow> table_items a codec xs"
  by (auto simp: table_items_def sorted_append intro: names_ok_subset)

lemma table_chunks_facts:
  assumes "table_items a codec items"
  shows "distinct (map (chunk_file (json_format (ac_staging_dir a))) (table_chunks a codec items))"
    and "sink_small (json_format (ac_staging_dir a)) (table_chunks a codec items)"
    and "all_outside (ac_run_root a) (json_format (ac_staging_dir a)) (table_chunks a codec items)"
proof -
  show "distinct (map (chunk_file (json_format (ac_staging_dir a))) (table_chunks a codec items))"
    using assms unfolding table_chunks_def by (intro json_files_distinct) (simp_all add: table_rows_fst table_items_def)
  have "\<forall>(table, enc)\<in>set (table_rows codec items). length enc \<le> 2 ^ 34"
  proof clarify
    fix table enc assume "(table, enc) \<in> set (table_rows codec items)"
    then obtain ident row where "(table, ident, row) \<in> set items" "enc = encoding codec row" by (auto simp: table_rows_def)
    with assms have "length enc \<le> 2 ^ 33" by (auto simp: table_items_def list_all_iff row_fits_def)
    then show "length enc \<le> 2 ^ 34" by simp
  qed
  moreover have "length (table_rows codec items) < 2 ^ 21" "ac_output_chunk_limit a \<le> 2 ^ 62"
    using assms by (simp_all add: table_rows_def table_items_def accumulator_ok_def)
  ultimately show "sink_small (json_format (ac_staging_dir a)) (table_chunks a codec items)"
    unfolding table_chunks_def by (intro chunked_small) simp_all
  show "all_outside (ac_run_root a) (json_format (ac_staging_dir a)) (table_chunks a codec items)"
    using assms unfolding table_chunks_def by (intro json_chunks_outside) (simp_all add: table_items_def table_rows_fst)
qed

text \<open>A row more, whatever else lives in the run directory.\<close>

lemma table_push:
  assumes "json_inv (ac_staging_dir a) (ac_output_chunk_limit a) j w (table_chunks a codec items)"
    and "table_items a codec (items @ (table, ident, row) # rest)"
  shows "\<exists>j' w'. json_push codec table row (j, w) = Inr (j', w')
     \<and> json_inv (ac_staging_dir a) (ac_output_chunk_limit a) j' w' (table_chunks a codec (items @ [(table, ident, row)]))
     \<and> same_inside (ac_run_root a) w w' \<and> writes (json_format (ac_staging_dir a)) (table_chunks a codec items) w w'"
proof -
  have items: "table_items a codec items" using assms(2) by (rule table_items_prefix)
  have row: "rc_encode codec row = Inr (encoding codec row)" "length (encoding codec row) \<le> 2 ^ 33"
    using assms(2) by (auto simp: table_items_def row_fits_def)
  from json_push_place [OF assms(1) table_chunks_facts(2,1) [OF items] row, of table] obtain j' w' where
    push: "json_push codec table row (j, w) = Inr (j', w')"
      "json_inv (ac_staging_dir a) (ac_output_chunk_limit a) j' w'
         (place (json_format (ac_staging_dir a)) (ac_output_chunk_limit a) (table, encoding codec row) (table_chunks a codec items))"
      "writes (json_format (ac_staging_dir a)) (table_chunks a codec items) w w'" by blast
  moreover have "table_chunks a codec (items @ [(table, ident, row)]) =
      place (json_format (ac_staging_dir a)) (ac_output_chunk_limit a) (table, encoding codec row) (table_chunks a codec items)"
    by (simp add: table_chunks_def table_rows_def chunked_snoc)
  ultimately show ?thesis using writes_outside [OF push(3) table_chunks_facts(3) [OF items]] by auto
qed

text \<open>
  The state of the grouping loop: \<open>ns\<close>, \<open>es\<close> and \<open>ts\<close> have been written, and what is left of the
  nodes, edges and types, with the open groups in front, collapses to what is still missing.
\<close>

definition groups_written ::
  "staging_env \<Rightarrow> accumulator \<Rightarrow> (string \<times> string \<times> node_staged_row) list \<Rightarrow> (string \<times> string \<times> edge_staged_row) list
    \<Rightarrow> (string \<times> string) list \<Rightarrow> workspace \<times> group_state \<Rightarrow> bool" where
  "groups_written env a ns es ts = (\<lambda>(w, g).
     json_inv (ac_staging_dir a) (ac_output_chunk_limit a) (gs_nodes g) w (table_chunks a (sv_node_row env) ns)
     \<and> gs_merged_edges g = edge_bytes env es \<and> gs_node_types g = node_bytes env ts \<and> gs_unique_node_count g = length ts
     \<and> spool_ready (sv_endpoint env) (gs_endpoints g) w (concat (map edge_requests es))
     \<and> sl_root (gs_endpoints g) = ac_run_root a \<and> sl_prefix (gs_endpoints g) = ''endpoints'')"

definition with_pending :: "'a option \<Rightarrow> 'a list \<Rightarrow> 'a list" where
  "with_pending grp rest = (case grp of None \<Rightarrow> rest | Some x \<Rightarrow> x # rest)"

definition groups_ok ::
  "staging_env \<Rightarrow> accumulator \<Rightarrow> (string \<times> string \<times> node_staged_row) list \<Rightarrow> (string \<times> string \<times> edge_staged_row) list \<Rightarrow> (string \<times> string) list \<Rightarrow> bool" where
  "groups_ok env a nodes edges types \<longleftrightarrow>
     codecs_ok env \<and> records_fit env nodes edges types \<and> table_items a (sv_node_row env) nodes
     \<and> length edges < 2 ^ 19 \<and> length types < 2 ^ 20"

definition grouping ::
  "staging_env \<Rightarrow> accumulator \<Rightarrow> (string \<times> string \<times> node_staged_row) list \<Rightarrow> (string \<times> string \<times> edge_staged_row) list
    \<Rightarrow> (string \<times> string) list \<Rightarrow> (string \<times> string \<times> node_staged_row) list \<Rightarrow> (string \<times> string \<times> edge_staged_row) list
    \<Rightarrow> (string \<times> string) list \<Rightarrow> workspace \<times> group_state \<Rightarrow> bool" where
  "grouping env a nodes edges types n e t = (\<lambda>(w, g).
     \<exists>ns es ts. groups_written env a ns es ts (w, g)
       \<and> nodes = ns @ collapse row_key (merge_rows merge_node_value) (with_pending (gs_node_group g) n)
       \<and> edges = es @ collapse row_key (merge_rows merge_edge_value) (with_pending (gs_edge_group g) e)
       \<and> types = ts @ collapse fst (\<lambda>a b. a) (with_pending (gs_type_group g) t))"

text \<open>Writing the open group.\<close>

lemma flush_node_group_ok:
  assumes fit: "groups_ok env a nodes edges types" and inv: "grouping env a nodes edges types n e t (w, g)"
    and complete: "n = [] \<or> (\<forall>x. gs_node_group g = Some x \<longrightarrow> row_key (hd n) \<noteq> row_key x)"
  shows "\<exists>w' g'. flush_node_group env (w, g) = Inr (w', g') \<and> grouping env a nodes edges types n e t (w', g')
     \<and> gs_node_group g' = None \<and> gs_edge_group g' = gs_edge_group g \<and> gs_type_group g' = gs_type_group g"
proof (cases "gs_node_group g")
  case None
  with inv show ?thesis by (simp add: flush_node_group_def)
next
  case (Some x)
  obtain table ident row where x: "x = (table, ident, row)" by (cases x)
  from inv obtain ns es ts where written: "groups_written env a ns es ts (w, g)"
    and nodes: "nodes = ns @ collapse row_key (merge_rows merge_node_value) (x # n)"
    and rest: "edges = es @ collapse row_key (merge_rows merge_edge_value) (with_pending (gs_edge_group g) e)"
      "types = ts @ collapse fst (\<lambda>a b. a) (with_pending (gs_type_group g) t)"
    by (auto simp: grouping_def with_pending_def Some)
  have flush: "collapse row_key (merge_rows merge_node_value) (x # n) = x # collapse row_key (merge_rows merge_node_value) n"
    using complete Some by (intro collapse_flush) auto
  have items: "table_items a (sv_node_row env) (ns @ (table, ident, row) # collapse row_key (merge_rows merge_node_value) n)"
    using fit nodes by (simp add: groups_ok_def flush [unfolded x] x)
  from table_push [OF _ items, of "gs_nodes g" w] written obtain j w' where
    push: "json_push (sv_node_row env) table row (gs_nodes g, w) = Inr (j, w')"
      "json_inv (ac_staging_dir a) (ac_output_chunk_limit a) j w' (table_chunks a (sv_node_row env) (ns @ [x]))"
      "same_inside (ac_run_root a) w w'" by (auto simp: groups_written_def x)
  let ?g = "g\<lparr>gs_nodes := j, gs_node_group := None\<rparr>"
  have "groups_written env a (ns @ [x]) es ts (w', ?g)"
    using written push(2,3) by (auto simp: groups_written_def intro: spool_ready_inside)
  then have "grouping env a nodes edges types n e t (w', ?g)"
    unfolding grouping_def prod.case using nodes rest flush by (intro exI [of _ "ns @ [x]"] exI) (simp add: with_pending_def)
  moreover have "flush_node_group env (w, g) = Inr (w', ?g)" by (simp add: flush_node_group_def Some x push(1))
  ultimately show ?thesis by auto
qed

lemma record_push:
  assumes "spillable sr rec"
  shows "\<exists>m'. record_file_push sr rec (concat (map (record_bytes sr) xs), m) = Inr (concat (map (record_bytes sr) (xs @ [rec])), m')"
  using record_file_push_ok [OF assms] by simp

lemma flush_edge_group_ok:
  assumes fit: "groups_ok env a nodes edges types" and inv: "grouping env a nodes edges types n e t (w, g)"
    and complete: "e = [] \<or> (\<forall>x. gs_edge_group g = Some x \<longrightarrow> row_key (hd e) \<noteq> row_key x)"
  shows "\<exists>w' g'. flush_edge_group env (w, g) = Inr (w', g') \<and> grouping env a nodes edges types n e t (w', g')
     \<and> gs_node_group g' = gs_node_group g \<and> gs_edge_group g' = None \<and> gs_type_group g' = gs_type_group g"
proof (cases "gs_edge_group g")
  case None
  with inv show ?thesis by (simp add: flush_edge_group_def)
next
  case (Some x)
  obtain table ident row where x: "x = (table, ident, row)" by (cases x)
  from inv obtain ns es ts where written: "groups_written env a ns es ts (w, g)"
    and edges: "edges = es @ collapse row_key (merge_rows merge_edge_value) (x # e)"
    and rest: "nodes = ns @ collapse row_key (merge_rows merge_node_value) (with_pending (gs_node_group g) n)"
      "types = ts @ collapse fst (\<lambda>a b. a) (with_pending (gs_type_group g) t)"
    by (auto simp: grouping_def with_pending_def Some)
  have flush: "collapse row_key (merge_rows merge_edge_value) (x # e) = x # collapse row_key (merge_rows merge_edge_value) e"
    using complete Some by (intro collapse_flush) auto
  have fits: "spillable (sv_merged_edge env) (merged_edge_of x)" "list_all (spillable (sv_endpoint env)) (edge_requests x)"
    "length es + 1 < 2 ^ 19" "table_items a (sv_node_row env) ns"
    using fit edges rest(1) by (auto simp: groups_ok_def records_fit_def flush dest: table_items_prefix)
  have "length (concat (map edge_requests es)) = 2 * length es" by (induction es) (auto simp: edge_requests_def)
  moreover have "length (edge_requests x) = 2" by (simp add: x edge_requests_def)
  ultimately have room: "length (concat (map edge_requests es)) + length (edge_requests x) < 2 ^ 20" using fits(3) by simp
  from spool_push_all [OF _ fits(2) room, of "gs_endpoints g" w] written obtain s w1 where
    push: "try_fold (spool_push (sv_endpoint env)) (edge_requests x) (gs_endpoints g, w) = Inr (s, w1)"
      "spool_ready (sv_endpoint env) s w1 (concat (map edge_requests es) @ edge_requests x)" "same_spool (gs_endpoints g) s"
      "touches (ac_run_root a) ''endpoints'' w w1" by (auto simp: groups_written_def)
  from record_push [OF fits(1), of "map merged_edge_of es" "ws_metrics w1"] written obtain m where
    rec: "record_file_push (sv_merged_edge env) (merged_edge_of x) (gs_merged_edges g, ws_metrics w1) = Inr (edge_bytes env (es @ [x]), m)"
    by (auto simp: groups_written_def)
  let ?g = "g\<lparr>gs_edge_group := None, gs_endpoints := s, gs_merged_edges := edge_bytes env (es @ [x])\<rparr>" and ?w = "w1\<lparr>ws_metrics := m\<rparr>"
  have "json_inv (ac_staging_dir a) (ac_output_chunk_limit a) (gs_nodes g) ?w (table_chunks a (sv_node_row env) ns)"
    using written table_chunks_facts(3) [OF fits(4)] touches_inside [OF push(4)]
    by (auto simp: groups_written_def same_outside_def intro: json_inv_outside)
  then have "groups_written env a ns (es @ [x]) ts (?w, ?g)"
    using written push(2,3) spool_ready_inside [OF push(2), of ?w] by (auto simp: groups_written_def same_spool_def same_inside_def)
  then have "grouping env a nodes edges types n e t (?w, ?g)"
    unfolding grouping_def prod.case using edges rest flush by (intro exI [of _ ns] exI [of _ "es @ [x]"] exI) (simp add: with_pending_def)
  moreover have "flush_edge_group env (w, g) = Inr (?w, ?g)"
    using push(1) rec unfolding x edge_requests_def merged_edge_of_def
    by (auto simp: flush_edge_group_def Some x write_merged_edge_def try_op_def split: sum.splits)
  ultimately show ?thesis by auto
qed

lemma flush_type_group_ok:
  assumes fit: "groups_ok env a nodes edges types" and inv: "grouping env a nodes edges types n e t (w, g)"
    and complete: "t = [] \<or> (\<forall>x. gs_type_group g = Some x \<longrightarrow> fst (hd t) \<noteq> fst x)"
  shows "\<exists>w' g'. flush_type_group env (w, g) = Inr (w', g') \<and> grouping env a nodes edges types n e t (w', g')
     \<and> gs_node_group g' = gs_node_group g \<and> gs_edge_group g' = gs_edge_group g \<and> gs_type_group g' = None"
proof (cases "gs_type_group g")
  case None
  with inv show ?thesis by (simp add: flush_type_group_def)
next
  case (Some x)
  from inv obtain ns es ts where written: "groups_written env a ns es ts (w, g)"
    and types: "types = ts @ collapse fst (\<lambda>a b. a) (x # t)"
    and rest: "nodes = ns @ collapse row_key (merge_rows merge_node_value) (with_pending (gs_node_group g) n)"
      "edges = es @ collapse row_key (merge_rows merge_edge_value) (with_pending (gs_edge_group g) e)"
    by (auto simp: grouping_def with_pending_def Some)
  have flush: "collapse fst (\<lambda>a b. a) (x # t) = x # collapse fst (\<lambda>a b. a) t"
    using complete Some by (intro collapse_flush) auto
  have fits: "spillable (sv_node_type env) (node_type_of x)" "length ts < 2 ^ 20"
    using fit types by (auto simp: groups_ok_def records_fit_def flush)
  from record_push [OF fits(1), of "map node_type_of ts" "ws_metrics w"] written obtain m where
    rec: "record_file_push (sv_node_type env) (node_type_of x) (gs_node_types g, ws_metrics w) = Inr (node_bytes env (ts @ [x]), m)"
    by (auto simp: groups_written_def)
  have count: "add_u64 (gs_unique_node_count g) 1 = Some (Suc (length ts))"
    using written fits(2) by (simp add: groups_written_def add_u64_def max_u64_def)
  let ?g = "g\<lparr>gs_node_types := node_bytes env (ts @ [x]), gs_unique_node_count := Suc (length ts), gs_type_group := None\<rparr>" and ?w = "w\<lparr>ws_metrics := m\<rparr>"
  have "json_inv (ac_staging_dir a) (ac_output_chunk_limit a) (gs_nodes g) ?w (table_chunks a (sv_node_row env) ns)"
    "spool_ready (sv_endpoint env) (gs_endpoints g) ?w (concat (map edge_requests es))"
    using written by (auto simp: groups_written_def json_inv_def same_inside_def intro: spool_ready_inside)
  then have "groups_written env a ns es (ts @ [x]) (?w, ?g)" using written by (simp add: groups_written_def)
  then have "grouping env a nodes edges types n e t (?w, ?g)"
    unfolding grouping_def prod.case using types rest flush by (intro exI [of _ ns] exI [of _ es] exI [of _ "ts @ [x]"]) (simp add: with_pending_def)
  moreover have "flush_type_group env (w, g) = Inr (?w, ?g)"
    using rec count by (cases x) (simp add: flush_type_group_def Some node_type_of_def)
  ultimately show ?thesis by auto
qed

text \<open>One record: it opens, extends or ends the groups.\<close>

lemma grouping_node:
  assumes inv: "grouping env a nodes edges types (x # n) e t (w, g)" and "gs_node_group g = None"
  shows "grouping env a nodes edges types n e t (w, g\<lparr>gs_node_group := Some x\<rparr>)"
  using assms by (auto simp: grouping_def with_pending_def groups_written_def)

lemma grouping_edge:
  assumes inv: "grouping env a nodes edges types n (x # e) t (w, g)" and "gs_edge_group g = None"
  shows "grouping env a nodes edges types n e t (w, g\<lparr>gs_edge_group := Some x\<rparr>)"
  using assms by (auto simp: grouping_def with_pending_def groups_written_def)

lemma grouping_type:
  assumes inv: "grouping env a nodes edges types n e (x # t) (w, g)" and "gs_type_group g = None"
  shows "grouping env a nodes edges types n e t (w, g\<lparr>gs_type_group := Some x\<rparr>)"
  using assms by (auto simp: grouping_def with_pending_def groups_written_def)

lemma group_node_record:
  assumes fit: "groups_ok env a nodes edges types" and inv: "grouping env a nodes edges types ((table, ident, row) # n) e t (w, g)"
  shows "\<exists>s. group_record env (RawNode table ident order row) (w, g) = Inr s \<and> grouping env a nodes edges types n e t s"
proof (cases "\<exists>row'. gs_node_group g = Some (table, ident, row')")
  case True
  then obtain row' where grp: "gs_node_group g = Some (table, ident, row')" by blast
  have "grouping env a nodes edges types n e t (w, g\<lparr>gs_node_group := Some (table, ident, merge_node_value row' row)\<rparr>)"
    using inv by (auto simp: grouping_def groups_written_def with_pending_def grp row_key_def merge_rows_def)
  then show ?thesis by (simp add: group_record_def grp)
next
  case False
  then have "\<forall>x. gs_node_group g = Some x \<longrightarrow> row_key (hd ((table, ident, row) # n)) \<noteq> row_key x" by (auto simp: row_key_def)
  with flush_node_group_ok [OF fit inv] obtain w' g' where flush: "flush_node_group env (w, g) = Inr (w', g')"
    "grouping env a nodes edges types ((table, ident, row) # n) e t (w', g')" "gs_node_group g' = None" by blast
  have "group_record env (RawNode table ident order row) (w, g) = Inr (w', g'\<lparr>gs_node_group := Some (table, ident, row)\<rparr>)"
    using False flush(1,3) by (auto simp: group_record_def flush_node_group_def split: option.splits)
  then show ?thesis using grouping_node [OF flush(2,3)] by blast
qed

lemma group_edge_record:
  assumes fit: "groups_ok env a nodes edges types" and inv: "grouping env a nodes edges types [] ((table, ident, row) # e) t (w, g)"
  shows "\<exists>s. group_record env (RawEdge table ident order row) (w, g) = Inr s \<and> grouping env a nodes edges types [] e t s"
proof -
  from flush_node_group_ok [OF fit inv] obtain w1 g1 where node: "flush_node_group env (w, g) = Inr (w1, g1)"
    "grouping env a nodes edges types [] ((table, ident, row) # e) t (w1, g1)" by blast
  show ?thesis
  proof (cases "\<exists>row'. gs_edge_group g1 = Some (table, ident, row')")
    case True
    then obtain row' where grp: "gs_edge_group g1 = Some (table, ident, row')" by blast
    have "grouping env a nodes edges types [] e t (w1, g1\<lparr>gs_edge_group := Some (table, ident, merge_edge_value row' row)\<rparr>)"
      using node(2) by (auto simp: grouping_def groups_written_def with_pending_def grp row_key_def merge_rows_def)
    then show ?thesis by (simp add: group_record_def node(1) grp)
  next
    case False
    then have "\<forall>x. gs_edge_group g1 = Some x \<longrightarrow> row_key (hd ((table, ident, row) # e)) \<noteq> row_key x" by (auto simp: row_key_def)
    with flush_edge_group_ok [OF fit node(2)] obtain w' g' where flush: "flush_edge_group env (w1, g1) = Inr (w', g')"
      "grouping env a nodes edges types [] ((table, ident, row) # e) t (w', g')" "gs_edge_group g' = None" by blast
    have "group_record env (RawEdge table ident order row) (w, g) = Inr (w', g'\<lparr>gs_edge_group := Some (table, ident, row)\<rparr>)"
      using False flush(1,3) node(1) by (auto simp: group_record_def flush_edge_group_def split: option.splits)
    then show ?thesis using grouping_edge [OF flush(2,3)] by blast
  qed
qed

lemma group_type_record:
  assumes fit: "groups_ok env a nodes edges types" and inv: "grouping env a nodes edges types n [] ((ident, table) # t) (w, g)"
  shows "\<exists>s. group_record env (RawNodeType ident table order) (w, g) = Inr s \<and> grouping env a nodes edges types n [] t s"
proof -
  from flush_edge_group_ok [OF fit inv] obtain w1 g1 where edge: "flush_edge_group env (w, g) = Inr (w1, g1)"
    "grouping env a nodes edges types n [] ((ident, table) # t) (w1, g1)" by blast
  show ?thesis
  proof (cases "\<exists>table'. gs_type_group g1 = Some (ident, table')")
    case True
    then obtain table' where grp: "gs_type_group g1 = Some (ident, table')" by blast
    have "grouping env a nodes edges types n [] t (w1, g1)"
      using edge(2) by (auto simp: grouping_def with_pending_def grp)
    then show ?thesis by (simp add: group_record_def edge(1) grp)
  next
    case False
    then have "\<forall>x. gs_type_group g1 = Some x \<longrightarrow> fst (hd ((ident, table) # t)) \<noteq> fst x" by auto
    with flush_type_group_ok [OF fit edge(2)] obtain w' g' where flush: "flush_type_group env (w1, g1) = Inr (w', g')"
      "grouping env a nodes edges types n [] ((ident, table) # t) (w', g')" "gs_type_group g' = None" by blast
    have "group_record env (RawNodeType ident table order) (w, g) = Inr (w', g'\<lparr>gs_type_group := Some (ident, table)\<rparr>)"
      using False flush(1,3) edge(1) by (auto simp: group_record_def flush_type_group_def split: option.splits)
    then show ?thesis using grouping_type [OF flush(2,3)] by blast
  qed
qed

lemma group_record_ok:
  assumes fit: "groups_ok env a nodes edges types" and sorted: "sorted (map raw_sort_key (r # post))"
    and inv: "grouping env a nodes edges types (List.map_filter node_group_of (r # post)) (List.map_filter edge_group_of (r # post))
        (List.map_filter type_group_of (r # post)) (w, g)"
  shows "\<exists>s. group_record env r (w, g) = Inr s
     \<and> grouping env a nodes edges types (List.map_filter node_group_of post) (List.map_filter edge_group_of post)
          (List.map_filter type_group_of post) s"
proof (cases r)
  case (RawNode table ident order row)
  with inv show ?thesis using group_node_record [OF fit] by (simp add: List.map_filter_simps node_group_of_def edge_group_of_def type_group_of_def)
next
  case (RawEdge table ident order row)
  have "node_group_of x = None" if "x \<in> set post" for x
    using sorted that RawEdge by (auto simp: raw_groups split: raw_record.splits)
  then have "List.map_filter node_group_of post = []" by (induction post) (auto simp: List.map_filter_simps)
  with inv RawEdge show ?thesis using group_edge_record [OF fit] by (simp add: List.map_filter_simps node_group_of_def edge_group_of_def type_group_of_def)
next
  case (RawNodeType ident table order)
  have "edge_group_of x = None" if "x \<in> set post" for x
    using sorted that RawNodeType by (auto simp: raw_groups split: raw_record.splits)
  then have "List.map_filter edge_group_of post = []" by (induction post) (auto simp: List.map_filter_simps)
  with inv RawNodeType show ?thesis using group_type_record [OF fit] by (simp add: List.map_filter_simps node_group_of_def edge_group_of_def type_group_of_def)
qed

lemma grouping_frame:
  assumes fit: "groups_ok env a nodes edges types" and inv: "grouping env a nodes edges types n e t (w, g)"
    and frame: "touches (ac_run_root a) ''staged'' w w'"
  shows "grouping env a nodes edges types n e t (w', g)"
proof -
  from inv obtain ns es ts where written: "groups_written env a ns es ts (w, g)"
    and rest: "nodes = ns @ collapse row_key (merge_rows merge_node_value) (with_pending (gs_node_group g) n)"
      "edges = es @ collapse row_key (merge_rows merge_edge_value) (with_pending (gs_edge_group g) e)"
      "types = ts @ collapse fst (\<lambda>a b. a) (with_pending (gs_type_group g) t)"
    by (auto simp: grouping_def)
  have "table_items a (sv_node_row env) ns" using fit rest(1) by (auto simp: groups_ok_def dest: table_items_prefix)
  then have "groups_written env a ns es ts (w', g)"
    using written json_inv_outside [OF _ table_chunks_facts(3) touches_inside [OF frame]]
      touches_other [of "sv_endpoint env" "gs_endpoints g" w _ "''staged''" w'] frame by (auto simp: groups_written_def)
  with rest show ?thesis unfolding grouping_def by blast
qed

lemma flush_groups_ok:
  assumes fit: "groups_ok env a nodes edges types" and inv: "grouping env a nodes edges types [] [] [] (w, g)"
  shows "\<exists>w' g'. flush_groups env (w, g) = Inr (w', g') \<and> groups_written env a nodes edges types (w', g')"
proof -
  from flush_node_group_ok [OF fit inv] obtain w1 g1 where 1: "flush_node_group env (w, g) = Inr (w1, g1)"
    "grouping env a nodes edges types [] [] [] (w1, g1)" "gs_node_group g1 = None" by blast
  from flush_edge_group_ok [OF fit 1(2)] obtain w2 g2 where 2: "flush_edge_group env (w1, g1) = Inr (w2, g2)"
    "grouping env a nodes edges types [] [] [] (w2, g2)" "gs_node_group g2 = gs_node_group g1" "gs_edge_group g2 = None" by blast
  from flush_type_group_ok [OF fit 2(2)] obtain w3 g3 where 3: "flush_type_group env (w2, g2) = Inr (w3, g3)"
    "grouping env a nodes edges types [] [] [] (w3, g3)" "gs_node_group g3 = gs_node_group g2" "gs_edge_group g3 = gs_edge_group g2"
    "gs_type_group g3 = None" by blast
  from 3(2-5) 2(3,4) 1(3) have "groups_written env a nodes edges types (w3, g3)" by (simp add: grouping_def with_pending_def)
  then show ?thesis by (simp add: flush_groups_def 1(1) 2(1) 3(1))
qed

definition files_hold :: "'g chunk_format \<Rightarrow> 'g chunk list \<Rightarrow> workspace \<Rightarrow> bool" where
  "files_hold fmt ks w \<longleftrightarrow> (\<forall>(grp, index, rows)\<in>set ks. ws_files w (cf_path fmt grp index) = Some (chunk_text fmt rows))"

lemma files_hold_outside: "files_hold fmt ks w \<Longrightarrow> all_outside base fmt ks \<Longrightarrow> same_outside base w w' \<Longrightarrow> files_hold fmt ks w'"
  unfolding files_hold_def all_outside_def same_outside_def by fastforce

text \<open>The two record files in the run directory are not run files.\<close>

lemma record_paths:
  "starts_with (ac_run_root a @ ''/'') (merged_edges_path a)" "starts_with (ac_run_root a @ ''/'') (node_types_path a)"
  "merged_edges_path a \<noteq> node_types_path a"
  "hd prefix \<noteq> CHR ''m'' \<Longrightarrow> prefix \<noteq> [] \<Longrightarrow> \<not> run_file_of (ac_run_root a) prefix n (merged_edges_path a)"
  "hd prefix \<noteq> CHR ''n'' \<Longrightarrow> prefix \<noteq> [] \<Longrightarrow> \<not> run_file_of (ac_run_root a) prefix n (node_types_path a)"
  using run_file_prefix [of "ac_run_root a" prefix n "merged_edges_path a"] run_file_prefix [of "ac_run_root a" prefix n "node_types_path a"]
  by (auto simp: merged_edges_path_def node_types_path_def starts_with_prefix nth_append)

definition grouped_state ::
  "staging_env \<Rightarrow> accumulator \<Rightarrow> (string \<times> string \<times> edge_staged_row) list \<Rightarrow> (string \<times> string) list \<Rightarrow> group_state \<Rightarrow> workspace \<Rightarrow> bool" where
  "grouped_state env a edges types g w \<longleftrightarrow>
     gs_unique_node_count g = length types \<and> spool_ready (sv_endpoint env) (gs_endpoints g) w (concat (map edge_requests edges))
     \<and> sl_root (gs_endpoints g) = ac_run_root a \<and> sl_prefix (gs_endpoints g) = ''endpoints''
     \<and> ws_files w (merged_edges_path a) = Some (edge_bytes env edges) \<and> ws_files w (node_types_path a) = Some (node_bytes env types)"

lemma groups_finished:
  assumes fit: "groups_ok env a nodes edges types" and written: "groups_written env a nodes edges types (w, g)"
  shows "\<exists>w'. json_finish (gs_nodes g, w) = (map (chunk_statement (json_format (ac_staging_dir a))) (table_chunks a (sv_node_row env) nodes),
        length nodes, w')
     \<and> (let w'' = w'\<lparr>ws_files := (ws_files w')(merged_edges_path a \<mapsto> gs_merged_edges g, node_types_path a \<mapsto> gs_node_types g)\<rparr>
        in grouped_state env a edges types g w'' \<and> files_hold (json_format (ac_staging_dir a)) (table_chunks a (sv_node_row env) nodes) w'')"
proof -
  let ?fmt = "json_format (ac_staging_dir a)" and ?ks = "table_chunks a (sv_node_row env) nodes"
  have items: "table_items a (sv_node_row env) nodes" using fit by (simp add: groups_ok_def)
  have len: "length (concat (map chunk_rows ?ks)) = length nodes" by (simp add: table_chunks_def chunked_rows table_rows_def)
  from json_finish_inv [OF _ table_chunks_facts(1) [OF items]] written obtain w' where
    fin: "json_finish (gs_nodes g, w) = (map (chunk_statement ?fmt) ?ks, length nodes, w')"
      "files_hold ?fmt ?ks w'" "writes ?fmt ?ks w w'" unfolding len files_hold_def groups_written_def by blast
  let ?w = "w'\<lparr>ws_files := (ws_files w')(merged_edges_path a \<mapsto> gs_merged_edges g, node_types_path a \<mapsto> gs_node_types g)\<rparr>"
  have "same_outside (ac_run_root a) w' ?w" using record_paths(1,2) [of a] by (auto simp: same_outside_def)
  then have hold: "files_hold ?fmt ?ks ?w" by (rule files_hold_outside [OF fin(2) table_chunks_facts(3) [OF items]])
  have "spool_ready (sv_endpoint env) (gs_endpoints g) w' (concat (map edge_requests edges))"
    using written writes_outside [OF fin(3) table_chunks_facts(3) [OF items]] by (auto simp: groups_written_def intro: spool_ready_inside)
  then have "spool_ready (sv_endpoint env) (gs_endpoints g) ?w (concat (map edge_requests edges))"
    using written record_paths(4,5) [of "''endpoints''" a]
    by (elim spool_ready_frame) (auto simp: groups_written_def)
  then have "grouped_state env a edges types g ?w"
    using written record_paths(3) [of a] by (simp add: grouped_state_def groups_written_def)
  with hold fin(1) show ?thesis by (simp add: Let_def)
qed

lemma finish_groups_ok:
  assumes fit: "groups_ok env a (merged_nodes raw) (merged_edge_rows raw) (known_types raw)"
    and ordered: "sorted (map rr_source_order raw)" and room: "length raw < 2 ^ 20"
    and ready: "spool_ready (sv_raw env) s w raw" and root: "sl_root s = ac_run_root a" "sl_prefix s = ''staged''"
  shows "\<exists>g w'. finish_groups env a s w =
       Inr ((map (chunk_statement (json_format (ac_staging_dir a))) (table_chunks a (sv_node_row env) (merged_nodes raw)), length (merged_nodes raw)), g, w')
     \<and> grouped_state env a (merged_edge_rows raw) (known_types raw) g w'
     \<and> files_hold (json_format (ac_staging_dir a)) (table_chunks a (sv_node_row env) (merged_nodes raw)) w'"
proof -
  let ?rs = "sort_key raw_sort_key raw"
  let ?grouping = "\<lambda>post. grouping env a (merged_nodes raw) (merged_edge_rows raw) (known_types raw) (List.map_filter node_group_of post)
      (List.map_filter edge_group_of post) (List.map_filter type_group_of post)"
  have acc: "accumulator_ok a" and key: "sr_sort_key (sv_raw env) = raw_sort_key" and modest: "modest (sv_endpoint env)"
    using fit by (auto simp: groups_ok_def codecs_ok_def table_items_def)
  from spool_finish_yields [OF ready room] obtain q w1 where
    q: "spool_finish (sv_raw env) s w = Inr (q, w1)" "stream_yields (sv_raw env) (ac_run_root a) ''staged'' q ?rs" "length ?rs < stream_fuel q"
    by (auto simp: root key)
  from spool_new_ready [OF modest, of "ac_chunk_limit a" "ac_run_root a" "''endpoints''" w1] acc obtain ep where
    ep: "spool_new (ac_run_root a) ''endpoints'' (ac_chunk_limit a) = Inr ep" "spool_ready (sv_endpoint env) ep w1 []"
      "sl_root ep = ac_run_root a" "sl_prefix ep = ''endpoints''" by (auto simp: accumulator_ok_def)
  have start: "?grouping ?rs (w1, group_start a ep)"
    using ep by (auto simp: grouping_def groups_written_def group_start_def with_pending_def collapse_raw [OF ordered]
        table_chunks_def table_rows_def json_inv_new intro!: exI [of _ "[]"])
  have "spec True (while_some (stream_next (sv_raw env)) (\<lambda>r wg. lift_result (group_record env r wg)) (stream_fuel q) (q, w1) (group_start a ep))
     (\<lambda>(q', w', g'). \<forall>post. ?rs = ?rs @ post \<longrightarrow> ?grouping post (w', g'))"
  proof (rule sorted.while_some_spec [OF q(2,3), where P = "\<lambda>pre w g. \<forall>post. ?rs = pre @ post \<longrightarrow> ?grouping post (w, g)"])
    show "\<forall>post. ?rs = [] @ post \<longrightarrow> ?grouping post (w1, group_start a ep)" using start by simp
    show "\<forall>post. ?rs = pre @ post \<longrightarrow> ?grouping post (w', g)"
      if "\<forall>post. ?rs = pre @ post \<longrightarrow> ?grouping post (w, g)" "touches (ac_run_root a) ''staged'' w w'" for pre w w' g
      using that grouping_frame [OF fit] by blast
    fix pre r post w g assume rs: "?rs = pre @ r # post" and inv: "\<forall>post. ?rs = pre @ post \<longrightarrow> ?grouping post (w, g)"
    have "sorted (map raw_sort_key ?rs)" by simp
    then have "sorted (map raw_sort_key (r # post))" unfolding rs by (simp add: sorted_append)
    from group_record_ok [OF fit this] inv rs obtain s where "group_record env r (w, g) = Inr s" "?grouping post s" by blast
    then show "spec True (lift_result (group_record env r (w, g))) (\<lambda>(w', g'). \<forall>post. ?rs = (pre @ [r]) @ post \<longrightarrow> ?grouping post (w', g'))"
      using rs by (auto split: prod.split)
  qed
  then obtain q' w2 g where loop: "while_some (stream_next (sv_raw env)) (\<lambda>r wg. lift_result (group_record env r wg)) (stream_fuel q) (q, w1)
      (group_start a ep) = Inr (q', w2, g)" "?grouping [] (w2, g)" unfolding spec_True_iff by auto
  have "grouping env a (merged_nodes raw) (merged_edge_rows raw) (known_types raw) [] [] [] (w2, g)"
    using loop(2) by (simp add: List.map_filter_simps)
  from flush_groups_ok [OF fit this] obtain w3 g' where fl: "flush_groups env (w2, g) = Inr (w3, g')"
    "groups_written env a (merged_nodes raw) (merged_edge_rows raw) (known_types raw) (w3, g')" by blast
  from groups_finished [OF fit fl(2)] show ?thesis
    unfolding finish_groups_def by (auto simp: q(1) ep(1) loop(1) fl(1) Let_def)
qed

section \<open>Second pass: the endpoints\<close>

definition kept :: "accumulator \<Rightarrow> workspace \<Rightarrow> workspace \<Rightarrow> bool" where
  "kept a w w' \<longleftrightarrow> same_outside (ac_run_root a) w w' \<and> ws_files w' (merged_edges_path a) = ws_files w (merged_edges_path a)
     \<and> ws_files w' (node_types_path a) = ws_files w (node_types_path a)"

lemma kept_refl [simp]: "kept a w w"
  by (simp add: kept_def)

lemma kept_trans: "kept a w w' \<Longrightarrow> kept a w' w'' \<Longrightarrow> kept a w w''"
  by (auto simp: kept_def intro: same_outside_trans)

lemma kept_touches:
  assumes "touches (ac_run_root a) prefix w w'" and "prefix \<noteq> []" and "hd prefix \<noteq> CHR ''m''" and "hd prefix \<noteq> CHR ''n''"
  shows "kept a w w'"
  using touches_inside [OF assms(1)] record_paths(4,5) [of prefix a] assms by (simp add: kept_def touches_def)

text \<open>The node types that are still to come, the current one first.\<close>

definition types_left :: "staging_env \<Rightarrow> resolved_node_type option \<times> string \<Rightarrow> (string \<times> string) list \<Rightarrow> bool" where
  "types_left env = (\<lambda>(current, reader) ts.
     list_all (\<lambda>t. rereadable (sv_node_type env) (node_type_of t)) ts
     \<and> (case ts of [] \<Rightarrow> current = None | t # rest \<Rightarrow> current = Some (node_type_of t) \<and> reader = node_bytes env rest))"

lemma node_type_of_simps [simp]: "nt_id (node_type_of t) = fst t" "nt_table (node_type_of t) = snd t"
  by (simp_all add: node_type_of_def split: prod.split)

lemma advance_node_type_ok:
  "types_left env st ts \<Longrightarrow> length ts < fuel \<Longrightarrow>
     \<exists>st'. advance_node_type env fuel node_id st = Inr st' \<and> types_left env st' (dropWhile (\<lambda>t. fst t < node_id) ts)"
proof (induction ts arbitrary: st fuel)
  case Nil
  then show ?case by (cases st; cases fuel) (auto simp: types_left_def)
next
  case (Cons t ts)
  from Cons.prems obtain fuel' where fuel: "fuel = Suc fuel'" "length ts < fuel'" by (cases fuel) auto
  obtain reader where st: "st = (Some (node_type_of t), reader)" "reader = node_bytes env ts"
    using Cons.prems(1) by (cases st) (auto simp: types_left_def)
  have good: "list_all (\<lambda>t. rereadable (sv_node_type env) (node_type_of t)) ts" using Cons.prems(1) st by (simp add: types_left_def)
  show ?case
  proof (cases "fst t < node_id")
    case True
    show ?thesis
    proof (cases ts)
      case Nil
      with True st Cons.IH [of "(None, [])" fuel'] fuel show ?thesis
        by (auto simp: recs.read_next_end types_left_def)
    next
      case (Cons t' rest)
      then have "record_file_next (sv_node_type env) reader = Inr (Some (node_type_of t', node_bytes env rest))"
        using good st(2) by (simp add: recs.read_next_record)
      moreover have "types_left env (Some (node_type_of t'), node_bytes env rest) ts" using good Cons by (simp add: types_left_def)
      ultimately show ?thesis using Cons.IH fuel True by (auto simp: st(1))
    qed
  next
    case False
    with Cons.prems show ?thesis by (auto simp: fuel st)
  qed
qed

lemma types_left_fuel: "types_left env (current, reader) ts \<Longrightarrow> length ts < Suc (Suc (length reader))"
proof (cases ts)
  case (Cons t rest)
  assume left: "types_left env (current, reader) ts"
  with Cons have "list_all (rereadable (sv_node_type env)) (map node_type_of rest)" "reader = node_bytes env rest"
    by (auto simp: types_left_def list_all_length)
  with recs.length_records [OF this(1)] Cons show ?thesis by simp
qed simp

text \<open>A merge join: what is left of the sorted types decides the lookup.\<close>

lemma map_of_skip: "map_of xs k = None \<Longrightarrow> map_of (xs @ ys) k = map_of ys k"
  by (simp add: map_add_def)

lemma map_of_merge_join:
  assumes "sorted (map fst types)" and "types = front @ left" and "\<forall>t\<in>set front. fst t < (k :: 'k::linorder)"
  shows "map_of types k = (case dropWhile (\<lambda>t. fst t < k) left of [] \<Rightarrow> None | t # _ \<Rightarrow> if fst t = k then Some (snd t) else None)"
proof -
  let ?rest = "dropWhile (\<lambda>t. fst t < k) left"
  have "\<forall>t\<in>set (front @ takeWhile (\<lambda>t. fst t < k) left). fst t < k" using assms(3) by (auto dest: set_takeWhileD)
  then have "map_of (front @ takeWhile (\<lambda>t. fst t < k) left) k = None" by (auto simp: map_of_eq_None_iff simp del: map_of_append)
  then have "map_of ((front @ takeWhile (\<lambda>t. fst t < k) left) @ ?rest) k = map_of ?rest k" by (rule map_of_skip)
  then have "map_of types k = map_of ?rest k" by (simp add: assms(2))
  also have "\<dots> = (case ?rest of [] \<Rightarrow> None | t # _ \<Rightarrow> if fst t = k then Some (snd t) else None)"
  proof (cases ?rest)
    case (Cons t ts)
    then have "\<not> fst t < k" using hd_dropWhile [of "\<lambda>t. fst t < k" left] by auto
    moreover have "sorted (map fst ?rest)"
      using assms(1,2) by (metis (no_types, lifting) map_append sorted_append takeWhile_dropWhile_id)
    ultimately have "\<forall>t'\<in>set ts. fst t \<noteq> k \<longrightarrow> fst t' \<noteq> k" using Cons by auto
    then show ?thesis using Cons by (cases t) (auto simp: map_of_eq_None_iff)
  next
    case Nil
    then show ?thesis unfolding Nil by simp
  qed
  finally show ?thesis .
qed

definition resolving ::
  "staging_env \<Rightarrow> accumulator \<Rightarrow> (string \<times> string) list \<Rightarrow> endpoint_request list \<Rightarrow> workspace \<Rightarrow> resolve_state \<Rightarrow> bool" where
  "resolving env a types pre w = (\<lambda>(st, s).
     (\<exists>front left. types = front @ left \<and> types_left env st left \<and> (\<forall>t\<in>set front. pre \<noteq> [] \<and> fst t < ep_node_id (last pre)))
     \<and> spool_ready (sv_resolved env) s w (map (resolution types) pre)
     \<and> sl_root s = ac_run_root a \<and> sl_prefix s = ''resolved-endpoints'')"

lemma resolving_frame:
  assumes "resolving env a types pre w st" and "touches (ac_run_root a) ''endpoints'' w w'"
  shows "resolving env a types pre w' st"
  using assms touches_other [of "sv_resolved env" _ w _ "''endpoints''" w'] by (cases st) (auto simp: resolving_def)

text \<open>One step of the join: it looks the identifier up, whatever the position of the reader.\<close>

lemma advance_lookup:
  assumes "resolving env a types pre w (st, s)" and sorted: "sorted (map fst types)"
    and later: "pre = [] \<or> ep_node_id (last pre) \<le> ep_node_id e"
  shows "\<exists>st'. advance_node_type env (Suc (Suc (length (snd st)))) (ep_node_id e) st = Inr st'
     \<and> map_of types (ep_node_id e) = (case fst st' of None \<Rightarrow> None | Some x \<Rightarrow> if nt_id x = ep_node_id e then Some (nt_table x) else None)
     \<and> (\<exists>front left. types = front @ left \<and> types_left env st' left \<and> (\<forall>t\<in>set front. fst t < ep_node_id e))"
proof -
  from assms(1) obtain front left where left: "types = front @ left" "types_left env st left"
    "\<forall>t\<in>set front. pre \<noteq> [] \<and> fst t < ep_node_id (last pre)" by (auto simp: resolving_def)
  then have front: "\<forall>t\<in>set front. fst t < ep_node_id e" using later by (meson less_le_trans)
  let ?left = "dropWhile (\<lambda>t. fst t < ep_node_id e) left"
  have fuel: "length left < Suc (Suc (length (snd st)))" using types_left_fuel [of env "fst st" "snd st" left] left(2) by simp
  from advance_node_type_ok [OF left(2) fuel, of "ep_node_id e"]
  obtain st' where st': "advance_node_type env (Suc (Suc (length (snd st)))) (ep_node_id e) st = Inr st'" "types_left env st' ?left" by blast
  have "fst st' = (case ?left of [] \<Rightarrow> None | t # _ \<Rightarrow> Some (node_type_of t))"
    using st'(2) by (auto simp: types_left_def split: list.splits)
  then have "map_of types (ep_node_id e) = (case fst st' of None \<Rightarrow> None | Some x \<Rightarrow> if nt_id x = ep_node_id e then Some (nt_table x) else None)"
    unfolding map_of_merge_join [OF sorted left(1) front] by (cases ?left) (simp_all del: dropWhile_eq_Nil_conv)
  moreover have "\<exists>front left. types = front @ left \<and> types_left env st' left \<and> (\<forall>t\<in>set front. fst t < ep_node_id e)"
    using st'(2) left(1) front
    by (intro exI [of _ "front @ takeWhile (\<lambda>t. fst t < ep_node_id e) left"] exI [of _ ?left]) (auto dest: set_takeWhileD)
  ultimately show ?thesis using st'(1) by blast
qed

lemma resolve_endpoint_known:
  assumes inv: "resolving env a types pre w st" and sorted: "sorted (map fst types)"
    and later: "pre = [] \<or> ep_node_id (last pre) \<le> ep_node_id e" and known: "map_of types (ep_node_id e) \<noteq> None"
    and fits: "spillable (sv_resolved env) (resolution types e)" and room: "length pre + 1 < 2 ^ 20"
  shows "\<exists>w' st'. resolve_endpoint env e (w, st) = Inr (w', st') \<and> resolving env a types (pre @ [e]) w' st'
     \<and> touches (ac_run_root a) ''resolved-endpoints'' w w'"
proof -
  obtain ts s where st: "st = (ts, s)" by (cases st)
  from advance_lookup [OF inv [unfolded st] sorted later] obtain ts' where
    adv: "advance_node_type env (Suc (Suc (length (snd ts)))) (ep_node_id e) ts = Inr ts'"
      "map_of types (ep_node_id e) = (case fst ts' of None \<Rightarrow> None | Some x \<Rightarrow> if nt_id x = ep_node_id e then Some (nt_table x) else None)"
      "\<exists>front left. types = front @ left \<and> types_left env ts' left \<and> (\<forall>t\<in>set front. fst t < ep_node_id e)" by blast
  from adv(2) known obtain x where x: "fst ts' = Some x" "nt_id x = ep_node_id e" "map_of types (ep_node_id e) = Some (nt_table x)"
    by (auto split: option.splits if_splits)
  have ready: "spool_ready (sv_resolved env) s w (map (resolution types) pre)" "sl_root s = ac_run_root a" "sl_prefix s = ''resolved-endpoints''"
    using inv by (auto simp: st resolving_def)
  have "length (map (resolution types) pre) + 1 < 2 ^ 20" using room by simp
  from spool_push_ready [OF ready(1) fits this] ready obtain s' w' where
    push: "spool_push (sv_resolved env) (resolution types e) (s, w) = Inr (s', w')"
      "spool_ready (sv_resolved env) s' w' (map (resolution types) (pre @ [e]))" "same_spool s s'"
      "touches (ac_run_root a) ''resolved-endpoints'' w w'" by auto
  have "resolve_endpoint env e (w, st) = Inr (w', (ts', s'))"
    using push(1) x by (simp add: resolve_endpoint_def st adv(1) resolution_def)
  moreover have "resolving env a types (pre @ [e]) w' (ts', s')"
    using push(2,3) adv(3) ready by (auto simp: resolving_def same_spool_def)
  ultimately show ?thesis using push(4) by blast
qed

lemma resolve_endpoint_missing:
  assumes inv: "resolving env a types pre w st" and sorted: "sorted (map fst types)"
    and later: "pre = [] \<or> ep_node_id (last pre) \<le> ep_node_id e" and missing: "map_of types (ep_node_id e) = None"
  shows "resolve_endpoint env e (w, st) = Inl (Failed (missing_error e))"
proof -
  obtain ts s where st: "st = (ts, s)" by (cases st)
  from advance_lookup [OF inv [unfolded st] sorted later, unfolded missing] obtain ts' where
    adv: "advance_node_type env (Suc (Suc (length (snd ts)))) (ep_node_id e) ts = Inr ts'"
      "None = (case fst ts' of None \<Rightarrow> None | Some x \<Rightarrow> if nt_id x = ep_node_id e then Some (nt_table x) else None)" by blast
  from adv(2) have "fst ts' = None \<or> nt_id (the (fst ts')) \<noteq> ep_node_id e" by (auto split: option.splits if_splits)
  with adv(1) show ?thesis by (auto simp: resolve_endpoint_def st split: option.splits)
qed

text \<open>The pass as a whole.\<close>

lemma endpoint_order:
  assumes "sort_key endpoint_sort_key requests = pre @ e # post"
  shows "pre = [] \<or> ep_node_id (last pre) \<le> ep_node_id e"
proof (cases pre rule: rev_cases)
  case (snoc front x)
  have "sorted (map endpoint_sort_key (pre @ e # post))" using assms by (metis sorted_sort_key)
  then have "endpoint_sort_key x \<le> endpoint_sort_key e" by (simp add: snoc sorted_append)
  then show ?thesis by (auto simp: snoc endpoint_sort_key_def)
qed simp

definition endpoints_fit :: "staging_env \<Rightarrow> accumulator \<Rightarrow> (string \<times> string \<times> edge_staged_row) list \<Rightarrow> (string \<times> string) list \<Rightarrow> bool" where
  "endpoints_fit env a edges types \<longleftrightarrow>
     codecs_ok env \<and> accumulator_ok a \<and> sorted (map fst types) \<and> length edges < 2 ^ 19
     \<and> list_all (\<lambda>r. spillable (sv_resolved env) (resolution types r)) (concat (map edge_requests edges))
     \<and> list_all (\<lambda>t. spillable (sv_node_type env) (node_type_of t)) types"

lemma requests_length: "length (concat (map edge_requests edges)) = 2 * length edges"
  by (induction edges) (auto simp: edge_requests_def)

lemma first_type:
  assumes "endpoints_fit env a edges types"
  shows "\<exists>item. record_file_next (sv_node_type env) (node_bytes env types) = Inr item
     \<and> types_left env (case item of None \<Rightarrow> (None, node_bytes env types) | Some (x, reader') \<Rightarrow> (Some x, reader')) types"
proof -
  have good: "list_all (\<lambda>t. rereadable (sv_node_type env) (node_type_of t)) types"
    using assms by (auto simp: endpoints_fit_def rereadable_def codecs_ok_def list_all_iff)
  show ?thesis
  proof (cases types)
    case Nil
    then show ?thesis by (simp add: recs.read_next_end types_left_def)
  next
    case (Cons t rest)
    then have "record_file_next (sv_node_type env) (node_bytes env types) = Inr (Some (node_type_of t, node_bytes env rest))"
      using good by (simp add: recs.read_next_record)
    then show ?thesis using good Cons by (simp add: types_left_def)
  qed
qed

text \<open>Everything up to the loop, and the loop on a prefix of the requests whose nodes are known.\<close>

lemma endpoints_start:
  assumes fit: "endpoints_fit env a edges types" and st: "grouped_state env a edges types g w"
  obtains q w1 item s where "spool_finish (sv_endpoint env) (gs_endpoints g) w = Inr (q, w1)"
    "stream_yields (sv_endpoint env) (ac_run_root a) ''endpoints'' q (sort_key endpoint_sort_key (concat (map edge_requests edges)))"
    "length (sort_key endpoint_sort_key (concat (map edge_requests edges))) < stream_fuel q" "kept a w w1"
    "record_file_next (sv_node_type env) (node_bytes env types) = Inr item"
    "spool_new (ac_run_root a) ''resolved-endpoints'' (ac_chunk_limit a) = Inr s"
    "resolving env a types [] w1 (case item of None \<Rightarrow> (None, node_bytes env types) | Some (x, reader') \<Rightarrow> (Some x, reader'), s)"
    "ws_files w1 (node_types_path a) = Some (node_bytes env types)"
proof -
  have len: "length (concat (map edge_requests edges)) < 2 ^ 20" using fit unfolding requests_length by (simp add: endpoints_fit_def)
  have key: "sr_sort_key (sv_endpoint env) = endpoint_sort_key" and modest: "modest (sv_resolved env)"
    using fit by (auto simp: endpoints_fit_def codecs_ok_def)
  from spool_finish_yields [OF _ len] st obtain q w1 where
    q: "spool_finish (sv_endpoint env) (gs_endpoints g) w = Inr (q, w1)"
      "stream_yields (sv_endpoint env) (ac_run_root a) ''endpoints'' q (sort_key endpoint_sort_key (concat (map edge_requests edges)))"
      "length (concat (map edge_requests edges)) < stream_fuel q" "touches (ac_run_root a) ''endpoints'' w w1"
    unfolding grouped_state_def key [symmetric] by metis
  have kept: "kept a w w1" by (rule kept_touches [OF q(4)]) simp_all
  from spool_new_ready [OF modest, of "ac_chunk_limit a" "ac_run_root a" "''resolved-endpoints''" w1] fit obtain s where
    s: "spool_new (ac_run_root a) ''resolved-endpoints'' (ac_chunk_limit a) = Inr s" "spool_ready (sv_resolved env) s w1 []"
      "sl_root s = ac_run_root a" "sl_prefix s = ''resolved-endpoints''" by (auto simp: endpoints_fit_def accumulator_ok_def)
  from first_type [OF fit] obtain item where item: "record_file_next (sv_node_type env) (node_bytes env types) = Inr item"
    "types_left env (case item of None \<Rightarrow> (None, node_bytes env types) | Some (x, reader') \<Rightarrow> (Some x, reader')) types" by blast
  have "resolving env a types [] w1 (case item of None \<Rightarrow> (None, node_bytes env types) | Some (x, reader') \<Rightarrow> (Some x, reader'), s)"
    unfolding resolving_def prod.case using item(2) s by (intro conjI exI [of _ "[]"] exI [of _ types]) simp_all
  moreover have "ws_files w1 (node_types_path a) = Some (node_bytes env types)" using st kept by (simp add: grouped_state_def kept_def)
  ultimately show ?thesis using that q(1,2,3) kept item(1) s(1) by simp
qed

text \<open>The step of the loop on a request whose node is known.\<close>

lemma resolve_step:
  assumes fit: "endpoints_fit env a edges types"
    and split: "sort_key endpoint_sort_key (concat (map edge_requests edges)) = pre @ e # post"
    and known: "map_of types (ep_node_id e) \<noteq> None"
    and inv: "resolving env a types pre w st \<and> kept a w0 w"
  shows "spec True (resolve_endpoint env e (w, st)) (\<lambda>(w', st'). resolving env a types (pre @ [e]) w' st' \<and> kept a w0 w')"
proof -
  have "mset (pre @ e # post) = mset (concat (map edge_requests edges))" using split by (metis mset_sort)
  then have set: "set (pre @ e # post) = set (concat (map edge_requests edges))" and len: "length (pre @ e # post) = 2 * length edges"
    by (metis mset_eq_setD, metis mset_eq_length requests_length)
  have "e \<in> set (concat (map edge_requests edges))" unfolding set [symmetric] by simp
  then have fits: "spillable (sv_resolved env) (resolution types e)" using fit unfolding endpoints_fit_def list_all_iff by blast
  have "length pre + 1 < 2 ^ 20" using len fit by (simp add: endpoints_fit_def)
  with resolve_endpoint_known [OF _ _ endpoint_order [OF split] known fits] inv fit obtain w' st' where
    step: "resolve_endpoint env e (w, st) = Inr (w', st')" "resolving env a types (pre @ [e]) w' st'"
      "touches (ac_run_root a) ''resolved-endpoints'' w w'" by (metis endpoints_fit_def)
  have "kept a w w'" by (rule kept_touches [OF step(3)]) simp_all
  with step(1,2) inv show ?thesis by (auto intro: kept_trans)
qed

lemma resolve_stable:
  assumes "resolving env a types pre w st \<and> kept a w0 w" and "touches (ac_run_root a) ''endpoints'' w w'"
  shows "resolving env a types pre w' st \<and> kept a w0 w'"
  using assms(1) resolving_frame [OF _ assms(2)] kept_trans [OF _ kept_touches [OF assms(2)]] by (cases st) auto

definition resolved_state :: "staging_env \<Rightarrow> accumulator \<Rightarrow> (string \<times> string \<times> edge_staged_row) list \<Rightarrow> (string \<times> string) list
    \<Rightarrow> resolved_key spool \<Rightarrow> workspace \<Rightarrow> bool" where
  "resolved_state env a edges types s w \<longleftrightarrow>
     spool_ready (sv_resolved env) s w (map (resolution types) (sort_key endpoint_sort_key (concat (map edge_requests edges))))
     \<and> sl_root s = ac_run_root a \<and> sl_prefix s = ''resolved-endpoints'' \<and> ws_files w (merged_edges_path a) = Some (edge_bytes env edges)"

lemma finish_endpoints_ok:
  assumes fit: "endpoints_fit env a edges types" and st: "grouped_state env a edges types g w"
    and known: "\<forall>e\<in>set (concat (map edge_requests edges)). map_of types (ep_node_id e) \<noteq> None"
  shows "\<exists>s w'. finish_endpoints env a (gs_endpoints g) w = Inr (s, w') \<and> resolved_state env a edges types s w'
     \<and> same_outside (ac_run_root a) w w'"
proof -
  let ?rs = "sort_key endpoint_sort_key (concat (map edge_requests edges))"
  from endpoints_start [OF fit st] obtain q w1 item s where
    start: "spool_finish (sv_endpoint env) (gs_endpoints g) w = Inr (q, w1)" "stream_yields (sv_endpoint env) (ac_run_root a) ''endpoints'' q ?rs"
      "length ?rs < stream_fuel q" "kept a w w1" "record_file_next (sv_node_type env) (node_bytes env types) = Inr item"
      "spool_new (ac_run_root a) ''resolved-endpoints'' (ac_chunk_limit a) = Inr s"
      "resolving env a types [] w1 (case item of None \<Rightarrow> (None, node_bytes env types) | Some (x, reader') \<Rightarrow> (Some x, reader'), s)"
      "ws_files w1 (node_types_path a) = Some (node_bytes env types)" .
  let ?st = "(case item of None \<Rightarrow> (None, node_bytes env types) | Some (x, reader') \<Rightarrow> (Some x, reader'), s)"
  have "spec True (while_some (stream_next (sv_endpoint env)) (resolve_endpoint env) (stream_fuel q) (q, w1) ?st)
     (\<lambda>(q', w', st'). resolving env a types ?rs w' st' \<and> kept a w w')"
  proof (rule sorted.while_some_spec [OF start(2,3), where P = "\<lambda>pre w' st'. resolving env a types pre w' st' \<and> kept a w w'"])
    show "resolving env a types [] w1 ?st \<and> kept a w w1" using start by simp
    show "resolving env a types pre w3 st' \<and> kept a w w3" if "resolving env a types pre w2 st' \<and> kept a w w2" "touches (ac_run_root a) ''endpoints'' w2 w3"
      for pre w2 w3 st' using that by (rule resolve_stable)
    fix pre e post w2 st' assume split: "?rs = pre @ e # post" and inv: "resolving env a types pre w2 st' \<and> kept a w w2"
    have "e \<in> set ?rs" unfolding split by simp
    then have "e \<in> set (concat (map edge_requests edges))" by (simp only: set_sort)
    with known have "map_of types (ep_node_id e) \<noteq> None" by blast
    from resolve_step [OF fit split this inv]
    show "spec True (resolve_endpoint env e (w2, st')) (\<lambda>(w', s'). resolving env a types (pre @ [e]) w' s' \<and> kept a w w')" .
  qed
  then obtain q' w2 ts' s' where loop: "while_some (stream_next (sv_endpoint env)) (resolve_endpoint env) (stream_fuel q) (q, w1) ?st = Inr (q', w2, ts', s')"
    "resolving env a types ?rs w2 (ts', s')" "kept a w w2" unfolding spec_True_iff by auto
  have stored: "ws_files w2 (node_types_path a) = Some (node_bytes env types)" using loop(3) st by (simp add: kept_def grouped_state_def)
  let ?w = "w2\<lparr>ws_files := (ws_files w2)(node_types_path a := None)\<rparr>"
  have "finish_endpoints env a (gs_endpoints g) w = Inr (s', ?w)"
    using start loop(1) stored by (simp add: finish_endpoints_def open_file_def remove_file_def Let_def del: map_map)
  moreover have ready: "spool_ready (sv_resolved env) s' w2 (map (resolution types) ?rs)" "sl_root s' = ac_run_root a" "sl_prefix s' = ''resolved-endpoints''"
    using loop(2) by (simp_all add: resolving_def)
  have "spool_ready (sv_resolved env) s' ?w (map (resolution types) ?rs)"
    by (rule spool_ready_frame [OF ready(1)]) (use record_paths(5) [of "''resolved-endpoints''" a] ready in auto)
  then have "resolved_state env a edges types s' ?w"
    using loop(2,3) st record_paths(3) [of a] by (simp add: resolved_state_def resolving_def kept_def grouped_state_def)
  moreover have "same_outside (ac_run_root a) w ?w" using loop(3) record_paths(2) [of a] by (auto simp: kept_def same_outside_def)
  ultimately show ?thesis by blast
qed

lemma finish_endpoints_missing:
  assumes fit: "endpoints_fit env a edges types" and st: "grouped_state env a edges types g w"
    and split: "sort_key endpoint_sort_key (concat (map edge_requests edges)) = pre @ e # post"
    and known: "\<forall>e\<in>set pre. map_of types (ep_node_id e) \<noteq> None" and missing: "map_of types (ep_node_id e) = None"
  shows "finish_endpoints env a (gs_endpoints g) w = Inl (Failed (missing_error e))"
proof -
  let ?rs = "sort_key endpoint_sort_key (concat (map edge_requests edges))"
  from endpoints_start [OF fit st] obtain q w1 item s where
    start: "spool_finish (sv_endpoint env) (gs_endpoints g) w = Inr (q, w1)" "stream_yields (sv_endpoint env) (ac_run_root a) ''endpoints'' q ?rs"
      "length ?rs < stream_fuel q" "kept a w w1" "record_file_next (sv_node_type env) (node_bytes env types) = Inr item"
      "spool_new (ac_run_root a) ''resolved-endpoints'' (ac_chunk_limit a) = Inr s"
      "resolving env a types [] w1 (case item of None \<Rightarrow> (None, node_bytes env types) | Some (x, reader') \<Rightarrow> (Some x, reader'), s)"
      "ws_files w1 (node_types_path a) = Some (node_bytes env types)" .
  let ?st = "(case item of None \<Rightarrow> (None, node_bytes env types) | Some (x, reader') \<Rightarrow> (Some x, reader'), s)"
  have "while_some (stream_next (sv_endpoint env)) (resolve_endpoint env) (stream_fuel q) (q, w1) ?st = Inl (Failed (missing_error e))"
  proof (rule sorted.while_some_fails [where P = "\<lambda>pre w' st'. resolving env a types pre w' st' \<and> kept a w w'" and pre = pre and x = e and post = post])
    show "stream_yields (sv_endpoint env) (ac_run_root a) ''endpoints'' q (pre @ e # post)" using start(2) split by simp
    show "length pre < stream_fuel q" using start(3) unfolding split by simp
    show "resolving env a types [] w1 ?st \<and> kept a w w1" using start by simp
    show "resolving env a types before w3 st' \<and> kept a w w3" if "resolving env a types before w2 st' \<and> kept a w w2" "touches (ac_run_root a) ''endpoints'' w2 w3"
      for before w2 w3 st' using that by (rule resolve_stable)
    show "spec True (resolve_endpoint env y (w2, st')) (\<lambda>(w', s'). resolving env a types (before @ [y]) w' s' \<and> kept a w w')"
      if "pre = before @ y # rest" "resolving env a types before w2 st' \<and> kept a w w2" for before y rest w2 st'
      using resolve_step [OF fit _ _ that(2), of y "rest @ e # post"] split known that(1) by simp
    show "resolve_endpoint env e (w2, st') = Inl (Failed (missing_error e))" if "resolving env a types pre w2 st' \<and> kept a w w2" for w2 st'
      using resolve_endpoint_missing [OF _ _ endpoint_order [OF split] missing] that fit unfolding endpoints_fit_def by blast
  qed
  then show ?thesis using start by (simp add: finish_endpoints_def open_file_def Let_def del: map_map)
qed

section \<open>Third pass: the edges\<close>

definition reader_yields :: "('a, 'k) spill_record \<Rightarrow> string \<Rightarrow> 'a list \<Rightarrow> bool" where
  "reader_yields sr reader xs \<longleftrightarrow> reader = concat (map (record_bytes sr) xs) \<and> list_all (rereadable sr) xs"

interpretation filed: record_source "reader_next sr" "reader_yields sr" "\<lambda>w w'. w' = w"
  for sr :: "('a, 'k) spill_record"
  by unfold_locales (auto simp: reader_next_def reader_yields_def recs.read_next_record recs.read_next_end)

lemma touches_ready:
  assumes "spool_ready sr s w xs" and "touches base prefix w w'" and "sl_root s = base" and "prefix \<noteq> []" and "sl_prefix s \<noteq> []"
    and "hd prefix \<noteq> hd (sl_prefix s)"
  shows "spool_ready sr s w' xs"
  using touches_other [OF assms(1), of prefix w'] assms by simp

definition edges_fit ::
  "staging_env \<Rightarrow> accumulator \<Rightarrow> (string \<times> string \<times> edge_staged_row) list \<Rightarrow> (string \<times> string) list \<Rightarrow> bool" where
  "edges_fit env a edges types \<longleftrightarrow>
     codecs_ok env \<and> table_items a (sv_edge_row env) edges \<and> length edges < 2 ^ 19
     \<and> list_all (\<lambda>(table, ident, row). spillable (sv_edge_id env) ident) edges
     \<and> list_all (\<lambda>e. spillable (sv_merged_edge env) (merged_edge_of e)) edges
     \<and> list_all (\<lambda>c. spillable (sv_connector env) c \<and> length (connector_line c) \<le> 2 ^ 34) (concat (map (edge_connectors types) edges))"

definition edge_idents :: "(string \<times> string \<times> edge_staged_row) list \<Rightarrow> string list" where
  "edge_idents edges = map (\<lambda>e. fst (snd e)) edges"

text \<open>
  The state of the loop: \<open>es\<close> is what has been accepted of the edges read so far, \<open>rest\<close> is to come; the
  files of the nodes, \<open>nks\<close>, stay as they are.
\<close>

definition emitting ::
  "staging_env \<Rightarrow> accumulator \<Rightarrow> (string \<times> string) list \<Rightarrow> string chunk list \<Rightarrow> string \<Rightarrow> (string \<times> string \<times> edge_staged_row) list
    \<Rightarrow> (string \<times> string \<times> edge_staged_row) list \<Rightarrow> workspace \<Rightarrow> edge_state \<Rightarrow> bool" where
  "emitting env a types nks stored es rest w d \<longleftrightarrow>
     stream_yields (sv_resolved env) (ac_run_root a) ''resolved-endpoints'' (dg_resolved d) (map (resolution types) (concat (map edge_requests rest)))
     \<and> json_inv (ac_staging_dir a) (ac_output_chunk_limit a) (dg_edges d) w (table_chunks a (sv_edge_row env) es)
     \<and> spool_ready (sv_edge_id env) (dg_accepted d) w (edge_idents es)
     \<and> sl_root (dg_accepted d) = ac_run_root a \<and> sl_prefix (dg_accepted d) = ''accepted-edge-ids''
     \<and> spool_ready (sv_connector env) (dg_connectors d) w (concat (map (edge_connectors types) es))
     \<and> sl_root (dg_connectors d) = ac_run_root a \<and> sl_prefix (dg_connectors d) = ''connectors''
     \<and> ws_files w (merged_edges_path a) = Some stored \<and> files_hold (json_format (ac_staging_dir a)) nks w"

lemma take_resolved_ok:
  assumes "stream_yields (sv_resolved env) base prefix q (resolution types e # xs)"
  shows "\<exists>q' w'. take_resolved_endpoint env (ep_relation e) (ep_edge_id e) (ep_side e) (q, w) = Inr (resolution types e, q', w')
     \<and> stream_yields (sv_resolved env) base prefix q' xs \<and> ws_files w' = ws_files w"
  using stream_next_item [OF assms, of w] by (auto simp: take_resolved_endpoint_def resolution_def)

lemma take_both_endpoints:
  assumes "stream_yields (sv_resolved env) base prefix q (map (resolution types) (concat (map edge_requests ((table, ident, row) # rest))))"
  obtains source q1 w1 target q2 w2 where
    "take_resolved_endpoint env table ident SourceSide (q, w) = Inr (source, q1, w1)"
    "take_resolved_endpoint env table ident TargetSide (q1, w1) = Inr (target, q2, w2)"
    "re_node_type source = the (map_of types (es_source_id row))" "re_node_type target = the (map_of types (es_target_id row))"
    "stream_yields (sv_resolved env) base prefix q2 (map (resolution types) (concat (map edge_requests rest)))" "ws_files w2 = ws_files w"
proof -
  let ?s = "\<lparr>ep_node_id = es_source_id row, ep_relation = table, ep_edge_id = ident, ep_side = SourceSide\<rparr>"
  let ?t = "\<lparr>ep_node_id = es_target_id row, ep_relation = table, ep_edge_id = ident, ep_side = TargetSide\<rparr>"
  have yields: "stream_yields (sv_resolved env) base prefix q
      (resolution types ?s # resolution types ?t # map (resolution types) (concat (map edge_requests rest)))"
    using assms by (simp add: edge_requests_def)
  from take_resolved_ok [OF yields, of w] obtain q1 w1 where
    s: "take_resolved_endpoint env table ident SourceSide (q, w) = Inr (resolution types ?s, q1, w1)"
      "stream_yields (sv_resolved env) base prefix q1 (resolution types ?t # map (resolution types) (concat (map edge_requests rest)))"
      "ws_files w1 = ws_files w" by auto
  from take_resolved_ok [OF s(2), of w1] obtain q2 w2 where
    t: "take_resolved_endpoint env table ident TargetSide (q1, w1) = Inr (resolution types ?t, q2, w2)"
      "stream_yields (sv_resolved env) base prefix q2 (map (resolution types) (concat (map edge_requests rest)))"
      "ws_files w2 = ws_files w1" by auto
  show ?thesis by (rule that [OF s(1) t(1) _ _ t(2)]) (simp_all add: resolution_def s(3) t(3))
qed

lemma spool_ready_files: "ws_files w' = ws_files w \<Longrightarrow> spool_ready sr s w' xs \<longleftrightarrow> spool_ready sr s w xs"
  using spool_ready_frame [of sr s w xs w'] spool_ready_frame [of sr s w' xs w] by auto

lemma emitting_files:
  assumes "emitting env a types nks stored es rest w d" and "ws_files w' = ws_files w"
  shows "emitting env a types nks stored es rest w' d"
  using assms by (auto simp: emitting_def json_inv_def files_hold_def spool_ready_files [OF assms(2)])

definition apart :: "accumulator \<Rightarrow> string chunk list \<Rightarrow> string chunk list \<Rightarrow> bool" where
  "apart a nks ks \<longleftrightarrow> all_outside (ac_run_root a) (json_format (ac_staging_dir a)) nks
     \<and> (\<forall>k\<in>set nks. chunk_file (json_format (ac_staging_dir a)) k \<notin> chunk_file (json_format (ac_staging_dir a)) ` set ks)"

lemma files_hold_apart:
  assumes "files_hold (json_format (ac_staging_dir a)) nks w" and "apart a nks ks" and "writes (json_format (ac_staging_dir a)) ks w w'"
  shows "files_hold (json_format (ac_staging_dir a)) nks w'"
  unfolding files_hold_def
proof clarify
  fix grp i rows assume mem: "(grp, i, rows) \<in> set nks"
  then have "chunk_file (json_format (ac_staging_dir a)) (grp, i, rows) \<notin> chunk_file (json_format (ac_staging_dir a)) ` set ks"
    using assms(2) unfolding apart_def by blast
  with assms(3) have "ws_files w' (cf_path (json_format (ac_staging_dir a)) grp i) = ws_files w (cf_path (json_format (ac_staging_dir a)) grp i)"
    unfolding writes_def by simp
  with assms(1) mem show "ws_files w' (cf_path (json_format (ac_staging_dir a)) grp i) = Some (chunk_text (json_format (ac_staging_dir a)) rows)"
    by (auto simp: files_hold_def)
qed

text \<open>What the sinks and spools of the pass do to the state, one at a time.\<close>

definition emitted ::
  "staging_env \<Rightarrow> accumulator \<Rightarrow> string chunk list \<Rightarrow> string \<Rightarrow> (string \<times> string \<times> edge_staged_row) list \<Rightarrow> string list \<Rightarrow> connector_record list
    \<Rightarrow> workspace \<Rightarrow> json_sink \<times> string spool \<times> connector_key spool \<Rightarrow> bool" where
  "emitted env a nks stored es ids cs w = (\<lambda>(j, accepted, connectors).
     json_inv (ac_staging_dir a) (ac_output_chunk_limit a) j w (table_chunks a (sv_edge_row env) es)
     \<and> spool_ready (sv_edge_id env) accepted w ids \<and> sl_root accepted = ac_run_root a \<and> sl_prefix accepted = ''accepted-edge-ids''
     \<and> spool_ready (sv_connector env) connectors w cs \<and> sl_root connectors = ac_run_root a \<and> sl_prefix connectors = ''connectors''
     \<and> ws_files w (merged_edges_path a) = Some stored \<and> files_hold (json_format (ac_staging_dir a)) nks w)"

lemma emitting_alt:
  "emitting env a types nks stored es rest w d \<longleftrightarrow>
     stream_yields (sv_resolved env) (ac_run_root a) ''resolved-endpoints'' (dg_resolved d) (map (resolution types) (concat (map edge_requests rest)))
     \<and> emitted env a nks stored es (edge_idents es) (concat (map (edge_connectors types) es)) w (dg_edges d, dg_accepted d, dg_connectors d)"
  by (simp add: emitting_def emitted_def)

lemma emitted_edge:
  assumes inv: "emitted env a nks stored es ids cs w (j, accepted, connectors)"
    and items: "table_items a (sv_edge_row env) (es @ (table, ident, row) # rest)" and apart: "apart a nks (table_chunks a (sv_edge_row env) es)"
  shows "\<exists>j' w'. json_push (sv_edge_row env) table row (j, w) = Inr (j', w')
     \<and> emitted env a nks stored (es @ [(table, ident, row)]) ids cs w' (j', accepted, connectors)"
proof -
  from table_push [OF _ items, of j w] inv obtain j' w' where
    push: "json_push (sv_edge_row env) table row (j, w) = Inr (j', w')"
      "json_inv (ac_staging_dir a) (ac_output_chunk_limit a) j' w' (table_chunks a (sv_edge_row env) (es @ [(table, ident, row)]))"
      "same_inside (ac_run_root a) w w'" "writes (json_format (ac_staging_dir a)) (table_chunks a (sv_edge_row env) es) w w'"
    by (auto simp: emitted_def)
  have "ws_files w' (merged_edges_path a) = ws_files w (merged_edges_path a)" using push(3) record_paths(1) [of a] by (simp add: same_inside_def)
  with inv push files_hold_apart [OF _ apart push(4)] have "emitted env a nks stored (es @ [(table, ident, row)]) ids cs w' (j', accepted, connectors)"
    by (auto simp: emitted_def intro: spool_ready_inside)
  with push(1) show ?thesis by blast
qed

lemma emitted_touches:
  assumes inv: "emitted env a nks stored es ids cs w (j, accepted, connectors)" and touches: "touches (ac_run_root a) prefix w w'"
    and prefix: "prefix \<noteq> []" "hd prefix \<noteq> CHR ''m''" and items: "table_items a (sv_edge_row env) es"
    and apart: "apart a nks (table_chunks a (sv_edge_row env) es)"
  shows "json_inv (ac_staging_dir a) (ac_output_chunk_limit a) j w' (table_chunks a (sv_edge_row env) es)
     \<and> ws_files w' (merged_edges_path a) = Some stored \<and> files_hold (json_format (ac_staging_dir a)) nks w'"
proof -
  have "ws_files w' (merged_edges_path a) = ws_files w (merged_edges_path a)"
    using touches record_paths(4) [of prefix a] prefix by (simp add: touches_def)
  moreover have "files_hold (json_format (ac_staging_dir a)) nks w'"
    using inv apart by (intro files_hold_outside [OF _ _ touches_inside [OF touches]]) (auto simp: emitted_def apart_def)
  ultimately show ?thesis
    using inv json_inv_outside [OF _ table_chunks_facts(3) [OF items] touches_inside [OF touches]] by (simp add: emitted_def)
qed

lemma emitted_id:
  assumes inv: "emitted env a nks stored es ids cs w (j, accepted, connectors)" and items: "table_items a (sv_edge_row env) es"
    and apart: "apart a nks (table_chunks a (sv_edge_row env) es)"
    and fits: "spillable (sv_edge_id env) ident" and room: "length ids + 1 < 2 ^ 20"
  shows "\<exists>accepted' w'. spool_push (sv_edge_id env) ident (accepted, w) = Inr (accepted', w')
     \<and> emitted env a nks stored es (ids @ [ident]) cs w' (j, accepted', connectors)"
proof -
  have ready: "spool_ready (sv_edge_id env) accepted w ids" "sl_root accepted = ac_run_root a" "sl_prefix accepted = ''accepted-edge-ids''"
    "spool_ready (sv_connector env) connectors w cs" "sl_root connectors = ac_run_root a" "sl_prefix connectors = ''connectors''"
    using inv by (simp_all add: emitted_def)
  from spool_push_ready [OF ready(1) fits room] ready obtain s w' where
    push: "spool_push (sv_edge_id env) ident (accepted, w) = Inr (s, w')" "spool_ready (sv_edge_id env) s w' (ids @ [ident])"
      "same_spool accepted s" "touches (ac_run_root a) ''accepted-edge-ids'' w w'" by auto
  have "spool_ready (sv_connector env) connectors w' cs" by (rule touches_ready [OF ready(4) push(4)]) (simp_all add: ready)
  with emitted_touches [OF inv push(4) _ _ items apart] push ready show ?thesis by (auto simp: emitted_def same_spool_def)
qed

lemma emitted_connectors:
  assumes inv: "emitted env a nks stored es ids cs w (j, accepted, connectors)" and items: "table_items a (sv_edge_row env) es"
    and apart: "apart a nks (table_chunks a (sv_edge_row env) es)"
    and fits: "list_all (spillable (sv_connector env)) new" and room: "length cs + length new < 2 ^ 20"
  shows "\<exists>connectors' w'. try_fold (spool_push (sv_connector env)) new (connectors, w) = Inr (connectors', w')
     \<and> emitted env a nks stored es ids (cs @ new) w' (j, accepted, connectors')"
proof -
  have ready: "spool_ready (sv_edge_id env) accepted w ids" "sl_root accepted = ac_run_root a" "sl_prefix accepted = ''accepted-edge-ids''"
    "spool_ready (sv_connector env) connectors w cs" "sl_root connectors = ac_run_root a" "sl_prefix connectors = ''connectors''"
    using inv by (simp_all add: emitted_def)
  from spool_push_all [OF ready(4) fits room] ready obtain s w' where
    push: "try_fold (spool_push (sv_connector env)) new (connectors, w) = Inr (s, w')" "spool_ready (sv_connector env) s w' (cs @ new)"
      "same_spool connectors s" "touches (ac_run_root a) ''connectors'' w w'" by auto
  have "spool_ready (sv_edge_id env) accepted w' ids" by (rule touches_ready [OF ready(1) push(4)]) (simp_all add: ready)
  with emitted_touches [OF inv push(4) _ _ items apart] push ready show ?thesis by (auto simp: emitted_def same_spool_def)
qed

text \<open>One edge.\<close>

definition accepted_next :: "staging_env \<Rightarrow> accumulator \<Rightarrow> (string \<times> string) list \<Rightarrow> string chunk list
    \<Rightarrow> (string \<times> string \<times> edge_staged_row) list \<Rightarrow> string \<times> string \<times> edge_staged_row \<Rightarrow> bool" where
  "accepted_next env a types nks es e \<longleftrightarrow>
     table_items a (sv_edge_row env) (es @ [e]) \<and> apart a nks (table_chunks a (sv_edge_row env) (es @ [e]))
     \<and> apart a nks (table_chunks a (sv_edge_row env) es) \<and> length es + 1 < 2 ^ 19
     \<and> spillable (sv_edge_id env) (fst (snd e)) \<and> list_all (spillable (sv_connector env)) (edge_connectors types e)"

lemma emit_edge_ok:
  assumes inv: "emitting env a types nks stored es (e # rest) w d"
    and fits: "edge_accepted specs types e \<longrightarrow> accepted_next env a types nks es e"
  shows "\<exists>w' d'. emit_edge env specs (merged_edge_of e) (w, d) = Inr (w', d')
     \<and> emitting env a types nks stored (if edge_accepted specs types e then es @ [e] else es) rest w' d'"
proof -
  obtain table ident row where e: "e = (table, ident, row)" by (cases e)
  have "stream_yields (sv_resolved env) (ac_run_root a) ''resolved-endpoints'' (dg_resolved d)
      (map (resolution types) (concat (map edge_requests ((table, ident, row) # rest))))" using inv by (simp add: emitting_def e)
  from take_both_endpoints [OF this, of w] obtain source q1 w1 target q2 w2 where
    ends: "take_resolved_endpoint env table ident SourceSide (dg_resolved d, w) = Inr (source, q1, w1)"
      "take_resolved_endpoint env table ident TargetSide (q1, w1) = Inr (target, q2, w2)"
      "re_node_type source = the (map_of types (es_source_id row))" "re_node_type target = the (map_of types (es_target_id row))"
      "stream_yields (sv_resolved env) (ac_run_root a) ''resolved-endpoints'' q2 (map (resolution types) (concat (map edge_requests rest)))"
      "ws_files w2 = ws_files w" .
  let ?cs = "concat (map (edge_connectors types) es)"
  have inv2: "emitted env a nks stored es (edge_idents es) ?cs w2 (dg_edges d, dg_accepted d, dg_connectors d)"
    using emitting_files [OF inv ends(6)] by (simp add: emitting_alt)
  have allow: "constraints_allow specs table (re_node_type source) (re_node_type target) \<longleftrightarrow> edge_accepted specs types e"
    by (simp add: edge_accepted_def e ends(3,4))
  show ?thesis
  proof (cases "edge_accepted specs types e")
    case False
    then have "emit_edge env specs (merged_edge_of e) (w, d) = Inr (w2, d\<lparr>dg_resolved := q2\<rparr>)"
      using allow by (simp add: emit_edge_def e merged_edge_of_def ends(1,2) Let_def)
    then show ?thesis using False inv2 ends(5) by (simp add: emitting_alt)
  next
    case True
    then have fit: "accepted_next env a types nks es e" using fits by blast
    then have items: "table_items a (sv_edge_row env) (es @ [(table, ident, row)])" "apart a nks (table_chunks a (sv_edge_row env) es)"
      "apart a nks (table_chunks a (sv_edge_row env) (es @ [(table, ident, row)]))" by (simp_all add: accepted_next_def e)
    from emitted_edge [OF inv2 items(1,2)] obtain j w3 where
      3: "json_push (sv_edge_row env) table row (dg_edges d, w2) = Inr (j, w3)"
        "emitted env a nks stored (es @ [(table, ident, row)]) (edge_idents es) ?cs w3 (j, dg_accepted d, dg_connectors d)" by blast
    have room: "length (edge_idents es) + 1 < 2 ^ 20" "length ?cs + length (edge_connectors types e) < 2 ^ 20"
    proof -
      have "length ?cs = 2 * length es" by (induction es) (auto simp: edge_connectors_def)
      moreover have "length (edge_connectors types e) = 2" by (simp add: e edge_connectors_def)
      moreover have "length es + 1 < 2 ^ 19" using fit by (simp add: accepted_next_def)
      ultimately show "length (edge_idents es) + 1 < 2 ^ 20" "length ?cs + length (edge_connectors types e) < 2 ^ 20"
        by (simp_all add: edge_idents_def)
    qed
    have spill: "spillable (sv_edge_id env) ident" "list_all (spillable (sv_connector env)) (edge_connectors types e)"
      using fit by (simp_all add: accepted_next_def e)
    from emitted_id [OF 3(2) items(1,3) spill(1) room(1)] obtain accepted w4 where
      4: "spool_push (sv_edge_id env) ident (dg_accepted d, w3) = Inr (accepted, w4)"
        "emitted env a nks stored (es @ [(table, ident, row)]) (edge_idents es @ [ident]) ?cs w4 (j, accepted, dg_connectors d)" by blast
    from emitted_connectors [OF 4(2) items(1,3) spill(2) room(2)] obtain connectors w5 where
      5: "try_fold (spool_push (sv_connector env)) (edge_connectors types e) (dg_connectors d, w4) = Inr (connectors, w5)"
        "emitted env a nks stored (es @ [(table, ident, row)]) (edge_idents es @ [ident]) (?cs @ edge_connectors types e) w5 (j, accepted, connectors)" by blast
    let ?m = "merged_edge_of e"
    have cs: "edge_connectors types e = [source_connector ?m source, target_connector ?m target]"
      by (simp add: edge_connectors_def source_connector_def target_connector_def merged_edge_of_def e ends(3,4))
    let ?d = "d\<lparr>dg_resolved := q2, dg_edges := j, dg_accepted := accepted, dg_connectors := connectors\<rparr>"
    have "emit_edge env specs ?m (w, d) = Inr (w5, ?d)"
      using 5(1) unfolding cs
      by (auto simp: emit_edge_def e merged_edge_of_def ends(1,2) allow [unfolded e] True [unfolded e] 3(1) 4(1) Let_def try_op_def split: sum.splits)
    moreover have "emitting env a types nks stored (es @ [e]) rest w5 ?d"
      using 5(2) ends(5) by (simp add: emitting_alt edge_idents_def e)
    ultimately show ?thesis using True by simp
  qed
qed

text \<open>The pass as a whole.\<close>

lemma table_items_filter: "table_items a codec xs \<Longrightarrow> table_items a codec (filter P xs)"
proof -
  assume items: "table_items a codec xs"
  then have "sorted (map fst (filter P xs))" by (intro sorted_filter) (simp add: table_items_def)
  moreover have "names_ok (fst ` set (filter P xs))" using items by (auto simp: table_items_def intro: names_ok_subset)
  moreover have "length (filter P xs) < 2 ^ 21" using items le_less_trans [OF length_filter_le [of P xs]] unfolding table_items_def by blast
  moreover have "list_all (\<lambda>(table, ident, row). row_fits codec row) (filter P xs)" using items by (simp add: table_items_def list_all_iff)
  ultimately show "table_items a codec (filter P xs)" using items by (simp add: table_items_def)
qed

lemma chunk_tables:
  "(t, i, encs) \<in> set (table_chunks a codec items) \<Longrightarrow> t \<in> fst ` set items"
  using chunked_names_subset [of t i "json_format (ac_staging_dir a)" "ac_output_chunk_limit a" "table_rows codec items"]
  by (force simp: table_chunks_def table_rows_fst)

lemma tables_apart:
  assumes "table_items a ncodec nodes" and "names_ok (fst ` set nodes \<union> fst ` set edges)" and "fst ` set nodes \<inter> fst ` set edges = {}"
    and "set es \<subseteq> set edges"
  shows "apart a (table_chunks a ncodec nodes) (table_chunks a ecodec es)"
proof -
  let ?fmt = "json_format (ac_staging_dir a)"
  have differ: "cf_path ?fmt t i \<noteq> cf_path ?fmt t' i'"
    if "(t, i, rows) \<in> set (table_chunks a ncodec nodes)" "(t', i', rows') \<in> set (table_chunks a ecodec es)" for t i rows t' i' rows'
  proof
    assume eq: "cf_path ?fmt t i = cf_path ?fmt t' i'"
    have t: "t \<in> fst ` set nodes" "t' \<in> fst ` set edges" using chunk_tables that assms(4) by blast+
    with assms(2) have "plain_name t" "plain_name t'" by (auto simp: names_ok_def)
    from json_path_inject [OF this eq] have "lower_name t = lower_name t'" by simp
    moreover have "inj_on lower_name (fst ` set nodes \<union> fst ` set edges)" using assms(2) by (simp add: names_ok_def)
    ultimately have "t = t'" using t by (blast dest: inj_onD)
    with t assms(3) show False by blast
  qed
  have "chunk_file ?fmt k \<notin> chunk_file ?fmt ` set (table_chunks a ecodec es)" if "k \<in> set (table_chunks a ncodec nodes)" for k
  proof
    assume "chunk_file ?fmt k \<in> chunk_file ?fmt ` set (table_chunks a ecodec es)"
    then obtain k' where "chunk_file ?fmt k = chunk_file ?fmt k'" "k' \<in> set (table_chunks a ecodec es)" by blast
    then show False using that differ [of "fst k" "fst (snd k)" "snd (snd k)" "fst k'" "fst (snd k')" "snd (snd k')"]
      by (simp add: chunk_file_def split_beta)
  qed
  then show ?thesis using table_chunks_facts(3) [OF assms(1)] by (simp add: apart_def)
qed

definition connected_state ::
  "staging_env \<Rightarrow> accumulator \<Rightarrow> (string \<times> string) list \<Rightarrow> (string \<times> string \<times> edge_staged_row) list \<Rightarrow> string spool \<Rightarrow> connector_key spool
    \<Rightarrow> workspace \<Rightarrow> bool" where
  "connected_state env a types es accepted connectors w \<longleftrightarrow>
     spool_ready (sv_edge_id env) accepted w (edge_idents es) \<and> sl_root accepted = ac_run_root a \<and> sl_prefix accepted = ''accepted-edge-ids''
     \<and> spool_ready (sv_connector env) connectors w (concat (map (edge_connectors types) es))
     \<and> sl_root connectors = ac_run_root a \<and> sl_prefix connectors = ''connectors''"

lemma spool_ready_remove:
  assumes "spool_ready sr s w xs" and "sl_root s = ac_run_root a" and "sl_prefix s \<noteq> []" and "hd (sl_prefix s) \<noteq> CHR ''m''"
  shows "spool_ready sr s (w\<lparr>ws_files := (ws_files w)(merged_edges_path a := None)\<rparr>) xs"
  using assms(1) by (rule spool_ready_frame) (use record_paths(4) [of "sl_prefix s" a] assms in auto)

lemma edges_finished:
  assumes inv: "emitted env a nks stored es (edge_idents es) (concat (map (edge_connectors types) es)) w (j, accepted, connectors)"
    and items: "table_items a (sv_edge_row env) es" and apart: "apart a nks (table_chunks a (sv_edge_row env) es)"
  shows "\<exists>w'. json_finish (j, w\<lparr>ws_files := (ws_files w)(merged_edges_path a := None)\<rparr>) =
        (map (chunk_statement (json_format (ac_staging_dir a))) (table_chunks a (sv_edge_row env) es), length es, w')
     \<and> connected_state env a types es accepted connectors w'
     \<and> files_hold (json_format (ac_staging_dir a)) nks w'
     \<and> files_hold (json_format (ac_staging_dir a)) (table_chunks a (sv_edge_row env) es) w'"
proof -
  let ?fmt = "json_format (ac_staging_dir a)" and ?ks = "table_chunks a (sv_edge_row env) es"
  let ?w = "w\<lparr>ws_files := (ws_files w)(merged_edges_path a := None)\<rparr>"
  have out: "same_outside (ac_run_root a) w ?w" using record_paths(1) [of a] by (auto simp: same_outside_def)
  have "json_inv (ac_staging_dir a) (ac_output_chunk_limit a) j ?w ?ks"
    using inv by (intro json_inv_outside [OF _ table_chunks_facts(3) [OF items] out]) (simp add: emitted_def)
  moreover have "length (concat (map chunk_rows ?ks)) = length es" by (simp add: table_chunks_def chunked_rows table_rows_def)
  ultimately obtain w' where fin: "json_finish (j, ?w) = (map (chunk_statement ?fmt) ?ks, length es, w')" "files_hold ?fmt ?ks w'" "writes ?fmt ?ks ?w w'"
    using json_finish_inv [OF _ table_chunks_facts(1) [OF items], of "ac_output_chunk_limit a" j ?w] unfolding files_hold_def by auto
  have inside: "same_inside (ac_run_root a) ?w w'" using writes_outside [OF fin(3) table_chunks_facts(3) [OF items]] .
  have ready: "spool_ready (sv_edge_id env) accepted w (edge_idents es)" "sl_root accepted = ac_run_root a" "sl_prefix accepted = ''accepted-edge-ids''"
    "spool_ready (sv_connector env) connectors w (concat (map (edge_connectors types) es))" "sl_root connectors = ac_run_root a"
    "sl_prefix connectors = ''connectors''" "files_hold ?fmt nks w" using inv by (simp_all add: emitted_def)
  have "spool_ready (sv_edge_id env) accepted w' (edge_idents es)" "spool_ready (sv_connector env) connectors w' (concat (map (edge_connectors types) es))"
    using spool_ready_remove [OF ready(1,2)] spool_ready_remove [OF ready(4,5)] inside by (auto simp: ready intro: spool_ready_inside)
  moreover have "files_hold ?fmt nks w'"
    using files_hold_outside [OF ready(7) _ out] apart files_hold_apart [OF _ apart fin(3)] by (auto simp: apart_def)
  ultimately show ?thesis using fin(1,2) ready by (auto simp: connected_state_def)
qed

lemma edges_loop_ok:
  assumes start: "emitting env a types nks stored [] edges w d" and stored: "stored = edge_bytes env edges"
    and good: "list_all (rereadable (sv_merged_edge env)) (map merged_edge_of edges)"
    and fits: "\<forall>es e post. edges = es @ e # post \<longrightarrow> edge_accepted specs types e \<longrightarrow> accepted_next env a types nks (filter (edge_accepted specs types) es) e"
  shows "\<exists>r' w' d'. while_some (reader_next (sv_merged_edge env)) (\<lambda>m wd. lift_result (emit_edge env specs m wd)) (Suc (length stored)) (stored, w) d = Inr (r', w', d')
     \<and> emitting env a types nks stored (filter (edge_accepted specs types) edges) [] w' d'"
proof -
  let ?P = "\<lambda>pre w d. emitting env a types nks stored (filter (edge_accepted specs types) (take (length pre) edges)) (drop (length pre) edges) w d"
  have yields: "reader_yields (sv_merged_edge env) stored (map merged_edge_of edges)" using good by (simp add: reader_yields_def stored)
  have fuel: "length (map merged_edge_of edges) < Suc (length stored)" using recs.length_records [OF good] by (simp add: stored)
  have "spec True (while_some (reader_next (sv_merged_edge env)) (\<lambda>m wd. lift_result (emit_edge env specs m wd)) (Suc (length stored)) (stored, w) d)
     (\<lambda>(r', w', d'). ?P (map merged_edge_of edges) w' d')"
  proof (rule filed.while_some_spec [OF yields fuel, where P = ?P])
    show "?P [] w d" using start by simp
    show "?P pre w2 d'" if "?P pre w1 d'" "w2 = w1" for pre w1 w2 d' using that by simp
    fix pre m post w1 d1 assume split: "map merged_edge_of edges = pre @ m # post" and inv: "?P pre w1 d1"
    let ?n = "length pre"
    have "length (map merged_edge_of edges) = length (pre @ m # post)" "map merged_edge_of edges ! ?n = (pre @ m # post) ! ?n" by (simp_all only: split)
    then have n: "?n < length edges" and m: "m = merged_edge_of (edges ! ?n)" by auto
    have inv': "emitting env a types nks stored (filter (edge_accepted specs types) (take ?n edges)) (edges ! ?n # drop (Suc ?n) edges) w1 d1"
      using inv by (simp add: Cons_nth_drop_Suc n)
    have "edge_accepted specs types (edges ! ?n) \<longrightarrow> accepted_next env a types nks (filter (edge_accepted specs types) (take ?n edges)) (edges ! ?n)"
      using fits id_take_nth_drop [OF n] by blast
    from emit_edge_ok [OF inv' this] show "spec True (lift_result (emit_edge env specs m (w1, d1))) (\<lambda>(w', d'). ?P (pre @ [m]) w' d')"
      by (auto simp: m take_Suc_conv_app_nth n)
  qed
  then show ?thesis unfolding spec_True_iff by auto
qed

lemma edges_accepted_next:
  assumes fit: "edges_fit env a edges types" and apart: "\<And>es. set es \<subseteq> set edges \<Longrightarrow> apart a nks (table_chunks a (sv_edge_row env) es)"
    and split: "edges = es @ e # post" and ok: "P e"
  shows "accepted_next env a types nks (filter P es) e"
proof -
  have "table_items a (sv_edge_row env) (filter P es @ e # filter P post)"
    using table_items_filter [of a "sv_edge_row env" edges P] fit ok by (simp add: edges_fit_def split)
  from table_items_prefix [of a "sv_edge_row env" "filter P es @ [e]" "filter P post"] this
  have "table_items a (sv_edge_row env) (filter P es @ [e])" by simp
  moreover have "length (filter P es) + 1 < 2 ^ 19"
  proof -
    have "length (filter P es) + 1 \<le> length edges" using le_add1 [THEN order_trans [OF length_filter_le [of P es]], of "length post"] by (simp add: split)
    also have "\<dots> < 2 ^ 19" using fit by (simp add: edges_fit_def)
    finally show ?thesis .
  qed
  moreover have "spillable (sv_edge_id env) (fst (snd e))" "list_all (spillable (sv_connector env)) (edge_connectors types e)"
    using fit by (auto simp: edges_fit_def split list_all_iff split: prod.splits)
  moreover have "apart a nks (table_chunks a (sv_edge_row env) (filter P es @ [e]))" "apart a nks (table_chunks a (sv_edge_row env) (filter P es))"
    by (rule apart, auto simp: split)+
  ultimately show ?thesis by (simp add: accepted_next_def)
qed

lemma edges_start:
  assumes fit: "edges_fit env a edges types" and keys: "sorted (map row_key edges)" "distinct (map row_key edges)"
    and st: "resolved_state env a edges types s w" and hold: "files_hold (json_format (ac_staging_dir a)) nks w"
    and out: "all_outside (ac_run_root a) (json_format (ac_staging_dir a)) nks"
  obtains q w1 c i where "spool_finish (sv_resolved env) s w = Inr (q, w1)"
    "spool_new (ac_run_root a) ''connectors'' (ac_chunk_limit a) = Inr c" "spool_new (ac_run_root a) ''accepted-edge-ids'' (ac_chunk_limit a) = Inr i"
    "emitting env a types nks (edge_bytes env edges) [] edges w1
       \<lparr>dg_resolved = q, dg_edges = json_sink_new (ac_staging_dir a) (ac_output_chunk_limit a), dg_accepted = i, dg_connectors = c\<rparr>"
proof -
  have codecs: "codecs_ok env" "accumulator_ok a" using fit by (simp_all add: edges_fit_def table_items_def)
  have len: "length (map (resolution types) (sort_key endpoint_sort_key (concat (map edge_requests edges)))) < 2 ^ 20"
    unfolding length_map length_sort requests_length using fit by (simp add: edges_fit_def)
  have key: "sr_sort_key (sv_resolved env) = resolved_sort_key" using codecs by (simp add: codecs_ok_def)
  have ready: "spool_ready (sv_resolved env) s w (map (resolution types) (sort_key endpoint_sort_key (concat (map edge_requests edges))))"
    "sl_root s = ac_run_root a" "sl_prefix s = ''resolved-endpoints''" using st by (simp_all add: resolved_state_def)
  from spool_finish_yields [OF ready(1) len, unfolded key resolved_in_order [OF keys] ready(2,3)] obtain q w1 where
    q: "spool_finish (sv_resolved env) s w = Inr (q, w1)"
      "stream_yields (sv_resolved env) (ac_run_root a) ''resolved-endpoints'' q (map (resolution types) (concat (map edge_requests edges)))"
      "touches (ac_run_root a) ''resolved-endpoints'' w w1" by blast
  have kept: "kept a w w1" by (rule kept_touches [OF q(3)]) simp_all
  then have hold1: "ws_files w1 (merged_edges_path a) = Some (edge_bytes env edges)" "files_hold (json_format (ac_staging_dir a)) nks w1"
    using st files_hold_outside [OF hold out, of w1] by (simp_all add: kept_def resolved_state_def)
  from spool_new_ready [of "sv_connector env" "ac_chunk_limit a" "ac_run_root a" "''connectors''" w1] codecs obtain c where
    c: "spool_new (ac_run_root a) ''connectors'' (ac_chunk_limit a) = Inr c" "spool_ready (sv_connector env) c w1 []"
      "sl_root c = ac_run_root a" "sl_prefix c = ''connectors''" by (auto simp: accumulator_ok_def codecs_ok_def)
  from spool_new_ready [of "sv_edge_id env" "ac_chunk_limit a" "ac_run_root a" "''accepted-edge-ids''" w1] codecs obtain i where
    i: "spool_new (ac_run_root a) ''accepted-edge-ids'' (ac_chunk_limit a) = Inr i" "spool_ready (sv_edge_id env) i w1 []"
      "sl_root i = ac_run_root a" "sl_prefix i = ''accepted-edge-ids''" by (auto simp: accumulator_ok_def codecs_ok_def)
  show ?thesis
    by (rule that [OF q(1) c(1) i(1)])
      (use q(2) c i hold1 in \<open>simp add: emitting_def table_chunks_def table_rows_def json_inv_new edge_idents_def del: map_map\<close>)
qed

lemma finish_edges_ok:
  assumes fit: "edges_fit env a edges types" and keys: "sorted (map row_key edges)" "distinct (map row_key edges)"
    and nodes: "table_items a ncodec nodes" and names: "names_ok (fst ` set nodes \<union> fst ` set edges)" "fst ` set nodes \<inter> fst ` set edges = {}"
    and st: "resolved_state env a edges types s w"
    and hold: "files_hold (json_format (ac_staging_dir a)) (table_chunks a ncodec nodes) w"
    and es: "es = filter (edge_accepted (ac_relation_types a) types) edges"
  shows "\<exists>q accepted connectors w'. finish_edges env a s w =
       Inr ((map (chunk_statement (json_format (ac_staging_dir a))) (table_chunks a (sv_edge_row env) es), length es), q, accepted, connectors, w')
     \<and> stream_yields (sv_resolved env) (ac_run_root a) ''resolved-endpoints'' q [] \<and> connected_state env a types es accepted connectors w'
     \<and> files_hold (json_format (ac_staging_dir a)) (table_chunks a ncodec nodes) w'
     \<and> files_hold (json_format (ac_staging_dir a)) (table_chunks a (sv_edge_row env) es) w'"
proof -
  let ?nks = "table_chunks a ncodec nodes" and ?stored = "edge_bytes env edges"
  have apart: "apart a ?nks (table_chunks a (sv_edge_row env) es)" if "set es \<subseteq> set edges" for es
    by (rule tables_apart [OF nodes names that])
  from edges_start [OF fit keys st hold table_chunks_facts(3) [OF nodes]] obtain q w1 c i where
    start: "spool_finish (sv_resolved env) s w = Inr (q, w1)" "spool_new (ac_run_root a) ''connectors'' (ac_chunk_limit a) = Inr c"
      "spool_new (ac_run_root a) ''accepted-edge-ids'' (ac_chunk_limit a) = Inr i"
      "emitting env a types ?nks ?stored [] edges w1
         \<lparr>dg_resolved = q, dg_edges = json_sink_new (ac_staging_dir a) (ac_output_chunk_limit a), dg_accepted = i, dg_connectors = c\<rparr>" .
  have good: "list_all (rereadable (sv_merged_edge env)) (map merged_edge_of edges)"
    using fit by (auto simp: edges_fit_def codecs_ok_def rereadable_def list_all_iff)
  have fits: "\<forall>es e post. edges = es @ e # post \<longrightarrow> edge_accepted (ac_relation_types a) types e \<longrightarrow>
      accepted_next env a types ?nks (filter (edge_accepted (ac_relation_types a) types) es) e"
  proof (intro allI impI)
    fix es e post assume split: "edges = es @ e # post" and ok: "edge_accepted (ac_relation_types a) types e"
    show "accepted_next env a types ?nks (filter (edge_accepted (ac_relation_types a) types) es) e"
    proof (rule edges_accepted_next [OF fit])
      show "apart a ?nks (table_chunks a (sv_edge_row env) es)" if "set es \<subseteq> set edges" for es using that by (rule apart)
    qed (rule split, rule ok)
  qed
  from edges_loop_ok [OF start(4) refl good fits] obtain r' w2 d where
    loop: "while_some (reader_next (sv_merged_edge env)) (\<lambda>m wd. lift_result (emit_edge env (ac_relation_types a) m wd)) (Suc (length ?stored)) (?stored, w1)
       \<lparr>dg_resolved = q, dg_edges = json_sink_new (ac_staging_dir a) (ac_output_chunk_limit a), dg_accepted = i, dg_connectors = c\<rparr> = Inr (r', w2, d)"
      "emitting env a types ?nks ?stored es [] w2 d" unfolding es by blast
  have items: "table_items a (sv_edge_row env) es" using fit unfolding es by (intro table_items_filter) (simp add: edges_fit_def)
  have "emitted env a ?nks ?stored es (edge_idents es) (concat (map (edge_connectors types) es)) w2 (dg_edges d, dg_accepted d, dg_connectors d)"
    using loop(2) by (simp only: emitting_alt)
  from edges_finished [OF this items apart] es obtain w3 where
    fin: "json_finish (dg_edges d, w2\<lparr>ws_files := (ws_files w2)(merged_edges_path a := None)\<rparr>) =
        (map (chunk_statement (json_format (ac_staging_dir a))) (table_chunks a (sv_edge_row env) es), length es, w3)"
      "connected_state env a types es (dg_accepted d) (dg_connectors d) w3" "files_hold (json_format (ac_staging_dir a)) ?nks w3"
      "files_hold (json_format (ac_staging_dir a)) (table_chunks a (sv_edge_row env) es) w3" by auto
  have stored: "ws_files w1 (merged_edges_path a) = Some ?stored" "ws_files w2 (merged_edges_path a) = Some ?stored"
    using start(4) loop(2) by (simp_all add: emitting_def)
  have "finish_edges env a s w = Inr ((map (chunk_statement (json_format (ac_staging_dir a))) (table_chunks a (sv_edge_row env) es), length es),
      dg_resolved d, dg_accepted d, dg_connectors d, w3)"
    using start(1-3) loop(1) fin(1) stored by (simp add: finish_edges_def open_file_def remove_file_def Let_def del: map_map)
  then show ?thesis using loop(2) fin(2-4) by (simp add: emitting_def)
qed

section \<open>Last pass: the connectors\<close>

text \<open>A sorted stream with repetitions skipped counts the different items.\<close>

fun skip_repeats :: "'a option \<Rightarrow> 'a list \<Rightarrow> 'a list" where
  "skip_repeats previous [] = []"
| "skip_repeats previous (x # xs) = (if previous = Some x then skip_repeats previous xs else x # skip_repeats (Some x) xs)"

lemma skip_repeats_sorted:
  assumes "sorted xs" and "\<forall>x\<in>set xs. (p :: 'a::linorder) \<le> x"
  shows "set (skip_repeats (Some p) xs) = set xs - {p} \<and> distinct (skip_repeats (Some p) xs)"
  using assms by (induction xs arbitrary: p) auto

lemma count_different: "sorted xs \<Longrightarrow> length (skip_repeats None xs) = card (set (xs :: 'a::linorder list))"
proof (cases xs)
  case (Cons x ys)
  assume sorted: "sorted xs"
  then have rep: "set (skip_repeats (Some x) ys) = set ys - {x}" "distinct (skip_repeats (Some x) ys)"
    using skip_repeats_sorted [of ys x] by (auto simp: Cons)
  then have "length (skip_repeats (Some x) ys) = card (set ys - {x})" by (metis distinct_card)
  then show ?thesis using Cons card.insert_remove [of "set ys" x] by simp
qed simp

lemma skip_repeats_snoc:
  "skip_repeats None (xs @ [x]) = (if xs \<noteq> [] \<and> last xs = x then skip_repeats None xs else skip_repeats None xs @ [x])"
proof -
  have "skip_repeats p (xs @ [x]) = (if (if xs = [] then p else Some (last xs)) = Some x then skip_repeats p xs else skip_repeats p xs @ [x])" for p
    by (induction xs arbitrary: p) auto
  then show ?thesis by simp
qed

lemma skip_repeats_distinct: "distinct xs \<Longrightarrow> skip_repeats None xs = xs"
  by (induction xs rule: rev_induct) (auto simp: skip_repeats_snoc)

definition last_option :: "'a list \<Rightarrow> 'a option" where
  "last_option xs = (if xs = [] then None else Some (last xs))"

lemma count_accepted_ok:
  assumes yields: "stream_yields (sv_edge_id env) base prefix q ids" and fuel: "length ids < stream_fuel q" and room: "length ids < 2 ^ 20"
  shows "\<exists>q' w' previous. while_some (stream_next (sv_edge_id env)) (\<lambda>ident ws. lift_result (count_edge_id ident ws)) (stream_fuel q) (q, w) (None, 0) =
       Inr (q', w', (previous, length (skip_repeats None ids))) \<and> touches base prefix w w'"
proof -
  let ?P = "\<lambda>pre w' (previous, n). previous = last_option pre \<and> n = length (skip_repeats None pre) \<and> touches base prefix w w'"
  have bound: "length (skip_repeats p xs) \<le> length xs" for p and xs :: "string list" by (induction p xs rule: skip_repeats.induct) auto
  have "spec True (while_some (stream_next (sv_edge_id env)) (\<lambda>ident ws. lift_result (count_edge_id ident ws)) (stream_fuel q) (q, w) (None, 0))
     (\<lambda>(q', w', s'). ?P ids w' s')"
  proof (rule sorted.while_some_spec [OF yields fuel, where P = ?P])
    show "?P [] w (None, 0)" by (simp add: last_option_def)
    show "?P pre w2 s" if "?P pre w1 s" "touches base prefix w1 w2" for pre w1 w2 s
      using that by (cases s) (auto intro: touches_trans)
    fix pre ident post w1 s assume split: "ids = pre @ ident # post" and inv: "?P pre w1 s"
    have "Suc (length (skip_repeats None pre)) \<le> max_u64" using bound [of None pre] room by (simp add: split max_u64_def)
    then show "spec True (lift_result (count_edge_id ident (w1, s))) (\<lambda>(w', s'). ?P (pre @ [ident]) w' s')"
      using inv by (cases s) (auto simp: count_edge_id_def skip_repeats_snoc last_option_def add_u64_def)
  qed
  then show ?thesis unfolding spec_True_iff by auto
qed

definition connector_rows :: "connector_record list \<Rightarrow> (connector_group \<times> string) list" where
  "connector_rows cs = map (\<lambda>c. (connector_group_of c, connector_line c)) cs"

definition connector_chunks :: "accumulator \<Rightarrow> connector_record list \<Rightarrow> connector_group chunk list" where
  "connector_chunks a cs = chunked (connector_format (ac_staging_dir a)) (ac_output_chunk_limit a) (connector_rows cs)"

definition connectors_fit :: "accumulator \<Rightarrow> string set \<Rightarrow> connector_record list \<Rightarrow> bool" where
  "connectors_fit a names cs \<longleftrightarrow> accumulator_ok a \<and> names_ok names \<and> sorted (map connector_sort_key cs) \<and> length cs < 2 ^ 20
     \<and> list_all (\<lambda>c. {cr_relation c, cr_from_type c, cr_to_type c} \<subseteq> names \<and> length (connector_line c) \<le> 2 ^ 34) cs"

lemma connectors_fit_prefix: "connectors_fit a names (xs @ ys) \<Longrightarrow> connectors_fit a names xs"
  by (auto simp: connectors_fit_def sorted_append)

lemma connector_groups_sorted:
  assumes "sorted (map connector_sort_key cs)"
  shows "sorted (map fst (connector_rows cs))"
  using assms
  by (induction cs) (auto simp: connector_rows_def connector_sort_key_def connector_group_of_def)

lemma connector_chunks_facts:
  assumes fit: "connectors_fit a names cs"
  shows "distinct (map (chunk_file (connector_format (ac_staging_dir a))) (connector_chunks a cs))"
    and "sink_small (connector_format (ac_staging_dir a)) (connector_chunks a cs)"
    and "all_outside (ac_run_root a) (connector_format (ac_staging_dir a)) (connector_chunks a cs)"
proof -
  have groups: "\<forall>(r, s, f, t)\<in>fst ` set (connector_rows cs). {r, f, t} \<subseteq> names"
    using fit by (auto simp: connectors_fit_def connector_rows_def connector_group_of_def list_all_iff)
  have names: "names_ok names" using fit by (simp add: connectors_fit_def)
  show "distinct (map (chunk_file (connector_format (ac_staging_dir a))) (connector_chunks a cs))"
    unfolding connector_chunks_def
    by (rule connector_files_distinct [OF connector_groups_sorted groups names]) (use fit in \<open>simp add: connectors_fit_def\<close>)
  have "\<forall>(grp, row)\<in>set (connector_rows cs). length row \<le> 2 ^ 34"
    using fit by (auto simp: connectors_fit_def connector_rows_def list_all_iff)
  moreover have "length (connector_rows cs) < 2 ^ 21" "ac_output_chunk_limit a \<le> 2 ^ 62"
    using fit by (simp_all add: connectors_fit_def connector_rows_def accumulator_ok_def)
  ultimately show "sink_small (connector_format (ac_staging_dir a)) (connector_chunks a cs)"
    unfolding connector_chunks_def by (intro chunked_small) (simp_all add: connector_header_def)
  obtain process_id sequence where base: "ac_run_root a = run_root_path (ac_staging_dir a) process_id sequence"
    using fit by (auto simp: connectors_fit_def accumulator_ok_def)
  have "\<not> starts_with (ac_run_root a @ ''/'') (connector_path (ac_staging_dir a) grp i)" if "(grp, i, rows) \<in> set (connector_chunks a cs)" for grp i rows
  proof -
    obtain r s f t where grp: "grp = (r, s, f, t)" by (cases grp)
    have "(grp, i) \<in> chunk_name ` set (connector_chunks a cs)" using that by force
    then have "grp \<in> fst ` set (connector_rows cs)" unfolding connector_chunks_def by (rule chunked_names_subset)
    with groups names have "plain_group (r, s, f, t)" by (auto simp: grp plain_group_def names_ok_def)
    then show ?thesis unfolding grp connector_path_plain [OF \<open>plain_group (r, s, f, t)\<close>] base
      by (cases s) (auto simp: side_word_def outside_head)
  qed
  then show "all_outside (ac_run_root a) (connector_format (ac_staging_dir a)) (connector_chunks a cs)"
    by (auto simp: all_outside_def)
qed

text \<open>Table files are JSON files and connector files are CSV files.\<close>

lemma json_not_csv: "chunked_output_path dir stem ''json'' i \<noteq> chunked_output_path dir' stem' ''csv'' i'"
proof -
  have "last (chunked_output_path dir stem ext i) = last ext" if "ext \<noteq> []" for dir stem ext i
    using that by (simp add: chunked_output_path_def)
  from this [of "''json''" dir stem i] this [of "''csv''" dir' stem' i'] show ?thesis by auto
qed

lemma json_files_kept:
  assumes "files_hold (json_format dir) jks w" and "writes (connector_format dir) ks w w'"
  shows "files_hold (json_format dir) jks w'"
proof -
  have "cf_path (json_format dir) t i \<notin> chunk_file (connector_format dir) ` set ks" for t i
    using json_not_csv by (auto simp: chunk_file_def connector_path_def)
  with assms show ?thesis by (fastforce simp: files_hold_def writes_def)
qed

lemma emit_connector_ok:
  assumes inv: "connector_inv (ac_staging_dir a) (ac_output_chunk_limit a) sink w (connector_chunks a pre)"
    and fit: "connectors_fit a names (pre @ c # post)" and distinct: "distinct (map connector_sort_key (pre @ c # post))"
  shows "\<exists>sink' w'. emit_connector env c (w, (last_option (map connector_sort_key pre), sink)) = Inr (w', (Some (connector_sort_key c), sink'))
     \<and> connector_inv (ac_staging_dir a) (ac_output_chunk_limit a) sink' w' (connector_chunks a (pre @ [c]))
     \<and> writes (connector_format (ac_staging_dir a)) (connector_chunks a pre) w w'"
proof -
  have "length (connector_line c) \<le> 2 ^ 34" using fit by (simp add: connectors_fit_def)
  then have line: "length (connector_line c) \<le> 2 ^ 35" by simp
  note facts = connector_chunks_facts [OF connectors_fit_prefix [OF fit]]
  have grown: "connector_chunks a (pre @ [c]) =
      place (connector_format (ac_staging_dir a)) (ac_output_chunk_limit a) (connector_group_of c, connector_line c) (connector_chunks a pre)"
    by (simp add: connector_chunks_def connector_rows_def chunked_snoc)
  from connector_push_place [OF inv facts(2,1) line, of "sv_csv_capacity env"] obtain sink' w' where
    push: "connector_push (sv_csv_capacity env) c (sink, w) = Inr (sink', w')"
      "connector_inv (ac_staging_dir a) (ac_output_chunk_limit a) sink' w' (connector_chunks a (pre @ [c]))"
      "writes (connector_format (ac_staging_dir a)) (connector_chunks a pre) w w'" unfolding grown by blast
  have "last_option (map connector_sort_key pre) \<noteq> Some (connector_sort_key c)"
    using distinct by (cases pre rule: rev_cases) (auto simp: last_option_def)
  with push show ?thesis by (simp add: emit_connector_def)
qed

lemma connectors_loop_ok:
  assumes yields: "stream_yields (sv_connector env) (ac_run_root a) prefix q cs" and fuel: "length cs < stream_fuel q"
    and fit: "connectors_fit a names cs" and distinct: "distinct (map connector_sort_key cs)"
    and hold: "files_hold (json_format (ac_staging_dir a)) jks w" and out: "all_outside (ac_run_root a) (json_format (ac_staging_dir a)) jks"
  shows "\<exists>q' w' previous sink. while_some (stream_next (sv_connector env)) (\<lambda>c ws. lift_result (emit_connector env c ws)) (stream_fuel q) (q, w)
         (None, connector_sink_new (ac_staging_dir a) (ac_output_chunk_limit a)) = Inr (q', w', (previous, sink))
     \<and> connector_inv (ac_staging_dir a) (ac_output_chunk_limit a) sink w' (connector_chunks a cs)
     \<and> files_hold (json_format (ac_staging_dir a)) jks w'"
proof -
  let ?fmt = "connector_format (ac_staging_dir a)"
  let ?P = "\<lambda>pre w' (previous, sink). previous = last_option (map connector_sort_key pre)
      \<and> connector_inv (ac_staging_dir a) (ac_output_chunk_limit a) sink w' (connector_chunks a pre)
      \<and> files_hold (json_format (ac_staging_dir a)) jks w' \<and> (\<exists>post. cs = pre @ post)"
  have "spec True (while_some (stream_next (sv_connector env)) (\<lambda>c ws. lift_result (emit_connector env c ws)) (stream_fuel q) (q, w)
         (None, connector_sink_new (ac_staging_dir a) (ac_output_chunk_limit a))) (\<lambda>(q', w', s'). ?P cs w' s')"
  proof (rule sorted.while_some_spec [OF yields fuel, where P = ?P])
    show "?P [] w (None, connector_sink_new (ac_staging_dir a) (ac_output_chunk_limit a))"
      using hold by (simp add: last_option_def connector_chunks_def connector_rows_def connector_inv_new)
    show "?P pre w2 s" if inv: "?P pre w1 s" and touches: "touches (ac_run_root a) prefix w1 w2" for pre w1 w2 s
    proof -
      have "connectors_fit a names pre" using inv fit by (auto intro: connectors_fit_prefix)
      then show ?thesis
        using inv connector_inv_outside [OF _ connector_chunks_facts(3) touches_inside [OF touches]]
          files_hold_outside [OF _ out touches_inside [OF touches]] by (cases s) auto
    qed
    fix pre c post w1 s assume split: "cs = pre @ c # post" and inv: "?P pre w1 s"
    obtain previous sink where s: "s = (previous, sink)" by (cases s)
    from emit_connector_ok [of a sink w1 pre names c post env] inv fit distinct obtain sink' w' where
      "emit_connector env c (w1, s) = Inr (w', (Some (connector_sort_key c), sink'))"
      "connector_inv (ac_staging_dir a) (ac_output_chunk_limit a) sink' w' (connector_chunks a (pre @ [c]))"
      "writes ?fmt (connector_chunks a pre) w1 w'" by (auto simp: s split)
    then show "spec True (lift_result (emit_connector env c (w1, s))) (\<lambda>(w', s'). ?P (pre @ [c]) w' s')"
      using inv json_files_kept [of "ac_staging_dir a" jks w1] by (auto simp: s split last_option_def)
  qed
  then show ?thesis unfolding spec_True_iff by auto
qed

lemma finish_connectors_ok:
  assumes st: "connected_state env a types es accepted connectors w" and codecs: "codecs_ok env"
    and cs: "cs = sort_key connector_sort_key (concat (map (edge_connectors types) es))"
    and fit: "connectors_fit a names cs" and distinct: "distinct (map connector_sort_key cs)" and room: "length es < 2 ^ 19"
    and hold: "files_hold (json_format (ac_staging_dir a)) jks w" and out: "all_outside (ac_run_root a) (json_format (ac_staging_dir a)) jks"
  shows "\<exists>w'. finish_connectors env a accepted connectors w =
       Inr (card (set (edge_idents es)), (map (chunk_statement (connector_format (ac_staging_dir a))) (connector_chunks a cs), length cs), w')
     \<and> files_hold (json_format (ac_staging_dir a)) jks w' \<and> files_hold (connector_format (ac_staging_dir a)) (connector_chunks a cs) w'"
proof -
  have ready: "spool_ready (sv_edge_id env) accepted w (edge_idents es)" "sl_root accepted = ac_run_root a" "sl_prefix accepted = ''accepted-edge-ids''"
    "spool_ready (sv_connector env) connectors w (concat (map (edge_connectors types) es))" "sl_root connectors = ac_run_root a"
    "sl_prefix connectors = ''connectors''" using st by (simp_all add: connected_state_def)
  have len: "length (edge_idents es) < 2 ^ 20" "length (concat (map (edge_connectors types) es)) < 2 ^ 20"
    using room fit by (simp_all add: edge_idents_def connectors_fit_def cs)
  have key: "sr_sort_key (sv_edge_id env) = (\<lambda>ident. ident)" "sr_sort_key (sv_connector env) = connector_sort_key" using codecs by (simp_all add: codecs_ok_def)
  from spool_finish_yields [OF ready(1) len(1), unfolded key ready(2,3)] obtain q w1 where
    q: "spool_finish (sv_edge_id env) accepted w = Inr (q, w1)" "stream_yields (sv_edge_id env) (ac_run_root a) ''accepted-edge-ids'' q (sort (edge_idents es))"
      "length (sort (edge_idents es)) < stream_fuel q" "touches (ac_run_root a) ''accepted-edge-ids'' w w1" by auto
  from count_accepted_ok [OF q(2,3), of w1] len(1) obtain q' w2 previous where
    ids: "while_some (stream_next (sv_edge_id env)) (\<lambda>ident ws. lift_result (count_edge_id ident ws)) (stream_fuel q) (q, w1) (None, 0) =
        Inr (q', w2, (previous, card (set (edge_idents es))))" "touches (ac_run_root a) ''accepted-edge-ids'' w1 w2"
    by (auto simp: count_different)
  have touches: "touches (ac_run_root a) ''accepted-edge-ids'' w w2" using q(4) ids(2) by (rule touches_trans)
  have ready2: "spool_ready (sv_connector env) connectors w2 (concat (map (edge_connectors types) es))"
    by (rule touches_ready [OF ready(4) touches]) (simp_all add: ready)
  from spool_finish_yields [OF ready2 len(2), unfolded key ready(5,6)] obtain p w3 where
    p: "spool_finish (sv_connector env) connectors w2 = Inr (p, w3)" "stream_yields (sv_connector env) (ac_run_root a) ''connectors'' p cs"
      "length cs < stream_fuel p" "touches (ac_run_root a) ''connectors'' w2 w3" by (auto simp: cs)
  have hold3: "files_hold (json_format (ac_staging_dir a)) jks w3"
    using files_hold_outside [OF hold out same_outside_trans [OF touches_inside [OF touches] touches_inside [OF p(4)]]] .
  from connectors_loop_ok [OF p(2,3) fit distinct hold3 out] obtain p' w4 prev sink where
    loop: "while_some (stream_next (sv_connector env)) (\<lambda>c ws. lift_result (emit_connector env c ws)) (stream_fuel p) (p, w3)
         (None, connector_sink_new (ac_staging_dir a) (ac_output_chunk_limit a)) = Inr (p', w4, (prev, sink))"
      "connector_inv (ac_staging_dir a) (ac_output_chunk_limit a) sink w4 (connector_chunks a cs)" "files_hold (json_format (ac_staging_dir a)) jks w4" by blast
  have total: "length (concat (map chunk_rows (connector_chunks a cs))) = length cs" by (simp add: connector_chunks_def chunked_rows connector_rows_def)
  from connector_finish_inv [OF loop(2) connector_chunks_facts(1) [OF fit], unfolded total] obtain w5 where
    fin: "connector_finish (sink, w4) = (map (chunk_statement (connector_format (ac_staging_dir a))) (connector_chunks a cs), length cs, w5)"
      "files_hold (connector_format (ac_staging_dir a)) (connector_chunks a cs) w5"
      "writes (connector_format (ac_staging_dir a)) (connector_chunks a cs) w4 w5" by (auto simp: files_hold_def)
  have "finish_connectors env a accepted connectors w =
      Inr (card (set (edge_idents es)), (map (chunk_statement (connector_format (ac_staging_dir a))) (connector_chunks a cs), length cs), w5)"
    by (simp add: finish_connectors_def q(1) ids(1) p(1) loop(1) fin(1) Let_def)
  then show ?thesis using fin(2) json_files_kept [OF loop(3) fin(3)] by blast
qed

end
