(* ===== verification/StagingRun.thy ===== *)
theory StagingRun
  imports StagingFinish
begin

text \<open>
  Staging from the first partition to the result: which raw records the partitions add, what
  \<open>finish\<close> makes of them, and the properties of a whole run.
\<close>

section \<open>The records of the partitions\<close>

text \<open>
  A partition with the identifiers of the nodes and edges that a previous run has already staged.
  The references work on the rows alone.
\<close>

type_synonym staged_part = "graph_partition \<times> string set \<times> string set"

definition file_hash :: "graph_partition \<Rightarrow> graph_node_row \<Rightarrow> string option" where
  "file_hash p node = (if gn_table node = ''File'' then Some (me_content_hash (gp_entry p)) else None)"

definition node_rows :: "staged_part list \<Rightarrow> (string \<times> string \<times> node_staged_row) list" where
  "node_rows parts = concat (map (\<lambda>(p, retained_nodes, retained_edges).
     map (\<lambda>node. (gn_table node, gn_id node, node_fields node (file_hash p node)))
       (filter (\<lambda>node. gn_id node \<notin> retained_nodes) (gp_nodes p))) parts)"

definition edge_rows :: "staged_part list \<Rightarrow> (string \<times> string \<times> edge_staged_row) list" where
  "edge_rows parts = concat (map (\<lambda>(p, retained_nodes, retained_edges).
     map (\<lambda>row. (ge_edge_type row, ge_id row, edge_fields row))
       (filter (\<lambda>row. ge_id row \<notin> retained_edges) (gp_edges p))) parts)"

definition type_rows :: "staged_part list \<Rightarrow> (string \<times> string) list" where
  "type_rows parts = concat (map (\<lambda>(p, retained_nodes, retained_edges). map (\<lambda>node. (gn_id node, gn_table node)) (gp_nodes p)) parts)"

definition staged_nodes :: "staged_part list \<Rightarrow> (string \<times> string \<times> node_staged_row) list" where
  "staged_nodes parts = grouped row_key (merge_rows merge_node_value) (node_rows parts)"

definition staged_edges :: "staged_part list \<Rightarrow> (string \<times> string \<times> edge_staged_row) list" where
  "staged_edges parts = grouped row_key (merge_rows merge_edge_value) (edge_rows parts)"

definition staged_types :: "staged_part list \<Rightarrow> (string \<times> string) list" where
  "staged_types parts = grouped fst (\<lambda>a b. a) (type_rows parts)"

definition accepted_edges :: "relation_spec list \<Rightarrow> staged_part list \<Rightarrow> (string \<times> string \<times> edge_staged_row) list" where
  "accepted_edges specs parts = filter (edge_accepted specs (staged_types parts)) (staged_edges parts)"

definition staged_connectors :: "relation_spec list \<Rightarrow> staged_part list \<Rightarrow> connector_record list" where
  "staged_connectors specs parts =
     sort_key connector_sort_key (concat (map (edge_connectors (staged_types parts)) (accepted_edges specs parts)))"

text \<open>The raw records, numbered in the order of arrival.\<close>

fun raw_nodes :: "graph_partition \<Rightarrow> string set \<Rightarrow> nat \<Rightarrow> graph_node_row list \<Rightarrow> raw_record list" where
  "raw_nodes p retained order [] = []"
| "raw_nodes p retained order (node # nodes) =
     RawNodeType (gn_id node) (gn_table node) order
     # (if gn_id node \<in> retained then [] else [RawNode (gn_table node) (gn_id node) order (node_fields node (file_hash p node))])
     @ raw_nodes p retained (Suc order) nodes"

fun raw_edges :: "string set \<Rightarrow> nat \<Rightarrow> graph_edge_row list \<Rightarrow> raw_record list" where
  "raw_edges retained order [] = []"
| "raw_edges retained order (row # rows) =
     (if ge_id row \<in> retained then raw_edges retained order rows
      else RawEdge (ge_edge_type row) (ge_id row) order (edge_fields row) # raw_edges retained (Suc order) rows)"

definition next_order :: "staged_part \<Rightarrow> nat \<Rightarrow> nat" where
  "next_order = (\<lambda>(p, retained_nodes, retained_edges) order.
     order + length (gp_nodes p) + length (filter (\<lambda>row. ge_id row \<notin> retained_edges) (gp_edges p)))"

definition raw_part :: "staged_part \<Rightarrow> nat \<Rightarrow> raw_record list" where
  "raw_part = (\<lambda>(p, retained_nodes, retained_edges) order.
     raw_nodes p retained_nodes order (gp_nodes p) @ raw_edges retained_edges (order + length (gp_nodes p)) (gp_edges p))"

fun raw_parts :: "nat \<Rightarrow> staged_part list \<Rightarrow> raw_record list" where
  "raw_parts order [] = []"
| "raw_parts order (part # parts) = raw_part part order @ raw_parts (next_order part order) parts"

lemma raw_nodes_groups:
  "List.map_filter node_group_of (raw_nodes p retained order nodes) =
     map (\<lambda>node. (gn_table node, gn_id node, node_fields node (file_hash p node))) (filter (\<lambda>node. gn_id node \<notin> retained) nodes)"
  "List.map_filter edge_group_of (raw_nodes p retained order nodes) = []"
  "List.map_filter type_group_of (raw_nodes p retained order nodes) = map (\<lambda>node. (gn_id node, gn_table node)) nodes"
  by (induction nodes arbitrary: order)
    (simp_all add: List.map_filter_simps node_group_of_def edge_group_of_def type_group_of_def)

lemma raw_edges_groups:
  "List.map_filter node_group_of (raw_edges retained order rows) = []"
  "List.map_filter edge_group_of (raw_edges retained order rows) =
     map (\<lambda>row. (ge_edge_type row, ge_id row, edge_fields row)) (filter (\<lambda>row. ge_id row \<notin> retained) rows)"
  "List.map_filter type_group_of (raw_edges retained order rows) = []"
  by (induction rows arbitrary: order)
    (simp_all add: List.map_filter_simps node_group_of_def edge_group_of_def type_group_of_def)

lemma map_filter_append: "List.map_filter f (xs @ ys) = List.map_filter f xs @ List.map_filter f ys"
  by (simp add: List.map_filter_def)

lemma raw_parts_groups:
  "List.map_filter node_group_of (raw_parts order parts) = node_rows parts"
  "List.map_filter edge_group_of (raw_parts order parts) = edge_rows parts"
  "List.map_filter type_group_of (raw_parts order parts) = type_rows parts"
  by (induction parts arbitrary: order)
    (auto simp: List.map_filter_simps map_filter_append raw_part_def raw_nodes_groups raw_edges_groups node_rows_def edge_rows_def type_rows_def)

lemma raw_parts_staged:
  "merged_nodes (raw_parts order parts) = staged_nodes parts"
  "merged_edge_rows (raw_parts order parts) = staged_edges parts"
  "known_types (raw_parts order parts) = staged_types parts"
  by (simp_all add: merged_nodes_def merged_edge_rows_def known_types_def raw_parts_groups staged_nodes_def staged_edges_def staged_types_def)

text \<open>The numbers ascend.\<close>

definition ascending :: "nat \<Rightarrow> nat \<Rightarrow> raw_record list \<Rightarrow> bool" where
  "ascending low high raw \<longleftrightarrow> low \<le> high \<and> sorted (map rr_source_order raw) \<and> (\<forall>r\<in>set raw. low \<le> rr_source_order r \<and> rr_source_order r < high)"

lemma ascending_append: "ascending low mid xs \<Longrightarrow> ascending mid high ys \<Longrightarrow> ascending low high (xs @ ys)"
  unfolding ascending_def by (fastforce simp: sorted_append)

lemma raw_nodes_ascending: "ascending order (order + length nodes) (raw_nodes p retained order nodes)"
proof (induction nodes arbitrary: order)
  case (Cons node nodes)
  have "ascending order (Suc order) (RawNodeType (gn_id node) (gn_table node) order
     # (if gn_id node \<in> retained then [] else [RawNode (gn_table node) (gn_id node) order (node_fields node (file_hash p node))]))"
    by (simp add: ascending_def)
  from ascending_append [OF this Cons [of "Suc order"]] show ?case by simp
qed (simp add: ascending_def)

lemma raw_edges_ascending: "ascending order (order + length (filter (\<lambda>row. ge_id row \<notin> retained) rows)) (raw_edges retained order rows)"
proof (induction rows arbitrary: order)
  case (Cons row rows)
  have "ascending order (Suc order) [RawEdge (ge_edge_type row) (ge_id row) order (edge_fields row)]" by (simp add: ascending_def)
  from ascending_append [OF this Cons [of "Suc order"]] Cons [of order] show ?case by simp
qed (simp add: ascending_def)

lemma raw_parts_ascending: "\<exists>high. ascending order high (raw_parts order parts)"
proof (induction parts arbitrary: order)
  case (Cons part parts)
  obtain p rn re where part: "part = (p, rn, re)" by (cases part)
  have "ascending order (next_order part order) (raw_part part order)"
    using ascending_append [OF raw_nodes_ascending raw_edges_ascending] by (simp add: part raw_part_def next_order_def add.assoc)
  with Cons [of "next_order part order"] show ?case by (auto intro: ascending_append)
qed (auto simp: ascending_def)

section \<open>Adding partitions\<close>

definition collecting :: "staging_env \<Rightarrow> accumulator \<Rightarrow> nat \<Rightarrow> raw_record list \<Rightarrow> accumulator \<times> workspace \<Rightarrow> bool" where
  "collecting env a0 n raw = (\<lambda>(a, w).
     \<exists>s. a = a0\<lparr>ac_raw_records := Some s, ac_next_source_order := n\<rparr> \<and> n \<le> length raw \<and> ac_pending_error a0 = None
       \<and> spool_ready (sv_raw env) s w raw \<and> sl_root s = ac_run_root a0 \<and> sl_prefix s = ''staged'')"

lemma push_raw_ok:
  assumes inv: "collecting env a0 n raw st" and fits: "spillable (sv_raw env) r" and room: "length raw + 1 < 2 ^ 20"
  shows "\<exists>st'. push_raw env r st = Inr st' \<and> collecting env a0 n (raw @ [r]) st'"
proof -
  obtain a w where st: "st = (a, w)" by (cases st)
  from inv obtain s where s: "a = a0\<lparr>ac_raw_records := Some s, ac_next_source_order := n\<rparr>" "n \<le> length raw" "ac_pending_error a0 = None"
    "spool_ready (sv_raw env) s w raw" "sl_root s = ac_run_root a0" "sl_prefix s = ''staged''" by (auto simp: collecting_def st)
  from spool_push_ready [OF s(4) fits room] obtain s' w' where
    push: "spool_push (sv_raw env) r (s, w) = Inr (s', w')" "spool_ready (sv_raw env) s' w' (raw @ [r])" "same_spool s s'" by blast
  then have "collecting env a0 n (raw @ [r]) (a0\<lparr>ac_raw_records := Some s', ac_next_source_order := n\<rparr>, w')"
    using s by (auto simp: collecting_def same_spool_def)
  moreover have "push_raw env r st = Inr (a0\<lparr>ac_raw_records := Some s', ac_next_source_order := n\<rparr>, w')"
    using push(1) s(1) by (simp add: push_raw_def st)
  ultimately show ?thesis by blast
qed

text \<open>Taking a number and pushing the first record of that number.\<close>

lemma take_and_push:
  assumes inv: "collecting env a0 n raw (a, w)" and fits: "spillable (sv_raw env) r" and room: "length raw + 1 < 2 ^ 20"
  shows "\<exists>a1 st'. take_source_order a = Inr (n, a1) \<and> push_raw env r (a1, w) = Inr st' \<and> collecting env a0 (Suc n) (raw @ [r]) st'"
proof -
  from inv obtain s where s: "a = a0\<lparr>ac_raw_records := Some s, ac_next_source_order := n\<rparr>" "n \<le> length raw" "ac_pending_error a0 = None"
    "spool_ready (sv_raw env) s w raw" "sl_root s = ac_run_root a0" "sl_prefix s = ''staged''" by (auto simp: collecting_def)
  from spool_push_ready [OF s(4) fits room] obtain s' w' where
    push: "spool_push (sv_raw env) r (s, w) = Inr (s', w')" "spool_ready (sv_raw env) s' w' (raw @ [r])" "same_spool s s'" by blast
  have "add_u64 n 1 = Some (Suc n)" using s(2) room by (simp add: add_u64_def max_u64_def)
  then have "take_source_order a = Inr (n, a0\<lparr>ac_raw_records := Some s, ac_next_source_order := Suc n\<rparr>)"
    by (simp add: take_source_order_def s(1))
  moreover have "push_raw env r (a0\<lparr>ac_raw_records := Some s, ac_next_source_order := Suc n\<rparr>, w) =
      Inr (a0\<lparr>ac_raw_records := Some s', ac_next_source_order := Suc n\<rparr>, w')" using push(1) by (simp add: push_raw_def)
  moreover have "collecting env a0 (Suc n) (raw @ [r]) (a0\<lparr>ac_raw_records := Some s', ac_next_source_order := Suc n\<rparr>, w')"
    using s push by (auto simp: collecting_def same_spool_def)
  ultimately show ?thesis by blast
qed

lemma add_nodes_ok:
  assumes "collecting env a0 n raw st" and "list_all (spillable (sv_raw env)) (raw_nodes p retained n nodes)"
    and "length raw + length (raw_nodes p retained n nodes) < 2 ^ 20"
  shows "\<exists>st'. try_fold (add_node_row env p retained) nodes st = Inr st' \<and> collecting env a0 (n + length nodes) (raw @ raw_nodes p retained n nodes) st'"
  using assms
proof (induction nodes arbitrary: n raw st)
  case (Cons node nodes)
  obtain a w where st: "st = (a, w)" by (cases st)
  let ?t = "RawNodeType (gn_id node) (gn_table node) n"
  have "spillable (sv_raw env) ?t" "length raw + 1 < 2 ^ 20" using Cons.prems by auto
  from take_and_push [OF Cons.prems(1) [unfolded st] this] obtain a1 a2 w2 where
    1: "take_source_order a = Inr (n, a1)" "push_raw env ?t (a1, w) = Inr (a2, w2)" "collecting env a0 (Suc n) (raw @ [?t]) (a2, w2)" by auto
  let ?rest = "if gn_id node \<in> retained then [] else [RawNode (gn_table node) (gn_id node) n (node_fields node (file_hash p node))]"
  have "\<exists>st2. (if gn_id node \<in> retained then Inr (a2, w2) else push_raw env (RawNode (gn_table node) (gn_id node) n (node_fields node (file_hash p node))) (a2, w2)) = Inr st2
     \<and> collecting env a0 (Suc n) ((raw @ [?t]) @ ?rest) st2"
    using 1(3) push_raw_ok [OF 1(3)] Cons.prems by auto
  then obtain st2 where 2: "add_node_row env p retained node st = Inr st2" "collecting env a0 (Suc n) ((raw @ [?t]) @ ?rest) st2"
    using 1(1,2) by (auto simp: add_node_row_def st file_hash_def split: if_splits)
  from Cons.IH [OF 2(2)] Cons.prems 2(1) show ?case by auto
qed simp

lemma add_edges_ok:
  assumes "collecting env a0 n raw st" and "list_all (spillable (sv_raw env)) (raw_edges retained n rows)"
    and "length raw + length (raw_edges retained n rows) < 2 ^ 20"
  shows "\<exists>st'. try_fold (add_edge_row env retained) rows st = Inr st'
     \<and> collecting env a0 (n + length (filter (\<lambda>row. ge_id row \<notin> retained) rows)) (raw @ raw_edges retained n rows) st'"
  using assms
proof (induction rows arbitrary: n raw st)
  case (Cons row rows)
  obtain a w where st: "st = (a, w)" by (cases st)
  show ?case
  proof (cases "ge_id row \<in> retained")
    case True
    with Cons.IH [OF Cons.prems(1)] Cons.prems show ?thesis by (simp add: add_edge_row_def st)
  next
    case False
    let ?r = "RawEdge (ge_edge_type row) (ge_id row) n (edge_fields row)"
    have "spillable (sv_raw env) ?r" "length raw + 1 < 2 ^ 20" using Cons.prems False by auto
    from take_and_push [OF Cons.prems(1) [unfolded st] this] obtain a1 st2 where
      step: "take_source_order a = Inr (n, a1)" "push_raw env ?r (a1, w) = Inr st2" "collecting env a0 (Suc n) (raw @ [?r]) st2" by auto
    from Cons.IH [OF step(3)] Cons.prems False show ?thesis by (auto simp: add_edge_row_def st step(1,2))
  qed
qed simp

lemma add_partition_ok:
  assumes inv: "collecting env a0 n raw st" and fits: "list_all (spillable (sv_raw env)) (raw_part (p, rn, re) n)"
    and room: "length raw + length (raw_part (p, rn, re) n) < 2 ^ 20"
  shows "collecting env a0 (next_order (p, rn, re) n) (raw @ raw_part (p, rn, re) n) (add_partition_filtered env p rn re st)"
proof -
  obtain a w where st: "st = (a, w)" by (cases st)
  from add_nodes_ok [OF inv, of p rn "gp_nodes p"] fits room obtain st1 where
    1: "try_fold (add_node_row env p rn) (gp_nodes p) st = Inr st1" "collecting env a0 (n + length (gp_nodes p)) (raw @ raw_nodes p rn n (gp_nodes p)) st1"
    by (auto simp: raw_part_def)
  from add_edges_ok [OF 1(2), of re "gp_edges p"] fits room obtain st2 where
    2: "try_fold (add_edge_row env re) (gp_edges p) st1 = Inr st2" "collecting env a0 (next_order (p, rn, re) n) (raw @ raw_part (p, rn, re) n) st2"
    by (auto simp: raw_part_def next_order_def)
  have "ac_pending_error a = None" using inv by (auto simp: collecting_def st)
  then have "add_partition_filtered env p rn re st = st2" using 1(1) 2(1) by (simp add: add_partition_filtered_def st)
  with 2(2) show ?thesis by simp
qed

definition add_parts :: "staging_env \<Rightarrow> staged_part list \<Rightarrow> accumulator \<times> workspace \<Rightarrow> accumulator \<times> workspace" where
  "add_parts env parts = fold (\<lambda>(p, retained_nodes, retained_edges). add_partition_filtered env p retained_nodes retained_edges) parts"

lemma add_parts_ok:
  assumes "collecting env a0 n raw st" and "list_all (spillable (sv_raw env)) (raw_parts n parts)"
    and "length raw + length (raw_parts n parts) < 2 ^ 20"
  shows "\<exists>n'. collecting env a0 n' (raw @ raw_parts n parts) (add_parts env parts st)"
  using assms
proof (induction parts arbitrary: n raw st)
  case (Cons part parts)
  obtain p rn re where part: "part = (p, rn, re)" by (cases part)
  have "collecting env a0 (next_order part n) (raw @ raw_part part n) (add_partition_filtered env p rn re st)"
    unfolding part by (rule add_partition_ok) (use Cons.prems part in auto)
  from Cons.IH [OF this] Cons.prems show ?case by (auto simp: add_parts_def part)
qed (auto simp: add_parts_def)

section \<open>A run of the staging writer\<close>

definition staging_fits :: "staging_env \<Rightarrow> staged_part list \<Rightarrow> bool" where
  "staging_fits env parts \<longleftrightarrow>
     codecs_ok env \<and> list_all (spillable (sv_raw env)) (raw_parts 0 parts) \<and> length (raw_parts 0 parts) < 2 ^ 19
     \<and> records_fit env (staged_nodes parts) (staged_edges parts) (staged_types parts)
     \<and> names_fit (staged_nodes parts) (staged_edges parts) (staged_types parts)"

definition endpoint_requests :: "staged_part list \<Rightarrow> endpoint_request list" where
  "endpoint_requests parts = sort_key endpoint_sort_key (concat (map edge_requests (staged_edges parts)))"

definition node_known :: "staged_part list \<Rightarrow> endpoint_request \<Rightarrow> bool" where
  "node_known parts e \<longleftrightarrow> map_of (type_rows parts) (ep_node_id e) \<noteq> None"

lemma staged_types_map: "map_of (staged_types parts) = map_of (type_rows parts)"
  by (simp add: staged_types_def map_of_grouped_first)

lemma map_filter_length: "length (List.map_filter f xs) \<le> length xs"
  by (induction xs) (auto simp: List.map_filter_simps split: option.split)

lemma staged_lengths:
  "length (staged_nodes parts) \<le> length (raw_parts n parts)" "length (staged_edges parts) \<le> length (raw_parts n parts)"
  "length (staged_types parts) \<le> length (raw_parts n parts)"
  unfolding staged_nodes_def staged_edges_def staged_types_def raw_parts_groups [of n parts, symmetric]
  by (rule order_trans [OF grouped_length map_filter_length])+

lemma staged_keys:
  "sorted (map row_key (staged_nodes parts))" "sorted (map row_key (staged_edges parts))" "distinct (map row_key (staged_edges parts))"
  "sorted (map fst (staged_types parts))"
  using merged_keys [of "raw_parts 0 parts"] known_types_keys [of "raw_parts 0 parts"] by (simp_all add: raw_parts_staged)

lemma sorted_tables: "sorted (map row_key xs) \<Longrightarrow> sorted (map fst xs)"
  unfolding sorted_map by (erule sorted_wrt_mono_rel [rotated]) (auto simp: row_key_def)

lemma run_fits:
  assumes fit: "staging_fits env parts" and acc: "accumulator_ok a"
  shows "groups_ok env a (staged_nodes parts) (staged_edges parts) (staged_types parts)"
    and "endpoints_fit env a (staged_edges parts) (staged_types parts)"
    and "edges_fit env a (staged_edges parts) (staged_types parts)"
    and "table_items a (sv_node_row env) (staged_nodes parts)"
proof -
  have len: "length (staged_nodes parts) < 2 ^ 19" "length (staged_edges parts) < 2 ^ 19" "length (staged_types parts) < 2 ^ 19"
    using fit staged_lengths [of parts 0] unfolding staging_fits_def by (meson le_less_trans)+
  have names: "names_ok (fst ` set (staged_nodes parts))" "names_ok (fst ` set (staged_edges parts))"
    using fit by (auto simp: staging_fits_def names_fit_def intro: names_ok_subset)
  have sorted: "sorted (map fst (staged_nodes parts))" "sorted (map fst (staged_edges parts))" "sorted (map fst (staged_types parts))"
    using staged_keys [of parts] by (simp_all add: sorted_tables)
  have fits: "codecs_ok env" "records_fit env (staged_nodes parts) (staged_edges parts) (staged_types parts)"
    using fit by (simp_all add: staging_fits_def)
  then show nodes: "table_items a (sv_node_row env) (staged_nodes parts)"
    using acc len names sorted by (simp add: table_items_def records_fit_def)
  have "list_all (\<lambda>(table, ident, row). row_fits (sv_edge_row env) row) (staged_edges parts)"
    "list_all (\<lambda>(table, ident, row). spillable (sv_edge_id env) ident) (staged_edges parts)"
    using fits(2) by (auto simp: records_fit_def list_all_iff)
  with fits acc len names sorted show "edges_fit env a (staged_edges parts) (staged_types parts)"
    by (simp add: edges_fit_def table_items_def records_fit_def)
  show "groups_ok env a (staged_nodes parts) (staged_edges parts) (staged_types parts)"
    using fits nodes len by (simp add: groups_ok_def)
  show "endpoints_fit env a (staged_edges parts) (staged_types parts)"
    using fits acc len sorted by (simp add: endpoints_fit_def records_fit_def)
qed

lemma connectors_run_fit:
  assumes fit: "staging_fits env parts" and acc: "accumulator_ok a" and known: "list_all (node_known parts) (endpoint_requests parts)"
  shows "connectors_fit a (fst ` set (staged_nodes parts) \<union> fst ` set (staged_edges parts) \<union> snd ` set (staged_types parts)) (staged_connectors specs parts)"
    and "distinct (map connector_sort_key (staged_connectors specs parts))"
proof -
  let ?T = "staged_types parts" and ?A = "accepted_edges specs parts"
  have sub: "set ?A \<subseteq> set (staged_edges parts)" by (auto simp: accepted_edges_def)
  have "sorted (map row_key ?A)" "distinct (map row_key ?A)"
    using staged_keys(2,3) [of parts] by (auto simp: accepted_edges_def intro: sorted_filter distinct_map_filter)
  then have distinct: "distinct (map connector_sort_key (concat (map (edge_connectors ?T) ?A)))" by (rule connector_keys_distinct)
  have "mset (map connector_sort_key (staged_connectors specs parts)) = mset (map connector_sort_key (concat (map (edge_connectors ?T) ?A)))"
    by (simp add: staged_connectors_def)
  with distinct show "distinct (map connector_sort_key (staged_connectors specs parts))" by (metis mset_eq_imp_distinct_iff)
  have typed: "the (map_of ?T (ep_node_id r)) \<in> snd ` set ?T" if "e \<in> set ?A" "r \<in> set (edge_requests e)" for e r
  proof -
    have "r \<in> set (endpoint_requests parts)" using that sub by (auto simp: endpoint_requests_def)
    with known obtain t where "map_of ?T (ep_node_id r) = Some t" by (auto simp: list_all_iff node_known_def staged_types_map)
    then show ?thesis by (force dest: map_of_SomeD)
  qed
  have len: "length (staged_connectors specs parts) < 2 ^ 20"
  proof -
    have "length (concat (map (edge_connectors ?T) xs)) = 2 * length xs" for xs by (induction xs) (auto simp: edge_connectors_def)
    then have "length (staged_connectors specs parts) = 2 * length ?A" by (simp add: staged_connectors_def)
    also have "\<dots> \<le> 2 * length (staged_edges parts)" by (simp add: accepted_edges_def)
    finally show ?thesis using staged_lengths(2) [of parts 0] fit by (simp add: staging_fits_def)
  qed
  have "{cr_relation c, cr_from_type c, cr_to_type c} \<subseteq> fst ` set (staged_nodes parts) \<union> fst ` set (staged_edges parts) \<union> snd ` set ?T \<and> length (connector_line c) \<le> 2 ^ 34"
    if "c \<in> set (staged_connectors specs parts)" for c
  proof -
    from that obtain table ident row where e: "(table, ident, row) \<in> set ?A" "c \<in> set (edge_connectors ?T (table, ident, row))"
      by (auto simp: staged_connectors_def)
    have line: "length (connector_line c) \<le> 2 ^ 34" using fit e sub by (auto simp: staging_fits_def records_fit_def list_all_iff)
    have "table \<in> fst ` set (staged_edges parts)" using e(1) sub by force
    moreover have "the (map_of ?T (es_source_id row)) \<in> snd ` set ?T" "the (map_of ?T (es_target_id row)) \<in> snd ` set ?T"
      using typed [OF e(1), of "\<lparr>ep_node_id = es_source_id row, ep_relation = table, ep_edge_id = ident, ep_side = SourceSide\<rparr>"]
        typed [OF e(1), of "\<lparr>ep_node_id = es_target_id row, ep_relation = table, ep_edge_id = ident, ep_side = TargetSide\<rparr>"]
      by (simp_all add: edge_requests_def)
    moreover have "cr_relation c = table" "cr_from_type c \<in> {the (map_of ?T (es_source_id row)), table}" "cr_to_type c \<in> {the (map_of ?T (es_target_id row)), table}"
      using e(2) by (auto simp: edge_connectors_def)
    ultimately have "{cr_relation c, cr_from_type c, cr_to_type c} \<subseteq> fst ` set (staged_edges parts) \<union> snd ` set ?T" by (simp, elim disjE) simp_all
    with line show ?thesis by blast
  qed
  then show "connectors_fit a (fst ` set (staged_nodes parts) \<union> fst ` set (staged_edges parts) \<union> snd ` set ?T) (staged_connectors specs parts)"
    using fit acc len by (simp add: connectors_fit_def staging_fits_def names_fit_def list_all_iff) (simp add: staged_connectors_def)
qed

lemma dropped_outside:
  assumes "stream_yields sr (ac_run_root a) prefix q []"
  shows "same_outside (ac_run_root a) w (run_workspace_drop a (stream_drop q w))"
proof -
  have "starts_with (ac_run_root a @ ''/'') path" if "path \<in> set (sq_input_paths q)" for path
    using assms that run_file_inside by (auto simp: stream_yields_def)
  then show ?thesis by (auto simp: same_outside_def run_workspace_drop_def stream_drop_def remove_existing_apply)
qed

text \<open>The state after the partitions, and after the first pass.\<close>

lemma run_collected:
  assumes fit: "staging_fits env parts" and limits: "0 < chunk_limit" "chunk_limit \<le> 2 ^ 62" "output_chunk_limit \<le> 2 ^ 62"
  obtains a s a' w' where "with_limits specs defer_disposal process_id sequence dir chunk_limit output_chunk_limit = Inr a"
    "accumulator_ok a" "ac_staging_dir a = dir" "ac_relation_types a = specs" "ac_defer_disposal a = defer_disposal"
    "add_parts env parts (a, w) = (a', w')" "ac_pending_error a' = None" "ac_raw_records a' = Some s"
    "ac_staging_dir a' = dir" "ac_run_root a' = ac_run_root a" "ac_defer_disposal a' = defer_disposal" "ac_relation_types a' = specs"
    "ac_output_chunk_limit a' = output_chunk_limit" "accumulator_ok a'" "ac_run_root a' = run_root_path dir process_id sequence"
    "spool_ready (sv_raw env) s w' (raw_parts 0 parts)" "sl_root s = ac_run_root a'" "sl_prefix s = ''staged''"
proof -
  let ?base = "run_root_path dir process_id sequence"
  have modest: "modest (sv_raw env)" using fit by (simp add: staging_fits_def codecs_ok_def)
  from spool_new_ready [OF modest limits(1,2), of ?base "''staged''" w] obtain s0 where
    s0: "spool_new ?base ''staged'' chunk_limit = Inr s0" "spool_ready (sv_raw env) s0 w []" "sl_root s0 = ?base" "sl_prefix s0 = ''staged''" by blast
  let ?a = "\<lparr>ac_staging_dir = dir, ac_run_root = ?base, ac_defer_disposal = defer_disposal, ac_chunk_limit = chunk_limit,
      ac_output_chunk_limit = output_chunk_limit, ac_raw_records = Some s0, ac_next_source_order = 0, ac_pending_error = None, ac_relation_types = specs\<rparr>"
  have new: "with_limits specs defer_disposal process_id sequence dir chunk_limit output_chunk_limit = Inr ?a"
    by (simp add: with_limits_def s0(1) Let_def)
  have "collecting env ?a 0 [] (?a, w)" using s0 by (simp add: collecting_def)
  moreover have "length ([] :: raw_record list) + length (raw_parts 0 parts) < 2 ^ 20" using fit by (simp add: staging_fits_def)
  ultimately obtain n where col: "collecting env ?a n (raw_parts 0 parts) (add_parts env parts (?a, w))"
    using add_parts_ok [of env ?a 0 "[]" "(?a, w)" parts] fit by (auto simp: staging_fits_def)
  obtain a' w' where add: "add_parts env parts (?a, w) = (a', w')" by (cases "add_parts env parts (?a, w)")
  from col obtain s where s: "a' = ?a\<lparr>ac_raw_records := Some s, ac_next_source_order := n\<rparr>" "spool_ready (sv_raw env) s w' (raw_parts 0 parts)"
    "sl_root s = ?base" "sl_prefix s = ''staged''" by (auto simp: collecting_def add)
  show ?thesis by (rule that [OF new _ _ _ _ add]) (use s limits in \<open>auto simp: accumulator_ok_def\<close>)
qed

definition staged_result ::
  "staging_env \<Rightarrow> accumulator \<Rightarrow> relation_spec list \<Rightarrow> staged_part list \<Rightarrow> staging_result \<Rightarrow> workspace \<Rightarrow> bool" where
  "staged_result env a specs parts result w \<longleftrightarrow>
     (let dir = ac_staging_dir a;
          nks = table_chunks a (sv_node_row env) (staged_nodes parts);
          eks = table_chunks a (sv_edge_row env) (accepted_edges specs parts);
          cks = connector_chunks a (staged_connectors specs parts)
      in files_hold (json_format dir) (nks @ eks) w \<and> files_hold (connector_format dir) cks w
         \<and> stg_copy_statements result =
             map (chunk_statement (json_format dir)) nks @ map (chunk_statement (json_format dir)) eks @ map (chunk_statement (connector_format dir)) cks
         \<and> stg_copy_calls result = length (stg_copy_statements result)
         \<and> stg_node_rows result = length (staged_nodes parts) \<and> stg_edge_rows result = length (accepted_edges specs parts)
         \<and> stg_connector_rows result = length (staged_connectors specs parts)
         \<and> stg_unique_node_count result = card (fst ` set (type_rows parts))
         \<and> stg_unique_edge_count result = card (set (edge_idents (accepted_edges specs parts))))"

lemma staged_types_count: "length (staged_types parts) = card (fst ` set (type_rows parts))"
proof -
  have "length (staged_types parts) = length (remdups (map fst (type_rows parts)))" by (simp add: staged_types_def grouped_def)
  also have "\<dots> = card (set (map fst (type_rows parts)))" by (metis distinct_card distinct_remdups set_remdups)
  finally show ?thesis by simp
qed

lemma files_hold_append: "files_hold fmt (xs @ ys) w \<longleftrightarrow> files_hold fmt xs w \<and> files_hold fmt ys w"
  by (simp add: files_hold_def ball_Un)

lemma finish_ok:
  assumes fit: "staging_fits env parts" and acc: "accumulator_ok a" and known: "list_all (node_known parts) (endpoint_requests parts)"
    and st: "ac_pending_error a = None" "ac_raw_records a = Some s" "spool_ready (sv_raw env) s w (raw_parts 0 parts)"
      "sl_root s = ac_run_root a" "sl_prefix s = ''staged''"
  shows "\<exists>result w'. finish env (a, w) = Inr (result, w') \<and> staged_result env a (ac_relation_types a) parts result w'
     \<and> (\<not> ac_defer_disposal a \<longrightarrow> (\<forall>path. starts_with (ac_run_root a @ ''/'') path \<longrightarrow> ws_files w' path = None))"
proof -
  let ?N = "staged_nodes parts" and ?E = "staged_edges parts" and ?T = "staged_types parts" and ?A = "accepted_edges (ac_relation_types a) parts"
  let ?fmt = "json_format (ac_staging_dir a)" and ?nks = "table_chunks a (sv_node_row env) (staged_nodes parts)"
  let ?C = "staged_connectors (ac_relation_types a) parts"
  note fits = run_fits [OF fit acc]
  have ordered: "sorted (map rr_source_order (raw_parts 0 parts))" using raw_parts_ascending [of 0 parts] by (auto simp: ascending_def)
  have room: "length (raw_parts 0 parts) < 2 ^ 20" and codecs: "codecs_ok env" using fit by (simp_all add: staging_fits_def)
  from finish_groups_ok [OF _ ordered room st(3-5), unfolded raw_parts_staged, OF fits(1)] obtain g w1 where
    1: "finish_groups env a s w = Inr ((map (chunk_statement ?fmt) ?nks, length ?N), g, w1)" "grouped_state env a ?E ?T g w1" "files_hold ?fmt ?nks w1" by blast
  have "\<forall>e\<in>set (concat (map edge_requests ?E)). map_of ?T (ep_node_id e) \<noteq> None"
    using known by (auto simp: list_all_iff endpoint_requests_def node_known_def staged_types_map)
  from finish_endpoints_ok [OF fits(2) 1(2) this] obtain r w2 where
    2: "finish_endpoints env a (gs_endpoints g) w1 = Inr (r, w2)" "resolved_state env a ?E ?T r w2" "same_outside (ac_run_root a) w1 w2" by blast
  have hold: "files_hold ?fmt ?nks w2" by (rule files_hold_outside [OF 1(3) table_chunks_facts(3) [OF fits(4)] 2(3)])
  have names: "names_ok (fst ` set ?N \<union> fst ` set ?E)" "fst ` set ?N \<inter> fst ` set ?E = {}"
    using fit by (auto simp: staging_fits_def names_fit_def intro: names_ok_subset)
  from finish_edges_ok [OF fits(3) staged_keys(2,3) fits(4) names 2(2) hold refl] obtain q accepted connectors w3 where
    3: "finish_edges env a r w2 = Inr ((map (chunk_statement ?fmt) (table_chunks a (sv_edge_row env) ?A), length ?A), q, accepted, connectors, w3)"
      "stream_yields (sv_resolved env) (ac_run_root a) ''resolved-endpoints'' q []" "connected_state env a ?T ?A accepted connectors w3"
      "files_hold ?fmt (?nks @ table_chunks a (sv_edge_row env) ?A) w3" unfolding files_hold_append accepted_edges_def by blast
  have items: "table_items a (sv_edge_row env) ?A" using fits(3) by (auto simp: accepted_edges_def edges_fit_def intro: table_items_filter)
  have out: "all_outside (ac_run_root a) ?fmt (?nks @ table_chunks a (sv_edge_row env) ?A)"
    using table_chunks_facts(3) [OF fits(4)] table_chunks_facts(3) [OF items] by (auto simp: all_outside_def)
  have "length ?A \<le> length ?E" by (simp add: accepted_edges_def)
  then have len: "length ?A < 2 ^ 19" using fits(3) by (simp add: edges_fit_def)
  note cfit = connectors_run_fit [OF fit acc known, of "ac_relation_types a"]
  from finish_connectors_ok [OF 3(3) codecs staged_connectors_def cfit len 3(4) out] obtain w4 where
    4: "finish_connectors env a accepted connectors w3 =
        Inr (card (set (edge_idents ?A)), (map (chunk_statement (connector_format (ac_staging_dir a))) (connector_chunks a ?C), length ?C), w4)"
      "files_hold ?fmt (?nks @ table_chunks a (sv_edge_row env) ?A) w4" "files_hold (connector_format (ac_staging_dir a)) (connector_chunks a ?C) w4" by blast
  let ?w = "run_workspace_drop a (stream_drop q w4)"
  have drop: "same_outside (ac_run_root a) w4 ?w" by (rule dropped_outside [OF 3(2)])
  have held: "files_hold ?fmt (?nks @ table_chunks a (sv_edge_row env) ?A) ?w"
      "files_hold (connector_format (ac_staging_dir a)) (connector_chunks a ?C) ?w"
    by (rule files_hold_outside [OF 4(2) out drop], rule files_hold_outside [OF 4(3) connector_chunks_facts(3) [OF cfit(1)] drop])
  have unique: "gs_unique_node_count g = card (fst ` set (type_rows parts))" using 1(2) by (simp add: grouped_state_def staged_types_count)
  show ?thesis
    unfolding finish_def prod.case
    by (simp add: st(1,2) 1(1) 2(1) 3(1) 4(1) Let_def snapshot_def staged_result_def held unique)
      (simp add: run_workspace_drop_def)
qed

section \<open>Properties\<close>

text \<open>
  C1. The staging writer writes exactly the merged graph. When every endpoint of an edge is a node of
  some partition, \<open>finish\<close> returns. The JSON files hold, sorted by table and identifier, one row for
  each node and each accepted edge, in which the rows of all partitions are merged in the order of
  arrival; the CSV files hold the two connectors of every accepted edge, typed by the first table in
  which the node appeared; an edge is accepted when the schema allows the types of its endpoints. There
  is one COPY statement for each file, the counts are those of the rows, and nothing stays behind in
  the run directory unless its disposal is deferred.
\<close>

theorem staging_writes_merged_graph:
  assumes "staging_fits env parts" and "list_all (node_known parts) (endpoint_requests parts)"
    and "0 < chunk_limit" and "chunk_limit \<le> 2 ^ 62" and "output_chunk_limit \<le> 2 ^ 62"
  shows "\<exists>a result w' nks eks cks. with_limits specs defer_disposal process_id sequence dir chunk_limit output_chunk_limit = Inr a
     \<and> finish env (add_parts env parts (a, w)) = Inr (result, w')
     \<and> concat (map chunk_rows nks) = map (\<lambda>(table, ident, row). (table, encoding (sv_node_row env) row)) (staged_nodes parts)
     \<and> concat (map chunk_rows eks) = map (\<lambda>(table, ident, row). (table, encoding (sv_edge_row env) row)) (accepted_edges specs parts)
     \<and> concat (map chunk_rows cks) = map (\<lambda>c. (connector_group_of c, connector_line c)) (staged_connectors specs parts)
     \<and> (\<forall>(table, index, rows)\<in>set (nks @ eks). ws_files w' (chunked_output_path dir (output_file_stem table) ''json'' index) =
          Some (''['' @ join '','' rows @ '']'' @ [CHR 0x0A]))
     \<and> (\<forall>(grp, index, rows)\<in>set cks. ws_files w' (connector_path dir grp index) = Some (connector_header @ concat rows))
     \<and> stg_copy_statements result =
          map (\<lambda>(table, index, rows). json_copy_statement table (chunked_output_path dir (output_file_stem table) ''json'' index)) (nks @ eks)
          @ map (\<lambda>(grp, index, rows). connector_copy_statement grp (connector_path dir grp index)) cks
     \<and> stg_copy_calls result = length (stg_copy_statements result)
     \<and> stg_node_rows result = length (staged_nodes parts) \<and> stg_edge_rows result = length (accepted_edges specs parts)
     \<and> stg_connector_rows result = 2 * length (accepted_edges specs parts)
     \<and> stg_unique_node_count result = card (fst ` set (type_rows parts))
     \<and> stg_unique_edge_count result = card (set (edge_idents (accepted_edges specs parts)))
     \<and> (\<not> defer_disposal \<longrightarrow>
          (\<forall>path. starts_with (run_root_path dir process_id sequence @ ''/'') path \<longrightarrow> ws_files w' path = None))"
proof -
  from run_collected [OF assms(1,3-5)] obtain a s a' w1 where
    new: "with_limits specs defer_disposal process_id sequence dir chunk_limit output_chunk_limit = Inr a" "add_parts env parts (a, w) = (a', w1)"
    and a': "ac_staging_dir a' = dir" "ac_relation_types a' = specs" "ac_defer_disposal a' = defer_disposal" "ac_run_root a' = run_root_path dir process_id sequence"
      "accumulator_ok a'"
    and ready: "ac_pending_error a' = None" "ac_raw_records a' = Some s" "spool_ready (sv_raw env) s w1 (raw_parts 0 parts)" "sl_root s = ac_run_root a'"
      "sl_prefix s = ''staged''" by metis
  let ?nks = "table_chunks a' (sv_node_row env) (staged_nodes parts)" and ?eks = "table_chunks a' (sv_edge_row env) (accepted_edges specs parts)"
  let ?cks = "connector_chunks a' (staged_connectors specs parts)"
  from finish_ok [OF assms(1) a'(5) assms(2) ready] obtain result w' where
    run: "finish env (a', w1) = Inr (result, w')" "staged_result env a' specs parts result w'"
      "\<not> defer_disposal \<longrightarrow> (\<forall>path. starts_with (run_root_path dir process_id sequence @ ''/'') path \<longrightarrow> ws_files w' path = None)" by (auto simp: a')
  have rows: "concat (map chunk_rows ?nks) = map (\<lambda>(table, ident, row). (table, encoding (sv_node_row env) row)) (staged_nodes parts)"
    "concat (map chunk_rows ?eks) = map (\<lambda>(table, ident, row). (table, encoding (sv_edge_row env) row)) (accepted_edges specs parts)"
    "concat (map chunk_rows ?cks) = map (\<lambda>c. (connector_group_of c, connector_line c)) (staged_connectors specs parts)"
    by (simp_all add: table_chunks_def connector_chunks_def chunked_rows table_rows_def connector_rows_def)
  have count: "length (staged_connectors specs parts) = 2 * length (accepted_edges specs parts)"
  proof -
    have "length (concat (map (edge_connectors types) xs)) = 2 * length xs" for types xs by (induction xs) (auto simp: edge_connectors_def)
    then show ?thesis by (simp add: staged_connectors_def)
  qed
  have json: "\<forall>(table, index, rows)\<in>set (?nks @ ?eks). ws_files w' (chunked_output_path dir (output_file_stem table) ''json'' index) =
          Some (''['' @ join '','' rows @ '']'' @ [CHR 0x0A])"
    using run(2) by (simp add: staged_result_def Let_def files_hold_def a' chunk_text_def open_text_def)
  have csv: "\<forall>(grp, index, rows)\<in>set ?cks. ws_files w' (connector_path dir grp index) = Some (connector_header @ concat rows)"
    using run(2) by (simp add: staged_result_def Let_def files_hold_def a' chunk_text_def open_text_def join_Nil_concat)
  have statements: "stg_copy_statements result =
          map (\<lambda>(table, index, rows). json_copy_statement table (chunked_output_path dir (output_file_stem table) ''json'' index)) (?nks @ ?eks)
          @ map (\<lambda>(grp, index, rows). connector_copy_statement grp (connector_path dir grp index)) ?cks"
    using run(2) by (simp add: staged_result_def Let_def a' chunk_statement_def)
  have counts: "stg_copy_calls result = length (stg_copy_statements result)" "stg_node_rows result = length (staged_nodes parts)"
    "stg_edge_rows result = length (accepted_edges specs parts)" "stg_connector_rows result = 2 * length (accepted_edges specs parts)"
    "stg_unique_node_count result = card (fst ` set (type_rows parts))" "stg_unique_edge_count result = card (set (edge_idents (accepted_edges specs parts)))"
    using run(2) by (simp_all add: staged_result_def Let_def count)
  have returns: "finish env (add_parts env parts (a, w)) = Inr (result, w')" using new(2) run(1) by simp
  show ?thesis
    by (intro exI [of _ a] exI [of _ result] exI [of _ w'] exI [of _ ?nks] exI [of _ ?eks] exI [of _ ?cks] conjI)
      (fact new(1) returns rows json csv statements counts run(3))+
qed

text \<open>A codec for the records of one table: a record is encoded as its position.\<close>

definition table_position :: "'a list \<Rightarrow> 'a \<Rightarrow> nat" where
  "table_position table x = length (takeWhile (\<lambda>y. y \<noteq> x) table)"

definition table_spill :: "'a list \<Rightarrow> ('a \<Rightarrow> 'k) \<Rightarrow> ('a, 'k) spill_record" where
  "table_spill table key =
     \<lparr>rc_encode = (\<lambda>x. Inr [char_of (table_position table x)]), rc_capacity = (\<lambda>_. 8),
      sr_decode = (\<lambda>s. Inr (table ! of_char (hd s))), sr_sort_key = key, sr_key_bytes = (\<lambda>_. 8),
      sr_buffered_size = 48, sr_heap_item_size = 96, sr_reserve = (\<lambda>_. True)\<rparr>"

lemma table_spill_modest: "modest (table_spill table key)"
  by (simp add: modest_def table_spill_def)

lemma table_spill_spillable:
  assumes "x \<in> set table" and "length table < 256"
  shows "spillable (table_spill table key) x"
proof -
  let ?n = "table_position table x"
  have n: "?n < length table" using assms(1) unfolding table_position_def by (induction table) auto
  then have "table ! ?n = x" using nth_length_takeWhile [of "\<lambda>y. y \<noteq> x" table] by (simp add: table_position_def)
  moreover have "of_char (char_of ?n :: char) = ?n" using n assms(2) by (simp add: of_char_of)
  ultimately show ?thesis by (simp add: spillable_def table_spill_def u32_length_def)
qed

definition table_env :: "staged_part list \<Rightarrow> staging_env" where
  "table_env parts =
     \<lparr>sv_raw = table_spill (raw_parts 0 parts) raw_sort_key,
      sv_endpoint = table_spill (concat (map edge_requests (staged_edges parts))) endpoint_sort_key,
      sv_resolved = table_spill (map (resolution (staged_types parts)) (concat (map edge_requests (staged_edges parts)))) resolved_sort_key,
      sv_connector = table_spill (concat (map (edge_connectors (staged_types parts)) (staged_edges parts))) connector_sort_key,
      sv_edge_id = table_spill (edge_idents (staged_edges parts)) (\<lambda>ident. ident),
      sv_merged_edge = table_spill (map merged_edge_of (staged_edges parts)) (\<lambda>_. ()),
      sv_node_type = table_spill (map node_type_of (staged_types parts)) (\<lambda>_. ()),
      sv_node_row = \<lparr>rc_encode = (\<lambda>row. Inr (ns_id row)), rc_capacity = (\<lambda>row. length (ns_id row))\<rparr>,
      sv_edge_row = \<lparr>rc_encode = (\<lambda>row. Inr (es_id row)), rc_capacity = (\<lambda>row. length (es_id row))\<rparr>,
      sv_csv_capacity = length\<rparr>"

lemma table_env_fits:
  assumes len: "length (raw_parts 0 parts) < 100" and names: "names_fit (staged_nodes parts) (staged_edges parts) (staged_types parts)"
    and rows: "list_all (\<lambda>(table, ident, row). length (ns_id row) \<le> 2 ^ 33) (staged_nodes parts)"
      "list_all (\<lambda>(table, ident, row). length (es_id row) \<le> 2 ^ 33) (staged_edges parts)"
    and lines: "list_all (\<lambda>c. length (connector_line c) \<le> 2 ^ 34) (concat (map (edge_connectors (staged_types parts)) (staged_edges parts)))"
  shows "staging_fits (table_env parts) parts"
proof -
  have short: "length (staged_edges parts) < 100" "length (staged_types parts) < 100" using staged_lengths [of parts 0] len by simp_all
  have "length (concat (map (edge_connectors (staged_types parts)) xs)) = 2 * length xs" for xs by (induction xs) (auto simp: edge_connectors_def)
  then have tables: "length (concat (map edge_requests (staged_edges parts))) < 256"
    "length (concat (map (edge_connectors (staged_types parts)) (staged_edges parts))) < 256"
    using short requests_length [of "staged_edges parts"] by simp_all
  have codecs: "codecs_ok (table_env parts)" by (simp add: codecs_ok_def table_env_def table_spill_modest) (simp add: table_spill_def)
  have raw: "list_all (spillable (sv_raw (table_env parts))) (raw_parts 0 parts)"
    using len by (simp add: list_all_iff table_env_def table_spill_spillable)
  have "list_all (\<lambda>(table, ident, row). row_fits (sv_node_row (table_env parts)) row) (staged_nodes parts)"
    using rows(1) by (auto simp: list_all_iff table_env_def row_fits_def encoding_def)
  moreover have "list_all (\<lambda>(table, ident, row). row_fits (sv_edge_row (table_env parts)) row \<and> spillable (sv_edge_id (table_env parts)) ident) (staged_edges parts)"
    using rows(2) short by (force simp: list_all_iff table_env_def row_fits_def encoding_def edge_idents_def intro!: table_spill_spillable)
  moreover have "list_all (\<lambda>e. spillable (sv_merged_edge (table_env parts)) (merged_edge_of e)) (staged_edges parts)"
    "list_all (spillable (sv_endpoint (table_env parts))) (concat (map edge_requests (staged_edges parts)))"
    "list_all (\<lambda>r. spillable (sv_resolved (table_env parts)) (resolution (staged_types parts) r)) (concat (map edge_requests (staged_edges parts)))"
    "list_all (\<lambda>c. spillable (sv_connector (table_env parts)) c \<and> length (connector_line c) \<le> 2 ^ 34) (concat (map (edge_connectors (staged_types parts)) (staged_edges parts)))"
    "list_all (\<lambda>t. spillable (sv_node_type (table_env parts)) (node_type_of t)) (staged_types parts)"
    using short tables lines unfolding list_all_iff by (auto simp: table_env_def intro!: table_spill_spillable imageI)
  ultimately show ?thesis using codecs raw names len by (simp add: staging_fits_def records_fit_def)
qed

definition small_parts :: "staged_part list \<Rightarrow> bool" where
  "small_parts parts \<longleftrightarrow>
     (let nodes = staged_nodes parts; edges = staged_edges parts; types = staged_types parts;
          names = remdups (map fst nodes @ map fst edges @ map snd types)
      in length (raw_parts 0 parts) < 100 \<and> list_all plain_name names \<and> distinct (map lower_name names)
         \<and> list_all (\<lambda>table. table \<notin> set (map fst edges)) (map fst nodes)
         \<and> list_all (\<lambda>(table, ident, row). length (ns_id row) \<le> 100) nodes \<and> list_all (\<lambda>(table, ident, row). length (es_id row) \<le> 100) edges
         \<and> list_all (\<lambda>c. length (connector_line c) \<le> 100) (concat (map (edge_connectors types) edges)))"

lemma small_parts_fit:
  assumes "small_parts parts"
  shows "staging_fits (table_env parts) parts"
proof (rule table_env_fits)
  let ?nodes = "staged_nodes parts" and ?edges = "staged_edges parts" and ?types = "staged_types parts"
  let ?names = "remdups (map fst ?nodes @ map fst ?edges @ map snd ?types)"
  have small: "length (raw_parts 0 parts) < 100" "list_all plain_name ?names" "distinct (map lower_name ?names)"
    "list_all (\<lambda>table. table \<notin> set (map fst ?edges)) (map fst ?nodes)"
    "list_all (\<lambda>(table, ident, row). length (ns_id row) \<le> 100) ?nodes" "list_all (\<lambda>(table, ident, row). length (es_id row) \<le> 100) ?edges"
    "list_all (\<lambda>c. length (connector_line c) \<le> 100) (concat (map (edge_connectors ?types) ?edges))"
    using assms by (simp_all add: small_parts_def Let_def)
  show "length (raw_parts 0 parts) < 100" by (rule small(1))
  have set: "set ?names = fst ` set ?nodes \<union> fst ` set ?edges \<union> snd ` set ?types" by auto
  have "inj_on lower_name (set ?names)" using small(3) unfolding distinct_map by blast
  moreover have "\<forall>name\<in>set ?names. plain_name name" using small(2) unfolding list_all_iff .
  ultimately have "names_ok (set ?names)" by (simp add: names_ok_def)
  moreover have "fst ` set ?nodes \<inter> fst ` set ?edges = {}" using small(4) by (auto simp: list_all_iff)
  ultimately show "names_fit ?nodes ?edges ?types" unfolding names_fit_def set by blast
  show "list_all (\<lambda>(table, ident, row). length (ns_id row) \<le> 2 ^ 33) ?nodes" using small(5) by (rule list.pred_mono_strong) auto
  show "list_all (\<lambda>(table, ident, row). length (es_id row) \<le> 2 ^ 33) ?edges" using small(6) by (rule list.pred_mono_strong) auto
  show "list_all (\<lambda>c. length (connector_line c) \<le> 2 ^ 34) (concat (map (edge_connectors ?types) ?edges))" using small(7) by (rule list.pred_mono_strong) auto
qed

definition sample_partition_of :: "graph_node_row list \<Rightarrow> graph_edge_row list \<Rightarrow> graph_partition" where
  "sample_partition_of nodes edges =
     \<lparr>gp_entry = \<lparr>me_path = ''a.rs'', me_content_hash = ''h'', me_language = ''rust'', me_partition_id = ''p'', me_artifact_key = None,
        me_node_ids = [], me_edge_ids = [], me_node_types = [], me_edge_types = [], me_node_count = 0, me_edge_count = 0,
        me_materialized_at = []\<rparr>,
      gp_nodes = nodes, gp_edges = edges\<rparr>"

definition sample_edge :: "string \<Rightarrow> string \<Rightarrow> graph_edge_row" where
  "sample_edge source target =
     \<lparr>ge_id = ''e1'', ge_edge_type = ''Calls'', ge_source_id = source, ge_target_id = target, ge_kind = ''calls'', ge_confidence = 1,
      ge_field_name = None, ge_child_index = None, ge_line_start = None, ge_line_end = None, ge_byte_start = None, ge_byte_end = None,
      ge_metadata = JNull\<rparr>"

definition sample_parts :: "staged_part list" where
  "sample_parts =
     [(sample_partition_of [sample_node ''map'' [], (sample_node ''C'' [])\<lparr>gn_id := ''n2'', gn_table := ''Class''\<rparr>] [sample_edge ''n2'' ''n1''], {}, {}),
      (sample_partition_of [sample_node [] ''maps''] [sample_edge ''n2'' []], {}, {})]"

lemma sample_rows_of_parts:
  "map row_key (node_rows sample_parts) = [(''Function'', ''n1''), (''Class'', ''n2''), (''Function'', ''n1'')]"
  "map row_key (edge_rows sample_parts) = [(''Calls'', ''e1''), (''Calls'', ''e1'')]"
  "type_rows sample_parts = [(''n1'', ''Function''), (''n2'', ''Class''), (''n1'', ''Function'')]"
  by (simp_all add: node_rows_def edge_rows_def type_rows_def sample_parts_def sample_partition_of_def sample_node_def sample_edge_def row_key_def)

lemma sample_staged:
  "staged_edges sample_parts = [(''Calls'', ''e1'', edge_fields (sample_edge ''n2'' ''n1''))]"
  "staged_types sample_parts = [(''n1'', ''Function''), (''n2'', ''Class'')]"
  "map (\<lambda>(table, ident, row). (table, ns_id row, ns_label row, ns_summary row)) (staged_nodes sample_parts) =
     [(''Class'', ''n2'', ''C'', []), (''Function'', ''n1'', ''map'', ''maps'')]"
  by code_simp+

lemma sample_fits: "staging_fits (table_env sample_parts) sample_parts"
  by (rule small_parts_fit) code_simp

lemma sample_known: "list_all (node_known sample_parts) (endpoint_requests sample_parts)"
  unfolding endpoint_requests_def node_known_def sample_staged sample_rows_of_parts by code_simp

lemma sample_accepted:
  "accepted_edges [] sample_parts = staged_edges sample_parts"
  "map (\<lambda>c. (cr_from_type c, cr_from_id c, cr_to_type c, cr_to_id c)) (staged_connectors [] sample_parts) =
     [(''Class'', ''n2'', ''Calls'', ''e1''), (''Calls'', ''e1'', ''Function'', ''n1'')]"
  unfolding accepted_edges_def staged_connectors_def sample_staged by code_simp+

text \<open>Two partitions that share a node and an edge.\<close>

theorem staging_writes_merged_graph_witness:
  "\<exists>a result w' nks. with_limits [] False 7 0 ''stage'' 64 16 = Inr a
     \<and> finish (table_env sample_parts) (add_parts (table_env sample_parts) sample_parts (a, \<lparr>ws_files = Map.empty, ws_metrics = empty_metrics\<rparr>)) = Inr (result, w')
     \<and> concat (map chunk_rows nks) = [(''Class'', ''n2''), (''Function'', ''n1'')]
     \<and> (\<forall>(table, index, rows)\<in>set nks. ws_files w' (chunked_output_path ''stage'' (output_file_stem table) ''json'' index) =
          Some (''['' @ join '','' rows @ '']'' @ [CHR 0x0A]))
     \<and> stg_node_rows result = 2 \<and> stg_edge_rows result = 1 \<and> stg_connector_rows result = 2 \<and> stg_unique_node_count result = 2"
proof -
  have "map (\<lambda>(table, ident, row). (table, encoding (sv_node_row (table_env sample_parts)) row)) (staged_nodes sample_parts) =
      map (\<lambda>(table, ident, label, summary). (table, ident))
        (map (\<lambda>(table, ident, row). (table, ns_id row, ns_label row, ns_summary row)) (staged_nodes sample_parts))"
    by (simp add: table_env_def encoding_def split_beta)
  then have nodes: "map (\<lambda>(table, ident, row). (table, encoding (sv_node_row (table_env sample_parts)) row)) (staged_nodes sample_parts) =
      [(''Class'', ''n2''), (''Function'', ''n1'')]" unfolding sample_staged by simp
  have "length (staged_nodes sample_parts) = 2" using arg_cong [OF sample_staged(3), of length] by simp
  moreover have "length (accepted_edges [] sample_parts) = 1" by (simp add: sample_accepted sample_staged)
  moreover have "fst ` set (type_rows sample_parts) = {''n1'', ''n2''}" by (auto simp: sample_rows_of_parts)
  then have "card (fst ` set (type_rows sample_parts)) = 2" by simp
  ultimately show ?thesis
    using staging_writes_merged_graph [OF sample_fits sample_known, of 64 16 "[]" False 7 0 "''stage''" "\<lparr>ws_files = Map.empty, ws_metrics = empty_metrics\<rparr>"]
    unfolding nodes by (auto simp: ball_Un)
qed

text \<open>
  C17. An edge that names a node no partition has is not staged: \<open>finish\<close> reports it, with the first
  such endpoint in the order of node identifier, relation, edge identifier and side.
\<close>

theorem staging_reports_missing_endpoint:
  assumes "staging_fits env parts" and "find (\<lambda>e. \<not> node_known parts e) (endpoint_requests parts) = Some e"
    and "0 < chunk_limit" and "chunk_limit \<le> 2 ^ 62" and "output_chunk_limit \<le> 2 ^ 62"
  shows "\<exists>a. with_limits specs defer_disposal process_id sequence dir chunk_limit output_chunk_limit = Inr a
     \<and> finish env (add_parts env parts (a, w)) = Inl (Failed (missing_error e))"
proof -
  from run_collected [OF assms(1,3-5)] obtain a s a' w1 where
    new: "with_limits specs defer_disposal process_id sequence dir chunk_limit output_chunk_limit = Inr a" "add_parts env parts (a, w) = (a', w1)"
    and ok: "accumulator_ok a'"
    and ready: "ac_pending_error a' = None" "ac_raw_records a' = Some s" "spool_ready (sv_raw env) s w1 (raw_parts 0 parts)" "sl_root s = ac_run_root a'"
      "sl_prefix s = ''staged''" by metis
  let ?N = "staged_nodes parts" and ?E = "staged_edges parts" and ?T = "staged_types parts"
  note fits = run_fits [OF assms(1) ok]
  have ordered: "sorted (map rr_source_order (raw_parts 0 parts))" using raw_parts_ascending [of 0 parts] by (auto simp: ascending_def)
  have room: "length (raw_parts 0 parts) < 2 ^ 20" using assms(1) by (simp add: staging_fits_def)
  from finish_groups_ok [OF _ ordered room ready(3-5), unfolded raw_parts_staged, OF fits(1)] obtain g w2 where
    1: "finish_groups env a' s w1 = Inr ((map (chunk_statement (json_format (ac_staging_dir a'))) (table_chunks a' (sv_node_row env) ?N), length ?N), g, w2)"
      "grouped_state env a' ?E ?T g w2" by blast
  from assms(2) obtain i where i: "i < length (endpoint_requests parts)" "\<not> node_known parts (endpoint_requests parts ! i)" "e = endpoint_requests parts ! i"
    "\<forall>j<i. node_known parts (endpoint_requests parts ! j)" by (auto simp: find_Some_iff)
  have split: "sort_key endpoint_sort_key (concat (map edge_requests ?E)) = take i (endpoint_requests parts) @ e # drop (Suc i) (endpoint_requests parts)"
    unfolding i(3) using id_take_nth_drop [OF i(1)] by (simp add: endpoint_requests_def)
  have known: "\<forall>e\<in>set (take i (endpoint_requests parts)). map_of ?T (ep_node_id e) \<noteq> None"
    using i(4) by (auto simp: node_known_def staged_types_map in_set_conv_nth)
  have "map_of ?T (ep_node_id e) = None" using i(2,3) by (simp add: node_known_def staged_types_map)
  from finish_endpoints_missing [OF fits(2) 1(2) split known this] have "finish env (a', w1) = Inl (Failed (missing_error e))"
    using ready(1,2) 1(1) by (simp add: finish_def)
  with new show ?thesis by auto
qed

definition broken_parts :: "staged_part list" where
  "broken_parts = [(sample_partition_of [sample_node ''map'' []] [sample_edge ''n9'' ''n1''], {}, {})]"

lemma broken_staged:
  "staged_edges broken_parts = [(''Calls'', ''e1'', edge_fields (sample_edge ''n9'' ''n1''))]"
  "staged_types broken_parts = [(''n1'', ''Function'')]"
  "map (\<lambda>(table, ident, row). (table, ns_id row)) (staged_nodes broken_parts) = [(''Function'', ''n1'')]"
  by code_simp+

lemma broken_fits: "staging_fits (table_env broken_parts) broken_parts"
  by (rule small_parts_fit) code_simp

theorem staging_reports_missing_endpoint_witness:
  "\<exists>a. with_limits [] True 7 0 ''stage'' 64 16 = Inr a
     \<and> finish (table_env broken_parts) (add_parts (table_env broken_parts) broken_parts (a, \<lparr>ws_files = Map.empty, ws_metrics = empty_metrics\<rparr>)) =
         Inl (Failed (InvalidInput ''edge e1 references missing source node n9''))"
proof -
  let ?e = "\<lparr>ep_node_id = ''n9'', ep_relation = ''Calls'', ep_edge_id = ''e1'', ep_side = SourceSide\<rparr>"
  have types: "type_rows broken_parts = [(''n1'', ''Function'')]"
    by (simp add: type_rows_def broken_parts_def sample_partition_of_def sample_node_def)
  have "find (\<lambda>e. \<not> node_known broken_parts e) (endpoint_requests broken_parts) = Some ?e"
    unfolding endpoint_requests_def node_known_def broken_staged types by code_simp
  from staging_reports_missing_endpoint [OF broken_fits this, of 64 16 "[]" True 7 0 "''stage''" "\<lparr>ws_files = Map.empty, ws_metrics = empty_metrics\<rparr>"]
  show ?thesis by (simp add: missing_error_def side_str_def)
qed

section \<open>Partitions whose edges stay inside\<close>

lemma first_informative_in: "xs \<noteq> [] \<Longrightarrow> first_informative vacuous xs \<in> set xs"
  unfolding first_informative_def
  by (cases "dropWhile vacuous xs") (simp_all del: dropWhile_eq_Nil_conv, metis list.set_intros(1) set_dropWhileD)

text \<open>A merged edge has the endpoints of one of its rows.\<close>

lemma grouped_field:
  assumes "\<And>a b. f (merge a b) = keep_first vacuous (f a) (f b)" and "x \<in> set (grouped key merge xs)"
  shows "f x \<in> f ` set xs"
proof -
  from assms(2) obtain k where k: "k \<in> key ` set xs" "x = merge_all merge (filter (\<lambda>x. key x = k) xs)" by (auto simp: grouped_def)
  let ?ys = "filter (\<lambda>x. key x = k) xs"
  have ne: "?ys \<noteq> []" using k(1) by (auto simp: filter_empty_conv)
  then have "f x = first_informative vacuous (map f ?ys)" unfolding k(2) by (rule merge_all_field) (rule assms(1))
  moreover have "first_informative vacuous (map f ?ys) \<in> set (map f ?ys)" using ne by (intro first_informative_in) simp
  ultimately show ?thesis by auto
qed

lemma staged_endpoints:
  assumes "(table, ident, row) \<in> set (staged_edges parts)"
  shows "es_source_id row \<in> (\<lambda>(table, ident, row). es_source_id row) ` set (edge_rows parts)"
    and "es_target_id row \<in> (\<lambda>(table, ident, row). es_target_id row) ` set (edge_rows parts)"
proof -
  have "(case (table, ident, row) of (table, ident, row) \<Rightarrow> es_source_id row) \<in> (\<lambda>(table, ident, row). es_source_id row) ` set (edge_rows parts)"
    using assms unfolding staged_edges_def by (rule grouped_field [rotated]) (simp add: merge_rows_def split_beta)
  then show "es_source_id row \<in> (\<lambda>(table, ident, row). es_source_id row) ` set (edge_rows parts)" by simp
  have "(case (table, ident, row) of (table, ident, row) \<Rightarrow> es_target_id row) \<in> (\<lambda>(table, ident, row). es_target_id row) ` set (edge_rows parts)"
    using assms unfolding staged_edges_def by (rule grouped_field [rotated]) (simp add: merge_rows_def split_beta)
  then show "es_target_id row \<in> (\<lambda>(table, ident, row). es_target_id row) ` set (edge_rows parts)" by simp
qed

definition parts_closed :: "staged_part list \<Rightarrow> bool" where
  "parts_closed parts \<longleftrightarrow> (\<forall>(p, retained_nodes, retained_edges)\<in>set parts. \<exists>al. rows_closed al p)"

lemma closed_endpoint_typed:
  assumes "rows_closed al p" and "(p, rn, re) \<in> set parts" and "row \<in> set (gp_edges p)"
  shows "map_of (type_rows parts) (ge_source_id row) \<noteq> None" "map_of (type_rows parts) (ge_target_id row) \<noteq> None"
proof -
  have typed: "map_of (type_rows parts) ident \<noteq> None" if "row_table (gp_nodes p) ident \<noteq> None" for ident
  proof -
    from that obtain node where "node \<in> set (gp_nodes p)" "gn_id node = ident" by (auto simp: row_table_def find_Some_iff in_set_conv_nth)
    with assms(2) have "(ident, gn_table node) \<in> set (type_rows parts)" by (force simp: type_rows_def)
    then show ?thesis unfolding map_of_eq_None_iff by (metis fst_conv image_eqI)
  qed
  have "edge_row_ok al (gp_nodes p) row" using assms(1,3) by (simp add: rows_closed_def list_all_iff)
  then show "map_of (type_rows parts) (ge_source_id row) \<noteq> None" "map_of (type_rows parts) (ge_target_id row) \<noteq> None"
    using typed by (auto simp: edge_row_ok_def split: option.splits)
qed

lemma closed_parts_known:
  assumes "parts_closed parts"
  shows "list_all (node_known parts) (endpoint_requests parts)"
proof -
  have rows: "map_of (type_rows parts) (es_source_id row) \<noteq> None \<and> map_of (type_rows parts) (es_target_id row) \<noteq> None"
    if "(table, ident, row) \<in> set (edge_rows parts)" for table ident row
  proof -
    from that obtain p rn re r where r: "(p, rn, re) \<in> set parts" "r \<in> set (gp_edges p)" "row = edge_fields r" by (auto simp: edge_rows_def)
    with assms obtain al where "rows_closed al p" by (auto simp: parts_closed_def)
    from closed_endpoint_typed [OF this r(1,2)] show ?thesis by (simp add: r(3) edge_fields_def)
  qed
  have "map_of (type_rows parts) (ep_node_id e) \<noteq> None" if e: "e \<in> set (endpoint_requests parts)" for e
  proof -
    from e obtain table ident row where edge: "(table, ident, row) \<in> set (staged_edges parts)"
      "ep_node_id e = es_source_id row \<or> ep_node_id e = es_target_id row" by (auto simp: endpoint_requests_def edge_requests_def)
    with staged_endpoints [OF edge(1)] rows show ?thesis by fastforce
  qed
  then show ?thesis by (simp add: list_all_iff node_known_def)
qed

lemma connector_sides:
  assumes "c \<in> set (staged_connectors specs parts)"
  obtains table ident row where "(table, ident, row) \<in> set (accepted_edges specs parts)"
    "c = \<lparr>cr_relation = table, cr_side = SourceSide, cr_from_type = the (map_of (type_rows parts) (es_source_id row)), cr_to_type = table,
        cr_from_id = es_source_id row, cr_to_id = ident, cr_role = ''source''\<rparr>
     \<or> c = \<lparr>cr_relation = table, cr_side = TargetSide, cr_from_type = table, cr_to_type = the (map_of (type_rows parts) (es_target_id row)),
        cr_from_id = ident, cr_to_id = es_target_id row, cr_role = ''target''\<rparr>"
proof -
  from assms obtain e where e: "e \<in> set (accepted_edges specs parts)" "c \<in> set (edge_connectors (staged_types parts) e)"
    by (auto simp: staged_connectors_def)
  then show ?thesis by (cases e) (auto simp: edge_connectors_def staged_types_map intro: that)
qed


definition closed_parts :: "staged_part list" where
  "closed_parts =
     [(sample_partition_of [sample_node ''map'' [], (sample_node ''m'' [])\<lparr>gn_id := ''n2'', gn_table := ''Method''\<rparr>] [sample_edge ''n2'' ''n1''], {''n1''}, {})]"


end
