(* ===== verification/Occurrences.thy ===== *)
theory Occurrences
  imports RunMerge
begin

text \<open>
  The external sort of term occurrences (\<^verbatim>\<open>src/search_index/build.rs\<close>): occurrences are buffered,
  spilled into sorted run files, and the runs merged level by level into one sorted file. The
  directory of run files is a map from names to contents. Capacities are the allocator's business:
  \<open>reserve\<close> and \<open>term_capacity\<close> are parameters, and only decide when a run is cut. The counters of
  type \<open>usize\<close> and \<open>u64\<close> are natural numbers whose bound of 64 bits is written out.
\<close>

section \<open>Occurrences\<close>

datatype occurrence = Occurrence (oc_term: string) (oc_document: u64)

instantiation occurrence :: linorder
begin

definition less_eq_occurrence :: "occurrence \<Rightarrow> occurrence \<Rightarrow> bool" where
  "less_eq_occurrence a b \<longleftrightarrow> (oc_term a, oc_document a) \<le> (oc_term b, oc_document b)"

definition less_occurrence :: "occurrence \<Rightarrow> occurrence \<Rightarrow> bool" where
  "less_occurrence a b \<longleftrightarrow> (oc_term a, oc_document a) < (oc_term b, oc_document b)"

instance
proof
  fix a b c :: occurrence
  show "a < b \<longleftrightarrow> a \<le> b \<and> \<not> b \<le> a"
    unfolding less_eq_occurrence_def less_occurrence_def by (rule less_le_not_le)
  show "a \<le> a" unfolding less_eq_occurrence_def by (rule order_refl)
  show "a \<le> b \<Longrightarrow> b \<le> c \<Longrightarrow> a \<le> c" unfolding less_eq_occurrence_def by (rule order_trans)
  show "a \<le> b \<Longrightarrow> b \<le> a \<Longrightarrow> a = b"
    unfolding less_eq_occurrence_def by (cases a; cases b) (metis occurrence.sel order_antisym prod.inject)
  show "a \<le> b \<or> b \<le> a" unfolding less_eq_occurrence_def by (rule linear)
qed

end

definition max_term_bytes :: nat where
  "max_term_bytes = 256"

definition occurrences_magic :: string where
  "occurrences_magic = ''CBGOC001''"

lemma length_occurrences_magic [simp]: "length occurrences_magic = 8"
  by (simp add: occurrences_magic_def)

definition occurrence_bytes :: "occurrence \<Rightarrow> string" where
  "occurrence_bytes occ =
     write_u32 (word_of_nat (length (oc_term occ))) @ oc_term occ @ write_u64 (oc_document occ)"

definition write_occurrence :: "occurrence \<Rightarrow> string result" where
  "write_occurrence occ =
     (if length (oc_term occ) < 2 ^ 32 then Inr (occurrence_bytes occ)
      else Inl (InvalidInput ''search term length exceeds u32''))"

definition open_occurrences :: "string \<Rightarrow> string result" where
  "open_occurrences bytes = read_magic bytes occurrences_magic"

definition next_occurrence :: "string \<Rightarrow> (occurrence \<times> string) option result" where
  "next_occurrence reader =
     (case reader of
        [] \<Rightarrow> Inr None
      | first # reader1 \<Rightarrow>
          try_op (read_exact 3 reader1) (\<lambda>(more, reader2).
          let length_value = le_value (first # more) in
          if length_value > max_term_bytes
          then Inl (InvalidInput (''search occurrence term exceeds limit: '' @ string_of_nat length_value
                 @ '' > '' @ string_of_nat max_term_bytes))
          else
            try_op (read_exact length_value reader2) (\<lambda>(bytes, reader3).
            case utf8_error 0 bytes of
              Some error \<Rightarrow> Inl (InvalidInput (''invalid UTF-8 search occurrence: '' @ utf8_error_message error))
            | None \<Rightarrow>
                try_op (read_exact 8 reader3) (\<lambda>(document_bytes, reader4).
                Inr (Some (Occurrence bytes (word_of_nat (le_value document_bytes)), reader4))))))"

definition indexable :: "occurrence \<Rightarrow> bool" where
  "indexable occ \<longleftrightarrow> length (oc_term occ) \<le> max_term_bytes \<and> utf8_valid (oc_term occ)"

lemma write_occurrence_indexable [simp]: "indexable occ \<Longrightarrow> write_occurrence occ = Inr (occurrence_bytes occ)"
  by (simp add: indexable_def write_occurrence_def max_term_bytes_def)

lemma length_occurrence_bytes: "length (occurrence_bytes occ) = 12 + length (oc_term occ)"
  by (simp add: occurrence_bytes_def)

lemma next_occurrence_bytes:
  assumes "indexable occ"
  shows "next_occurrence (occurrence_bytes occ @ rest) = Inr (Some (occ, rest))"
proof -
  let ?n = "length (oc_term occ)"
  obtain b more where bytes: "write_u32 (word_of_nat ?n) = b # more" "length more = 3"
    using length_write_u32 [of "word_of_nat ?n"] by (cases "write_u32 (word_of_nat ?n)") auto
  have "?n < 2 ^ 32" using assms by (simp add: indexable_def max_term_bytes_def)
  then have "le_value (write_u32 (word_of_nat ?n)) = ?n"
    by (simp add: write_u32_def le_value_le_bytes unat_of_nat take_bit_nat_eq_self)
  then have val: "le_value (b # more) = ?n" by (simp only: bytes)
  have "occurrence_bytes occ @ rest = b # more @ oc_term occ @ write_u64 (oc_document occ) @ rest"
    by (simp add: occurrence_bytes_def bytes)
  then show ?thesis
    using assms bytes(2) val
    by (simp add: next_occurrence_def indexable_def utf8_valid_def write_u64_def word_of_le_value
        del: le_value.simps)
qed

lemma next_occurrence_end: "next_occurrence [] = Inr None"
  by (simp add: next_occurrence_def)

interpretation occ: record_merge occurrence_bytes next_occurrence indexable "\<lambda>occ. occ"
  by unfold_locales (rule next_occurrence_bytes next_occurrence_end; assumption?)+

section \<open>Merging runs\<close>

fun open_readers :: "file_map \<Rightarrow> string list \<Rightarrow> string list result" where
  "open_readers files [] = Inr []"
| "open_readers files (path # paths) =
     try_op (open_file files path) (\<lambda>bytes.
     try_op (open_occurrences bytes) (\<lambda>reader.
     try_op (open_readers files paths) (\<lambda>readers. Inr (reader # readers))))"

text \<open>\<open>Ord for HeapOccurrence\<close>: by occurrence, then by reader; \<open>BinaryHeap::pop\<close> takes the least.\<close>

definition heap_occurrence_order :: "occurrence \<times> nat \<Rightarrow> occurrence \<times> nat" where
  "heap_occurrence_order = (\<lambda>(occ, reader_index). (occ, reader_index))"

fun merge_loop :: "nat \<Rightarrow> (occurrence \<times> nat) list \<Rightarrow> string list \<Rightarrow> string \<Rightarrow> string run" where
  "merge_loop 0 heap readers writer = Inl Diverged"
| "merge_loop (Suc fuel) heap readers writer =
     (case heap_pop heap_occurrence_order heap of
        None \<Rightarrow> Inr writer
      | Some ((occ, reader_index), heap1) \<Rightarrow>
          try_op (lift_result (write_occurrence occ)) (\<lambda>bytes.
          try_op (lift_result (next_occurrence (readers ! reader_index))) (\<lambda>item.
          case item of
            None \<Rightarrow> merge_loop fuel heap1 readers (writer @ bytes)
          | Some (occ', reader') \<Rightarrow>
              merge_loop fuel (heap1 @ [(occ', reader_index)]) (readers[reader_index := reader']) (writer @ bytes))))"

definition merge_occurrence_runs :: "file_map \<Rightarrow> string list \<Rightarrow> string \<Rightarrow> file_map run" where
  "merge_occurrence_runs files inputs output =
     try_op (lift_result (open_readers files inputs)) (\<lambda>opened.
     try_op (lift_result (load_heads next_occurrence 0 opened [])) (\<lambda>(readers, heap).
     try_op (merge_loop (Suc (sum_list (map length opened))) heap readers occurrences_magic) (\<lambda>writer.
     Inr (files(output \<mapsto> writer)))))"

section \<open>The sorter\<close>

record sorter =
  so_chunk_limit :: nat
  so_buffered :: "occurrence list"
  so_capacity :: nat
  so_buffered_term_bytes :: nat
  so_buffered_bytes :: nat
  so_runs :: "string list"
  so_next_run :: nat
  so_spill_bytes :: nat
  so_high_water_bytes :: nat
  so_files :: file_map

definition occurrence_size :: nat where
  "occurrence_size = 32"

definition max_merge_fan_in :: nat where
  "max_merge_fan_in = 32"

definition merge_reader_accounted_bytes :: nat where
  "merge_reader_accounted_bytes = 768"

definition sorter_new :: "nat \<Rightarrow> sorter result" where
  "sorter_new chunk_limit =
     (if chunk_limit = 0 then Inl (InvalidInput ''search chunk target must be positive'')
      else Inr \<lparr>so_chunk_limit = chunk_limit, so_buffered = [], so_capacity = 0, so_buffered_term_bytes = 0,
                so_buffered_bytes = 0, so_runs = [], so_next_run = 0, so_spill_bytes = 0,
                so_high_water_bytes = 0, so_files = Map.empty\<rparr>)"

fun write_occurrences :: "occurrence list \<Rightarrow> string result" where
  "write_occurrences [] = Inr []"
| "write_occurrences (occ # occs) =
     try_op (write_occurrence occ) (\<lambda>bytes. try_op (write_occurrences occs) (\<lambda>rest. Inr (bytes @ rest)))"

definition numbered_run :: "string \<Rightarrow> nat \<Rightarrow> string" where
  "numbered_run kind n = kind @ string_of_nat n @ ''.run''"

definition sorter_flush :: "sorter \<Rightarrow> sorter result" where
  "sorter_flush s =
     (if so_buffered s = [] then Inr s
      else
        let buffered = sort (so_buffered s);
            path = numbered_run ''occurrence-'' (so_next_run s)
        in try_op (or_invalid ''search occurrence run count overflow'' (add_u64 (so_next_run s) 1)) (\<lambda>next_run.
           try_op (write_occurrences buffered) (\<lambda>bytes.
           let run = occurrences_magic @ bytes in
           try_op (or_invalid ''search spill byte count overflow'' (add_u64 (so_spill_bytes s) (length run))) (\<lambda>spill.
           Inr (s\<lparr>so_buffered := [], so_buffered_term_bytes := 0,
                  so_buffered_bytes := min (so_capacity s * occurrence_size) max_u64,
                  so_runs := so_runs s @ [path], so_next_run := next_run, so_spill_bytes := spill,
                  so_files := (so_files s)(path \<mapsto> run)\<rparr>)))))"

definition buffer_occurrence :: "nat \<Rightarrow> nat \<Rightarrow> occurrence \<Rightarrow> sorter \<Rightarrow> sorter result" where
  "buffer_occurrence capacity term_bytes occ s =
     try_op (or_invalid ''search occurrence size overflow'' (add_u64 (so_buffered_term_bytes s) term_bytes))
       (\<lambda>total_term_bytes.
     let buffered_bytes = min (min (capacity * occurrence_size) max_u64 + total_term_bytes) max_u64;
         s1 = s\<lparr>so_buffered := so_buffered s @ [occ], so_capacity := capacity,
                so_buffered_term_bytes := total_term_bytes, so_buffered_bytes := buffered_bytes,
                so_high_water_bytes := max (so_high_water_bytes s) buffered_bytes\<rparr>
     in if so_buffered_bytes s1 \<ge> so_chunk_limit s1 then sorter_flush s1 else Inr s1)"

definition sorter_push ::
  "(nat \<Rightarrow> nat \<Rightarrow> string + nat) \<Rightarrow> (string \<Rightarrow> nat) \<Rightarrow> occurrence \<Rightarrow> sorter \<Rightarrow> sorter result" where
  "sorter_push reserve term_capacity occ s =
     (let term_bytes = term_capacity (oc_term occ) in
      try_op (or_invalid ''search occurrence size overflow''
                (Option.bind (add_u64 (so_buffered_bytes s) occurrence_size) (\<lambda>bytes. add_u64 bytes term_bytes)))
        (\<lambda>projected_bytes.
      try_op (if so_buffered s \<noteq> [] \<and> projected_bytes > so_chunk_limit s then sorter_flush s else Inr s) (\<lambda>s1.
      case reserve (so_capacity s1) (length (so_buffered s1)) of
        Inl error \<Rightarrow> Inl (Io (OtherIo (''search occurrence allocation failed: '' @ error)))
      | Inr capacity \<Rightarrow> buffer_occurrence capacity term_bytes occ s1)))"

definition merge_into :: "string \<Rightarrow> string list \<Rightarrow> sorter \<Rightarrow> sorter run" where
  "merge_into path grp s =
     (let s1 = s\<lparr>so_high_water_bytes :=
                  max (so_high_water_bytes s) (min (length grp * merge_reader_accounted_bytes) max_u64)\<rparr>
      in try_op (merge_occurrence_runs (so_files s1) grp path) (\<lambda>files.
         try_op (lift_result (open_file files path)) (\<lambda>bytes.
         try_op (lift_result (or_invalid ''search spill byte count overflow'' (add_u64 (so_spill_bytes s1) (length bytes))))
           (\<lambda>spill.
         try_op (lift_result (remove_files grp files)) (\<lambda>files'.
         Inr (s1\<lparr>so_spill_bytes := spill, so_files := files'\<rparr>))))))"

fun merge_groups :: "string list list \<Rightarrow> string list \<Rightarrow> sorter \<Rightarrow> (string list \<times> sorter) run" where
  "merge_groups [] merged s = Inr (merged, s)"
| "merge_groups (grp # groups) merged s =
     (if length grp = 1 then merge_groups groups (merged @ [grp ! 0]) s
      else
        let path = numbered_run ''merge-'' (so_next_run s) in
        try_op (lift_result (or_invalid ''search merge run count overflow'' (add_u64 (so_next_run s) 1))) (\<lambda>next_run.
        try_op (merge_into path grp (s\<lparr>so_next_run := next_run\<rparr>)) (\<lambda>s1.
        merge_groups groups (merged @ [path]) s1)))"

fun merge_levels :: "nat \<Rightarrow> nat \<Rightarrow> sorter \<Rightarrow> sorter run" where
  "merge_levels fuel fan_in s =
     (if length (so_runs s) \<le> fan_in then Inr s
      else case fuel of
             0 \<Rightarrow> Inl Diverged
           | Suc fuel' \<Rightarrow>
               try_op (merge_groups (chunks fan_in (so_runs s)) [] (s\<lparr>so_runs := []\<rparr>)) (\<lambda>(merged, s1).
               merge_levels fuel' fan_in (s1\<lparr>so_runs := merged\<rparr>)))"

declare merge_levels.simps [simp del]

definition merge_fan_in :: "nat \<Rightarrow> nat" where
  "merge_fan_in chunk_limit = max 2 (min max_merge_fan_in (chunk_limit div merge_reader_accounted_bytes))"

definition sorter_finish :: "sorter \<Rightarrow> (string \<times> sorter) run" where
  "sorter_finish s =
     try_op (lift_result (sorter_flush s)) (\<lambda>s1.
     let s2 = (if so_runs s1 = []
               then s1\<lparr>so_runs := [''occurrence-empty.run''],
                       so_files := (so_files s1)(''occurrence-empty.run'' \<mapsto> occurrences_magic)\<rparr>
               else s1)
     in try_op (merge_levels (length (so_runs s2)) (merge_fan_in (so_chunk_limit s2)) s2) (\<lambda>s3.
        if length (so_runs s3) = 1 then Inr (last (so_runs s3), s3\<lparr>so_runs := butlast (so_runs s3)\<rparr>)
        else
          try_op (merge_into ''occurrence-final.run'' (so_runs s3) s3) (\<lambda>s4.
          Inr (''occurrence-final.run'', s4\<lparr>so_runs := []\<rparr>))))"

section \<open>Facts: merging\<close>

abbreviation run_file :: "occurrence list \<Rightarrow> string" where
  "run_file occs \<equiv> occurrences_magic @ concat (map occurrence_bytes occs)"

text \<open>The run files \<open>paths\<close> hold the sorted runs \<open>rs\<close>.\<close>

definition stored :: "file_map \<Rightarrow> string list \<Rightarrow> occurrence list list \<Rightarrow> bool" where
  "stored files paths rs \<longleftrightarrow>
     distinct paths
     \<and> list_all2 (\<lambda>path r. files path = Some (run_file r) \<and> list_all indexable r \<and> sorted r) paths rs"

lemma item_order_eq: "heap_occurrence_order = occ.item_order"
  by (simp add: heap_occurrence_order_def occ.item_order_def)

lemma write_occurrences_indexable: "list_all indexable occs \<Longrightarrow> write_occurrences occs = Inr (concat (map occurrence_bytes occs))"
  by (induction occs) auto

lemma open_readers_stored:
  "list_all2 (\<lambda>path r. files path = Some (run_file r) \<and> Q r) paths rs \<Longrightarrow>
     open_readers files paths = Inr (map occ.bytes_of rs)"
proof (induction paths arbitrary: rs)
  case (Cons path paths)
  then obtain r rs' where "rs = r # rs'" "files path = Some (run_file r)"
    "list_all2 (\<lambda>path r. files path = Some (run_file r) \<and> Q r) paths rs'"
    by (auto simp: list_all2_Cons1)
  with Cons show ?case by (simp add: open_file_def open_occurrences_def occ.bytes_of_def)
qed simp

lemma merge_loop_sorts:
  assumes "occ.holds {} heap readers runs" and "length (concat runs) < fuel" and "\<forall>x\<in>set (concat runs). indexable x"
  shows "merge_loop fuel heap readers writer = Inr (writer @ occ.bytes_of (sort (concat runs)))"
  using assms
proof (induction fuel arbitrary: heap readers runs writer)
  case (Suc fuel)
  show ?case
  proof (cases "heap_pop heap_occurrence_order heap")
    case None
    with Suc(2) have "concat runs = []" by (intro occ.holds_empty) (auto simp: item_order_eq)
    then have "sort (concat runs) = []" by (simp only: sort_key_simps)
    then show ?thesis by (simp add: None occ.bytes_of_def del: heap_pop_None)
  next
    case (Some popped)
    obtain x i heap1 where popped: "popped = ((x, i), heap1)" by (cases popped) auto
    with Some have pop: "heap_pop occ.item_order heap = Some ((x, i), heap1)" by (simp add: item_order_eq)
    from occ.holds_pop [OF Suc(2) pop] obtain xs where xs: "i < length runs" "runs ! i = x # xs"
      "sort (concat runs) = x # sort (concat (runs[i := xs]))" "occ.holds {i} heap1 readers (runs[i := xs])" .
    have len: "length (concat (runs[i := xs])) < fuel"
      using Suc(3) occ.length_pop [OF xs(2,1)] by simp
    have eq: "set (concat runs) = insert x (set (concat (runs[i := xs])))"
      by (metis list.simps(15) set_sort xs(3))
    have ok: "indexable x" "\<forall>x\<in>set (concat (runs[i := xs])). indexable x"
      using Suc.prems(3) unfolding eq by blast+
    have out: "occ.bytes_of (sort (concat runs)) = occurrence_bytes x @ occ.bytes_of (sort (concat (runs[i := xs])))"
      by (simp add: xs(3) occ.bytes_of_def)
    from occ.holds_refill [OF xs(4)] xs(1) show ?thesis
      using Suc(1) [OF _ len ok(2)] Some popped ok(1) out by auto
  qed
qed simp

lemma merge_occurrence_runs_stored:
  assumes "stored files inputs rs"
  shows "merge_occurrence_runs files inputs output = Inr (files(output \<mapsto> run_file (sort (concat rs))))"
proof -
  have all: "list_all2 (\<lambda>path r. files path = Some (run_file r) \<and> list_all indexable r \<and> sorted r) inputs rs"
    using assms by (simp add: stored_def)
  have srt: "list_all (\<lambda>r. sorted (map (\<lambda>x. x) r)) rs" and wr: "list_all (list_all indexable) rs"
    using list_all2_conv_all_nth [THEN iffD1, OF all] by (auto simp: list_all_length)
  have "length (concat rs) \<le> sum_list (map length (map occ.bytes_of rs))"
    using wr
  proof (induction rs)
    case (Cons r rs)
    then have "length r \<le> length (occ.bytes_of r)" unfolding occ.bytes_of_def by (intro occ.length_records) simp
    with Cons show ?case by simp
  qed simp
  moreover from occ.load_heads_delivers [OF occ.files_deliver [OF wr]] obtain readers where
    load: "load_heads next_occurrence 0 (map occ.bytes_of rs) [] = Inr (readers, [] @ heads 0 rs)"
      "list_all2 (\<lambda>r run. occ.file_delivers r (tl run)) readers rs" by blast
  ultimately have loop: "merge_loop (Suc (sum_list (map length (map occ.bytes_of rs)))) (heads 0 rs) readers occurrences_magic =
      Inr (occurrences_magic @ occ.bytes_of (sort (concat rs)))"
    using wr by (intro merge_loop_sorts occ.holds_heads srt) (auto simp: list_all_iff)
  show ?thesis
    unfolding merge_occurrence_runs_def open_readers_stored [OF all] lift_result_simps try_op_simps
      load append_Nil prod.case loop
    by (simp add: occ.bytes_of_def)
qed

definition weight :: "occurrence list list \<Rightarrow> nat" where
  "weight rs = sum_list (map (\<lambda>r. length (run_file r)) rs)"

lemma weight_simps [simp]:
  "weight [] = 0" "weight (r # rs) = length (run_file r) + weight rs" "weight (rs @ rs') = weight rs + weight rs'"
  by (simp_all add: weight_def)

lemma length_bytes_mset: "mset xs = mset ys \<Longrightarrow> length (run_file xs) = length (run_file ys)"
  by (simp add: length_concat comp_def) (metis mset_map sum_mset_sum_list)

lemma weight_merged: "rs \<noteq> [] \<Longrightarrow> length (run_file (sort (concat rs))) \<le> weight rs"
proof -
  assume "rs \<noteq> []"
  have "length (run_file (concat rs)) \<le> weight rs" using \<open>rs \<noteq> []\<close>
    by (induction rs rule: list_nonempty_induct) auto
  then show ?thesis using length_bytes_mset [of "sort (concat rs)" "concat rs"] by simp
qed

text \<open>What one merge changes: the inputs are gone, the output holds their sorted union.\<close>

definition replaced :: "string \<Rightarrow> string list \<Rightarrow> occurrence list list \<Rightarrow> sorter \<Rightarrow> sorter \<Rightarrow> bool" where
  "replaced path grp rs s s' \<longleftrightarrow>
     so_files s' = (\<lambda>p. if p \<in> set grp then None
                         else if p = path then Some (run_file (sort (concat rs))) else so_files s p)
     \<and> so_spill_bytes s' \<le> so_spill_bytes s + weight rs
     \<and> so_next_run s' = so_next_run s \<and> so_runs s' = so_runs s \<and> so_buffered s' = so_buffered s
     \<and> so_chunk_limit s' = so_chunk_limit s"

lemma merge_into_spec:
  assumes st: "stored (so_files s) grp rs" and fresh: "path \<notin> set grp" and ne: "grp \<noteq> []"
    and S: "S \<Longrightarrow> so_spill_bytes s + weight rs \<le> max_u64"
  shows "spec S (merge_into path grp s) (replaced path grp rs s)"
proof -
  have d: "distinct grp" and all: "list_all2 (\<lambda>path r. so_files s path = Some (run_file r) \<and> list_all indexable r \<and> sorted r) grp rs"
    using st by (auto simp: stored_def)
  have "rs \<noteq> []" using all ne by auto
  note w = weight_merged [OF this]
  have present: "\<forall>p\<in>set grp. ((so_files s)(path \<mapsto> run_file (sort (concat rs)))) p \<noteq> None"
    using list_all2_conv_all_nth [THEN iffD1, OF all] by (auto simp: in_set_conv_nth)
  note removed = remove_files_present [OF d present]
  have merged: "merge_occurrence_runs (so_files s) grp path = Inr ((so_files s)(path \<mapsto> run_file (sort (concat rs))))"
    by (rule merge_occurrence_runs_stored [OF st])
  show ?thesis
  proof (cases "so_spill_bytes s + length (run_file (sort (concat rs))) \<le> max_u64")
    case True
    then show ?thesis
      unfolding merge_into_def
      using w fresh
      by (simp add: replaced_def merged removed open_file_def add_u64_def) (simp add: fun_eq_iff)
  next
    case False
    with w S have "\<not> S" by auto
    with False show ?thesis
      unfolding merge_into_def using merged by (simp add: open_file_def add_u64_def)
  qed
qed

section \<open>Facts: names of run files\<close>

lemma numbered_run_inject: "numbered_run kind a = numbered_run kind b \<longleftrightarrow> a = b"
  by (auto simp: numbered_run_def dest: string_of_nat_inject)

lemma numbered_run_kinds: "numbered_run ''occurrence-'' a \<noteq> numbered_run ''merge-'' b"
  by (simp add: numbered_run_def)

definition old_run :: "nat \<Rightarrow> string \<Rightarrow> bool" where
  "old_run n path \<longleftrightarrow> (\<exists>k<n. path = numbered_run ''occurrence-'' k \<or> path = numbered_run ''merge-'' k)"

lemma old_run_mono: "old_run n path \<Longrightarrow> n \<le> m \<Longrightarrow> old_run m path"
  unfolding old_run_def using order_less_le_trans by blast

lemma old_run_fresh: "\<not> old_run n (numbered_run ''occurrence-'' n)" "\<not> old_run n (numbered_run ''merge-'' n)"
  using numbered_run_kinds by (auto simp: old_run_def numbered_run_inject) metis+

lemma old_run_final: "\<not> old_run n ''occurrence-final.run''"
proof
  assume "old_run n ''occurrence-final.run''"
  then obtain k where "string_of_nat k @ ''.run'' = ''final.run''"
    by (auto simp: old_run_def numbered_run_def)
  then have "CHR ''f'' = hd (string_of_nat k)" using string_of_nat_nonempty
    by (metis hd_append2 list.sel(1))
  then have "ascii_digit (CHR ''f'')" using string_of_nat_digits string_of_nat_nonempty by (metis list.set_sel(1))
  then show False by (simp add: ascii_digit_def)
qed

section \<open>Facts: merging levels\<close>

text \<open>The directory holds the runs and nothing else, under names older than the counter.\<close>

definition directory :: "sorter \<Rightarrow> string list \<Rightarrow> occurrence list list \<Rightarrow> bool" where
  "directory s paths rs \<longleftrightarrow>
     stored (so_files s) paths rs \<and> dom (so_files s) = set paths \<and> (\<forall>path\<in>set paths. old_run (so_next_run s) path)"

lemma stored_length: "stored files paths rs \<Longrightarrow> length paths = length rs"
  by (auto simp: stored_def list_all2_lengthD)

lemma stored_part:
  assumes "stored files (a @ g @ b) (ra @ rg @ rb)" and "length a = length ra" and "length g = length rg"
  shows "stored files g rg"
  using assms by (auto simp: stored_def list_all2_append)

lemma stored_replace:
  assumes st: "stored files (a @ g @ b) (ra @ rg @ rb)" and len: "length a = length ra" "length g = length rg"
    and fresh: "path \<notin> set (a @ g @ b)" and r: "list_all indexable r" "sorted r"
  shows "stored (\<lambda>p. if p \<in> set g then None else if p = path then Some (run_file r) else files p)
           (a @ [path] @ b) (ra @ [r] @ rb)" (is "stored ?files _ _")
proof -
  have d: "distinct (a @ g @ b)" using st by (simp add: stored_def)
  have keep: "list_all2 (\<lambda>p r. ?files p = Some (run_file r) \<and> list_all indexable r \<and> sorted r) ps rs"
    if "list_all2 (\<lambda>p r. files p = Some (run_file r) \<and> list_all indexable r \<and> sorted r) ps rs"
      "set ps \<inter> set g = {}" "path \<notin> set ps" for ps rs
    using that by (auto simp: list_all2_conv_all_nth) (metis disjoint_iff nth_mem)+
  have "path \<notin> set g" using fresh by simp
  then have "list_all2 (\<lambda>p r. ?files p = Some (run_file r) \<and> list_all indexable r \<and> sorted r) [path] [r]"
    using r by simp
  moreover have "list_all2 (\<lambda>p r. ?files p = Some (run_file r) \<and> list_all indexable r \<and> sorted r) a ra"
    using st len d fresh by (intro keep) (auto simp: stored_def list_all2_append)
  moreover have "list_all2 (\<lambda>p r. ?files p = Some (run_file r) \<and> list_all indexable r \<and> sorted r) b rb"
    using st len d fresh by (intro keep) (auto simp: stored_def list_all2_append)
  moreover have "distinct (a @ [path] @ b)" using d fresh by auto
  ultimately show ?thesis by (simp add: stored_def list_all2_appendI)
qed

lemma sorted_indexable_concat:
  assumes "stored files paths rs"
  shows "list_all indexable (sort (concat rs))"
proof -
  have "\<forall>r\<in>set rs. list_all indexable r"
    using assms by (auto simp: stored_def list_all2_conv_all_nth in_set_conv_nth)
  then show ?thesis by (auto simp: list_all_iff)
qed

lemma directory_replace:
  assumes dir: "directory s (a @ g @ b) (ra @ rg @ rb)" and len: "length a = length ra" "length g = length rg"
    and path: "\<not> old_run (so_next_run s) path" "old_run (so_next_run s') path" and le: "so_next_run s \<le> so_next_run s'"
    and files: "so_files s' = (\<lambda>p. if p \<in> set g then None
                                  else if p = path then Some (run_file (sort (concat rg))) else so_files s p)"
  shows "directory s' (a @ [path] @ b) (ra @ [sort (concat rg)] @ rb)"
proof -
  have st: "stored (so_files s) (a @ g @ b) (ra @ rg @ rb)" and dm: "dom (so_files s) = set (a @ g @ b)"
    and old: "\<forall>p\<in>set (a @ g @ b). old_run (so_next_run s) p" using dir by (auto simp: directory_def)
  have fresh: "path \<notin> set (a @ g @ b)" using old path(1) by blast
  have "list_all indexable (sort (concat rg))" using sorted_indexable_concat [OF stored_part [OF st len]] .
  with stored_replace [OF st len fresh] have "stored (so_files s') (a @ [path] @ b) (ra @ [sort (concat rg)] @ rb)"
    by (simp add: files)
  moreover have "distinct (a @ g @ b)" using st by (simp add: stored_def)
  then have "dom (so_files s') = set (a @ [path] @ b)"
    using dm fresh by (auto simp: files dom_def)
  moreover have "\<forall>p\<in>set (a @ [path] @ b). old_run (so_next_run s') p"
    using old path(2) old_run_mono [OF _ le] by auto
  ultimately show ?thesis by (simp add: directory_def)
qed

definition merged_ok :: "sorter \<Rightarrow> occurrence list list \<Rightarrow> nat \<Rightarrow> string list \<times> sorter \<Rightarrow> bool" where
  "merged_ok s rs n = (\<lambda>(merged, s'). \<exists>ms.
     directory s' merged ms \<and> mset (concat ms) = mset (concat rs) \<and> length merged = n
     \<and> weight ms \<le> weight rs \<and> so_buffered s' = so_buffered s \<and> so_chunk_limit s' = so_chunk_limit s)"

lemma directory_merged:
  assumes dir: "directory s (a @ g @ b) (ra @ rg @ rb)" and len: "length a = length ra" "length g = length rg"
    and rep: "replaced (numbered_run ''merge-'' (so_next_run s)) g rg (s\<lparr>so_next_run := so_next_run s + 1\<rparr>) s'"
  shows "directory s' (a @ [numbered_run ''merge-'' (so_next_run s)] @ b) (ra @ [sort (concat rg)] @ rb)"
proof (rule directory_replace [OF dir len])
  show "\<not> old_run (so_next_run s) (numbered_run ''merge-'' (so_next_run s))" by (rule old_run_fresh)
  show "old_run (so_next_run s') (numbered_run ''merge-'' (so_next_run s))"
    using rep by (auto simp: replaced_def old_run_def)
qed (use rep in \<open>auto simp: replaced_def\<close>)

lemma merge_one_spec:
  assumes dir: "directory s (a @ g @ b) (ra @ rg @ rb)" and len: "length a = length ra" "length g = length rg"
    and ne: "g \<noteq> []" and S: "S \<Longrightarrow> so_spill_bytes s + weight rg \<le> max_u64"
  shows "spec S (merge_into (numbered_run ''merge-'' (so_next_run s)) g (s\<lparr>so_next_run := so_next_run s + 1\<rparr>))
           (replaced (numbered_run ''merge-'' (so_next_run s)) g rg (s\<lparr>so_next_run := so_next_run s + 1\<rparr>))"
proof (rule merge_into_spec [OF _ _ ne])
  have st: "stored (so_files s) (a @ g @ b) (ra @ rg @ rb)"
    and old: "\<forall>p\<in>set (a @ g @ b). old_run (so_next_run s) p" using dir by (auto simp: directory_def)
  show "stored (so_files (s\<lparr>so_next_run := so_next_run s + 1\<rparr>)) g rg" using stored_part [OF st len] by simp
  show "numbered_run ''merge-'' (so_next_run s) \<notin> set g" using old old_run_fresh(2) by auto
qed (use S in simp)

lemma merge_groups_spec:
  assumes "list_all2 (\<lambda>g rg. length g = length rg) groups gss" and "\<forall>g\<in>set groups. g \<noteq> []"
    and "length merged = length ms" and "directory s (merged @ concat groups) (ms @ concat gss)"
    and "S \<Longrightarrow> so_spill_bytes s + weight (concat gss) \<le> max_u64 \<and> so_next_run s + length groups \<le> max_u64"
  shows "spec S (merge_groups groups merged s) (\<lambda>(merged', s').
           merged_ok s (ms @ concat gss) (length merged + length groups) (merged', s')
           \<and> so_spill_bytes s' \<le> so_spill_bytes s + weight (concat gss)
           \<and> so_next_run s' \<le> so_next_run s + length groups)"
  using assms
proof (induction groups arbitrary: gss merged ms s)
  case Nil
  then show ?case by (auto simp: merged_ok_def)
next
  case (Cons g groups)
  then obtain rg gss' where gss: "gss = rg # gss'" and lg: "length g = length rg"
    and rest: "list_all2 (\<lambda>g rg. length g = length rg) groups gss'" by (auto simp: list_all2_Cons1)
  have dir: "directory s (merged @ g @ concat groups) (ms @ rg @ concat gss')" using Cons.prems(4) gss by simp
  let ?path = "numbered_run ''merge-'' (so_next_run s)"
  let ?s1 = "s\<lparr>so_next_run := so_next_run s + 1\<rparr>"
  consider "length g = 1" | "length g \<noteq> 1" "so_next_run s + 1 \<le> max_u64" | "length g \<noteq> 1" "\<not> so_next_run s + 1 \<le> max_u64"
    by blast
  then show ?case
  proof cases
    case 1
    then obtain p r where pr: "g = [p]" "rg = [r]" using lg by (metis One_nat_def length_0_conv length_Suc_conv)
    have "spec S (merge_groups groups (merged @ [p]) s) (\<lambda>(merged', s').
           merged_ok s ((ms @ [r]) @ concat gss') (length (merged @ [p]) + length groups) (merged', s')
           \<and> so_spill_bytes s' \<le> so_spill_bytes s + weight (concat gss')
           \<and> so_next_run s' \<le> so_next_run s + length groups)"
      using Cons.prems dir rest pr gss by (intro Cons.IH) auto
    then show ?thesis using 1 pr gss by (auto elim!: spec_mono simp: merged_ok_def)
  next
    case 2
    then have eq: "merge_groups (g # groups) merged s =
        try_op (merge_into ?path g ?s1) (merge_groups groups (merged @ [?path]))"
      by (simp add: add_u64_def Let_def)
    have "rg \<noteq> []" using lg Cons.prems(2) by (cases rg) auto
    then have w: "weight [sort (concat rg)] \<le> weight rg" using weight_merged by (simp add: weight_def)
    show ?thesis unfolding eq
    proof (rule spec_try [OF merge_one_spec [OF dir Cons.prems(3) lg]])
      fix s1 assume rep: "replaced ?path g rg ?s1 s1"
      have "spec S (merge_groups groups (merged @ [?path]) s1) (\<lambda>(merged', s').
           merged_ok s1 ((ms @ [sort (concat rg)]) @ concat gss') (length (merged @ [?path]) + length groups) (merged', s')
           \<and> so_spill_bytes s' \<le> so_spill_bytes s1 + weight (concat gss')
           \<and> so_next_run s' \<le> so_next_run s1 + length groups)"
        using Cons.prems rest gss rep directory_merged [OF dir Cons.prems(3) lg rep]
        by (intro Cons.IH) (auto simp: replaced_def)
      then show "spec S (merge_groups groups (merged @ [?path]) s1) (\<lambda>(merged', s').
           merged_ok s (ms @ concat gss) (length merged + length (g # groups)) (merged', s')
           \<and> so_spill_bytes s' \<le> so_spill_bytes s + weight (concat gss)
           \<and> so_next_run s' \<le> so_next_run s + length (g # groups))"
        using rep gss w by (auto elim!: spec_mono simp: merged_ok_def replaced_def)
    qed (use Cons.prems gss in auto)
  next
    case 3
    moreover from 3 have "\<not> S" using Cons.prems(5) by auto
    ultimately show ?thesis by (simp add: add_u64_def)
  qed
qed

definition levels_ok :: "nat \<Rightarrow> nat \<Rightarrow> sorter \<Rightarrow> occurrence list list \<Rightarrow> sorter \<Rightarrow> bool" where
  "levels_ok fuel fan_in s rs s' \<longleftrightarrow>
     merged_ok s rs (length (so_runs s')) (so_runs s', s')
     \<and> length (so_runs s') \<le> fan_in \<and> (so_runs s \<noteq> [] \<longrightarrow> so_runs s' \<noteq> [])
     \<and> so_spill_bytes s' \<le> so_spill_bytes s + fuel * weight rs"

text \<open>One level: strictly fewer runs, with the same records and no more bytes.\<close>

definition level_ok :: "sorter \<Rightarrow> occurrence list list \<Rightarrow> string list \<times> sorter \<Rightarrow> bool" where
  "level_ok s rs = (\<lambda>(merged, s'). \<exists>ms.
     directory s' merged ms \<and> mset (concat ms) = mset (concat rs) \<and> length ms < length rs \<and> merged \<noteq> []
     \<and> weight ms \<le> weight rs \<and> so_buffered s' = so_buffered s \<and> so_chunk_limit s' = so_chunk_limit s
     \<and> so_spill_bytes s' \<le> so_spill_bytes s + weight rs \<and> so_next_run s' \<le> so_next_run s + length rs)"

lemma merge_level_spec:
  assumes fan: "1 < fan_in" and dir: "directory s (so_runs s) rs" and many: "\<not> length (so_runs s) \<le> fan_in"
    and S: "S \<Longrightarrow> so_spill_bytes s + weight rs \<le> max_u64 \<and> so_next_run s + length rs \<le> max_u64"
  shows "spec S (merge_groups (chunks fan_in (so_runs s)) [] (s\<lparr>so_runs := []\<rparr>)) (level_ok s rs)"
proof -
  let ?groups = "chunks fan_in (so_runs s)" and ?gss = "chunks fan_in rs" and ?s0 = "s\<lparr>so_runs := []\<rparr>"
  have len: "length (so_runs s) = length rs" using dir by (auto simp: directory_def dest: stored_length)
  have cat: "concat ?groups = so_runs s" "concat ?gss = rs" using fan by (simp_all add: concat_chunks)
  have "2 * length ?groups \<le> length rs + 1" using length_chunks [OF fan, of "so_runs s"] len by simp
  then have less: "length ?groups < length rs" using many len fan by linarith
  have ne: "?groups \<noteq> []" using many fan chunks_step [of fan_in "so_runs s"] by (cases "so_runs s = []") auto
  have "spec S (merge_groups ?groups [] ?s0) (\<lambda>(merged', s').
           merged_ok ?s0 ([] @ concat ?gss) (length ([] :: string list) + length ?groups) (merged', s')
           \<and> so_spill_bytes s' \<le> so_spill_bytes ?s0 + weight (concat ?gss)
           \<and> so_next_run s' \<le> so_next_run ?s0 + length ?groups)"
    using dir S chunks_same_shape [OF len] chunks_nonempty less
    by (intro merge_groups_spec) (auto simp: cat directory_def)
  then show ?thesis
    using less ne
    by (elim spec_mono) (auto simp: level_ok_def merged_ok_def cat directory_def, metis length_0_conv stored_length)
qed

lemma merge_levels_spec:
  assumes "1 < fan_in" and "directory s (so_runs s) rs" and "length rs \<le> fuel"
    and "S \<Longrightarrow> so_spill_bytes s + fuel * weight rs \<le> max_u64 \<and> so_next_run s + fuel * length rs \<le> max_u64"
  shows "spec S (merge_levels fuel fan_in s) (levels_ok fuel fan_in s rs)"
  using assms
proof (induction fuel arbitrary: s rs)
  case 0
  then have "so_runs s = []" by (auto simp: directory_def dest: stored_length)
  with 0 show ?case by (subst merge_levels.simps) (auto simp: levels_ok_def merged_ok_def)
next
  case (Suc fuel)
  show ?case
  proof (cases "length (so_runs s) \<le> fan_in")
    case True
    with Suc.prems show ?thesis by (subst merge_levels.simps) (auto simp: levels_ok_def merged_ok_def)
  next
    case False
    have eq: "merge_levels (Suc fuel) fan_in s =
        try_op (merge_groups (chunks fan_in (so_runs s)) [] (s\<lparr>so_runs := []\<rparr>))
          (\<lambda>(merged, s1). merge_levels fuel fan_in (s1\<lparr>so_runs := merged\<rparr>))"
      using False by (subst merge_levels.simps) simp
    have "spec S (merge_groups (chunks fan_in (so_runs s)) [] (s\<lparr>so_runs := []\<rparr>)) (level_ok s rs)"
      using Suc.prems(4) by (intro merge_level_spec [OF Suc.prems(1,2) False]) auto
    then show ?thesis unfolding eq
    proof (rule spec_try)
      fix res assume "level_ok s rs res"
      then obtain merged s1 ms where res: "res = (merged, s1)" and ms: "directory s1 merged ms"
        "mset (concat ms) = mset (concat rs)" "length ms < length rs" "merged \<noteq> []" "weight ms \<le> weight rs"
        "so_buffered s1 = so_buffered s" "so_chunk_limit s1 = so_chunk_limit s"
        "so_spill_bytes s1 \<le> so_spill_bytes s + weight rs" "so_next_run s1 \<le> so_next_run s + length rs"
        by (auto simp: level_ok_def split: prod.splits)
      let ?s2 = "s1\<lparr>so_runs := merged\<rparr>"
      have w: "fuel * weight ms \<le> fuel * weight rs" using ms(5) by (rule mult_le_mono2)
      have r: "fuel * length ms \<le> fuel * length rs" using ms(3) by (intro mult_le_mono2) simp
      have "spec S (merge_levels fuel fan_in ?s2) (levels_ok fuel fan_in ?s2 ms)"
      proof (rule Suc.IH [OF Suc.prems(1)])
        show "directory ?s2 (so_runs ?s2) ms" using ms(1) by (simp add: directory_def)
        show "length ms \<le> fuel" using ms(3) Suc.prems(3) by simp
        show "so_spill_bytes ?s2 + fuel * weight ms \<le> max_u64 \<and> so_next_run ?s2 + fuel * length ms \<le> max_u64" if S
        proof -
          have "so_spill_bytes s + weight rs + fuel * weight rs \<le> max_u64"
            "so_next_run s + length rs + fuel * length rs \<le> max_u64"
            using Suc.prems(4) [OF that] by simp_all
          then have "so_spill_bytes s1 + fuel * weight ms \<le> max_u64" "so_next_run s1 + fuel * length ms \<le> max_u64"
            using ms(8,9) w r by linarith+
          then show ?thesis by simp
        qed
      qed
      then show "spec S (case res of (merged, s1) \<Rightarrow> merge_levels fuel fan_in (s1\<lparr>so_runs := merged\<rparr>))
          (levels_ok (Suc fuel) fan_in s rs)"
        unfolding res prod.case
      proof (rule spec_mono)
        fix s' assume "levels_ok fuel fan_in ?s2 ms s'"
        then obtain ms' where "directory s' (so_runs s') ms'" "mset (concat ms') = mset (concat ms)" "weight ms' \<le> weight ms"
          and "so_buffered s' = so_buffered s1" "so_chunk_limit s' = so_chunk_limit s1" "length (so_runs s') \<le> fan_in"
          and "so_runs s' \<noteq> []" and spill: "so_spill_bytes s' \<le> so_spill_bytes s1 + fuel * weight ms"
          using ms(4) by (auto simp: levels_ok_def merged_ok_def)
        moreover have "so_spill_bytes s' \<le> so_spill_bytes s + Suc fuel * weight rs"
          using spill ms(8) w mult_Suc [of fuel "weight rs"] by linarith
        ultimately show "levels_ok (Suc fuel) fan_in s rs s'"
          unfolding levels_ok_def merged_ok_def prod.case using ms(2,5,6,7) le_trans by metis
      qed
    qed
  qed
qed

section \<open>Facts: the sorter\<close>

text \<open>What the allocator is documented to do: \<open>try_reserve_exact\<close> succeeds unless memory runs out, and no allocation exceeds \<open>isize::MAX\<close> bytes.\<close>

definition allocator_ok :: "(nat \<Rightarrow> nat \<Rightarrow> string + nat) \<Rightarrow> bool" where
  "allocator_ok reserve \<longleftrightarrow>
     (\<forall>c n. n < 2 ^ 20 \<and> c * occurrence_size < 2 ^ 63
        \<longrightarrow> (\<exists>c'. reserve c n = Inr c' \<and> c' * occurrence_size < 2 ^ 63))"

definition accounted :: "sorter \<Rightarrow> bool" where
  "accounted s \<longleftrightarrow>
     so_chunk_limit s \<le> 2 ^ 62 \<and> so_capacity s * occurrence_size < 2 ^ 63
     \<and> so_buffered_term_bytes s \<le> so_chunk_limit s + 2 ^ 61
     \<and> so_buffered_bytes s \<le> so_capacity s * occurrence_size + so_buffered_term_bytes s"

definition sorter_inv :: "bool \<Rightarrow> occurrence list \<Rightarrow> sorter \<Rightarrow> bool" where
  "sorter_inv S xs s \<longleftrightarrow>
     0 < so_chunk_limit s \<and> list_all indexable (so_buffered s) \<and> so_next_run s = length (so_runs s)
     \<and> (\<exists>rs. directory s (so_runs s) rs \<and> mset (concat rs) + mset (so_buffered s) = mset xs
          \<and> so_spill_bytes s = weight rs \<and> list_all (\<lambda>r. r \<noteq> []) rs)
     \<and> (S \<longrightarrow> accounted s)"

lemma weight_bound:
  assumes "\<forall>r\<in>set rs. r \<noteq> [] \<and> list_all indexable r"
  shows "weight rs \<le> 276 * length (concat rs)" and "length rs \<le> length (concat rs)"
proof -
  have run: "length (run_file r) \<le> 8 + 268 * length r" if "list_all indexable r" for r
    using that by (induction r) (auto simp: length_occurrence_bytes indexable_def max_term_bytes_def)
  have one: "length (run_file r) \<le> 276 * length r" "1 \<le> length r" if "r \<noteq> []" "list_all indexable r" for r
  proof -
    show "1 \<le> length r" using that(1) by (simp add: Suc_le_eq)
    with run [OF that(2)] show "length (run_file r) \<le> 276 * length r" by linarith
  qed
  show "weight rs \<le> 276 * length (concat rs)" using assms
  proof (induction rs)
    case (Cons r rs)
    with one(1) [of r] show ?case by simp
  qed simp
  show "length rs \<le> length (concat rs)" using assms
  proof (induction rs)
    case (Cons r rs)
    with one(2) [of r] show ?case by simp
  qed simp
qed

lemma sort_nonempty: "sort xs = [] \<longleftrightarrow> xs = []"
  by (metis length_0_conv length_sort)

lemma directory_runs: "directory s paths rs \<Longrightarrow> r \<in> set rs \<Longrightarrow> list_all indexable r \<and> sorted r"
  by (auto simp: directory_def stored_def list_all2_conv_all_nth in_set_conv_nth)

lemma directory_add:
  assumes dir: "directory s paths rs" and path: "\<not> old_run (so_next_run s) path" "old_run (so_next_run s') path"
    and le: "so_next_run s \<le> so_next_run s'" and r: "list_all indexable r" "sorted r"
    and files: "so_files s' = (so_files s)(path \<mapsto> run_file r)"
  shows "directory s' (paths @ [path]) (rs @ [r])"
proof -
  have fresh: "path \<notin> set paths" using dir path(1) by (auto simp: directory_def)
  have "list_all2 (\<lambda>p r. so_files s' p = Some (run_file r) \<and> list_all indexable r \<and> sorted r) paths rs"
    using dir fresh by (auto simp: directory_def stored_def list_all2_conv_all_nth files)
  with dir fresh r path(2) show ?thesis
    by (auto simp: directory_def stored_def files list_all2_appendI intro: old_run_mono [OF _ le])
qed

definition flushed :: "sorter \<Rightarrow> sorter" where
  "flushed s =
     (let path = numbered_run ''occurrence-'' (so_next_run s); run = run_file (sort (so_buffered s)) in
      s\<lparr>so_buffered := [], so_buffered_term_bytes := 0,
        so_buffered_bytes := min (so_capacity s * occurrence_size) max_u64,
        so_runs := so_runs s @ [path], so_next_run := so_next_run s + 1,
        so_spill_bytes := so_spill_bytes s + length run, so_files := (so_files s)(path \<mapsto> run)\<rparr>)"

lemma sorter_flush_full:
  assumes "so_buffered s \<noteq> []" and "list_all indexable (so_buffered s)"
  shows "sorter_flush s =
      (if \<not> so_next_run s + 1 \<le> max_u64 then Inl (InvalidInput ''search occurrence run count overflow'')
       else if \<not> so_spill_bytes s + length (run_file (sort (so_buffered s))) \<le> max_u64
       then Inl (InvalidInput ''search spill byte count overflow'')
       else Inr (flushed s))"
proof -
  have "list_all indexable (sort (so_buffered s))" using assms(2) by (simp add: list_all_iff)
  with assms(1) show ?thesis
    by (simp add: sorter_flush_def flushed_def write_occurrences_indexable add_u64_def Let_def)
qed

lemma sorter_inv_flushed:
  assumes inv: "sorter_inv S xs s" and ne: "so_buffered s \<noteq> []"
  shows "sorter_inv S xs (flushed s)"
proof -
  from inv obtain rs where rs: "directory s (so_runs s) rs" "mset (concat rs) + mset (so_buffered s) = mset xs"
    "so_spill_bytes s = weight rs" "list_all (\<lambda>r. r \<noteq> []) rs" by (auto simp: sorter_inv_def)
  let ?r = "sort (so_buffered s)"
  have idx: "list_all indexable ?r" using inv by (auto simp: sorter_inv_def list_all_iff)
  have "directory (flushed s) (so_runs s @ [numbered_run ''occurrence-'' (so_next_run s)]) (rs @ [?r])"
    by (rule directory_add [OF rs(1)]) (auto simp: old_run_fresh idx flushed_def Let_def, auto simp: old_run_def)
  then have "directory (flushed s) (so_runs (flushed s)) (rs @ [?r])" by (simp add: flushed_def Let_def)
  moreover have "mset (concat (rs @ [?r])) + mset (so_buffered (flushed s)) = mset xs"
    using rs(2) by (simp add: flushed_def Let_def)
  moreover have "so_spill_bytes (flushed s) = weight (rs @ [?r])" using rs(3) by (simp add: flushed_def Let_def)
  moreover have "list_all (\<lambda>r. r \<noteq> []) (rs @ [?r])" using rs(4) ne by (simp add: sort_nonempty)
  moreover have "S \<longrightarrow> accounted (flushed s)" using inv by (auto simp: sorter_inv_def accounted_def flushed_def Let_def)
  moreover have "0 < so_chunk_limit (flushed s)" "list_all indexable (so_buffered (flushed s))"
    "so_next_run (flushed s) = length (so_runs (flushed s))"
    using inv by (auto simp: sorter_inv_def flushed_def Let_def)
  ultimately show ?thesis unfolding sorter_inv_def by blast
qed

lemma sorter_inv_bounds:
  assumes inv: "sorter_inv S xs s"
  shows "so_spill_bytes s + length (run_file (sort (so_buffered s))) \<le> 276 * length xs + 8"
    and "so_next_run s \<le> length xs" and "so_spill_bytes s \<le> 276 * length xs"
proof -
  from inv obtain rs where rs: "directory s (so_runs s) rs" "mset (concat rs) + mset (so_buffered s) = mset xs"
    "so_spill_bytes s = weight rs" "list_all (\<lambda>r. r \<noteq> []) rs" by (auto simp: sorter_inv_def)
  have idx: "list_all indexable (sort (so_buffered s))" using inv by (auto simp: sorter_inv_def list_all_iff)
  have ok: "\<forall>r\<in>set rs. r \<noteq> [] \<and> list_all indexable r"
    using rs(4) directory_runs [OF rs(1)] by (auto simp: list_all_iff)
  have len: "length (concat rs) + length (so_buffered s) = length xs" using arg_cong [OF rs(2), of size] by simp
  have "length (run_file (sort (so_buffered s))) \<le> 276 * length (so_buffered s) + 8"
  proof (cases "so_buffered s = []")
    case False
    with weight_bound(1) [of "[sort (so_buffered s)]"] idx show ?thesis by (simp add: sort_nonempty)
  qed simp
  with weight_bound [OF ok] len rs(3)
  show "so_spill_bytes s + length (run_file (sort (so_buffered s))) \<le> 276 * length xs + 8"
    "so_spill_bytes s \<le> 276 * length xs" by simp_all
  have "so_next_run s = length rs" using inv rs(1) by (auto simp: sorter_inv_def directory_def dest: stored_length)
  with weight_bound(2) [OF ok] len show "so_next_run s \<le> length xs" by simp
qed

lemma sorter_flush_spec:
  assumes inv: "sorter_inv S xs s" and S: "S \<Longrightarrow> length xs < 2 ^ 20"
  shows "spec S (lift_result (sorter_flush s)) (\<lambda>s'. sorter_inv S xs s' \<and> so_buffered s' = []
           \<and> (so_buffered s \<noteq> [] \<longrightarrow> so_buffered_term_bytes s' = 0)
           \<and> so_chunk_limit s' = so_chunk_limit s \<and> so_capacity s' = so_capacity s)"
proof (cases "so_buffered s = []")
  case True
  with inv show ?thesis by (simp add: sorter_flush_def)
next
  case False
  have idx: "list_all indexable (so_buffered s)" using inv by (simp add: sorter_inv_def)
  have "so_next_run s + 1 \<le> max_u64 \<and> so_spill_bytes s + length (run_file (sort (so_buffered s))) \<le> max_u64" if S
    using sorter_inv_bounds [OF inv] S [OF that] by (simp add: max_u64_def)
  with sorter_inv_flushed [OF inv False] show ?thesis
    unfolding sorter_flush_full [OF False idx] by (auto simp: flushed_def Let_def)
qed

definition sorter_ready :: "bool \<Rightarrow> occurrence list \<Rightarrow> sorter \<Rightarrow> bool" where
  "sorter_ready S xs s \<longleftrightarrow> sorter_inv S xs s \<and> (S \<longrightarrow> so_buffered_term_bytes s \<le> so_chunk_limit s)"

lemma buffer_occurrence_spec:
  assumes ready: "sorter_ready S xs s" and occ: "indexable occ"
    and S: "S \<Longrightarrow> length xs + 1 < 2 ^ 20 \<and> capacity * occurrence_size < 2 ^ 63 \<and> term_bytes \<le> 2 ^ 61"
  shows "spec S (lift_result (buffer_occurrence capacity term_bytes occ s)) (sorter_ready S (xs @ [occ]))"
proof -
  define total where "total = so_buffered_term_bytes s + term_bytes"
  define bytes where "bytes = min (min (capacity * occurrence_size) max_u64 + total) max_u64"
  define s1 where "s1 = s\<lparr>so_buffered := so_buffered s @ [occ], so_capacity := capacity,
                so_buffered_term_bytes := total, so_buffered_bytes := bytes,
                so_high_water_bytes := max (so_high_water_bytes s) bytes\<rparr>"
  have inv: "sorter_inv S xs s" using ready by (simp add: sorter_ready_def)
  have small: "total \<le> so_chunk_limit s + 2 ^ 61 \<and> so_chunk_limit s \<le> 2 ^ 62 \<and> total \<le> bytes \<and> total \<le> max_u64" if S
    using S [OF that] ready that
    by (auto simp: sorter_ready_def sorter_inv_def accounted_def total_def bytes_def max_u64_def)
  have "S \<longrightarrow> accounted s1" using small S by (auto simp: accounted_def s1_def bytes_def)
  then have inv1: "sorter_inv S (xs @ [occ]) s1"
    using inv occ unfolding sorter_inv_def by (auto simp: s1_def directory_def)
  have eq: "buffer_occurrence capacity term_bytes occ s =
      (if total \<le> max_u64 then if so_chunk_limit s \<le> bytes then sorter_flush s1 else Inr s1
       else Inl (InvalidInput ''search occurrence size overflow''))"
    by (simp add: buffer_occurrence_def add_u64_def Let_def s1_def bytes_def total_def)
  have "spec S (lift_result (sorter_flush s1)) (sorter_ready S (xs @ [occ]))"
    by (rule spec_mono [OF sorter_flush_spec [OF inv1]]) (use S in \<open>auto simp: sorter_ready_def s1_def\<close>)
  moreover have "sorter_ready S (xs @ [occ]) s1" if "\<not> so_chunk_limit s \<le> bytes"
    using inv1 small that by (auto simp: sorter_ready_def s1_def)
  ultimately show ?thesis using small unfolding eq by auto
qed

lemma sorter_inv_length: "sorter_inv S xs s \<Longrightarrow> length (so_buffered s) \<le> length xs"
proof -
  assume "sorter_inv S xs s"
  then obtain rs where "mset (concat rs) + mset (so_buffered s) = mset xs" by (auto simp: sorter_inv_def)
  then have "size (mset (concat rs) + mset (so_buffered s)) = size (mset xs)" by (rule arg_cong)
  then show ?thesis by simp
qed

lemma reserve_succeeds:
  assumes "sorter_ready S xs s" and "allocator_ok reserve" and "length xs + 1 < 2 ^ 20" and S
  shows "\<exists>c. reserve (so_capacity s) (length (so_buffered s)) = Inr c \<and> c * occurrence_size < 2 ^ 63"
proof -
  have "length (so_buffered s) < 2 ^ 20" "so_capacity s * occurrence_size < 2 ^ 63"
    using assms sorter_inv_length [of S xs s] by (auto simp: sorter_ready_def sorter_inv_def accounted_def)
  with assms(2) show ?thesis unfolding allocator_ok_def by blast
qed

lemma sorter_push_spec:
  assumes ready: "sorter_ready S xs s" and occ: "indexable occ"
    and S: "S \<Longrightarrow> length xs + 1 < 2 ^ 20 \<and> allocator_ok reserve \<and> term_capacity (oc_term occ) \<le> 2 ^ 61"
  shows "spec S (lift_result (sorter_push reserve term_capacity occ s)) (sorter_ready S (xs @ [occ]))"
proof -
  let ?t = "term_capacity (oc_term occ)"
  let ?projected = "or_invalid ''search occurrence size overflow''
                (Option.bind (add_u64 (so_buffered_bytes s) occurrence_size) (\<lambda>bytes. add_u64 bytes ?t))"
  have projected: "spec S (lift_result ?projected) (\<lambda>_. True)"
  proof (cases "so_buffered_bytes s + occurrence_size + ?t \<le> max_u64")
    case True
    then show ?thesis by (simp add: add_u64_def)
  next
    case False
    have "\<not> S"
    proof
      assume S
      with ready have "so_buffered_bytes s < 2 ^ 63 + 2 ^ 62" by (auto simp: sorter_ready_def sorter_inv_def accounted_def)
      with S [OF \<open>S\<close>] False show False by (simp add: max_u64_def occurrence_size_def)
    qed
    then show ?thesis by (auto simp: add_u64_def bind_eq_None_conv lift_result_def spec_def or_invalid_def split: option.splits)
  qed
  have flush: "spec S (lift_result (if so_buffered s \<noteq> [] \<and> p > so_chunk_limit s then sorter_flush s else Inr s)) (sorter_ready S xs)" for p
  proof (cases "so_buffered s \<noteq> [] \<and> p > so_chunk_limit s")
    case True
    have "spec S (lift_result (sorter_flush s)) (sorter_ready S xs)"
      by (rule spec_mono [OF sorter_flush_spec]) (use ready S True in \<open>auto simp: sorter_ready_def\<close>)
    with True show ?thesis by simp
  qed (use ready in auto)
  have buffer: "spec S (lift_result (case reserve (so_capacity s1) (length (so_buffered s1)) of
        Inl error \<Rightarrow> Inl (Io (OtherIo (''search occurrence allocation failed: '' @ error)))
      | Inr capacity \<Rightarrow> buffer_occurrence capacity ?t occ s1)) (sorter_ready S (xs @ [occ]))"
    if "sorter_ready S xs s1" for s1
  proof (cases "reserve (so_capacity s1) (length (so_buffered s1))")
    case (Inl e)
    have "\<not> S" using S reserve_succeeds [OF that] Inl by fastforce
    with Inl show ?thesis by simp
  next
    case (Inr capacity)
    have "S \<Longrightarrow> capacity * occurrence_size < 2 ^ 63" using S reserve_succeeds [OF that] Inr by fastforce
    with S show ?thesis unfolding Inr sum.case by (intro buffer_occurrence_spec [OF that occ]) auto
  qed
  show ?thesis
    unfolding sorter_push_def Let_def lift_result_try
    by (intro spec_try [OF projected] spec_try [OF flush] buffer)
qed

fun sorter_push_all ::
  "(nat \<Rightarrow> nat \<Rightarrow> string + nat) \<Rightarrow> (string \<Rightarrow> nat) \<Rightarrow> occurrence list \<Rightarrow> sorter \<Rightarrow> sorter result" where
  "sorter_push_all reserve term_capacity [] s = Inr s"
| "sorter_push_all reserve term_capacity (occ # occs) s =
     try_op (sorter_push reserve term_capacity occ s) (sorter_push_all reserve term_capacity occs)"

lemma sorter_push_all_spec:
  assumes "sorter_ready S xs s" and "list_all indexable occs"
    and "S \<Longrightarrow> length xs + length occs < 2 ^ 20 \<and> allocator_ok reserve \<and> (\<forall>occ\<in>set occs. term_capacity (oc_term occ) \<le> 2 ^ 61)"
  shows "spec S (lift_result (sorter_push_all reserve term_capacity occs s)) (sorter_ready S (xs @ occs))"
  using assms
proof (induction occs arbitrary: xs s)
  case (Cons occ occs)
  have "spec S (lift_result (sorter_push reserve term_capacity occ s)) (sorter_ready S (xs @ [occ]))"
    using Cons.prems by (intro sorter_push_spec) auto
  moreover have "spec S (lift_result (sorter_push_all reserve term_capacity occs s1)) (sorter_ready S (xs @ occ # occs))"
    if "sorter_ready S (xs @ [occ]) s1" for s1
    using Cons.IH [OF that] Cons.prems by simp
  ultimately show ?case unfolding sorter_push_all.simps lift_result_try by (rule spec_try)
qed simp

lemma sorter_new_ready:
  "0 < chunk_limit \<Longrightarrow> (S \<Longrightarrow> chunk_limit \<le> 2 ^ 62) \<Longrightarrow> \<exists>s. sorter_new chunk_limit = Inr s \<and> sorter_ready S [] s"
  by (auto simp: sorter_new_def sorter_ready_def sorter_inv_def accounted_def directory_def stored_def
      intro!: exI [of _ "[]"])

lemma directory_single:
  assumes "directory s [path] rs" and "mset (concat rs) = mset xs"
  shows "so_files s = [path \<mapsto> run_file (sort xs)]"
proof -
  from assms(1) obtain r where r: "rs = [r]" "so_files s path = Some (run_file r)" "sorted r"
    and dom: "dom (so_files s) = {path}"
    by (auto simp: directory_def stored_def list_all2_Cons1)
  have "sort xs = r" using r assms(2) by (simp add: properties_for_sort)
  with r(2) dom show ?thesis by (auto simp: fun_eq_iff dom_def)
qed

lemma directory_final:
  assumes dir: "directory s paths rs" and rep: "replaced ''occurrence-final.run'' paths rs s s'"
    and "mset (concat rs) = mset xs"
  shows "so_files s' = [''occurrence-final.run'' \<mapsto> run_file (sort xs)]"
proof -
  have dom: "dom (so_files s) = set paths" and "''occurrence-final.run'' \<notin> set paths"
    using dir old_run_final by (auto simp: directory_def)
  moreover have "sort (concat rs) = sort xs" using assms(3) by (metis properties_for_sort mset_sort sorted_sort)
  ultimately show ?thesis using rep by (auto simp: replaced_def fun_eq_iff dom_def)
qed

lemma merge_fan_in_large: "1 < merge_fan_in n"
  by (simp add: merge_fan_in_def)

lemma sorter_finish_merge:
  assumes inv: "sorter_inv S xs s" and buf: "so_buffered s = []" and ne: "so_runs s \<noteq> []"
    and S: "S \<Longrightarrow> length xs < 2 ^ 20"
  shows "spec S (try_op (merge_levels (length (so_runs s)) (merge_fan_in (so_chunk_limit s)) s) (\<lambda>s3.
        if length (so_runs s3) = 1 then Inr (last (so_runs s3), s3\<lparr>so_runs := butlast (so_runs s3)\<rparr>)
        else
          try_op (merge_into ''occurrence-final.run'' (so_runs s3) s3) (\<lambda>s4.
          Inr (''occurrence-final.run'', s4\<lparr>so_runs := []\<rparr>))))
       (\<lambda>(path, s'). so_files s' = [path \<mapsto> run_file (sort xs)] \<and> so_runs s' = [] \<and> (S \<longrightarrow> so_spill_bytes s' < 2 ^ 60))"
proof -
  let ?n = "length (so_runs s)" and ?fan = "merge_fan_in (so_chunk_limit s)"
  from inv buf obtain rs where rs: "directory s (so_runs s) rs" "mset (concat rs) = mset xs"
    "so_spill_bytes s = weight rs" "list_all (\<lambda>r. r \<noteq> []) rs" by (auto simp: sorter_inv_def)
  have len: "length rs = ?n" using rs(1) by (auto simp: directory_def dest: stored_length)
  have next_run: "so_next_run s = ?n" using inv by (simp add: sorter_inv_def)
  have bounds: "?n * weight rs \<le> length xs * (276 * length xs) \<and> ?n * ?n \<le> length xs * length xs \<and> ?n \<le> length xs
      \<and> weight rs \<le> 276 * length xs"
    using sorter_inv_bounds [OF inv] next_run rs(3) by (auto intro: mult_le_mono)
  have small: "length xs * length xs \<le> 2 ^ 40" if S
    using S [OF that] mult_le_mono [of "length xs" "2 ^ 20" "length xs" "2 ^ 20"] by simp
  have "spec S (merge_levels ?n ?fan s) (levels_ok ?n ?fan s rs)"
    using bounds small S rs(3) next_run len
    by (intro merge_levels_spec merge_fan_in_large rs(1)) (auto simp: max_u64_def)
  then show ?thesis
  proof (rule spec_try)
    fix s3 assume "levels_ok ?n ?fan s rs s3"
    then obtain ms where ms: "directory s3 (so_runs s3) ms" "mset (concat ms) = mset xs" "weight ms \<le> weight rs"
      "so_runs s3 \<noteq> []" "so_spill_bytes s3 \<le> so_spill_bytes s + ?n * weight rs"
      using ne rs(2) by (auto simp: levels_ok_def merged_ok_def)
    have final: "spec S (merge_into ''occurrence-final.run'' (so_runs s3) s3) (replaced ''occurrence-final.run'' (so_runs s3) ms s3)"
      using ms(1,3,4,5) bounds small S rs(3) old_run_final
      by (intro merge_into_spec) (auto simp: directory_def max_u64_def)
    have spill: "so_spill_bytes s3 + weight ms < 2 ^ 60" if S
      using ms(3,5) bounds small [OF that] S [OF that] rs(3) by simp
    show "spec S (if length (so_runs s3) = 1 then Inr (last (so_runs s3), s3\<lparr>so_runs := butlast (so_runs s3)\<rparr>)
        else try_op (merge_into ''occurrence-final.run'' (so_runs s3) s3) (\<lambda>s4.
          Inr (''occurrence-final.run'', s4\<lparr>so_runs := []\<rparr>)))
       (\<lambda>(path, s'). so_files s' = [path \<mapsto> run_file (sort xs)] \<and> so_runs s' = [] \<and> (S \<longrightarrow> so_spill_bytes s' < 2 ^ 60))"
    proof (cases "length (so_runs s3) = 1")
      case True
      then obtain path where "so_runs s3 = [path]" by (auto simp: length_Suc_conv)
      with ms(1,2) directory_single [of s3 path ms xs] spill show ?thesis by auto
    next
      case False
      then show ?thesis using directory_final [OF ms(1) _ ms(2)] spill
        by (auto intro!: spec_try [OF final] simp: replaced_def)
    qed
  qed
qed

lemma sorter_finish_spec:
  assumes ready: "sorter_ready S xs s" and S: "S \<Longrightarrow> length xs < 2 ^ 20"
  shows "spec S (sorter_finish s) (\<lambda>(path, s'). so_files s' = [path \<mapsto> run_file (sort xs)] \<and> so_runs s' = [] \<and> (S \<longrightarrow> so_spill_bytes s' < 2 ^ 60))"
proof -
  have "sorter_inv S xs s" using ready by (simp add: sorter_ready_def)
  note flush = sorter_flush_spec [OF this S]
  show ?thesis
    unfolding sorter_finish_def
  proof (rule spec_try [OF flush])
    fix s1 assume s1: "sorter_inv S xs s1 \<and> so_buffered s1 = [] \<and> (so_buffered s \<noteq> [] \<longrightarrow> so_buffered_term_bytes s1 = 0)
      \<and> so_chunk_limit s1 = so_chunk_limit s \<and> so_capacity s1 = so_capacity s"
    show "spec S (let s2 = if so_runs s1 = []
               then s1\<lparr>so_runs := [''occurrence-empty.run''],
                       so_files := (so_files s1)(''occurrence-empty.run'' \<mapsto> occurrences_magic)\<rparr>
               else s1
     in try_op (merge_levels (length (so_runs s2)) (merge_fan_in (so_chunk_limit s2)) s2) (\<lambda>s3.
        if length (so_runs s3) = 1 then Inr (last (so_runs s3), s3\<lparr>so_runs := butlast (so_runs s3)\<rparr>)
        else try_op (merge_into ''occurrence-final.run'' (so_runs s3) s3) (\<lambda>s4.
          Inr (''occurrence-final.run'', s4\<lparr>so_runs := []\<rparr>))))
       (\<lambda>(path, s'). so_files s' = [path \<mapsto> run_file (sort xs)] \<and> so_runs s' = [] \<and> (S \<longrightarrow> so_spill_bytes s' < 2 ^ 60))"
    proof (cases "so_runs s1 = []")
      case True
      with s1 have "xs = []" "so_files s1 = Map.empty" "so_spill_bytes s1 = 0"
        by (auto simp: sorter_inv_def directory_def dest: stored_length)
      moreover have "1 \<le> merge_fan_in (so_chunk_limit s1)" using merge_fan_in_large by (rule less_imp_le)
      ultimately show ?thesis using True by (simp add: Let_def merge_levels.simps)
    next
      case False
      with s1 sorter_finish_merge [of S xs s1] S show ?thesis by (simp add: Let_def)
    qed
  qed
qed

text \<open>
  C33. The external sort sorts: whatever the chunk limit, and whenever runs are cut and merged, the
  sorter accepts the occurrences and finishes with a single file in its directory, and that file
  reads back as the sorted list of exactly the occurrences that were pushed.
\<close>

theorem sorter_sorts:
  assumes "list_all indexable occs" and "0 < chunk_limit" and "chunk_limit \<le> 2 ^ 62" and "length occs < 2 ^ 20"
    and "allocator_ok reserve" and "\<forall>occ\<in>set occs. term_capacity (oc_term occ) \<le> 2 ^ 61"
  shows "\<exists>s0 s path s' bytes reader.
     sorter_new chunk_limit = Inr s0
     \<and> sorter_push_all reserve term_capacity occs s0 = Inr s
     \<and> sorter_finish s = Inr (path, s')
     \<and> so_files s' = [path \<mapsto> bytes]
     \<and> open_occurrences bytes = Inr reader
     \<and> read_all next_occurrence (Suc (length reader)) reader = Inr (sort occs)"
proof -
  obtain s0 where s0: "sorter_new chunk_limit = Inr s0" "sorter_ready True [] s0"
    using sorter_new_ready [of chunk_limit True] assms by blast
  have "spec True (lift_result (sorter_push_all reserve term_capacity occs s0)) (sorter_ready True ([] @ occs))"
    using assms by (intro sorter_push_all_spec [OF s0(2)]) auto
  then obtain s where s: "sorter_push_all reserve term_capacity occs s0 = Inr s" "sorter_ready True occs s"
    by (cases "sorter_push_all reserve term_capacity occs s0") auto
  from sorter_finish_spec [OF s(2)] assms(4) obtain path s' where
    fin: "sorter_finish s = Inr (path, s')" "so_files s' = [path \<mapsto> run_file (sort occs)]"
    by (auto simp: spec_True_iff)
  let ?reader = "concat (map occurrence_bytes (sort occs))"
  have idx: "list_all indexable (sort occs)" using assms(1) by (simp add: list_all_iff)
  have "open_occurrences (run_file (sort occs)) = Inr ?reader" by (simp add: open_occurrences_def)
  moreover have "read_all next_occurrence (Suc (length ?reader)) ?reader = Inr (sort occs)"
    using occ.length_records [OF idx] by (intro occ.read_all_records [OF idx]) simp
  ultimately show ?thesis using s0(1) s(1) fin by blast
qed

definition sample_occurrences :: "occurrence list" where
  "sample_occurrences = [Occurrence ''map'' 1, Occurrence ''fold'' 0, Occurrence ''map'' 0, Occurrence ''fold'' 0]"

definition exact_reserve :: "nat \<Rightarrow> nat \<Rightarrow> string + nat" where
  "exact_reserve capacity len = Inr (if len < capacity then capacity else len + 1)"

lemma exact_reserve_ok: "allocator_ok exact_reserve"
  by (auto simp: allocator_ok_def exact_reserve_def occurrence_size_def)

lemma sample_indexable: "list_all indexable sample_occurrences"
  by code_simp

theorem sorter_sorts_witness:
  "allocator_ok exact_reserve \<and> (\<exists>s0 s path s' bytes reader.
     sorter_new 64 = Inr s0
     \<and> sorter_push_all exact_reserve length sample_occurrences s0 = Inr s
     \<and> sorter_finish s = Inr (path, s')
     \<and> so_files s' = [path \<mapsto> bytes]
     \<and> open_occurrences bytes = Inr reader
     \<and> read_all next_occurrence (Suc (length reader)) reader = Inr (sort sample_occurrences))"
  using sorter_sorts [OF sample_indexable, of 64 exact_reserve length] exact_reserve_ok
  by (simp add: sample_occurrences_def)

end
