(* ===== verification/IndexWriter.thy ===== *)
theory IndexWriter
  imports Occurrences
begin

text \<open>
  From sorted occurrences to the lexicon and the postings (\<open>write_final_index\<close> of
  \<^verbatim>\<open>src/search_index/build.rs\<close>, the records of \<^verbatim>\<open>src/search_index/model.rs\<close> and their codecs in
  \<^verbatim>\<open>src/search_index/io.rs\<close>). The specification is the table \<open>index_of\<close>: the distinct terms in
  order, each with its documents in order and the number of occurrences in each.
\<close>

section \<open>Lexicon entries and postings\<close>

record lexicon_entry =
  le_term :: string
  le_postings_offset :: u64
  le_document_frequency :: u32

definition lexicon_magic :: string where
  "lexicon_magic = ''CBGLX001''"

definition postings_magic :: string where
  "postings_magic = ''CBGPS001''"

definition posting_bytes :: nat where
  "posting_bytes = 12"

definition lexicon_entry_bytes :: "lexicon_entry \<Rightarrow> string" where
  "lexicon_entry_bytes entry =
     write_u32 (word_of_nat (length (le_term entry))) @ le_term entry
       @ write_u64 (le_postings_offset entry) @ write_u32 (le_document_frequency entry)"

definition write_lexicon_entry :: "lexicon_entry \<Rightarrow> string result" where
  "write_lexicon_entry entry =
     (if length (le_term entry) < 2 ^ 32 then Inr (lexicon_entry_bytes entry)
      else Inl (InvalidInput ''search lexicon term length exceeds u32''))"

definition read_lexicon_entry :: "nat \<Rightarrow> string \<Rightarrow> (lexicon_entry \<times> string) option result" where
  "read_lexicon_entry max_bytes reader =
     try_op (read_optional_u32 reader) (\<lambda>item.
     case item of
       None \<Rightarrow> Inr None
     | Some (length_word, reader1) \<Rightarrow>
         let length_value = unat length_word in
         if length_value > max_bytes
         then Inl (InvalidInput (''search lexicon term exceeds limit: '' @ string_of_nat length_value
                @ '' > '' @ string_of_nat max_bytes))
         else
           try_op (read_exact length_value reader1) (\<lambda>(bytes, reader2).
           case utf8_error 0 bytes of
             Some error \<Rightarrow> Inl (InvalidInput (''invalid UTF-8 search term: '' @ utf8_error_message error))
           | None \<Rightarrow>
               try_op (read_u64 reader2) (\<lambda>(postings_offset, reader3).
               try_op (read_u32 reader3) (\<lambda>(document_frequency, reader4).
               Inr (Some (\<lparr>le_term = bytes, le_postings_offset = postings_offset,
                           le_document_frequency = document_frequency\<rparr>, reader4))))))"

definition write_posting :: "u64 \<Rightarrow> u32 \<Rightarrow> string" where
  "write_posting document_id term_frequency = write_u64 document_id @ write_u32 term_frequency"

section \<open>The final pass\<close>

record final_state =
  fs_current_term :: "string option"
  fs_current_document :: u64
  fs_term_frequency :: u32
  fs_document_frequency :: u32
  fs_postings_offset :: u64
  fs_term_count :: u64
  fs_lexicon :: string
  fs_postings :: string

definition final_start :: final_state where
  "final_start =
     \<lparr>fs_current_term = None, fs_current_document = 0, fs_term_frequency = 0, fs_document_frequency = 0,
      fs_postings_offset = word_of_nat (length postings_magic), fs_term_count = 0,
      fs_lexicon = lexicon_magic, fs_postings = postings_magic\<rparr>"

definition close_posting :: "final_state \<Rightarrow> final_state result" where
  "close_posting st =
     (let st1 = st\<lparr>fs_postings := fs_postings st @ write_posting (fs_current_document st) (fs_term_frequency st)\<rparr>
      in try_op (or_invalid ''search document frequency overflow'' (checked_add (fs_document_frequency st1) 1))
           (\<lambda>document_frequency. Inr (st1\<lparr>fs_document_frequency := document_frequency\<rparr>)))"

definition close_term :: "string \<Rightarrow> final_state \<Rightarrow> final_state result" where
  "close_term term st =
     try_op (write_lexicon_entry \<lparr>le_term = term, le_postings_offset = fs_postings_offset st,
                                  le_document_frequency = fs_document_frequency st\<rparr>) (\<lambda>bytes.
     let st1 = st\<lparr>fs_lexicon := fs_lexicon st @ bytes\<rparr> in
     try_op (or_invalid ''search term count overflow'' (checked_add (fs_term_count st1) 1)) (\<lambda>term_count.
     Inr (st1\<lparr>fs_term_count := term_count\<rparr>)))"

definition final_step :: "occurrence \<Rightarrow> final_state \<Rightarrow> final_state result" where
  "final_step occ st =
     (case fs_current_term st of
        None \<Rightarrow>
          Inr (st\<lparr>fs_current_term := Some (oc_term occ), fs_current_document := oc_document occ,
                  fs_term_frequency := 1\<rparr>)
      | Some term \<Rightarrow>
          if term = oc_term occ \<and> fs_current_document st = oc_document occ then
            try_op (or_invalid ''search term frequency overflow'' (checked_add (fs_term_frequency st) 1))
              (\<lambda>term_frequency. Inr (st\<lparr>fs_term_frequency := term_frequency\<rparr>))
          else if term = oc_term occ then
            try_op (close_posting st) (\<lambda>st1.
            Inr (st1\<lparr>fs_current_document := oc_document occ, fs_term_frequency := 1\<rparr>))
          else
            try_op (close_posting st) (\<lambda>st1.
            try_op (close_term term st1) (\<lambda>st2.
            try_op (or_invalid ''search postings offset overflow''
                      (checked_add (fs_postings_offset st2)
                        (word_of_nat (unat (fs_document_frequency st2) * posting_bytes)))) (\<lambda>postings_offset.
            Inr (st2\<lparr>fs_postings_offset := postings_offset, fs_current_term := Some (oc_term occ),
                     fs_current_document := oc_document occ, fs_term_frequency := 1,
                     fs_document_frequency := 0\<rparr>)))))"

definition final_close :: "final_state \<Rightarrow> final_state result" where
  "final_close st =
     (case fs_current_term st of
        None \<Rightarrow> Inr st
      | Some term \<Rightarrow> try_op (close_posting st) (close_term term))"

fun final_loop :: "nat \<Rightarrow> string \<Rightarrow> final_state \<Rightarrow> final_state run" where
  "final_loop 0 reader st = Inl Diverged"
| "final_loop (Suc fuel) reader st =
     try_op (lift_result (next_occurrence reader)) (\<lambda>item.
     case item of
       None \<Rightarrow> Inr st
     | Some (occ, reader1) \<Rightarrow> try_op (lift_result (final_step occ st)) (final_loop fuel reader1))"

record final_index =
  fx_lexicon :: string
  fx_postings :: string
  fx_term_count :: u64
  fx_bytes :: nat

definition write_final_index :: "string \<Rightarrow> final_index run" where
  "write_final_index occurrences =
     try_op (lift_result (open_occurrences occurrences)) (\<lambda>reader.
     try_op (final_loop (Suc (length reader)) reader final_start) (\<lambda>st.
     try_op (lift_result (final_close st)) (\<lambda>st1.
     try_op (lift_result (or_invalid ''search index size overflow''
               (add_u64 (length (fs_lexicon st1)) (length (fs_postings st1))))) (\<lambda>bytes.
     Inr \<lparr>fx_lexicon = fs_lexicon st1, fx_postings = fs_postings st1, fx_term_count = fs_term_count st1,
          fx_bytes = bytes\<rparr>))))"

section \<open>The table of an index\<close>

type_synonym index_table = "(string \<times> (u64 \<times> nat) list) list"

definition index_add :: "index_table \<Rightarrow> occurrence \<Rightarrow> index_table" where
  "index_add idx occ =
     (if idx = [] \<or> fst (last idx) \<noteq> oc_term occ then idx @ [(oc_term occ, [(oc_document occ, 1)])]
      else
        let (t, ps) = last idx in
        if ps \<noteq> [] \<and> fst (last ps) = oc_document occ
        then butlast idx @ [(t, butlast ps @ [(fst (last ps), snd (last ps) + 1)])]
        else butlast idx @ [(t, ps @ [(oc_document occ, 1)])])"

definition index_of :: "occurrence list \<Rightarrow> index_table" where
  "index_of occs = foldl index_add [] occs"

lemma index_of_snoc: "index_of (occs @ [occ]) = index_add (index_of occs) occ"
  by (simp add: index_of_def)

lemma index_of_Nil [simp]: "index_of [] = []"
  by (simp add: index_of_def)

text \<open>How often \<open>d\<close> is listed under \<open>t\<close>.\<close>

definition table_frequency :: "index_table \<Rightarrow> string \<Rightarrow> u64 \<Rightarrow> nat" where
  "table_frequency idx t d =
     (case map_of idx t of None \<Rightarrow> 0 | Some ps \<Rightarrow> (case map_of ps d of None \<Rightarrow> 0 | Some n \<Rightarrow> n))"

section \<open>Facts: the table of sorted occurrences\<close>

lemma map_of_snoc: "k \<notin> fst ` set xs \<Longrightarrow> [k \<mapsto> v] ++ map_of xs = (map_of xs)(k \<mapsto> v)"
proof -
  assume "k \<notin> fst ` set xs"
  then have "map_of xs k = None" by (simp add: map_of_eq_None_iff)
  then show ?thesis by (auto simp: map_add_def fun_eq_iff split: option.splits)
qed

text \<open>A table split at the entry under construction.\<close>

lemma index_add_same:
  "index_add (front @ [(t, ps @ [(d, n)])]) (Occurrence t d) = front @ [(t, ps @ [(d, n + 1)])]"
  by (simp add: index_add_def)

lemma index_add_document:
  "d \<noteq> d' \<Longrightarrow> index_add (front @ [(t, ps @ [(d, n)])]) (Occurrence t d') = front @ [(t, (ps @ [(d, n)]) @ [(d', 1)])]"
  by (simp add: index_add_def)

lemma index_add_term:
  "t \<noteq> t' \<Longrightarrow> index_add (front @ [(t, qs)]) (Occurrence t' d) = (front @ [(t, qs)]) @ [(t', [] @ [(d, 1)])]"
  by (simp add: index_add_def)

lemma index_add_first: "index_add [] (Occurrence t d) = [] @ [(t, [] @ [(d, 1)])]"
  by (simp add: index_add_def)

definition ordered_postings :: "(u64 \<times> nat) list \<Rightarrow> bool" where
  "ordered_postings ps \<longleftrightarrow> sorted_wrt (<) (map fst ps) \<and> (\<forall>(d, n)\<in>set ps. 0 < n)"

definition ordered_table :: "index_table \<Rightarrow> bool" where
  "ordered_table idx \<longleftrightarrow> sorted_wrt (<) (map fst idx) \<and> (\<forall>(t, ps)\<in>set idx. ps \<noteq> [] \<and> ordered_postings ps)"

lemma ordered_postings_snoc:
  "ordered_postings (ps @ [(d, n)]) \<longleftrightarrow> ordered_postings ps \<and> (\<forall>d'\<in>fst ` set ps. d' < d) \<and> 0 < n"
  by (auto simp: ordered_postings_def sorted_wrt_append)

lemma ordered_table_snoc:
  "ordered_table (idx @ [(t, ps)]) \<longleftrightarrow>
     ordered_table idx \<and> (\<forall>t'\<in>fst ` set idx. t' < t) \<and> ps \<noteq> [] \<and> ordered_postings ps"
  by (auto simp: ordered_table_def sorted_wrt_append)

lemma ordered_postings_Nil [simp]: "ordered_postings []"
  by (simp add: ordered_postings_def)

lemma ordered_table_Nil [simp]: "ordered_table []"
  by (simp add: ordered_table_def)

lemma table_frequency_snoc:
  assumes "t \<notin> fst ` set idx"
  shows "table_frequency (idx @ [(t, ps)]) t' d =
           (if t' = t then (case map_of ps d of None \<Rightarrow> 0 | Some n \<Rightarrow> n) else table_frequency idx t' d)"
  by (simp add: table_frequency_def map_of_snoc [OF assms])

lemma table_frequency_absent: "t \<notin> fst ` set idx \<Longrightarrow> table_frequency idx t d = 0"
  by (simp add: table_frequency_def map_of_eq_None_iff [THEN iffD2])

text \<open>An entry grows at its end: the last count, a later document, or a later term.\<close>

definition counts_one_more :: "occurrence \<Rightarrow> index_table \<Rightarrow> index_table \<Rightarrow> bool" where
  "counts_one_more occ idx idx' \<longleftrightarrow>
     (\<forall>t d. table_frequency idx' t d = table_frequency idx t d + (if occ = Occurrence t d then 1 else 0))"

lemma ordered_split:
  assumes "ordered_table (front @ [(t, ps @ [(d, n)])])"
  shows "ordered_table front" "\<forall>x\<in>fst ` set front. x < t" "ordered_postings ps" "\<forall>x\<in>fst ` set ps. x < d" "0 < n"
    "t \<notin> fst ` set front" "d \<notin> fst ` set ps"
  using assms by (simp_all add: ordered_table_snoc ordered_postings_snoc) blast+

lemma add_same:
  assumes ord: "ordered_table (front @ [(t, ps @ [(d, n)])])"
  shows "ordered_table (front @ [(t, ps @ [(d, n + 1)])])"
    and "counts_one_more (Occurrence t d) (front @ [(t, ps @ [(d, n)])]) (front @ [(t, ps @ [(d, n + 1)])])"
  using ordered_split [OF ord]
  by (simp_all add: ordered_table_snoc ordered_postings_snoc counts_one_more_def table_frequency_snoc map_of_snoc)

lemma add_document:
  assumes ord: "ordered_table (front @ [(t, ps @ [(d, n)])])" and lt: "d < d'"
  shows "ordered_table (front @ [(t, (ps @ [(d, n)]) @ [(d', 1)])])"
    and "counts_one_more (Occurrence t d') (front @ [(t, ps @ [(d, n)])]) (front @ [(t, (ps @ [(d, n)]) @ [(d', 1)])])"
proof -
  note parts = ordered_split [OF ord]
  have before: "\<forall>x\<in>fst ` set (ps @ [(d, n)]). x < d'" using parts(4) lt by auto
  then have fresh: "d' \<notin> fst ` set (ps @ [(d, n)])" by auto
  have "ordered_postings ((ps @ [(d, n)]) @ [(d', 1)])"
    using ord before unfolding ordered_postings_snoc [of "ps @ [(d, n)]"] by (simp add: ordered_table_snoc)
  then show "ordered_table (front @ [(t, (ps @ [(d, n)]) @ [(d', 1)])])"
    using parts(1,2) unfolding ordered_table_snoc by simp
  have "map_of ((ps @ [(d, n)]) @ [(d', 1)]) = (map_of (ps @ [(d, n)]))(d' \<mapsto> 1)"
    using map_of_snoc [OF fresh] by (simp only: map_of_append map_of.simps fst_conv snd_conv)
  moreover have "map_of (ps @ [(d, n)]) d' = None" using fresh by (simp only: map_of_eq_None_iff) simp
  ultimately show "counts_one_more (Occurrence t d') (front @ [(t, ps @ [(d, n)])]) (front @ [(t, (ps @ [(d, n)]) @ [(d', 1)])])"
    by (simp add: counts_one_more_def table_frequency_snoc [OF parts(6)] del: map_of_append append_assoc)
qed

lemma add_term:
  assumes ord: "ordered_table (front @ [(t, qs)])" and lt: "t < t'"
  shows "ordered_table ((front @ [(t, qs)]) @ [(t', [] @ [(d, 1)])])"
    and "counts_one_more (Occurrence t' d) (front @ [(t, qs)]) ((front @ [(t, qs)]) @ [(t', [] @ [(d, 1)])])"
proof -
  have before: "\<forall>x\<in>fst ` set (front @ [(t, qs)]). x < t'" using ord lt by (auto simp: ordered_table_snoc)
  then have fresh: "t' \<notin> fst ` set (front @ [(t, qs)])" by auto
  show "ordered_table ((front @ [(t, qs)]) @ [(t', [] @ [(d, 1)])])"
    unfolding ordered_table_snoc [of "front @ [(t, qs)]"] using ord before by (simp add: ordered_postings_def)
  show "counts_one_more (Occurrence t' d) (front @ [(t, qs)]) ((front @ [(t, qs)]) @ [(t', [] @ [(d, 1)])])"
    unfolding counts_one_more_def table_frequency_snoc [OF fresh]
    using table_frequency_absent [OF fresh] by simp
qed

text \<open>
  After the occurrences of a sorted list the table ends with the entry of the last of them, is
  strictly ordered, and counts every occurrence.
\<close>

lemma index_of_sorted:
  assumes "sorted occs" and "occs \<noteq> []"
  shows "\<exists>front ps n. index_of occs = front @ [(oc_term (last occs), ps @ [(oc_document (last occs), n)])]
           \<and> ordered_table (index_of occs)
           \<and> (\<forall>t d. table_frequency (index_of occs) t d = count_list occs (Occurrence t d))"
  using assms
proof (induction occs rule: rev_induct)
  case (snoc occ occs)
  obtain t' d' where occ: "occ = Occurrence t' d'" by (cases occ)
  show ?case
  proof (cases "occs = []")
    case True
    then have "index_of (occs @ [occ]) = [] @ [(t', [] @ [(d', 1)])]"
      by (simp add: occ index_of_def index_add_def)
    with True show ?thesis
      by (auto simp: occ ordered_table_def ordered_postings_def table_frequency_def)
  next
    case False
    obtain t d where lst: "last occs = Occurrence t d" by (cases "last occs")
    from snoc False obtain front ps n where idx: "index_of occs = front @ [(t, ps @ [(d, n)])]"
      and ord: "ordered_table (front @ [(t, ps @ [(d, n)])])"
      and cnt: "\<And>t d. table_frequency (index_of occs) t d = count_list occs (Occurrence t d)"
      by (auto simp: lst sorted_append)
    have "last occs \<le> occ" using snoc.prems(1) False by (simp add: sorted_append)
    then have "t < t' \<or> t = t' \<and> d \<le> d'" by (auto simp: lst occ less_eq_occurrence_def less_le)
    then consider "t' = t" "d' = d" | "t' = t" "d < d'" | "t < t'" by fastforce
    then obtain front' ps' n' where new: "index_add (index_of occs) occ = front' @ [(t', ps' @ [(d', n')])]"
      and ord': "ordered_table (front' @ [(t', ps' @ [(d', n')])])"
      and more: "counts_one_more occ (index_of occs) (front' @ [(t', ps' @ [(d', n')])])"
    proof cases
      case 1
      then show thesis using that add_same [OF ord] index_add_same [of front t ps d n] by (simp add: idx occ)
    next
      case 2
      then have "d \<noteq> d'" by auto
      from index_add_document [OF this] 2 show thesis
        using that [of front "ps @ [(d, n)]" 1] add_document [OF ord 2(2)] by (simp add: idx occ)
    next
      case 3
      then have "t \<noteq> t'" by auto
      from index_add_term [OF this] show thesis
        using that [of "front @ [(t, ps @ [(d, n)])]" "[]" 1] add_term [OF ord 3] by (simp add: idx occ)
    qed
    have "table_frequency (front' @ [(t', ps' @ [(d', n')])]) x y = count_list (occs @ [occ]) (Occurrence x y)" for x y
      using more cnt [of x y] by (simp add: counts_one_more_def)
    then show ?thesis unfolding index_of_snoc new last_snoc using ord' by (auto simp: occ)
  qed
qed simp

section \<open>Facts: the final pass writes the table\<close>

fun lexicon_of :: "nat \<Rightarrow> index_table \<Rightarrow> lexicon_entry list" where
  "lexicon_of offset [] = []"
| "lexicon_of offset ((t, ps) # idx) =
     \<lparr>le_term = t, le_postings_offset = word_of_nat offset, le_document_frequency = word_of_nat (length ps)\<rparr>
       # lexicon_of (offset + posting_bytes * length ps) idx"

definition postings_file :: "(u64 \<times> nat) list \<Rightarrow> string" where
  "postings_file ps = concat (map (\<lambda>(d, n). write_posting d (word_of_nat n)) ps)"

definition table_postings :: "index_table \<Rightarrow> (u64 \<times> nat) list" where
  "table_postings idx = concat (map snd idx)"

lemma lexicon_of_append:
  "lexicon_of offset (idx @ idx') =
     lexicon_of offset idx @ lexicon_of (offset + posting_bytes * length (table_postings idx)) idx'"
  by (induction offset idx rule: lexicon_of.induct) (simp_all add: table_postings_def algebra_simps)

lemma postings_file_append [simp]: "postings_file (ps @ qs) = postings_file ps @ postings_file qs"
  by (simp add: postings_file_def)

lemma table_postings_append [simp]: "table_postings (idx @ idx') = table_postings idx @ table_postings idx'"
  by (simp add: table_postings_def)

lemma table_postings_simps [simp]:
  "table_postings [] = []" "table_postings ((t, ps) # idx) = ps @ table_postings idx"
  by (simp_all add: table_postings_def)

lemma length_postings_file: "length (postings_file ps) = posting_bytes * length ps"
  by (induction ps) (auto simp: postings_file_def write_posting_def posting_bytes_def)

definition entry_ok :: "lexicon_entry \<Rightarrow> bool" where
  "entry_ok entry \<longleftrightarrow> length (le_term entry) \<le> max_term_bytes \<and> utf8_valid (le_term entry)"

text \<open>The state of the pass while the last posting of the last entry is still open.\<close>

definition pass_state :: "index_table \<Rightarrow> string \<Rightarrow> (u64 \<times> nat) list \<Rightarrow> u64 \<Rightarrow> nat \<Rightarrow> final_state \<Rightarrow> bool" where
  "pass_state front t ps d n st \<longleftrightarrow>
     fs_current_term st = Some t \<and> fs_current_document st = d \<and> unat (fs_term_frequency st) = n
     \<and> unat (fs_document_frequency st) = length ps
     \<and> unat (fs_postings_offset st) = 8 + posting_bytes * length (table_postings front)
     \<and> unat (fs_term_count st) = length front
     \<and> fs_lexicon st = lexicon_magic @ concat (map lexicon_entry_bytes (lexicon_of 8 front))
     \<and> fs_postings st = postings_magic @ postings_file (table_postings front @ ps)"

text \<open>The sizes that keep every counter of the pass within its width.\<close>

definition small_table :: "nat \<Rightarrow> index_table \<Rightarrow> bool" where
  "small_table k idx \<longleftrightarrow>
     length idx \<le> k \<and> length (table_postings idx) \<le> k \<and> (\<forall>(t, ps)\<in>set idx. length t \<le> max_term_bytes)
     \<and> (\<forall>(d, n)\<in>set (table_postings idx). n \<le> k)"

lemma small_index_add:
  assumes "small_table k idx" and "length (oc_term occ) \<le> max_term_bytes"
  shows "small_table (k + 1) (index_add idx occ)"
proof (cases idx rule: rev_cases)
  case Nil
  with assms(2) show ?thesis by (auto simp: index_add_def small_table_def table_postings_def)
next
  case (snoc front entry)
  obtain t qs where entry: "entry = (t, qs)" by (cases entry)
  show ?thesis
  proof (cases qs rule: rev_cases)
    case Nil
    with assms show ?thesis by (auto simp: snoc entry index_add_def small_table_def case_prod_beta)
  next
    case (snoc ps p)
    obtain d n where "p = (d, n)" by (cases p)
    with assms snoc \<open>idx = front @ [entry]\<close> show ?thesis
      by (auto simp: entry index_add_def small_table_def case_prod_beta) (metis UnI1 UnI2 le_SucI snd_conv)+
  qed
qed

lemma small_index_of:
  "list_all indexable occs \<Longrightarrow> small_table (length occs) (index_of occs)"
proof (induction occs rule: rev_induct)
  case Nil
  then show ?case by (simp add: small_table_def table_postings_def)
next
  case (snoc occ occs)
  then show ?case using small_index_add [of "length occs" "index_of occs" occ]
    by (simp add: index_of_snoc indexable_def)
qed

lemma unat_word_of_nat: "n < 2 ^ LENGTH('a) \<Longrightarrow> unat (word_of_nat n :: 'a::len word) = n"
  by (simp add: unat_of_nat take_bit_nat_eq_self)

lemma unat_add_one: "unat w = n \<Longrightarrow> n + 1 < 2 ^ LENGTH('a) \<Longrightarrow> \<exists>w'. checked_add w 1 = Some w' \<and> unat w' = n + 1"
  for w :: "'a::len word"
proof -
  assume a: "unat w = n" "n + 1 < 2 ^ LENGTH('a)"
  have "unat (1 :: 'a word) = 1" by simp
  with a have "checked_add w 1 = Some (w + 1)" by (simp add: checked_add_def)
  with a show ?thesis by (metis checked_add_Some \<open>unat (1 :: 'a word) = 1\<close>)
qed

lemma close_posting_pass:
  assumes st: "pass_state front t ps d n st" and small: "length ps + 1 < 2 ^ 32"
  shows "\<exists>st'. close_posting st = Inr st' \<and> unat (fs_document_frequency st') = length ps + 1
     \<and> fs_postings st' = postings_magic @ postings_file (table_postings front @ ps @ [(d, n)])
     \<and> fs_lexicon st' = fs_lexicon st \<and> fs_postings_offset st' = fs_postings_offset st
     \<and> fs_term_count st' = fs_term_count st \<and> fs_current_term st' = fs_current_term st"
proof -
  have "word_of_nat n = fs_term_frequency st" using st by (auto simp: pass_state_def)
  moreover obtain w where "checked_add (fs_document_frequency st) 1 = Some w" "unat w = length ps + 1"
    using unat_add_one [of "fs_document_frequency st" "length ps"] st small by (auto simp: pass_state_def)
  ultimately show ?thesis using st by (simp add: close_posting_def pass_state_def postings_file_def)
qed

lemma close_term_pass:
  assumes st: "fs_lexicon st = lexicon_magic @ concat (map lexicon_entry_bytes (lexicon_of 8 front))"
    "unat (fs_postings_offset st) = 8 + posting_bytes * length (table_postings front)"
    "unat (fs_document_frequency st) = length qs" "unat (fs_term_count st) = length front"
    and small: "length t \<le> max_term_bytes" "length front + 1 < 2 ^ 64"
  shows "\<exists>st'. close_term t st = Inr st' \<and> unat (fs_term_count st') = length front + 1
     \<and> fs_lexicon st' = lexicon_magic @ concat (map lexicon_entry_bytes (lexicon_of 8 (front @ [(t, qs)])))
     \<and> fs_postings st' = fs_postings st \<and> fs_postings_offset st' = fs_postings_offset st
     \<and> fs_document_frequency st' = fs_document_frequency st"
proof -
  have "word_of_nat (8 + posting_bytes * length (table_postings front)) = fs_postings_offset st"
    "word_of_nat (length qs) = fs_document_frequency st"
    by (simp_all flip: st(2,3))
  moreover obtain w where "checked_add (fs_term_count st) 1 = Some w" "unat w = length front + 1"
    using unat_add_one [of "fs_term_count st" "length front"] st(4) small(2) by auto
  ultimately show ?thesis
    using st(1) small(1) by (simp add: close_term_def write_lexicon_entry_def lexicon_of_append max_term_bytes_def)
qed

lemma final_step_first:
  "final_step (Occurrence t d) final_start = Inr st \<Longrightarrow> pass_state [] t [] d 1 st"
  by (auto simp: final_step_def final_start_def pass_state_def postings_magic_def postings_file_def)

text \<open>Closing the current entry and opening the next one.\<close>

lemma final_step_term:
  assumes st: "pass_state front t ps d n st" and t: "t \<noteq> t'" and small: "small_table k (front @ [(t, ps @ [(d, n)])])" "k < 2 ^ 20"
  shows "\<exists>st'. final_step (Occurrence t' d') st = Inr st' \<and> pass_state (front @ [(t, ps @ [(d, n)])]) t' [] d' 1 st'"
proof -
  have sizes: "length ps + 1 < 2 ^ 20" "length front + 1 < 2 ^ 20" "length t \<le> max_term_bytes"
    "length (table_postings front) + length ps + 1 < 2 ^ 20"
    using small by (auto simp: small_table_def)
  obtain st1 where st1: "close_posting st = Inr st1" "unat (fs_document_frequency st1) = length (ps @ [(d, n)])"
    "fs_postings st1 = postings_magic @ postings_file (table_postings front @ ps @ [(d, n)])"
    "fs_lexicon st1 = fs_lexicon st" "fs_postings_offset st1 = fs_postings_offset st" "fs_term_count st1 = fs_term_count st"
    using close_posting_pass [OF st] sizes(1) by auto
  obtain st2 where st2: "close_term t st1 = Inr st2" "unat (fs_term_count st2) = length front + 1"
    "fs_lexicon st2 = lexicon_magic @ concat (map lexicon_entry_bytes (lexicon_of 8 (front @ [(t, ps @ [(d, n)])])))"
    "fs_postings st2 = fs_postings st1" "fs_postings_offset st2 = fs_postings_offset st1"
    "fs_document_frequency st2 = fs_document_frequency st1"
    using close_term_pass [of st1 front "ps @ [(d, n)]" t] st st1 sizes(2,3) by (auto simp: pass_state_def)
  let ?step = "word_of_nat (unat (fs_document_frequency st2) * posting_bytes) :: u64"
  have step: "unat ?step = (length ps + 1) * posting_bytes"
    using st1(2) st2(6) sizes(1) by (subst unat_word_of_nat) (auto simp: posting_bytes_def)
  have offset: "unat (fs_postings_offset st2) = 8 + posting_bytes * length (table_postings front)"
    using st st1(5) st2(5) by (simp add: pass_state_def)
  have "unat (fs_postings_offset st2) + unat ?step < 2 ^ 64"
    using sizes(4) unfolding step offset by (simp add: posting_bytes_def)
  then obtain w where add: "checked_add (fs_postings_offset st2) ?step = Some w" by (auto simp: checked_add_def)
  then have "unat w = unat (fs_postings_offset st2) + unat ?step" by (simp only: checked_add_Some)
  then have "unat w = 8 + posting_bytes * length (table_postings (front @ [(t, ps @ [(d, n)])]))"
    unfolding step offset by (simp add: algebra_simps)
  have "fs_current_term st = Some t" using st by (simp add: pass_state_def)
  with t st1(1) st2(1) add have "final_step (Occurrence t' d') st =
      Inr (st2\<lparr>fs_postings_offset := w, fs_current_term := Some t', fs_current_document := d',
                fs_term_frequency := 1, fs_document_frequency := 0\<rparr>)"
    by (simp add: final_step_def)
  with st1(3) st2(2-4) \<open>unat w = 8 + _\<close> show ?thesis by (simp add: pass_state_def)
qed

lemma final_step_pass:
  assumes st: "pass_state front t ps d n st" and small: "small_table k (front @ [(t, ps @ [(d, n)])])" "k < 2 ^ 20"
  shows "\<exists>st' front' ps' n'. final_step (Occurrence t' d') st = Inr st' \<and> pass_state front' t' ps' d' n' st'
     \<and> index_add (front @ [(t, ps @ [(d, n)])]) (Occurrence t' d') = front' @ [(t', ps' @ [(d', n')])]"
proof -
  consider "t' = t" "d' = d" | "t' = t" "d' \<noteq> d" | "t' \<noteq> t" by blast
  then show ?thesis
  proof cases
    case 1
    have "n + 1 < 2 ^ 32" using small by (auto simp: small_table_def)
    then obtain w where "checked_add (fs_term_frequency st) 1 = Some w" "unat w = n + 1"
      using unat_add_one [of "fs_term_frequency st" n] st by (auto simp: pass_state_def)
    then have "\<exists>st'. final_step (Occurrence t' d') st = Inr st' \<and> pass_state front t ps d (n + 1) st'"
      using 1 st by (auto simp: final_step_def pass_state_def)
    with 1 index_add_same [of front t ps d n] show ?thesis by blast
  next
    case 2
    have "length ps + 1 < 2 ^ 32" using small by (auto simp: small_table_def)
    with close_posting_pass [OF st] have "\<exists>st'. final_step (Occurrence t' d') st = Inr st' \<and> pass_state front t (ps @ [(d, n)]) d' 1 st'"
      using 2 st by (auto simp: final_step_def pass_state_def)
    moreover have "d \<noteq> d'" using 2(2) by blast
    ultimately show ?thesis using 2(1) index_add_document [of d d' front t ps n] by blast
  next
    case 3
    then have "t \<noteq> t'" by blast
    from final_step_term [OF st this small] index_add_term [OF this, of front "ps @ [(d, n)]" d']
    show ?thesis by blast
  qed
qed

definition passed :: "occurrence list \<Rightarrow> final_state \<Rightarrow> bool" where
  "passed occs st \<longleftrightarrow>
     (if occs = [] then st = final_start
      else \<exists>front t ps d n. index_of occs = front @ [(t, ps @ [(d, n)])] \<and> pass_state front t ps d n st)"

lemma final_step_passed:
  assumes "passed occs st" and "list_all indexable occs" and "length occs < 2 ^ 20"
  shows "\<exists>st'. final_step occ st = Inr st' \<and> passed (occs @ [occ]) st'"
proof (cases "occs = []")
  case True
  obtain t d where occ: "occ = Occurrence t d" by (cases occ)
  have "\<exists>st'. final_step occ final_start = Inr st'" by (simp add: final_step_def final_start_def)
  with True assms(1) final_step_first [of t d] show ?thesis
    by (auto simp: passed_def occ index_of_def index_add_first)
next
  case False
  obtain t' d' where occ: "occ = Occurrence t' d'" by (cases occ)
  from False assms(1) obtain front t ps d n where idx: "index_of occs = front @ [(t, ps @ [(d, n)])]"
    and st: "pass_state front t ps d n st" by (auto simp: passed_def)
  have "small_table (length occs) (front @ [(t, ps @ [(d, n)])])" using small_index_of [OF assms(2)] idx by simp
  from final_step_pass [OF st this assms(3), of t' d'] show ?thesis
    unfolding passed_def occ index_of_snoc idx by auto
qed

lemma final_loop_passed:
  assumes "passed before st" and "list_all indexable (before @ occs)" and "length (before @ occs) < 2 ^ 20" and "length occs < fuel"
  shows "\<exists>st'. final_loop fuel (concat (map occurrence_bytes occs)) st = Inr st' \<and> passed (before @ occs) st'"
  using assms
proof (induction occs arbitrary: before st fuel)
  case Nil
  then show ?case by (cases fuel) (auto simp: next_occurrence_end)
next
  case (Cons occ occs)
  then obtain fuel' where fuel: "fuel = Suc fuel'" "length occs < fuel'" by (cases fuel) auto
  obtain st1 where st1: "final_step occ st = Inr st1" "passed (before @ [occ]) st1"
    using final_step_passed [OF Cons.prems(1)] Cons.prems(2,3) by auto
  from Cons.IH [OF st1(2) _ _ fuel(2)] Cons.prems(2,3) st1(1) fuel(1) show ?case
    by (simp add: next_occurrence_bytes)
qed

lemma final_close_passed:
  assumes "passed occs st" and "list_all indexable occs" and "length occs < 2 ^ 20"
  shows "\<exists>st'. final_close st = Inr st'
     \<and> fs_lexicon st' = lexicon_magic @ concat (map lexicon_entry_bytes (lexicon_of 8 (index_of occs)))
     \<and> fs_postings st' = postings_magic @ postings_file (table_postings (index_of occs))
     \<and> unat (fs_term_count st') = length (index_of occs)"
proof (cases "occs = []")
  case True
  with assms(1) show ?thesis by (simp add: passed_def final_close_def final_start_def postings_file_def)
next
  case False
  with assms(1) obtain front t ps d n where idx: "index_of occs = front @ [(t, ps @ [(d, n)])]"
    and st: "pass_state front t ps d n st" by (auto simp: passed_def)
  have small: "length ps + 1 < 2 ^ 32" "length t \<le> max_term_bytes" "length front + 1 < 2 ^ 64"
    using small_index_of [OF assms(2)] assms(3) by (auto simp: idx small_table_def)
  from close_posting_pass [OF st small(1)] obtain st1 where st1: "close_posting st = Inr st1"
    "unat (fs_document_frequency st1) = length (ps @ [(d, n)])"
    "fs_postings st1 = postings_magic @ postings_file (table_postings front @ ps @ [(d, n)])"
    "fs_lexicon st1 = fs_lexicon st" "fs_postings_offset st1 = fs_postings_offset st" "fs_term_count st1 = fs_term_count st"
    by auto
  from close_term_pass [of st1 front "ps @ [(d, n)]" t] st st1 small show ?thesis
    by (auto simp: final_close_def pass_state_def idx)
qed

lemma lexicon_of_length [simp]: "length (lexicon_of offset idx) = length idx"
  by (induction offset idx rule: lexicon_of.induct) auto

lemma lexicon_of_terms: "map le_term (lexicon_of offset idx) = map fst idx"
  by (induction offset idx rule: lexicon_of.induct) auto

lemma length_lexicon_bytes:
  assumes "\<forall>entry\<in>set entries. length (le_term entry) \<le> max_term_bytes"
  shows "length (concat (map lexicon_entry_bytes entries)) \<le> 272 * length entries"
  using assms by (induction entries) (auto simp: lexicon_entry_bytes_def max_term_bytes_def)

lemma lexicon_terms_small:
  assumes "small_table k idx" and "entry \<in> set (lexicon_of offset idx)"
  shows "length (le_term entry) \<le> max_term_bytes"
proof -
  have "le_term entry \<in> set (map fst idx)" using assms(2) by (metis imageI lexicon_of_terms set_map)
  with assms(1) show ?thesis by (auto simp: small_table_def)
qed

lemma write_final_index_table:
  assumes "list_all indexable occs" and "length occs < 2 ^ 20"
  shows "\<exists>index. write_final_index (run_file occs) = Inr index
     \<and> fx_lexicon index = lexicon_magic @ concat (map lexicon_entry_bytes (lexicon_of 8 (index_of occs)))
     \<and> fx_postings index = postings_magic @ postings_file (table_postings (index_of occs))
     \<and> unat (fx_term_count index) = length (index_of occs) \<and> fx_bytes index < 2 ^ 40"
proof -
  let ?reader = "concat (map occurrence_bytes occs)"
  have "passed [] final_start" by (simp add: passed_def)
  from final_loop_passed [OF this, of occs "Suc (length ?reader)"] assms occ.length_records [OF assms(1)]
  obtain st where st: "final_loop (Suc (length ?reader)) ?reader final_start = Inr st" "passed occs st" by auto
  from final_close_passed [OF st(2) assms] obtain st1 where st1: "final_close st = Inr st1"
    "fs_lexicon st1 = lexicon_magic @ concat (map lexicon_entry_bytes (lexicon_of 8 (index_of occs)))"
    "fs_postings st1 = postings_magic @ postings_file (table_postings (index_of occs))"
    "unat (fs_term_count st1) = length (index_of occs)" by auto
  note small = small_index_of [OF assms(1)]
  have "length (fs_lexicon st1) \<le> 8 + 272 * 2 ^ 20"
    using length_lexicon_bytes [of "lexicon_of 8 (index_of occs)"] lexicon_terms_small [OF small] small assms(2)
    by (simp add: st1(2) lexicon_magic_def small_table_def)
  moreover have "length (fs_postings st1) \<le> 8 + 12 * 2 ^ 20"
    using small assms(2) by (simp add: st1(3) postings_magic_def length_postings_file posting_bytes_def small_table_def)
  ultimately have "\<exists>n. add_u64 (length (fs_lexicon st1)) (length (fs_postings st1)) = Some n \<and> n < 2 ^ 40"
    by (simp add: add_u64_def max_u64_def)
  with st(1) st1 show ?thesis
    by (auto simp: write_final_index_def open_occurrences_def simp del: final_loop.simps)
qed

section \<open>Facts: reading the lexicon\<close>

lemma read_lexicon_entry_bytes:
  assumes "entry_ok entry"
  shows "read_lexicon_entry max_term_bytes (lexicon_entry_bytes entry @ rest) = Inr (Some (entry, rest))"
proof -
  have "length (le_term entry) \<le> 256" "utf8_error 0 (le_term entry) = None"
    using assms by (simp_all add: entry_ok_def max_term_bytes_def utf8_valid_def)
  moreover from this have "unat (word_of_nat (length (le_term entry)) :: u32) = length (le_term entry)"
    by (intro unat_word_of_nat) simp
  ultimately show ?thesis
    by (simp add: read_lexicon_entry_def lexicon_entry_bytes_def max_term_bytes_def)
qed

lemma read_lexicon_entry_end: "read_lexicon_entry max_term_bytes [] = Inr None"
  by (simp add: read_lexicon_entry_def)

interpretation lex: record_format lexicon_entry_bytes "read_lexicon_entry max_term_bytes" entry_ok
  by unfold_locales (rule read_lexicon_entry_bytes read_lexicon_entry_end; assumption?)+

lemma index_of_terms: "t \<in> fst ` set (index_of occs) \<Longrightarrow> \<exists>occ\<in>set occs. oc_term occ = t"
proof (induction occs rule: rev_induct)
  case (snoc occ occs)
  have "fst ` set (index_add idx occ) \<subseteq> insert (oc_term occ) (fst ` set idx)" for idx
    by (cases idx rule: rev_cases) (auto simp: index_add_def split: prod.splits)
  then have "t \<in> insert (oc_term occ) (fst ` set (index_of occs))"
    using snoc.prems unfolding index_of_snoc by blast
  with snoc.IH show ?case by auto
qed simp

lemma lexicon_of_ok:
  assumes "list_all indexable occs"
  shows "list_all entry_ok (lexicon_of offset (index_of occs))"
proof -
  have "entry_ok entry" if "entry \<in> set (lexicon_of offset (index_of occs))" for entry
  proof -
    have "le_term entry \<in> fst ` set (index_of occs)" using that by (metis imageI lexicon_of_terms list.set_map)
    from index_of_terms [OF this] assms show ?thesis by (auto simp: entry_ok_def indexable_def list_all_iff)
  qed
  then show ?thesis by (simp add: list_all_iff)
qed

end
