(* ===== verification/IndexReader.thy ===== *)
theory IndexReader
  imports IndexWriter
begin

text \<open>
  Reading the lexicon and the postings (\<^verbatim>\<open>src/search_index/read.rs\<close>): the validation of a sidecar, the
  lookup of the terms of a query, and the cursors that walk the postings of a term. The facts close
  the circle with the writer: what \<open>write_final_index\<close> wrote validates, and a lookup followed by a
  cursor gives behind exactly the documents and the counts of the term.
\<close>

section \<open>Cursors\<close>

record 'f posting_cursor =
  pc_file :: string
  pc_remaining :: u32
  pc_idf :: 'f

definition cursor_open :: "string \<Rightarrow> u64 \<Rightarrow> u32 \<Rightarrow> 'f \<Rightarrow> 'f posting_cursor" where
  "cursor_open postings offset n_left idf =
     \<lparr>pc_file = drop (unat offset) postings, pc_remaining = n_left, pc_idf = idf\<rparr>"

definition cursor_next :: "'f posting_cursor \<Rightarrow> ((u64 \<times> u32) \<times> 'f posting_cursor) option result" where
  "cursor_next c =
     (if pc_remaining c = 0 then Inr None
      else
        try_op (read_u64 (pc_file c)) (\<lambda>(document_id, file1).
        try_op (read_u32 file1) (\<lambda>(term_frequency, file2).
        Inr (Some ((document_id, term_frequency), c\<lparr>pc_file := file2, pc_remaining := pc_remaining c - 1\<rparr>)))))"

section \<open>Lookup\<close>

fun find_loop ::
  "nat \<Rightarrow> string list \<Rightarrow> string \<Rightarrow> string \<Rightarrow> (string, lexicon_entry) btree_map \<Rightarrow> (string, lexicon_entry) btree_map run" where
  "find_loop 0 query_terms last_query reader found = Inl Diverged"
| "find_loop (Suc fuel) query_terms last_query reader found =
     try_op (lift_result (read_lexicon_entry max_term_bytes reader)) (\<lambda>item.
     case item of
       None \<Rightarrow> Inr found
     | Some (entry, reader1) \<Rightarrow>
         if le_term entry \<in> set query_terms
         then find_loop fuel query_terms last_query reader1 (btree_insert (le_term entry) entry found)
         else if le_term entry > last_query then Inr found
         else find_loop fuel query_terms last_query reader1 found)"

text \<open>\<open>query_terms\<close> is the list of a \<open>BTreeSet\<close>, in increasing order.\<close>

definition find_lexicon_entries :: "string \<Rightarrow> string list \<Rightarrow> (string, lexicon_entry) btree_map run" where
  "find_lexicon_entries lexicon query_terms =
     try_op (lift_result (read_magic lexicon lexicon_magic)) (\<lambda>reader.
     find_loop (Suc (length reader)) query_terms (if query_terms = [] then [] else last query_terms) reader [])"

section \<open>Validation\<close>

fun validate_postings :: "nat \<Rightarrow> u64 \<Rightarrow> string \<Rightarrow> u64 option \<Rightarrow> unit result" where
  "validate_postings 0 document_count postings previous_document = Inr ()"
| "validate_postings (Suc n_left) document_count postings previous_document =
     try_op (read_u64 postings) (\<lambda>(document_id, postings1).
     try_op (read_u32 postings1) (\<lambda>(term_frequency, postings2).
     if document_id \<ge> document_count \<or> term_frequency = 0
     then Inl (InvalidInput ''search posting contains invalid values'')
     else if (case previous_document of None \<Rightarrow> False | Some previous \<Rightarrow> previous \<ge> document_id)
     then Inl (InvalidInput ''search postings are not strictly document-sorted'')
     else validate_postings n_left document_count postings2 (Some document_id)))"

fun validate_loop ::
  "nat \<Rightarrow> u64 \<Rightarrow> string \<Rightarrow> string \<Rightarrow> string option \<Rightarrow> u64 \<Rightarrow> u64 \<Rightarrow> (u64 \<times> u64) run" where
  "validate_loop 0 document_count postings lexicon previous_term expected_offset term_count = Inl Diverged"
| "validate_loop (Suc fuel) document_count postings lexicon previous_term expected_offset term_count =
     try_op (lift_result (read_lexicon_entry max_term_bytes lexicon)) (\<lambda>item.
     case item of
       None \<Rightarrow> Inr (expected_offset, term_count)
     | Some (entry, lexicon1) \<Rightarrow>
         if (case previous_term of None \<Rightarrow> False | Some term \<Rightarrow> term \<ge> le_term entry)
         then Inl (Failed (InvalidInput ''search lexicon is not strictly sorted''))
         else if le_postings_offset entry \<noteq> expected_offset
         then Inl (Failed (InvalidInput ''search lexicon has a non-contiguous postings offset''))
         else
           try_op (lift_result (validate_postings (unat (le_document_frequency entry)) document_count
                     (drop (unat (le_postings_offset entry)) postings) None)) (\<lambda>_.
           try_op (lift_result (or_invalid ''search postings size overflow''
                     (checked_add expected_offset (word_of_nat (unat (le_document_frequency entry) * posting_bytes)))))
             (\<lambda>next_offset.
           try_op (lift_result (or_invalid ''search term count overflow'' (checked_add term_count 1))) (\<lambda>next_count.
           validate_loop fuel document_count postings lexicon1 (Some (le_term entry)) next_offset next_count))))"

definition validate_lexicon_and_postings :: "string \<Rightarrow> string \<Rightarrow> u64 \<Rightarrow> u64 \<Rightarrow> unit run" where
  "validate_lexicon_and_postings lexicon postings document_count term_count =
     try_op (lift_result (read_magic lexicon lexicon_magic)) (\<lambda>reader.
     try_op (lift_result (read_magic postings postings_magic)) (\<lambda>_.
     try_op (validate_loop (Suc (length reader)) document_count postings reader None (word_of_nat (length postings_magic)) 0)
       (\<lambda>(expected_offset, terms).
     if terms \<noteq> term_count \<or> unat expected_offset \<noteq> length postings
     then Inl (Failed (InvalidInput ''search lexicon/postings counts do not match metadata''))
     else Inr ())))"

section \<open>Facts: cursors\<close>

lemma write_posting_read:
  "read_u64 (write_posting d tf @ rest) = Inr (d, write_u32 tf @ rest)"
  by (simp add: write_posting_def)

text \<open>A cursor over the postings \<open>ps\<close>, with whatever follows them in the file.\<close>

definition cursor_at :: "(u64 \<times> nat) list \<Rightarrow> 'f posting_cursor \<Rightarrow> bool" where
  "cursor_at ps c \<longleftrightarrow> unat (pc_remaining c) = length ps \<and> (\<exists>rest. pc_file c = postings_file ps @ rest)"

lemma unat_minus_one: "unat w = Suc n \<Longrightarrow> unat (w - 1) = n"
  for w :: "'a::len word"
  by (metis One_nat_def Suc_le_mono diff_Suc_1 le0 nat_le_iff_add unat_1 unat_sub word_le_nat_alt)

lemma cursor_next_at:
  assumes "cursor_at ((d, n) # ps) c"
  shows "\<exists>c'. cursor_next c = Inr (Some ((d, word_of_nat n), c')) \<and> cursor_at ps c' \<and> pc_idf c' = pc_idf c"
proof -
  from assms obtain rest where rem: "unat (pc_remaining c) = Suc (length ps)"
    and bytes: "pc_file c = write_posting d (word_of_nat n) @ postings_file ps @ rest"
    by (auto simp: cursor_at_def postings_file_def)
  from rem have "pc_remaining c \<noteq> 0" by auto
  with bytes unat_minus_one [OF rem] show ?thesis
    by (auto simp: cursor_next_def cursor_at_def write_posting_read)
qed

lemma cursor_next_end: "cursor_at [] c \<Longrightarrow> cursor_next c = Inr None"
  by (simp add: cursor_at_def cursor_next_def unat_eq_zero)

lemma read_cursor:
  assumes "cursor_at ps c" and "length ps < fuel"
  shows "read_all cursor_next fuel c = Inr (map (\<lambda>(d, n). (d, word_of_nat n)) ps)"
  using assms
proof (induction ps arbitrary: c fuel)
  case Nil
  then show ?case by (cases fuel) (auto simp: cursor_next_end)
next
  case (Cons p ps)
  obtain d n where p: "p = (d, n)" by (cases p)
  from cursor_next_at [of d n ps c] Cons.prems(1) p
  obtain c' where c': "cursor_next c = Inr (Some ((d, word_of_nat n), c'))" "cursor_at ps c'" by auto
  obtain fuel' where "fuel = Suc fuel'" "length ps < fuel'" using Cons.prems(2) by (cases fuel) auto
  with Cons.IH [OF c'(2)] c'(1) p show ?case by simp
qed

section \<open>Facts: lookup\<close>

lemma find_loop_entries:
  assumes "list_all entry_ok entries" and "sorted_wrt (<) (map le_term entries)" and "length entries < fuel"
    and "\<forall>q\<in>set query. q \<le> last_query"
  shows "\<exists>found'. find_loop fuel query last_query (concat (map lexicon_entry_bytes entries)) found = Inr found'
     \<and> (\<forall>t. map_of found' t =
          (case find (\<lambda>e. le_term e = t \<and> t \<in> set query) entries of Some e \<Rightarrow> Some e | None \<Rightarrow> map_of found t))"
  using assms
proof (induction entries arbitrary: fuel found)
  case Nil
  then show ?case by (cases fuel) (auto simp: read_lexicon_entry_end)
next
  case (Cons e entries)
  then obtain fuel' where fuel: "fuel = Suc fuel'" "length entries < fuel'" by (cases fuel) auto
  have later: "le_term e < le_term x" if "x \<in> set entries" for x using Cons.prems(2) that by simp
  have absent: "find (\<lambda>x. le_term x = le_term e \<and> Q) entries = None" for Q
    using later by (force simp: find_None_iff)
  have step: "find_loop fuel query last_query (concat (map lexicon_entry_bytes (e # entries))) found =
      (if le_term e \<in> set query
       then find_loop fuel' query last_query (concat (map lexicon_entry_bytes entries)) (btree_insert (le_term e) e found)
       else if le_term e > last_query then Inr found
       else find_loop fuel' query last_query (concat (map lexicon_entry_bytes entries)) found)"
    using Cons.prems(1) fuel(1) by (simp add: read_lexicon_entry_bytes)
  note IH = Cons.IH [OF _ _ fuel(2) Cons.prems(4)]
  consider (hit) "le_term e \<in> set query" | (stop) "le_term e \<notin> set query" "le_term e > last_query"
    | (miss) "le_term e \<notin> set query" "\<not> le_term e > last_query" by blast
  then show ?case
  proof cases
    case hit
    from IH [of "btree_insert (le_term e) e found"] Cons.prems(1,2) obtain found' where
      found': "find_loop fuel' query last_query (concat (map lexicon_entry_bytes entries)) (btree_insert (le_term e) e found) = Inr found'"
      "\<And>t. map_of found' t = (case find (\<lambda>e. le_term e = t \<and> t \<in> set query) entries of
         Some e \<Rightarrow> Some e | None \<Rightarrow> map_of (btree_insert (le_term e) e found) t)" by auto
    have "map_of found' t = (case find (\<lambda>e. le_term e = t \<and> t \<in> set query) (e # entries) of Some e \<Rightarrow> Some e | None \<Rightarrow> map_of found t)" for t
      using found'(2) [of t] hit absent [of True] by (cases "t = le_term e") (auto split: option.splits)
    with found'(1) hit show ?thesis unfolding step by auto
  next
    case stop
    have "find (\<lambda>e. le_term e = t \<and> t \<in> set query) (e # entries) = None" for t
      using stop later Cons.prems(4) by (force simp: find_None_iff)
    then show ?thesis using stop unfolding step by simp
  next
    case miss
    from IH [of found] Cons.prems(1,2) obtain found' where
      found': "find_loop fuel' query last_query (concat (map lexicon_entry_bytes entries)) found = Inr found'"
      "\<And>t. map_of found' t = (case find (\<lambda>e. le_term e = t \<and> t \<in> set query) entries of
         Some e \<Rightarrow> Some e | None \<Rightarrow> map_of found t)" by auto
    have "map_of found' t = (case find (\<lambda>e. le_term e = t \<and> t \<in> set query) (e # entries) of Some e \<Rightarrow> Some e | None \<Rightarrow> map_of found t)" for t
      using found'(2) [of t] miss by auto
    with found'(1) miss show ?thesis unfolding step by auto
  qed
qed

lemma read_lexicon_magic: "read_magic (lexicon_magic @ rest) lexicon_magic = Inr rest"
  by (rule read_magic_append) (simp add: lexicon_magic_def)

lemma read_postings_magic: "read_magic (postings_magic @ rest) postings_magic = Inr rest"
  by (rule read_magic_append) (simp add: postings_magic_def)

lemma find_lexicon_of:
  assumes "list_all entry_ok entries" and "sorted_wrt (<) (map le_term entries)" and "sorted query"
  shows "\<exists>found. find_lexicon_entries (lexicon_magic @ concat (map lexicon_entry_bytes entries)) query = Inr found
     \<and> (\<forall>t. map_of found t = find (\<lambda>e. le_term e = t \<and> t \<in> set query) entries)"
proof -
  let ?last = "if query = [] then [] else last query" and ?reader = "concat (map lexicon_entry_bytes entries)"
  have "\<forall>q\<in>set query. q \<le> ?last" using assms(3)
    by (cases query rule: rev_cases) (auto simp: sorted_append)
  from find_loop_entries [OF assms(1,2) _ this, of "Suc (length ?reader)" "[]"] lex.length_records [OF assms(1)]
  obtain found where found: "find_loop (Suc (length ?reader)) query ?last ?reader [] = Inr found"
    "\<And>t. map_of found t = (case find (\<lambda>e. le_term e = t \<and> t \<in> set query) entries of Some e \<Rightarrow> Some e | None \<Rightarrow> map_of [] t)"
    by (auto simp: less_Suc_eq_le simp del: find_loop.simps)
  have "map_of found t = find (\<lambda>e. le_term e = t \<and> t \<in> set query) entries" for t
    using found(2) [of t] by (auto split: option.splits)
  moreover have "read_magic (lexicon_magic @ ?reader) lexicon_magic = Inr ?reader" by (rule read_lexicon_magic)
  ultimately show ?thesis
    unfolding find_lexicon_entries_def using found(1) by (simp del: find_loop.simps)
qed

text \<open>The entry of a term points at its postings.\<close>

lemma lexicon_of_lookup:
  assumes "find (\<lambda>e. le_term e = t \<and> Q) (lexicon_of offset idx) = Some e" and "distinct (map fst idx)"
    and "offset + posting_bytes * length (table_postings idx) < 2 ^ 64" and "length (table_postings idx) < 2 ^ 32"
  shows "\<exists>front ps behind. idx = front @ (t, ps) # behind
     \<and> unat (le_postings_offset e) = offset + posting_bytes * length (table_postings front)
     \<and> unat (le_document_frequency e) = length ps"
  using assms
proof (induction offset idx rule: lexicon_of.induct)
  case (2 offset t' ps idx)
  show ?case
  proof (cases "t' = t \<and> Q")
    case True
    with "2.prems" have "unat (le_postings_offset e) = offset" "unat (le_document_frequency e) = length ps"
      by (auto simp: unat_word_of_nat)
    with True show ?thesis by (intro exI [of _ "[]"] exI [of _ ps] exI [of _ idx]) auto
  next
    case False
    with "2.prems" have "\<exists>front ps' behind. idx = front @ (t, ps') # behind
     \<and> unat (le_postings_offset e) = offset + posting_bytes * length ps + posting_bytes * length (table_postings front)
     \<and> unat (le_document_frequency e) = length ps'"
      by (intro "2.IH") (auto simp: algebra_simps)
    then obtain front ps' behind where "idx = front @ (t, ps') # behind"
      "unat (le_postings_offset e) = offset + posting_bytes * length ps + posting_bytes * length (table_postings front)"
      "unat (le_document_frequency e) = length ps'" by blast
    then show ?thesis
      by (intro exI [of _ "(t', ps) # front"] exI [of _ ps'] exI [of _ behind]) (auto simp: algebra_simps)
  qed
qed simp

lemma find_lexicon_of_None:
  "find (\<lambda>e. le_term e = t \<and> Q) (lexicon_of offset idx) = None \<Longrightarrow> Q \<Longrightarrow> t \<notin> fst ` set idx"
  by (induction offset idx rule: lexicon_of.induct) (auto split: if_splits)

text \<open>Dropping the header and the postings of the terms before leaves the postings of the term.\<close>

lemma drop_postings:
  "drop (8 + posting_bytes * length (table_postings front))
     (postings_magic @ postings_file (table_postings (front @ (t, ps) # behind))) =
   postings_file ps @ postings_file (table_postings behind)"
proof -
  let ?before = "postings_magic @ postings_file (table_postings front)"
  have "postings_magic @ postings_file (table_postings (front @ (t, ps) # behind)) =
      ?before @ postings_file ps @ postings_file (table_postings behind)" by simp
  moreover have "length ?before = 8 + posting_bytes * length (table_postings front)"
    by (simp add: postings_magic_def length_postings_file)
  ultimately show ?thesis by (metis append_eq_conv_conj)
qed

lemma count_list_sort: "count_list (sort xs) x = count_list xs x"
  by (metis count_mset mset_sort count_list_eq_length_filter)

lemma index_of_sort:
  "ordered_table (index_of (sort occs))"
  "table_frequency (index_of (sort occs)) t d = count_list occs (Occurrence t d)"
proof -
  have "ordered_table (index_of (sort occs)) \<and> table_frequency (index_of (sort occs)) t d = count_list (sort occs) (Occurrence t d)"
  proof (cases "occs = []")
    case False
    then have "sort occs \<noteq> []" by (simp add: sort_nonempty)
    from index_of_sorted [OF sorted_sort this] show ?thesis by blast
  qed (simp add: table_frequency_def)
  then show "ordered_table (index_of (sort occs))"
    "table_frequency (index_of (sort occs)) t d = count_list occs (Occurrence t d)"
    using count_list_sort by simp_all
qed

lemma cursor_frequency:
  assumes "ordered_postings ps" and "\<forall>(d, n)\<in>set ps. n < 2 ^ 32"
  shows "(case map_of (map (\<lambda>(d, n). (d, word_of_nat n :: u32)) ps) d of None \<Rightarrow> 0 | Some tf \<Rightarrow> unat tf) =
           (case map_of ps d of None \<Rightarrow> 0 | Some n \<Rightarrow> n)"
proof (cases "map_of ps d")
  case None
  then have "map_of (map (\<lambda>(d, n). (d, word_of_nat n :: u32)) ps) d = None" by (force simp: map_of_eq_None_iff)
  with None show ?thesis by simp
next
  case (Some n)
  then have "(d, n) \<in> set ps" by (rule map_of_SomeD)
  with assms(2) have "n < 2 ^ 32" by auto
  moreover have "map_of (map (\<lambda>(d, n). (d, word_of_nat n :: u32)) ps) d = map_option word_of_nat (map_of ps d)"
    by (simp add: map_of_map)
  ultimately show ?thesis by (simp add: Some unat_word_of_nat)
qed

lemma cursor_of_entry:
  assumes small: "small_table k idx" "k < 2 ^ 20" and ord: "ordered_table idx"
    and e: "find (\<lambda>e. le_term e = t \<and> Q) (lexicon_of 8 idx) = Some e"
  defines "postings \<equiv> postings_magic @ postings_file (table_postings idx)"
  shows "\<exists>ps. read_all cursor_next (Suc (length postings))
                (cursor_open postings (le_postings_offset e) (le_document_frequency e) idf) = Inr ps
       \<and> sorted_wrt (<) (map fst ps)
       \<and> (\<forall>d. (case map_of ps d of None \<Rightarrow> 0 | Some tf \<Rightarrow> unat tf) = table_frequency idx t d)"
proof -
  have len: "length (table_postings idx) < 2 ^ 20" using small by (simp add: small_table_def)
  have dist: "distinct (map fst idx)" using ord by (auto simp: ordered_table_def strict_sorted_iff)
  from lexicon_of_lookup [OF e dist] len obtain front ps behind where
    split: "idx = front @ (t, ps) # behind" and off: "unat (le_postings_offset e) = 8 + posting_bytes * length (table_postings front)"
    and df: "unat (le_document_frequency e) = length ps" by (force simp: posting_bytes_def)
  let ?c = "cursor_open postings (le_postings_offset e) (le_document_frequency e) idf"
  let ?read = "map (\<lambda>(d, n). (d, word_of_nat n :: u32)) ps"
  have at: "cursor_at ps ?c"
    unfolding cursor_at_def cursor_open_def postings_def split off drop_postings by (auto simp: df)
  have "length ps < Suc (length postings)"
    by (simp add: postings_def split length_postings_file posting_bytes_def)
  from read_cursor [OF at this] have rd: "read_all cursor_next (Suc (length postings)) ?c = Inr ?read" .
  have ordps: "ordered_postings ps" using ord by (simp add: split ordered_table_def)
  have "\<forall>p\<in>set ps. snd p \<le> k" using small(1) unfolding split small_table_def by auto
  with small(2) have bounded: "\<forall>(d, n)\<in>set ps. n < 2 ^ 32" by fastforce
  have "map_of idx t = Some ps" by (rule map_of_is_SomeI [OF dist]) (simp add: split)
  then have "(case map_of ?read d of None \<Rightarrow> 0 | Some tf \<Rightarrow> unat tf) = table_frequency idx t d" for d
    by (simp add: table_frequency_def cursor_frequency [OF ordps bounded])
  moreover have "map fst ?read = map fst ps" by (simp add: comp_def case_prod_beta)
  then have "sorted_wrt (<) (map fst ?read)" using ordps by (simp only: ordered_postings_def)
  ultimately show ?thesis using rd by blast
qed



section \<open>Facts: validation\<close>

lemma validate_postings_ok:
  assumes "ordered_postings ps" and "\<forall>(d, n)\<in>set ps. d < document_count \<and> n < 2 ^ 32"
    and "case previous of None \<Rightarrow> True | Some d \<Rightarrow> \<forall>d'\<in>fst ` set ps. d < d'"
  shows "validate_postings (length ps) document_count (postings_file ps @ rest) previous = Inr ()"
  using assms
proof (induction ps arbitrary: previous)
  case (Cons p ps)
  obtain d n where p: "p = (d, n)" by (cases p)
  have "0 < n" "n < 2 ^ 32" "d < document_count" using Cons.prems(1,2) by (auto simp: p ordered_postings_def)
  then have "unat (word_of_nat n :: u32) = n" by (intro unat_word_of_nat) simp
  with \<open>0 < n\<close> have nz: "(word_of_nat n :: u32) \<noteq> 0" by auto
  have "validate_postings (length ps) document_count (postings_file ps @ rest) (Some d) = Inr ()"
    using Cons.prems(1,2) by (intro Cons.IH) (auto simp: p ordered_postings_def)
  moreover have "\<not> (case previous of None \<Rightarrow> False | Some previous \<Rightarrow> previous \<ge> d)"
    using Cons.prems(3) by (auto simp: p split: option.splits)
  moreover have "postings_file (p # ps) @ rest = write_posting d (word_of_nat n) @ postings_file ps @ rest"
    by (simp add: p postings_file_def)
  ultimately show ?case using nz \<open>d < document_count\<close> by (simp add: write_posting_read)
qed simp

definition below_count :: "u64 \<Rightarrow> index_table \<Rightarrow> bool" where
  "below_count document_count idx \<longleftrightarrow> (\<forall>(d, n)\<in>set (table_postings idx). d < document_count)"

lemma small_u64: "n < 2 ^ 40 \<Longrightarrow> unat (word_of_nat n :: u64) = n"
  by (rule unat_word_of_nat) simp

lemma small_u32: "n < 2 ^ 30 \<Longrightarrow> unat (word_of_nat n :: u32) = n"
  by (rule unat_word_of_nat) simp

lemma validate_loop_ok:
  assumes idx: "idx = front @ rest" and small: "small_table k idx" "k < 2 ^ 20" and ord: "ordered_table idx"
    and below: "below_count document_count idx" and ok: "list_all entry_ok (lexicon_of offset rest)"
    and offset: "offset = 8 + posting_bytes * length (table_postings front)"
    and previous: "case previous of None \<Rightarrow> front = [] | Some t \<Rightarrow> front \<noteq> [] \<and> t = fst (last front)"
    and fuel: "length rest < fuel"
  shows "validate_loop fuel document_count (postings_magic @ postings_file (table_postings idx))
           (concat (map lexicon_entry_bytes (lexicon_of offset rest))) previous (word_of_nat offset) (word_of_nat (length front)) =
         Inr (word_of_nat (8 + posting_bytes * length (table_postings idx)), word_of_nat (length idx))"
  using idx ok offset previous fuel
proof (induction rest arbitrary: front offset previous fuel)
  case Nil
  then show ?case by (cases fuel) (simp_all add: read_lexicon_entry_end)
next
  case (Cons entry rest)
  obtain t ps where entry: "entry = (t, ps)" by (cases entry)
  obtain fuel' where fuel: "fuel = Suc fuel'" "length rest < fuel'" using Cons.prems(5) by (cases fuel) auto
  let ?e = "\<lparr>le_term = t, le_postings_offset = word_of_nat offset, le_document_frequency = word_of_nat (length ps)\<rparr>"
  let ?next = "offset + posting_bytes * length ps"
  have sizes: "length (table_postings front) + length ps < 2 ^ 20" "length front < 2 ^ 20"
    using small by (simp_all add: Cons.prems(1) entry small_table_def)
  have bound: "offset + length ps * posting_bytes < 2 ^ 40"
    using sizes by (simp add: Cons.prems(3) posting_bytes_def)
  have off: "unat (word_of_nat offset :: u64) = offset" using bound by (intro small_u64) simp
  have len: "unat (word_of_nat (length ps) :: u32) = length ps" using sizes by (intro small_u32) simp
  have frt: "unat (word_of_nat (length front) :: u64) = length front" using sizes by (intro small_u64) simp
  have add: "checked_add (word_of_nat offset :: u64) (word_of_nat (length ps * posting_bytes)) = Some (word_of_nat ?next)"
  proof -
    have "unat (word_of_nat (length ps * posting_bytes) :: u64) = length ps * posting_bytes"
      "unat (word_of_nat ?next :: u64) = ?next"
      using bound by (intro small_u64, simp add: mult.commute)+
    with bound show ?thesis unfolding checked_add_Some off by (simp add: mult.commute)
  qed
  have cnt: "checked_add (word_of_nat (length front) :: u64) 1 = Some (word_of_nat (length (front @ [entry])))"
  proof -
    have "unat (word_of_nat (length front + 1) :: u64) = length front + 1" using sizes by (intro small_u64) simp
    then show ?thesis using sizes unfolding checked_add_Some frt by simp
  qed
  have "ordered_postings ps" using ord by (simp add: Cons.prems(1) entry ordered_table_def)
  moreover have "fst p < document_count" "snd p \<le> k" if "p \<in> set ps" for p
    using below small(1) that unfolding Cons.prems(1) entry below_count_def small_table_def
    by (auto simp: case_prod_beta)
  then have "\<forall>(d, n)\<in>set ps. d < document_count \<and> n < 2 ^ 32" using small(2) by fastforce
  ultimately have post: "validate_postings (length ps) document_count (postings_file ps @ postings_file (table_postings rest)) None = Inr ()"
    by (intro validate_postings_ok) auto
  have drp: "drop offset (postings_magic @ postings_file (table_postings idx)) = postings_file ps @ postings_file (table_postings rest)"
    unfolding Cons.prems(1,3) entry by (rule drop_postings)
  have sorted: "\<not> (case previous of None \<Rightarrow> False | Some term \<Rightarrow> term \<ge> le_term ?e)"
  proof (cases previous)
    case (Some t')
    then have "t' \<in> fst ` set front" using Cons.prems(4) by auto
    moreover have "\<forall>x\<in>fst ` set front. x < t" using ord by (auto simp: Cons.prems(1) entry ordered_table_def sorted_wrt_append)
    ultimately show ?thesis using Some by auto
  qed simp
  have "validate_loop fuel' document_count (postings_magic @ postings_file (table_postings idx))
           (concat (map lexicon_entry_bytes (lexicon_of ?next rest))) (Some t) (word_of_nat ?next) (word_of_nat (length (front @ [entry]))) =
         Inr (word_of_nat (8 + posting_bytes * length (table_postings idx)), word_of_nat (length idx))"
    using Cons.prems fuel(2) by (intro Cons.IH) (auto simp: entry algebra_simps)
  moreover have "read_lexicon_entry max_term_bytes (concat (map lexicon_entry_bytes (lexicon_of offset (entry # rest)))) =
      Inr (Some (?e, concat (map lexicon_entry_bytes (lexicon_of ?next rest))))"
    using Cons.prems(2) by (simp add: entry read_lexicon_entry_bytes)
  ultimately show ?case
    unfolding fuel(1) validate_loop.simps using sorted off len drp post add cnt by simp
qed

lemma table_documents:
  "(d, n) \<in> set (table_postings (index_of occs)) \<Longrightarrow> \<exists>occ\<in>set occs. oc_document occ = d"
proof (induction occs arbitrary: n rule: rev_induct)
  case (snoc occ occs)
  have "fst ` set (table_postings (index_add idx occ)) \<subseteq> insert (oc_document occ) (fst ` set (table_postings idx))" for idx
  proof (cases idx rule: rev_cases)
    case Nil
    then show ?thesis by (simp add: index_add_def)
  next
    case (snoc front entry)
    obtain t qs where entry: "entry = (t, qs)" by (cases entry)
    show ?thesis by (cases qs rule: rev_cases) (auto simp: snoc entry index_add_def)
  qed
  then have "d \<in> insert (oc_document occ) (fst ` set (table_postings (index_of occs)))"
    using snoc.prems unfolding index_of_snoc by (metis fst_conv imageI subsetD)
  with snoc.IH show ?case by auto
qed simp

text \<open>
  What the writer writes passes the validation: the lexicon is strictly sorted, its offsets are
  contiguous, its postings strictly ordered and within the documents, and the totals agree, provided
  the occurrences are of documents below the document count.
\<close>

lemma written_index_validates:
  assumes "list_all indexable occs" and "length occs < 2 ^ 20" and "\<forall>occ\<in>set occs. oc_document occ < document_count"
  shows "\<exists>index. write_final_index (run_file (sort occs)) = Inr index
     \<and> validate_lexicon_and_postings (fx_lexicon index) (fx_postings index) document_count (fx_term_count index) = Inr ()"
proof -
  let ?idx = "index_of (sort occs)"
  have idx: "list_all indexable (sort occs)" "length (sort occs) < 2 ^ 20" using assms(1,2) by (simp_all add: list_all_iff)
  from write_final_index_table [OF idx] obtain index where index: "write_final_index (run_file (sort occs)) = Inr index"
    "fx_lexicon index = lexicon_magic @ concat (map lexicon_entry_bytes (lexicon_of 8 ?idx))"
    "fx_postings index = postings_magic @ postings_file (table_postings ?idx)"
    "unat (fx_term_count index) = length ?idx" by blast
  let ?reader = "concat (map lexicon_entry_bytes (lexicon_of 8 ?idx))"
  note small = small_index_of [OF idx(1)] and ok = lexicon_of_ok [OF idx(1), of 8]
  have "below_count document_count ?idx" using table_documents [of _ _ "sort occs"] assms(3) by (fastforce simp: below_count_def)
  from validate_loop_ok [OF append_Nil [symmetric] small idx(2) index_of_sort(1) this ok, of None "Suc (length ?reader)"]
  have "validate_loop (Suc (length ?reader)) document_count (fx_postings index) ?reader None 8 0 =
      Inr (word_of_nat (8 + posting_bytes * length (table_postings ?idx)), word_of_nat (length ?idx))"
    using lex.length_records [OF ok] by (simp add: index(3) less_Suc_eq_le del: validate_loop.simps)
  moreover have "unat (word_of_nat (8 + posting_bytes * length (table_postings ?idx)) :: u64) = length (fx_postings index)"
    using small idx(2)
    by (subst small_u64) (simp_all add: small_table_def posting_bytes_def index(3) length_postings_file postings_magic_def)
  moreover have "word_of_nat (length ?idx) = fx_term_count index" by (simp flip: index(4))
  moreover have "(word_of_nat (length postings_magic) :: u64) = 8" by (simp add: postings_magic_def)
  ultimately have "validate_lexicon_and_postings (fx_lexicon index) (fx_postings index) document_count (fx_term_count index) = Inr ()"
    unfolding validate_lexicon_and_postings_def index(2,3) read_lexicon_magic read_postings_magic
    by (simp del: validate_loop.simps)
  with index(1) show ?thesis by blast
qed

end
