(* ===== verification/SearchBuild.thy ===== *)
theory SearchBuild
  imports IndexReader
begin

text \<open>
  Building the search sidecar (\<open>build\<close> and \<open>build_inner\<close> of \<^verbatim>\<open>src/search_index/build.rs\<close>, the records
  of \<^verbatim>\<open>src/search_index/model.rs\<close>, the document codecs of \<^verbatim>\<open>src/search_index/io.rs\<close>): the tokenizer, the
  table of documents with its offsets and lengths, the occurrences handed to the external sort, and
  the six files the build leaves. JSON and SHA-256 are library code: \<open>encode_document\<close>,
  \<open>print_metadata\<close>, \<open>decode_nodes\<close> and \<open>sha256\<close> are parameters. A JSON array of staged nodes is decoded
  element by element; \<open>decode_nodes\<close> gives the elements before the first error and that error.
\<close>

section \<open>Records\<close>

datatype search_layer = SemanticLayer | SyntaxLayer

definition layer_from_schema :: "string \<Rightarrow> search_layer" where
  "layer_from_schema value = (if value = ''syntax'' then SyntaxLayer else SemanticLayer)"

definition layer_as_str :: "search_layer \<Rightarrow> string" where
  "layer_as_str layer = (case layer of SemanticLayer \<Rightarrow> ''semantic'' | SyntaxLayer \<Rightarrow> ''syntax'')"

definition layer_code :: "search_layer \<Rightarrow> char" where
  "layer_code layer = (case layer of SemanticLayer \<Rightarrow> CHR 0x00 | SyntaxLayer \<Rightarrow> CHR 0x01)"

definition layer_from_code :: "char \<Rightarrow> search_layer option" where
  "layer_from_code code =
     (if code = CHR 0x00 then Some SemanticLayer else if code = CHR 0x01 then Some SyntaxLayer else None)"

record search_document =
  sd_id :: string
  sd_node_type :: string
  sd_index_order :: u32
  sd_layer :: search_layer

record document_stat =
  st_length :: u32
  st_index_order :: u32
  st_layer :: search_layer

record sidecar_file_metadata =
  sf_backend :: string
  sf_format_version :: u64
  sf_document_count :: u64
  sf_term_count :: u64
  sf_total_tokens :: u64

record search_backend_metadata =
  sb_backend :: string
  sb_format_version :: u64
  sb_files :: "(string, string) btree_map"
  sb_document_count :: u64
  sb_term_count :: u64
  sb_total_tokens :: u64

record staged_node =
  sg_id :: string
  sg_label :: string
  sg_path :: string
  sg_qualified_name :: string
  sg_summary :: string
  sg_text :: string
  sg_tree_sitter_node_type :: string

definition staged_field :: "staged_node \<Rightarrow> string \<Rightarrow> string" where
  "staged_field node name =
     (if name = ''label'' then sg_label node
      else if name = ''path'' then sg_path node
      else if name = ''qualified_name'' then sg_qualified_name node
      else if name = ''summary'' then sg_summary node
      else if name = ''text'' then sg_text node
      else if name = ''tree_sitter_node_type'' then sg_tree_sitter_node_type node
      else [])"

record search_index_spec =
  si_fields :: "string list"
  si_layer :: string
  si_node_types :: "string list"

definition format_version :: u32 where
  "format_version = 1"

definition backend_name :: string where
  "backend_name = ''disk_bm25_v1''"

definition max_document_record_bytes :: nat where
  "max_document_record_bytes = 1024 * 1024"

definition metadata_suffix :: string where "metadata_suffix = ''search.meta.json''"
definition lexicon_suffix :: string where "lexicon_suffix = ''search.lexicon.bin''"
definition postings_suffix :: string where "postings_suffix = ''search.postings.bin''"
definition documents_suffix :: string where "documents_suffix = ''search.documents.bin''"
definition document_offsets_suffix :: string where "document_offsets_suffix = ''search.document_offsets.bin''"
definition document_lengths_suffix :: string where "document_lengths_suffix = ''search.doc_lengths.bin''"

lemmas suffix_defs = metadata_suffix_def lexicon_suffix_def postings_suffix_def documents_suffix_def
  document_offsets_suffix_def document_lengths_suffix_def

definition sidecar_suffixes :: "string list" where
  "sidecar_suffixes =
     [metadata_suffix, lexicon_suffix, postings_suffix, documents_suffix, document_offsets_suffix,
      document_lengths_suffix]"

definition documents_magic :: string where "documents_magic = ''CBGDC001''"
definition document_offsets_magic :: string where "document_offsets_magic = ''CBGDO001''"
definition document_lengths_magic :: string where "document_lengths_magic = ''CBGDL001''"

lemmas magic_defs = documents_magic_def document_offsets_magic_def document_lengths_magic_def
  lexicon_magic_def postings_magic_def

definition sidecar_path :: "string \<Rightarrow> string \<Rightarrow> string" where
  "sidecar_path database_path suffix = database_path @ ''.'' @ suffix"

section \<open>Documents and their statistics\<close>

definition write_document :: "(search_document \<Rightarrow> string) \<Rightarrow> search_document \<Rightarrow> string \<Rightarrow> (u64 \<times> string) result" where
  "write_document encode_document document writer =
     (let encoded = encode_document document in
      if length encoded > max_document_record_bytes
      then Inl (InvalidInput ''search document exceeds sidecar read-format length'')
      else
        let offset = word_of_nat (length writer)
        in Inr (offset, writer @ write_u32 (word_of_nat (length encoded)) @ encoded))"

definition read_document_at ::
  "(string \<Rightarrow> string + search_document) \<Rightarrow> string \<Rightarrow> u64 \<Rightarrow> nat \<Rightarrow> search_document result" where
  "read_document_at decode_document documents offset max_record_bytes =
     try_op (read_u32 (drop (unat offset) documents)) (\<lambda>(length_word, reader).
     let length_value = unat length_word in
     if length_value > max_record_bytes
     then Inl (InvalidInput (''search document record exceeds configured read limit: ''
            @ string_of_nat length_value @ '' > '' @ string_of_nat max_record_bytes))
     else
       try_op (read_exact length_value reader) (\<lambda>(encoded, _).
       case decode_document encoded of Inl message \<Rightarrow> Inl (Json message) | Inr document \<Rightarrow> Inr document))"

definition write_document_stat :: "document_stat \<Rightarrow> string" where
  "write_document_stat stat =
     write_u32 (st_length stat) @ write_u32 (st_index_order stat)
       @ [layer_code (st_layer stat), CHR 0x00, CHR 0x00, CHR 0x00]"

definition document_stat_bytes :: u64 where
  "document_stat_bytes = 12"

definition document_offset_bytes :: u64 where
  "document_offset_bytes = 8"

definition read_document_stat_at :: "string \<Rightarrow> u64 \<Rightarrow> u64 \<Rightarrow> document_stat result" where
  "read_document_stat_at lengths header_bytes document_id =
     try_op (or_invalid ''search document-stat offset overflow''
               (Option.bind (checked_mul document_id document_stat_bytes) (\<lambda>v. checked_add v header_bytes))) (\<lambda>offset.
     try_op (read_u32 (drop (unat offset) lengths)) (\<lambda>(length_word, reader1).
     try_op (read_u32 reader1) (\<lambda>(index_order, reader2).
     try_op (read_exact 4 reader2) (\<lambda>(layer, _).
     case layer_from_code (layer ! 0) of
       None \<Rightarrow> Inl (InvalidInput (''invalid search document layer code '' @ string_of_nat (byte_of (layer ! 0))))
     | Some l \<Rightarrow> Inr \<lparr>st_length = length_word, st_index_order = index_order, st_layer = l\<rparr>))))"

section \<open>Tokens\<close>

definition push_lowercase :: "rchar list \<Rightarrow> string \<Rightarrow> string" where
  "push_lowercase lowercase term =
     fold (\<lambda>c term. if length term + length c \<le> max_term_bytes then term @ c else term) lowercase term"

fun tokenize_chars :: "unicode \<Rightarrow> rchar list \<Rightarrow> string \<Rightarrow> string list" where
  "tokenize_chars U [] term = (if term \<noteq> [] then [term] else [])"
| "tokenize_chars U (c # cs) term =
     (if char_is_alphanumeric U c \<or> c = ''_''
      then tokenize_chars U cs (push_lowercase (char_lowercase U c) term)
      else if term \<noteq> [] then term # tokenize_chars U cs []
      else tokenize_chars U cs [])"

definition tokenize :: "unicode \<Rightarrow> string \<Rightarrow> string list" where
  "tokenize U s = tokenize_chars U (chars s) []"

section \<open>Staged files\<close>

definition stage_file_stem :: "string \<Rightarrow> string" where
  "stage_file_stem name =
     (let stem = trim_matches_char (CHR ''_'')
            (concat (map (\<lambda>c. case c of
                                [b] \<Rightarrow> if ascii_alphanumeric b then [ascii_lower b] else ''_''
                              | _ \<Rightarrow> ''_'') (chars name)))
      in if stem = [] then ''table'' else stem)"

definition chunk_path :: "string \<Rightarrow> string \<Rightarrow> nat \<Rightarrow> string" where
  "chunk_path staging_dir stem index =
     staging_dir @ ''/'' @ (if index = 0 then stem @ ''.json'' else stem @ ''__'' @ zero_padded 6 index @ ''.json'')"

text \<open>
  \<open>StagedNodeChunks\<close>: the chunk files of a table until one is missing or the index is exhausted.
\<close>

function staged_chunks :: "file_map \<Rightarrow> string \<Rightarrow> string \<Rightarrow> nat \<Rightarrow> string list" where
  "staged_chunks files staging_dir stem index =
     (case files (chunk_path staging_dir stem index) of
        None \<Rightarrow> []
      | Some bytes \<Rightarrow>
          if \<not> index + 1 \<le> max_u64 then []
          else bytes # staged_chunks files staging_dir stem (index + 1))"
  by pat_completeness auto
termination
  by (relation "measure (\<lambda>(_, _, _, index). max_u64 - index)") auto

declare staged_chunks.simps [simp del]

section \<open>The loop over nodes\<close>

record build_state =
  bs_sorter :: sorter
  bs_documents :: string
  bs_offsets :: string
  bs_lengths :: string
  bs_document_count :: u64
  bs_total_tokens :: u64
  bs_index_order :: u32

record build_env =
  be_unicode :: unicode
  be_reserve :: "nat \<Rightarrow> nat \<Rightarrow> string + nat"
  be_term_capacity :: "string \<Rightarrow> nat"
  be_encode_document :: "search_document \<Rightarrow> string"
  be_decode_nodes :: "string \<Rightarrow> staged_node list \<times> string option"
  be_print_metadata :: "sidecar_file_metadata \<Rightarrow> string"
  be_sha256 :: "string \<Rightarrow> string"

definition index_term :: "build_env \<Rightarrow> u64 \<Rightarrow> string \<Rightarrow> sorter \<times> u32 \<Rightarrow> (sorter \<times> u32) result" where
  "index_term env document_id term = (\<lambda>(occurrences, document_length).
     try_op (sorter_push (be_reserve env) (be_term_capacity env) (Occurrence term document_id) occurrences)
       (\<lambda>occurrences1.
     try_op (or_invalid ''search document token count overflow'' (checked_add document_length 1)) (\<lambda>document_length1.
     Inr (occurrences1, document_length1))))"

definition node_terms :: "build_env \<Rightarrow> string list \<Rightarrow> staged_node \<Rightarrow> string list" where
  "node_terms env columns node = concat (map (\<lambda>field. tokenize (be_unicode env) (staged_field node field)) columns)"

definition store_document :: "build_env \<Rightarrow> search_document \<Rightarrow> u32 \<Rightarrow> build_state \<Rightarrow> build_state result" where
  "store_document env document document_length st =
     try_op (write_document (be_encode_document env) document (bs_documents st)) (\<lambda>(offset, documents).
     try_op (or_invalid ''search document count overflow'' (checked_add (bs_document_count st) 1)) (\<lambda>document_count.
     try_op (or_invalid ''search token count overflow'' (checked_add (bs_total_tokens st) (ucast document_length)))
       (\<lambda>total_tokens.
     Inr (st\<lparr>bs_documents := documents, bs_offsets := bs_offsets st @ write_u64 offset,
             bs_lengths := bs_lengths st @ write_document_stat
               \<lparr>st_length = document_length, st_index_order = sd_index_order document, st_layer = sd_layer document\<rparr>,
             bs_document_count := document_count, bs_total_tokens := total_tokens\<rparr>))))"

definition index_node ::
  "build_env \<Rightarrow> string list \<Rightarrow> search_layer \<Rightarrow> string \<Rightarrow> staged_node \<Rightarrow> build_state \<Rightarrow> build_state result" where
  "index_node env columns layer node_type node st =
     try_op (try_fold (index_term env (bs_document_count st)) (node_terms env columns node) (bs_sorter st, 0))
       (\<lambda>(occurrences, document_length).
     store_document env
       \<lparr>sd_id = sg_id node, sd_node_type = node_type, sd_index_order = bs_index_order st, sd_layer = layer\<rparr>
       document_length (st\<lparr>bs_sorter := occurrences\<rparr>))"

definition stream_staged_nodes ::
  "build_env \<Rightarrow> (staged_node \<Rightarrow> build_state \<Rightarrow> build_state result) \<Rightarrow> string \<Rightarrow> build_state \<Rightarrow> build_state result" where
  "stream_staged_nodes env callback bytes st =
     (let (nodes, decode_error) = be_decode_nodes env bytes in
      try_op (try_fold callback nodes st) (\<lambda>st1.
      case decode_error of Some message \<Rightarrow> Inl (Json message) | None \<Rightarrow> Inr st1))"

definition index_node_type ::
  "build_env \<Rightarrow> file_map \<Rightarrow> string \<Rightarrow> string list \<Rightarrow> search_layer \<Rightarrow> string \<Rightarrow> build_state \<Rightarrow> build_state result" where
  "index_node_type env files staging_dir columns layer node_type st =
     try_op (try_fold (stream_staged_nodes env (index_node env columns layer node_type))
               (staged_chunks files staging_dir (stage_file_stem node_type) 0) st) (\<lambda>st1.
     try_op (or_invalid ''search index order overflow'' (checked_add (bs_index_order st1) 1)) (\<lambda>index_order.
     Inr (st1\<lparr>bs_index_order := index_order\<rparr>)))"

definition index_spec :: "build_env \<Rightarrow> file_map \<Rightarrow> string \<Rightarrow> search_index_spec \<Rightarrow> build_state \<Rightarrow> build_state result" where
  "index_spec env files staging_dir index =
     try_fold (index_node_type env files staging_dir (si_fields index) (layer_from_schema (si_layer index)))
       (si_node_types index)"

record build_result =
  br_metadata :: search_backend_metadata
  br_spill_bytes :: nat
  br_high_water_bytes :: nat
  br_files :: file_map

definition write_sidecar :: "string \<Rightarrow> (string \<times> string) list \<Rightarrow> file_map \<Rightarrow> file_map" where
  "write_sidecar database_path contents files =
     fold (\<lambda>(suffix, bytes) files. files(sidecar_path database_path suffix \<mapsto> bytes)) contents files"

definition file_metadata_of :: "build_state \<Rightarrow> final_index \<Rightarrow> sidecar_file_metadata" where
  "file_metadata_of st index =
     \<lparr>sf_backend = backend_name, sf_format_version = ucast format_version, sf_document_count = bs_document_count st,
      sf_term_count = fx_term_count index, sf_total_tokens = bs_total_tokens st\<rparr>"

definition sidecar_contents :: "build_env \<Rightarrow> build_state \<Rightarrow> final_index \<Rightarrow> (string \<times> string) list" where
  "sidecar_contents env st index =
     [(metadata_suffix, be_print_metadata env (file_metadata_of st index) @ [CHR 0x0A]),
      (lexicon_suffix, fx_lexicon index), (postings_suffix, fx_postings index),
      (documents_suffix, bs_documents st), (document_offsets_suffix, bs_offsets st),
      (document_lengths_suffix, bs_lengths st)]"

definition backend_metadata_of :: "build_env \<Rightarrow> build_state \<Rightarrow> final_index \<Rightarrow> search_backend_metadata" where
  "backend_metadata_of env st index =
     \<lparr>sb_backend = backend_name, sb_format_version = ucast format_version,
      sb_files = btree_of_list (map (\<lambda>(suffix, bytes). (suffix, be_sha256 env bytes)) (sidecar_contents env st index)),
      sb_document_count = bs_document_count st, sb_term_count = fx_term_count index,
      sb_total_tokens = bs_total_tokens st\<rparr>"

definition build_inner ::
  "build_env \<Rightarrow> search_index_spec list \<Rightarrow> file_map \<Rightarrow> string \<Rightarrow> string \<Rightarrow> nat \<Rightarrow> build_result run" where
  "build_inner env search_indexes files database_path staging_dir chunk_bytes =
     try_op (lift_result (sorter_new chunk_bytes)) (\<lambda>occurrences.
     try_op (lift_result (try_fold (index_spec env files staging_dir) search_indexes
               \<lparr>bs_sorter = occurrences, bs_documents = documents_magic, bs_offsets = document_offsets_magic,
                bs_lengths = document_lengths_magic, bs_document_count = 0, bs_total_tokens = 0,
                bs_index_order = 0\<rparr>)) (\<lambda>st.
     try_op (sorter_finish (bs_sorter st)) (\<lambda>(occurrence_path, sorted).
     try_op (lift_result (open_file (so_files sorted) occurrence_path)) (\<lambda>occurrence_bytes.
     try_op (write_final_index occurrence_bytes) (\<lambda>index.
     try_op (lift_result (remove_file occurrence_path (so_files sorted))) (\<lambda>_.
     try_op (lift_result (or_invalid ''search spill byte count overflow'' (add_u64 (so_spill_bytes sorted) (fx_bytes index))))
       (\<lambda>spill_bytes.
     Inr \<lparr>br_metadata = backend_metadata_of env st index, br_spill_bytes = spill_bytes,
          br_high_water_bytes = so_high_water_bytes sorted,
          br_files = write_sidecar database_path (sidecar_contents env st index) files\<rparr>)))))))"

definition ensure_targets_absent :: "file_map \<Rightarrow> string \<Rightarrow> unit result" where
  "ensure_targets_absent files database_path =
     (case find (\<lambda>suffix. files (sidecar_path database_path suffix) \<noteq> None) sidecar_suffixes of
        Some suffix \<Rightarrow> Inl (InvalidInput (''search sidecar target already exists: '' @ sidecar_path database_path suffix))
      | None \<Rightarrow> Inr ())"

definition build ::
  "build_env \<Rightarrow> search_index_spec list \<Rightarrow> file_map \<Rightarrow> string \<Rightarrow> string \<Rightarrow> nat \<Rightarrow> build_result run" where
  "build env search_indexes files database_path staging_dir chunk_bytes =
     (if chunk_bytes = 0 then Inl (Failed (InvalidInput ''search chunk target must be positive''))
      else
        try_op (lift_result (ensure_targets_absent files database_path)) (\<lambda>_.
        build_inner env search_indexes files database_path staging_dir chunk_bytes))"

section \<open>Facts: tokens\<close>

text \<open>\<open>char::to_lowercase\<close> of an alphanumeric character yields characters, each encoded in UTF-8.\<close>

definition lowercase_ok :: "unicode \<Rightarrow> bool" where
  "lowercase_ok U \<longleftrightarrow> (\<forall>c. char_is_alphanumeric U c \<or> c = ''_'' \<longrightarrow> list_all utf8_valid (char_lowercase U c))"

definition term_ok :: "string \<Rightarrow> bool" where
  "term_ok t \<longleftrightarrow> length t \<le> max_term_bytes \<and> utf8_valid t"

lemma push_lowercase_ok: "term_ok t \<Longrightarrow> list_all utf8_valid cs \<Longrightarrow> term_ok (push_lowercase cs t)"
  by (induction cs arbitrary: t) (auto simp: push_lowercase_def term_ok_def utf8_valid_append)

lemma tokenize_chars_ok:
  assumes "lowercase_ok U" and "term_ok t"
  shows "list_all (\<lambda>t. t \<noteq> [] \<and> term_ok t) (tokenize_chars U cs t)"
  using assms(2)
proof (induction cs arbitrary: t)
  case (Cons c cs)
  have "term_ok []" by (simp add: term_ok_def)
  moreover have "term_ok (push_lowercase (char_lowercase U c) t)" if "char_is_alphanumeric U c \<or> c = ''_''"
    by (rule push_lowercase_ok [OF Cons.prems]) (use assms(1) that in \<open>auto simp: lowercase_ok_def\<close>)
  ultimately show ?case using Cons by simp
qed simp

lemma tokenize_ok: "lowercase_ok U \<Longrightarrow> t \<in> set (tokenize U s) \<Longrightarrow> t \<noteq> [] \<and> term_ok t"
  using tokenize_chars_ok [of U "[]" "chars s"] by (auto simp: tokenize_def term_ok_def list_all_iff)

lemma node_terms_ok: "lowercase_ok (be_unicode env) \<Longrightarrow> t \<in> set (node_terms env cs node) \<Longrightarrow> term_ok t"
  using tokenize_ok by (fastforce simp: node_terms_def)

lemma ascii_lowercase_ok: "lowercase_ok ascii_tables"
proof -
  have "utf8_valid [ascii_lower b]" if "ascii_alphanumeric b \<or> b = CHR ''_''" for b
  proof -
    have "byte_of (ascii_lower b) < (128 :: nat)"
      using that by (auto simp: ascii_lower_def ascii_alphanumeric_def ascii_upper_letter_def ascii_lower_letter_def ascii_digit_def)
    then show ?thesis by (simp add: utf8_valid_def utf8_error.simps(2) utf8_head_def utf8_width_def)
  qed
  then have single: "list_all ascii_alphanumeric c \<or> c = ''_'' \<Longrightarrow> length c = 1 \<Longrightarrow> utf8_valid (map ascii_lower c)" for c
    by (cases c) auto
  show ?thesis
    unfolding lowercase_ok_def ascii_tables_def unicode.simps
    using single single [of "''_''"] by auto
qed

section \<open>Facts: the tables of documents\<close>

definition doc_record :: "build_env \<Rightarrow> search_document \<Rightarrow> string" where
  "doc_record env d = write_u32 (word_of_nat (length (be_encode_document env d))) @ be_encode_document env d"

fun offsets_of :: "build_env \<Rightarrow> nat \<Rightarrow> search_document list \<Rightarrow> nat list" where
  "offsets_of env offset [] = []"
| "offsets_of env offset (d # ds) = offset # offsets_of env (offset + length (doc_record env d)) ds"

lemma offsets_of_append:
  "offsets_of env offset (ds @ ds') =
     offsets_of env offset ds @ offsets_of env (offset + length (concat (map (doc_record env) ds))) ds'"
  by (induction ds arbitrary: offset) (auto simp: add.assoc)

lemma length_offsets_of [simp]: "length (offsets_of env offset ds) = length ds"
  by (induction ds arbitrary: offset) auto

text \<open>A document of the build: its record and the terms of its node.\<close>

type_synonym entry = "search_document \<times> string list"

definition node_entry :: "build_env \<Rightarrow> string list \<Rightarrow> search_layer \<Rightarrow> string \<Rightarrow> u32 \<Rightarrow> staged_node \<Rightarrow> entry" where
  "node_entry env columns layer node_type index_order node =
     (\<lparr>sd_id = sg_id node, sd_node_type = node_type, sd_index_order = index_order, sd_layer = layer\<rparr>,
      node_terms env columns node)"

definition stat_of :: "entry \<Rightarrow> document_stat" where
  "stat_of = (\<lambda>(d, ts). \<lparr>st_length = word_of_nat (length ts), st_index_order = sd_index_order d, st_layer = sd_layer d\<rparr>)"

text \<open>The occurrences of the documents: every term of the \<open>i\<close>-th document, with the identifier \<open>i\<close>.\<close>

definition occs_of :: "entry list \<Rightarrow> occurrence list" where
  "occs_of docs = concat (map (\<lambda>(i, d, ts). map (\<lambda>t. Occurrence t (word_of_nat i)) ts) (enumerate 0 docs))"

lemma occs_of_Nil [simp]: "occs_of [] = []"
  by (simp add: occs_of_def)

lemma occs_of_snoc:
  "occs_of (docs @ [(d, ts)]) = occs_of docs @ map (\<lambda>t. Occurrence t (word_of_nat (length docs))) ts"
  by (simp add: occs_of_def enumerate_append_eq)

lemma occs_of_document:
  assumes "occ \<in> set (occs_of docs)" and "length docs < 2 ^ 64"
  shows "unat (oc_document occ) < length docs"
proof -
  from assms(1) obtain i where "i < length docs" "oc_document occ = word_of_nat i"
    by (auto simp: occs_of_def in_set_enumerate_eq)
  then show ?thesis using assms(2) by (simp add: unat_word_of_nat)
qed

text \<open>The occurrences of a term in a document are the occurrences of the term in the terms of its node.\<close>

lemma count_list_Occurrence:
  "count_list (map (\<lambda>t. Occurrence t d') ts) (Occurrence t d) = (if d = d' then count_list ts t else 0)"
  by (induction ts) auto

lemma count_occs_of:
  assumes "length docs < 2 ^ 64"
  shows "count_list (occs_of docs) (Occurrence t d) =
           (if unat d < length docs then count_list (snd (docs ! unat d)) t else 0)"
  using assms
proof (induction docs rule: rev_induct)
  case (snoc x docs)
  obtain e ts where x: "x = (e, ts)" by (cases x)
  have "unat (word_of_nat (length docs) :: u64) = length docs" using snoc.prems by (simp add: unat_word_of_nat)
  then have "d = word_of_nat (length docs) \<longleftrightarrow> unat d = length docs" by (auto simp: word_unat_eq_iff)
  then show ?case using snoc by (auto simp: x occs_of_snoc count_list_Occurrence nth_append)
qed simp

definition build_inv :: "bool \<Rightarrow> build_env \<Rightarrow> entry list \<Rightarrow> build_state \<Rightarrow> bool" where
  "build_inv S env docs st \<longleftrightarrow>
     bs_documents st = documents_magic @ concat (map (doc_record env) (map fst docs))
     \<and> (\<forall>d\<in>fst ` set docs. length (be_encode_document env d) \<le> max_document_record_bytes)
     \<and> bs_offsets st = document_offsets_magic @ concat (map (\<lambda>offset. write_u64 (word_of_nat offset)) (offsets_of env 8 (map fst docs)))
     \<and> bs_lengths st = document_lengths_magic @ concat (map (\<lambda>p. write_document_stat (stat_of p)) docs)
     \<and> unat (bs_document_count st) = length docs \<and> unat (bs_total_tokens st) = length (occs_of docs)
     \<and> (\<forall>ts\<in>snd ` set docs. \<forall>t\<in>set ts. term_ok t)
     \<and> sorter_ready S (occs_of docs) (bs_sorter st)"

text \<open>
  A build of the documents \<open>docs\<close> stays within the bounds of the code: the allocator answers, no term
  is kept in a buffer larger than the address space, no record exceeds the record limit, and no
  counter overflows.
\<close>

definition room :: "build_env \<Rightarrow> entry list \<Rightarrow> bool" where
  "room env docs \<longleftrightarrow> length (occs_of docs) < 2 ^ 20 \<and> length docs < 2 ^ 40 \<and> allocator_ok (be_reserve env)
     \<and> (\<forall>d\<in>fst ` set docs. length (be_encode_document env d) \<le> max_document_record_bytes)
     \<and> (\<forall>ts\<in>snd ` set docs. \<forall>t\<in>set ts. be_term_capacity env t \<le> 2 ^ 61)"

lemma occs_of_append: "length (occs_of (docs @ docs')) = length (occs_of docs) + length (occs_of docs')"
proof (induction docs' rule: rev_induct)
  case (snoc p docs')
  then show ?case by (cases p) (simp add: occs_of_snoc flip: append_assoc)
qed simp

lemma room_prefix: "room env (docs @ docs') \<Longrightarrow> room env docs"
  by (auto simp: room_def occs_of_append)

text \<open>The rules for checked additions inside a total or a partial specification.\<close>

lemma spec_checked_add:
  fixes a b :: "'a::len word"
  assumes "S \<Longrightarrow> unat a + unat b < 2 ^ LENGTH('a)"
  shows "spec S (lift_result (or_invalid message (checked_add a b))) (\<lambda>c. unat c = unat a + unat b)"
proof (cases "checked_add a b")
  case None
  with assms have "\<not> S" by (auto simp: checked_add_None)
  then show ?thesis by (simp add: None)
next
  case (Some c)
  then have "unat c = unat a + unat b" by (simp add: checked_add_Some)
  with Some show ?thesis by simp
qed

lemma index_terms_spec:
  assumes ready: "sorter_ready S occs s" and ok: "\<forall>t\<in>set ts. term_ok t"
    and S: "S \<Longrightarrow> length occs + length ts < 2 ^ 20 \<and> allocator_ok (be_reserve env) \<and> (\<forall>t\<in>set ts. be_term_capacity env t \<le> 2 ^ 61)"
  shows "spec S (lift_result (try_fold (index_term env d) ts (s, 0)))
     (\<lambda>(s', l). sorter_ready S (occs @ map (\<lambda>t. Occurrence t d) ts) s' \<and> unat l = length ts)"
  unfolding lift_try_fold
proof (rule spec_try_fold [where P = "\<lambda>pre (s, l). sorter_ready S (occs @ map (\<lambda>t. Occurrence t d) pre) s \<and> unat (l :: u32) = length pre"])
  fix pre t post and p :: "sorter \<times> u32"
  assume ts: "ts = pre @ t # post"
    and P: "case p of (s, l) \<Rightarrow> sorter_ready S (occs @ map (\<lambda>t. Occurrence t d) pre) s \<and> unat l = length pre"
  obtain s1 l1 where p: "p = (s1, l1)" by (cases p)
  have "indexable (Occurrence t d)" using ts ok by (simp add: term_ok_def indexable_def)
  with P p S ts have push: "spec S (lift_result (sorter_push (be_reserve env) (be_term_capacity env) (Occurrence t d) s1))
      (sorter_ready S ((occs @ map (\<lambda>t. Occurrence t d) pre) @ [Occurrence t d]))"
    by (intro sorter_push_spec) auto
  show "spec S (lift_result (index_term env d t p))
     (\<lambda>(s, l). sorter_ready S (occs @ map (\<lambda>t. Occurrence t d) (pre @ [t])) s \<and> unat l = length (pre @ [t]))"
    unfolding index_term_def p prod.case lift_result_try
    by (rule spec_try [OF push], rule spec_try [OF spec_checked_add]) (use P p S ts in auto)
qed (use ready in simp)

lemma unat_ucast_u32: "unat (ucast (w :: u32) :: u64) = unat w"
  by (simp add: unsigned_ucast_eq take_bit_nat_eq_self order.strict_trans [OF unsigned_less])

text \<open>One node: its record, its offset and its statistics are appended, its terms are pushed.\<close>

lemma store_document_spec:
  assumes inv: "build_inv S env docs (st\<lparr>bs_sorter := s\<rparr>)" and ready: "sorter_ready S (occs_of (docs @ [(d, ts)])) (bs_sorter st)"
    and l: "unat l = length ts" and ok: "\<forall>t\<in>set ts. term_ok t" and S: "S \<Longrightarrow> room env (docs @ [(d, ts)])"
  shows "spec S (lift_result (store_document env d l st))
     (\<lambda>st'. build_inv S env (docs @ [(d, ts)]) st' \<and> bs_index_order st' = bs_index_order st)"
proof -
  let ?w = "write_document (be_encode_document env) d (bs_documents st)"
  have l_word: "word_of_nat (length ts) = l" by (simp flip: l)
  have w: "spec S (lift_result ?w) (\<lambda>(offset, documents). length (be_encode_document env d) \<le> max_document_record_bytes
      \<and> offset = word_of_nat (length (bs_documents st)) \<and> documents = bs_documents st @ doc_record env d)"
    using S by (auto simp: write_document_def Let_def room_def doc_record_def)
  have count: "S \<Longrightarrow> unat (bs_document_count st) + unat (1 :: u64) < 2 ^ LENGTH(64)"
    using S inv by (simp add: build_inv_def room_def)
  have total: "S \<Longrightarrow> unat (bs_total_tokens st) + unat (ucast l :: u64) < 2 ^ LENGTH(64)"
    using S inv l by (simp add: build_inv_def room_def occs_of_snoc unat_ucast_u32)
  show ?thesis
    unfolding store_document_def lift_result_try
    by (rule spec_try [OF w], clarify, unfold lift_result_try, rule spec_try [OF spec_checked_add [OF count]], assumption,
        rule spec_try [OF spec_checked_add [OF total]], assumption)
      (use inv ready ok in \<open>simp add: build_inv_def offsets_of_append documents_magic_def occs_of_snoc stat_of_def l_word l unat_ucast_u32\<close>)
qed

lemma index_node_spec:
  assumes inv: "build_inv S env docs st" and lower: "lowercase_ok (be_unicode env)"
    and S: "S \<Longrightarrow> room env (docs @ [node_entry env cs layer node_type (bs_index_order st) node])"
  shows "spec S (lift_result (index_node env cs layer node_type node st)) (\<lambda>st'.
     build_inv S env (docs @ [node_entry env cs layer node_type (bs_index_order st) node]) st'
     \<and> bs_index_order st' = bs_index_order st)"
proof -
  let ?d = "\<lparr>sd_id = sg_id node, sd_node_type = node_type, sd_index_order = bs_index_order st, sd_layer = layer\<rparr>"
  let ?ts = "node_terms env cs node" and ?id = "bs_document_count st"
  have entry: "node_entry env cs layer node_type (bs_index_order st) node = (?d, ?ts)" by (simp add: node_entry_def)
  have "unat ?id = length docs" using inv by (simp add: build_inv_def)
  then have "word_of_nat (length docs) = ?id" by (simp flip: \<open>unat ?id = length docs\<close>)
  then have occs: "occs_of (docs @ [(?d, ?ts)]) = occs_of docs @ map (\<lambda>t. Occurrence t ?id) ?ts" by (simp add: occs_of_snoc)
  have ok: "\<forall>t\<in>set ?ts. term_ok t" using node_terms_ok [OF lower] by blast
  have terms: "spec S (lift_result (try_fold (index_term env ?id) ?ts (bs_sorter st, 0)))
      (\<lambda>(s', l). sorter_ready S (occs_of (docs @ [(?d, ?ts)])) s' \<and> unat l = length ?ts)"
    unfolding occs using inv ok S by (intro index_terms_spec) (auto simp: build_inv_def room_def entry occs)
  have store: "spec S (lift_result (store_document env ?d l (st\<lparr>bs_sorter := s'\<rparr>)))
     (\<lambda>st'. build_inv S env (docs @ [(?d, ?ts)]) st' \<and> bs_index_order st' = bs_index_order st)"
    if "sorter_ready S (occs_of (docs @ [(?d, ?ts)])) s'" "unat l = length ?ts" for s' l
    using store_document_spec [where st = "st\<lparr>bs_sorter := s'\<rparr>" and s = "bs_sorter st" and d = ?d, OF _ _ that(2) ok] inv that(1) S
    by (simp add: entry)
  show ?thesis
    unfolding index_node_def lift_result_try entry
    by (rule spec_try [OF terms]) (use store in auto)
qed

section \<open>Facts: the documents of a build\<close>

text \<open>
  The documents the build is about, in their order: for every node type of every search index, the
  nodes of its staged files. The search order of a document is the number of the node type.
\<close>

type_synonym job = "string list \<times> search_layer \<times> string"

definition type_entries :: "build_env \<Rightarrow> job \<Rightarrow> u32 \<Rightarrow> string list \<Rightarrow> entry list" where
  "type_entries env = (\<lambda>(columns, layer, node_type) index_order chunk_files.
     map (node_entry env columns layer node_type index_order) (concat (map (\<lambda>bytes. fst (be_decode_nodes env bytes)) chunk_files)))"

definition index_jobs :: "search_index_spec list \<Rightarrow> job list" where
  "index_jobs specs =
     concat (map (\<lambda>index. map (\<lambda>node_type. (si_fields index, layer_from_schema (si_layer index), node_type))
       (si_node_types index)) specs)"

definition job_chunks :: "file_map \<Rightarrow> string \<Rightarrow> job \<Rightarrow> string list" where
  "job_chunks files staging_dir = (\<lambda>(columns, layer, node_type). staged_chunks files staging_dir (stage_file_stem node_type) 0)"

definition job_entries :: "build_env \<Rightarrow> file_map \<Rightarrow> string \<Rightarrow> job list \<Rightarrow> entry list" where
  "job_entries env files staging_dir jobs =
     concat (map (\<lambda>(i, job). type_entries env job (word_of_nat i) (job_chunks files staging_dir job)) (enumerate 0 jobs))"

definition staged_entries :: "build_env \<Rightarrow> file_map \<Rightarrow> string \<Rightarrow> search_index_spec list \<Rightarrow> entry list" where
  "staged_entries env files staging_dir specs = job_entries env files staging_dir (index_jobs specs)"

lemma job_entries_append:
  "\<exists>docs. job_entries env files staging_dir (jobs @ jobs') = job_entries env files staging_dir jobs @ docs"
  by (simp add: job_entries_def enumerate_append_eq)

lemma job_entries_snoc:
  "job_entries env files staging_dir (jobs @ [job]) =
     job_entries env files staging_dir jobs @ type_entries env job (word_of_nat (length jobs)) (job_chunks files staging_dir job)"
  by (simp add: job_entries_def enumerate_append_eq)

text \<open>The staged files of a job decode, and there are fewer jobs than search orders.\<close>

definition jobs_ok :: "build_env \<Rightarrow> file_map \<Rightarrow> string \<Rightarrow> job list \<Rightarrow> bool" where
  "jobs_ok env files staging_dir jobs \<longleftrightarrow>
     length jobs < 2 ^ 32 \<and> (\<forall>job\<in>set jobs. \<forall>bytes\<in>set (job_chunks files staging_dir job). snd (be_decode_nodes env bytes) = None)
     \<and> room env (job_entries env files staging_dir jobs)"

lemma jobs_ok_prefix: "jobs_ok env files staging_dir (jobs @ jobs') \<Longrightarrow> jobs_ok env files staging_dir jobs"
  using job_entries_append [of env files staging_dir jobs jobs'] by (auto simp: jobs_ok_def dest: room_prefix)

lemma stream_staged_nodes_spec:
  assumes inv: "build_inv S env docs st" and lower: "lowercase_ok (be_unicode env)"
    and S: "S \<Longrightarrow> room env (docs @ type_entries env (cs, layer, node_type) (bs_index_order st) [bytes]) \<and> snd (be_decode_nodes env bytes) = None"
  shows "spec S (lift_result (stream_staged_nodes env (index_node env cs layer node_type) bytes st)) (\<lambda>st'.
     build_inv S env (docs @ type_entries env (cs, layer, node_type) (bs_index_order st) [bytes]) st'
     \<and> bs_index_order st' = bs_index_order st)"
proof -
  let ?E = "node_entry env cs layer node_type (bs_index_order st)" and ?nodes = "fst (be_decode_nodes env bytes)"
  let ?P = "\<lambda>pre st1. build_inv S env (docs @ map ?E pre) st1 \<and> bs_index_order st1 = bs_index_order st"
  have entries: "type_entries env (cs, layer, node_type) (bs_index_order st) [bytes] = map ?E ?nodes" by (simp add: type_entries_def)
  have fold: "spec S (lift_result (try_fold (index_node env cs layer node_type) ?nodes st)) (?P ?nodes)"
    unfolding lift_try_fold
  proof (rule spec_try_fold [of ?P])
    show "?P [] st" using inv by simp
    fix pre node post st1 assume nodes: "?nodes = pre @ node # post" and P: "?P pre st1"
    have "S \<Longrightarrow> room env ((docs @ map ?E pre) @ [?E node])"
      by (rule room_prefix [of _ _ "map ?E post"]) (use S entries nodes in simp)
    with index_node_spec [of S env "docs @ map ?E pre" st1 cs layer node_type node] lower P
    show "spec S (lift_result (index_node env cs layer node_type node st1)) (?P (pre @ [node]))" by simp
  qed
  show ?thesis
    unfolding stream_staged_nodes_def case_prod_beta Let_def lift_result_try entries
    by (rule spec_try [OF fold]) (use S in \<open>auto split: option.splits\<close>)
qed

lemma index_node_type_spec:
  assumes inv: "build_inv S env (job_entries env files dir jobs) st" and order: "unat (bs_index_order st) = length jobs"
    and lower: "lowercase_ok (be_unicode env)" and S: "S \<Longrightarrow> jobs_ok env files dir (jobs @ [(cs, layer, node_type)])"
  shows "spec S (lift_result (index_node_type env files dir cs layer node_type st)) (\<lambda>st'.
     build_inv S env (job_entries env files dir (jobs @ [(cs, layer, node_type)])) st'
     \<and> unat (bs_index_order st') = length (jobs @ [(cs, layer, node_type)]))"
proof -
  let ?job = "(cs, layer, node_type)"
  let ?docs = "job_entries env files dir jobs" and ?T = "type_entries env ?job (bs_index_order st)"
  let ?P = "\<lambda>pre st1. build_inv S env (?docs @ ?T pre) st1 \<and> bs_index_order st1 = bs_index_order st"
  have "word_of_nat (length jobs) = bs_index_order st" by (simp flip: order)
  then have entries: "job_entries env files dir (jobs @ [?job]) = ?docs @ ?T (job_chunks files dir ?job)" by (simp add: job_entries_snoc)
  have T: "?T (xs @ ys) = ?T xs @ ?T ys" for xs ys by (simp add: type_entries_def)
  have chunk_files: "staged_chunks files dir (stage_file_stem node_type) 0 = job_chunks files dir ?job" by (simp add: job_chunks_def)
  have fold: "spec S (lift_result (try_fold (stream_staged_nodes env (index_node env cs layer node_type)) (job_chunks files dir ?job) st))
      (?P (job_chunks files dir ?job))"
    unfolding lift_try_fold
  proof (rule spec_try_fold [of ?P])
    show "?P [] st" using inv by (simp add: type_entries_def)
    fix pre bytes post st1 assume files: "job_chunks files dir ?job = pre @ bytes # post" and P: "?P pre st1"
    have "room env ((?docs @ ?T pre) @ ?T [bytes])" if S
      by (rule room_prefix [of _ _ "?T post"]) (use S [OF that] entries files in \<open>simp add: jobs_ok_def flip: T\<close>)
    moreover have "snd (be_decode_nodes env bytes) = None" if S
      using S [OF that] files by (simp add: jobs_ok_def)
    ultimately show "spec S (lift_result (stream_staged_nodes env (index_node env cs layer node_type) bytes st1)) (?P (pre @ [bytes]))"
      using stream_staged_nodes_spec [of S env "?docs @ ?T pre" st1 cs layer node_type bytes] lower P by (simp add: T)
  qed
  have room: "S \<Longrightarrow> unat (bs_index_order st) + unat (1 :: u32) < 2 ^ LENGTH(32)" using S order by (simp add: jobs_ok_def)
  have "build_inv S env docs (st1\<lparr>bs_index_order := n\<rparr>) = build_inv S env docs st1" for docs st1 n by (simp add: build_inv_def)
  then show ?thesis
    unfolding index_node_type_def lift_result_try entries chunk_files
    by (intro spec_try [OF fold] spec_try [OF spec_checked_add]) (use room order in auto)
qed

lemma index_spec_spec:
  assumes inv: "build_inv S env (job_entries env files dir jobs) st" and order: "unat (bs_index_order st) = length jobs"
    and lower: "lowercase_ok (be_unicode env)" and S: "S \<Longrightarrow> jobs_ok env files dir (jobs @ index_jobs [index])"
  shows "spec S (lift_result (index_spec env files dir index st)) (\<lambda>st'.
     build_inv S env (job_entries env files dir (jobs @ index_jobs [index])) st'
     \<and> unat (bs_index_order st') = length (jobs @ index_jobs [index]))"
proof -
  let ?job = "\<lambda>node_type. (si_fields index, layer_from_schema (si_layer index), node_type)"
  let ?P = "\<lambda>pre st1. build_inv S env (job_entries env files dir (jobs @ map ?job pre)) st1
     \<and> unat (bs_index_order st1) = length (jobs @ map ?job pre)"
  have jobs: "index_jobs [index] = map ?job (si_node_types index)" by (simp add: index_jobs_def)
  show ?thesis
    unfolding index_spec_def lift_try_fold jobs
  proof (rule spec_try_fold [of ?P])
    show "?P [] st" using inv order by simp
    fix pre node_type post st1 assume types: "si_node_types index = pre @ node_type # post" and P: "?P pre st1"
    have "S \<Longrightarrow> jobs_ok env files dir ((jobs @ map ?job pre) @ [?job node_type])"
      by (rule jobs_ok_prefix [of _ _ _ _ "map ?job post"]) (use S jobs types in simp)
    with index_node_type_spec [of S env files dir "jobs @ map ?job pre" st1] lower P
    show "spec S (lift_result (index_node_type env files dir (si_fields index) (layer_from_schema (si_layer index)) node_type st1))
        (?P (pre @ [node_type]))" by simp
  qed
qed

lemma index_specs_spec:
  assumes inv: "build_inv S env [] st" and order: "bs_index_order st = 0" and lower: "lowercase_ok (be_unicode env)"
    and S: "S \<Longrightarrow> jobs_ok env files dir (index_jobs specs)"
  shows "spec S (lift_result (try_fold (index_spec env files dir) specs st))
     (build_inv S env (staged_entries env files dir specs))"
proof -
  let ?P = "\<lambda>pre st1. build_inv S env (job_entries env files dir (index_jobs pre)) st1
     \<and> unat (bs_index_order st1) = length (index_jobs pre)"
  have split: "index_jobs (xs @ ys) = index_jobs xs @ index_jobs ys" for xs ys by (simp add: index_jobs_def)
  have "spec S (lift_result (try_fold (index_spec env files dir) specs st)) (?P specs)"
    unfolding lift_try_fold
  proof (rule spec_try_fold [of ?P])
    show "?P [] st" using inv order by (simp add: index_jobs_def job_entries_def)
    fix pre index post st1 assume specs: "specs = pre @ index # post" and P: "?P pre st1"
    have "S \<Longrightarrow> jobs_ok env files dir (index_jobs pre @ index_jobs [index])"
      by (rule jobs_ok_prefix [of _ _ _ _ "index_jobs post"]) (use S specs in \<open>simp flip: split\<close>)
    with index_spec_spec [of S env files dir "index_jobs pre" st1 index] lower P
    show "spec S (lift_result (index_spec env files dir index st1)) (?P (pre @ [index]))" by (simp add: split [of pre "[index]"])
  qed
  then show ?thesis by (rule spec_mono) (simp add: staged_entries_def)
qed

end
