(* ===== verification/SearchQuery.thy ===== *)
theory SearchQuery
  imports SearchBuild
begin

text \<open>
  Validating a sidecar and ranking documents (\<^verbatim>\<open>src/search_index/read.rs\<close>). The arithmetic of \<open>f64\<close> is
  the record \<open>float_ops\<close>, over which the scores are computed exactly as the source writes them;
  \<open>partial_cmp\<close> is its comparison. JSON decoding and SHA-256 are parameters as in the build.
\<close>

section \<open>Validation\<close>

record read_env =
  re_decode_document :: "string \<Rightarrow> string + search_document"
  re_parse_metadata :: "string \<Rightarrow> string + sidecar_file_metadata"
  re_sha256 :: "string \<Rightarrow> string"

definition max_metadata_bytes :: nat where
  "max_metadata_bytes = 64 * 1024"

definition invalid :: "string \<Rightarrow> native_error" where
  "invalid message = InvalidInput message"

definition validate_sidecar_file ::
  "read_env \<Rightarrow> file_map \<Rightarrow> string \<Rightarrow> search_backend_metadata \<Rightarrow> bool \<Rightarrow> string \<Rightarrow> unit \<Rightarrow> unit result" where
  "validate_sidecar_file env files database_path metadata checksums suffix _ =
     (case map_of (sb_files metadata) suffix of
        None \<Rightarrow> Inl (invalid (''search backend metadata is missing '' @ suffix))
      | Some expected \<Rightarrow>
          let path = sidecar_path database_path suffix in
          case files path of
            None \<Rightarrow> Inl (invalid (''search sidecar file is missing: '' @ path))
          | Some bytes \<Rightarrow>
              if checksums \<and> re_sha256 env bytes \<noteq> expected
              then Inl (invalid (''search sidecar checksum mismatch: '' @ path))
              else Inr ())"

definition validate_metadata ::
  "read_env \<Rightarrow> file_map \<Rightarrow> string \<Rightarrow> search_backend_metadata \<Rightarrow> bool \<Rightarrow> unit result" where
  "validate_metadata env files database_path metadata checksums =
     (if sb_backend metadata \<noteq> backend_name \<or> sb_format_version metadata \<noteq> ucast format_version
      then Inl (invalid ''unsupported search sidecar backend metadata'')
      else
        try_op (open_file files (sidecar_path database_path metadata_suffix)) (\<lambda>bytes.
        if length bytes > max_metadata_bytes
        then Inl (invalid ''search sidecar metadata exceeds the read limit'')
        else
          case re_parse_metadata env bytes of
            Inl message \<Rightarrow> Inl (Json message)
          | Inr m \<Rightarrow>
              if sf_backend m \<noteq> sb_backend metadata \<or> sf_format_version m \<noteq> sb_format_version metadata
                 \<or> sf_document_count m \<noteq> sb_document_count metadata \<or> sf_term_count m \<noteq> sb_term_count metadata
                 \<or> sf_total_tokens m \<noteq> sb_total_tokens metadata
              then Inl (invalid ''search sidecar file metadata does not match manifest metadata'')
              else try_fold (validate_sidecar_file env files database_path metadata checksums) sidecar_suffixes ()))"

fun validate_documents :: "read_env \<Rightarrow> string \<Rightarrow> string \<Rightarrow> nat list \<Rightarrow> string \<Rightarrow> unit result" where
  "validate_documents env lengths documents [] offsets = Inr ()"
| "validate_documents env lengths documents (document_id # ids) offsets =
     try_op (read_u64 offsets) (\<lambda>(offset, offsets1).
     try_op (read_document_stat_at lengths (word_of_nat (length document_lengths_magic)) (word_of_nat document_id)) (\<lambda>stat.
     try_op (read_document_at (re_decode_document env) documents offset max_document_record_bytes) (\<lambda>document.
     if sd_index_order document \<noteq> st_index_order stat \<or> sd_layer document \<noteq> st_layer stat
     then Inl (invalid ''search document metadata does not match length table'')
     else validate_documents env lengths documents ids offsets1)))"

definition expected_length :: "string \<Rightarrow> u64 \<Rightarrow> u64 \<Rightarrow> string \<Rightarrow> u64 result" where
  "expected_length magic document_count record_bytes message =
     or_invalid message (Option.bind (checked_mul document_count record_bytes)
       (checked_add (word_of_nat (length magic))))"

definition validate :: "read_env \<Rightarrow> file_map \<Rightarrow> string \<Rightarrow> search_backend_metadata \<Rightarrow> unit run" where
  "validate env files database_path metadata =
     try_op (lift_result (validate_metadata env files database_path metadata True)) (\<lambda>_.
     try_op (lift_result (open_file files (sidecar_path database_path document_offsets_suffix))) (\<lambda>offsets.
     try_op (lift_result (open_file files (sidecar_path database_path document_lengths_suffix))) (\<lambda>lengths.
     try_op (lift_result (open_file files (sidecar_path database_path documents_suffix))) (\<lambda>documents.
     try_op (lift_result (read_magic offsets document_offsets_magic)) (\<lambda>offsets_reader.
     try_op (lift_result (read_magic lengths document_lengths_magic)) (\<lambda>_.
     try_op (lift_result (read_magic documents documents_magic)) (\<lambda>_.
     try_op (lift_result (expected_length document_offsets_magic (sb_document_count metadata) document_offset_bytes
               ''search document-offset size overflow'')) (\<lambda>expected_offsets.
     try_op (lift_result (expected_length document_lengths_magic (sb_document_count metadata) document_stat_bytes
               ''search document-length size overflow'')) (\<lambda>expected_lengths.
     if length offsets \<noteq> unat expected_offsets
     then Inl (Failed (invalid ''search document-offset table has invalid length''))
     else if length lengths \<noteq> unat expected_lengths
     then Inl (Failed (invalid ''search document-length table has invalid length''))
     else
       try_op (lift_result (validate_documents env lengths documents [0..<unat (sb_document_count metadata)] offsets_reader))
         (\<lambda>_.
       try_op (lift_result (open_file files (sidecar_path database_path lexicon_suffix))) (\<lambda>lexicon.
       try_op (lift_result (open_file files (sidecar_path database_path postings_suffix))) (\<lambda>postings.
       validate_lexicon_and_postings lexicon postings (sb_document_count metadata) (sb_term_count metadata)))))))))))))"

section \<open>Facts: the tables of documents\<close>

lemma drop_records: "(\<And>x. length (f x) = k) \<Longrightarrow> drop (k * i) (concat (map f xs)) = concat (map f (drop i xs))"
proof (induction xs arbitrary: i)
  case (Cons x xs)
  then show ?case by (cases i) auto
qed simp

lemma length_fixed_records: "(\<And>x. length (f x) = k) \<Longrightarrow> length (concat (map f xs)) = k * length xs"
  by (induction xs) auto

lemma length_write_document_stat [simp]: "length (write_document_stat stat) = 12"
  by (simp add: write_document_stat_def)

lemma layer_from_code_layer [simp]: "layer_from_code (layer_code l) = Some l"
  by (cases l) (simp_all add: layer_code_def layer_from_code_def)

lemma read_document_stat_at_table:
  assumes "i < length docs" and "length docs < 2 ^ 40"
  shows "read_document_stat_at (document_lengths_magic @ concat (map (\<lambda>p. write_document_stat (stat_of p)) docs)) 8 (word_of_nat i) =
           Inr (stat_of (docs ! i))"
proof -
  let ?w = "\<lambda>p. write_document_stat (stat_of p)"
  have i: "unat (word_of_nat i :: u64) = i" by (rule small_u64) (use assms in simp)
  obtain a where a: "checked_mul (word_of_nat i :: u64) document_stat_bytes = Some a" "unat a = i * 12"
    using assms i by (auto simp: checked_mul_def document_stat_bytes_def unat_word_ariths)
  obtain b where b: "checked_add a 8 = Some b" "unat b = 12 * i + 8"
    using assms a by (auto simp: checked_add_def unat_word_ariths)
  have "drop (12 * i + 8) (document_lengths_magic @ concat (map ?w docs)) = drop (12 * i) (concat (map ?w docs))"
    by (simp add: document_lengths_magic_def flip: drop_drop)
  also have "\<dots> = ?w (docs ! i) @ concat (map ?w (drop (Suc i) docs))"
    using assms(1) by (simp add: drop_records Cons_nth_drop_Suc [symmetric])
  finally have drop: "drop (unat b) (document_lengths_magic @ concat (map ?w docs)) = ?w (docs ! i) @ concat (map ?w (drop (Suc i) docs))"
    by (simp only: b)
  have "read_exact 4 (c # CHR 0x00 # CHR 0x00 # CHR 0x00 # rest) = Inr ([c, CHR 0x00, CHR 0x00, CHR 0x00], rest)" for c rest
    by (simp add: read_exact_def)
  then show ?thesis
    unfolding read_document_stat_at_def a(1) b(1) bind.bind_lunit or_invalid_simps try_op_simps drop
      write_document_stat_def [of "stat_of (docs ! i)"]
    by simp
qed

definition decodes :: "build_env \<Rightarrow> read_env \<Rightarrow> search_document \<Rightarrow> bool" where
  "decodes env renv d \<longleftrightarrow> re_decode_document renv (be_encode_document env d) = Inr d"

lemma max_document_u32: "n \<le> max_document_record_bytes \<Longrightarrow> unat (word_of_nat n :: u32) = n"
  by (rule small_u32) (simp add: max_document_record_bytes_def)

lemma read_document_at_record:
  assumes "unat offset = length front" and "length (be_encode_document env d) \<le> max_document_record_bytes"
    and "decodes env renv d"
  shows "read_document_at (re_decode_document renv) (front @ doc_record env d @ rest) offset max_document_record_bytes = Inr d"
  using assms by (simp add: read_document_at_def doc_record_def max_document_u32 decodes_def)

lemma length_doc_records:
  assumes "\<forall>d\<in>set ds. length (be_encode_document env d) \<le> max_document_record_bytes"
  shows "length (concat (map (doc_record env) ds)) \<le> length ds * (max_document_record_bytes + 4)"
  using assms by (induction ds) (auto simp: doc_record_def)

text \<open>The tables a build leaves, read document by document.\<close>

definition offsets_bytes :: "nat list \<Rightarrow> string" where
  "offsets_bytes offsets = concat (map (\<lambda>offset. write_u64 (word_of_nat offset)) offsets)"

definition tables_ok :: "build_env \<Rightarrow> read_env \<Rightarrow> entry list \<Rightarrow> bool" where
  "tables_ok env renv docs \<longleftrightarrow> length docs < 2 ^ 40
     \<and> (\<forall>d\<in>fst ` set docs. length (be_encode_document env d) \<le> max_document_record_bytes \<and> decodes env renv d)"

lemma offset_u64:
  assumes "tables_ok env renv docs" and "docs = front @ behind"
  shows "unat (word_of_nat (8 + length (concat (map (doc_record env) (map fst front)))) :: u64) =
           8 + length (concat (map (doc_record env) (map fst front)))"
proof (rule unat_word_of_nat)
  have "length (concat (map (doc_record env) (map fst front))) \<le> length front * (max_document_record_bytes + 4)"
    using length_doc_records [of "map fst front" env] assms by (auto simp: tables_ok_def)
  moreover have "length front * (max_document_record_bytes + 4) \<le> 2 ^ 40 * (max_document_record_bytes + 4)"
    using assms by (intro mult_le_mono1) (simp add: tables_ok_def)
  ultimately show "8 + length (concat (map (doc_record env) (map fst front))) < 2 ^ LENGTH(64)"
    by (simp add: max_document_record_bytes_def)
qed

lemma validate_documents_ok:
  assumes ok: "tables_ok env renv docs" and docs: "docs = front @ behind"
  defines "lengths \<equiv> document_lengths_magic @ concat (map (\<lambda>p. write_document_stat (stat_of p)) docs)"
    and "documents \<equiv> documents_magic @ concat (map (doc_record env) (map fst docs))"
  shows "validate_documents renv lengths documents [length front..<length docs]
           (offsets_bytes (offsets_of env (8 + length (concat (map (doc_record env) (map fst front)))) (map fst behind))) = Inr ()"
  using docs
proof (induction behind arbitrary: front)
  case Nil
  then show ?case by simp
next
  case (Cons p behind)
  let ?offset = "8 + length (concat (map (doc_record env) (map fst front)))"
  obtain d ts where p: "p = (d, ts)" by (cases p)
  have len: "length front < length docs" "docs ! length front = p" using Cons.prems by simp_all
  have d: "length (be_encode_document env d) \<le> max_document_record_bytes" "decodes env renv d"
    using ok Cons.prems p by (auto simp: tables_ok_def)
  have stat: "read_document_stat_at lengths 8 (word_of_nat (length front)) = Inr (stat_of p)"
    unfolding lengths_def using read_document_stat_at_table [OF len(1)] ok len(2) by (simp add: tables_ok_def)
  have documents: "documents = (documents_magic @ concat (map (doc_record env) (map fst front)))
      @ doc_record env d @ concat (map (doc_record env) (map fst behind))"
    using Cons.prems p by (simp add: documents_def)
  have "read_document_at (re_decode_document renv) documents (word_of_nat ?offset) max_document_record_bytes = Inr d"
    unfolding documents
    by (rule read_document_at_record [OF _ d], subst offset_u64 [OF ok Cons.prems]) (simp add: documents_magic_def)
  moreover have "[length front..<length docs] = length front # [length (front @ [p])..<length docs]"
    using len(1) by (simp add: upt_conv_Cons)
  moreover have "(word_of_nat (length document_lengths_magic) :: u64) = 8" by (simp add: document_lengths_magic_def)
  ultimately show ?case
    using Cons.IH [of "front @ [p]"] Cons.prems stat
    by (simp add: p offsets_bytes_def stat_of_def add.assoc del: upt.simps of_nat_add of_nat_Suc)
qed

section \<open>Facts: a build is valid\<close>

lemma indexable_occs_of: "\<forall>ts\<in>snd ` set docs. \<forall>t\<in>set ts. term_ok t \<Longrightarrow> list_all indexable (occs_of docs)"
proof (induction docs rule: rev_induct)
  case (snoc p docs)
  then show ?case by (cases p) (auto simp: occs_of_snoc list_all_iff indexable_def term_ok_def)
qed simp

definition start_state :: "sorter \<Rightarrow> build_state" where
  "start_state occurrences =
     \<lparr>bs_sorter = occurrences, bs_documents = documents_magic, bs_offsets = document_offsets_magic,
      bs_lengths = document_lengths_magic, bs_document_count = 0, bs_total_tokens = 0, bs_index_order = 0\<rparr>"

lemma start_state_inv: "sorter_ready S [] s \<Longrightarrow> build_inv S env [] (start_state s) \<and> bs_index_order (start_state s) = 0"
  by (simp add: build_inv_def start_state_def)

lemma indexable_build: "build_inv S env docs st \<Longrightarrow> list_all indexable (occs_of docs)"
  by (rule indexable_occs_of) (simp add: build_inv_def)

lemma build_files:
  assumes "build env specs files db dir chunk_bytes = Inr res" and lower: "lowercase_ok (be_unicode env)"
  obtains docs st index where "docs = staged_entries env files dir specs" and "build_inv False env docs st"
    and "list_all indexable (occs_of docs)" and "write_final_index (run_file (sort (occs_of docs))) = Inr index"
    and "br_files res = write_sidecar db (sidecar_contents env st index) files"
    and "br_metadata res = backend_metadata_of env st index"
proof -
  let ?docs = "staged_entries env files dir specs"
  from assms(1) have pos: "0 < chunk_bytes" and inner: "build_inner env specs files db dir chunk_bytes = Inr res"
    by (auto simp: build_def try_op_Inr_iff split: if_splits)
  from sorter_new_ready [OF pos, of False] obtain s0 where s0: "sorter_new chunk_bytes = Inr s0" "sorter_ready False [] s0" by auto
  from inner s0 obtain st where st: "try_fold (index_spec env files dir) specs (start_state s0) = Inr st"
    by (auto simp: build_inner_def try_op_Inr_iff start_state_def lift_result_Inr_iff)
  from index_specs_spec [OF _ _ lower, of False "start_state s0" files dir specs] start_state_inv [OF s0(2)] st
  have inv: "build_inv False env ?docs st" by simp
  from inner s0 st obtain path sorted where fin: "sorter_finish (bs_sorter st) = Inr (path, sorted)"
    by (auto simp: build_inner_def try_op_Inr_iff start_state_def)
  from sorter_finish_spec [of False "occs_of ?docs" "bs_sorter st"] inv fin
  have files: "so_files sorted = [path \<mapsto> run_file (sort (occs_of ?docs))]" by (simp add: build_inv_def)
  from inner s0 st fin files obtain index where index: "write_final_index (run_file (sort (occs_of ?docs))) = Inr index"
    by (auto simp: build_inner_def try_op_Inr_iff open_file_def start_state_def)
  show thesis
    by (rule that [OF refl inv indexable_build [OF inv] index]) (use inner s0 st fin files index in
      \<open>auto simp: build_inner_def try_op_Inr_iff open_file_def lift_result_Inr_iff start_state_def\<close>)
qed

lemma build_succeeds:
  assumes lower: "lowercase_ok (be_unicode env)" and jobs: "jobs_ok env files dir (index_jobs specs)"
    and chunk: "0 < chunk_bytes" "chunk_bytes \<le> 2 ^ 62"
    and absent: "\<forall>suffix\<in>set sidecar_suffixes. files (sidecar_path db suffix) = None"
  shows "\<exists>res. build env specs files db dir chunk_bytes = Inr res"
proof -
  let ?docs = "staged_entries env files dir specs"
  from sorter_new_ready [OF chunk(1), of True] chunk(2) obtain s0 where s0: "sorter_new chunk_bytes = Inr s0" "sorter_ready True [] s0" by auto
  from index_specs_spec [OF _ _ lower, of True "start_state s0" files dir specs] start_state_inv [OF s0(2)] jobs
  obtain st where st: "try_fold (index_spec env files dir) specs (start_state s0) = Inr st" and inv: "build_inv True env ?docs st"
    by (auto simp: spec_True_iff lift_result_Inr_iff)
  have small: "length (occs_of ?docs) < 2 ^ 20" using jobs by (simp add: jobs_ok_def room_def staged_entries_def)
  from sorter_finish_spec [of True "occs_of ?docs" "bs_sorter st"] inv small
  obtain path sorted where fin: "sorter_finish (bs_sorter st) = Inr (path, sorted)"
    "so_files sorted = [path \<mapsto> run_file (sort (occs_of ?docs))]" "so_spill_bytes sorted < 2 ^ 60"
    by (auto simp: spec_True_iff build_inv_def)
  have "list_all indexable (sort (occs_of ?docs))" using indexable_build [OF inv] by (simp add: list_all_iff)
  from write_final_index_table [OF this] small obtain index where
    index: "write_final_index (run_file (sort (occs_of ?docs))) = Inr index" "fx_bytes index < 2 ^ 40" by auto
  then have "\<exists>n. add_u64 (so_spill_bytes sorted) (fx_bytes index) = Some n" using fin(3) by (simp add: add_u64_def max_u64_def)
  with s0(1) st fin index have "\<exists>res. build_inner env specs files db dir chunk_bytes = Inr res"
    by (auto simp: build_inner_def open_file_def remove_file_def start_state_def)
  moreover have "ensure_targets_absent files db = Inr ()" using absent by (auto simp: ensure_targets_absent_def find_None_iff split: option.splits dest: sym)
  ultimately show ?thesis using chunk(1) by (simp add: build_def)
qed

lemma map_of_btree_distinct: "distinct (map fst kvs) \<Longrightarrow> map_of (btree_of_list kvs) = map_of kvs"
proof (induction kvs)
  case (Cons kv kvs)
  obtain k v where kv: "kv = (k, v)" by (cases kv)
  with Cons.prems have "map_of kvs k = None" by (simp add: map_of_eq_None_iff)
  with Cons kv show ?case by (auto simp: map_of_btree_of_list fun_eq_iff map_add_def split: option.splits)
qed (simp add: map_of_btree_of_list)

lemma write_sidecar_lookup:
  assumes "(suffix, bytes) \<in> set contents" and "distinct (map fst contents)"
  shows "write_sidecar db contents files (sidecar_path db suffix) = Some bytes"
  using assms
proof (induction contents rule: rev_induct)
  case (snoc c contents)
  then show ?case by (cases c) (auto simp: write_sidecar_def sidecar_path_def rev_image_eqI)
qed simp

lemma sidecar_contents_suffixes: "map fst (sidecar_contents env st index) = sidecar_suffixes"
  by (simp add: sidecar_contents_def sidecar_suffixes_def)

lemma distinct_sidecar_suffixes: "distinct sidecar_suffixes"
  by (simp add: sidecar_suffixes_def suffix_defs)

lemma sidecar_lookup:
  assumes "br_files res = write_sidecar db (sidecar_contents env st index) files"
    and "(suffix, bytes) \<in> set (sidecar_contents env st index)"
  shows "br_files res (sidecar_path db suffix) = Some bytes"
  unfolding assms(1)
  by (rule write_sidecar_lookup [OF assms(2)]) (simp add: sidecar_contents_suffixes distinct_sidecar_suffixes)

lemma sidecar_opened:
  assumes "br_files res = write_sidecar db (sidecar_contents env st index) files"
    and "(suffix, bytes) \<in> set (sidecar_contents env st index)"
  shows "open_file (br_files res) (sidecar_path db suffix) = Inr bytes"
  using sidecar_lookup [OF assms] by (simp add: open_file_def)

lemma try_fold_unit: "(\<And>x. x \<in> set xs \<Longrightarrow> f x () = Inr ()) \<Longrightarrow> try_fold f xs () = Inr ()"
  by (induction xs) auto

lemma validate_metadata_build:
  assumes files: "br_files res = write_sidecar db (sidecar_contents env st index) files"
    and meta: "br_metadata res = backend_metadata_of env st index"
    and parse: "re_parse_metadata renv (be_print_metadata env (file_metadata_of st index) @ [CHR 0x0A]) = Inr (file_metadata_of st index)"
    and small: "length (be_print_metadata env (file_metadata_of st index)) < max_metadata_bytes"
    and sha: "re_sha256 renv = be_sha256 env"
  shows "validate_metadata renv (br_files res) db (br_metadata res) checksums = Inr ()"
proof -
  note lookup = sidecar_lookup [OF files]
  have "validate_sidecar_file renv (br_files res) db (br_metadata res) checksums suffix () = Inr ()"
    if suffix: "suffix \<in> set sidecar_suffixes" for suffix
  proof -
    from suffix obtain bytes where bytes: "(suffix, bytes) \<in> set (sidecar_contents env st index)"
      using sidecar_contents_suffixes [of env st index] by (metis (no_types, lifting) fst_conv imageE list.set_map surj_pair)
    let ?sums = "map (\<lambda>(suffix, bytes). (suffix, be_sha256 env bytes)) (sidecar_contents env st index)"
    have "map fst ?sums = sidecar_suffixes" by (simp add: sidecar_contents_def sidecar_suffixes_def)
    then have "map_of (sb_files (br_metadata res)) = map_of ?sums"
      using distinct_sidecar_suffixes by (simp add: meta backend_metadata_of_def map_of_btree_distinct)
    moreover have "map_of ?sums suffix = Some (be_sha256 env bytes)"
      using bytes \<open>map fst ?sums = sidecar_suffixes\<close> distinct_sidecar_suffixes by (intro map_of_is_SomeI) force+
    ultimately show ?thesis using lookup [OF bytes] sha by (simp add: validate_sidecar_file_def)
  qed
  then have "try_fold (validate_sidecar_file renv (br_files res) db (br_metadata res) checksums) sidecar_suffixes () = Inr ()"
    by (rule try_fold_unit)
  moreover have "br_files res (sidecar_path db metadata_suffix) = Some (be_print_metadata env (file_metadata_of st index) @ [CHR 0x0A])"
    by (rule lookup) (simp add: sidecar_contents_def)
  ultimately show ?thesis
    using parse small unfolding validate_metadata_def
    by (simp add: meta backend_metadata_of_def open_file_def file_metadata_of_def)
qed

definition file_metadata :: "search_backend_metadata \<Rightarrow> sidecar_file_metadata" where
  "file_metadata m =
     \<lparr>sf_backend = sb_backend m, sf_format_version = sb_format_version m, sf_document_count = sb_document_count m,
      sf_term_count = sb_term_count m, sf_total_tokens = sb_total_tokens m\<rparr>"

lemma file_metadata_build: "file_metadata (backend_metadata_of env st index) = file_metadata_of st index"
  by (simp add: file_metadata_def backend_metadata_of_def file_metadata_of_def)

lemma length_magics: "length document_offsets_magic = 8" "length document_lengths_magic = 8" "length documents_magic = 8"
  by (simp_all add: magic_defs)

lemma expected_length_table:
  assumes "unat document_count = n" and "n < 2 ^ 40" and "unat record_bytes \<le> 12" and "length magic = 8"
  shows "\<exists>w. expected_length magic document_count record_bytes message = Inr w \<and> unat w = 8 + n * unat record_bytes"
proof -
  have "n * unat record_bytes \<le> 2 ^ 40 * 12" using assms by (intro mult_le_mono) simp_all
  moreover from this have "unat (document_count * record_bytes) = n * unat record_bytes"
    using assms by (simp add: unat_word_ariths)
  ultimately show ?thesis
    using assms by (simp add: expected_length_def checked_mul_def checked_add_def unat_word_ariths)
qed

text \<open>The files of a build, opened again.\<close>

definition documents_file :: "build_env \<Rightarrow> entry list \<Rightarrow> string" where
  "documents_file env docs = documents_magic @ concat (map (doc_record env) (map fst docs))"

definition offsets_file :: "build_env \<Rightarrow> entry list \<Rightarrow> string" where
  "offsets_file env docs = document_offsets_magic @ offsets_bytes (offsets_of env 8 (map fst docs))"

definition lengths_file :: "entry list \<Rightarrow> string" where
  "lengths_file docs = document_lengths_magic @ concat (map (\<lambda>p. write_document_stat (stat_of p)) docs)"

lemma build_opened:
  assumes build: "build env specs files db dir chunk_bytes = Inr res"
    and lower: "lowercase_ok (be_unicode env)"
    and decode: "\<forall>d\<in>fst ` set (staged_entries env files dir specs). decodes env renv d"
    and parse: "re_parse_metadata renv (be_print_metadata env (file_metadata (br_metadata res)) @ [CHR 0x0A]) = Inr (file_metadata (br_metadata res))"
    and small: "length (be_print_metadata env (file_metadata (br_metadata res))) < max_metadata_bytes"
    and sha: "re_sha256 renv = be_sha256 env"
    and tokens: "unat (sb_total_tokens (br_metadata res)) < 2 ^ 20"
    and documents: "unat (sb_document_count (br_metadata res)) < 2 ^ 40"
  obtains docs index where "docs = staged_entries env files dir specs" "tables_ok env renv docs" "list_all indexable (occs_of docs)"
    and "length (occs_of docs) < 2 ^ 20" "unat (sb_total_tokens (br_metadata res)) = length (occs_of docs)"
    and "unat (sb_document_count (br_metadata res)) = length docs" "length docs < 2 ^ 40"
    and "sb_term_count (br_metadata res) = fx_term_count index"
    and "write_final_index (run_file (sort (occs_of docs))) = Inr index"
    and "\<And>checksums. validate_metadata renv (br_files res) db (br_metadata res) checksums = Inr ()"
    and "open_file (br_files res) (sidecar_path db document_offsets_suffix) = Inr (offsets_file env docs)"
    and "open_file (br_files res) (sidecar_path db document_lengths_suffix) = Inr (lengths_file docs)"
    and "open_file (br_files res) (sidecar_path db documents_suffix) = Inr (documents_file env docs)"
    and "open_file (br_files res) (sidecar_path db lexicon_suffix) = Inr (fx_lexicon index)"
    and "open_file (br_files res) (sidecar_path db postings_suffix) = Inr (fx_postings index)"
proof -
  from build_files [OF build lower] obtain docs st index where docs: "docs = staged_entries env files dir specs"
    and inv: "build_inv False env docs st" and ok: "list_all indexable (occs_of docs)"
    and index: "write_final_index (run_file (sort (occs_of docs))) = Inr index"
    and res: "br_files res = write_sidecar db (sidecar_contents env st index) files"
    and meta: "br_metadata res = backend_metadata_of env st index" by metis
  have n: "unat (sb_document_count (br_metadata res)) = length docs" "unat (sb_total_tokens (br_metadata res)) = length (occs_of docs)"
    "sb_term_count (br_metadata res) = fx_term_count index" "length docs < 2 ^ 40" "length (occs_of docs) < 2 ^ 20"
    using inv documents tokens by (simp_all add: build_inv_def meta backend_metadata_of_def)
  have metadata: "validate_metadata renv (br_files res) db (br_metadata res) checksums = Inr ()" for checksums
    using parse small sha by (intro validate_metadata_build [OF res meta]) (simp_all add: meta file_metadata_build)
  have content: "bs_documents st = documents_file env docs" "bs_offsets st = offsets_file env docs" "bs_lengths st = lengths_file docs"
    using inv by (simp_all add: build_inv_def offsets_bytes_def documents_file_def offsets_file_def lengths_file_def)
  have opened: "open_file (br_files res) (sidecar_path db document_offsets_suffix) = Inr (offsets_file env docs)"
    "open_file (br_files res) (sidecar_path db document_lengths_suffix) = Inr (lengths_file docs)"
    "open_file (br_files res) (sidecar_path db documents_suffix) = Inr (documents_file env docs)"
    "open_file (br_files res) (sidecar_path db lexicon_suffix) = Inr (fx_lexicon index)"
    "open_file (br_files res) (sidecar_path db postings_suffix) = Inr (fx_postings index)"
    by (rule sidecar_opened [OF res], simp add: sidecar_contents_def content)+
  have "tables_ok env renv docs" using inv n decode by (simp add: build_inv_def tables_ok_def docs)
  from that [OF docs this ok n(5,2,1,4,3) index metadata opened] show thesis .
qed

lemma read_tables_magic:
  "read_magic (offsets_file env docs) document_offsets_magic = Inr (offsets_bytes (offsets_of env 8 (map fst docs)))"
  "read_magic (lengths_file docs) document_lengths_magic = Inr (concat (map (\<lambda>p. write_document_stat (stat_of p)) docs))"
  "read_magic (documents_file env docs) documents_magic = Inr (concat (map (doc_record env) (map fst docs)))"
  unfolding offsets_file_def lengths_file_def documents_file_def by (simp_all only: read_magic_append length_magics)

text \<open>
  C9. A sidecar the build leaves is valid. If \<open>build\<close> returns, \<open>validate\<close> accepts the files it wrote
  with the metadata it returned: the checksums, the sizes of the tables, every document against its
  statistics, the lexicon and the postings. The hypotheses say that the JSON library reads what it
  prints for the documents and the metadata at hand, that both sides hash alike, that \<open>to_lowercase\<close>
  yields UTF-8, and bound the size (\<open>2 ^ 20\<close> tokens, \<open>2 ^ 40\<close> documents).
\<close>

theorem build_validates:
  assumes build: "build env specs files db dir chunk_bytes = Inr res"
    and lower: "lowercase_ok (be_unicode env)"
    and decode: "\<forall>d\<in>fst ` set (staged_entries env files dir specs). decodes env renv d"
    and parse: "re_parse_metadata renv (be_print_metadata env (file_metadata (br_metadata res)) @ [CHR 0x0A]) = Inr (file_metadata (br_metadata res))"
    and small: "length (be_print_metadata env (file_metadata (br_metadata res))) < max_metadata_bytes"
    and sha: "re_sha256 renv = be_sha256 env"
    and tokens: "unat (sb_total_tokens (br_metadata res)) < 2 ^ 20"
    and documents: "unat (sb_document_count (br_metadata res)) < 2 ^ 40"
  shows "validate renv (br_files res) db (br_metadata res) = Inr ()"
proof -
  from build_opened [OF assms] obtain docs index where tables: "tables_ok env renv docs" and ok: "list_all indexable (occs_of docs)"
    and total: "length (occs_of docs) < 2 ^ 20" and n: "unat (sb_document_count (br_metadata res)) = length docs" "length docs < 2 ^ 40"
    and count: "sb_term_count (br_metadata res) = fx_term_count index"
    and index: "write_final_index (run_file (sort (occs_of docs))) = Inr index"
    and metadata: "validate_metadata renv (br_files res) db (br_metadata res) True = Inr ()"
    and opened: "open_file (br_files res) (sidecar_path db document_offsets_suffix) = Inr (offsets_file env docs)"
      "open_file (br_files res) (sidecar_path db document_lengths_suffix) = Inr (lengths_file docs)"
      "open_file (br_files res) (sidecar_path db documents_suffix) = Inr (documents_file env docs)"
      "open_file (br_files res) (sidecar_path db lexicon_suffix) = Inr (fx_lexicon index)"
      "open_file (br_files res) (sidecar_path db postings_suffix) = Inr (fx_postings index)" by metis
  have walk: "validate_documents renv (lengths_file docs) (documents_file env docs) [0..<length docs]
      (offsets_bytes (offsets_of env 8 (map fst docs))) = Inr ()"
    using validate_documents_ok [OF tables, of "[]" docs] by (simp add: lengths_file_def documents_file_def)
  have "\<forall>occ\<in>set (occs_of docs). oc_document occ < sb_document_count (br_metadata res)"
    using occs_of_document n by (auto simp: word_less_nat_alt)
  from written_index_validates [OF ok total this] index
  have lexicon: "validate_lexicon_and_postings (fx_lexicon index) (fx_postings index) (sb_document_count (br_metadata res)) (fx_term_count index) = Inr ()"
    by auto
  have "length (offsets_file env docs) = 8 + length docs * 8" "length (lengths_file docs) = 8 + length docs * 12"
    by (simp_all add: offsets_file_def lengths_file_def offsets_bytes_def length_fixed_records [where k = 8] length_fixed_records [where k = 12]
        length_magics)
  then obtain w1 w2 where w: "expected_length document_offsets_magic (sb_document_count (br_metadata res)) document_offset_bytes ''search document-offset size overflow'' = Inr w1"
    "unat w1 = length (offsets_file env docs)"
    "expected_length document_lengths_magic (sb_document_count (br_metadata res)) document_stat_bytes ''search document-length size overflow'' = Inr w2"
    "unat w2 = length (lengths_file docs)"
    using expected_length_table [OF n, of document_offset_bytes document_offsets_magic "''search document-offset size overflow''"]
      expected_length_table [OF n, of document_stat_bytes document_lengths_magic "''search document-length size overflow''"]
    by (auto simp: document_offset_bytes_def document_stat_bytes_def length_magics)
  show ?thesis
    unfolding validate_def metadata count using w walk lexicon n
    by (simp add: opened read_tables_magic)
qed

text \<open>A small repository: one staged node, whose label is the content of its file.\<close>

definition sample_encode_document :: "search_document \<Rightarrow> string" where
  "sample_encode_document d =
     write_u32 (sd_index_order d) @ layer_code (sd_layer d) # write_u32 (word_of_nat (length (sd_id d))) @ sd_id d @ sd_node_type d"

definition sample_decode_document :: "string \<Rightarrow> string + search_document" where
  "sample_decode_document bytes =
     (case read_u32 bytes of
        Inr (order, layer # rest) \<Rightarrow>
          (case (layer_from_code layer, read_u32 rest) of
             (Some l, Inr (n, text)) \<Rightarrow>
               Inr \<lparr>sd_id = take (unat n) text, sd_node_type = drop (unat n) text, sd_index_order = order, sd_layer = l\<rparr>
           | _ \<Rightarrow> Inl ''document'')
      | _ \<Rightarrow> Inl ''document'')"

definition sample_print_metadata :: "sidecar_file_metadata \<Rightarrow> string" where
  "sample_print_metadata m =
     write_u64 (sf_format_version m) @ write_u64 (sf_document_count m) @ write_u64 (sf_term_count m)
       @ write_u64 (sf_total_tokens m) @ sf_backend m"

definition sample_parse_metadata :: "string \<Rightarrow> string + sidecar_file_metadata" where
  "sample_parse_metadata bytes =
     (case try_op (read_u64 bytes) (\<lambda>(v, r1). try_op (read_u64 r1) (\<lambda>(d, r2). try_op (read_u64 r2) (\<lambda>(t, r3).
           try_op (read_u64 r3) (\<lambda>(n, r4).
           Inr \<lparr>sf_backend = butlast r4, sf_format_version = v, sf_document_count = d, sf_term_count = t, sf_total_tokens = n\<rparr>)))) of
        Inl _ \<Rightarrow> Inl ''metadata'' | Inr m \<Rightarrow> Inr m)"

definition sample_nodes :: "string \<Rightarrow> staged_node list \<times> string option" where
  "sample_nodes bytes =
     ([\<lparr>sg_id = ''n0'', sg_label = bytes, sg_path = ''a.rs'', sg_qualified_name = [], sg_summary = [], sg_text = [],
        sg_tree_sitter_node_type = []\<rparr>], None)"

definition sample_env :: build_env where
  "sample_env =
     \<lparr>be_unicode = ascii_tables, be_reserve = exact_reserve, be_term_capacity = length,
      be_encode_document = sample_encode_document, be_decode_nodes = sample_nodes,
      be_print_metadata = sample_print_metadata, be_sha256 = take 4\<rparr>"

definition sample_read_env :: read_env where
  "sample_read_env =
     \<lparr>re_decode_document = sample_decode_document, re_parse_metadata = sample_parse_metadata, re_sha256 = take 4\<rparr>"

definition sample_specs :: "search_index_spec list" where
  "sample_specs = [\<lparr>si_fields = [''label'', ''path''], si_layer = ''semantic'', si_node_types = [''Function'']\<rparr>]"

definition sample_staging :: file_map where
  "sample_staging = [''stage/function.json'' \<mapsto> ''map fold Map'']"

lemma sample_stem: "stage_file_stem ''Function'' = ''function''"
  by code_simp

lemma sample_paths: "chunk_path ''stage'' ''function'' 0 = ''stage/function.json''"
  "chunk_path ''stage'' ''function'' (Suc 0) = ''stage/function__000001.json''"
  by code_simp+

lemma sample_chunks: "job_chunks sample_staging ''stage'' (columns, layer, ''Function'') = [''map fold Map'']"
  by (simp add: job_chunks_def sample_stem staged_chunks.simps sample_paths sample_staging_def max_u64_def)

lemma sample_terms: "concat (map (\<lambda>s. tokenize ascii_tables s) [''map fold Map'', ''a.rs'']) = [''map'', ''fold'', ''map'', ''a'', ''rs'']"
  by code_simp

definition sample_entry :: entry where
  "sample_entry = (\<lparr>sd_id = ''n0'', sd_node_type = ''Function'', sd_index_order = 0, sd_layer = SemanticLayer\<rparr>,
     [''map'', ''fold'', ''map'', ''a'', ''rs''])"

lemma sample_jobs: "index_jobs sample_specs = [([''label'', ''path''], SemanticLayer, ''Function'')]"
  by (simp add: index_jobs_def sample_specs_def layer_from_schema_def)

lemma sample_job_entries: "job_entries sample_env sample_staging ''stage'' (index_jobs sample_specs) = [sample_entry]"
  using sample_terms
  by (simp add: job_entries_def sample_jobs sample_chunks type_entries_def node_entry_def node_terms_def sample_env_def
      sample_nodes_def staged_field_def sample_entry_def)

lemma sample_encoded: "length (sample_encode_document (fst sample_entry)) = 19"
  by (simp add: sample_encode_document_def sample_entry_def)

lemma sample_jobs_ok: "jobs_ok sample_env sample_staging ''stage'' (index_jobs sample_specs)"
proof -
  have "room sample_env [sample_entry]"
    using exact_reserve_ok sample_encoded
    by (simp add: room_def sample_env_def max_document_record_bytes_def occs_of_def) (simp add: sample_entry_def)
  then show ?thesis
    unfolding jobs_ok_def sample_job_entries by (simp add: sample_jobs sample_chunks) (simp add: sample_env_def sample_nodes_def)
qed

lemma sample_build: "\<exists>res. build sample_env sample_specs sample_staging ''db'' ''stage'' 64 = Inr res"
  by (rule build_succeeds [OF _ sample_jobs_ok])
    (simp_all add: sample_env_def ascii_lowercase_ok sample_staging_def sidecar_suffixes_def sidecar_path_def suffix_defs)

lemma sample_decodes: "decodes sample_env sample_read_env (fst sample_entry)"
proof -
  have "(word_of_nat 2 :: u32) = 2" by simp
  then show ?thesis
    by (simp add: decodes_def sample_env_def sample_read_env_def sample_decode_document_def sample_encode_document_def sample_entry_def)
qed

lemma sample_parse_print: "sample_parse_metadata (sample_print_metadata m @ [CHR 0x0A]) = Inr m"
  by (simp add: sample_parse_metadata_def sample_print_metadata_def)

lemma sample_result:
  assumes "build sample_env sample_specs sample_staging ''db'' ''stage'' 64 = Inr res"
  shows "unat (sb_document_count (br_metadata res)) = 1" and "unat (sb_total_tokens (br_metadata res)) = 5"
    and "sb_backend (br_metadata res) = backend_name"
proof -
  have "lowercase_ok (be_unicode sample_env)" by (simp add: sample_env_def ascii_lowercase_ok)
  from build_files [OF assms this] obtain st index where "build_inv False sample_env [sample_entry] st"
    "br_metadata res = backend_metadata_of sample_env st index"
    by (metis staged_entries_def sample_job_entries)
  then show "unat (sb_document_count (br_metadata res)) = 1" "unat (sb_total_tokens (br_metadata res)) = 5"
    "sb_backend (br_metadata res) = backend_name"
    by (simp_all add: build_inv_def backend_metadata_of_def occs_of_def sample_entry_def)
qed

theorem build_validates_witness:
  "\<exists>res. build sample_env sample_specs sample_staging ''db'' ''stage'' 64 = Inr res
     \<and> staged_entries sample_env sample_staging ''stage'' sample_specs = [sample_entry]
     \<and> validate sample_read_env (br_files res) ''db'' (br_metadata res) = Inr ()"
proof -
  obtain res where res: "build sample_env sample_specs sample_staging ''db'' ''stage'' 64 = Inr res" using sample_build by blast
  have entries: "staged_entries sample_env sample_staging ''stage'' sample_specs = [sample_entry]"
    by (simp add: staged_entries_def sample_job_entries)
  have "validate sample_read_env (br_files res) ''db'' (br_metadata res) = Inr ()"
  proof (rule build_validates [OF res])
    show "lowercase_ok (be_unicode sample_env)" by (simp add: sample_env_def ascii_lowercase_ok)
    show "\<forall>d\<in>fst ` set (staged_entries sample_env sample_staging ''stage'' sample_specs). decodes sample_env sample_read_env d"
      by (simp add: entries sample_decodes)
    show "length (be_print_metadata sample_env (file_metadata (br_metadata res))) < max_metadata_bytes"
      using sample_result [OF res]
      by (simp add: sample_env_def sample_print_metadata_def file_metadata_def backend_name_def max_metadata_bytes_def)
  qed (use sample_result [OF res] in \<open>simp_all add: sample_env_def sample_read_env_def sample_parse_print\<close>)
  with res entries show ?thesis by blast
qed



end
