(* ===== verification/SearchRank.thy ===== *)
theory SearchRank
  imports SearchQuery Complex_Main
begin

text \<open>
  Searching (\<open>search\<close> of \<^verbatim>\<open>src/search_index/read.rs\<close>): the query terms, the merge of their postings by
  document, the BM25 scores and the bounded list of the best candidates. The arithmetic of \<open>f64\<close> is
  the record \<open>float_ops\<close>: the scores are computed over it exactly as the source writes them, so that
  nothing depends on laws floating-point numbers do not have.
\<close>

section \<open>Scores\<close>

datatype ordering = Less | Equal | Greater

definition cmp_of :: "'a::linorder \<Rightarrow> 'a \<Rightarrow> ordering" where
  "cmp_of a b = (if a < b then Less else if a = b then Equal else Greater)"

definition then_with :: "ordering \<Rightarrow> ordering \<Rightarrow> ordering" where
  "then_with first second = (case first of Equal \<Rightarrow> second | _ \<Rightarrow> first)"

record 'f float_ops =
  fo_lit :: "rat \<Rightarrow> 'f"
  fo_of_nat :: "nat \<Rightarrow> 'f"
  fo_add :: "'f \<Rightarrow> 'f \<Rightarrow> 'f"
  fo_sub :: "'f \<Rightarrow> 'f \<Rightarrow> 'f"
  fo_mul :: "'f \<Rightarrow> 'f \<Rightarrow> 'f"
  fo_div :: "'f \<Rightarrow> 'f \<Rightarrow> 'f"
  fo_ln :: "'f \<Rightarrow> 'f"
  fo_round :: "'f \<Rightarrow> 'f"
  fo_partial_cmp :: "'f \<Rightarrow> 'f \<Rightarrow> ordering option"

definition inverse_document_frequency :: "'f float_ops \<Rightarrow> u64 \<Rightarrow> u32 \<Rightarrow> 'f" where
  "inverse_document_frequency F document_count document_frequency =
     (let n = fo_of_nat F (unat document_count); df = fo_of_nat F (unat document_frequency) in
      fo_ln F (fo_add F (fo_lit F 1)
        (fo_div F (fo_add F (fo_sub F n df) (fo_lit F (1 / 2))) (fo_add F df (fo_lit F (1 / 2))))))"

definition bm25_term_score :: "'f float_ops \<Rightarrow> u32 \<Rightarrow> u32 \<Rightarrow> 'f \<Rightarrow> 'f \<Rightarrow> 'f" where
  "bm25_term_score F term_frequency length_value average_length idf =
     (let k1 = fo_lit F (6 / 5); b = fo_lit F (3 / 4);
          tf = fo_of_nat F (unat term_frequency);
          length_ratio =
            (if fo_partial_cmp F average_length (fo_lit F 0) = Some Greater
             then fo_div F (fo_of_nat F (unat length_value)) average_length
             else fo_lit F 0)
      in fo_mul F idf
           (fo_div F (fo_mul F tf (fo_add F k1 (fo_lit F 1)))
              (fo_add F tf (fo_mul F k1 (fo_add F (fo_sub F (fo_lit F 1) b) (fo_mul F b length_ratio))))))"

definition round6 :: "'f float_ops \<Rightarrow> 'f \<Rightarrow> 'f" where
  "round6 F v = fo_div F (fo_round F (fo_mul F v (fo_lit F 1000000))) (fo_lit F 1000000)"

section \<open>The best candidates\<close>

record 'f candidate =
  ca_document_id :: u64
  ca_index_order :: u32
  ca_score :: 'f

definition candidate_order :: "'f float_ops \<Rightarrow> 'f candidate \<Rightarrow> 'f candidate \<Rightarrow> ordering" where
  "candidate_order F left right =
     then_with (case fo_partial_cmp F (ca_score right) (ca_score left) of None \<Rightarrow> Equal | Some ord \<Rightarrow> ord)
       (then_with (cmp_of (ca_index_order left) (ca_index_order right))
         (cmp_of (ca_document_id left) (ca_document_id right)))"

text \<open>\<open>Iterator::max_by\<close> over the enumerated vector: the index of the last greatest element.\<close>

fun max_index_by :: "('a \<Rightarrow> 'a \<Rightarrow> ordering) \<Rightarrow> nat \<times> 'a \<Rightarrow> (nat \<times> 'a) list \<Rightarrow> nat" where
  "max_index_by cmp (i, x) [] = i"
| "max_index_by cmp (i, x) ((j, y) # rest) =
     (if cmp x y = Greater then max_index_by cmp (i, x) rest else max_index_by cmp (j, y) rest)"

definition swap_remove :: "nat \<Rightarrow> 'a list \<Rightarrow> 'a list" where
  "swap_remove i xs = (if Suc i = length xs then butlast xs else (butlast xs)[i := last xs])"

definition retain_best :: "'f float_ops \<Rightarrow> 'f candidate list \<Rightarrow> 'f candidate \<Rightarrow> nat \<Rightarrow> 'f candidate list" where
  "retain_best F best candidate limit =
     (let pushed = best @ [candidate] in
      if length pushed \<le> limit then pushed
      else
        case enumerate 0 pushed of
          [] \<Rightarrow> pushed
        | first # rest \<Rightarrow> swap_remove (max_index_by (candidate_order F) first rest) pushed)"

text \<open>\<open>slice::sort_by\<close>, a stable sort.\<close>

fun insert_by :: "('a \<Rightarrow> 'a \<Rightarrow> ordering) \<Rightarrow> 'a \<Rightarrow> 'a list \<Rightarrow> 'a list" where
  "insert_by cmp x [] = [x]"
| "insert_by cmp x (y # ys) = (if cmp x y = Greater then y # insert_by cmp x ys else x # y # ys)"

definition sort_by :: "('a \<Rightarrow> 'a \<Rightarrow> ordering) \<Rightarrow> 'a list \<Rightarrow> 'a list" where
  "sort_by cmp xs = foldr (insert_by cmp) xs []"

section \<open>The merge of the postings\<close>

type_synonym posting = "u64 \<times> u32"
type_synonym heap_posting = "posting \<times> nat"

definition heap_posting_order :: "heap_posting \<Rightarrow> u64 \<times> nat" where
  "heap_posting_order = (\<lambda>((document_id, _), cursor_index). (document_id, cursor_index))"

lemma heap_pop_length: "heap_pop ord heap = Some (x, rest) \<Longrightarrow> length rest < length heap"
  using heap_pop_Some(1,2) [of ord heap x rest] length_pos_if_in_set [of x heap] by (simp add: length_remove1)

function pop_document :: "u64 \<Rightarrow> heap_posting list \<Rightarrow> heap_posting list \<times> heap_posting list" where
  "pop_document document_id heap =
     (case heap_pop heap_posting_order heap of
        Some (posting, heap1) \<Rightarrow>
          if fst (fst posting) = document_id
          then let (postings, heap2) = pop_document document_id heap1 in (posting # postings, heap2)
          else ([], heap)
      | None \<Rightarrow> ([], heap))"
  by pat_completeness auto
termination
  by (relation "measure (\<lambda>(_, heap). length heap)")
    (auto dest: heap_pop_length)

declare pop_document.simps [simp del]

fun score_postings ::
  "'f float_ops \<Rightarrow> u32 \<Rightarrow> 'f \<Rightarrow> heap_posting list \<Rightarrow> 'f \<Rightarrow> 'f posting_cursor list \<Rightarrow> heap_posting list
     \<Rightarrow> ('f \<times> 'f posting_cursor list \<times> heap_posting list) result" where
  "score_postings F length_value average_length [] score cursors heap = Inr (score, cursors, heap)"
| "score_postings F length_value average_length (((document_id, term_frequency), cursor_index) # postings) score cursors heap =
     (let score1 = fo_add F score
            (bm25_term_score F term_frequency length_value average_length (pc_idf (cursors ! cursor_index))) in
      try_op (cursor_next (cursors ! cursor_index)) (\<lambda>item.
      case item of
        None \<Rightarrow> score_postings F length_value average_length postings score1 cursors heap
      | Some (posting, cursor) \<Rightarrow>
          score_postings F length_value average_length postings score1 (cursors[cursor_index := cursor])
            (heap @ [(posting, cursor_index)])))"

fun rank_loop ::
  "'f float_ops \<Rightarrow> string \<Rightarrow> 'f \<Rightarrow> search_layer \<Rightarrow> nat \<Rightarrow> nat \<Rightarrow> 'f posting_cursor list \<Rightarrow> heap_posting list
     \<Rightarrow> 'f candidate list \<Rightarrow> 'f candidate list run" where
  "rank_loop F lengths average_length requested_layer limit 0 cursors heap best = Inl Diverged"
| "rank_loop F lengths average_length requested_layer limit (Suc fuel) cursors heap best =
     (case heap_pop heap_posting_order heap of
        None \<Rightarrow> Inr best
      | Some (first, heap1) \<Rightarrow>
          let document_id = fst (fst first);
              (rest, heap2) = pop_document document_id heap1
          in
          try_op (lift_result (read_document_stat_at lengths (word_of_nat (length document_lengths_magic)) document_id)) (\<lambda>stat.
          try_op (lift_result (score_postings F (st_length stat) average_length (first # rest) (fo_lit F 0) cursors heap2))
            (\<lambda>(score, cursors1, heap3).
          rank_loop F lengths average_length requested_layer limit fuel cursors1 heap3
            (if st_layer stat = requested_layer
             then retain_best F best
                    \<lparr>ca_document_id = document_id, ca_index_order = st_index_order stat, ca_score = round6 F score\<rparr> limit
             else best))))"

section \<open>Searching\<close>

definition max_query_terms :: nat where
  "max_query_terms = 32"

text \<open>The query terms, a \<open>BTreeSet\<close>: the terms in order, no new one once there are enough.\<close>

definition query_terms_of :: "unicode \<Rightarrow> string \<Rightarrow> string list" where
  "query_terms_of U query =
     fold (\<lambda>term terms. if length terms < max_query_terms \<or> term \<in> set terms then insort_insert term terms else terms)
       (tokenize U query) []"

record 'f ranked_document =
  rd_id :: string
  rd_node_type :: string
  rd_index_order :: nat
  rd_layer :: string
  rd_score :: 'f

definition offset_position :: "u64 \<Rightarrow> u64 result" where
  "offset_position document_id =
     or_invalid ''search document-offset position overflow''
       (Option.bind (checked_mul document_id document_offset_bytes) (checked_add (word_of_nat (length document_offsets_magic))))"

definition read_ranked :: "read_env \<Rightarrow> string \<Rightarrow> string \<Rightarrow> 'f candidate \<Rightarrow> 'f ranked_document result" where
  "read_ranked env offsets documents candidate =
     try_op (offset_position (ca_document_id candidate)) (\<lambda>position.
     try_op (read_u64 (drop (unat position) offsets)) (\<lambda>(document_offset, _).
     try_op (read_document_at (re_decode_document env) documents document_offset max_document_record_bytes) (\<lambda>document.
     Inr \<lparr>rd_id = sd_id document, rd_node_type = sd_node_type document, rd_index_order = unat (sd_index_order document),
          rd_layer = layer_as_str (sd_layer document), rd_score = ca_score candidate\<rparr>)))"

fun try_map :: "('a \<Rightarrow> 'e + 'b) \<Rightarrow> 'a list \<Rightarrow> 'e + 'b list" where
  "try_map f [] = Inr []"
| "try_map f (x # xs) = try_op (f x) (\<lambda>y. try_op (try_map f xs) (\<lambda>ys. Inr (y # ys)))"

definition requested_layer_of :: "string \<Rightarrow> search_layer result" where
  "requested_layer_of layer =
     (if layer = ''semantic'' then Inr SemanticLayer
      else if layer = ''syntax'' then Inr SyntaxLayer
      else Inl (InvalidInput (''sidecar search requires semantic or syntax layer, received '' @ layer)))"

definition average_length_of :: "'f float_ops \<Rightarrow> search_backend_metadata \<Rightarrow> 'f" where
  "average_length_of F metadata =
     (if sb_document_count metadata = 0 then fo_lit F 0
      else fo_div F (fo_of_nat F (unat (sb_total_tokens metadata))) (fo_of_nat F (unat (sb_document_count metadata))))"

definition open_cursors ::
  "'f float_ops \<Rightarrow> search_backend_metadata \<Rightarrow> string \<Rightarrow> (string, lexicon_entry) btree_map \<Rightarrow> 'f posting_cursor list" where
  "open_cursors F metadata postings lexicon_entries =
     map (\<lambda>(_, entry). cursor_open postings (le_postings_offset entry) (le_document_frequency entry)
            (inverse_document_frequency F (sb_document_count metadata) (le_document_frequency entry))) lexicon_entries"

definition search ::
  "'f float_ops \<Rightarrow> unicode \<Rightarrow> read_env \<Rightarrow> file_map \<Rightarrow> string \<Rightarrow> search_backend_metadata \<Rightarrow> string \<Rightarrow> string \<Rightarrow> nat
     \<Rightarrow> 'f ranked_document list run" where
  "search F U env files database_path metadata query layer limit =
     (if limit = 0 \<or> sb_document_count metadata = 0 then Inr []
      else
        try_op (lift_result (validate_metadata env files database_path metadata False)) (\<lambda>_.
        try_op (lift_result (requested_layer_of layer)) (\<lambda>requested_layer.
        let query_terms = query_terms_of U query in
        if query_terms = [] then Inr []
        else
          try_op (lift_result (open_file files (sidecar_path database_path lexicon_suffix))) (\<lambda>lexicon.
          try_op (find_lexicon_entries lexicon query_terms) (\<lambda>lexicon_entries.
          if lexicon_entries = [] then Inr []
          else
            try_op (lift_result (open_file files (sidecar_path database_path postings_suffix))) (\<lambda>postings.
            let cursors = open_cursors F metadata postings lexicon_entries in
            try_op (lift_result (load_heads cursor_next 0 cursors [])) (\<lambda>(cursors1, heap).
            try_op (lift_result (open_file files (sidecar_path database_path document_lengths_suffix))) (\<lambda>lengths.
            try_op (lift_result (read_magic lengths document_lengths_magic)) (\<lambda>_.
            try_op (rank_loop F lengths (average_length_of F metadata) requested_layer limit
                      (Suc (sum_list (map (\<lambda>c. unat (pc_remaining c)) cursors))) cursors1 heap []) (\<lambda>best.
            try_op (lift_result (open_file files (sidecar_path database_path document_offsets_suffix))) (\<lambda>offsets.
            try_op (lift_result (open_file files (sidecar_path database_path documents_suffix))) (\<lambda>documents.
            try_op (lift_result (read_magic offsets document_offsets_magic)) (\<lambda>_.
            try_op (lift_result (read_magic documents documents_magic)) (\<lambda>_.
            lift_result (try_map (read_ranked env offsets documents) (sort_by (candidate_order F) best))))))))))))))))"

section \<open>Facts: the best candidates\<close>

text \<open>A comparison agrees with a key on some elements.\<close>

definition compares :: "('a \<Rightarrow> 'a \<Rightarrow> ordering) \<Rightarrow> ('a \<Rightarrow> 'k::linorder) \<Rightarrow> 'a set \<Rightarrow> bool" where
  "compares cmp key A \<longleftrightarrow> (\<forall>x\<in>A. \<forall>y\<in>A. cmp x y = cmp_of (key x) (key y))"

lemma compares_mono: "compares cmp key B \<Longrightarrow> A \<subseteq> B \<Longrightarrow> compares cmp key A"
  by (auto simp: compares_def)

lemma compares_Greater: "compares cmp key A \<Longrightarrow> x \<in> A \<Longrightarrow> y \<in> A \<Longrightarrow> cmp x y = Greater \<longleftrightarrow> key y < key x"
  by (auto simp: compares_def cmp_of_def)

lemma sort_by_key: "compares cmp key (set xs) \<Longrightarrow> sort_by cmp xs = sort_key key xs"
proof (induction xs)
  case (Cons x xs)
  have "insert_by cmp x ys = insort_key key x ys" if "compares cmp key (set (x # ys))" for ys
    using that
  proof (induction ys)
    case (Cons y ys)
    have "compares cmp key (set (x # ys))" by (rule compares_mono [OF Cons.prems]) auto
    with Cons show ?case by (auto simp: compares_Greater)
  qed simp
  moreover have "compares cmp key (set (x # sort_key key xs))" using Cons.prems by simp
  moreover have "sort_by cmp xs = sort_key key xs" by (rule Cons.IH [OF compares_mono [OF Cons.prems]]) auto
  ultimately show ?case by (simp add: sort_by_def sort_key_def)
qed (simp add: sort_by_def)

lemma max_index_by_greatest:
  assumes "compares cmp key (set (x # map snd rest))"
  shows "\<exists>y. (max_index_by cmp (i, x) rest, y) \<in> set ((i, x) # rest) \<and> (\<forall>z\<in>set (x # map snd rest). key z \<le> key y)"
  using assms
proof (induction rest arbitrary: i x)
  case (Cons p rest)
  obtain j y where p: "p = (j, y)" by (cases p)
  show ?case
  proof (cases "cmp x y = Greater")
    case True
    have "compares cmp key (set (x # map snd rest))" by (rule compares_mono [OF Cons.prems]) auto
    from Cons.IH [OF this, of i] True Cons.prems show ?thesis
      by (auto simp: p compares_Greater intro: less_imp_le order_trans)
  next
    case False
    have "compares cmp key (set (y # map snd rest))" by (rule compares_mono [OF Cons.prems]) (auto simp: p)
    from Cons.IH [OF this, of j] False Cons.prems show ?thesis
      by (auto simp: p compares_Greater not_less intro: order_trans)
  qed
qed simp

lemma mset_swap_remove:
  assumes "i < length xs"
  shows "mset (swap_remove i xs) = mset xs - {#xs ! i#}"
proof -
  have xs: "xs = butlast xs @ [last xs]" using assms by (cases xs rule: rev_cases) auto
  show ?thesis
  proof (cases "Suc i = length xs")
    case True
    then have "xs ! i = last xs" by (cases xs rule: rev_cases) (auto simp: nth_append)
    then show ?thesis using True xs by (metis add_diff_cancel_right' mset.simps(1) mset.simps(2) mset_append swap_remove_def)
  next
    case False
    then have i: "i < length (butlast xs)" using assms by simp
    then have nth: "xs ! i = butlast xs ! i" by (simp add: nth_butlast)
    have "mset xs = add_mset (last xs) (mset (butlast xs))" using xs by (metis add_mset_add_single mset.simps(1) mset.simps(2) mset_append)
    with False i show ?thesis by (simp add: swap_remove_def mset_update nth)
  qed
qed

lemma sort_key_mset:
  fixes key :: "'a \<Rightarrow> 'k::linorder"
  assumes "mset xs = mset ys" and "inj_on key (set ys)"
  shows "sort_key key xs = sort_key key ys"
proof -
  have "set xs = set ys" using assms(1) by (metis set_mset_mset)
  with assms show ?thesis by (intro sort_key_inj_key_eq) simp_all
qed

lemma take_insort_key: "take n (insort_key f x (take n xs)) = take n (insort_key f x xs)"
proof (induction xs arbitrary: n)
  case (Cons y xs)
  show ?case
  proof (cases n)
    case (Suc m)
    have "take m (x # take m ys) = take m (x # ys)" for ys by (cases m) (simp_all add: min_def)
    with Cons [of m] Suc show ?thesis by (cases m) (auto simp: min_def)
  qed simp
qed simp

text \<open>Keeping the best: as if all candidates were sorted and the first \<open>limit\<close> taken.\<close>

lemma retain_best_sorted:
  assumes cmp: "compares (candidate_order F) key (set (c # best))" and inj: "inj_on key (set (c # best))"
    and len: "length best \<le> limit"
  shows "sort_key key (retain_best F best c limit) = take limit (insort_key key c (sort_key key best))"
    and "length (retain_best F best c limit) \<le> limit" and "set (retain_best F best c limit) \<subseteq> set (c # best)"
proof -
  let ?pushed = "best @ [c]"
  have sorted: "sort_key key ?pushed = insort_key key c (sort_key key best)"
    using sort_key_mset [of ?pushed "c # best" key] inj by simp
  have "sort_key key (retain_best F best c limit) = take limit (insort_key key c (sort_key key best))
     \<and> length (retain_best F best c limit) \<le> limit \<and> set (retain_best F best c limit) \<subseteq> set (c # best)"
  proof (cases "length ?pushed \<le> limit")
    case True
    then show ?thesis using sorted by (auto simp: retain_best_def)
  next
    case False
    then have limit: "length best = limit" using len by simp
    obtain a rest where pushed: "?pushed = a # rest" by (cases ?pushed) auto
    let ?j = "max_index_by (candidate_order F) (0, a) (enumerate 1 rest)"
    have best: "retain_best F best c limit = swap_remove ?j ?pushed"
      using False pushed by (simp add: retain_best_def Let_def)
    have enum: "(0, a) # enumerate 1 rest = enumerate 0 ?pushed" and all: "set (a # map snd (enumerate 1 rest)) = set ?pushed"
      by (simp_all add: pushed)
    have "compares (candidate_order F) key (set ?pushed)" using cmp by simp
    then obtain y where y: "(?j, y) \<in> set (enumerate 0 ?pushed)" "\<forall>z\<in>set ?pushed. key z \<le> key y"
      using max_index_by_greatest [of "candidate_order F" key a "enumerate 1 rest" 0] unfolding enum all by blast
    then have j: "?j < length ?pushed" "?pushed ! ?j = y" by (auto simp: in_set_enumerate_eq)
    from mset_swap_remove [OF j(1)] have m: "mset (swap_remove ?j ?pushed) = mset ?pushed - {#y#}" by (simp only: j(2))
    have yin: "y \<in> set ?pushed" using j by (metis nth_mem)
    let ?S = "sort_key key ?pushed"
    have ne: "?S \<noteq> []" using yin by (metis empty_iff list.set(1) set_sort)
    have "last ?S \<in> set ?pushed" using ne by (metis last_in_set set_sort)
    moreover have "key y \<le> key (last ?S)"
    proof -
      from yin obtain k where k: "k < length ?S" "?S ! k = y" by (metis in_set_conv_nth set_sort)
      have "map key ?S ! k \<le> map key ?S ! (length ?S - 1)" using k(1) by (intro sorted_nth_mono) simp_all
      with k ne show ?thesis by (simp add: last_conv_nth)
    qed
    ultimately have "last ?S = y" using y(2) yin inj by (intro inj_onD [OF inj]) (auto intro: antisym)
    then have S: "?S = butlast ?S @ [y]" using ne by (metis append_butlast_last_id)
    have "mset ?S = mset ?pushed" by simp
    then have mb: "mset (butlast ?S) = mset ?pushed - {#y#}"
      using S by (metis add_diff_cancel_right' mset.simps(1) mset.simps(2) mset_append)
    have sub: "set (swap_remove ?j ?pushed) \<subseteq> set (c # best)" using m by (metis Un_commute in_diffD insert_is_Un list.simps(15) set_append set_mset_mset subsetI list.set(1))
    have "sorted (map key (butlast ?S))" by (metis S map_append sorted_append sorted_sort_key)
    then have "sort_key key (swap_remove ?j ?pushed) = butlast ?S"
      using m mb sub inj by (intro sort_key_inj_key_eq) (auto intro: inj_on_subset)
    moreover have "butlast ?S = take limit ?S" using limit by (simp add: butlast_conv_take)
    moreover have "length (swap_remove ?j ?pushed) \<le> limit"
      using m limit yin by (metis size_mset mb length_butlast length_sort length_append_singleton diff_Suc_1 le_refl)
    ultimately show ?thesis using sub by (simp add: best sorted)
  qed
  then show "sort_key key (retain_best F best c limit) = take limit (insort_key key c (sort_key key best))"
    "length (retain_best F best c limit) \<le> limit" "set (retain_best F best c limit) \<subseteq> set (c # best)" by simp_all
qed

lemma retain_all_sorted:
  assumes cmp: "compares (candidate_order F) key (set cs)" and inj: "inj_on key (set cs)" and dist: "distinct cs"
  shows "sort_by (candidate_order F) (fold (\<lambda>c best. retain_best F best c limit) cs []) = take limit (sort_key key cs)"
proof -
  let ?best = "\<lambda>cs. fold (\<lambda>c best. retain_best F best c limit) cs []"
  have "sort_key key (?best cs) = take limit (sort_key key cs) \<and> length (?best cs) \<le> limit \<and> set (?best cs) \<subseteq> set cs"
    using assms
  proof (induction cs rule: rev_induct)
    case (snoc c cs)
    have IH: "sort_key key (?best cs) = take limit (sort_key key cs)" "length (?best cs) \<le> limit" "set (?best cs) \<subseteq> set cs"
      using snoc compares_mono [OF snoc.prems(1), of "set cs"] by auto
    have sub: "set (c # ?best cs) \<subseteq> set (cs @ [c])" using IH(3) by auto
    note best = retain_best_sorted [OF compares_mono [OF snoc.prems(1) sub] inj_on_subset [OF snoc.prems(2) sub] IH(2)]
    have "sort_key key (cs @ [c]) = insort_key key c (sort_key key cs)"
      using sort_key_mset [of "cs @ [c]" "c # cs" key] snoc.prems(2) by simp
    with best sub IH(1) take_insort_key [of limit key c "sort_key key cs"] show ?case by auto
  qed simp
  moreover from this have "compares (candidate_order F) key (set (?best cs))" by (intro compares_mono [OF cmp]) simp
  ultimately show ?thesis by (simp add: sort_by_key)
qed

section \<open>Facts: the merge of the postings\<close>

definition cursor_delivers :: "'f posting_cursor \<Rightarrow> posting list \<Rightarrow> bool" where
  "cursor_delivers c xs \<longleftrightarrow> (\<exists>ps. cursor_at ps c \<and> xs = map (\<lambda>(d, n). (d, word_of_nat n)) ps)"

interpretation cur: run_merge cursor_next cursor_delivers fst
proof
  show "cursor_next r = Inr None" if "cursor_delivers r []" for r :: "'f posting_cursor"
    using that cursor_next_end by (auto simp: cursor_delivers_def)
  show "\<exists>r'. cursor_next r = Inr (Some (x, r')) \<and> cursor_delivers r' xs" if "cursor_delivers r (x # xs)"
    for r :: "'f posting_cursor" and x xs
    using that cursor_next_at by (fastforce simp: cursor_delivers_def Cons_eq_map_conv)
qed

lemma heap_posting_order_eq: "heap_posting_order = cur.item_order"
  by (auto simp: heap_posting_order_def cur.item_order_def)

lemma cursor_next_idf: "cursor_next c = Inr (Some (p, c')) \<Longrightarrow> pc_idf c' = pc_idf c"
  by (auto simp: cursor_next_def try_op_Inr_iff split: if_splits)

text \<open>The postings of one document leave the heap in the order of their cursors.\<close>

lemma pop_document_spec:
  assumes "distinct (map snd heap)" and "\<forall>p\<in>set heap. d \<le> fst (fst p)"
  shows "fst (pop_document d heap) = sort_key snd (filter (\<lambda>p. fst (fst p) = d) heap)
     \<and> mset (snd (pop_document d heap)) = mset (filter (\<lambda>p. fst (fst p) \<noteq> d) heap)"
  using assms
proof (induction d heap rule: pop_document.induct)
  case (1 d heap)
  let ?same = "\<lambda>p. fst (fst p) = d"
  show ?case
  proof (cases "heap_pop heap_posting_order heap")
    case None
    then have "heap = []" by simp
    then show ?thesis by (simp add: pop_document.simps heap_pop_def)
  next
    case (Some popped)
    obtain p heap1 where popped: "heap_pop heap_posting_order heap = Some (p, heap1)" using Some by (cases popped) auto
    note pop = heap_pop_Some [OF popped]
    have least: "\<forall>q\<in>set heap. fst (fst p) < fst (fst q) \<or> fst (fst p) = fst (fst q) \<and> snd p \<le> snd q"
      using pop(3) by (auto simp: heap_posting_order_def split: prod.splits)
    show ?thesis
    proof (cases "?same p")
      case True
      have heap1: "distinct (map snd heap1)" "\<forall>q\<in>set heap1. d \<le> fst (fst q)"
        using 1(2,3) pop(2) by (auto simp: distinct_map distinct_remove1 inj_on_def dest: notin_set_remove1 set_remove1_subset [THEN subsetD])
      note IH = 1(1) [OF popped refl True heap1]
      have dist: "distinct heap" using 1(2) by (simp add: distinct_map)
      have inj: "inj_on snd (set (filter ?same heap))" using 1(2) by (auto simp: distinct_map inj_on_def)
      have f1: "mset (filter ?same heap) = add_mset p (mset (filter ?same heap1))"
        and f2: "filter (\<lambda>q. \<not> ?same q) heap1 = filter (\<lambda>q. \<not> ?same q) heap"
        using True pop(1,2) dist by (simp_all add: filter_remove1 remove1_filter_not)
      have "sort_key snd (filter ?same heap) = p # sort_key snd (filter ?same heap1)"
      proof (rule sort_key_inj_key_eq)
        show "mset (filter ?same heap) = mset (p # sort_key snd (filter ?same heap1))" using f1 by simp
        show "sorted (map snd (p # sort_key snd (filter ?same heap1)))"
          using least True pop(2) set_remove1_subset [of p heap] by fastforce
      qed (rule inj)
      with IH f2 True popped show ?thesis
        by (subst (1 2) pop_document.simps) (simp add: case_prod_beta)
    next
      case False
      have "d < fst (fst p)" using 1(3) pop(1) False by (simp add: order_less_le)
      then have none: "\<forall>q\<in>set heap. \<not> ?same q" using least by force
      then have "filter ?same heap = []" "filter (\<lambda>q. \<not> ?same q) heap = heap" by (auto simp: filter_empty_conv filter_id_conv)
      with False popped show ?thesis by (subst (1 2) pop_document.simps) simp
    qed
  qed
qed

text \<open>Scoring the postings of a document, each cursor moving on.\<close>

definition add_posting :: "'f float_ops \<Rightarrow> u32 \<Rightarrow> 'f \<Rightarrow> 'f list \<Rightarrow> heap_posting \<Rightarrow> 'f \<Rightarrow> 'f" where
  "add_posting F length_value average_length idfs = (\<lambda>((_, term_frequency), i) score.
     fo_add F score (bm25_term_score F term_frequency length_value average_length (idfs ! i)))"

lemma score_postings_spec:
  assumes "cur.holds (set (map snd ps)) heap cursors runs" and "distinct (map snd ps)" and "\<forall>i\<in>set (map snd ps). i < length runs"
    and "map pc_idf cursors = idfs"
  shows "\<exists>cursors' heap'. score_postings F len avg ps score cursors heap =
       Inr (fold (add_posting F len avg idfs) ps score, cursors', heap')
     \<and> cur.holds {} heap' cursors' runs \<and> map pc_idf cursors' = idfs"
  using assms
proof (induction ps arbitrary: score cursors heap)
  case (Cons p ps)
  obtain d tf i where p: "p = ((d, tf), i)" by (metis surj_pair)
  let ?score = "fo_add F score (bm25_term_score F tf len avg (pc_idf (cursors ! i)))"
  have i: "i < length runs" "i \<notin> set (map snd ps)" and len: "length cursors = length runs"
    using Cons.prems p by (auto simp: cur.holds_def)
  have score: "?score = add_posting F len avg idfs p score"
    using Cons.prems(4) i(1) len by (auto simp: add_posting_def p)
  have "cur.holds (insert i (set (map snd ps))) heap cursors runs" using Cons.prems(1) p by simp
  from cur.holds_refill [OF this i] consider
      (last) "cursor_next (cursors ! i) = Inr None" "cur.holds (set (map snd ps)) heap cursors runs"
    | (more) x c where "cursor_next (cursors ! i) = Inr (Some (x, c))"
        "cur.holds (set (map snd ps)) (heap @ [(x, i)]) (cursors[i := c]) runs" by blast
  then show ?case
  proof cases
    case last
    with Cons.IH [OF last(2), of ?score] Cons.prems(2-4) p score show ?thesis by auto
  next
    case more
    have "map pc_idf (cursors[i := c]) = idfs"
      using Cons.prems(4) cursor_next_idf [OF more(1)] i(1) len by (metis list_update_id map_update nth_map)
    with Cons.IH [OF more(2), of ?score] more(1) Cons.prems(2,3) p score show ?thesis by auto
  qed
qed simp

text \<open>The postings of a document in the runs, with the number of their run.\<close>

definition hits :: "u64 \<Rightarrow> posting list list \<Rightarrow> heap_posting list" where
  "hits d runs = concat (map (\<lambda>(i, run). map (\<lambda>p. (p, i)) (filter (\<lambda>p. fst p = d) run)) (enumerate 0 runs))"

definition strict_runs :: "posting list list \<Rightarrow> bool" where
  "strict_runs runs \<longleftrightarrow> (\<forall>run\<in>set runs. sorted_wrt (<) (map fst run))"

lemma hits_snoc: "hits d (runs @ [run]) = hits d runs @ map (\<lambda>p. (p, length runs)) (filter (\<lambda>p. fst p = d) run)"
  by (simp add: hits_def enumerate_append_eq)

lemma set_hits: "((d', tf), i) \<in> set (hits d runs) \<longleftrightarrow> d' = d \<and> i < length runs \<and> (d, tf) \<in> set (runs ! i)"
proof (induction runs rule: rev_induct)
  case (snoc run runs)
  then show ?case by (cases "i = length runs") (auto simp: hits_snoc nth_append)
qed (simp add: hits_def)

lemma filter_document:
  fixes run :: "posting list"
  assumes "sorted_wrt (<) (map fst run)"
  shows "filter (\<lambda>p. fst p = d) run = (case map_of run d of None \<Rightarrow> [] | Some tf \<Rightarrow> [(d, tf)])"
  using assms
proof (induction run)
  case (Cons p run)
  show ?case
  proof (cases "fst p = d")
    case True
    with Cons.prems have "\<forall>q\<in>set run. d < fst q" by simp
    then have "filter (\<lambda>p. fst p = d) run = []" by (intro filter_False) (metis less_irrefl)
    with True show ?thesis by (cases p) auto
  next
    case False
    with Cons show ?thesis by (cases p) auto
  qed
qed simp

lemma sorted_hits: "strict_runs runs \<Longrightarrow> sorted_wrt (<) (map snd (hits d runs))"
proof (induction runs rule: rev_induct)
  case (snoc run runs)
  have "\<forall>i\<in>set (map snd (hits d runs)). i < length runs" using set_hits [of _ _ _ d runs] by force
  moreover have "filter (\<lambda>p. fst p = d) run = [] \<or> (\<exists>tf. filter (\<lambda>p. fst p = d) run = [(d, tf)])"
    using snoc.prems by (auto simp: strict_runs_def filter_document split: option.splits)
  ultimately show ?case using snoc by (auto simp: hits_snoc strict_runs_def sorted_wrt_append)
qed (simp add: hits_def)

lemma hits_rest: "d' \<noteq> d \<Longrightarrow> hits d' (map (filter (\<lambda>p. fst p \<noteq> d)) runs) = hits d' runs"
proof (induction runs rule: rev_induct)
  case (snoc run runs)
  have "filter (\<lambda>p. fst p = d' \<and> fst p \<noteq> d) run = filter (\<lambda>p. fst p = d') run"
    using snoc.prems by (intro filter_cong) auto
  with snoc show ?case by (simp add: hits_snoc conj_commute)
qed (simp add: hits_def)

lemma filter_first:
  fixes run :: "posting list"
  assumes "sorted_wrt (<) (map fst run)" and "\<forall>p\<in>set run. d \<le> fst p"
  shows "filter (\<lambda>p. fst p \<noteq> d) run = (if run \<noteq> [] \<and> fst (hd run) = d then tl run else run)"
proof (cases run)
  case (Cons p ps)
  with assms have "\<forall>q\<in>set ps. d < fst q" by (auto intro: order.strict_trans1)
  then have "filter (\<lambda>p. fst p \<noteq> d) ps = ps" by (intro filter_True) (metis less_irrefl)
  with Cons show ?thesis by (cases "fst p = d") auto
qed simp

text \<open>One document: its postings are exactly the hits, and the rest of the runs is what remains.\<close>

lemma pop_document_holds:
  assumes h: "cur.holds {} heap cursors runs" and strict: "strict_runs runs"
    and least: "\<forall>p\<in>set (concat runs). d \<le> fst p"
  shows "fst (pop_document d heap) = hits d runs"
    and "cur.holds (set (map snd (hits d runs))) (snd (pop_document d heap)) cursors (map (filter (\<lambda>p. fst p \<noteq> d)) runs)"
proof -
  let ?same = "\<lambda>p. fst (fst p) = d"
  have heap: "(p, i) \<in> set heap \<longleftrightarrow> i < length runs \<and> runs ! i \<noteq> [] \<and> p = hd (runs ! i)" for p i
    using h unfolding cur.holds_def by blast
  have dist: "distinct heap" using h by (simp add: cur.holds_def)
  have "inj_on snd (set heap)" by (intro inj_onI) (metis heap prod.collapse)
  with dist have dsnd: "distinct (map snd heap)" by (simp add: distinct_map)
  have ge: "d \<le> fst p" if "i < length runs" "p \<in> set (runs ! i)" for i p using least that by auto
  have "d \<le> fst p" if "(p, i) \<in> set heap" for p i using heap that ge [of i "hd (runs ! i)"] by simp
  then have "\<forall>p\<in>set heap. d \<le> fst (fst p)" by (metis prod.collapse)
  note pop = pop_document_spec [OF dsnd this]
  have run: "sorted_wrt (<) (map fst (runs ! i))" if "i < length runs" for i using strict that by (simp add: strict_runs_def)
  have first: "(d, tf) \<in> set (runs ! i) \<longleftrightarrow> runs ! i \<noteq> [] \<and> hd (runs ! i) = (d, tf)" if "i < length runs" for i tf
  proof (cases "runs ! i")
    case (Cons p ps)
    then have "d \<le> fst p" "\<forall>q\<in>set ps. fst p < fst q" using run [OF that] ge [OF that, of p] by simp_all
    then have "(d, tf) \<notin> set ps" by (metis fst_conv not_less)
    with Cons show ?thesis by auto
  qed simp
  have "((d', tf), i) \<in> set (filter ?same heap) \<longleftrightarrow> ((d', tf), i) \<in> set (hits d runs)" for d' tf i
    using heap [of "(d', tf)" i] first [of i tf] by (auto simp: set_hits)
  then have same: "set (filter ?same heap) = set (hits d runs)" by (intro set_eqI) (metis prod.collapse)
  have srt: "sorted_wrt (<) (map snd (hits d runs))" by (rule sorted_hits [OF strict])
  then have "distinct (map snd (hits d runs))" "sorted (map snd (hits d runs))" by (simp_all add: strict_sorted_iff)
  moreover from this have "mset (filter ?same heap) = mset (hits d runs)"
    using same dist by (subst set_eq_iff_mset_eq_distinct [symmetric]) (auto simp: distinct_map)
  moreover have "inj_on snd (set (filter ?same heap))" using \<open>inj_on snd (set heap)\<close> by (rule inj_on_subset) auto
  ultimately have "sort_key snd (filter ?same heap) = hits d runs" by (intro sort_key_inj_key_eq)
  with pop show "fst (pop_document d heap) = hits d runs" by simp
  let ?runs = "map (filter (\<lambda>p. fst p \<noteq> d)) runs" and ?I = "set (map snd (hits d runs))"
  have I: "i \<in> ?I \<longleftrightarrow> i < length runs \<and> runs ! i \<noteq> [] \<and> fst (hd (runs ! i)) = d" for i
  proof
    assume "i \<in> ?I"
    then obtain tf where "((d, tf), i) \<in> set (hits d runs)" by (auto simp: set_hits)
    then show "i < length runs \<and> runs ! i \<noteq> [] \<and> fst (hd (runs ! i)) = d" using first [of i tf] by (auto simp: set_hits)
  next
    assume i: "i < length runs \<and> runs ! i \<noteq> [] \<and> fst (hd (runs ! i)) = d"
    then have "(d, snd (hd (runs ! i))) \<in> set (runs ! i)" using first [of i] by (metis prod.collapse)
    then have "((d, snd (hd (runs ! i))), i) \<in> set (hits d runs)" using i by (simp add: set_hits)
    then show "i \<in> ?I" by force
  qed
  have rest: "?runs ! i = (if i \<in> ?I then tl (runs ! i) else runs ! i)" if "i < length runs" for i
    using filter_first [OF run [OF that], of d] ge [OF that] that I [of i] by auto
  show "cur.holds ?I (snd (pop_document d heap)) cursors ?runs"
    unfolding cur.holds_def
  proof (intro conjI allI impI)
    show "length cursors = length ?runs" using h by (simp add: cur.holds_def)
    show "distinct (snd (pop_document d heap))" using pop dist by (metis distinct_filter mset_eq_imp_distinct_iff)
    fix i assume i: "i < length ?runs"
    then have "sorted_wrt (<) (map fst (filter (\<lambda>p. fst p \<noteq> d) (runs ! i)))"
      using run by (simp add: sorted_wrt_map sorted_wrt_filter)
    then show "sorted (map fst (?runs ! i))" using i by (simp add: strict_sorted_iff)
    have "cursor_delivers (cursors ! i) (tl (runs ! i))" using h i by (simp add: cur.holds_def)
    then show "cursor_delivers (cursors ! i) (if i \<in> ?I then ?runs ! i else tl (?runs ! i))"
      using rest i by simp
  next
    fix p i
    have "set (snd (pop_document d heap)) = set (filter (\<lambda>p. fst (fst p) \<noteq> d) heap)" using pop by (metis set_mset_mset)
    then have "(p, i) \<in> set (snd (pop_document d heap)) \<longleftrightarrow> i < length runs \<and> runs ! i \<noteq> [] \<and> p = hd (runs ! i) \<and> fst p \<noteq> d"
      using heap by auto
    then show "(p, i) \<in> set (snd (pop_document d heap)) \<longleftrightarrow> i < length ?runs \<and> i \<notin> ?I \<and> ?runs ! i \<noteq> [] \<and> p = hd (?runs ! i)"
      using rest [of i] I [of i] by auto
  qed
qed

text \<open>The candidate of a document and the documents of the runs, in order.\<close>

definition candidate_of ::
  "'f float_ops \<Rightarrow> (u64 \<Rightarrow> document_stat) \<Rightarrow> 'f \<Rightarrow> 'f list \<Rightarrow> posting list list \<Rightarrow> u64 \<Rightarrow> 'f candidate" where
  "candidate_of F stat average_length idfs runs d =
     \<lparr>ca_document_id = d, ca_index_order = st_index_order (stat d),
      ca_score = round6 F (fold (add_posting F (st_length (stat d)) average_length idfs) (hits d runs) (fo_lit F 0))\<rparr>"

definition run_documents :: "posting list list \<Rightarrow> u64 list" where
  "run_documents runs = sorted_list_of_set (fst ` set (concat runs))"

lemma run_documents_Nil: "concat runs = [] \<Longrightarrow> run_documents runs = []"
  by (simp only: run_documents_def list.set image_empty sorted_list_of_set_empty)

lemma run_documents_step:
  assumes "p \<in> set (concat runs)" and "\<forall>q\<in>set (concat runs). fst p \<le> fst q"
  shows "run_documents runs = fst p # run_documents (map (filter (\<lambda>q. fst q \<noteq> fst p)) runs)"
proof -
  let ?A = "fst ` set (concat runs)"
  have "fst ` set (concat (map (filter (\<lambda>q. fst q \<noteq> fst p)) runs)) = ?A - {fst p}" by auto
  moreover have "sorted_list_of_set ?A = fst p # sorted_list_of_set (?A - {fst p})"
  proof -
    have "Min ?A = fst p" using assms by (intro Min_eqI) auto
    moreover have "?A \<noteq> {}" using assms(1) by (metis empty_iff image_is_empty)
    moreover have "finite ?A" by simp
    ultimately show ?thesis by (metis sorted_list_of_set_nonempty)
  qed
  ultimately show ?thesis by (simp add: run_documents_def)
qed

lemma rank_loop_spec:
  assumes "cur.holds {} heap cursors runs" and "strict_runs runs" and "length (concat runs) < fuel" and "map pc_idf cursors = idfs"
    and "\<forall>d\<in>fst ` set (concat runs). read_document_stat_at lengths (word_of_nat (length document_lengths_magic)) d = Inr (stat d)"
  shows "rank_loop F lengths avg layer limit fuel cursors heap best =
     Inr (fold (\<lambda>c best. retain_best F best c limit)
       (map (candidate_of F stat avg idfs runs) (filter (\<lambda>d. st_layer (stat d) = layer) (run_documents runs))) best)"
  using assms
proof (induction fuel arbitrary: heap cursors runs best)
  case (Suc fuel)
  show ?case
  proof (cases "heap_pop heap_posting_order heap")
    case None
    with Suc.prems(1) have "concat runs = []" by (intro cur.holds_empty) (auto simp: heap_posting_order_eq)
    with None show ?thesis by (simp add: run_documents_Nil del: heap_pop_None concat_eq_Nil_conv)
  next
    case (Some popped)
    obtain p i heap1 where popped: "heap_pop heap_posting_order heap = Some ((p, i), heap1)" using Some by (cases popped) auto
    from cur.holds_pop [OF Suc.prems(1), of p i heap1] popped obtain ps where
      i: "i < length runs" "runs ! i = p # ps" and srt: "sort_key fst (concat runs) = p # sort_key fst (concat (runs[i := ps]))"
      by (auto simp: heap_posting_order_eq)
    have pin: "p \<in> set (concat runs)" using i by (metis UN_I list.set_intros(1) nth_mem set_concat)
    have least: "\<forall>q\<in>set (concat runs). fst p \<le> fst q"
    proof -
      have "sorted (map fst (p # sort_key fst (concat (runs[i := ps]))))" by (metis srt sorted_sort_key)
      then have "\<forall>q\<in>set (p # sort_key fst (concat (runs[i := ps]))). fst p \<le> fst q" by simp
      then show ?thesis unfolding srt [symmetric] by (simp only: set_sort)
    qed
    let ?d = "fst p" and ?runs = "map (filter (\<lambda>q. fst q \<noteq> fst p)) runs"
    note doc = pop_document_holds [OF Suc.prems(1,2) least]
    obtain rest heap2 where pop2: "pop_document ?d heap1 = (rest, heap2)" by (cases "pop_document ?d heap1")
    then have both: "pop_document ?d heap = ((p, i) # rest, heap2)" using popped by (subst pop_document.simps) simp
    have "strict_runs ?runs" using Suc.prems(2) by (auto simp: strict_runs_def sorted_wrt_map sorted_wrt_filter)
    moreover have dist: "distinct (map snd (hits ?d runs))" using sorted_hits [OF Suc.prems(2)] by (simp add: strict_sorted_iff)
    moreover have "\<forall>j\<in>set (map snd (hits ?d runs)). j < length ?runs" using set_hits [of _ _ _ ?d runs] by force
    ultimately obtain cursors' heap' where
      score: "score_postings F (st_length (stat ?d)) avg (hits ?d runs) (fo_lit F 0) cursors heap2 =
         Inr (fold (add_posting F (st_length (stat ?d)) avg idfs) (hits ?d runs) (fo_lit F 0), cursors', heap')"
      and h': "cur.holds {} heap' cursors' ?runs" "map pc_idf cursors' = idfs" "strict_runs ?runs"
      using score_postings_spec [OF doc(2) dist _ Suc.prems(4), of F "st_length (stat ?d)" avg "fo_lit F 0"] both by auto
    have "length (concat ?runs) < length (concat runs)"
    proof -
      have "concat ?runs = filter (\<lambda>q. fst q \<noteq> fst p) (concat runs)" by (simp add: filter_concat)
      then show ?thesis using pin by (metis (mono_tags, lifting) length_filter_less)
    qed
    then have len: "length (concat ?runs) < fuel" using Suc.prems(3) by linarith
    have stats: "\<forall>d\<in>fst ` set (concat ?runs). read_document_stat_at lengths (word_of_nat (length document_lengths_magic)) d = Inr (stat d)"
      using Suc.prems(5) by auto
    note IH = Suc.IH [OF h'(1,3) len h'(2) stats]
    have docs: "run_documents runs = ?d # run_documents ?runs" by (rule run_documents_step [OF pin least])
    have "\<forall>d\<in>set (run_documents ?runs). candidate_of F stat avg idfs ?runs d = candidate_of F stat avg idfs runs d"
      by (auto simp: run_documents_def candidate_of_def hits_rest)
    then have cands: "map (candidate_of F stat avg idfs ?runs) (filter P (run_documents ?runs)) =
        map (candidate_of F stat avg idfs runs) (filter P (run_documents ?runs))" for P by auto
    have stat: "read_document_stat_at lengths (word_of_nat (length document_lengths_magic)) ?d = Inr (stat ?d)"
      using Suc.prems(5) pin by blast
    show ?thesis
      using doc(1) both popped pop2 score stat IH
      by (simp add: Let_def docs cands candidate_of_def [of _ _ _ _ _ ?d])
  qed
qed simp

end
