(* ===== verification/SearchExact.thy ===== *)
theory SearchExact
  imports SearchRank
begin

text \<open>
  What a search returns, in terms of the staged nodes. \<open>ranked_candidates\<close> scores every document of a
  build that contains a query term, directly from the terms of its node; \<open>search\<close> on the files of the
  build gives the first of them in the order of the scores. The comparison of floating-point scores
  is assumed to be an order on the scores at hand, that is, none of them is NaN.
\<close>

section \<open>The reference\<close>

definition matched :: "entry list \<Rightarrow> string list \<Rightarrow> nat \<Rightarrow> string list" where
  "matched docs query i = filter (\<lambda>t. t \<in> set (snd (docs ! i))) query"

definition frequency_of :: "entry list \<Rightarrow> string \<Rightarrow> nat" where
  "frequency_of docs t = length (filter (\<lambda>e. t \<in> set (snd e)) docs)"

definition average_of :: "'f float_ops \<Rightarrow> entry list \<Rightarrow> 'f" where
  "average_of F docs =
     (if docs = [] then fo_lit F 0
      else fo_div F (fo_of_nat F (sum_list (map (\<lambda>e. length (snd e)) docs))) (fo_of_nat F (length docs)))"

definition add_term :: "'f float_ops \<Rightarrow> entry list \<Rightarrow> nat \<Rightarrow> string \<Rightarrow> 'f \<Rightarrow> 'f" where
  "add_term F docs i t score =
     fo_add F score (bm25_term_score F (word_of_nat (count_list (snd (docs ! i)) t)) (word_of_nat (length (snd (docs ! i))))
       (average_of F docs) (inverse_document_frequency F (word_of_nat (length docs)) (word_of_nat (frequency_of docs t))))"

definition scored :: "'f float_ops \<Rightarrow> entry list \<Rightarrow> string list \<Rightarrow> nat \<Rightarrow> 'f candidate" where
  "scored F docs query i =
     \<lparr>ca_document_id = word_of_nat i, ca_index_order = sd_index_order (fst (docs ! i)),
      ca_score = round6 F (fold (add_term F docs i) (matched docs query i) (fo_lit F 0))\<rparr>"

definition ranked_candidates :: "'f float_ops \<Rightarrow> entry list \<Rightarrow> string list \<Rightarrow> search_layer \<Rightarrow> 'f candidate list" where
  "ranked_candidates F docs query layer =
     map (scored F docs query)
       (filter (\<lambda>i. sd_layer (fst (docs ! i)) = layer \<and> matched docs query i \<noteq> []) [0..<length docs])"

definition ranked_of :: "entry list \<Rightarrow> 'f candidate \<Rightarrow> 'f ranked_document" where
  "ranked_of docs c =
     (let d = fst (docs ! unat (ca_document_id c)) in
      \<lparr>rd_id = sd_id d, rd_node_type = sd_node_type d, rd_index_order = unat (sd_index_order d),
       rd_layer = layer_as_str (sd_layer d), rd_score = ca_score c\<rparr>)"

definition rank_key :: "('f \<Rightarrow> real) \<Rightarrow> 'f candidate \<Rightarrow> real \<times> u32 \<times> u64" where
  "rank_key rank c = (- rank (ca_score c), ca_index_order c, ca_document_id c)"

section \<open>Facts: the cursors of a query\<close>

lemma find_loop_btree:
  "find_loop fuel query last_query reader found = Inr found' \<Longrightarrow> btree_inv found \<Longrightarrow> btree_inv found'"
proof (induction fuel arbitrary: reader found)
  case (Suc fuel)
  then obtain item where item: "read_lexicon_entry max_term_bytes reader = Inr item"
    by (auto simp: try_op_Inr_iff lift_result_Inr_iff)
  show ?case
  proof (cases item)
    case None
    with Suc.prems item show ?thesis by simp
  next
    case (Some p)
    obtain e reader1 where "p = (e, reader1)" by (cases p)
    with Suc item Some show ?thesis by (auto simp: btree_inv_insert split: if_splits)
  qed
qed simp

lemma find_lexicon_list:
  assumes ok: "list_all entry_ok entries" and srt: "sorted_wrt (<) (map le_term entries)" and query: "sorted query"
  shows "find_lexicon_entries (lexicon_magic @ concat (map lexicon_entry_bytes entries)) query =
     Inr (map (\<lambda>e. (le_term e, e)) (filter (\<lambda>e. le_term e \<in> set query) entries))"
proof -
  let ?found = "map (\<lambda>e. (le_term e, e)) (filter (\<lambda>e. le_term e \<in> set query) entries)"
  from find_lexicon_of [OF assms] obtain found where
    found: "find_lexicon_entries (lexicon_magic @ concat (map lexicon_entry_bytes entries)) query = Inr found"
      "\<And>t. map_of found t = find (\<lambda>e. le_term e = t \<and> t \<in> set query) entries" by blast
  have "btree_inv found"
    using found(1) unfolding find_lexicon_entries_def
    by (auto simp: try_op_Inr_iff read_lexicon_magic simp del: find_loop.simps intro: find_loop_btree [OF _ btree_inv_Nil])
  moreover have "btree_inv ?found"
    using srt by (simp add: btree_inv_def comp_def sorted_wrt_map sorted_wrt_filter)
  moreover have "map_of ?found t = find (\<lambda>e. le_term e = t \<and> t \<in> set query) entries" for t
    by (induction entries) auto
  ultimately have "found = ?found" by (intro btree_ext) (auto simp: found(2) fun_eq_iff)
  with found(1) show ?thesis by simp
qed

text \<open>Every lexicon entry opens a cursor on the postings of its term.\<close>

definition opens :: "string \<Rightarrow> lexicon_entry \<Rightarrow> string \<times> (u64 \<times> nat) list \<Rightarrow> bool" where
  "opens postings e = (\<lambda>(t, ps). le_term e = t \<and> unat (le_document_frequency e) = length ps
     \<and> drop (unat (le_postings_offset e)) postings = postings_file ps @ drop (unat (le_postings_offset e) + length (postings_file ps)) postings)"

lemma lexicon_opens:
  assumes "idx = front @ behind" and "small_table k idx" and "k < 2 ^ 20"
  shows "list_all2 (opens (postings_magic @ postings_file (table_postings idx)))
     (lexicon_of (8 + posting_bytes * length (table_postings front)) behind) behind"
  using assms(1)
proof (induction behind arbitrary: front)
  case (Cons x behind)
  obtain t ps where x: "x = (t, ps)" by (cases x)
  let ?offset = "8 + posting_bytes * length (table_postings front)" and ?file = "postings_magic @ postings_file (table_postings idx)"
  have len: "length (table_postings idx) < 2 ^ 20" using assms(2,3) by (simp add: small_table_def)
  then have "length (table_postings front) < 2 ^ 20" "length ps < 2 ^ 20"
    using Cons.prems by (simp_all add: x table_postings_def)
  then have "unat (word_of_nat ?offset :: u64) = ?offset" "unat (word_of_nat (length ps) :: u32) = length ps"
    by (auto intro!: small_u64 small_u32 simp: posting_bytes_def simp del: of_nat_add)
  moreover have dr: "drop ?offset ?file = postings_file ps @ postings_file (table_postings behind)"
    using drop_postings [of front t ps behind] Cons.prems by (simp add: x)
  moreover from dr have "drop (?offset + length (postings_file ps)) ?file = postings_file (table_postings behind)"
    by (metis add.commute append_eq_conv_conj drop_drop)
  ultimately have "opens ?file \<lparr>le_term = t, le_postings_offset = word_of_nat ?offset, le_document_frequency = word_of_nat (length ps)\<rparr> (t, ps)"
    by (simp add: opens_def del: of_nat_add)
  moreover have "?offset + posting_bytes * length ps = 8 + posting_bytes * length (table_postings (front @ [(t, ps)]))"
    by (simp add: table_postings_def distrib_left)
  moreover from Cons.IH [of "front @ [x]"] Cons.prems
  have "list_all2 (opens ?file) (lexicon_of (8 + posting_bytes * length (table_postings (front @ [x]))) behind) behind" by simp
  ultimately show ?case unfolding x by (simp only: lexicon_of.simps list_all2_Cons)
qed simp

lemma list_all2_filter:
  assumes "list_all2 R xs ys" and "\<And>x y. R x y \<Longrightarrow> P x = Q y"
  shows "list_all2 R (filter P xs) (filter Q ys)"
  using assms(1) by (induction rule: list_all2_induct) (auto simp: assms(2))

definition run_of :: "string \<times> (u64 \<times> nat) list \<Rightarrow> posting list" where
  "run_of = (\<lambda>(t, ps). map (\<lambda>(d, n). (d, word_of_nat n)) ps)"

lemma opens_cursor:
  "opens postings e (t, ps) \<Longrightarrow> cursor_delivers (cursor_open postings (le_postings_offset e) (le_document_frequency e) idf) (run_of (t, ps))"
  unfolding opens_def cursor_delivers_def cursor_at_def cursor_open_def run_of_def by auto

lemma load_heads_idf:
  "load_heads cursor_next index cursors heap = Inr (cursors', heap') \<Longrightarrow> map pc_idf cursors' = map pc_idf cursors"
proof (induction cursors arbitrary: index heap cursors')
  case (Cons c cursors)
  then obtain item where item: "cursor_next c = Inr item" by (auto simp: try_op_Inr_iff)
  show ?case
  proof (cases item)
    case None
    with Cons item show ?thesis by (auto simp: try_op_Inr_iff)
  next
    case (Some p)
    obtain x c' where "p = (x, c')" by (cases p)
    with Cons item Some cursor_next_idf [of c x c'] show ?thesis by (auto simp: try_op_Inr_iff)
  qed
qed simp

section \<open>Facts: the table of a build\<close>

abbreviation table_of :: "entry list \<Rightarrow> index_table" where
  "table_of docs \<equiv> index_of (sort (occs_of docs))"

lemma table_row:
  assumes "(t, ps) \<in> set (table_of docs)" and "length docs < 2 ^ 64"
  shows "map_of ps d = (if unat d < length docs \<and> t \<in> set (snd (docs ! unat d)) then Some (count_list (snd (docs ! unat d)) t) else None)"
    and "sorted_wrt (<) (map fst ps)" and "ps \<noteq> []"
proof -
  have ord: "ordered_table (table_of docs)" by (rule index_of_sort(1))
  then have "map_of (table_of docs) t = Some ps" using assms(1) by (auto simp: ordered_table_def strict_sorted_iff)
  then have freq: "(case map_of ps d of None \<Rightarrow> 0 | Some n \<Rightarrow> n) = count_list (occs_of docs) (Occurrence t d)"
    using index_of_sort(2) [of "occs_of docs" t d] by (simp add: table_frequency_def)
  have row: "ordered_postings ps" "ps \<noteq> []" using ord assms(1) by (auto simp: ordered_table_def)
  have pos: "0 < n" if "map_of ps d = Some n" for n using row(1) map_of_SomeD [OF that] by (auto simp: ordered_postings_def)
  from freq pos show "map_of ps d = (if unat d < length docs \<and> t \<in> set (snd (docs ! unat d)) then Some (count_list (snd (docs ! unat d)) t) else None)"
    by (cases "map_of ps d") (auto simp: count_occs_of [OF assms(2)] count_list_0_iff split: if_splits intro: ccontr)
  show "sorted_wrt (<) (map fst ps)" "ps \<noteq> []" using row by (simp_all add: ordered_postings_def)
qed

lemma table_terms:
  assumes "length docs < 2 ^ 64"
  shows "t \<in> fst ` set (table_of docs) \<longleftrightarrow> (\<exists>i<length docs. t \<in> set (snd (docs ! i)))"
proof
  assume "t \<in> fst ` set (table_of docs)"
  then obtain ps where row: "(t, ps) \<in> set (table_of docs)" by force
  from table_row(3) [OF this assms] obtain d n where "(d, n) \<in> set ps" by (cases ps) auto
  then have "map_of ps d \<noteq> None" by (metis domIff map_of_eq_None_iff rev_image_eqI fst_conv)
  then show "\<exists>i<length docs. t \<in> set (snd (docs ! i))" using table_row(1) [OF row assms, of d] by (auto split: if_splits)
next
  assume "\<exists>i<length docs. t \<in> set (snd (docs ! i))"
  then obtain i where i: "i < length docs" "t \<in> set (snd (docs ! i))" by blast
  then have "unat (word_of_nat i :: u64) = i" using assms by (intro unat_word_of_nat) simp
  then have "count_list (occs_of docs) (Occurrence t (word_of_nat i)) \<noteq> 0"
    using i by (simp add: count_occs_of [OF assms] count_list_0_iff)
  then have "table_frequency (table_of docs) t (word_of_nat i) \<noteq> 0" by (simp add: index_of_sort(2))
  then show "t \<in> fst ` set (table_of docs)" by (metis table_frequency_absent)
qed

lemma row_frequency:
  assumes "(t, ps) \<in> set (table_of docs)" and "length docs < 2 ^ 64"
  shows "length ps = frequency_of docs t"
proof -
  let ?I = "{i. i < length docs \<and> t \<in> set (snd (docs ! i))}"
  have word: "unat (word_of_nat i :: u64) = i" if "i < length docs" for i
    using that assms(2) by (intro unat_word_of_nat) simp
  have "d \<in> fst ` set ps \<longleftrightarrow> d \<in> word_of_nat ` ?I" for d
  proof -
    have "d \<in> fst ` set ps \<longleftrightarrow> map_of ps d \<noteq> None" by (simp add: map_of_eq_None_iff)
    also have "\<dots> \<longleftrightarrow> unat d \<in> ?I" using table_row(1) [OF assms, of d] by simp
    also have "\<dots> \<longleftrightarrow> d \<in> word_of_nat ` ?I" using word by (auto simp: image_iff)
    finally show ?thesis .
  qed
  then have "set (map fst ps) = word_of_nat ` ?I" by auto
  moreover have "inj_on (word_of_nat :: nat \<Rightarrow> u64) ?I" using word by (intro inj_on_inverseI [of _ unat]) simp
  moreover have "distinct (map fst ps)" using table_row(2) [OF assms] by (simp add: strict_sorted_iff)
  ultimately have "length (map fst ps) = card ?I" by (simp only: card_image flip: distinct_card)
  then have "length ps = card ?I" by simp
  then show ?thesis by (simp add: frequency_of_def length_filter_conv_card)
qed

section \<open>Facts: the score of a document\<close>

lemma run_of_document:
  assumes "sorted_wrt (<) (map fst ps)"
  shows "filter (\<lambda>p. fst p = d) (run_of (t, ps)) = (case map_of ps d of None \<Rightarrow> [] | Some n \<Rightarrow> [(d, word_of_nat n)])"
proof -
  have "map fst (run_of (t, ps)) = map fst ps" by (simp add: run_of_def comp_def case_prod_beta)
  moreover have "map_of (run_of (t, ps)) d = map_option word_of_nat (map_of ps d)"
    by (simp add: run_of_def map_of_map)
  ultimately show ?thesis using filter_document [of "run_of (t, ps)" d] assms by (simp split: option.splits)
qed

lemma fold_hits:
  assumes "\<forall>x\<in>set xs. sorted_wrt (<) (map fst (snd x))"
  shows "fold (add_posting F len avg (map g xs)) (hits d (map run_of xs)) s =
     fold (\<lambda>x s. case map_of (snd x) d of None \<Rightarrow> s
                | Some n \<Rightarrow> fo_add F s (bm25_term_score F (word_of_nat n) len avg (g x))) xs s"
  using assms
proof (induction xs rule: rev_induct)
  case (snoc x xs)
  have "fold (add_posting F len avg (map g (xs @ [x]))) (hits d (map run_of xs)) s =
      fold (add_posting F len avg (map g xs)) (hits d (map run_of xs)) s"
  proof (rule fold_cong)
    fix p assume "p \<in> set (hits d (map run_of xs))"
    moreover obtain d' tf i where "p = ((d', tf), i)" by (metis surj_pair)
    ultimately show "add_posting F len avg (map g (xs @ [x])) p = add_posting F len avg (map g xs) p"
      by (auto simp: add_posting_def set_hits nth_append)
  qed simp_all
  moreover have "filter (\<lambda>p. fst p = d) (run_of x) = (case map_of (snd x) d of None \<Rightarrow> [] | Some n \<Rightarrow> [(d, word_of_nat n)])"
    using snoc.prems run_of_document [of "snd x" d "fst x"] by simp
  ultimately show ?case using snoc
    by (auto simp: hits_snoc add_posting_def nth_append split: option.splits)
qed (simp add: hits_def)

text \<open>The rows of the query, and those that mention a document: its matched terms.\<close>

definition query_rows :: "entry list \<Rightarrow> string list \<Rightarrow> (string \<times> (u64 \<times> nat) list) list" where
  "query_rows docs query = filter (\<lambda>x. fst x \<in> set query) (table_of docs)"

lemma query_rows_subset: "x \<in> set (query_rows docs query) \<Longrightarrow> x \<in> set (table_of docs) \<and> fst x \<in> set query"
  by (auto simp: query_rows_def)

lemma matched_rows:
  assumes "i < length docs" and "length docs < 2 ^ 64" and query: "sorted query" "distinct query"
  shows "map fst (filter (\<lambda>x. map_of (snd x) (word_of_nat i) \<noteq> None) (query_rows docs query)) = matched docs query i"
proof (rule sorted_distinct_set_unique)
  let ?xs = "filter (\<lambda>x. map_of (snd x) (word_of_nat i) \<noteq> None) (query_rows docs query)"
  have "sorted_wrt (<) (map fst (table_of docs))" using index_of_sort(1) by (simp add: ordered_table_def)
  then have "sorted_wrt (<) (map fst ?xs)" by (simp add: query_rows_def sorted_wrt_map sorted_wrt_filter)
  then show "sorted (map fst ?xs)" "distinct (map fst ?xs)" by (simp_all add: strict_sorted_iff)
  show "sorted (matched docs query i)" "distinct (matched docs query i)"
    using query by (simp_all add: matched_def sorted_wrt_filter)
  have i: "unat (word_of_nat i :: u64) = i" using assms by (intro unat_word_of_nat) simp
  have "t \<in> fst ` set ?xs \<longleftrightarrow> t \<in> set (matched docs query i)" for t
  proof
    assume "t \<in> fst ` set ?xs"
    then obtain ps where "(t, ps) \<in> set ?xs" by force
    then show "t \<in> set (matched docs query i)"
      using table_row(1) [of t ps docs "word_of_nat i"] assms(2) i by (auto simp: query_rows_def matched_def split: if_splits)
  next
    assume t: "t \<in> set (matched docs query i)"
    then obtain ps where row: "(t, ps) \<in> set (table_of docs)"
      using table_terms [OF assms(2), of t] assms(1) by (force simp: matched_def)
    then have "(t, ps) \<in> set ?xs"
      using table_row(1) [OF row assms(2), of "word_of_nat i"] t i assms(1) by (simp add: query_rows_def matched_def)
    then show "t \<in> fst ` set ?xs" by force
  qed
  then show "set (map fst ?xs) = set (matched docs query i)" by auto
qed

lemma fold_filter_case:
  assumes "\<And>x n. x \<in> set xs \<Longrightarrow> m x = Some n \<Longrightarrow> h x n = k (fst x)"
  shows "fold (\<lambda>x s. case m x of None \<Rightarrow> s | Some n \<Rightarrow> h x n s) xs s = fold k (map fst (filter (\<lambda>x. m x \<noteq> None) xs)) s"
  using assms
proof (induction xs arbitrary: s)
  case (Cons x xs)
  then show ?case by (cases "m x") auto
qed simp

lemma candidate_scored:
  assumes i: "i < length docs" and small: "length docs < 2 ^ 40" and query: "sorted query" "distinct query"
  shows "candidate_of F (\<lambda>d. stat_of (docs ! unat d)) (average_of F docs)
       (map (\<lambda>x. inverse_document_frequency F (word_of_nat (length docs)) (word_of_nat (length (snd x)))) (query_rows docs query))
       (map run_of (query_rows docs query)) (word_of_nat i) = scored F docs query i"
proof -
  let ?g = "\<lambda>x :: string \<times> (u64 \<times> nat) list. inverse_document_frequency F (word_of_nat (length docs)) (word_of_nat (length (snd x)))"
  let ?len = "word_of_nat (length (snd (docs ! i))) :: u32" and ?d = "word_of_nat i :: u64"
  have len: "length docs < 2 ^ 64" using small by simp
  have d: "unat ?d = i" using i len by (intro unat_word_of_nat) simp
  have "\<forall>x\<in>set (query_rows docs query). sorted_wrt (<) (map fst (snd x))"
    using table_row(2) [OF _ len] query_rows_subset by (metis prod.collapse)
  note fold_hits = fold_hits [OF this, of F ?len "average_of F docs" ?g ?d "fo_lit F 0"]
  also have "fold (\<lambda>x s. case map_of (snd x) ?d of None \<Rightarrow> s
                | Some n \<Rightarrow> fo_add F s (bm25_term_score F (word_of_nat n) ?len (average_of F docs) (?g x))) (query_rows docs query) (fo_lit F 0) =
      fold (add_term F docs i) (matched docs query i) (fo_lit F 0)"
    unfolding matched_rows [OF i len query, symmetric]
  proof (rule fold_filter_case)
    fix x n assume "x \<in> set (query_rows docs query)" and n: "map_of (snd x) ?d = Some n"
    then obtain t ps where x: "x = (t, ps)" "(t, ps) \<in> set (table_of docs)" using query_rows_subset by (metis prod.collapse)
    have "n = count_list (snd (docs ! i)) t" using table_row(1) [OF x(2) len, of ?d] n by (auto simp: x(1) d split: if_splits)
    moreover have "length ps = frequency_of docs t" by (rule row_frequency [OF x(2) len])
    ultimately show "(\<lambda>s. fo_add F s (bm25_term_score F (word_of_nat n) ?len (average_of F docs) (?g x))) = add_term F docs i (fst x)"
      by (simp add: x(1) add_term_def fun_eq_iff)
  qed
  finally show ?thesis by (simp add: candidate_of_def scored_def d stat_of_def case_prod_beta)
qed

text \<open>The documents of the query rows are those with a matched term.\<close>

lemma query_documents:
  assumes small: "length docs < 2 ^ 40" and query: "sorted query" "distinct query"
  shows "run_documents (map run_of (query_rows docs query)) = map word_of_nat (filter (\<lambda>i. matched docs query i \<noteq> []) [0..<length docs])"
proof -
  let ?is = "filter (\<lambda>i. matched docs query i \<noteq> []) [0..<length docs]" and ?w = "word_of_nat :: nat \<Rightarrow> u64"
  have len: "length docs < 2 ^ 64" using small by simp
  have word: "unat (?w i) = i" if "i < length docs" for i using that len by (intro unat_word_of_nat) simp
  have "d \<in> fst ` set (concat (map run_of (query_rows docs query))) \<longleftrightarrow> d \<in> ?w ` set ?is" for d
  proof -
    have docs: "fst ` set (run_of x) = fst ` set (snd x)" for x by (cases x) (force simp: run_of_def)
    have "d \<in> fst ` set (concat (map run_of (query_rows docs query))) \<longleftrightarrow> (\<exists>x\<in>set (query_rows docs query). map_of (snd x) d \<noteq> None)"
      using docs by (simp add: image_UN map_of_eq_None_iff)
    also have "\<dots> \<longleftrightarrow> unat d < length docs \<and> (\<exists>x\<in>set (query_rows docs query). map_of (snd x) d \<noteq> None)"
      using table_row(1) [OF _ len, of _ _ d] query_rows_subset by (metis prod.collapse)
    also have "\<dots> \<longleftrightarrow> unat d < length docs \<and> matched docs query (unat d) \<noteq> []"
    proof (rule conj_cong [OF refl])
      assume "unat d < length docs"
      from matched_rows [OF this len query, symmetric]
      show "(\<exists>x\<in>set (query_rows docs query). map_of (snd x) d \<noteq> None) \<longleftrightarrow> matched docs query (unat d) \<noteq> []"
        by (simp add: filter_empty_conv)
    qed
    also have "\<dots> \<longleftrightarrow> d \<in> ?w ` set ?is" using word by (auto simp: image_iff)
    finally show ?thesis .
  qed
  then have set: "fst ` set (concat (map run_of (query_rows docs query))) = ?w ` set ?is" by blast
  have "sorted_wrt (<) (map ?w ?is)"
    unfolding sorted_wrt_map
  proof (rule sorted_wrt_mono_rel [of _ "(<)"])
    show "sorted_wrt (<) ?is" by (simp add: sorted_wrt_filter)
  qed (use word in \<open>auto simp: word_less_nat_alt\<close>)
  then have "sorted_list_of_set (set (map ?w ?is)) = map ?w ?is"
    by (intro sorted_list_of_set.idem_if_sorted_distinct) (simp_all only: strict_sorted_iff)
  then show ?thesis by (simp only: run_documents_def set set_map)
qed

section \<open>Facts: the ranked documents\<close>

lemma offsets_of_nth: "i < length ds \<Longrightarrow> offsets_of env offset ds ! i = offset + length (concat (map (doc_record env) (take i ds)))"
proof (induction ds arbitrary: offset i)
  case (Cons d ds)
  then show ?case by (cases i) auto
qed simp

lemma read_ranked_document:
  assumes tables: "tables_ok env renv docs" and i: "i < length docs" and c: "ca_document_id c = word_of_nat i"
  shows "read_ranked renv (offsets_file env docs) (documents_file env docs) c = Inr (ranked_of docs c)"
proof -
  let ?ds = "map fst docs" and ?rec = "doc_record env" and ?w = "\<lambda>offset. write_u64 (word_of_nat offset)"
  let ?offsets = "document_offsets_magic @ offsets_bytes (offsets_of env 8 ?ds)"
  let ?front = "take i docs" and ?d = "fst (docs ! i)"
  have small: "length docs < 2 ^ 40" using tables by (simp add: tables_ok_def)
  have d: "unat (word_of_nat i :: u64) = i" by (rule small_u64) (use i small in simp)
  have "unat (word_of_nat i * 8 :: u64) = i * 8" using d i small by (simp add: unat_word_ariths)
  then obtain pos where pos: "offset_position (word_of_nat i) = Inr pos" "unat pos = 8 + 8 * i"
    using d i small by (auto simp: offset_position_def checked_mul_def checked_add_def document_offset_bytes_def
        length_magics unat_word_ariths)
  have docs: "docs = ?front @ docs ! i # drop (Suc i) docs" using i by (simp add: id_take_nth_drop)
  let ?offset = "8 + length (concat (map ?rec (map fst ?front)))"
  have "drop (unat pos) ?offsets = drop (8 * i) (concat (map ?w (offsets_of env 8 ?ds)))"
    by (simp add: pos(2) offsets_bytes_def length_magics)
  also have "\<dots> = concat (map ?w (drop i (offsets_of env 8 ?ds)))" by (rule drop_records) simp
  also have "drop i (offsets_of env 8 ?ds) = ?offset # drop (Suc i) (offsets_of env 8 ?ds)"
    using i offsets_of_nth [of i ?ds env 8] by (simp add: Cons_nth_drop_Suc [symmetric] take_map)
  finally have "drop (unat pos) ?offsets = ?w ?offset @ concat (map ?w (drop (Suc i) (offsets_of env 8 ?ds)))" by simp
  then have off: "\<exists>rest. read_u64 (drop (unat pos) ?offsets) = Inr (word_of_nat ?offset, rest)"
    by (simp del: of_nat_add)
  have bytes: "documents_magic @ concat (map ?rec ?ds) =
      (documents_magic @ concat (map ?rec (map fst ?front))) @ ?rec ?d @ concat (map ?rec (map fst (drop (Suc i) docs)))"
    by (subst (1) docs) simp
  have "docs ! i \<in> set docs" using i by simp
  then have "length (be_encode_document env ?d) \<le> max_document_record_bytes" "decodes env renv ?d"
    using tables by (auto simp: tables_ok_def)
  moreover have "unat (word_of_nat ?offset :: u64) = length (documents_magic @ concat (map ?rec (map fst ?front)))"
    by (subst offset_u64 [OF tables docs]) (simp add: length_magics)
  ultimately have doc: "read_document_at (re_decode_document renv) (documents_magic @ concat (map ?rec ?ds)) (word_of_nat ?offset) max_document_record_bytes = Inr ?d"
    unfolding bytes by (intro read_document_at_record)
  show ?thesis
    using off doc
    by (auto simp: read_ranked_def c pos(1) ranked_of_def Let_def d offsets_file_def documents_file_def simp del: of_nat_add)
qed

lemma try_map_Inr: "\<forall>x\<in>set xs. f x = Inr (g x) \<Longrightarrow> try_map f xs = Inr (map g xs)"
  by (induction xs) auto

lemma query_terms_sorted: "sorted (query_terms_of U query) \<and> distinct (query_terms_of U query)"
proof -
  let ?step = "\<lambda>term terms. if length terms < max_query_terms \<or> term \<in> set terms then insort_insert term terms else terms"
  have "sorted acc \<and> distinct acc \<Longrightarrow> sorted (fold ?step ts acc) \<and> distinct (fold ?step ts acc)" for ts acc
    by (induction ts arbitrary: acc) (auto simp: sorted_insort_insert distinct_insort_insert)
  from this [of "[]"] show ?thesis by (simp add: query_terms_of_def)
qed

lemma candidate_order_key:
  assumes "\<forall>a\<in>ca_score ` A. \<forall>b\<in>ca_score ` A. fo_partial_cmp F a b = Some (cmp_of (rank a) (rank b))"
  shows "compares (candidate_order F) (rank_key rank) A"
proof -
  have "then_with (cmp_of b a) (then_with (cmp_of a' b') (cmp_of a'' b'')) = cmp_of (- a, a', a'') (- b, b', b'')"
    for a b :: real and a' b' :: u32 and a'' b'' :: u64
    by (auto simp: then_with_def cmp_of_def)
  then show ?thesis using assms by (auto simp: compares_def candidate_order_def rank_key_def)
qed

section \<open>Facts: search on a build\<close>

text \<open>Opening the cursors of the query rows and loading the heads.\<close>

definition query_cursors_ok :: "'f float_ops \<Rightarrow> entry list \<Rightarrow> string list \<Rightarrow> 'f posting_cursor list \<Rightarrow> bool" where
  "query_cursors_ok F docs query cursors \<longleftrightarrow>
     list_all2 cursor_delivers cursors (map run_of (query_rows docs query))
     \<and> map (\<lambda>c. unat (pc_remaining c)) cursors = map (\<lambda>x. length (snd x)) (query_rows docs query)
     \<and> map pc_idf cursors =
         map (\<lambda>x. inverse_document_frequency F (word_of_nat (length docs)) (word_of_nat (length (snd x)))) (query_rows docs query)"

lemma query_cursors:
  assumes small: "length (occs_of docs) < 2 ^ 20" and ok: "list_all indexable (occs_of docs)"
    and index: "write_final_index (run_file (sort (occs_of docs))) = Inr index" and query: "sorted query"
    and count: "sb_document_count metadata = word_of_nat (length docs)"
  shows "\<exists>found. find_lexicon_entries (fx_lexicon index) query = Inr found \<and> (found = [] \<longleftrightarrow> query_rows docs query = [])
     \<and> query_cursors_ok F docs query (open_cursors F metadata (fx_postings index) found)"
proof -
  let ?idx = "table_of docs"
  define lexicon where "lexicon = lexicon_magic @ concat (map lexicon_entry_bytes (lexicon_of 8 ?idx))"
  define postings where "postings = postings_magic @ postings_file (table_postings ?idx)"
  have idx: "list_all indexable (sort (occs_of docs))" "length (sort (occs_of docs)) < 2 ^ 20"
    using ok small by (simp_all add: list_all_iff)
  have "sorted_wrt (<) (map le_term (lexicon_of 8 ?idx))"
    using index_of_sort(1) [of "occs_of docs"] by (simp add: lexicon_of_terms ordered_table_def)
  from find_lexicon_list [OF lexicon_of_ok [OF idx(1)] this query]
  have found: "find_lexicon_entries lexicon query =
      Inr (map (\<lambda>e. (le_term e, e)) (filter (\<lambda>e. le_term e \<in> set query) (lexicon_of 8 ?idx)))" by (simp add: lexicon_def)
  let ?es = "filter (\<lambda>e. le_term e \<in> set query) (lexicon_of 8 ?idx)"
  have "list_all2 (opens postings) (lexicon_of 8 ?idx) ?idx"
    using lexicon_opens [of ?idx "[]" ?idx, OF _ small_index_of [OF idx(1)] idx(2)] by (simp add: postings_def table_postings_def)
  then have rows: "list_all2 (opens postings) ?es (query_rows docs query)"
    unfolding query_rows_def by (rule list_all2_filter) (auto simp: opens_def)
  define g where "g = (\<lambda>e :: lexicon_entry. cursor_open postings (le_postings_offset e) (le_document_frequency e)
      (inverse_document_frequency F (sb_document_count metadata) (le_document_frequency e)))"
  have cursors: "open_cursors F metadata postings (map (\<lambda>e. (le_term e, e)) ?es) = map g ?es"
    by (simp add: open_cursors_def g_def)
  have "list_all2 (\<lambda>e x. cursor_delivers (g e) (run_of x)) ?es (query_rows docs query)"
    using rows by (rule list_all2_mono) (auto simp: g_def intro: opens_cursor)
  then have 1: "list_all2 cursor_delivers (map g ?es) (map run_of (query_rows docs query))"
    by (simp add: list_all2_map1 list_all2_map2)
  have n: "unat (le_document_frequency e) = length (snd x)" "le_document_frequency e = word_of_nat (length (snd x))"
    if "opens postings e x" for e x
  proof -
    show u: "unat (le_document_frequency e) = length (snd x)" using that by (cases x) (simp add: opens_def)
    show "le_document_frequency e = word_of_nat (length (snd x))" by (simp flip: u)
  qed
  have 2: "map (\<lambda>c. unat (pc_remaining c)) (map g ?es) = map (\<lambda>x. length (snd x)) (query_rows docs query)"
    using rows by (induction rule: list_all2_induct) (auto simp: g_def cursor_open_def n(1))
  have 3: "map pc_idf (map g ?es) =
      map (\<lambda>x. inverse_document_frequency F (word_of_nat (length docs)) (word_of_nat (length (snd x)))) (query_rows docs query)"
    using rows by (induction rule: list_all2_induct) (auto simp: g_def cursor_open_def count n(2))
  have "length ?es = length (query_rows docs query)" using rows by (rule list_all2_lengthD)
  moreover from write_final_index_table [OF idx] index have "fx_lexicon index = lexicon" "fx_postings index = postings"
    by (simp_all add: lexicon_def postings_def)
  ultimately show ?thesis using found 1 2 3 by (auto simp: cursors query_cursors_ok_def simp flip: length_0_conv)
qed

lemma rank_query:
  assumes docs: "length docs < 2 ^ 40" and query: "sorted query" "distinct query" and cursors_ok: "query_cursors_ok F docs query cursors"
  shows "\<exists>cursors1 heap. load_heads cursor_next 0 cursors [] = Inr (cursors1, heap)
     \<and> rank_loop F (lengths_file docs) (average_of F docs) layer limit (Suc (sum_list (map (\<lambda>c. unat (pc_remaining c)) cursors))) cursors1 heap [] =
         Inr (fold (\<lambda>c best. retain_best F best c limit) (ranked_candidates F docs query layer) [])"
proof -
  let ?rows = "query_rows docs query" and ?runs = "map run_of (query_rows docs query)" and ?stat = "\<lambda>d. stat_of (docs ! unat d)"
  let ?lengths = "lengths_file docs"
  from cursors_ok have cursors: "list_all2 cursor_delivers cursors ?runs"
    and left: "map (\<lambda>c. unat (pc_remaining c)) cursors = map (\<lambda>x. length (snd x)) ?rows"
    and idfs: "map pc_idf cursors = map (\<lambda>x. inverse_document_frequency F (word_of_nat (length docs)) (word_of_nat (length (snd x)))) ?rows"
    by (simp_all add: query_cursors_ok_def)
  have len: "length docs < 2 ^ 64" using docs by simp
  have strict: "strict_runs ?runs"
  proof -
    have "map fst (run_of x) = map fst (snd x)" for x by (cases x) (simp add: run_of_def comp_def case_prod_beta)
    moreover have "sorted_wrt (<) (map fst (snd x))" if "x \<in> set ?rows" for x
      using table_row(2) [OF _ len] query_rows_subset [OF that] by (metis prod.collapse)
    ultimately show ?thesis by (simp add: strict_runs_def)
  qed
  from cur.load_heads_delivers [OF cursors, of 0 "[]"] obtain cursors1 where
    load: "load_heads cursor_next 0 cursors [] = Inr (cursors1, heads 0 ?runs)"
      "list_all2 (\<lambda>r run. cursor_delivers r (tl run)) cursors1 ?runs" by auto
  have holds: "cur.holds {} (heads 0 ?runs) cursors1 ?runs"
    using strict by (intro cur.holds_heads [OF load(2)]) (auto simp: list_all_iff strict_runs_def strict_sorted_iff)
  have "length (concat ?runs) = sum_list (map (\<lambda>x. length (snd x)) ?rows)"
    by (induction ?rows) (auto simp: length_concat run_of_def comp_def case_prod_beta)
  then have fuel: "length (concat ?runs) < Suc (sum_list (map (\<lambda>c. unat (pc_remaining c)) cursors))" by (simp only: left)
  have idf1: "map pc_idf cursors1 = map (\<lambda>x. inverse_document_frequency F (word_of_nat (length docs)) (word_of_nat (length (snd x)))) ?rows"
    using load_heads_idf [OF load(1)] idfs by simp
  have in_docs: "d \<in> word_of_nat ` {i. i < length docs \<and> matched docs query i \<noteq> []}" if "d \<in> fst ` set (concat ?runs)" for d :: u64
  proof -
    have "set (run_documents ?runs) = fst ` set (concat ?runs)" by (simp add: run_documents_def del: set_concat)
    with that have "d \<in> set (run_documents ?runs)" by simp
    then show ?thesis unfolding query_documents [OF docs query] by auto
  qed
  have stats: "\<forall>d\<in>fst ` set (concat ?runs). read_document_stat_at ?lengths (word_of_nat (length document_lengths_magic)) d = Inr (?stat d)"
  proof
    fix d assume "d \<in> fst ` set (concat ?runs)"
    from in_docs [OF this] obtain i where i: "i < length docs" "d = word_of_nat i" by auto
    moreover have "unat (word_of_nat i :: u64) = i" by (rule small_u64) (use i docs in simp)
    ultimately show "read_document_stat_at ?lengths (word_of_nat (length document_lengths_magic)) d = Inr (?stat d)"
      using read_document_stat_at_table [OF i(1) docs] by (simp add: lengths_file_def length_magics)
  qed
  have layer: "st_layer (?stat d) = sd_layer (fst (docs ! unat d))" for d by (simp add: stat_of_def case_prod_beta)
  have "map (candidate_of F ?stat (average_of F docs) (map (\<lambda>x. inverse_document_frequency F (word_of_nat (length docs)) (word_of_nat (length (snd x)))) ?rows) ?runs)
       (filter (\<lambda>d. st_layer (?stat d) = layer) (run_documents ?runs)) = ranked_candidates F docs query layer"
  proof -
    have "unat (word_of_nat i :: u64) = i" if "i < length docs" for i by (rule small_u64) (use that docs in simp)
    then show ?thesis
      unfolding query_documents [OF docs query] ranked_candidates_def filter_map map_map comp_def layer
      using candidate_scored [OF _ docs query, of _ F] by (auto simp: filter_filter intro!: map_cong filter_cong)
  qed
  then show ?thesis using rank_loop_spec [OF holds strict fuel idf1 stats, of F "average_of F docs" layer limit "[]"] load(1) by auto
qed

lemma ranked_candidates_ok:
  assumes "length docs < 2 ^ 40"
  shows "distinct (ranked_candidates F docs query layer)"
    and "inj_on (rank_key rank) (set (ranked_candidates F docs query layer))"
    and "\<forall>c\<in>set (ranked_candidates F docs query layer). \<exists>i<length docs. ca_document_id c = word_of_nat i"
proof -
  let ?is = "filter (\<lambda>i. sd_layer (fst (docs ! i)) = layer \<and> matched docs query i \<noteq> []) [0..<length docs]"
  have cands: "ranked_candidates F docs query layer = map (scored F docs query) ?is" by (simp add: ranked_candidates_def)
  have word: "unat (word_of_nat i :: u64) = i" if "i < length docs" for i by (rule small_u64) (use that assms in simp)
  have "inj_on (\<lambda>i. ca_document_id (scored F docs query i)) (set ?is)"
    using word by (intro inj_on_inverseI [of _ unat]) (auto simp: scored_def)
  then have inj: "inj_on ca_document_id (set (ranked_candidates F docs query layer))" "inj_on (scored F docs query) (set ?is)"
    by (auto simp: cands inj_on_def)
  show "distinct (ranked_candidates F docs query layer)" using inj(2) by (simp add: cands distinct_map)
  show "inj_on (rank_key rank) (set (ranked_candidates F docs query layer))"
    using inj(1) by (auto simp: inj_on_def rank_key_def)
  show "\<forall>c\<in>set (ranked_candidates F docs query layer). \<exists>i<length docs. ca_document_id c = word_of_nat i"
    by (auto simp: cands scored_def)
qed

lemma average_length_build:
  assumes "unat (sb_document_count metadata) = length docs" and "unat (sb_total_tokens metadata) = length (occs_of docs)"
  shows "average_length_of F metadata = average_of F docs"
proof -
  have "length (occs_of docs) = sum_list (map (\<lambda>e. length (snd e)) docs)"
  proof (induction docs rule: rev_induct)
    case (snoc e docs)
    then show ?case by (cases e) (simp add: occs_of_snoc)
  qed simp
  moreover have "sb_document_count metadata = 0 \<longleftrightarrow> docs = []" using assms(1) by (metis length_0_conv unat_eq_zero)
  ultimately show ?thesis using assms by (simp add: average_length_of_def average_of_def)
qed

lemma no_candidates: "query_rows docs query = [] \<Longrightarrow> length docs < 2 ^ 40 \<Longrightarrow> sorted query \<Longrightarrow> distinct query \<Longrightarrow>
  ranked_candidates F docs query layer = []"
  using matched_rows [of _ docs query] by (auto simp: ranked_candidates_def filter_empty_conv)

text \<open>
  C4. Search is exact. On the files a build leaves, \<open>search\<close> returns the first \<open>limit\<close> of all documents
  of the requested layer that contain a query term, ordered by descending BM25 score, then by index
  order and document: the same list as scoring every staged node directly, sorting and cutting. The
  score of a document is the sum, in the order of the terms, over the query terms it contains; no
  posting is lost or counted twice by the merge of the cursors, and dropping the worst candidate
  after each push loses none of the best. The hypotheses are those of a valid build and that the
  scores are comparable (no score is NaN): \<open>rank\<close> is the real number a score stands for.
\<close>

theorem search_exact:
  assumes build: "build env specs files db dir chunk_bytes = Inr res"
    and lower: "lowercase_ok (be_unicode env)"
    and decode: "\<forall>d\<in>fst ` set (staged_entries env files dir specs). decodes env renv d"
    and parse: "re_parse_metadata renv (be_print_metadata env (file_metadata (br_metadata res)) @ [CHR 0x0A]) = Inr (file_metadata (br_metadata res))"
    and small: "length (be_print_metadata env (file_metadata (br_metadata res))) < max_metadata_bytes"
    and sha: "re_sha256 renv = be_sha256 env"
    and tokens: "unat (sb_total_tokens (br_metadata res)) < 2 ^ 20"
    and documents: "unat (sb_document_count (br_metadata res)) < 2 ^ 40"
    and layer: "requested_layer_of layer_name = Inr layer"
    and scores: "\<forall>a\<in>ca_score ` set (ranked_candidates F (staged_entries env files dir specs) (query_terms_of U query) layer).
       \<forall>b\<in>ca_score ` set (ranked_candidates F (staged_entries env files dir specs) (query_terms_of U query) layer).
         fo_partial_cmp F a b = Some (cmp_of (rank a) (rank b))"
  shows "search F U renv (br_files res) db (br_metadata res) query layer_name limit =
     Inr (map (ranked_of (staged_entries env files dir specs))
       (take limit (sort_key (rank_key rank)
         (ranked_candidates F (staged_entries env files dir specs) (query_terms_of U query) layer))))"
proof -
  from build_opened [OF assms(1-8)] obtain docs index where docs: "docs = staged_entries env files dir specs"
    and tables: "tables_ok env renv docs" and ok: "list_all indexable (occs_of docs)"
    and total: "length (occs_of docs) < 2 ^ 20" "unat (sb_total_tokens (br_metadata res)) = length (occs_of docs)"
    and n: "unat (sb_document_count (br_metadata res)) = length docs" "length docs < 2 ^ 40"
    and index: "write_final_index (run_file (sort (occs_of docs))) = Inr index"
    and metadata: "validate_metadata renv (br_files res) db (br_metadata res) False = Inr ()"
    and opened: "open_file (br_files res) (sidecar_path db document_offsets_suffix) = Inr (offsets_file env docs)"
      "open_file (br_files res) (sidecar_path db document_lengths_suffix) = Inr (lengths_file docs)"
      "open_file (br_files res) (sidecar_path db documents_suffix) = Inr (documents_file env docs)"
      "open_file (br_files res) (sidecar_path db lexicon_suffix) = Inr (fx_lexicon index)"
      "open_file (br_files res) (sidecar_path db postings_suffix) = Inr (fx_postings index)" by metis
  let ?query = "query_terms_of U query" and ?cands = "ranked_candidates F docs (query_terms_of U query) layer"
  have query: "sorted ?query" "distinct ?query" using query_terms_sorted by simp_all
  have count: "sb_document_count (br_metadata res) = word_of_nat (length docs)" by (simp flip: n(1))
  from query_cursors [OF total(1) ok index query(1) count, of F] obtain found where
    found: "find_lexicon_entries (fx_lexicon index) ?query = Inr found" "found = [] \<longleftrightarrow> query_rows docs ?query = []"
    and cursors: "query_cursors_ok F docs ?query (open_cursors F (br_metadata res) (fx_postings index) found)" by blast
  from rank_query [OF n(2) query cursors, of layer limit] obtain cursors1 heap where
    rank: "load_heads cursor_next 0 (open_cursors F (br_metadata res) (fx_postings index) found) [] = Inr (cursors1, heap)"
      "rank_loop F (lengths_file docs) (average_of F docs) layer limit
         (Suc (sum_list (map (\<lambda>c. unat (pc_remaining c)) (open_cursors F (br_metadata res) (fx_postings index) found)))) cursors1 heap [] =
       Inr (fold (\<lambda>c best. retain_best F best c limit) ?cands [])" by blast
  have avg: "average_length_of F (br_metadata res) = average_of F docs" by (rule average_length_build [OF n(1) total(2)])
  note cands = ranked_candidates_ok [OF n(2), where F = F and query = ?query and layer = layer]
  have best: "sort_by (candidate_order F) (fold (\<lambda>c best. retain_best F best c limit) ?cands []) = take limit (sort_key (rank_key rank) ?cands)"
    by (rule retain_all_sorted [OF candidate_order_key cands(2,1)]) (use scores docs in simp)
  have "\<forall>c\<in>set (take limit (sort_key (rank_key rank) ?cands)). \<exists>i<length docs. ca_document_id c = word_of_nat i"
    using cands(3) by (metis in_set_takeD set_sort)
  then have ranked: "try_map (read_ranked renv (offsets_file env docs) (documents_file env docs)) (take limit (sort_key (rank_key rank) ?cands)) =
      Inr (map (ranked_of docs) (take limit (sort_key (rank_key rank) ?cands)))"
    by (intro try_map_Inr ballI) (metis read_ranked_document [OF tables])
  consider (none) "limit = 0 \<or> docs = []" | (empty) "?query = [] \<or> found = []" | (some) "limit \<noteq> 0" "docs \<noteq> []" "?query \<noteq> []" "found \<noteq> []"
    by blast
  then have "search F U renv (br_files res) db (br_metadata res) query layer_name limit =
        Inr (map (ranked_of docs) (take limit (sort_key (rank_key rank) ?cands)))"
  proof cases
    case none
    then have "limit = 0 \<or> sb_document_count (br_metadata res) = 0" using count by auto
    then show ?thesis using none by (auto simp: search_def ranked_candidates_def)
  next
    case empty
    then have "query_rows docs ?query = []" using found(2) by (auto simp: query_rows_def)
    then have "?cands = []" using no_candidates n(2) query by blast
    then show ?thesis using empty metadata layer found(1) opened by (auto simp: search_def Let_def)
  next
    case some
    have "sb_document_count (br_metadata res) \<noteq> 0" using n some(2) by auto
    then show ?thesis
      using some metadata layer found(1) opened rank best ranked
      by (simp add: search_def Let_def avg read_tables_magic)
  qed
  then show ?thesis by (simp only: docs)
qed

text \<open>An instance of the arithmetic: the real numbers.\<close>

definition real_ops :: "real float_ops" where
  "real_ops =
     \<lparr>fo_lit = of_rat, fo_of_nat = of_nat, fo_add = (+), fo_sub = (-), fo_mul = (*), fo_div = (/), fo_ln = ln,
      fo_round = (\<lambda>v. of_int (round v)), fo_partial_cmp = (\<lambda>a b. Some (cmp_of a b))\<rparr>"

lemma sample_query: "query_terms_of ascii_tables ''Fold!'' = [''fold'']"
  by code_simp

theorem search_exact_witness:
  "\<exists>res found. build sample_env sample_specs sample_staging ''db'' ''stage'' 64 = Inr res
     \<and> search real_ops ascii_tables sample_read_env (br_files res) ''db'' (br_metadata res) ''Fold!'' ''semantic'' 10 = Inr found
     \<and> map rd_id found = [''n0'']"
proof -
  let ?docs = "staged_entries sample_env sample_staging ''stage'' sample_specs"
  let ?cands = "ranked_candidates real_ops ?docs (query_terms_of ascii_tables ''Fold!'') SemanticLayer"
  obtain res where res: "build sample_env sample_specs sample_staging ''db'' ''stage'' 64 = Inr res" using sample_build by blast
  have entries: "?docs = [sample_entry]" by (simp add: staged_entries_def sample_job_entries)
  have "search real_ops ascii_tables sample_read_env (br_files res) ''db'' (br_metadata res) ''Fold!'' ''semantic'' 10 =
      Inr (map (ranked_of ?docs) (take 10 (sort_key (rank_key (\<lambda>x. x)) ?cands)))"
  proof (rule search_exact [OF res])
    show "lowercase_ok (be_unicode sample_env)" by (simp add: sample_env_def ascii_lowercase_ok)
    show "\<forall>d\<in>fst ` set ?docs. decodes sample_env sample_read_env d" by (simp add: entries sample_decodes)
    show "length (be_print_metadata sample_env (file_metadata (br_metadata res))) < max_metadata_bytes"
      using sample_result [OF res]
      by (simp add: sample_env_def sample_print_metadata_def file_metadata_def backend_name_def max_metadata_bytes_def)
    show "\<forall>a\<in>ca_score ` set ?cands. \<forall>b\<in>ca_score ` set ?cands. fo_partial_cmp real_ops a b = Some (cmp_of a b)"
      by (simp add: real_ops_def)
    show "requested_layer_of ''semantic'' = Inr SemanticLayer" by (simp add: requested_layer_of_def)
  qed (use sample_result [OF res] in \<open>simp_all add: sample_env_def sample_read_env_def sample_parse_print\<close>)
  moreover have "?cands = [scored real_ops ?docs [''fold''] 0]"
    by (simp add: sample_query entries ranked_candidates_def matched_def) (simp add: sample_entry_def)
  ultimately show ?thesis using res
    by (simp add: ranked_of_def scored_def entries Let_def) (simp add: sample_entry_def)
qed

end
