(* ===== verification/Execution.thy ===== *)
theory Execution
  imports ArtifactStore WorkerPool StagingRun SearchExact
begin

text \<open>
  The materialization pipeline (\<^verbatim>\<open>src/execution/parallel.rs\<close>, \<^verbatim>\<open>run.rs\<close> and \<^verbatim>\<open>plan.rs\<close>): a partition for every
  scanned source, taken from the artifact store or built again, by one thread or by a pool; then the
  second pass that loads every partition back, stages it, builds the search index and loads the
  database.

  The parser (\<^verbatim>\<open>src/parser/\<close>, on top of tree-sitter) and the database writer are arguments, as are the
  arguments of the components: see \<open>exec_env\<close>. The disk (artifacts, source snapshots) and the
  workspace (spill runs and staged tables) are different files. Timings and the failure to reserve memory
  are left out.
\<close>

section \<open>The environment\<close>

record exec_env =
  xe_unicode :: unicode
  xe_encode_relations :: "relation_spec list \<Rightarrow> string"
  xe_decode_relations :: "string \<Rightarrow> string + relation_spec list"
  xe_digest :: "digest_input \<Rightarrow> string + string"
  xe_scan :: scan_env
  xe_artifacts :: artifact_env
  xe_parse :: "string \<Rightarrow> language_profile \<Rightarrow> (syntax_node \<times> string list) result"
  xe_slot_size :: u64
  xe_vec_size :: u64
  xe_staging :: staging_env
  xe_defer_disposal :: bool
  xe_sequence :: nat
  xe_search :: build_env
  xe_search_indexes :: "search_index_spec list"
  xe_write_database :: "request \<Rightarrow> string list \<Rightarrow> bool \<Rightarrow> nat result"

section \<open>Accounting\<close>

definition parse_working_bytes_per_source_byte :: u64 where
  "parse_working_bytes_per_source_byte = 8"

definition artifact_stream_working_bytes :: u64 where
  "artifact_stream_working_bytes = (2 * 64 * 1024) + (2 * 8 * 1024)"

definition node_base_bytes :: u64 where
  "node_base_bytes = 512"

definition edge_base_bytes :: u64 where
  "edge_base_bytes = 384"

text \<open>\<open>checked_add(\<dots>)?\<close> over the lengths of strings.\<close>

fun checked_add_strings :: "u64 \<Rightarrow> string list \<Rightarrow> u64 option" where
  "checked_add_strings bytes [] = Some bytes"
| "checked_add_strings bytes (s # ss) =
     Option.bind (checked_add bytes (of_nat (length s))) (\<lambda>bytes. checked_add_strings bytes ss)"

definition optional_string :: "string option \<Rightarrow> string list" where
  "optional_string x = (case x of Some s \<Rightarrow> [s] | None \<Rightarrow> [])"

definition node_strings :: "graph_node_row \<Rightarrow> string list" where
  "node_strings n =
     [gn_id n, gn_table n, gn_label n, gn_kind n, gn_language n, gn_path n, gn_qualified_name n, gn_scope_id n,
      gn_tree_sitter_node_type n, gn_capture_name n, gn_summary n] @ optional_string (gn_grammar_version n)"

definition edge_strings :: "graph_edge_row \<Rightarrow> string list" where
  "edge_strings e =
     [ge_id e, ge_edge_type e, ge_source_id e, ge_target_id e, ge_kind e] @ optional_string (ge_field_name e)"

definition estimate_partition_bytes :: "graph_partition \<Rightarrow> u64 option" where
  "estimate_partition_bytes p =
     Option.bind (checked_mul (of_nat (length (gp_nodes p))) node_base_bytes) (\<lambda>bytes.
     Option.bind (checked_mul (of_nat (length (gp_edges p))) edge_base_bytes) (\<lambda>edge_bytes.
     Option.bind (checked_add bytes edge_bytes) (\<lambda>bytes.
     checked_add_strings bytes (concat (map node_strings (gp_nodes p)) @ concat (map edge_strings (gp_edges p))))))"

definition partition_working_bytes :: "u64 \<Rightarrow> u64 \<Rightarrow> u64" where
  "partition_working_bytes source_working partition_bytes =
     (case Option.bind (checked_add source_working partition_bytes)
             (\<lambda>bytes. checked_add bytes artifact_stream_working_bytes) of
        Some bytes \<Rightarrow> bytes | None \<Rightarrow> - 1)"

definition partition_accounted_bytes :: "graph_partition \<Rightarrow> nat \<Rightarrow> u64" where
  "partition_accounted_bytes p source_bytes =
     (let source_working = saturating_mul (of_nat source_bytes) parse_working_bytes_per_source_byte;
          partition_bytes = (case estimate_partition_bytes p of Some bytes \<Rightarrow> bytes | None \<Rightarrow> - 1)
      in partition_working_bytes source_working partition_bytes)"

section \<open>One partition\<close>

record partition_build =
  pb_partition :: graph_partition
  pb_diagnostics :: "string list"
  pb_reused_artifact :: bool
  pb_transient :: "transient_partition option"
  pb_accounted_bytes :: u64

definition read_snapshotted_source :: "exec_env \<Rightarrow> source_snapshot \<Rightarrow> disk \<Rightarrow> string result" where
  "read_snapshotted_source env snap d =
     (case d (Staged (ss_absolute_path snap)) of
        None \<Rightarrow> Inl (Io NotFound)
      | Some source \<Rightarrow>
          if \<not> utf8_valid source then Inl (Io (OtherIo ''stream did not contain valid UTF-8''))
          else if length source \<noteq> ss_byte_len snap \<or> sha256_hex (xe_scan env) source \<noteq> ss_content_hash snap
          then Inl (InvalidInput (''source snapshot changed before parsing: '' @ ss_path snap))
          else Inr source)"

definition parse_file :: "exec_env \<Rightarrow> source_snapshot \<Rightarrow> language_profile \<Rightarrow> (syntax_node \<times> string list) result" where
  "parse_file env snap profile =
     (case ss_source snap of
        None \<Rightarrow> Inl (InvalidInput (''missing source content for scanned file: '' @ ss_path snap))
      | Some source \<Rightarrow> xe_parse env source profile)"

text \<open>An error message of the materializer becomes \<open>NativeError::InvalidInput\<close>.\<close>

definition invalid_input_run :: "string fail + 'a \<Rightarrow> 'a run" where
  "invalid_input_run r =
     (case r of Inl Diverged \<Rightarrow> Inl Diverged | Inl (Failed m) \<Rightarrow> Inl (Failed (InvalidInput m)) | Inr x \<Rightarrow> Inr x)"

definition parsed_partition ::
  "exec_env \<Rightarrow> request \<Rightarrow> source_snapshot \<Rightarrow> language_profile \<Rightarrow> string \<Rightarrow> disk \<Rightarrow> (graph_partition \<times> string list) run" where
  "parsed_partition env request snap profile key d =
     try_op (lift_result (read_snapshotted_source env snap d)) (\<lambda>source.
     try_op (lift_result (parse_file env (snap\<lparr>ss_source := Some source\<rparr>) profile)) (\<lambda>(tree, diagnostics).
     try_op (invalid_input_run (build_partition (xe_unicode env) (xe_encode_relations env) (xe_decode_relations env)
               request snap tree)) (\<lambda>p.
     Inr (set_artifact_key key p, diagnostics))))"

definition conflict_diagnostic :: "source_snapshot \<Rightarrow> string" where
  "conflict_diagnostic snap =
     ''artifact cache publication conflict for '' @ ss_path snap
     @ ''; rebuilt from scanned source using a per-run copy; canonical cache preserved''"

definition publish_partition ::
  "exec_env \<Rightarrow> source_snapshot \<Rightarrow> string \<Rightarrow> graph_partition \<Rightarrow> string list \<Rightarrow> disk \<Rightarrow> partition_build run \<times> disk" where
  "publish_partition env snap key p diagnostics d =
     (let built = \<lparr>pb_partition = p, pb_diagnostics = diagnostics, pb_reused_artifact = False, pb_transient = None,
                   pb_accounted_bytes = partition_accounted_bytes p (ss_byte_len snap)\<rparr>
      in case store_partition (xe_artifacts env) key p d of
           (Inr _, d) \<Rightarrow> (Inr built, d)
         | (Inl e, d) \<Rightarrow>
             if is_canonical_payload_conflict e
             then case transient_create (xe_artifacts env) key p of
                    Inl e \<Rightarrow> (Inl (Failed e), d)
                  | Inr t \<Rightarrow> (Inr (built\<lparr>pb_transient := Some t, pb_diagnostics := diagnostics @ [conflict_diagnostic snap]\<rparr>), d)
             else (Inl (Failed e), d))"

definition rebuild_partition ::
  "exec_env \<Rightarrow> request \<Rightarrow> source_snapshot \<Rightarrow> language_profile \<Rightarrow> string \<Rightarrow> disk \<Rightarrow> partition_build run \<times> disk" where
  "rebuild_partition env request snap profile key d =
     (case spool_snapshot_for_build (xe_scan env) request snap d of
        (Inl e, d) \<Rightarrow> (Inl (Failed e), d)
      | (Inr snap, d) \<Rightarrow>
     (case parsed_partition env request snap profile key d of
        Inl e \<Rightarrow> (Inl e, d)
      | Inr (p, diagnostics) \<Rightarrow> publish_partition env snap key p diagnostics d))"

definition expectations_of :: "source_snapshot \<Rightarrow> expectations" where
  "expectations_of snap =
     \<lparr>ex_path = ss_path snap, ex_content_hash = ss_content_hash snap, ex_language = option_default (ss_language snap)\<rparr>"

definition build_partition_for_snapshot ::
  "exec_env \<Rightarrow> request \<Rightarrow> source_snapshot \<Rightarrow> language_profile \<Rightarrow> manifest_entry option \<Rightarrow> disk
     \<Rightarrow> partition_build run \<times> disk" where
  "build_partition_for_snapshot env request snap profile previous_entry d =
     (case key_for_request (xe_artifacts env) request snap (Some profile) of
        Inl e \<Rightarrow> (Inl (Failed e), d)
      | Inr key \<Rightarrow>
     (case (if Option.bind previous_entry me_artifact_key = Some key
            then load_partition (xe_artifacts env) key (expectations_of snap) d else None) of
        Some p \<Rightarrow>
          (Inr \<lparr>pb_partition = p, pb_diagnostics = [], pb_reused_artifact = True, pb_transient = None,
                pb_accounted_bytes = partition_accounted_bytes p (ss_byte_len snap)\<rparr>, d)
      | None \<Rightarrow> rebuild_partition env request snap profile key d))"

definition previous_entry_of :: "request \<Rightarrow> string \<Rightarrow> manifest_entry option" where
  "previous_entry_of request path =
     (case rq_previous_manifest request of
        None \<Rightarrow> None
      | Some manifest \<Rightarrow>
          if nm_schema_version manifest = rq_manifest_schema_version request
          then map_of (nm_files manifest) path else None)"

definition build_partition_for_path ::
  "exec_env \<Rightarrow> source_scan \<Rightarrow> string \<Rightarrow> disk \<Rightarrow> partition_build run \<times> disk" where
  "build_partition_for_path env scan path d =
     (case map_of (sn_supported scan) path of
        None \<Rightarrow> (Inl (Failed (InvalidInput (''missing scanned source for artifact rebuild: '' @ path))), d)
      | Some snap \<Rightarrow>
     (case ss_language snap of
        None \<Rightarrow> (Inl (Failed (InvalidInput (''missing language for artifact rebuild: '' @ path))), d)
      | Some language \<Rightarrow>
     (case find (\<lambda>profile. lp_language profile = language) (sn_profiles scan) of
        None \<Rightarrow> (Inl (Failed (InvalidInput (''missing language profile for artifact rebuild: '' @ path))), d)
      | Some profile \<Rightarrow>
          build_partition_for_snapshot env (sn_input scan) snap profile (previous_entry_of (sn_input scan) path) d)))"

section \<open>The plan\<close>

definition resolved_worker_count :: "request \<Rightarrow> nat \<Rightarrow> nat" where
  "resolved_worker_count request path_count =
     (if rq_parallel request then min (max (rq_max_parallelism request) 1) path_count else min path_count 1)"

record progress_event =
  pe_phase :: string
  pe_current :: nat
  pe_total :: nat
  pe_path :: "string option"

record plan_state =
  ps_diagnostics :: "string list"
  ps_reused :: nat
  ps_rebuilt :: nat
  ps_parsed_paths :: "string list"
  ps_progress :: "(string, progress_event) btree_map"
  ps_transients :: "transient_partition option list"
  ps_planned :: "(string, manifest_entry) btree_map"

definition plan_start :: "nat \<Rightarrow> plan_state" where
  "plan_start paths =
     \<lparr>ps_diagnostics = [], ps_reused = 0, ps_rebuilt = 0, ps_parsed_paths = [], ps_progress = [],
      ps_transients = replicate paths None, ps_planned = []\<rparr>"

definition consume_result :: "request \<Rightarrow> nat \<Rightarrow> nat \<Rightarrow> partition_build \<Rightarrow> plan_state \<Rightarrow> plan_state run" where
  "consume_result request paths index r st =
     (let path = me_path (gp_entry (pb_partition r));
          st = st\<lparr>ps_diagnostics := ps_diagnostics st @ pb_diagnostics r\<rparr>;
          st = (if pb_reused_artifact r then st\<lparr>ps_reused := Suc (ps_reused st)\<rparr>
                else st\<lparr>ps_rebuilt := Suc (ps_rebuilt st), ps_parsed_paths := insort_insert path (ps_parsed_paths st)\<rparr>);
          st = (if rq_progress request
                then st\<lparr>ps_progress := btree_insert ''parsed''
                         \<lparr>pe_phase = ''parsed'', pe_current = index + 1, pe_total = paths, pe_path = Some path\<rparr> (ps_progress st)\<rparr>
                else st);
          st = (case pb_transient r of
                  Some t \<Rightarrow> st\<lparr>ps_transients := (ps_transients st)[index := Some t]\<rparr> | None \<Rightarrow> st)
      in Inr (st\<lparr>ps_planned := btree_insert path (manifest_entry_compact (gp_entry (pb_partition r))) (ps_planned st)\<rparr>))"

definition scan_paths :: "source_scan \<Rightarrow> string list" where
  "scan_paths scan = map fst (sn_supported scan)"

definition build_at :: "exec_env \<Rightarrow> source_scan \<Rightarrow> nat \<Rightarrow> disk \<Rightarrow> partition_build run \<times> disk" where
  "build_at env scan i = build_partition_for_path env scan (scan_paths scan ! i)"

definition visit_at ::
  "exec_env \<Rightarrow> source_scan \<Rightarrow> nat \<Rightarrow> nat \<Rightarrow> partition_build \<Rightarrow> plan_state \<times> u64 \<Rightarrow> (plan_state \<times> u64) run" where
  "visit_at env scan worker_count =
     visit (consume_result (sn_input scan) (length (scan_paths scan))) pb_accounted_bytes
       (plan_bytes (xe_slot_size env) (xe_vec_size env) (rq_staging_dir (sn_input scan)) (scan_paths scan)) worker_count"

text \<open>
  \<open>build_execution_plan\<close> on all supported paths: the outcomes and the disks it can end with. With more
  than one worker these are the ends of the runs of the pool.
\<close>

definition execution_plan :: "exec_env \<Rightarrow> source_scan \<Rightarrow> disk \<Rightarrow> (plan_state \<times> u64) run \<Rightarrow> disk \<Rightarrow> bool" where
  "execution_plan env scan d out d' \<longleftrightarrow>
     (let n = length (scan_paths scan);
          worker_count = resolved_worker_count (sn_input scan) n
      in if 1 < worker_count
         then \<exists>p. pool_reaches (build_at env scan) (visit_at env scan worker_count) n worker_count (plan_start n, 0) d p
                \<and> pl_main p = Returned out \<and> pl_world p = d'
         else plan_loop (build_at env scan) (visit_at env scan 1) [0..<n] (plan_start n, 0) d = (out, d'))"

section \<open>The second pass\<close>

text \<open>Every partition is read back, one at a time: the per-run copy if there is one, the stored artifact otherwise.\<close>

definition expectations_at :: "source_snapshot \<Rightarrow> string \<Rightarrow> expectations" where
  "expectations_at snap path =
     \<lparr>ex_path = path, ex_content_hash = ss_content_hash snap, ex_language = option_default (ss_language snap)\<rparr>"

definition load_planned_partition ::
  "exec_env \<Rightarrow> (string, source_snapshot) btree_map \<Rightarrow> string \<Rightarrow> (string, manifest_entry) btree_map \<Rightarrow> disk
     \<Rightarrow> graph_partition result" where
  "load_planned_partition env supported path planned d =
     try_op (or_invalid (''missing scanned source metadata after execution planning: '' @ path) (map_of supported path)) (\<lambda>snap.
     try_op (or_invalid (''missing planned manifest entry after artifact persistence: '' @ path) (map_of planned path)) (\<lambda>entry.
     try_op (or_invalid (''missing artifact key after execution planning: '' @ path) (me_artifact_key entry)) (\<lambda>key.
     or_invalid (''persisted artifact could not be reloaded after execution planning: '' @ path)
       (load_partition (xe_artifacts env) key (expectations_at snap path) d))))"

text \<open>\<open>supported[path]\<close> would panic on a missing path; the paths are the keys of the map.\<close>

definition reload_partition :: "exec_env \<Rightarrow> source_scan \<Rightarrow> plan_state \<Rightarrow> disk \<Rightarrow> nat \<Rightarrow> string \<Rightarrow> graph_partition result" where
  "reload_partition env scan st d index path =
     (case ps_transients st ! index of
        Some t \<Rightarrow>
          try_op (or_invalid ''no entry found for key'' (map_of (sn_supported scan) path)) (\<lambda>snap.
          transient_load (xe_artifacts env) (expectations_at snap path) t)
      | None \<Rightarrow> load_planned_partition env (sn_supported scan) path (ps_planned st) d)"

record second_pass =
  sp_materialized :: "(string, manifest_entry) btree_map"
  sp_rebuilt :: "(string, manifest_entry) btree_map"
  sp_progress :: "(string, progress_event) btree_map"
  sp_staging :: "accumulator \<times> workspace"

definition stage_partition ::
  "exec_env \<Rightarrow> source_scan \<Rightarrow> plan_state \<Rightarrow> nat \<Rightarrow> string \<Rightarrow> graph_partition \<Rightarrow> second_pass \<Rightarrow> second_pass" where
  "stage_partition env scan st index path p sp =
     (let entry = manifest_entry_compact (gp_entry p);
          sp = sp\<lparr>sp_materialized := btree_insert path entry (sp_materialized sp)\<rparr>;
          sp = (if path \<in> set (ps_parsed_paths st) then sp\<lparr>sp_rebuilt := btree_insert path entry (sp_rebuilt sp)\<rparr> else sp);
          sp = sp\<lparr>sp_staging := add_partition (xe_staging env) p (sp_staging sp)\<rparr>
      in if rq_progress (sn_input scan)
         then sp\<lparr>sp_progress := btree_insert ''staged''
                   \<lparr>pe_phase = ''staged'', pe_current = index + 1, pe_total = length (scan_paths scan),
                    pe_path = Some (me_path (gp_entry p))\<rparr> (sp_progress sp)\<rparr>
         else sp)"

fun stage_partitions ::
  "exec_env \<Rightarrow> source_scan \<Rightarrow> plan_state \<Rightarrow> disk \<Rightarrow> nat list \<Rightarrow> second_pass \<Rightarrow> second_pass result" where
  "stage_partitions env scan st d [] sp = Inr sp"
| "stage_partitions env scan st d (i # is) sp =
     try_op (reload_partition env scan st d i (scan_paths scan ! i)) (\<lambda>p.
     stage_partitions env scan st d is (stage_partition env scan st i (scan_paths scan ! i) p sp))"

section \<open>The response\<close>

record response =
  rs_snapshots :: "(string, source_snapshot) btree_map"
  rs_diff :: manifest_diff
  rs_diagnostics :: "string list"
  rs_rebuilt_entries :: "(string, manifest_entry) btree_map"
  rs_materialized_entries :: "(string, manifest_entry) btree_map"
  rs_copy_statements :: "string list"
  rs_node_rows :: nat
  rs_edge_rows :: nat
  rs_connector_rows :: nat
  rs_copy_calls :: nat
  rs_node_count :: nat
  rs_edge_count :: nat
  rs_progress_events :: "progress_event list"
  rs_skipped :: bool
  rs_database_written :: bool
  rs_artifacts_reused :: nat
  rs_artifacts_rebuilt :: nat
  rs_graph_build_digest :: "string option"
  rs_search_backend :: "search_backend_metadata option"
  rs_high_water_marks :: "(string, nat) btree_map"
  rs_spill_bytes :: nat

definition response_skipped ::
  "(string, source_snapshot) btree_map \<Rightarrow> manifest_diff \<Rightarrow> string list \<Rightarrow> progress_event list \<Rightarrow> response" where
  "response_skipped snapshots diff diagnostics events =
     \<lparr>rs_snapshots = snapshots, rs_diff = diff, rs_diagnostics = diagnostics, rs_rebuilt_entries = [],
      rs_materialized_entries = [], rs_copy_statements = [], rs_node_rows = 0, rs_edge_rows = 0, rs_connector_rows = 0,
      rs_copy_calls = 0, rs_node_count = 0, rs_edge_count = 0, rs_progress_events = events, rs_skipped = True,
      rs_database_written = False, rs_artifacts_reused = 0, rs_artifacts_rebuilt = 0, rs_graph_build_digest = None,
      rs_search_backend = None, rs_high_water_marks = [], rs_spill_bytes = 0\<rparr>"

definition response_from_parts ::
  "(string, source_snapshot) btree_map \<Rightarrow> manifest_diff \<Rightarrow> string list \<Rightarrow> (string, manifest_entry) btree_map
     \<Rightarrow> (string, manifest_entry) btree_map \<Rightarrow> staging_result \<Rightarrow> response" where
  "response_from_parts snapshots diff diagnostics rebuilt materialized staging =
     \<lparr>rs_snapshots = snapshots, rs_diff = diff, rs_diagnostics = diagnostics, rs_rebuilt_entries = rebuilt,
      rs_materialized_entries = materialized, rs_copy_statements = stg_copy_statements staging,
      rs_node_rows = stg_node_rows staging, rs_edge_rows = stg_edge_rows staging,
      rs_connector_rows = stg_connector_rows staging, rs_copy_calls = stg_copy_calls staging,
      rs_node_count = stg_unique_node_count staging, rs_edge_count = stg_unique_edge_count staging,
      rs_progress_events = [], rs_skipped = False, rs_database_written = False, rs_artifacts_reused = 0,
      rs_artifacts_rebuilt = 0, rs_graph_build_digest = None, rs_search_backend = None,
      rs_high_water_marks = [(''staging'', stg_high_water_bytes staging)], rs_spill_bytes = stg_spill_bytes staging\<rparr>"

section \<open>The run\<close>

definition spill_chunk_bytes :: "request \<Rightarrow> nat result" where
  "spill_chunk_bytes request =
     or_invalid ''spill chunk size cannot be represented on this platform''
       (if rq_spill_chunk_mib request * (1024 * 1024) < 2 ^ 64 then Some (rq_spill_chunk_mib request * (1024 * 1024)) else None)"

definition build_search ::
  "exec_env \<Rightarrow> request \<Rightarrow> nat \<Rightarrow> workspace \<Rightarrow> (build_result option \<times> workspace) run" where
  "build_search env request chunk_bytes w =
     (if rq_include_fts request
      then try_op (build (xe_search env) (xe_search_indexes env) (ws_files w) (rq_db_path request)
                     (rq_staging_dir request) chunk_bytes) (\<lambda>r.
           Inr (Some r, w\<lparr>ws_files := br_files r\<rparr>))
      else Inr (None, w))"

definition finish_response ::
  "source_scan \<Rightarrow> plan_state \<times> u64 \<Rightarrow> second_pass \<Rightarrow> staging_result \<Rightarrow> string \<Rightarrow> build_result option \<Rightarrow> nat \<Rightarrow> response" where
  "finish_response scan plan sp staging graph_build_digest found database_high_water =
     (let r = response_from_parts (sn_snapshots scan) (sn_diff scan) (sn_diagnostics scan @ ps_diagnostics (fst plan))
                (sp_rebuilt sp) (sp_materialized sp) staging;
          marks = btree_insert ''parse'' (unat (snd plan)) (rs_high_water_marks r);
          marks = (case found of Some b \<Rightarrow> btree_insert ''search_index'' (br_high_water_bytes b) marks | None \<Rightarrow> marks);
          marks = (if 0 < database_high_water then btree_insert ''database_write'' database_high_water marks else marks)
      in r\<lparr>rs_progress_events := map snd (sp_progress sp),
           rs_artifacts_reused := ps_reused (fst plan), rs_artifacts_rebuilt := ps_rebuilt (fst plan),
           rs_graph_build_digest := Some graph_build_digest, rs_search_backend := map_option br_metadata found,
           rs_spill_bytes := min (rs_spill_bytes r + (case found of Some b \<Rightarrow> br_spill_bytes b | None \<Rightarrow> 0)) (2 ^ 64 - 1),
           rs_high_water_marks := marks, rs_database_written := True\<rparr>)"

text \<open>What follows the plan.\<close>

definition load_plan ::
  "exec_env \<Rightarrow> source_scan \<Rightarrow> nat \<Rightarrow> accumulator \<Rightarrow> disk \<Rightarrow> workspace \<Rightarrow> plan_state \<times> u64 \<Rightarrow> (response \<times> workspace) run" where
  "load_plan env scan chunk_bytes a d w plan =
     (let request = sn_input scan in
      try_op (lift_result (stage_partitions env scan (fst plan) d [0..<length (scan_paths scan)]
        \<lparr>sp_materialized = [], sp_rebuilt = [], sp_progress = ps_progress (fst plan), sp_staging = (a, w)\<rparr>)) (\<lambda>sp.
      try_op (finish (xe_staging env) (sp_staging sp)) (\<lambda>(staging, w1).
      try_op (lift_result (json_result (graph_build_compatibility_digest (xe_digest env) request))) (\<lambda>graph_build_digest.
      try_op (build_search env request chunk_bytes w1) (\<lambda>(found, w2).
      try_op (lift_result (xe_write_database env request (stg_copy_statements staging) (found \<noteq> None))) (\<lambda>database_high_water.
      Inr (finish_response scan plan sp staging graph_build_digest found database_high_water, w2)))))))"

definition execute_scanned_materialization ::
  "exec_env \<Rightarrow> source_scan \<Rightarrow> disk \<times> workspace \<Rightarrow> (response \<times> workspace) run \<Rightarrow> disk \<Rightarrow> bool" where
  "execute_scanned_materialization env scan start out d' \<longleftrightarrow>
     (let (d, w) = start; request = sn_input scan in
      case try_op (spill_chunk_bytes request) (\<lambda>chunk_bytes.
           try_op (with_limits shipped_relation_types (xe_defer_disposal env) (se_process_id (xe_scan env)) (xe_sequence env)
                     (rq_staging_dir request) chunk_bytes chunk_bytes) (\<lambda>a. Inr (chunk_bytes, a))) of
        Inl e \<Rightarrow> out = Inl (Failed e) \<and> d' = d
      | Inr (chunk_bytes, a) \<Rightarrow>
          \<exists>plan. execution_plan env scan d plan d' \<and> out = try_op plan (load_plan env scan chunk_bytes a d' w))"

definition execute_materialization_pipeline ::
  "exec_env \<Rightarrow> request \<Rightarrow> disk \<times> workspace \<Rightarrow> (response \<times> workspace) run \<Rightarrow> disk \<Rightarrow> bool" where
  "execute_materialization_pipeline env request start out d' \<longleftrightarrow>
     (let (d, w) = start in
      case scan_sources (xe_unicode env) (xe_digest env) (xe_scan env) request d of
        (Inl e, d1) \<Rightarrow> out = Inl (Failed e) \<and> d' = d1
      | (Inr scan, d1) \<Rightarrow> execute_scanned_materialization env scan (d1, w) out d')"

text \<open>\<open>plan_materialization\<close> scans and reports the difference, restricted to the candidates of the request.\<close>

definition restrict_diff :: "request \<Rightarrow> manifest_diff \<Rightarrow> manifest_diff" where
  "restrict_diff request diff =
     (if rq_candidate_paths request \<noteq> []
         \<and> (case rq_previous_manifest request of Some manifest \<Rightarrow> 2 \<le> nm_schema_version manifest | None \<Rightarrow> False)
      then let keep = filter (\<lambda>path. path \<in> set (rq_candidate_paths request))
           in diff\<lparr>md_added := keep (md_added diff), md_modified := keep (md_modified diff), md_deleted := keep (md_deleted diff)\<rparr>
      else diff)"

definition plan_materialization :: "exec_env \<Rightarrow> request \<Rightarrow> disk \<Rightarrow> response result \<times> disk" where
  "plan_materialization env request d =
     (case scan_sources (xe_unicode env) (xe_digest env) (xe_scan env) request d of
        (Inl e, d) \<Rightarrow> (Inl e, d)
      | (Inr scan, d) \<Rightarrow>
          (Inr (response_skipped (sn_snapshots scan) (restrict_diff request (sn_diff scan)) (sn_diagnostics scan) []), d))"

end
