(* ===== verification/Incremental.thy ===== *)
theory Incremental
  imports Execution
begin

text \<open>
  The plan of a run, correct for every schedule and every cache. The builds of different files have
  disjoint footprints on the disk, so that the pool of workers computes what one thread computes; and a
  partition is a function of the key material and the content of its file, whether it is
  built or loaded, so that a run on top of earlier runs stages what a run from scratch stages.
\<close>

section \<open>Footprints\<close>

text \<open>The key of a file's artifact, and the cells that building its partition may read or write.\<close>

definition path_profile :: "source_scan \<Rightarrow> source_snapshot \<Rightarrow> language_profile option" where
  "path_profile scan snap =
     Option.bind (ss_language snap) (\<lambda>language. find (\<lambda>profile. lp_language profile = language) (sn_profiles scan))"

definition path_material :: "source_scan \<Rightarrow> string \<Rightarrow> key_material option" where
  "path_material scan path =
     Option.bind (map_of (sn_supported scan) path) (\<lambda>snap.
     Option.bind (path_profile scan snap) (\<lambda>profile. Some (material_for_request (sn_input scan) snap (Some profile))))"

definition path_key :: "exec_env \<Rightarrow> source_scan \<Rightarrow> string \<Rightarrow> string option" where
  "path_key env scan path =
     Option.bind (path_material scan path) (\<lambda>material.
     case artifact_key (xe_artifacts env) material of Inl _ \<Rightarrow> None | Inr key \<Rightarrow> Some key)"

definition path_cells :: "exec_env \<Rightarrow> source_scan \<Rightarrow> string \<Rightarrow> cell set" where
  "path_cells env scan path =
     (case map_of (sn_supported scan) path of
        None \<Rightarrow> {}
      | Some snap \<Rightarrow> spool_cells (xe_scan env) (snapshot_root (sn_input scan)) (ss_path snap) (ss_content_hash snap))
     \<union> Artifact ` set_option (path_key env scan path)"

text \<open>
  What a scan guarantees (\<open>scan_sources_well\<close> below): snapshots are filed under their own paths, and one
  whose file lies under the snapshot directory is the spooled copy of its own source.
\<close>

definition well_scanned :: "source_scan \<Rightarrow> bool" where
  "well_scanned scan \<longleftrightarrow>
     distinct (scan_paths scan) \<and> list_all scanned (sn_supported scan)
     \<and> (\<forall>(path, s) \<in> set (sn_supported scan). path_under (snapshot_root (sn_input scan)) (ss_absolute_path s)
          \<longrightarrow> ss_absolute_path s = spooled_path (snapshot_root (sn_input scan)) path (ss_content_hash s))"

lemma spool_snapshot_local:
  "local_to (spool_cells env (snapshot_root request) (ss_path snap) (ss_content_hash snap))
     (spool_snapshot_for_build env request snap)"
proof (cases "path_under (snapshot_root request) (ss_absolute_path snap)")
  case True
  then have "spool_snapshot_for_build env request snap = (\<lambda>d. (Inr snap, d))"
    by (simp add: spool_snapshot_for_build_def fun_eq_iff)
  then show ?thesis by (simp add: local_return)
next
  case False
  then have "spool_snapshot_for_build env request snap =
      (\<lambda>d. case spool_stable_source env (ss_absolute_path snap) 8 (snapshot_root request) (ss_path snap) (ss_content_hash snap) d of
         (r, d') \<Rightarrow> (map_sum (\<lambda>e. e) (respool snap) r, d'))"
    by (auto simp: spool_snapshot_for_build_def fun_eq_iff split: prod.split sum.split)
  then show ?thesis by (simp add: local_map local_spool)
qed

text \<open>Where the spooled copy is.\<close>

lemma spooled_snapshot:
  assumes "spool_snapshot_for_build env request snap d = (Inr snap', d')" and "CHR ''/'' \<notin> set (ss_content_hash snap)"
    and "path_under (snapshot_root request) (ss_absolute_path snap)
      \<longrightarrow> ss_absolute_path snap = spooled_path (snapshot_root request) (ss_path snap) (ss_content_hash snap)"
  shows "ss_absolute_path snap' = spooled_path (snapshot_root request) (ss_path snap) (ss_content_hash snap)"
    and "ss_path snap' = ss_path snap" "ss_content_hash snap' = ss_content_hash snap" "ss_language snap' = ss_language snap"
  using assms spool_exact(1) [OF _ assms(2)]
  by (auto simp: spool_snapshot_for_build_def split: if_splits prod.splits sum.splits)

definition published ::
  "exec_env \<Rightarrow> source_snapshot \<Rightarrow> string \<Rightarrow> graph_partition \<Rightarrow> string list \<Rightarrow> write_outcome result \<Rightarrow> partition_build run" where
  "published env snap key p diagnostics r =
     (let built = \<lparr>pb_partition = p, pb_diagnostics = diagnostics, pb_reused_artifact = False, pb_transient = None,
                   pb_accounted_bytes = partition_accounted_bytes p (ss_byte_len snap)\<rparr>
      in case r of
           Inr _ \<Rightarrow> Inr built
         | Inl e \<Rightarrow>
             if is_canonical_payload_conflict e
             then try_op (lift_result (transient_create (xe_artifacts env) key p)) (\<lambda>t.
                  Inr (built\<lparr>pb_transient := Some t, pb_diagnostics := diagnostics @ [conflict_diagnostic snap]\<rparr>))
             else Inl (Failed e))"

lemma publish_partition_eq:
  "publish_partition env snap key p diagnostics =
     (\<lambda>d. case store_partition (xe_artifacts env) key p d of (r, d') \<Rightarrow> (published env snap key p diagnostics r, d'))"
  by (auto simp: publish_partition_def published_def Let_def fun_eq_iff split: prod.split sum.split)

lemma local_publish: "local_to {Artifact key} (publish_partition env snap key p diagnostics)"
  by (simp add: publish_partition_eq local_map local_store)

lemma local_parsed:
  assumes "Staged (ss_absolute_path snap) \<in> F" and "\<forall>c\<in>F. d c = d' c"
  shows "parsed_partition env request snap profile key d = parsed_partition env request snap profile key d'"
  using assms by (simp add: parsed_partition_def read_snapshotted_source_def)

lemma local_rebuild:
  assumes "CHR ''/'' \<notin> set (ss_content_hash snap)"
    and "path_under (snapshot_root request) (ss_absolute_path snap)
      \<longrightarrow> ss_absolute_path snap = spooled_path (snapshot_root request) (ss_path snap) (ss_content_hash snap)"
  shows "local_to (insert (Artifact key) (spool_cells (xe_scan env) (snapshot_root request) (ss_path snap) (ss_content_hash snap)))
    (rebuild_partition env request snap profile key)" (is "local_to ?F _")
proof -
  let ?then = "\<lambda>snap d. case parsed_partition env request snap profile key d of
        Inl e \<Rightarrow> (Inl e, d)
      | Inr (p, diagnostics) \<Rightarrow> publish_partition env snap key p diagnostics d"
  let ?g = "\<lambda>r d. case r of Inl e \<Rightarrow> (Inl (Failed e), d) | Inr snap \<Rightarrow> ?then snap d"
  have f: "local_to ?F (spool_snapshot_for_build (xe_scan env) request snap)"
    by (rule local_mono [OF spool_snapshot_local]) blast
  have "local_to ?F (?then snap')" if "Staged (ss_absolute_path snap') \<in> ?F" for snap'
  proof -
    let ?k = "parsed_partition env request snap' profile key"
    let ?h = "\<lambda>r d. case r of Inl e \<Rightarrow> (Inl e, d) | Inr (p, diagnostics) \<Rightarrow> publish_partition env snap' key p diagnostics d"
    have h: "local_to ?F (?h r)" for r
    proof (cases r)
      case (Inr x)
      then show ?thesis by (cases x) (simp, rule local_mono [OF local_publish], simp)
    qed (simp add: local_return)
    show ?thesis by (rule local_depends [where g = ?h and k = ?k, OF local_parsed [OF that] h])
  qed
  moreover have "Staged (ss_absolute_path snap') \<in> ?F" if "fst (spool_snapshot_for_build (xe_scan env) request snap d) = Inr snap'" for d snap'
    using spooled_snapshot(1) [OF _ assms, of "xe_scan env" d] that by (metis insertCI prod.collapse spool_cells_def)
  ultimately have "local_to ?F (?g (fst (spool_snapshot_for_build (xe_scan env) request snap d)))" for d
    by (cases "fst (spool_snapshot_for_build (xe_scan env) request snap d)") (simp_all add: local_return)
  from local_bind_result [where g = ?g, OF f this]
  have "local_to ?F (\<lambda>d. case spool_snapshot_for_build (xe_scan env) request snap d of (r, d') \<Rightarrow> ?g r d')" .
  moreover have "rebuild_partition env request snap profile key =
      (\<lambda>d. case spool_snapshot_for_build (xe_scan env) request snap d of (r, d') \<Rightarrow> ?g r d')"
    by (auto simp: rebuild_partition_def fun_eq_iff split: prod.split sum.split)
  ultimately show ?thesis by simp
qed

lemma path_material_Some:
  "path_material scan path = Some material \<longleftrightarrow>
     (\<exists>snap profile. map_of (sn_supported scan) path = Some snap \<and> path_profile scan snap = Some profile
        \<and> material = material_for_request (sn_input scan) snap (Some profile))"
  by (auto simp: path_material_def bind_eq_Some_conv)

lemma build_path_planned:
  assumes "map_of (sn_supported scan) path = Some snap" and "path_profile scan snap = Some profile"
  shows "build_partition_for_path env scan path =
    build_partition_for_snapshot env (sn_input scan) snap profile (previous_entry_of (sn_input scan) path)"
  using assms by (auto simp: build_partition_for_path_def path_profile_def fun_eq_iff bind_eq_Some_conv)

lemma build_path_known:
  assumes "path_key env scan path = Some key"
  obtains snap profile where "map_of (sn_supported scan) path = Some snap" "path_profile scan snap = Some profile"
    "path_material scan path = Some (material_for_request (sn_input scan) snap (Some profile))"
    "key_for_request (xe_artifacts env) (sn_input scan) snap (Some profile) = Inr key"
    "build_partition_for_path env scan path =
       build_partition_for_snapshot env (sn_input scan) snap profile (previous_entry_of (sn_input scan) path)"
proof -
  from assms obtain material where m: "path_material scan path = Some material"
    "artifact_key (xe_artifacts env) material = Inr key"
    by (cases "path_material scan path") (auto simp: path_key_def split: sum.splits)
  then obtain snap profile where "map_of (sn_supported scan) path = Some snap" "path_profile scan snap = Some profile"
    "material = material_for_request (sn_input scan) snap (Some profile)" by (auto simp: path_material_Some)
  with m show ?thesis by (intro that [of snap profile]) (simp_all add: key_for_request_def build_path_planned)
qed

lemma build_path_missing:
  assumes "path_key env scan path = None"
  shows "\<exists>e. build_partition_for_path env scan path = (\<lambda>d. (Inl (Failed e), d))"
proof (cases "path_material scan path")
  case None
  then have "map_of (sn_supported scan) path = None
      \<or> (\<exists>snap. map_of (sn_supported scan) path = Some snap \<and> path_profile scan snap = None)"
    by (cases "map_of (sn_supported scan) path") (auto simp: path_material_def bind_eq_None_conv)
  then show ?thesis
  proof (elim disjE exE conjE)
    fix snap
    assume "map_of (sn_supported scan) path = Some snap" "path_profile scan snap = None"
    then show ?thesis
      by (cases "ss_language snap") (simp_all add: build_partition_for_path_def path_profile_def fun_eq_iff)
  qed (simp add: build_partition_for_path_def fun_eq_iff)
next
  case (Some material)
  then obtain snap profile where "map_of (sn_supported scan) path = Some snap" "path_profile scan snap = Some profile"
    "material = material_for_request (sn_input scan) snap (Some profile)" by (auto simp: path_material_Some)
  moreover from this Some assms obtain e where "key_for_request (xe_artifacts env) (sn_input scan) snap (Some profile) = Inl e"
    by (auto simp: path_key_def key_for_request_def split: sum.splits)
  ultimately show ?thesis by (auto simp: build_path_planned build_partition_for_snapshot_def fun_eq_iff)
qed

lemma local_build_path:
  assumes "well_scanned scan"
  shows "local_to (path_cells env scan path) (build_partition_for_path env scan path)"
proof (cases "path_key env scan path")
  case None
  from build_path_missing [OF this] obtain e where "build_partition_for_path env scan path = (\<lambda>d. (Inl (Failed e), d))" by auto
  then show ?thesis by (simp add: local_return)
next
  case (Some key)
  then obtain snap profile where snap: "map_of (sn_supported scan) path = Some snap" "path_profile scan snap = Some profile"
    "key_for_request (xe_artifacts env) (sn_input scan) snap (Some profile) = Inr key"
    and eq: "build_partition_for_path env scan path =
       build_partition_for_snapshot env (sn_input scan) snap profile (previous_entry_of (sn_input scan) path)"
    by (rule build_path_known)
  have cells: "path_cells env scan path =
      insert (Artifact key) (spool_cells (xe_scan env) (snapshot_root (sn_input scan)) (ss_path snap) (ss_content_hash snap))"
    using snap Some by (simp add: path_cells_def)
  let ?load = "\<lambda>d. if Option.bind (previous_entry_of (sn_input scan) path) me_artifact_key = Some key
            then load_partition (xe_artifacts env) key (expectations_of snap) d else None"
  let ?h = "\<lambda>r. case r of
        Some p \<Rightarrow> \<lambda>d. (Inr \<lparr>pb_partition = p, pb_diagnostics = [], pb_reused_artifact = True, pb_transient = None,
                pb_accounted_bytes = partition_accounted_bytes p (ss_byte_len snap)\<rparr>, d)
      | None \<Rightarrow> rebuild_partition env (sn_input scan) snap profile key"
  have "(path, snap) \<in> set (sn_supported scan)" using snap(1) by (rule map_of_SomeD)
  with assms have "CHR ''/'' \<notin> set (ss_content_hash snap)"
    "path_under (snapshot_root (sn_input scan)) (ss_absolute_path snap)
      \<longrightarrow> ss_absolute_path snap = spooled_path (snapshot_root (sn_input scan)) (ss_path snap) (ss_content_hash snap)"
    by (auto simp: well_scanned_def list_all_iff scanned_def)
  note rebuild = local_rebuild [OF this, of key env profile, folded cells]
  have h: "local_to (path_cells env scan path) (?h r)" for r by (cases r) (simp_all add: local_return rebuild)
  have load: "?load d = ?load d'" if "\<forall>c\<in>path_cells env scan path. d c = d' c" for d d'
    using that by (simp add: cells load_partition_def)
  have "build_partition_for_path env scan path = (\<lambda>d. ?h (?load d) d)"
    by (auto simp: eq build_partition_for_snapshot_def snap(3) fun_eq_iff split: option.split)
  then show ?thesis by (simp only: local_depends [where g = ?h and k = ?load, OF load h])
qed

text \<open>SHA-1 tells the paths of the scan apart, SHA-256 their key materials.\<close>

definition no_collisions :: "exec_env \<Rightarrow> source_scan \<Rightarrow> bool" where
  "no_collisions env scan \<longleftrightarrow>
     (\<forall>p \<in> set (scan_paths scan). \<forall>q \<in> set (scan_paths scan).
        (partition_id p = partition_id q \<longrightarrow> p = q)
        \<and> (path_key env scan p \<noteq> None \<and> path_key env scan p = path_key env scan q \<longrightarrow> p = q))"

lemma path_cells_disjoint:
  assumes "well_scanned scan" and "no_collisions env scan"
    and "p \<in> set (scan_paths scan)" "q \<in> set (scan_paths scan)" "p \<noteq> q"
  shows "path_cells env scan p \<inter> path_cells env scan q = {}"
proof -
  from assms(3,4) obtain s t where st: "map_of (sn_supported scan) p = Some s" "map_of (sn_supported scan) q = Some t"
    by (auto simp: scan_paths_def) (metis fst_conv map_of_eq_None_iff not_None_eq image_eqI)
  then have "(p, s) \<in> set (sn_supported scan)" "(q, t) \<in> set (sn_supported scan)" by (auto dest: map_of_SomeD)
  with assms(1) have plain: "ss_path s = p" "ss_path t = q" "CHR ''/'' \<notin> set (ss_content_hash s)" "CHR ''/'' \<notin> set (ss_content_hash t)"
    by (auto simp: well_scanned_def list_all_iff scanned_def)
  have "partition_id p \<noteq> partition_id q" "path_key env scan p = None \<or> path_key env scan p \<noteq> path_key env scan q"
    using assms(2-5) by (auto simp: no_collisions_def)
  moreover have "Artifact k \<notin> spool_cells e dir rel h" for k e dir rel h by (auto simp: spool_cells_def)
  moreover have "x \<notin> spool_cells e dir q (ss_content_hash t)" if "x \<in> spool_cells e dir p (ss_content_hash s)" for x e dir
    using spool_cells_disjoint [OF calculation(1) plain(3,4), of e dir dir] that by blast
  ultimately show ?thesis using plain(1,2) st by (auto simp: path_cells_def elem_set)
qed

section \<open>The plan of a scan\<close>

locale planned_run =
  fixes env :: exec_env and scan :: source_scan
  assumes well: "well_scanned scan" and apart: "no_collisions env scan"
begin

lemma builds_disjoint:
  assumes "i < length (scan_paths scan)" "j < length (scan_paths scan)" "i \<noteq> j"
  shows "path_cells env scan (scan_paths scan ! i) \<inter> path_cells env scan (scan_paths scan ! j) = {}"
  using assms well by (intro path_cells_disjoint [OF well apart]) (auto simp: well_scanned_def nth_eq_iff_index_eq)

lemma local_build_at: "local_to (path_cells env scan (scan_paths scan ! i)) (build_at env scan i)"
  unfolding build_at_def by (rule local_build_path [OF well])

end

sublocale planned_run \<subseteq> independent_work "build_at env scan" "length (scan_paths scan)"
proof
  fix i j :: nat and w :: disk
  assume ij: "i < length (scan_paths scan)" "j < length (scan_paths scan)" "i \<noteq> j"
  from local_disjoint [OF local_build_at local_build_at builds_disjoint [OF ij]]
  show "fst (build_at env scan i (snd (build_at env scan j w))) = fst (build_at env scan i w)"
    "snd (build_at env scan i (snd (build_at env scan j w))) = snd (build_at env scan j (snd (build_at env scan i w)))" .
qed

section \<open>What a scan guarantees\<close>

text \<open>The walk does not enter the directory of the source snapshots.\<close>

definition walks_outside :: "exec_env \<Rightarrow> request \<Rightarrow> bool" where
  "walks_outside env request \<longleftrightarrow>
     (\<forall>entry. Inr entry \<in> set (se_walk (xe_scan env) (should_descend (request_selection request)))
        \<longrightarrow> \<not> path_under (snapshot_root request) (we_absolute entry))"

lemma btree_inv_distinct: "btree_inv m \<Longrightarrow> distinct (map fst m)"
  unfolding btree_inv_def using strict_sorted_iff by blast

lemma scan_walk_supported:
  assumes "scan_walk U env profiles sel entries st = Inr st'" and "btree_inv (sc_supported st)"
    and "\<forall>x \<in> set (sc_supported st). P (ss_absolute_path (snd x))"
    and "\<forall>entry. Inr entry \<in> set entries \<longrightarrow> P (we_absolute entry)"
  shows "btree_inv (sc_supported st') \<and> (\<forall>x \<in> set (sc_supported st'). P (ss_absolute_path (snd x)))"
  using assms
proof (induction U env profiles sel entries st rule: scan_walk.induct)
  case (3 U env profiles sel entry entries st)
  then obtain st1 where st1: "scan_entry U (\<lambda>path. sha256_file env path 0) (\<lambda>path. try_op (se_reads env path 1) (\<lambda>bytes. Inr (length bytes)))
      profiles sel entry st = Inr st1" "scan_walk U env profiles sel entries st1 = Inr st'" by (auto simp: try_op_Inr_iff)
  have "P (we_absolute entry)" using "3.prems"(4) by simp
  with st1(1) "3.prems"(2,3)
  have "btree_inv (sc_supported st1) \<and> (\<forall>x \<in> set (sc_supported st1). P (ss_absolute_path (snd x)))"
    by (auto simp: scan_entry_def Let_def try_op_Inr_iff btree_inv_insert split: if_splits option.splits
        dest!: set_btree_insert [THEN subsetD]) (metis snd_conv)
  with "3.IH" [OF st1] "3.prems"(4) show ?case by simp
qed auto

lemma spool_each_others:
  assumes "spool_each env request required rest (snapshots, supported, d) = (Inr (snapshots', supported'), d')"
    and "list_all scanned rest" and "(path, s) \<in> set supported'" "path \<notin> set required"
  shows "(path, s) \<in> set (supported @ rest)"
  using assms
proof (induction rest arbitrary: snapshots supported d)
  case (Cons x rest)
  obtain q t where x: "x = (q, t)" by fastforce
  with Cons.prems(2) have q: "ss_path t = q" by (simp add: scanned_def)
  show ?case
  proof (cases "q \<in> set required")
    case False
    with Cons.IH [of snapshots "supported @ [x]" d] Cons.prems x q show ?thesis by auto
  next
    case True
    with Cons.prems(1) x q obtain sp d1 where
      "spool_each env request required rest (btree_insert q (respool t sp) snapshots, supported @ [(q, respool t sp)], d1)
         = (Inr (snapshots', supported'), d')"
      by (auto simp: Let_def split: prod.splits sum.splits)
    from Cons.IH [OF this] Cons.prems(2-4) True show ?thesis by auto
  qed
qed auto

lemma scan_sources_supported:
  assumes "scan_sources U digest env request d = (Inr scan, d')"
  obtains st where
    "scan_walk U env (profile_set_new U (rq_profiles request)) (request_selection request)
        (se_walk env (should_descend (request_selection request))) \<lparr>sc_snapshots = [], sc_supported = [], sc_diagnostics = []\<rparr> = Inr st"
    "spool_supported_snapshots env request (rebuild_paths (sn_diff scan)) (sc_snapshots st) (sc_supported st) d
        = (Inr (sn_snapshots scan, sn_supported scan), d')"
    "sn_input scan = request" "sn_profiles scan = selected_profiles (profile_set_new U (rq_profiles request)) (selected_languages (sn_supported scan))"
  using assms by (auto simp: scan_sources_def Let_def split: sum.splits prod.splits)

lemma profile_language: "profile_for_language (profile_set_new U profiles) l = Some p \<Longrightarrow> lp_language p = l"
  unfolding profile_for_language_def profile_set_new_def by_language_fold
  by (auto simp: last_with_def find_Some_iff split: option.splits)

lemma find_map_filter:
  assumes "\<And>x y. f x = Some y \<Longrightarrow> g y = x"
  shows "find (\<lambda>y. g y = x) (List.map_filter f xs) = (if x \<in> set xs then f x else None)"
proof (induction xs)
  case (Cons a xs)
  show ?case
  proof (cases "f a")
    case (Some y)
    then have "g y = a" by (rule assms)
    with Some Cons show ?thesis by (auto simp: List.map_filter_simps)
  qed (use Cons in \<open>auto simp: List.map_filter_simps\<close>)
qed (simp add: List.map_filter_simps)

lemma selected_profile:
  assumes "l \<in> set languages"
  shows "find (\<lambda>profile. lp_language profile = l) (selected_profiles (profile_set_new U profiles) languages)
    = profile_for_language (profile_set_new U profiles) l"
proof -
  have "map_of (ps_by_language (profile_set_new U profiles)) x = Some y \<Longrightarrow> lp_language y = x" for x y
    using profile_language [of U profiles x y] by (simp add: profile_for_language_def)
  from find_map_filter [of "map_of (ps_by_language (profile_set_new U profiles))" lp_language, OF this] assms
  show ?thesis by (simp add: selected_profiles_def profile_for_language_def)
qed

text \<open>The profile in the key of a file is the one its partition is built with.\<close>

definition profiles_agree :: "unicode \<Rightarrow> source_scan \<Rightarrow> bool" where
  "profiles_agree U scan \<longleftrightarrow>
     (\<forall>(path, s) \<in> set (sn_supported scan). path_profile scan s =
        Option.bind (ss_language s) (profile_for_language (profile_set_new U (rq_profiles (sn_input scan)))))"

lemma scan_sources_profiles:
  assumes "scan_sources U digest env request d = (Inr scan, d')"
  shows "profiles_agree U scan"
proof -
  from assms have input: "sn_input scan = request"
    "sn_profiles scan = selected_profiles (profile_set_new U (rq_profiles request)) (selected_languages (sn_supported scan))"
    by (rule scan_sources_supported; blast)+
  have "l \<in> set (selected_languages (sn_supported scan))" if "(path, s) \<in> set (sn_supported scan)" "ss_language s = Some l" for path s l
    using that by (force simp: selected_languages_def set_map_filter)
  with selected_profile show ?thesis
    by (auto simp: profiles_agree_def path_profile_def input bind_split_asm split: bind_split)
qed

lemma scan_sources_well:
  assumes "scan_sources (xe_unicode env) digest (xe_scan env) request d = (Inr scan, d')" and "walks_outside env request"
  shows "well_scanned scan"
proof -
  from assms(1) obtain st where
    walk: "scan_walk (xe_unicode env) (xe_scan env) (profile_set_new (xe_unicode env) (rq_profiles request)) (request_selection request)
        (se_walk (xe_scan env) (should_descend (request_selection request))) \<lparr>sc_snapshots = [], sc_supported = [], sc_diagnostics = []\<rparr> = Inr st"
    and spool: "spool_supported_snapshots (xe_scan env) request (rebuild_paths (sn_diff scan)) (sc_snapshots st) (sc_supported st) d
        = (Inr (sn_snapshots scan, sn_supported scan), d')"
    and input: "sn_input scan = request" by (rule scan_sources_supported)
  have scanned: "list_all scanned (sc_supported st)" using scan_walk_scanned [OF walk] by simp
  have st: "btree_inv (sc_supported st)" "\<forall>x \<in> set (sc_supported st). \<not> path_under (snapshot_root request) (ss_absolute_path (snd x))"
    using scan_walk_supported [where P = "\<lambda>p. \<not> path_under (snapshot_root request) p", OF walk] assms(2)
    by (simp_all add: walks_outside_def btree_inv_def)
  show ?thesis
  proof (cases "rebuild_paths (sn_diff scan) = []")
    case True
    with spool have "sn_supported scan = sc_supported st" by (simp add: spool_supported_snapshots_def)
    with st scanned input show ?thesis by (auto simp: well_scanned_def scan_paths_def btree_inv_distinct)
  next
    case False
    with spool have each: "spool_each (xe_scan env) request (rebuild_paths (sn_diff scan)) (sc_supported st) (sc_snapshots st, [], d)
        = (Inr (sn_snapshots scan, sn_supported scan), d')" by (simp add: spool_supported_snapshots_def)
    from spool_each_spooled [OF each] scanned
    have 1: "list_all scanned (sn_supported scan)" "map fst (sn_supported scan) = map fst (sc_supported st)"
      "\<forall>(path, s) \<in> set (sn_supported scan). path \<in> set (rebuild_paths (sn_diff scan)) \<longrightarrow> Snapshot.spooled (xe_scan env) request d' s"
      by simp_all
    have "ss_absolute_path s = spooled_path (snapshot_root request) path (ss_content_hash s)"
      if s: "(path, s) \<in> set (sn_supported scan)" "path_under (snapshot_root request) (ss_absolute_path s)" for path s
    proof (cases "path \<in> set (rebuild_paths (sn_diff scan))")
      case True
      with 1 s(1) show ?thesis by (fastforce simp: Snapshot.spooled_def list_all_iff scanned_def)
    next
      case False
      with spool_each_others [OF each scanned s(1)] st(2) s(2) show ?thesis by fastforce
    qed
    with 1 st(1) input show ?thesis by (auto simp: well_scanned_def scan_paths_def btree_inv_distinct)
  qed
qed

section \<open>Every schedule computes the sequential plan\<close>

definition sequential_plan :: "exec_env \<Rightarrow> source_scan \<Rightarrow> disk \<Rightarrow> (plan_state \<times> u64) run \<times> disk" where
  "sequential_plan env scan d =
     (let n = length (scan_paths scan)
      in plan_loop (build_at env scan) (visit_at env scan (resolved_worker_count (sn_input scan) n)) [0..<n] (plan_start n, 0) d)"

lemma worker_count_le: "resolved_worker_count request n \<le> n"
  by (simp add: resolved_worker_count_def)

context planned_run
begin

lemma pool_runs_on:
  assumes "pool_reaches (build_at env scan) vis (length (scan_paths scan)) wc s d p"
    and "0 < wc" "wc \<le> length (scan_paths scan)"
  shows "((\<exists>out. pl_main p = Returned out) \<or> (\<exists>p'. pool_step (build_at env scan) vis (length (scan_paths scan)) wc p p'))
     \<and> (\<forall>p'. pool_step (build_at env scan) vis (length (scan_paths scan)) wc p p'
          \<longrightarrow> pool_weight (length (scan_paths scan)) p' < pool_weight (length (scan_paths scan)) p)"
  using pool_progress [OF inv_reaches [OF assms] assms(2)] pool_step_decreases [OF _ inv_reaches [OF assms] assms(2)] by blast

lemma plan_exists: "\<exists>out d'. execution_plan env scan d out d'"
proof -
  let ?n = "length (scan_paths scan)" and ?wc = "resolved_worker_count (sn_input scan) (length (scan_paths scan))"
  show ?thesis
  proof (cases "1 < ?wc")
    case True
    then have "0 < ?wc" by simp
    from pool_ends [OF independent_work_axioms this worker_count_le pool_starts,
        of "visit_at env scan ?wc" "(plan_start ?n, 0)" d] True show ?thesis
      unfolding execution_plan_def Let_def by auto
  next
    case False
    then show ?thesis by (simp add: execution_plan_def Let_def)
  qed
qed

lemma plan_sequential:
  assumes "execution_plan env scan d out d'"
  shows "out = fst (sequential_plan env scan d)" and "\<not> isl out \<Longrightarrow> d' = snd (sequential_plan env scan d)"
proof -
  let ?n = "length (scan_paths scan)" and ?wc = "resolved_worker_count (sn_input scan) (length (scan_paths scan))"
  have "out = fst (sequential_plan env scan d) \<and> (\<not> isl out \<longrightarrow> d' = snd (sequential_plan env scan d))"
  proof (cases "1 < ?wc")
    case True
    with assms obtain p where p: "pool_reaches (build_at env scan) (visit_at env scan ?wc) ?n ?wc (plan_start ?n, 0) d p"
      "pl_main p = Returned out" "pl_world p = d'" by (auto simp: execution_plan_def Let_def)
    have "0 < ?wc" using True by simp
    from pool_outcome [OF p(1) this worker_count_le p(2)] p(3) show ?thesis by (auto simp: sequential_plan_def Let_def)
  next
    case False
    have "sequential_plan env scan d = (out, d')"
    proof (cases "?n = 0")
      case True
      with assms False show ?thesis by (simp add: execution_plan_def sequential_plan_def Let_def)
    next
      case nonempty: False
      then have "?wc \<noteq> 0" by (auto simp: resolved_worker_count_def)
      with False have "?wc = 1" by simp
      with assms show ?thesis by (simp add: execution_plan_def sequential_plan_def Let_def)
    qed
    then show ?thesis by simp
  qed
  then show "out = fst (sequential_plan env scan d)" and "\<not> isl out \<Longrightarrow> d' = snd (sequential_plan env scan d)" by auto
qed

end

section \<open>A partition is a function of its key material and its source\<close>

text \<open>
  The reference: what the key material says and the content of the file, nothing else. The remaining
  fields of the request and the snapshot are blank.
\<close>

definition reference_request :: "key_material \<Rightarrow> request" where
  "reference_request m =
     \<lparr>rq_source_root = km_source_root m, rq_repository_label = km_repository_label m, rq_mode = [],
      rq_parser_version = km_parser_version m, rq_manifest_schema_version = 0, rq_ontology = km_ontology m,
      rq_relation_types = km_ontology_schema m, rq_previous_manifest = None,
      rq_profiles = (case km_profile m of Some profile \<Rightarrow> [profile] | None \<Rightarrow> []),
      rq_excluded_parts = [], rq_include_patterns = [], rq_exclude_patterns = [], rq_ignore_patterns = [],
      rq_candidate_paths = [], rq_artifact_root = [], rq_db_path = [], rq_include_fts = False,
      rq_schema_statements = [], rq_staging_dir = [], rq_atomic_rebuild = False, rq_strict = False,
      rq_parallel = False, rq_spill_chunk_mib = 0, rq_max_parallelism = 0, rq_progress = False\<rparr>"

definition reference_snapshot :: "key_material \<Rightarrow> source_snapshot" where
  "reference_snapshot m =
     \<lparr>ss_path = km_relative_path m, ss_absolute_path = [], ss_content_hash = km_content_hash m,
      ss_language = Some (km_language m), ss_byte_len = 0, ss_source = None\<rparr>"

definition reference_partition :: "exec_env \<Rightarrow> key_material \<Rightarrow> string \<Rightarrow> string \<Rightarrow> graph_partition run" where
  "reference_partition env m key source =
     (case km_profile m of
        None \<Rightarrow> Inl (Failed (InvalidInput ''missing language profile''))
      | Some profile \<Rightarrow>
          try_op (lift_result (xe_parse env source profile)) (\<lambda>(tree, diagnostics).
          try_op (invalid_input_run (build_partition (xe_unicode env) (xe_encode_relations env) (xe_decode_relations env)
                    (reference_request m) (reference_snapshot m) tree)) (\<lambda>p.
          Inr (set_artifact_key key p))))"

lemma build_partition_reference:
  assumes "ss_language snap = Some l" and "profile_for_language (profile_set_new U (rq_profiles request)) l = Some profile"
    and "m = material_for_request request snap (Some profile)"
  shows "build_partition U encode decode request snap tree =
    build_partition U encode decode (reference_request m) (reference_snapshot m) tree"
proof -
  have l: "lp_language profile = l" by (rule profile_language [OF assms(2)])
  then have "profile_for_language (profile_set_new U [profile]) l = Some profile"
    unfolding profile_for_language_def profile_set_new_def by_language_fold by (simp add: last_with_def)
  then have "graph_meta U encode request snap = graph_meta U encode (reference_request m) (reference_snapshot m)"
    using assms by (simp add: graph_meta_def reference_request_def reference_snapshot_def material_for_request_def option_default_def Let_def)
  moreover have "manifest_entry_of snap = manifest_entry_of (reference_snapshot m)"
    using assms by (auto simp: manifest_entry_of_def reference_snapshot_def material_for_request_def option_default_def fun_eq_iff)
  ultimately show ?thesis by (simp add: build_partition_def)
qed

lemma parsed_partition_reference:
  assumes "parsed_partition env request snap profile key d = Inr (p, diagnostics)" and "ss_language snap = Some l"
    and "profile_for_language (profile_set_new (xe_unicode env) (rq_profiles request)) l = Some profile"
    and "m = material_for_request request snap (Some profile)"
  shows "\<exists>source. d (Staged (ss_absolute_path snap)) = Some source
    \<and> sha256_hex (xe_scan env) source = ss_content_hash snap \<and> reference_partition env m key source = Inr p"
proof -
  from assms(1) obtain source tree where
    "read_snapshotted_source env snap d = Inr source" "xe_parse env source profile = Inr (tree, diagnostics)"
    and built: "try_op (invalid_input_run (build_partition (xe_unicode env) (xe_encode_relations env) (xe_decode_relations env)
               request snap tree)) (\<lambda>p. Inr (set_artifact_key key p)) = Inr p"
    by (auto simp: parsed_partition_def try_op_Inr_iff lift_result_Inr_iff parse_file_def)
  moreover have "km_profile m = Some profile" using assms(4) by (simp add: material_for_request_def)
  ultimately show ?thesis
    by (auto simp: read_snapshotted_source_def reference_partition_def build_partition_reference [OF assms(2-4)]
        split: option.splits if_splits)
qed

section \<open>The cache\<close>

lemma invalid_input_run_Inr_iff: "invalid_input_run r = Inr x \<longleftrightarrow> r = Inr x"
  by (auto simp: invalid_input_run_def split: sum.splits fail.splits)

lemma reference_partition_stored:
  assumes "reference_partition env m key source = Inr p"
  shows "validate_raw_rows p = Inr ()" and "me_artifact_key (gp_entry p) = Some key"
    and "me_path (gp_entry p) = km_relative_path m" "me_content_hash (gp_entry p) = km_content_hash m"
      "me_language (gp_entry p) = km_language m"
proof -
  from assms obtain tree p' where p: "p = set_artifact_key key p'"
    and "build_partition (xe_unicode env) (xe_encode_relations env) (xe_decode_relations env)
       (reference_request m) (reference_snapshot m) tree = Inr p'"
    by (auto simp: reference_partition_def try_op_Inr_iff invalid_input_run_Inr_iff split: option.splits)
  then obtain nodes edges where
    "p' = \<lparr>gp_entry = manifest_entry_of (reference_snapshot m) nodes edges, gp_nodes = nodes, gp_edges = edges\<rparr>"
    by (auto simp: build_partition_def try_op_Inr_iff)
  then show "validate_raw_rows p = Inr ()" "me_artifact_key (gp_entry p) = Some key"
    "me_path (gp_entry p) = km_relative_path m" "me_content_hash (gp_entry p) = km_content_hash m"
    "me_language (gp_entry p) = km_language m"
    by (simp_all add: p validate_raw_rows_def manifest_entry_of_def reference_snapshot_def option_default_def
        set_artifact_key_def Let_def)
qed

text \<open>
  \<open>M\<close> holds the key materials of this run and of every earlier run that shared the artifact store, \<open>C\<close> the
  file contents they have read. Hashes do not collide on them.
\<close>

definition unambiguous :: "exec_env \<Rightarrow> key_material set \<Rightarrow> string set \<Rightarrow> bool" where
  "unambiguous env M C \<longleftrightarrow>
     (\<forall>m \<in> M. \<forall>m' \<in> M. \<forall>key. artifact_key (xe_artifacts env) m = Inr key \<and> artifact_key (xe_artifacts env) m' = Inr key \<longrightarrow> m = m')
     \<and> inj_on (sha256_hex (xe_scan env)) C"

definition observes :: "exec_env \<Rightarrow> string set \<Rightarrow> bool" where
  "observes env C \<longleftrightarrow> (\<forall>path k content. se_reads (xe_scan env) path k = Inr content \<longrightarrow> content \<in> C)"

definition produced :: "exec_env \<Rightarrow> key_material set \<Rightarrow> string set \<Rightarrow> string \<Rightarrow> graph_partition \<Rightarrow> bool" where
  "produced env M C key p \<longleftrightarrow>
     (\<exists>m \<in> M. \<exists>source \<in> C. artifact_key (xe_artifacts env) m = Inr key
        \<and> sha256_hex (xe_scan env) source = km_content_hash m \<and> reference_partition env m key source = Inr p)"

text \<open>
  The disk of such runs: an artifact that can be loaded at all is one that a run has produced (files that do
  not decode or do not pass the checks may be there), and the staged sources have been read.
\<close>

definition cache_from :: "exec_env \<Rightarrow> key_material set \<Rightarrow> string set \<Rightarrow> disk \<Rightarrow> bool" where
  "cache_from env M C d \<longleftrightarrow>
     (\<forall>key bytes x p. d (Artifact key) = Some bytes \<and> load_partition_file (xe_artifacts env) bytes key x = Some p
        \<longrightarrow> produced env M C key p)
     \<and> (\<forall>path content. d (Staged path) = Some content \<longrightarrow> content \<in> C)"

lemma cache_from_empty: "cache_from env M C Map.empty"
  by (simp add: cache_from_def)

lemma attempts_contents:
  assumes "snd (spool_attempts env source_path base shard ident relative hash attempts source_changed last_error d) c = Some content"
  shows "d c = Some content \<or> (\<exists>k. se_reads env source_path k = Inr content)"
  using assms
proof (induction attempts arbitrary: source_changed last_error d)
  case (Cons attempt attempts)
  then show ?case
    by (auto simp: Let_def split: sum.splits option.splits if_splits dest!: Cons.IH)
qed simp

lemma stable_source_artifacts:
  "snd (spool_stable_source env source_path base dir relative hash d) (Artifact key) = d (Artifact key)"
  by (rule local_frame [OF local_spool]) (auto simp: spool_cells_def)

lemma spool_each_artifacts:
  "snd (spool_each env request required rest (snapshots, supported, d)) (Artifact key) = d (Artifact key)"
proof (induction rest arbitrary: snapshots supported d)
  case (Cons x rest)
  obtain path snap where x: "x = (path, snap)" by fastforce
  obtain q d1 where q: "spool_stable_source env (ss_absolute_path snap) 2 (snapshot_root request)
      (ss_path snap) (ss_content_hash snap) d = (q, d1)" by fastforce
  have "d1 (Artifact key) = d (Artifact key)" using stable_source_artifacts [of env _ 2] q by (metis snd_conv)
  with Cons.IH show ?case by (cases q) (auto simp: x q Let_def)
qed simp

lemma scan_sources_artifacts:
  assumes "scan_sources U digest env request d = (r, d')"
  shows "d' (Artifact key) = d (Artifact key)"
  using assms spool_each_artifacts [of env request]
  by (auto simp: scan_sources_def Let_def spool_supported_snapshots_def split: sum.splits prod.splits if_splits) (metis snd_conv)+

lemma stable_source_cache:
  assumes "spool_stable_source (xe_scan env) source_path base dir relative hash d = (r, d')"
    and "cache_from env M C d" "observes env C"
  shows "cache_from env M C d'"
proof -
  have "d' (Artifact key) = d (Artifact key)" for key using stable_source_artifacts assms(1) by (metis snd_conv)
  moreover have "content \<in> C" if "d' (Staged path) = Some content" for path content
  proof -
    have "snd (spool_stable_source (xe_scan env) source_path base dir relative hash d) (Staged path) = Some content"
      using assms(1) that by simp
    then have "d (Staged path) = Some content \<or> (\<exists>k. se_reads (xe_scan env) source_path k = Inr content)"
      unfolding spool_stable_source_def Let_def by (rule attempts_contents)
    with assms(2,3) show ?thesis by (auto simp: cache_from_def observes_def)
  qed
  ultimately show ?thesis using assms(2) by (auto simp: cache_from_def)
qed

lemma spool_cache:
  assumes "spool_snapshot_for_build (xe_scan env) request snap d = (r, d')" and "cache_from env M C d" "observes env C"
  shows "cache_from env M C d'"
  using assms by (auto simp: spool_snapshot_for_build_def split: if_splits prod.splits sum.splits dest: stable_source_cache)

lemma spool_each_cache:
  assumes "spool_each (xe_scan env) request required rest (snapshots, supported, d) = (r, d')"
    and "cache_from env M C d" "observes env C"
  shows "cache_from env M C d'"
  using assms(1,2)
proof (induction rest arbitrary: snapshots supported d)
  case (Cons x rest)
  obtain path snap where x: "x = (path, snap)" by fastforce
  show ?case
  proof (cases "ss_path snap \<in> set required")
    case True
    obtain q d1 where q: "spool_stable_source (xe_scan env) (ss_absolute_path snap) 2 (snapshot_root request)
        (ss_path snap) (ss_content_hash snap) d = (q, d1)" by fastforce
    note c = stable_source_cache [OF q Cons.prems(2) assms(3)]
    show ?thesis using Cons.prems(1) Cons.IH [OF _ c] True q x c by (cases q) (auto simp: Let_def)
  qed (use Cons x in auto)
qed simp

lemma scan_sources_cache:
  assumes "scan_sources U digest (xe_scan env) request d = (r, d')" and "cache_from env M C d" "observes env C"
  shows "cache_from env M C d'"
  using assms
  by (auto simp: scan_sources_def Let_def spool_supported_snapshots_def split: sum.splits prod.splits if_splits
      dest: spool_each_cache)

lemma loaded_envelope:
  assumes "artifact_codec env" and "envelope_bytes env key p = Inr bytes" and "load_partition_file env bytes key' x = Some q"
  shows "q = p"
proof -
  from assms(2) obtain digest where "ae_encode_envelope env \<lparr>en_format_version = artifact_format_version, en_artifact_key = key,
        en_partition_payload_sha256 = digest, en_partition = p\<rparr> = Inr bytes"
    by (auto simp: envelope_bytes_def write_envelope_def try_op_Inr_iff json_result_Inr_iff)
  with assms(1,3) show ?thesis
    by (auto simp: load_partition_file_def artifact_codec_def Let_def split: sum.splits if_splits)
qed

text \<open>What is known of a partition that was built or loaded for a file of the scan.\<close>

definition planned ::
  "exec_env \<Rightarrow> string set \<Rightarrow> key_material \<Rightarrow> string \<Rightarrow> expectations \<Rightarrow> partition_build \<Rightarrow> disk \<Rightarrow> bool" where
  "planned env C m key x r d \<longleftrightarrow>
     (\<exists>source \<in> C. sha256_hex (xe_scan env) source = km_content_hash m
        \<and> reference_partition env m key source = Inr (pb_partition r))
     \<and> (case pb_transient r of
          Some t \<Rightarrow> transient_load (xe_artifacts env) x t = Inr (pb_partition r)
        | None \<Rightarrow> load_partition (xe_artifacts env) key x d = Some (pb_partition r))"

lemma publish_planned:
  assumes codec: "artifact_codec (xe_artifacts env)" and key: "artifact_key (xe_artifacts env) m = Inr key"
    and ref: "source \<in> C" "sha256_hex (xe_scan env) source = km_content_hash m" "reference_partition env m key source = Inr p"
    and x: "ex_path x = km_relative_path m" "ex_content_hash x = km_content_hash m" "ex_language x = km_language m"
    and run: "publish_partition env snap key p diagnostics d = (Inr r, d')"
  shows "planned env C m key x r d'"
proof -
  note stored = reference_partition_stored [OF ref(3)]
  have valid: "validate_artifact_key key = Inr ()" by (rule artifact_key_valid [OF codec key])
  have expects: "expects x p" using stored x by (simp add: expects_def)
  obtain o' where s: "store_partition (xe_artifacts env) key p d = (o', d')" and r: "published env snap key p diagnostics o' = Inr r"
    using run by (auto simp: publish_partition_eq split: prod.splits)
  have checked: "checked_envelope (xe_artifacts env) key p = envelope_bytes (xe_artifacts env) key p"
    using valid stored by (simp add: checked_envelope_def)
  show ?thesis
  proof (cases o')
    case (Inr w)
    with s store_cases obtain bytes where b: "storable (xe_artifacts env) key p bytes" "d' (Artifact key) = Some bytes" by fastforce
    with load_stored [OF codec b(1) expects] r Inr ref show ?thesis
      by (auto simp: planned_def published_def load_partition_def valid Let_def)
  next
    case (Inl e)
    with r obtain t where t: "transient_create (xe_artifacts env) key p = Inr t" "pb_transient r = Some t" "pb_partition r = p"
      by (auto simp: published_def Let_def try_op_Inr_iff lift_result_Inr_iff split: if_splits)
    then obtain bytes where "envelope_bytes (xe_artifacts env) key p = Inr bytes" "t = \<lparr>tp_key = key, tp_bytes = bytes\<rparr>"
      by (auto simp: transient_create_def try_op_Inr_iff)
    moreover from this checked have "storable (xe_artifacts env) key p bytes" by (simp add: storable_checked)
    ultimately show ?thesis using load_stored [OF codec _ expects] t ref by (auto simp: planned_def transient_load_def)
  qed
qed

lemma publish_cache:
  assumes "artifact_codec (xe_artifacts env)" and "produced env M C key p" and "cache_from env M C d"
    and "publish_partition env snap key p diagnostics d = (r, d')"
  shows "cache_from env M C d'"
proof -
  obtain o' where s: "store_partition (xe_artifacts env) key p d = (o', d')"
    using assms(4) by (auto simp: publish_partition_eq split: prod.splits)
  show ?thesis
  proof (cases "d' = d")
    case False
    then obtain bytes where "checked_envelope (xe_artifacts env) key p = Inr bytes" "d' = d(Artifact key \<mapsto> bytes)"
      using s by (auto simp: store_partition_def split: sum.splits option.splits if_splits)
    moreover from this have "envelope_bytes (xe_artifacts env) key p = Inr bytes"
      by (simp add: storable_checked [symmetric] storable_def)
    ultimately show ?thesis using assms(2,3) loaded_envelope [OF assms(1)] by (fastforce simp: cache_from_def)
  qed (use assms(3) in simp)
qed

lemma material_fields:
  "m = material_for_request request snap (Some profile) \<Longrightarrow>
     ex_path (expectations_of snap) = km_relative_path m \<and> ex_content_hash (expectations_of snap) = km_content_hash m
     \<and> ex_language (expectations_of snap) = km_language m"
  by (simp add: expectations_of_def material_for_request_def)

lemma rebuild_planned:
  assumes codec: "artifact_codec (xe_artifacts env)" and obs: "observes env C" and cache: "cache_from env M C d"
    and m: "m = material_for_request request snap (Some profile)" "m \<in> M" "artifact_key (xe_artifacts env) m = Inr key"
    and snap: "ss_language snap = Some l" "CHR ''/'' \<notin> set (ss_content_hash snap)"
      "path_under (snapshot_root request) (ss_absolute_path snap)
         \<longrightarrow> ss_absolute_path snap = spooled_path (snapshot_root request) (ss_path snap) (ss_content_hash snap)"
    and profile: "profile_for_language (profile_set_new (xe_unicode env) (rq_profiles request)) l = Some profile"
    and run: "rebuild_partition env request snap profile key d = (out, d')"
  shows "cache_from env M C d' \<and> (\<forall>r. out = Inr r \<longrightarrow> planned env C m key (expectations_of snap) r d')"
proof -
  obtain q d1 where spool: "spool_snapshot_for_build (xe_scan env) request snap d = (q, d1)" by fastforce
  note cache1 = spool_cache [OF spool cache obs]
  show ?thesis
  proof (cases q)
    case (Inl e)
    with run spool cache1 show ?thesis by (auto simp: rebuild_partition_def)
  next
    case (Inr snap')
    note sp = spooled_snapshot [OF spool [unfolded Inr] snap(2,3)]
    have m': "m = material_for_request request snap' (Some profile)" using m(1) sp by (simp add: material_for_request_def)
    show ?thesis
    proof (cases "parsed_partition env request snap' profile key d1")
      case (Inl e)
      with run spool Inr cache1 show ?thesis by (auto simp: rebuild_partition_def)
    next
      case parsed: (Inr pd)
      obtain p diagnostics where pd: "pd = (p, diagnostics)" by fastforce
      from parsed_partition_reference [OF parsed [unfolded pd] _ profile m'] sp snap(1) obtain source where
        "d1 (Staged (ss_absolute_path snap')) = Some source" "sha256_hex (xe_scan env) source = ss_content_hash snap'"
        and ref: "reference_partition env m key source = Inr p" by auto
      with cache1 m' have src: "source \<in> C" "sha256_hex (xe_scan env) source = km_content_hash m"
        by (auto simp: cache_from_def material_for_request_def)
      have run': "publish_partition env snap' key p diagnostics d1 = (out, d')"
        using run spool Inr parsed pd by (simp add: rebuild_partition_def)
      have "produced env M C key p" using m src ref by (auto simp: produced_def)
      from publish_cache [OF codec this cache1 run'] publish_planned [OF codec m(3) src ref] run' material_fields [OF m(1)]
      show ?thesis by blast
    qed
  qed
qed

lemma build_planned:
  assumes codec: "artifact_codec (xe_artifacts env)" and well: "well_scanned scan" "profiles_agree (xe_unicode env) scan"
    and sets: "unambiguous env M C" "observes env C" "cache_from env M C d"
    and path: "path_material scan path = Some m" "m \<in> M" "path_key env scan path = Some key" "map_of (sn_supported scan) path = Some snap"
    and run: "build_partition_for_path env scan path d = (out, d')"
  shows "cache_from env M C d' \<and> (\<forall>r. out = Inr r \<longrightarrow> planned env C m key (expectations_of snap) r d')"
proof -
  from path(3) obtain profile where p: "path_profile scan snap = Some profile" and m: "m = material_for_request (sn_input scan) snap (Some profile)"
    and key: "key_for_request (xe_artifacts env) (sn_input scan) snap (Some profile) = Inr key"
    and eq: "build_partition_for_path env scan path =
       build_partition_for_snapshot env (sn_input scan) snap profile (previous_entry_of (sn_input scan) path)"
    by (rule build_path_known) (use path in auto)
  have key': "artifact_key (xe_artifacts env) m = Inr key" using key m by (simp add: key_for_request_def)
  have mem: "(path, snap) \<in> set (sn_supported scan)" using path(4) by (rule map_of_SomeD)
  with well(1) have snap: "CHR ''/'' \<notin> set (ss_content_hash snap)" "path_under (snapshot_root (sn_input scan)) (ss_absolute_path snap)
         \<longrightarrow> ss_absolute_path snap = spooled_path (snapshot_root (sn_input scan)) (ss_path snap) (ss_content_hash snap)"
    by (auto simp: well_scanned_def list_all_iff scanned_def)
  from mem well(2) p obtain l where l: "ss_language snap = Some l"
    "profile_for_language (profile_set_new (xe_unicode env) (rq_profiles (sn_input scan))) l = Some profile"
    by (fastforce simp: profiles_agree_def bind_eq_Some_conv)
  let ?load = "if Option.bind (previous_entry_of (sn_input scan) path) me_artifact_key = Some key
            then load_partition (xe_artifacts env) key (expectations_of snap) d else None"
  show ?thesis
  proof (cases ?load)
    case None
    with run eq key have "rebuild_partition env (sn_input scan) snap profile key d = (out, d')"
      by (simp add: build_partition_for_snapshot_def)
    from rebuild_planned [OF codec sets(2,3) m path(2) key' l(1) snap l(2) this] show ?thesis .
  next
    case (Some p)
    with run eq key have r: "out = Inr \<lparr>pb_partition = p, pb_diagnostics = [], pb_reused_artifact = True, pb_transient = None,
                pb_accounted_bytes = partition_accounted_bytes p (ss_byte_len snap)\<rparr>" "d' = d"
      by (simp_all add: build_partition_for_snapshot_def)
    from Some have load: "load_partition (xe_artifacts env) key (expectations_of snap) d = Some p" by (simp split: if_splits)
    then have "produced env M C key p"
      using sets(3) by (auto simp: load_partition_def cache_from_def split: if_splits option.splits)
    then obtain m' source where "m' \<in> M" "source \<in> C" "artifact_key (xe_artifacts env) m' = Inr key"
      "sha256_hex (xe_scan env) source = km_content_hash m'" "reference_partition env m' key source = Inr p"
      by (auto simp: produced_def)
    moreover from this have "m' = m" using sets(1) path(2) key' by (auto simp: unambiguous_def)
    ultimately show ?thesis using r load sets(3) by (auto simp: planned_def)
  qed
qed

section \<open>The whole plan\<close>

lemma plan_loop_invariant:
  assumes "plan_loop work vis [k..<n] s w = (Inr s', w')" and "I k s w" and "k \<le> n"
    and "\<And>i s w r s1 w1. \<lbrakk>i < n; I i s w; work i w = (Inr r, w1); vis i r s = Inr s1\<rbrakk> \<Longrightarrow> I (Suc i) s1 w1"
  shows "I n s' w'"
  using assms(3,1,2)
proof (induction k arbitrary: s w rule: inc_induct)
  case (step k)
  from step.prems(1) step.hyps obtain r w1 s1 where 1: "work k w = (Inr r, w1)" "vis k r s = Inr s1"
    "plan_loop work vis [Suc k..<n] s1 w1 = (Inr s', w')"
    by (auto simp: upt_conv_Cons split: prod.splits sum.splits)
  from step.IH [OF 1(3)] assms(4) [OF _ step.prems(2) 1(1,2)] step.hyps show ?case by simp
qed simp

text \<open>What is known after the first \<open>k\<close> results have been consumed.\<close>

definition plan_inv ::
  "exec_env \<Rightarrow> source_scan \<Rightarrow> key_material set \<Rightarrow> string set \<Rightarrow> nat \<Rightarrow> plan_state \<times> u64 \<Rightarrow> disk \<Rightarrow> bool" where
  "plan_inv env scan M C k s d \<longleftrightarrow>
     cache_from env M C d \<and> length (ps_transients (fst s)) = length (scan_paths scan)
     \<and> (\<forall>i. k \<le> i \<and> i < length (scan_paths scan) \<longrightarrow> ps_transients (fst s) ! i = None)
     \<and> (\<forall>i < k. \<exists>snap m key r. map_of (sn_supported scan) (scan_paths scan ! i) = Some snap
          \<and> path_material scan (scan_paths scan ! i) = Some m \<and> path_key env scan (scan_paths scan ! i) = Some key
          \<and> planned env C m key (expectations_of snap) r d
          \<and> ps_transients (fst s) ! i = pb_transient r
          \<and> map_of (ps_planned (fst s)) (scan_paths scan ! i) = Some (manifest_entry_compact (gp_entry (pb_partition r))))"

lemma planned_frame:
  assumes "planned env C m key x r d" and "d' (Artifact key) = d (Artifact key)"
  shows "planned env C m key x r d'"
  using assms by (auto simp: planned_def load_partition_def split: option.splits)

lemma consumed:
  assumes "visit_at env scan wc i r s = Inr s1"
  shows "ps_transients (fst s1) = (case pb_transient r of Some t \<Rightarrow> (ps_transients (fst s))[i := Some t] | None \<Rightarrow> ps_transients (fst s))"
    and "map_of (ps_planned (fst s1)) =
      (map_of (ps_planned (fst s)))(me_path (gp_entry (pb_partition r)) \<mapsto> manifest_entry_compact (gp_entry (pb_partition r)))"
  using assms by (auto simp: visit_at_def visit_def consume_result_def Let_def split: option.splits if_splits)

locale incremental_run = planned_run env scan for env scan +
  fixes M :: "key_material set" and C :: "string set"
  assumes codec: "artifact_codec (xe_artifacts env)" and profiles: "profiles_agree (xe_unicode env) scan"
    and hashes: "unambiguous env M C" and reads: "observes env C"
    and materials: "path_material scan path = Some m \<Longrightarrow> m \<in> M"
begin

lemma planned_step:
  assumes inv: "plan_inv env scan M C i s d" and i: "i < length (scan_paths scan)"
    and run: "build_at env scan i d = (Inr r, d1)"
  obtains snap m key where "map_of (sn_supported scan) (scan_paths scan ! i) = Some snap"
    "path_material scan (scan_paths scan ! i) = Some m" "path_key env scan (scan_paths scan ! i) = Some key"
    "planned env C m key (expectations_of snap) r d1" "cache_from env M C d1"
    "me_path (gp_entry (pb_partition r)) = scan_paths scan ! i"
proof -
  let ?path = "scan_paths scan ! i"
  from run build_path_missing [of env scan ?path] obtain key where key: "path_key env scan ?path = Some key"
    by (cases "path_key env scan ?path") (auto simp: build_at_def)
  then obtain snap profile where snap: "map_of (sn_supported scan) ?path = Some snap"
    "path_material scan ?path = Some (material_for_request (sn_input scan) snap (Some profile))" by (rule build_path_known)
  let ?m = "material_for_request (sn_input scan) snap (Some profile)"
  have cache: "cache_from env M C d" using inv by (simp add: plan_inv_def)
  from build_planned [OF codec well profiles hashes reads cache snap(2) materials [OF snap(2)] key snap(1) run [unfolded build_at_def]]
  have pl: "planned env C ?m key (expectations_of snap) r d1" "cache_from env M C d1" by simp_all
  then obtain source where "reference_partition env ?m key source = Inr (pb_partition r)" by (auto simp: planned_def)
  from reference_partition_stored(3) [OF this] have "me_path (gp_entry (pb_partition r)) = ss_path snap"
    by (simp add: material_for_request_def)
  moreover have "ss_path snap = ?path"
    using map_of_SomeD [OF snap(1)] well by (auto simp: well_scanned_def list_all_iff scanned_def)
  ultimately show ?thesis using that [OF snap(1,2) key pl] by simp
qed

lemma plan_inv_step:
  assumes i: "i < length (scan_paths scan)" and inv: "plan_inv env scan M C i s d"
    and run: "build_at env scan i d = (Inr r, d1)" and vis: "visit_at env scan wc i r s = Inr s1"
  shows "plan_inv env scan M C (Suc i) s1 d1"
proof -
  note c = consumed [OF vis]
  from inv i run obtain snap m key where new: "map_of (sn_supported scan) (scan_paths scan ! i) = Some snap"
    "path_material scan (scan_paths scan ! i) = Some m" "path_key env scan (scan_paths scan ! i) = Some key"
    "planned env C m key (expectations_of snap) r d1" and cache: "cache_from env M C d1"
    and path: "me_path (gp_entry (pb_partition r)) = scan_paths scan ! i" by (rule planned_step)
  have len: "length (ps_transients (fst s)) = length (scan_paths scan)" using inv by (simp add: plan_inv_def)
  have none: "ps_transients (fst s) ! k = None" if "i \<le> k" "k < length (scan_paths scan)" for k
    using inv that by (simp add: plan_inv_def)
  have dist: "distinct (scan_paths scan)" using well by (simp add: well_scanned_def)
  have old: "\<exists>snap m key r. map_of (sn_supported scan) (scan_paths scan ! j) = Some snap
          \<and> path_material scan (scan_paths scan ! j) = Some m \<and> path_key env scan (scan_paths scan ! j) = Some key
          \<and> planned env C m key (expectations_of snap) r d1 \<and> ps_transients (fst s1) ! j = pb_transient r
          \<and> map_of (ps_planned (fst s1)) (scan_paths scan ! j) = Some (manifest_entry_compact (gp_entry (pb_partition r)))"
    if j: "j < i" for j
  proof -
    from inv j obtain snap m key r' where o: "map_of (sn_supported scan) (scan_paths scan ! j) = Some snap"
      "path_material scan (scan_paths scan ! j) = Some m" "path_key env scan (scan_paths scan ! j) = Some key"
      "planned env C m key (expectations_of snap) r' d" "ps_transients (fst s) ! j = pb_transient r'"
      "map_of (ps_planned (fst s)) (scan_paths scan ! j) = Some (manifest_entry_compact (gp_entry (pb_partition r')))"
      by (auto simp: plan_inv_def)
    have "Artifact key \<in> path_cells env scan (scan_paths scan ! j)" using o(3) by (simp add: path_cells_def)
    then have "Artifact key \<notin> path_cells env scan (scan_paths scan ! i)"
      using builds_disjoint [of i j] i j by (auto simp: disjoint_iff)
    from local_frame [OF local_build_at this, of d] run have "d1 (Artifact key) = d (Artifact key)" by simp
    note planned_frame [where d' = d1, OF o(4) this]
    moreover have "scan_paths scan ! j \<noteq> scan_paths scan ! i" using dist i j by (simp add: nth_eq_iff_index_eq)
    then have "map_of (ps_planned (fst s1)) (scan_paths scan ! j) = map_of (ps_planned (fst s)) (scan_paths scan ! j)"
      by (simp add: c(2) path)
    moreover have "ps_transients (fst s1) ! j = ps_transients (fst s) ! j" using j by (simp add: c(1) split: option.split)
    ultimately show ?thesis using o by metis
  qed
  have "ps_transients (fst s1) ! i = pb_transient r" using none [of i] i len by (simp add: c(1) split: option.split)
  moreover have "map_of (ps_planned (fst s1)) (scan_paths scan ! i) = Some (manifest_entry_compact (gp_entry (pb_partition r)))"
    by (simp add: c(2) path)
  ultimately have "\<forall>k < Suc i. \<exists>snap m key r. map_of (sn_supported scan) (scan_paths scan ! k) = Some snap
          \<and> path_material scan (scan_paths scan ! k) = Some m \<and> path_key env scan (scan_paths scan ! k) = Some key
          \<and> planned env C m key (expectations_of snap) r d1 \<and> ps_transients (fst s1) ! k = pb_transient r
          \<and> map_of (ps_planned (fst s1)) (scan_paths scan ! k) = Some (manifest_entry_compact (gp_entry (pb_partition r)))"
    using new old by (auto simp: less_Suc_eq)
  moreover have "ps_transients (fst s1) ! k = None" if "Suc i \<le> k" "k < length (scan_paths scan)" for k
    using none [of k] that by (simp add: c(1) split: option.split)
  moreover have "length (ps_transients (fst s1)) = length (scan_paths scan)" using len by (simp add: c(1) split: option.split)
  ultimately show ?thesis using cache by (simp add: plan_inv_def)
qed

lemma plan_planned:
  assumes "execution_plan env scan d (Inr s) d'" and "cache_from env M C d"
  shows "plan_inv env scan M C (length (scan_paths scan)) s d'"
proof -
  let ?n = "length (scan_paths scan)"
  let ?vis = "visit_at env scan (resolved_worker_count (sn_input scan) ?n)"
  have "sequential_plan env scan d = (Inr s, d')" using plan_sequential [OF assms(1)] by (metis prod.collapse sum.disc(2))
  then have "plan_loop (build_at env scan) ?vis [0..<?n] (plan_start ?n, 0) d = (Inr s, d')"
    by (simp add: sequential_plan_def Let_def)
  moreover have "plan_inv env scan M C 0 (plan_start ?n, 0) d" using assms(2) by (simp add: plan_inv_def plan_start_def)
  ultimately show ?thesis
    by (rule plan_loop_invariant [where I = "plan_inv env scan M C"]) (auto intro: plan_inv_step)
qed

lemma plan_reloads:
  assumes "plan_inv env scan M C (length (scan_paths scan)) s d" and "i < length (scan_paths scan)"
  shows "\<exists>m key p. \<exists>source \<in> C. path_material scan (scan_paths scan ! i) = Some m \<and> artifact_key (xe_artifacts env) m = Inr key
     \<and> sha256_hex (xe_scan env) source = km_content_hash m \<and> reference_partition env m key source = Inr p
     \<and> reload_partition env scan (fst s) d i (scan_paths scan ! i) = Inr p"
proof -
  let ?path = "scan_paths scan ! i"
  from assms obtain snap m key r where snap: "map_of (sn_supported scan) ?path = Some snap"
    and m: "path_material scan ?path = Some m" "path_key env scan ?path = Some key"
    and r: "planned env C m key (expectations_of snap) r d" "ps_transients (fst s) ! i = pb_transient r"
      "map_of (ps_planned (fst s)) ?path = Some (manifest_entry_compact (gp_entry (pb_partition r)))"
    by (auto simp: plan_inv_def)
  from r(1) obtain source where src: "source \<in> C" "sha256_hex (xe_scan env) source = km_content_hash m"
    "reference_partition env m key source = Inr (pb_partition r)" by (auto simp: planned_def)
  have key: "artifact_key (xe_artifacts env) m = Inr key" using m by (auto simp: path_key_def split: sum.splits)
  have "ss_path snap = ?path" using map_of_SomeD [OF snap] well by (auto simp: well_scanned_def list_all_iff scanned_def)
  then have "expectations_at snap ?path = expectations_of snap" by (simp add: expectations_at_def expectations_of_def)
  moreover have "me_artifact_key (manifest_entry_compact (gp_entry (pb_partition r))) = Some key"
    using reference_partition_stored(2) [OF src(3)] by (simp add: manifest_entry_compact_def)
  ultimately have "reload_partition env scan (fst s) d i ?path = Inr (pb_partition r)"
    using r snap by (auto simp: reload_partition_def load_planned_partition_def planned_def split: option.splits)
  with src key m(1) show ?thesis by blast
qed

end

lemma stage_partition_staging:
  "sp_staging (stage_partition env scan st i path p sp) = add_partition (xe_staging env) p (sp_staging sp)"
  by (simp add: stage_partition_def Let_def)

lemma stage_partitions_reloaded:
  assumes "\<And>i. i \<in> set is \<Longrightarrow> reload_partition env scan st d i (scan_paths scan ! i) = Inr (f i)"
  shows "\<exists>sp'. stage_partitions env scan st d is sp = Inr sp'
     \<and> sp_staging sp' = fold (add_partition (xe_staging env)) (map f is) (sp_staging sp)"
  using assms
proof (induction "is" arbitrary: sp)
  case (Cons i "is")
  let ?sp = "stage_partition env scan st i (scan_paths scan ! i) (f i) sp"
  from Cons.IH [of ?sp] Cons.prems show ?case by (simp add: stage_partition_staging)
qed simp

section \<open>A run on one file\<close>

definition sample_material :: key_material where
  "sample_material = material_for_request sample_request scanned_sample (Some rust_profile)"

definition sample_built :: graph_partition where
  "sample_built = set_artifact_key sample_key
     (projr (build_partition ascii_tables (\<lambda>_. []) (\<lambda>_. Inr []) (reference_request sample_material)
        (reference_snapshot sample_material) sample_tree))"

definition built_envelope :: envelope where
  "built_envelope = \<lparr>en_format_version = artifact_format_version, en_artifact_key = sample_key,
     en_partition_payload_sha256 = sample_key, en_partition = sample_built\<rparr>"

definition sample_exec_env :: exec_env where
  "sample_exec_env =
     \<lparr>xe_unicode = ascii_tables, xe_encode_relations = (\<lambda>_. []), xe_decode_relations = (\<lambda>_. Inr []),
      xe_digest = (\<lambda>_. Inr []), xe_scan = sample_scan_env,
      xe_artifacts =
        \<lparr>ae_sha256 = (\<lambda>_. replicate 32 (CHR ''k'')), ae_encode_material = (\<lambda>_. Inr []), ae_encode_partition = (\<lambda>_. Inr []),
         ae_encode_envelope = (\<lambda>e. if e = built_envelope then Inr ''E'' else Inl ''unsupported''),
         ae_decode_envelope = (\<lambda>bytes. if bytes = ''E'' then Inr built_envelope else Inl ''invalid'')\<rparr>,
      xe_parse = (\<lambda>_ _. Inr (sample_tree, [])), xe_slot_size = 64, xe_vec_size = 24,
      xe_staging = table_env [], xe_defer_disposal = False, xe_sequence = 0,
      xe_search = sample_env, xe_search_indexes = [], xe_write_database = (\<lambda>_ _ _. Inr 0)\<rparr>"

definition sample_snap :: source_snapshot where
  "sample_snap = respool scanned_sample
     (spooled_path (snapshot_root sample_request) ''src/lib.rs'' (ss_content_hash scanned_sample), length sample_source)"

lemma sample_exec_env_simps [simp]:
  "xe_unicode sample_exec_env = ascii_tables" "xe_encode_relations sample_exec_env = (\<lambda>_. [])"
  "xe_decode_relations sample_exec_env = (\<lambda>_. Inr [])" "xe_digest sample_exec_env = (\<lambda>_. Inr [])"
  "xe_scan sample_exec_env = sample_scan_env" "xe_parse sample_exec_env = (\<lambda>_ _. Inr (sample_tree, []))"
  by (simp_all add: sample_exec_env_def)

lemma sample_reads [simp]: "se_reads sample_scan_env p k = Inr sample_source"
  by (simp add: sample_scan_env_def)

lemma sample_snap_simps [simp]:
  "ss_path sample_snap = ''src/lib.rs''" "ss_language sample_snap = Some ''rust''"
  "ss_content_hash sample_snap = sha256_hex sample_scan_env sample_source" "ss_byte_len sample_snap = length sample_source"
  "ss_absolute_path sample_snap = spooled_path (snapshot_root sample_request) ''src/lib.rs'' (ss_content_hash scanned_sample)"
  by (simp_all add: sample_snap_def scanned_sample_def)

lemma sample_codec: "artifact_codec (xe_artifacts sample_exec_env)"
  by (simp add: artifact_codec_def sample_exec_env_def artifact_key_bytes_def)

lemma sample_artifact_key: "artifact_key (xe_artifacts sample_exec_env) m = Inr sample_key"
  by (simp add: artifact_key_def sample_exec_env_def json_result_def sample_key_def)

lemma rust_profile_found: "profile_for_language (profile_set_new ascii_tables []) ''rust'' = Some rust_profile"
  by code_simp

lemma sample_scanned:
  obtains scan d where
    "scan_sources ascii_tables (\<lambda>_. Inr []) sample_scan_env sample_request Map.empty = (Inr scan, d)"
    "sn_input scan = sample_request" "sn_supported scan = [(''src/lib.rs'', sample_snap)]"
    "d (Staged (ss_absolute_path sample_snap)) = Some sample_source" "d (Artifact sample_key) = None"
    "path_profile scan sample_snap = Some rust_profile"
proof -
  from sample_scan [of Map.empty] obtain scan d where
    scan: "scan_sources ascii_tables (\<lambda>_. Inr []) sample_scan_env sample_request Map.empty = (Inr scan, d)"
    and supported: "sn_supported scan = [(''src/lib.rs'', sample_snap)]" "sn_input scan = sample_request"
    and content: "d (Staged (ss_absolute_path sample_snap)) = Some sample_source"
    by (auto simp: sample_snap_def)
  have "path_profile scan sample_snap = Some rust_profile"
    using scan_sources_profiles [OF scan] supported rust_profile_found
    by (simp add: profiles_agree_def sample_request_def)
  moreover have "d (Artifact sample_key) = None" using scan_sources_artifacts [OF scan] by simp
  ultimately show ?thesis using that scan supported content by blast
qed

lemma sample_built_reference: "reference_partition sample_exec_env sample_material sample_key source = Inr sample_built"
proof -
  have rt: "rq_relation_types (reference_request sample_material) = []"
    by (simp add: reference_request_def sample_material_def material_for_request_def sample_request_def)
  have "spec (policy_covers (allows (request_allowlist (reference_request sample_material))))
     (build_partition ascii_tables (\<lambda>_. []) (\<lambda>_. Inr []) (reference_request sample_material) (reference_snapshot sample_material) sample_tree)
     (\<lambda>_. True)"
    by (rule spec_mono [OF build_partition_spec]) (simp_all add: rt)
  moreover have "policy_covers (allows (request_allowlist (reference_request sample_material)))"
    by (simp add: request_allowlist_def rt allows_default default_policy_covers)
  ultimately obtain p where "build_partition ascii_tables (\<lambda>_. []) (\<lambda>_. Inr []) (reference_request sample_material)
      (reference_snapshot sample_material) sample_tree = Inr p" using spec_ok by blast
  then show ?thesis
    by (simp add: reference_partition_def sample_built_def invalid_input_run_def sample_material_def material_for_request_def)
qed

lemma planned_build:
  assumes "sn_input scan = sample_request" "sn_supported scan = [(''src/lib.rs'', sample_snap)]"
    "path_profile scan sample_snap = Some rust_profile"
    "d (Staged (ss_absolute_path sample_snap)) = Some sample_source" "d (Artifact sample_key) = None"
  shows "\<exists>r. fst (build_at sample_exec_env scan 0 d) = Inr r"
proof -
  have m: "sample_material = material_for_request sample_request sample_snap (Some rust_profile)"
    by (simp add: sample_material_def material_for_request_def scanned_sample_def)
  have under: "path_under (snapshot_root sample_request) (ss_absolute_path sample_snap)"
    by (simp add: spooled_path_def final_path_def shard_of_def path_under_def starts_with_def)
  have "build_partition ascii_tables (\<lambda>_. []) (\<lambda>_. Inr []) sample_request sample_snap sample_tree =
      build_partition ascii_tables (\<lambda>_. []) (\<lambda>_. Inr []) (reference_request sample_material) (reference_snapshot sample_material) sample_tree"
    by (rule build_partition_reference [OF _ _ m, of "''rust''"]) (simp_all add: rust_profile_found sample_request_def)
  with sample_built_reference [of sample_source]
  have "try_op (invalid_input_run (build_partition ascii_tables (\<lambda>_. []) (\<lambda>_. Inr []) sample_request sample_snap sample_tree))
      (\<lambda>p. Inr (set_artifact_key sample_key p)) = Inr sample_built"
    by (simp add: reference_partition_def m material_for_request_def)
  moreover have "utf8_valid sample_source" by code_simp
  ultimately have parsed: "parsed_partition sample_exec_env sample_request sample_snap rust_profile sample_key d = Inr (sample_built, [])"
    using assms(4) by (auto simp: parsed_partition_def read_snapshotted_source_def parse_file_def try_op_Inr_iff)
  note stored = reference_partition_stored [OF sample_built_reference]
  have valid: "validate_artifact_key sample_key = Inr ()" by (rule artifact_key_valid [OF sample_codec sample_artifact_key])
  have "envelope_bytes (xe_artifacts sample_exec_env) sample_key sample_built = Inr ''E''"
    by (simp add: envelope_bytes_def partition_payload_sha256_def write_envelope_def sample_exec_env_def json_result_def
        built_envelope_def sample_key_def)
  then have "checked_envelope (xe_artifacts sample_exec_env) sample_key sample_built = Inr ''E''"
    using stored valid by (simp add: checked_envelope_def)
  then have publish: "\<exists>r. fst (publish_partition sample_exec_env snap sample_key sample_built [] d) = Inr r" for snap
    using assms(5) by (simp add: publish_partition_eq store_partition_def published_def Let_def)
  have "previous_entry_of sample_request path = None" for path by (simp add: previous_entry_of_def sample_request_def)
  then have "build_at sample_exec_env scan 0 d = rebuild_partition sample_exec_env sample_request sample_snap rust_profile sample_key d"
    using assms(1-3) build_path_planned [of scan "''src/lib.rs''" sample_snap rust_profile] sample_artifact_key
    by (simp add: build_at_def scan_paths_def build_partition_for_snapshot_def key_for_request_def)
  also have "\<dots> = publish_partition sample_exec_env sample_snap sample_key sample_built [] d"
    using under parsed by (simp add: rebuild_partition_def spool_snapshot_for_build_def)
  finally show ?thesis using publish by simp
qed

definition sample_planned :: source_scan where
  "sample_planned = projr (fst (scan_sources ascii_tables (\<lambda>_. Inr []) sample_scan_env sample_request Map.empty))"

definition sample_disk :: disk where
  "sample_disk = snd (scan_sources ascii_tables (\<lambda>_. Inr []) sample_scan_env sample_request Map.empty)"

lemma sample_planned_scan:
  "scan_sources ascii_tables (\<lambda>_. Inr []) sample_scan_env sample_request Map.empty = (Inr sample_planned, sample_disk)"
  "sn_input sample_planned = sample_request" "sn_supported sample_planned = [(''src/lib.rs'', sample_snap)]"
  "path_profile sample_planned sample_snap = Some rust_profile"
  "sample_disk (Staged (ss_absolute_path sample_snap)) = Some sample_source" "sample_disk (Artifact sample_key) = None"
  by (rule sample_scanned, simp add: sample_planned_def sample_disk_def)+

lemma planned_paths: "scan_paths sample_planned = [''src/lib.rs'']"
  by (simp add: scan_paths_def sample_planned_scan)

lemma sample_walks_outside: "walks_outside sample_exec_env sample_request"
  by (simp add: walks_outside_def sample_scan_env_def path_under_def starts_with_def snapshot_root_def sample_request_def)

lemma sample_path_material:
  "path_material sample_planned path = (if path = ''src/lib.rs'' then Some sample_material else None)"
  by (simp add: path_material_def sample_planned_scan sample_material_def material_for_request_def scanned_sample_def)

lemma sample_no_collisions: "no_collisions sample_exec_env sample_planned"
  by (simp add: no_collisions_def planned_paths)

lemma sample_unambiguous: "unambiguous sample_exec_env {sample_material} {sample_source}"
  by (simp add: unambiguous_def)

lemma sample_observes: "observes sample_exec_env {sample_source}"
  by (simp add: observes_def)

interpretation sample_run: incremental_run sample_exec_env sample_planned "{sample_material}" "{sample_source}"
proof
  show "well_scanned sample_planned"
    using scan_sources_well [of sample_exec_env "\<lambda>_. Inr []" sample_request Map.empty] sample_planned_scan(1) sample_walks_outside by simp
  show "profiles_agree (xe_unicode sample_exec_env) sample_planned"
    using scan_sources_profiles [OF sample_planned_scan(1)] by simp
qed (simp_all add: sample_no_collisions sample_codec sample_unambiguous sample_observes sample_path_material split: if_splits)

lemma sample_plan: "\<exists>st high d'. execution_plan sample_exec_env sample_planned sample_disk (Inr (st, high)) d'"
proof -
  from planned_build [OF sample_planned_scan(2-6)] obtain r d' where r: "build_at sample_exec_env sample_planned 0 sample_disk = (Inr r, d')"
    by (metis prod.collapse)
  obtain st high where "visit_at sample_exec_env sample_planned 1 0 r (plan_start 1, 0) = Inr (st, high)"
    by (simp add: visit_at_def visit_def consume_result_def Let_def)
  moreover have "[0..<1] = [0 :: nat]" by (simp add: upt_rec)
  ultimately have "plan_loop (build_at sample_exec_env sample_planned) (visit_at sample_exec_env sample_planned 1) [0..<1]
      (plan_start 1, 0) sample_disk = (Inr (st, high), d')" by (simp add: r)
  moreover have "\<not> 1 < resolved_worker_count (sn_input sample_planned) 1" by (simp add: resolved_worker_count_def)
  ultimately show ?thesis by (auto simp: execution_plan_def planned_paths Let_def)
qed

section \<open>Properties\<close>



text \<open>
  C3. A run on top of earlier runs computes what a run from scratch computes. Let the artifacts on the
  disk that can be loaded at all be those of earlier runs (broken files may be there), and let SHA-256 tell
  the key materials and the file contents that occur apart. Then after every successful
  plan the second pass reads back a partition for every file without an error, and that partition is the
  reference for the key material and for the content with the scanned hash: it depends neither on the
  cache, the previous manifest and the number of workers, nor on whether it was
  built, reused or kept in a private copy. The disk is again one that a later run can build on.
\<close>

theorem incremental_run_stages_reference:
  assumes "artifact_codec (xe_artifacts env)" and "unambiguous env M C" and "observes env C" and "cache_from env M C d0"
    and "scan_sources (xe_unicode env) (xe_digest env) (xe_scan env) request d0 = (Inr scan, d)"
    and "walks_outside env request" and "no_collisions env scan"
    and "\<forall>path m. path_material scan path = Some m \<longrightarrow> m \<in> M"
    and "execution_plan env scan d (Inr (st, high)) d'"
  shows "cache_from env M C d'
     \<and> (\<exists>parts. length parts = length (scan_paths scan)
          \<and> (\<forall>i < length parts. \<exists>m key. \<exists>source \<in> C. path_material scan (scan_paths scan ! i) = Some m
               \<and> artifact_key (xe_artifacts env) m = Inr key \<and> sha256_hex (xe_scan env) source = km_content_hash m
               \<and> reference_partition env m key source = Inr (parts ! i))
          \<and> (\<forall>sp. \<exists>sp'. stage_partitions env scan st d' [0..<length (scan_paths scan)] sp = Inr sp'
               \<and> sp_staging sp' = fold (add_partition (xe_staging env)) parts (sp_staging sp)))"
proof -
  let ?n = "length (scan_paths scan)"
  have run: "incremental_run env scan M C"
    using scan_sources_well [OF assms(5,6)] scan_sources_profiles [OF assms(5)] assms(1-3,7,8) by unfold_locales auto
  have inv: "plan_inv env scan M C ?n (st, high) d'"
    by (rule incremental_run.plan_planned [OF run assms(9) scan_sources_cache [OF assms(5,4,3)]])
  from incremental_run.plan_reloads [OF run inv] obtain f where
    f: "\<And>i. i < ?n \<Longrightarrow> \<exists>m key. \<exists>source \<in> C. path_material scan (scan_paths scan ! i) = Some m \<and> artifact_key (xe_artifacts env) m = Inr key
     \<and> sha256_hex (xe_scan env) source = km_content_hash m \<and> reference_partition env m key source = Inr (f i)
     \<and> reload_partition env scan st d' i (scan_paths scan ! i) = Inr (f i)"
    by simp metis
  have "\<exists>sp'. stage_partitions env scan st d' [0..<?n] sp = Inr sp'
     \<and> sp_staging sp' = fold (add_partition (xe_staging env)) (map f [0..<?n]) (sp_staging sp)" for sp
    by (rule stage_partitions_reloaded) (use f in fastforce)
  moreover have "cache_from env M C d'" using inv by (simp add: plan_inv_def)
  moreover have "\<forall>i < length (map f [0..<?n]). \<exists>m key. \<exists>source \<in> C. path_material scan (scan_paths scan ! i) = Some m
               \<and> artifact_key (xe_artifacts env) m = Inr key \<and> sha256_hex (xe_scan env) source = km_content_hash m
               \<and> reference_partition env m key source = Inr (map f [0..<?n] ! i)"
    using f by fastforce
  ultimately show ?thesis by (intro conjI exI [of _ "map f [0..<?n]"]) auto
qed

theorem incremental_run_stages_reference_witness:
  "\<exists>st high d' part. execution_plan sample_exec_env sample_planned sample_disk (Inr (st, high)) d'
     \<and> cache_from sample_exec_env {sample_material} {sample_source} d'
     \<and> (\<exists>key. reference_partition sample_exec_env sample_material key sample_source = Inr part)
     \<and> (\<forall>sp. \<exists>sp'. stage_partitions sample_exec_env sample_planned st d' [0] sp = Inr sp'
          \<and> sp_staging sp' = add_partition (xe_staging sample_exec_env) part (sp_staging sp))"
proof -
  from sample_plan obtain st high d' where plan: "execution_plan sample_exec_env sample_planned sample_disk (Inr (st, high)) d'" by blast
  have scan: "scan_sources (xe_unicode sample_exec_env) (xe_digest sample_exec_env) (xe_scan sample_exec_env) sample_request Map.empty
      = (Inr sample_planned, sample_disk)" by (simp add: sample_planned_scan)
  have materials: "\<forall>path m. path_material sample_planned path = Some m \<longrightarrow> m \<in> {sample_material}" by (simp add: sample_path_material)
  have n: "length (scan_paths sample_planned) = 1" by (simp add: planned_paths)
  have upt: "[0..<1] = [0 :: nat]" by (simp add: upt_rec)
  from incremental_run_stages_reference [OF sample_codec sample_unambiguous sample_observes cache_from_empty scan
      sample_walks_outside sample_no_collisions materials plan]
  obtain parts where cache: "cache_from sample_exec_env {sample_material} {sample_source} d'" and len: "length parts = 1"
    and refs: "\<forall>i < length parts. \<exists>m key. \<exists>source \<in> {sample_source}. path_material sample_planned (scan_paths sample_planned ! i) = Some m
               \<and> artifact_key (xe_artifacts sample_exec_env) m = Inr key \<and> sha256_hex (xe_scan sample_exec_env) source = km_content_hash m
               \<and> reference_partition sample_exec_env m key source = Inr (parts ! i)"
    and staged: "\<forall>sp. \<exists>sp'. stage_partitions sample_exec_env sample_planned st d' [0] sp = Inr sp'
          \<and> sp_staging sp' = fold (add_partition (xe_staging sample_exec_env)) parts (sp_staging sp)"
    unfolding n upt by blast
  from refs len have ref: "\<exists>key. reference_partition sample_exec_env sample_material key sample_source = Inr (parts ! 0)"
    by (auto simp: planned_paths sample_path_material)
  from len obtain part where "parts = [part]" by (auto simp: length_Suc_conv)
  with plan cache ref staged show ?thesis by (intro exI [of _ st] exI [of _ high] exI [of _ d'] exI [of _ part]) simp
qed

end
