(* ===== verification/Coordinator.thy ===== *)
theory Coordinator
  imports SyntaxTree "HOL-Library.AList"
begin

text \<open>
  The serving side of the repository coordinator (\<^verbatim>\<open>src/coordinator.rs\<close>): the dispatcher that admits
  one operation at a time, the registry of open connections, the handler of one connection, the
  worker that executes admitted jobs, and their interleaving. Every operation of the dispatcher and of
  the registry runs under its mutex, so it is one step; the handler runs between two such steps on
  its own connection. A condition variable only wakes a thread that looks at the state again, so a
  waiting thread is one whose operation returns \<open>Waiting\<close>.

  Instants and durations are milliseconds (\<open>nat\<close>). The frames on the socket, the execution of an
  operation and its preparation are arguments.
\<close>

section \<open>Deadlines and errors\<close>

record api_error =
  ae_code :: string
  ae_message :: string
  ae_details :: "json option"
  ae_retryable :: bool

definition api_error_new :: "string \<Rightarrow> string \<Rightarrow> api_error" where
  "api_error_new code message =
     \<lparr>ae_code = code, ae_message = message, ae_details = None, ae_retryable = False\<rparr>"

definition retryable :: "bool \<Rightarrow> api_error \<Rightarrow> api_error" where
  "retryable flag e = e\<lparr>ae_retryable := flag\<rparr>"

record execution_context =
  ec_deadline :: "nat option"

definition with_timeout :: "nat \<Rightarrow> nat \<Rightarrow> execution_context" where
  "with_timeout started timeout = \<lparr>ec_deadline = Some (started + timeout)\<rparr>"

definition expired_error :: api_error where
  "expired_error = api_error_new ''deadline_exceeded'' ''request execution deadline expired''"

definition remaining :: "nat \<Rightarrow> execution_context \<Rightarrow> api_error + nat option" where
  "remaining now context =
     (case ec_deadline context of
        Some deadline \<Rightarrow>
          let left = deadline - now in if left = 0 then Inl expired_error else Inr (Some left)
      | None \<Rightarrow> Inr None)"

definition expired :: "nat \<Rightarrow> execution_context \<Rightarrow> bool" where
  "expired now context \<longleftrightarrow> isl (remaining now context)"

definition max_deadline_millis :: nat where
  "max_deadline_millis = 900"

definition coordinator_execution_context :: "nat option \<Rightarrow> nat \<Rightarrow> api_error + execution_context" where
  "coordinator_execution_context timeout_ms accepted_at =
     (case timeout_ms of
        None \<Rightarrow> Inr \<lparr>ec_deadline = None\<rparr>
      | Some timeout_ms \<Rightarrow>
          if timeout_ms = 0
          then Inl (api_error_new ''invalid_coordinator_deadline''
                      ''coordinator timeout_ms must be greater than zero'')
          else Inr (with_timeout accepted_at (min timeout_ms max_deadline_millis)))"

section \<open>The dispatcher\<close>

record 'i execution_job =
  ej_operation_id :: string
  ej_invocation :: 'i
  ej_context :: execution_context
  ej_legacy_confirmation :: "bool option"
  ej_connection :: "64 word"

record 'i dispatcher =
  ds_job :: "'i execution_job option"
  ds_active :: bool
  ds_stopping :: bool
  ds_active_snapshot :: bool

definition dispatcher_default :: "'i dispatcher" where
  "dispatcher_default =
     \<lparr>ds_job = None, ds_active = False, ds_stopping = False, ds_active_snapshot = False\<rparr>"

definition try_acquire_maintenance :: "'i dispatcher \<Rightarrow> bool \<times> 'i dispatcher" where
  "try_acquire_maintenance d =
     (if ds_stopping d \<or> ds_active d \<or> ds_job d \<noteq> None then (False, d)
      else (True, d\<lparr>ds_active := True, ds_active_snapshot := True\<rparr>))"

definition try_submit :: "'i execution_job \<Rightarrow> 'i dispatcher \<Rightarrow> ('i execution_job + unit) \<times> 'i dispatcher" where
  "try_submit job d =
     (if ds_stopping d \<or> ds_active d \<or> ds_job d \<noteq> None then (Inl job, d)
      else (Inr (), d\<lparr>ds_active := True, ds_active_snapshot := True, ds_job := Some job\<rparr>))"

datatype 'i taken = Job "'i execution_job" | Closed | Waiting

definition take_job :: "'i dispatcher \<Rightarrow> 'i taken \<times> 'i dispatcher" where
  "take_job d =
     (case ds_job d of
        Some job \<Rightarrow> (Job job, d\<lparr>ds_job := None\<rparr>)
      | None \<Rightarrow> if ds_stopping d then (Closed, d) else (Waiting, d))"

definition finish_one :: "'i dispatcher \<Rightarrow> 'i dispatcher" where
  "finish_one d = d\<lparr>ds_active := False, ds_active_snapshot := False\<rparr>"

definition stop_admission :: "'i dispatcher \<Rightarrow> 'i dispatcher" where
  "stop_admission d = d\<lparr>ds_stopping := True\<rparr>"

definition dispatcher_active :: "'i dispatcher \<Rightarrow> bool" where
  "dispatcher_active d = ds_active_snapshot d"

section \<open>The registry of connections\<close>

definition coordinator_max_connections :: nat where
  "coordinator_max_connections = 32"

record 's registry =
  cr_next_id :: "64 word"
  cr_streams :: "(64 word \<times> 's) list"

definition registry_default :: "'s registry" where
  "registry_default = \<lparr>cr_next_id = 0, cr_streams = []\<rparr>"

definition register :: "string + 's \<Rightarrow> 's registry \<Rightarrow> (string + 64 word) \<times> 's registry" where
  "register cloned r =
     (let new_id = cr_next_id r;
          r = r\<lparr>cr_next_id := new_id + 1\<rparr>
      in if length (cr_streams r) \<ge> coordinator_max_connections
         then (Inl ''repository coordinator connection limit reached'', r)
         else case cloned of
                Inl e \<Rightarrow> (Inl e, r)
              | Inr stream \<Rightarrow> (Inr new_id, r\<lparr>cr_streams := AList.update new_id stream (cr_streams r)\<rparr>))"

definition drop_connection :: "64 word \<Rightarrow> 's registry \<Rightarrow> 's registry" where
  "drop_connection i r = r\<lparr>cr_streams := AList.delete i (cr_streams r)\<rparr>"

section \<open>One connection\<close>

datatype 'i command = Ping | Execute string 'i

record 'i coordinator_request =
  qr_version :: nat
  qr_token :: string
  qr_timeout_ms :: "nat option"
  qr_command :: "'i command"

record operation_response =
  or_operation :: string
  or_payload :: json
  or_diagnostics :: "string list"

datatype reply = Pong | Success operation_response | Failure api_error

definition coordinator_protocol_version :: nat where
  "coordinator_protocol_version = 1"

text \<open>
  What a handler does with its connection: it writes a reply and drops the connection, drops it
  without a reply (the stream cannot be cloned), or hands it to the dispatcher inside a job.
\<close>

datatype outcome = Reply reply | Dropped | Admitted

definition busy_error :: api_error where
  "busy_error = retryable True
     (api_error_new ''graph_busy'' ''repository graph executor is already handling another operation'')"

definition handle_execute ::
  "(string \<Rightarrow> 'i \<Rightarrow> api_error + 'i \<times> bool option) \<Rightarrow> bool \<Rightarrow> nat \<Rightarrow> nat \<Rightarrow> 64 word \<Rightarrow> nat option
     \<Rightarrow> string \<Rightarrow> 'i \<Rightarrow> 'i dispatcher \<Rightarrow> outcome \<times> 'i dispatcher" where
  "handle_execute prepare clone_ok accepted_at now connection timeout_ms operation_id invocation d =
     (if timeout_ms \<noteq> None \<and> operation_id \<notin> {''health'', ''search''}
      then (Reply (Failure (api_error_new ''invalid_coordinator_deadline''
              ''bounded coordinator execution is only supported for health and search'')), d)
      else case coordinator_execution_context timeout_ms accepted_at of
        Inl e \<Rightarrow> (Reply (Failure e), d)
      | Inr context \<Rightarrow>
     (case prepare operation_id invocation of
        Inl e \<Rightarrow> (Reply (Failure e), d)
      | Inr (invocation, legacy_confirmation) \<Rightarrow>
          if expired now context then (Reply (Failure expired_error), d)
          else if \<not> clone_ok then (Dropped, d)
          else case try_submit
                 \<lparr>ej_operation_id = operation_id, ej_invocation = invocation, ej_context = context,
                  ej_legacy_confirmation = legacy_confirmation, ej_connection = connection\<rparr> d of
                 (Inl job, d) \<Rightarrow> (Reply (Failure busy_error), d)
               | (Inr _, d) \<Rightarrow> (Admitted, d)))"

definition handle_connection_dispatch ::
  "(string \<Rightarrow> 'i \<Rightarrow> api_error + 'i \<times> bool option) \<Rightarrow> bool \<Rightarrow> string \<Rightarrow> nat \<Rightarrow> nat \<Rightarrow> 64 word
     \<Rightarrow> string + 'i coordinator_request \<Rightarrow> 'i dispatcher \<Rightarrow> outcome \<times> 'i dispatcher" where
  "handle_connection_dispatch prepare clone_ok token accepted_at now connection received d =
     (case received of
        Inl error \<Rightarrow>
          (Reply (Failure (retryable True (api_error_new ''coordinator_request_receive_failed'' error))), d)
      | Inr request \<Rightarrow>
          if qr_version request \<noteq> coordinator_protocol_version \<or> qr_token request \<noteq> token
          then (Reply (Failure (api_error_new ''coordinator_authentication_failed''
                  ''repository coordinator protocol or token is invalid'')), d)
          else case qr_command request of
                 Ping \<Rightarrow> (Reply Pong, d)
               | Execute operation_id invocation \<Rightarrow>
                   handle_execute prepare clone_ok accepted_at now connection (qr_timeout_ms request)
                     operation_id invocation d)"

section \<open>The execution worker\<close>

definition object_insert :: "string \<Rightarrow> json \<Rightarrow> json_object \<Rightarrow> json_object" where
  "object_insert k v m = AList.update k v m"

definition attach_coordinator_status :: "json \<Rightarrow> operation_response \<Rightarrow> operation_response" where
  "attach_coordinator_status status r =
     (if or_operation r \<noteq> ''health'' then r
      else case as_object (or_payload r) of
        None \<Rightarrow> r
      | Some payload \<Rightarrow>
     (case map_of payload ''structured'' of
        Some structured \<Rightarrow>
          (case as_object structured of
             None \<Rightarrow> r
           | Some m \<Rightarrow> r\<lparr>or_payload := JObject (object_insert ''structured''
                          (JObject (object_insert ''coordinator'' status m)) payload)\<rparr>)
      | None \<Rightarrow> r\<lparr>or_payload := JObject (object_insert ''coordinator'' status payload)\<rparr>))"

text \<open>
  What the worker answers to a job: \<open>started\<close> and \<open>finished\<close> are the instants at which it looks at the
  deadline, \<open>execute\<close> the operation, \<open>None\<close> when it panics.
\<close>

definition worker_reply ::
  "(string \<Rightarrow> 'i \<Rightarrow> execution_context \<Rightarrow> bool option \<Rightarrow> (api_error + operation_response) option) \<Rightarrow> json
     \<Rightarrow> nat \<Rightarrow> nat \<Rightarrow> 'i execution_job \<Rightarrow> reply option" where
  "worker_reply execute status started finished job =
     (if expired started (ej_context job) then None
      else case execute (ej_operation_id job) (ej_invocation job) (ej_context job) (ej_legacy_confirmation job) of
             None \<Rightarrow> None
           | Some (Inr response) \<Rightarrow>
               if \<not> expired finished (ej_context job)
               then Some (Success (attach_coordinator_status status response)) else None
           | Some (Inl error) \<Rightarrow>
               if expired finished (ej_context job) then None else Some (Failure error))"

section \<open>The interleaving\<close>

datatype 'i worker = Idle | Running "'i execution_job" | Exited

text \<open>
  The state of a serving owner: the dispatcher, the registry, the worker thread, the number of live
  maintenance permits, the connections whose handlers are at work, those whose responses are being
  written, and two logs, the jobs admitted and the jobs the worker has finished with its answers.
\<close>

record ('i, 's) coordinator_owner =
  ow_dispatcher :: "'i dispatcher"
  ow_registry :: "'s registry"
  ow_worker :: "'i worker"
  ow_permits :: nat
  ow_handlers :: "64 word list"
  ow_writers :: "64 word list"
  ow_admitted :: "'i execution_job list"
  ow_finished :: "('i execution_job \<times> reply option) list"

definition owner_start :: "('i, 's) coordinator_owner" where
  "owner_start =
     \<lparr>ow_dispatcher = dispatcher_default, ow_registry = registry_default, ow_worker = Idle, ow_permits = 0,
      ow_handlers = [], ow_writers = [], ow_admitted = [], ow_finished = []\<rparr>"

inductive owner_step ::
  "(string \<Rightarrow> 'i \<Rightarrow> api_error + 'i \<times> bool option)
     \<Rightarrow> (string \<Rightarrow> 'i \<Rightarrow> execution_context \<Rightarrow> bool option \<Rightarrow> (api_error + operation_response) option)
     \<Rightarrow> string \<Rightarrow> json \<Rightarrow> ('i, 's) coordinator_owner \<Rightarrow> ('i, 's) coordinator_owner \<Rightarrow> bool"
  for prepare execute token status where
  accept_connection:
    "register cloned (ow_registry s) = (Inr c, r) \<Longrightarrow>
     owner_step prepare execute token status s
       (s\<lparr>ow_registry := r, ow_handlers := c # ow_handlers s\<rparr>)"
| refuse_connection:
    "register cloned (ow_registry s) = (Inl e, r) \<Longrightarrow>
     owner_step prepare execute token status s (s\<lparr>ow_registry := r\<rparr>)"
| handler_answers:
    "c \<in> set (ow_handlers s) \<Longrightarrow>
     handle_connection_dispatch prepare clone_ok token accepted_at now c received (ow_dispatcher s) = (out, d) \<Longrightarrow>
     out \<noteq> Admitted \<Longrightarrow>
     owner_step prepare execute token status s
       (s\<lparr>ow_dispatcher := d, ow_handlers := remove1 c (ow_handlers s),
          ow_registry := drop_connection c (ow_registry s)\<rparr>)"
| handler_admits:
    "c \<in> set (ow_handlers s) \<Longrightarrow>
     handle_connection_dispatch prepare clone_ok token accepted_at now c received (ow_dispatcher s) = (Admitted, d) \<Longrightarrow>
     ds_job d = Some job \<Longrightarrow>
     owner_step prepare execute token status s
       (s\<lparr>ow_dispatcher := d, ow_handlers := remove1 c (ow_handlers s), ow_admitted := ow_admitted s @ [job]\<rparr>)"
| worker_takes:
    "ow_worker s = Idle \<Longrightarrow> take_job (ow_dispatcher s) = (Job job, d) \<Longrightarrow>
     owner_step prepare execute token status s (s\<lparr>ow_dispatcher := d, ow_worker := Running job\<rparr>)"
| worker_exits:
    "ow_worker s = Idle \<Longrightarrow> take_job (ow_dispatcher s) = (Closed, d) \<Longrightarrow>
     owner_step prepare execute token status s (s\<lparr>ow_dispatcher := d, ow_worker := Exited\<rparr>)"
| worker_replies:
    "ow_worker s = Running job \<Longrightarrow> worker_reply execute status started finished job = Some reply \<Longrightarrow>
     owner_step prepare execute token status s
       (s\<lparr>ow_dispatcher := finish_one (ow_dispatcher s), ow_worker := Idle,
          ow_writers := ej_connection job # ow_writers s, ow_finished := ow_finished s @ [(job, Some reply)]\<rparr>)"
| worker_drops:
    "ow_worker s = Running job \<Longrightarrow> worker_reply execute status started finished job = None \<Longrightarrow>
     owner_step prepare execute token status s
       (s\<lparr>ow_dispatcher := finish_one (ow_dispatcher s), ow_worker := Idle,
          ow_registry := drop_connection (ej_connection job) (ow_registry s),
          ow_finished := ow_finished s @ [(job, None)]\<rparr>)"
| response_written:
    "c \<in> set (ow_writers s) \<Longrightarrow>
     owner_step prepare execute token status s
       (s\<lparr>ow_writers := remove1 c (ow_writers s), ow_registry := drop_connection c (ow_registry s)\<rparr>)"
| maintenance_acquires:
    "try_acquire_maintenance (ow_dispatcher s) = (True, d) \<Longrightarrow>
     owner_step prepare execute token status s (s\<lparr>ow_dispatcher := d, ow_permits := Suc (ow_permits s)\<rparr>)"
| maintenance_releases:
    "0 < ow_permits s \<Longrightarrow>
     owner_step prepare execute token status s
       (s\<lparr>ow_dispatcher := finish_one (ow_dispatcher s), ow_permits := ow_permits s - 1\<rparr>)"
| owner_stops:
    "owner_step prepare execute token status s (s\<lparr>ow_dispatcher := stop_admission (ow_dispatcher s)\<rparr>)"

inductive serving ::
  "(string \<Rightarrow> 'i \<Rightarrow> api_error + 'i \<times> bool option)
     \<Rightarrow> (string \<Rightarrow> 'i \<Rightarrow> execution_context \<Rightarrow> bool option \<Rightarrow> (api_error + operation_response) option)
     \<Rightarrow> string \<Rightarrow> json \<Rightarrow> ('i, 's) coordinator_owner \<Rightarrow> bool"
  for prepare execute token status where
  starts: "serving prepare execute token status owner_start"
| steps: "serving prepare execute token status s \<Longrightarrow> owner_step prepare execute token status s s'
     \<Longrightarrow> serving prepare execute token status s'"

section \<open>The invariant of a serving owner\<close>

definition running :: "('i, 's) coordinator_owner \<Rightarrow> 'i execution_job list" where
  "running s = (case ow_worker s of Running job \<Rightarrow> [job] | _ \<Rightarrow> [])"

definition pending :: "('i, 's) coordinator_owner \<Rightarrow> 'i execution_job list" where
  "pending s = (case ds_job (ow_dispatcher s) of Some job \<Rightarrow> [job] | None \<Rightarrow> [])"

definition engaged :: "('i, 's) coordinator_owner \<Rightarrow> nat" where
  "engaged s = length (running s) + length (pending s) + ow_permits s"

definition slot_inv :: "('i, 's) coordinator_owner \<Rightarrow> bool" where
  "slot_inv s \<longleftrightarrow>
     engaged s = of_bool (ds_active (ow_dispatcher s))
     \<and> ds_active_snapshot (ow_dispatcher s) = ds_active (ow_dispatcher s)"

definition log_inv :: "('i, 's) coordinator_owner \<Rightarrow> bool" where
  "log_inv s \<longleftrightarrow>
     ow_admitted s = map fst (ow_finished s) @ running s @ pending s
     \<and> (ow_worker s = Exited \<longrightarrow> ds_stopping (ow_dispatcher s) \<and> pending s = [])"

definition connections_inv :: "('i, 's) coordinator_owner \<Rightarrow> bool" where
  "connections_inv s \<longleftrightarrow> length (cr_streams (ow_registry s)) \<le> coordinator_max_connections"

lemmas dispatcher_defs = try_acquire_maintenance_def try_submit_def take_job_def finish_one_def stop_admission_def
lemmas owner_view_defs = running_def pending_def engaged_def

lemma handler_dispatcher:
  assumes "handle_connection_dispatch prepare clone_ok token accepted_at now c received d = (out, d')"
  shows "out \<noteq> Admitted \<Longrightarrow> d' = d"
    and "out = Admitted \<Longrightarrow> \<exists>job. try_submit job d = (Inr (), d') \<and> ej_connection job = c"
  using assms
  by (auto simp: handle_connection_dispatch_def handle_execute_def try_submit_def Let_def
      split: sum.splits if_splits command.splits prod.splits)

lemma submitted:
  "try_submit job d = (Inr (), d') \<longleftrightarrow>
     \<not> ds_stopping d \<and> \<not> ds_active d \<and> ds_job d = None
     \<and> d' = d\<lparr>ds_active := True, ds_active_snapshot := True, ds_job := Some job\<rparr>"
  by (auto simp: try_submit_def)

lemma taken_job:
  "take_job d = (Job job, d') \<longleftrightarrow> ds_job d = Some job \<and> d' = d\<lparr>ds_job := None\<rparr>"
  "take_job d = (Closed, d') \<longleftrightarrow> ds_job d = None \<and> ds_stopping d \<and> d' = d"
  by (auto simp: take_job_def split: option.splits)

lemma acquired:
  "try_acquire_maintenance d = (True, d') \<longleftrightarrow>
     \<not> ds_stopping d \<and> \<not> ds_active d \<and> ds_job d = None
     \<and> d' = d\<lparr>ds_active := True, ds_active_snapshot := True\<rparr>"
  by (auto simp: try_acquire_maintenance_def)

lemma length_update_le: "length (AList.update k v kvs) \<le> Suc (length kvs)"
  by (induction kvs) auto

lemma register_connections:
  assumes "register cloned r = (res, r')"
    and "length (cr_streams r) \<le> coordinator_max_connections"
  shows "length (cr_streams r') \<le> coordinator_max_connections"
proof -
  have "length (AList.update (cr_next_id r) stream (cr_streams r)) \<le> coordinator_max_connections"
    if "length (cr_streams r) < coordinator_max_connections" for stream
    using le_trans [OF length_update_le Suc_leI [OF that]] .
  with assms show ?thesis by (auto simp: register_def Let_def split: if_splits sum.splits)
qed

lemma drop_connections: "length (cr_streams (drop_connection c r)) \<le> length (cr_streams r)"
  by (simp add: drop_connection_def length_delete_le)

lemma slot_inv_step:
  assumes "owner_step prepare execute token status s s'" and "slot_inv s"
  shows "slot_inv s'"
  using assms
proof cases
  case (handler_admits c clone_ok accepted_at now received d job)
  with handler_dispatcher(2) assms(2) show ?thesis
    by (fastforce simp: slot_inv_def owner_view_defs submitted)
qed (auto simp: slot_inv_def owner_view_defs taken_job acquired finish_one_def stop_admission_def
    dest: handler_dispatcher(1) split: worker.splits option.splits)

lemma log_inv_step:
  assumes "owner_step prepare execute token status s s'" and "log_inv s"
  shows "log_inv s'"
  using assms
proof cases
  case (handler_admits c clone_ok accepted_at now received d job)
  with handler_dispatcher(2) assms(2) show ?thesis
    by (fastforce simp: log_inv_def owner_view_defs submitted)
qed (auto simp: log_inv_def owner_view_defs taken_job acquired finish_one_def stop_admission_def
    dest: handler_dispatcher(1) split: worker.splits option.splits)

lemma connections_inv_step:
  assumes "owner_step prepare execute token status s s'" and "connections_inv s"
  shows "connections_inv s'"
  using assms
  by cases (auto simp: connections_inv_def intro: register_connections le_trans [OF drop_connections])

lemma serving_inv:
  "serving prepare execute token status s \<Longrightarrow> slot_inv s \<and> log_inv s \<and> connections_inv s"
proof (induction rule: serving.induct)
  case starts
  show ?case
    by (simp add: slot_inv_def log_inv_def connections_inv_def owner_view_defs owner_start_def
        dispatcher_default_def registry_default_def)
next
  case (steps s s')
  then show ?case by (blast intro: slot_inv_step log_inv_step connections_inv_step)
qed

lemma serving_run:
  "(owner_step prepare execute token status)\<^sup>*\<^sup>* s s' \<Longrightarrow> serving prepare execute token status s
     \<Longrightarrow> serving prepare execute token status s'"
  by (induction rule: rtranclp_induct) (auto intro: serving.steps)

section \<open>Shutting down\<close>

lemma idle_exits:
  assumes "ow_worker s = Idle" and "pending s = []" and "ds_stopping (ow_dispatcher s)"
  shows "owner_step prepare execute token status s (s\<lparr>ow_worker := Exited\<rparr>)"
  using owner_step.worker_exits [of s "ow_dispatcher s"] assms
  by (auto simp: taken_job pending_def split: option.splits)

text \<open>One step of the worker that finishes its job.\<close>

lemma running_finishes:
  assumes "ow_worker s = Running job"
  shows "\<exists>s' r. owner_step prepare execute token status s s' \<and> ow_worker s' = Idle
     \<and> pending s' = pending s \<and> ds_stopping (ow_dispatcher s') = ds_stopping (ow_dispatcher s)
     \<and> ow_admitted s' = ow_admitted s \<and> ow_finished s' = ow_finished s @ [(job, r)]"
proof (cases "worker_reply execute status 0 0 job")
  case None
  from owner_step.worker_drops [OF assms this] show ?thesis
    by (fastforce simp: pending_def finish_one_def)
next
  case (Some reply)
  from owner_step.worker_replies [OF assms this] show ?thesis
    by (fastforce simp: pending_def finish_one_def)
qed

lemma idle_takes:
  assumes "ow_worker s = Idle" and "pending s = [job]"
  shows "owner_step prepare execute token status s
     (s\<lparr>ow_dispatcher := (ow_dispatcher s)\<lparr>ds_job := None\<rparr>, ow_worker := Running job\<rparr>)"
  using owner_step.worker_takes [of s job] assms
  by (auto simp: taken_job pending_def split: option.splits)

lemma stopping_idle_drains:
  assumes "log_inv s" and "slot_inv s" and "ow_worker s = Idle" and "ds_stopping (ow_dispatcher s)"
  shows "\<exists>s'. (owner_step prepare execute token status)\<^sup>*\<^sup>* s s' \<and> ow_worker s' = Exited
     \<and> ow_admitted s' = ow_admitted s \<and> map fst (ow_finished s') = ow_admitted s"
proof (cases "pending s")
  case Nil
  with idle_exits [OF assms(3) Nil assms(4), of prepare execute token status] assms(1,3) show ?thesis
    by (intro exI [of _ "s\<lparr>ow_worker := Exited\<rparr>"]) (simp add: log_inv_def running_def)
next
  case (Cons job rest)
  then have p: "pending s = [job]" by (auto simp: pending_def split: option.splits)
  let ?t = "s\<lparr>ow_dispatcher := (ow_dispatcher s)\<lparr>ds_job := None\<rparr>, ow_worker := Running job\<rparr>"
  have 1: "owner_step prepare execute token status s ?t" by (rule idle_takes [OF assms(3) p])
  from running_finishes [of ?t job prepare execute token status] obtain u r
    where 2: "owner_step prepare execute token status ?t u" and w: "ow_worker u = Idle"
      and q: "pending u = []" and st: "ds_stopping (ow_dispatcher u)"
      and a: "ow_admitted u = ow_admitted s" and f: "ow_finished u = ow_finished s @ [(job, r)]"
    using assms(4) by (auto simp: pending_def)
  from idle_exits [OF w q st] have 3: "owner_step prepare execute token status u (u\<lparr>ow_worker := Exited\<rparr>)" .
  have "ow_admitted s = map fst (ow_finished s) @ [job]"
    using assms(1,3) p by (simp add: log_inv_def running_def)
  with 1 2 3 a f show ?thesis
    by (intro exI [of _ "u\<lparr>ow_worker := Exited\<rparr>"]) (auto intro: converse_rtranclp_into_rtranclp)
qed

lemma stopping_drains:
  assumes "log_inv s" and "slot_inv s" and "ds_stopping (ow_dispatcher s)"
  shows "\<exists>s'. (owner_step prepare execute token status)\<^sup>*\<^sup>* s s' \<and> ow_worker s' = Exited
     \<and> ow_admitted s' = ow_admitted s \<and> map fst (ow_finished s') = ow_admitted s"
proof (cases "ow_worker s")
  case Idle
  then show ?thesis by (rule stopping_idle_drains [OF assms(1,2) _ assms(3)])
next
  case (Running job)
  from running_finishes [OF this, of prepare execute token status] obtain t r
    where step: "owner_step prepare execute token status s t" and t: "ow_worker t = Idle"
      "ds_stopping (ow_dispatcher t)" "ow_admitted t = ow_admitted s"
    using assms(3) by auto
  have "log_inv t" "slot_inv t" using step assms(1,2) by (blast intro: log_inv_step slot_inv_step)+
  from stopping_idle_drains [OF this t(1,2), of prepare execute token status] step t(3) show ?thesis
    by (auto intro: converse_rtranclp_into_rtranclp)
next
  case Exited
  then show ?thesis using assms(1) by (intro exI [of _ s]) (simp add: log_inv_def running_def)
qed

section \<open>Properties\<close>

text \<open>A run in which a job is admitted, taken and answered while a second request is turned away.\<close>

definition sample_job :: "string execution_job" where
  "sample_job =
     \<lparr>ej_operation_id = ''search'', ej_invocation = ''q'', ej_context = \<lparr>ec_deadline = Some 900\<rparr>,
      ej_legacy_confirmation = None, ej_connection = 0\<rparr>"

definition sample_operation :: "string coordinator_request" where
  "sample_operation =
     \<lparr>qr_version = 1, qr_token = ''t'', qr_timeout_ms = Some 5000, qr_command = Execute ''search'' ''q''\<rparr>"

abbreviation sample_prepare :: "string \<Rightarrow> string \<Rightarrow> api_error + string \<times> bool option" where
  "sample_prepare \<equiv> (\<lambda>_ invocation. Inr (invocation, None))"

abbreviation sample_execute ::
  "string \<Rightarrow> string \<Rightarrow> execution_context \<Rightarrow> bool option \<Rightarrow> (api_error + operation_response) option" where
  "sample_execute \<equiv> (\<lambda>_ _ _ _. None)"

definition admitted_owner :: "(string, unit) coordinator_owner" where
  "admitted_owner =
     owner_start\<lparr>ow_dispatcher := \<lparr>ds_job = Some sample_job, ds_active = True, ds_stopping = False,
                                  ds_active_snapshot = True\<rparr>,
                 ow_registry := \<lparr>cr_next_id = 1, cr_streams = [(0, ())]\<rparr>, ow_admitted := [sample_job]\<rparr>"

lemma admitted_owner_serving: "serving sample_prepare sample_execute ''t'' JNull admitted_owner"
proof -
  let ?s = "(owner_start :: (string, unit) coordinator_owner)\<lparr>ow_registry := \<lparr>cr_next_id = 1, cr_streams = [(0, ())]\<rparr>,
    ow_handlers := [0]\<rparr>"
  have "owner_step sample_prepare sample_execute ''t'' JNull owner_start ?s"
    using owner_step.accept_connection [of "Inr ()" owner_start 0 "\<lparr>cr_next_id = 1, cr_streams = [(0, ())]\<rparr>"]
    by (simp add: register_def owner_start_def registry_default_def coordinator_max_connections_def)
  then have 1: "serving sample_prepare sample_execute ''t'' JNull ?s"
    by (rule serving.steps [OF serving.starts])
  have "owner_step sample_prepare sample_execute ''t'' JNull ?s admitted_owner"
    using owner_step.handler_admits [of 0 ?s sample_prepare True "''t''" 0 1 "Inr sample_operation"
        "ow_dispatcher admitted_owner" sample_job sample_execute JNull]
    by (simp add: admitted_owner_def owner_start_def dispatcher_default_def handle_connection_dispatch_def
        handle_execute_def sample_operation_def coordinator_protocol_version_def
        coordinator_execution_context_def with_timeout_def max_deadline_millis_def expired_def remaining_def
        try_submit_def sample_job_def)
  with 1 show ?thesis by (rule serving.steps)
qed

lemma stopped_owner_serving:
  "serving sample_prepare sample_execute ''t'' JNull
     (admitted_owner\<lparr>ow_dispatcher := stop_admission (ow_dispatcher admitted_owner)\<rparr>)"
  by (rule serving.steps [OF admitted_owner_serving owner_step.owner_stops])

text \<open>
  C19. Whatever the interleaving of handlers, worker, maintenance and shutdown, the owner does at most
  one thing with the graph at a time: of the pending job, the running job and the maintenance permits
  at most one exists, the flag that other threads read without the lock says exactly whether one
  does, and at most 32 connections are registered.
\<close>

theorem coordinator_exclusive:
  assumes "serving prepare execute token status s"
  shows "length (running s) + length (pending s) + ow_permits s \<le> 1
    \<and> (dispatcher_active (ow_dispatcher s) \<longleftrightarrow> length (running s) + length (pending s) + ow_permits s = 1)
    \<and> length (cr_streams (ow_registry s)) \<le> 32"
  using serving_inv [OF assms]
  by (auto simp: slot_inv_def engaged_def connections_inv_def coordinator_max_connections_def
      dispatcher_active_def)

theorem coordinator_exclusive_witness:
  "length (running admitted_owner) + length (pending admitted_owner) + ow_permits admitted_owner \<le> 1
   \<and> dispatcher_active (ow_dispatcher admitted_owner) \<and> length (pending admitted_owner) = 1"
  using coordinator_exclusive [OF admitted_owner_serving]
  by (simp add: pending_def dispatcher_active_def admitted_owner_def)

text \<open>
  C20. No admitted operation is lost or executed twice: at every moment the jobs admitted so far are, in
  the order of their admission, the finished ones, the running one and the pending one, also while
  the owner shuts down; when the worker has exited, all of them are finished.
\<close>

theorem coordinator_loses_no_job:
  assumes "serving prepare execute token status s"
  shows "ow_admitted s = map fst (ow_finished s) @ running s @ pending s
    \<and> (ow_worker s = Exited \<longrightarrow> map fst (ow_finished s) = ow_admitted s)"
  using serving_inv [OF assms] by (simp add: log_inv_def running_def)

theorem coordinator_loses_no_job_witness:
  "\<exists>s. serving sample_prepare sample_execute ''t'' JNull (s :: (string, unit) coordinator_owner) \<and> ow_worker s = Exited
     \<and> ow_admitted s = map fst (ow_finished s) @ running s @ pending s
     \<and> map fst (ow_finished s) = [sample_job]"
proof -
  let ?t = "admitted_owner\<lparr>ow_dispatcher := stop_admission (ow_dispatcher admitted_owner)\<rparr>"
  have "ds_stopping (ow_dispatcher ?t)" and a: "ow_admitted ?t = [sample_job]"
    by (simp_all add: stop_admission_def admitted_owner_def)
  with stopping_drains [of ?t sample_prepare sample_execute "''t''" JNull] serving_inv [OF stopped_owner_serving]
  obtain s where run: "(owner_step sample_prepare sample_execute ''t'' JNull)\<^sup>*\<^sup>* ?t s"
    and s: "ow_worker s = Exited" "ow_admitted s = ow_admitted ?t" by blast
  from serving_run [OF run stopped_owner_serving] have "serving sample_prepare sample_execute ''t'' JNull s" .
  moreover note coordinator_loses_no_job [OF this]
  ultimately show ?thesis using s a by metis
qed



end
