(* ===== verification/Catalog.thy ===== *)
theory Catalog
  imports StagingRun
begin

text \<open>
  The schema of the database (\<^verbatim>\<open>src/api/catalog_support.rs\<close>): the statements that create the tables, derived
  from the graph schema embedded in the program. The embedded JSON always parses, so that
  its entries are constants here; the relation types are those of \<open>Schema\<close>.
\<close>

section \<open>The embedded schema\<close>

definition schema_node_types :: "string list" where
  "schema_node_types =
     [''Repository'', ''SourceRoot'', ''File'', ''Module'', ''ImportDeclaration'',
      ''ExportDeclaration'', ''Symbol'', ''Scope'', ''Class'', ''Function'', ''Method'', ''Parameter'',
      ''ReturnType'', ''TypeAnnotation'', ''TypeAlias'', ''Variable'', ''Constant'',
      ''ClassAttribute'', ''InstanceAttribute'', ''Property'', ''Decorator'', ''CallExpression'',
      ''Assignment'', ''Reference'', ''Literal'', ''Expression'', ''ControlFlowBlock'',
      ''ExceptionFlow'', ''APIEndpoint'', ''Component'', ''Route'', ''Query'', ''SecretRef'',
      ''Dependency'', ''DocumentationSource'', ''DocumentationChunk'', ''SyntaxCapture'']"

text \<open>Name, fields and node types of the search indexes.\<close>

definition schema_search_indexes :: "(string \<times> string list \<times> string list) list" where
  "schema_search_indexes =
     [(''idx_code_symbols'', [''label'', ''qualified_name'', ''summary''],
       [''Symbol'', ''Class'', ''Function'', ''Method'', ''Variable'', ''Constant'']),
      (''idx_source_units'', [''label'', ''path'', ''summary''],
       [''Repository'', ''SourceRoot'', ''File'', ''Module'']),
      (''idx_dependencies'', [''label'', ''qualified_name'', ''summary''],
       [''ImportDeclaration'', ''Dependency'']),
      (''idx_runtime_surface'', [''label'', ''qualified_name'', ''summary''],
       [''APIEndpoint'', ''Component'', ''Route'', ''Query'', ''SecretRef'']),
      (''idx_docs'', [''label'', ''path'', ''summary''],
       [''DocumentationSource'', ''DocumentationChunk'']),
      (''idx_syntax_captures'', [''label'', ''tree_sitter_node_type'', ''text''],
       [''SyntaxCapture''])]"

section \<open>Tables\<close>

text \<open>\<open>collect::<BTreeSet<_>>()\<close>\<close>

definition string_set :: "string list \<Rightarrow> string list" where
  "string_set xs = sort (remdups xs)"

definition declared_relations :: "relation_spec list" where
  "declared_relations =
     sort_key rs_name (List.map_filter (\<lambda>r.
       let sources = string_set (rs_source_types r); targets = string_set (rs_target_types r) in
       if rs_name r = [] \<or> sources = [] \<or> targets = [] then None
       else Some \<lparr>rs_name = rs_name r, rs_source_types = sources, rs_target_types = targets\<rparr>) shipped_relation_types)"

definition declared_graph_schema :: "(string list \<times> relation_spec list) option" where
  "declared_graph_schema =
     Some (string_set (filter (\<lambda>name. name \<noteq> []) schema_node_types
             @ concat (map (\<lambda>r. rs_source_types r @ rs_target_types r) declared_relations)),
           declared_relations)"

text \<open>The part of a statement between its first two back quotes.\<close>

definition quoted_table :: "string \<Rightarrow> string option" where
  "quoted_table statement =
     Option.bind (split_once (CHR ''`'') statement) (\<lambda>(_, rest).
     Option.bind (split_once (CHR ''`'') rest) (\<lambda>(table, _). Some table))"

definition copy_tables :: "string list \<Rightarrow> string list" where
  "copy_tables statements = string_set (List.map_filter quoted_table statements)"

definition relation_names :: "string list \<Rightarrow> string list" where
  "relation_names tables = string_set (List.map_filter (strip_prefix ''FROM_'') tables @ List.map_filter (strip_prefix ''TO_'') tables)"

definition dynamic_graph_schema :: "string list \<Rightarrow> string list \<times> relation_spec list" where
  "dynamic_graph_schema tables =
     (let names = relation_names tables;
          node_tables = filter (\<lambda>t. \<not> starts_with ''FROM_'' t \<and> \<not> starts_with ''TO_'' t \<and> t \<notin> set names) tables
      in (node_tables, map (\<lambda>name. \<lparr>rs_name = name, rs_source_types = node_tables, rs_target_types = node_tables\<rparr>) names))"

section \<open>Statements\<close>

definition newline :: string where
  "newline = [CHR 0x0A]"

definition node_table_sql :: "string \<Rightarrow> (string \<times> string) list \<Rightarrow> string" where
  "node_table_sql table columns =
     ''CREATE NODE TABLE IF NOT EXISTS `'' @ table @ ''`('' @ newline
     @ join ('','' @ newline) (map (\<lambda>(name, value_type).
         ''  `'' @ name @ ''` '' @ value_type @ (if name = ''id'' then '' PRIMARY KEY'' else [])) columns)
     @ newline @ '')''"

definition relation_table_sql :: "string \<Rightarrow> string list \<Rightarrow> string list \<Rightarrow> string \<Rightarrow> string" where
  "relation_table_sql table from_tables to_tables role =
     ''CREATE REL TABLE IF NOT EXISTS `'' @ table @ ''`('' @ newline
     @ join ('','' @ newline)
         (concat (map (\<lambda>f. map (\<lambda>t. ''  FROM `'' @ f @ ''` TO `'' @ t @ ''`'') to_tables) from_tables)
          @ [''  `role` STRING DEFAULT '' @ [CHR 0x27] @ role @ [CHR 0x27]])
     @ newline @ '')''"

definition common_node_columns :: "(string \<times> string) list" where
  "common_node_columns =
     [(''id'', ''STRING''), (''label'', ''STRING''), (''kind'', ''STRING''), (''language'', ''STRING''),
      (''grammar_version'', ''STRING''), (''path'', ''STRING''), (''qualified_name'', ''STRING''), (''scope_id'', ''STRING''),
      (''line_start'', ''INT64''), (''line_end'', ''INT64''), (''byte_start'', ''INT64''), (''byte_end'', ''INT64''),
      (''tree_sitter_node_type'', ''STRING''), (''capture_name'', ''STRING''), (''summary'', ''STRING''), (''text'', ''STRING''),
      (''metadata'', ''JSON'')]"

definition node_columns :: "string \<Rightarrow> (string \<times> string) list" where
  "node_columns table = common_node_columns @ (if table = ''File'' then [(''content_hash'', ''STRING'')] else [])"

definition edge_columns :: "(string \<times> string) list" where
  "edge_columns =
     [(''id'', ''STRING''), (''kind'', ''STRING''), (''source_id'', ''STRING''), (''target_id'', ''STRING''),
      (''confidence'', ''DOUBLE''), (''field_name'', ''STRING''), (''child_index'', ''INT64''), (''line_start'', ''INT64''),
      (''line_end'', ''INT64''), (''metadata'', ''JSON'')]"

definition cypher_single_quoted :: "string \<Rightarrow> string" where
  "cypher_single_quoted s =
     concat (map (\<lambda>c. if c = CHR 0x5C then [CHR 0x5C, CHR 0x5C] else if c = CHR 0x27 then [CHR 0x5C, CHR 0x27] else [c]) s)"

definition fts_index_statements :: "string list \<Rightarrow> string list" where
  "fts_index_statements node_tables =
     concat (map (\<lambda>(name, columns, node_types).
       let quoted = (\<lambda>s. [CHR 0x27] @ s @ [CHR 0x27]);
           listed = join '', '' (map (\<lambda>c. quoted (cypher_single_quoted c)) columns)
       in map (\<lambda>t. ''CALL CREATE_FTS_INDEX('' @ quoted (cypher_single_quoted t) @ '', ''
                 @ quoted (cypher_single_quoted name @ ''_'' @ cypher_single_quoted t) @ '', ['' @ listed @ ''])'')
            (filter (\<lambda>t. t \<in> set node_tables) node_types)) schema_search_indexes)"

definition relation_statements :: "relation_spec \<Rightarrow> string list" where
  "relation_statements r =
     [relation_table_sql (''FROM_'' @ rs_name r) (rs_source_types r) [rs_name r] ''source'',
      relation_table_sql (''TO_'' @ rs_name r) [rs_name r] (rs_target_types r) ''target'']"

definition schema_statements_from_copy_statements :: "bool \<Rightarrow> string list \<Rightarrow> string list" where
  "schema_statements_from_copy_statements include_fts copy_statements =
     (let (node_tables, relations) = (case declared_graph_schema of
            Some schema \<Rightarrow> schema | None \<Rightarrow> dynamic_graph_schema (copy_tables copy_statements));
          node_tables = sort node_tables
      in [''INSTALL json'', ''LOAD json''] @ (if include_fts then [''INSTALL fts'', ''LOAD fts''] else [])
         @ map (\<lambda>t. node_table_sql t (node_columns t)) node_tables
         @ map (\<lambda>r. node_table_sql (rs_name r) edge_columns) relations
         @ concat (map relation_statements relations)
         @ (if include_fts then fts_index_statements node_tables else []))"

section \<open>The declared relations\<close>

lemma shipped_relations_ok:
  "distinct (map rs_name shipped_relation_types)"
  "list_all (\<lambda>r. rs_name r \<noteq> [] \<and> rs_source_types r \<noteq> [] \<and> rs_target_types r \<noteq> []) shipped_relation_types"
  by code_simp+

lemma string_set_simps [simp]: "set (string_set xs) = set xs" "string_set xs = [] \<longleftrightarrow> xs = []"
  by (auto simp: string_set_def) (metis remdups_eq_nil_iff set_empty set_sort)

lemma declared_relation:
  assumes "r \<in> set shipped_relation_types"
  shows "\<lparr>rs_name = rs_name r, rs_source_types = string_set (rs_source_types r), rs_target_types = string_set (rs_target_types r)\<rparr>
    \<in> set declared_relations"
proof -
  have "rs_name r \<noteq> [] \<and> rs_source_types r \<noteq> [] \<and> rs_target_types r \<noteq> []"
    using shipped_relations_ok(2) assms unfolding list_all_iff by blast
  then show ?thesis using assms by (force simp: declared_relations_def Let_def set_map_filter)
qed

lemma shipped_allows:
  assumes "r \<in> set shipped_relation_types" and "constraints_allow shipped_relation_types (rs_name r) source_type target_type"
  shows "source_type \<in> set (rs_source_types r)" "target_type \<in> set (rs_target_types r)"
proof -
  let ?pairs = "map (\<lambda>s. (rs_name s, (rs_source_types s, rs_target_types s)))
       (filter (\<lambda>s. rs_source_types s \<noteq> [] \<and> rs_target_types s \<noteq> []) shipped_relation_types)"
  have keep: "filter (\<lambda>s. rs_source_types s \<noteq> [] \<and> rs_target_types s \<noteq> []) shipped_relation_types = shipped_relation_types"
    by (rule filter_True) (use shipped_relations_ok(2) in \<open>unfold list_all_iff, blast\<close>)
  have "map fst (rev ?pairs) = rev (map rs_name shipped_relation_types)" unfolding keep by (simp add: rev_map comp_def)
  then have "distinct (map fst (rev ?pairs))" by (simp only: distinct_rev shipped_relations_ok(1))
  moreover have "(rs_name r, rs_source_types r, rs_target_types r) \<in> set (rev ?pairs)"
    unfolding keep set_rev set_map using assms(1) by blast
  ultimately have "map_of (rev ?pairs) (rs_name r) = Some (rs_source_types r, rs_target_types r)" by (rule map_of_is_SomeI)
  then have "map_of (pairs_by_relation shipped_relation_types) (rs_name r) = Some (rs_source_types r, rs_target_types r)"
    unfolding pairs_by_relation_def map_of_btree_of_list .
  with assms(2) show "source_type \<in> set (rs_source_types r)" "target_type \<in> set (rs_target_types r)"
    by (simp_all add: constraints_allow_def)
qed

lemma accepted_connector:
  assumes "c \<in> set (staged_connectors shipped_relation_types parts)" and "cr_relation c = rs_name r" "r \<in> set shipped_relation_types"
  shows "cr_side c = SourceSide \<and> cr_from_type c \<in> set (rs_source_types r) \<and> cr_to_type c = rs_name r \<and> cr_role c = ''source''
       \<or> cr_side c = TargetSide \<and> cr_from_type c = rs_name r \<and> cr_to_type c \<in> set (rs_target_types r) \<and> cr_role c = ''target''"
proof -
  from assms(1) obtain table ident row where e: "(table, ident, row) \<in> set (accepted_edges shipped_relation_types parts)"
    and c: "c \<in> set (edge_connectors (staged_types parts) (table, ident, row))"
    by (auto simp: staged_connectors_def)
  have table: "table = rs_name r" using c assms(2) by (auto simp: edge_connectors_def)
  with e have "constraints_allow shipped_relation_types (rs_name r) (the (map_of (staged_types parts) (es_source_id row)))
      (the (map_of (staged_types parts) (es_target_id row)))"
    by (simp add: accepted_edges_def edge_accepted_def)
  from shipped_allows [OF assms(3) this] c table show ?thesis by (auto simp: edge_connectors_def)
qed

text \<open>A relation table of the schema, and the tables it mentions.\<close>

lemma relation_statement_declared:
  assumes r: "r \<in> set declared_relations" and s: "sql \<in> set (relation_statements r)"
    and t: "t \<in> set (rs_source_types r) \<union> set (rs_target_types r) \<union> {rs_name r}"
  shows "\<exists>pre post columns. schema_statements_from_copy_statements include_fts copies = pre @ sql # post
     \<and> node_table_sql t columns \<in> set pre"
proof -
  obtain tables where schema: "declared_graph_schema = Some (tables, declared_relations)"
    and tables: "set tables = set (filter (\<lambda>name. name \<noteq> []) schema_node_types
             @ concat (map (\<lambda>r. rs_source_types r @ rs_target_types r) declared_relations))"
    by (simp add: declared_graph_schema_def)
  let ?create = "[''INSTALL json'', ''LOAD json''] @ (if include_fts then [''INSTALL fts'', ''LOAD fts''] else [])
         @ map (\<lambda>t. node_table_sql t (node_columns t)) (sort tables)
         @ map (\<lambda>r. node_table_sql (rs_name r) edge_columns) declared_relations"
  have "sql \<in> set (concat (map relation_statements declared_relations))" using r s by auto
  then obtain ys zs where "concat (map relation_statements declared_relations) = ys @ sql # zs" by (meson split_list)
  then have "schema_statements_from_copy_statements include_fts copies =
      (?create @ ys) @ sql # zs @ (if include_fts then fts_index_statements (sort tables) else [])"
    by (simp add: schema_statements_from_copy_statements_def schema Let_def)
  moreover have "\<exists>columns. node_table_sql t columns \<in> set (?create @ ys)"
  proof (cases "t = rs_name r")
    case True
    with r show ?thesis by auto
  next
    case False
    with t r have "t \<in> set tables" unfolding tables by auto
    then show ?thesis by auto
  qed
  ultimately show ?thesis by blast
qed

section \<open>The schema has a place for everything that is staged\<close>

text \<open>
  Every connector that the staging writer keeps, of a relation of the shipped ontology, belongs to a
  relation table that the schema creates, with the connector's pair of tables among its endpoints and its
  role as the default; and the schema creates both tables before it.
\<close>

lemma schema_covers_connectors:
  assumes "c \<in> set (staged_connectors shipped_relation_types parts)" and "cr_relation c \<in> rs_name ` set shipped_relation_types"
  shows "\<exists>from_tables to_tables.
     cr_from_type c \<in> set from_tables \<and> cr_to_type c \<in> set to_tables
     \<and> (\<forall>t \<in> {cr_from_type c, cr_to_type c}. \<exists>pre post columns.
          schema_statements_from_copy_statements include_fts copies =
            pre @ relation_table_sql (connector_table (connector_group_of c)) from_tables to_tables (cr_role c) # post
          \<and> node_table_sql t columns \<in> set pre)"
proof -
  from assms(2) obtain r where r: "r \<in> set shipped_relation_types" "cr_relation c = rs_name r" by auto
  define q where "q = \<lparr>rs_name = rs_name r, rs_source_types = string_set (rs_source_types r), rs_target_types = string_set (rs_target_types r)\<rparr>"
  have q: "q \<in> set declared_relations" unfolding q_def by (rule declared_relation [OF r(1)])
  have fields: "rs_name q = rs_name r" "set (rs_source_types q) = set (rs_source_types r)" "set (rs_target_types q) = set (rs_target_types r)"
    by (simp_all add: q_def)
  from accepted_connector [OF assms(1) r(2,1)] show ?thesis
  proof (elim disjE conjE)
    assume c: "cr_side c = SourceSide" "cr_from_type c \<in> set (rs_source_types r)" "cr_to_type c = rs_name r" "cr_role c = ''source''"
    have "relation_table_sql (connector_table (connector_group_of c)) (rs_source_types q) [rs_name q] (cr_role c) \<in> set (relation_statements q)"
      using c r(2) fields by (simp add: relation_statements_def connector_table_def connector_group_of_def)
    from relation_statement_declared [OF q this] c fields show ?thesis
      by (intro exI [of _ "rs_source_types q"] exI [of _ "[rs_name q]"]) auto
  next
    assume c: "cr_side c = TargetSide" "cr_from_type c = rs_name r" "cr_to_type c \<in> set (rs_target_types r)" "cr_role c = ''target''"
    have "relation_table_sql (connector_table (connector_group_of c)) [rs_name q] (rs_target_types q) (cr_role c) \<in> set (relation_statements q)"
      using c r(2) fields by (simp add: relation_statements_def connector_table_def connector_group_of_def)
    from relation_statement_declared [OF q this] c fields show ?thesis
      by (intro exI [of _ "[rs_name q]"] exI [of _ "rs_target_types q"]) auto
  qed
qed

end
