(* ===== verification/TextOps.thy ===== *)
theory TextOps
  imports Selection Bytes
begin

text \<open>
  Further string operations of the standard library that the parser and the database writer use:
  trimming one side, splitting at a string, and the lines of a text. Strings are their UTF-8 bytes,
  as everywhere in the development.
\<close>

section \<open>Trimming and splitting\<close>

definition trim_start :: "string \<Rightarrow> string" where
  "trim_start s = concat (dropWhile is_whitespace (chars s))"

definition trim_end :: "string \<Rightarrow> string" where
  "trim_end s = concat (rev (dropWhile is_whitespace (rev (chars s))))"

text \<open>\<open>str::split_once\<close> at the first occurrence of a string.\<close>

fun split_at_str :: "string \<Rightarrow> string \<Rightarrow> (string \<times> string) option" where
  "split_at_str p [] = (if p = [] then Some ([], []) else None)"
| "split_at_str p (c # cs) =
     (if starts_with p (c # cs) then Some ([], drop (length p) (c # cs))
      else map_option (\<lambda>(l, r). (c # l, r)) (split_at_str p cs))"

section \<open>Lines\<close>

definition newline_char :: char where
  "newline_char = CHR 0x0A"

text \<open>
  \<open>str::lines\<close>: the pieces that end in a line feed, without it and without a carriage return in
  front of it; what follows the last line feed is a line when it is not empty.
\<close>

definition strip_cr :: "string \<Rightarrow> string" where
  "strip_cr s = (case rev s of c # cs \<Rightarrow> if c = CHR 0x0D then rev cs else s | [] \<Rightarrow> s)"

function str_lines :: "string \<Rightarrow> string list" where
  "str_lines s =
     (if s = [] then []
      else case split_once newline_char s of
             None \<Rightarrow> [s]
           | Some (line, rest) \<Rightarrow> strip_cr line # str_lines rest)"
  by pat_completeness auto
termination
  by (relation "measure length") (auto dest: split_once_Some)

declare str_lines.simps [simp del]

section \<open>A visible character survives trimming\<close>

lemma chars_lead:
  assumes "b \<in> set s" and "\<not> is_continuation b"
  shows "\<exists>c \<in> set (chars s). \<exists>rest. c = b # rest"
  using assms
proof (induction s rule: chars.induct)
  case (2 a bs)
  show ?case
  proof (cases "b = a")
    case False
    then have "b \<in> set (dropWhile is_continuation bs)"
      using 2(2,3) set_takeWhileD [of b is_continuation bs] takeWhile_dropWhile_id [of is_continuation bs]
      by (metis Un_iff set_ConsD set_append)
    with 2 show ?thesis by simp
  qed simp
qed simp

lemma dropWhile_stays:
  assumes "x \<in> set xs" and "\<not> P x"
  shows "x \<in> set (dropWhile P xs)"
  using assms by (induction xs) auto

lemma trim_nonempty:
  assumes "c \<in> set (chars s)" and "\<not> is_whitespace c"
  shows "trim s \<noteq> []"
proof -
  have "c \<in> set (rev (dropWhile is_whitespace (rev (dropWhile is_whitespace (chars s)))))"
    using assms by (simp add: dropWhile_stays)
  moreover have "c \<noteq> []" using assms(1) by (rule chars_nonempty)
  ultimately show ?thesis unfolding trim_def concat_eq_Nil_conv by blast
qed

text \<open>A byte below 128 that begins no white space is enough.\<close>

lemma trim_visible:
  assumes "b \<in> set s" and "byte_of b < 128" and "\<forall>w \<in> set whitespace_chars. hd w \<noteq> b"
  shows "trim s \<noteq> []"
proof -
  have "\<not> is_continuation b" using assms(2) by (simp add: is_continuation_def)
  with chars_lead [OF assms(1)] obtain c rest where c: "c \<in> set (chars s)" "c = b # rest" by blast
  with assms(3) have "\<not> is_whitespace c" by (auto simp: is_whitespace_def)
  with c(1) show ?thesis by (rule trim_nonempty)
qed

end
