(* ===== verification/DatabaseWriter.thy ===== *)
theory DatabaseWriter
  imports StagingRun TextOps
begin

text \<open>
  The database writer (\<^verbatim>\<open>src/db_writer/write.rs\<close>, \<^verbatim>\<open>schema.rs\<close>, \<^verbatim>\<open>phase.rs\<close> and \<^verbatim>\<open>src/staging_writer/writer.rs\<close>): the
  order in which schema statements, COPY statements and primary-key indexes reach the database, once with
  one connection and once with a process for every phase.

  The database (the crate \<open>lbug\<close>) is the argument \<open>query\<close>: a statement changes the state and may fail.
  Seeding the extension cache, and the supervision of the processes, which decides
  only whether a phase fails and what its peak memory was, are arguments too.
\<close>

section \<open>Statements\<close>

definition eq_ignore_ascii_case :: "string \<Rightarrow> string \<Rightarrow> bool" where
  "eq_ignore_ascii_case a b \<longleftrightarrow> map ascii_lower a = map ascii_lower b"

text \<open>\<open>s.get(..p.len()).is_some_and(|prefix| prefix.eq_ignore_ascii_case(p))\<close> for an ASCII \<open>p\<close>.\<close>

definition starts_ignore_case :: "string \<Rightarrow> string \<Rightarrow> bool" where
  "starts_ignore_case p s \<longleftrightarrow> length p \<le> length s \<and> eq_ignore_ascii_case (take (length p) s) p"

definition is_post_copy_statement :: "string \<Rightarrow> bool" where
  "is_post_copy_statement statement \<longleftrightarrow> starts_ignore_case ''CALL CREATE_FTS_INDEX'' (trim_start statement)"

definition is_fts_statement :: "string \<Rightarrow> bool" where
  "is_fts_statement statement \<longleftrightarrow>
     (let s = trim_end (trim_end_char (CHR '';'') (trim statement))
      in eq_ignore_ascii_case s ''INSTALL fts'' \<or> eq_ignore_ascii_case s ''LOAD fts'' \<or> is_post_copy_statement s)"

text \<open>The statements before the COPY statements and those after them.\<close>

definition statement_phases :: "bool \<Rightarrow> string list \<Rightarrow> string list \<times> string list" where
  "statement_phases include_fts provided =
     (if provided = []
      then ([''INSTALL json'', ''LOAD json''] @ (if include_fts then [''INSTALL fts'', ''LOAD fts''] else []), [])
      else let kept = filter (\<lambda>s. include_fts \<or> \<not> is_fts_statement s) provided
           in (filter (\<lambda>s. \<not> is_post_copy_statement s) kept, filter is_post_copy_statement kept))"

definition copy_target :: "string \<Rightarrow> string" where
  "copy_target statement =
     (case Option.bind (strip_prefix ''COPY '' (trim_start statement)) (split_at_str '' FROM '') of
        Some (target, _) \<Rightarrow> target | None \<Rightarrow> ''unknown target'')"

definition node_table_name :: "string \<Rightarrow> string option" where
  "node_table_name statement =
     Option.bind (strip_prefix ''`'' (copy_target statement)) (\<lambda>s.
     Option.bind (strip_suffix ''`'' s) (\<lambda>table.
     if starts_with ''FROM_'' table \<or> starts_with ''TO_'' table then None
     else if list_all (\<lambda>b. ascii_alphanumeric b \<or> b = CHR ''_'') table then Some table else None))"

section \<open>Requests and phases\<close>

record write_request =
  wq_db_path :: string
  wq_max_num_threads :: u64
  wq_defer_hash_indexes :: bool
  wq_include_fts :: bool
  wq_schema_statements :: "string list"
  wq_copy_statements :: "string list"

datatype write_phase =
    SchemaPhase bool "string list"
  | CopyPhase nat nat string "string list"
  | IndexPhase string
  | PostCopyPhase string "string list"

definition unsupported_target :: "string \<Rightarrow> native_error" where
  "unsupported_target statement = InvalidInput (''node COPY statement has an unsupported target: '' @ copy_target statement)"

text \<open>\<open>position(|statement| node_table_name(statement).is_none())\<close>, or the number of statements.\<close>

definition connector_start :: "string list \<Rightarrow> nat" where
  "connector_start statements = length (takeWhile (\<lambda>s. node_table_name s \<noteq> None) statements)"

fun early_tables :: "string list \<Rightarrow> string list \<Rightarrow> string list \<Rightarrow> string list result" where
  "early_tables [] seen repeated = Inr repeated"
| "early_tables (s # ss) seen repeated =
     (case node_table_name s of
        None \<Rightarrow> Inl (unsupported_target s)
      | Some table \<Rightarrow>
          if table \<in> set seen then early_tables ss seen (insort_insert table repeated)
          else early_tables ss (insort_insert table seen) repeated)"

definition tables_requiring_early_index :: "string list \<Rightarrow> string list result" where
  "tables_requiring_early_index statements = early_tables statements [] []"

definition is_load_statement :: "string \<Rightarrow> bool" where
  "is_load_statement statement \<longleftrightarrow> starts_ignore_case ''LOAD '' (trim_start statement)"

section \<open>A process for every phase\<close>

text \<open>\<open>?\<close> on an operation that changes the state \<open>'w\<close>.\<close>

definition try_io :: "('w \<Rightarrow> ('e + 'a) \<times> 'w) \<Rightarrow> ('a \<Rightarrow> 'w \<Rightarrow> ('e + 'b) \<times> 'w) \<Rightarrow> 'w \<Rightarrow> ('e + 'b) \<times> 'w" where
  "try_io f g w = (case f w of (Inl e, w') \<Rightarrow> (Inl e, w') | (Inr x, w') \<Rightarrow> g x w')"

type_synonym 'w phase_runner = "write_phase \<Rightarrow> 'w \<Rightarrow> (native_error + u64) \<times> 'w"

text \<open>\<open>for \<dots> { high_water_bytes = high_water_bytes.max(execute(request, \<dots>)?); }\<close>\<close>

fun run_phases :: "'w phase_runner \<Rightarrow> write_phase list \<Rightarrow> u64 \<Rightarrow> 'w \<Rightarrow> (native_error + u64) \<times> 'w" where
  "run_phases execute [] high w = (Inr high, w)"
| "run_phases execute (p # ps) high w = try_io (execute p) (\<lambda>h. run_phases execute ps (max high h)) w"

text \<open>The loop over the COPY statements of node tables.\<close>

fun copy_nodes ::
  "'w phase_runner \<Rightarrow> write_request \<Rightarrow> string list \<Rightarrow> string list \<Rightarrow> (nat \<times> string) list
     \<Rightarrow> u64 \<times> string list \<times> string list \<Rightarrow> 'w \<Rightarrow> (native_error + u64 \<times> string list) \<times> 'w" where
  "copy_nodes execute request runtime_loads early [] (high, node_tables, indexed) w = (Inr (high, node_tables), w)"
| "copy_nodes execute request runtime_loads early ((index, statement) # rest) (high, node_tables, indexed) w =
     try_io (execute (CopyPhase index (length (wq_copy_statements request)) statement runtime_loads)) (\<lambda>h w.
       if wq_defer_hash_indexes request
       then (case node_table_name statement of
               None \<Rightarrow> (Inl (unsupported_target statement), w)
             | Some table \<Rightarrow>
                 if table \<in> set early
                 then if table \<in> set indexed
                      then copy_nodes execute request runtime_loads early rest (max high h, node_tables, indexed) w
                      else try_io (execute (IndexPhase table)) (\<lambda>h'.
                             copy_nodes execute request runtime_loads early rest
                               (max (max high h) h', node_tables, insort_insert table indexed)) w
                 else copy_nodes execute request runtime_loads early rest
                        (max high h, insort_insert table node_tables, indexed) w)
       else copy_nodes execute request runtime_loads early rest (max high h, node_tables, indexed) w) w"

definition prepare_candidate ::
  "(bool \<Rightarrow> 'w \<Rightarrow> (native_error + unit) \<times> 'w) \<Rightarrow> ('w \<Rightarrow> bool) \<Rightarrow> write_request \<Rightarrow> 'w \<Rightarrow> (native_error + unit) \<times> 'w" where
  "prepare_candidate preseed candidate_exists request =
     try_io (preseed (wq_include_fts request)) (\<lambda>_ w.
     if candidate_exists w then (Inl (InvalidInput (''candidate database path already exists: '' @ wq_db_path request)), w)
     else (Inr (), w))"

definition write_database_isolated_with ::
  "(bool \<Rightarrow> 'w \<Rightarrow> (native_error + unit) \<times> 'w) \<Rightarrow> ('w \<Rightarrow> bool) \<Rightarrow> 'w phase_runner \<Rightarrow> write_request
     \<Rightarrow> 'w \<Rightarrow> (native_error + u64) \<times> 'w" where
  "write_database_isolated_with preseed candidate_exists execute request =
     try_io (prepare_candidate preseed candidate_exists request) (\<lambda>_.
       let (pre_copy, post_copy) = statement_phases (wq_include_fts request) (wq_schema_statements request);
           runtime_loads = filter is_load_statement pre_copy;
           copies = wq_copy_statements request;
           start = (if wq_defer_hash_indexes request then connector_start copies else length copies)
       in try_io (execute (SchemaPhase (wq_defer_hash_indexes request) pre_copy)) (\<lambda>high w.
          case tables_requiring_early_index (take start copies) of
            Inl e \<Rightarrow> (Inl e, w)
          | Inr early \<Rightarrow>
              try_io (copy_nodes execute request runtime_loads early (enumerate 0 (take start copies)) (high, [], [])) (\<lambda>(high, node_tables).
              run_phases execute
                (map IndexPhase node_tables
                 @ map (\<lambda>(index, s). CopyPhase index (length copies) s []) (enumerate start (drop start copies))
                 @ map (\<lambda>s. PostCopyPhase s runtime_loads) post_copy) high) w))"

section \<open>One connection\<close>

type_synonym 'w connection = "string \<Rightarrow> 'w \<Rightarrow> (string + unit) \<times> 'w"

definition query_or :: "'w connection \<Rightarrow> (string \<Rightarrow> string) \<Rightarrow> string \<Rightarrow> 'w \<Rightarrow> (native_error + unit) \<times> 'w" where
  "query_or query describe statement w =
     (case query statement w of (Inl m, w') \<Rightarrow> (Inl (Database (describe m)), w') | (Inr _, w') \<Rightarrow> (Inr (), w'))"

definition run_schema_query :: "'w connection \<Rightarrow> string \<Rightarrow> 'w \<Rightarrow> (native_error + unit) \<times> 'w" where
  "run_schema_query query = query_or query (\<lambda>m. m)"

fun run_schema_queries :: "'w connection \<Rightarrow> string list \<Rightarrow> 'w \<Rightarrow> (native_error + unit) \<times> 'w" where
  "run_schema_queries query [] w = (Inr (), w)"
| "run_schema_queries query (s # ss) w = try_io (run_schema_query query s) (\<lambda>_. run_schema_queries query ss) w"

definition disable_hash_index :: "'w connection \<Rightarrow> bool \<Rightarrow> 'w \<Rightarrow> (native_error + unit) \<times> 'w" where
  "disable_hash_index query defer_hash_indexes =
     (if defer_hash_indexes
      then query_or query (\<lambda>m. ''failed to disable eager primary-key indexes for bulk load: '' @ m) ''CALL enable_default_hash_index=false''
      else (\<lambda>w. (Inr (), w)))"

definition hash_index_statement :: "string \<Rightarrow> string" where
  "hash_index_statement table = ''CREATE HASH INDEX `pk_'' @ table @ ''_id` IF NOT EXISTS FOR (node:`'' @ table @ ''`) ON (node.id)''"

definition checkpoint :: "'w connection \<Rightarrow> string \<Rightarrow> string \<Rightarrow> 'w \<Rightarrow> (native_error + unit) \<times> 'w" where
  "checkpoint query after note = query_or query (\<lambda>m. ''checkpoint after '' @ after @ '' failed: '' @ m @ note) ''CHECKPOINT''"

definition copy_label :: "nat \<Rightarrow> nat \<Rightarrow> string \<Rightarrow> string" where
  "copy_label index copies_total statement =
     ''COPY statement '' @ string_of_nat (index + 1) @ ''/'' @ string_of_nat copies_total @ '' ('' @ copy_target statement @ '')''"

text \<open>\<open>create_hash_index\<close> and the index phase.\<close>

definition create_hash_index :: "'w connection \<Rightarrow> string \<Rightarrow> string \<Rightarrow> 'w \<Rightarrow> (native_error + unit) \<times> 'w" where
  "create_hash_index query table note =
     try_io (query_or query (\<lambda>m. ''failed to build primary-key index for node table '' @ table @ '': '' @ m) (hash_index_statement table)) (\<lambda>_.
     checkpoint query (''primary-key index for '' @ table) note)"

definition execute_copy :: "'w connection \<Rightarrow> nat \<Rightarrow> nat \<Rightarrow> string \<Rightarrow> string \<Rightarrow> string \<Rightarrow> 'w \<Rightarrow> (native_error + unit) \<times> 'w" where
  "execute_copy query index copies_total statement failed note =
     try_io (query_or query (\<lambda>m. copy_label index copies_total statement @ '' failed: '' @ m @ failed) statement) (\<lambda>_.
     checkpoint query (copy_label index copies_total statement) note)"

text \<open>What the process of a phase does with its connection.\<close>

definition execute_phase :: "'w connection \<Rightarrow> write_phase \<Rightarrow> 'w \<Rightarrow> (native_error + unit) \<times> 'w" where
  "execute_phase query phase =
     (let note = ''; operation=explicit-CHECKPOINT'' in
      case phase of
        SchemaPhase defer_hash_indexes statements \<Rightarrow>
          try_io (disable_hash_index query defer_hash_indexes) (\<lambda>_.
          try_io (run_schema_queries query statements) (\<lambda>_.
          checkpoint query ''schema creation'' note))
      | CopyPhase index copies_total statement runtime_loads \<Rightarrow>
          try_io (run_schema_queries query runtime_loads) (\<lambda>_.
          execute_copy query index copies_total statement ''; operation=COPY-query'' note)
      | IndexPhase table \<Rightarrow> create_hash_index query table note
      | PostCopyPhase statement runtime_loads \<Rightarrow>
          try_io (run_schema_queries query runtime_loads) (\<lambda>_.
          try_io (run_schema_query query statement) (\<lambda>_.
          checkpoint query ''post-COPY schema creation'' note)))"

text \<open>The same steps on the connection of \<open>write_database_once\<close>; there is no memory to account.\<close>

definition execute_inline :: "'w connection \<Rightarrow> 'w phase_runner" where
  "execute_inline query phase =
     try_io (case phase of
        CopyPhase index copies_total statement _ \<Rightarrow> execute_copy query index copies_total statement [] []
      | IndexPhase table \<Rightarrow> create_hash_index query table []
      | SchemaPhase defer_hash_indexes statements \<Rightarrow>
          try_io (disable_hash_index query defer_hash_indexes) (\<lambda>_. run_schema_queries query statements)
      | PostCopyPhase statement _ \<Rightarrow> run_schema_query query statement) (\<lambda>_ w. (Inr 0, w))"

definition execute_deferred_index_copy :: "'w connection \<Rightarrow> write_request \<Rightarrow> 'w \<Rightarrow> (native_error + u64) \<times> 'w" where
  "execute_deferred_index_copy query request w =
     (let copies = wq_copy_statements request; start = connector_start copies in
      case tables_requiring_early_index (take start copies) of
        Inl e \<Rightarrow> (Inl e, w)
      | Inr early \<Rightarrow>
          try_io (copy_nodes (execute_inline query) request [] early (enumerate 0 (take start copies)) (0, [], [])) (\<lambda>(high, node_tables).
          run_phases (execute_inline query)
            (map IndexPhase node_tables
             @ map (\<lambda>(index, s). CopyPhase index (length copies) s []) (enumerate start (drop start copies))) high) w)"

definition write_database_once ::
  "(bool \<Rightarrow> 'w \<Rightarrow> (native_error + unit) \<times> 'w) \<Rightarrow> ('w \<Rightarrow> bool) \<Rightarrow> ('w \<Rightarrow> (native_error + unit) \<times> 'w)
     \<Rightarrow> 'w connection \<Rightarrow> write_request \<Rightarrow> 'w \<Rightarrow> (native_error + u64) \<times> 'w" where
  "write_database_once preseed candidate_exists connect query request =
     try_io (prepare_candidate preseed candidate_exists request) (\<lambda>_.
     try_io connect (\<lambda>_.
       let (pre_copy, post_copy) = statement_phases (wq_include_fts request) (wq_schema_statements request);
           copies = wq_copy_statements request
       in try_io (execute_inline query (SchemaPhase (wq_defer_hash_indexes request) pre_copy)) (\<lambda>_.
          try_io (if wq_defer_hash_indexes request then execute_deferred_index_copy query request
                  else run_phases (execute_inline query)
                         (map (\<lambda>(index, s). CopyPhase index (length copies) s []) (enumerate 0 copies)) 0) (\<lambda>high.
          run_phases (execute_inline query) (map (\<lambda>s. PostCopyPhase s []) post_copy) high))))"

definition write_database_with_metrics ::
  "(bool \<Rightarrow> 'w \<Rightarrow> (native_error + unit) \<times> 'w) \<Rightarrow> ('w \<Rightarrow> bool) \<Rightarrow> ('w \<Rightarrow> (native_error + unit) \<times> 'w)
     \<Rightarrow> 'w connection \<Rightarrow> 'w phase_runner option \<Rightarrow> write_request \<Rightarrow> 'w \<Rightarrow> (native_error + u64) \<times> 'w" where
  "write_database_with_metrics preseed candidate_exists connect query phase_worker request =
     (case phase_worker of
        Some execute \<Rightarrow> write_database_isolated_with preseed candidate_exists execute request
      | None \<Rightarrow> try_io (write_database_once preseed candidate_exists connect query request) (\<lambda>_ w. (Inr 0, w)))"

section \<open>The schedule\<close>

text \<open>
  The reference: the phases of a load with deferred indexes, as a list. A table with several COPY statements
  is indexed after the first of them, the other node tables are indexed before the first connector.
\<close>

definition statement_table :: "string \<Rightarrow> string" where
  "statement_table s = (case node_table_name s of Some table \<Rightarrow> table | None \<Rightarrow> [])"

fun node_schedule :: "nat \<Rightarrow> string list \<Rightarrow> string set \<Rightarrow> string set \<Rightarrow> (nat \<times> string) list \<Rightarrow> write_phase list" where
  "node_schedule n loads repeated seen [] = []"
| "node_schedule n loads repeated seen ((index, s) # rest) =
     CopyPhase index n s loads
     # (if statement_table s \<in> repeated - seen then [IndexPhase (statement_table s)] else [])
     @ node_schedule n loads repeated (insert (statement_table s) seen) rest"

definition repeated_tables :: "string list \<Rightarrow> string set" where
  "repeated_tables tables = {t. 2 \<le> count_list tables t}"

definition load_schedule :: "write_request \<Rightarrow> write_phase list" where
  "load_schedule request =
     (let (pre_copy, post_copy) = statement_phases (wq_include_fts request) (wq_schema_statements request);
          loads = filter is_load_statement pre_copy;
          copies = wq_copy_statements request;
          n = length copies;
          start = connector_start copies;
          tables = map statement_table (take start copies)
      in SchemaPhase True pre_copy
         # node_schedule n loads (repeated_tables tables) {} (enumerate 0 (take start copies))
         @ map IndexPhase (sorted_list_of_set (set tables - repeated_tables tables))
         @ map (\<lambda>(index, s). CopyPhase index n s []) (enumerate start (drop start copies))
         @ map (\<lambda>s. PostCopyPhase s loads) post_copy)"

lemma try_io_assoc: "try_io (try_io f g) h = try_io f (\<lambda>x. try_io (g x) h)"
  by (auto simp: try_io_def fun_eq_iff split: prod.split sum.split)

lemma try_io_return [simp]: "try_io (\<lambda>w. (Inr x, w)) g = g x"
  by (simp add: try_io_def fun_eq_iff)

lemma run_phases_append:
  "run_phases execute (ps @ qs) high w = try_io (run_phases execute ps high) (run_phases execute qs) w"
proof (induction ps arbitrary: high w)
  case (Cons p ps)
  then show ?case by (simp add: try_io_def split: prod.split sum.split)
qed (simp add: try_io_def)

lemma count_list_pos: "0 < count_list xs x \<longleftrightarrow> x \<in> set xs"
  by (induction xs) auto

lemma repeated_mem: "2 \<le> count_list xs x \<Longrightarrow> x \<in> set xs"
  using count_list_pos [of xs x] by (simp add: order.strict_trans2)

lemma early_tables_spec:
  assumes "list_all (\<lambda>s. node_table_name s \<noteq> None) ss"
  shows "\<exists>early. early_tables ss seen repeated = Inr early \<and>
    set early = set repeated \<union> {t. t \<in> set (map statement_table ss) \<and> (t \<in> set seen \<or> 2 \<le> count_list (map statement_table ss) t)}"
  using assms
proof (induction ss arbitrary: seen repeated)
  case (Cons s ss)
  then obtain table where t: "node_table_name s = Some table" "statement_table s = table" by (auto simp: statement_table_def)
  show ?case
  proof (cases "table \<in> set seen")
    case True
    with Cons.IH [of seen "insort_insert table repeated"] Cons.prems t show ?thesis
      by (auto simp: set_insort_insert)
  next
    case False
    let ?T = "map statement_table ss"
    have "t \<in> set ?T \<and> (t \<in> insert table (set seen) \<or> 2 \<le> count_list ?T t)
      \<longleftrightarrow> t \<in> set (table # ?T) \<and> (t \<in> set seen \<or> 2 \<le> count_list (table # ?T) t)" for t
      using False count_list_pos [of ?T table] by (cases "t = table") (simp_all add: Suc_le_eq)
    moreover from Cons.IH [of "insort_insert table seen" repeated] Cons.prems obtain early where
      "early_tables ss (insort_insert table seen) repeated = Inr early"
      "set early = set repeated \<union> {t. t \<in> set ?T \<and> (t \<in> insert table (set seen) \<or> 2 \<le> count_list ?T t)}"
      by (auto simp: set_insort_insert)
    ultimately show ?thesis using False t by simp
  qed
qed simp

lemma copy_nodes_schedule:
  assumes "wq_defer_hash_indexes request" and "list_all (\<lambda>(index, s). node_table_name s \<noteq> None) stmts"
    and "set indexed = set early \<inter> seen"
  shows "copy_nodes execute request loads early stmts (high, node_tables, indexed) =
    try_io (run_phases execute (node_schedule (length (wq_copy_statements request)) loads (set early) seen stmts) high)
      (\<lambda>high w. (Inr (high, fold insort_insert (filter (\<lambda>t. t \<notin> set early) (map (statement_table \<circ> snd) stmts)) node_tables), w))"
  using assms(2,3)
proof (induction stmts arbitrary: high node_tables indexed seen)
  case (Cons x stmts)
  obtain index s where x: "x = (index, s)" by fastforce
  with Cons.prems obtain table where t: "node_table_name s = Some table" "statement_table s = table" by (auto simp: statement_table_def)
  note IH = Cons.IH [of _ "insert table seen"]
  show ?case
    using Cons.prems t assms(1) x
    by (auto simp: fun_eq_iff IH insert_absorb try_io_def set_insort_insert split: prod.split sum.split)
qed (simp add: fun_eq_iff try_io_def)

lemma fold_insort_insert:
  "sorted xs \<Longrightarrow> distinct xs \<Longrightarrow> fold insort_insert ys xs = sorted_list_of_set (set xs \<union> set ys)"
proof (induction ys arbitrary: xs)
  case Nil
  then show ?case by (simp add: sorted_list_of_set.idem_if_sorted_distinct)
next
  case (Cons y ys)
  then show ?case by (simp add: sorted_insort_insert distinct_insort_insert set_insort_insert Un_commute insert_commute)
qed

lemma take_connector_start: "list_all (\<lambda>s. node_table_name s \<noteq> None) (take (connector_start copies) copies)"
proof -
  have "take (connector_start copies) copies = takeWhile (\<lambda>s. node_table_name s \<noteq> None) copies"
    by (simp add: connector_start_def takeWhile_eq_take [symmetric])
  then show ?thesis by (auto simp: list_all_iff dest: set_takeWhileD)
qed

lemma set_enumerateD: "(i, x) \<in> set (enumerate n xs) \<Longrightarrow> x \<in> set xs"
  by (metis enumerate_eq_zip in_set_zipE)

lemma deferred_nodes:
  assumes "wq_defer_hash_indexes request"
    and nodes: "nodes = take (connector_start (wq_copy_statements request)) (wq_copy_statements request)"
    and tables: "tables = map statement_table nodes"
  shows "\<exists>early. tables_requiring_early_index nodes = Inr early
     \<and> (\<forall>loads high. copy_nodes execute request loads early (enumerate 0 nodes) (high, [], []) =
       try_io (run_phases execute (node_schedule (length (wq_copy_statements request)) loads (repeated_tables tables) {} (enumerate 0 nodes)) high)
         (\<lambda>high w. (Inr (high, sorted_list_of_set (set tables - repeated_tables tables)), w)))"
proof -
  have named: "list_all (\<lambda>s. node_table_name s \<noteq> None) nodes" unfolding nodes by (rule take_connector_start)
  from early_tables_spec [OF this, of "[]" "[]"] obtain early where
    early: "tables_requiring_early_index nodes = Inr early" and set: "set early = {t. t \<in> set tables \<and> 2 \<le> count_list tables t}"
    by (auto simp: tables_requiring_early_index_def tables)
  have rep: "set early = repeated_tables tables"
    unfolding set repeated_tables_def by (intro Collect_cong iffI conjI repeated_mem; simp)
  have "map (statement_table \<circ> snd) (enumerate 0 nodes) = tables" by (simp add: tables flip: map_map)
  then have late: "fold insort_insert (filter (\<lambda>t. t \<notin> set early) (map (statement_table \<circ> snd) (enumerate 0 nodes))) [] =
      sorted_list_of_set (set tables - repeated_tables tables)"
    using fold_insort_insert [of "[]" "filter (\<lambda>t. t \<notin> set early) tables"] by (simp add: rep set_diff_eq)
  have "list_all (\<lambda>(index, s). node_table_name s \<noteq> None) (enumerate 0 nodes)"
    using named by (auto simp: list_all_iff dest!: set_enumerateD)
  note run = copy_nodes_schedule [OF assms(1) this, of "[]" early "{}" execute _ _ "[]", unfolded late, unfolded rep]
  show ?thesis by (intro exI [of _ early] conjI allI early run) simp
qed

lemma isolated_runs_schedule:
  assumes "wq_defer_hash_indexes request"
  shows "write_database_isolated_with preseed candidate_exists execute request =
    try_io (prepare_candidate preseed candidate_exists request) (\<lambda>_. run_phases execute (load_schedule request) 0)"
proof -
  obtain pre post where ph: "statement_phases (wq_include_fts request) (wq_schema_statements request) = (pre, post)" by fastforce
  from deferred_nodes [OF assms refl refl, of execute] show ?thesis
    using assms
    by (auto simp: write_database_isolated_with_def ph Let_def fun_eq_iff load_schedule_def run_phases_append try_io_assoc try_io_def
        split: prod.split sum.split)
qed

section \<open>The statements of a staging run\<close>

lemma split_at_first: "p \<noteq> [] \<Longrightarrow> hd p \<notin> set a \<Longrightarrow> split_at_str p (a @ p @ b) = Some (a, b)"
proof (induction a)
  case Nil
  then show ?case by (cases p) (simp_all add: starts_with_def)
next
  case (Cons c a)
  then have "\<not> starts_with p (c # a @ p @ b)" by (cases p) (auto simp: starts_with_def)
  with Cons show ?case by simp
qed

lemma trim_start_copy: "trim_start (CHR ''C'' # CHR ''O'' # s) = CHR ''C'' # CHR ''O'' # s"
proof -
  have "chars (CHR ''C'' # CHR ''O'' # s) = [CHR ''C''] # chars (CHR ''O'' # s)"
    by (simp add: is_continuation_def)
  moreover have "\<not> is_whitespace [CHR ''C'']" by (simp add: is_whitespace_def whitespace_chars_def)
  ultimately show ?thesis by (simp add: trim_start_def)
qed

lemma copy_target_quoted:
  assumes "list_all (\<lambda>b. ascii_alphanumeric b \<or> b = CHR ''_'') table"
  shows "copy_target (''COPY `'' @ table @ ''` FROM '' @ rest) = ''`'' @ table @ ''`''"
proof -
  have "CHR '' '' \<notin> set (''`'' @ table @ ''`'')"
    using assms by (auto simp: list_all_iff ascii_alphanumeric_def ascii_upper_letter_def ascii_lower_letter_def ascii_digit_def)
  then have "split_at_str '' FROM '' ((''`'' @ table @ ''`'') @ '' FROM '' @ rest) = Some (''`'' @ table @ ''`'', rest)"
    by (intro split_at_first) simp_all
  then show ?thesis by (simp add: copy_target_def trim_start_copy strip_prefix_def starts_with_def)
qed

lemma strip_backquotes: "Option.bind (strip_prefix ''`'' (''`'' @ table @ ''`'')) (\<lambda>s. strip_suffix ''`'' s) = Some table"
  by (simp add: strip_prefix_def strip_suffix_def starts_with_def)

lemma plain_no_prefix:
  assumes "plain_name table"
  shows "\<not> starts_with ''FROM_'' table" "\<not> starts_with ''TO_'' table"
proof -
  have "CHR ''_'' \<notin> set table" using assms not_alnum(2) by (auto simp: plain_name_def list_all_iff)
  moreover have "set (take n table) \<subseteq> set table" for n by (rule set_take_subset)
  ultimately show "\<not> starts_with ''FROM_'' table" "\<not> starts_with ''TO_'' table"
    unfolding starts_with_def by (metis in_set_conv_decomp list.set_intros(1) subsetD append_Cons append_Nil)+
qed

lemma node_statement:
  assumes "plain_name table"
  shows "node_table_name (json_copy_statement table path) = Some table"
proof -
  have ok: "list_all (\<lambda>b. ascii_alphanumeric b \<or> b = CHR ''_'') table" using assms by (auto simp: plain_name_def list_all_iff)
  from copy_target_quoted [OF ok] have "copy_target (json_copy_statement table path) = ''`'' @ table @ ''`''"
    by (simp add: json_copy_statement_def)
  then show ?thesis
    using ok plain_no_prefix [OF assms] by (simp add: node_table_name_def strip_prefix_def strip_suffix_def starts_with_def [of "''`''"])
qed

lemma connector_statement:
  assumes "plain_name (fst grp)"
  shows "node_table_name (connector_copy_statement grp path) = None"
proof -
  obtain relation side from_type to_type where grp: "grp = (relation, side, from_type, to_type)" by (cases grp) auto
  have ok: "list_all (\<lambda>b. ascii_alphanumeric b \<or> b = CHR ''_'') (connector_table grp)"
    using assms
    by (cases side) (auto simp: grp connector_table_def plain_name_def list_all_iff ascii_alphanumeric_def ascii_upper_letter_def)
  have "starts_with ''FROM_'' (connector_table grp) \<or> starts_with ''TO_'' (connector_table grp)"
    by (cases side) (simp_all add: grp connector_table_def starts_with_def)
  moreover have "copy_target (connector_copy_statement grp path) = ''`'' @ connector_table grp @ ''`''"
    using copy_target_quoted [OF ok] by (simp add: connector_copy_statement_def grp)
  ultimately show ?thesis by (auto simp: node_table_name_def strip_prefix_def strip_suffix_def starts_with_def [of "''`''"])
qed

section \<open>The order of a load\<close>

text \<open>
  \<open>load_ordered copied indexed ps\<close>: when the tables in \<open>copied\<close> have rows and those in \<open>indexed\<close> a primary-key
  index, the phases \<open>ps\<close> never load further rows into a table with rows and no index, load connectors
  only when every table with rows is indexed, and index a table once, after its first rows.
\<close>

fun load_ordered :: "string set \<Rightarrow> string set \<Rightarrow> write_phase list \<Rightarrow> bool" where
  "load_ordered copied indexed [] \<longleftrightarrow> copied \<subseteq> indexed"
| "load_ordered copied indexed (CopyPhase i n s loads # ps) \<longleftrightarrow>
     (case node_table_name s of
        Some t \<Rightarrow> (t \<in> copied \<longrightarrow> t \<in> indexed) \<and> load_ordered (insert t copied) indexed ps
      | None \<Rightarrow> copied \<subseteq> indexed \<and> load_ordered copied indexed ps)"
| "load_ordered copied indexed (IndexPhase t # ps) \<longleftrightarrow> t \<in> copied - indexed \<and> load_ordered copied (insert t indexed) ps"
| "load_ordered copied indexed (SchemaPhase d ss # ps) \<longleftrightarrow> copied = {} \<and> load_ordered copied indexed ps"
| "load_ordered copied indexed (PostCopyPhase s loads # ps) \<longleftrightarrow> copied \<subseteq> indexed \<and> load_ordered copied indexed ps"

lemma ordered_nodes:
  assumes "list_all (\<lambda>(index, s). node_table_name s \<noteq> None) stmts"
    and "\<forall>t. 2 \<le> count_list (map (statement_table \<circ> snd) stmts) t \<or> t \<in> seen \<and> t \<in> set (map (statement_table \<circ> snd) stmts)
           \<longrightarrow> t \<in> repeated"
    and "load_ordered (seen \<union> set (map (statement_table \<circ> snd) stmts))
           (repeated \<inter> (seen \<union> set (map (statement_table \<circ> snd) stmts))) ps"
  shows "load_ordered seen (repeated \<inter> seen) (node_schedule n loads repeated seen stmts @ ps)"
  using assms
proof (induction stmts arbitrary: seen)
  case (Cons x stmts)
  obtain index s where x: "x = (index, s)" by fastforce
  with Cons.prems(1) obtain t where t: "node_table_name s = Some t" "statement_table s = t" by (auto simp: statement_table_def)
  let ?T = "map (statement_table \<circ> snd) stmts"
  have named: "list_all (\<lambda>(index, s). node_table_name s \<noteq> None) stmts" using Cons.prems(1) by simp
  have many: "\<forall>u. 2 \<le> count_list ?T u \<or> u \<in> insert t seen \<and> u \<in> set ?T \<longrightarrow> u \<in> repeated"
  proof
    fix u
    show "2 \<le> count_list ?T u \<or> u \<in> insert t seen \<and> u \<in> set ?T \<longrightarrow> u \<in> repeated"
      using Cons.prems(2) [rule_format, of u] count_list_pos [of ?T u] x t by (auto simp: Suc_le_eq)
  qed
  have "load_ordered (insert t seen \<union> set ?T) (repeated \<inter> (insert t seen \<union> set ?T)) ps"
    using Cons.prems(3) x t by simp
  from Cons.IH [OF named many this]
  have rest: "load_ordered (insert t seen) (repeated \<inter> insert t seen) (node_schedule n loads repeated (insert t seen) stmts @ ps)" .
  have "t \<in> seen \<Longrightarrow> t \<in> repeated" using Cons.prems(2) x t by simp
  with rest t x show ?case by (cases "t \<in> repeated"; cases "t \<in> seen") (simp_all add: insert_absorb Int_insert_right)
qed simp

lemma ordered_indexes:
  assumes "distinct ts" and "set ts \<subseteq> copied - indexed" and "load_ordered copied (indexed \<union> set ts) ps"
  shows "load_ordered copied indexed (map IndexPhase ts @ ps)"
  using assms
proof (induction ts arbitrary: indexed)
  case (Cons t ts)
  have "set ts \<subseteq> copied - insert t indexed" using Cons.prems by auto
  with Cons.IH [of "insert t indexed"] Cons.prems show ?case by simp
qed simp

lemma ordered_rest:
  assumes "list_all (\<lambda>(index, s). node_table_name s = None) cs" and "copied \<subseteq> indexed"
  shows "load_ordered copied indexed (map (\<lambda>(index, s). CopyPhase index n s []) cs @ map (\<lambda>s. PostCopyPhase s loads) post)"
proof -
  have "load_ordered copied indexed (map (\<lambda>s. PostCopyPhase s loads) post)" using assms(2) by (induction post) simp_all
  with assms show ?thesis by (induction cs) auto
qed

definition phase_copy :: "write_phase \<Rightarrow> (nat \<times> string) option" where
  "phase_copy p = (case p of CopyPhase i n s loads \<Rightarrow> Some (i, s) | _ \<Rightarrow> None)"

definition phase_index :: "write_phase \<Rightarrow> string option" where
  "phase_index p = (case p of IndexPhase t \<Rightarrow> Some t | _ \<Rightarrow> None)"

lemma node_schedule_copies: "List.map_filter phase_copy (node_schedule n loads repeated seen stmts) = stmts"
  by (induction stmts arbitrary: seen) (auto simp: List.map_filter_simps phase_copy_def)

lemma schedule_copies: "List.map_filter phase_copy (load_schedule request) = enumerate 0 (wq_copy_statements request)"
proof -
  let ?c = "wq_copy_statements request"
  have "List.map_filter phase_copy (map IndexPhase ts) = []" "List.map_filter phase_copy (map (\<lambda>s. PostCopyPhase s loads) ss) = []"
    "List.map_filter phase_copy (map (\<lambda>(index, s). CopyPhase index n s []) cs) = cs" for ts ss loads n cs
    by (induction ts, simp_all add: List.map_filter_simps phase_copy_def)
      (induction ss, simp_all add: List.map_filter_simps phase_copy_def, induction cs, auto simp: List.map_filter_simps phase_copy_def)
  moreover have "enumerate 0 (take k ?c) @ enumerate k (drop k ?c) = enumerate 0 ?c" if "k \<le> length ?c" for k
    using that enumerate_append_eq [of 0 "take k ?c" "drop k ?c"] by simp
  moreover have "connector_start ?c \<le> length ?c" by (simp add: connector_start_def length_takeWhile_le)
  ultimately show ?thesis
    by (simp add: load_schedule_def Let_def map_filter_append node_schedule_copies split: prod.split)
      (simp add: List.map_filter_simps phase_copy_def map_filter_append node_schedule_copies)
qed

lemma schedule_ordered:
  assumes "list_all (\<lambda>s. node_table_name s = None) (drop (connector_start (wq_copy_statements request)) (wq_copy_statements request))"
  shows "load_ordered {} {} (load_schedule request)"
proof -
  let ?copies = "wq_copy_statements request"
  let ?start = "connector_start ?copies"
  let ?nodes = "take ?start ?copies"
  let ?T = "map statement_table ?nodes"
  obtain pre post where ph: "statement_phases (wq_include_fts request) (wq_schema_statements request) = (pre, post)" by fastforce
  let ?loads = "filter is_load_statement pre"
  let ?rest = "map (\<lambda>(index, s). CopyPhase index (length ?copies) s []) (enumerate ?start (drop ?start ?copies))
     @ map (\<lambda>s. PostCopyPhase s ?loads) post"
  have tables: "map (statement_table \<circ> snd) (enumerate 0 ?nodes) = ?T" by (simp flip: map_map)
  have "list_all (\<lambda>(index, s). node_table_name s = None) (enumerate ?start (drop ?start ?copies))"
    using assms by (auto simp: list_all_iff dest!: set_enumerateD)
  then have "load_ordered (set ?T) (set ?T) ?rest" by (rule ordered_rest) simp
  moreover have "repeated_tables ?T \<inter> set ?T \<union> (set ?T - repeated_tables ?T) = set ?T" by blast
  ultimately have "load_ordered (set ?T) (repeated_tables ?T \<inter> set ?T)
      (map IndexPhase (sorted_list_of_set (set ?T - repeated_tables ?T)) @ ?rest)"
    by (intro ordered_indexes) auto
  moreover have "list_all (\<lambda>(index, s). node_table_name s \<noteq> None) (enumerate 0 ?nodes)"
    using take_connector_start [of ?copies] by (auto simp: list_all_iff dest!: set_enumerateD)
  ultimately have "load_ordered {} (repeated_tables ?T \<inter> {}) (node_schedule (length ?copies) ?loads (repeated_tables ?T) {} (enumerate 0 ?nodes)
      @ map IndexPhase (sorted_list_of_set (set ?T - repeated_tables ?T)) @ ?rest)"
    by (intro ordered_nodes) (simp_all only: tables repeated_tables_def, auto)
  then show ?thesis by (simp add: load_schedule_def ph Let_def)
qed

lemma node_schedule_indexes:
  "set (List.map_filter phase_index (node_schedule n loads repeated seen stmts)) =
     repeated \<inter> (set (map (statement_table \<circ> snd) stmts) - seen)"
proof (induction stmts arbitrary: seen)
  case (Cons x stmts)
  obtain index s where x: "x = (index, s)" by fastforce
  have "set (List.map_filter phase_index (node_schedule n loads repeated seen (x # stmts))) =
      (if statement_table s \<in> repeated - seen then {statement_table s} else {})
      \<union> set (List.map_filter phase_index (node_schedule n loads repeated (insert (statement_table s) seen) stmts))"
    by (simp add: x map_filter_append List.map_filter_simps phase_index_def)
  then show ?case unfolding Cons.IH by (auto simp: x)
qed (simp add: List.map_filter_simps)

lemma schedule_indexes:
  "set (List.map_filter phase_index (load_schedule request)) =
     set (map statement_table (take (connector_start (wq_copy_statements request)) (wq_copy_statements request)))"
proof -
  let ?nodes = "take (connector_start (wq_copy_statements request)) (wq_copy_statements request)"
  have "List.map_filter phase_index (map IndexPhase ts) = ts" "List.map_filter phase_index (map (\<lambda>s. PostCopyPhase s loads) ss) = []"
    "List.map_filter phase_index (map (\<lambda>(index, s). CopyPhase index n s []) cs) = []" for ts ss loads n cs
    by (induction ts, simp_all add: List.map_filter_simps phase_index_def)
      (induction ss, simp_all add: List.map_filter_simps phase_index_def, induction cs, auto simp: List.map_filter_simps phase_index_def)
  moreover have "map (statement_table \<circ> snd) (enumerate 0 ?nodes) = map statement_table ?nodes" by (simp flip: map_map)
  ultimately show ?thesis
    using node_schedule_indexes [of "length (wq_copy_statements request)" _ _ "{}" "enumerate 0 ?nodes"]
    by (auto simp: load_schedule_def Let_def map_filter_append List.map_filter_simps phase_index_def split: prod.splits)
qed

text \<open>The connection of one process does not look at the extensions to load again.\<close>

lemma inline_ignores_loads:
  "run_phases (execute_inline query) (node_schedule n loads repeated seen stmts @ ps) high w =
   run_phases (execute_inline query) (node_schedule n [] repeated seen stmts @ ps) high w"
proof (induction stmts arbitrary: seen high w)
  case (Cons x stmts)
  obtain index s where x: "x = (index, s)" by fastforce
  have "execute_inline query (CopyPhase index n s loads) = execute_inline query (CopyPhase index n s [])"
    by (simp add: execute_inline_def)
  with Cons x show ?case by (simp add: try_io_def split: prod.split sum.split)
qed simp

lemma inline_zero: "try_io (execute_inline query p) f = try_io (execute_inline query p) (\<lambda>_. f 0)"
  by (auto simp: execute_inline_def try_io_def fun_eq_iff split: prod.split sum.split)

lemma inline_post:
  "run_phases (execute_inline query) (map (\<lambda>s. PostCopyPhase s loads) ss) = run_phases (execute_inline query) (map (\<lambda>s. PostCopyPhase s []) ss)"
proof -
  have "execute_inline query (PostCopyPhase s loads) = execute_inline query (PostCopyPhase s [])" for s by (simp add: execute_inline_def)
  then show ?thesis by (induction ss) (simp_all add: fun_eq_iff try_io_def split: prod.split sum.split)
qed

lemma run_phases_append':
  "run_phases execute (ps @ qs) = (\<lambda>high. try_io (run_phases execute ps high) (run_phases execute qs))"
  by (simp add: fun_eq_iff run_phases_append)

lemma once_runs_schedule:
  assumes "wq_defer_hash_indexes request"
  shows "write_database_once preseed candidate_exists connect query request =
    try_io (prepare_candidate preseed candidate_exists request) (\<lambda>_. try_io connect (\<lambda>_.
      run_phases (execute_inline query) (load_schedule request) 0))"
proof -
  let ?copies = "wq_copy_statements request" and ?run = "run_phases (execute_inline query)"
  let ?start = "connector_start ?copies"
  let ?nodes = "take ?start ?copies"
  let ?T = "map statement_table ?nodes"
  let ?sched = "\<lambda>loads. node_schedule (length ?copies) loads (repeated_tables ?T) {} (enumerate 0 ?nodes)"
  let ?rest = "map IndexPhase (sorted_list_of_set (set ?T - repeated_tables ?T))
     @ map (\<lambda>(index, s). CopyPhase index (length ?copies) s []) (enumerate ?start (drop ?start ?copies))"
  obtain pre post where ph: "statement_phases (wq_include_fts request) (wq_schema_statements request) = (pre, post)" by fastforce
  let ?loads = "filter is_load_statement pre"
  from deferred_nodes [OF assms refl refl, of "execute_inline query"] obtain early where
    "tables_requiring_early_index ?nodes = Inr early"
    "\<And>loads high. copy_nodes (execute_inline query) request loads early (enumerate 0 ?nodes) (high, [], []) =
       try_io (?run (?sched loads) high) (\<lambda>high w. (Inr (high, sorted_list_of_set (set ?T - repeated_tables ?T)), w))"
    by blast
  then have deferred: "execute_deferred_index_copy query request = ?run (?sched [] @ ?rest) 0"
    by (intro ext) (simp add: execute_deferred_index_copy_def Let_def run_phases_append' try_io_assoc)
  have "?run (load_schedule request) 0 =
      try_io (execute_inline query (SchemaPhase True pre)) (\<lambda>_. ?run (?sched ?loads @ ?rest @ map (\<lambda>s. PostCopyPhase s ?loads) post) 0)"
    using inline_zero [of query "SchemaPhase True pre" "\<lambda>h. ?run (?sched ?loads @ ?rest @ map (\<lambda>s. PostCopyPhase s ?loads) post) (max 0 h)"]
    by (simp add: fun_eq_iff load_schedule_def ph Let_def)
  also have "?run (?sched ?loads @ ?rest @ map (\<lambda>s. PostCopyPhase s ?loads) post) 0
      = ?run (?sched [] @ ?rest @ map (\<lambda>s. PostCopyPhase s ?loads) post) 0"
    using inline_ignores_loads [of query _ ?loads] by (simp add: fun_eq_iff)
  also have "\<dots> = try_io (execute_deferred_index_copy query request) (?run (map (\<lambda>s. PostCopyPhase s []) post))"
    by (simp add: deferred run_phases_append' try_io_assoc inline_post [of query ?loads])
  finally have "?run (load_schedule request) 0 = try_io (execute_inline query (SchemaPhase True pre)) (\<lambda>_.
      try_io (execute_deferred_index_copy query request) (?run (map (\<lambda>s. PostCopyPhase s []) post)))" .
  then show ?thesis using assms by (simp add: write_database_once_def ph Let_def)
qed

text \<open>
  Without deferred indexes the writer with processes takes all COPY statements for those of node tables
  and refuses a run with connectors after it has created the schema, where the writer with one connection loads it.
\<close>

lemma early_tables_refuses:
  "\<exists>s \<in> set ss. node_table_name s = None \<Longrightarrow> \<exists>s \<in> set ss. early_tables ss seen repeated = Inl (unsupported_target s)"
  by (induction ss arbitrary: seen repeated) (auto split: option.splits)

lemma eager_load_refused:
  assumes "\<not> wq_defer_hash_indexes request" and "\<exists>s \<in> set (wq_copy_statements request). node_table_name s = None"
  shows "\<exists>s \<in> set (wq_copy_statements request). write_database_isolated_with preseed candidate_exists execute request =
    try_io (prepare_candidate preseed candidate_exists request) (\<lambda>_.
      try_io (execute (SchemaPhase False (fst (statement_phases (wq_include_fts request) (wq_schema_statements request)))))
        (\<lambda>_ w. (Inl (unsupported_target s), w)))"
proof -
  from early_tables_refuses [OF assms(2), of "[]" "[]"] obtain s where
    s: "s \<in> set (wq_copy_statements request)" "tables_requiring_early_index (wq_copy_statements request) = Inl (unsupported_target s)"
    by (auto simp: tables_requiring_early_index_def)
  then show ?thesis
    using assms(1) by (intro bexI [of _ s]) (simp_all add: write_database_isolated_with_def case_prod_beta Let_def)
qed

section \<open>Both writers run the schedule\<close>

text \<open>
  The database is loaded in the right order by both writers. On the COPY statements of a staging
  run the writer with a process for every phase, and the writer with one connection, run the same list
  of phases one after the other until the first error. In that list the schema comes first; every COPY
  statement occurs once, in the order of the run; no table that has rows gets more of them before its primary-key
  index exists; no connector is loaded before all node tables are indexed; every node table
  is indexed exactly once, after its first rows.
\<close>

lemma database_load_ordered:
  assumes "wq_defer_hash_indexes request"
    and "wq_copy_statements request =
      map (\<lambda>(table, path). json_copy_statement table path) nodes @ map (\<lambda>(grp, path). connector_copy_statement grp path) connectors"
    and "list_all (\<lambda>(table, path). plain_name table) nodes" and "list_all (\<lambda>(grp, path). plain_name (fst grp)) connectors"
  shows "write_database_isolated_with preseed candidate_exists execute request =
       try_io (prepare_candidate preseed candidate_exists request) (\<lambda>_. run_phases execute (load_schedule request) 0)
     \<and> write_database_once preseed candidate_exists connect query request =
       try_io (prepare_candidate preseed candidate_exists request) (\<lambda>_. try_io connect (\<lambda>_.
         run_phases (execute_inline query) (load_schedule request) 0))
     \<and> load_ordered {} {} (load_schedule request)
     \<and> List.map_filter phase_copy (load_schedule request) = enumerate 0 (wq_copy_statements request)
     \<and> set (List.map_filter phase_index (load_schedule request)) = fst ` set nodes"
proof -
  let ?nodes = "map (\<lambda>(table, path). json_copy_statement table path) nodes"
  let ?connectors = "map (\<lambda>(grp, path). connector_copy_statement grp path) connectors"
  have n: "list_all (\<lambda>s. node_table_name s \<noteq> None) ?nodes" using assms(3) node_statement by (auto simp: list_all_iff)
  have c: "list_all (\<lambda>s. node_table_name s = None) ?connectors" using assms(4) connector_statement by (auto simp: list_all_iff)
  have "takeWhile (\<lambda>s. node_table_name s \<noteq> None) (?nodes @ ?connectors)
      = ?nodes @ takeWhile (\<lambda>s. node_table_name s \<noteq> None) ?connectors"
    by (rule takeWhile_append2) (use n in \<open>unfold list_all_iff, blast\<close>)
  also have "takeWhile (\<lambda>s. node_table_name s \<noteq> None) ?connectors = []" using c by (cases connectors) auto
  finally have "takeWhile (\<lambda>s. node_table_name s \<noteq> None) (?nodes @ ?connectors) = ?nodes" by simp
  then have start: "connector_start (wq_copy_statements request) = length ?nodes" by (simp add: connector_start_def assms(2))
  have "load_ordered {} {} (load_schedule request)" by (rule schedule_ordered) (simp add: start, simp add: assms(2) c)
  moreover have tables: "map statement_table ?nodes = map fst nodes"
    using assms(3) node_statement by (auto simp: list_all_iff statement_table_def)
  have "take (connector_start (wq_copy_statements request)) (wq_copy_statements request) = ?nodes"
    unfolding start by (simp add: assms(2))
  with schedule_indexes [of request] tables
  have "set (List.map_filter phase_index (load_schedule request)) = set (map fst nodes)" by metis
  then have "set (List.map_filter phase_index (load_schedule request)) = fst ` set nodes" by simp
  ultimately show ?thesis
    using isolated_runs_schedule [OF assms(1)] once_runs_schedule [OF assms(1)] schedule_copies by auto
qed

end
