(* ===== verification/GraphWriter.thy ===== *)
theory GraphWriter
  imports Catalog DatabaseWriter
begin

text \<open>
  The step from a staging run to a loaded database (\<^verbatim>\<open>src/staging_writer/writer.rs\<close>):
  \<open>write_graph_rows\<close> takes the COPY statements of a run, adds the schema, and calls the database
  writer with deferred indexes and one thread.

  The facts of the schema (theory \<open>Catalog\<close>), of the schedule (theory \<open>DatabaseWriter\<close>) and of the
  staged files (theory \<open>StagingRun\<close>) meet here.
\<close>

definition graph_write_request :: "request \<Rightarrow> string list \<Rightarrow> bool \<Rightarrow> write_request" where
  "graph_write_request request copy_statements has_external_search_backend =
     (let use_ladybug_fts = rq_include_fts request \<and> \<not> has_external_search_backend
      in \<lparr>wq_db_path = rq_db_path request, wq_max_num_threads = 1, wq_defer_hash_indexes = True,
          wq_include_fts = use_ladybug_fts,
          wq_schema_statements = (if rq_schema_statements request = []
            then schema_statements_from_copy_statements use_ladybug_fts copy_statements
            else rq_schema_statements request),
          wq_copy_statements = copy_statements\<rparr>)"

definition write_graph_rows ::
  "(bool \<Rightarrow> 'w \<Rightarrow> (native_error + unit) \<times> 'w) \<Rightarrow> ('w \<Rightarrow> bool) \<Rightarrow> ('w \<Rightarrow> (native_error + unit) \<times> 'w)
     \<Rightarrow> 'w connection \<Rightarrow> 'w phase_runner option \<Rightarrow> request \<Rightarrow> string list \<Rightarrow> bool \<Rightarrow> 'w \<Rightarrow> (native_error + u64) \<times> 'w" where
  "write_graph_rows preseed candidate_exists connect query phase_worker request copy_statements has_external_search_backend =
     write_database_with_metrics preseed candidate_exists connect query phase_worker
       (graph_write_request request copy_statements has_external_search_backend)"

section \<open>Statements that create tables stay in the schema phase\<close>

lemma chars_append:
  assumes "s \<noteq> []" and "list_all (\<lambda>b. \<not> is_continuation b) s" and "r = [] \<or> \<not> is_continuation (hd r)"
  shows "chars (s @ r) = map (\<lambda>b. [b]) s @ chars r"
  using assms
proof (induction s)
  case (Cons b s)
  show ?case
  proof (cases s)
    case Nil
    then show ?thesis using while_hd [of r is_continuation] Cons.prems by simp
  next
    case (Cons c cs)
    then have "takeWhile is_continuation (s @ r) = [] \<and> dropWhile is_continuation (s @ r) = s @ r"
      using Cons.prems(2) by (intro while_hd) simp
    with Cons Cons.IH Cons.prems show ?thesis by simp
  qed
qed simp

text \<open>A word in front survives everything that is cut off behind it.\<close>

lemma rev_dropWhile_prefix:
  assumes "xs \<noteq> []" and "\<not> P (last xs)"
  shows "rev (dropWhile P (rev (xs @ ys))) = xs @ rev (dropWhile P (rev ys))"
proof (cases "\<forall>y \<in> set ys. P y")
  case True
  then have "dropWhile P (rev (xs @ ys)) = dropWhile P (rev xs)" "dropWhile P (rev ys) = []"
    using dropWhile_append2 [of "rev ys" P "rev xs"] by simp_all
  moreover have "dropWhile P (rev xs) = rev xs" using assms by (cases "rev xs") (auto simp: last_rev hd_rev [symmetric])
  ultimately show ?thesis by simp
next
  case False
  then show ?thesis by (auto simp: dropWhile_append1)
qed

lemma rev_dropWhile_hd: "rev (dropWhile P (rev ys)) = [] \<or> hd (rev (dropWhile P (rev ys))) = hd ys"
proof -
  obtain n where "rev (dropWhile P (rev ys)) = take n ys" using rev_dropWhile_rev [of P ys] by blast
  then show ?thesis by (cases n) auto
qed

lemma trim_end_word:
  assumes "list_all (\<lambda>b. \<not> is_continuation b \<and> \<not> is_whitespace [b]) (c # word)" and "r = [] \<or> \<not> is_continuation (hd r)"
  shows "\<exists>r'. trim_end (c # word @ r) = c # word @ r' \<and> (r' = [] \<or> \<not> is_continuation (hd r'))"
proof -
  let ?w = "c # word"
  have w: "list_all (\<lambda>b. \<not> is_continuation b) ?w" using assms(1) by (simp add: list_all_iff)
  have "\<not> is_whitespace (last (map (\<lambda>b. [b]) ?w))" using assms(1) by (simp add: list_all_iff last_map)
  then have "trim_end (?w @ r) = ?w @ concat (rev (dropWhile is_whitespace (rev (chars r))))"
    using rev_dropWhile_prefix [of "map (\<lambda>b. [b]) ?w" is_whitespace "chars r"] chars_append [OF _ w assms(2)]
    by (simp add: trim_end_def comp_def)
  moreover have "concat (rev (dropWhile is_whitespace (rev (chars r)))) = []
      \<or> \<not> is_continuation (hd (concat (rev (dropWhile is_whitespace (rev (chars r))))))"
  proof (cases r)
    case (Cons b bs)
    obtain n where n: "rev (dropWhile is_whitespace (rev (chars r))) = take n (chars r)" using rev_dropWhile_rev by blast
    show ?thesis unfolding n using assms(2) Cons by (cases n) auto
  qed simp
  ultimately show ?thesis by auto
qed

lemma create_kept: "\<not> is_post_copy_statement (''CREATE '' @ r)" "\<not> is_fts_statement (''CREATE '' @ r)"
proof -
  have word: "list_all (\<lambda>b. \<not> is_continuation b \<and> \<not> is_whitespace [b]) ''CREATE''" by code_simp
  have post: "\<not> is_post_copy_statement (''CREATE'' @ x)" if "x = [] \<or> \<not> is_continuation (hd x)" for x
  proof -
    have "chars (''CREATE'' @ x) = map (\<lambda>b. [b]) ''CREATE'' @ chars x"
      by (rule chars_append) (use that in \<open>simp_all, code_simp\<close>)
    moreover have "\<not> is_whitespace ''C''" by code_simp
    ultimately have "trim_start (''CREATE'' @ x) = ''CREATE'' @ x" by (simp add: trim_start_def)
    moreover have "ascii_lower (CHR ''R'') \<noteq> ascii_lower (CHR ''A'')" by code_simp
    ultimately show ?thesis by (simp add: is_post_copy_statement_def starts_ignore_case_def eq_ignore_ascii_case_def)
  qed
  have space: "\<not> is_continuation (CHR '' '')" by code_simp
  show "\<not> is_post_copy_statement (''CREATE '' @ r)" using post [of "CHR '' '' # r"] space by simp
  have "trim (''CREATE '' @ r) = trim_end (''CREATE'' @ CHR '' '' # r)"
  proof -
    have "chars (''CREATE'' @ CHR '' '' # r) = map (\<lambda>b. [b]) ''CREATE'' @ chars (CHR '' '' # r)"
      by (rule chars_append) (use space in \<open>simp_all, code_simp\<close>)
    moreover have "\<not> is_whitespace ''C''" by code_simp
    ultimately show ?thesis by (simp add: trim_def trim_end_def)
  qed
  then obtain x where x: "trim (''CREATE '' @ r) = ''CREATE'' @ x" "x = [] \<or> \<not> is_continuation (hd x)"
    using trim_end_word [OF word, of "CHR '' '' # r"] space by auto
  have "trim_end_char (CHR '';'') (''CREATE'' @ x) = ''CREATE'' @ rev (dropWhile (\<lambda>b. b = CHR '';'') (rev x))"
    unfolding trim_end_char_def by (rule rev_dropWhile_prefix) simp_all
  moreover have "rev (dropWhile (\<lambda>b. b = CHR '';'') (rev x)) = [] \<or> \<not> is_continuation (hd (rev (dropWhile (\<lambda>b. b = CHR '';'') (rev x))))"
    using rev_dropWhile_hd [of "\<lambda>b. b = CHR '';''" x] x(2) by (cases "x = []") auto
  ultimately have "\<exists>y. trim_end (trim_end_char (CHR '';'') (trim (''CREATE '' @ r))) = ''CREATE'' @ y \<and> (y = [] \<or> \<not> is_continuation (hd y))"
    using trim_end_word [OF word] unfolding x(1) by simp
  then obtain y where y: "trim_end (trim_end_char (CHR '';'') (trim (''CREATE '' @ r))) = ''CREATE'' @ y" "y = [] \<or> \<not> is_continuation (hd y)"
    by blast
  moreover have "ascii_lower (CHR ''C'') \<noteq> ascii_lower (CHR ''I'')" "ascii_lower (CHR ''C'') \<noteq> ascii_lower (CHR ''L'')" by code_simp+
  ultimately show "\<not> is_fts_statement (''CREATE '' @ r)"
    using post [OF y(2)] by (simp add: is_fts_statement_def Let_def eq_ignore_ascii_case_def)
qed

section \<open>The schema phase creates what the COPY statements load\<close>

definition created_tables :: "write_request \<Rightarrow> string list" where
  "created_tables request = fst (statement_phases (wq_include_fts request) (wq_schema_statements request))"

lemma schedule_creates_first: "\<exists>phases. load_schedule request = SchemaPhase True (created_tables request) # phases"
  by (simp add: load_schedule_def created_tables_def Let_def split: prod.split)

lemma created_kept:
  assumes "s \<in> set statements" and "\<exists>r. s = ''CREATE '' @ r"
  shows "s \<in> set (fst (statement_phases include_fts statements))"
proof -
  from assms(2) have "\<not> is_post_copy_statement s" "\<not> is_fts_statement s" using create_kept by blast+
  with assms(1) show ?thesis by (cases statements) (auto simp: statement_phases_def Let_def)
qed

lemma table_created:
  assumes "t \<in> set schema_node_types \<union> rs_name ` set shipped_relation_types"
  shows "\<exists>columns. node_table_sql t columns \<in> set (schema_statements_from_copy_statements include_fts copies)"
proof -
  obtain tables where schema: "declared_graph_schema = Some (tables, declared_relations)"
    and tables: "set tables = set (filter (\<lambda>name. name \<noteq> []) schema_node_types
             @ concat (map (\<lambda>r. rs_source_types r @ rs_target_types r) declared_relations))"
    by (simp add: declared_graph_schema_def)
  have named: "list_all (\<lambda>name. name \<noteq> []) schema_node_types" by code_simp
  from assms consider "t \<in> set tables" | r where "r \<in> set declared_relations" "rs_name r = t"
  proof
    assume "t \<in> set schema_node_types"
    with named have "t \<in> set tables" by (simp add: tables list_all_iff)
    then show thesis by (rule that)
  next
    assume "t \<in> rs_name ` set shipped_relation_types"
    then obtain r where "r \<in> set shipped_relation_types" "rs_name r = t" by blast
    with declared_relation [of r] show thesis by (metis relation_spec.select_convs(1) that(2))
  qed
  then show ?thesis
    by cases (auto simp: schema_statements_from_copy_statements_def schema Let_def)
qed

lemma node_table_sql_create: "\<exists>r. node_table_sql t columns = ''CREATE '' @ r"
  by (simp add: node_table_sql_def)

lemma relation_table_sql_create: "\<exists>r. relation_table_sql t f s role = ''CREATE '' @ r"
  by (simp add: relation_table_sql_def)

lemma ontology_names_plain:
  "list_all plain_name schema_node_types" "list_all (\<lambda>r. plain_name (rs_name r)) shipped_relation_types"
  by code_simp+

lemma table_created_in_schema:
  assumes "t \<in> set schema_node_types \<union> rs_name ` set shipped_relation_types" and "rq_schema_statements request = []"
  shows "\<exists>columns. node_table_sql t columns \<in> set (created_tables (graph_write_request request copies external))"
proof -
  from table_created [OF assms(1)] obtain columns where
    "node_table_sql t columns \<in> set (schema_statements_from_copy_statements (rq_include_fts request \<and> \<not> external) copies)" by blast
  then have "node_table_sql t columns \<in> set (created_tables (graph_write_request request copies external))"
    using assms(2) created_kept [OF _ node_table_sql_create] by (simp add: created_tables_def graph_write_request_def Let_def)
  then show ?thesis by blast
qed

lemma connector_created_in_schema:
  assumes "c \<in> set (staged_connectors shipped_relation_types parts)" and "cr_relation c \<in> rs_name ` set shipped_relation_types"
    and "rq_schema_statements request = []"
  shows "\<exists>from_tables to_tables. cr_from_type c \<in> set from_tables \<and> cr_to_type c \<in> set to_tables
     \<and> relation_table_sql (connector_table (connector_group_of c)) from_tables to_tables (cr_role c)
         \<in> set (created_tables (graph_write_request request copies external))"
proof -
  let ?fts = "rq_include_fts request \<and> \<not> external"
  from schema_covers_connectors [OF assms(1,2), of ?fts copies] obtain from_tables to_tables where
    ft: "cr_from_type c \<in> set from_tables" "cr_to_type c \<in> set to_tables"
      "relation_table_sql (connector_table (connector_group_of c)) from_tables to_tables (cr_role c)
        \<in> set (schema_statements_from_copy_statements ?fts copies)" by fastforce
  from ft(3) have "relation_table_sql (connector_table (connector_group_of c)) from_tables to_tables (cr_role c)
      \<in> set (created_tables (graph_write_request request copies external))"
    using assms(3) created_kept [OF _ relation_table_sql_create] by (simp add: created_tables_def graph_write_request_def Let_def)
  with ft(1,2) show ?thesis by blast
qed

section \<open>The COPY statements of a staging run\<close>

lemma chunk_groups:
  assumes "(grp, index, rows) \<in> set (chunked fmt limit items)"
  shows "grp \<in> fst ` set items"
proof -
  have "rows \<noteq> []" using chunked_ok [of fmt limit items] assms by (auto simp: list_all_iff chunk_ok_def)
  then obtain r where "r \<in> set rows" by (cases rows) auto
  then have "(grp, r) \<in> set (concat (map chunk_rows (chunked fmt limit items)))" using assms by (force simp: chunk_rows_def)
  then show ?thesis unfolding chunked_rows by force
qed

lemma staged_copies:
  assumes "staged_result env a specs parts result w"
  shows "\<exists>nodes connectors. stg_copy_statements result =
      map (\<lambda>(table, path). json_copy_statement table path) nodes @ map (\<lambda>(grp, path). connector_copy_statement grp path) connectors
    \<and> fst ` set nodes = fst ` set (staged_nodes parts) \<union> fst ` set (accepted_edges specs parts)
    \<and> fst ` set connectors \<subseteq> connector_group_of ` set (staged_connectors specs parts)"
proof -
  let ?dir = "ac_staging_dir a"
  let ?nks = "table_chunks a (sv_node_row env) (staged_nodes parts)" and ?eks = "table_chunks a (sv_edge_row env) (accepted_edges specs parts)"
  let ?cks = "connector_chunks a (staged_connectors specs parts)"
  have groups: "fst ` set (table_chunks a codec items) = fst ` set items" for codec and items :: "(string \<times> string \<times> 'r) list"
  proof
    show "fst ` set (table_chunks a codec items) \<subseteq> fst ` set items"
      unfolding table_chunks_def using table_rows_fst(2) [of codec items] by (force dest: chunk_groups)
    have "fst ` set items = fst ` set (concat (map chunk_rows (table_chunks a codec items)))"
      by (simp add: table_chunks_def chunked_rows table_rows_fst)
    then show "fst ` set items \<subseteq> fst ` set (table_chunks a codec items)" by (force simp: chunk_rows_def)
  qed
  have cgroups: "fst ` set ?cks \<subseteq> connector_group_of ` set (staged_connectors specs parts)"
    unfolding connector_chunks_def by (force dest: chunk_groups simp: connector_rows_def)
  let ?nodes = "map (\<lambda>(table, index, rows). (table, chunked_output_path ?dir (output_file_stem table) ''json'' index)) (?nks @ ?eks)"
  let ?connectors = "map (\<lambda>(grp, index, rows). (grp, connector_path ?dir grp index)) ?cks"
  have "stg_copy_statements result =
      map (\<lambda>(table, path). json_copy_statement table path) ?nodes @ map (\<lambda>(grp, path). connector_copy_statement grp path) ?connectors"
    using assms by (simp add: staged_result_def Let_def chunk_statement_def json_format_def connector_format_def split_beta comp_def)
  moreover have "fst ` set ?nodes = fst ` set (staged_nodes parts) \<union> fst ` set (accepted_edges specs parts)"
    using groups [of "sv_node_row env" "staged_nodes parts"] groups [of "sv_edge_row env" "accepted_edges specs parts"]
    by (simp add: image_image split_beta image_Un)
  moreover have "fst ` set ?connectors \<subseteq> connector_group_of ` set (staged_connectors specs parts)"
    using cgroups by (simp add: image_image split_beta)
  ultimately show ?thesis by blast
qed

end
