(* ===== verification/Markdown.thy ===== *)
theory Markdown
  imports TextOps
begin

text \<open>
  The Markdown parser (\<^verbatim>\<open>src/parser/markdown.rs\<close>): a source becomes a module with one
  node for the document and one for every section, a section being a heading and what follows it up
  to the next one.

  The main fact is that the sections tile the source from the first heading to its last line: no line
  is in two of them, none is left out, and a section begins at a heading and has no other.
\<close>

section \<open>Sections\<close>

record markdown_section =
  ms_heading :: string
  ms_line_start :: nat
  ms_line_end :: nat
  ms_text :: string

text \<open>A heading is one to six number signs, after any white space, with white space behind them.\<close>

definition heading_level :: "string \<Rightarrow> nat" where
  "heading_level trimmed = length (takeWhile (\<lambda>c. c = ''#'') (chars trimmed))"

definition heading_of :: "string \<Rightarrow> string option" where
  "heading_of line =
     (let trimmed = trim_start line; level = heading_level trimmed in
      if 1 \<le> level \<and> level \<le> 6 \<and> level < length (chars trimmed) \<and> is_whitespace (chars trimmed ! level)
      then Some (trim (drop level trimmed)) else None)"

definition markdown_headings :: "string list \<Rightarrow> (nat \<times> string) list" where
  "markdown_headings lines =
     List.map_filter (\<lambda>(index, line). map_option (Pair (index + 1)) (heading_of line)) (enumerate 0 lines)"

text \<open>\<open>lines[line_start - 1..line_end]\<close>, joined and trimmed.\<close>

definition section_text :: "string list \<Rightarrow> nat \<Rightarrow> nat \<Rightarrow> string" where
  "section_text lines line_start line_end =
     trim (join [newline_char] (drop (line_start - 1) (take line_end lines)))"

definition section_at :: "string list \<Rightarrow> (nat \<times> string) list \<Rightarrow> nat \<times> nat \<times> string \<Rightarrow> markdown_section option" where
  "section_at lines headings = (\<lambda>(index, line_start, heading).
     let line_end = (if index + 1 < length headings then fst (headings ! (index + 1)) - 1 else length lines);
         txt = section_text lines line_start line_end
     in if txt = [] then None
        else Some \<lparr>ms_heading = heading, ms_line_start = line_start, ms_line_end = line_end, ms_text = txt\<rparr>)"

definition markdown_sections :: "string \<Rightarrow> markdown_section list" where
  "markdown_sections source =
     (let lines = str_lines source; headings = markdown_headings lines in
      if headings = []
      then let txt = trim source in
           if txt = [] then []
           else [\<lparr>ms_heading = [], ms_line_start = 1, ms_line_end = max (length lines) 1, ms_text = txt\<rparr>]
      else List.map_filter (section_at lines headings) (enumerate 0 headings))"

definition summary :: "string \<Rightarrow> string" where
  "summary s = concat (take 2000 (chars (trim s)))"

section \<open>Nodes\<close>

definition markdown_node ::
  "string \<Rightarrow> string \<Rightarrow> nat \<Rightarrow> nat \<Rightarrow> nat \<Rightarrow> nat \<Rightarrow> (string \<times> string) list \<Rightarrow> syntax_node" where
  "markdown_node kind txt line_start line_end byte_start byte_end values =
     SyntaxNode kind txt (Some (int line_start)) (Some (int line_end))
       (if byte_end = 0 then None else Some (int byte_start)) (if byte_end = 0 then None else Some (int byte_end)) [] None []
       (fold (\<lambda>(key, v) m. if v \<noteq> [] then btree_insert key (JString v) m else m) values [])"

definition push_markdown_capture :: "language_profile \<Rightarrow> string \<Rightarrow> syntax_node \<Rightarrow> syntax_node \<Rightarrow> syntax_node" where
  "push_markdown_capture profile capture_name node parent =
     (case mapping_for_capture_name (lp_capture_mappings profile) capture_name of
        None \<Rightarrow> parent
      | Some m \<Rightarrow> set_children (sn_children parent @ [set_capture_name (cm_capture_name m) node]) parent)"

definition document_node :: "string \<Rightarrow> syntax_node" where
  "document_node source =
     markdown_node ''DocumentationSource'' source 1 (max (length (str_lines source)) 1) 0 (length source)
       [(''name'', []), (''text'', summary source)]"

definition chunk_node :: "markdown_section \<Rightarrow> syntax_node" where
  "chunk_node s =
     markdown_node ''DocumentationChunk'' (ms_text s) (ms_line_start s) (ms_line_end s) 0 0
       [(''name'', if ms_heading s = [] then ''section'' else ms_heading s), (''heading'', ms_heading s), (''text'', summary (ms_text s))]"

definition parse_markdown_source :: "string \<Rightarrow> language_profile \<Rightarrow> syntax_node \<times> string list" where
  "parse_markdown_source source profile =
     (let top_node = SyntaxNode ''Module'' [] None None None None [] None [] [];
          top_node = push_markdown_capture profile ''doc.source'' (document_node source) top_node
      in (fold (\<lambda>s. push_markdown_capture profile ''doc.chunk'' (chunk_node s)) (markdown_sections source) top_node, []))"


section \<open>Headings\<close>

lemma map_filter_enumerate:
  "map fst (List.map_filter (\<lambda>(index, x). map_option (Pair (index + 1)) (f x)) (enumerate k xs))
     = filter (\<lambda>i. f (xs ! (i - 1 - k)) \<noteq> None) [k + 1..<k + length xs + 1]"
proof (induction xs arbitrary: k)
  case (Cons x xs)
  have upt: "[Suc k..<Suc (Suc (k + length xs))] = Suc k # [Suc (Suc k)..<Suc (Suc (k + length xs))]"
    by (rule upt_conv_Cons) simp
  have "filter (\<lambda>i. f ((x # xs) ! (i - 1 - k)) \<noteq> None) [Suc k + 1..<Suc k + length xs + 1]
      = filter (\<lambda>i. f (xs ! (i - 1 - Suc k)) \<noteq> None) [Suc k + 1..<Suc k + length xs + 1]"
  proof (rule filter_cong [OF refl])
    fix i
    assume "i \<in> set [Suc k + 1..<Suc k + length xs + 1]"
    then have "i - 1 - k = Suc (i - 1 - Suc k)" by (simp del: upt_Suc) arith
    then show "(f ((x # xs) ! (i - 1 - k)) \<noteq> None) = (f (xs ! (i - 1 - Suc k)) \<noteq> None)" by simp
  qed
  with Cons [of "Suc k"] show ?case
    by (cases "f x") (simp_all add: upt List.map_filter_simps del: upt_Suc)
qed (simp add: List.map_filter_simps)

lemma map_filter_total: "\<forall>x \<in> set xs. f x = Some (g x) \<Longrightarrow> List.map_filter f xs = map g xs"
  by (induction xs) (simp_all add: List.map_filter_simps)

definition heading_lines :: "string list \<Rightarrow> nat list" where
  "heading_lines lines = filter (\<lambda>i. heading_of (lines ! (i - 1)) \<noteq> None) [1..<length lines + 1]"

lemma heading_starts: "map fst (markdown_headings lines) = heading_lines lines"
  using map_filter_enumerate [of heading_of 0 lines] by (simp add: markdown_headings_def heading_lines_def)

lemma heading_lines_props:
  "sorted_wrt (<) (heading_lines lines)" "i \<in> set (heading_lines lines) \<Longrightarrow> 1 \<le> i \<and> i \<le> length lines"
  by (auto simp: heading_lines_def sorted_wrt_filter simp del: upt_Suc)

lemma heading_found:
  assumes "(i, h) \<in> set (markdown_headings lines)"
  shows "heading_of (lines ! (i - 1)) = Some h"
proof -
  from assms obtain index line where "(index, line) \<in> set (enumerate 0 lines)" "heading_of line = Some h" "i = index + 1"
    by (auto simp: markdown_headings_def List.map_filter_def)
  then show ?thesis by (auto simp: in_set_enumerate_eq)
qed

text \<open>A heading line has a number sign, so the text of a section is never empty.\<close>

lemma heading_sign:
  assumes "heading_of line = Some h"
  shows "CHR ''#'' \<in> set line"
proof -
  from assms have "takeWhile (\<lambda>c. c = ''#'') (chars (trim_start line)) \<noteq> []"
    by (auto simp: heading_of_def heading_level_def Let_def split: if_splits)
  then have "''#'' \<in> set (chars (trim_start line))"
    by (cases "chars (trim_start line)") (auto split: if_splits)
  then have "CHR ''#'' \<in> set (concat (chars (trim_start line)))" unfolding set_concat by (intro UN_I) auto
  then have "CHR ''#'' \<in> set (concat (dropWhile is_whitespace (chars line)))" by (simp add: trim_start_def)
  moreover have "set (dropWhile is_whitespace (chars line)) \<subseteq> set (chars line)" by (auto dest: set_dropWhileD)
  ultimately have "CHR ''#'' \<in> set (concat (chars line))" unfolding set_concat by blast
  then show ?thesis by simp
qed

lemma set_join: "x \<in> set xs \<Longrightarrow> c \<in> set x \<Longrightarrow> c \<in> set (join sep xs)"
  by (induction sep xs rule: join.induct) auto

lemma section_text_nonempty:
  assumes "heading_of (lines ! (line_start - 1)) = Some h" and "1 \<le> line_start" and "line_start \<le> line_end" and "line_end \<le> length lines"
  shows "section_text lines line_start line_end \<noteq> []"
proof -
  have "lines ! (line_start - 1) \<in> set (drop (line_start - 1) (take line_end lines))"
    using assms(2-4) by (auto simp: in_set_conv_nth intro!: exI [of _ 0])
  from set_join [OF this heading_sign [OF assms(1)]]
  have "CHR ''#'' \<in> set (join [newline_char] (drop (line_start - 1) (take line_end lines)))" .
  then show ?thesis unfolding section_text_def by (rule trim_visible) (simp, code_simp)
qed

section \<open>Tiling\<close>

lemma intervals_tile:
  assumes "sorted_wrt (<) (x # xs)" and "\<forall>y \<in> set (x # xs). y \<le> n"
  shows "concat (map (\<lambda>(a, b). [a..<b]) (zip (x # xs) (xs @ [n]))) = [x..<n]"
  using assms
proof (induction xs arbitrary: x)
  case (Cons y ys)
  have "concat (map (\<lambda>(a, b). [a..<b]) (zip (y # ys) (ys @ [n]))) = [y..<n]" using Cons by simp
  moreover have "[x..<y] @ [y..<n] = [x..<n]" using Cons.prems upt_add_eq_append [of x y "n - y"] by simp
  ultimately show ?case by simp
qed simp

lemma sections_at_headings:
  assumes "markdown_headings lines \<noteq> []"
  defines "starts \<equiv> heading_lines lines"
  defines "ends \<equiv> map (\<lambda>i. i - 1) (tl starts) @ [length lines]"
  shows "List.map_filter (section_at lines (markdown_headings lines)) (enumerate 0 (markdown_headings lines)) =
    map (\<lambda>((line_start, heading), line_end). \<lparr>ms_heading = heading, ms_line_start = line_start, ms_line_end = line_end,
           ms_text = section_text lines line_start line_end\<rparr>) (zip (markdown_headings lines) ends)"
    (is "List.map_filter ?f (enumerate 0 ?hs) = map ?g _")
proof -
  have len: "length starts = length ?hs" "length ends = length ?hs"
    using assms(1) by (simp_all add: starts_def ends_def heading_starts [symmetric])
  have start: "starts ! i = fst (?hs ! i)" if "i < length ?hs" for i
    using that by (simp add: starts_def heading_starts [symmetric])
  have last: "ends ! i = (if i + 1 < length ?hs then fst (?hs ! (i + 1)) - 1 else length lines)" if "i < length ?hs" for i
    using that len start [of "i + 1"] by (auto simp: ends_def nth_append nth_tl)
  have step: "?f (i, ?hs ! i) = Some (?g (?hs ! i, ends ! i))" if i: "i < length ?hs" for i
  proof -
    obtain a h where ah: "?hs ! i = (a, h)" by fastforce
    have mem: "(a, h) \<in> set ?hs" using i ah by (metis nth_mem)
    have "a \<in> set starts" using mem by (force simp: starts_def heading_starts [symmetric])
    then have a: "1 \<le> a" "a \<le> length lines" using heading_lines_props(2) by (auto simp: starts_def)
    have "a < starts ! (i + 1) \<and> starts ! (i + 1) \<le> length lines" if "i + 1 < length ?hs"
      using sorted_wrt_nth_less [OF heading_lines_props(1), of i "i + 1" lines] heading_lines_props(2) [of "starts ! (i + 1)" lines]
        that len(1) start [OF i] ah by (simp add: starts_def)
    then have "a \<le> ends ! i" "ends ! i \<le> length lines" using last [OF i] a start [of "i + 1"] by auto
    with a have "section_text lines a (ends ! i) \<noteq> []" by (intro section_text_nonempty [OF heading_found [OF mem]]) auto
    then show ?thesis using last [OF i] by (simp add: section_at_def ah Let_def)
  qed
  have "List.map_filter ?f (enumerate 0 ?hs) = map (\<lambda>(i, h). ?g (h, ends ! i)) (enumerate 0 ?hs)"
  proof -
    have "\<forall>x \<in> set (enumerate 0 ?hs). ?f x = Some ((\<lambda>(i, h). ?g (h, ends ! i)) x)"
    proof
      fix x
      assume "x \<in> set (enumerate 0 ?hs)"
      then obtain i where "i < length ?hs" "x = (i, ?hs ! i)" by (auto simp: in_set_enumerate_eq intro: prod_eqI)
      with step show "?f x = Some ((\<lambda>(i, h). ?g (h, ends ! i)) x)" by simp
    qed
    then show ?thesis by (rule map_filter_total)
  qed
  also have "\<dots> = map ?g (zip ?hs ends)"
    by (rule nth_equalityI) (auto simp: len nth_enumerate_eq)
  finally show ?thesis .
qed

lemma push_chunks:
  assumes "mapping_for_capture_name (lp_capture_mappings profile) ''doc.chunk'' = Some m"
  shows "sn_children (fold (\<lambda>s. push_markdown_capture profile ''doc.chunk'' (chunk_node s)) ss parent) =
    sn_children parent @ map (\<lambda>s. set_capture_name (cm_capture_name m) (chunk_node s)) ss"
proof (induction ss arbitrary: parent)
  case (Cons s ss)
  show ?case
    using Cons.IH [of "push_markdown_capture profile ''doc.chunk'' (chunk_node s) parent"] assms
    by (simp add: push_markdown_capture_def set_children_def)
qed simp

lemma sections_tile:
  assumes "heading_lines (str_lines source) \<noteq> []"
  shows "map ms_line_start (markdown_sections source) = heading_lines (str_lines source)"
    and "concat (map (\<lambda>s. [ms_line_start s..<ms_line_end s + 1]) (markdown_sections source)) =
      [hd (heading_lines (str_lines source))..<length (str_lines source) + 1]"
    and "s \<in> set (markdown_sections source) \<Longrightarrow>
      heading_of (str_lines source ! (ms_line_start s - 1)) = Some (ms_heading s)
      \<and> ms_text s = section_text (str_lines source) (ms_line_start s) (ms_line_end s)"
proof -
  let ?ls = "str_lines source"
  let ?hs = "markdown_headings ?ls" and ?starts = "heading_lines ?ls"
  let ?ends = "map (\<lambda>i. i - 1) (tl ?starts) @ [length ?ls]"
  have hs: "?hs \<noteq> []" using assms by (auto simp: heading_starts [symmetric])
  have len: "length ?ends = length ?hs" "length ?starts = length ?hs"
    using hs by (simp_all add: heading_starts [symmetric])
  have secs: "markdown_sections source = map (\<lambda>((line_start, heading), line_end). \<lparr>ms_heading = heading, ms_line_start = line_start,
      ms_line_end = line_end, ms_text = section_text ?ls line_start line_end\<rparr>) (zip ?hs ?ends)"
    using sections_at_headings [OF hs] hs by (simp add: markdown_sections_def Let_def)
  show starts: "map ms_line_start (markdown_sections source) = ?starts"
    unfolding heading_starts [symmetric] secs by (rule nth_equalityI) (auto simp: len split_beta)
  from assms obtain x xs where x: "?starts = x # xs" by (cases ?starts) auto
  have pos: "1 \<le> y \<and> y \<le> length ?ls" if "y \<in> set (x # xs)" for y using heading_lines_props(2) [of y ?ls] that x by simp
  have "i - 1 + 1 = i" if "i \<in> set xs" for i using pos [of i] that by simp
  then have "map (\<lambda>i. i - 1 + 1) xs = xs" by (rule map_idI)
  then have up: "map (\<lambda>e. e + 1) ?ends = xs @ [length ?ls + 1]" by (simp add: x comp_def)
  have "map (\<lambda>s. [ms_line_start s..<ms_line_end s + 1]) (map (\<lambda>((line_start, heading), line_end). \<lparr>ms_heading = heading,
      ms_line_start = line_start, ms_line_end = line_end, ms_text = section_text ?ls line_start line_end\<rparr>) (zip hs es))
      = map (\<lambda>(a, b). [a..<b]) (zip (map fst hs) (map (\<lambda>e. e + 1) es))" for hs es
    by (induction hs es rule: list_induct2') (auto simp del: upt_Suc)
  then have "map (\<lambda>s. [ms_line_start s..<ms_line_end s + 1]) (markdown_sections source)
      = map (\<lambda>(a, b). [a..<b]) (zip (map fst ?hs) (map (\<lambda>e. e + 1) ?ends))" unfolding secs .
  also have "\<dots> = map (\<lambda>(a, b). [a..<b]) (zip (x # xs) (xs @ [length ?ls + 1]))"
    using up by (simp only: heading_starts x)
  finally show "concat (map (\<lambda>s. [ms_line_start s..<ms_line_end s + 1]) (markdown_sections source)) = [hd ?starts..<length ?ls + 1]"
    using intervals_tile [of x xs "length ?ls + 1"] heading_lines_props(1) [of ?ls] pos by (fastforce simp: x simp del: upt_Suc)
  assume "s \<in> set (markdown_sections source)"
  then show "heading_of (?ls ! (ms_line_start s - 1)) = Some (ms_heading s)
      \<and> ms_text s = section_text ?ls (ms_line_start s) (ms_line_end s)"
    unfolding secs by (auto dest!: set_zip_leftD heading_found)
qed

section \<open>Properties\<close>

text \<open>
  C40. The chunks of a Markdown file tile it. Under the built-in profile the file becomes one document
  node and one chunk for every section. In a file with headings there is a section for each of them, in
  order, which begins at the heading and holds the lines up to the next one: together the sections
  hold every line from the first heading to the end of the file exactly once. A file without a heading
  is one section, or none when it is blank.
\<close>

theorem markdown_chunks_tile:
  "sn_children (fst (parse_markdown_source source markdown_profile)) =
     set_capture_name ''doc.source'' (document_node source)
     # map (\<lambda>s. set_capture_name ''doc.chunk'' (chunk_node s)) (markdown_sections source)
   \<and> (heading_lines (str_lines source) = [] \<longrightarrow> markdown_sections source =
        (if trim source = [] then []
         else [\<lparr>ms_heading = [], ms_line_start = 1, ms_line_end = max (length (str_lines source)) 1, ms_text = trim source\<rparr>]))
   \<and> (heading_lines (str_lines source) \<noteq> [] \<longrightarrow>
        map ms_line_start (markdown_sections source) = heading_lines (str_lines source)
        \<and> concat (map (\<lambda>s. [ms_line_start s..<ms_line_end s + 1]) (markdown_sections source)) =
            [hd (heading_lines (str_lines source))..<length (str_lines source) + 1]
        \<and> (\<forall>s \<in> set (markdown_sections source).
             heading_of (str_lines source ! (ms_line_start s - 1)) = Some (ms_heading s)
             \<and> ms_text s = section_text (str_lines source) (ms_line_start s) (ms_line_end s)))"
proof (intro conjI impI ballI)
  have m: "mapping_for_capture_name (lp_capture_mappings markdown_profile) ''doc.source'' =
      Some (mapping ''doc.source'' [''DocumentationSource''] ''DocumentationSource'')"
    "mapping_for_capture_name (lp_capture_mappings markdown_profile) ''doc.chunk'' =
      Some (mapping ''doc.chunk'' [''DocumentationChunk''] ''DocumentationChunk'')"
    "cm_capture_name (mapping name types target) = name" for name types target
    by (simp_all add: mapping_for_capture_name_def markdown_profile_def mapping_def mapping_with_context_def)
  show "sn_children (fst (parse_markdown_source source markdown_profile)) =
     set_capture_name ''doc.source'' (document_node source)
     # map (\<lambda>s. set_capture_name ''doc.chunk'' (chunk_node s)) (markdown_sections source)"
    using push_chunks [OF m(2)]
    by (simp add: parse_markdown_source_def Let_def m push_markdown_capture_def [of _ "''doc.source''"] set_children_def)
  assume "heading_lines (str_lines source) = []"
  then have "markdown_headings (str_lines source) = []" by (simp add: heading_starts [symmetric])
  then show "markdown_sections source = (if trim source = [] then []
       else [\<lparr>ms_heading = [], ms_line_start = 1, ms_line_end = max (length (str_lines source)) 1, ms_text = trim source\<rparr>])"
    by (simp add: markdown_sections_def Let_def)
qed (use sections_tile in auto)

definition sample_markdown :: string where
  "sample_markdown = ''Intro'' @ [newline_char] @ ''# One'' @ [newline_char] @ ''text'' @ [newline_char] @ ''## Two'' @ [newline_char]"

theorem markdown_chunks_tile_witness:
  "map ms_line_start (markdown_sections sample_markdown) = [2, 4]
   \<and> concat (map (\<lambda>s. [ms_line_start s..<ms_line_end s + 1]) (markdown_sections sample_markdown)) = [2, 3, 4]
   \<and> list_all (\<lambda>s. heading_of (str_lines sample_markdown ! (ms_line_start s - 1)) = Some (ms_heading s))
        (markdown_sections sample_markdown)"
proof -
  have "heading_lines (str_lines sample_markdown) = [2, 4]" "length (str_lines sample_markdown) = 4" by code_simp+
  moreover have "[2..<4 + 1] = [2, 3, 4 :: nat]" by code_simp
  ultimately show ?thesis using markdown_chunks_tile [of sample_markdown] by (simp add: list_all_iff)
qed

end
