(* ===== verification/Parser.thy ===== *)
theory Parser
  imports Markdown
begin

text \<open>
  The parser (\<^verbatim>\<open>src/parser/mod.rs\<close>, \<^verbatim>\<open>tree_sitter.rs\<close>, \<^verbatim>\<open>fields.rs\<close>): a tree of tree-sitter becomes a
  normalised syntax tree. The named nodes are kept with their positions, their texts and the names of
  their fields; the labels that the materializer reads later are computed here.

  Tree-sitter and its grammars are third-party: what they return is an argument. A node of tree-sitter
  is the data the code reads from it: kind, whether it is named, position, children, for every child
  the name of its field (\<open>field_name_for_child\<close>), and for a field name the index of the child that
  \<open>child_by_field_name\<close> returns. Markdown has the parser of theory \<open>Markdown\<close>.
\<close>

section \<open>Trees of tree-sitter\<close>

datatype ts_node = TsNode
  (ts_kind: string)
  (ts_is_named: bool)
  (ts_start_row: nat)
  (ts_end_row: nat)
  (ts_start_byte: nat)
  (ts_end_byte: nat)
  (ts_children: "ts_node list")
  (ts_child_fields: "string option list")
  (ts_field_children: "(string \<times> nat) list")

definition child_by_field_name :: "ts_node \<Rightarrow> string \<Rightarrow> ts_node option" where
  "child_by_field_name t field_name =
     (case map_of (ts_field_children t) field_name of
        None \<Rightarrow> None
      | Some i \<Rightarrow> if i < length (ts_children t) then Some (ts_children t ! i) else None)"

definition field_name_for_child :: "ts_node \<Rightarrow> nat \<Rightarrow> string option" where
  "field_name_for_child t i = (if i < length (ts_child_fields t) then ts_child_fields t ! i else None)"

definition named_children :: "ts_node \<Rightarrow> ts_node list" where
  "named_children t = filter ts_is_named (ts_children t)"

definition named_children_with_indices :: "ts_node \<Rightarrow> (nat \<times> ts_node) list" where
  "named_children_with_indices t = filter (\<lambda>(index, child). ts_is_named child) (enumerate 0 (ts_children t))"

lemma size_ts_child: "c \<in> set (ts_children t) \<Longrightarrow> size c < size t"
  by (cases t) (auto simp: size_list_estimation' [of c _ "size c" size] less_Suc_eq_le trans_le_add1)

lemma size_ts_filter: "size_list size (filter P xs) \<le> size_list size xs"
  by (induction xs) auto

lemma size_named_children [termination_simp]: "size_list size (named_children t) < size t"
  using size_ts_filter [of ts_is_named "ts_children t"] by (cases t) (simp add: named_children_def)

lemma size_child_by_field [termination_simp]: "child_by_field_name t f = Some c \<Longrightarrow> size c < size t"
  by (auto simp: child_by_field_name_def size_ts_child split: option.splits if_splits)

lemma size_named_index [termination_simp]: "(i, c) \<in> set (named_children_with_indices t) \<Longrightarrow> size c < size t"
  by (auto simp: named_children_with_indices_def in_set_enumerate_eq intro!: size_ts_child)

section \<open>Texts and labels\<close>

definition node_text :: "string \<Rightarrow> ts_node \<Rightarrow> string option" where
  "node_text source t =
     (let bytes = take (ts_end_byte t - ts_start_byte t) (drop (ts_start_byte t) source)
      in if utf8_valid bytes \<and> bytes \<noteq> [] then Some bytes else None)"

definition clean_label :: "string \<Rightarrow> string" where
  "clean_label s = replace_char newline_char (CHR '' '') (trim s)"

definition label_or_empty :: "string option \<Rightarrow> string" where
  "label_or_empty v = (case v of Some s \<Rightarrow> clean_label s | None \<Rightarrow> [])"

definition strip_import_delimiters :: "string \<Rightarrow> string" where
  "strip_import_delimiters s =
     trim (trim_matches_char (CHR ''>'') (trim_matches_char (CHR ''<'')
       (trim_matches_char (CHR 0x27) (trim_matches_char (CHR 0x22) (trim s)))))"

definition strip_literal_delimiters :: "string \<Rightarrow> string" where
  "strip_literal_delimiters s = trim_matches_char (CHR 0x27) (trim_matches_char (CHR 0x22) (trim s))"

section \<open>Searching the tree\<close>

fun collect_node_types :: "ts_node \<Rightarrow> string list"
  and collect_node_types_of :: "ts_node list \<Rightarrow> string list" where
  "collect_node_types t = (if ts_kind t \<noteq> [] then [ts_kind t] else []) @ collect_node_types_of (named_children t)"
| "collect_node_types_of [] = []"
| "collect_node_types_of (t # ts) = collect_node_types t @ collect_node_types_of ts"

text \<open>The \<open>BTreeSet\<close> of the types, in order.\<close>

definition node_types :: "ts_node \<Rightarrow> string list" where
  "node_types t = sort (remdups (collect_node_types t))"

fun first_descendant :: "string list \<Rightarrow> ts_node \<Rightarrow> ts_node option"
  and first_descendant_of :: "string list \<Rightarrow> ts_node list \<Rightarrow> ts_node option" where
  "first_descendant types t = first_descendant_of types (named_children t)"
| "first_descendant_of types [] = None"
| "first_descendant_of types (c # cs) =
     (if ts_kind c \<in> set types then Some c
      else case first_descendant types c of Some found \<Rightarrow> Some found | None \<Rightarrow> first_descendant_of types cs)"

declare collect_node_types.simps [simp del] first_descendant.simps [simp del]

definition first_descendant_text :: "string \<Rightarrow> ts_node \<Rightarrow> string list \<Rightarrow> string" where
  "first_descendant_text source t types = label_or_empty (Option.bind (first_descendant types t) (node_text source))"

definition direct_named_child_text :: "string \<Rightarrow> ts_node \<Rightarrow> string list \<Rightarrow> string" where
  "direct_named_child_text source t types =
     label_or_empty (Option.bind (find (\<lambda>c. ts_kind c \<in> set types) (named_children t)) (node_text source))"

definition wat_import_parts :: "string \<Rightarrow> ts_node \<Rightarrow> string \<times> string" where
  "wat_import_parts source t =
     (let strings = map strip_import_delimiters
            (List.map_filter (node_text source) (filter (\<lambda>c. ts_kind c = ''string'') (named_children t)))
      in (case strings of s # _ \<Rightarrow> s | [] \<Rightarrow> [], case strings of _ # s # _ \<Rightarrow> s | _ \<Rightarrow> []))"

definition declarator_identifiers :: "string list" where
  "declarator_identifiers =
     [''identifier'', ''field_identifier'', ''type_identifier'', ''qualified_identifier'', ''namespace_identifier'']"

fun declarator_name :: "string \<Rightarrow> ts_node \<Rightarrow> string"
  and declarator_name_of :: "string \<Rightarrow> ts_node list \<Rightarrow> string" where
  "declarator_name source t =
     (let by_name = (case child_by_field_name t ''name'' of Some c \<Rightarrow> label_or_empty (node_text source c) | None \<Rightarrow> []);
          by_declarator = (case child_by_field_name t ''declarator'' of Some c \<Rightarrow> declarator_name source c | None \<Rightarrow> [])
      in if by_name \<noteq> [] then by_name
         else if by_declarator \<noteq> [] then by_declarator
         else if ts_kind t \<in> set declarator_identifiers then label_or_empty (node_text source t)
         else declarator_name_of source (named_children t))"
| "declarator_name_of source [] = []"
| "declarator_name_of source (c # cs) =
     (let label = declarator_name source c in if label \<noteq> [] then label else declarator_name_of source cs)"

declare declarator_name.simps [simp del]

fun syntax_label :: "string \<Rightarrow> ts_node \<Rightarrow> string" where
  "syntax_label source t =
     (case child_by_field_name t ''name'' of
        Some c \<Rightarrow> label_or_empty (node_text source c)
      | None \<Rightarrow>
          let object = (case child_by_field_name t ''object'' of Some c \<Rightarrow> syntax_label source c | None \<Rightarrow> []);
              attribute = label_or_empty (Option.bind (child_by_field_name t ''attribute'') (node_text source))
          in if ts_kind t = ''attribute'' \<and> object \<noteq> [] \<and> attribute \<noteq> [] then object @ ''.'' @ attribute
             else if ts_kind t = ''attribute'' \<and> attribute \<noteq> [] then attribute
             else label_or_empty (node_text source t))"

declare syntax_label.simps [simp del]

definition derived_name :: "string \<Rightarrow> ts_node \<Rightarrow> string" where
  "derived_name source t =
     (let kind = ts_kind t in
      if kind \<in> {''function_definition'', ''function_declaration'', ''field_declaration'', ''declaration''}
      then (case child_by_field_name t ''declarator'' of Some c \<Rightarrow> declarator_name source c | None \<Rightarrow> [])
      else if kind = ''function_declarator'' then declarator_name source t
      else if kind = ''type_declaration''
      then label_or_empty (Option.bind (Option.bind (first_descendant [''type_spec''] t)
             (\<lambda>type_spec. child_by_field_name type_spec ''name'')) (node_text source))
      else if kind \<in> {''module'', ''subroutine'', ''function''}
      then let statement_type = (if kind = ''module'' then ''module_statement''
                                 else if kind = ''subroutine'' then ''subroutine_statement'' else ''function_statement'')
           in case Option.bind (Option.bind (first_descendant [statement_type] t) (\<lambda>statement.
                     case child_by_field_name statement ''name'' of Some c \<Rightarrow> Some c | None \<Rightarrow> first_descendant [''name''] statement))
                   (node_text source) of
                Some v \<Rightarrow> clean_label v
              | None \<Rightarrow> direct_named_child_text source t [''identifier'']
      else if kind \<in> {''module_field_func'', ''type_def''} then direct_named_child_text source t [''identifier'']
      else if kind = ''package_clause'' then first_descendant_text source t [''package_identifier'', ''identifier'']
      else [])"

fun first_text_of :: "string \<Rightarrow> ts_node \<Rightarrow> string list \<Rightarrow> string" where
  "first_text_of source t [] = []"
| "first_text_of source t (candidate # rest) =
     (let label = first_descendant_text source t [candidate]
      in if label \<noteq> [] then strip_import_delimiters label else first_text_of source t rest)"

definition import_module :: "string \<Rightarrow> ts_node \<Rightarrow> string" where
  "import_module source t =
     (if ts_kind t = ''preproc_include''
      then (case Option.bind (child_by_field_name t ''path'') (node_text source) of
              Some v \<Rightarrow> strip_import_delimiters v | None \<Rightarrow> [])
      else if ts_kind t = ''use_declaration''
      then label_or_empty (case named_children t of c # _ \<Rightarrow> node_text source c | [] \<Rightarrow> None)
      else if ts_kind t = ''import_declaration''
      then first_text_of source t
             [''interpreted_string_literal_content'', ''raw_string_literal_content'', ''interpreted_string_literal'',
              ''raw_string_literal'', ''string_literal'']
      else if ts_kind t = ''use_statement'' then first_descendant_text source t [''module_name'', ''name'']
      else [])"

section \<open>Fields\<close>

definition alias_json :: "string \<Rightarrow> json" where
  "alias_json name = JObject [(''name'', JString name), (''type'', JString ''alias'')]"

definition import_alias_json :: "string \<Rightarrow> json option" where
  "import_alias_json raw_name =
     (let name = trim (case split_at_str '' as '' (trim raw_name) of Some (left, _) \<Rightarrow> left | None \<Rightarrow> trim raw_name)
      in if name = [] then None else Some (alias_json name))"

definition parameter_annotation_from_text :: "string \<Rightarrow> ts_node \<Rightarrow> string option" where
  "parameter_annotation_from_text source t =
     Option.bind (node_text source t) (\<lambda>txt.
     Option.bind (split_once (CHR '':'') txt) (\<lambda>(_, right).
     let annotation = trim (case split_once (CHR ''='') right of Some (left, _) \<Rightarrow> left | None \<Rightarrow> right)
     in if annotation = [] then None else Some annotation))"

text \<open>\<open>if !label.is_empty() { fields.insert(key, json!(label)); }\<close>\<close>

definition insert_label :: "string \<Rightarrow> string \<Rightarrow> json_object \<Rightarrow> json_object" where
  "insert_label key label m = (if label \<noteq> [] then btree_insert key (JString label) m else m)"

definition insert_names :: "json list \<Rightarrow> json_object \<Rightarrow> json_object" where
  "insert_names names m = (if names \<noteq> [] then btree_insert ''names'' (JArray names) m else m)"

definition add_python_import_fields :: "string \<Rightarrow> ts_node \<Rightarrow> json_object \<Rightarrow> json_object" where
  "add_python_import_fields source t m =
     (let txt = label_or_empty (node_text source t);
          aliases = (\<lambda>names. List.map_filter import_alias_json (split_char (CHR '','') names))
      in if ts_kind t = ''import_from_statement''
         then case Option.bind (strip_prefix ''from '' txt) (split_at_str '' import '') of
                Some (imported, names) \<Rightarrow> insert_names (aliases names) (insert_label ''module'' (trim imported) m)
              | None \<Rightarrow> m
         else case strip_prefix ''import '' txt of
                Some names \<Rightarrow> insert_names (aliases names) m
              | None \<Rightarrow> m)"

text \<open>The label of a field of the node, under another key.\<close>

definition insert_child_label :: "string \<Rightarrow> ts_node \<Rightarrow> string \<Rightarrow> string \<Rightarrow> json_object \<Rightarrow> json_object" where
  "insert_child_label source t field_name key m =
     (case child_by_field_name t field_name of
        Some c \<Rightarrow> insert_label key (syntax_label source c) m
      | None \<Rightarrow> m)"

text \<open>The branches of \<open>augment_field_metadata\<close> that write labels, in the order of the code.\<close>

definition augment_imports :: "string \<Rightarrow> ts_node \<Rightarrow> json_object \<Rightarrow> json_object" where
  "augment_imports source t m =
     (let kind = ts_kind t;
          m = (if map_of m ''name'' = None then insert_label ''name'' (derived_name source t) m else m);
          m = (if kind \<in> {''use_declaration'', ''import_declaration'', ''preproc_include'', ''use_statement'', ''module_field_import''}
               then insert_label ''module'' (if kind = ''module_field_import'' then fst (wat_import_parts source t)
                                             else import_module source t) m
               else m);
          m = (if kind = ''module_field_import''
               then let imported = snd (wat_import_parts source t) in insert_names (if imported \<noteq> [] then [alias_json imported] else []) m
               else m)
      in if kind \<in> {''module_field_export'', ''export''}
         then insert_label ''name'' (strip_import_delimiters (direct_named_child_text source t [''string''])) m
         else m)"

definition augment_calls :: "string \<Rightarrow> ts_node \<Rightarrow> json_object \<Rightarrow> json_object" where
  "augment_calls source t m =
     (let kind = ts_kind t;
          m = (if kind = ''plain_instr'' \<and> direct_named_child_text source t [''instr_name''] \<in> {''call'', ''return_call''}
               then insert_label ''function'' (direct_named_child_text source t [''identifier'', ''uinteger'']) m
               else m)
      in if kind \<in> {''call_expression'', ''subroutine_call''} \<and> map_of m ''function'' = None
         then insert_label ''function'' (first_descendant_text source t [''identifier'', ''name'']) m
         else m)"

definition augment_labels :: "string \<Rightarrow> ts_node \<Rightarrow> json_object \<Rightarrow> json_object" where
  "augment_labels source t m =
     (let kind = ts_kind t;
          m = (if kind \<in> {''import_statement'', ''import_from_statement''} then add_python_import_fields source t m else m);
          m = (if kind = ''call'' then insert_child_label source t ''function'' ''func'' m else m);
          m = (if kind = ''assignment''
               then insert_child_label source t ''right'' ''value'' (insert_child_label source t ''left'' ''target'' m) else m);
          m = (if kind = ''attribute''
               then insert_child_label source t ''attribute'' ''attr'' (insert_child_label source t ''object'' ''value'' m) else m);
          m = (if kind \<in> {''string'', ''integer'', ''float'', ''true'', ''false'', ''none''}
               then insert_label ''value'' (case node_text source t of Some v \<Rightarrow> strip_literal_delimiters v | None \<Rightarrow> []) m
               else m)
      in if kind \<in> {''typed_parameter'', ''default_parameter''}
         then (case child_by_field_name t ''type'' of
                 Some c \<Rightarrow> insert_label ''annotation'' (syntax_label source c) m
               | None \<Rightarrow> (case parameter_annotation_from_text source t of
                    Some label \<Rightarrow> btree_insert ''annotation'' (JString label) m
                  | None \<Rightarrow> m))
         else m)"

text \<open>The types below a Go type declaration, which are those of its \<open>type_spec\<close>.\<close>

definition augment_types :: "ts_node \<Rightarrow> json_object \<times> json_object \<Rightarrow> json_object \<times> json_object" where
  "augment_types t = (\<lambda>(types, descendants).
     if ts_kind t = ''type_declaration''
     then case Option.bind (first_descendant [''type_spec''] t) (\<lambda>type_spec. child_by_field_name type_spec ''type'') of
            Some c \<Rightarrow> (btree_insert ''type'' (JString (ts_kind c)) types,
                        btree_insert ''type'' (JArray (map JString (node_types c))) descendants)
          | None \<Rightarrow> (types, descendants)
     else (types, descendants))"

definition augment_field_metadata ::
  "string \<Rightarrow> ts_node \<Rightarrow> json_object \<times> json_object \<times> json_object \<Rightarrow> json_object \<times> json_object \<times> json_object" where
  "augment_field_metadata source t = (\<lambda>(m, types, descendants).
     (augment_labels source t (augment_calls source t (augment_imports source t m)), augment_types t (types, descendants)))"

definition label_fields :: "string list" where
  "label_fields =
     [''name'', ''module'', ''path'', ''function'', ''type'', ''return_type'', ''declarator'', ''left'', ''right'', ''object'', ''attribute'']"

definition add_field ::
  "string \<Rightarrow> ts_node \<Rightarrow> string \<Rightarrow> json_object \<times> json_object \<times> json_object \<Rightarrow> json_object \<times> json_object \<times> json_object" where
  "add_field source t field_name = (\<lambda>(m, types, descendants).
     case child_by_field_name t field_name of
       None \<Rightarrow> (m, types, descendants)
     | Some c \<Rightarrow>
         (if field_name \<noteq> ''declarator'' then insert_label field_name (label_or_empty (node_text source c)) m else m,
          btree_insert field_name (JString (ts_kind c)) types,
          btree_insert field_name (JArray (map JString (node_types c))) descendants))"

definition tree_sitter_fields :: "string \<Rightarrow> ts_node \<Rightarrow> json_object" where
  "tree_sitter_fields source t =
     (let (m, types, descendants) = augment_field_metadata source t (fold (add_field source t) label_fields ([], [], []));
          m = (if types \<noteq> [] then btree_insert ''_field_types'' (JObject types) m else m)
      in if descendants \<noteq> [] then btree_insert ''_field_descendant_types'' (JObject descendants) m else m)"

fun first_field_label :: "json_object \<Rightarrow> string list \<Rightarrow> string" where
  "first_field_label m [] = []"
| "first_field_label m (key # keys) =
     (case Option.bind (map_of m key) as_str of
        Some v \<Rightarrow> if v \<noteq> [] then v else first_field_label m keys
      | None \<Rightarrow> first_field_label m keys)"

section \<open>Normalisation\<close>

definition set_field_name :: "string option \<Rightarrow> syntax_node \<Rightarrow> syntax_node" where
  "set_field_name field_name node =
     SyntaxNode (sn_node_type node) (sn_text node) (sn_line_start node) (sn_line_end node)
       (sn_byte_start node) (sn_byte_end node) (sn_capture_name node) field_name (sn_children node) (sn_fields node)"

text \<open>
  A child's index converts to \<open>u32\<close> below \<open>2 ^ 32\<close>. The text of a node without one is the label of a field.
\<close>

fun normalize_tree_sitter_node :: "string \<Rightarrow> ts_node \<Rightarrow> syntax_node" where
  "normalize_tree_sitter_node source t =
     (let m = tree_sitter_fields source t
      in SyntaxNode (ts_kind t)
           (case node_text source t of
              Some v \<Rightarrow> v
            | None \<Rightarrow> first_field_label m [''name'', ''id'', ''module'', ''path'', ''function''])
           (Some (int (ts_start_row t + 1))) (Some (int (ts_end_row t + 1)))
           (Some (int (ts_start_byte t))) (Some (int (ts_end_byte t))) [] None
           (map (\<lambda>(index, child). set_field_name (if index < 2 ^ 32 then field_name_for_child t index else None)
                  (normalize_tree_sitter_node source child)) (named_children_with_indices t))
           m)"

declare normalize_tree_sitter_node.simps [simp del]

section \<open>Parsing a source\<close>

datatype grammar =
    GrammarC | GrammarCpp | GrammarCss | GrammarFortran | GrammarGo | GrammarHtml | GrammarJavascript
  | GrammarPython | GrammarRust | GrammarTsx | GrammarTypescript | GrammarWat

definition grammar_of :: "string \<Rightarrow> string \<Rightarrow> grammar option" where
  "grammar_of package language =
     (if package = ''tree_sitter_c'' \<or> language = ''c'' then Some GrammarC
      else if package = ''tree_sitter_cpp'' \<or> language = ''cpp'' then Some GrammarCpp
      else if package = ''tree_sitter_css'' \<or> language = ''css'' then Some GrammarCss
      else if package = ''tree_sitter_fortran'' \<or> language = ''fortran'' then Some GrammarFortran
      else if package = ''tree_sitter_go'' \<or> language = ''go'' then Some GrammarGo
      else if package = ''tree_sitter_html'' \<or> language = ''html'' then Some GrammarHtml
      else if package = ''tree_sitter_javascript'' \<or> language = ''javascript'' then Some GrammarJavascript
      else if package = ''tree_sitter_python'' \<or> language = ''python'' then Some GrammarPython
      else if package = ''tree_sitter_rust'' \<or> language = ''rust'' then Some GrammarRust
      else if language = ''tsx'' then Some GrammarTsx
      else if package = ''tree_sitter_typescript'' \<or> language = ''typescript'' then Some GrammarTypescript
      else if package = ''tree_sitter_wat'' \<or> language = ''webassembly'' then Some GrammarWat
      else None)"

definition grammar_language :: "language_profile \<Rightarrow> grammar option" where
  "grammar_language profile = grammar_of (lp_grammar_package profile) (lp_language profile)"

text \<open>
  What the crates provide: loading a grammar may fail with a message, parsing may return no tree, and a
  grammar has the text of its node types.
\<close>

record grammar_env =
  gr_load_error :: "grammar \<Rightarrow> string option"
  gr_parse :: "grammar \<Rightarrow> string \<Rightarrow> ts_node option"
  gr_node_types :: "grammar \<Rightarrow> string"

definition grammar_node_types :: "grammar_env \<Rightarrow> language_profile \<Rightarrow> string option" where
  "grammar_node_types env profile = map_option (gr_node_types env) (grammar_language profile)"

definition root_diagnostics :: "language_profile \<Rightarrow> string \<Rightarrow> string list" where
  "root_diagnostics profile kind =
     (if lp_root_node_types profile \<noteq> [] \<and> kind \<notin> set (lp_root_node_types profile)
      then [''Unexpected root node '' @ kind @ '' for '' @ lp_language profile] else [])"

definition parse_tree_sitter_source ::
  "unicode \<Rightarrow> grammar_env \<Rightarrow> string \<Rightarrow> language_profile \<Rightarrow> (syntax_node \<times> string list) result" where
  "parse_tree_sitter_source U env source profile =
     (case grammar_language profile of
        None \<Rightarrow> Inl (Unsupported (''Unsupported native grammar for language '' @ lp_language profile @ '' ('' @ lp_grammar_package profile @ '')''))
      | Some g \<Rightarrow>
     (case gr_load_error env g of
        Some message \<Rightarrow> Inl (Unsupported message)
      | None \<Rightarrow>
     (case gr_parse env g source of
        None \<Rightarrow> Inl (InvalidInput ''tree-sitter parser returned no tree'')
      | Some t \<Rightarrow>
          let node = normalize_tree_sitter_node source t
          in Inr (mark_captures U (lp_capture_mappings profile) [] node, root_diagnostics profile (sn_node_type node)))))"

definition parse_source ::
  "unicode \<Rightarrow> grammar_env \<Rightarrow> string \<Rightarrow> language_profile \<Rightarrow> (syntax_node \<times> string list) result" where
  "parse_source U env source profile =
     (if lp_language profile = ''markdown'' then Inr (parse_markdown_source source profile)
      else parse_tree_sitter_source U env source profile)"

section \<open>What a parsed tree is\<close>

text \<open>
  \<open>normalizes source t node\<close>: \<open>node\<close> is \<open>t\<close> without its anonymous nodes: kind, lines from 1, bytes, the
  source text of the node, the named children in order, each with the name of its field.
\<close>

function normalizes :: "string \<Rightarrow> ts_node \<Rightarrow> syntax_node \<Rightarrow> bool" where
  "normalizes source t node \<longleftrightarrow>
     sn_node_type node = ts_kind t
     \<and> sn_line_start node = Some (int (ts_start_row t) + 1) \<and> sn_line_end node = Some (int (ts_end_row t) + 1)
     \<and> sn_byte_start node = Some (int (ts_start_byte t)) \<and> sn_byte_end node = Some (int (ts_end_byte t))
     \<and> (case node_text source t of Some v \<Rightarrow> sn_text node = v | None \<Rightarrow> True)
     \<and> length (sn_children node) = length (named_children_with_indices t)
     \<and> list_all (\<lambda>((index, child), n). (index < 2 ^ 32 \<longrightarrow> sn_field_name n = field_name_for_child t index) \<and> normalizes source child n)
         (zip (named_children_with_indices t) (sn_children node))"
  by pat_completeness auto
termination
  by (relation "measure (\<lambda>(source, t, node). size t)") (auto dest!: set_zip_leftD simp: size_named_index)

text \<open>\<open>marked\<close>: every node has the capture name of the mapping that its type, fields and ancestors select.\<close>

fun marked :: "unicode \<Rightarrow> capture_mapping list \<Rightarrow> string list \<Rightarrow> syntax_node \<Rightarrow> bool" where
  "marked U mappings ancestors node \<longleftrightarrow>
     sn_capture_name node = (case mapping_for_syntax_node U node mappings ancestors of Some m \<Rightarrow> cm_capture_name m | None \<Rightarrow> [])
     \<and> list_all (marked U mappings (ancestors @ [sn_node_type node])) (sn_children node)"

text \<open>\<open>labelled\<close>: the fields of every node are an ordered map without empty labels.\<close>

definition fields_ok :: "json_object \<Rightarrow> bool" where
  "fields_ok m \<longleftrightarrow> btree_inv m \<and> list_all (\<lambda>(key, v). v \<noteq> JString []) m"

fun labelled :: "syntax_node \<Rightarrow> bool" where
  "labelled node \<longleftrightarrow> fields_ok (sn_fields node) \<and> list_all labelled (sn_children node)"

fun unmarked :: "syntax_node \<Rightarrow> bool" where
  "unmarked node \<longleftrightarrow> sn_capture_name node = [] \<and> list_all unmarked (sn_children node)"

declare normalizes.simps [simp del] marked.simps [simp del] labelled.simps [simp del] unmarked.simps [simp del]

lemmas tree_views = normalizes.simps marked.simps labelled.simps unmarked.simps

subsection \<open>Normalisation\<close>

lemma set_field_name_simps [simp]:
  "sn_node_type (set_field_name f n) = sn_node_type n" "sn_text (set_field_name f n) = sn_text n"
  "sn_line_start (set_field_name f n) = sn_line_start n" "sn_line_end (set_field_name f n) = sn_line_end n"
  "sn_byte_start (set_field_name f n) = sn_byte_start n" "sn_byte_end (set_field_name f n) = sn_byte_end n"
  "sn_capture_name (set_field_name f n) = sn_capture_name n" "sn_field_name (set_field_name f n) = f"
  "sn_children (set_field_name f n) = sn_children n" "sn_fields (set_field_name f n) = sn_fields n"
  by (simp_all add: set_field_name_def)

lemma views_set_field_name [simp]:
  "normalizes source t (set_field_name f n) = normalizes source t n"
  "labelled (set_field_name f n) = labelled n" "unmarked (set_field_name f n) = unmarked n"
  by (simp_all add: normalizes.simps [of source t] labelled.simps [of n] labelled.simps [of "set_field_name f n"]
      unmarked.simps [of n] unmarked.simps [of "set_field_name f n"] split: option.split)

lemma fields_ok_insert: "fields_ok m \<Longrightarrow> v \<noteq> JString [] \<Longrightarrow> fields_ok (btree_insert k v m)"
  using set_btree_insert [of k v m] by (auto simp: fields_ok_def btree_inv_insert list_all_iff)

lemma fields_ok_label: "fields_ok m \<Longrightarrow> fields_ok (insert_label key label m)"
  by (simp add: insert_label_def fields_ok_insert)

lemma fields_ok_names: "fields_ok m \<Longrightarrow> fields_ok (insert_names names m)"
  by (simp add: insert_names_def fields_ok_insert)

lemma fields_ok_child: "fields_ok m \<Longrightarrow> fields_ok (insert_child_label source t f key m)"
  by (simp add: insert_child_label_def fields_ok_label split: option.split)

lemma fields_ok_python: "fields_ok m \<Longrightarrow> fields_ok (add_python_import_fields source t m)"
  by (auto simp: add_python_import_fields_def Let_def fields_ok_names fields_ok_label split: option.split)

lemma annotation_nonempty: "parameter_annotation_from_text source t = Some label \<Longrightarrow> label \<noteq> []"
  by (auto simp: parameter_annotation_from_text_def Let_def bind_eq_Some_conv split: if_splits option.splits)

lemma fields_ok_augment: "fields_ok m \<Longrightarrow> fields_ok (augment_labels source t (augment_calls source t (augment_imports source t m)))"
proof -
  assume "fields_ok m"
  then have "fields_ok (augment_imports source t m)"
    by (simp add: augment_imports_def Let_def fields_ok_names fields_ok_label)
  then have "fields_ok (augment_calls source t (augment_imports source t m))"
    by (simp add: augment_calls_def Let_def fields_ok_label)
  then show ?thesis
    by (simp add: augment_labels_def Let_def fields_ok_label fields_ok_child fields_ok_python fields_ok_insert annotation_nonempty
        split: option.split)
qed

lemma fields_ok_fields: "fields_ok (tree_sitter_fields source t)"
proof -
  have "fields_ok (fst (fold (add_field source t) names (m, ts)))" if "fields_ok m" for names m ts
    using that
  proof (induction names arbitrary: m ts)
    case (Cons name names)
    obtain m' ts' where st: "add_field source t name (m, ts) = (m', ts')" by (cases "add_field source t name (m, ts)")
    with Cons.prems have "fields_ok m'"
      by (cases ts) (auto simp: add_field_def fields_ok_label split: option.splits if_splits)
    with Cons.IH st show ?case by simp
  qed simp
  from this [of "[]"] have "fields_ok (fst (fold (add_field source t) label_fields ([], [], [])))" by (simp add: fields_ok_def)
  then show ?thesis
    by (auto simp: tree_sitter_fields_def augment_field_metadata_def Let_def split_beta fields_ok_insert fields_ok_augment)
qed

lemma normalized:
  "normalizes source t (normalize_tree_sitter_node source t)
   \<and> labelled (normalize_tree_sitter_node source t) \<and> unmarked (normalize_tree_sitter_node source t)"
proof (induction t rule: measure_induct_rule [of size])
  case (less t)
  let ?cs = "named_children_with_indices t"
  let ?f = "\<lambda>(index, child). set_field_name (if index < 2 ^ 32 then field_name_for_child t index else None) (normalize_tree_sitter_node source child)"
  have child: "normalizes source c (normalize_tree_sitter_node source c)" "labelled (normalize_tree_sitter_node source c)"
    "unmarked (normalize_tree_sitter_node source c)" if "(i, c) \<in> set ?cs" for i c
    using less [OF size_named_index [OF that]] by auto
  have kids: "sn_children (normalize_tree_sitter_node source t) = map ?f ?cs"
    by (subst normalize_tree_sitter_node.simps) (simp add: Let_def)
  have "list_all (\<lambda>((index, child), n). (index < 2 ^ 32 \<longrightarrow> sn_field_name n = field_name_for_child t index) \<and> normalizes source child n)
      (zip ?cs (map ?f ?cs))"
    using child(1) by (auto simp: zip_map2 zip_same_conv_map list_all_iff)
  moreover have "list_all labelled (map ?f ?cs)" "list_all unmarked (map ?f ?cs)"
    using child(2,3) by (auto simp: list_all_iff)
  moreover have "sn_fields (normalize_tree_sitter_node source t) = tree_sitter_fields source t"
    by (subst normalize_tree_sitter_node.simps) (simp add: Let_def)
  ultimately show ?case
    unfolding normalizes.simps [of source t] labelled.simps [of "normalize_tree_sitter_node source t"]
      unmarked.simps [of "normalize_tree_sitter_node source t"] kids
    by (simp add: fields_ok_fields normalize_tree_sitter_node.simps [of source t] Let_def split: option.split)
qed

subsection \<open>Marking\<close>

lemma mark_captures_simps:
  "sn_node_type (mark_captures U ms anc n) = sn_node_type n" "sn_text (mark_captures U ms anc n) = sn_text n"
  "sn_line_start (mark_captures U ms anc n) = sn_line_start n" "sn_line_end (mark_captures U ms anc n) = sn_line_end n"
  "sn_byte_start (mark_captures U ms anc n) = sn_byte_start n" "sn_byte_end (mark_captures U ms anc n) = sn_byte_end n"
  "sn_field_name (mark_captures U ms anc n) = sn_field_name n" "sn_fields (mark_captures U ms anc n) = sn_fields n"
  "sn_children (mark_captures U ms anc n) = map (mark_captures U ms (anc @ [sn_node_type n])) (sn_children n)"
  by (subst mark_captures.simps, simp add: Let_def set_children_def set_capture_name_def split: option.split)+

text \<open>The choice of a mapping reads the type and the fields of a node only.\<close>

lemma mapping_same:
  assumes "sn_node_type a = sn_node_type b" and "sn_fields a = sn_fields b"
  shows "mapping_for_syntax_node U a ms anc = mapping_for_syntax_node U b ms anc"
proof -
  have "context_rule_matches U rule a anc = context_rule_matches U rule b anc" for rule
    unfolding context_rule_matches_def field_type_matches_def field_descendant_has_def assms(2) ..
  then show ?thesis unfolding mapping_for_syntax_node_def mapping_candidates_def assms(1) by simp
qed

lemma mark_captures_name:
  "sn_capture_name (mark_captures U ms anc n) =
     (case mapping_for_syntax_node U n ms anc of Some m \<Rightarrow> cm_capture_name m | None \<Rightarrow> sn_capture_name n)"
proof -
  have "mapping_for_syntax_node U (set_children cs n) ms anc = mapping_for_syntax_node U n ms anc" for cs
    by (rule mapping_same) (simp_all add: set_children_def)
  then show ?thesis
    by (subst mark_captures.simps) (simp add: Let_def set_children_def set_capture_name_def split: option.split)
qed

lemma mark_captures_marked: "unmarked n \<Longrightarrow> marked U ms anc (mark_captures U ms anc n)"
proof (induction U ms anc n rule: mark_captures.induct)
  case (1 U ms anc n)
  have "mapping_for_syntax_node U (mark_captures U ms anc n) ms anc = mapping_for_syntax_node U n ms anc"
    by (rule mapping_same) (simp_all add: mark_captures_simps)
  moreover have "list_all (marked U ms (anc @ [sn_node_type n])) (map (mark_captures U ms (anc @ [sn_node_type n])) (sn_children n))"
    using 1 by (auto simp: list_all_iff unmarked.simps [of n])
  ultimately show ?case
    using 1(2) by (simp add: marked.simps [of U ms anc] mark_captures_simps mark_captures_name unmarked.simps [of n] split: option.split)
qed

lemma mark_captures_labelled: "labelled n \<Longrightarrow> labelled (mark_captures U ms anc n)"
proof (induction U ms anc n rule: mark_captures.induct)
  case (1 U ms anc n)
  then show ?case
    by (auto simp: labelled.simps [of n] labelled.simps [of "mark_captures U ms anc n"] mark_captures_simps list_all_iff)
qed

lemma mark_captures_normalizes: "normalizes source t n \<Longrightarrow> normalizes source t (mark_captures U ms anc n)"
proof (induction source t n arbitrary: anc rule: normalizes.induct)
  case (1 source t n)
  have "list_all (\<lambda>((index, child), n). (index < 2 ^ 32 \<longrightarrow> sn_field_name n = field_name_for_child t index) \<and> normalizes source child n)
      (zip (named_children_with_indices t) (map (mark_captures U ms (anc @ [sn_node_type n])) (sn_children n)))"
    using 1 by (fastforce simp: zip_map2 list_all_iff mark_captures_simps normalizes.simps [of source t n])
  with 1(2) show ?case
    by (cases "node_text source t") (simp_all add: normalizes.simps [of source t] mark_captures_simps)
qed

lemma parse_tree_sitter_ok:
  assumes "lp_language profile \<noteq> ''markdown''" and "grammar_language profile = Some g"
    and "gr_load_error env g = None" and "gr_parse env g source = Some t"
  shows "\<exists>node diagnostics. parse_source U env source profile = Inr (node, diagnostics)
     \<and> normalizes source t node \<and> marked U (lp_capture_mappings profile) [] node \<and> labelled node
     \<and> (diagnostics = [] \<longleftrightarrow> lp_root_node_types profile = [] \<or> ts_kind t \<in> set (lp_root_node_types profile))"
proof -
  let ?n = "normalize_tree_sitter_node source t"
  have kind: "sn_node_type ?n = ts_kind t" using normalized [of source t] by (simp add: normalizes.simps [of source t])
  show ?thesis
    using assms normalized [of source t]
    by (auto simp: parse_source_def parse_tree_sitter_source_def Let_def root_diagnostics_def kind
        intro: mark_captures_marked mark_captures_labelled mark_captures_normalizes)
qed

end
