(* ===== verification/Spec2Isabelle.thy ===== *)
theory Spec2Isabelle
  imports Incremental Coordinator GraphWriter Parser
begin

text \<open>
  A verification development of codebaseGraph, which turns a repository into a graph of its source code
  in a database, with a search index beside it. Modelled is the path of one materialization run,
  from the files of the repository to the statements that load the database, and the server that
  admits such runs. Paths below are relative to the repository.

  \<^bold>\<open>The program and its parts.\<close> A request names a repository, a staging directory, a database and options
  (\<^verbatim>\<open>src/protocol.rs\<close>). The scan walks the sources, selects files, hashes them, compares them with
  the manifest of the previous run and freezes what must be parsed. For every source a worker either
  takes the partition of an earlier run from the artifact store or parses the frozen copy with tree-sitter,
  builds the rows of its graph and stores them. All partitions are then read back and staged: rows are
  sorted on disk, merged, typed and written as JSON and CSV files with COPY statements. A search index
  is built from the staged files. Finally the schema and the COPY statements go to the database. A
  coordinator process serves such requests one at a time.

  \<^bold>\<open>Theories and sources.\<close>
  \<^item> \<open>Prelude\<close>, \<open>NativeErrors\<close> (\<^verbatim>\<open>src/error.rs\<close>), \<open>Bytes\<close>, \<open>TextOps\<close>: results, strings as UTF-8 bytes, ordered maps,
    integers and readers; \<open>Hash\<close>: SHA-1 and the stable identifiers (\<^verbatim>\<open>src/hash.rs\<close>, \<^verbatim>\<open>syntax_materializer/ids.rs\<close>).
  \<^item> \<open>Profiles\<close> (\<^verbatim>\<open>src/profiles.rs\<close>), \<open>Protocol\<close> (\<^verbatim>\<open>src/protocol.rs\<close>), \<open>Selection\<close> (\<^verbatim>\<open>src/source_selection.rs\<close>), \<open>Scan\<close> and \<open>Snapshot\<close>
    (\<^verbatim>\<open>src/scan.rs\<close>): requests, languages, which files are taken, the diff, the spool of frozen sources.
  \<^item> \<open>Parser\<close> and \<open>Markdown\<close> (\<^verbatim>\<open>src/parser/\<close>): from a tree of tree-sitter, or a Markdown text, to a syntax tree.
  \<^item> \<open>SyntaxTree\<close> (\<^verbatim>\<open>src/normalize.rs\<close>, \<^verbatim>\<open>parser/captures.rs\<close>, \<^verbatim>\<open>syntax_materializer/arena.rs\<close>), \<open>Captures\<close>
    (\<^verbatim>\<open>syntax_materializer/capture.rs\<close>), \<open>Relations\<close>, \<open>Schema\<close>, \<open>Builder\<close>, \<open>BuilderInv\<close>, \<open>Semantic\<close>, \<open>Traversal\<close>
    (\<^verbatim>\<open>syntax_materializer/\<close>), \<open>Partition\<close> (\<^verbatim>\<open>src/partition_builder.rs\<close>): from a syntax tree to the rows of a partition.
    \<open>Schema\<close> is the relations of the shipped ontology (\<^verbatim>\<open>assets/graph_schema.json\<close>).
  \<^item> \<open>ArtifactStore\<close> (\<^verbatim>\<open>src/artifact_store.rs\<close>), \<open>WorkerPool\<close>, \<open>Execution\<close>, \<open>Incremental\<close> (\<^verbatim>\<open>src/execution/\<close>): keys, cache, the pool of
    workers as a step relation, the pipeline, and what an incremental run computes.
  \<^item> \<open>RunMerge\<close>, \<open>Spill\<close> (\<^verbatim>\<open>staging_writer/spill.rs\<close>), \<open>StagingRows\<close> (\<^verbatim>\<open>rows.rs\<close>, \<^verbatim>\<open>merge.rs\<close>, \<^verbatim>\<open>files.rs\<close>), \<open>StagingSinks\<close>, \<open>Staging\<close>
    (\<^verbatim>\<open>accumulator.rs\<close>), \<open>StagingGroups\<close>, \<open>StagingFinish\<close>, \<open>StagingRun\<close> (its proofs): sorting and staging.
  \<^item> \<open>Occurrences\<close>, \<open>IndexWriter\<close>, \<open>IndexReader\<close>, \<open>SearchBuild\<close>, \<open>SearchQuery\<close>, \<open>SearchRank\<close>, \<open>SearchExact\<close>
    (\<^verbatim>\<open>src/search_index/\<close>): building, validating and searching the index.
  \<^item> \<open>Catalog\<close> (\<^verbatim>\<open>src/api/catalog_support.rs\<close>), \<open>DatabaseWriter\<close> (\<^verbatim>\<open>src/db_writer/\<close>), \<open>GraphWriter\<close> (\<^verbatim>\<open>staging_writer/writer.rs\<close>): the
    schema, the phases of a load, and the call that joins them.
  \<^item> \<open>Coordinator\<close> (\<^verbatim>\<open>src/coordinator.rs\<close>): admission, execution and shutdown as a step relation.

  \<^bold>\<open>How the code is modelled.\<close> A struct is a record, an enum a datatype, a \<open>BTreeMap\<close> its sorted list of entries, a
  \<open>String\<close> its bytes, \<open>u64\<close> a word where it wraps or saturates and a number with explicit checks where the
  code checks. A \<open>Result\<close> is a sum whose left side has the error of the code, \<open>?\<close> is \<open>try_op\<close>. Files are a map from
  paths to contents that is passed along; threads are step relations over every interleaving. What is
  not in the repository is an argument: the tables of Unicode, SHA-256, the codecs of JSON, sizes of
  allocations, floating-point scores, the directory walker, tree-sitter and the database. What a theorem
  needs of an argument is one of its hypotheses (codecs that invert each other, a hash that tells apart
  what occurs), and its witness instantiates it.

  \<^bold>\<open>What is shown.\<close>
  \<^item> Materialization (\<open>Partition\<close>): it returns on every tree, succeeds when the policy allows the relations it
    insists on, as the shipped ontology does, loses no node of the tree, and leaves no dangling, refused or
    repeated row. With the parser in front, every named node of tree-sitter is in the graph (\<open>parsed_source_in_graph\<close>).
  \<^item> Scan: the diff is exact, pruning loses no file, and a source that changes meanwhile is never parsed
    under a hash that is not its own (\<open>Scan\<close>, \<open>Selection\<close>, \<open>Snapshot\<close>).
  \<^item> Execution: the pool of workers neither blocks nor differs from a loop of one thread, and a run on top of
    earlier ones stages what a run from scratch stages (\<open>Incremental\<close>).
  \<^item> Staging: it refines the merge of all rows by identifier, reports the first missing endpoint, and never fails on
    partitions whose edges end at their own nodes (\<open>StagingRun\<close>). Both external sorts are sorts (\<open>Spill\<close>, \<open>Occurrences\<close>).
  \<^item> Loading: the schema has a place for everything staged and the schedule respects the indexes (\<open>staged_graph_loads\<close>).
  \<^item> Search: what a build writes validates, and a search on it returns the ranking of all documents (\<open>SearchExact\<close>).
  \<^item> Coordinator: one job at a time, none lost, and shutdown drains.
  \<^item> Where the code does not do what it says, the refutation is a theorem: \<open>wildcard_literal_star_refuted\<close>,
    \<open>should_descend_hash_refuted\<close>, \<open>digest_ignores_mapping_order\<close>, \<open>merged_text_left_behind\<close>, and the lemma \<open>eager_load_refused\<close>.

  \<^bold>\<open>Interfaces.\<close> \<open>record_format\<close> (bytes that read back), \<open>run_merge\<close> and \<open>record_merge\<close> (merging sorted readers) and \<open>record_source\<close>
  (a stream of records) are locales, interpreted for the occurrence runs, the spool items, the
  lexicon, the posting cursors, sorted streams and record files. \<open>independent_work\<close> says which work of parallel jobs commutes;
  \<open>planned_run\<close>, over a scan, has it as a sublocale, and \<open>incremental_run\<close> extends it.

  \<^bold>\<open>Fuel and termination.\<close> Recursions over arena identifiers carry fuel and start with the length of the arena plus one, which
  is enough because a child's identifier is larger than its parent's (\<open>Traversal\<close>, \<open>Captures\<close>). Loops over
  a file start with more fuel than the file has bytes, and every record takes one. The wildcard loop is a partial function that is shown to
  return. Running out of fuel is the value \<open>Diverged\<close>, which no theorem of success admits.

  \<^bold>\<open>Not modelled.\<close> Failures of the operating system other than those the code turns into the errors above, and the state after a
  failed operation. The storage layer (\<^verbatim>\<open>src/storage/\<close>): leases, receipts, generations and maintenance are protocols
  over inodes, locks and crashes; around the modelled code they can turn a success into an error only.
  Child processes and their supervision, the client side and the election of the coordinator, the
  application interface, the adapters and the tools of the workspace, which are input and output around what is
  modelled. Timings and peak memory, except for the accounting of \<open>Execution\<close>. Pools do not panic and locks are not poisoned.
\<close>

section \<open>From a source to its rows\<close>

lemma set_artifact_key_rows [simp]: "gp_nodes (set_artifact_key key p) = gp_nodes p" "gp_edges (set_artifact_key key p) = gp_edges p"
  by (simp_all add: set_artifact_key_def)

lemma set_artifact_key_mirror: "rows_mirror path p node \<Longrightarrow> rows_mirror path (set_artifact_key key p) node"
proof (induction path p node rule: rows_mirror.induct)
  case (1 path p node)
  then show ?case
    by (auto simp: rows_mirror.simps [of path p node] rows_mirror.simps [of path "set_artifact_key key p" node] list_all_iff)
qed

lemma ontology_covers:
  assumes "rq_relation_types request = shipped_relation_types \<or> rq_relation_types request = []"
  shows "policy_covers (allows (request_allowlist request))"
  using assms shipped_policy_covers default_policy_covers by (auto simp: request_allowlist_def allows_default)

text \<open>
  C2. Every named node of the source is in the graph. When tree-sitter returns a tree for the bytes that
  the scan has frozen, parsing and materialising them succeeds with the shipped ontology, or with
  none. The parsed tree is the tree of tree-sitter without its anonymous nodes, with the same kinds, lines,
  bytes, texts, order and field names, and the capture names that the profile selects; the
  partition has a row for each of its nodes and an edge for each parent and child, and no edge of it dangles.
\<close>

theorem parsed_source_in_graph:
  assumes "xe_parse env = parse_source (xe_unicode env) grammars"
    and "d (Staged (ss_absolute_path snap)) = Some source" and "utf8_valid source"
    and "length source = ss_byte_len snap" and "sha256_hex (xe_scan env) source = ss_content_hash snap"
    and "lp_language profile \<noteq> ''markdown''" and "grammar_language profile = Some g"
    and "gr_load_error grammars g = None" and "gr_parse grammars g source = Some t"
    and "xe_decode_relations env (xe_encode_relations env (rq_relation_types request)) = Inr (rq_relation_types request)"
    and "rq_relation_types request = shipped_relation_types \<or> rq_relation_types request = []"
  shows "\<exists>p diagnostics node. parsed_partition env request snap profile key d = Inr (p, diagnostics)
     \<and> normalizes source t node \<and> marked (xe_unicode env) (lp_capture_mappings profile) [] node \<and> labelled node
     \<and> (diagnostics = [] \<longleftrightarrow> lp_root_node_types profile = [] \<or> ts_kind t \<in> set (lp_root_node_types profile))
     \<and> rows_mirror (ss_path snap) p node \<and> rows_closed (request_allowlist request) p"
proof -
  from parse_tree_sitter_ok [OF assms(6-9), of "xe_unicode env"] obtain node diagnostics where
    node: "parse_source (xe_unicode env) grammars source profile = Inr (node, diagnostics)"
      "normalizes source t node" "marked (xe_unicode env) (lp_capture_mappings profile) [] node" "labelled node"
      "diagnostics = [] \<longleftrightarrow> lp_root_node_types profile = [] \<or> ts_kind t \<in> set (lp_root_node_types profile)" by blast
  from spec_ok [OF build_partition_spec [of "xe_decode_relations env" "xe_encode_relations env" request, OF assms(10)] ontology_covers [OF assms(11)]]
  obtain p where p: "build_partition (xe_unicode env) (xe_encode_relations env) (xe_decode_relations env) request snap node = Inr p" by blast
  have "read_snapshotted_source env snap d = Inr source" using assms(2-5) by (simp add: read_snapshotted_source_def)
  then have "parsed_partition env request snap profile key d = Inr (set_artifact_key key p, diagnostics)"
    using assms(1) node(1) p by (simp add: parsed_partition_def parse_file_def lift_result_def invalid_input_run_def)
  moreover have "rows_mirror (ss_path snap) (set_artifact_key key p) node" "rows_closed (request_allowlist request) (set_artifact_key key p)"
    using build_partition_rows [of "xe_decode_relations env" "xe_encode_relations env" request, OF assms(10) p]
    by (simp_all add: set_artifact_key_mirror rows_closed_def)
  ultimately show ?thesis using node(2-5) by blast
qed

text \<open>The source \<open>fn f() {}\<close>, with the tree of the Rust grammar.\<close>

definition sample_ts_tree :: ts_node where
  "sample_ts_tree =
     TsNode ''source_file'' True 0 0 0 9
       [TsNode ''function_item'' True 0 0 0 9
          [TsNode ''fn'' False 0 0 0 2 [] [] [], TsNode ''identifier'' True 0 0 3 4 [] [] [],
           TsNode ''parameters'' True 0 0 4 6 [] [] [], TsNode ''block'' True 0 0 7 9 [] [] []]
          [None, Some ''name'', Some ''parameters'', Some ''body''] [(''name'', 1), (''parameters'', 2), (''body'', 3)]]
       [None] []"

definition sample_grammars :: grammar_env where
  "sample_grammars = \<lparr>gr_load_error = (\<lambda>_. None), gr_parse = (\<lambda>_ _. Some sample_ts_tree), gr_node_types = (\<lambda>_. [])\<rparr>"

theorem parsed_source_in_graph_witness:
  "\<exists>p diagnostics node. parsed_partition (sample_exec_env\<lparr>xe_parse := parse_source ascii_tables sample_grammars\<rparr>)
       sample_request sample_snap rust_profile ''key'' [Staged (ss_absolute_path sample_snap) \<mapsto> sample_source] = Inr (p, diagnostics)
     \<and> diagnostics = [] \<and> normalizes sample_source sample_ts_tree node \<and> rows_mirror ''src/lib.rs'' p node"
proof -
  let ?env = "sample_exec_env\<lparr>xe_parse := parse_source ascii_tables sample_grammars\<rparr>"
  have "utf8_valid sample_source" by code_simp
  moreover have "grammar_language rust_profile = Some GrammarRust" "lp_language rust_profile \<noteq> ''markdown''"
    "ts_kind sample_ts_tree \<in> set (lp_root_node_types rust_profile)" by code_simp+
  ultimately show ?thesis
    using parsed_source_in_graph [of ?env sample_grammars "[Staged (ss_absolute_path sample_snap) \<mapsto> sample_source]" sample_snap sample_source
        rust_profile GrammarRust sample_ts_tree sample_request "''key''"]
    by (auto simp: sample_grammars_def sample_request_def)
qed

section \<open>From the rows to a loaded database\<close>

text \<open>
  C13. What is staged can be loaded. Of partitions over the tables and relations of the shipped
  ontology, staging returns COPY statements with which both database writers run one schedule until the
  first error. Its first phase creates, before any row is loaded, every node table that is loaded and, for
  every connector, a relation table between the connector's tables with the connector's role. Every COPY
  statement follows once, in order; no table with rows gets more of them before its primary-key index
  exists, and no connector is loaded before all node tables are indexed, each of them once.
\<close>

theorem staged_graph_loads:
  assumes "staging_fits env parts" and "list_all (node_known parts) (endpoint_requests parts)"
    and "0 < chunk_limit" and "chunk_limit \<le> 2 ^ 62" and "output_chunk_limit \<le> 2 ^ 62"
    and "fst ` set (staged_nodes parts) \<subseteq> set schema_node_types"
    and "fst ` set (accepted_edges shipped_relation_types parts) \<subseteq> rs_name ` set shipped_relation_types"
    and "rq_schema_statements request = []"
  shows "\<exists>a result w'. with_limits shipped_relation_types defer_disposal process_id sequence dir chunk_limit output_chunk_limit = Inr a
     \<and> finish env (add_parts env parts (a, w)) = Inr (result, w')
     \<and> (let load = graph_write_request request (stg_copy_statements result) external;
            tables = fst ` set (staged_nodes parts) \<union> fst ` set (accepted_edges shipped_relation_types parts)
        in write_graph_rows preseed candidate_exists connect query (Some execute) request (stg_copy_statements result) external =
             try_io (prepare_candidate preseed candidate_exists load) (\<lambda>_. run_phases execute (load_schedule load) 0)
         \<and> write_graph_rows preseed candidate_exists connect query None request (stg_copy_statements result) external =
             try_io (try_io (prepare_candidate preseed candidate_exists load) (\<lambda>_. try_io connect (\<lambda>_.
               run_phases (execute_inline query) (load_schedule load) 0))) (\<lambda>_ w. (Inr 0, w))
         \<and> (\<exists>phases. load_schedule load = SchemaPhase True (created_tables load) # phases)
         \<and> (\<forall>t \<in> tables. \<exists>columns. node_table_sql t columns \<in> set (created_tables load))
         \<and> (\<forall>c \<in> set (staged_connectors shipped_relation_types parts). \<exists>from_tables to_tables.
              cr_from_type c \<in> set from_tables \<and> cr_to_type c \<in> set to_tables
              \<and> relation_table_sql (connector_table (connector_group_of c)) from_tables to_tables (cr_role c) \<in> set (created_tables load))
         \<and> load_ordered {} {} (load_schedule load)
         \<and> List.map_filter phase_copy (load_schedule load) = enumerate 0 (stg_copy_statements result)
         \<and> set (List.map_filter phase_index (load_schedule load)) = tables)"
proof -
  let ?specs = shipped_relation_types
  from run_collected [OF assms(1,3-5), of ?specs defer_disposal process_id sequence dir w] obtain a s a' w1 where
    new: "with_limits ?specs defer_disposal process_id sequence dir chunk_limit output_chunk_limit = Inr a" "add_parts env parts (a, w) = (a', w1)"
    and a': "ac_relation_types a' = ?specs" "accumulator_ok a'"
    and ready: "ac_pending_error a' = None" "ac_raw_records a' = Some s" "spool_ready (sv_raw env) s w1 (raw_parts 0 parts)" "sl_root s = ac_run_root a'"
      "sl_prefix s = ''staged''" by metis
  from finish_ok [OF assms(1) a'(2) assms(2) ready] obtain result w' where
    run: "finish env (a', w1) = Inr (result, w')" "staged_result env a' ?specs parts result w'" by (auto simp: a')
  from staged_copies [OF run(2)] obtain nodes connectors where
    copies: "stg_copy_statements result = map (\<lambda>(table, path). json_copy_statement table path) nodes
        @ map (\<lambda>(grp, path). connector_copy_statement grp path) connectors"
      "fst ` set nodes = fst ` set (staged_nodes parts) \<union> fst ` set (accepted_edges ?specs parts)"
      "fst ` set connectors \<subseteq> connector_group_of ` set (staged_connectors ?specs parts)" by blast
  have relation: "cr_relation c \<in> rs_name ` set ?specs" if c: "c \<in> set (staged_connectors ?specs parts)" for c
  proof -
    from c obtain e where "e \<in> set (accepted_edges ?specs parts)" "c \<in> set (edge_connectors (staged_types parts) e)"
      by (auto simp: staged_connectors_def)
    then have "cr_relation c \<in> fst ` set (accepted_edges ?specs parts)" by (force simp: edge_connectors_def)
    with assms(7) show ?thesis by blast
  qed
  have plain: "plain_name t" if "t \<in> set schema_node_types \<union> rs_name ` set ?specs" for t
    using that ontology_names_plain unfolding list_all_iff by blast
  have tables: "fst ` set nodes \<subseteq> set schema_node_types \<union> rs_name ` set ?specs" using copies(2) assms(6,7) by blast
  let ?load = "graph_write_request request (stg_copy_statements result) external"
  have load: "wq_defer_hash_indexes ?load" "wq_copy_statements ?load = stg_copy_statements result"
    by (simp_all add: graph_write_request_def Let_def)
  have n: "list_all (\<lambda>(table, path). plain_name table) nodes"
    unfolding list_all_iff using plain tables by auto
  have c: "list_all (\<lambda>(grp, path). plain_name (fst grp)) connectors"
    unfolding list_all_iff
  proof
    fix x
    assume "x \<in> set connectors"
    with copies(3) obtain c where "c \<in> set (staged_connectors ?specs parts)" "fst x = connector_group_of c" by blast
    with relation plain show "case x of (grp, path) \<Rightarrow> plain_name (fst grp)" by (simp add: split_beta connector_group_of_def)
  qed
  note ordered = database_load_ordered [OF load(1) _ n c, unfolded load(2), OF copies(1)]
  have created: "\<forall>t \<in> fst ` set nodes. \<exists>columns. node_table_sql t columns \<in> set (created_tables ?load)"
    using tables table_created_in_schema [OF _ assms(8)] by blast
  have related: "\<forall>c \<in> set (staged_connectors ?specs parts). \<exists>from_tables to_tables.
      cr_from_type c \<in> set from_tables \<and> cr_to_type c \<in> set to_tables
      \<and> relation_table_sql (connector_table (connector_group_of c)) from_tables to_tables (cr_role c) \<in> set (created_tables ?load)"
    using connector_created_in_schema [OF _ relation assms(8)] by blast
  have fin: "finish env (add_parts env parts (a, w)) = Inr (result, w')" using new(2) run(1) by simp
  have isolated: "write_graph_rows preseed candidate_exists connect query (Some execute) request (stg_copy_statements result) external =
      try_io (prepare_candidate preseed candidate_exists ?load) (\<lambda>_. run_phases execute (load_schedule ?load) 0)"
    unfolding write_graph_rows_def write_database_with_metrics_def option.case by (rule ordered [THEN conjunct1])
  have "write_database_once preseed candidate_exists connect query ?load = try_io (prepare_candidate preseed candidate_exists ?load)
      (\<lambda>_. try_io connect (\<lambda>_. run_phases (execute_inline query) (load_schedule ?load) 0))"
    by (rule ordered [THEN conjunct2, THEN conjunct1])
  then have once: "write_graph_rows preseed candidate_exists connect query None request (stg_copy_statements result) external =
      try_io (try_io (prepare_candidate preseed candidate_exists ?load) (\<lambda>_. try_io connect (\<lambda>_.
        run_phases (execute_inline query) (load_schedule ?load) 0))) (\<lambda>_ w. (Inr 0, w))"
    unfolding write_graph_rows_def write_database_with_metrics_def option.case by (rule arg_cong)
  note order = ordered [THEN conjunct2, THEN conjunct2]
  show ?thesis
    unfolding Let_def copies(2) [symmetric]
    by (rule exI [of _ a], rule exI [of _ result], rule exI [of _ w'])
      (intro conjI new(1) fin isolated once schedule_creates_first created related order [THEN conjunct1]
        order [THEN conjunct2, THEN conjunct1] order [THEN conjunct2, THEN conjunct2])
qed

lemma closed_staged:
  "staged_edges closed_parts = [(''Calls'', ''e1'', edge_fields (sample_edge ''n2'' ''n1''))]"
  "staged_types closed_parts = [(''n1'', ''Function''), (''n2'', ''Method'')]"
  "map fst (staged_nodes closed_parts) = [''Method'']"
  by code_simp+

theorem staged_graph_loads_witness:
  "\<exists>a result w'. with_limits shipped_relation_types False 7 0 ''stage'' 64 16 = Inr a
     \<and> finish (table_env closed_parts) (add_parts (table_env closed_parts) closed_parts (a, \<lparr>ws_files = Map.empty, ws_metrics = empty_metrics\<rparr>)) = Inr (result, w')
     \<and> (let load = graph_write_request sample_request (stg_copy_statements result) True
        in load_ordered {} {} (load_schedule load)
         \<and> set (List.map_filter phase_index (load_schedule load)) = {''Method'', ''Calls''}
         \<and> (\<exists>columns. node_table_sql ''Method'' columns \<in> set (created_tables load)))"
proof -
  have fits: "staging_fits (table_env closed_parts) closed_parts" by (rule small_parts_fit) code_simp
  have "rows_closed default_allowlist (sample_partition_of [sample_node ''map'' [], (sample_node ''m'' [])\<lparr>gn_id := ''n2'', gn_table := ''Method''\<rparr>]
      [sample_edge ''n2'' ''n1''])" by code_simp
  then have "parts_closed closed_parts" by (auto simp: parts_closed_def closed_parts_def)
  then have known: "list_all (node_known closed_parts) (endpoint_requests closed_parts)" by (rule closed_parts_known)
  have edges: "map fst (accepted_edges shipped_relation_types closed_parts) = [''Calls'']"
    unfolding accepted_edges_def closed_staged by code_simp
  have tables: "fst ` set (staged_nodes closed_parts) = {''Method''}"
    "fst ` set (accepted_edges shipped_relation_types closed_parts) = {''Calls''}"
    using arg_cong [OF closed_staged(3), of set] arg_cong [OF edges, of set] by simp_all
  have "''Method'' \<in> set schema_node_types" "''Calls'' \<in> set (map rs_name shipped_relation_types)"
    by code_simp+
  then have names: "fst ` set (staged_nodes closed_parts) \<subseteq> set schema_node_types"
    "fst ` set (accepted_edges shipped_relation_types closed_parts) \<subseteq> rs_name ` set shipped_relation_types"
    unfolding tables set_map by blast+
  have "rq_schema_statements sample_request = []" by (simp add: sample_request_def)
  from staged_graph_loads [OF fits known _ _ _ names this, of 64 16 False 7 0 "''stage''" "\<lparr>ws_files = Map.empty, ws_metrics = empty_metrics\<rparr>" True
      "\<lambda>_ w. (Inr (), w)" "\<lambda>_. False" "\<lambda>w. (Inr (), w)" "\<lambda>_ w. (Inr (), w)" "\<lambda>_ w. (Inr 0, w)"]
  show ?thesis unfolding tables Let_def by auto
qed

end
